(* ===== verification/Prelude.thy ===== *)
theory Prelude
  imports "HOL-Library.Word" "HOL-Library.Signed_Division"
begin

unbundle bit_operations_syntax

text \<open>
  Shared vocabulary of the development: the outcome of a Go function that may panic, big-endian
  byte encodings (Go's \<open>encoding/binary\<close>), the built-in \<open>copy\<close> on slices, and the named
  collections of facts the component theories add to.
\<close>

named_theorems res_simps \<open>elimination of the panic monad\<close>
named_theorems len_simps \<open>lengths of encodings\<close>
named_theorems inv_intros \<open>preservation of component invariants\<close>

section \<open>Panics\<close>

text \<open>
  Every \<open>panic(...)\<close> of the modelled packages is a constructor; run-time panics of the language
  (an index, slice bound or slice length out of range, a nil dereference, a division by zero, unbounded recursion) are
  \<open>IndexOutOfRange\<close>, \<open>MakeSliceLen\<close>, \<open>NilDereference\<close>, \<open>DivisionByZero\<close> and \<open>StackOverflow\<close>.
\<close>

datatype panic =
    InvalidPC
  | InvalidInstruction
  | InvalidInstructionFunc
  | InstructionDivideByZero
  | BranchInDelaySlot
  | JumpInDelaySlot
  | InvalidRegister
  | UnalignedMemoryAccess
  | InvalidPageAddr
  | GindexTooDeep
  | TraversedTooDeep
  | DifferentMemAccess
  | DisjointedMemAccess
  | PreimageOffsetOutOfBounds
  | EmptyActiveThreadStack
  | EmptyLeftThreadStack
  | EmptyRightThreadStack
  | InvalidEmptyThreadStack
  | PostStateThreadStackEmpty
  | UnrecognizedSyscall
  | InvalidRMWInstruction
  | InvalidWitnessLength
  | MaxDepthBelowPosition
  | BufferTooSmall
  | MakeSliceLen
  | ChannelNotReady
  | InvalidFlushChannel
  | InvalidByteOffset
  | InvalidSixBits
  | InvalidChunkOffset
  | DataDidNotFit
  | PopEmptySpan
  | NoOriginPrepared
  | BadBit
  | SpanNotOrdered
  | StageAlreadyActive
  | UnknownStage
  | StackOverflow
  | IndexOutOfRange
  | NilDereference
  | DivisionByZero

type_synonym 'a res = "panic + 'a"

definition bind_res :: "'e + 'a \<Rightarrow> ('a \<Rightarrow> 'e + 'b) \<Rightarrow> 'e + 'b" where
  "bind_res m f = (case m of Inl e \<Rightarrow> Inl e | Inr x \<Rightarrow> f x)"

definition guard_res :: "bool \<Rightarrow> 'e \<Rightarrow> 'e + unit" where
  "guard_res b e = (if b then Inr () else Inl e)"

lemma bind_res_Inl [simp]: "bind_res (Inl e) f = Inl e"
  by (simp add: bind_res_def)

lemma bind_res_Inr [simp]: "bind_res (Inr x) f = f x"
  by (simp add: bind_res_def)

lemma bind_res_eq_Inr [res_simps]:
  "bind_res m f = Inr y \<longleftrightarrow> (\<exists>x. m = Inr x \<and> f x = Inr y)"
  by (cases m) simp_all

lemma bind_res_eq_Inl [res_simps]:
  "bind_res m f = Inl e \<longleftrightarrow> m = Inl e \<or> (\<exists>x. m = Inr x \<and> f x = Inl e)"
  by (cases m) auto

lemma bind_res_assoc: "bind_res (bind_res m f) g = bind_res m (\<lambda>x. bind_res (f x) g)"
  by (cases m) simp_all

lemma bind_res_cong [fundef_cong]:
  assumes "m = m'" and "\<And>x. m' = Inr x \<Longrightarrow> f x = f' x"
  shows "bind_res m f = bind_res m' f'"
  using assms by (cases m') simp_all

lemma guard_res_eq_Inr [simp]: "guard_res b e = Inr u \<longleftrightarrow> b"
  by (simp add: guard_res_def)

lemma guard_res_eq_Inl [simp]: "guard_res b e = Inl e' \<longleftrightarrow> \<not> b \<and> e = e'"
  by (auto simp: guard_res_def)

lemma bind_guard_res: "bind_res (guard_res b e) f = (if b then f () else Inl e)"
  by (simp add: guard_res_def)

text \<open>
  \<open>post E Q r\<close>: the run \<open>r\<close> panics only with a panic of \<open>E\<close>, and a result it returns satisfies \<open>Q\<close>.
  The rules follow the shape of a definition built with \<^const>\<open>bind_res\<close>.
\<close>

definition post :: "'e set \<Rightarrow> ('a \<Rightarrow> bool) \<Rightarrow> 'e + 'a \<Rightarrow> bool" where
  "post E Q r = (case r of Inl e \<Rightarrow> e \<in> E | Inr x \<Rightarrow> Q x)"

lemma post_Inr [simp]: "post E Q (Inr x) \<longleftrightarrow> Q x"
  by (simp add: post_def)

lemma post_Inl [simp]: "post E Q (Inl e) \<longleftrightarrow> e \<in> E"
  by (simp add: post_def)

lemma post_bind:
  assumes "post E R m" and "\<And>x. R x \<Longrightarrow> post E Q (f x)"
  shows "post E Q (bind_res m f)"
  using assms by (cases m) simp_all

lemma post_weaken: "post E Q r \<Longrightarrow> E \<subseteq> E' \<Longrightarrow> (\<And>x. Q x \<Longrightarrow> Q' x) \<Longrightarrow> post E' Q' r"
  by (cases r) auto

lemma post_if: "(b \<Longrightarrow> post E Q x) \<Longrightarrow> (\<not> b \<Longrightarrow> post E Q y) \<Longrightarrow> post E Q (if b then x else y)"
  by simp

lemma post_both: "post E Q x \<Longrightarrow> post E Q y \<Longrightarrow> post E Q (if b then x else y)"
  by simp

lemma post_result: "post E Q r \<Longrightarrow> r = Inr x \<Longrightarrow> Q x"
  by simp

lemma post_panic: "post E Q r \<Longrightarrow> r = Inl e \<Longrightarrow> e \<in> E"
  by simp

lemma post_split: "(\<And>a b. x = (a, b) \<Longrightarrow> post E Q (f a b)) \<Longrightarrow> post E Q (case x of (a, b) \<Rightarrow> f a b)"
  by (cases x) simp

lemma post_no_panic: "post {} Q r \<longleftrightarrow> (\<exists>x. r = Inr x \<and> Q x)"
  by (cases r) simp_all

section \<open>Big-endian encodings\<close>

type_synonym byte = "8 word"

fun be_enc :: "nat \<Rightarrow> nat \<Rightarrow> byte list" where
  "be_enc 0 v = []"
| "be_enc (Suc n) v = be_enc n (v div 256) @ [of_nat v]"

definition be_dec :: "byte list \<Rightarrow> nat" where
  "be_dec bs = foldl (\<lambda>a b. a * 256 + unat b) 0 bs"

lemma length_be_enc [simp, len_simps]: "length (be_enc n v) = n"
  by (induction n arbitrary: v) simp_all

lemma be_dec_snoc: "be_dec (bs @ [b]) = be_dec bs * 256 + unat b"
  by (simp add: be_dec_def)

lemma be_dec_Nil [simp]: "be_dec [] = 0"
  by (simp add: be_dec_def)

lemma unat_byte_less: "unat (b :: byte) < 256"
proof -
  have "unat b < 2 ^ LENGTH(8)" by (rule unsigned_less)
  then show ?thesis by simp
qed

lemma unat_u64_less: "unat (v :: 64 word) < 18446744073709551616"
proof -
  have "unat v < 2 ^ LENGTH(64)" by (rule unsigned_less)
  then show ?thesis by simp
qed

lemma unat_byte_of_nat: "unat (of_nat v :: byte) = v mod 256"
  by (simp add: unat_of_nat)

lemma be_dec_append: "be_dec (xs @ ys) = be_dec xs * 256 ^ length ys + be_dec ys"
  by (induction ys rule: rev_induct) (simp_all add: be_dec_snoc algebra_simps flip: append_assoc)

lemma be_dec_enc: "be_dec (be_enc n v) = v mod 256 ^ n"
proof (induction n arbitrary: v)
  case 0
  then show ?case by simp
next
  case (Suc n)
  have "v mod (256 * 256 ^ n) = 256 * (v div 256 mod 256 ^ n) + v mod 256"
    by (rule mod_mult2_eq)
  with Suc show ?case by (simp add: be_dec_snoc unat_byte_of_nat)
qed

lemma be_dec_bound: "be_dec bs < 256 ^ length bs"
proof (induction bs rule: rev_induct)
  case Nil
  then show ?case by simp
next
  case (snoc b bs)
  have "unat b < 256" by (rule unat_byte_less)
  with snoc show ?case by (simp add: be_dec_snoc)
qed

lemma be_enc_dec: "be_enc (length bs) (be_dec bs) = bs"
proof (induction bs rule: rev_induct)
  case Nil
  then show ?case by simp
next
  case (snoc b bs)
  have b: "unat b < 256" by (rule unat_byte_less)
  have "(be_dec bs * 256 + unat b) div 256 = be_dec bs" using b by simp
  moreover have "(of_nat (be_dec bs * 256 + unat b) :: byte) = b"
  proof (rule word_unat_eq_iff [THEN iffD2])
    show "unat (of_nat (be_dec bs * 256 + unat b) :: byte) = unat b"
      using b by (simp only: unat_byte_of_nat) simp
  qed
  ultimately show ?case using snoc by (simp add: be_dec_snoc)
qed

text \<open>\<open>binary.BigEndian.PutUint64\<close>, \<open>AppendUint64\<close> and \<open>Uint64\<close>.\<close>

definition put_u64 :: "64 word \<Rightarrow> byte list" where
  "put_u64 v = be_enc 8 (unat v)"

definition get_u64 :: "byte list \<Rightarrow> 64 word" where
  "get_u64 bs = of_nat (be_dec (take 8 bs))"

definition get_u32 :: "byte list \<Rightarrow> 32 word" where
  "get_u32 bs = of_nat (be_dec (take 4 bs))"

lemma length_put_u64 [simp, len_simps]: "length (put_u64 v) = 8"
  by (simp add: put_u64_def)

lemma get_put_u64_append: "get_u64 (put_u64 v @ rest) = v"
proof -
  have "be_dec (be_enc 8 (unat v)) = unat v"
    using unat_u64_less [of v] by (simp add: be_dec_enc)
  then show ?thesis by (simp add: get_u64_def put_u64_def)
qed

lemma get_put_u64 [simp]: "get_u64 (put_u64 v) = v"
  using get_put_u64_append [of v "[]"] by simp

lemma put_get_u64: "length bs = 8 \<Longrightarrow> put_u64 (get_u64 bs) = bs"
proof -
  assume len: "length bs = 8"
  then have "be_dec bs < 2 ^ 64" using be_dec_bound [of bs] by simp
  then have "unat (get_u64 bs) = be_dec bs"
    using len by (simp add: get_u64_def unat_of_nat)
  then show ?thesis using be_enc_dec [of bs] len by (simp add: put_u64_def)
qed

lemma put_u64_inject [simp]: "put_u64 a = put_u64 b \<longleftrightarrow> a = b"
  by (metis get_put_u64)

section \<open>Words read as natural numbers\<close>

lemma unat_and_mask: "unat ((w::'a::len word) AND mask n) = unat w mod 2 ^ n"
proof -
  have "unat (w AND mask n) = unat (take_bit n w)" by (simp only: take_bit_eq_mask)
  also have "\<dots> = take_bit n (unat w)" by (rule unsigned_take_bit_eq)
  finally show ?thesis by (simp only: take_bit_eq_mod)
qed
lemma unat_drop_bit_div: "unat (drop_bit n (w::'a::len word)) = unat w div 2 ^ n"
proof -
  have "unat (drop_bit n w) = drop_bit n (take_bit LENGTH('a) (unat w))" by (rule unsigned_drop_bit_eq)
  also have "\<dots> = drop_bit n (unat w)" by (simp only: take_bit_nat_eq_self unsigned_less)
  finally show ?thesis by (simp only: drop_bit_eq_div)
qed
lemma bit_shl: "bit (push_bit n (w :: 'a :: len word)) k \<longleftrightarrow> n \<le> k \<and> k < LENGTH('a) \<and> bit w (k - n)"
  by (simp add: bit_push_bit_iff possible_bit_def)

lemma unat_or_pow: assumes "unat (k::'a::len word) < 2 ^ n" "n < LENGTH('a)"
  shows "unat (push_bit n 1 OR k) = 2 ^ n + unat k"
proof -
  have k: "k = take_bit n k" 
    by (rule word_unat_eq_iff [THEN iffD2]) (simp only: unsigned_take_bit_eq take_bit_nat_eq_self assms(1))
  have "push_bit n 1 OR k = push_bit n 1 + k"
  proof (rule disjunctive_add [symmetric])
    fix i show "\<not> bit (push_bit n 1 :: 'a word) i \<or> \<not> bit k i"
      by (subst k) (auto simp only: bit_push_bit_iff bit_1_iff bit_take_bit_iff)
  qed
  moreover have "unat (push_bit n 1 :: 'a word) = 2 ^ n"
  proof -
    have "unat (push_bit n 1 :: 'a word) = take_bit LENGTH('a) (push_bit n (unat (1 :: 'a word)))"
      by (rule unsigned_push_bit_eq)
    also have "\<dots> = take_bit LENGTH('a) (2 ^ n)" by (simp only: unsigned_1 push_bit_of_1)
    also have "\<dots> = 2 ^ n" using assms(2) by (intro take_bit_nat_eq_self) simp
    finally show ?thesis .
  qed
  moreover have "2 ^ n + unat k < 2 ^ LENGTH('a)"
  proof -
    have "2 ^ n + unat k < 2 ^ Suc n" using assms(1) by simp
    also have "\<dots> \<le> 2 ^ LENGTH('a)" using assms(2) by (intro power_increasing) simp_all
    finally show ?thesis .
  qed
  ultimately show ?thesis by (simp add: unat_word_ariths)
qed

text \<open>The ancestors of a generalized index: the walk \<open>k, k / 2, k / 4, ...\<close>.\<close>

lemma div_pow_path: "(\<exists>n. j = k div 2 ^ n) \<longleftrightarrow> j = k \<or> (\<exists>n. j = k div (2::nat) div 2 ^ n)"
proof
  assume "\<exists>n. j = k div 2 ^ n"
  then obtain n where "j = k div 2 ^ n" by blast
  then show "j = k \<or> (\<exists>n. j = k div 2 div 2 ^ n)"
    by (cases n) (auto simp: div_mult2_eq)
next
  assume "j = k \<or> (\<exists>n. j = k div 2 div 2 ^ n)"
  then show "\<exists>n. j = k div 2 ^ n"
  proof
    assume "j = k"
    then have "j = k div 2 ^ 0" by simp
    then show ?thesis by blast
  next
    assume "\<exists>n. j = k div 2 div 2 ^ n"
    then obtain n where "j = k div 2 ^ Suc n" by (auto simp: div_mult2_eq)
    then show ?thesis by blast
  qed
qed

section \<open>Slices\<close>

text \<open>
  \<open>copy(dst[off:], src)\<close> for \<open>off \<le> len(dst)\<close>: as many bytes as fit, the rest of \<open>dst\<close> kept.
\<close>

definition copy_at :: "nat \<Rightarrow> 'a list \<Rightarrow> 'a list \<Rightarrow> 'a list" where
  "copy_at off src dst =
     take off dst @ take (length dst - off) src @ drop (off + length src) dst"

lemma length_copy_at [simp, len_simps]: "off \<le> length dst \<Longrightarrow> length (copy_at off src dst) = length dst"
  by (auto simp: copy_at_def min_def)

lemma nth_copy_at:
  assumes "off \<le> length dst" and "i < length dst"
  shows "copy_at off src dst ! i =
    (if off \<le> i \<and> i < off + length src then src ! (i - off) else dst ! i)"
  using assms by (auto simp: copy_at_def nth_append min_def)

text \<open>A run of a partial operation over a list, stopping at the first panic.\<close>

fun fold_res :: "('x \<Rightarrow> 's \<Rightarrow> 'e + 's) \<Rightarrow> 'x list \<Rightarrow> 's \<Rightarrow> 'e + 's" where
  "fold_res f [] s = Inr s"
| "fold_res f (x # xs) s = bind_res (f x s) (fold_res f xs)"

lemma fold_res_append: "fold_res f (xs @ ys) s = bind_res (fold_res f xs s) (fold_res f ys)"
  by (induction xs arbitrary: s) (simp_all add: bind_res_assoc cong: bind_res_cong)

lemma fold_res_invariant:
  assumes "\<And>x s s'. x \<in> set xs \<Longrightarrow> P s \<Longrightarrow> f x s = Inr s' \<Longrightarrow> P s'"
    and "P s" and "fold_res f xs s = Inr s'"
  shows "P s'"
  using assms
proof (induction xs arbitrary: s)
  case Nil
  then show ?case by simp
next
  case (Cons x xs)
  from Cons.prems(3) obtain t where t: "f x s = Inr t" "fold_res f xs t = Inr s'"
    by (auto simp: res_simps)
  have "P t" using Cons.prems(1,2) t(1) by auto
  then show ?case using Cons.IH [OF _ _ t(2)] Cons.prems(1) by auto
qed

end
