(* ===== verification/Arch.thy ===== *)
theory Arch
  imports Prelude
begin

text \<open>
  \<open>cannon/mipsevm/arch\<close> (the \<open>cannon64\<close> build: \<open>arch64.go\<close> and \<open>arch.go\<close>), the memory geometry
  of \<open>memory/memory.go\<close>, \<open>register/calling_convention.go\<close> and the small data of \<open>mipsevm/state.go\<close>
  and \<open>mipsevm/witness.go\<close>.  \<open>arch.IsMips32\<close> is a compile-time constant, false in this build; the
  branches it guards are kept in the model, under the constant of the same name.
\<close>

section \<open>Words and addresses\<close>

type_synonym Word = "64 word"

definition WordSize :: nat where [simp]: "WordSize = 64"
definition IsMips32 :: bool where [simp]: "IsMips32 = (WordSize = 32)"
definition WordSizeBytes :: Word where [simp]: "WordSizeBytes = 8"
definition AddressMask :: Word where [simp]: "AddressMask = 0xFFFFFFFFFFFFFFF8"
definition ExtMask :: Word where [simp]: "ExtMask = 0x7"
definition PageAddrSize :: nat where [simp]: "PageAddrSize = 12"
definition PageKeySize :: nat where [simp]: "PageKeySize = WordSize - PageAddrSize"
definition PageSize :: nat where [simp]: "PageSize = 4096"
definition PageAddrMask :: Word where [simp]: "PageAddrMask = 4095"
definition PageKeyMask :: nat where [simp]: "PageKeyMask = 2 ^ PageKeySize - 1"
definition MemProofLeafCount :: nat where [simp]: "MemProofLeafCount = WordSize - 4"

definition HeapStart :: Word where [simp]: "HeapStart = 0x0000100000000000"
definition HeapEnd :: Word where [simp]: "HeapEnd = 0x0000600000000000"
definition ProgramBreak :: Word where [simp]: "ProgramBreak = 0x0000400000000000"
definition HighMemoryStart :: Word where [simp]: "HighMemoryStart = 0x00007FFFFFFFF000"

text \<open>\<open>arch.SignedInteger\<close> is \<open>int64\<close>: \<open>SignedInteger(w)\<close> reads the word in two's complement.\<close>

abbreviation SignedInteger :: "Word \<Rightarrow> int" where
  "SignedInteger w \<equiv> sint w"

section \<open>Byte order\<close>

definition bo_Word :: "byte list \<Rightarrow> Word" where
  "bo_Word b = get_u64 b"

definition bo_AppendWord :: "byte list \<Rightarrow> Word \<Rightarrow> byte list" where
  "bo_AppendWord b v = b @ put_u64 v"

definition bo_PutWord :: "Word \<Rightarrow> byte list" where
  "bo_PutWord v = put_u64 v"

lemma length_bo_PutWord [simp, len_simps]: "length (bo_PutWord v) = 8"
  by (simp add: bo_PutWord_def)

lemma length_bo_AppendWord [simp, len_simps]: "length (bo_AppendWord b v) = length b + 8"
  by (simp add: bo_AppendWord_def)

lemma bo_Word_PutWord [simp]: "bo_Word (bo_PutWord v) = v"
  by (simp add: bo_Word_def bo_PutWord_def)

lemma bo_PutWord_Word: "length bs = 8 \<Longrightarrow> bo_PutWord (bo_Word bs) = bs"
  by (simp add: bo_Word_def bo_PutWord_def put_get_u64)

section \<open>System call numbers\<close>

definition SysMmap :: Word where [simp]: "SysMmap = 5009"
definition SysBrk :: Word where [simp]: "SysBrk = 5012"
definition SysClone :: Word where [simp]: "SysClone = 5055"
definition SysExitGroup :: Word where [simp]: "SysExitGroup = 5205"
definition SysRead :: Word where [simp]: "SysRead = 5000"
definition SysWrite :: Word where [simp]: "SysWrite = 5001"
definition SysFcntl :: Word where [simp]: "SysFcntl = 5070"
definition SysExit :: Word where [simp]: "SysExit = 5058"
definition SysSchedYield :: Word where [simp]: "SysSchedYield = 5023"
definition SysGetTID :: Word where [simp]: "SysGetTID = 5178"
definition SysFutex :: Word where [simp]: "SysFutex = 5194"
definition SysOpen :: Word where [simp]: "SysOpen = 5002"
definition SysNanosleep :: Word where [simp]: "SysNanosleep = 5034"
definition SysClockGetTime :: Word where [simp]: "SysClockGetTime = 5222"
definition SysGetpid :: Word where [simp]: "SysGetpid = 5038"

definition UndefinedSysNr :: Word where [simp]: "UndefinedSysNr = NOT 0"
definition SysMunmap :: Word where [simp]: "SysMunmap = 5011"
definition SysGetAffinity :: Word where [simp]: "SysGetAffinity = 5196"
definition SysMadvise :: Word where [simp]: "SysMadvise = 5027"
definition SysRtSigprocmask :: Word where [simp]: "SysRtSigprocmask = 5014"
definition SysSigaltstack :: Word where [simp]: "SysSigaltstack = 5129"
definition SysRtSigaction :: Word where [simp]: "SysRtSigaction = 5013"
definition SysPrlimit64 :: Word where [simp]: "SysPrlimit64 = 5297"
definition SysClose :: Word where [simp]: "SysClose = 5003"
definition SysPread64 :: Word where [simp]: "SysPread64 = 5016"
definition SysStat :: Word where [simp]: "SysStat = 5004"
definition SysFstat :: Word where [simp]: "SysFstat = 5005"
definition SysFstat64 :: Word where [simp]: "SysFstat64 = UndefinedSysNr"
definition SysOpenAt :: Word where [simp]: "SysOpenAt = 5247"
definition SysReadlink :: Word where [simp]: "SysReadlink = 5087"
definition SysReadlinkAt :: Word where [simp]: "SysReadlinkAt = 5257"
definition SysIoctl :: Word where [simp]: "SysIoctl = 5015"
definition SysEpollCreate1 :: Word where [simp]: "SysEpollCreate1 = 5285"
definition SysPipe2 :: Word where [simp]: "SysPipe2 = 5287"
definition SysEpollCtl :: Word where [simp]: "SysEpollCtl = 5208"
definition SysEpollPwait :: Word where [simp]: "SysEpollPwait = 5272"
definition SysGetRandom :: Word where [simp]: "SysGetRandom = 5313"
definition SysUname :: Word where [simp]: "SysUname = 5061"
definition SysStat64 :: Word where [simp]: "SysStat64 = UndefinedSysNr"
definition SysGetuid :: Word where [simp]: "SysGetuid = 5100"
definition SysGetgid :: Word where [simp]: "SysGetgid = 5102"
definition SysLlseek :: Word where [simp]: "SysLlseek = UndefinedSysNr"
definition SysMinCore :: Word where [simp]: "SysMinCore = 5026"
definition SysTgkill :: Word where [simp]: "SysTgkill = 5225"
definition SysGetRLimit :: Word where [simp]: "SysGetRLimit = 5095"
definition SysLseek :: Word where [simp]: "SysLseek = 5008"
definition SysSetITimer :: Word where [simp]: "SysSetITimer = 5036"
definition SysTimerCreate :: Word where [simp]: "SysTimerCreate = 5216"
definition SysTimerSetTime :: Word where [simp]: "SysTimerSetTime = 5217"
definition SysTimerDelete :: Word where [simp]: "SysTimerDelete = 5220"

section \<open>Registers\<close>

definition RegV0 :: nat where [simp]: "RegV0 = 2"
definition RegA0 :: nat where [simp]: "RegA0 = 4"
definition RegA1 :: nat where [simp]: "RegA1 = 5"
definition RegA2 :: nat where [simp]: "RegA2 = 6"
definition RegA3 :: nat where [simp]: "RegA3 = 7"
definition RegSP :: nat where [simp]: "RegSP = 29"
definition RegRA :: nat where [simp]: "RegRA = 31"
definition RegSyscallNum :: nat where [simp]: "RegSyscallNum = RegV0"
definition RegSyscallErrno :: nat where [simp]: "RegSyscallErrno = RegA3"
definition RegSyscallRet1 :: nat where [simp]: "RegSyscallRet1 = RegV0"
definition RegSyscallParam1 :: nat where [simp]: "RegSyscallParam1 = RegA0"
definition RegSyscallParam2 :: nat where [simp]: "RegSyscallParam2 = RegA1"
definition RegSyscallParam3 :: nat where [simp]: "RegSyscallParam3 = RegA2"

text \<open>
  The register file is Go's \<open>[32]Word\<close>: a list of length 32 (an invariant of the machine).  A
  constant index is checked by the Go compiler; an index computed at run time is bounds-checked.
\<close>

type_synonym regfile = "Word list"

definition reg_get :: "regfile \<Rightarrow> Word \<Rightarrow> Word res" where
  "reg_get rs i = (if unat i < length rs then Inr (rs ! unat i) else Inl IndexOutOfRange)"

definition reg_set :: "regfile \<Rightarrow> Word \<Rightarrow> Word \<Rightarrow> regfile res" where
  "reg_set rs i v = (if unat i < length rs then Inr (rs[unat i := v]) else Inl IndexOutOfRange)"

section \<open>CPU scalars and VM status\<close>

record CpuScalars =
  PC :: Word
  NextPC :: Word
  LO :: Word
  HI :: Word

definition VMStatusValid :: byte where [simp]: "VMStatusValid = 0"
definition VMStatusInvalid :: byte where [simp]: "VMStatusInvalid = 1"
definition VMStatusPanic :: byte where [simp]: "VMStatusPanic = 2"
definition VMStatusUnfinished :: byte where [simp]: "VMStatusUnfinished = 3"

definition VmStatus :: "bool \<Rightarrow> byte \<Rightarrow> byte" where
  "VmStatus exited exitCode =
     (if \<not> exited then VMStatusUnfinished
      else if exitCode = 0 then VMStatusValid
      else if exitCode = 1 then VMStatusInvalid
      else VMStatusPanic)"

definition AppendBoolToWitness :: "byte list \<Rightarrow> bool \<Rightarrow> byte list" where
  "AppendBoolToWitness witnessData boolVal = (if boolVal then witnessData @ [1] else witnessData @ [0])"

lemma length_AppendBoolToWitness [simp, len_simps]:
  "length (AppendBoolToWitness w b) = length w + 1"
  by (simp add: AppendBoolToWitness_def)

end
