(* ===== verification/Page.thy ===== *)
theory Page
  imports Arch
begin

unbundle bit_operations_syntax

text \<open>
  \<open>cannon/mipsevm/memory/page.go\<close>: a 4 KiB page with a cache of the intermediate nodes of its
  Merkle tree.  \<open>crypto.Keccak256Hash\<close> (go-ethereum, not part of the repository) is the parameter
  \<open>keccak\<close> of every hashing definition.  Go's \<open>[32]byte\<close> is a byte list; the fixed-size arrays
  \<open>Page\<close>, \<open>Cache\<close> and \<open>Ok\<close> are functions of the index, every index the code computes being in
  range.
\<close>

type_synonym hash = "byte list"
type_synonym keccak_fn = "byte list \<Rightarrow> hash"

definition HashPair :: "keccak_fn \<Rightarrow> hash \<Rightarrow> hash \<Rightarrow> hash" where
  "HashPair keccak left right = keccak (left @ right)"

fun zeroHashes :: "keccak_fn \<Rightarrow> nat \<Rightarrow> hash" where
  "zeroHashes keccak 0 = replicate 32 0"
| "zeroHashes keccak (Suc i) = HashPair keccak (zeroHashes keccak i) (zeroHashes keccak i)"

record CachedPage =
  Data :: "nat \<Rightarrow> byte"
  Cache :: "nat \<Rightarrow> hash"
  Ok :: "nat \<Rightarrow> bool"

definition new_CachedPage :: CachedPage where
  "new_CachedPage = \<lparr>Data = (\<lambda>_. 0), Cache = (\<lambda>_. replicate 32 0), Ok = (\<lambda>_. False)\<rparr>"

definition page_bytes :: "(nat \<Rightarrow> byte) \<Rightarrow> nat \<Rightarrow> nat \<Rightarrow> byte list" where
  "page_bytes d from to = map d [from..<to]"

lemma length_page_bytes [simp, len_simps]: "length (page_bytes d a b) = b - a"
  by (simp add: page_bytes_def)

section \<open>Operations\<close>

text \<open>\<open>for k > 0 { p.Ok[k] = false; k >>= 1 }\<close>\<close>

fun clear_path :: "nat \<Rightarrow> (nat \<Rightarrow> bool) \<Rightarrow> (nat \<Rightarrow> bool)" where
  "clear_path k ok = (if k > 0 then clear_path (k div 2) (ok(k := False)) else ok)"

declare clear_path.simps [simp del]

definition page_invalidate :: "CachedPage \<Rightarrow> Word \<Rightarrow> CachedPage res" where
  "page_invalidate p pageAddr =
     (if unat pageAddr \<ge> PageSize then Inl InvalidPageAddr
      else Inr (p\<lparr>Ok := clear_path (unat (drop_bit (5 + 1) (push_bit PageAddrSize 1 OR pageAddr))) (Ok p)\<rparr>))"

definition InvalidateFull :: "CachedPage \<Rightarrow> CachedPage" where
  "InvalidateFull p = p\<lparr>Ok := (\<lambda>_. False)\<rparr>"

definition hash_bottom :: "keccak_fn \<Rightarrow> nat \<Rightarrow> CachedPage \<Rightarrow> CachedPage" where
  "hash_bottom keccak i p =
     (let j = PageSize div 32 div 2 + i div 64
      in if Ok p j then p
         else p\<lparr>Cache := (Cache p)(j := keccak (page_bytes (Data p) i (i + 64))),
                Ok := (Ok p)(j := True)\<rparr>)"

definition hash_layer :: "keccak_fn \<Rightarrow> nat \<Rightarrow> CachedPage \<Rightarrow> CachedPage" where
  "hash_layer keccak i p =
     (let j = i div 2
      in if Ok p j then p
         else p\<lparr>Cache := (Cache p)(j := HashPair keccak (Cache p i) (Cache p (i + 1))),
                Ok := (Ok p)(j := True)\<rparr>)"

text \<open>The two loops: \<open>i = 0, 64, ..., 4032\<close> and \<open>i = 126, 124, ..., 2\<close>.\<close>

definition page_MerkleRoot :: "keccak_fn \<Rightarrow> CachedPage \<Rightarrow> hash \<times> CachedPage" where
  "page_MerkleRoot keccak p =
     (let p1 = fold (hash_bottom keccak) (map ((*) 64) [0..<PageSize div 64]) p;
          p2 = fold (hash_layer keccak) (map ((*) 2) (rev [1..<PageSize div 64])) p1
      in (Cache p2 1, p2))"

definition page_MerkleizeSubtree :: "keccak_fn \<Rightarrow> CachedPage \<Rightarrow> nat \<Rightarrow> (hash \<times> CachedPage) res" where
  "page_MerkleizeSubtree keccak p gindex =
     (let p' = snd (page_MerkleRoot keccak p)
      in if gindex \<ge> PageSize div 32 then
           if gindex \<ge> PageSize div 32 * 2 then Inl GindexTooDeep
           else let nodeIndex = gindex mod 128
                in Inr (page_bytes (Data p') (nodeIndex * 32) (nodeIndex * 32 + 32), p')
         else Inr (Cache p' gindex, p'))"

section \<open>The reference tree\<close>

text \<open>
  \<open>subtree keccak f h i\<close> is the Merkle node of height \<open>h\<close> and index \<open>i\<close> over the bytes \<open>f\<close>, hashed
  afresh: what the caches must agree with.  \<open>page_node\<close> is the same tree of one page, addressed by
  generalized index as the code does.
\<close>

fun subtree :: "keccak_fn \<Rightarrow> (nat \<Rightarrow> byte) \<Rightarrow> nat \<Rightarrow> nat \<Rightarrow> hash" where
  "subtree keccak f 0 i = page_bytes f (i * 32) (i * 32 + 32)"
| "subtree keccak f (Suc h) i = HashPair keccak (subtree keccak f h (2 * i)) (subtree keccak f h (2 * i + 1))"

function page_node :: "keccak_fn \<Rightarrow> (nat \<Rightarrow> byte) \<Rightarrow> nat \<Rightarrow> hash" where
  "page_node keccak d g =
     (if g = 0 then []
      else if g \<ge> 128 then page_bytes d ((g - 128) * 32) ((g - 128) * 32 + 32)
      else HashPair keccak (page_node keccak d (2 * g)) (page_node keccak d (2 * g + 1)))"
  by pat_completeness auto
termination
  by (relation "measure (\<lambda>(keccak, d, g). 256 - g)") auto

declare page_node.simps [simp del]

lemma page_node_leaf: "128 \<le> g \<Longrightarrow> page_node keccak d g = page_bytes d ((g - 128) * 32) ((g - 128) * 32 + 32)"
  by (simp add: page_node.simps)

lemma page_node_inner:
  "0 < g \<Longrightarrow> g < 128 \<Longrightarrow>
   page_node keccak d g = HashPair keccak (page_node keccak d (2 * g)) (page_node keccak d (2 * g + 1))"
  by (simp add: page_node.simps [of keccak d g])

lemma page_bytes_split: "a \<le> b \<Longrightarrow> b \<le> c \<Longrightarrow> page_bytes d a c = page_bytes d a b @ page_bytes d b c"
  by (metis le_Suc_ex map_append page_bytes_def upt_add_eq_append)

lemma page_node_bottom:
  assumes "64 \<le> j" and "j < 128"
  shows "page_node keccak d j = keccak (page_bytes d ((j - 64) * 64) ((j - 64) * 64 + 64))"
proof -
  obtain k where j: "j = 64 + k" using assms(1) le_Suc_ex by blast
  have "page_bytes d (k * 64) (k * 64 + 64) =
      page_bytes d (k * 64) (k * 64 + 32) @ page_bytes d (k * 64 + 32) (k * 64 + 64)"
    by (rule page_bytes_split) simp_all
  then show ?thesis
    using assms by (simp add: j page_node_inner page_node_leaf HashPair_def algebra_simps)
qed

lemma page_node_subtree:
  "h \<le> 7 \<Longrightarrow> i < 2 ^ (7 - h) \<Longrightarrow> page_node keccak d (2 ^ (7 - h) + i) = subtree keccak d h i"
proof (induction h arbitrary: i)
  case 0
  then show ?case by (simp add: page_node_leaf)
next
  case (Suc h)
  define w :: nat where "w = 2 ^ (7 - Suc h)"
  have w: "2 ^ (7 - h) = 2 * w"
    using Suc.prems(1) by (simp add: w_def Suc_diff_Suc flip: power_Suc)
  have le: "w \<le> 64"
  proof -
    have "w \<le> 2 ^ 6" unfolding w_def by (rule power_increasing) simp_all
    then show ?thesis by simp
  qed
  have pos: "0 < w" by (simp add: w_def)
  have i: "i < w" using Suc.prems(2) by (simp add: w_def)
  have l: "page_node keccak d (2 * w + 2 * i) = subtree keccak d h (2 * i)"
    using Suc.IH [of "2 * i"] Suc.prems i w by simp
  have r: "page_node keccak d (2 * w + (2 * i + 1)) = subtree keccak d h (2 * i + 1)"
    using Suc.IH [of "2 * i + 1"] Suc.prems i w by simp
  have "page_node keccak d (w + i) =
      HashPair keccak (page_node keccak d (2 * (w + i))) (page_node keccak d (2 * (w + i) + 1))"
    using pos le i by (intro page_node_inner) simp_all
  also have "\<dots> = subtree keccak d (Suc h) i"
    using l r by (simp add: algebra_simps)
  finally show ?case by (simp only: w_def)
qed

section \<open>The cache agrees with the reference tree\<close>

definition page_coherent :: "keccak_fn \<Rightarrow> CachedPage \<Rightarrow> bool" where
  "page_coherent keccak p \<longleftrightarrow> (\<forall>j. 0 < j \<and> j < 128 \<and> Ok p j \<longrightarrow> Cache p j = page_node keccak (Data p) j)"

lemma page_coherent_new [inv_intros]: "page_coherent keccak new_CachedPage"
  by (simp add: page_coherent_def new_CachedPage_def)

lemma page_coherent_InvalidateFull [inv_intros]: "page_coherent keccak (InvalidateFull p)"
  by (simp add: page_coherent_def InvalidateFull_def)

lemma hash_bottom_simps [simp]: "Data (hash_bottom keccak i p) = Data p"
  by (simp add: hash_bottom_def Let_def)

lemma hash_layer_simps [simp]: "Data (hash_layer keccak i p) = Data p"
  by (simp add: hash_layer_def Let_def)

lemma hash_bottom_coherent:
  assumes "page_coherent keccak p" and "n < 64"
  shows "page_coherent keccak (hash_bottom keccak (64 * n) p)"
  using assms page_node_bottom [of "64 + n" keccak "Data p"]
  by (auto simp: page_coherent_def hash_bottom_def Let_def algebra_simps)

lemma hash_bottom_Ok: "Ok (hash_bottom keccak (64 * n) p) j \<longleftrightarrow> Ok p j \<or> j = 64 + n"
  by (auto simp: hash_bottom_def Let_def)

lemma hash_layer_coherent:
  assumes "page_coherent keccak p" and "0 < j" and "j < 64" and "Ok p (2 * j)" and "Ok p (2 * j + 1)"
  shows "page_coherent keccak (hash_layer keccak (2 * j) p)"
  using assms page_node_inner [of j keccak "Data p"]
  by (auto simp: page_coherent_def hash_layer_def Let_def)

lemma hash_layer_Ok: "Ok (hash_layer keccak (2 * n) p) j \<longleftrightarrow> Ok p j \<or> j = n"
  by (auto simp: hash_layer_def Let_def)

lemma fold_hash_bottom:
  assumes "page_coherent keccak p" and "n \<le> 64"
  shows "page_coherent keccak (fold (hash_bottom keccak) (map ((*) 64) [0..<n]) p) \<and>
    Data (fold (hash_bottom keccak) (map ((*) 64) [0..<n]) p) = Data p \<and>
    (\<forall>j. Ok (fold (hash_bottom keccak) (map ((*) 64) [0..<n]) p) j \<longleftrightarrow> Ok p j \<or> 64 \<le> j \<and> j < 64 + n)"
  using assms(2)
proof (induction n)
  case 0
  then show ?case using assms(1) by auto
next
  case (Suc n)
  let ?q = "fold (hash_bottom keccak) (map ((*) 64) [0..<n]) p"
  have q: "page_coherent keccak ?q" "Data ?q = Data p"
    "\<And>j. Ok ?q j \<longleftrightarrow> Ok p j \<or> 64 \<le> j \<and> j < 64 + n"
    using Suc by simp_all
  have "page_coherent keccak (hash_bottom keccak (64 * n) ?q)"
    using q(1) Suc.prems by (intro hash_bottom_coherent) simp_all
  moreover have "Ok (hash_bottom keccak (64 * n) ?q) j \<longleftrightarrow> Ok p j \<or> 64 \<le> j \<and> j < 64 + Suc n" for j
    by (simp only: hash_bottom_Ok q(3)) auto
  ultimately show ?case using q(2) by simp
qed

lemma fold_hash_layer:
  assumes "page_coherent keccak p" and "\<forall>j. 64 \<le> j \<and> j < 128 \<longrightarrow> Ok p j"
    and "1 \<le> k" and "k \<le> 64"
  shows "page_coherent keccak (fold (hash_layer keccak) (map ((*) 2) (rev [k..<64])) p) \<and>
    Data (fold (hash_layer keccak) (map ((*) 2) (rev [k..<64])) p) = Data p \<and>
    (\<forall>j. k \<le> j \<and> j < 128 \<longrightarrow> Ok (fold (hash_layer keccak) (map ((*) 2) (rev [k..<64])) p) j)"
  using assms(4,3)
proof (induction rule: inc_induct)
  case base
  then show ?case using assms(1,2) by simp
next
  case (step n)
  have split: "rev [n..<64] = rev [Suc n..<64] @ [n]"
    using step.hyps by (simp add: upt_conv_Cons)
  let ?q = "fold (hash_layer keccak) (map ((*) 2) (rev [Suc n..<64])) p"
  have q: "page_coherent keccak ?q" "Data ?q = Data p" "\<forall>j. Suc n \<le> j \<and> j < 128 \<longrightarrow> Ok ?q j"
    using step by simp_all
  have "Ok ?q (2 * n)" "Ok ?q (2 * n + 1)" using q(3) step by auto
  then have "page_coherent keccak (hash_layer keccak (2 * n) ?q)"
    using q(1) step by (intro hash_layer_coherent) simp_all
  moreover have "Ok (hash_layer keccak (2 * n) ?q) j" if "n \<le> j" "j < 128" for j
    using q(3) that by (cases "j = n") (simp_all add: hash_layer_Ok)
  ultimately show ?case using q(2) by (simp add: split)
qed

lemma page_MerkleRoot_spec:
  assumes "page_coherent keccak p" and "page_MerkleRoot keccak p = (r, p')"
  shows "r = page_node keccak (Data p) 1" and "page_coherent keccak p'" and "Data p' = Data p"
    and "\<And>j. 1 \<le> j \<Longrightarrow> j < 128 \<Longrightarrow> Ok p' j"
proof -
  define p1 where "p1 = fold (hash_bottom keccak) (map ((*) 64) [0..<64]) p"
  define p2 where "p2 = fold (hash_layer keccak) (map ((*) 2) (rev [1..<64])) p1"
  have res: "(r, p') = (Cache p2 1, p2)"
    using assms(2) by (auto simp: page_MerkleRoot_def p1_def p2_def Let_def)
  have p1: "page_coherent keccak p1" "Data p1 = Data p" "\<forall>j. 64 \<le> j \<and> j < 128 \<longrightarrow> Ok p1 j"
    using fold_hash_bottom [OF assms(1), of 64] by (auto simp: p1_def)
  have p2: "page_coherent keccak p2" "Data p2 = Data p1" "\<forall>j. 1 \<le> j \<and> j < 128 \<longrightarrow> Ok p2 j"
    using fold_hash_layer [OF p1(1,3), of 1] by (simp_all add: p2_def)
  show "page_coherent keccak p'" "Data p' = Data p" "\<And>j. 1 \<le> j \<Longrightarrow> j < 128 \<Longrightarrow> Ok p' j"
    using res p1 p2 by auto
  show "r = page_node keccak (Data p) 1"
    using res p1(2) p2 by (simp add: page_coherent_def)
qed

lemma page_MerkleizeSubtree_spec:
  assumes "page_coherent keccak p" and "0 < g" and "g < 256"
  obtains p' where "page_MerkleizeSubtree keccak p g = Inr (page_node keccak (Data p) g, p')"
    and "page_coherent keccak p'" and "Data p' = Data p" and "Ok p' 1"
proof -
  obtain r p' where m: "page_MerkleRoot keccak p = (r, p')" by (cases "page_MerkleRoot keccak p")
  note spec = page_MerkleRoot_spec [OF assms(1) m]
  have "page_MerkleizeSubtree keccak p g = Inr (page_node keccak (Data p) g, p')"
  proof (cases "g < 128")
    case True
    then show ?thesis
      using assms(2) spec by (simp add: page_MerkleizeSubtree_def m page_coherent_def)
  next
    case False
    then have "g mod 128 = g - 128" using assms(3) by (simp add: mod_if)
    then show ?thesis
      using False assms(3) spec(3)
      by (simp add: page_MerkleizeSubtree_def m page_node_leaf Let_def)
  qed
  then show thesis using that spec by simp
qed

section \<open>Invalidation\<close>

lemma clear_path_iff: "clear_path k ok j \<longleftrightarrow> ok j \<and> \<not> (0 < j \<and> (\<exists>n. j = k div 2 ^ n))"
proof (induction k arbitrary: ok rule: less_induct)
  case (less k)
  show ?case
  proof (cases "k = 0")
    case True
    then show ?thesis by (auto simp: clear_path.simps)
  next
    case False
    have "clear_path k ok j = clear_path (k div 2) (ok(k := False)) j"
      using False by (simp add: clear_path.simps [of k])
    then show ?thesis using less [of "k div 2" "ok(k := False)"] False div_pow_path [of j k] by auto
  qed
qed

text \<open>A node that is not on the path from a leaf to the root does not depend on the leaf.\<close>

lemma page_node_frame:
  assumes same: "\<And>i. i < 4096 \<Longrightarrow> i div 32 \<noteq> l \<Longrightarrow> d' i = d i"
    and "g < 256" and "\<And>n. g \<noteq> (128 + l) div 2 ^ n"
  shows "page_node keccak d' g = page_node keccak d g"
  using assms
proof (induction keccak d g rule: page_node.induct)
  case (1 keccak d g)
  consider "g = 0" | "128 \<le> g" | "0 < g" "g < 128" by linarith
  then show ?case
  proof cases
    case 1
    then show ?thesis by (simp add: page_node.simps)
  next
    case 2
    have "g \<noteq> 128 + l" using "1.prems"(3) [of 0] by simp
    then have "d' i = d i" if "(g - 128) * 32 \<le> i" "i < (g - 128) * 32 + 32" for i
    proof -
      have "i div 32 = g - 128" using that by (intro div_nat_eqI) simp_all
      moreover have "g - 128 \<noteq> l" using 2 \<open>g \<noteq> 128 + l\<close> by linarith
      moreover have "i < 4096" using that(2) "1.prems"(2) by linarith
      ultimately show ?thesis using "1.prems"(1) by simp
    qed
    then show ?thesis using 2 by (simp add: page_node_leaf page_bytes_def)
  next
    case 3
    have up: "c \<noteq> (128 + l) div 2 ^ n" if "c div 2 = g" for c n
    proof
      assume "c = (128 + l) div 2 ^ n"
      then have "g = (128 + l) div 2 ^ Suc n"
        using that by (simp only: power_Suc2 div_mult2_eq)
      then show False using "1.prems"(3) by blast
    qed
    show ?thesis
      using 3 "1.IH" [OF _ _ "1.prems"(1)] up [of "2 * g"] up [of "2 * g + 1"] by (simp add: page_node_inner)
  qed
qed

end
