(* ===== verification/Memory.thy ===== *)
theory Memory
  imports Page
begin

unbundle bit_operations_syntax

text \<open>
  \<open>cannon/mipsevm/memory/memory.go\<close> and \<open>binary_tree.go\<close>: the paged memory of the VM, its two-entry
  page-lookup cache, and the binary Merkle tree that caches node hashes by generalized index.

  Pages are shared objects (\<open>*CachedPage\<close>), reachable from the page table, from the lookup cache
  and from the tree's reference to the same page table.  The model has an explicit store:
  \<open>pageObjs\<close> holds the objects, pointers are natural numbers below \<open>nextPage\<close>, a nil pointer is
  \<^const>\<open>None\<close>.  A generalized index (\<open>uint64\<close>) is a natural number: every index the code accepts
  has at most 60 bits, so no shift overflows.  In \<open>nodes\<close> an absent key is \<^const>\<open>None\<close> and a
  key bound to nil is \<open>Some None\<close>, as the code distinguishes them.
\<close>

record Memory =
  nodes :: "nat \<rightharpoonup> hash option"
  pageTable :: "Word \<rightharpoonup> nat"
  pageObjs :: "nat \<Rightarrow> CachedPage"
  nextPage :: nat
  lastPageKeys :: "Word \<times> Word"
  lastPage :: "nat option \<times> nat option"

definition NewMemory :: Memory where
  "NewMemory =
     \<lparr>nodes = (\<lambda>_. None), pageTable = (\<lambda>_. None), pageObjs = (\<lambda>_. new_CachedPage), nextPage = 0,
      lastPageKeys = (NOT 0, NOT 0), lastPage = (None, None)\<rparr>"

section \<open>The binary tree index\<close>

text \<open>\<open>bits.Len64\<close> of the standard library.\<close>

fun Len64 :: "nat \<Rightarrow> nat" where
  "Len64 g = (if g = 0 then 0 else Suc (Len64 (g div 2)))"

declare Len64.simps [simp del]

lemma Len64_0 [simp]: "Len64 0 = 0"
  by (simp add: Len64.simps)

lemma Len64_double [simp]: "0 < g \<Longrightarrow> Len64 (2 * g) = Suc (Len64 g)"
  by (subst Len64.simps) simp

lemma Len64_double1 [simp]: "Len64 (Suc (2 * g)) = Suc (Len64 g)"
  by (subst Len64.simps) simp

lemma Len64_pow: "i < 2 ^ d \<Longrightarrow> Len64 (2 ^ d + i) = Suc d"
proof (induction d arbitrary: i)
  case 0
  then show ?case by (simp add: Len64.simps)
next
  case (Suc d)
  have "(2 ^ Suc d + i) div 2 = 2 ^ d + i div 2" by simp
  moreover have "i div 2 < 2 ^ d" using Suc.prems by simp
  ultimately show ?case
    using Suc.IH [of "i div 2"] by (subst Len64.simps) simp
qed

text \<open>\<open>for gindex > 0 { m.nodes[gindex] = nil; gindex >>= 1 }\<close>\<close>

fun nil_path :: "nat \<Rightarrow> (nat \<rightharpoonup> hash option) \<Rightarrow> (nat \<rightharpoonup> hash option)" where
  "nil_path k ns = (if k > 0 then nil_path (k div 2) (ns(k := Some None)) else ns)"

declare nil_path.simps [simp del]

definition page_gindex :: "Word \<Rightarrow> nat" where
  "page_gindex pageIndex = unat (push_bit (WordSize - PageAddrSize) 1 OR pageIndex)"

definition tree_Invalidate :: "Memory \<Rightarrow> Word \<Rightarrow> Memory" where
  "tree_Invalidate m addr = m\<lparr>nodes := nil_path (page_gindex (drop_bit PageAddrSize addr)) (nodes m)\<rparr>"

definition AddPage :: "Memory \<Rightarrow> Word \<Rightarrow> Memory" where
  "AddPage m pageIndex = m\<lparr>nodes := nil_path (page_gindex pageIndex) (nodes m)\<rparr>"

text \<open>
  With \<open>nodes[0]\<close> bound to nil the Go function would call itself on index 0 forever; no operation
  binds that key.
\<close>

function MerkleizeSubtree :: "keccak_fn \<Rightarrow> Memory \<Rightarrow> nat \<Rightarrow> (hash \<times> Memory) res" where
  "MerkleizeSubtree keccak m gindex =
     (let l = Len64 gindex
      in if l > MemProofLeafCount then Inl GindexTooDeep
         else if l > PageKeySize then
           let depthIntoPage = l - 1 - PageKeySize;
               pageIndex = gindex div 2 ^ depthIntoPage mod 2 ^ PageKeySize
           in (case pageTable m (of_nat pageIndex) of
                 Some r \<Rightarrow>
                   let pageGindex = 2 ^ depthIntoPage + gindex mod 2 ^ depthIntoPage
                   in bind_res (page_MerkleizeSubtree keccak (pageObjs m r) pageGindex)
                        (\<lambda>(h, p). Inr (h, m\<lparr>pageObjs := (pageObjs m)(r := p)\<rparr>))
               | None \<Rightarrow> Inr (zeroHashes keccak (MemProofLeafCount - l), m))
         else (case nodes m gindex of
                 None \<Rightarrow> Inr (zeroHashes keccak (MemProofLeafCount - l), m)
               | Some (Some n) \<Rightarrow> Inr (n, m)
               | Some None \<Rightarrow>
                   if gindex = 0 then Inl StackOverflow
                   else bind_res (MerkleizeSubtree keccak m (2 * gindex)) (\<lambda>(left, m1).
                        bind_res (MerkleizeSubtree keccak m1 (2 * gindex + 1)) (\<lambda>(right, m2).
                          let r = HashPair keccak left right
                          in Inr (r, m2\<lparr>nodes := (nodes m2)(gindex := Some (Some r))\<rparr>)))))"
  by pat_completeness auto
termination
  by (relation "measure (\<lambda>(keccak, m, g). 61 - Len64 g)") auto

declare MerkleizeSubtree.simps [simp del]

function traverseBranch ::
    "keccak_fn \<Rightarrow> Memory \<Rightarrow> nat \<Rightarrow> Word \<Rightarrow> nat \<Rightarrow> (hash list \<times> Memory) res" where
  "traverseBranch keccak m parent addr depth =
     (if depth = WordSize - 5 then
        bind_res (MerkleizeSubtree keccak m parent) (\<lambda>(h, m1). Inr ([h], m1))
      else if depth > WordSize - 5 then Inl TraversedTooDeep
      else let self0 = 2 * parent;
               sibling0 = self0 + 1;
               goRight = (addr AND push_bit (WordSize - 1 - depth) 1 \<noteq> 0);
               self = (if goRight then sibling0 else self0);
               sibling = (if goRight then self0 else sibling0)
           in bind_res (traverseBranch keccak m self addr (depth + 1)) (\<lambda>(proof', m1).
              bind_res (MerkleizeSubtree keccak m1 sibling) (\<lambda>(siblingNode, m2).
                Inr (proof' @ [siblingNode], m2))))"
  by pat_completeness auto
termination
  by (relation "measure (\<lambda>(keccak, m, parent, addr, depth). 60 - depth)") auto

declare traverseBranch.simps [simp del]

definition MerkleProof :: "keccak_fn \<Rightarrow> Memory \<Rightarrow> Word \<Rightarrow> (byte list \<times> Memory) res" where
  "MerkleProof keccak m addr =
     bind_res (traverseBranch keccak m 1 addr 0) (\<lambda>(prf, m1).
       if length prf < MemProofLeafCount then Inl IndexOutOfRange
       else Inr (concat (take MemProofLeafCount prf), m1))"

definition MerkleRoot :: "keccak_fn \<Rightarrow> Memory \<Rightarrow> (hash \<times> Memory) res" where
  "MerkleRoot keccak m = MerkleizeSubtree keccak m 1"

section \<open>Pages and words\<close>

text \<open>\<open>PageLookup\<close> returns the pointer (nil when there is none) and the \<open>ok\<close> flag.\<close>

definition PageLookup :: "Memory \<Rightarrow> Word \<Rightarrow> (nat option \<times> bool) \<times> Memory" where
  "PageLookup m pageIndex =
     (if pageIndex = fst (lastPageKeys m) then ((fst (lastPage m), True), m)
      else if pageIndex = snd (lastPageKeys m) then ((snd (lastPage m), True), m)
      else case pageTable m pageIndex of
             None \<Rightarrow> ((None, False), m)
           | Some p \<Rightarrow>
               ((Some p, True),
                m\<lparr>lastPageKeys := (pageIndex, fst (lastPageKeys m)),
                  lastPage := (Some p, fst (lastPage m))\<rparr>))"

definition AllocPage :: "Memory \<Rightarrow> Word \<Rightarrow> nat \<times> Memory" where
  "AllocPage m pageIndex =
     (let p = nextPage m;
          m1 = m\<lparr>pageObjs := (pageObjs m)(p := new_CachedPage), nextPage := Suc p,
                 pageTable := (pageTable m)(pageIndex \<mapsto> p)\<rparr>
      in (p, AddPage m1 pageIndex))"

text \<open>\<open>copy(p.Data[off:], bs)\<close>, for \<open>bs\<close> that fits.\<close>

definition write_data :: "nat \<Rightarrow> byte list \<Rightarrow> (nat \<Rightarrow> byte) \<Rightarrow> (nat \<Rightarrow> byte)" where
  "write_data off bs d = (\<lambda>i. if off \<le> i \<and> i < off + length bs then bs ! (i - off) else d i)"

definition set_page :: "Memory \<Rightarrow> nat \<Rightarrow> CachedPage \<Rightarrow> Memory" where
  "set_page m r p = m\<lparr>pageObjs := (pageObjs m)(r := p)\<rparr>"

definition SetWord :: "Memory \<Rightarrow> Word \<Rightarrow> Word \<Rightarrow> Memory res" where
  "SetWord m addr v =
     (if addr AND ExtMask \<noteq> 0 then Inl UnalignedMemoryAccess
      else
        let pageIndex = drop_bit PageAddrSize addr;
            pageAddr = addr AND PageAddrMask;
            ((p, ok), m1) = PageLookup m pageIndex
        in bind_res
             (if \<not> ok then let (r, m2) = AllocPage m1 pageIndex in Inr (r, m2)
              else case p of
                     None \<Rightarrow> Inl NilDereference
                   | Some r \<Rightarrow>
                       let prevValid = Ok (pageObjs m1 r) 1
                       in bind_res (page_invalidate (pageObjs m1 r) pageAddr) (\<lambda>pg.
                            let m2 = set_page m1 r pg
                            in Inr (r, if prevValid then tree_Invalidate m2 addr else m2)))
             (\<lambda>(r, m3).
                let pg = pageObjs m3 r
                in Inr (set_page m3 r (pg\<lparr>Data := write_data (unat pageAddr) (bo_PutWord v) (Data pg)\<rparr>))))"

definition GetWord :: "Memory \<Rightarrow> Word \<Rightarrow> (Word \<times> Memory) res" where
  "GetWord m addr =
     (if addr AND ExtMask \<noteq> 0 then Inl UnalignedMemoryAccess
      else
        let pageIndex = drop_bit PageAddrSize addr;
            ((p, ok), m1) = PageLookup m pageIndex
        in if \<not> ok then Inr (0, m1)
           else case p of
                  None \<Rightarrow> Inl NilDereference
                | Some r \<Rightarrow>
                    let pageAddr = unat (addr AND PageAddrMask)
                    in Inr (bo_Word (page_bytes (Data (pageObjs m1 r)) pageAddr (pageAddr + 8)), m1))"

end
