(* ===== verification/Memory_Words.thy ===== *)
theory Memory_Words
  imports Memory
begin

unbundle bit_operations_syntax

text \<open>
  The paged memory as a map from addresses to bytes and to words.  \<open>mem_wf\<close> is the structural
  invariant (the lookup cache agrees with the page table, pages are not shared between indexes);
  under it \<^const>\<open>GetWord\<close> and \<^const>\<open>SetWord\<close> never panic on an aligned address and obey the laws
  of the interface \<open>word_store\<close>, on which the VM's proofs rest.
\<close>

section \<open>Address arithmetic\<close>

lemma unat_page_offset: "unat (addr AND PageAddrMask) = unat addr mod 4096"
  using unat_and_mask [of addr 12] by (simp add: mask_eq_exp_minus_1)

lemma unat_page_index: "unat (drop_bit PageAddrSize (addr :: Word)) = unat addr div 4096"
  using unat_drop_bit_div [of 12 addr] by simp

lemma page_index_less: "unat (drop_bit PageAddrSize (addr :: Word)) < 2 ^ 52"
  using unat_u64_less [of addr] by (simp only: unat_page_index) simp

definition aligned :: "Word \<Rightarrow> bool" where
  "aligned addr \<longleftrightarrow> addr AND ExtMask = 0"

lemma aligned_iff: "aligned addr \<longleftrightarrow> unat addr mod 8 = 0"
proof -
  have "unat (addr AND ExtMask) = unat addr mod 8"
    using unat_and_mask [of addr 3] by (simp add: mask_eq_exp_minus_1)
  then show ?thesis unfolding aligned_def by (metis unsigned_0 unsigned_word_eqI)
qed

lemma aligned_AddressMask [simp]: "aligned (addr AND AddressMask)"
  by (simp add: aligned_def and.assoc)

lemma aligned_page_offset:
  assumes "aligned addr"
  shows "unat addr mod 4096 + 8 \<le> 4096"
proof -
  have "unat addr mod 4096 mod 8 = unat addr mod 8" by (rule mod_mod_cancel) simp
  then have "unat addr mod 4096 mod 8 = 0" using assms by (simp only: aligned_iff)
  then have "unat addr mod 4096 = 8 * (unat addr mod 4096 div 8)"
    using div_mult_mod_eq [of "unat addr mod 4096" 8] by linarith
  moreover have "unat addr mod 4096 div 8 < 512" by (rule less_mult_imp_div_less) simp
  ultimately show ?thesis by linarith
qed

lemma page_gindex_eq:
  assumes "unat k < 2 ^ 52"
  shows "page_gindex k = 2 ^ 52 + unat k"
proof -
  have e: "WordSize - PageAddrSize = 52" by simp
  show ?thesis unfolding page_gindex_def e by (rule unat_or_pow [OF assms]) simp
qed

lemma unat_NOT_0: "unat (NOT 0 :: Word) = 18446744073709551615"
  by (simp add: unsigned_minus_1_eq_mask mask_eq_exp_minus_1)

lemma div_mod_add_small:
  assumes "x mod n + j < (n :: nat)"
  shows "(x + j) div n = x div n" and "(x + j) mod n = x mod n + j"
proof -
  have e: "x + j = (x mod n + j) + n * (x div n)" by simp
  show "(x + j) div n = x div n" by (subst e, subst div_mult_self2) (use assms in auto)
  show "(x + j) mod n = x mod n + j" by (subst e, subst mod_mult_self2) (use assms in auto)
qed

section \<open>Well-formed memory\<close>

definition cache_entry_ok :: "Memory \<Rightarrow> Word \<Rightarrow> nat option \<Rightarrow> bool" where
  "cache_entry_ok m k p \<longleftrightarrow> k = NOT 0 \<or> (p = pageTable m k \<and> p \<noteq> None)"

definition mem_wf :: "Memory \<Rightarrow> bool" where
  "mem_wf m \<longleftrightarrow>
     (\<forall>k r. pageTable m k = Some r \<longrightarrow> unat k < 2 ^ 52 \<and> r < nextPage m) \<and>
     (\<forall>k k' r. pageTable m k = Some r \<longrightarrow> pageTable m k' = Some r \<longrightarrow> k = k') \<and>
     cache_entry_ok m (fst (lastPageKeys m)) (fst (lastPage m)) \<and>
     cache_entry_ok m (snd (lastPageKeys m)) (snd (lastPage m))"

lemma mem_wf_NewMemory [inv_intros]: "mem_wf NewMemory"
  by (simp add: mem_wf_def NewMemory_def cache_entry_ok_def)

lemma mem_wf_inj: "mem_wf m \<Longrightarrow> pageTable m k = Some r \<Longrightarrow> pageTable m k' = Some r \<Longrightarrow> k = k'"
  unfolding mem_wf_def by blast

lemma mem_wf_bounds:
  "mem_wf m \<Longrightarrow> pageTable m k = Some r \<Longrightarrow> unat k < 2 ^ 52 \<and> r < nextPage m"
  unfolding mem_wf_def by blast

text \<open>Only the page table and the lookup cache matter to well-formedness.\<close>

lemma mem_wf_cong:
  assumes "pageTable m' = pageTable m" and "nextPage m' = nextPage m"
    and "lastPageKeys m' = lastPageKeys m" and "lastPage m' = lastPage m"
  shows "mem_wf m' \<longleftrightarrow> mem_wf m"
  using assms by (simp add: mem_wf_def cache_entry_ok_def)

lemma PageLookup_spec:
  assumes "mem_wf m" and "unat k < 2 ^ 52"
  obtains m1 where "PageLookup m k = ((pageTable m k, pageTable m k \<noteq> None), m1)"
    and "mem_wf m1" and "nodes m1 = nodes m" and "pageTable m1 = pageTable m"
    and "pageObjs m1 = pageObjs m" and "nextPage m1 = nextPage m"
proof -
  have "k \<noteq> NOT 0"
  proof
    assume "k = NOT 0"
    then have "unat k = 18446744073709551615" by (simp only: unat_NOT_0)
    then show False using assms(2) by simp
  qed
  then have cached: "p = pageTable m k" "pageTable m k \<noteq> None" if "cache_entry_ok m k p" for p
    using that by (auto simp: cache_entry_ok_def)
  have wf: "cache_entry_ok m (fst (lastPageKeys m)) (fst (lastPage m))"
    "cache_entry_ok m (snd (lastPageKeys m)) (snd (lastPage m))"
    using assms(1) by (simp_all add: mem_wf_def)
  consider "k = fst (lastPageKeys m)" | "k \<noteq> fst (lastPageKeys m)" "k = snd (lastPageKeys m)"
    | "k \<noteq> fst (lastPageKeys m)" "k \<noteq> snd (lastPageKeys m)" by blast
  then show thesis
  proof cases
    case 1
    then show thesis using cached [of "fst (lastPage m)"] wf(1) assms(1) that [of m] by (simp add: PageLookup_def)
  next
    case 2
    then show thesis using cached [of "snd (lastPage m)"] wf(2) assms(1) that [of m] by (simp add: PageLookup_def)
  next
    case 3
    show thesis
    proof (cases "pageTable m k")
      case None
      then show thesis using 3 assms(1) that [of m] by (simp add: PageLookup_def)
    next
      case (Some p)
      let ?m1 = "m\<lparr>lastPageKeys := (k, fst (lastPageKeys m)), lastPage := (Some p, fst (lastPage m))\<rparr>"
      have "mem_wf ?m1" using assms(1) Some by (simp add: mem_wf_def cache_entry_ok_def)
      then show thesis using 3 Some that [of ?m1] by (simp add: PageLookup_def)
    qed
  qed
qed

section \<open>The bytes and words of a memory\<close>

definition mem_byte :: "Memory \<Rightarrow> nat \<Rightarrow> byte" where
  "mem_byte m a =
     (case pageTable m (of_nat (a div 4096)) of
        None \<Rightarrow> 0
      | Some r \<Rightarrow> Data (pageObjs m r) (a mod 4096))"

definition word_at :: "Memory \<Rightarrow> Word \<Rightarrow> Word" where
  "word_at m addr = bo_Word (map (mem_byte m) [unat addr..<unat addr + 8])"

lemma mem_byte_cong:
  assumes "pageTable m' = pageTable m" and "\<And>r. Data (pageObjs m' r) = Data (pageObjs m r)"
  shows "mem_byte m' = mem_byte m"
  using assms by (auto simp: mem_byte_def fun_eq_iff split: option.splits)

lemma word_at_cong: "mem_byte m' = mem_byte m \<Longrightarrow> word_at m' = word_at m"
  by (rule ext) (simp add: word_at_def)

lemma same_page_bytes:
  assumes "aligned addr" and "unat addr \<le> a" and "a < unat addr + 8"
  shows "(of_nat (a div 4096) :: Word) = drop_bit PageAddrSize addr"
    and "a mod 4096 = unat addr mod 4096 + (a - unat addr)"
proof -
  obtain j where j: "a = unat addr + j" "j < 8" using assms le_Suc_ex by (metis nat_add_left_cancel_less)
  have "unat addr mod 4096 + j < 4096" using aligned_page_offset [OF assms(1)] j by linarith
  note split = div_mod_add_small [OF this, folded j(1)]
  show "a mod 4096 = unat addr mod 4096 + (a - unat addr)" using split(2) j by simp
  have "unat addr div 4096 < 2 ^ 64" using unat_u64_less [of addr] by simp
  then show "(of_nat (a div 4096) :: Word) = drop_bit PageAddrSize addr"
    using split(1) by (intro word_unat_eq_iff [THEN iffD2])
      (simp only: unat_page_index, simp add: unat_of_nat)
qed

lemma word_at_page:
  assumes "aligned addr"
  shows "word_at m addr =
    (case pageTable m (drop_bit PageAddrSize addr) of
       None \<Rightarrow> 0
     | Some r \<Rightarrow> bo_Word (page_bytes (Data (pageObjs m r)) (unat addr mod 4096) (unat addr mod 4096 + 8)))"
proof -
  let ?k = "drop_bit PageAddrSize addr"
  have byte: "mem_byte m (unat addr + j) =
      (case pageTable m ?k of None \<Rightarrow> 0 | Some r \<Rightarrow> Data (pageObjs m r) (unat addr mod 4096 + j))"
    if "j < 8" for j
  proof -
    have "(of_nat ((unat addr + j) div 4096) :: Word) = ?k"
      and "(unat addr + j) mod 4096 = unat addr mod 4096 + j"
      using same_page_bytes [OF assms, of "unat addr + j"] that by simp_all
    then show ?thesis unfolding mem_byte_def by (simp only:)
  qed
  have shift: "map f [n..<n + 8] = map (\<lambda>j. f (n + j)) [0..<8]" for f :: "nat \<Rightarrow> byte" and n
    by (simp add: upt_conv_Cons)
  show ?thesis
  proof (cases "pageTable m ?k")
    case None
    have "map (\<lambda>j. mem_byte m (unat addr + j)) [0..<8] = map (\<lambda>_. 0) [0..<8]"
      by (rule map_cong) (simp_all only: byte None option.case set_upt atLeastLessThan_iff refl)
    moreover have "bo_Word (map (\<lambda>_. 0) [0..<8]) = 0"
      by (simp add: bo_Word_def get_u64_def be_dec_def upt_conv_Cons)
    ultimately show ?thesis using None by (simp only: word_at_def shift option.case)
  next
    case (Some r)
    have "map (\<lambda>j. mem_byte m (unat addr + j)) [0..<8] =
        map (\<lambda>j. Data (pageObjs m r) (unat addr mod 4096 + j)) [0..<8]"
      by (rule map_cong) (simp_all only: byte Some option.case set_upt atLeastLessThan_iff refl)
    then show ?thesis unfolding word_at_def page_bytes_def shift by (simp only: Some option.case)
  qed
qed

section \<open>GetWord and SetWord\<close>

lemma GetWord_spec:
  assumes "mem_wf m" and "aligned addr"
  obtains m1 where "GetWord m addr = Inr (word_at m addr, m1)"
    and "mem_wf m1" and "nodes m1 = nodes m" and "pageTable m1 = pageTable m"
    and "pageObjs m1 = pageObjs m" and "nextPage m1 = nextPage m"
proof -
  let ?k = "drop_bit PageAddrSize addr"
  from PageLookup_spec [OF assms(1) page_index_less] obtain m1 where
    look: "PageLookup m ?k = ((pageTable m ?k, pageTable m ?k \<noteq> None), m1)" and
    m1: "mem_wf m1" "nodes m1 = nodes m" "pageTable m1 = pageTable m" "pageObjs m1 = pageObjs m"
      "nextPage m1 = nextPage m" by metis
  have al: "addr AND ExtMask = 0" using assms(2) by (simp only: aligned_def)
  have "GetWord m addr = Inr (word_at m addr, m1)"
  proof (cases "pageTable m ?k")
    case None
    then show ?thesis
      unfolding GetWord_def al look Let_def
      by (simp only: word_at_page [OF assms(2)] split_conv not_True_eq_False refl simp_thms if_True if_False option.case)
  next
    case (Some r)
    then show ?thesis
      unfolding GetWord_def al look Let_def unat_page_offset
      by (simp only: word_at_page [OF assms(2)] split_conv option.distinct option.simps m1 simp_thms if_False option.case)
  qed
  then show thesis using that m1 by blast
qed

text \<open>\<open>SetWord\<close> on a page that exists, and on one that is allocated just in time.\<close>

definition leaf_word_written :: "CachedPage \<Rightarrow> Word \<Rightarrow> Word \<Rightarrow> CachedPage" where
  "leaf_word_written pg addr v =
     pg\<lparr>Ok := clear_path (64 + unat addr mod 4096 div 64) (Ok pg),
        Data := write_data (unat addr mod 4096) (bo_PutWord v) (Data pg)\<rparr>"

lemma page_invalidate_spec:
  assumes "unat pa < 4096"
  shows "page_invalidate pg pa = Inr (pg\<lparr>Ok := clear_path (64 + unat pa div 64) (Ok pg)\<rparr>)"
proof -
  have "unat (push_bit 12 1 OR pa) = 4096 + unat pa"
    using unat_or_pow [of pa 12] assms by simp
  then have "unat (drop_bit (5 + 1) (push_bit 12 1 OR pa)) = 64 + unat pa div 64"
    using unat_drop_bit_div [of 6 "push_bit 12 1 OR pa"] by simp
  then show ?thesis using assms by (simp add: page_invalidate_def)
qed

lemma SetWord_existing:
  assumes "mem_wf m" and "aligned addr" and "pageTable m (drop_bit PageAddrSize addr) = Some r"
  obtains m' where "SetWord m addr v = Inr m'" and "mem_wf m'"
    and "pageTable m' = pageTable m" and "nextPage m' = nextPage m"
    and "pageObjs m' = (pageObjs m)(r := leaf_word_written (pageObjs m r) addr v)"
    and "nodes m' = (if Ok (pageObjs m r) 1 then nil_path (2 ^ 52 + unat addr div 4096) (nodes m) else nodes m)"
proof -
  let ?k = "drop_bit PageAddrSize addr"
  from PageLookup_spec [OF assms(1) page_index_less] obtain m1 where
    look: "PageLookup m ?k = ((pageTable m ?k, pageTable m ?k \<noteq> None), m1)" and
    m1: "mem_wf m1" "nodes m1 = nodes m" "pageTable m1 = pageTable m" "pageObjs m1 = pageObjs m"
      "nextPage m1 = nextPage m" by metis
  have look': "PageLookup m ?k = ((Some r, True), m1)" using look assms(3) by simp
  have al: "addr AND ExtMask = 0" using assms(2) by (simp only: aligned_def)
  have inval: "page_invalidate (pageObjs m r) (addr AND PageAddrMask) =
      Inr ((pageObjs m r)\<lparr>Ok := clear_path (64 + unat addr mod 4096 div 64) (Ok (pageObjs m r))\<rparr>)"
    using page_invalidate_spec [of "addr AND PageAddrMask" "pageObjs m r"] unat_page_offset [of addr]
    by simp
  have g: "page_gindex ?k = 2 ^ 52 + unat addr div 4096"
    using page_gindex_eq [OF page_index_less] by (simp only: unat_page_index)
  define m' where "m' = m1\<lparr>
     nodes := (if Ok (pageObjs m r) 1 then nil_path (2 ^ 52 + unat addr div 4096) (nodes m) else nodes m),
     pageObjs := (pageObjs m)(r := leaf_word_written (pageObjs m r) addr v)\<rparr>"
  have "SetWord m addr v = Inr m'"
    unfolding SetWord_def Let_def look' al m'_def
    by (simp add: m1 inval set_page_def tree_Invalidate_def g leaf_word_written_def unat_page_offset
        del: PageAddrMask_def PageAddrSize_def)
  moreover have "mem_wf m'" using m1(1) by (subst mem_wf_cong [of _ m1]) (simp_all add: m'_def)
  ultimately show thesis by (rule that) (simp_all add: m'_def m1)
qed

definition fresh_page_written :: "Word \<Rightarrow> Word \<Rightarrow> CachedPage" where
  "fresh_page_written addr v =
     new_CachedPage\<lparr>Data := write_data (unat addr mod 4096) (bo_PutWord v) (Data new_CachedPage)\<rparr>"

lemma mem_wf_new_page:
  assumes wf: "mem_wf m" and none: "pageTable m k = None" and k: "unat k < 2 ^ 52"
    and pt: "pageTable m' = (pageTable m)(k \<mapsto> nextPage m)" and np: "nextPage m' = Suc (nextPage m)"
    and keys: "lastPageKeys m' = lastPageKeys m" "lastPage m' = lastPage m"
  shows "mem_wf m'"
proof -
  have old: "r < nextPage m" if "pageTable m j = Some r" for j r using mem_wf_bounds [OF wf that] by simp
  have inj: "i = j" if "pageTable m' i = Some r" "pageTable m' j = Some r" for i j r
    using that old mem_wf_inj [OF wf, of i r j] by (auto simp: pt split: if_splits)
  have bound: "unat j < 2 ^ 52 \<and> r < nextPage m'" if "pageTable m' j = Some r" for j r
    using that k mem_wf_bounds [OF wf, of j r] np by (cases "j = k") (auto simp: pt)
  have cache: "cache_entry_ok m' j p" if "cache_entry_ok m j p" for j p
    using that none unfolding cache_entry_ok_def pt by auto
  have "cache_entry_ok m (fst (lastPageKeys m)) (fst (lastPage m))"
    "cache_entry_ok m (snd (lastPageKeys m)) (snd (lastPage m))"
    using wf by (simp_all only: mem_wf_def)
  then show ?thesis unfolding mem_wf_def keys using inj bound cache by blast
qed

lemma SetWord_fresh:
  assumes "mem_wf m" and "aligned addr" and "pageTable m (drop_bit PageAddrSize addr) = None"
  obtains m' where "SetWord m addr v = Inr m'" and "mem_wf m'"
    and "pageTable m' = (pageTable m)(drop_bit PageAddrSize addr \<mapsto> nextPage m)"
    and "pageObjs m' = (pageObjs m)(nextPage m := fresh_page_written addr v)"
    and "nodes m' = nil_path (2 ^ 52 + unat addr div 4096) (nodes m)"
proof -
  let ?k = "drop_bit PageAddrSize addr"
  from PageLookup_spec [OF assms(1) page_index_less] obtain m1 where
    look: "PageLookup m ?k = ((pageTable m ?k, pageTable m ?k \<noteq> None), m1)" and
    m1: "mem_wf m1" "nodes m1 = nodes m" "pageTable m1 = pageTable m" "pageObjs m1 = pageObjs m"
      "nextPage m1 = nextPage m" by metis
  have look': "PageLookup m ?k = ((None, False), m1)" using look assms(3) by simp
  have al: "addr AND ExtMask = 0" using assms(2) by (simp only: aligned_def)
  have g: "page_gindex ?k = 2 ^ 52 + unat addr div 4096"
    using page_gindex_eq [OF page_index_less] by (simp only: unat_page_index)
  define m' where "m' = m1\<lparr>
     pageTable := (pageTable m)(?k \<mapsto> nextPage m),
     pageObjs := (pageObjs m)(nextPage m := fresh_page_written addr v), nextPage := Suc (nextPage m),
     nodes := nil_path (2 ^ 52 + unat addr div 4096) (nodes m)\<rparr>"
  have "SetWord m addr v = Inr m'"
    unfolding SetWord_def Let_def look' al m'_def
    by (simp add: m1 AllocPage_def AddPage_def set_page_def g fresh_page_written_def unat_page_offset Let_def
        del: PageAddrMask_def PageAddrSize_def)
  moreover have "mem_wf m'"
    by (rule mem_wf_new_page [of m1 ?k]) (use m1 assms(3) page_index_less in \<open>simp_all add: m'_def\<close>)
  ultimately show thesis by (rule that) (simp_all add: m'_def m1)
qed

lemma mem_byte_SetWord:
  assumes "mem_wf m" and "aligned addr" and "SetWord m addr v = Inr m'" and "a < 2 ^ 64"
  shows "mem_byte m' a =
    (if unat addr \<le> a \<and> a < unat addr + 8 then bo_PutWord v ! (a - unat addr) else mem_byte m a)"
proof -
  let ?k = "drop_bit PageAddrSize addr" and ?off = "unat addr mod 4096"
  have key: "(of_nat (a div 4096) :: Word) = ?k \<longleftrightarrow> a div 4096 = unat addr div 4096"
  proof
    assume e: "(of_nat (a div 4096) :: Word) = ?k"
    have "a div 4096 < 2 ^ 64" using assms(4) by simp
    then have "unat (of_nat (a div 4096) :: Word) = a div 4096" by (simp add: unat_of_nat)
    then show "a div 4096 = unat addr div 4096" using e unat_page_index [of addr] by simp
  next
    assume "a div 4096 = unat addr div 4096"
    then show "(of_nat (a div 4096) :: Word) = ?k"
      using unat_page_index [of addr] page_index_less [of addr]
      by (simp add: word_unat_eq_iff unat_of_nat del: PageAddrSize_def)
  qed
  have off: "?off \<le> a mod 4096 \<and> a mod 4096 < ?off + 8 \<longleftrightarrow> unat addr \<le> a \<and> a < unat addr + 8"
    and pos: "a mod 4096 - ?off = a - unat addr"
    if "a div 4096 = unat addr div 4096"
    using that div_mult_mod_eq [of a 4096] div_mult_mod_eq [of "unat addr" 4096] by linarith+
  have out: "\<not> (unat addr \<le> a \<and> a < unat addr + 8)" if "a div 4096 \<noteq> unat addr div 4096"
  proof
    assume "unat addr \<le> a \<and> a < unat addr + 8"
    then have "(of_nat (a div 4096) :: Word) = ?k" using same_page_bytes(1) [OF assms(2)] by blast
    then show False using key that by blast
  qed
  have len: "length (bo_PutWord v) = 8" by simp
  show ?thesis
  proof (cases "pageTable m ?k")
    case (Some r)
    from SetWord_existing [OF assms(1,2) Some, of v] assms(3) obtain
      pt: "pageTable m' = pageTable m" and
      po: "pageObjs m' = (pageObjs m)(r := leaf_word_written (pageObjs m r) addr v)" by auto
    show ?thesis
    proof (cases "a div 4096 = unat addr div 4096")
      case True
      then have "(of_nat (a div 4096) :: Word) = ?k" using key by blast
      then show ?thesis using Some True off pos len
        unfolding mem_byte_def pt po
        by (simp add: leaf_word_written_def write_data_def del: PageAddrSize_def)
    next
      case False
      then have k: "(of_nat (a div 4096) :: Word) \<noteq> ?k" using key by blast
      have "pageTable m (of_nat (a div 4096)) \<noteq> Some r"
        using k Some mem_wf_inj [OF assms(1)] by blast
      then show ?thesis using out [OF False] unfolding mem_byte_def pt po
        by (auto split: option.split)
    qed
  next
    case None
    from SetWord_fresh [OF assms(1,2) None, of v] assms(3) obtain
      pt: "pageTable m' = (pageTable m)(?k \<mapsto> nextPage m)" and
      po: "pageObjs m' = (pageObjs m)(nextPage m := fresh_page_written addr v)" by auto
    show ?thesis
    proof (cases "a div 4096 = unat addr div 4096")
      case True
      then have "(of_nat (a div 4096) :: Word) = ?k" using key by blast
      then show ?thesis using None True off pos len
        unfolding mem_byte_def pt po
        by (simp add: fresh_page_written_def write_data_def new_CachedPage_def del: PageAddrSize_def)
    next
      case False
      then have k: "(of_nat (a div 4096) :: Word) \<noteq> ?k" using key by blast
      have "pageTable m (of_nat (a div 4096)) \<noteq> Some (nextPage m)"
        using mem_wf_bounds [OF assms(1)] by blast
      then show ?thesis using out [OF False] k unfolding mem_byte_def pt po
        by (auto split: option.split)
    qed
  qed
qed

lemma aligned_disjoint:
  assumes "aligned a" and "aligned b" and "a \<noteq> b" and "j < 8"
  shows "\<not> (unat a \<le> unat b + j \<and> unat b + j < unat a + 8)"
proof -
  have "8 dvd unat a" "8 dvd unat b" using assms(1,2) by (auto simp: aligned_iff)
  then obtain p q where pq: "unat a = 8 * p" "unat b = 8 * q" by (meson dvdE)
  then have "p \<noteq> q" using assms(3) by (metis word_unat_eq_iff)
  then show ?thesis using pq assms(4) by linarith
qed

lemma word_at_SetWord:
  assumes "mem_wf m" and "aligned addr" and "SetWord m addr v = Inr m'" and "aligned b"
  shows "word_at m' b = (if b = addr then v else word_at m b)"
proof -
  have lt: "unat b + j < 2 ^ 64" if "j < 8" for j
  proof -
    have "8 dvd unat b" using assms(4) by (auto simp: aligned_iff)
    then obtain q where "unat b = 8 * q" by (rule dvdE)
    then show ?thesis using that unat_u64_less [of b] by simp
  qed
  have shift: "map f [n..<n + 8] = map (\<lambda>j. f (n + j)) [0..<8]" for f :: "nat \<Rightarrow> byte" and n
    by (simp add: upt_conv_Cons)
  show ?thesis
  proof (cases "b = addr")
    case True
    have "map (\<lambda>j. mem_byte m' (unat b + j)) [0..<8] = map (\<lambda>j. bo_PutWord v ! j) [0..<8]"
      by (rule map_cong) (use mem_byte_SetWord [OF assms(1-3)] lt True in simp_all)
    also have "\<dots> = bo_PutWord v" using map_nth [of "bo_PutWord v"] by (simp only: length_bo_PutWord)
    finally have "word_at m' b = v" by (simp only: word_at_def shift bo_Word_PutWord)
    then show ?thesis by (simp only: True if_P)
  next
    case False
    have "map (\<lambda>j. mem_byte m' (unat b + j)) [0..<8] = map (\<lambda>j. mem_byte m (unat b + j)) [0..<8]"
    proof (rule map_cong [OF refl])
      fix j assume "j \<in> set [0..<8]"
      then have j: "j < 8" by simp
      have "\<not> (unat addr \<le> unat b + j \<and> unat b + j < unat addr + 8)"
        using aligned_disjoint [OF assms(2,4) _ j] False by blast
      then show "mem_byte m' (unat b + j) = mem_byte m (unat b + j)"
        using mem_byte_SetWord [OF assms(1-3) lt [OF j]] by (simp only: if_False)
    qed
    then show ?thesis using False by (simp only: word_at_def shift if_False)
  qed
qed

lemma SetWord_total:
  assumes "mem_wf m" and "aligned addr"
  obtains m' where "SetWord m addr v = Inr m'" and "mem_wf m'"
proof (cases "pageTable m (drop_bit PageAddrSize addr)")
  case None
  show thesis by (rule SetWord_fresh [OF assms None]) (rule that)
next
  case (Some r)
  show thesis by (rule SetWord_existing [OF assms Some]) (rule that)
qed

section \<open>The interface the VM relies on\<close>

text \<open>
  \<open>view\<close> is what a store holds at an address; reading returns it and leaves it unchanged, writing
  changes it at that address only.
\<close>

locale word_store =
  fixes wf :: "'m \<Rightarrow> bool"
    and get :: "'m \<Rightarrow> Word \<Rightarrow> (Word \<times> 'm) res"
    and set_word :: "'m \<Rightarrow> Word \<Rightarrow> Word \<Rightarrow> 'm res"
    and view :: "'m \<Rightarrow> Word \<Rightarrow> Word"
    and ok_addr :: "Word \<Rightarrow> bool"
  assumes get_ok: "wf m \<Longrightarrow> ok_addr a \<Longrightarrow> \<exists>m'. get m a = Inr (view m a, m') \<and> wf m' \<and> view m' = view m"
    and get_bad: "\<not> ok_addr a \<Longrightarrow> get m a = Inl UnalignedMemoryAccess"
    and set_ok: "wf m \<Longrightarrow> ok_addr a \<Longrightarrow> \<exists>m'. set_word m a v = Inr m' \<and> wf m'"
    and set_view: "wf m \<Longrightarrow> ok_addr a \<Longrightarrow> set_word m a v = Inr m' \<Longrightarrow> ok_addr b \<Longrightarrow>
      view m' b = (if b = a then v else view m b)"
begin

lemma get_result: "wf m \<Longrightarrow> ok_addr a \<Longrightarrow> get m a = Inr (w, m') \<Longrightarrow> w = view m a \<and> wf m' \<and> view m' = view m"
  using get_ok by fastforce

lemma set_result: "wf m \<Longrightarrow> ok_addr a \<Longrightarrow> set_word m a v = Inr m' \<Longrightarrow> wf m'"
  using set_ok [of m a v] by auto

lemma get_Inr_ok: "get m a = Inr x \<Longrightarrow> ok_addr a"
  using get_bad by fastforce

lemma get_after_set:
  assumes "wf m" and "ok_addr a" and "ok_addr b" and "set_word m a v = Inr m'"
  shows "\<exists>m''. get m' b = Inr (if b = a then v else view m b, m'') \<and> wf m''"
proof -
  have "wf m'" using assms set_result by blast
  then show ?thesis using get_ok [of m' b] set_view [OF assms(1,2,4,3)] assms(3) by auto
qed

text \<open>A sequence of writes amounts to the map updated by the same sequence.\<close>

lemma writes_view:
  assumes "wf m" and "\<forall>(a, v) \<in> set ws. ok_addr a"
  shows "\<exists>m'. fold_res (\<lambda>(a, v) m. set_word m a v) ws m = Inr m' \<and> wf m' \<and>
    (\<forall>b. ok_addr b \<longrightarrow> view m' b = fold (\<lambda>(a, v) f. f(a := v)) ws (view m) b)"
  using assms
proof (induction ws arbitrary: m rule: rev_induct)
  case Nil
  then show ?case by simp
next
  case (snoc aw ws)
  obtain a v where aw: "aw = (a, v)" by (cases aw)
  have pre: "\<forall>(a, v) \<in> set ws. ok_addr a" and a: "ok_addr a" using snoc.prems aw by auto
  from snoc.IH [OF snoc.prems(1) pre] obtain m1 where
    m1: "fold_res (\<lambda>(a, v) m. set_word m a v) ws m = Inr m1" "wf m1"
    "\<forall>b. ok_addr b \<longrightarrow> view m1 b = fold (\<lambda>(a, v) f. f(a := v)) ws (view m) b" by blast
  obtain m2 where m2: "set_word m1 a v = Inr m2" "wf m2" using set_ok [OF m1(2) a] by blast
  then show ?case using m1 set_view [OF m1(2) a m2(1)] by (simp add: aw fold_res_append del: fun_upd_apply) (simp add: fun_upd_def)
qed

end

interpretation paged: word_store mem_wf GetWord SetWord word_at aligned
proof
  fix m a assume wf: "mem_wf m" "aligned a"
  from GetWord_spec [OF this] obtain m1 where "GetWord m a = Inr (word_at m a, m1)" "mem_wf m1"
    "pageTable m1 = pageTable m" "pageObjs m1 = pageObjs m" by metis
  then show "\<exists>m'. GetWord m a = Inr (word_at m a, m') \<and> mem_wf m' \<and> word_at m' = word_at m"
    by (metis mem_byte_cong word_at_cong)
next
  fix m a assume "\<not> aligned a"
  then show "GetWord m a = Inl UnalignedMemoryAccess" by (simp add: GetWord_def aligned_def)
next
  fix m a v assume "mem_wf m" "aligned a"
  then show "\<exists>m'. SetWord m a v = Inr m' \<and> mem_wf m'" by (metis SetWord_total)
qed (rule word_at_SetWord)

section \<open>Properties\<close>

text \<open>reading a word back.  On a well-formed memory, writing \<open>v\<close> at an aligned address never
  panics; a later read at any aligned address \<open>b\<close> returns \<open>v\<close> if \<open>b\<close> is that address and the word
  that was there before otherwise, whatever the page-lookup cache holds and whether or not the write
  had to allocate the page; the memory stays well-formed.\<close>
theorem GetWord_after_SetWord:
  assumes "mem_wf m" and "aligned a" and "aligned b"
  shows "\<exists>m' m''. SetWord m a v = Inr m' \<and>
    GetWord m' b = Inr (if b = a then v else word_at m b, m'') \<and> mem_wf m' \<and> mem_wf m''"
proof -
  obtain m' where m': "SetWord m a v = Inr m'" "mem_wf m'" using SetWord_total [OF assms(1,2)] by blast
  then show ?thesis using paged.get_after_set [OF assms m'(1)] by blast
qed

theorem GetWord_after_SetWord_witness:
  "\<exists>m' m''. SetWord NewMemory 0x1008 7 = Inr m' \<and>
    GetWord m' 0x1008 = Inr (if (0x1008 :: Word) = 0x1008 then 7 else word_at NewMemory 0x1008, m'') \<and>
    mem_wf m' \<and> mem_wf m''"
  by (rule GetWord_after_SetWord) (simp_all add: mem_wf_NewMemory aligned_def)

text \<open>C37: the paged memory refines a flat map.  Any sequence of aligned word writes succeeds, and
  the resulting view is the function from addresses to words updated by the same writes in order.\<close>
theorem SetWord_sequence_refines_map:
  assumes "mem_wf m" and "\<forall>(a, v) \<in> set ws. aligned a"
  shows "\<exists>m'. fold_res (\<lambda>(a, v) m. SetWord m a v) ws m = Inr m' \<and> mem_wf m' \<and>
    (\<forall>b. aligned b \<longrightarrow> word_at m' b = fold (\<lambda>(a, v) f. f(a := v)) ws (word_at m) b)"
  by (rule paged.writes_view [OF assms])

theorem SetWord_sequence_witness:
  "\<exists>m'. fold_res (\<lambda>(a, v) m. SetWord m a v) [(8, 1), (0x2000, 2), (8, 3)] NewMemory = Inr m' \<and> mem_wf m' \<and>
    (\<forall>b. aligned b \<longrightarrow>
      word_at m' b = fold (\<lambda>(a, v) f. f(a := v)) [(8, 1), (0x2000, 2), (8, 3)] (word_at NewMemory) b)"
  by (rule SetWord_sequence_refines_map) (simp_all add: mem_wf_NewMemory aligned_def)

end
