(* ===== verification/Memory_Merkle.thy ===== *)
theory Memory_Merkle
  imports Memory_Words
begin

unbundle bit_operations_syntax

text \<open>
  The Merkle commitment of the memory.  \<open>tree_ok\<close> says when the node cache of
  \<open>binary_tree.go\<close> and the page caches may be trusted; under it every root and subtree the code
  returns is the reference \<^const>\<open>subtree\<close> of the current bytes, every proof it returns verifies
  against that root, and every operation of the VM's step keeps it.  \<open>depth\<close> counts from the root:
  the node \<open>i\<close> of depth \<open>d\<close> has generalized index \<open>2 ^ d + i\<close>; pages are at depth 52, leaves
  (32 bytes) at depth 59.
\<close>

section \<open>The reference tree over the whole memory\<close>

lemma div_pow_Suc_iff: "(x :: nat) div 2 ^ Suc n = i \<longleftrightarrow> x div 2 ^ n = 2 * i \<or> x div 2 ^ n = 2 * i + 1"
proof -
  have "x div 2 ^ Suc n = x div 2 ^ n div 2" by (simp only: power_Suc2 div_mult2_eq)
  then show ?thesis by linarith
qed

lemma div_pow_child:
  "(x :: nat) div 2 ^ n = 2 * i \<Longrightarrow> x div 2 ^ Suc n = i"
  "(x :: nat) div 2 ^ n = 2 * i + 1 \<Longrightarrow> x div 2 ^ Suc n = i"
  by (simp_all only: div_pow_Suc_iff simp_thms)

lemma leaf_of_range:
  "page_bytes f (i * 32) (i * 32 + 32) = page_bytes g (i * 32) (i * 32 + 32)"
  if "\<And>a. a div 32 = i \<Longrightarrow> f a = g a"
proof -
  have "a div 32 = i" if "i * 32 \<le> a" "a < i * 32 + 32" for a
    using that by (intro div_nat_eqI) simp_all
  then show ?thesis using that by (simp add: page_bytes_def)
qed

lemma subtree_cong:
  "(\<And>a. a div 32 div 2 ^ h = i \<Longrightarrow> f a = g a) \<Longrightarrow> subtree keccak f h i = subtree keccak g h i"
proof (induction h arbitrary: i)
  case 0
  then show ?case using leaf_of_range [of i f g] by simp
next
  case (Suc h)
  have "subtree keccak f h (2 * i) = subtree keccak g h (2 * i)"
    by (rule Suc.IH, rule Suc.prems) (rule div_pow_child)
  moreover have "subtree keccak f h (2 * i + 1) = subtree keccak g h (2 * i + 1)"
    by (rule Suc.IH, rule Suc.prems) (rule div_pow_child)
  ultimately show ?case by simp
qed

lemma subtree_zero: "subtree keccak (\<lambda>_. 0) h i = zeroHashes keccak h"
proof (induction h arbitrary: i)
  case 0
  then show ?case by (simp add: page_bytes_def map_replicate_const)
next
  case (Suc h)
  then show ?case by simp
qed

lemma subtree_shift:
  "h \<le> 7 \<Longrightarrow> subtree keccak f h (k * 2 ^ (7 - h) + i) = subtree keccak (\<lambda>a. f (k * 4096 + a)) h i"
proof (induction h arbitrary: i)
  case 0
  have "[(k * 128 + i) * 32..<(k * 128 + i) * 32 + 32] = map ((+) (k * 4096)) [i * 32..<i * 32 + 32]"
    by (simp add: map_add_upt algebra_simps flip: map_add_upt)
  then show ?case by (simp add: page_bytes_def)
next
  case (Suc h)
  define w :: nat where "w = 2 ^ (7 - Suc h)"
  have w: "2 ^ (7 - h) = 2 * w"
    using Suc.prems by (simp add: w_def Suc_diff_Suc flip: power_Suc)
  have l: "subtree keccak f h (2 * (k * w + i)) = subtree keccak (\<lambda>a. f (k * 4096 + a)) h (2 * i)"
    using Suc.IH [of "2 * i"] Suc.prems by (simp add: w algebra_simps)
  have r: "subtree keccak f h (2 * (k * w + i) + 1) = subtree keccak (\<lambda>a. f (k * 4096 + a)) h (2 * i + 1)"
    using Suc.IH [of "2 * i + 1"] Suc.prems by (simp add: w algebra_simps)
  show ?case using l r by (simp only: subtree.simps flip: w_def)
qed

section \<open>When the caches may be trusted\<close>

definition page_ok :: "Memory \<Rightarrow> Word \<Rightarrow> bool" where
  "page_ok m k \<longleftrightarrow> (\<forall>r. pageTable m k = Some r \<longrightarrow> Ok (pageObjs m r) 1)"

definition under :: "nat \<Rightarrow> nat \<Rightarrow> Word \<Rightarrow> bool" where
  "under d i k \<longleftrightarrow> unat k div 2 ^ (52 - d) = i"

definition node_ok :: "keccak_fn \<Rightarrow> Memory \<Rightarrow> nat \<Rightarrow> nat \<Rightarrow> bool" where
  "node_ok keccak m d i \<longleftrightarrow>
     (case nodes m (2 ^ d + i) of
        None \<Rightarrow> \<forall>k. under d i k \<longrightarrow> pageTable m k = None
      | Some None \<Rightarrow> True
      | Some (Some h) \<Rightarrow> h = subtree keccak (mem_byte m) (59 - d) i \<and> (\<forall>k. under d i k \<longrightarrow> page_ok m k))"

definition tree_ok :: "keccak_fn \<Rightarrow> Memory \<Rightarrow> bool" where
  "tree_ok keccak m \<longleftrightarrow>
     mem_wf m \<and>
     (\<forall>k r. pageTable m k = Some r \<longrightarrow> page_coherent keccak (pageObjs m r)) \<and>
     (\<forall>d i. d < 52 \<longrightarrow> i < 2 ^ d \<longrightarrow> node_ok keccak m d i)"

lemma tree_okD:
  assumes "tree_ok keccak m"
  shows "mem_wf m" and "pageTable m k = Some r \<Longrightarrow> page_coherent keccak (pageObjs m r)"
    and "d < 52 \<Longrightarrow> i < 2 ^ d \<Longrightarrow> node_ok keccak m d i"
  using assms by (simp_all add: tree_ok_def)

lemma tree_ok_NewMemory [inv_intros]: "tree_ok keccak NewMemory"
  using mem_wf_NewMemory by (simp add: tree_ok_def node_ok_def NewMemory_def)

text \<open>What an operation that only fills caches may change.\<close>

definition cache_step :: "Memory \<Rightarrow> Memory \<Rightarrow> bool" where
  "cache_step m m' \<longleftrightarrow>
     pageTable m' = pageTable m \<and> nextPage m' = nextPage m \<and>
     lastPageKeys m' = lastPageKeys m \<and> lastPage m' = lastPage m \<and>
     (\<forall>r. Data (pageObjs m' r) = Data (pageObjs m r)) \<and>
     (\<forall>r. Ok (pageObjs m r) 1 \<longrightarrow> Ok (pageObjs m' r) 1) \<and>
     (\<forall>g. nodes m' g = None \<longleftrightarrow> nodes m g = None)"

lemma cache_step_refl [simp]: "cache_step m m"
  by (simp add: cache_step_def)

lemma cache_step_trans: "cache_step m m1 \<Longrightarrow> cache_step m1 m2 \<Longrightarrow> cache_step m m2"
  by (simp add: cache_step_def)

lemma cache_step_byte: "cache_step m m' \<Longrightarrow> mem_byte m' = mem_byte m"
  by (rule mem_byte_cong) (simp_all add: cache_step_def)

lemma cache_step_page_ok: "cache_step m m' \<Longrightarrow> page_ok m k \<Longrightarrow> page_ok m' k"
  by (auto simp: cache_step_def page_ok_def)

lemma cache_step_wf: "cache_step m m' \<Longrightarrow> mem_wf m' \<longleftrightarrow> mem_wf m"
  by (rule mem_wf_cong) (simp_all add: cache_step_def)

lemma mem_byte_page:
  assumes "pageTable m k = Some r" and "a < 4096"
  shows "mem_byte m (unat k * 4096 + a) = Data (pageObjs m r) a"
proof -
  have "(unat k * 4096 + a) div 4096 = unat k" and "(unat k * 4096 + a) mod 4096 = a"
    using assms(2) by simp_all
  then show ?thesis using assms(1) by (simp add: mem_byte_def)
qed

lemma mem_byte_no_page:
  assumes "pageTable m k = None" and "a div 4096 = unat k"
  shows "mem_byte m a = 0"
  using assms by (simp add: mem_byte_def)

text \<open>A page's own tree is the part of the memory's tree below its node.\<close>

lemma subtree_page:
  assumes "pageTable m k = Some r" and "h \<le> 7" and "i < 2 ^ (7 - h)"
  shows "subtree keccak (mem_byte m) h (unat k * 2 ^ (7 - h) + i) =
    page_node keccak (Data (pageObjs m r)) (2 ^ (7 - h) + i)"
proof -
  have "subtree keccak (\<lambda>a. mem_byte m (unat k * 4096 + a)) h i = subtree keccak (Data (pageObjs m r)) h i"
  proof (rule subtree_cong)
    fix a assume a: "a div 32 div 2 ^ h = i"
    have "a div 32 div 2 ^ h < 2 ^ (7 - h)" using a assms(3) by simp
    then have "a div 32 < 2 ^ (7 - h) * 2 ^ h" by (simp add: less_mult_imp_div_less div_less_iff_less_mult)
    also have "\<dots> = 2 ^ 7" using assms(2) by (simp flip: power_add)
    finally have "a < 4096" by simp
    then show "mem_byte m (unat k * 4096 + a) = Data (pageObjs m r) a" by (rule mem_byte_page [OF assms(1)])
  qed
  then show ?thesis using subtree_shift [OF assms(2)] page_node_subtree [OF assms(2,3)] by simp
qed

lemma subtree_no_page:
  assumes "\<And>a. a div 32 div 2 ^ h = i \<Longrightarrow> mem_byte m a = 0"
  shows "subtree keccak (mem_byte m) h i = zeroHashes keccak h"
  using subtree_cong [of h i "mem_byte m" "\<lambda>_. 0"] assms by (simp add: subtree_zero)

section \<open>MerkleizeSubtree\<close>

text \<open>What a computed subtree promises: the reference hash, only caches filled, and the pages below
  the node left with a valid root.\<close>

definition merkle_post :: "keccak_fn \<Rightarrow> Memory \<Rightarrow> nat \<Rightarrow> nat \<Rightarrow> hash \<Rightarrow> Memory \<Rightarrow> bool" where
  "merkle_post keccak m d i h m' \<longleftrightarrow>
     h = subtree keccak (mem_byte m) (59 - d) i \<and> tree_ok keccak m' \<and> cache_step m m' \<and>
     (\<forall>k. d \<le> 52 \<longrightarrow> under d i k \<longrightarrow> page_ok m' k)"

lemma page_of_address:
  assumes "a div 32 div 2 ^ (59 - d) = i" and "i < 2 ^ d" and "d \<le> 52"
  shows "unat (of_nat (a div 4096) :: Word) = a div 4096" and "under d i (of_nat (a div 4096))"
proof -
  have "59 - d = 7 + (52 - d)" using assms(3) by simp
  then have "a div 32 div 2 ^ (59 - d) = a div 32 div 2 ^ 7 div 2 ^ (52 - d)"
    by (simp only: power_add div_mult2_eq)
  also have "a div 32 div 2 ^ 7 = a div 4096" by (simp flip: div_mult2_eq)
  finally have e: "a div 32 div 2 ^ (59 - d) = a div 4096 div 2 ^ (52 - d)" .
  have "a div 4096 div 2 ^ (52 - d) < 2 ^ d" using assms(1,2) e by simp
  then have "a div 4096 < 2 ^ d * 2 ^ (52 - d)" by (simp add: div_less_iff_less_mult)
  also have "\<dots> = 2 ^ 52" using assms(3) by (simp flip: power_add)
  finally have lt: "a div 4096 < 2 ^ 52" .
  then show u: "unat (of_nat (a div 4096) :: Word) = a div 4096" by (simp add: unat_of_nat)
  show "under d i (of_nat (a div 4096))" using assms(1) e by (simp only: under_def u)
qed

lemma tree_ok_fill_page:
  assumes "tree_ok keccak m" and "pageTable m k = Some r" and "page_coherent keccak p"
    and "Data p = Data (pageObjs m r)" and "Ok p 1"
  shows "tree_ok keccak (m\<lparr>pageObjs := (pageObjs m)(r := p)\<rparr>)"
    and "cache_step m (m\<lparr>pageObjs := (pageObjs m)(r := p)\<rparr>)"
proof -
  let ?m = "m\<lparr>pageObjs := (pageObjs m)(r := p)\<rparr>"
  show cs: "cache_step m ?m" using assms(4,5) by (simp add: cache_step_def)
  have "node_ok keccak ?m d i" if "d < 52" "i < 2 ^ d" for d i
    using tree_okD(3) [OF assms(1) that] cache_step_byte [OF cs] cache_step_page_ok [OF cs]
    by (auto simp: node_ok_def split: option.splits)
  then show "tree_ok keccak ?m"
    using assms tree_okD(1,2) [OF assms(1)] cache_step_wf [OF cs] by (simp add: tree_ok_def)
qed

lemma MerkleizeSubtree_page:
  assumes "tree_ok keccak m" and "52 \<le> d" and "d \<le> 59" and "i < 2 ^ d"
  shows "\<exists>h m'. MerkleizeSubtree keccak m (2 ^ d + i) = Inr (h, m') \<and> merkle_post keccak m d i h m'"
proof -
  define e where "e = d - 52"
  have d: "d = 52 + e" and e: "e \<le> 7" using assms(2,3) by (simp_all add: e_def)
  have lenl: "Len64 (2 ^ d + i) = Suc d" using Len64_pow [OF assms(4)] .
  have iq: "i div 2 ^ e < 2 ^ 52"
    using assms(4) by (simp add: d power_add less_mult_imp_div_less)
  have pow: "(2::nat) ^ d = 2 ^ 52 * 2 ^ e" by (simp only: d power_add)
  have key: "(2 ^ d + i) div 2 ^ e mod 2 ^ 52 = i div 2 ^ e"
    using iq by (simp add: pow)
  have low: "(2 ^ d + i) mod 2 ^ e = i mod 2 ^ e" by (simp add: pow)
  define k where "k = (of_nat (i div 2 ^ e) :: Word)"
  have uk: "unat k = i div 2 ^ e" using iq by (simp add: k_def unat_of_nat)
  have h: "59 - d = 7 - e" by (simp add: d)
  have split: "i = unat k * 2 ^ e + i mod 2 ^ e" by (simp only: uk div_mult_mod_eq)
  have below: "k' = k" if "under d i k'" "d \<le> 52" for k'
  proof -
    have "e = 0" using that(2) d by simp
    then have "unat k' = unat k" using that uk by (simp add: under_def d)
    then show ?thesis by (simp only: word_unat_eq_iff)
  qed
  have unf: "MerkleizeSubtree keccak m (2 ^ d + i) =
      (case pageTable m k of
         Some r \<Rightarrow> bind_res (page_MerkleizeSubtree keccak (pageObjs m r) (2 ^ e + i mod 2 ^ e))
                      (\<lambda>(h, p). Inr (h, m\<lparr>pageObjs := (pageObjs m)(r := p)\<rparr>))
       | None \<Rightarrow> Inr (zeroHashes keccak (60 - Suc d), m))"
  proof -
    have l: "(60 < Suc d) = False" "(PageKeySize < Suc d) = True" "Suc d - 1 - PageKeySize = e"
      "MemProofLeafCount = 60" "(2 ^ d + i) div 2 ^ e mod 2 ^ PageKeySize = i div 2 ^ e"
      using e key by (simp_all add: d)
    show ?thesis by (subst MerkleizeSubtree.simps) (simp only: Let_def lenl l if_False if_True low k_def)
  qed
  show ?thesis
  proof (cases "pageTable m k")
    case None
    have "subtree keccak (mem_byte m) (59 - d) i = zeroHashes keccak (59 - d)"
    proof (rule subtree_no_page)
      fix a assume "a div 32 div 2 ^ (59 - d) = i"
      then have "a div 32 div 2 ^ (7 - e) div 2 ^ e = unat k" by (simp only: h uk)
      then have "a div 32 div (2 ^ (7 - e) * 2 ^ e) = unat k" by (simp only: div_mult2_eq)
      then have "a div 32 div 2 ^ 7 = unat k" using e by (simp flip: power_add)
      then have "a div 4096 = unat k" by (simp flip: div_mult2_eq)
      then show "mem_byte m a = 0" by (rule mem_byte_no_page [OF None])
    qed
    moreover have "page_ok m k" using None by (simp add: page_ok_def)
    ultimately have "merkle_post keccak m d i (zeroHashes keccak (59 - d)) m"
      using assms(1) below by (auto simp: merkle_post_def)
    then show ?thesis using unf None by simp
  next
    case (Some r)
    have "2 ^ e + i mod 2 ^ e < 2 ^ Suc e" by simp
    also have "\<dots> \<le> 2 ^ 8" using e by (intro power_increasing) simp_all
    finally have g: "2 ^ e + i mod 2 ^ e < 256" by simp
    from page_MerkleizeSubtree_spec [OF tree_okD(2) [OF assms(1) Some] _ g] obtain p' where
      p': "page_MerkleizeSubtree keccak (pageObjs m r) (2 ^ e + i mod 2 ^ e) =
             Inr (page_node keccak (Data (pageObjs m r)) (2 ^ e + i mod 2 ^ e), p')"
        "page_coherent keccak p'" "Data p' = Data (pageObjs m r)" "Ok p' 1" by auto
    let ?m' = "m\<lparr>pageObjs := (pageObjs m)(r := p')\<rparr>"
    have "subtree keccak (mem_byte m) (7 - e) (unat k * 2 ^ e + i mod 2 ^ e) =
        page_node keccak (Data (pageObjs m r)) (2 ^ e + i mod 2 ^ e)"
      using subtree_page [OF Some, of "7 - e" "i mod 2 ^ e"] e by simp
    then have "page_node keccak (Data (pageObjs m r)) (2 ^ e + i mod 2 ^ e) =
        subtree keccak (mem_byte m) (59 - d) i" by (simp only: h flip: split)
    moreover have "page_ok ?m' k" using Some p'(4) by (simp add: page_ok_def)
    ultimately have "merkle_post keccak m d i (page_node keccak (Data (pageObjs m r)) (2 ^ e + i mod 2 ^ e)) ?m'"
      using tree_ok_fill_page [OF assms(1) Some p'(2-4)] below by (auto simp: merkle_post_def)
    then show ?thesis using unf Some p'(1) by simp
  qed
qed

lemma MerkleizeSubtree_cached:
  assumes "tree_ok keccak m" and "d < 52" and "i < 2 ^ d" and "nodes m (2 ^ d + i) \<noteq> Some None"
  shows "\<exists>h. MerkleizeSubtree keccak m (2 ^ d + i) = Inr (h, m) \<and> merkle_post keccak m d i h m"
proof -
  have lenl: "Len64 (2 ^ d + i) = Suc d" using Len64_pow [OF assms(3)] .
  have node: "node_ok keccak m d i" by (rule tree_okD(3) [OF assms(1-3)])
  show ?thesis
  proof (cases "nodes m (2 ^ d + i)")
    case None
    have np: "pageTable m k = None" if "under d i k" for k
      using node None that by (simp add: node_ok_def)
    have "subtree keccak (mem_byte m) (59 - d) i = zeroHashes keccak (59 - d)"
    proof (rule subtree_no_page)
      fix a assume a: "a div 32 div 2 ^ (59 - d) = i"
      note pa = page_of_address [OF a assms(3)]
      show "mem_byte m a = 0"
        using assms(2) by (intro mem_byte_no_page [OF np [OF pa(2)] pa(1) [symmetric]]) simp_all
    qed
    then have "merkle_post keccak m d i (zeroHashes keccak (59 - d)) m"
      using assms(1) np by (simp add: merkle_post_def page_ok_def)
    then show ?thesis using None assms(2) lenl by (subst MerkleizeSubtree.simps) simp
  next
    case (Some c)
    then obtain h where h: "nodes m (2 ^ d + i) = Some (Some h)" using assms(4) by (cases c) simp_all
    then have "merkle_post keccak m d i h m"
      using assms(1) node by (simp add: merkle_post_def node_ok_def)
    then show ?thesis using h assms(2) lenl by (subst MerkleizeSubtree.simps) simp
  qed
qed

lemma tree_ok_fill_node:
  assumes "tree_ok keccak m" and "d < 52" and "i < 2 ^ d" and "nodes m (2 ^ d + i) \<noteq> None"
    and "h = subtree keccak (mem_byte m) (59 - d) i" and "\<And>k. under d i k \<Longrightarrow> page_ok m k"
  shows "tree_ok keccak (m\<lparr>nodes := (nodes m)(2 ^ d + i := Some (Some h))\<rparr>)"
    and "cache_step m (m\<lparr>nodes := (nodes m)(2 ^ d + i := Some (Some h))\<rparr>)"
proof -
  let ?m = "m\<lparr>nodes := (nodes m)(2 ^ d + i := Some (Some h))\<rparr>"
  show cs: "cache_step m ?m" using assms(4) by (auto simp: cache_step_def)
  have gi: "d' = d \<and> i' = i" if "2 ^ d' + i' = 2 ^ d + i" "i' < 2 ^ d'" for d' i' :: nat
  proof -
    have "Len64 (2 ^ d' + i') = Len64 (2 ^ d + i)" using that by simp
    then have "d' = d" using Len64_pow [OF that(2)] Len64_pow [OF assms(3)] by simp
    then show ?thesis using that by simp
  qed
  have "node_ok keccak ?m d' i'" if "d' < 52" "i' < 2 ^ d'" for d' i'
  proof (cases "2 ^ d' + i' = 2 ^ d + i")
    case True
    then have "d' = d" "i' = i" using gi that(2) by blast+
    then show ?thesis using assms(5,6) cache_step_byte [OF cs] cache_step_page_ok [OF cs]
      by (simp add: node_ok_def)
  next
    case False
    then have "nodes ?m (2 ^ d' + i') = nodes m (2 ^ d' + i')" by simp
    then show ?thesis
      using tree_okD(3) [OF assms(1) that] cache_step_byte [OF cs] cache_step_page_ok [OF cs]
      unfolding node_ok_def by (auto split: option.splits)
  qed
  then show "tree_ok keccak ?m"
    using tree_okD(1,2) [OF assms(1)] cache_step_wf [OF cs] by (simp add: tree_ok_def)
qed

lemma under_child:
  assumes "d < 52" and "under d i k"
  shows "under (Suc d) (2 * i) k \<or> under (Suc d) (2 * i + 1) k"
proof -
  have "52 - d = Suc (52 - Suc d)" using assms(1) by simp
  then show ?thesis using assms(2) by (simp only: under_def div_pow_Suc_iff)
qed

lemma MerkleizeSubtree_spec:
  assumes "tree_ok keccak m" and "d \<le> 59" and "i < 2 ^ d"
  shows "\<exists>h m'. MerkleizeSubtree keccak m (2 ^ d + i) = Inr (h, m') \<and> merkle_post keccak m d i h m'"
  using assms
proof (induction "52 - d" arbitrary: d i m)
  case 0
  then show ?case using MerkleizeSubtree_page by simp
next
  case (Suc x)
  then have d: "d < 52" and x: "x = 52 - Suc d" and dl: "Suc d \<le> 59" by simp_all
  show ?case
  proof (cases "nodes m (2 ^ d + i) = Some None")
    case False
    then show ?thesis using MerkleizeSubtree_cached [OF Suc.prems(1) d Suc.prems(3)] by blast
  next
    case True
    have gl: "2 * (2 ^ d + i) = 2 ^ Suc d + 2 * i" and gr: "2 * (2 ^ d + i) + 1 = 2 ^ Suc d + (2 * i + 1)"
      by simp_all
    have il: "2 * i < 2 ^ Suc d" "2 * i + 1 < 2 ^ Suc d" using Suc.prems(3) by simp_all
    from Suc.hyps(1) [OF x Suc.prems(1) dl il(1)] obtain hl m1 where
      l: "MerkleizeSubtree keccak m (2 ^ Suc d + 2 * i) = Inr (hl, m1)" "merkle_post keccak m (Suc d) (2 * i) hl m1"
      by blast
    then have t1: "tree_ok keccak m1" and c1: "cache_step m m1" by (simp_all add: merkle_post_def)
    from Suc.hyps(1) [OF x t1 dl il(2)] obtain hr m2 where
      r: "MerkleizeSubtree keccak m1 (2 ^ Suc d + (2 * i + 1)) = Inr (hr, m2)"
        "merkle_post keccak m1 (Suc d) (2 * i + 1) hr m2" by blast
    then have t2: "tree_ok keccak m2" and c2: "cache_step m1 m2" by (simp_all add: merkle_post_def)
    have c: "cache_step m m2" by (rule cache_step_trans [OF c1 c2])
    let ?h = "HashPair keccak hl hr"
    have "59 - d = Suc (59 - Suc d)" using d by simp
    moreover have "hl = subtree keccak (mem_byte m) (59 - Suc d) (2 * i)"
      "hr = subtree keccak (mem_byte m) (59 - Suc d) (2 * i + 1)"
      using l(2) r(2) cache_step_byte [OF c1] by (simp_all add: merkle_post_def)
    ultimately have h: "?h = subtree keccak (mem_byte m) (59 - d) i" by (simp only: subtree.simps)
    have pages: "page_ok m2 k" if "under d i k" for k
      using under_child [OF d that] l(2) r(2) d cache_step_page_ok [OF c2]
      by (auto simp: merkle_post_def)
    have some: "nodes m2 (2 ^ d + i) \<noteq> None" using True c by (simp add: cache_step_def)
    let ?m' = "m2\<lparr>nodes := (nodes m2)(2 ^ d + i := Some (Some ?h))\<rparr>"
    have h2: "?h = subtree keccak (mem_byte m2) (59 - d) i" using h cache_step_byte [OF c] by simp
    note fill = tree_ok_fill_node [OF t2 d Suc.prems(3) some h2 pages]
    have "merkle_post keccak m d i ?h ?m'"
      using h fill cache_step_trans [OF c fill(2)] cache_step_page_ok [OF fill(2)] pages
      by (simp add: merkle_post_def)
    moreover have "MerkleizeSubtree keccak m (2 ^ d + i) = Inr (?h, ?m')"
    proof -
      have lenl: "Len64 (2 ^ d + i) = Suc d" by (rule Len64_pow [OF Suc.prems(3)])
      have c: "(MemProofLeafCount < Suc d) = False" "(PageKeySize < Suc d) = False" "(2 ^ d + i = 0) = False"
        using d by simp_all
      show ?thesis
        by (subst MerkleizeSubtree.simps)
          (simp only: Let_def lenl c if_False True option.case gl gr l(1) r(1) [folded gr, unfolded gl] bind_res_Inr split_conv)
    qed
    ultimately show ?thesis by blast
  qed
qed

lemma MerkleRoot_spec:
  assumes "tree_ok keccak m"
  shows "\<exists>m'. MerkleRoot keccak m = Inr (subtree keccak (mem_byte m) 59 0, m') \<and>
    tree_ok keccak m' \<and> cache_step m m'"
  using MerkleizeSubtree_spec [OF assms, of 0 0] by (auto simp: MerkleRoot_def merkle_post_def)

section \<open>Writes keep the commitment trustworthy\<close>

lemma nil_path_iff:
  "nil_path k ns j = (if 0 < j \<and> (\<exists>n. j = k div 2 ^ n) then Some None else ns j)"
proof (induction k arbitrary: ns rule: less_induct)
  case (less k)
  show ?case
  proof (cases "k = 0")
    case True
    then show ?thesis by (subst nil_path.simps) auto
  next
    case False
    have "nil_path k ns j = nil_path (k div 2) (ns(k := Some None)) j"
      using False by (simp add: nil_path.simps [of k])
    then show ?thesis using less [of "k div 2" "ns(k := Some None)"] False div_pow_path [of j k] by auto
  qed
qed

lemma path_to_page:
  assumes "d \<le> 52" and "under d i k"
  shows "2 ^ d + i = (2 ^ 52 + unat k) div 2 ^ (52 - d)"
proof -
  have e: "(2::nat) ^ 52 = 2 ^ d * 2 ^ (52 - d)" using assms(1) by (simp flip: power_add)
  have "(2 ^ d * 2 ^ (52 - d) + unat k) div 2 ^ (52 - d) = 2 ^ d + unat k div 2 ^ (52 - d)" by simp
  then show ?thesis using assms(2) by (simp only: under_def e)
qed

lemma nil_path_under:
  assumes "d \<le> 52" and "under d i k"
  shows "nil_path (2 ^ 52 + unat k) ns (2 ^ d + i) = Some None"
proof -
  have "\<exists>n. 2 ^ d + i = (2 ^ 52 + unat k) div 2 ^ n" using path_to_page [OF assms] by blast
  moreover have "0 < 2 ^ d + i" by simp
  ultimately show ?thesis by (simp only: nil_path_iff simp_thms if_True)
qed

lemma nil_path_cases: "nil_path k ns g = Some None \<or> nil_path k ns g = ns g"
  by (simp add: nil_path_iff)

text \<open>The frame rule of the cache: only page \<open>k\<close> changes, and no cached node lies above it.\<close>

lemma tree_ok_write:
  assumes ok: "tree_ok keccak m" and wf: "mem_wf m'"
    and pt: "\<And>k'. k' \<noteq> k \<Longrightarrow> pageTable m' k' = pageTable m k'"
    and po: "\<And>k' r. k' \<noteq> k \<Longrightarrow> pageTable m k' = Some r \<Longrightarrow> pageObjs m' r = pageObjs m r"
    and new: "\<And>r. pageTable m' k = Some r \<Longrightarrow> page_coherent keccak (pageObjs m' r)"
    and nd: "\<And>d i. d < 52 \<Longrightarrow> i < 2 ^ d \<Longrightarrow> under d i k \<Longrightarrow> nodes m' (2 ^ d + i) = Some None"
    and nd': "\<And>g. nodes m' g = Some None \<or> nodes m' g = nodes m g"
  shows "tree_ok keccak m'"
proof -
  have byte: "mem_byte m' a = mem_byte m a" if "of_nat (a div 4096) \<noteq> k" for a
    using pt [OF that] po [OF that] by (auto simp: mem_byte_def split: option.splits)
  have node: "node_ok keccak m' d i" if d: "d < 52" "i < 2 ^ d" for d i
  proof (cases "under d i k \<or> nodes m' (2 ^ d + i) = Some None")
    case True
    then show ?thesis using nd [OF d] by (auto simp: node_ok_def)
  next
    case False
    then have same: "nodes m' (2 ^ d + i) = nodes m (2 ^ d + i)" and nu: "\<not> under d i k" using nd' by blast+
    have other: "k' \<noteq> k" if "under d i k'" for k' using that nu by blast
    have "subtree keccak (mem_byte m') (59 - d) i = subtree keccak (mem_byte m) (59 - d) i"
    proof (rule subtree_cong)
      fix a assume a: "a div 32 div 2 ^ (59 - d) = i"
      show "mem_byte m' a = mem_byte m a"
        using byte other page_of_address(2) [OF a d(2)] d(1) by simp
    qed
    moreover have "page_ok m' k'" if "under d i k'" "page_ok m k'" for k'
      using that pt [OF other] po [OF other] by (simp add: page_ok_def)
    ultimately show ?thesis using tree_okD(3) [OF ok d] same pt [OF other]
      by (auto simp: node_ok_def split: option.splits)
  qed
  have "page_coherent keccak (pageObjs m' r)" if "pageTable m' k' = Some r" for k' r
    using that new pt [of k'] po [of k'] tree_okD(2) [OF ok, of k'] by (cases "k' = k") auto
  then show ?thesis using node wf by (simp add: tree_ok_def)
qed

lemma coherent_after_write:
  assumes "page_coherent keccak pg" and "aligned addr"
  shows "page_coherent keccak (leaf_word_written pg addr v)"
proof -
  define off where "off = unat addr mod 4096"
  have off: "off + 8 \<le> 4096" "off mod 8 = 0"
    using aligned_page_offset [OF assms(2)] assms(2)
    by (simp_all add: off_def aligned_iff mod_mod_cancel)
  have leaf: "i div 32 = off div 32" if "off \<le> i" "i < off + 8" for i
  proof -
    obtain q where q: "off = 8 * q" using off(2) by (metis mod_0_imp_dvd dvdE)
    then have "i div 8 = q" using that by (intro div_nat_eqI) simp_all
    then have "i div 32 = q div 4" "off div 32 = q div 4" using q div_mult2_eq [of i 8 4] by simp_all
    then show ?thesis by simp
  qed
  have len: "length (bo_PutWord v) = 8" by simp
  let ?q = "leaf_word_written pg addr v"
  have "Cache ?q j = page_node keccak (Data ?q) j" if j: "0 < j" "j < 128" and ok: "Ok ?q j" for j
  proof -
    have okj: "Ok pg j" and np: "\<And>n. j \<noteq> (64 + off div 64) div 2 ^ n"
      using ok j by (auto simp: leaf_word_written_def off_def clear_path_iff)
    have "j \<noteq> (128 + off div 32) div 2 ^ n" for n
    proof (cases n)
      case 0
      then show ?thesis using j by simp
    next
      case (Suc n')
      have "(128 + off div 32) div 2 = 64 + off div 64" using div_mult2_eq [of off 32 2] by simp
      then show ?thesis using np [of n'] Suc by (simp add: div_mult2_eq)
    qed
    moreover have "Data ?q i = Data pg i" if "i div 32 \<noteq> off div 32" for i
      using leaf [of i] that len by (auto simp: leaf_word_written_def write_data_def simp flip: off_def)
    ultimately have "page_node keccak (Data ?q) j = page_node keccak (Data pg) j"
      using j by (intro page_node_frame [of "off div 32"]) simp_all
    then show ?thesis using assms(1) okj j by (simp add: page_coherent_def leaf_word_written_def)
  qed
  then show ?thesis by (simp add: page_coherent_def)
qed

lemma tree_ok_SetWord [inv_intros]:
  assumes "tree_ok keccak m" and "aligned addr" and "SetWord m addr v = Inr m'"
  shows "tree_ok keccak m'"
proof -
  let ?k = "drop_bit PageAddrSize addr"
  note wf = tree_okD(1) [OF assms(1)]
  have uk: "2 ^ 52 + unat addr div 4096 = 2 ^ 52 + unat ?k" by (simp only: unat_page_index)
  show ?thesis
  proof (cases "pageTable m ?k")
    case (Some r)
    from SetWord_existing [OF wf assms(2) Some, of v] assms(3) obtain
      m': "mem_wf m'" "pageTable m' = pageTable m"
        "pageObjs m' = (pageObjs m)(r := leaf_word_written (pageObjs m r) addr v)"
        "nodes m' = (if Ok (pageObjs m r) 1 then nil_path (2 ^ 52 + unat ?k) (nodes m) else nodes m)"
      unfolding uk by auto
    show ?thesis
    proof (rule tree_ok_write [OF assms(1) m'(1), of ?k])
      fix k' r' assume "k' \<noteq> ?k" "pageTable m k' = Some r'"
      then show "pageObjs m' r' = pageObjs m r'" using mem_wf_inj [OF wf] Some m'(3) by auto
    next
      fix r' assume "pageTable m' ?k = Some r'"
      then show "page_coherent keccak (pageObjs m' r')"
        using coherent_after_write [OF tree_okD(2) [OF assms(1) Some] assms(2)] Some m'(2,3) by simp
    next
      fix d i assume d: "d < 52" "i < 2 ^ d" "under d i ?k"
      show "nodes m' (2 ^ d + i) = Some None"
      proof (cases "Ok (pageObjs m r) 1")
        case True
        then show ?thesis using nil_path_under d by (simp add: m'(4) del: PageAddrSize_def)
      next
        case False
        then show ?thesis using tree_okD(3) [OF assms(1) d(1,2)] d(3) Some m'(4)
          by (auto simp: node_ok_def page_ok_def split: option.splits)
      qed
    qed (use m' nil_path_cases in auto)
  next
    case None
    from SetWord_fresh [OF wf assms(2) None, of v] assms(3) obtain
      m': "mem_wf m'" "pageTable m' = (pageTable m)(?k \<mapsto> nextPage m)"
        "pageObjs m' = (pageObjs m)(nextPage m := fresh_page_written addr v)"
        "nodes m' = nil_path (2 ^ 52 + unat ?k) (nodes m)"
      unfolding uk by auto
    show ?thesis
    proof (rule tree_ok_write [OF assms(1) m'(1), of ?k])
      fix k' r' assume "k' \<noteq> ?k" "pageTable m k' = Some r'"
      then have "r' < nextPage m" using mem_wf_bounds [OF wf] by blast
      then show "pageObjs m' r' = pageObjs m r'" by (simp add: m'(3))
    next
      fix r' assume "pageTable m' ?k = Some r'"
      then show "page_coherent keccak (pageObjs m' r')"
        by (simp add: m'(2,3) page_coherent_def fresh_page_written_def new_CachedPage_def)
    next
      fix d i assume "d < 52" "i < 2 ^ d" "under d i ?k"
      then show "nodes m' (2 ^ d + i) = Some None"
        using nil_path_under by (simp add: m'(4) del: PageAddrSize_def)
    qed (use m' nil_path_cases in auto)
  qed
qed

lemma tree_ok_same:
  assumes "tree_ok keccak m" and "mem_wf m'" and m': "nodes m' = nodes m" "pageTable m' = pageTable m"
    "pageObjs m' = pageObjs m"
  shows "tree_ok keccak m'"
proof -
  have byte: "mem_byte m' = mem_byte m" by (rule mem_byte_cong) (simp_all add: m')
  have "page_ok m' = page_ok m" by (simp add: fun_eq_iff page_ok_def m')
  then have "node_ok keccak m' = node_ok keccak m"
    unfolding node_ok_def m' byte by (intro ext) (simp only:)
  then show ?thesis using assms(1,2) m' by (simp add: tree_ok_def)
qed

lemma tree_ok_GetWord [inv_intros]:
  assumes "tree_ok keccak m" and "GetWord m addr = Inr (w, m')"
  shows "tree_ok keccak m'"
proof -
  have al: "aligned addr" by (rule paged.get_Inr_ok [OF assms(2)])
  from GetWord_spec [OF tree_okD(1) [OF assms(1)] al] assms(2) have
    "mem_wf m'" "nodes m' = nodes m" "pageTable m' = pageTable m" "pageObjs m' = pageObjs m" by auto
  then show ?thesis by (rule tree_ok_same [OF assms(1)])
qed

section \<open>Merkle proofs\<close>

text \<open>How a verifier folds a branch: the leaf, then a sibling per level, the position's parity
  saying on which side it stands.\<close>

fun fold_branch :: "keccak_fn \<Rightarrow> nat \<Rightarrow> hash \<Rightarrow> hash list \<Rightarrow> hash" where
  "fold_branch keccak i n [] = n"
| "fold_branch keccak i n (s # ss) =
     fold_branch keccak (i div 2) (if odd i then HashPair keccak s n else HashPair keccak n s) ss"

lemma fold_branch_snoc:
  "fold_branch keccak i n (ss @ [s]) =
    (if odd (i div 2 ^ length ss) then HashPair keccak s (fold_branch keccak i n ss)
     else HashPair keccak (fold_branch keccak i n ss) s)"
  by (induction ss arbitrary: i n) (simp_all add: div_mult2_eq)

lemma branch_bit:
  assumes "n < 64"
  shows "addr AND push_bit n 1 \<noteq> (0 :: Word) \<longleftrightarrow> odd (unat addr div 2 ^ n)"
proof -
  have "addr AND push_bit n 1 = (if bit addr n then push_bit n 1 else 0)"
    by (rule bit_word_eqI) (simp only: bit_and_iff bit_shl bit_1_iff split: if_split, auto)
  moreover have "push_bit n (1 :: Word) \<noteq> 0"
  proof
    assume z: "push_bit n (1 :: Word) = 0"
    have "bit (push_bit n (1 :: Word)) n" unfolding bit_shl using assms by simp
    then show False by (simp only: z bit_0_eq bot_apply bot_bool_def)
  qed
  moreover have "bit addr n \<longleftrightarrow> odd (unat addr div 2 ^ n)"
    using assms by (simp add: bit_unsigned_iff possible_bit_def flip: bit_iff_odd)
  ultimately show ?thesis by simp
qed

lemma traverseBranch_spec:
  assumes "tree_ok keccak m" and "d \<le> 59" and "i = unat addr div 2 ^ (64 - d)"
  shows "\<exists>br m'. traverseBranch keccak m (2 ^ d + i) addr d = Inr (br, m') \<and>
    tree_ok keccak m' \<and> cache_step m m' \<and> length br = 60 - d \<and>
    hd br = subtree keccak (mem_byte m) 0 (unat addr div 32) \<and>
    fold_branch keccak (unat addr div 32) (hd br) (tl br) = subtree keccak (mem_byte m) (59 - d) i"
  using assms
proof (induction "59 - d" arbitrary: d i m)
  case 0
  then have d: "d = 59" and i: "i = unat addr div 32" by simp_all
  have il: "i < 2 ^ d" using unat_u64_less [of addr] by (simp add: d i less_mult_imp_div_less)
  from MerkleizeSubtree_spec [OF "0.prems"(1,2) il] obtain h m' where
    m': "MerkleizeSubtree keccak m (2 ^ d + i) = Inr (h, m')" "merkle_post keccak m d i h m'" by blast
  then show ?case by (subst traverseBranch.simps) (simp add: d i merkle_post_def)
next
  case (Suc x)
  then have x: "x = 59 - Suc d" and dl: "Suc d \<le> 59" by simp_all
  define c where "c = unat addr div 2 ^ (64 - Suc d)"
  have e: "64 - d = Suc (64 - Suc d)" using dl by simp
  have i: "i = c div 2" using Suc.prems(3) by (simp only: e c_def power_Suc2 div_mult2_eq)
  have cl: "c < 2 ^ Suc d"
  proof -
    have "unat addr < 2 ^ Suc d * 2 ^ (64 - Suc d)"
      using unat_u64_less [of addr] dl by (simp flip: power_add power_Suc)
    then show ?thesis unfolding c_def by (rule less_mult_imp_div_less)
  qed
  define s where "s = (if odd c then c - 1 else c + 1)"
  have sl: "s < 2 ^ Suc d"
  proof (cases "odd c")
    case True
    then show ?thesis using cl by (simp add: s_def)
  next
    case False
    then obtain q where q: "c = 2 * q" by (auto elim: evenE)
    then have "q < 2 ^ d" using cl by simp
    then show ?thesis using q by (simp add: s_def)
  qed
  have self: "(if odd c then 2 * (2 ^ d + i) + 1 else 2 * (2 ^ d + i)) = 2 ^ Suc d + c"
    and sib: "(if odd c then 2 * (2 ^ d + i) else 2 * (2 ^ d + i) + 1) = 2 ^ Suc d + s"
    by (auto simp: i s_def)
  from Suc.hyps(1) [OF x Suc.prems(1) dl c_def] obtain br m1 where
    p: "traverseBranch keccak m (2 ^ Suc d + c) addr (Suc d) = Inr (br, m1)"
      "tree_ok keccak m1" "cache_step m m1" "length br = 60 - Suc d"
      "hd br = subtree keccak (mem_byte m) 0 (unat addr div 32)"
      "fold_branch keccak (unat addr div 32) (hd br) (tl br) = subtree keccak (mem_byte m) (59 - Suc d) c"
    by blast
  from MerkleizeSubtree_spec [OF p(2) dl sl] obtain h m2 where
    h: "MerkleizeSubtree keccak m1 (2 ^ Suc d + s) = Inr (h, m2)" "merkle_post keccak m1 (Suc d) s h m2" by blast
  have hs: "h = subtree keccak (mem_byte m) (59 - Suc d) s"
    using h(2) cache_step_byte [OF p(3)] by (simp add: merkle_post_def)
  have bit: "addr AND push_bit (WordSize - 1 - d) 1 \<noteq> 0 \<longleftrightarrow> odd c"
    using branch_bit [of "63 - d" addr] dl by (simp add: c_def)
  have c1: "d + 1 = Suc d" "(d = WordSize - 5) = False" "(d > WordSize - 5) = False" using dl by simp_all
  have "traverseBranch keccak m (2 ^ d + i) addr d = Inr (br @ [h], m2)"
    by (subst traverseBranch.simps)
      (simp only: Let_def bit self sib c1 if_False p(1) h(1) bind_res_Inr split_conv)
  moreover have "br \<noteq> []" using p(4) dl by auto
  moreover have "fold_branch keccak (unat addr div 32) (hd (br @ [h])) (tl (br @ [h])) =
      subtree keccak (mem_byte m) (59 - d) i"
  proof -
    have "unat addr div 32 div 2 ^ length (tl br) = c"
    proof -
      have "unat addr div 32 div 2 ^ length (tl br) = unat addr div (2 ^ 5 * 2 ^ (59 - Suc d))"
        using p(4) dl by (simp add: div_mult2_eq)
      also have "(2::nat) ^ 5 * 2 ^ (59 - Suc d) = 2 ^ (5 + (59 - Suc d))" by (simp only: power_add)
      also have "5 + (59 - Suc d) = 64 - Suc d" using dl by simp
      finally show ?thesis by (simp only: c_def)
    qed
    then have "fold_branch keccak (unat addr div 32) (hd br) (tl br @ [h]) =
        (if odd c then HashPair keccak h (subtree keccak (mem_byte m) (59 - Suc d) c)
         else HashPair keccak (subtree keccak (mem_byte m) (59 - Suc d) c) h)"
      by (simp only: fold_branch_snoc p(6))
    also have "\<dots> = subtree keccak (mem_byte m) (Suc (59 - Suc d)) i"
      unfolding hs s_def i by (cases "odd c") simp_all
    also have "Suc (59 - Suc d) = 59 - d" using dl by simp
    finally show ?thesis using \<open>br \<noteq> []\<close> by simp
  qed
  ultimately show ?case
    using p(4,5) dl h(2) cache_step_trans [OF p(3)] by (simp add: merkle_post_def)
qed

lemma MerkleProof_spec:
  assumes "tree_ok keccak m"
  shows "\<exists>br m'. MerkleProof keccak m addr = Inr (concat br, m') \<and>
    tree_ok keccak m' \<and> cache_step m m' \<and> length br = 60 \<and>
    hd br = subtree keccak (mem_byte m) 0 (unat addr div 32) \<and>
    fold_branch keccak (unat addr div 32) (hd br) (tl br) = subtree keccak (mem_byte m) 59 0"
proof -
  have "0 = unat addr div 2 ^ (64 - 0)" using unat_u64_less [of addr] by simp
  from traverseBranch_spec [OF assms _ this] obtain br m' where
    p: "traverseBranch keccak m 1 addr 0 = Inr (br, m')" "length br = 60" and
    q: "tree_ok keccak m'" "cache_step m m'"
      "hd br = subtree keccak (mem_byte m) 0 (unat addr div 32)"
      "fold_branch keccak (unat addr div 32) (hd br) (tl br) = subtree keccak (mem_byte m) 59 0" by auto
  have "MerkleProof keccak m addr = Inr (concat br, m')" using p by (simp add: MerkleProof_def)
  then show ?thesis using p(2) q by blast
qed

section \<open>Properties\<close>

text \<open>C35: the cached root is the true root.  After a write on a memory whose caches are coherent,
  \<open>MerkleRoot\<close> returns the hash of the full binary tree over the bytes the memory now holds, as the
  reference \<open>subtree\<close> computes it from scratch; it changes no byte and leaves the caches coherent.\<close>
theorem MerkleRoot_after_SetWord:
  assumes "tree_ok keccak m" and "aligned a" and "SetWord m a v = Inr m'"
  shows "\<exists>m''. MerkleRoot keccak m' = Inr (subtree keccak (mem_byte m') 59 0, m'') \<and>
    tree_ok keccak m'' \<and> mem_byte m'' = mem_byte m'"
proof -
  have "tree_ok keccak m'" by (rule tree_ok_SetWord [OF assms])
  from MerkleRoot_spec [OF this] show ?thesis using cache_step_byte by blast
qed

theorem MerkleRoot_after_SetWord_witness:
  "\<exists>m' m''. SetWord NewMemory 0x2000 7 = Inr m' \<and>
    MerkleRoot (take 32) m' = Inr (subtree (take 32) (mem_byte m') 59 0, m'') \<and>
    tree_ok (take 32) m'' \<and> mem_byte m'' = mem_byte m'"
proof -
  have al: "aligned 0x2000" by (simp add: aligned_def)
  obtain m' where m': "SetWord NewMemory 0x2000 7 = Inr m'"
    using SetWord_total [OF mem_wf_NewMemory al] by blast
  show ?thesis using MerkleRoot_after_SetWord [OF tree_ok_NewMemory al m'] m' by blast
qed

text \<open>C36: Merkle proofs verify.  For every address, \<open>MerkleProof\<close> on a coherent memory returns 60
  nodes: the 32-byte leaf holding the address, then one sibling per level; folding the siblings over
  the leaf in the direction the address bits give yields exactly the root \<open>MerkleRoot\<close> returns.\<close>
theorem MerkleProof_verifies:
  assumes "tree_ok keccak m"
  shows "\<exists>leaf siblings m' root m''.
    MerkleProof keccak m addr = Inr (concat (leaf # siblings), m') \<and> length siblings = 59 \<and>
    leaf = page_bytes (mem_byte m) (unat addr div 32 * 32) (unat addr div 32 * 32 + 32) \<and>
    MerkleRoot keccak m' = Inr (root, m'') \<and>
    fold_branch keccak (unat addr div 32) leaf siblings = root"
proof -
  from MerkleProof_spec [OF assms] obtain br m' where
    b: "MerkleProof keccak m addr = Inr (concat br, m')" "tree_ok keccak m'" "cache_step m m'"
      "length br = 60" "hd br = subtree keccak (mem_byte m) 0 (unat addr div 32)"
      "fold_branch keccak (unat addr div 32) (hd br) (tl br) = subtree keccak (mem_byte m) 59 0" by blast
  obtain leaf siblings where br: "br = leaf # siblings" using b(4) by (cases br) simp_all
  from MerkleRoot_spec [OF b(2)] obtain m'' where
    "MerkleRoot keccak m' = Inr (subtree keccak (mem_byte m) 59 0, m'')"
    using cache_step_byte [OF b(3)] by auto
  then show ?thesis using b br by auto
qed

theorem MerkleProof_verifies_witness:
  "\<exists>leaf siblings m' root m''.
    MerkleProof (take 32) NewMemory 0x12345678 = Inr (concat (leaf # siblings), m') \<and> length siblings = 59 \<and>
    leaf = page_bytes (mem_byte NewMemory) (unat (0x12345678 :: Word) div 32 * 32)
      (unat (0x12345678 :: Word) div 32 * 32 + 32) \<and>
    MerkleRoot (take 32) m' = Inr (root, m'') \<and>
    fold_branch (take 32) (unat (0x12345678 :: Word) div 32) leaf siblings = root"
  by (rule MerkleProof_verifies [OF tree_ok_NewMemory])

end
