(* ===== verification/Memory_IO.thy ===== *)
theory Memory_IO
  imports Memory_Merkle
begin

unbundle bit_operations_syntax

text \<open>
  The bulk operations of \<open>memory.go\<close>: \<open>SetMemoryRange\<close> (the loader's entry point), the reader
  behind \<open>ReadMemoryRange\<close>, \<open>Copy\<close> and the binary \<open>Serialize\<close>/\<open>Deserialize\<close>.
  An \<open>io.Reader\<close> is a list of segments.  A call \<open>Read(buf)\<close> delivers at most \<open>len(buf)\<close> bytes of the
  first segment; a \<open>Final\<close> segment reports \<open>io.EOF\<close> together with its last bytes, which the
  \<open>io.Reader\<close> contract allows; a \<open>Fail\<close> segment returns another error.
\<close>

datatype io_err = EOF | UnexpectedEOF | ReadError

datatype segment = Bytes "byte list" | Final "byte list" | Fail

fun io_Read :: "nat \<Rightarrow> segment list \<Rightarrow> (byte list \<times> io_err option) \<times> segment list" where
  "io_Read n [] = (([], Some EOF), [])"
| "io_Read n (Bytes bs # rs) =
     (if length bs \<le> n then ((bs, None), rs) else ((take n bs, None), Bytes (drop n bs) # rs))"
| "io_Read n (Final bs # rs) =
     (if length bs \<le> n then ((bs, Some EOF), []) else ((take n bs, None), Final (drop n bs) # rs))"
| "io_Read n (Fail # rs) = (([], Some ReadError), rs)"

fun io_size :: "segment list \<Rightarrow> nat" where
  "io_size [] = 0"
| "io_size (Bytes bs # rs) = Suc (length bs + io_size rs)"
| "io_size (Final bs # rs) = Suc (length bs + io_size rs)"
| "io_size (Fail # rs) = Suc (io_size rs)"

lemma io_Read_progress: "0 < n \<Longrightarrow> io_Read n rs = ((bs, None), rs') \<Longrightarrow> io_size rs' < io_size rs"
  by (cases "(n, rs)" rule: io_Read.cases) (auto split: if_splits)

lemma io_Read_length: "io_Read n rs = ((bs, None), rs') \<Longrightarrow> length bs \<le> n"
  by (cases "(n, rs)" rule: io_Read.cases) (auto split: if_splits)

section \<open>SetMemoryRange\<close>

text \<open>One round of the loop after a successful read of \<open>bs\<close>.\<close>

definition set_range_chunk :: "Memory \<Rightarrow> Word \<Rightarrow> byte list \<Rightarrow> Memory res" where
  "set_range_chunk m addr bs =
     (let pageIndex = drop_bit PageAddrSize addr;
          pageAddr = addr AND PageAddrMask;
          ((p, ok), m1) = PageLookup m pageIndex
      in bind_res
           (if \<not> ok then let (r, m2) = AllocPage m1 pageIndex in Inr (r, m2)
            else case p of None \<Rightarrow> Inl NilDereference | Some r \<Rightarrow> Inr (r, m1))
           (\<lambda>(r, m2).
              let pg = InvalidateFull (pageObjs m2 r)
              in Inr (set_page m2 r (pg\<lparr>Data := write_data (unat pageAddr) bs (Data pg)\<rparr>))))"

lemma page_room_positive: "0 < PageSize - unat (addr AND PageAddrMask)"
  by (simp only: unat_page_offset PageSize_def zero_less_diff mod_less_divisor)

function SetMemoryRange :: "Memory \<Rightarrow> Word \<Rightarrow> segment list \<Rightarrow> (io_err option \<times> Memory) res" where
  "SetMemoryRange m addr r =
     (case io_Read (PageSize - unat (addr AND PageAddrMask)) r of
        ((bs, Some e), r') \<Rightarrow> if e = EOF then Inr (None, m) else Inr (Some e, m)
      | ((bs, None), r') \<Rightarrow>
          bind_res (set_range_chunk m addr bs)
            (\<lambda>m1. SetMemoryRange m1 (addr + of_nat (length bs)) r'))"
  by pat_completeness auto
termination
  by (relation "measure (\<lambda>(m, addr, r). io_size r)")
    (auto simp del: PageSize_def PageAddrMask_def dest: io_Read_progress [OF page_room_positive, OF sym])

declare SetMemoryRange.simps [simp del]

lemma mem_wf_set_page: "mem_wf (set_page m r p) \<longleftrightarrow> mem_wf m"
  by (rule mem_wf_cong) (simp_all add: set_page_def)

lemma set_range_chunk_existing:
  assumes "mem_wf m" and "pageTable m (drop_bit PageAddrSize addr) = Some r"
    and "unat addr mod 4096 + length bs \<le> 4096"
  obtains m' where "set_range_chunk m addr bs = Inr m'" and "mem_wf m'" and "nodes m' = nodes m"
    and "pageTable m' = pageTable m"
    and "pageObjs m' = (pageObjs m)(r := InvalidateFull (pageObjs m r)
           \<lparr>Data := write_data (unat addr mod 4096) bs (Data (pageObjs m r))\<rparr>)"
proof -
  let ?k = "drop_bit PageAddrSize addr"
  from PageLookup_spec [OF assms(1) page_index_less] obtain m1 where
    look: "PageLookup m ?k = ((pageTable m ?k, pageTable m ?k \<noteq> None), m1)" and
    m1: "mem_wf m1" "nodes m1 = nodes m" "pageTable m1 = pageTable m" "pageObjs m1 = pageObjs m"
      "nextPage m1 = nextPage m" by metis
  have look': "PageLookup m ?k = ((Some r, True), m1)" using look assms(2) by simp
  let ?pg = "InvalidateFull (pageObjs m r)\<lparr>Data := write_data (unat addr mod 4096) bs (Data (pageObjs m r))\<rparr>"
  have "set_range_chunk m addr bs = Inr (set_page m1 r ?pg)"
    unfolding set_range_chunk_def Let_def look' unat_page_offset
    by (simp add: m1 InvalidateFull_def)
  then show thesis
    by (rule that) (simp_all add: mem_wf_set_page m1, simp_all add: set_page_def m1)
qed

text \<open>Reading a fresh segment into the rest of a page.\<close>

lemma SetMemoryRange_one_page:
  assumes "mem_wf m" and "pageTable m (drop_bit PageAddrSize addr) = Some r"
    and "unat addr mod 4096 + length bs \<le> 4096"
  obtains m' where "SetMemoryRange m addr [Bytes bs] = Inr (None, m')" and "mem_wf m'"
    and "nodes m' = nodes m" and "pageTable m' = pageTable m"
    and "pageObjs m' = (pageObjs m)(r := InvalidateFull (pageObjs m r)
           \<lparr>Data := write_data (unat addr mod 4096) bs (Data (pageObjs m r))\<rparr>)"
proof -
  from set_range_chunk_existing [OF assms] obtain m' where
    m': "set_range_chunk m addr bs = Inr m'" "mem_wf m'" "nodes m' = nodes m" "pageTable m' = pageTable m"
      "pageObjs m' = (pageObjs m)(r := InvalidateFull (pageObjs m r)
           \<lparr>Data := write_data (unat addr mod 4096) bs (Data (pageObjs m r))\<rparr>)" by blast
  have rd: "io_Read (PageSize - unat (addr AND PageAddrMask)) [Bytes bs] = ((bs, None), [])"
    unfolding unat_page_offset using assms(3) by simp
  have "SetMemoryRange m addr [Bytes bs] = SetMemoryRange m' (addr + of_nat (length bs)) []"
    by (subst SetMemoryRange.simps) (simp only: rd m'(1) split_conv option.case bind_res_Inr prod.case)
  also have "\<dots> = Inr (None, m')" by (subst SetMemoryRange.simps) simp
  finally show thesis using that m'(2-5) by blast
qed

lemma mem_byte_in_page:
  assumes "pageTable m (drop_bit PageAddrSize addr) = Some r" and "unat addr mod 4096 + j < 4096"
  shows "mem_byte m (unat addr + j) = Data (pageObjs m r) (unat addr mod 4096 + j)"
proof -
  note split = div_mod_add_small [OF assms(2)]
  have "(of_nat (unat addr div 4096) :: Word) = drop_bit PageAddrSize addr"
    by (rule word_unat_eq_iff [THEN iffD2])
      (use unat_u64_less [of addr] in \<open>simp only: unat_page_index unat_of_nat, simp\<close>)
  then show ?thesis using assms(1) by (simp only: mem_byte_def split option.case)
qed

section \<open>Reading a range\<close>

text \<open>
  \<open>memReader.Read(dest)\<close> with \<open>len(dest) = L\<close>: \<open>p.Data[start:end]\<close> and \<open>make([]byte, end-start)\<close>
  panic when \<open>end < start\<close>.  The result is \<^const>\<open>None\<close> at the end of the range, otherwise the bytes
  and the reader's new address and count.
\<close>

definition memReader_Read ::
    "Memory \<Rightarrow> Word \<Rightarrow> Word \<Rightarrow> nat \<Rightarrow> ((byte list \<times> Word \<times> Word) option \<times> Memory) res" where
  "memReader_Read m addr count L =
     (if count = 0 then Inr (None, m)
      else
        let endAddr = addr + count;
            pageIndex = drop_bit PageAddrSize addr;
            start = unat (addr AND PageAddrMask);
            endp = (if pageIndex = drop_bit PageAddrSize endAddr then unat (endAddr AND PageAddrMask)
                    else PageSize);
            ((p, ok), m1) = PageLookup m pageIndex
        in if endp < start then Inl IndexOutOfRange
           else bind_res
             (if ok then (case p of None \<Rightarrow> Inl NilDereference
                          | Some r \<Rightarrow> Inr (take L (page_bytes (Data (pageObjs m1 r)) start endp)))
              else Inr (take L (replicate (endp - start) 0)))
             (\<lambda>bs. Inr (Some (bs, addr + of_nat (length bs), count - of_nat (length bs)), m1)))"

text \<open>\<open>io.Copy\<close> and \<open>io.ReadAll\<close>: read into a buffer of \<open>L\<close> bytes until \<open>io.EOF\<close>.  The model stops a
  reader that delivers no byte, which \<open>read_range_spec\<close> shows does not happen.\<close>

function read_range :: "nat \<Rightarrow> Memory \<Rightarrow> Word \<Rightarrow> Word \<Rightarrow> (byte list \<times> Memory) res" where
  "read_range L m addr count =
     bind_res (memReader_Read m addr count L) (\<lambda>(res, m1).
       case res of
         None \<Rightarrow> Inr ([], m1)
       | Some (bs, addr', count') \<Rightarrow>
           if unat count' < unat count then
             bind_res (read_range L m1 addr' count') (\<lambda>(rest, m2). Inr (bs @ rest, m2))
           else Inl StackOverflow)"
  by pat_completeness auto
termination
  by (relation "measure (\<lambda>(L, m, addr, count). unat count)") auto

declare read_range.simps [simp del]

text \<open>The bytes of a range that stays below \<open>2 ^ 64\<close>, whatever the buffer.\<close>

lemma memReader_Read_spec:
  assumes "mem_wf m" and "count \<noteq> 0" and "unat addr + unat count < 2 ^ 64" and "0 < L"
  shows "\<exists>n m1. 0 < n \<and> n \<le> unat count \<and> mem_wf m1 \<and> mem_byte m1 = mem_byte m \<and> nodes m1 = nodes m \<and>
    pageTable m1 = pageTable m \<and> pageObjs m1 = pageObjs m \<and>
    memReader_Read m addr count L =
      Inr (Some (map (mem_byte m) [unat addr..<unat addr + n], addr + of_nat n, count - of_nat n), m1)"
proof -
  let ?k = "drop_bit PageAddrSize addr"
  define start where "start = unat addr mod 4096"
  have "unat (addr + count) = (unat addr + unat count) mod 2 ^ 64" by (simp add: unat_word_ariths)
  then have ue: "unat (addr + count) = unat addr + unat count" using assms(3) by simp
  have pos: "0 < unat count" using assms(2) by (simp add: unat_gt_0)
  define endp where "endp = (if ?k = drop_bit PageAddrSize (addr + count)
    then unat ((addr + count) AND PageAddrMask) else PageSize)"
  have key: "?k = drop_bit PageAddrSize (addr + count) \<longleftrightarrow> unat addr div 4096 = (unat addr + unat count) div 4096"
    by (simp only: word_unat_eq_iff unat_page_index ue)
  have bounds: "start < endp \<and> endp \<le> 4096 \<and> endp - start \<le> unat count"
  proof (cases "unat addr div 4096 = (unat addr + unat count) div 4096")
    case True
    then have "?k = drop_bit PageAddrSize (addr + count)" using key by blast
    then have "endp = (unat addr + unat count) mod 4096"
      unfolding endp_def unat_page_offset ue by (rule if_P)
    then show ?thesis using True pos div_mult_mod_eq [of "unat addr" 4096]
      div_mult_mod_eq [of "unat addr + unat count" 4096] unfolding start_def by linarith
  next
    case False
    then have e: "endp = 4096" using key by (simp only: endp_def if_False PageSize_def)
    have "unat addr div 4096 < (unat addr + unat count) div 4096"
      using False div_le_mono [of "unat addr" "unat addr + unat count" 4096] by linarith
    then show ?thesis using e div_mult_mod_eq [of "unat addr" 4096]
      div_mult_mod_eq [of "unat addr + unat count" 4096] mod_less_divisor [of 4096 "unat addr"]
      unfolding start_def by linarith
  qed
  define n where "n = min L (endp - start)"
  have n: "0 < n" "n \<le> unat count" "start + n \<le> 4096" using bounds assms(4) by (auto simp: n_def)
  from PageLookup_spec [OF assms(1) page_index_less] obtain m1 where
    look: "PageLookup m ?k = ((pageTable m ?k, pageTable m ?k \<noteq> None), m1)" and
    m1: "mem_wf m1" "nodes m1 = nodes m" "pageTable m1 = pageTable m" "pageObjs m1 = pageObjs m"
      "nextPage m1 = nextPage m" by metis
  have shift: "map f [a..<a + n] = map (\<lambda>j. f (a + j)) [0..<n]" for f :: "nat \<Rightarrow> byte" and a
    by (rule nth_equalityI) simp_all
  have le: "(endp < start) = False" and nl: "min (endp - start) L = n" using bounds by (simp_all add: n_def)
  have "memReader_Read m addr count L =
      Inr (Some (map (mem_byte m) [unat addr..<unat addr + n], addr + of_nat n, count - of_nat n), m1)"
  proof (cases "pageTable m ?k")
    case None
    have "map (mem_byte m) [unat addr..<unat addr + n] = replicate n 0"
      unfolding shift
    proof (rule replicate_eqI)
      fix y assume "y \<in> set (map (\<lambda>j. mem_byte m (unat addr + j)) [0..<n])"
      then obtain j where j: "y = mem_byte m (unat addr + j)" "j < n" by auto
      have "start + j < 4096" using j n by linarith
      then have "(unat addr + j) div 4096 = unat ?k"
        using div_mod_add_small(1) by (simp only: start_def unat_page_index)
      then show "y = 0" using j(1) mem_byte_no_page [OF None] by simp
    qed simp
    moreover have "take L (replicate (endp - start) (0 :: byte)) = replicate n 0" by (simp add: n_def)
    ultimately show ?thesis using assms(2) None
      unfolding memReader_Read_def Let_def look unat_page_offset [of addr]
      by (simp add: le del: PageAddrSize_def flip: endp_def start_def)
  next
    case (Some r)
    have "map (mem_byte m) [unat addr..<unat addr + n] = map (\<lambda>j. Data (pageObjs m r) (start + j)) [0..<n]"
      unfolding shift using n mem_byte_in_page [OF Some] by (auto simp: start_def)
    also have "\<dots> = take L (page_bytes (Data (pageObjs m r)) start endp)"
    proof -
      have "take L [start..<endp] = [start..<start + n]" using bounds by (auto simp: n_def min_def)
      then show ?thesis by (simp only: page_bytes_def take_map shift)
    qed
    finally show ?thesis using assms(2) Some m1(4)
      unfolding memReader_Read_def Let_def look unat_page_offset [of addr]
      by (simp add: le nl del: PageAddrSize_def flip: endp_def start_def)
  qed
  then show ?thesis using n m1 mem_byte_cong [of m1 m] by auto
qed

lemma read_range_spec:
  assumes "mem_wf m" and "unat addr + unat count < 2 ^ 64" and "0 < L"
  shows "\<exists>m1. read_range L m addr count = Inr (map (mem_byte m) [unat addr..<unat addr + unat count], m1) \<and>
    mem_wf m1 \<and> mem_byte m1 = mem_byte m \<and> nodes m1 = nodes m \<and> pageTable m1 = pageTable m \<and>
    pageObjs m1 = pageObjs m"
  using assms
proof (induction "unat count" arbitrary: m addr count rule: less_induct)
  case less
  show ?case
  proof (cases "count = 0")
    case True
    then show ?thesis using less.prems(1) by (subst read_range.simps) (simp add: memReader_Read_def)
  next
    case False
    from memReader_Read_spec [OF less.prems(1) False less.prems(2,3)] obtain n m1 where
      n: "0 < n" "n \<le> unat count" and
      m1: "mem_wf m1" "mem_byte m1 = mem_byte m" "nodes m1 = nodes m" "pageTable m1 = pageTable m"
        "pageObjs m1 = pageObjs m" and
      rd: "memReader_Read m addr count L =
        Inr (Some (map (mem_byte m) [unat addr..<unat addr + n], addr + of_nat n, count - of_nat n), m1)"
      by blast
    have un: "unat (of_nat n :: Word) = n"
      using n(2) unat_u64_less [of count] by (simp add: unat_of_nat)
    have ua: "unat (addr + of_nat n) = unat addr + n"
      using n(2) less.prems(2) by (simp add: unat_word_ariths un)
    have uc: "unat (count - of_nat n) = unat count - n"
      using n(2) un by (simp add: unat_sub word_le_nat_alt)
    have lt: "unat (count - of_nat n) < unat count" using n uc by simp
    have le: "unat (addr + of_nat n) + unat (count - of_nat n) < 2 ^ 64"
      using less.prems(2) n(2) by (simp only: ua uc)
    from less.hyps [OF lt m1(1) le less.prems(3)] obtain m2 where
      rest: "read_range L m1 (addr + of_nat n) (count - of_nat n) =
          Inr (map (mem_byte m) [unat addr + n..<unat addr + unat count], m2)" and
      m2: "mem_wf m2" "mem_byte m2 = mem_byte m" "nodes m2 = nodes m" "pageTable m2 = pageTable m"
        "pageObjs m2 = pageObjs m"
      using n(2) by (simp only: m1 ua uc) auto
    have "map (mem_byte m) [unat addr..<unat addr + n] @ map (mem_byte m) [unat addr + n..<unat addr + unat count] =
        map (mem_byte m) [unat addr..<unat addr + unat count]"
    proof -
      have "[unat addr..<unat addr + unat count] = [unat addr..<unat addr + n] @ [unat addr + n..<unat addr + unat count]"
        using upt_add_eq_append [of "unat addr" "unat addr + n" "unat count - n"] n(2) by simp
      then show ?thesis by (simp only: map_append)
    qed
    then show ?thesis using m2
      by (subst read_range.simps) (simp add: rd lt rest)
  qed
qed

text \<open>In general a range may wrap around the address space: then the reader may panic, but only so.\<close>

definition same_pages :: "Memory \<Rightarrow> Memory \<Rightarrow> bool" where
  "same_pages m m' \<longleftrightarrow> mem_wf m' \<and> nodes m' = nodes m \<and> pageTable m' = pageTable m \<and> pageObjs m' = pageObjs m"

lemma memReader_Read_post:
  assumes "mem_wf m" and "count \<noteq> 0" and "0 < L"
  shows "post {IndexOutOfRange} (\<lambda>(res, m'). same_pages m m' \<and>
    (\<exists>bs a' c'. res = Some (bs, a', c') \<and> unat c' < unat count)) (memReader_Read m addr count L)"
proof -
  let ?k = "drop_bit PageAddrSize addr"
  define start where "start = unat addr mod 4096"
  define endp where "endp = (if ?k = drop_bit PageAddrSize (addr + count)
    then unat ((addr + count) AND PageAddrMask) else PageSize)"
  have pos: "0 < unat count" "unat count < 2 ^ 64" and ad: "unat addr < 2 ^ 64"
    using assms(2) unat_u64_less [of count] unat_u64_less [of addr] by (simp_all add: unat_gt_0)
  have sum: "unat (addr + count) = unat addr + unat count \<or> unat (addr + count) + 2 ^ 64 = unat addr + unat count"
  proof (cases "unat addr + unat count < 2 ^ 64")
    case True
    then show ?thesis by (simp add: unat_word_ariths)
  next
    case False
    then have "(unat addr + unat count) mod 2 ^ 64 = (unat addr + unat count - 2 ^ 64) mod 2 ^ 64"
      by (intro le_mod_geq) simp
    also have "\<dots> = unat addr + unat count - 2 ^ 64" using pos(2) ad by (intro mod_less) linarith
    finally have "unat (addr + count) = unat addr + unat count - 2 ^ 64" by (simp add: unat_word_ariths)
    then show ?thesis using False by linarith
  qed
  have key: "?k = drop_bit PageAddrSize (addr + count) \<longleftrightarrow> unat addr div 4096 = unat (addr + count) div 4096"
    by (simp only: word_unat_eq_iff unat_page_index)
  note dm = div_mult_mod_eq [of "unat addr" 4096] div_mult_mod_eq [of "unat (addr + count)" 4096]
    mod_less_divisor [of 4096 "unat addr"]
  have room: "start < endp \<and> endp - start \<le> unat count" if "\<not> endp < start"
  proof (cases "?k = drop_bit PageAddrSize (addr + count)")
    case True
    then have e: "endp = unat (addr + count) mod 4096"
      unfolding endp_def unat_page_offset by (rule if_P)
    have d: "unat addr div 4096 = unat (addr + count) div 4096" using True key by blast
    show ?thesis using that e d sum dm pos unfolding start_def by linarith
  next
    case False
    then have e: "endp = 4096" unfolding endp_def by simp
    have d: "unat addr div 4096 \<noteq> unat (addr + count) div 4096" using False key by blast
    have q: "unat addr div 4096 + 1 \<le> 4503599627370496" using ad by simp
    from sum have "4096 - start \<le> unat count"
    proof
      assume s: "unat (addr + count) = unat addr + unat count"
      then have "unat addr div 4096 \<le> unat (addr + count) div 4096" by (intro div_le_mono) simp
      then have "unat addr div 4096 + 1 \<le> unat (addr + count) div 4096" using d by linarith
      then show ?thesis using s dm(1,2) unfolding start_def by linarith
    next
      assume "unat (addr + count) + 2 ^ 64 = unat addr + unat count"
      then have "18446744073709551616 \<le> unat addr + unat count" by simp
      then show ?thesis using q dm(1) unfolding start_def by linarith
    qed
    then show ?thesis using e dm(3) unfolding start_def by linarith
  qed
  from PageLookup_spec [OF assms(1) page_index_less] obtain m1 where
    look: "PageLookup m ?k = ((pageTable m ?k, pageTable m ?k \<noteq> None), m1)" and
    m1: "mem_wf m1" "nodes m1 = nodes m" "pageTable m1 = pageTable m" "pageObjs m1 = pageObjs m"
      "nextPage m1 = nextPage m" by metis
  have dec: "unat (count - of_nat (min (endp - start) L)) < unat count" if "\<not> endp < start"
  proof -
    let ?n = "min (endp - start) L"
    have l: "0 < ?n" "?n \<le> unat count" using room [OF that] assms(3) by auto
    have "unat (of_nat ?n :: Word) = ?n" using l(2) pos(2) by (simp add: unat_of_nat)
    then have "unat (count - of_nat ?n) = unat count - ?n" using l(2) by (simp add: unat_sub word_le_nat_alt)
    then show ?thesis using l by linarith
  qed
  have sp: "same_pages m m1" using m1 by (simp add: same_pages_def)
  have unf: "memReader_Read m addr count L =
      (if endp < start then Inl IndexOutOfRange
       else bind_res
             (if pageTable m ?k \<noteq> None then (case pageTable m ?k of None \<Rightarrow> Inl NilDereference
                          | Some r \<Rightarrow> Inr (take L (page_bytes (Data (pageObjs m1 r)) start endp)))
              else Inr (take L (replicate (endp - start) 0)))
             (\<lambda>bs. Inr (Some (bs, addr + of_nat (length bs), count - of_nat (length bs)), m1)))"
    unfolding memReader_Read_def Let_def look unat_page_offset [of addr]
    by (simp only: assms(2) if_False split_conv start_def endp_def)
  show ?thesis
  proof (cases "endp < start")
    case True
    then show ?thesis unfolding unf by simp
  next
    case False
    then show ?thesis
      unfolding unf using dec [OF False] sp by (cases "pageTable m ?k") (simp_all add: min.commute)
  qed
qed

lemma read_range_post:
  assumes "mem_wf m" and "0 < L"
  shows "post {IndexOutOfRange} (\<lambda>(bs, m'). same_pages m m') (read_range L m addr count)"
  using assms
proof (induction "unat count" arbitrary: m addr count rule: less_induct)
  case less
  show ?case
  proof (cases "count = 0")
    case True
    then show ?thesis
      using less.prems(1) by (subst read_range.simps) (simp add: memReader_Read_def same_pages_def)
  next
    case False
    have step: "post {IndexOutOfRange} (\<lambda>(bs, m'). same_pages m m')
        (bind_res (read_range L m1 a' c') (\<lambda>(rest, m2). Inr (bs @ rest, m2)))"
      if "same_pages m m1" "unat c' < unat count" for m1 a' c' bs
      by (rule post_bind [OF less.hyps [OF that(2) _ less.prems(2)]])
        (use that(1) in \<open>auto simp: same_pages_def\<close>)
    show ?thesis
      by (subst read_range.simps, rule post_bind [OF memReader_Read_post [OF less.prems(1) False less.prems(2)]])
        (auto simp: step)
  qed
qed

lemma same_pages_byte: "same_pages m m' \<Longrightarrow> mem_byte m' = mem_byte m"
  by (rule mem_byte_cong) (simp_all add: same_pages_def)

lemma same_pages_tree_ok: "tree_ok keccak m \<Longrightarrow> same_pages m m' \<Longrightarrow> tree_ok keccak m'"
  unfolding same_pages_def by (blast intro: tree_ok_same)

section \<open>Copy and the binary format\<close>

definition PageCount :: "Memory \<Rightarrow> nat" where
  "PageCount m = card (dom (pageTable m))"

definition UsageRaw :: "Memory \<Rightarrow> Word" where
  "UsageRaw m = of_nat (PageCount m) * 4096"

text \<open>The keys of the page table in order; \<open>Copy\<close> ranges over the map in Go's unspecified order,
  which only decides the addresses of the new page objects.\<close>

definition page_indexes :: "Memory \<Rightarrow> Word list" where
  "page_indexes m = sorted_list_of_set (dom (pageTable m))"

text \<open>\<open>m.AllocPage(k).Data = d\<close>\<close>

definition load_page :: "Memory \<Rightarrow> Word \<Rightarrow> (nat \<Rightarrow> byte) \<Rightarrow> Memory" where
  "load_page m k d =
     (let (p, m1) = AllocPage m k in set_page m1 p (pageObjs m1 p\<lparr>Data := d\<rparr>))"

definition copy_page :: "Memory \<Rightarrow> Word \<Rightarrow> Memory \<Rightarrow> Memory" where
  "copy_page m k out =
     (case pageTable m k of None \<Rightarrow> out | Some r \<Rightarrow> load_page out k (Data (pageObjs m r)))"

definition Copy :: "Memory \<Rightarrow> Memory" where
  "Copy m = fold (copy_page m) (page_indexes m) NewMemory"

definition serialize_page :: "Memory \<Rightarrow> Word \<Rightarrow> byte list" where
  "serialize_page m k =
     (case pageTable m k of
        None \<Rightarrow> []
      | Some r \<Rightarrow> put_u64 k @ page_bytes (Data (pageObjs m r)) 0 4096)"

definition mem_Serialize :: "Memory \<Rightarrow> byte list" where
  "mem_Serialize m = put_u64 (of_nat (PageCount m)) @ concat (map (serialize_page m) (page_indexes m))"

text \<open>\<open>binary.Read\<close> of a fixed-size value and \<open>io.ReadFull\<close>: \<open>EOF\<close> when nothing is left,
  \<open>UnexpectedEOF\<close> when the input ends inside the value.\<close>

definition read_full :: "nat \<Rightarrow> byte list \<Rightarrow> io_err + byte list \<times> byte list" where
  "read_full n inp =
     (if n \<le> length inp then Inr (take n inp, drop n inp)
      else if inp = [] then Inl EOF else Inl UnexpectedEOF)"

definition read_word :: "byte list \<Rightarrow> io_err + Word \<times> byte list" where
  "read_word inp = bind_res (read_full 8 inp) (\<lambda>(b, rest). Inr (get_u64 b, rest))"

fun deserialize_pages :: "nat \<Rightarrow> Memory \<Rightarrow> byte list \<Rightarrow> io_err + Memory \<times> byte list" where
  "deserialize_pages 0 m inp = Inr (m, inp)"
| "deserialize_pages (Suc n) m inp =
     bind_res (read_word inp) (\<lambda>(pageIndex, rest).
       bind_res (read_full 4096 rest) (\<lambda>(d, rest').
         deserialize_pages n (load_page m pageIndex (\<lambda>i. if i < 4096 then d ! i else 0)) rest'))"

definition mem_Deserialize :: "Memory \<Rightarrow> byte list \<Rightarrow> io_err + Memory \<times> byte list" where
  "mem_Deserialize m inp =
     bind_res (read_word inp) (\<lambda>(pageCount, rest). deserialize_pages (unat pageCount) m rest)"

section \<open>The pages a memory holds\<close>

definition page_view :: "Memory \<Rightarrow> Word \<Rightarrow> byte list option" where
  "page_view m k = map_option (\<lambda>r. page_bytes (Data (pageObjs m r)) 0 4096) (pageTable m k)"

lemma page_view_byte:
  "mem_byte m a = (case page_view m (of_nat (a div 4096)) of None \<Rightarrow> 0 | Some d \<Rightarrow> d ! (a mod 4096))"
  by (simp add: mem_byte_def page_view_def page_bytes_def split: option.split)

lemma page_view_eq_byte: "page_view m' = page_view m \<Longrightarrow> mem_byte m' = mem_byte m"
  by (rule ext) (simp add: page_view_byte)

lemma load_page_spec:
  assumes "tree_ok keccak m" and "pageTable m k = None" and "unat k < 2 ^ 52"
  shows "tree_ok keccak (load_page m k d)"
    and "pageTable (load_page m k d) = (pageTable m)(k \<mapsto> nextPage m)"
    and "page_view (load_page m k d) = (page_view m)(k \<mapsto> page_bytes d 0 4096)"
proof -
  let ?m = "load_page m k d"
  have eq: "?m = m\<lparr>pageObjs := (pageObjs m)(nextPage m := new_CachedPage\<lparr>Data := d\<rparr>),
      nextPage := Suc (nextPage m), pageTable := (pageTable m)(k \<mapsto> nextPage m),
      nodes := nil_path (2 ^ 52 + unat k) (nodes m)\<rparr>"
    by (simp add: load_page_def AllocPage_def AddPage_def set_page_def Let_def page_gindex_eq [OF assms(3)])
  show pt: "pageTable ?m = (pageTable m)(k \<mapsto> nextPage m)" by (simp add: eq)
  have old: "r < nextPage m" if "pageTable m j = Some r" for j r
    using mem_wf_bounds [OF tree_okD(1) [OF assms(1)] that] by simp
  show "page_view ?m = (page_view m)(k \<mapsto> page_bytes d 0 4096)"
  proof
    fix x show "page_view ?m x = ((page_view m)(k \<mapsto> page_bytes d 0 4096)) x"
      using old [of x] by (cases "pageTable m x") (auto simp: page_view_def eq)
  qed
  have wf: "mem_wf ?m"
    by (rule mem_wf_new_page [OF tree_okD(1) [OF assms(1)] assms(2,3)]) (simp_all add: eq)
  show "tree_ok keccak ?m"
  proof (rule tree_ok_write [OF assms(1) wf, of k])
    fix k' r assume "pageTable m k' = Some r"
    then show "pageObjs ?m r = pageObjs m r" using old [of k' r] by (simp add: eq)
  next
    fix r assume "pageTable ?m k = Some r"
    then show "page_coherent keccak (pageObjs ?m r)" by (simp add: eq page_coherent_def new_CachedPage_def)
  next
    fix dd i assume "dd < 52" "under dd i k"
    then show "nodes ?m (2 ^ dd + i) = Some None" using nil_path_under by (simp add: eq)
  next
    fix g show "nodes ?m g = Some None \<or> nodes ?m g = nodes m g" using nil_path_cases by (simp add: eq)
  qed (simp add: eq)
qed

definition loadable :: "Memory \<Rightarrow> Memory \<Rightarrow> Word list \<Rightarrow> bool" where
  "loadable m out ks \<longleftrightarrow> distinct ks \<and>
     (\<forall>k \<in> set ks. pageTable m k \<noteq> None \<and> unat k < 2 ^ 52 \<and> pageTable out k = None)"

text \<open>Both loading loops visit the pages in turn; this is what they have in common.\<close>

lemma loadable_step:
  assumes "loadable m out (k # ks)" and "tree_ok keccak out" and "pageTable m k = Some r"
    and "\<And>i. i < 4096 \<Longrightarrow> d i = Data (pageObjs m r) i"
  shows "loadable m (load_page out k d) ks" and "tree_ok keccak (load_page out k d)"
    and "page_view (load_page out k d) = (page_view out)(k := page_view m k)"
proof -
  have k: "pageTable out k = None" "unat k < 2 ^ 52" using assms(1) by (simp_all add: loadable_def)
  note spec = load_page_spec [OF assms(2) k]
  show "tree_ok keccak (load_page out k d)" by (rule spec(1))
  show "loadable m (load_page out k d) ks" using assms(1) by (auto simp: loadable_def spec(2))
  have "page_bytes d 0 4096 = page_bytes (Data (pageObjs m r)) 0 4096"
    using assms(4) by (simp add: page_bytes_def)
  then show "page_view (load_page out k d) = (page_view out)(k := page_view m k)"
    using assms(3) by (simp add: spec(3) page_view_def)
qed

lemma copy_pages_spec:
  assumes "loadable m out ks" and "tree_ok keccak out"
  shows "tree_ok keccak (fold (copy_page m) ks out) \<and>
    page_view (fold (copy_page m) ks out) = (\<lambda>k. if k \<in> set ks then page_view m k else page_view out k)"
  using assms
proof (induction ks arbitrary: out)
  case Nil
  then show ?case by simp
next
  case (Cons k ks)
  from Cons.prems(1) obtain r where r: "pageTable m k = Some r" by (auto simp: loadable_def)
  note step = loadable_step [OF Cons.prems r, of "Data (pageObjs m r)", OF refl]
  show ?case using Cons.IH [OF step(1,2)] r step(3) by (auto simp: copy_page_def fun_eq_iff)
qed

lemma deserialize_pages_spec:
  assumes "loadable m out ks" and "tree_ok keccak out"
  shows "\<exists>out'. deserialize_pages (length ks) out (concat (map (serialize_page m) ks) @ rest) = Inr (out', rest) \<and>
    tree_ok keccak out' \<and> page_view out' = (\<lambda>k. if k \<in> set ks then page_view m k else page_view out k)"
  using assms
proof (induction ks arbitrary: out)
  case Nil
  then show ?case by simp
next
  case (Cons k ks)
  from Cons.prems(1) obtain r where r: "pageTable m k = Some r" by (auto simp: loadable_def)
  let ?d = "page_bytes (Data (pageObjs m r)) 0 4096"
  let ?f = "\<lambda>i. if i < 4096 then ?d ! i else 0"
  let ?tail = "concat (map (serialize_page m) ks) @ rest"
  note step = loadable_step [OF Cons.prems r, of ?f]
  have len: "length ?d = 4096" by simp
  have f: "?f i = Data (pageObjs m r) i" if "i < 4096" for i using that by (simp add: page_bytes_def)
  have w: "read_word (put_u64 k @ ?d @ ?tail) = Inr (k, ?d @ ?tail)"
    by (simp add: read_word_def read_full_def)
  have d: "read_full 4096 (?d @ ?tail) = Inr (?d, ?tail)"
    by (simp add: read_full_def len)
  from Cons.IH [OF step(1) [OF f] step(2) [OF f]] obtain out' where
    out': "deserialize_pages (length ks) (load_page out k ?f) ?tail = Inr (out', rest)" "tree_ok keccak out'"
      "page_view out' = (\<lambda>k'. if k' \<in> set ks then page_view m k' else page_view (load_page out k ?f) k')" by auto
  have "concat (map (serialize_page m) (k # ks)) @ rest = put_u64 k @ ?d @ ?tail"
    using r by (simp add: serialize_page_def)
  then have "deserialize_pages (length (k # ks)) out (concat (map (serialize_page m) (k # ks)) @ rest) = Inr (out', rest)"
    by (simp only: list.size deserialize_pages.simps add_Suc_right add_0_right w d out'(1) bind_res_Inr prod.case)
  moreover have "page_view out' = (\<lambda>k'. if k' \<in> set (k # ks) then page_view m k' else page_view out k')"
    using out'(3) step(3) [OF f] by (auto simp: fun_eq_iff)
  ultimately show ?case using out'(2) by blast
qed

lemma page_indexes_facts:
  assumes "mem_wf m"
  shows "distinct (page_indexes m)" and "set (page_indexes m) = dom (pageTable m)"
    and "length (page_indexes m) = PageCount m" and "PageCount m < 2 ^ 64"
    and "loadable m NewMemory (page_indexes m)"
proof -
  have fin: "finite (dom (pageTable m))" by simp
  show d: "distinct (page_indexes m)" and s: "set (page_indexes m) = dom (pageTable m)"
    and "length (page_indexes m) = PageCount m"
    using fin by (simp_all add: page_indexes_def PageCount_def)
  have sub: "unat ` dom (pageTable m) \<subseteq> {..<2 ^ 52}" using mem_wf_bounds [OF assms] by fastforce
  have "inj_on unat (dom (pageTable m))" by (simp add: inj_on_def word_unat_eq_iff)
  then have "PageCount m = card (unat ` dom (pageTable m))" by (simp add: PageCount_def card_image)
  also have "\<dots> \<le> card {..<2 ^ 52 :: nat}" by (rule card_mono [OF finite_lessThan sub])
  finally show "PageCount m < 2 ^ 64" by simp
  show "loadable m NewMemory (page_indexes m)"
    unfolding loadable_def s using d mem_wf_bounds [OF assms] by (auto simp: NewMemory_def)
qed

lemma page_view_merge:
  assumes "mem_wf m"
  shows "(\<lambda>k. if k \<in> set (page_indexes m) then page_view m k else page_view NewMemory k) = page_view m"
  by (rule ext) (auto simp: page_indexes_facts(2) [OF assms] page_view_def NewMemory_def dom_def)

text \<open>Computing the root leaves it cached, and a cached root is returned as it is.\<close>

lemma MerkleRoot_unfold:
  "MerkleRoot keccak m =
    (case nodes m 1 of
       None \<Rightarrow> Inr (zeroHashes keccak (MemProofLeafCount - 1), m)
     | Some (Some n) \<Rightarrow> Inr (n, m)
     | Some None \<Rightarrow>
         bind_res (MerkleizeSubtree keccak m (2 * 1)) (\<lambda>(left, m1).
           bind_res (MerkleizeSubtree keccak m1 (2 * 1 + 1)) (\<lambda>(right, m2).
             let r = HashPair keccak left right in Inr (r, m2\<lparr>nodes := (nodes m2)(1 := Some (Some r))\<rparr>))))"
proof -
  have l: "Len64 1 = 1" "(MemProofLeafCount < 1) = False" "(PageKeySize < 1) = False" "((1::nat) = 0) = False"
    by (simp_all add: Len64.simps)
  show ?thesis unfolding MerkleRoot_def
    by (subst MerkleizeSubtree.simps) (simp only: l Let_def if_False)
qed

lemma MerkleRoot_caches:
  assumes "nodes m 1 \<noteq> None" and "MerkleRoot keccak m = Inr (h, m1)"
  shows "nodes m1 1 = Some (Some h)"
  using assms unfolding MerkleRoot_unfold
  by (auto simp: res_simps Let_def split: option.splits)

lemma MerkleRoot_cached: "nodes m 1 = Some (Some h) \<Longrightarrow> MerkleRoot keccak m = Inr (h, m)"
  unfolding MerkleRoot_unfold by simp

lemma mem_Deserialize_back:
  assumes "mem_wf m"
  shows "\<exists>m'. mem_Deserialize NewMemory (mem_Serialize m @ rest) = Inr (m', rest) \<and>
    tree_ok keccak m' \<and> page_view m' = page_view m \<and> mem_byte m' = mem_byte m"
proof -
  note ix = page_indexes_facts [OF assms]
  from deserialize_pages_spec [OF ix(5) tree_ok_NewMemory] obtain m' where
    m': "deserialize_pages (length (page_indexes m)) NewMemory
           (concat (map (serialize_page m) (page_indexes m)) @ rest) = Inr (m', rest)"
      "tree_ok keccak m'" "page_view m' = page_view m"
    unfolding page_view_merge [OF assms] by blast
  have n: "unat (of_nat (PageCount m) :: Word) = length (page_indexes m)"
    using ix(3,4) by (simp add: unat_of_nat)
  have "read_word (put_u64 (of_nat (PageCount m)) @ tail) = Inr (of_nat (PageCount m), tail)" for tail
    by (simp add: read_word_def read_full_def)
  then have "mem_Deserialize NewMemory (mem_Serialize m @ rest) = Inr (m', rest)"
    using m'(1) n by (simp add: mem_Deserialize_def mem_Serialize_def)
  then show ?thesis using m'(2,3) page_view_eq_byte by blast
qed

section \<open>Properties\<close>

text \<open>\<open>Serialize\<close> and \<open>Deserialize\<close> are inverse.  Loading the serialized form of a well-formed memory
  into a new memory succeeds, consumes exactly that form, and gives a memory with the same pages and
  bytes whose Merkle caches are coherent.\<close>
theorem mem_Deserialize_Serialize:
  assumes "mem_wf m"
  shows "\<exists>m'. mem_Deserialize NewMemory (mem_Serialize m @ rest) = Inr (m', rest) \<and>
    tree_ok keccak m' \<and> page_view m' = page_view m \<and> mem_byte m' = mem_byte m"
  by (rule mem_Deserialize_back [OF assms])

theorem mem_Deserialize_Serialize_witness:
  "\<exists>m m'. SetWord NewMemory 0x40 5 = Inr m \<and> mem_Deserialize NewMemory (mem_Serialize m @ [1]) = Inr (m', [1]) \<and>
    tree_ok (take 32) m' \<and> page_view m' = page_view m \<and> mem_byte m' = mem_byte m"
proof -
  have "aligned 0x40" by (simp add: aligned_def)
  then obtain m where m: "SetWord NewMemory 0x40 5 = Inr m" "mem_wf m"
    using SetWord_total [OF mem_wf_NewMemory] by blast
  show ?thesis using mem_Deserialize_Serialize [OF m(2)] m(1) by blast
qed

text \<open>a copy is faithful and independent in its caches.  \<open>Copy\<close> of a well-formed memory holds the
  same pages with the same bytes, and its Merkle root is the root of those bytes, even if the
  original's caches were stale.\<close>
theorem Copy_faithful:
  assumes "mem_wf m"
  shows "page_view (Copy m) = page_view m \<and>
    (\<exists>m'. MerkleRoot keccak (Copy m) = Inr (subtree keccak (mem_byte m) 59 0, m'))"
proof -
  from copy_pages_spec [OF page_indexes_facts(5) [OF assms] tree_ok_NewMemory, of keccak]
  have c: "tree_ok keccak (Copy m)" "page_view (Copy m) = page_view m"
    unfolding Copy_def page_view_merge [OF assms] by blast+
  show ?thesis using MerkleRoot_spec [OF c(1)] c(2) page_view_eq_byte [OF c(2)] by auto
qed

theorem Copy_faithful_witness:
  "page_view (Copy NewMemory) = page_view NewMemory \<and>
    (\<exists>m'. MerkleRoot (take 32) (Copy NewMemory) = Inr (subtree (take 32) (mem_byte NewMemory) 59 0, m'))"
  by (rule Copy_faithful [OF mem_wf_NewMemory])

text \<open>C38: \<open>SetMemoryRange\<close> does not invalidate the cached root when it overwrites a page that exists.  Once the root
  \<open>h\<close> has been computed, loading bytes \<open>bs\<close>, delivered in one chunk that lies within a single page already in the
  page table, changes the bytes of the memory, and \<open>MerkleRoot\<close> still returns the old root \<open>h\<close>: in this case the
  function clears the page's own cache and does not call \<open>merkleIndex.Invalidate\<close>, unlike \<open>SetWord\<close>.  (A missing
  page is allocated with \<open>AllocPage\<close>, which does clear the path to the root; the property does not cover it.)\<close>

theorem SetMemoryRange_stale_root:
  assumes "tree_ok keccak m" and "pageTable m (drop_bit PageAddrSize addr) = Some r"
    and "unat addr mod 4096 + length bs \<le> 4096" and "MerkleRoot keccak m = Inr (h, m1)"
  shows "\<exists>m2. SetMemoryRange m1 addr [Bytes bs] = Inr (None, m2) \<and>
    (\<forall>j < length bs. mem_byte m2 (unat addr + j) = bs ! j) \<and> MerkleRoot keccak m2 = Inr (h, m2)"
proof -
  let ?k = "drop_bit PageAddrSize addr"
  have m1: "mem_wf m1" "pageTable m1 = pageTable m"
    using MerkleRoot_spec [OF assms(1)] assms(4) tree_okD(1) by (auto simp: cache_step_def)
  have "unat ?k div 2 ^ 52 = 0" using page_index_less [of addr] by (simp only: div_less)
  then have "under 0 0 ?k" by (simp only: under_def diff_zero)
  have node: "node_ok keccak m 0 0" by (rule tree_okD(3) [OF assms(1)]) simp_all
  have "nodes m (2 ^ 0 + 0) \<noteq> None"
  proof
    assume "nodes m (2 ^ 0 + 0) = None"
    then have "\<forall>k. under 0 0 k \<longrightarrow> pageTable m k = None" using node by (simp only: node_ok_def option.case)
    then show False using assms(2) \<open>under 0 0 ?k\<close> by simp
  qed
  then have "nodes m 1 \<noteq> None" by simp
  then have c: "nodes m1 1 = Some (Some h)" by (rule MerkleRoot_caches [OF _ assms(4)])
  have pt: "pageTable m1 ?k = Some r" using assms(2) m1(2) by (simp only:)
  from SetMemoryRange_one_page [OF m1(1) pt assms(3)] obtain m2 where
    m2: "SetMemoryRange m1 addr [Bytes bs] = Inr (None, m2)" "nodes m2 = nodes m1" "pageTable m2 = pageTable m1"
      "pageObjs m2 = (pageObjs m1)(r := InvalidateFull (pageObjs m1 r)
           \<lparr>Data := write_data (unat addr mod 4096) bs (Data (pageObjs m1 r))\<rparr>)" by blast
  have "mem_byte m2 (unat addr + j) = bs ! j" if "j < length bs" for j
  proof -
    have "pageTable m2 ?k = Some r" using pt m2(3) by (simp only:)
    from mem_byte_in_page [OF this, of j] show ?thesis
      using that assms(3) by (simp add: m2(4) write_data_def)
  qed
  moreover have "MerkleRoot keccak m2 = Inr (h, m2)" by (rule MerkleRoot_cached) (simp only: m2(2) c)
  ultimately show ?thesis using m2(1) by blast
qed

theorem SetMemoryRange_stale_root_witness:
  "\<exists>m h m1 m2. SetWord NewMemory 0 1 = Inr m \<and> MerkleRoot (take 32) m = Inr (h, m1) \<and>
    SetMemoryRange m1 0 [Bytes [9, 9]] = Inr (None, m2) \<and>
    (\<forall>j < length [9, 9 :: byte]. mem_byte m2 (unat (0 :: Word) + j) = [9, 9] ! j) \<and>
    MerkleRoot (take 32) m2 = Inr (h, m2)"
proof -
  have al: "aligned 0" by (simp add: aligned_def)
  have none: "pageTable NewMemory (drop_bit PageAddrSize 0) = None" by (simp add: NewMemory_def)
  from SetWord_fresh [OF mem_wf_NewMemory al none, of 1] obtain m where
    m: "SetWord NewMemory 0 1 = Inr m" "pageTable m = (pageTable NewMemory)(drop_bit PageAddrSize 0 \<mapsto> nextPage NewMemory)"
    by blast
  have t: "tree_ok (take 32) m" by (rule tree_ok_SetWord [OF tree_ok_NewMemory al m(1)])
  obtain h m1 where h: "MerkleRoot (take 32) m = Inr (h, m1)" using MerkleRoot_spec [OF t] by blast
  have "pageTable m (drop_bit PageAddrSize 0) = Some (nextPage NewMemory)" using m(2) by simp
  from SetMemoryRange_stale_root [OF t this _ h, of "[9, 9]"] show ?thesis using m(1) h by auto
qed

end
