(* ===== verification/Instructions.thy ===== *)
theory Instructions
  imports Arch
begin

unbundle bit_operations_syntax

text \<open>
  \<open>cannon/mipsevm/exec/mips_instructions.go\<close>: the pure part, from a decoded instruction and its
  operands to a result word (\<open>ExecuteMipsInstruction\<close>), with sign extension and sub-word selection.
  \<open>insn\<close>, \<open>opcode\<close> and \<open>fun\<close> are Go's \<open>uint32\<close>; a shift by the width or more gives 0 in Go and in
  \<^const>\<open>push_bit\<close>/\<^const>\<open>drop_bit\<close> alike; \<open>int32(w)\<close> is the low half of the word, which
  \<open>Word(...)\<close> sign-extends back (\<^const>\<open>scast\<close>), \<open>uint32(w)\<close> zero-extends (\<^const>\<open>ucast\<close>).
\<close>

type_synonym u32 = "32 word"

definition U32Mask :: Word where [simp]: "U32Mask = 0xFFFFFFFF"

definition OpLoadLinked :: u32 where [simp]: "OpLoadLinked = 0x30"
definition OpStoreConditional :: u32 where [simp]: "OpStoreConditional = 0x38"
definition OpLoadLinked64 :: u32 where [simp]: "OpLoadLinked64 = 0x34"
definition OpStoreConditional64 :: u32 where [simp]: "OpStoreConditional64 = 0x3c"
definition OpLoadDoubleLeft :: u32 where [simp]: "OpLoadDoubleLeft = 0x1A"
definition OpLoadDoubleRight :: u32 where [simp]: "OpLoadDoubleRight = 0x1B"

section \<open>Sign extension and sub-words\<close>

definition SignExtend :: "Word \<Rightarrow> Word \<Rightarrow> Word" where
  "SignExtend dat idx =
     (let isSigned = (drop_bit (unat (idx - 1)) dat AND 1 \<noteq> 0);
          signed = push_bit (unat idx) (push_bit (unat (of_nat WordSize - idx)) 1 - 1);
          mask = push_bit (unat idx) 1 - 1
      in if isSigned then (dat AND mask) OR signed else dat AND mask)"

definition SignExtendImmediate :: "u32 \<Rightarrow> Word" where
  "SignExtendImmediate insn = SignExtend (ucast (insn AND 0xFFFF)) 16"

definition calculateSubWordMaskAndOffset :: "Word \<Rightarrow> Word \<Rightarrow> Word \<times> Word \<times> Word" where
  "calculateSubWordMaskAndOffset vaddr byteLength =
     (let bitLength = push_bit 3 byteLength;
          dataMask = drop_bit (unat (of_nat WordSize - bitLength)) (NOT 0);
          byteIndexMask = vaddr AND ExtMask AND NOT (byteLength - 1);
          maxByteShift = WordSizeBytes - byteLength;
          byteIndex = vaddr AND byteIndexMask;
          bitOffset = push_bit 3 (maxByteShift - byteIndex)
      in (dataMask, bitOffset, bitLength))"

definition SelectSubWord :: "Word \<Rightarrow> Word \<Rightarrow> Word \<Rightarrow> bool \<Rightarrow> Word" where
  "SelectSubWord vaddr memWord byteLength signExtend =
     (let (dataMask, bitOffset, bitLength) = calculateSubWordMaskAndOffset vaddr byteLength;
          retVal = drop_bit (unat bitOffset) memWord AND dataMask
      in if signExtend then SignExtend retVal bitLength else retVal)"

definition UpdateSubWord :: "Word \<Rightarrow> Word \<Rightarrow> Word \<Rightarrow> Word \<Rightarrow> Word" where
  "UpdateSubWord vaddr memWord byteLength value =
     (let (dataMask, bitOffset, _) = calculateSubWordMaskAndOffset vaddr byteLength;
          subWordValue = dataMask AND value;
          memUpdateMask = push_bit (unat bitOffset) dataMask
      in push_bit (unat bitOffset) subWordValue OR (NOT memUpdateMask AND memWord))"

section \<open>ExecuteMipsInstruction\<close>

definition assertMips64 :: "u32 \<Rightarrow> unit res" where
  "assertMips64 insn = (if IsMips32 then Inl InvalidInstruction else Inr ())"

definition assertMips64Fun :: "u32 \<Rightarrow> unit res" where
  "assertMips64Fun fn = (if IsMips32 then Inl InvalidInstructionFunc else Inr ())"

text \<open>
  The loop of \<open>clz\<close>/\<open>clo\<close>: \<open>for ; rs&0x80000000 != 0; i++ { rs <<= 1 }\<close>.  Each round shifts one of
  the set bits among the low 32 out of that range, so their number decreases.
\<close>

lemma bit_shl1: "bit (push_bit 1 (rs :: Word)) k \<longleftrightarrow> 1 \<le> k \<and> k < 64 \<and> bit rs (k - 1)"
  using bit_shl [of 1 rs k] by simp

lemma low_bits_shift:
  "{k. k < 32 \<and> bit (push_bit 1 rs) k} = Suc ` {k. k < 31 \<and> bit (rs :: Word) k}"
proof (rule set_eqI)
  fix k
  have "k < 32 \<and> 1 \<le> k \<and> k < 64 \<and> bit rs (k - 1) \<longleftrightarrow> k \<in> Suc ` {k. k < 31 \<and> bit rs k}"
    by (cases k) (auto simp: image_iff)
  then show "k \<in> {k. k < 32 \<and> bit (push_bit 1 rs) k} \<longleftrightarrow> k \<in> Suc ` {k. k < 31 \<and> bit rs k}"
    by (simp only: mem_Collect_eq bit_shl1)
qed

lemma count_bits_shift:
  assumes "bit (rs :: Word) 31"
  shows "card {k. k < 32 \<and> bit (push_bit 1 rs) k} < card {k. k < 32 \<and> bit rs k}"
proof -
  have "card {k. k < 32 \<and> bit (push_bit 1 rs) k} = card {k. k < 31 \<and> bit rs k}"
    by (subst low_bits_shift) (rule card_image, simp)
  also have "\<dots> < card {k. k < 32 \<and> bit rs k}"
  proof (rule psubset_card_mono)
    show "finite {k. k < 32 \<and> bit rs k}" by simp
    have "31 \<in> {k. k < 32 \<and> bit rs k}" using assms by simp
    moreover have "31 \<notin> {k. k < 31 \<and> bit rs k}" by simp
    moreover have "{k. k < 31 \<and> bit rs k} \<subseteq> {k. k < 32 \<and> bit rs k}"
      by (rule Collect_mono) simp
    ultimately show "{k. k < 31 \<and> bit rs k} \<subset> {k. k < 32 \<and> bit rs k}" by blast
  qed
  finally show ?thesis .
qed

lemma and_bit31: "(rs :: Word) AND 0x80000000 \<noteq> 0 \<longleftrightarrow> bit rs 31"
proof -
  have "(0x80000000 :: Word) = push_bit 31 1" by simp
  then have "rs AND 0x80000000 = rs AND push_bit 31 1" by (simp only:)
  also have "\<dots> = (if bit rs 31 then push_bit 31 1 else 0)"
    by (rule bit_word_eqI) (simp only: bit_and_iff bit_shl bit_1_iff split: if_split, auto)
  finally show ?thesis by simp
qed

function clz_loop :: "Word \<Rightarrow> u32 \<Rightarrow> u32" where
  "clz_loop rs i = (if rs AND 0x80000000 \<noteq> 0 then clz_loop (push_bit 1 rs) (i + 1) else i)"
  by pat_completeness auto
termination
proof (relation "measure (\<lambda>(rs, i). card {k. k < 32 \<and> bit rs k})")
  fix rs :: Word and i :: u32
  assume "rs AND 0x80000000 \<noteq> 0"
  then have "bit rs 31" by (simp only: and_bit31)
  then show "((push_bit 1 rs, i + 1), rs, i) \<in> measure (\<lambda>(rs, i). card {k. k < 32 \<and> bit rs k})"
    using count_bits_shift by simp
qed simp

declare clz_loop.simps [simp del]

text \<open>Transform ArithLogI to SPECIAL (the first \<open>switch opcode\<close>).\<close>

definition arith_fun :: "u32 \<Rightarrow> u32 \<Rightarrow> u32" where
  "arith_fun opcode fn =
     (if opcode = 8 then 0x20
      else if opcode = 9 then 0x21
      else if opcode = 0xA then 0x2A
      else if opcode = 0xB then 0x2B
      else if opcode = 0xC then 0x24
      else if opcode = 0xD then 0x25
      else if opcode = 0xE then 0x26
      else if opcode = 0x18 then 0x2c
      else if opcode = 0x19 then 0x2d
      else fn)"

definition shamt_of :: "u32 \<Rightarrow> nat" where
  "shamt_of insn = unat (drop_bit 6 insn AND 0x1F)"

text \<open>The \<open>switch fun\<close> of the SPECIAL group.\<close>

definition exec_special :: "u32 \<Rightarrow> u32 \<Rightarrow> Word \<Rightarrow> Word \<Rightarrow> Word res" where
  "exec_special insn fn rs rt =
     (if fn = 0x00 then Inr (SignExtend (push_bit (shamt_of insn) rt AND U32Mask) 32)
      else if fn = 0x02 then Inr (SignExtend (drop_bit (shamt_of insn) (rt AND U32Mask)) 32)
      else if fn = 0x03 then
        Inr (SignExtend (drop_bit (shamt_of insn) (rt AND U32Mask)) (32 - of_nat (shamt_of insn)))
      else if fn = 0x04 then Inr (SignExtend (push_bit (unat (rs AND 0x1F)) rt AND U32Mask) 32)
      else if fn = 0x06 then Inr (SignExtend (drop_bit (unat (rs AND 0x1F)) (rt AND U32Mask)) 32)
      else if fn = 0x07 then
        Inr (SignExtend (drop_bit (unat (rs AND 0x1F)) (rt AND U32Mask)) (32 - (rs AND 0x1F)))
      else if fn \<in> {0x08, 0x09, 0x0a, 0x0b, 0x0c, 0x0f, 0x10, 0x11, 0x12, 0x13} then Inr rs
      else if fn \<in> {0x14, 0x16, 0x17} then bind_res (assertMips64 insn) (\<lambda>_. Inr rt)
      else if fn \<in> {0x18, 0x19, 0x1a, 0x1b} then Inr rs
      else if fn \<in> {0x1C, 0x1D, 0x1E, 0x1F} then bind_res (assertMips64 insn) (\<lambda>_. Inr rs)
      else if fn = 0x20 then Inr (SignExtend (scast ((ucast rs :: u32) + ucast rt)) 32)
      else if fn = 0x21 then Inr (SignExtend (ucast ((ucast rs :: u32) + ucast rt)) 32)
      else if fn = 0x22 then Inr (SignExtend (scast ((ucast rs :: u32) - ucast rt)) 32)
      else if fn = 0x23 then Inr (SignExtend (ucast ((ucast rs :: u32) - ucast rt)) 32)
      else if fn = 0x24 then Inr (rs AND rt)
      else if fn = 0x25 then Inr (rs OR rt)
      else if fn = 0x26 then Inr (rs XOR rt)
      else if fn = 0x27 then Inr (NOT (rs OR rt))
      else if fn = 0x2a then Inr (if SignedInteger rs < SignedInteger rt then 1 else 0)
      else if fn = 0x2b then Inr (if rs < rt then 1 else 0)
      else if fn \<in> {0x2c, 0x2d} then bind_res (assertMips64 insn) (\<lambda>_. Inr (rs + rt))
      else if fn \<in> {0x2e, 0x2f} then bind_res (assertMips64 insn) (\<lambda>_. Inr (rs - rt))
      else if fn = 0x38 then bind_res (assertMips64 insn) (\<lambda>_. Inr (push_bit (shamt_of insn) rt))
      else if fn = 0x3A then bind_res (assertMips64 insn) (\<lambda>_. Inr (drop_bit (shamt_of insn) rt))
      else if fn = 0x3B then
        bind_res (assertMips64 insn) (\<lambda>_. Inr (signed_drop_bit (shamt_of insn) rt))
      else if fn = 0x3C then
        bind_res (assertMips64 insn) (\<lambda>_. Inr (push_bit (shamt_of insn + 32) rt))
      else if fn = 0x3E then
        bind_res (assertMips64 insn) (\<lambda>_. Inr (drop_bit (shamt_of insn + 32) rt))
      else if fn = 0x3F then
        bind_res (assertMips64 insn) (\<lambda>_. Inr (signed_drop_bit (shamt_of insn + 32) rt))
      else Inl InvalidInstruction)"

text \<open>The outer \<open>switch opcode\<close>: SPECIAL2, loads, stores and the MIPS64 double-word accesses.\<close>

definition exec_lwl :: "Word \<Rightarrow> Word \<Rightarrow> Word \<Rightarrow> Word" where
  "exec_lwl rs rt mem =
     (if IsMips32 then
        let val = push_bit (unat ((rs AND 3) * 8)) mem;
            mask = ucast (push_bit (unat ((rs AND 3) * 8)) (0xFFFFFFFF :: u32))
        in SignExtend (((rt AND NOT mask) OR val) AND U32Mask) 32
      else
        let w = (ucast (SelectSubWord rs mem 4 False) :: u32);
            val = push_bit (unat ((rs AND 3) * 8)) w;
            mask = ucast (push_bit (unat ((rs AND 3) * 8)) (0xFFFFFFFF :: u32))
        in SignExtend (((rt AND NOT mask) OR ucast val) AND U32Mask) 32)"

definition exec_lwr :: "Word \<Rightarrow> Word \<Rightarrow> Word \<Rightarrow> Word" where
  "exec_lwr rs rt mem =
     (if IsMips32 then
        let val = drop_bit (unat (24 - (rs AND 3) * 8)) mem;
            mask = ucast (drop_bit (unat (24 - (rs AND 3) * 8)) (0xFFFFFFFF :: u32))
        in SignExtend (((rt AND NOT mask) OR val) AND U32Mask) 32
      else
        let w = (ucast (SelectSubWord rs mem 4 False) :: u32);
            val = drop_bit (unat (24 - (rs AND 3) * 8)) w;
            mask = drop_bit (unat (24 - (rs AND 3) * 8)) (0xFFFFFFFF :: u32);
            lwrResult = ((ucast rt :: u32) AND NOT mask) OR val
        in if rs AND 3 = 3 then SignExtend (ucast lwrResult) 32
           else (rt AND 0xFFFFFFFF00000000) OR ucast lwrResult)"

definition exec_swl :: "Word \<Rightarrow> Word \<Rightarrow> Word \<Rightarrow> Word" where
  "exec_swl rs rt mem =
     (if IsMips32 then
        let val = drop_bit (unat ((rs AND 3) * 8)) rt;
            mask = drop_bit (unat ((rs AND 3) * 8)) (0xFFFFFFFF :: u32)
        in (mem AND ucast (NOT mask)) OR val
      else
        let sr = unat (push_bit 3 (rs AND 3));
            sl = unat (32 - push_bit 3 (rs AND 4));
            val = push_bit sl (drop_bit sr (rt AND U32Mask));
            mask = push_bit sl (drop_bit sr U32Mask)
        in (mem AND NOT mask) OR val)"

definition exec_swr :: "Word \<Rightarrow> Word \<Rightarrow> Word \<Rightarrow> Word" where
  "exec_swr rs rt mem =
     (if IsMips32 then
        let val = push_bit (unat (24 - (rs AND 3) * 8)) rt;
            mask = push_bit (unat (24 - (rs AND 3) * 8)) (0xFFFFFFFF :: u32)
        in (mem AND ucast (NOT mask)) OR val
      else
        let w = (ucast (SelectSubWord rs mem 4 False) :: u32);
            val = push_bit (unat (24 - (rs AND 3) * 8)) rt;
            mask = push_bit (unat (24 - (rs AND 3) * 8)) (0xFFFFFFFF :: u32);
            swrResult = (w AND NOT mask) OR ucast val
        in UpdateSubWord rs mem 4 (ucast swrResult))"

definition exec_ldl :: "Word \<Rightarrow> Word \<Rightarrow> Word \<Rightarrow> Word" where
  "exec_ldl rs rt mem =
     (let sl = unat (push_bit 3 (rs AND 7)); val = push_bit sl mem; mask = push_bit sl (NOT 0)
      in val OR (rt AND NOT mask))"

definition exec_ldr :: "Word \<Rightarrow> Word \<Rightarrow> Word \<Rightarrow> Word" where
  "exec_ldr rs rt mem =
     (let sr = 56 - push_bit 3 (rs AND 7); val = drop_bit (unat sr) mem;
          mask = push_bit (unat (64 - sr)) (NOT 0)
      in val OR (rt AND mask))"

definition exec_sdl :: "Word \<Rightarrow> Word \<Rightarrow> Word \<Rightarrow> Word" where
  "exec_sdl rs rt mem =
     (let sr = unat (push_bit 3 (rs AND 7)); val = drop_bit sr rt; mask = drop_bit sr (NOT 0)
      in val OR (mem AND NOT mask))"

definition exec_sdr :: "Word \<Rightarrow> Word \<Rightarrow> Word \<Rightarrow> Word" where
  "exec_sdr rs rt mem =
     (let sl = unat (56 - push_bit 3 (rs AND 7)); val = push_bit sl rt; mask = push_bit sl (NOT 0)
      in val OR (mem AND NOT mask))"

definition exec_special2 :: "u32 \<Rightarrow> Word \<Rightarrow> Word \<Rightarrow> Word res" where
  "exec_special2 fn rs rt =
     (if fn = 0x2 then Inr (SignExtend (scast ((ucast rs :: u32) * ucast rt)) 32)
      else if fn = 0x20 \<or> fn = 0x21 then
        Inr (ucast (clz_loop (if fn = 0x20 then NOT rs else rs) 0))
      else Inl InvalidInstruction)"

definition exec_opcode :: "u32 \<Rightarrow> u32 \<Rightarrow> u32 \<Rightarrow> Word \<Rightarrow> Word \<Rightarrow> Word \<Rightarrow> Word res" where
  "exec_opcode insn opcode fn rs rt mem =
     (if opcode = 0x1C then exec_special2 fn rs rt
      else if opcode = 0x0F then Inr (SignExtend (push_bit 16 rt) 32)
      else if opcode = 0x20 then Inr (SelectSubWord rs mem 1 True)
      else if opcode = 0x21 then Inr (SelectSubWord rs mem 2 True)
      else if opcode = 0x22 then Inr (exec_lwl rs rt mem)
      else if opcode = 0x23 then Inr (SelectSubWord rs mem 4 True)
      else if opcode = 0x24 then Inr (SelectSubWord rs mem 1 False)
      else if opcode = 0x25 then Inr (SelectSubWord rs mem 2 False)
      else if opcode = 0x26 then Inr (exec_lwr rs rt mem)
      else if opcode = 0x28 then Inr (UpdateSubWord rs mem 1 rt)
      else if opcode = 0x29 then Inr (UpdateSubWord rs mem 2 rt)
      else if opcode = 0x2a then Inr (exec_swl rs rt mem)
      else if opcode = 0x2b then Inr (UpdateSubWord rs mem 4 rt)
      else if opcode = 0x2e then Inr (exec_swr rs rt mem)
      else if opcode = 0x1A then bind_res (assertMips64 insn) (\<lambda>_. Inr (exec_ldl rs rt mem))
      else if opcode = 0x1B then bind_res (assertMips64 insn) (\<lambda>_. Inr (exec_ldr rs rt mem))
      else if opcode = 0x27 then
        bind_res (assertMips64 insn)
          (\<lambda>_. Inr (drop_bit (unat (32 - push_bit 3 (rs AND 4))) mem AND U32Mask))
      else if opcode = 0x2C then bind_res (assertMips64 insn) (\<lambda>_. Inr (exec_sdl rs rt mem))
      else if opcode = 0x2D then bind_res (assertMips64 insn) (\<lambda>_. Inr (exec_sdr rs rt mem))
      else if opcode = 0x37 then bind_res (assertMips64 insn) (\<lambda>_. Inr mem)
      else if opcode = 0x3F then bind_res (assertMips64 insn) (\<lambda>_. Inr rt)
      else Inl InvalidInstruction)"

definition ExecuteMipsInstruction ::
    "u32 \<Rightarrow> u32 \<Rightarrow> u32 \<Rightarrow> Word \<Rightarrow> Word \<Rightarrow> Word \<Rightarrow> Word res" where
  "ExecuteMipsInstruction insn opcode fn rs rt mem =
     (if opcode = 0 \<or> (8 \<le> opcode \<and> opcode < 0xF) \<or> (\<not> IsMips32 \<and> (opcode = 0x18 \<or> opcode = 0x19))
      then exec_special insn (arith_fun opcode fn) rs rt
      else exec_opcode insn opcode fn rs rt mem)"

text \<open>\<open>abs64\<close> on \<open>int64\<close>: the most negative value is its own absolute value.\<close>

definition abs64 :: "Word \<Rightarrow> Word" where
  "abs64 x = (if SignedInteger x < 0 then - x else x)"

text \<open>\<open>bits.Mul64\<close> of the standard library: the full 128-bit product as (high, low) halves.\<close>

definition Mul64 :: "Word \<Rightarrow> Word \<Rightarrow> Word \<times> Word" where
  "Mul64 x y = (of_nat (unat x * unat y div 2 ^ 64), of_nat (unat x * unat y))"

end
