(* ===== verification/CoreStep.thy ===== *)
theory CoreStep
  imports Memory_IO Instructions
begin

unbundle bit_operations_syntax

text \<open>
  The stateful part of \<open>cannon/mipsevm/exec\<close>: instruction fetch, branches, jumps, HI/LO, register
  write-back and \<open>ExecMipsCoreStepLogic\<close> (\<open>mips_instructions.go\<close>), the memory-access tracker
  (\<open>memory.go\<close>) and sub-word loads and stores.  The calls to the stack tracker are recorded as events,
  in order; \<open>PopStack\<close> carries the PC the tracker reads at that moment.
\<close>

section \<open>The memory tracker\<close>

record MemTracker =
  lastMemAccess :: Word
  memProofEnabled :: bool
  memProof :: "byte list"
  memProof2 :: "byte list"

definition MemProofSize :: nat where [simp]: "MemProofSize = MemProofLeafCount * 32"

definition NewMemoryTracker :: MemTracker where
  "NewMemoryTracker =
     \<lparr>lastMemAccess = 0, memProofEnabled = False, memProof = replicate MemProofSize 0,
      memProof2 = replicate MemProofSize 0\<rparr>"

definition TrackMemAccess :: "keccak_fn \<Rightarrow> MemTracker \<Rightarrow> Memory \<Rightarrow> Word \<Rightarrow> (MemTracker \<times> Memory) res" where
  "TrackMemAccess keccak t m effAddr =
     (if memProofEnabled t \<and> lastMemAccess t \<noteq> effAddr then
        if lastMemAccess t \<noteq> NOT 0 then Inl DifferentMemAccess
        else bind_res (MerkleProof keccak m effAddr) (\<lambda>(p, m1).
          Inr (t\<lparr>lastMemAccess := effAddr, memProof := p\<rparr>, m1))
      else Inr (t, m))"

definition TrackMemAccess2 :: "keccak_fn \<Rightarrow> MemTracker \<Rightarrow> Memory \<Rightarrow> Word \<Rightarrow> (MemTracker \<times> Memory) res" where
  "TrackMemAccess2 keccak t m effAddr =
     (if memProofEnabled t \<and> lastMemAccess t + WordSizeBytes \<noteq> effAddr then Inl DisjointedMemAccess
      else bind_res (MerkleProof keccak m effAddr) (\<lambda>(p, m1).
        Inr (t\<lparr>lastMemAccess := effAddr, memProof2 := p\<rparr>, m1)))"

definition MemTracker_Reset :: "bool \<Rightarrow> MemTracker \<Rightarrow> MemTracker" where
  "MemTracker_Reset enableProof t = t\<lparr>memProofEnabled := enableProof, lastMemAccess := NOT 0\<rparr>"

section \<open>Instruction fetch\<close>

definition GetInstructionDetails :: "Word \<Rightarrow> Memory \<Rightarrow> ((u32 \<times> u32 \<times> u32) \<times> Memory) res" where
  "GetInstructionDetails pc m =
     (if pc AND 0x3 \<noteq> 0 then Inl InvalidPC
      else bind_res (GetWord m (pc AND AddressMask)) (\<lambda>(w, m1).
        let insn = ucast (SelectSubWord pc w 4 False) :: u32;
            opcode = drop_bit 26 insn;
            fn = insn AND 0x3f
        in Inr ((insn, opcode, fn), m1)))"

section \<open>Branches, jumps and HI/LO\<close>

datatype stack_event = PushStack Word Word | PopStack Word

definition HandleBranch ::
    "CpuScalars \<Rightarrow> regfile \<Rightarrow> u32 \<Rightarrow> u32 \<Rightarrow> Word \<Rightarrow> Word \<Rightarrow> (CpuScalars \<times> regfile \<times> stack_event list) res" where
  "HandleBranch cpu registers opcode insn rtReg rs =
     (if NextPC cpu \<noteq> PC cpu + 4 then Inl BranchInDelaySlot
      else
        let rtv = drop_bit 16 insn AND 0x1F in
        bind_res
          (if opcode = 4 \<or> opcode = 5 then
             bind_res (reg_get registers rtReg) (\<lambda>rt.
               Inr ((rs = rt \<and> opcode = 4) \<or> (rs \<noteq> rt \<and> opcode = 5), False))
           else if opcode = 6 then Inr (SignedInteger rs \<le> 0, False)
           else if opcode = 7 then Inr (SignedInteger rs > 0, False)
           else if opcode = 1 then
             Inr (if rtv = 0 \<or> rtv = 0x10 then (SignedInteger rs < 0, rtv = 0x10)
                  else if rtv = 1 \<or> rtv = 0x11 then (SignedInteger rs \<ge> 0, rtv = 0x11)
                  else (False, False))
           else Inr (False, False))
          (\<lambda>(shouldBranch, linked).
             let registers' = (if linked then registers[RegRA := PC cpu + 8] else registers);
                 prevPC = PC cpu;
                 target = prevPC + 4 + push_bit 2 (SignExtend (ucast (insn AND 0xFFFF)) 16)
             in Inr (if shouldBranch
                     then (cpu\<lparr>PC := NextPC cpu, NextPC := target\<rparr>, registers',
                           if linked then [PushStack prevPC target] else [])
                     else (cpu\<lparr>PC := NextPC cpu, NextPC := NextPC cpu + 4\<rparr>, registers', []))))"

definition HandleJump :: "CpuScalars \<Rightarrow> regfile \<Rightarrow> Word \<Rightarrow> Word \<Rightarrow> (CpuScalars \<times> regfile) res" where
  "HandleJump cpu registers linkReg dest =
     (if NextPC cpu \<noteq> PC cpu + 4 then Inl JumpInDelaySlot
      else
        let prevPC = PC cpu; cpu' = cpu\<lparr>PC := NextPC cpu, NextPC := dest\<rparr>
        in if linkReg \<noteq> 0 then bind_res (reg_set registers linkReg (prevPC + 8)) (\<lambda>r. Inr (cpu', r))
           else Inr (cpu', registers))"

definition HandleRd :: "CpuScalars \<Rightarrow> regfile \<Rightarrow> Word \<Rightarrow> Word \<Rightarrow> bool \<Rightarrow> (CpuScalars \<times> regfile) res" where
  "HandleRd cpu registers storeReg val conditional =
     (if storeReg \<ge> 32 then Inl InvalidRegister
      else bind_res (if storeReg \<noteq> 0 \<and> conditional then reg_set registers storeReg val else Inr registers)
        (\<lambda>r. Inr (cpu\<lparr>PC := NextPC cpu, NextPC := NextPC cpu + 4\<rparr>, r)))"

text \<open>Go's integer division truncates towards zero; the quotient of the most negative value by -1
  wraps to itself, as conversion back to the word does.\<close>

definition div_s :: "'a::len word \<Rightarrow> 'a word \<Rightarrow> 'a word" where
  "div_s a b = word_of_int (sint a sdiv sint b)"

definition mod_s :: "'a::len word \<Rightarrow> 'a word \<Rightarrow> 'a word" where
  "mod_s a b = word_of_int (sint a smod sint b)"

text \<open>The \<open>dmult\<close> case: the product of absolute values, negated across two words.\<close>

definition dmult :: "Word \<Rightarrow> Word \<Rightarrow> Word \<times> Word" where
  "dmult rs rt =
     (let negative = ((SignedInteger rs < 0) \<noteq> (SignedInteger rt < 0));
          (hi, lo) = Mul64 (abs64 rs) (abs64 rt)
      in if negative then
           let hi1 = NOT hi; lo1 = NOT lo;
               hi2 = (if lo1 = 0xFFFFFFFFFFFFFFFF then hi1 + 1 else hi1)
           in (hi2, lo1 + 1)
         else (hi, lo))"

text \<open>The \<open>switch fun\<close>: the value for \<open>storeReg\<close> and the new HI and LO.\<close>

definition hilo_op :: "CpuScalars \<Rightarrow> u32 \<Rightarrow> Word \<Rightarrow> Word \<Rightarrow> (Word \<times> Word \<times> Word) res" where
  "hilo_op cpu fn rs rt =
     (let rs32 = (ucast rs :: u32); rt32 = (ucast rt :: u32);
          keep = (\<lambda>val. Inr (val, HI cpu, LO cpu));
          put = (\<lambda>hi lo. Inr (0, hi, lo))
      in if fn = 0x10 then keep (HI cpu)
         else if fn = 0x11 then put rs (LO cpu)
         else if fn = 0x12 then keep (LO cpu)
         else if fn = 0x13 then put (HI cpu) rs
         else if fn = 0x18 then
           let acc = (scast rs32 * scast rt32 :: Word)
           in put (SignExtend (drop_bit 32 acc) 32) (SignExtend (ucast (ucast acc :: u32)) 32)
         else if fn = 0x19 then
           let acc = (ucast rs32 * ucast rt32 :: Word)
           in put (SignExtend (drop_bit 32 acc) 32) (SignExtend (ucast (ucast acc :: u32)) 32)
         else if fn = 0x1a then
           if rt32 = 0 then Inl InstructionDivideByZero
           else put (SignExtend (scast (mod_s rs32 rt32)) 32) (SignExtend (scast (div_s rs32 rt32)) 32)
         else if fn = 0x1b then
           if rt32 = 0 then Inl InstructionDivideByZero
           else put (SignExtend (ucast (rs32 mod rt32)) 32) (SignExtend (ucast (rs32 div rt32)) 32)
         else if fn = 0x14 then bind_res (assertMips64Fun fn) (\<lambda>_. keep (push_bit (unat (rs AND 0x3F)) rt))
         else if fn = 0x16 then bind_res (assertMips64Fun fn) (\<lambda>_. keep (drop_bit (unat (rs AND 0x3F)) rt))
         else if fn = 0x17 then
           bind_res (assertMips64Fun fn) (\<lambda>_. keep (signed_drop_bit (unat (rs AND 0x3F)) rt))
         else if fn = 0x1c then
           bind_res (assertMips64Fun fn) (\<lambda>_. let (hi, lo) = dmult rs rt in put hi lo)
         else if fn = 0x1d then
           bind_res (assertMips64Fun fn) (\<lambda>_. let (hi, lo) = Mul64 rs rt in put hi lo)
         else if fn = 0x1e then
           bind_res (assertMips64Fun fn) (\<lambda>_.
             if rt = 0 then Inl InstructionDivideByZero else put (mod_s rs rt) (div_s rs rt))
         else if fn = 0x1f then
           bind_res (assertMips64Fun fn) (\<lambda>_.
             if rt = 0 then Inl InstructionDivideByZero else put (rs mod rt) (rs div rt))
         else keep 0)"

definition HandleHiLo ::
    "CpuScalars \<Rightarrow> regfile \<Rightarrow> u32 \<Rightarrow> Word \<Rightarrow> Word \<Rightarrow> Word \<Rightarrow> (CpuScalars \<times> regfile) res" where
  "HandleHiLo cpu registers fn rs rt storeReg =
     bind_res (hilo_op cpu fn rs rt) (\<lambda>(val, hi, lo).
       bind_res (if storeReg \<noteq> 0 then reg_set registers storeReg val else Inr registers) (\<lambda>r.
         Inr (cpu\<lparr>HI := hi, LO := lo, PC := NextPC cpu, NextPC := NextPC cpu + 4\<rparr>, r)))"

section \<open>The core step\<close>

record Core =
  cpu :: CpuScalars
  regs :: regfile
  mem :: Memory
  tracker :: MemTracker
  stackEvents :: "stack_event list"

text \<open>\<open>TrackMemAccess\<close> followed by \<open>GetWord\<close> of the same address.\<close>

definition tracked_GetWord :: "keccak_fn \<Rightarrow> Word \<Rightarrow> Core \<Rightarrow> (Word \<times> Core) res" where
  "tracked_GetWord keccak addr s =
     bind_res (TrackMemAccess keccak (tracker s) (mem s) addr) (\<lambda>(t, m).
     bind_res (GetWord m addr) (\<lambda>(w, m').
       Inr (w, s\<lparr>tracker := t, mem := m'\<rparr>)))"

text \<open>Register fetch: the operand \<open>rt\<close> and the destination register.\<close>

definition fetch_rt :: "regfile \<Rightarrow> u32 \<Rightarrow> u32 \<Rightarrow> Word \<Rightarrow> (Word \<times> Word) res" where
  "fetch_rt registers insn opcode rtReg =
     (if opcode = 0x27 \<or> opcode = 0x1A \<or> opcode = 0x1B then
        bind_res (assertMips64 insn) (\<lambda>_. bind_res (reg_get registers rtReg) (\<lambda>rt. Inr (rt, rtReg)))
      else if opcode = 0 \<or> opcode = 0x1c then
        bind_res (reg_get registers rtReg) (\<lambda>rt. Inr (rt, ucast (drop_bit 11 insn AND 0x1F)))
      else if opcode < 0x20 then
        if opcode = 0xC \<or> opcode = 0xD \<or> opcode = 0xe then Inr (ucast (insn AND 0xFFFF), rtReg)
        else Inr (SignExtendImmediate insn, rtReg)
      else if opcode \<ge> 0x28 \<or> opcode = 0x22 \<or> opcode = 0x26 then
        bind_res (reg_get registers rtReg) (\<lambda>rt. Inr (rt, rtReg))
      else Inr (0, rtReg))"

text \<open>Memory fetch: \<open>(rs, mem, storeAddr, rdReg)\<close> after the load.\<close>

definition fetch_mem ::
    "keccak_fn \<Rightarrow> u32 \<Rightarrow> u32 \<Rightarrow> Word \<Rightarrow> Word \<Rightarrow> Core \<Rightarrow> ((Word \<times> Word \<times> Word \<times> Word) \<times> Core) res" where
  "fetch_mem keccak insn opcode rs rdReg s =
     (if opcode \<ge> 0x20 \<or> opcode = OpLoadDoubleLeft \<or> opcode = OpLoadDoubleRight then
        let rs' = rs + SignExtendImmediate insn;
            addr = rs' AND AddressMask
        in bind_res (tracked_GetWord keccak addr s) (\<lambda>(w, s1).
             if opcode \<ge> 0x28 \<and> (IsMips32 \<or> opcode \<noteq> 0x37) then Inr ((rs', w, addr, 0), s1)
             else Inr ((rs', w, NOT 0, rdReg), s1))
      else Inr ((rs, 0, NOT 0, rdReg), s))"

definition funSel :: u32 where
  "funSel = (if IsMips32 then 0x1c else 0x20)"

text \<open>What follows the ALU: jumps, conditional moves, HI/LO, or the write to memory and register.\<close>

definition core_finish ::
    "keccak_fn \<Rightarrow> u32 \<Rightarrow> u32 \<Rightarrow> Word \<Rightarrow> Word \<Rightarrow> Word \<Rightarrow> Word \<Rightarrow> Word \<Rightarrow> Core \<Rightarrow> (Word option \<times> Core) res" where
  "core_finish keccak opcode fn rs rt rdReg storeAddr val s =
     (let upd = (\<lambda>(c, r). (None, s\<lparr>cpu := c, regs := r\<rparr>)) in
      if opcode = 0 \<and> fn \<ge> 8 \<and> fn < funSel \<and> (fn = 8 \<or> fn = 9) then
        bind_res (HandleJump (cpu s) (regs s) (if fn = 9 then rdReg else 0) rs) (\<lambda>(c, r).
          Inr (None, s\<lparr>cpu := c, regs := r, stackEvents := stackEvents s @
            [if fn = 9 then PushStack (PC (cpu s)) rs else PopStack (PC (cpu s))]\<rparr>))
      else if opcode = 0 \<and> fn \<ge> 8 \<and> fn < funSel \<and> fn = 0xa then
        bind_res (HandleRd (cpu s) (regs s) rdReg rs (rt = 0)) (\<lambda>x. Inr (upd x))
      else if opcode = 0 \<and> fn \<ge> 8 \<and> fn < funSel \<and> fn = 0xb then
        bind_res (HandleRd (cpu s) (regs s) rdReg rs (rt \<noteq> 0)) (\<lambda>x. Inr (upd x))
      else if opcode = 0 \<and> fn \<ge> 8 \<and> fn < funSel \<and> fn \<ge> 0x10 then
        bind_res (HandleHiLo (cpu s) (regs s) fn rs rt rdReg) (\<lambda>x. Inr (upd x))
      else
        bind_res
          (if storeAddr \<noteq> NOT 0 then
             bind_res (TrackMemAccess keccak (tracker s) (mem s) storeAddr) (\<lambda>(t, m).
             bind_res (SetWord m storeAddr val) (\<lambda>m'.
               Inr (Some storeAddr, s\<lparr>tracker := t, mem := m'\<rparr>)))
           else Inr (None, s))
          (\<lambda>(updated, s1).
             bind_res (HandleRd (cpu s1) (regs s1) rdReg val True) (\<lambda>(c, r).
               Inr (updated, s1\<lparr>cpu := c, regs := r\<rparr>))))"

text \<open>
  \<open>ExecMipsCoreStepLogic\<close>: the result is the effective address when memory was written (the pair
  \<open>memUpdated, effMemAddr\<close> of the code; its error is always nil).
\<close>

definition ExecMipsCoreStepLogic ::
    "keccak_fn \<Rightarrow> u32 \<Rightarrow> u32 \<Rightarrow> u32 \<Rightarrow> Core \<Rightarrow> (Word option \<times> Core) res" where
  "ExecMipsCoreStepLogic keccak insn opcode fn s =
     (if opcode = 2 \<or> opcode = 3 then
        let linkReg = (if opcode = 3 then of_nat RegRA else 0);
            target = (NextPC (cpu s) AND SignExtend 0xF0000000 32) OR ucast (push_bit 2 (insn AND 0x03FFFFFF))
        in bind_res (HandleJump (cpu s) (regs s) linkReg target) (\<lambda>(c, r).
             Inr (None, s\<lparr>cpu := c, regs := r, stackEvents := stackEvents s @ [PushStack (PC (cpu s)) target]\<rparr>))
      else
        let rtReg = ucast (drop_bit 16 insn AND 0x1F) in
        bind_res (reg_get (regs s) (ucast (drop_bit 21 insn AND 0x1F))) (\<lambda>rs.
        bind_res (fetch_rt (regs s) insn opcode rtReg) (\<lambda>(rt, rdReg).
          if (opcode \<ge> 4 \<and> opcode < 8) \<or> opcode = 1 then
            bind_res (HandleBranch (cpu s) (regs s) opcode insn rtReg rs) (\<lambda>(c, r, ev).
              Inr (None, s\<lparr>cpu := c, regs := r, stackEvents := stackEvents s @ ev\<rparr>))
          else
            bind_res (fetch_mem keccak insn opcode rs rdReg s) (\<lambda>((rs', w, storeAddr, rdReg'), s1).
            bind_res (ExecuteMipsInstruction insn opcode fn rs' rt w) (\<lambda>val.
              core_finish keccak opcode fn rs' rt rdReg' storeAddr val s1)))))"

section \<open>Sub-word loads and stores\<close>

definition LoadSubWord ::
    "keccak_fn \<Rightarrow> Word \<Rightarrow> Word \<Rightarrow> bool \<Rightarrow> Core \<Rightarrow> (Word \<times> Core) res" where
  "LoadSubWord keccak vaddr byteLength signExtend s =
     bind_res (tracked_GetWord keccak (vaddr AND AddressMask) s) (\<lambda>(w, s1).
       Inr (SelectSubWord vaddr w byteLength signExtend, s1))"

definition StoreSubWord :: "keccak_fn \<Rightarrow> Word \<Rightarrow> Word \<Rightarrow> Word \<Rightarrow> Core \<Rightarrow> Core res" where
  "StoreSubWord keccak vaddr byteLength value s =
     bind_res (tracked_GetWord keccak (vaddr AND AddressMask) s) (\<lambda>(w, s1).
     bind_res (SetWord (mem s1) (vaddr AND AddressMask) (UpdateSubWord vaddr w byteLength value)) (\<lambda>m.
       Inr (s1\<lparr>mem := m\<rparr>)))"

section \<open>What each operation keeps\<close>

definition reg_inv :: "regfile \<Rightarrow> bool" where
  "reg_inv r \<longleftrightarrow> length r = 32 \<and> r ! 0 = 0"

lemma reg_inv_update: "reg_inv r \<Longrightarrow> i \<noteq> 0 \<Longrightarrow> reg_inv (r[i := v])"
  by (simp add: reg_inv_def)

lemma reg_index_less [simp]: "unat (ucast ((x :: u32) AND 0x1F) :: Word) < 32"
proof -
  have "unat (x AND 0x1F) = unat x mod 32"
    using unat_and_mask [of x 5] by (simp add: mask_eq_exp_minus_1)
  then have "unat (x AND 0x1F) < 32" by simp
  moreover have "unat (ucast (x AND 0x1F) :: Word) = unat (x AND 0x1F)"
    by (simp add: unsigned_ucast_eq take_bit_nat_eq_self_iff) (use calculation in simp)
  ultimately show ?thesis by simp
qed

lemma reg_get_post: "reg_inv r \<Longrightarrow> unat i < 32 \<Longrightarrow> post {} (\<lambda>_. True) (reg_get r i)"
  by (simp add: reg_get_def reg_inv_def)

lemma reg_set_post: "reg_inv r \<Longrightarrow> unat i < 32 \<Longrightarrow> i \<noteq> 0 \<Longrightarrow> post {} reg_inv (reg_set r i v)"
  by (simp add: reg_set_def reg_inv_def unat_eq_zero)

lemma reg_set_if_post:
  "reg_inv r \<Longrightarrow> unat i < 32 \<Longrightarrow> post {} reg_inv (if i \<noteq> 0 \<and> b then reg_set r i v else Inr r)"
  using reg_set_post by simp

lemma HandleRd_post:
  assumes "reg_inv r" and "unat storeReg < 32"
  shows "post {} (\<lambda>(c', r'). reg_inv r' \<and> PC c' = NextPC c \<and> NextPC c' = NextPC c + 4)
    (HandleRd c r storeReg val b)"
proof -
  have lt: "(storeReg \<ge> 32) = False" using assms(2) by (simp add: word_le_nat_alt)
  show ?thesis
    unfolding HandleRd_def lt if_False by (rule post_bind [OF reg_set_if_post [OF assms]]) simp
qed

lemma HandleJump_post:
  assumes "reg_inv r" and "unat linkReg < 32"
  shows "post {JumpInDelaySlot} (\<lambda>(c', r'). reg_inv r' \<and> PC c' = NextPC c \<and> NextPC c' = dest)
    (HandleJump c r linkReg dest)"
proof -
  have set_link: "post {JumpInDelaySlot} (\<lambda>(c', r'). reg_inv r' \<and> PC c' = NextPC c \<and> NextPC c' = dest)
      (bind_res (reg_set r linkReg v) (\<lambda>r. Inr (c\<lparr>PC := NextPC c, NextPC := dest\<rparr>, r)))" if "linkReg \<noteq> 0" for v
    by (rule post_bind [OF post_weaken [OF reg_set_post [OF assms that]]]) simp_all
  show ?thesis
    unfolding HandleJump_def Let_def by (intro post_if set_link) (simp_all add: assms(1))
qed

lemma HandleBranch_post:
  assumes "reg_inv r" and "unat rtReg < 32"
  shows "post {BranchInDelaySlot} (\<lambda>(c', r', ev). reg_inv r' \<and> PC c' = NextPC c)
    (HandleBranch c r opcode insn rtReg rs)"
proof -
  have "post {BranchInDelaySlot} (\<lambda>_. True) (reg_get r rtReg)"
    by (rule post_weaken [OF reg_get_post [OF assms]]) simp_all
  then show ?thesis
    unfolding HandleBranch_def Let_def using assms
    by (auto intro!: post_bind [where R = "\<lambda>_. True"] post_bind [of _ "\<lambda>_. True" "reg_get r rtReg"]
      reg_inv_update)
qed

lemma hilo_op_post: "post {InstructionDivideByZero} (\<lambda>_. True) (hilo_op c fn rs rt)"
  unfolding hilo_op_def Let_def
  by (auto simp: assertMips64Fun_def split: prod.split)

lemma HandleHiLo_post:
  assumes "reg_inv r" and "unat storeReg < 32"
  shows "post {InstructionDivideByZero} (\<lambda>(c', r'). reg_inv r' \<and> PC c' = NextPC c \<and> NextPC c' = NextPC c + 4)
    (HandleHiLo c r fn rs rt storeReg)"
  unfolding HandleHiLo_def
proof (rule post_bind [OF hilo_op_post], rule post_split, rule post_split)
  fix val hilo hi lo
  have "post {InstructionDivideByZero} reg_inv (if storeReg \<noteq> 0 then reg_set r storeReg val else Inr r)"
    by (rule post_weaken [OF reg_set_if_post [OF assms, of True val, unfolded simp_thms]]) simp_all
  then show "post {InstructionDivideByZero} (\<lambda>(c', r'). reg_inv r' \<and> PC c' = NextPC c \<and> NextPC c' = NextPC c + 4)
     (bind_res (if storeReg \<noteq> 0 then reg_set r storeReg val else Inr r)
       (\<lambda>r. Inr (c\<lparr>HI := hi, LO := lo, PC := NextPC c, NextPC := NextPC c + 4\<rparr>, r)))"
    by (rule post_bind) simp
qed

lemma ExecuteMipsInstruction_post:
  "post {InvalidInstruction} (\<lambda>_. True) (ExecuteMipsInstruction insn opcode fn rs rt w)"
  unfolding ExecuteMipsInstruction_def exec_special_def exec_opcode_def exec_special2_def
  by (intro post_both) (simp_all add: assertMips64_def)

section \<open>The core step keeps the machine well-formed\<close>

definition tracker_at :: "Word \<Rightarrow> MemTracker \<Rightarrow> bool" where
  "tracker_at a t \<longleftrightarrow> (memProofEnabled t \<longrightarrow> lastMemAccess t = NOT 0 \<or> lastMemAccess t = a)"

definition tracker_fresh :: "MemTracker \<Rightarrow> bool" where
  "tracker_fresh t \<longleftrightarrow> (memProofEnabled t \<longrightarrow> lastMemAccess t = NOT 0)"

lemma tracker_fresh_at: "tracker_fresh t \<Longrightarrow> tracker_at a t"
  by (simp add: tracker_fresh_def tracker_at_def)

lemma tracker_Reset_fresh [inv_intros]: "tracker_fresh (MemTracker_Reset b t)"
  by (simp add: tracker_fresh_def MemTracker_Reset_def)

definition mem_frame :: "Word option \<Rightarrow> Memory \<Rightarrow> Memory \<Rightarrow> bool" where
  "mem_frame upd m m' \<longleftrightarrow> (\<forall>b. aligned b \<longrightarrow> upd \<noteq> Some b \<longrightarrow> word_at m' b = word_at m b)"

lemma mem_frame_refl [simp]: "mem_frame u m m"
  by (simp add: mem_frame_def)

lemma mem_frame_trans: "mem_frame None m m1 \<Longrightarrow> mem_frame u m1 m2 \<Longrightarrow> mem_frame u m m2"
  by (simp add: mem_frame_def)

lemma mem_frame_same: "word_at m' = word_at m \<Longrightarrow> mem_frame u m m'"
  by (simp add: mem_frame_def)

lemma TrackMemAccess_post:
  assumes "tree_ok keccak m" and "tracker_at a t"
  shows "post {} (\<lambda>(t', m'). tree_ok keccak m' \<and> word_at m' = word_at m \<and> tracker_at a t' \<and>
    (memProofEnabled t' \<longrightarrow> lastMemAccess t' = a)) (TrackMemAccess keccak t m a)"
proof -
  from MerkleProof_spec [OF assms(1)] obtain br m' where
    m': "MerkleProof keccak m a = Inr (br, m')" "tree_ok keccak m'" "cache_step m m'" by blast
  have "word_at m' = word_at m" by (rule word_at_cong [OF cache_step_byte [OF m'(3)]])
  then show ?thesis using assms m' by (auto simp: TrackMemAccess_def tracker_at_def)
qed

lemma GetWord_post:
  assumes "tree_ok keccak m" and "aligned a"
  shows "post {} (\<lambda>(w, m'). w = word_at m a \<and> tree_ok keccak m' \<and> word_at m' = word_at m) (GetWord m a)"
proof -
  from paged.get_ok [OF tree_okD(1) [OF assms(1)] assms(2)] obtain m' where
    "GetWord m a = Inr (word_at m a, m')" "word_at m' = word_at m" by blast
  then show ?thesis using tree_ok_GetWord [OF assms(1)] by simp
qed

lemma SetWord_post:
  assumes "tree_ok keccak m" and "aligned a"
  shows "post {} (\<lambda>m'. tree_ok keccak m' \<and> word_at m' a = v \<and> mem_frame (Some a) m m') (SetWord m a v)"
proof -
  note wf = tree_okD(1) [OF assms(1)]
  from paged.set_ok [OF wf assms(2)] obtain m' where m': "SetWord m a v = Inr m'" by blast
  then show ?thesis
    using tree_ok_SetWord [OF assms m'] paged.set_view [OF wf assms(2) m'] assms(2) by (simp add: mem_frame_def)
qed

definition core_same :: "Core \<Rightarrow> Core \<Rightarrow> bool" where
  "core_same s s' \<longleftrightarrow> cpu s' = cpu s \<and> regs s' = regs s \<and> stackEvents s' = stackEvents s"

lemma tracked_GetWord_post:
  assumes "tree_ok keccak (mem s)" and "aligned a" and "tracker_at a (tracker s)"
  shows "post {} (\<lambda>(w, s'). w = word_at (mem s) a \<and> tree_ok keccak (mem s') \<and>
    word_at (mem s') = word_at (mem s) \<and> tracker_at a (tracker s') \<and> core_same s s')
    (tracked_GetWord keccak a s)"
  unfolding tracked_GetWord_def
proof (rule post_bind [OF TrackMemAccess_post [OF assms(1,3)]], rule post_split)
  fix x t m assume "case x of (t', m') \<Rightarrow> tree_ok keccak m' \<and> word_at m' = word_at (mem s) \<and> tracker_at a t' \<and>
    (memProofEnabled t' \<longrightarrow> lastMemAccess t' = a)" "x = (t, m)"
  then have m: "tree_ok keccak m" "word_at m = word_at (mem s)" "tracker_at a t" by simp_all
  show "post {} (\<lambda>(w, s'). w = word_at (mem s) a \<and> tree_ok keccak (mem s') \<and>
    word_at (mem s') = word_at (mem s) \<and> tracker_at a (tracker s') \<and> core_same s s')
    (bind_res (GetWord m a) (\<lambda>(w, m'). Inr (w, s\<lparr>tracker := t, mem := m'\<rparr>)))"
    by (rule post_bind [OF GetWord_post [OF m(1) assms(2)]])
      (use m in \<open>auto simp: core_same_def split: prod.splits\<close>)
qed

lemma fetch_rt_post:
  assumes "reg_inv r" and "unat rtReg < 32"
  shows "post {} (\<lambda>(rt, rd). unat rd < 32) (fetch_rt r insn opcode rtReg)"
proof -
  note g = post_bind [OF reg_get_post [OF assms]]
  show ?thesis
    unfolding fetch_rt_def assertMips64_def
    by (intro post_both) (simp_all add: assms(2) g)
qed

lemma fetch_mem_post:
  assumes "tree_ok keccak (mem s)" and "tracker_fresh (tracker s)" and "unat rdReg < 32"
  shows "post {} (\<lambda>((rs', w, sa, rd), s'). tree_ok keccak (mem s') \<and> word_at (mem s') = word_at (mem s) \<and>
    core_same s s' \<and> unat rd < 32 \<and> (sa \<noteq> NOT 0 \<longrightarrow> aligned sa \<and> tracker_at sa (tracker s')))
    (fetch_mem keccak insn opcode rs rdReg s)"
  unfolding fetch_mem_def Let_def
  by (intro post_both post_bind [OF tracked_GetWord_post [OF assms(1) aligned_AddressMask tracker_fresh_at [OF assms(2)]]])
    (use assms in \<open>auto simp: core_same_def simp del: AddressMask_def\<close>)

definition core_panics :: "panic set" where
  "core_panics = {InvalidInstruction, InstructionDivideByZero, BranchInDelaySlot, JumpInDelaySlot}"

definition core_post :: "keccak_fn \<Rightarrow> Core \<Rightarrow> Word option \<times> Core \<Rightarrow> bool" where
  "core_post keccak s = (\<lambda>(upd, s'). tree_ok keccak (mem s') \<and> reg_inv (regs s') \<and>
     mem_frame upd (mem s) (mem s') \<and> (\<forall>a. upd = Some a \<longrightarrow> aligned a) \<and> PC (cpu s') = NextPC (cpu s))"

lemma core_finish_post:
  assumes "tree_ok keccak (mem s)" and "reg_inv (regs s)" and "unat rdReg < 32"
    and sa: "storeAddr \<noteq> NOT 0 \<longrightarrow> aligned storeAddr \<and> tracker_at storeAddr (tracker s)"
  shows "post core_panics (core_post keccak s) (core_finish keccak opcode fn rs rt rdReg storeAddr val s)"
proof -
  let ?Q = "core_post keccak s"
  have jump: "post core_panics ?Q (bind_res (HandleJump (cpu s) (regs s) (if fn = 9 then rdReg else 0) rs)
      (\<lambda>(c, r). Inr (None, s\<lparr>cpu := c, regs := r, stackEvents := ev\<rparr>)))" for ev
  proof -
    have "unat (if fn = 9 then rdReg else 0) < 32" using assms(3) by simp
    from post_weaken [OF HandleJump_post [OF assms(2) this], of core_panics] show ?thesis
      by (rule post_bind) (use assms(1) in \<open>auto simp: core_post_def core_panics_def\<close>)
  qed
  have rd: "post core_panics ?Q (bind_res (HandleRd (cpu s) (regs s) rdReg v b)
      (\<lambda>x. Inr (case x of (c, r) \<Rightarrow> (None, s\<lparr>cpu := c, regs := r\<rparr>))))" for v b
    by (rule post_bind [OF post_weaken [OF HandleRd_post [OF assms(2,3)], of core_panics]])
      (use assms(1) in \<open>auto simp: core_post_def\<close>)
  have hilo: "post core_panics ?Q (bind_res (HandleHiLo (cpu s) (regs s) fn rs rt rdReg)
      (\<lambda>x. Inr (case x of (c, r) \<Rightarrow> (None, s\<lparr>cpu := c, regs := r\<rparr>))))"
    by (rule post_bind [OF post_weaken [OF HandleHiLo_post [OF assms(2,3)], of core_panics]])
      (use assms(1) in \<open>auto simp: core_post_def core_panics_def\<close>)
  have store: "post core_panics (\<lambda>(upd, s1). tree_ok keccak (mem s1) \<and> mem_frame upd (mem s) (mem s1) \<and>
      (\<forall>a. upd = Some a \<longrightarrow> aligned a) \<and> core_same s s1)
     (if storeAddr \<noteq> NOT 0 then
        bind_res (TrackMemAccess keccak (tracker s) (mem s) storeAddr) (\<lambda>(t, m).
        bind_res (SetWord m storeAddr val) (\<lambda>m'. Inr (Some storeAddr, s\<lparr>tracker := t, mem := m'\<rparr>)))
      else Inr (None, s))" (is "post _ ?R _")
  proof (rule post_if)
    assume "storeAddr \<noteq> NOT 0"
    then have a: "aligned storeAddr" "tracker_at storeAddr (tracker s)" using sa by blast+
    from post_weaken [OF TrackMemAccess_post [OF assms(1) a(2)], of core_panics] show
      "post core_panics ?R (bind_res (TrackMemAccess keccak (tracker s) (mem s) storeAddr) (\<lambda>(t, m).
        bind_res (SetWord m storeAddr val) (\<lambda>m'. Inr (Some storeAddr, s\<lparr>tracker := t, mem := m'\<rparr>))))"
    proof (rule post_bind, simp_all, clarify)
      fix t m
      assume m: "tree_ok keccak m" "word_at m = word_at (mem s)"
      show "post core_panics ?R (bind_res (SetWord m storeAddr val) (\<lambda>m'. Inr (Some storeAddr, s\<lparr>tracker := t, mem := m'\<rparr>)))"
        by (rule post_bind [OF post_weaken [OF SetWord_post [OF m(1) a(1), of val], of core_panics]])
          (use m(2) a(1) in \<open>auto simp: core_same_def mem_frame_def\<close>)
    qed
  next
    show "post core_panics ?R (Inr (None, s))" using assms(1) by (simp add: core_same_def)
  qed
  have other: "post core_panics ?Q (bind_res (if storeAddr \<noteq> NOT 0 then
        bind_res (TrackMemAccess keccak (tracker s) (mem s) storeAddr) (\<lambda>(t, m).
        bind_res (SetWord m storeAddr val) (\<lambda>m'. Inr (Some storeAddr, s\<lparr>tracker := t, mem := m'\<rparr>)))
      else Inr (None, s))
      (\<lambda>(updated, s1). bind_res (HandleRd (cpu s1) (regs s1) rdReg val True) (\<lambda>(c, r).
         Inr (updated, s1\<lparr>cpu := c, regs := r\<rparr>))))"
  proof (rule post_bind [OF store], clarify)
    fix u s1
    assume s1: "tree_ok keccak (mem s1)" "mem_frame u (mem s) (mem s1)" "\<forall>a. u = Some a \<longrightarrow> aligned a"
      "core_same s s1"
    then have r: "reg_inv (regs s1)" and c: "cpu s1 = cpu s" using assms(2) by (simp_all add: core_same_def)
    show "post core_panics ?Q (bind_res (HandleRd (cpu s1) (regs s1) rdReg val True) (\<lambda>(c, r).
         Inr (u, s1\<lparr>cpu := c, regs := r\<rparr>)))"
      by (rule post_bind [OF post_weaken [OF HandleRd_post [OF r assms(3)], of core_panics]])
        (use s1 c in \<open>auto simp: core_post_def\<close>)
  qed
  show ?thesis
    unfolding core_finish_def Let_def by (intro post_both jump rd hilo other)
qed

lemma ExecMipsCoreStepLogic_post:
  assumes "tree_ok keccak (mem s)" and "reg_inv (regs s)" and "tracker_fresh (tracker s)"
  shows "post core_panics (core_post keccak s) (ExecMipsCoreStepLogic keccak insn opcode fn s)"
  unfolding ExecMipsCoreStepLogic_def Let_def
proof (rule post_both)
  let ?target = "(NextPC (cpu s) AND SignExtend 0xF0000000 32) OR ucast (push_bit 2 (insn AND 0x03FFFFFF))"
  have "unat (if opcode = 3 then of_nat RegRA else 0 :: Word) < 32" by simp
  from post_weaken [OF HandleJump_post [OF assms(2) this], of core_panics] show
    "post core_panics (core_post keccak s)
      (bind_res (HandleJump (cpu s) (regs s) (if opcode = 3 then of_nat RegRA else 0) ?target)
        (\<lambda>(c, r). Inr (None, s\<lparr>cpu := c, regs := r, stackEvents := stackEvents s @ [PushStack (PC (cpu s)) ?target]\<rparr>)))"
    by (rule post_bind) (use assms(1) in \<open>auto simp: core_post_def core_panics_def\<close>)
next
  let ?rt = "ucast (drop_bit 16 insn AND 0x1F) :: Word"
  note get = post_weaken [OF reg_get_post [OF assms(2) reg_index_less], of core_panics]
  note frt = post_weaken [OF fetch_rt_post [OF assms(2) reg_index_less], of core_panics]
  show "post core_panics (core_post keccak s)
     (bind_res (reg_get (regs s) (ucast (drop_bit 21 insn AND 0x1F))) (\<lambda>rs.
        bind_res (fetch_rt (regs s) insn opcode ?rt) (\<lambda>(rt, rdReg).
          if (opcode \<ge> 4 \<and> opcode < 8) \<or> opcode = 1 then
            bind_res (HandleBranch (cpu s) (regs s) opcode insn ?rt rs) (\<lambda>(c, r, ev).
              Inr (None, s\<lparr>cpu := c, regs := r, stackEvents := stackEvents s @ ev\<rparr>))
          else
            bind_res (fetch_mem keccak insn opcode rs rdReg s) (\<lambda>((rs', w, storeAddr, rdReg'), s1).
            bind_res (ExecuteMipsInstruction insn opcode fn rs' rt w) (\<lambda>val.
              core_finish keccak opcode fn rs' rt rdReg' storeAddr val s1)))))"
  proof (rule post_bind [OF get [where Q' = "\<lambda>_. True"]], simp, simp,
      rule post_bind [OF frt [where Q' = "\<lambda>(rt, rd). unat rd < 32"]], simp, simp, clarify, rule post_both)
    fix rs rt rdReg
    note br = post_weaken [OF HandleBranch_post [OF assms(2) reg_index_less], of core_panics]
    show "post core_panics (core_post keccak s)
        (bind_res (HandleBranch (cpu s) (regs s) opcode insn ?rt rs)
          (\<lambda>(c, r, ev). Inr (None, s\<lparr>cpu := c, regs := r, stackEvents := stackEvents s @ ev\<rparr>)))"
      by (rule post_bind [OF br [where Q' = "\<lambda>(c', r', ev). reg_inv r' \<and> PC c' = NextPC (cpu s)"]])
        (use assms(1) in \<open>auto simp: core_post_def core_panics_def\<close>)
    assume rd: "unat (rdReg :: Word) < 32"
    show "post core_panics (core_post keccak s)
        (bind_res (fetch_mem keccak insn opcode rs rdReg s) (\<lambda>((rs', w, storeAddr, rdReg'), s1).
          bind_res (ExecuteMipsInstruction insn opcode fn rs' rt w) (\<lambda>val.
            core_finish keccak opcode fn rs' rt rdReg' storeAddr val s1)))"
    proof (rule post_bind [OF post_weaken [OF fetch_mem_post [OF assms(1,3) rd], of core_panics]], simp, assumption, clarify)
      fix rs' w sa rd' s1
      assume s1: "tree_ok keccak (mem s1)" "word_at (mem s1) = word_at (mem s)" "core_same s s1"
        "unat (rd' :: Word) < 32" "sa \<noteq> NOT 0 \<longrightarrow> aligned sa \<and> tracker_at sa (tracker s1)"
      have r: "reg_inv (regs s1)" using assms(2) s1(3) by (simp add: core_same_def)
      note ex = post_weaken [OF ExecuteMipsInstruction_post, of core_panics "\<lambda>_. True"]
      have "core_post keccak s1 x \<Longrightarrow> core_post keccak s x" for x
        using s1(2,3) by (auto simp: core_post_def core_same_def mem_frame_def)
      then show "post core_panics (core_post keccak s)
          (bind_res (ExecuteMipsInstruction insn opcode fn rs' rt w) (\<lambda>val.
            core_finish keccak opcode fn rs' rt rd' sa val s1))"
        by (intro post_bind [OF ex] post_weaken [OF core_finish_post [OF s1(1) r s1(4,5)]])
          (simp_all add: core_panics_def)
    qed
  qed
qed

end
