(* ===== verification/Instruction_Laws.thy ===== *)
theory Instruction_Laws
  imports CoreStep
begin

unbundle bit_operations_syntax

text \<open>
  What the arithmetic of \<open>mips_instructions.go\<close> computes: sign extension is \<^const>\<open>signed_take_bit\<close>,
  sub-word selection is the big-endian value of the addressed bytes, the leading-zero loop counts,
  the two-word negation of \<open>dmult\<close> is the 128-bit signed product, and division truncates.
\<close>

section \<open>Sign extension\<close>

lemma bit_SignExtend:
  assumes "0 < unat idx" and "unat idx \<le> 64"
  shows "bit (SignExtend dat idx) k \<longleftrightarrow>
    k < 64 \<and> (if k < unat idx then bit dat k else bit dat (unat idx - 1))"
proof -
  define n where "n = unat idx"
  have n: "0 < n" "n \<le> 64" using assms by (simp_all add: n_def)
  have le: "idx \<le> 64" using assms(2) by (simp add: word_le_nat_alt)
  have u1: "unat (idx - 1) = n - 1"
    using assms(1) by (simp add: n_def unat_sub word_le_nat_alt Suc_le_eq)
  have u2: "unat (of_nat WordSize - idx) = 64 - n"
    using le by (simp add: n_def unat_sub)
  have m: "push_bit j (1 :: Word) - 1 = mask j" for j
    by (simp only: mask_eq_exp_minus_1 push_bit_of_1)
  have sgn: "drop_bit (n - 1) dat AND 1 \<noteq> 0 \<longleftrightarrow> bit dat (n - 1)"
    by (simp add: bit_iff_and_drop_bit_eq_1 and_one_eq)
  show ?thesis
    unfolding SignExtend_def Let_def u1 u2 n_def [symmetric] m sgn
    using n by (auto simp: bit_or_iff bit_and_iff bit_mask_iff bit_shl)
qed

lemma SignExtend_signed_take_bit:
  assumes "0 < unat idx" and "unat idx \<le> 64"
  shows "SignExtend dat idx = signed_take_bit (unat idx - 1) dat"
proof (rule bit_word_eqI)
  fix k assume "k < LENGTH(64)"
  then show "bit (SignExtend dat idx) k = bit (signed_take_bit (unat idx - 1) dat) k"
    using assms by (cases "k = unat idx - 1") (auto simp: bit_SignExtend bit_signed_take_bit_iff min_def possible_bit_def)
qed

lemma SignExtend_32: "SignExtend dat 32 = scast (ucast dat :: u32)"
proof (rule bit_word_eqI)
  fix k assume "k < LENGTH(64)"
  then show "bit (SignExtend dat 32) k = bit (scast (ucast dat :: u32) :: Word) k"
    using bit_SignExtend [of 32 dat k] by (cases "k = 31") (auto simp: bit_signed_iff bit_ucast_iff possible_bit_def min_def)
qed

lemma SignExtend_u32 [simp]: "SignExtend (ucast (x :: u32)) 32 = scast x"
proof -
  have "ucast (ucast x :: Word) = x"
    by (rule bit_word_eqI) (auto simp: bit_ucast_iff)
  then show ?thesis by (simp only: SignExtend_32)
qed

lemma SignExtend_s32 [simp]: "SignExtend (scast (x :: u32)) 32 = scast x"
proof -
  have "ucast (scast x :: Word) = x"
  proof (rule bit_word_eqI)
    fix n assume "n < LENGTH(32)"
    then show "bit (ucast (scast x :: Word) :: u32) n = bit x n"
      by (cases "n = 31") (auto simp: bit_ucast_iff bit_signed_iff possible_bit_def min_def)
  qed
  then show ?thesis by (simp only: SignExtend_32)
qed

section \<open>The 128-bit signed product\<close>

definition hilo_value :: "Word \<times> Word \<Rightarrow> int" where
  "hilo_value p = uint (fst p) * 2 ^ 64 + uint (snd p)"

lemma hilo_bounds: "0 \<le> hilo_value p" "hilo_value p < 2 ^ 128"
proof -
  have hl: "uint (fst p) \<le> 2 ^ 64 - 1" "uint (snd p) \<le> 2 ^ 64 - 1"
    using unsigned_less [of "fst p", where 'a = int] unsigned_less [of "snd p", where 'a = int] by simp_all
  show "0 \<le> hilo_value p" by (simp add: hilo_value_def)
  show "hilo_value p < 2 ^ 128" using hl by (simp add: hilo_value_def)
qed

lemma hilo_Mul64: "hilo_value (Mul64 x y) = uint x * uint y"
proof -
  have x: "unat x \<le> 2 ^ 64 - 1" and y: "unat y \<le> 2 ^ 64 - 1"
    using unat_u64_less [of x] unat_u64_less [of y] by simp_all
  have "unat x * unat y \<le> (2 ^ 64 - 1) * (2 ^ 64 - 1)" by (rule mult_le_mono [OF x y])
  then have "unat x * unat y < 2 ^ 64 * 2 ^ 64" by simp
  then have hi: "unat (of_nat (unat x * unat y div 2 ^ 64) :: Word) = unat x * unat y div 2 ^ 64"
    by (simp add: unat_of_nat less_mult_imp_div_less)
  have lo: "unat (of_nat (unat x * unat y) :: Word) = unat x * unat y mod 2 ^ 64"
    by (simp only: unat_of_nat) simp
  have "hilo_value (Mul64 x y) = int (unat x * unat y div 2 ^ 64 * 2 ^ 64 + unat x * unat y mod 2 ^ 64)"
    unfolding hilo_value_def Mul64_def fst_conv snd_conv
    by (simp only: uint_nat hi lo, simp only: of_nat_add of_nat_mult of_nat_power of_nat_numeral)
  also have "\<dots> = uint x * uint y" by (simp only: div_mult_mod_eq of_nat_mult uint_nat)
  finally show ?thesis .
qed

text \<open>Negating the pair \<open>(hi, lo)\<close> as the code does: flip both words, add 1 to the low one, carry.\<close>

lemma hilo_negate:
  "hilo_value (if NOT lo = 0xFFFFFFFFFFFFFFFF then NOT hi + 1 else NOT hi, NOT lo + 1) =
    (- hilo_value (hi, lo)) mod 2 ^ 128"
proof -
  define h where "h = uint hi"
  define l where "l = uint lo"
  have h: "0 \<le> h" "h < 2 ^ 64" and l: "0 \<le> l" "l < 2 ^ 64"
    unfolding h_def l_def using unsigned_less [of hi, where 'a = int] unsigned_less [of lo, where 'a = int] by simp_all
  have nu: "uint (NOT w) = 2 ^ 64 - 1 - uint w" for w :: Word
  proof -
    have w: "0 \<le> uint w" "uint w < 2 ^ 64" using unsigned_less [of w, where 'a = int] by simp_all
    have "uint (NOT w) = (- uint w - 1) mod 2 ^ 64"
      by (simp add: unsigned_not_eq take_bit_eq_mod not_int_def)
    also have "- uint w - 1 = (2 ^ 64 - 1 - uint w) + (- 1) * 2 ^ 64" by simp
    also have "((2 ^ 64 - 1 - uint w) + (- 1) * 2 ^ 64) mod 2 ^ 64 = (2 ^ 64 - 1 - uint w) mod (2 ^ 64 :: int)"
      by (rule mod_mult_self1)
    also have "\<dots> = 2 ^ 64 - 1 - uint w" using w by (intro mod_pos_pos_trivial) linarith+
    finally show ?thesis .
  qed
  have ng: "uint (- w) = (- uint w) mod 2 ^ 64" for w :: Word by (simp add: uint_word_ariths)
  have "NOT lo = 0xFFFFFFFFFFFFFFFF \<longleftrightarrow> uint (NOT lo) = uint (0xFFFFFFFFFFFFFFFF :: Word)"
    by (rule word_uint_eq_iff)
  then have m1: "NOT lo = 0xFFFFFFFFFFFFFFFF \<longleftrightarrow> l = 0" by (simp add: nu l_def)
  have lo1: "NOT lo + 1 = - lo" and hi1: "NOT hi + 1 = - hi" by (simp_all add: minus_eq_not_plus_1)
  show ?thesis
  proof (cases "l = 0")
    case True
    then have "lo = 0" by (simp add: l_def word_uint_eq_iff)
    have "(- (h * 2 ^ 64)) mod 2 ^ 128 = (- h * 2 ^ 64) mod (2 ^ 64 * 2 ^ 64)" by simp
    also have "\<dots> = (- h mod 2 ^ 64) * 2 ^ 64" by (rule mod_mult_mult2)
    finally show ?thesis
      using True \<open>lo = 0\<close> unfolding hilo_value_def fst_conv snd_conv m1 lo1 hi1 if_P [OF True] ng
      by (simp add: h_def)
  next
    case False
    have lm: "(- l) mod 2 ^ 64 = 2 ^ 64 - l"
      using l False mod_add_self2 [of "- l" "2 ^ 64"] mod_pos_pos_trivial [of "- l + 2 ^ 64" "2 ^ 64"] by simp
    have "(- (h * 2 ^ 64 + l)) mod 2 ^ 128 = (- (h * 2 ^ 64 + l) + 2 ^ 128) mod 2 ^ 128" by simp
    also have "\<dots> = - (h * 2 ^ 64 + l) + 2 ^ 128" using h l False by (intro mod_pos_pos_trivial) simp_all
    finally show ?thesis
      unfolding hilo_value_def fst_conv snd_conv m1 lo1 if_not_P [OF False] ng nu h_def [symmetric] l_def [symmetric] lm
      by simp
  qed
qed

lemma uint_abs64: "uint (abs64 x) = \<bar>sint x\<bar>"
proof -
  have b: "- (2 ^ 63) \<le> sint x" "sint x < 2 ^ 63"
    using sint_greater_eq [of x] sint_less [of x] by simp_all
  have u: "uint x = sint x mod 2 ^ 64" by (simp add: uint_sint take_bit_eq_mod)
  show ?thesis
  proof (cases "sint x < 0")
    case True
    have "uint (- x) = (- uint x) mod 2 ^ 64" by (simp add: uint_word_ariths)
    also have "\<dots> = (- sint x) mod 2 ^ 64" by (simp only: u mod_minus_eq)
    also have "\<dots> = - sint x" using b True by (intro mod_pos_pos_trivial) simp_all
    finally show ?thesis using True by (simp add: abs64_def)
  next
    case False
    then have "uint x = sint x" using b u by (simp add: mod_pos_pos_trivial)
    then show ?thesis using False by (simp add: abs64_def)
  qed
qed

lemma dmult_value: "hilo_value (dmult rs rt) = (sint rs * sint rt) mod 2 ^ 128"
proof -
  obtain hi lo where hl: "Mul64 (abs64 rs) (abs64 rt) = (hi, lo)" by (cases "Mul64 (abs64 rs) (abs64 rt)")
  have v: "hilo_value (hi, lo) = \<bar>sint rs\<bar> * \<bar>sint rt\<bar>"
    using hilo_Mul64 [of "abs64 rs" "abs64 rt"] by (simp only: hl uint_abs64)
  show ?thesis
  proof (cases "(sint rs < 0) \<noteq> (sint rt < 0)")
    case True
    then have "dmult rs rt = (if NOT lo = 0xFFFFFFFFFFFFFFFF then NOT hi + 1 else NOT hi, NOT lo + 1)"
      by (simp add: dmult_def hl Let_def)
    moreover have "- (\<bar>sint rs\<bar> * \<bar>sint rt\<bar>) = sint rs * sint rt" using True by (auto simp: abs_if)
    ultimately show ?thesis by (simp only: hilo_negate v)
  next
    case False
    then have "dmult rs rt = (hi, lo)" by (simp add: dmult_def hl Let_def)
    moreover have "\<bar>sint rs\<bar> * \<bar>sint rt\<bar> = sint rs * sint rt" using False by (auto simp: abs_if)
    ultimately show ?thesis using v hilo_bounds [of "(hi, lo)"] by (simp add: mod_pos_pos_trivial)
  qed
qed

section \<open>Sub-words\<close>

definition sub_width :: "Word \<Rightarrow> bool" where
  "sub_width n \<longleftrightarrow> n = 1 \<or> n = 2 \<or> n = 4 \<or> n = 8"

text \<open>The index of the first byte of the sub-word within its word, and the shift that brings it down.\<close>

definition sub_index :: "Word \<Rightarrow> Word \<Rightarrow> nat" where
  "sub_index vaddr n = unat vaddr mod 8 - unat vaddr mod 8 mod unat n"

definition sub_shift :: "Word \<Rightarrow> Word \<Rightarrow> nat" where
  "sub_shift vaddr n = 8 * (8 - unat n - sub_index vaddr n)"

lemma small_and_7: "\<exists>b < 8. (vaddr :: Word) AND 7 = of_nat b \<and> unat vaddr mod 8 = b"
proof -
  have u: "unat (vaddr AND 7) = unat vaddr mod 8"
    using unat_and_mask [of vaddr 3] by (simp add: mask_eq_exp_minus_1)
  have "vaddr AND 7 = of_nat (unat vaddr mod 8)"
    unfolding u [symmetric] by simp
  then show ?thesis by (intro exI [of _ "unat vaddr mod 8"]) simp
qed

lemma sub_index_room:
  assumes "sub_width n"
  shows "sub_index vaddr n + unat n \<le> 8"
proof -
  obtain b where b: "b < 8" "unat vaddr mod 8 = b" using small_and_7 [of vaddr] by blast
  from b(1) have "b = 0 \<or> b = 1 \<or> b = 2 \<or> b = 3 \<or> b = 4 \<or> b = 5 \<or> b = 6 \<or> b = 7" by arith
  with assms show ?thesis unfolding sub_index_def b(2) sub_width_def by (elim disjE) simp_all
qed

lemma subword_offset:
  assumes "sub_width n"
  shows "calculateSubWordMaskAndOffset vaddr n =
    (mask (8 * unat n), of_nat (sub_shift vaddr n), of_nat (8 * unat n))"
proof -
  obtain b where b: "b < 8" "vaddr AND 7 = of_nat b" "unat vaddr mod 8 = b" using small_and_7 [of vaddr] by blast
  have idx: "vaddr AND (vaddr AND ExtMask AND NOT (n - 1)) = of_nat b AND NOT (n - 1)"
  proof -
    have "vaddr AND vaddr AND 7 AND NOT (n - 1) = (vaddr AND 7) AND NOT (n - 1)"
      by (simp only: and.assoc and.left_idem)
    then show ?thesis by (simp only: ExtMask_def b(2))
  qed
  from b(1) have "b = 0 \<or> b = 1 \<or> b = 2 \<or> b = 3 \<or> b = 4 \<or> b = 5 \<or> b = 6 \<or> b = 7" by arith
  with assms show ?thesis
    unfolding calculateSubWordMaskAndOffset_def Let_def idx sub_shift_def sub_index_def b(3) sub_width_def
    by (elim disjE) (simp_all add: mask_eq_exp_minus_1)
qed

lemma unat_sub_shift:
  assumes "sub_width n"
  shows "unat (of_nat (sub_shift vaddr n) :: Word) = sub_shift vaddr n"
    and "sub_shift vaddr n + 8 * unat n \<le> 64"
proof -
  show "sub_shift vaddr n + 8 * unat n \<le> 64"
    using sub_index_room [OF assms, of vaddr] by (simp add: sub_shift_def)
  then show "unat (of_nat (sub_shift vaddr n) :: Word) = sub_shift vaddr n"
    by (simp add: unat_of_nat)
qed

lemma bit_SelectSubWord:
  assumes "sub_width n"
  shows "bit (SelectSubWord vaddr w n False) j \<longleftrightarrow> j < 8 * unat n \<and> bit w (sub_shift vaddr n + j)"
  using unat_sub_shift [OF assms, of vaddr]
  by (auto simp: SelectSubWord_def subword_offset [OF assms] bit_and_iff bit_mask_iff bit_drop_bit_eq)

lemma bit_UpdateSubWord:
  assumes "sub_width n"
  shows "bit (UpdateSubWord vaddr w n x) j \<longleftrightarrow>
    (if sub_shift vaddr n \<le> j \<and> j < sub_shift vaddr n + 8 * unat n
     then bit x (j - sub_shift vaddr n) else bit w j)"
proof -
  have "bit w j \<Longrightarrow> j < 64" using bit_imp_le_length [of w j] by simp
  then show ?thesis
    using unat_sub_shift [OF assms, of vaddr]
    by (auto simp: UpdateSubWord_def subword_offset [OF assms] bit_or_iff bit_and_iff bit_not_iff
        bit_mask_iff bit_shl possible_bit_def)
qed

lemma Select_Update:
  assumes "sub_width n"
  shows "SelectSubWord vaddr (UpdateSubWord vaddr w n x) n False = x AND mask (8 * unat n)"
  by (rule bit_word_eqI) (auto simp: bit_SelectSubWord [OF assms] bit_UpdateSubWord [OF assms] bit_and_iff bit_mask_iff
    intro: less_le_trans)

lemma Select_sign:
  assumes "sub_width n"
  shows "SelectSubWord vaddr w n True =
    signed_take_bit (8 * unat n - 1) (SelectSubWord vaddr w n False)"
proof -
  have u: "unat (of_nat (8 * unat n) :: Word) = 8 * unat n"
    using assms by (auto simp: sub_width_def)
  have "0 < 8 * unat n" "8 * unat n \<le> 64" using assms by (auto simp: sub_width_def)
  then show ?thesis
    using SignExtend_signed_take_bit [of "of_nat (8 * unat n)"]
    by (simp add: SelectSubWord_def subword_offset [OF assms] u del: of_nat_mult)
qed

section \<open>Sub-words are the big-endian bytes at the address\<close>

lemma be_dec_slice:
  assumes "i + n \<le> length bs"
  shows "be_dec bs div 256 ^ (length bs - n - i) mod 256 ^ n = be_dec (take n (drop i bs))"
proof -
  let ?A = "take i bs" and ?B = "take n (drop i bs)" and ?C = "drop (i + n) bs"
  have split: "bs = (?A @ ?B) @ ?C" by (metis append_assoc append_take_drop_id drop_drop add.commute)
  have lC: "length ?C = length bs - n - i" and lB: "length ?B = n" using assms by simp_all
  have "be_dec bs = (be_dec ?A * 256 ^ n + be_dec ?B) * 256 ^ (length bs - n - i) + be_dec ?C"
    by (subst split) (simp only: be_dec_append lB lC)
  moreover have "be_dec ?C < 256 ^ (length bs - n - i)" using be_dec_bound [of ?C] by (simp only: lC)
  ultimately have "be_dec bs div 256 ^ (length bs - n - i) = be_dec ?A * 256 ^ n + be_dec ?B" by simp
  moreover have "be_dec ?B < 256 ^ n" using be_dec_bound [of ?B] by (simp only: lB)
  ultimately show ?thesis by simp
qed

lemma Select_bytes:
  assumes "sub_width n" and "length bs = 8"
  shows "unat (SelectSubWord vaddr (bo_Word bs) n False) =
    be_dec (take (unat n) (drop (sub_index vaddr n) bs))"
proof -
  note sh = unat_sub_shift [OF assms(1), of vaddr]
  have "be_dec bs < 2 ^ 64" using be_dec_bound [of bs] assms(2) by simp
  then have w: "unat (bo_Word bs) = be_dec bs"
    using assms(2) by (simp add: bo_Word_def get_u64_def unat_of_nat)
  have "unat (SelectSubWord vaddr (bo_Word bs) n False) =
      be_dec bs div 2 ^ sub_shift vaddr n mod 2 ^ (8 * unat n)"
    by (simp add: SelectSubWord_def subword_offset [OF assms(1)] sh unat_and_mask unat_drop_bit_div w)
  also have "\<dots> = be_dec bs div 256 ^ (8 - unat n - sub_index vaddr n) mod 256 ^ unat n"
    by (simp add: sub_shift_def power_mult)
  finally show ?thesis
    using be_dec_slice [of "sub_index vaddr n" "unat n" bs] sub_index_room [OF assms(1)] assms(2) by simp
qed

text \<open>The naturally aligned address of the sub-word.\<close>

definition sub_addr :: "Word \<Rightarrow> Word \<Rightarrow> nat" where
  "sub_addr vaddr n = unat (vaddr AND AddressMask) + sub_index vaddr n"

lemma Select_memory:
  assumes "sub_width n"
  shows "unat (SelectSubWord vaddr (word_at m (vaddr AND AddressMask)) n False) =
    be_dec (map (mem_byte m) [sub_addr vaddr n..<sub_addr vaddr n + unat n])"
proof -
  let ?a = "unat (vaddr AND AddressMask)"
  have "take (unat n) (drop (sub_index vaddr n) [?a..<?a + 8]) = [sub_addr vaddr n..<sub_addr vaddr n + unat n]"
    using sub_index_room [OF assms, of vaddr] by (simp add: sub_addr_def del: AddressMask_def)
  then show ?thesis
    unfolding word_at_def by (subst Select_bytes [OF assms]) (simp_all only: length_map length_upt diff_add_inverse take_map drop_map)
qed

section \<open>Counting leading bits\<close>

definition leading_ones :: "Word \<Rightarrow> nat \<Rightarrow> bool" where
  "leading_ones w n \<longleftrightarrow> n \<le> 32 \<and> (\<forall>k < n. bit w (31 - k)) \<and> (n < 32 \<longrightarrow> \<not> bit w (31 - n))"

lemma clz_loop_spec: "\<exists>n. clz_loop rs i = i + of_nat n \<and> leading_ones rs n"
proof (induction rs i rule: clz_loop.induct)
  case (1 rs i)
  show ?case
  proof (cases "bit rs 31")
    case False
    then have "clz_loop rs i = i" by (subst clz_loop.simps) (simp only: and_bit31 if_False)
    moreover have "leading_ones rs 0" using False by (simp add: leading_ones_def)
    ultimately show ?thesis by (intro exI [of _ 0]) simp
  next
    case True
    have loop: "clz_loop rs i = clz_loop (push_bit 1 rs) (i + 1)"
      by (subst clz_loop.simps) (simp only: and_bit31 True if_True)
    from "1.IH" True obtain n where
      n: "clz_loop (push_bit 1 rs) (i + 1) = i + 1 + of_nat n" "leading_ones (push_bit 1 rs) n"
      by (auto simp: and_bit31)
    have sh: "bit (push_bit 1 rs) (31 - k) \<longleftrightarrow> k < 31 \<and> bit rs (30 - k)" if "k < 32" for k
      using that by (simp only: bit_shl1) auto
    have n31: "n \<le> 31"
    proof (rule ccontr)
      assume "\<not> n \<le> 31"
      then have "31 < n" by simp
      then have "bit (push_bit 1 rs) (31 - 31)" using n(2) unfolding leading_ones_def by blast
      then show False using sh [of 31] by simp
    qed
    have "bit rs (31 - k)" if "k < Suc n" for k
    proof (cases k)
      case 0
      then show ?thesis using True by simp
    next
      case (Suc j)
      then have "bit (push_bit 1 rs) (31 - j)" using n(2) that by (simp add: leading_ones_def)
      then show ?thesis using sh [of j] Suc that n31 by simp
    qed
    moreover have "\<not> bit rs (31 - Suc n)" if "Suc n < 32"
    proof -
      have "\<not> bit (push_bit 1 rs) (31 - n)" using n(2) that by (simp add: leading_ones_def)
      then show ?thesis using sh [of n] that by simp
    qed
    ultimately have "leading_ones rs (Suc n)" using n31 by (simp add: leading_ones_def)
    moreover have "clz_loop rs i = i + of_nat (Suc n)" using loop n(1) by (simp add: algebra_simps)
    ultimately show ?thesis by blast
  qed
qed

section \<open>Properties\<close>

text \<open>A core to evaluate the properties on: an empty memory, proofs being recorded.\<close>

definition sample_core :: Core where
  "sample_core = \<lparr>cpu = \<lparr>PC = 0, NextPC = 4, LO = 0, HI = 0\<rparr>, regs = replicate 32 0, mem = NewMemory,
     tracker = MemTracker_Reset True NewMemoryTracker, stackEvents = []\<rparr>"

lemma sample_core_ok:
  "tree_ok keccak (mem sample_core)" "tracker_fresh (tracker sample_core)" "reg_inv (regs sample_core)"
  using tree_ok_NewMemory tracker_Reset_fresh by (simp_all add: sample_core_def reg_inv_def)

text \<open>one ordinary instruction is safe.  From a core whose memory caches are coherent, whose register
  0 is zero and whose memory tracker has been reset, every instruction word either panics with one of
  the four documented guest errors or returns a core whose memory caches are coherent, whose register 0
  is still zero, which moved to the next PC, and whose memory differs at most in the one aligned word
  the step reports as updated.\<close>
theorem ExecMipsCoreStepLogic_safe:
  assumes "tree_ok keccak (mem s)" and "reg_inv (regs s)" and "tracker_fresh (tracker s)"
  shows "case ExecMipsCoreStepLogic keccak insn opcode fn s of
      Inl e \<Rightarrow> e \<in> {InvalidInstruction, InstructionDivideByZero, BranchInDelaySlot, JumpInDelaySlot}
    | Inr (upd, s') \<Rightarrow> tree_ok keccak (mem s') \<and> reg_inv (regs s') \<and> PC (cpu s') = NextPC (cpu s) \<and>
        mem_frame upd (mem s) (mem s') \<and> (\<forall>a. upd = Some a \<longrightarrow> aligned a)"
  using ExecMipsCoreStepLogic_post [OF assms, of insn opcode fn]
  by (auto simp: post_def core_post_def core_panics_def split: sum.splits)

theorem ExecMipsCoreStepLogic_safe_witness:
  "case ExecMipsCoreStepLogic (take 32) 0xAC080010 0x2B 0x10 sample_core of
      Inl e \<Rightarrow> e \<in> {InvalidInstruction, InstructionDivideByZero, BranchInDelaySlot, JumpInDelaySlot}
    | Inr (upd, s') \<Rightarrow> tree_ok (take 32) (mem s') \<and> reg_inv (regs s') \<and> PC (cpu s') = NextPC (cpu sample_core) \<and>
        mem_frame upd (mem sample_core) (mem s') \<and> (\<forall>a. upd = Some a \<longrightarrow> aligned a)"
  by (rule ExecMipsCoreStepLogic_safe [OF sample_core_ok(1,3,2)])

text \<open>sub-word loads.  A load of 1, 2, 4 or 8 bytes returns the big-endian value of exactly the
  bytes at the naturally aligned address, sign-extended from its top bit or zero-extended as asked,
  and leaves every byte of memory as it was.\<close>
theorem LoadSubWord_value:
  assumes "tree_ok keccak (mem s)" and "tracker_fresh (tracker s)" and "sub_width n"
    and "v = (of_nat (be_dec (map (mem_byte (mem s)) [sub_addr vaddr n..<sub_addr vaddr n + unat n])) :: Word)"
  shows "\<exists>s'. LoadSubWord keccak vaddr n sgnd s =
      Inr (if sgnd then signed_take_bit (8 * unat n - 1) v else v, s') \<and>
    word_at (mem s') = word_at (mem s) \<and> regs s' = regs s \<and> cpu s' = cpu s"
proof -
  let ?w = "word_at (mem s) (vaddr AND AddressMask)"
  have "SelectSubWord vaddr ?w n False = v"
    using Select_memory [OF assms(3), of vaddr "mem s"] by (simp add: assms(4) word_unat_eq_iff unat_of_nat)
      (use unsigned_less [of "SelectSubWord vaddr ?w n False", where 'a = nat] in simp)
  then have val: "SelectSubWord vaddr ?w n sgnd = (if sgnd then signed_take_bit (8 * unat n - 1) v else v)"
    using Select_sign [OF assms(3)] by (cases sgnd) simp_all
  from tracked_GetWord_post [OF assms(1) aligned_AddressMask tracker_fresh_at [OF assms(2)]] obtain s' where
    "tracked_GetWord keccak (vaddr AND AddressMask) s = Inr (?w, s')" "word_at (mem s') = word_at (mem s)"
    "core_same s s'" by (auto simp only: post_no_panic)
  then show ?thesis using val by (auto simp: LoadSubWord_def core_same_def)
qed

theorem LoadSubWord_value_witness:
  "\<exists>s'. LoadSubWord (take 32) 0x2003 2 True sample_core = Inr (0, s') \<and>
    word_at (mem s') = word_at (mem sample_core)"
proof -
  have "sub_width 2" by (simp add: sub_width_def)
  from LoadSubWord_value [OF sample_core_ok(1,2) this refl, where keccak = "take 32" and vaddr = "0x2003" and sgnd = True]
  show ?thesis by (auto simp: sample_core_def mem_byte_def NewMemory_def be_dec_def upt_rec)
qed

text \<open>a sub-word store, then a load.  Storing \<open>x\<close> as 1, 2, 4 or 8 bytes never panics; loading the
  same sub-word returns the low bytes of \<open>x\<close>, and no other aligned word of memory changes.\<close>
theorem LoadSubWord_after_StoreSubWord:
  assumes "tree_ok keccak (mem s)" and "tracker_fresh (tracker s)" and "sub_width n"
  shows "\<exists>s1 s2. StoreSubWord keccak vaddr n x s = Inr s1 \<and>
    LoadSubWord keccak vaddr n False s1 = Inr (x AND mask (8 * unat n), s2) \<and>
    mem_frame (Some (vaddr AND AddressMask)) (mem s) (mem s2)"
proof -
  let ?a = "vaddr AND AddressMask"
  have al: "aligned ?a" by (rule aligned_AddressMask)
  from tracked_GetWord_post [OF assms(1) al tracker_fresh_at [OF assms(2)]] obtain s0 where
    s0: "tracked_GetWord keccak ?a s = Inr (word_at (mem s) ?a, s0)" "tree_ok keccak (mem s0)"
      "word_at (mem s0) = word_at (mem s)" "tracker_at ?a (tracker s0)" by (auto simp only: post_no_panic)
  let ?u = "UpdateSubWord vaddr (word_at (mem s) ?a) n x"
  from SetWord_post [OF s0(2) al, of ?u] obtain m where
    m: "SetWord (mem s0) ?a ?u = Inr m" "tree_ok keccak m" "word_at m ?a = ?u" "mem_frame (Some ?a) (mem s0) m"
    by (auto simp only: post_no_panic)
  let ?s1 = "s0\<lparr>mem := m\<rparr>"
  have "tree_ok keccak (mem ?s1)" "tracker_at ?a (tracker ?s1)" using m(2) s0(4) by simp_all
  from tracked_GetWord_post [OF this(1) al this(2)] obtain s2 where
    s2: "tracked_GetWord keccak ?a ?s1 = Inr (word_at m ?a, s2)" "word_at (mem s2) = word_at m"
    by (auto simp: post_no_panic simp del: AddressMask_def)
  have "StoreSubWord keccak vaddr n x s = Inr ?s1" by (simp only: StoreSubWord_def s0(1) m(1) bind_res_Inr split_conv)
  moreover have "LoadSubWord keccak vaddr n False ?s1 = Inr (x AND mask (8 * unat n), s2)"
    by (simp only: LoadSubWord_def s2(1) m(3) bind_res_Inr split_conv Select_Update [OF assms(3)])
  moreover have "mem_frame (Some ?a) (mem s) (mem s2)"
    using m(4) s2(2) s0(3) by (simp add: mem_frame_def)
  ultimately show ?thesis by blast
qed

theorem LoadSubWord_after_StoreSubWord_witness:
  "\<exists>s1 s2. StoreSubWord (take 32) 0x2006 2 0x12345678 sample_core = Inr s1 \<and>
    LoadSubWord (take 32) 0x2006 2 False s1 = Inr (0x5678, s2) \<and>
    mem_frame (Some 0x2000) (mem sample_core) (mem s2)"
proof -
  have "sub_width 2" by (simp add: sub_width_def)
  from LoadSubWord_after_StoreSubWord [OF sample_core_ok(1,2) this, where keccak = "take 32" and vaddr = "0x2006" and x = "0x12345678"]
  show ?thesis by (simp add: mask_eq_exp_minus_1)
qed

text \<open>\<open>dmult\<close> is exact.  The code multiplies absolute values and negates the two result words by
  hand; HI and LO then hold the signed product of the operands modulo 2 to the 128, for all operands
  including the most negative one.\<close>
theorem HandleHiLo_dmult:
  "\<exists>c'. HandleHiLo c r 0x1c rs rt 0 = Inr (c', r) \<and>
    uint (HI c') * 2 ^ 64 + uint (LO c') = (sint rs * sint rt) mod 2 ^ 128"
proof -
  obtain hi lo where d: "dmult rs rt = (hi, lo)" by (cases "dmult rs rt")
  then have "uint hi * 2 ^ 64 + uint lo = (sint rs * sint rt) mod 2 ^ 128"
    using dmult_value [of rs rt] by (simp add: hilo_value_def)
  then show ?thesis by (simp add: HandleHiLo_def hilo_op_def Let_def assertMips64Fun_def d)
qed

text \<open>\<open>clz\<close> counts.  The instruction returns the number \<open>n\<close> of zero bits at the top of the low
  32 bits of \<open>rs\<close>: bits 31 down to \<open>32 - n\<close> are zero, and bit \<open>31 - n\<close> is set unless \<open>n\<close> is 32.\<close>
theorem ExecuteMipsInstruction_clz:
  "\<exists>n. ExecuteMipsInstruction insn 0x1C 0x20 rs rt w = Inr (of_nat n) \<and> n \<le> 32 \<and>
    (\<forall>k < n. \<not> bit rs (31 - k)) \<and> (n < 32 \<longrightarrow> bit rs (31 - n))"
proof -
  from clz_loop_spec [of "NOT rs" 0] obtain n where
    n: "clz_loop (NOT rs) 0 = of_nat n" "leading_ones (NOT rs) n" by auto
  have b: "bit (NOT rs) j \<longleftrightarrow> \<not> bit rs j" if "j < 64" for j using that by (simp add: bit_not_iff possible_bit_def)
  have le: "n \<le> 32" using n(2) by (simp add: leading_ones_def)
  have "ucast (of_nat n :: u32) = (of_nat n :: Word)"
    using le by (simp add: word_unat_eq_iff unat_of_nat unsigned_ucast_eq take_bit_nat_eq_self_iff)
  then have "ExecuteMipsInstruction insn 0x1C 0x20 rs rt w = Inr (of_nat n)"
    by (simp add: ExecuteMipsInstruction_def exec_opcode_def exec_special2_def n(1))
  moreover have "\<forall>k < n. \<not> bit rs (31 - k)" and "n < 32 \<longrightarrow> bit rs (31 - n)"
    using n(2) b by (auto simp: leading_ones_def)
  ultimately show ?thesis using le by blast
qed

theorem ExecuteMipsInstruction_clz_witness:
  "\<exists>n. ExecuteMipsInstruction 0x70000020 0x1C 0x20 0x00FF0000 0 0 = Inr (of_nat n) \<and> n \<le> 32 \<and>
    (\<forall>k < n. \<not> bit (0x00FF0000 :: Word) (31 - k)) \<and> (n < 32 \<longrightarrow> bit (0x00FF0000 :: Word) (31 - n))"
  by (rule ExecuteMipsInstruction_clz)

end
