(* ===== verification/Syscalls.thy ===== *)
theory Syscalls
  imports Instruction_Laws
begin

unbundle bit_operations_syntax

text \<open>
  \<open>cannon/mipsevm/exec/preimage.go\<close> and \<open>mips_syscalls.go\<close>: the pre-image reader and the system
  calls that do not touch threads.  The pre-image oracle behind the reader (\<open>mipsevm.PreimageOracle\<close>)
  is an interface served by another process: its \<open>GetPreimage\<close> is the parameter \<open>po\<close>, and what is
  sent through its \<open>Hint\<close> method is appended to \<open>hintsSent\<close>.
\<close>

type_synonym oracle_fn = "byte list \<Rightarrow> byte list"

section \<open>The tracking pre-image reader\<close>

record OracleReader =
  totalPreimageSize :: nat
  numPreimageRequests :: nat
  lastPreimage :: "byte list"
  lastPreimageKey :: "byte list"
  lastPreimageOffset :: Word
  hintsSent :: "byte list list"

definition NewTrackingPreimageOracleReader :: OracleReader where
  "NewTrackingPreimageOracleReader =
     \<lparr>totalPreimageSize = 0, numPreimageRequests = 0, lastPreimage = [], lastPreimageKey = replicate 32 0,
      lastPreimageOffset = 0, hintsSent = []\<rparr>"

definition Oracle_Reset :: "OracleReader \<Rightarrow> OracleReader" where
  "Oracle_Reset p = p\<lparr>lastPreimageOffset := NOT 0\<rparr>"

definition Oracle_Hint :: "OracleReader \<Rightarrow> byte list \<Rightarrow> OracleReader" where
  "Oracle_Hint p v = p\<lparr>hintsSent := hintsSent p @ [v]\<rparr>"

definition GetPreimage :: "oracle_fn \<Rightarrow> OracleReader \<Rightarrow> byte list \<Rightarrow> byte list \<times> OracleReader" where
  "GetPreimage po p k =
     (let preimage = po k
      in (preimage, p\<lparr>numPreimageRequests := numPreimageRequests p + 1,
                      totalPreimageSize := totalPreimageSize p + length preimage\<rparr>))"

text \<open>The first component is \<open>dat[:datLen]\<close>; the rest of the 32-byte array stays zero and is never
  read.\<close>

definition ReadPreimage ::
    "oracle_fn \<Rightarrow> OracleReader \<Rightarrow> byte list \<Rightarrow> Word \<Rightarrow> (byte list \<times> OracleReader) res" where
  "ReadPreimage po p key offset =
     (let (preimage, p1) =
        (if key \<noteq> lastPreimageKey p then
           let (dat, q) = GetPreimage po (p\<lparr>lastPreimageKey := key\<rparr>) key;
               pre = put_u64 (of_nat (length dat)) @ dat
           in (pre, q\<lparr>lastPreimage := pre\<rparr>)
         else (lastPreimage p, p));
        p2 = p1\<lparr>lastPreimageOffset := offset\<rparr>
      in if offset \<ge> of_nat (length preimage) then Inl PreimageOffsetOutOfBounds
         else Inr (take 32 (drop (unat offset) preimage), p2))"

definition LastPreimage :: "OracleReader \<Rightarrow> byte list \<times> byte list \<times> Word" where
  "LastPreimage p = (lastPreimageKey p, lastPreimage p, lastPreimageOffset p)"

section \<open>Constants\<close>

definition FdStdin :: Word where [simp]: "FdStdin = 0"
definition FdStdout :: Word where [simp]: "FdStdout = 1"
definition FdStderr :: Word where [simp]: "FdStderr = 2"
definition FdHintRead :: Word where [simp]: "FdHintRead = 3"
definition FdHintWrite :: Word where [simp]: "FdHintWrite = 4"
definition FdPreimageRead :: Word where [simp]: "FdPreimageRead = 5"
definition FdPreimageWrite :: Word where [simp]: "FdPreimageWrite = 6"

definition SysErrorSignal :: Word where [simp]: "SysErrorSignal = NOT 0"
definition MipsEBADF :: Word where [simp]: "MipsEBADF = 0x9"
definition MipsEINVAL :: Word where [simp]: "MipsEINVAL = 0x16"
definition MipsEAGAIN :: Word where [simp]: "MipsEAGAIN = 0xb"

definition FutexWaitPrivate :: Word where [simp]: "FutexWaitPrivate = 128"
definition FutexWakePrivate :: Word where [simp]: "FutexWakePrivate = 129"

definition CloneVm :: Word where [simp]: "CloneVm = 0x100"
definition CloneFs :: Word where [simp]: "CloneFs = 0x200"
definition CloneFiles :: Word where [simp]: "CloneFiles = 0x400"
definition CloneSighand :: Word where [simp]: "CloneSighand = 0x800"
definition CloneThread :: Word where [simp]: "CloneThread = 0x10000"
definition CloneSysvsem :: Word where [simp]: "CloneSysvsem = 0x40000"
definition ValidCloneFlags :: Word where
  [simp]: "ValidCloneFlags = CloneVm OR CloneFs OR CloneFiles OR CloneSighand OR CloneSysvsem OR CloneThread"

definition SchedQuantum :: Word where [simp]: "SchedQuantum = 100000"
definition HZ :: Word where [simp]: "HZ = 10000000"
definition ClockGettimeRealtimeFlag :: Word where [simp]: "ClockGettimeRealtimeFlag = 0"
definition ClockGettimeMonotonicFlag :: Word where [simp]: "ClockGettimeMonotonicFlag = 1"

section \<open>System calls without threads\<close>

text \<open>The four registers, each a constant index into the array.\<close>

definition GetSyscallArgs :: "regfile \<Rightarrow> Word \<times> Word \<times> Word \<times> Word" where
  "GetSyscallArgs r = (r ! RegSyscallNum, r ! RegSyscallParam1, r ! RegSyscallParam2, r ! RegSyscallParam3)"

definition HandleSysMmap :: "Word \<Rightarrow> Word \<Rightarrow> Word \<Rightarrow> Word \<times> Word \<times> Word" where
  "HandleSysMmap a0 a1 heap =
     (let sz = (if a1 AND PageAddrMask \<noteq> 0 then a1 + (of_nat PageSize - (a1 AND PageAddrMask)) else a1)
      in if a0 = 0 then
           let newHeap = heap + sz
           in if newHeap > HeapEnd \<or> newHeap < heap \<or> sz < a1 then (SysErrorSignal, MipsEINVAL, heap)
              else (heap, 0, newHeap)
         else (a0, 0, heap))"

record SysEnv =
  env_oracle :: OracleReader
  env_mem :: Memory
  env_trk :: MemTracker
  env_out :: "byte list"
  env_err :: "byte list"

text \<open>\<open>TrackMemAccess\<close> then \<open>GetWord\<close>, as both calls below begin.\<close>

definition env_GetWord :: "keccak_fn \<Rightarrow> Word \<Rightarrow> SysEnv \<Rightarrow> (Word \<times> SysEnv) res" where
  "env_GetWord keccak addr e =
     bind_res (TrackMemAccess keccak (env_trk e) (env_mem e) addr) (\<lambda>(t, m).
     bind_res (GetWord m addr) (\<lambda>(w, m'). Inr (w, e\<lparr>env_trk := t, env_mem := m'\<rparr>)))"

text \<open>\<open>(v0, v1, newPreimageOffset)\<close> and the address written, if any.\<close>

definition HandleSysRead ::
    "keccak_fn \<Rightarrow> oracle_fn \<Rightarrow> Word \<Rightarrow> Word \<Rightarrow> Word \<Rightarrow> byte list \<Rightarrow> Word \<Rightarrow> SysEnv \<Rightarrow>
     ((Word \<times> Word \<times> Word \<times> Word option) \<times> SysEnv) res" where
  "HandleSysRead keccak po a0 a1 a2 preimageKey preimageOffset e =
     (if a0 = FdStdin then Inr ((0, 0, preimageOffset, None), e)
      else if a0 = FdPreimageRead then
        let effAddr = a1 AND AddressMask in
        bind_res (env_GetWord keccak effAddr e) (\<lambda>(w, e1).
        bind_res (ReadPreimage po (env_oracle e1) preimageKey preimageOffset) (\<lambda>(dat, o1).
          let alignment = a1 AND ExtMask;
              space = WordSizeBytes - alignment;
              n1 = of_nat (length dat) :: Word;
              n2 = (if space < n1 then space else n1);
              datLen = (if a2 < n2 then a2 else n2);
              outMem = copy_at (unat alignment) (take (unat datLen) dat) (bo_PutWord w)
          in bind_res (SetWord (env_mem e1) effAddr (bo_Word outMem)) (\<lambda>m.
               Inr ((datLen, 0, preimageOffset + datLen, Some effAddr),
                    e1\<lparr>env_oracle := o1, env_mem := m\<rparr>))))
      else if a0 = FdHintRead then Inr ((a2, 0, preimageOffset, None), e)
      else Inr ((NOT 0, MipsEBADF, preimageOffset, None), e))"

text \<open>
  The loop over buffered hints.  \<open>hintLen\<close> and \<open>4 + hintLen\<close> are \<open>uint32\<close>: the slice panics when the
  sum wraps below 4.
\<close>

function process_hints :: "byte list \<Rightarrow> (byte list list \<times> byte list) res" where
  "process_hints lastHint =
     (if length lastHint \<ge> 4 then
        let hintLen = get_u32 lastHint;
            end4 = 4 + hintLen
        in if hintLen \<le> of_nat (length (drop 4 lastHint)) then
             if unat end4 < 4 then Inl IndexOutOfRange
             else bind_res (process_hints (drop (unat end4) lastHint)) (\<lambda>(hs, rest).
                    Inr (take (unat end4 - 4) (drop 4 lastHint) # hs, rest))
           else Inr ([], lastHint)
      else Inr ([], lastHint))"
  by pat_completeness auto
termination
  by (relation "measure length") auto

declare process_hints.simps [simp del]

definition HandleSysWrite ::
    "keccak_fn \<Rightarrow> Word \<Rightarrow> Word \<Rightarrow> Word \<Rightarrow> byte list \<Rightarrow> byte list \<Rightarrow> Word \<Rightarrow> SysEnv \<Rightarrow>
     ((Word \<times> Word \<times> byte list \<times> byte list \<times> Word) \<times> SysEnv) res" where
  "HandleSysWrite keccak a0 a1 a2 lastHint preimageKey preimageOffset e =
     (if a0 = FdStdout then
        bind_res (read_range 32768 (env_mem e) a1 a2) (\<lambda>(bs, m).
          Inr ((a2, 0, lastHint, preimageKey, preimageOffset), e\<lparr>env_mem := m, env_out := env_out e @ bs\<rparr>))
      else if a0 = FdStderr then
        bind_res (read_range 32768 (env_mem e) a1 a2) (\<lambda>(bs, m).
          Inr ((a2, 0, lastHint, preimageKey, preimageOffset), e\<lparr>env_mem := m, env_err := env_err e @ bs\<rparr>))
      else if a0 = FdHintWrite then
        bind_res (read_range 512 (env_mem e) a1 a2) (\<lambda>(hintData, m).
        bind_res (process_hints (lastHint @ hintData)) (\<lambda>(hs, rest).
          Inr ((a2, 0, rest, preimageKey, preimageOffset),
               e\<lparr>env_mem := m, env_oracle := fold (\<lambda>h p. Oracle_Hint p h) hs (env_oracle e)\<rparr>)))
      else if a0 = FdPreimageWrite then
        let effAddr = a1 AND AddressMask in
        bind_res (env_GetWord keccak effAddr e) (\<lambda>(w, e1).
          let alignment = a1 AND ExtMask;
              space = WordSizeBytes - alignment;
              n = (if space < a2 then space else a2);
              key1 = copy_at 0 (drop (unat n) preimageKey) preimageKey;
              key2 = copy_at (32 - unat n) (drop (unat alignment) (bo_PutWord w)) key1
          in Inr ((n, 0, lastHint, key2, 0), e1))
      else Inr ((NOT 0, MipsEBADF, lastHint, preimageKey, preimageOffset), e))"

definition HandleSysFcntl :: "Word \<Rightarrow> Word \<Rightarrow> Word \<times> Word" where
  "HandleSysFcntl a0 a1 =
     (if a1 = 1 then
        if a0 \<in> {FdStdin, FdStdout, FdStderr, FdPreimageRead, FdHintRead, FdPreimageWrite, FdHintWrite}
        then (0, 0) else (NOT 0, MipsEBADF)
      else if a1 = 3 then
        if a0 \<in> {FdStdin, FdPreimageRead, FdHintRead} then (0, 0)
        else if a0 \<in> {FdStdout, FdStderr, FdPreimageWrite, FdHintWrite} then (1, 0)
        else (NOT 0, MipsEBADF)
      else (NOT 0, MipsEINVAL))"

definition HandleSyscallUpdates :: "CpuScalars \<Rightarrow> regfile \<Rightarrow> Word \<Rightarrow> Word \<Rightarrow> CpuScalars \<times> regfile" where
  "HandleSyscallUpdates c r v0 v1 =
     (c\<lparr>PC := NextPC c, NextPC := NextPC c + 4\<rparr>, r[RegSyscallRet1 := v0, RegSyscallErrno := v1])"

section \<open>What the pre-image reader serves\<close>

definition prefixed :: "oracle_fn \<Rightarrow> byte list \<Rightarrow> byte list" where
  "prefixed po key = put_u64 (of_nat (length (po key))) @ po key"

text \<open>The cache holds the pre-image of its key, except before the first read.\<close>

definition oracle_ok :: "oracle_fn \<Rightarrow> OracleReader \<Rightarrow> bool" where
  "oracle_ok po p \<longleftrightarrow> lastPreimage p = prefixed po (lastPreimageKey p) \<or>
     (lastPreimage p = [] \<and> lastPreimageKey p = replicate 32 0)"

lemma oracle_ok_new [inv_intros]: "oracle_ok po NewTrackingPreimageOracleReader"
  by (simp add: oracle_ok_def NewTrackingPreimageOracleReader_def)

lemma oracle_ok_Reset [inv_intros]: "oracle_ok po p \<Longrightarrow> oracle_ok po (Oracle_Reset p)"
  by (simp add: oracle_ok_def Oracle_Reset_def)

lemma oracle_ok_Hint [inv_intros]: "oracle_ok po p \<Longrightarrow> oracle_ok po (Oracle_Hint p h)"
  by (simp add: oracle_ok_def Oracle_Hint_def)

lemma oracle_ok_Hints [inv_intros]: "oracle_ok po p \<Longrightarrow> oracle_ok po (fold (\<lambda>h p. Oracle_Hint p h) hs p)"
  by (induction hs arbitrary: p) (simp_all add: oracle_ok_Hint)

lemma ReadPreimage_post:
  assumes "oracle_ok po p"
  shows "post {PreimageOffsetOutOfBounds} (\<lambda>(dat, p'). oracle_ok po p' \<and>
    dat = take 32 (drop (unat offset) (prefixed po key)) \<and> unat offset < length (prefixed po key))
    (ReadPreimage po p key offset)"
proof -
  have lt: "unat offset < n" if "\<not> offset \<ge> of_nat n" for n
  proof -
    have "unat offset < unat (of_nat n :: Word)" using that by (simp add: not_le word_less_nat_alt)
    also have "\<dots> \<le> n" by (simp add: unat_of_nat)
    finally show ?thesis .
  qed
  show ?thesis
  proof (cases "key = lastPreimageKey p")
    case False
    then show ?thesis
      using lt [of "length (prefixed po key)"]
      by (simp add: ReadPreimage_def GetPreimage_def Let_def oracle_ok_def prefixed_def)
  next
    case True
    then show ?thesis
      using assms lt [of "length (lastPreimage p)"]
      by (auto simp: ReadPreimage_def Let_def oracle_ok_def)
  qed
qed

lemma ReadPreimage_succeeds:
  assumes "oracle_ok po p" and "key \<noteq> replicate 32 0" and "length (prefixed po key) < 2 ^ 64"
    and "unat offset < length (prefixed po key)"
  shows "\<exists>p'. ReadPreimage po p key offset = Inr (take 32 (drop (unat offset) (prefixed po key)), p') \<and> oracle_ok po p'"
proof -
  have "offset < of_nat (length (prefixed po key))"
    using assms(3,4) by (simp add: word_less_nat_alt unat_of_nat)
  then have lt: "\<not> offset \<ge> of_nat (length (prefixed po key))" by simp
  show ?thesis
  proof (cases "key = lastPreimageKey p")
    case False
    then show ?thesis using lt
      by (simp add: ReadPreimage_def GetPreimage_def Let_def oracle_ok_def flip: prefixed_def)
  next
    case True
    then have "lastPreimage p = prefixed po key" using assms(1,2) by (auto simp: oracle_ok_def)
    then show ?thesis using lt True by (simp add: ReadPreimage_def Let_def oracle_ok_def)
  qed
qed

section \<open>What the calls keep\<close>

lemma env_GetWord_post:
  assumes "tree_ok keccak (env_mem e)" and "tracker_fresh (env_trk e)" and "aligned a"
  shows "post {} (\<lambda>(w, e'). w = word_at (env_mem e) a \<and> tree_ok keccak (env_mem e') \<and>
    word_at (env_mem e') = word_at (env_mem e) \<and> env_oracle e' = env_oracle e)
    (env_GetWord keccak a e)"
  unfolding env_GetWord_def
proof (rule post_bind [OF TrackMemAccess_post [OF assms(1) tracker_fresh_at [OF assms(2)]]], clarify)
  fix t m assume m: "tree_ok keccak m" "word_at m = word_at (env_mem e)"
  show "post {} (\<lambda>(w, e'). w = word_at (env_mem e) a \<and> tree_ok keccak (env_mem e') \<and>
      word_at (env_mem e') = word_at (env_mem e) \<and> env_oracle e' = env_oracle e)
     (bind_res (GetWord m a) (\<lambda>(w, m'). Inr (w, e\<lparr>env_trk := t, env_mem := m'\<rparr>)))"
    by (rule post_bind [OF GetWord_post [OF m(1) assms(3)]]) (use m in auto)
qed

definition env_post :: "keccak_fn \<Rightarrow> oracle_fn \<Rightarrow> Word option \<Rightarrow> SysEnv \<Rightarrow> SysEnv \<Rightarrow> bool" where
  "env_post keccak po upd e e' \<longleftrightarrow> tree_ok keccak (env_mem e') \<and> oracle_ok po (env_oracle e') \<and>
     mem_frame upd (env_mem e) (env_mem e') \<and> (\<forall>a. upd = Some a \<longrightarrow> aligned a)"

lemma HandleSysRead_post:
  assumes "tree_ok keccak (env_mem e)" and "tracker_fresh (env_trk e)" and "oracle_ok po (env_oracle e)"
  shows "post {PreimageOffsetOutOfBounds} (\<lambda>((v0, v1, off, upd), e'). env_post keccak po upd e e')
    (HandleSysRead keccak po a0 a1 a2 key offset e)" (is "post ?E ?Q _")
proof -
  let ?a = "a1 AND AddressMask"
  have al: "aligned ?a" by (rule aligned_AddressMask)
  have id: "env_post keccak po None e e" using assms by (simp add: env_post_def)
  have gw: "post ?E (\<lambda>(w, e'). w = word_at (env_mem e) ?a \<and> tree_ok keccak (env_mem e') \<and>
      word_at (env_mem e') = word_at (env_mem e) \<and> env_oracle e' = env_oracle e) (env_GetWord keccak ?a e)"
    by (rule post_weaken [OF env_GetWord_post [OF assms(1,2) al]]) simp_all
  have set: "post ?E ?Q (bind_res (SetWord (env_mem e1) ?a v) (\<lambda>m.
      Inr ((n, 0, x, Some ?a), e1\<lparr>env_oracle := o1, env_mem := m\<rparr>)))"
    if "tree_ok keccak (env_mem e1)" "word_at (env_mem e1) = word_at (env_mem e)" "oracle_ok po o1" for e1 v n x o1
    by (rule post_bind [OF post_weaken [OF SetWord_post [OF that(1) al, of v], of ?E]])
      (use that(2,3) al in \<open>auto simp: env_post_def mem_frame_def\<close>)
  have read: "post ?E ?Q (bind_res (env_GetWord keccak ?a e) (\<lambda>(w, e1).
      bind_res (ReadPreimage po (env_oracle e1) key offset) (\<lambda>(dat, o1).
        bind_res (SetWord (env_mem e1) ?a (v w dat)) (\<lambda>m.
          Inr ((n dat, 0, x dat, Some ?a), e1\<lparr>env_oracle := o1, env_mem := m\<rparr>)))))" for v n x
  proof (rule post_bind [OF gw], clarify)
    fix e1 :: SysEnv
    assume e1: "tree_ok keccak (env_mem e1)" "word_at (env_mem e1) = word_at (env_mem e)"
      "env_oracle e1 = env_oracle e"
    then have "oracle_ok po (env_oracle e1)" using assms(3) by simp
    then show "post ?E ?Q (bind_res (ReadPreimage po (env_oracle e1) key offset) (\<lambda>(dat, o1).
        bind_res (SetWord (env_mem e1) ?a (v (word_at (env_mem e) ?a) dat)) (\<lambda>m.
          Inr ((n dat, 0, x dat, Some ?a), e1\<lparr>env_oracle := o1, env_mem := m\<rparr>))))"
      using set [OF e1(1,2)] by (intro post_bind [OF ReadPreimage_post]) auto
  qed
  have none: "post ?E ?Q (Inr ((x, y, offset, None), e))" for x y using id by simp
  show ?thesis
    unfolding HandleSysRead_def Let_def by (intro post_both none read)
qed

lemma process_hints_post: "post {IndexOutOfRange} (\<lambda>_. True) (process_hints bs)"
proof (induction bs rule: process_hints.induct)
  case (1 bs)
  show ?case
    by (subst process_hints.simps) (auto simp: Let_def intro!: post_bind [OF "1.IH"])
qed

lemma HandleSysWrite_post:
  assumes "tree_ok keccak (env_mem e)" and "tracker_fresh (env_trk e)" and "oracle_ok po (env_oracle e)"
    and "length key = 32"
  shows "post {IndexOutOfRange} (\<lambda>((v0, v1, hint, key', off), e'). env_post keccak po None e e' \<and> length key' = 32)
    (HandleSysWrite keccak a0 a1 a2 hint key offset e)" (is "post ?E ?Q _")
proof -
  let ?a = "a1 AND AddressMask"
  have al: "aligned ?a" by (rule aligned_AddressMask)
  have id: "env_post keccak po None e e" using assms by (simp add: env_post_def)
  have range: "post ?E (\<lambda>(bs, m). tree_ok keccak m \<and> word_at m = word_at (env_mem e)) (read_range L (env_mem e) a1 a2)"
    if "0 < L" for L
    using read_range_post [OF tree_okD(1) [OF assms(1)] that, of a1 a2]
    by (rule post_weaken) (use same_pages_tree_ok [OF assms(1)] word_at_cong [OF same_pages_byte] in auto)
  have gw: "post ?E (\<lambda>(w, e'). w = word_at (env_mem e) ?a \<and> tree_ok keccak (env_mem e') \<and>
      word_at (env_mem e') = word_at (env_mem e) \<and> env_oracle e' = env_oracle e) (env_GetWord keccak ?a e)"
    by (rule post_weaken [OF env_GetWord_post [OF assms(1,2) al]]) simp_all
  have len: "unat (if WordSizeBytes - (a1 AND ExtMask) < a2 then WordSizeBytes - (a1 AND ExtMask) else a2) \<le> 32"
  proof -
    obtain b where "b < 8" "a1 AND 7 = of_nat b" using small_and_7 [of a1] by blast
    then have "unat (8 - (a1 AND 7)) \<le> 8" by (simp add: unat_sub word_le_nat_alt unat_of_nat)
    then show ?thesis by (simp add: not_less word_le_nat_alt)
  qed
  have out: "post ?E ?Q (bind_res (read_range 32768 (env_mem e) a1 a2) (\<lambda>(bs, m).
      Inr ((a2, 0, hint, key, offset), e\<lparr>env_mem := m, env_out := env_out e @ bs\<rparr>)))"
    by (rule post_bind [OF range]) (use id assms(3,4) in \<open>auto simp: env_post_def mem_frame_def\<close>)
  have err: "post ?E ?Q (bind_res (read_range 32768 (env_mem e) a1 a2) (\<lambda>(bs, m).
      Inr ((a2, 0, hint, key, offset), e\<lparr>env_mem := m, env_err := env_err e @ bs\<rparr>)))"
    by (rule post_bind [OF range]) (use id assms(3,4) in \<open>auto simp: env_post_def mem_frame_def\<close>)
  have hints: "post ?E ?Q (bind_res (read_range 512 (env_mem e) a1 a2) (\<lambda>(hintData, m).
      bind_res (process_hints (hint @ hintData)) (\<lambda>(hs, rest).
        Inr ((a2, 0, rest, key, offset),
             e\<lparr>env_mem := m, env_oracle := fold (\<lambda>h p. Oracle_Hint p h) hs (env_oracle e)\<rparr>))))"
  proof (rule post_bind [OF range], simp, clarify, rule post_bind [OF process_hints_post], clarify)
    fix m hs rest assume "tree_ok keccak m" "word_at m = word_at (env_mem e)"
    then show "post ?E ?Q (Inr ((a2, 0, rest, key, offset),
             e\<lparr>env_mem := m, env_oracle := fold (\<lambda>h p. Oracle_Hint p h) hs (env_oracle e)\<rparr>))"
      using assms(3,4) oracle_ok_Hints by (simp add: env_post_def mem_frame_def)
  qed
  have key_write: "post ?E ?Q (bind_res (env_GetWord keccak ?a e) (\<lambda>(w, e1).
      Inr ((n, 0, hint, copy_at (32 - unat n) (drop k (bo_PutWord w)) (copy_at 0 (drop (unat n) key) key), 0), e1)))"
    if "unat n \<le> 32" for n k
    by (rule post_bind [OF gw])
      (use that assms(3,4) in \<open>auto simp: env_post_def mem_frame_def\<close>)
  have none: "post ?E ?Q (Inr ((x, y, hint, key, offset), e))" for x y using id assms(4) by simp
  show ?thesis
    unfolding HandleSysWrite_def Let_def by (intro post_both out err hints key_write [OF len] none)
qed

section \<open>Hints\<close>

definition encode_hint :: "byte list \<Rightarrow> byte list" where
  "encode_hint h = be_enc 4 (length h) @ h"

definition hint_incomplete :: "byte list \<Rightarrow> bool" where
  "hint_incomplete bs \<longleftrightarrow> length bs < 4 \<or> length bs - 4 < unat (get_u32 bs)"

lemma process_hints_incomplete:
  assumes "hint_incomplete bs" and "length bs < 2 ^ 32"
  shows "process_hints bs = Inr ([], bs)"
proof (cases "length bs < 4")
  case True
  then show ?thesis by (subst process_hints.simps) simp
next
  case False
  then have "length bs - 4 < unat (get_u32 bs)" using assms(1) by (simp add: hint_incomplete_def)
  moreover have "unat (of_nat (length (drop 4 bs)) :: u32) = length bs - 4"
    using assms(2) by (simp add: unat_of_nat del: of_nat_diff)
  ultimately have "(get_u32 bs \<le> of_nat (length (drop 4 bs))) = False"
    by (simp only: word_le_nat_alt) simp
  then show ?thesis by (subst process_hints.simps) (simp only: Let_def if_False if_cancel)
qed

lemma process_hints_cons:
  assumes "length (encode_hint h @ tail) < 2 ^ 32"
  shows "process_hints (encode_hint h @ tail) = bind_res (process_hints tail) (\<lambda>(hs, rest). Inr (h # hs, rest))"
proof -
  have lh: "4 + length h < 2 ^ 32" using assms by (simp add: encode_hint_def)
  have g: "get_u32 (encode_hint h @ tail) = of_nat (length h)"
    using lh be_dec_enc [of 4 "length h"] by (simp add: encode_hint_def get_u32_def)
  have u: "unat (4 + of_nat (length h) :: u32) = 4 + length h"
    using lh by (simp add: unat_word_ariths unat_of_nat)
  have le: "(of_nat (length h) :: u32) \<le> of_nat (length (drop 4 (encode_hint h @ tail)))"
  proof -
    have ln: "length (drop 4 (encode_hint h @ tail)) = length h + length tail" by (simp add: encode_hint_def)
    have "length h + length tail < 2 ^ 32" using assms by (simp add: encode_hint_def)
    then show ?thesis unfolding ln word_le_nat_alt by (simp add: unat_of_nat del: of_nat_add)
  qed
  have len: "4 \<le> length (encode_hint h @ tail)" by (simp add: encode_hint_def)
  have d4: "drop 4 (encode_hint h @ tail) = h @ tail"
    and d: "drop (4 + length h) (encode_hint h @ tail) = tail" by (simp_all add: encode_hint_def)
  have c: "(4 + length h < 4) = False" "4 + length h - 4 = length h" by simp_all
  show ?thesis
    by (subst process_hints.simps) (simp only: Let_def g u le len if_True if_False c d, simp only: d4, simp)
qed

section \<open>The bytes moved by reads and key writes\<close>

lemma unat_alignment: "unat (a1 AND ExtMask) = unat (a1 :: Word) mod 8"
  using unat_and_mask [of a1 3] by (simp add: mask_eq_exp_minus_1)

lemma unat_pick: "unat (if x < y then x else y :: Word) = min (unat x) (unat y)"
  by (simp add: word_less_nat_alt min_def)

lemma unat_space: "unat (WordSizeBytes - (a1 AND ExtMask)) = 8 - unat (a1 :: Word) mod 8"
proof -
  have "a1 AND ExtMask \<le> WordSizeBytes" using unat_alignment [of a1] by (simp add: word_le_nat_alt)
  from unat_sub [OF this] show ?thesis by (simp only: unat_alignment) simp
qed

lemma unat_and_AddressMask: "unat (a1 AND AddressMask) = unat (a1 :: Word) - unat a1 mod 8"
proof -
  have "a1 = (a1 AND AddressMask) + (a1 AND ExtMask)"
  proof -
    have "(a1 AND AddressMask) + (a1 AND ExtMask) = (a1 AND AddressMask) OR (a1 AND ExtMask)"
    proof (rule disjunctive_add)
      fix n
      have "(AddressMask AND ExtMask) = 0" by simp
      then have "\<not> (bit AddressMask n \<and> bit ExtMask n)" by (metis bit_0_eq bit_and_iff bot_apply bot_bool_def)
      then show "\<not> bit (a1 AND AddressMask) n \<or> \<not> bit (a1 AND ExtMask) n" by (simp only: bit_and_iff) blast
    qed
    also have "\<dots> = a1 AND (AddressMask OR ExtMask)" by (rule and.left_commute bit.conj_disj_distrib [symmetric])
    also have "AddressMask OR ExtMask = NOT 0" by (rule word_unat_eq_iff [THEN iffD2]) (simp only: unat_NOT_0, simp)
    also have "a1 AND NOT 0 = a1" by simp
    finally show ?thesis by simp
  qed
  moreover have "(a1 AND AddressMask) \<le> a1"
    by (metis AddressMask_def word_and_le2)
  ultimately have "unat a1 = unat (a1 AND AddressMask) + unat (a1 AND ExtMask)"
    by (metis add_diff_cancel_left' le_add_diff_inverse unat_sub word_le_nat_alt)
  then show ?thesis by (simp only: unat_alignment)
qed


text \<open>A word rewritten through its bytes: \<open>PutWord\<close>, \<open>copy\<close>, \<open>Word\<close>, \<open>SetWord\<close>.\<close>

lemma word_bytes: "bo_PutWord (word_at m a) = map (mem_byte m) [unat a..<unat a + 8]"
  unfolding word_at_def by (rule bo_PutWord_Word) simp

lemma word_at_byte:
  assumes "word_at m' = word_at m" and "a < 2 ^ 64"
  shows "mem_byte m' a = mem_byte m a"
proof -
  have u: "unat (of_nat a :: Word) = a" using assms(2) by (simp add: unat_of_nat)
  have "map (mem_byte m') [a..<a + 8] = map (mem_byte m) [a..<a + 8]"
    using word_bytes [of m' "of_nat a"] word_bytes [of m "of_nat a"] assms(1) by (simp only: u)
  then show ?thesis by (simp add: upt_conv_Cons)
qed

lemma patch_word_bytes:
  assumes "mem_wf m" and "w = word_at m (a1 AND AddressMask)" and "length bs \<le> 8 - unat a1 mod 8"
    and "SetWord m (a1 AND AddressMask) (bo_Word (copy_at (unat a1 mod 8) bs (bo_PutWord w))) = Inr m'"
    and "a < 2 ^ 64"
  shows "mem_byte m' a =
    (if unat a1 \<le> a \<and> a < unat a1 + length bs then bs ! (a - unat a1) else mem_byte m a)"
proof -
  let ?e = "unat (a1 AND AddressMask)" and ?k = "unat a1 mod 8"
  have al: "aligned (a1 AND AddressMask)" by (rule aligned_AddressMask)
  have e: "unat a1 = ?e + ?k" using unat_and_AddressMask [of a1] by simp
  have k: "?k < 8" by simp
  let ?w' = "copy_at ?k bs (bo_PutWord w)"
  have lw: "length ?w' = 8" using k by simp
  have put: "bo_PutWord (bo_Word ?w') = ?w'" by (rule bo_PutWord_Word [OF lw])
  note b = mem_byte_SetWord [OF assms(1) al assms(4,5), unfolded put]
  show ?thesis
  proof (cases "?e \<le> a \<and> a < ?e + 8")
    case True
    have "mem_byte m' a = ?w' ! (a - ?e)" using b True by simp
    also have "\<dots> = (if ?k \<le> a - ?e \<and> a - ?e < ?k + length bs then bs ! (a - ?e - ?k)
        else bo_PutWord w ! (a - ?e))"
      using k True by (intro nth_copy_at) auto
    also have "bo_PutWord w ! (a - ?e) = mem_byte m a"
      unfolding assms(2) word_bytes using True by (subst nth_map_upt) (auto simp only: le_add_diff_inverse)
    finally show ?thesis using True e by auto
  next
    case False
    then show ?thesis using b e assms(3) k by auto
  qed
qed

section \<open>Properties\<close>

text \<open>\<open>mmap\<close> of fresh memory.  With a null hint the call reserves the requested size rounded up to
  whole pages, starting at the old heap pointer, exactly when the new heap pointer stays within the
  heap limit; otherwise it reports \<open>EINVAL\<close> and leaves the heap as it was.  The size rounding and the
  addition are computed on wrapping 64-bit words, and the statement is in exact arithmetic.\<close>
theorem HandleSysMmap_exact:
  "HandleSysMmap 0 a1 heap =
    (if unat heap + 4096 * ((unat a1 + 4095) div 4096) \<le> unat HeapEnd
     then (heap, 0, of_nat (unat heap + 4096 * ((unat a1 + 4095) div 4096)))
     else (SysErrorSignal, MipsEINVAL, heap))"
proof -
  define a where "a = unat a1"
  define h where "h = unat heap"
  define r where "r = a mod 4096"
  define R where "R = 4096 * ((a + 4095) div 4096)"
  have a: "a < 2 ^ 64" and h: "h < 2 ^ 64" using unat_u64_less by (simp_all add: a_def h_def)
  have ur: "unat (a1 AND PageAddrMask) = r" by (simp only: unat_page_offset r_def a_def)
  have r0: "a1 AND PageAddrMask \<noteq> 0 \<longleftrightarrow> r \<noteq> 0" by (simp only: ur [symmetric] unat_eq_zero)
  have r4: "r < 4096" by (simp add: r_def)
  have R: "R = (if r \<noteq> 0 then a + (4096 - r) else a)"
  proof -
    obtain q where q: "a = 4096 * q + r" using div_mult_mod_eq [of a 4096] by (metis mult.commute r_def)
    have "(4096 * q + r + 4095) div 4096 = (if r \<noteq> 0 then q + 1 else q)" using r4 by auto
    then show ?thesis using q r4 by (auto simp: R_def)
  qed
  define sz where "sz = (if a1 AND PageAddrMask \<noteq> 0 then a1 + (of_nat PageSize - (a1 AND PageAddrMask)) else a1)"
  have up: "unat (of_nat PageSize - (a1 AND PageAddrMask)) = 4096 - r"
  proof -
    have "(a1 AND PageAddrMask) \<le> of_nat PageSize" using r4 ur by (simp add: word_le_nat_alt)
    from unat_sub [OF this] show ?thesis using ur by simp
  qed
  have sz: "unat sz = R mod 2 ^ 64"
  proof (cases "r = 0")
    case True
    then show ?thesis using a R r0 by (simp add: sz_def a_def)
  next
    case False
    then have "sz = a1 + (of_nat PageSize - (a1 AND PageAddrMask))" using r0 by (simp add: sz_def)
    then have "unat sz = (a + (4096 - r)) mod 2 ^ 64"
      using up by (simp only: unat_word_ariths a_def) simp
    then show ?thesis using R False by simp
  qed
  have Rle: "R \<le> 2 ^ 64"
  proof -
    have "(a + 4095) div 4096 \<le> 4503599627370496" using a by simp
    then show ?thesis by (simp add: R_def)
  qed
  have HE: "unat HeapEnd = 105553116266496" by simp
  have unf: "HandleSysMmap 0 a1 heap =
      (if heap + sz > HeapEnd \<or> heap + sz < heap \<or> sz < a1 then (SysErrorSignal, MipsEINVAL, heap)
       else (heap, 0, heap + sz))"
    unfolding HandleSysMmap_def Let_def sz_def [symmetric] by (rule if_P) (rule refl)
  have cond: "(heap + sz > HeapEnd \<or> heap + sz < heap \<or> sz < a1) \<longleftrightarrow> \<not> h + R \<le> unat HeapEnd"
  proof (cases "h + R < 2 ^ 64")
    case True
    then have "unat sz = R" using sz by simp
    moreover have "unat (heap + sz) = h + R" using True sz by (simp add: unat_word_ariths h_def)
    moreover have "a \<le> R" using R by simp
    ultimately show ?thesis
      unfolding word_less_nat_alt HE using True by (simp add: a_def h_def not_le)
  next
    case False
    have "heap + sz < heap \<or> sz < a1"
    proof (cases "R = 2 ^ 64")
      case True
      then have "unat sz = 0" "0 < a" using sz R a by (auto split: if_splits)
      then show ?thesis unfolding word_less_nat_alt by (simp add: a_def)
    next
      case R64: False
      then have sR: "unat sz = R" using sz Rle by simp
      have "(h + R) mod 2 ^ 64 = (h + R - 2 ^ 64) mod 2 ^ 64" using False by (intro le_mod_geq) simp
      also have "\<dots> = h + R - 2 ^ 64" using h Rle R64 by (intro mod_less) linarith
      finally have "unat (heap + sz) = h + R - 2 ^ 64" by (simp add: unat_word_ariths sR h_def)
      then have "unat (heap + sz) < h" using False R64 Rle h by linarith
      then show ?thesis unfolding word_less_nat_alt by (simp add: h_def)
    qed
    moreover have "\<not> h + R \<le> unat HeapEnd" using False HE by simp
    ultimately show ?thesis by blast
  qed
  have val: "heap + sz = of_nat (h + R)" if "h + R \<le> unat HeapEnd"
  proof -
    have "h + R < 2 ^ 64" using that HE by simp
    then show ?thesis using sz by (simp add: word_unat_eq_iff unat_of_nat unat_word_ariths h_def)
  qed
  show ?thesis
    unfolding unf cond a_def [symmetric] h_def [symmetric] R_def [symmetric] using val by simp
qed

text \<open>hints arrive whole and in order.  A buffer that holds length-prefixed hints followed by an
  incomplete one is split into exactly those hints, and the incomplete rest stays buffered.\<close>
theorem process_hints_complete:
  assumes "length (concat (map encode_hint hs) @ rest) < 2 ^ 32" and "hint_incomplete rest"
  shows "process_hints (concat (map encode_hint hs) @ rest) = Inr (hs, rest)"
  using assms(1)
proof (induction hs)
  case Nil
  then show ?case using process_hints_incomplete [OF assms(2)] by simp
next
  case (Cons h hs)
  have "length (concat (map encode_hint hs) @ rest) < 2 ^ 32" using Cons.prems by simp
  then have "process_hints (concat (map encode_hint hs) @ rest) = Inr (hs, rest)" by (rule Cons.IH)
  moreover have "length (encode_hint h @ (concat (map encode_hint hs) @ rest)) < 2 ^ 32" using Cons.prems by simp
  ultimately show ?case using process_hints_cons [of h "concat (map encode_hint hs) @ rest"] by simp
qed

theorem process_hints_complete_witness:
  "process_hints (concat (map encode_hint [[1, 2], []]) @ [0, 0]) = Inr ([[1, 2], []], [0, 0])"
  by (rule process_hints_complete) (simp_all add: encode_hint_def hint_incomplete_def)


text \<open>C39: reading a pre-image.  The read system call on the pre-image descriptor copies into memory, at
  the (possibly unaligned) address \<open>a1\<close>, as many bytes of the length-prefixed pre-image from the
  current offset as fit: the pre-image's remaining bytes (at most 32), the rest of the addressed word,
  and the requested count.  It reports that number, advances the offset by it, and changes no other
  byte of memory.\<close>
theorem HandleSysRead_preimage:
  assumes "tree_ok keccak (env_mem e)" and "tracker_fresh (env_trk e)" and "oracle_ok po (env_oracle e)"
    and "key \<noteq> replicate 32 0" and "length (prefixed po key) < 2 ^ 64"
    and "unat offset < length (prefixed po key)"
    and "n = min (unat a2) (min (8 - unat a1 mod 8) (min 32 (length (prefixed po key) - unat offset)))"
  shows "\<exists>e'. HandleSysRead keccak po FdPreimageRead a1 a2 key offset e =
      Inr ((of_nat n, 0, offset + of_nat n, Some (a1 AND AddressMask)), e') \<and>
    (\<forall>a < 2 ^ 64. mem_byte (env_mem e') a =
      (if unat a1 \<le> a \<and> a < unat a1 + n then prefixed po key ! (unat offset + (a - unat a1))
       else mem_byte (env_mem e) a))"
proof -
  let ?a = "a1 AND AddressMask"
  have al: "aligned ?a" by (rule aligned_AddressMask)
  from env_GetWord_post [OF assms(1,2) al] obtain e1 where
    e1: "env_GetWord keccak ?a e = Inr (word_at (env_mem e) ?a, e1)" "tree_ok keccak (env_mem e1)"
      "word_at (env_mem e1) = word_at (env_mem e)" "env_oracle e1 = env_oracle e"
    by (auto simp: post_no_panic simp del: AddressMask_def)
  let ?dat = "take 32 (drop (unat offset) (prefixed po key))"
  from ReadPreimage_succeeds [OF assms(3-6)] obtain o1 where
    o1: "ReadPreimage po (env_oracle e1) key offset = Inr (?dat, o1)" unfolding e1(4) by blast
  have n3: "n \<le> 8 - unat a1 mod 8" unfolding assms(7) by (rule min.coboundedI2 [OF min.cobounded1])
  have ld: "length ?dat = min 32 (length (prefixed po key) - unat offset)" by (simp add: min.commute)
  have n2: "n \<le> length ?dat"
    unfolding assms(7) ld by (rule min.coboundedI2 [OF min.cobounded2])
  have n: "n \<le> 8" "n \<le> length ?dat" "n \<le> 8 - unat a1 mod 8"
    using n2 n3 by (simp_all only: le_trans [OF n3 diff_le_self])
  have n_word: "(if a2 < (if WordSizeBytes - (a1 AND ExtMask) < of_nat (length ?dat)
        then WordSizeBytes - (a1 AND ExtMask) else of_nat (length ?dat))
      then a2 else (if WordSizeBytes - (a1 AND ExtMask) < of_nat (length ?dat)
        then WordSizeBytes - (a1 AND ExtMask) else of_nat (length ?dat))) = of_nat n"
  proof -
    have u: "unat (of_nat (length ?dat) :: Word) = length ?dat" by (simp add: unat_of_nat)
    have e: "unat (of_nat n :: Word) = n" using n(1) by (simp add: unat_of_nat)
    show ?thesis unfolding word_unat_eq_iff unat_pick unat_space u e unfolding ld by (rule assms(7) [symmetric])
  qed
  have un: "unat (of_nat n :: Word) = n" using n(1) by (simp add: unat_of_nat)
  let ?w = "word_at (env_mem e) ?a"
  let ?v = "bo_Word (copy_at (unat a1 mod 8) (take n ?dat) (bo_PutWord ?w))"
  from SetWord_post [OF e1(2) al, of ?v] obtain m where
    m: "SetWord (env_mem e1) ?a ?v = Inr m" by (auto simp: post_no_panic simp del: AddressMask_def)
  have "HandleSysRead keccak po FdPreimageRead a1 a2 key offset e =
      Inr ((of_nat n, 0, offset + of_nat n, Some ?a), e1\<lparr>env_oracle := o1, env_mem := m\<rparr>)"
    unfolding HandleSysRead_def Let_def
    by (simp only: e1(1) o1 bind_res_Inr split_conv n_word un unat_alignment m)
      (simp only: FdPreimageRead_def FdStdin_def, simp)
  moreover have "mem_byte m a = (if unat a1 \<le> a \<and> a < unat a1 + n
      then prefixed po key ! (unat offset + (a - unat a1)) else mem_byte (env_mem e) a)" if "a < 2 ^ 64" for a
  proof -
    have l: "length (take n ?dat) = n" using n(2) by simp
    have "?w = word_at (env_mem e1) ?a" by (simp only: e1(3))
    note b = patch_word_bytes [OF tree_okD(1) [OF e1(2)] this _ m that, unfolded l, OF n(3)]
    then show ?thesis
      using n assms(6) word_at_byte [OF e1(3) that] by (auto simp: nth_take)
  qed
  ultimately show ?thesis by auto
qed


theorem HandleSysRead_preimage_witness:
  "\<exists>e'. HandleSysRead (take 32) (\<lambda>_. [7, 8, 9]) FdPreimageRead 0x1003 20 (replicate 32 2) 0
      \<lparr>env_oracle = NewTrackingPreimageOracleReader, env_mem = NewMemory,
       env_trk = MemTracker_Reset True NewMemoryTracker, env_out = [], env_err = []\<rparr> =
      Inr ((of_nat 5, 0, 0 + of_nat 5, Some (0x1003 AND AddressMask)), e') \<and>
    (\<forall>a < 2 ^ 64. mem_byte (env_mem e') a =
      (if unat (0x1003 :: Word) \<le> a \<and> a < unat (0x1003 :: Word) + 5
       then prefixed (\<lambda>_. [7, 8, 9]) (replicate 32 2) ! (unat (0 :: Word) + (a - unat (0x1003 :: Word)))
       else mem_byte (env_mem \<lparr>env_oracle = NewTrackingPreimageOracleReader, env_mem = NewMemory,
         env_trk = MemTracker_Reset True NewMemoryTracker, env_out = [], env_err = []\<rparr>) a))"
  by (rule HandleSysRead_preimage)
    (use tree_ok_NewMemory tracker_Reset_fresh oracle_ok_new in
      \<open>simp_all add: prefixed_def\<close>)

text \<open>writing a pre-image key.  The write system call on the pre-image descriptor shifts the 32-byte
  key register left and appends the bytes of memory at the (possibly unaligned) address \<open>a1\<close>, as many
  as requested up to the end of the addressed word; the pre-image offset is reset.\<close>
theorem HandleSysWrite_key:
  assumes "tree_ok keccak (env_mem e)" and "tracker_fresh (env_trk e)" and "length key = 32"
    and "n = min (8 - unat a1 mod 8) (unat a2)"
  shows "\<exists>e'. HandleSysWrite keccak FdPreimageWrite a1 a2 hint key offset e =
    Inr ((of_nat n, 0, hint, drop n (key @ map (mem_byte (env_mem e)) [unat a1..<unat a1 + n]), 0), e')"
proof -
  let ?a = "a1 AND AddressMask"
  have al: "aligned ?a" by (rule aligned_AddressMask)
  from env_GetWord_post [OF assms(1,2) al] obtain e1 where
    e1: "env_GetWord keccak ?a e = Inr (word_at (env_mem e) ?a, e1)"
    by (auto simp: post_no_panic simp del: AddressMask_def)
  have n: "n \<le> 8" "n \<le> 8 - unat a1 mod 8" unfolding assms(4) by simp_all
  have un: "unat (of_nat n :: Word) = n" using n(1) by (simp add: unat_of_nat)
  have n_word: "(if WordSizeBytes - (a1 AND ExtMask) < a2 then WordSizeBytes - (a1 AND ExtMask) else a2) = of_nat n"
    unfolding word_unat_eq_iff unat_pick unat_space un by (rule assms(4) [symmetric])
  let ?e = "unat ?a" and ?k = "unat a1 mod 8"
  have e: "unat a1 = ?e + ?k" using unat_and_AddressMask [of a1] by simp
  let ?bs = "map (mem_byte (env_mem e)) [unat a1..<?e + 8]"
  have bytes: "drop ?k (bo_PutWord (word_at (env_mem e) ?a)) = ?bs"
    unfolding word_bytes drop_map drop_upt by (simp only: e [symmetric])
  have key1: "copy_at 0 (drop n key) key = drop n key @ drop (32 - n) key"
    using assms(3) n(1) by (simp add: copy_at_def)
  have "take n ?bs = map (mem_byte (env_mem e)) [unat a1..<unat a1 + n]"
  proof -
    have "unat a1 + n \<le> ?e + 8" using n(2) e by linarith
    then show ?thesis by (simp only: take_map take_upt)
  qed
  moreover have "copy_at (32 - n) ?bs (drop n key @ drop (32 - n) key) = drop n key @ take n ?bs"
  proof -
    have "length ?bs = 8 - ?k" unfolding length_map length_upt using e by linarith
    then show ?thesis using assms(3) n unfolding copy_at_def by simp
  qed
  ultimately have key2: "copy_at (32 - n) ?bs (copy_at 0 (drop n key) key) =
      drop n (key @ map (mem_byte (env_mem e)) [unat a1..<unat a1 + n])"
    using assms(3) n(1) by (simp only: key1) simp
  show ?thesis
    unfolding HandleSysWrite_def Let_def
    by (simp only: e1 bind_res_Inr split_conv n_word un unat_alignment bytes key2)
      (simp only: FdStdout_def FdStderr_def FdHintWrite_def FdPreimageWrite_def, simp)
qed

theorem HandleSysWrite_key_witness:
  "\<exists>e'. HandleSysWrite (take 32) FdPreimageWrite 0x2005 8 [] (replicate 32 1) 77
      \<lparr>env_oracle = NewTrackingPreimageOracleReader, env_mem = NewMemory,
       env_trk = MemTracker_Reset True NewMemoryTracker, env_out = [], env_err = []\<rparr> =
    Inr ((of_nat 3, 0, [], drop 3 (replicate 32 1 @
      map (mem_byte (env_mem \<lparr>env_oracle = NewTrackingPreimageOracleReader, env_mem = NewMemory,
       env_trk = MemTracker_Reset True NewMemoryTracker, env_out = [], env_err = []\<rparr>))
        [unat (0x2005 :: Word)..<unat (0x2005 :: Word) + 3]), 0), e')"
  by (rule HandleSysWrite_key) (use tree_ok_NewMemory tracker_Reset_fresh in simp_all)

end
