(* ===== verification/VMState.thy ===== *)
theory VMState
  imports Syscalls
begin

unbundle bit_operations_syntax

text \<open>
  \<open>cannon/mipsevm/multithreaded/thread.go\<close>, \<open>state.go\<close> and the thread-stack operations of \<open>mips.go\<close>.
  A thread stack is a list with its top (the thread that runs) last, as the Go slice has it.  Every
  \<open>*ThreadState\<close> is in exactly one place of one stack, so threads are values.  \<open>InstrumentedState\<close>
  records the calls to its stack tracker and stats tracker as two event logs, which
  \<open>Trackers\<close> folds into the trackers' state.
\<close>

record ThreadState =
  ThreadId :: Word
  ThExitCode :: byte
  ThExited :: bool
  Cpu :: CpuScalars
  Registers :: regfile

definition CreateEmptyThread :: ThreadState where
  "CreateEmptyThread =
     \<lparr>ThreadId = 0, ThExitCode = 0, ThExited = False, Cpu = \<lparr>PC = 0, NextPC = 4, LO = 0, HI = 0\<rparr>,
      Registers = replicate 32 0\<rparr>"

definition LLStatusNone :: byte where [simp]: "LLStatusNone = 0"
definition LLStatusActive32bit :: byte where [simp]: "LLStatusActive32bit = 1"
definition LLStatusActive64bit :: byte where [simp]: "LLStatusActive64bit = 2"

record State =
  StMemory :: Memory
  PreimageKey :: "byte list"
  PreimageOffset :: Word
  Heap :: Word
  LLReservationStatus :: byte
  LLAddress :: Word
  LLOwnerThread :: Word
  ExitCode :: byte
  Exited :: bool
  Step :: Word
  StepsSinceLastContextSwitch :: Word
  TraverseRight :: bool
  LeftThreadStack :: "ThreadState list"
  RightThreadStack :: "ThreadState list"
  NextThreadId :: Word
  LastHint :: "byte list"

definition CreateEmptyState :: State where
  "CreateEmptyState =
     \<lparr>StMemory = NewMemory, PreimageKey = replicate 32 0, PreimageOffset = 0, Heap = 0,
      LLReservationStatus = LLStatusNone, LLAddress = 0, LLOwnerThread = 0, ExitCode = 0, Exited = False,
      Step = 0, StepsSinceLastContextSwitch = 0, TraverseRight = False,
      LeftThreadStack = [CreateEmptyThread], RightThreadStack = [],
      NextThreadId = ThreadId CreateEmptyThread + 1, LastHint = []\<rparr>"

definition getActiveThreadStack :: "State \<Rightarrow> ThreadState list" where
  "getActiveThreadStack s = (if TraverseRight s then RightThreadStack s else LeftThreadStack s)"

definition GetCurrentThread :: "State \<Rightarrow> ThreadState res" where
  "GetCurrentThread s =
     (let activeStack = getActiveThreadStack s
      in if length activeStack = 0 then Inl EmptyActiveThreadStack
         else Inr (activeStack ! (length activeStack - 1)))"

text \<open>Assignment through the pointer \<open>GetCurrentThread\<close> returned.\<close>

definition putCurrentThread :: "State \<Rightarrow> ThreadState \<Rightarrow> State" where
  "putCurrentThread s t =
     (if TraverseRight s then s\<lparr>RightThreadStack := butlast (RightThreadStack s) @ [t]\<rparr>
      else s\<lparr>LeftThreadStack := butlast (LeftThreadStack s) @ [t]\<rparr>)"

definition CreateInitialState :: "Word \<Rightarrow> Word \<Rightarrow> State res" where
  "CreateInitialState pc heapStart =
     (let s = CreateEmptyState
      in bind_res (GetCurrentThread s) (\<lambda>t.
           Inr ((putCurrentThread s (t\<lparr>Cpu := (Cpu t)\<lparr>PC := pc, NextPC := pc + 4\<rparr>\<rparr>))\<lparr>Heap := heapStart\<rparr>)))"

definition GetPC :: "State \<Rightarrow> Word res" where
  "GetPC s = bind_res (GetCurrentThread s) (\<lambda>t. Inr (PC (Cpu t)))"

definition GetCpu :: "State \<Rightarrow> CpuScalars res" where
  "GetCpu s = bind_res (GetCurrentThread s) (\<lambda>t. Inr (Cpu t))"

definition VMStatus :: "State \<Rightarrow> byte" where
  "VMStatus s = VmStatus (Exited s) (ExitCode s)"

definition ThreadCount :: "State \<Rightarrow> nat" where
  "ThreadCount s = length (LeftThreadStack s) + length (RightThreadStack s)"

section \<open>The instrumented state\<close>

datatype thread_stack_event = TPush Word Word Word | TPop Word Word | TDrop Word

datatype stats_event =
    TrackLL Word Word
  | TrackSCSuccess Word Word
  | TrackSCFailure Word Word
  | TrackReservationInvalidation
  | TrackForcedPreemption
  | TrackThreadActivated Word Word

record InstrumentedState =
  state :: State
  stdOut :: "byte list"
  stdErr :: "byte list"
  memoryTracker :: MemTracker
  preimageOracle :: OracleReader
  stackLog :: "thread_stack_event list"
  statsLog :: "stats_event list"

definition NewInstrumentedState :: "State \<Rightarrow> InstrumentedState" where
  "NewInstrumentedState s =
     \<lparr>state = s, stdOut = [], stdErr = [], memoryTracker = NewMemoryTracker,
      preimageOracle = NewTrackingPreimageOracleReader, stackLog = [], statsLog = []\<rparr>"

definition log_stats :: "stats_event list \<Rightarrow> InstrumentedState \<Rightarrow> InstrumentedState" where
  "log_stats es m = m\<lparr>statsLog := statsLog m @ es\<rparr>"

definition log_stack :: "thread_stack_event list \<Rightarrow> InstrumentedState \<Rightarrow> InstrumentedState" where
  "log_stack es m = m\<lparr>stackLog := stackLog m @ es\<rparr>"

definition set_state :: "State \<Rightarrow> InstrumentedState \<Rightarrow> InstrumentedState" where
  "set_state s m = m\<lparr>state := s\<rparr>"

section \<open>Scheduling\<close>

definition preemptThread :: "ThreadState \<Rightarrow> InstrumentedState \<Rightarrow> (bool \<times> InstrumentedState) res" where
  "preemptThread thread m =
     (let s = state m in
      bind_res
        (if TraverseRight s then
           if length (RightThreadStack s) = 0 then Inl EmptyRightThreadStack
           else Inr (s\<lparr>RightThreadStack := butlast (RightThreadStack s),
                       LeftThreadStack := LeftThreadStack s @ [thread]\<rparr>)
         else
           if length (LeftThreadStack s) = 0 then Inl EmptyLeftThreadStack
           else Inr (s\<lparr>LeftThreadStack := butlast (LeftThreadStack s),
                       RightThreadStack := RightThreadStack s @ [thread]\<rparr>))
        (\<lambda>s1.
           let changeDirections = (length (getActiveThreadStack s1) = 0);
               s2 = (if changeDirections then s1\<lparr>TraverseRight := \<not> TraverseRight s1\<rparr> else s1);
               s3 = s2\<lparr>StepsSinceLastContextSwitch := 0\<rparr>
           in bind_res (GetCurrentThread s3) (\<lambda>t.
                Inr (changeDirections,
                     log_stats [TrackThreadActivated (ThreadId t) (Step s3)] (set_state s3 m)))))"

definition pushThread :: "ThreadState \<Rightarrow> State \<Rightarrow> State" where
  "pushThread thread s =
     (if TraverseRight s then s\<lparr>RightThreadStack := RightThreadStack s @ [thread]\<rparr>
      else s\<lparr>LeftThreadStack := LeftThreadStack s @ [thread]\<rparr>)\<lparr>StepsSinceLastContextSwitch := 0\<rparr>"

definition popThread :: "State \<Rightarrow> State res" where
  "popThread s =
     bind_res
       (if TraverseRight s then
          if RightThreadStack s = [] then Inl IndexOutOfRange
          else Inr (s\<lparr>RightThreadStack := butlast (RightThreadStack s)\<rparr>)
        else
          if LeftThreadStack s = [] then Inl IndexOutOfRange
          else Inr (s\<lparr>LeftThreadStack := butlast (LeftThreadStack s)\<rparr>))
       (\<lambda>s1. Inr ((if length (getActiveThreadStack s1) = 0 then s1\<lparr>TraverseRight := \<not> TraverseRight s1\<rparr> else s1)
                    \<lparr>StepsSinceLastContextSwitch := 0\<rparr>))"

definition lastThreadRemaining :: "State \<Rightarrow> bool" where
  "lastThreadRemaining s \<longleftrightarrow> ThreadCount s = 1"

end
