(* ===== verification/MTStep.thy ===== *)
theory MTStep
  imports VMState
begin

unbundle bit_operations_syntax

text \<open>
  \<open>cannon/mipsevm/multithreaded/mips.go\<close>: one step of the multi-threaded VM.  Every function of the
  file that can change state is a definition here, in the file's order of use; the \<open>error\<close> they
  return is always nil, so a result is the new state or a panic.
\<close>

section \<open>Memory reservations\<close>

definition clearLLMemoryReservation :: "State \<Rightarrow> State" where
  "clearLLMemoryReservation s = s\<lparr>LLReservationStatus := LLStatusNone, LLAddress := 0, LLOwnerThread := 0\<rparr>"

definition handleMemoryUpdate :: "Word \<Rightarrow> InstrumentedState \<Rightarrow> InstrumentedState" where
  "handleMemoryUpdate effMemAddr m =
     (if effMemAddr = AddressMask AND LLAddress (state m)
      then log_stats [TrackReservationInvalidation] (set_state (clearLLMemoryReservation (state m)) m)
      else m)"

section \<open>Running single-threaded operations on the current thread\<close>

text \<open>\<open>getCpuRef\<close>, \<open>GetRegistersRef\<close>, the memory and the trackers, seen and written back.\<close>

definition core_of :: "InstrumentedState \<Rightarrow> ThreadState \<Rightarrow> Core" where
  "core_of m t =
     \<lparr>cpu = Cpu t, regs = Registers t, mem = StMemory (state m), tracker = memoryTracker m, stackEvents = []\<rparr>"

fun thread_event :: "Word \<Rightarrow> stack_event \<Rightarrow> thread_stack_event" where
  "thread_event tid (PushStack caller target) = TPush tid caller target"
| "thread_event tid (PopStack pc) = TPop tid pc"

definition put_core :: "InstrumentedState \<Rightarrow> ThreadState \<Rightarrow> Core \<Rightarrow> InstrumentedState" where
  "put_core m t c =
     log_stack (map (thread_event (ThreadId t)) (stackEvents c))
       (m\<lparr>state := (putCurrentThread (state m) (t\<lparr>Cpu := cpu c, Registers := regs c\<rparr>))\<lparr>StMemory := mem c\<rparr>,
          memoryTracker := tracker c\<rparr>)"

definition env_of :: "InstrumentedState \<Rightarrow> SysEnv" where
  "env_of m =
     \<lparr>env_oracle = preimageOracle m, env_mem = StMemory (state m), env_trk = memoryTracker m,
      env_out = stdOut m, env_err = stdErr m\<rparr>"

definition put_env :: "InstrumentedState \<Rightarrow> SysEnv \<Rightarrow> InstrumentedState" where
  "put_env m e =
     m\<lparr>state := (state m)\<lparr>StMemory := env_mem e\<rparr>, stdOut := env_out e, stdErr := env_err e,
       memoryTracker := env_trk e, preimageOracle := env_oracle e\<rparr>"

text \<open>\<open>exec.HandleSyscallUpdates(&thread.Cpu, &thread.Registers, v0, v1)\<close>\<close>

definition syscall_updates :: "ThreadState \<Rightarrow> Word \<Rightarrow> Word \<Rightarrow> ThreadState" where
  "syscall_updates t v0 v1 =
     (let (c, r) = HandleSyscallUpdates (Cpu t) (Registers t) v0 v1 in t\<lparr>Cpu := c, Registers := r\<rparr>)"

definition finish_syscall :: "ThreadState \<Rightarrow> Word \<Rightarrow> Word \<Rightarrow> InstrumentedState \<Rightarrow> InstrumentedState" where
  "finish_syscall t v0 v1 m = set_state (putCurrentThread (state m) (syscall_updates t v0 v1)) m"

definition syscallYield :: "ThreadState \<Rightarrow> InstrumentedState \<Rightarrow> InstrumentedState res" where
  "syscallYield t m =
     (let t' = syscall_updates t 0 0
      in bind_res (preemptThread t' (set_state (putCurrentThread (state m) t') m)) (\<lambda>(_, m'). Inr m'))"

section \<open>System calls\<close>

definition sys_clone :: "ThreadState \<Rightarrow> Word \<Rightarrow> Word \<Rightarrow> InstrumentedState \<Rightarrow> InstrumentedState" where
  "sys_clone t a0 a1 m =
     (let s = state m in
      if ValidCloneFlags \<noteq> a0 then set_state (s\<lparr>Exited := True, ExitCode := VMStatusPanic\<rparr>) m
      else
        let tid = NextThreadId s;
            newThread =
              \<lparr>ThreadId = tid, ThExitCode = 0, ThExited = False,
               Cpu = \<lparr>PC = NextPC (Cpu t), NextPC = NextPC (Cpu t) + 4, LO = LO (Cpu t), HI = HI (Cpu t)\<rparr>,
               Registers = (Registers t)[RegSP := a1, RegSyscallRet1 := 0, RegSyscallErrno := 0]\<rparr>;
            stackCaller = PC (Cpu t);
            stackTarget = NextPC (Cpu t);
            s1 = putCurrentThread (s\<lparr>NextThreadId := tid + 1\<rparr>) (syscall_updates t tid 0)
        in log_stack [TPush tid stackCaller stackTarget] (set_state (pushThread newThread s1) m))"

definition sys_exit :: "ThreadState \<Rightarrow> Word \<Rightarrow> InstrumentedState \<Rightarrow> InstrumentedState" where
  "sys_exit t a0 m =
     (let s1 = putCurrentThread (state m) (t\<lparr>ThExited := True, ThExitCode := ucast a0\<rparr>)
      in set_state (if lastThreadRemaining s1 then s1\<lparr>Exited := True, ExitCode := ucast a0\<rparr> else s1) m)"

definition sys_read ::
    "keccak_fn \<Rightarrow> oracle_fn \<Rightarrow> ThreadState \<Rightarrow> Word \<Rightarrow> Word \<Rightarrow> Word \<Rightarrow> InstrumentedState \<Rightarrow> InstrumentedState res" where
  "sys_read keccak po t a0 a1 a2 m =
     bind_res (HandleSysRead keccak po a0 a1 a2 (PreimageKey (state m)) (PreimageOffset (state m)) (env_of m))
       (\<lambda>((v0, v1, off, upd), e).
          let m1 = put_env m e;
              m2 = set_state ((state m1)\<lparr>PreimageOffset := off\<rparr>) m1;
              m3 = (case upd of None \<Rightarrow> m2 | Some a \<Rightarrow> handleMemoryUpdate a m2)
          in Inr (finish_syscall t v0 v1 m3))"

definition sys_write ::
    "keccak_fn \<Rightarrow> ThreadState \<Rightarrow> Word \<Rightarrow> Word \<Rightarrow> Word \<Rightarrow> InstrumentedState \<Rightarrow> InstrumentedState res" where
  "sys_write keccak t a0 a1 a2 m =
     bind_res (HandleSysWrite keccak a0 a1 a2 (LastHint (state m)) (PreimageKey (state m))
         (PreimageOffset (state m)) (env_of m))
       (\<lambda>((v0, v1, hint, key, off), e).
          let m1 = put_env m e
          in Inr (finish_syscall t v0 v1
                (set_state ((state m1)\<lparr>LastHint := hint, PreimageKey := key, PreimageOffset := off\<rparr>) m1)))"

definition getFutexValue :: "keccak_fn \<Rightarrow> Word \<Rightarrow> ThreadState \<Rightarrow> InstrumentedState \<Rightarrow> (u32 \<times> InstrumentedState) res" where
  "getFutexValue keccak vAddr t m =
     bind_res (LoadSubWord keccak vAddr 4 False (core_of m t)) (\<lambda>(w, c). Inr (ucast w, put_core m t c))"

definition sys_futex ::
    "keccak_fn \<Rightarrow> ThreadState \<Rightarrow> Word \<Rightarrow> Word \<Rightarrow> Word \<Rightarrow> InstrumentedState \<Rightarrow> InstrumentedState res" where
  "sys_futex keccak t a0 a1 a2 m =
     (let effFutexAddr = a0 AND NOT 0x3 in
      if a1 = FutexWaitPrivate then
        bind_res (getFutexValue keccak effFutexAddr t m) (\<lambda>(futexVal, m1).
          if futexVal \<noteq> ucast a2 then Inr (finish_syscall t SysErrorSignal MipsEAGAIN m1)
          else syscallYield t m1)
      else if a1 = FutexWakePrivate then syscallYield t m
      else Inr (finish_syscall t SysErrorSignal MipsEINVAL m))"

text \<open>A word written by \<open>clock_gettime\<close>: memory and reservation.\<close>

definition clock_write :: "Word \<Rightarrow> Word \<Rightarrow> MemTracker \<times> Memory \<Rightarrow> InstrumentedState \<Rightarrow> InstrumentedState res" where
  "clock_write addr v tm m =
     bind_res (SetWord (snd tm) addr v) (\<lambda>mem'.
       Inr (handleMemoryUpdate addr
         (m\<lparr>state := (state m)\<lparr>StMemory := mem'\<rparr>, memoryTracker := fst tm\<rparr>)))"

definition sys_clock_gettime ::
    "keccak_fn \<Rightarrow> ThreadState \<Rightarrow> Word \<Rightarrow> Word \<Rightarrow> InstrumentedState \<Rightarrow> InstrumentedState res" where
  "sys_clock_gettime keccak t a0 a1 m =
     (if a0 = ClockGettimeRealtimeFlag \<or> a0 = ClockGettimeMonotonicFlag then
        let secs = (if a0 = ClockGettimeMonotonicFlag then Step (state m) div HZ else 0);
            nsecs = (if a0 = ClockGettimeMonotonicFlag then (Step (state m) mod HZ) * (1000000000 div HZ) else 0);
            effAddr = a1 AND AddressMask
        in bind_res (TrackMemAccess keccak (memoryTracker m) (StMemory (state m)) effAddr) (\<lambda>tm.
           bind_res (clock_write effAddr secs tm m) (\<lambda>m1.
           bind_res (TrackMemAccess2 keccak (memoryTracker m1) (StMemory (state m1)) (effAddr + WordSizeBytes)) (\<lambda>tm2.
           bind_res (clock_write (effAddr + WordSizeBytes) nsecs tm2 m1) (\<lambda>m2.
             Inr (finish_syscall t 0 0 m2)))))
      else Inr (finish_syscall t SysErrorSignal MipsEINVAL m))"

text \<open>The cases of the switch with an empty body.\<close>

definition NoopSyscalls :: "Word list" where
  "NoopSyscalls =
     [SysMunmap, SysGetAffinity, SysMadvise, SysRtSigprocmask, SysSigaltstack, SysRtSigaction, SysPrlimit64,
      SysClose, SysPread64, SysStat, SysFstat, SysOpenAt, SysReadlink, SysReadlinkAt, SysIoctl,
      SysEpollCreate1, SysPipe2, SysEpollCtl, SysEpollPwait, SysGetRandom, SysUname, SysGetuid, SysGetgid,
      SysMinCore, SysTgkill, SysSetITimer, SysTimerCreate, SysTimerSetTime, SysTimerDelete, SysGetRLimit,
      SysLseek]"

definition handleSyscall :: "keccak_fn \<Rightarrow> oracle_fn \<Rightarrow> InstrumentedState \<Rightarrow> InstrumentedState res" where
  "handleSyscall keccak po m =
     bind_res (GetCurrentThread (state m)) (\<lambda>t.
       let (syscallNum, a0, a1, a2) = GetSyscallArgs (Registers t);
           s = state m
       in if syscallNum = SysMmap then
            let (v0, v1, newHeap) = HandleSysMmap a0 a1 (Heap s)
            in Inr (finish_syscall t v0 v1 (set_state (s\<lparr>Heap := newHeap\<rparr>) m))
          else if syscallNum = SysBrk then Inr (finish_syscall t ProgramBreak 0 m)
          else if syscallNum = SysClone then Inr (sys_clone t a0 a1 m)
          else if syscallNum = SysExitGroup then
            Inr (set_state (s\<lparr>Exited := True, ExitCode := ucast a0\<rparr>) m)
          else if syscallNum = SysRead then sys_read keccak po t a0 a1 a2 m
          else if syscallNum = SysWrite then sys_write keccak t a0 a1 a2 m
          else if syscallNum = SysFcntl then
            let (v0, v1) = HandleSysFcntl a0 a1 in Inr (finish_syscall t v0 v1 m)
          else if syscallNum = SysGetTID then Inr (finish_syscall t (ThreadId t) 0 m)
          else if syscallNum = SysExit then Inr (sys_exit t a0 m)
          else if syscallNum = SysFutex then sys_futex keccak t a0 a1 a2 m
          else if syscallNum = SysSchedYield \<or> syscallNum = SysNanosleep then syscallYield t m
          else if syscallNum = SysOpen then Inr (finish_syscall t SysErrorSignal MipsEBADF m)
          else if syscallNum = SysClockGetTime then sys_clock_gettime keccak t a0 a1 m
          else if syscallNum = SysGetpid then Inr (finish_syscall t 0 0 m)
          else if syscallNum \<in> set NoopSyscalls then Inr (finish_syscall t 0 0 m)
          else if IsMips32 \<and> (syscallNum = SysFstat64 \<or> syscallNum = SysStat64 \<or> syscallNum = SysLlseek) then
            Inr (finish_syscall t 0 0 m)
          else Inl UnrecognizedSyscall)"

section \<open>Load-linked and store-conditional\<close>

definition handleRMWOps :: "keccak_fn \<Rightarrow> u32 \<Rightarrow> u32 \<Rightarrow> InstrumentedState \<Rightarrow> InstrumentedState res" where
  "handleRMWOps keccak insn opcode m =
     bind_res (GetCurrentThread (state m)) (\<lambda>t.
     bind_res (reg_get (Registers t) (ucast (drop_bit 21 insn AND 0x1F))) (\<lambda>base.
       let rtReg = ucast (drop_bit 16 insn AND 0x1F) :: Word;
           addr = base + SignExtendImmediate insn;
           is64 = (opcode = OpLoadLinked64 \<or> opcode = OpStoreConditional64);
           targetStatus = (if is64 then LLStatusActive64bit else LLStatusActive32bit);
           byteLength = (if is64 then 8 else 4) :: Word;
           threadId = ThreadId t;
           write_back = (\<lambda>retVal c m1.
             bind_res (HandleRd (cpu c) (regs c) rtReg retVal True) (\<lambda>(c', r').
               Inr (put_core m1 t (c\<lparr>cpu := c', regs := r'\<rparr>))))
       in if opcode = OpLoadLinked \<or> opcode = OpLoadLinked64 then
            bind_res (LoadSubWord keccak addr byteLength True (core_of m t)) (\<lambda>(retVal, c).
              write_back retVal c
                (log_stats [TrackLL threadId (Step (state m))]
                  (set_state ((state m)\<lparr>LLReservationStatus := targetStatus, LLAddress := addr,
                     LLOwnerThread := threadId\<rparr>) m)))
          else if opcode = OpStoreConditional \<or> opcode = OpStoreConditional64 then
            if LLReservationStatus (state m) = targetStatus \<and> LLOwnerThread (state m) = threadId \<and>
               LLAddress (state m) = addr then
              bind_res (reg_get (Registers t) rtReg) (\<lambda>val.
              bind_res (StoreSubWord keccak addr byteLength val (core_of m t)) (\<lambda>c.
                write_back 1 c
                  (log_stats [TrackSCSuccess threadId (Step (state m))]
                    (set_state (clearLLMemoryReservation (state m)) m))))
            else write_back 0 (core_of m t) (log_stats [TrackSCFailure threadId (Step (state m))] m)
          else Inl InvalidRMWInstruction))"

section \<open>The step\<close>

definition exec_instruction :: "keccak_fn \<Rightarrow> u32 \<Rightarrow> u32 \<Rightarrow> u32 \<Rightarrow> InstrumentedState \<Rightarrow> InstrumentedState res" where
  "exec_instruction keccak insn opcode fn m =
     bind_res (GetCurrentThread (state m)) (\<lambda>t.
     bind_res (ExecMipsCoreStepLogic keccak insn opcode fn (core_of m t)) (\<lambda>(upd, c).
       let m1 = put_core m t c
       in Inr (case upd of None \<Rightarrow> m1 | Some a \<Rightarrow> handleMemoryUpdate a m1)))"

definition doMipsStep :: "keccak_fn \<Rightarrow> oracle_fn \<Rightarrow> InstrumentedState \<Rightarrow> InstrumentedState res" where
  "doMipsStep keccak po m =
     (if Exited (state m) then Inr m
      else
        let m0 = set_state ((state m)\<lparr>Step := Step (state m) + 1\<rparr>) m in
        bind_res (GetCurrentThread (state m0)) (\<lambda>t.
          if ThExited t then
            bind_res (popThread (state m0)) (\<lambda>s. Inr (log_stack [TDrop (ThreadId t)] (set_state s m0)))
          else if StepsSinceLastContextSwitch (state m0) \<ge> SchedQuantum then
            bind_res (preemptThread t m0) (\<lambda>(_, m1). Inr (log_stats [TrackForcedPreemption] m1))
          else
            let m1 = set_state ((state m0)\<lparr>StepsSinceLastContextSwitch :=
                       StepsSinceLastContextSwitch (state m0) + 1\<rparr>) m0 in
            bind_res (GetPC (state m1)) (\<lambda>pc.
            bind_res (GetInstructionDetails pc (StMemory (state m1))) (\<lambda>((insn, opcode, fn), mem').
              let m2 = set_state ((state m1)\<lparr>StMemory := mem'\<rparr>) m1 in
              if opcode = 0 \<and> fn = 0xC then handleSyscall keccak po m2
              else if opcode = OpLoadLinked \<or> opcode = OpStoreConditional then handleRMWOps keccak insn opcode m2
              else if opcode = OpLoadLinked64 \<or> opcode = OpStoreConditional64 then
                if IsMips32 then Inl InvalidInstruction else handleRMWOps keccak insn opcode m2
              else exec_instruction keccak insn opcode fn m2))))"

definition assertPostStateChecks :: "InstrumentedState \<Rightarrow> unit res" where
  "assertPostStateChecks m =
     (if length (getActiveThreadStack (state m)) = 0 then Inl PostStateThreadStackEmpty else Inr ())"

definition mipsStep :: "keccak_fn \<Rightarrow> oracle_fn \<Rightarrow> InstrumentedState \<Rightarrow> InstrumentedState res" where
  "mipsStep keccak po m =
     bind_res (doMipsStep keccak po m) (\<lambda>m'. bind_res (assertPostStateChecks m') (\<lambda>_. Inr m'))"

end
