(* ===== verification/VM_Invariant.thy ===== *)
theory VM_Invariant
  imports MTStep "HOL-Library.Multiset"
begin

unbundle bit_operations_syntax

text \<open>
  The invariant of the multi-threaded VM, and that a step keeps it: the thread stacks always have a
  thread to run, only the running thread can have exited, every register file has 32 registers with
  register 0 at zero, the memory's Merkle caches are coherent, and the scheduling quantum is not
  exceeded.  Along the way every step is shown to respect memory reservations (\<open>ll_rel\<close>).
\<close>

section \<open>Threads\<close>

definition current :: "State \<Rightarrow> ThreadState" where
  "current s = last (getActiveThreadStack s)"

definition inactive :: "State \<Rightarrow> ThreadState list" where
  "inactive s = (if TraverseRight s then LeftThreadStack s else RightThreadStack s)"

definition rest_threads :: "State \<Rightarrow> ThreadState list" where
  "rest_threads s = butlast (getActiveThreadStack s) @ inactive s"

definition live :: "ThreadState \<Rightarrow> bool" where
  "live t \<longleftrightarrow> reg_inv (Registers t) \<and> \<not> ThExited t"

definition sched_inv :: "State \<Rightarrow> bool" where
  "sched_inv s \<longleftrightarrow> getActiveThreadStack s \<noteq> [] \<and> (\<forall>t \<in> set (rest_threads s). live t) \<and>
     reg_inv (Registers (current s)) \<and> (ThExited (current s) \<longrightarrow> rest_threads s \<noteq> [] \<or> Exited s) \<and>
     StepsSinceLastContextSwitch s \<le> SchedQuantum"

definition running :: "State \<Rightarrow> bool" where
  "running s \<longleftrightarrow> sched_inv s \<and> live (current s)"

definition data_inv :: "keccak_fn \<Rightarrow> oracle_fn \<Rightarrow> InstrumentedState \<Rightarrow> bool" where
  "data_inv keccak po m \<longleftrightarrow> tree_ok keccak (StMemory (state m)) \<and> oracle_ok po (preimageOracle m) \<and>
     length (PreimageKey (state m)) = 32"

definition vm_inv :: "keccak_fn \<Rightarrow> oracle_fn \<Rightarrow> InstrumentedState \<Rightarrow> bool" where
  "vm_inv keccak po m \<longleftrightarrow> data_inv keccak po m \<and> sched_inv (state m)"

lemma reg_inv_initial [simp]: "reg_inv (replicate 32 0)"
  by (simp add: reg_inv_def)

lemma vm_inv_initial [inv_intros]:
  assumes "CreateInitialState pc heapStart = Inr s"
  shows "vm_inv keccak po (NewInstrumentedState s)"
  using assms tree_ok_NewMemory oracle_ok_new
  by (auto simp: CreateInitialState_def CreateEmptyState_def GetCurrentThread_def getActiveThreadStack_def
      putCurrentThread_def CreateEmptyThread_def vm_inv_def data_inv_def NewInstrumentedState_def sched_inv_def
      rest_threads_def current_def inactive_def)

lemma GetCurrentThread_current: "getActiveThreadStack s \<noteq> [] \<Longrightarrow> GetCurrentThread s = Inr (current s)"
  by (simp add: GetCurrentThread_def current_def last_conv_nth Let_def)

text \<open>Updates of other fields do not matter to the threads.\<close>

lemma threads_cong:
  assumes "TraverseRight s' = TraverseRight s" "LeftThreadStack s' = LeftThreadStack s"
    "RightThreadStack s' = RightThreadStack s"
  shows "getActiveThreadStack s' = getActiveThreadStack s" and "rest_threads s' = rest_threads s"
    and "current s' = current s" and "ThreadCount s' = ThreadCount s"
  using assms by (simp_all add: getActiveThreadStack_def rest_threads_def current_def inactive_def ThreadCount_def)

lemma putCurrentThread_threads [simp]:
  "getActiveThreadStack (putCurrentThread s t) = butlast (getActiveThreadStack s) @ [t]"
  "rest_threads (putCurrentThread s t) = rest_threads s"
  "current (putCurrentThread s t) = t"
  by (simp_all add: getActiveThreadStack_def rest_threads_def current_def inactive_def putCurrentThread_def)

lemma ThreadCount_rest:
  "getActiveThreadStack s \<noteq> [] \<Longrightarrow> ThreadCount s = Suc (length (rest_threads s))"
  by (auto simp: ThreadCount_def rest_threads_def inactive_def getActiveThreadStack_def)

lemma putCurrentThread_fields [simp]:
  "StMemory (putCurrentThread s t) = StMemory s"
  "PreimageKey (putCurrentThread s t) = PreimageKey s"
  "PreimageOffset (putCurrentThread s t) = PreimageOffset s"
  "Heap (putCurrentThread s t) = Heap s"
  "LLReservationStatus (putCurrentThread s t) = LLReservationStatus s"
  "LLAddress (putCurrentThread s t) = LLAddress s"
  "LLOwnerThread (putCurrentThread s t) = LLOwnerThread s"
  "Exited (putCurrentThread s t) = Exited s"
  "ExitCode (putCurrentThread s t) = ExitCode s"
  "Step (putCurrentThread s t) = Step s"
  "StepsSinceLastContextSwitch (putCurrentThread s t) = StepsSinceLastContextSwitch s"
  "TraverseRight (putCurrentThread s t) = TraverseRight s"
  "NextThreadId (putCurrentThread s t) = NextThreadId s"
  "LastHint (putCurrentThread s t) = LastHint s"
  by (simp_all add: putCurrentThread_def)

lemma ThreadCount_put [simp]:
  "getActiveThreadStack s \<noteq> [] \<Longrightarrow> ThreadCount (putCurrentThread s t) = ThreadCount s"
  by (simp add: ThreadCount_rest)

lemma running_put: "running s \<Longrightarrow> live t \<Longrightarrow> running (putCurrentThread s t)"
  by (simp add: running_def sched_inv_def live_def)

lemma running_cong:
  assumes "TraverseRight s' = TraverseRight s" "LeftThreadStack s' = LeftThreadStack s"
    "RightThreadStack s' = RightThreadStack s" "StepsSinceLastContextSwitch s' = StepsSinceLastContextSwitch s"
  shows "running s' \<longleftrightarrow> running s"
  using threads_cong [OF assms(1-3)] assms(4) by (auto simp: running_def sched_inv_def live_def)

text \<open>A running machine: every thread, on either stack, is live.\<close>

lemma set_active: "set (LeftThreadStack s) \<union> set (RightThreadStack s) = set (getActiveThreadStack s) \<union> set (inactive s)"
  by (auto simp: getActiveThreadStack_def inactive_def)

lemma running_iff:
  "running s \<longleftrightarrow> getActiveThreadStack s \<noteq> [] \<and>
     (\<forall>t \<in> set (LeftThreadStack s) \<union> set (RightThreadStack s). live t) \<and>
     StepsSinceLastContextSwitch s \<le> SchedQuantum"
proof -
  have "set (getActiveThreadStack s) = insert (current s) (set (butlast (getActiveThreadStack s)))"
    if "getActiveThreadStack s \<noteq> []"
    using that by (cases "getActiveThreadStack s" rule: rev_cases) (simp_all add: current_def)
  then show ?thesis
    unfolding running_def sched_inv_def set_active by (auto simp: rest_threads_def live_def)
qed

lemma running_sched: "running s \<Longrightarrow> sched_inv s"
  by (simp add: running_def)

section \<open>Scheduling operations\<close>

lemma preemptThread_right:
  assumes "TraverseRight (state m)" and "RightThreadStack (state m) = rs @ [t]"
  shows "preemptThread t m = Inr (rs = [],
    log_stats [TrackThreadActivated (ThreadId (if rs = [] then t else last rs)) (Step (state m))]
      (set_state ((state m)\<lparr>LeftThreadStack := LeftThreadStack (state m) @ [t], RightThreadStack := rs,
         TraverseRight := (rs \<noteq> []), StepsSinceLastContextSwitch := 0\<rparr>) m))"
  using assms by (cases "state m", cases "rs = []")
    (simp_all add: preemptThread_def Let_def getActiveThreadStack_def GetCurrentThread_def butlast_append last_conv_nth)

lemma preemptThread_left:
  assumes "\<not> TraverseRight (state m)" and "LeftThreadStack (state m) = ls @ [t]"
  shows "preemptThread t m = Inr (ls = [],
    log_stats [TrackThreadActivated (ThreadId (if ls = [] then t else last ls)) (Step (state m))]
      (set_state ((state m)\<lparr>LeftThreadStack := ls, RightThreadStack := RightThreadStack (state m) @ [t],
         TraverseRight := (ls = []), StepsSinceLastContextSwitch := 0\<rparr>) m))"
  using assms by (cases "state m", cases "ls = []")
    (simp_all add: preemptThread_def Let_def getActiveThreadStack_def GetCurrentThread_def butlast_append last_conv_nth)

text \<open>Threads are kept on a line: the left stack followed by the reversed right stack.\<close>

definition thread_line :: "State \<Rightarrow> ThreadState list" where
  "thread_line s = LeftThreadStack s @ rev (RightThreadStack s)"

lemma set_thread_line: "set (thread_line s) = set (LeftThreadStack s) \<union> set (RightThreadStack s)"
  by (simp add: thread_line_def)

lemma active_split: "getActiveThreadStack s \<noteq> [] \<Longrightarrow> \<exists>a. getActiveThreadStack s = a @ [current s]"
  by (metis append_butlast_last_id current_def)

definition preempted :: "InstrumentedState \<Rightarrow> InstrumentedState \<Rightarrow> bool" where
  "preempted m m' \<longleftrightarrow> (\<exists>l r b tid. m' = log_stats [TrackThreadActivated tid (Step (state m))]
     (set_state ((state m)\<lparr>LeftThreadStack := l, RightThreadStack := r, TraverseRight := b,
        StepsSinceLastContextSwitch := 0\<rparr>) m))"

lemma preemptThread_post:
  assumes "running (state m)" and "t = current (state m)"
  shows "post {} (\<lambda>(b, m'). running (state m') \<and> thread_line (state m') = thread_line (state m) \<and> preempted m m')
    (preemptThread t m)"
proof -
  have ne: "getActiveThreadStack (state m) \<noteq> []" and all: "\<forall>u \<in> set (thread_line (state m)). live u"
    using assms(1) by (simp_all add: running_iff set_thread_line)
  from active_split [OF ne] obtain a where a: "getActiveThreadStack (state m) = a @ [t]" using assms(2) by blast
  show ?thesis
  proof (cases "TraverseRight (state m)")
    case True
    then have r: "RightThreadStack (state m) = a @ [t]" using a by (simp add: getActiveThreadStack_def)
    have "preempted m (log_stats [TrackThreadActivated (ThreadId (if a = [] then t else last a)) (Step (state m))]
      (set_state ((state m)\<lparr>LeftThreadStack := LeftThreadStack (state m) @ [t], RightThreadStack := a,
         TraverseRight := (a \<noteq> []), StepsSinceLastContextSwitch := 0\<rparr>) m))"
      unfolding preempted_def by blast
    then show ?thesis
      using all r unfolding preemptThread_right [OF True r]
      by (auto simp: running_iff thread_line_def getActiveThreadStack_def log_stats_def set_state_def)
  next
    case False
    then have l: "LeftThreadStack (state m) = a @ [t]" using a by (simp add: getActiveThreadStack_def)
    have "preempted m (log_stats [TrackThreadActivated (ThreadId (if a = [] then t else last a)) (Step (state m))]
      (set_state ((state m)\<lparr>LeftThreadStack := a, RightThreadStack := RightThreadStack (state m) @ [t],
         TraverseRight := (a = []), StepsSinceLastContextSwitch := 0\<rparr>) m))"
      unfolding preempted_def by blast
    then show ?thesis
      using all l unfolding preemptThread_left [OF False l]
      by (auto simp: running_iff thread_line_def getActiveThreadStack_def log_stats_def set_state_def)
  qed
qed

lemma running_pushThread: "running s \<Longrightarrow> live t \<Longrightarrow> running (pushThread t s)"
  by (auto simp: running_iff pushThread_def getActiveThreadStack_def)

lemma popThread_post:
  assumes "sched_inv s" and "rest_threads s \<noteq> []"
  shows "post {} (\<lambda>s'. running s' \<and> (\<exists>l r b. s' = s\<lparr>LeftThreadStack := l, RightThreadStack := r,
    TraverseRight := b, StepsSinceLastContextSwitch := 0\<rparr>)) (popThread s)"
proof -
  have ne: "getActiveThreadStack s \<noteq> []" and all: "\<forall>t \<in> set (rest_threads s). live t"
    using assms(1) by (simp_all add: sched_inv_def)
  define l where "l = (if TraverseRight s then LeftThreadStack s else butlast (LeftThreadStack s))"
  define r where "r = (if TraverseRight s then butlast (RightThreadStack s) else RightThreadStack s)"
  define b where "b = (if TraverseRight s then r \<noteq> [] else l = [])"
  have pop: "popThread s = Inr (s\<lparr>LeftThreadStack := l, RightThreadStack := r, TraverseRight := b,
      StepsSinceLastContextSwitch := 0\<rparr>)"
    using ne by (cases "TraverseRight s") (auto simp: popThread_def getActiveThreadStack_def l_def r_def b_def)
  have set: "set l \<union> set r = set (rest_threads s)"
    by (auto simp: l_def r_def rest_threads_def inactive_def getActiveThreadStack_def)
  have "(if b then r else l) \<noteq> []"
    using assms(2) by (auto simp: b_def l_def r_def rest_threads_def inactive_def getActiveThreadStack_def split: if_splits)
  then have "running (s\<lparr>LeftThreadStack := l, RightThreadStack := r, TraverseRight := b, StepsSinceLastContextSwitch := 0\<rparr>)"
    using all set by (auto simp: running_iff getActiveThreadStack_def split: if_splits)
  then show ?thesis unfolding pop by auto
qed

section \<open>Reservations\<close>

definition words :: "InstrumentedState \<Rightarrow> Word \<Rightarrow> Word" where
  "words m = word_at (StMemory (state m))"

definition reserved :: "InstrumentedState \<Rightarrow> Word" where
  "reserved m = AddressMask AND LLAddress (state m)"

definition ll_same :: "InstrumentedState \<Rightarrow> InstrumentedState \<Rightarrow> bool" where
  "ll_same m m' \<longleftrightarrow> LLReservationStatus (state m') = LLReservationStatus (state m) \<and>
     LLAddress (state m') = LLAddress (state m) \<and> LLOwnerThread (state m') = LLOwnerThread (state m)"

definition is_LL :: "stats_event \<Rightarrow> bool" where
  "is_LL e = (case e of TrackLL tid st \<Rightarrow> True | _ \<Rightarrow> False)"

text \<open>Between \<open>m\<close> and \<open>m'\<close> either a load-linked ran, or no reservation is left, or the reservation
  and the reserved word are as they were.\<close>

definition ll_rel :: "InstrumentedState \<Rightarrow> InstrumentedState \<Rightarrow> bool" where
  "ll_rel m m' \<longleftrightarrow> (\<exists>evs. statsLog m' = statsLog m @ evs \<and>
     (list_ex is_LL evs \<or> LLReservationStatus (state m') = LLStatusNone \<or>
      ll_same m m' \<and> words m' (reserved m) = words m (reserved m)))"

lemma ll_rel_refl [simp]: "ll_rel m m"
  by (simp add: ll_rel_def ll_same_def)

lemma ll_rel_trans: "ll_rel m m1 \<Longrightarrow> ll_rel m1 m2 \<Longrightarrow> ll_rel m m2"
  unfolding ll_rel_def ll_same_def reserved_def by (elim exE conjE) (rule exI, auto)

lemma aligned_reserved: "aligned (reserved m)"
  by (simp only: reserved_def and.commute [of AddressMask] aligned_AddressMask)

lemma ll_rel_frame:
  assumes "statsLog m' = statsLog m @ evs" and "ll_same m m'" and "mem_frame None (StMemory (state m)) (StMemory (state m'))"
  shows "ll_rel m m'"
  using assms aligned_reserved [of m] by (auto simp: ll_rel_def words_def mem_frame_def)

lemma ll_rel_update:
  assumes "statsLog m1 = statsLog m" and "ll_same m m1" and "mem_frame (Some a) (StMemory (state m)) (StMemory (state m1))"
  shows "ll_rel m (handleMemoryUpdate a m1)"
proof (cases "a = reserved m1")
  case True
  then show ?thesis
    using assms(1) by (auto simp: ll_rel_def handleMemoryUpdate_def reserved_def log_stats_def set_state_def
        clearLLMemoryReservation_def)
next
  case False
  then have "handleMemoryUpdate a m1 = m1" by (simp add: handleMemoryUpdate_def reserved_def)
  moreover have "a \<noteq> reserved m" using False assms(2) by (simp add: ll_same_def reserved_def)
  ultimately show ?thesis
    using assms aligned_reserved [of m] by (auto simp: ll_rel_def words_def mem_frame_def)
qed

section \<open>What a handler keeps\<close>

definition thread_ids :: "State \<Rightarrow> Word multiset" where
  "thread_ids s = mset (map ThreadId (thread_line s))"

definition work :: "keccak_fn \<Rightarrow> oracle_fn \<Rightarrow> InstrumentedState \<Rightarrow> bool" where
  "work keccak po m \<longleftrightarrow> data_inv keccak po m \<and> running (state m)"

definition same_ids :: "State \<Rightarrow> State \<Rightarrow> bool" where
  "same_ids s s' \<longleftrightarrow> NextThreadId s' = NextThreadId s \<and> thread_ids s' = thread_ids s"

definition cloned_ids :: "State \<Rightarrow> State \<Rightarrow> bool" where
  "cloned_ids s s' \<longleftrightarrow> NextThreadId s' = NextThreadId s + 1 \<and>
     thread_ids s' = add_mset (NextThreadId s) (thread_ids s)"

definition mid :: "keccak_fn \<Rightarrow> oracle_fn \<Rightarrow> InstrumentedState \<Rightarrow> InstrumentedState \<Rightarrow> bool" where
  "mid keccak po m m' \<longleftrightarrow> work keccak po m' \<and> ll_rel m m' \<and> Step (state m') = Step (state m) \<and>
     same_ids (state m) (state m') \<and> ThreadId (current (state m')) = ThreadId (current (state m))"

definition hpost :: "keccak_fn \<Rightarrow> oracle_fn \<Rightarrow> InstrumentedState \<Rightarrow> InstrumentedState \<Rightarrow> bool" where
  "hpost keccak po m m' \<longleftrightarrow> vm_inv keccak po m' \<and> ll_rel m m' \<and> Step (state m') = Step (state m) \<and>
     (same_ids (state m) (state m') \<or> cloned_ids (state m) (state m'))"

lemma mid_refl: "work keccak po m \<Longrightarrow> mid keccak po m m"
  by (simp add: mid_def same_ids_def)

lemma mid_hpost: "mid keccak po m m' \<Longrightarrow> hpost keccak po m m'"
  by (simp add: mid_def hpost_def work_def vm_inv_def running_def)

lemma mid_trans: "mid keccak po m m1 \<Longrightarrow> mid keccak po m1 m2 \<Longrightarrow> mid keccak po m m2"
  using ll_rel_trans by (auto simp: mid_def same_ids_def)

lemma mid_hpost_trans: "mid keccak po m m1 \<Longrightarrow> hpost keccak po m1 m2 \<Longrightarrow> hpost keccak po m m2"
  using ll_rel_trans by (auto simp: mid_def hpost_def same_ids_def cloned_ids_def)

lemma mid_work: "mid keccak po m m' \<Longrightarrow> work keccak po m'"
  by (simp add: mid_def)

lemma thread_ids_active:
  "thread_ids s = mset (map ThreadId (getActiveThreadStack s)) + mset (map ThreadId (inactive s))"
  by (simp add: thread_ids_def thread_line_def getActiveThreadStack_def inactive_def)

lemma inactive_put [simp]: "inactive (putCurrentThread s t) = inactive s"
  by (simp add: inactive_def putCurrentThread_def)

lemma thread_ids_put:
  assumes "getActiveThreadStack s \<noteq> []" and "ThreadId t = ThreadId (current s)"
  shows "thread_ids (putCurrentThread s t) = thread_ids s"
proof -
  from active_split [OF assms(1)] obtain a where a: "getActiveThreadStack s = a @ [current s]" by blast
  then have "butlast (getActiveThreadStack s) = a" by (metis butlast_snoc)
  then show ?thesis using a assms(2) by (simp add: thread_ids_active)
qed

lemma work_current:
  assumes "work keccak po m"
  shows "getActiveThreadStack (state m) \<noteq> []" and "live (current (state m))"
    and "GetCurrentThread (state m) = Inr (current (state m))"
    and "tree_ok keccak (StMemory (state m))" and "oracle_ok po (preimageOracle m)"
    and "length (PreimageKey (state m)) = 32" and "running (state m)"
  using assms GetCurrentThread_current
  by (auto simp: work_def data_inv_def running_def sched_inv_def)

text \<open>Replacing the current thread, and fields that are neither threads, reservation nor memory.\<close>

lemma mid_put_thread:
  assumes "work keccak po m" and "live t" and "ThreadId t = ThreadId (current (state m))"
  shows "mid keccak po m (set_state (putCurrentThread (state m) t) m)"
proof -
  note c = work_current [OF assms(1)]
  have "running (putCurrentThread (state m) t)" by (rule running_put [OF c(7) assms(2)])
  then show ?thesis
    using c thread_ids_put [OF c(1) assms(3)] assms(3)
    by (simp add: mid_def work_def data_inv_def set_state_def same_ids_def ll_rel_def ll_same_def words_def)
qed

lemma mid_fields:
  assumes "work keccak po m" and "tree_ok keccak (StMemory (state m'))" and "oracle_ok po (preimageOracle m')"
    and "length (PreimageKey (state m')) = 32"
    and th: "TraverseRight (state m') = TraverseRight (state m)"
      "LeftThreadStack (state m') = LeftThreadStack (state m)"
      "RightThreadStack (state m') = RightThreadStack (state m)"
      "NextThreadId (state m') = NextThreadId (state m)"
    and st: "StepsSinceLastContextSwitch (state m') = StepsSinceLastContextSwitch (state m)"
      "Step (state m') = Step (state m)"
    and ll: "ll_rel m m'"
  shows "mid keccak po m m'"
proof -
  note c = work_current [OF assms(1)]
  have "running (state m')" using running_cong [OF th(1-3) st(1)] c(7) by simp
  moreover have "thread_line (state m') = thread_line (state m)" using th by (simp add: thread_line_def)
  ultimately show ?thesis
    using assms threads_cong [OF th(1-3)]
    by (simp add: mid_def work_def data_inv_def same_ids_def thread_ids_def)
qed

lemma live_syscall_updates: "live t \<Longrightarrow> live (syscall_updates t v0 v1)"
  by (simp add: live_def syscall_updates_def HandleSyscallUpdates_def reg_inv_update)

lemma ThreadId_syscall_updates [simp]: "ThreadId (syscall_updates t v0 v1) = ThreadId t"
  by (simp add: syscall_updates_def HandleSyscallUpdates_def)

lemma mid_finish:
  assumes "mid keccak po m m1" and "live t" and "ThreadId t = ThreadId (current (state m))"
  shows "mid keccak po m (finish_syscall t v0 v1 m1)"
  unfolding finish_syscall_def
  by (rule mid_trans [OF assms(1) mid_put_thread])
    (use assms in \<open>simp_all add: mid_def live_syscall_updates\<close>)

lemma hpost_preempted:
  assumes "work keccak po m" and "running (state m')" and "thread_line (state m') = thread_line (state m)"
    and "preempted m m'"
  shows "hpost keccak po m m'"
proof -
  from assms(4) obtain l r b tid where m': "m' = log_stats [TrackThreadActivated tid (Step (state m))]
     (set_state ((state m)\<lparr>LeftThreadStack := l, RightThreadStack := r, TraverseRight := b,
        StepsSinceLastContextSwitch := 0\<rparr>) m)" by (auto simp: preempted_def)
  have "data_inv keccak po m'" using assms(1) by (simp add: work_def data_inv_def m' log_stats_def set_state_def)
  moreover have "ll_rel m m'"
    by (rule ll_rel_frame [of _ _ "[TrackThreadActivated tid (Step (state m))]"])
      (simp_all add: m' log_stats_def set_state_def ll_same_def)
  ultimately show ?thesis
    using assms(2,3) by (simp add: hpost_def vm_inv_def running_def same_ids_def thread_ids_def)
      (simp add: m' log_stats_def set_state_def)
qed

lemma syscallYield_post:
  assumes "work keccak po m" and "live t" and "ThreadId t = ThreadId (current (state m))"
  shows "post {} (hpost keccak po m) (syscallYield t m)"
proof -
  let ?t = "syscall_updates t 0 0" and ?m = "set_state (putCurrentThread (state m) (syscall_updates t 0 0)) m"
  have mid: "mid keccak po m ?m"
    by (rule mid_put_thread [OF assms(1)]) (use assms in \<open>simp_all add: live_syscall_updates\<close>)
  have r: "running (state ?m)" using mid_work [OF mid] by (simp add: work_def)
  have t: "?t = current (state ?m)" by (simp add: set_state_def)
  show ?thesis
    unfolding syscallYield_def Let_def
  proof (rule post_bind [OF preemptThread_post [OF r t]], clarify)
    fix b m' assume "running (state m')" "thread_line (state m') = thread_line (state ?m)" "preempted ?m m'"
    then show "post {} (hpost keccak po m) (Inr m')"
      using mid_hpost_trans [OF mid hpost_preempted [OF mid_work [OF mid]]] by simp
  qed
qed

lemma core_of_sel [simp]:
  "cpu (core_of m t) = Cpu t" "regs (core_of m t) = Registers t" "mem (core_of m t) = StMemory (state m)"
  "tracker (core_of m t) = memoryTracker m"
  by (simp_all add: core_of_def)

text \<open>Writing a core back, without and with a memory update.\<close>

lemma mid_put_core:
  assumes "work keccak po m" and "t = current (state m)" and "tree_ok keccak (mem c)" and "reg_inv (regs c)"
    and "mem_frame None (StMemory (state m)) (mem c)"
  shows "mid keccak po m (put_core m t c)"
proof -
  note w = work_current [OF assms(1)]
  let ?t = "t\<lparr>Cpu := cpu c, Registers := regs c\<rparr>"
  have l: "live ?t" using w(2) assms(2,4) by (simp add: live_def)
  have m1: "mid keccak po m (set_state (putCurrentThread (state m) ?t) m)"
    by (rule mid_put_thread [OF assms(1) l]) (simp add: assms(2))
  show ?thesis
    by (rule mid_trans [OF m1 mid_fields [OF mid_work [OF m1]]])
      (use w assms(3,5) in \<open>simp_all add: put_core_def log_stack_def set_state_def\<close>,
       rule ll_rel_frame [of _ _ "[]"], simp_all add: ll_same_def put_core_def log_stack_def set_state_def)
qed

lemma handleMemoryUpdate_fields [simp]:
  "StMemory (state (handleMemoryUpdate a m)) = StMemory (state m)"
  "PreimageKey (state (handleMemoryUpdate a m)) = PreimageKey (state m)"
  "TraverseRight (state (handleMemoryUpdate a m)) = TraverseRight (state m)"
  "LeftThreadStack (state (handleMemoryUpdate a m)) = LeftThreadStack (state m)"
  "RightThreadStack (state (handleMemoryUpdate a m)) = RightThreadStack (state m)"
  "NextThreadId (state (handleMemoryUpdate a m)) = NextThreadId (state m)"
  "StepsSinceLastContextSwitch (state (handleMemoryUpdate a m)) = StepsSinceLastContextSwitch (state m)"
  "Step (state (handleMemoryUpdate a m)) = Step (state m)"
  "Exited (state (handleMemoryUpdate a m)) = Exited (state m)"
  "Heap (state (handleMemoryUpdate a m)) = Heap (state m)"
  "preimageOracle (handleMemoryUpdate a m) = preimageOracle m"
  "memoryTracker (handleMemoryUpdate a m) = memoryTracker m"
  by (simp_all add: handleMemoryUpdate_def log_stats_def set_state_def clearLLMemoryReservation_def)

lemma mid_put_core_update:
  assumes "work keccak po m" and "t = current (state m)" and "tree_ok keccak (mem c)" and "reg_inv (regs c)"
    and "mem_frame (Some a) (StMemory (state m)) (mem c)"
  shows "mid keccak po m (handleMemoryUpdate a (put_core m t c))"
proof -
  note w = work_current [OF assms(1)]
  let ?t = "t\<lparr>Cpu := cpu c, Registers := regs c\<rparr>"
  have l: "live ?t" using w(2) assms(2,4) by (simp add: live_def)
  have m1: "mid keccak po m (set_state (putCurrentThread (state m) ?t) m)"
    by (rule mid_put_thread [OF assms(1) l]) (simp add: assms(2))
  show ?thesis
    by (rule mid_trans [OF m1 mid_fields [OF mid_work [OF m1]]])
      (use w assms(3,5) in \<open>simp_all add: put_core_def log_stack_def set_state_def\<close>,
       rule ll_rel_update, simp_all add: ll_same_def put_core_def log_stack_def set_state_def)
qed

end
