(* ===== verification/VM_Step.thy ===== *)
theory VM_Step
  imports VM_Invariant
begin

unbundle bit_operations_syntax

text \<open>Every handler of the step keeps the invariant of \<open>VM_Invariant\<close>, and panics only with the
  panics a guest program can provoke.\<close>

definition vm_panics :: "panic set" where
  "vm_panics = core_panics \<union> {PreimageOffsetOutOfBounds, IndexOutOfRange, UnrecognizedSyscall, InvalidPC}"

section \<open>System calls\<close>

lemma env_of_sel [simp]:
  "env_mem (env_of m) = StMemory (state m)" "env_trk (env_of m) = memoryTracker m"
  "env_oracle (env_of m) = preimageOracle m"
  by (simp_all add: env_of_def)

lemma work_put_env:
  assumes "work keccak po m" and "env_post keccak po upd (env_of m) e" and "length key = 32"
  shows "mid keccak po m (case upd of None \<Rightarrow> (put_env m e)\<lparr>state := (state (put_env m e))
      \<lparr>LastHint := hint, PreimageKey := key, PreimageOffset := off\<rparr>\<rparr>
    | Some a \<Rightarrow> handleMemoryUpdate a ((put_env m e)\<lparr>state := (state (put_env m e))
      \<lparr>LastHint := hint, PreimageKey := key, PreimageOffset := off\<rparr>\<rparr>))"
proof -
  note w = work_current [OF assms(1)]
  let ?m = "(put_env m e)\<lparr>state := (state (put_env m e))
      \<lparr>LastHint := hint, PreimageKey := key, PreimageOffset := off\<rparr>\<rparr>"
  have e: "tree_ok keccak (env_mem e)" "oracle_ok po (env_oracle e)" "mem_frame upd (StMemory (state m)) (env_mem e)"
    using assms(2) by (simp_all add: env_post_def)
  have same: "statsLog ?m = statsLog m" "ll_same m ?m" by (simp_all add: put_env_def ll_same_def)
  show ?thesis
  proof (cases upd)
    case None
    have "ll_rel m ?m"
      by (rule ll_rel_frame [of _ _ "[]"]) (use same e(3) None in \<open>simp_all add: put_env_def\<close>)
    then show ?thesis
      using None e(1,2) assms(3) by simp (rule mid_fields [OF assms(1)], simp_all add: put_env_def)
  next
    case (Some a)
    have "ll_rel m (handleMemoryUpdate a ?m)"
      by (rule ll_rel_update) (use same e(3) Some in \<open>simp_all add: put_env_def\<close>)
    then show ?thesis
      using Some e(1,2) assms(3) by simp (rule mid_fields [OF assms(1)], simp_all add: put_env_def)
  qed
qed

lemma sys_read_post:
  assumes "work keccak po m" and "tracker_fresh (memoryTracker m)" and "t = current (state m)"
  shows "post vm_panics (hpost keccak po m) (sys_read keccak po t a0 a1 a2 m)"
proof -
  note w = work_current [OF assms(1)]
  have "post vm_panics (\<lambda>((v0, v1, off, upd), e). env_post keccak po upd (env_of m) e)
      (HandleSysRead keccak po a0 a1 a2 (PreimageKey (state m)) (PreimageOffset (state m)) (env_of m))"
    by (rule post_weaken [OF HandleSysRead_post]) (use w assms(2) in \<open>simp_all add: vm_panics_def\<close>)
  then show ?thesis
    unfolding sys_read_def
  proof (rule post_bind, clarify)
    fix v0 v1 off upd e
    assume e: "env_post keccak po upd (env_of m) e"
    let ?m = "case upd of None \<Rightarrow> set_state ((state (put_env m e))\<lparr>PreimageOffset := off\<rparr>) (put_env m e)
      | Some a \<Rightarrow> handleMemoryUpdate a (set_state ((state (put_env m e))\<lparr>PreimageOffset := off\<rparr>) (put_env m e))"
    have eq: "set_state ((state (put_env m e))\<lparr>PreimageOffset := off\<rparr>) (put_env m e) =
        (put_env m e)\<lparr>state := (state (put_env m e))
          \<lparr>LastHint := LastHint (state m), PreimageKey := PreimageKey (state m), PreimageOffset := off\<rparr>\<rparr>"
      by (cases "state m") (simp add: set_state_def put_env_def)
    have "mid keccak po m ?m" unfolding eq by (rule work_put_env [OF assms(1) e w(6)])
    then have "mid keccak po m (finish_syscall t v0 v1 ?m)"
      by (rule mid_finish) (use w assms(3) in simp_all)
    then show "post vm_panics (hpost keccak po m)
       (let m1 = put_env m e; m2 = set_state ((state m1)\<lparr>PreimageOffset := off\<rparr>) m1;
            m3 = case upd of None \<Rightarrow> m2 | Some a \<Rightarrow> handleMemoryUpdate a m2
        in Inr (finish_syscall t v0 v1 m3))" by (simp add: Let_def mid_hpost)
  qed
qed

lemma sys_write_post:
  assumes "work keccak po m" and "tracker_fresh (memoryTracker m)" and "t = current (state m)"
  shows "post vm_panics (hpost keccak po m) (sys_write keccak t a0 a1 a2 m)"
proof -
  note w = work_current [OF assms(1)]
  have "post vm_panics (\<lambda>((v0, v1, hint, key', off), e). env_post keccak po None (env_of m) e \<and> length key' = 32)
      (HandleSysWrite keccak a0 a1 a2 (LastHint (state m)) (PreimageKey (state m)) (PreimageOffset (state m)) (env_of m))"
    by (rule post_weaken [OF HandleSysWrite_post]) (use w assms(2) in \<open>simp_all add: vm_panics_def\<close>)
  then show ?thesis
    unfolding sys_write_def
  proof (rule post_bind, clarify)
    fix v0 v1 hint key off e
    assume e: "env_post keccak po None (env_of m) e" "length (key :: byte list) = 32"
    have "mid keccak po m (set_state ((state (put_env m e))\<lparr>LastHint := hint, PreimageKey := key,
        PreimageOffset := off\<rparr>) (put_env m e))"
      using work_put_env [OF assms(1) e, where hint = hint and off = off] by (simp add: set_state_def)
    then have "mid keccak po m (finish_syscall t v0 v1 (set_state ((state (put_env m e))\<lparr>LastHint := hint,
        PreimageKey := key, PreimageOffset := off\<rparr>) (put_env m e)))"
      by (rule mid_finish) (use w assms(3) in simp_all)
    then show "post vm_panics (hpost keccak po m)
       (let m1 = put_env m e in Inr (finish_syscall t v0 v1
          (set_state ((state m1)\<lparr>LastHint := hint, PreimageKey := key, PreimageOffset := off\<rparr>) m1)))"
      by (simp add: Let_def mid_hpost)
  qed
qed

lemma LoadSubWord_post:
  assumes "tree_ok keccak (mem s)" and "tracker_fresh (tracker s)"
  shows "post {} (\<lambda>(v, s'). tree_ok keccak (mem s') \<and> word_at (mem s') = word_at (mem s) \<and> core_same s s')
    (LoadSubWord keccak vaddr n sgnd s)"
  unfolding LoadSubWord_def
  by (rule post_bind [OF tracked_GetWord_post [OF assms(1) aligned_AddressMask tracker_fresh_at [OF assms(2)]]]) auto

lemma getFutexValue_post:
  assumes "work keccak po m" and "tracker_fresh (memoryTracker m)" and "t = current (state m)"
  shows "post {} (\<lambda>(v, m'). mid keccak po m m') (getFutexValue keccak a t m)"
  unfolding getFutexValue_def
proof (rule post_bind [OF LoadSubWord_post], use work_current [OF assms(1)] assms(2) in simp_all, clarify)
  fix v :: Word and c assume c: "tree_ok keccak (mem c)" "word_at (mem c) = word_at (StMemory (state m))" "core_same (core_of m t) c"
  have "reg_inv (regs c)" using c(3) work_current(2) [OF assms(1)] assms(3) by (simp add: core_same_def live_def)
  then have "mid keccak po m (put_core m t c)"
    by (rule mid_put_core [OF assms(1,3) c(1)]) (simp add: mem_frame_same [OF c(2)])
  then show "post {} (\<lambda>(v, m'). mid keccak po m m') (Inr (ucast v, put_core m t c))" by simp
qed

lemma sys_futex_post:
  assumes "work keccak po m" and "tracker_fresh (memoryTracker m)" and "t = current (state m)"
  shows "post vm_panics (hpost keccak po m) (sys_futex keccak t a0 a1 a2 m)"
proof -
  note w = work_current [OF assms(1)]
  have l: "live t" using w(2) assms(3) by simp
  have yield: "post vm_panics (hpost keccak po m) (syscallYield t m1)" if "mid keccak po m m1" for m1
    by (rule post_weaken [OF syscallYield_post [OF mid_work [OF that] l]])
      (use that assms(3) mid_hpost_trans [OF that] in \<open>simp_all add: mid_def\<close>)
  have fin: "post vm_panics (hpost keccak po m) (Inr (finish_syscall t v0 v1 m1))" if "mid keccak po m m1" for m1 v0 v1
    using mid_hpost [OF mid_finish [OF that l]] assms(3) by simp
  have wait: "post vm_panics (hpost keccak po m)
      (bind_res (getFutexValue keccak a t m) (\<lambda>(futexVal, m1).
         if futexVal \<noteq> v then Inr (finish_syscall t SysErrorSignal MipsEAGAIN m1) else syscallYield t m1))" for a v
  proof (rule post_bind [OF post_weaken [OF getFutexValue_post [OF assms]]], simp, assumption, clarify)
    fix f m1 assume "mid keccak po m m1"
    then show "post vm_panics (hpost keccak po m)
        (if f \<noteq> v then Inr (finish_syscall t SysErrorSignal MipsEAGAIN m1) else syscallYield t m1)"
      by (intro post_both fin yield)
  qed
  show ?thesis
    unfolding sys_futex_def Let_def by (intro post_both wait yield fin mid_refl assms(1))
qed

lemma TrackMemAccess2_post:
  assumes "tree_ok keccak m" and "memProofEnabled t \<longrightarrow> lastMemAccess t = a"
  shows "post {} (\<lambda>(t', m'). tree_ok keccak m' \<and> word_at m' = word_at m) (TrackMemAccess2 keccak t m (a + WordSizeBytes))"
proof -
  from MerkleProof_spec [OF assms(1)] obtain br m' where
    m': "MerkleProof keccak m (a + WordSizeBytes) = Inr (br, m')" "tree_ok keccak m'" "cache_step m m'" by blast
  have "word_at m' = word_at m" by (rule word_at_cong [OF cache_step_byte [OF m'(3)]])
  then show ?thesis using assms(2) m' by (simp add: TrackMemAccess2_def)
qed

lemma clock_write_post:
  assumes "work keccak po m" and "tree_ok keccak (snd tm)" and "word_at (snd tm) = words m" and "aligned a"
  shows "post {} (\<lambda>m'. mid keccak po m m' \<and> memoryTracker m' = fst tm) (clock_write a v tm m)"
  unfolding clock_write_def
proof (rule post_bind [OF SetWord_post [OF assms(2,4)]], clarify)
  fix mem' assume s: "tree_ok keccak mem'" "mem_frame (Some a) (snd tm) mem'"
  let ?m = "m\<lparr>state := (state m)\<lparr>StMemory := mem'\<rparr>, memoryTracker := fst tm\<rparr>"
  have "ll_rel m (handleMemoryUpdate a ?m)"
    by (rule ll_rel_update) (use s(2) assms(3) in \<open>simp_all add: ll_same_def mem_frame_def words_def\<close>)
  then have "mid keccak po m (handleMemoryUpdate a ?m)"
    using work_current [OF assms(1)] s(1) by (intro mid_fields [OF assms(1)]) simp_all
  then show "post {} (\<lambda>m'. mid keccak po m m' \<and> memoryTracker m' = fst tm) (Inr (handleMemoryUpdate a ?m))" by simp
qed

lemma aligned_next: "aligned a \<Longrightarrow> aligned (a + WordSizeBytes)"
proof -
  assume "aligned a"
  then have "8 dvd unat a" by (auto simp: aligned_iff)
  moreover have "unat (a + 8) = (unat a + 8) mod 2 ^ 64" by (simp add: unat_word_ariths)
  ultimately have "unat (a + 8) mod 8 = 0" by (simp add: mod_mod_cancel dvd_imp_mod_0)
  then show ?thesis by (simp add: aligned_iff)
qed

lemma sys_clock_gettime_post:
  assumes "work keccak po m" and "tracker_fresh (memoryTracker m)" and "t = current (state m)"
  shows "post vm_panics (hpost keccak po m) (sys_clock_gettime keccak t a0 a1 m)"
proof -
  note w = work_current [OF assms(1)]
  have l: "live t" using w(2) assms(3) by simp
  let ?a = "a1 AND AddressMask"
  have al: "aligned ?a" by (rule aligned_AddressMask)
  have "post {} (hpost keccak po m)
      (bind_res (TrackMemAccess keccak (memoryTracker m) (StMemory (state m)) ?a) (\<lambda>tm.
           bind_res (clock_write ?a secs tm m) (\<lambda>m1.
           bind_res (TrackMemAccess2 keccak (memoryTracker m1) (StMemory (state m1)) (?a + WordSizeBytes)) (\<lambda>tm2.
           bind_res (clock_write (?a + WordSizeBytes) nsecs tm2 m1) (\<lambda>m2.
             Inr (finish_syscall t 0 0 m2))))))" for secs nsecs
  proof (rule post_bind [OF TrackMemAccess_post [OF w(4) tracker_fresh_at [OF assms(2)]]], clarify)
    fix trk :: MemTracker and mem' assume tm: "tree_ok keccak mem'" "word_at mem' = word_at (StMemory (state m))"
      "memProofEnabled trk \<longrightarrow> lastMemAccess trk = ?a"
    show "post {} (hpost keccak po m) (bind_res (clock_write ?a secs (trk, mem') m) (\<lambda>m1.
           bind_res (TrackMemAccess2 keccak (memoryTracker m1) (StMemory (state m1)) (?a + WordSizeBytes)) (\<lambda>tm2.
           bind_res (clock_write (?a + WordSizeBytes) nsecs tm2 m1) (\<lambda>m2. Inr (finish_syscall t 0 0 m2)))))"
    proof (rule post_bind [OF clock_write_post [OF assms(1)]], use tm in simp, use tm in \<open>simp add: words_def\<close>,
        rule al, clarify)
      fix m1 assume m1: "mid keccak po m m1" "memoryTracker m1 = fst (trk, mem')"
      note w1 = work_current [OF mid_work [OF m1(1)]]
      have "memProofEnabled (memoryTracker m1) \<longrightarrow> lastMemAccess (memoryTracker m1) = ?a" using tm(3) m1(2) by simp
      from TrackMemAccess2_post [OF w1(4) this] show
        "post {} (hpost keccak po m) (bind_res (TrackMemAccess2 keccak (memoryTracker m1) (StMemory (state m1)) (?a + WordSizeBytes)) (\<lambda>tm2.
           bind_res (clock_write (?a + WordSizeBytes) nsecs tm2 m1) (\<lambda>m2. Inr (finish_syscall t 0 0 m2))))"
      proof (rule post_bind, clarify)
        fix trk2 :: MemTracker and mem2 assume t2: "tree_ok keccak mem2" "word_at mem2 = word_at (StMemory (state m1))"
        show "post {} (hpost keccak po m) (bind_res (clock_write (?a + WordSizeBytes) nsecs (trk2, mem2) m1)
            (\<lambda>m2. Inr (finish_syscall t 0 0 m2)))"
        proof (rule post_bind [OF clock_write_post [OF mid_work [OF m1(1)]]], use t2 in simp,
            use t2 in \<open>simp add: words_def\<close>, rule aligned_next [OF al], clarify)
          fix m2 assume "mid keccak po m1 m2"
          then have "mid keccak po m m2" by (rule mid_trans [OF m1(1)])
          then show "post {} (hpost keccak po m) (Inr (finish_syscall t 0 0 m2))"
            using mid_hpost [OF mid_finish] l assms(3) by simp
        qed
      qed
    qed
  qed
  then have ok: "post vm_panics (hpost keccak po m)
      (bind_res (TrackMemAccess keccak (memoryTracker m) (StMemory (state m)) ?a) (\<lambda>tm.
           bind_res (clock_write ?a secs tm m) (\<lambda>m1.
           bind_res (TrackMemAccess2 keccak (memoryTracker m1) (StMemory (state m1)) (?a + WordSizeBytes)) (\<lambda>tm2.
           bind_res (clock_write (?a + WordSizeBytes) nsecs tm2 m1) (\<lambda>m2.
             Inr (finish_syscall t 0 0 m2))))))" for secs nsecs
    by (rule post_weaken) simp_all
  have bad: "post vm_panics (hpost keccak po m) (Inr (finish_syscall t SysErrorSignal MipsEINVAL m))"
    using mid_hpost [OF mid_finish [OF mid_refl [OF assms(1)] l]] assms(3) by simp
  show ?thesis
    unfolding sys_clock_gettime_def Let_def by (intro post_both ok bad)
qed

lemma thread_ids_push: "thread_ids (pushThread t s) = add_mset (ThreadId t) (thread_ids s)"
  by (simp add: thread_ids_def thread_line_def pushThread_def)

lemma thread_ids_next:
  assumes "getActiveThreadStack s \<noteq> []" and "ThreadId t = ThreadId (current s)"
  shows "thread_ids (putCurrentThread (s\<lparr>NextThreadId := n\<rparr>) t) = thread_ids s"
proof -
  have "putCurrentThread (s\<lparr>NextThreadId := n\<rparr>) t = (putCurrentThread s t)\<lparr>NextThreadId := n\<rparr>"
    by (simp add: putCurrentThread_def)
  then have "thread_ids (putCurrentThread (s\<lparr>NextThreadId := n\<rparr>) t) = thread_ids (putCurrentThread s t)"
    by (simp add: thread_ids_def thread_line_def)
  then show ?thesis using thread_ids_put [OF assms] by simp
qed

lemma hpost_exit:
  assumes "mid keccak po m m1"
  shows "hpost keccak po m (set_state ((state m1)\<lparr>Exited := b, ExitCode := c\<rparr>) m1)"
proof -
  note w = work_current [OF mid_work [OF assms]]
  have "mid keccak po m1 (set_state ((state m1)\<lparr>Exited := b, ExitCode := c\<rparr>) m1)"
  proof (rule mid_fields [OF mid_work [OF assms]])
    show "ll_rel m1 (set_state ((state m1)\<lparr>Exited := b, ExitCode := c\<rparr>) m1)"
      by (rule ll_rel_frame [of _ _ "[]"]) (simp_all add: set_state_def ll_same_def)
  qed (use w in \<open>simp_all add: set_state_def\<close>)
  then show ?thesis using mid_hpost mid_trans [OF assms] by blast
qed

lemma sys_clone_post:
  assumes "work keccak po m" and "t = current (state m)"
  shows "hpost keccak po m (sys_clone t a0 a1 m)"
proof (cases "ValidCloneFlags \<noteq> a0")
  case True
  show ?thesis
    unfolding sys_clone_def Let_def if_P [OF True] by (rule hpost_exit [OF mid_refl [OF assms(1)]])
next
  case False
  note w = work_current [OF assms(1)]
  let ?s = "state m" and ?tid = "NextThreadId (state m)"
  let ?new = "\<lparr>ThreadId = ?tid, ThExitCode = 0, ThExited = False,
       Cpu = \<lparr>PC = NextPC (Cpu t), NextPC = NextPC (Cpu t) + 4, LO = LO (Cpu t), HI = HI (Cpu t)\<rparr>,
       Registers = (Registers t)[RegSP := a1, RegSyscallRet1 := 0, RegSyscallErrno := 0]\<rparr>"
  let ?s1 = "putCurrentThread (?s\<lparr>NextThreadId := ?tid + 1\<rparr>) (syscall_updates t ?tid 0)"
  let ?m' = "log_stack [TPush ?tid (PC (Cpu t)) (NextPC (Cpu t))] (set_state (pushThread ?new ?s1) m)"
  have eq: "sys_clone t a0 a1 m = ?m'" unfolding sys_clone_def Let_def by (rule if_not_P [OF False])
  have new: "live ?new" using w(2) assms(2) by (simp add: live_def reg_inv_update)
  have r0: "running (?s\<lparr>NextThreadId := ?tid + 1\<rparr>)"
    by (rule iffD2 [OF running_cong w(7)]) simp_all
  have l: "live (syscall_updates t ?tid 0)" using w(2) assms(2) live_syscall_updates by simp
  have r: "running (pushThread ?new ?s1)" by (rule running_pushThread [OF running_put [OF r0 l] new])
  have d: "data_inv keccak po ?m'"
    using assms(1) by (simp add: work_def data_inv_def log_stack_def set_state_def pushThread_def)
  have "thread_ids ?s1 = thread_ids ?s"
    by (rule thread_ids_next [OF w(1)]) (simp add: assms(2))
  then have "cloned_ids ?s (state ?m')"
    by (simp add: cloned_ids_def log_stack_def set_state_def thread_ids_push) (simp add: pushThread_def)
  moreover have "ll_rel m ?m'"
    by (rule ll_rel_frame [of _ _ "[]"]) (simp_all add: log_stack_def set_state_def ll_same_def pushThread_def)
  ultimately show ?thesis
    unfolding eq using r d running_sched
    by (simp add: hpost_def vm_inv_def log_stack_def set_state_def) (simp add: pushThread_def)
qed

lemma sys_exit_post:
  assumes "work keccak po m" and "t = current (state m)"
  shows "hpost keccak po m (sys_exit t a0 m)"
proof -
  note w = work_current [OF assms(1)]
  let ?t = "t\<lparr>ThExited := True, ThExitCode := ucast a0\<rparr>"
  let ?s1 = "putCurrentThread (state m) ?t"
  let ?s2 = "if lastThreadRemaining ?s1 then ?s1\<lparr>Exited := True, ExitCode := ucast a0\<rparr> else ?s1"
  have eq: "sys_exit t a0 m = set_state ?s2 m" by (simp only: sys_exit_def Let_def)
  have cnt: "lastThreadRemaining ?s1 \<longleftrightarrow> rest_threads (state m) = []"
    using w(1) by (simp add: lastThreadRemaining_def ThreadCount_rest)
  have th: "getActiveThreadStack ?s2 = getActiveThreadStack ?s1" "rest_threads ?s2 = rest_threads ?s1"
    "current ?s2 = current ?s1" by (rule threads_cong; simp)+
  have "sched_inv ?s2"
    using w(7) w(2) [folded assms(2)] unfolding sched_inv_def th
    by (auto simp: cnt running_def sched_inv_def live_def)
  moreover have "thread_ids ?s2 = thread_ids (state m)"
    using thread_ids_put [OF w(1), of ?t] assms(2) by (simp add: thread_ids_def thread_line_def)
  moreover have "ll_rel m (set_state ?s2 m)"
    by (rule ll_rel_frame [of _ _ "[]"]) (simp_all add: set_state_def ll_same_def)
  ultimately show ?thesis
    unfolding eq using w by (simp add: hpost_def vm_inv_def data_inv_def set_state_def same_ids_def)
qed

lemma handleSyscall_post:
  assumes "work keccak po m" and "tracker_fresh (memoryTracker m)"
  shows "post vm_panics (hpost keccak po m) (handleSyscall keccak po m)"
proof -
  note w = work_current [OF assms(1)]
  let ?t = "current (state m)"
  have fin: "post vm_panics (hpost keccak po m) (Inr (finish_syscall ?t v0 v1 m))" for v0 v1
    using mid_hpost [OF mid_finish [OF mid_refl [OF assms(1)] w(2)]] by simp
  have mmap: "post vm_panics (hpost keccak po m)
      (case HandleSysMmap a0 a1 h of (v0, v1, newHeap) \<Rightarrow>
         Inr (finish_syscall ?t v0 v1 (set_state ((state m)\<lparr>Heap := newHeap\<rparr>) m)))" for a0 a1 h
  proof (rule post_split, rule post_split)
    fix v0 v1h v1 heap
    have "mid keccak po m (set_state ((state m)\<lparr>Heap := heap\<rparr>) m)"
    proof (rule mid_fields [OF assms(1)])
      show "ll_rel m (set_state ((state m)\<lparr>Heap := heap\<rparr>) m)"
        by (rule ll_rel_frame [of _ _ "[]"]) (simp_all add: set_state_def ll_same_def)
    qed (use w in \<open>simp_all add: set_state_def\<close>)
    then show "post vm_panics (hpost keccak po m)
        (Inr (finish_syscall ?t v0 v1 (set_state ((state m)\<lparr>Heap := heap\<rparr>) m)))"
      using mid_hpost [OF mid_finish [OF _ w(2)]] by simp
  qed
  have exit: "post vm_panics (hpost keccak po m) (Inr (set_state ((state m)\<lparr>Exited := True, ExitCode := c\<rparr>) m))" for c
    using hpost_exit [OF mid_refl [OF assms(1)]] by simp
  have yield: "post vm_panics (hpost keccak po m) (syscallYield ?t m)"
    by (rule post_weaken [OF syscallYield_post [OF assms(1) w(2) refl]]) simp_all
  have fcntl: "post vm_panics (hpost keccak po m)
      (case HandleSysFcntl a0 a1 of (v0, v1) \<Rightarrow> Inr (finish_syscall ?t v0 v1 m))" for a0 a1
    by (rule post_split) (rule fin)
  have clone: "post vm_panics (hpost keccak po m) (Inr (sys_clone ?t a0 a1 m))"
    and ex: "post vm_panics (hpost keccak po m) (Inr (sys_exit ?t a0 m))" for a0 a1
    using sys_clone_post [OF assms(1) refl] sys_exit_post [OF assms(1) refl] by simp_all
  have bad: "post vm_panics (hpost keccak po m) (Inl UnrecognizedSyscall)" by (simp add: vm_panics_def)
  show ?thesis
    unfolding handleSyscall_def Let_def w(3) bind_res_Inr GetSyscallArgs_def split_conv
    by (intro post_both fin mmap clone exit sys_read_post [OF assms refl] sys_write_post [OF assms refl] fcntl ex
      sys_futex_post [OF assms refl] yield sys_clock_gettime_post [OF assms refl] bad)
qed

section \<open>Load-linked, store-conditional and ordinary instructions\<close>

lemma StoreSubWord_post:
  assumes "tree_ok keccak (mem s)" and "tracker_fresh (tracker s)"
  shows "post {} (\<lambda>s'. tree_ok keccak (mem s') \<and> mem_frame (Some (vaddr AND AddressMask)) (mem s) (mem s') \<and>
    cpu s' = cpu s \<and> regs s' = regs s) (StoreSubWord keccak vaddr n v s)"
  unfolding StoreSubWord_def
proof (rule post_bind [OF tracked_GetWord_post [OF assms(1) aligned_AddressMask tracker_fresh_at [OF assms(2)]]], clarify)
  fix w s1
  assume s1: "tree_ok keccak (mem s1)" "word_at (mem s1) = word_at (mem s)" "core_same s s1"
  let ?v = "UpdateSubWord vaddr (word_at (mem s) (vaddr AND AddressMask)) n v"
  show "post {} (\<lambda>s'. tree_ok keccak (mem s') \<and> mem_frame (Some (vaddr AND AddressMask)) (mem s) (mem s') \<and>
      cpu s' = cpu s \<and> regs s' = regs s)
     (bind_res (SetWord (mem s1) (vaddr AND AddressMask) ?v) (\<lambda>m. Inr (s1\<lparr>mem := m\<rparr>)))"
    by (rule post_bind [OF SetWord_post [OF s1(1) aligned_AddressMask]])
      (use s1 in \<open>simp add: core_same_def mem_frame_def del: AddressMask_def\<close>)
qed

text \<open>The common tail of both operations: write the destination register, put the core back.\<close>

lemma rmw_write_back:
  assumes "work keccak po m" and "t = current (state m)" and "unat rtReg < 32"
    and c: "tree_ok keccak (mem c)" "reg_inv (regs c)"
    and rel: "\<And>r. ll_rel m (put_core m1 t (c\<lparr>cpu := fst r, regs := snd r\<rparr>))"
    and m1: "TraverseRight (state m1) = TraverseRight (state m)" "LeftThreadStack (state m1) = LeftThreadStack (state m)"
      "RightThreadStack (state m1) = RightThreadStack (state m)" "NextThreadId (state m1) = NextThreadId (state m)"
      "StepsSinceLastContextSwitch (state m1) = StepsSinceLastContextSwitch (state m)"
      "Step (state m1) = Step (state m)" "PreimageKey (state m1) = PreimageKey (state m)"
      "preimageOracle m1 = preimageOracle m"
  shows "post vm_panics (hpost keccak po m) (bind_res (HandleRd (cpu c) (regs c) rtReg retVal True) (\<lambda>(c', r').
    Inr (put_core m1 t (c\<lparr>cpu := c', regs := r'\<rparr>))))"
proof -
  note w = work_current [OF assms(1)]
  have "post vm_panics (\<lambda>(c', r'). reg_inv r') (HandleRd (cpu c) (regs c) rtReg retVal True)"
    by (rule post_weaken [OF HandleRd_post [OF c(2) assms(3)]]) auto
  then show ?thesis
  proof (rule post_bind, clarify)
    fix c' r' assume r: "reg_inv r'"
    let ?t = "t\<lparr>Cpu := c', Registers := r'\<rparr>"
    let ?m' = "put_core m1 t (c\<lparr>cpu := c', regs := r'\<rparr>)"
    have l: "live ?t" using w(2) assms(2) r by (simp add: live_def)
    have th: "getActiveThreadStack (state m1) = getActiveThreadStack (state m)"
      "current (state m1) = current (state m)" by (rule threads_cong [OF m1(1-3)])+
    have run: "running (state m1)" using running_cong [OF m1(1-3,5)] w(7) by simp
    have "running (state ?m')"
      using running_put [OF run l] running_cong [of "state ?m'" "putCurrentThread (state m1) ?t"]
      by (simp add: put_core_def log_stack_def)
    moreover have "thread_ids (state ?m') = thread_ids (state m)"
    proof -
      have "thread_ids (state ?m') = thread_ids (putCurrentThread (state m1) ?t)"
        by (simp add: thread_ids_def thread_line_def put_core_def log_stack_def)
      also have "\<dots> = thread_ids (state m1)"
        using w(1) th assms(2) by (intro thread_ids_put) simp_all
      finally show ?thesis by (simp add: thread_ids_def thread_line_def m1)
    qed
    moreover have "ll_rel m ?m'" using rel [of "(c', r')"] by simp
    ultimately have "hpost keccak po m ?m'"
      using w c(1) m1 running_sched
      by (simp add: hpost_def vm_inv_def data_inv_def same_ids_def) (simp add: put_core_def log_stack_def)
    then show "post vm_panics (hpost keccak po m) (Inr ?m')" by simp
  qed
qed

lemma handleRMWOps_post:
  assumes "work keccak po m" and "tracker_fresh (memoryTracker m)"
    and op: "opcode \<in> {OpLoadLinked, OpStoreConditional, OpLoadLinked64, OpStoreConditional64}"
  shows "post vm_panics (hpost keccak po m) (handleRMWOps keccak insn opcode m)"
proof -
  note w = work_current [OF assms(1)]
  let ?t = "current (state m)" and ?rt = "ucast (drop_bit 16 insn AND 0x1F) :: Word"
  have reg: "reg_inv (Registers ?t)" using w(2) by (simp add: live_def)
  have rt: "unat ?rt < 32" by (rule reg_index_less)
  have get: "post vm_panics (\<lambda>_. True) (reg_get (Registers ?t) (ucast (drop_bit k insn AND 0x1F)))" for k
    by (rule post_weaken [OF reg_get_post [OF reg reg_index_less]]) simp_all
  have ll: "post vm_panics (hpost keccak po m)
      (bind_res (LoadSubWord keccak addr n True (core_of m ?t)) (\<lambda>(retVal, c).
        bind_res (HandleRd (cpu c) (regs c) ?rt retVal True) (\<lambda>(c', r').
          Inr (put_core (log_stats [TrackLL tid (Step (state m))]
                  (set_state ((state m)\<lparr>LLReservationStatus := st, LLAddress := addr, LLOwnerThread := tid\<rparr>) m))
                ?t (c\<lparr>cpu := c', regs := r'\<rparr>)))))" for addr n tid st
  proof (rule post_bind [OF post_weaken [OF LoadSubWord_post]], use w(4) assms(2) in simp_all, clarify)
    fix v :: Word and c assume c: "tree_ok keccak (mem c)" "core_same (core_of m ?t) c"
    let ?m1 = "log_stats [TrackLL tid (Step (state m))]
      (set_state ((state m)\<lparr>LLReservationStatus := st, LLAddress := addr, LLOwnerThread := tid\<rparr>) m)"
    show "post vm_panics (hpost keccak po m) (bind_res (HandleRd (cpu c) (regs c) ?rt v True) (\<lambda>(c', r').
          Inr (put_core ?m1 ?t (c\<lparr>cpu := c', regs := r'\<rparr>))))"
    proof (rule rmw_write_back [OF assms(1) refl rt c(1)])
      show "reg_inv (regs c)" using c(2) reg by (simp add: core_same_def)
      show "ll_rel m (put_core ?m1 ?t (c\<lparr>cpu := fst r, regs := snd r\<rparr>))" for r
        unfolding ll_rel_def
        by (rule exI [of _ "[TrackLL tid (Step (state m))]"])
          (simp add: put_core_def log_stack_def log_stats_def set_state_def is_LL_def)
    qed (simp_all add: log_stats_def set_state_def)
  qed
  have sc: "post vm_panics (hpost keccak po m)
      (bind_res (reg_get (Registers ?t) ?rt) (\<lambda>val.
        bind_res (StoreSubWord keccak addr n val (core_of m ?t)) (\<lambda>c.
          bind_res (HandleRd (cpu c) (regs c) ?rt 1 True) (\<lambda>(c', r').
            Inr (put_core (log_stats [TrackSCSuccess tid (Step (state m))]
                  (set_state (clearLLMemoryReservation (state m)) m)) ?t (c\<lparr>cpu := c', regs := r'\<rparr>))))))" for addr n tid
  proof (rule post_bind [OF get], rule post_bind [OF post_weaken [OF StoreSubWord_post]], use w(4) assms(2) in simp_all)
    fix c :: Core
    assume "tree_ok keccak (mem c) \<and> mem_frame (Some (addr AND 18446744073709551608)) (StMemory (state m)) (mem c) \<and>
      cpu c = Cpu ?t \<and> regs c = Registers ?t"
    then have c: "tree_ok keccak (mem c)" "cpu c = Cpu ?t" "regs c = Registers ?t" by simp_all
    let ?m1 = "log_stats [TrackSCSuccess tid (Step (state m))] (set_state (clearLLMemoryReservation (state m)) m)"
    have "post vm_panics (hpost keccak po m) (bind_res (HandleRd (cpu c) (regs c) ?rt 1 True) (\<lambda>(c', r').
          Inr (put_core ?m1 ?t (c\<lparr>cpu := c', regs := r'\<rparr>))))"
    proof (rule rmw_write_back [OF assms(1) refl rt c(1)])
      show "reg_inv (regs c)" using c(3) reg by simp
      show "ll_rel m (put_core ?m1 ?t (c\<lparr>cpu := fst r, regs := snd r\<rparr>))" for r
        unfolding ll_rel_def
        by (rule exI [of _ "[TrackSCSuccess tid (Step (state m))]"])
          (simp add: put_core_def log_stack_def log_stats_def set_state_def clearLLMemoryReservation_def)
    qed (simp_all add: log_stats_def set_state_def clearLLMemoryReservation_def)
    then show "post vm_panics (hpost keccak po m) (bind_res (HandleRd (Cpu ?t) (Registers ?t) ?rt 1 True) (\<lambda>(c', r').
          Inr (put_core ?m1 ?t (c\<lparr>cpu := c', regs := r'\<rparr>))))" using c by simp
  qed
  have fail: "post vm_panics (hpost keccak po m)
      (bind_res (HandleRd (cpu (core_of m ?t)) (regs (core_of m ?t)) ?rt 0 True) (\<lambda>(c', r').
         Inr (put_core (log_stats [TrackSCFailure tid (Step (state m))] m) ?t ((core_of m ?t)\<lparr>cpu := c', regs := r'\<rparr>))))"
    for tid
  proof (rule rmw_write_back [OF assms(1) refl rt])
    let ?m1 = "log_stats [TrackSCFailure tid (Step (state m))] m"
    show "ll_rel m (put_core ?m1 ?t ((core_of m ?t)\<lparr>cpu := fst r, regs := snd r\<rparr>))" for r
      by (rule ll_rel_frame [of _ _ "[TrackSCFailure tid (Step (state m))]"])
        (simp_all add: put_core_def log_stack_def log_stats_def ll_same_def)
  qed (use w(4) reg in \<open>simp_all add: log_stats_def\<close>)
  have ops: "(opcode = OpLoadLinked \<or> opcode = OpLoadLinked64) \<or> (opcode = OpStoreConditional \<or> opcode = OpStoreConditional64)"
    using op by blast
  show ?thesis
    unfolding handleRMWOps_def Let_def w(3) bind_res_Inr
  proof (rule post_bind [OF get], rule post_if)
    fix base assume "\<not> (opcode = OpLoadLinked \<or> opcode = OpLoadLinked64)"
    then have sc_op: "opcode = OpStoreConditional \<or> opcode = OpStoreConditional64" using ops by blast
    show "post vm_panics (hpost keccak po m)
       (if opcode = OpStoreConditional \<or> opcode = OpStoreConditional64 then
          if LLReservationStatus (state m) =
               (if opcode = OpLoadLinked64 \<or> opcode = OpStoreConditional64 then LLStatusActive64bit else LLStatusActive32bit) \<and>
             LLOwnerThread (state m) = ThreadId ?t \<and> LLAddress (state m) = base + SignExtendImmediate insn then
            bind_res (reg_get (Registers ?t) ?rt) (\<lambda>val.
            bind_res (StoreSubWord keccak (base + SignExtendImmediate insn)
                (if opcode = OpLoadLinked64 \<or> opcode = OpStoreConditional64 then 8 else 4) val (core_of m ?t)) (\<lambda>c.
              bind_res (HandleRd (cpu c) (regs c) ?rt 1 True) (\<lambda>(c', r').
               Inr (put_core (log_stats [TrackSCSuccess (ThreadId ?t) (Step (state m))]
                  (set_state (clearLLMemoryReservation (state m)) m)) ?t (c\<lparr>cpu := c', regs := r'\<rparr>)))))
          else bind_res (HandleRd (cpu (core_of m ?t)) (regs (core_of m ?t)) ?rt 0 True) (\<lambda>(c', r').
               Inr (put_core (log_stats [TrackSCFailure (ThreadId ?t) (Step (state m))] m) ?t
                 ((core_of m ?t)\<lparr>cpu := c', regs := r'\<rparr>)))
        else Inl InvalidRMWInstruction)"
      unfolding if_P [OF sc_op] by (intro post_both sc fail)
  qed (rule ll)
qed

lemma exec_instruction_post:
  assumes "work keccak po m" and "tracker_fresh (memoryTracker m)"
  shows "post vm_panics (hpost keccak po m) (exec_instruction keccak insn opcode fn m)"
proof -
  note w = work_current [OF assms(1)]
  let ?t = "current (state m)"
  have reg: "reg_inv (Registers ?t)" using w(2) by (simp add: live_def)
  have "post vm_panics (core_post keccak (core_of m ?t)) (ExecMipsCoreStepLogic keccak insn opcode fn (core_of m ?t))"
    by (rule post_weaken [OF ExecMipsCoreStepLogic_post]) (use w(4) reg assms(2) in \<open>auto simp: vm_panics_def\<close>)
  then show ?thesis
    unfolding exec_instruction_def Let_def w(3) bind_res_Inr
  proof (rule post_bind, clarify)
    fix upd c assume c: "core_post keccak (core_of m ?t) (upd, c)"
    let ?m' = "case upd of None \<Rightarrow> put_core m ?t c | Some a \<Rightarrow> handleMemoryUpdate a (put_core m ?t c)"
    have "mid keccak po m ?m'"
      using c mid_put_core [OF assms(1) refl, of c] mid_put_core_update [OF assms(1) refl, of c]
      by (cases upd) (simp_all add: core_post_def)
    then show "post vm_panics (hpost keccak po m) (Inr ?m')" by (simp add: mid_hpost)
  qed
qed

lemma GetInstructionDetails_post:
  assumes "tree_ok keccak m"
  shows "post {InvalidPC} (\<lambda>(i, m'). tree_ok keccak m' \<and> word_at m' = word_at m) (GetInstructionDetails pc m)"
  unfolding GetInstructionDetails_def Let_def
  by (rule post_if, simp, rule post_bind [OF post_weaken [OF GetWord_post [OF assms aligned_AddressMask]]]) auto

end
