(* ===== verification/VM_Run.thy ===== *)
theory VM_Run
  imports VM_Step
begin

text \<open>The whole step, and runs of the machine.\<close>

lemma stepping_work:
  assumes "vm_inv keccak po m" and "\<not> ThExited (current (state m))"
  shows "work keccak po m"
  using assms by (simp add: work_def vm_inv_def running_def live_def sched_inv_def)

lemma work_next_step:
  assumes "work keccak po m" and "n \<le> SchedQuantum"
  shows "work keccak po (set_state ((state m)\<lparr>Step := k, StepsSinceLastContextSwitch := n\<rparr>) m)"
  using assms unfolding work_def data_inv_def set_state_def running_iff
  by (auto simp: getActiveThreadStack_def split: if_splits)

text \<open>What one step does to a machine that has not exited: the invariant is kept, the step counter
  advances by one, reservations are respected, and the multiset of thread ids stays, loses one
  thread, or gains the next id.\<close>

definition popped_ids :: "State \<Rightarrow> State \<Rightarrow> bool" where
  "popped_ids s s' \<longleftrightarrow> NextThreadId s' = NextThreadId s \<and> ThExited (current s) \<and>
     thread_ids s = add_mset (ThreadId (current s)) (thread_ids s')"

definition step_post :: "keccak_fn \<Rightarrow> oracle_fn \<Rightarrow> InstrumentedState \<Rightarrow> InstrumentedState \<Rightarrow> bool" where
  "step_post keccak po m m' \<longleftrightarrow> vm_inv keccak po m' \<and> ll_rel m m' \<and> Step (state m') = Step (state m) + 1 \<and>
     (same_ids (state m) (state m') \<or> cloned_ids (state m) (state m') \<or> popped_ids (state m) (state m'))"

lemma popThread_ids:
  assumes "getActiveThreadStack s \<noteq> []" and "popThread s = Inr s'"
  shows "thread_ids s = add_mset (ThreadId (current s)) (thread_ids s')"
proof -
  from active_split [OF assms(1)] obtain a where a: "getActiveThreadStack s = a @ [current s]" by blast
  then have b: "butlast (getActiveThreadStack s) = a" by (metis butlast_snoc)
  show ?thesis
  proof (cases "TraverseRight s")
    case True
    then have "RightThreadStack s = a @ [current s]" using a by (simp add: getActiveThreadStack_def)
    then show ?thesis
      using assms(2) True by (auto simp: popThread_def thread_ids_def thread_line_def Let_def split: if_splits)
  next
    case False
    then have "LeftThreadStack s = a @ [current s]" using a by (simp add: getActiveThreadStack_def)
    then show ?thesis
      using assms(2) False by (auto simp: popThread_def thread_ids_def thread_line_def Let_def split: if_splits)
  qed
qed

lemma same_reservation:
  assumes "statsLog m' = statsLog m" and "LLReservationStatus (state m') = LLReservationStatus (state m)"
    and "LLAddress (state m') = LLAddress (state m)" and "LLOwnerThread (state m') = LLOwnerThread (state m)"
    and "word_at (StMemory (state m')) = word_at (StMemory (state m))"
  shows "ll_rel m m'"
  by (rule ll_rel_frame [of _ _ "[]"]) (use assms in \<open>simp_all add: ll_same_def mem_frame_same\<close>)

lemma doMipsStep_pop:
  assumes "vm_inv keccak po m" and "\<not> Exited (state m)" and "ThExited (current (state m))"
  shows "post {} (step_post keccak po m) (bind_res (popThread ((state m)\<lparr>Step := Step (state m) + 1\<rparr>))
    (\<lambda>s. Inr (log_stack e (set_state s (set_state ((state m)\<lparr>Step := Step (state m) + 1\<rparr>) m)))))"
proof -
  let ?s = "(state m)\<lparr>Step := Step (state m) + 1\<rparr>"
  have th: "getActiveThreadStack ?s = getActiveThreadStack (state m)" "rest_threads ?s = rest_threads (state m)"
    "current ?s = current (state m)" by (rule threads_cong; simp)+
  have s: "sched_inv (state m)" using assms(1) by (simp add: vm_inv_def)
  have sched: "sched_inv ?s" using s unfolding sched_inv_def th by simp
  have rest: "rest_threads ?s \<noteq> []" using s assms(2,3) unfolding th sched_inv_def by blast
  have ne: "getActiveThreadStack ?s \<noteq> []" using sched unfolding sched_inv_def by blast
  from popThread_post [OF sched rest, unfolded post_no_panic] obtain s' l r b where
    s': "popThread ?s = Inr s'" "running s'" "s' = ?s\<lparr>LeftThreadStack := l, RightThreadStack := r,
      TraverseRight := b, StepsSinceLastContextSwitch := 0\<rparr>" by blast
  have ids: "thread_ids ?s = add_mset (ThreadId (current (state m))) (thread_ids s')"
    using popThread_ids [OF ne s'(1)] unfolding th .
  have "thread_ids ?s = thread_ids (state m)" by (simp add: thread_ids_def thread_line_def)
  with ids have "popped_ids (state m) s'" using assms(3) s'(3) by (simp add: popped_ids_def)
  moreover have "ll_rel m (log_stack e (set_state s' (set_state ?s m)))"
    by (rule same_reservation) (simp_all add: log_stack_def set_state_def s'(3))
  moreover have "data_inv keccak po (log_stack e (set_state s' (set_state ?s m)))"
    using assms(1) by (simp add: vm_inv_def data_inv_def log_stack_def set_state_def s'(3))
  ultimately show ?thesis
    unfolding s'(1) bind_res_Inr post_Inr step_post_def vm_inv_def
    using running_sched [OF s'(2)] s'(3) by (simp add: log_stack_def set_state_def)
qed

lemma hpost_step:
  assumes "hpost keccak po m2 m'" and "ll_rel m m2" and "Step (state m2) = Step (state m) + 1"
    and "NextThreadId (state m2) = NextThreadId (state m)" and "thread_ids (state m2) = thread_ids (state m)"
  shows "step_post keccak po m m'"
  using assms ll_rel_trans [OF assms(2)] by (auto simp: hpost_def step_post_def same_ids_def cloned_ids_def)

lemma doMipsStep_preempt:
  assumes "work keccak po m" and "t = current (state m)"
  shows "post {} (step_post keccak po m) (bind_res (preemptThread t (set_state ((state m)\<lparr>Step := Step (state m) + 1\<rparr>) m))
    (\<lambda>(_, m1). Inr (log_stats [TrackForcedPreemption] m1)))"
proof -
  let ?s = "(state m)\<lparr>Step := Step (state m) + 1\<rparr>" let ?m0 = "set_state ?s m"
  have w0: "work keccak po ?m0"
    using assms(1) running_cong [of ?s "state m"] by (simp add: work_def data_inv_def set_state_def)
  have t: "t = current (state ?m0)" using threads_cong(3) [of ?s "state m"] assms(2) by (simp add: set_state_def)
  show ?thesis
  proof (rule post_bind [OF preemptThread_post [OF work_current(7) [OF w0] t]], clarify)
    fix b m1 assume p: "running (state m1)" "thread_line (state m1) = thread_line (state ?m0)" "preempted ?m0 m1"
    have "hpost keccak po ?m0 m1" by (rule hpost_preempted [OF w0 p])
    then have "hpost keccak po ?m0 (log_stats [TrackForcedPreemption] m1)"
      by (auto simp: hpost_def vm_inv_def data_inv_def log_stats_def ll_rel_def ll_same_def words_def)
    moreover have "ll_rel m ?m0" by (rule same_reservation) (simp_all add: set_state_def)
    ultimately show "post {} (step_post keccak po m) (Inr (log_stats [TrackForcedPreemption] m1))"
      unfolding post_Inr by (rule hpost_step) (simp_all add: set_state_def thread_ids_def thread_line_def)
  qed
qed

lemma doMipsStep_post:
  assumes "vm_inv keccak po m" and "tracker_fresh (memoryTracker m)" and "\<not> Exited (state m)"
  shows "post vm_panics (step_post keccak po m) (doMipsStep keccak po m)"
proof -
  let ?s = "(state m)\<lparr>Step := Step (state m) + 1\<rparr>" let ?m0 = "set_state ?s m"
  let ?t = "current (state m)"
  have cur: "GetCurrentThread (state ?m0) = Inr ?t"
    using assms(1) GetCurrentThread_current [of ?s] threads_cong [of ?s "state m"]
    by (simp add: set_state_def vm_inv_def sched_inv_def)
  show ?thesis
    unfolding doMipsStep_def Let_def if_not_P [OF assms(3)] cur bind_res_Inr
  proof (intro post_if)
    assume "ThExited ?t"
    have eq: "state ?m0 = ?s" by (simp add: set_state_def)
    from doMipsStep_pop [OF assms(1,3) \<open>ThExited ?t\<close>]
    show "post vm_panics (step_post keccak po m) (bind_res (popThread (state ?m0))
        (\<lambda>s. Inr (log_stack [TDrop (ThreadId ?t)] (set_state s ?m0))))"
      unfolding eq by (rule post_weaken) simp_all
  next
    assume "\<not> ThExited ?t"
    then have w: "work keccak po m" by (rule stepping_work [OF assms(1)])
    from doMipsStep_preempt [OF w refl]
    show "post vm_panics (step_post keccak po m) (bind_res (preemptThread ?t ?m0)
        (\<lambda>(_, m1). Inr (log_stats [TrackForcedPreemption] m1)))"
      by (rule post_weaken) simp_all
  next
    assume nx: "\<not> ThExited ?t" and q: "\<not> SchedQuantum \<le> StepsSinceLastContextSwitch (state ?m0)"
    let ?m1 = "set_state ((state ?m0)\<lparr>StepsSinceLastContextSwitch := StepsSinceLastContextSwitch (state ?m0) + 1\<rparr>) ?m0"
    have w: "work keccak po m" by (rule stepping_work [OF assms(1) nx])
    have "StepsSinceLastContextSwitch (state m) + 1 \<le> SchedQuantum"
      by (rule inc_le) (use q in \<open>simp add: set_state_def\<close>)
    from work_next_step [OF w this, of "Step (state m) + 1"] have w1: "work keccak po ?m1"
      by (simp add: set_state_def)
    note c1 = work_current [OF w1]
    have "post vm_panics (\<lambda>(i, m'). tree_ok keccak m' \<and> word_at m' = words m)
        (GetInstructionDetails pc (StMemory (state ?m1)))" for pc
      by (rule post_weaken [OF GetInstructionDetails_post [OF c1(4)]])
        (auto simp: vm_panics_def words_def set_state_def)
    then show "post vm_panics (step_post keccak po m) (bind_res (GetPC (state ?m1)) (\<lambda>pc.
        bind_res (GetInstructionDetails pc (StMemory (state ?m1))) (\<lambda>((insn, opcode, fn), mem').
          if opcode = 0 \<and> fn = 0xC then handleSyscall keccak po (set_state ((state ?m1)\<lparr>StMemory := mem'\<rparr>) ?m1)
          else if opcode = OpLoadLinked \<or> opcode = OpStoreConditional
            then handleRMWOps keccak insn opcode (set_state ((state ?m1)\<lparr>StMemory := mem'\<rparr>) ?m1)
          else if opcode = OpLoadLinked64 \<or> opcode = OpStoreConditional64 then
            if IsMips32 then Inl InvalidInstruction
            else handleRMWOps keccak insn opcode (set_state ((state ?m1)\<lparr>StMemory := mem'\<rparr>) ?m1)
          else exec_instruction keccak insn opcode fn (set_state ((state ?m1)\<lparr>StMemory := mem'\<rparr>) ?m1))))"
      unfolding GetPC_def c1(3) bind_res_Inr
    proof (rule post_bind, clarify)
      fix insn opcode fn :: u32 and mem' assume mem': "tree_ok keccak mem'" "word_at mem' = words m"
      let ?m2 = "set_state ((state ?m1)\<lparr>StMemory := mem'\<rparr>) ?m1"
      have w2: "work keccak po ?m2"
        using w1 mem'(1) running_cong [of "state ?m2" "state ?m1"]
        by (simp add: work_def data_inv_def set_state_def)
      have fr: "tracker_fresh (memoryTracker ?m2)" using assms(2) by (simp add: set_state_def)
      have ll: "ll_rel m ?m2"
        by (rule same_reservation) (use mem'(2) in \<open>simp_all add: set_state_def words_def\<close>)
      have lift: "post vm_panics (step_post keccak po m) r" if "post vm_panics (hpost keccak po ?m2) r" for r
        by (rule post_weaken [OF that subset_refl hpost_step [OF _ ll]])
          (simp_all add: set_state_def thread_ids_def thread_line_def)
      have bad: "post vm_panics (step_post keccak po m) (Inl InvalidInstruction)"
        by (simp add: vm_panics_def core_panics_def)
      have rmw: "post vm_panics (step_post keccak po m) (handleRMWOps keccak insn opcode ?m2)"
        if "opcode = OpLoadLinked \<or> opcode = OpStoreConditional \<or> opcode = OpLoadLinked64 \<or> opcode = OpStoreConditional64"
        by (rule lift [OF handleRMWOps_post [OF w2 fr]]) (use that in blast)
      show "post vm_panics (step_post keccak po m)
         (if opcode = 0 \<and> fn = 0xC then handleSyscall keccak po ?m2
          else if opcode = OpLoadLinked \<or> opcode = OpStoreConditional then handleRMWOps keccak insn opcode ?m2
          else if opcode = OpLoadLinked64 \<or> opcode = OpStoreConditional64 then
            if IsMips32 then Inl InvalidInstruction else handleRMWOps keccak insn opcode ?m2
          else exec_instruction keccak insn opcode fn ?m2)"
        by (intro post_if bad lift [OF handleSyscall_post [OF w2 fr]] lift [OF exec_instruction_post [OF w2 fr]]
          rmw) blast+
    qed
  qed
qed

end
