(* ===== verification/Witness.thy ===== *)
theory Witness
  imports VM_Invariant
begin

unbundle bit_operations_syntax

text \<open>
  The commitments of \<open>cannon/mipsevm/multithreaded/thread.go\<close> and \<open>state.go\<close>: the serialized thread,
  the hash onion of a thread stack, the state witness and its hash, and the thread proof.  \<open>keccak\<close>
  stands for \<open>crypto.Keccak256Hash\<close>; the properties say what a witness commits to, up to an explicit
  hash collision.
\<close>

section \<open>Layout\<close>

definition THREAD_ID_STATE_WITNESS_OFFSET :: nat where "THREAD_ID_STATE_WITNESS_OFFSET = 0"
definition THREAD_EXIT_CODE_WITNESS_OFFSET :: nat where
  "THREAD_EXIT_CODE_WITNESS_OFFSET = THREAD_ID_STATE_WITNESS_OFFSET + unat WordSizeBytes"
definition THREAD_EXITED_WITNESS_OFFSET :: nat where
  "THREAD_EXITED_WITNESS_OFFSET = THREAD_EXIT_CODE_WITNESS_OFFSET + 1"
definition THREAD_CPU_WITNESS_OFFSET :: nat where
  "THREAD_CPU_WITNESS_OFFSET = THREAD_EXITED_WITNESS_OFFSET + 1"
definition THREAD_REGISTERS_WITNESS_OFFSET :: nat where
  "THREAD_REGISTERS_WITNESS_OFFSET = THREAD_CPU_WITNESS_OFFSET + 4 * unat WordSizeBytes"
definition SERIALIZED_THREAD_SIZE :: nat where
  "SERIALIZED_THREAD_SIZE = THREAD_REGISTERS_WITNESS_OFFSET + 32 * unat WordSizeBytes"
definition THREAD_WITNESS_SIZE :: nat where "THREAD_WITNESS_SIZE = SERIALIZED_THREAD_SIZE + 32"

definition MEMROOT_WITNESS_OFFSET :: nat where "MEMROOT_WITNESS_OFFSET = 0"
definition PREIMAGE_KEY_WITNESS_OFFSET :: nat where
  "PREIMAGE_KEY_WITNESS_OFFSET = MEMROOT_WITNESS_OFFSET + 32"
definition PREIMAGE_OFFSET_WITNESS_OFFSET :: nat where
  "PREIMAGE_OFFSET_WITNESS_OFFSET = PREIMAGE_KEY_WITNESS_OFFSET + 32"
definition HEAP_WITNESS_OFFSET :: nat where
  "HEAP_WITNESS_OFFSET = PREIMAGE_OFFSET_WITNESS_OFFSET + unat WordSizeBytes"
definition LL_RESERVATION_ACTIVE_OFFSET :: nat where
  "LL_RESERVATION_ACTIVE_OFFSET = HEAP_WITNESS_OFFSET + unat WordSizeBytes"
definition LL_ADDRESS_OFFSET :: nat where "LL_ADDRESS_OFFSET = LL_RESERVATION_ACTIVE_OFFSET + 1"
definition LL_OWNER_THREAD_OFFSET :: nat where
  "LL_OWNER_THREAD_OFFSET = LL_ADDRESS_OFFSET + unat WordSizeBytes"
definition EXITCODE_WITNESS_OFFSET :: nat where
  "EXITCODE_WITNESS_OFFSET = LL_OWNER_THREAD_OFFSET + unat WordSizeBytes"
definition EXITED_WITNESS_OFFSET :: nat where "EXITED_WITNESS_OFFSET = EXITCODE_WITNESS_OFFSET + 1"
definition STEP_WITNESS_OFFSET :: nat where "STEP_WITNESS_OFFSET = EXITED_WITNESS_OFFSET + 1"
definition STEPS_SINCE_CONTEXT_SWITCH_WITNESS_OFFSET :: nat where
  "STEPS_SINCE_CONTEXT_SWITCH_WITNESS_OFFSET = STEP_WITNESS_OFFSET + 8"
definition TRAVERSE_RIGHT_WITNESS_OFFSET :: nat where
  "TRAVERSE_RIGHT_WITNESS_OFFSET = STEPS_SINCE_CONTEXT_SWITCH_WITNESS_OFFSET + 8"
definition LEFT_THREADS_ROOT_WITNESS_OFFSET :: nat where
  "LEFT_THREADS_ROOT_WITNESS_OFFSET = TRAVERSE_RIGHT_WITNESS_OFFSET + 1"
definition RIGHT_THREADS_ROOT_WITNESS_OFFSET :: nat where
  "RIGHT_THREADS_ROOT_WITNESS_OFFSET = LEFT_THREADS_ROOT_WITNESS_OFFSET + 32"
definition THREAD_ID_WITNESS_OFFSET :: nat where
  "THREAD_ID_WITNESS_OFFSET = RIGHT_THREADS_ROOT_WITNESS_OFFSET + 32"
definition STATE_WITNESS_SIZE :: nat where
  "STATE_WITNESS_SIZE = THREAD_ID_WITNESS_OFFSET + unat WordSizeBytes"

lemmas thread_offsets =
  THREAD_ID_STATE_WITNESS_OFFSET_def THREAD_EXIT_CODE_WITNESS_OFFSET_def THREAD_EXITED_WITNESS_OFFSET_def
  THREAD_CPU_WITNESS_OFFSET_def THREAD_REGISTERS_WITNESS_OFFSET_def SERIALIZED_THREAD_SIZE_def THREAD_WITNESS_SIZE_def

lemmas state_offsets =
  MEMROOT_WITNESS_OFFSET_def PREIMAGE_KEY_WITNESS_OFFSET_def PREIMAGE_OFFSET_WITNESS_OFFSET_def
  HEAP_WITNESS_OFFSET_def LL_RESERVATION_ACTIVE_OFFSET_def LL_ADDRESS_OFFSET_def LL_OWNER_THREAD_OFFSET_def
  EXITCODE_WITNESS_OFFSET_def EXITED_WITNESS_OFFSET_def STEP_WITNESS_OFFSET_def
  STEPS_SINCE_CONTEXT_SWITCH_WITNESS_OFFSET_def TRAVERSE_RIGHT_WITNESS_OFFSET_def
  LEFT_THREADS_ROOT_WITNESS_OFFSET_def RIGHT_THREADS_ROOT_WITNESS_OFFSET_def THREAD_ID_WITNESS_OFFSET_def
  STATE_WITNESS_SIZE_def

section \<open>Threads\<close>

definition serializeThread :: "ThreadState \<Rightarrow> byte list" where
  "serializeThread t =
     (let out = bo_AppendWord [] (ThreadId t);
          out = out @ [ThExitCode t];
          out = AppendBoolToWitness out (ThExited t);
          out = bo_AppendWord out (PC (Cpu t));
          out = bo_AppendWord out (NextPC (Cpu t));
          out = bo_AppendWord out (LO (Cpu t));
          out = bo_AppendWord out (HI (Cpu t))
      in fold (\<lambda>r out. bo_AppendWord out r) (Registers t) out)"

definition computeThreadRoot :: "keccak_fn \<Rightarrow> hash \<Rightarrow> ThreadState \<Rightarrow> hash" where
  "computeThreadRoot keccak prevStackRoot threadToPush =
     (let hashedThread = keccak (serializeThread threadToPush)
      in keccak (prevStackRoot @ hashedThread))"

definition EmptyThreadsRoot :: hash where
  "EmptyThreadsRoot =
     [0xad, 0x32, 0x28, 0xb6, 0x76, 0xf7, 0xd3, 0xcd, 0x42, 0x84, 0xa5, 0x44, 0x3f, 0x17, 0xf1, 0x96,
      0x2b, 0x36, 0xe4, 0x91, 0xb3, 0x0a, 0x40, 0xb2, 0x40, 0x58, 0x49, 0xe5, 0x97, 0xba, 0x5f, 0xb5]"

definition calculateThreadStackRoot :: "keccak_fn \<Rightarrow> ThreadState list \<Rightarrow> hash" where
  "calculateThreadStackRoot keccak stack =
     fold (\<lambda>thread curRoot. computeThreadRoot keccak curRoot thread) stack EmptyThreadsRoot"

definition getLeftThreadStackRoot :: "keccak_fn \<Rightarrow> State \<Rightarrow> hash" where
  "getLeftThreadStackRoot keccak s = calculateThreadStackRoot keccak (LeftThreadStack s)"

definition getRightThreadStackRoot :: "keccak_fn \<Rightarrow> State \<Rightarrow> hash" where
  "getRightThreadStackRoot keccak s = calculateThreadStackRoot keccak (RightThreadStack s)"

definition EncodeThreadProof :: "keccak_fn \<Rightarrow> State \<Rightarrow> byte list res" where
  "EncodeThreadProof keccak s =
     (let activeStack = getActiveThreadStack s; threadCount = length activeStack
      in if threadCount = 0 then Inl InvalidEmptyThreadStack
         else
           let activeThread = activeStack ! (threadCount - 1);
               otherThreads = take (threadCount - 1) activeStack
           in Inr (serializeThread activeThread @ calculateThreadStackRoot keccak otherThreads))"

section \<open>The state witness\<close>

definition stateHashFromWitness :: "keccak_fn \<Rightarrow> byte list \<Rightarrow> hash res" where
  "stateHashFromWitness keccak sw =
     (if length sw \<noteq> STATE_WITNESS_SIZE then Inl InvalidWitnessLength
      else
        let hsh = keccak sw;
            exitCode = sw ! EXITCODE_WITNESS_OFFSET;
            exited = sw ! EXITED_WITNESS_OFFSET;
            status = VmStatus (exited = 1) exitCode
        in Inr (hsh[0 := status]))"

text \<open>\<open>StateWitness.StateHash\<close>, the function \<open>GetStateHashFn\<close> returns: \<open>None\<close> is its error.\<close>

definition StateHash :: "keccak_fn \<Rightarrow> byte list \<Rightarrow> hash option res" where
  "StateHash keccak sw =
     (if length sw \<noteq> STATE_WITNESS_SIZE then Inr None
      else bind_res (stateHashFromWitness keccak sw) (\<lambda>h. Inr (Some h)))"

definition EncodeWitness :: "keccak_fn \<Rightarrow> State \<Rightarrow> ((byte list \<times> hash) \<times> State) res" where
  "EncodeWitness keccak s =
     bind_res (MerkleRoot keccak (StMemory s)) (\<lambda>(memRoot, mem').
       let out = memRoot @ PreimageKey s;
           out = bo_AppendWord out (PreimageOffset s);
           out = bo_AppendWord out (Heap s);
           out = out @ [LLReservationStatus s];
           out = bo_AppendWord out (LLAddress s);
           out = bo_AppendWord out (LLOwnerThread s);
           out = out @ [ExitCode s];
           out = AppendBoolToWitness out (Exited s);
           out = out @ put_u64 (Step s);
           out = out @ put_u64 (StepsSinceLastContextSwitch s);
           leftStackRoot = getLeftThreadStackRoot keccak s;
           rightStackRoot = getRightThreadStackRoot keccak s;
           out = AppendBoolToWitness out (TraverseRight s);
           out = out @ leftStackRoot;
           out = out @ rightStackRoot;
           out = bo_AppendWord out (NextThreadId s)
       in bind_res (stateHashFromWitness keccak out) (\<lambda>h. Inr ((out, h), s\<lparr>StMemory := mem'\<rparr>)))"

section \<open>Lengths\<close>

lemma fold_AppendWord: "fold (\<lambda>r out. bo_AppendWord out r) rs out = out @ concat (map put_u64 rs)"
  by (induction rs arbitrary: out) (simp_all add: bo_AppendWord_def)

lemma serializeThread_eq:
  "serializeThread t = put_u64 (ThreadId t) @ [ThExitCode t, if ThExited t then 1 else 0] @
     put_u64 (PC (Cpu t)) @ put_u64 (NextPC (Cpu t)) @ put_u64 (LO (Cpu t)) @ put_u64 (HI (Cpu t)) @
     concat (map put_u64 (Registers t))"
  by (simp add: serializeThread_def Let_def fold_AppendWord) (simp add: bo_AppendWord_def AppendBoolToWitness_def)

lemma length_words: "length (concat (map put_u64 ws)) = 8 * length ws"
  by (induction ws) simp_all

lemma length_serializeThread: "length (Registers t) = 32 \<Longrightarrow> length (serializeThread t) = SERIALIZED_THREAD_SIZE"
  by (simp add: serializeThread_eq length_words thread_offsets)

definition hash_fn :: "keccak_fn \<Rightarrow> bool" where
  "hash_fn keccak \<longleftrightarrow> (\<forall>bs. length (keccak bs) = 32)"

lemma length_EmptyThreadsRoot [simp]: "length EmptyThreadsRoot = 32"
  by (simp add: EmptyThreadsRoot_def)

lemma stack_root_snoc:
  "calculateThreadStackRoot keccak (ts @ [t]) = computeThreadRoot keccak (calculateThreadStackRoot keccak ts) t"
  by (simp add: calculateThreadStackRoot_def)

lemma stack_root_Nil [simp]: "calculateThreadStackRoot keccak [] = EmptyThreadsRoot"
  by (simp add: calculateThreadStackRoot_def)

lemma length_stack_root: "hash_fn keccak \<Longrightarrow> length (calculateThreadStackRoot keccak ts) = 32"
  by (cases ts rule: rev_cases) (simp_all add: stack_root_snoc computeThreadRoot_def Let_def hash_fn_def)

lemma length_subtree: "hash_fn keccak \<Longrightarrow> length (subtree keccak f h i) = 32"
  by (cases h) (simp_all add: hash_fn_def HashPair_def)

text \<open>The witness, with the hash of its memory named.\<close>

definition witness_bytes :: "keccak_fn \<Rightarrow> State \<Rightarrow> byte list" where
  "witness_bytes keccak s =
     subtree keccak (mem_byte (StMemory s)) 59 0 @ PreimageKey s @ put_u64 (PreimageOffset s) @ put_u64 (Heap s) @
     [LLReservationStatus s] @ put_u64 (LLAddress s) @ put_u64 (LLOwnerThread s) @
     [ExitCode s] @ [if Exited s then 1 else 0] @ put_u64 (Step s) @ put_u64 (StepsSinceLastContextSwitch s) @
     [if TraverseRight s then 1 else 0] @ calculateThreadStackRoot keccak (LeftThreadStack s) @
     calculateThreadStackRoot keccak (RightThreadStack s) @ put_u64 (NextThreadId s)"

lemma length_witness:
  assumes "hash_fn keccak" and "length (PreimageKey s) = 32"
  shows "length (witness_bytes keccak s) = STATE_WITNESS_SIZE"
  using assms by (simp add: witness_bytes_def length_stack_root length_subtree state_offsets)

lemma witness_exit:
  assumes "hash_fn keccak" and "length (PreimageKey s) = 32"
  shows "witness_bytes keccak s ! EXITCODE_WITNESS_OFFSET = ExitCode s"
    and "witness_bytes keccak s ! EXITED_WITNESS_OFFSET = (if Exited s then 1 else 0)"
  using assms by (simp_all add: witness_bytes_def state_offsets length_subtree nth_append)

lemma EncodeWitness_spec:
  assumes "tree_ok keccak (StMemory s)" and "hash_fn keccak" and "length (PreimageKey s) = 32"
  shows "\<exists>mem'. EncodeWitness keccak s = Inr ((witness_bytes keccak s,
      (keccak (witness_bytes keccak s))[0 := VMStatus s]), s\<lparr>StMemory := mem'\<rparr>) \<and>
    tree_ok keccak mem' \<and> cache_step (StMemory s) mem'"
proof -
  from MerkleRoot_spec [OF assms(1)] obtain mem' where
    m: "MerkleRoot keccak (StMemory s) = Inr (subtree keccak (mem_byte (StMemory s)) 59 0, mem')"
      "tree_ok keccak mem'" "cache_step (StMemory s) mem'" by blast
  have "stateHashFromWitness keccak (witness_bytes keccak s) = Inr ((keccak (witness_bytes keccak s))[0 := VMStatus s])"
    using length_witness [OF assms(2,3)] witness_exit [OF assms(2,3)]
    by (simp add: stateHashFromWitness_def Let_def VMStatus_def)
  then have "EncodeWitness keccak s = Inr ((witness_bytes keccak s,
      (keccak (witness_bytes keccak s))[0 := VMStatus s]), s\<lparr>StMemory := mem'\<rparr>)"
    unfolding EncodeWitness_def m(1) bind_res_Inr Let_def split_conv
    by (simp add: witness_bytes_def bo_AppendWord_def AppendBoolToWitness_def getLeftThreadStackRoot_def
        getRightThreadStackRoot_def split: if_splits)
  then show ?thesis using m(2,3) by blast
qed

section \<open>What a witness commits to\<close>

text \<open>The byte strings hashed for a memory tree, for a thread stack and for a state.\<close>

fun subtree_inputs :: "keccak_fn \<Rightarrow> (nat \<Rightarrow> byte) \<Rightarrow> nat \<Rightarrow> nat \<Rightarrow> byte list set" where
  "subtree_inputs keccak f 0 i = {}"
| "subtree_inputs keccak f (Suc h) i =
     insert (subtree keccak f h (2 * i) @ subtree keccak f h (2 * i + 1))
       (subtree_inputs keccak f h (2 * i) \<union> subtree_inputs keccak f h (2 * i + 1))"

definition stack_inputs :: "keccak_fn \<Rightarrow> ThreadState list \<Rightarrow> byte list set" where
  "stack_inputs keccak ts = insert (replicate 64 0) (\<Union>k < length ts.
     {serializeThread (ts ! k), calculateThreadStackRoot keccak (take k ts) @ keccak (serializeThread (ts ! k))})"

definition hash_inputs :: "keccak_fn \<Rightarrow> State \<Rightarrow> byte list set" where
  "hash_inputs keccak s = subtree_inputs keccak (mem_byte (StMemory s)) 59 0 \<union>
     stack_inputs keccak (LeftThreadStack s) \<union> stack_inputs keccak (RightThreadStack s)"

lemma subtree_binding:
  assumes "hash_fn keccak" and "inj_on keccak (subtree_inputs keccak f h i \<union> subtree_inputs keccak g h i)"
    and "subtree keccak f h i = subtree keccak g h i"
    and "i * 2 ^ h * 32 \<le> a" and "a < (i + 1) * 2 ^ h * 32"
  shows "f a = g a"
  using assms(2-5)
proof (induction h arbitrary: i)
  case 0
  have "subtree keccak f 0 i ! (a - i * 32) = f a" "subtree keccak g 0 i ! (a - i * 32) = g a"
    using 0(3,4) by (simp_all add: page_bytes_def)
  then show ?case using 0(2) by simp
next
  case (Suc h)
  let ?f = "subtree keccak f h" and ?g = "subtree keccak g h"
  have "?f (2 * i) @ ?f (2 * i + 1) = ?g (2 * i) @ ?g (2 * i + 1)"
    by (rule inj_onD [OF Suc.prems(1)]) (use Suc.prems(2) in \<open>simp_all add: HashPair_def\<close>)
  then have eq: "?f (2 * i) = ?g (2 * i)" "?f (2 * i + 1) = ?g (2 * i + 1)"
    using length_subtree [OF assms(1)] by (simp_all add: append_eq_append_conv)
  have sub: "inj_on keccak (subtree_inputs keccak f h j \<union> subtree_inputs keccak g h j)"
    if "j = 2 * i \<or> j = 2 * i + 1" for j
    by (rule inj_on_subset [OF Suc.prems(1)]) (use that in auto)
  show ?case
  proof (cases "a < (2 * i + 1) * 2 ^ h * 32")
    case True
    then show ?thesis using Suc.IH [OF sub eq(1)] Suc.prems(3) by (simp add: algebra_simps)
  next
    case False
    then show ?thesis using Suc.IH [OF sub eq(2)] Suc.prems(4) by (simp add: algebra_simps)
  qed
qed

lemma put_u64_append_inject: "put_u64 a @ xs = put_u64 b @ ys \<longleftrightarrow> a = b \<and> xs = ys"
  by (simp add: append_eq_append_conv)

lemma concat_put_u64_inject:
  "length as = length bs \<Longrightarrow> concat (map put_u64 as) = concat (map put_u64 bs) \<longleftrightarrow> as = bs"
  by (induction as bs rule: list_induct2) (simp_all add: put_u64_append_inject)

lemma serializeThread_inject:
  assumes "length (Registers t) = 32" and "length (Registers u) = 32" and "serializeThread t = serializeThread u"
  shows "t = u"
proof -
  have l: "length (Registers t) = length (Registers u)" using assms(1,2) by simp
  have "ThreadId t = ThreadId u \<and> ThExitCode t = ThExitCode u \<and> ThExited t = ThExited u \<and>
      Cpu t = Cpu u \<and> Registers t = Registers u"
    using assms(3) concat_put_u64_inject [OF l]
    by (auto simp: serializeThread_eq put_u64_append_inject split: if_splits)
  then show ?thesis by simp
qed

definition threads_sized :: "ThreadState list \<Rightarrow> bool" where
  "threads_sized ts \<longleftrightarrow> (\<forall>t \<in> set ts. length (Registers t) = 32)"

text \<open>No input hashes to zero and none but the 64 zero bytes to the root of the empty stack.\<close>

lemma stack_root_nonempty:
  assumes "hash_fn keccak" and "keccak (replicate 64 0) = EmptyThreadsRoot"
    and "inj_on keccak (stack_inputs keccak (ts @ [t]))" and "replicate 32 0 \<notin> keccak ` stack_inputs keccak (ts @ [t])"
  shows "calculateThreadStackRoot keccak (ts @ [t]) \<noteq> EmptyThreadsRoot"
proof
  let ?in = "calculateThreadStackRoot keccak ts @ keccak (serializeThread t)"
  have in1: "?in \<in> stack_inputs keccak (ts @ [t])" "serializeThread t \<in> stack_inputs keccak (ts @ [t])"
    unfolding stack_inputs_def by (rule insertI2, rule UN_I [of "length ts"], simp, simp)+
  have in2: "replicate 64 0 \<in> stack_inputs keccak (ts @ [t])" by (simp add: stack_inputs_def)
  assume "calculateThreadStackRoot keccak (ts @ [t]) = EmptyThreadsRoot"
  then have "keccak ?in = keccak (replicate 64 0)"
    using assms(2) by (simp add: stack_root_snoc computeThreadRoot_def Let_def)
  then have "?in = replicate 64 0" using inj_onD [OF assms(3) _ in1(1) in2] by blast
  moreover have "replicate 64 (0 :: byte) = replicate 32 0 @ replicate 32 0" by (simp add: replicate_add [symmetric])
  ultimately have "keccak (serializeThread t) = replicate 32 0"
    using length_stack_root [OF assms(1)] by (simp add: append_eq_append_conv)
  then show False using assms(4) in1(2) by (metis imageI)
qed

lemma stack_inputs_snoc:
  "stack_inputs keccak (ts @ [t]) = stack_inputs keccak ts \<union>
     {serializeThread t, calculateThreadStackRoot keccak ts @ keccak (serializeThread t)}"
proof -
  have "(\<Union>k < length ts. {serializeThread ((ts @ [t]) ! k),
      calculateThreadStackRoot keccak (take k (ts @ [t])) @ keccak (serializeThread ((ts @ [t]) ! k))}) =
    (\<Union>k < length ts. {serializeThread (ts ! k),
      calculateThreadStackRoot keccak (take k ts) @ keccak (serializeThread (ts ! k))})"
    by (rule SUP_cong) (simp_all add: nth_append)
  then show ?thesis by (auto simp: stack_inputs_def lessThan_Suc)
qed

lemma stack_binding:
  assumes "hash_fn keccak" and "keccak (replicate 64 0) = EmptyThreadsRoot"
    and "inj_on keccak (stack_inputs keccak ts \<union> stack_inputs keccak us)"
    and "replicate 32 0 \<notin> keccak ` (stack_inputs keccak ts \<union> stack_inputs keccak us)"
    and "threads_sized ts" and "threads_sized us"
    and "calculateThreadStackRoot keccak ts = calculateThreadStackRoot keccak us"
  shows "ts = us"
  using assms(3-7)
proof (induction ts arbitrary: us rule: rev_induct)
  case Nil
  show ?case
  proof (cases us rule: rev_cases)
    case (snoc us' u)
    have "calculateThreadStackRoot keccak (us' @ [u]) \<noteq> EmptyThreadsRoot"
      by (rule stack_root_nonempty [OF assms(1,2)])
        (use Nil.prems(1,2) snoc in \<open>auto intro: inj_on_subset\<close>)
    then show ?thesis using Nil.prems(5) snoc by simp
  qed simp
next
  case (snoc t ts)
  show ?case
  proof (cases us rule: rev_cases)
    case Nil
    have "calculateThreadStackRoot keccak (ts @ [t]) \<noteq> EmptyThreadsRoot"
      by (rule stack_root_nonempty [OF assms(1,2)])
        (use snoc.prems(1,2) in \<open>auto intro: inj_on_subset\<close>)
    then show ?thesis using snoc.prems(5) Nil by simp
  next
    case us: (snoc us' u)
    note inj = snoc.prems(1) [unfolded us stack_inputs_snoc]
    have "calculateThreadStackRoot keccak ts @ keccak (serializeThread t) =
        calculateThreadStackRoot keccak us' @ keccak (serializeThread u)"
      by (rule inj_onD [OF inj])
        (use snoc.prems(5) us in \<open>simp_all add: stack_root_snoc computeThreadRoot_def Let_def\<close>)
    then have r: "calculateThreadStackRoot keccak ts = calculateThreadStackRoot keccak us'"
        "keccak (serializeThread t) = keccak (serializeThread u)"
      using length_stack_root [OF assms(1)] by (simp_all add: append_eq_append_conv)
    have "serializeThread t = serializeThread u" by (rule inj_onD [OF inj r(2)]) simp_all
    then have "t = u"
      using snoc.prems(3,4) us serializeThread_inject by (simp add: threads_sized_def)
    moreover have "ts = us'"
      by (rule snoc.IH [OF inj_on_subset [OF inj] _ _ _ r(1)])
        (use snoc.prems(2-4) us in \<open>auto simp: stack_inputs_snoc threads_sized_def\<close>)
    ultimately show ?thesis using us by simp
  qed
qed

section \<open>Properties\<close>

definition commitment_ok :: "keccak_fn \<Rightarrow> State \<Rightarrow> bool" where
  "commitment_ok keccak s \<longleftrightarrow> tree_ok keccak (StMemory s) \<and> length (PreimageKey s) = 32 \<and>
     threads_sized (LeftThreadStack s) \<and> threads_sized (RightThreadStack s)"

text \<open>What \<open>crypto.Keccak256Hash\<close> is relied on for: 32-byte digests, the documented constant, and no
  collision and no zero digest among the strings hashed for these states.\<close>

definition collision_free :: "keccak_fn \<Rightarrow> byte list set \<Rightarrow> bool" where
  "collision_free keccak A \<longleftrightarrow> hash_fn keccak \<and> keccak (replicate 64 0) = EmptyThreadsRoot \<and>
     inj_on keccak A \<and> replicate 32 0 \<notin> keccak ` A"

text \<open>C15: A state witness commits to the whole machine.  If two states encode to the same witness and
  no two of the strings hashed while encoding them collide, the states have the same memory contents,
  the same threads in the same order on both stacks, and the same value in every other field except
  the hint that is not part of the VM state.\<close>
theorem EncodeWitness_binding:
  assumes "commitment_ok keccak s" and "commitment_ok keccak t"
    and "collision_free keccak (hash_inputs keccak s \<union> hash_inputs keccak t)"
    and "EncodeWitness keccak s = Inr ((w, hs), s')" and "EncodeWitness keccak t = Inr ((w, ht), t')"
  shows "t = s\<lparr>StMemory := StMemory t, LastHint := LastHint t\<rparr> \<and>
    (\<forall>a < 2 ^ 64. mem_byte (StMemory s) a = mem_byte (StMemory t) a)"
proof -
  have h: "hash_fn keccak" and e: "keccak (replicate 64 0) = EmptyThreadsRoot"
    and inj: "inj_on keccak (hash_inputs keccak s \<union> hash_inputs keccak t)"
    and nz: "replicate 32 0 \<notin> keccak ` (hash_inputs keccak s \<union> hash_inputs keccak t)"
    using assms(3) by (auto simp: collision_free_def)
  have s: "tree_ok keccak (StMemory s)" "length (PreimageKey s) = 32" "threads_sized (LeftThreadStack s)"
      "threads_sized (RightThreadStack s)"
    and t: "tree_ok keccak (StMemory t)" "length (PreimageKey t) = 32" "threads_sized (LeftThreadStack t)"
      "threads_sized (RightThreadStack t)"
    using assms(1,2) by (simp_all add: commitment_ok_def)
  have "witness_bytes keccak s = witness_bytes keccak t"
    using EncodeWitness_spec [OF s(1) h s(2)] EncodeWitness_spec [OF t(1) h t(2)] assms(4,5) by auto
  then have eq: "subtree keccak (mem_byte (StMemory s)) 59 0 = subtree keccak (mem_byte (StMemory t)) 59 0"
    "calculateThreadStackRoot keccak (LeftThreadStack s) = calculateThreadStackRoot keccak (LeftThreadStack t)"
    "calculateThreadStackRoot keccak (RightThreadStack s) = calculateThreadStackRoot keccak (RightThreadStack t)"
    "PreimageKey s = PreimageKey t \<and> PreimageOffset s = PreimageOffset t \<and> Heap s = Heap t \<and>
     LLReservationStatus s = LLReservationStatus t \<and> LLAddress s = LLAddress t \<and>
     LLOwnerThread s = LLOwnerThread t \<and> ExitCode s = ExitCode t \<and> Exited s = Exited t \<and> Step s = Step t \<and>
     StepsSinceLastContextSwitch s = StepsSinceLastContextSwitch t \<and> TraverseRight s = TraverseRight t \<and>
     NextThreadId s = NextThreadId t"
    using length_subtree [OF h] length_stack_root [OF h] s(2) t(2)
    by (auto simp: witness_bytes_def append_eq_append_conv split: if_splits)
  have sub: "stack_inputs keccak (LeftThreadStack s) \<union> stack_inputs keccak (LeftThreadStack t) \<subseteq>
      hash_inputs keccak s \<union> hash_inputs keccak t"
    "stack_inputs keccak (RightThreadStack s) \<union> stack_inputs keccak (RightThreadStack t) \<subseteq>
      hash_inputs keccak s \<union> hash_inputs keccak t"
    "subtree_inputs keccak (mem_byte (StMemory s)) 59 0 \<union> subtree_inputs keccak (mem_byte (StMemory t)) 59 0 \<subseteq>
      hash_inputs keccak s \<union> hash_inputs keccak t"
    unfolding hash_inputs_def by blast+
  have "LeftThreadStack s = LeftThreadStack t"
    by (rule stack_binding [OF h e inj_on_subset [OF inj sub(1)] _ s(3) t(3) eq(2)]) (use nz sub(1) in blast)
  moreover have "RightThreadStack s = RightThreadStack t"
    by (rule stack_binding [OF h e inj_on_subset [OF inj sub(2)] _ s(4) t(4) eq(3)]) (use nz sub(2) in blast)
  ultimately have "t = s\<lparr>StMemory := StMemory t, LastHint := LastHint t\<rparr>" using eq(4) by simp
  moreover have "mem_byte (StMemory s) a = mem_byte (StMemory t) a" if "a < 2 ^ 64" for a
    by (rule subtree_binding [OF h inj_on_subset [OF inj sub(3)] eq(1)]) (use that in simp_all)
  ultimately show ?thesis by blast
qed

text \<open>A 32-byte function with no collision on the strings hashed for the empty state.\<close>

definition sample_keccak :: keccak_fn where
  "sample_keccak x =
     (if x = replicate 64 0 then EmptyThreadsRoot
      else if length x = 64 then EmptyThreadsRoot[31 := x ! 31 + 1, 0 := x ! 32]
      else 2 # replicate 31 0)"

definition sample_level :: "nat \<Rightarrow> hash" where
  "sample_level h = (case h of 0 \<Rightarrow> replicate 32 0 | Suc i \<Rightarrow> EmptyThreadsRoot[31 := 0xb5 + of_nat i])"

lemma hash_fn_sample: "hash_fn sample_keccak"
  by (simp add: hash_fn_def sample_keccak_def)

lemma replicate_64: "replicate 64 (0 :: byte) = replicate 32 0 @ replicate 32 0"
  by (simp add: replicate_add [symmetric])

lemma ETR_nth: "EmptyThreadsRoot ! 0 = 0xad" "EmptyThreadsRoot ! 31 = 0xb5" "EmptyThreadsRoot ! Suc 0 = 0x32"
  by (simp_all add: EmptyThreadsRoot_def)

lemma ETR_last [simp]: "EmptyThreadsRoot[31 := 0xb5] = EmptyThreadsRoot"
  using list_update_id [of EmptyThreadsRoot 31] by (simp add: ETR_nth)

lemma ETR_first: "EmptyThreadsRoot[31 := x, 0 := 0xad] = EmptyThreadsRoot[31 := x]"
proof -
  have "EmptyThreadsRoot[31 := x] ! 0 = 0xad" by (simp add: ETR_nth)
  then show ?thesis using list_update_id [of "EmptyThreadsRoot[31 := x]" 0] by simp
qed

lemma level_Suc: "sample_keccak (sample_level h @ sample_level h) = sample_level (Suc h)"
proof (cases h)
  case 0
  then show ?thesis by (simp add: sample_keccak_def sample_level_def replicate_64)
next
  case (Suc i)
  let ?z = "EmptyThreadsRoot[31 := 0xb5 + of_nat i]"
  have nz: "?z @ ?z \<noteq> replicate 64 0"
  proof
    assume "?z @ ?z = replicate 64 0"
    then have "(?z @ ?z) ! 0 = replicate 64 (0 :: byte) ! 0" by (simp only:)
    then show False by (simp add: nth_append ETR_nth)
  qed
  have "?z ! 0 = 0xad" "?z ! 31 = 0xb5 + of_nat i" by (simp_all add: ETR_nth)
  then show ?thesis using nz Suc by (simp add: sample_keccak_def sample_level_def nth_append ETR_first algebra_simps)
qed

lemma sample_subtree: "subtree sample_keccak (\<lambda>_. 0) h i = sample_level h"
proof (induction h arbitrary: i)
  case 0
  have "map (\<lambda>_. 0) xs = replicate (length xs) (0 :: byte)" for xs :: "nat list" by (induction xs) simp_all
  then show ?case by (simp add: page_bytes_def sample_level_def)
next
  case (Suc h)
  then show ?case using level_Suc [of h] by (simp add: HashPair_def)
qed

lemma sample_subtree_inputs:
  "subtree_inputs sample_keccak (\<lambda>_. 0) h i \<subseteq> (\<lambda>j. sample_level j @ sample_level j) ` {..<h}"
  by (induction h arbitrary: i) (simp, fastforce simp: sample_subtree lessThan_Suc)

definition sample_inverse :: "hash \<Rightarrow> byte list" where
  "sample_inverse y =
     (if y ! 0 = 2 then
        if y ! 1 = 0 then serializeThread CreateEmptyThread else EmptyThreadsRoot @ (2 # replicate 31 0)
      else if y ! 31 = 0xb5 then replicate 64 0
      else y[31 := y ! 31 - 1] @ y[31 := y ! 31 - 1])"

definition sample_strings :: "byte list set" where
  "sample_strings = {replicate 64 0, serializeThread CreateEmptyThread, EmptyThreadsRoot @ (2 # replicate 31 0)} \<union>
     (\<lambda>j. sample_level j @ sample_level j) ` {..<59}"

lemma sample_thread: "sample_keccak (serializeThread CreateEmptyThread) = 2 # replicate 31 0"
proof -
  have "length (serializeThread CreateEmptyThread) = 298"
    using length_serializeThread [of CreateEmptyThread] by (simp add: CreateEmptyThread_def thread_offsets)
  then show ?thesis by (auto simp: sample_keccak_def)
qed

lemma sample_onion: "sample_keccak (EmptyThreadsRoot @ (2 # replicate 31 0)) = EmptyThreadsRoot[31 := 0xb6, 0 := 2]"
proof -
  have "(EmptyThreadsRoot @ (2 # replicate 31 0)) ! 0 \<noteq> replicate 64 (0 :: byte) ! 0"
    by (simp add: nth_append ETR_nth)
  then have "EmptyThreadsRoot @ (2 # replicate 31 0) \<noteq> replicate 64 0" by metis
  then show ?thesis by (simp add: sample_keccak_def nth_append ETR_nth)
qed

lemma sample_inverse:
  assumes "x \<in> sample_strings"
  shows "sample_inverse (sample_keccak x) = x \<and> sample_keccak x ! 0 \<noteq> 0"
proof -
  consider "x = replicate 64 0" | "x = serializeThread CreateEmptyThread"
    | "x = EmptyThreadsRoot @ (2 # replicate 31 0)" | i where "x = sample_level (Suc i) @ sample_level (Suc i)" "i < 58"
  proof -
    have "x = replicate 64 0" if "x = sample_level 0 @ sample_level 0"
      using that by (simp only: replicate_64 sample_level_def nat.case)
    moreover have "\<exists>i < 58. x = sample_level (Suc i) @ sample_level (Suc i)" if "x = sample_level j @ sample_level j" "j < 59" "0 < j" for j
      using that by (intro exI [of _ "j - 1"]) simp
    ultimately show ?thesis
      using assms that unfolding sample_strings_def by auto
  qed
  then show ?thesis
  proof cases
    case 1
    then show ?thesis by (simp add: sample_keccak_def sample_inverse_def ETR_nth)
  next
    case 2
    then show ?thesis by (simp add: sample_thread sample_inverse_def)
  next
    case 3
    then show ?thesis by (simp add: sample_onion sample_inverse_def ETR_nth)
  next
    case (4 i)
    have "sample_keccak x = EmptyThreadsRoot[31 := 0xb5 + of_nat (Suc i)]"
      using level_Suc [of "Suc i"] 4(1) by (simp add: sample_level_def)
    moreover have "(of_nat (Suc i) :: byte) \<noteq> 0"
      using 4(2) by (simp add: word_unat_eq_iff unat_of_nat del: of_nat_Suc)
    ultimately show ?thesis
      using 4(1) by (simp add: sample_inverse_def ETR_nth sample_level_def del: of_nat_Suc) (simp add: algebra_simps)
  qed
qed

lemma sample_collision_free:
  assumes "A \<subseteq> sample_strings"
  shows "collision_free sample_keccak A"
proof -
  have "inj_on sample_keccak A"
    by (rule inj_on_inverseI [of _ sample_inverse]) (use assms sample_inverse in blast)
  moreover have "replicate 32 0 \<notin> sample_keccak ` A"
  proof
    assume "replicate 32 0 \<in> sample_keccak ` A"
    then obtain x where "x \<in> A" "sample_keccak x = replicate 32 0" by (metis imageE)
    then show False using sample_inverse [of x] assms by auto
  qed
  ultimately show ?thesis using hash_fn_sample by (simp add: collision_free_def sample_keccak_def)
qed

lemma sample_hash_inputs: "hash_inputs sample_keccak CreateEmptyState \<subseteq> sample_strings"
proof -
  have "mem_byte NewMemory = (\<lambda>_. 0)" by (simp add: mem_byte_def NewMemory_def fun_eq_iff)
  then have "subtree_inputs sample_keccak (mem_byte (StMemory CreateEmptyState)) 59 0 \<subseteq> sample_strings"
    using sample_subtree_inputs [of 59 0] by (auto simp: CreateEmptyState_def sample_strings_def)
  moreover have "stack_inputs sample_keccak [CreateEmptyThread] \<union> stack_inputs sample_keccak [] \<subseteq> sample_strings"
    by (auto simp: stack_inputs_def sample_strings_def sample_thread lessThan_Suc)
  ultimately show ?thesis by (simp add: hash_inputs_def CreateEmptyState_def)
qed

theorem EncodeWitness_binding_witness:
  "\<exists>w hs hs' s' t'. EncodeWitness sample_keccak CreateEmptyState = Inr ((w, hs), s') \<and>
    EncodeWitness sample_keccak (CreateEmptyState\<lparr>LastHint := [1]\<rparr>) = Inr ((w, hs'), t') \<and>
    (\<forall>a < 2 ^ 64. mem_byte (StMemory CreateEmptyState) a = mem_byte (StMemory (CreateEmptyState\<lparr>LastHint := [1]\<rparr>)) a)"
proof -
  let ?s = CreateEmptyState and ?t = "CreateEmptyState\<lparr>LastHint := [1]\<rparr>"
  have s: "commitment_ok sample_keccak ?s" and t: "commitment_ok sample_keccak ?t"
    using tree_ok_NewMemory
    by (simp_all add: commitment_ok_def CreateEmptyState_def threads_sized_def CreateEmptyThread_def)
  have "hash_inputs sample_keccak ?t = hash_inputs sample_keccak ?s" by (simp add: hash_inputs_def)
  then have cf: "collision_free sample_keccak (hash_inputs sample_keccak ?s \<union> hash_inputs sample_keccak ?t)"
    using sample_collision_free [OF sample_hash_inputs] by simp
  have w: "witness_bytes sample_keccak ?t = witness_bytes sample_keccak ?s" by (simp add: witness_bytes_def)
  obtain hs s' where es: "EncodeWitness sample_keccak ?s = Inr ((witness_bytes sample_keccak ?s, hs), s')"
    using EncodeWitness_spec [OF _ hash_fn_sample, of ?s] s by (auto simp: commitment_ok_def)
  obtain ht t' where et: "EncodeWitness sample_keccak ?t = Inr ((witness_bytes sample_keccak ?s, ht), t')"
    using EncodeWitness_spec [OF _ hash_fn_sample, of ?t] t w by (auto simp: commitment_ok_def)
  show ?thesis using EncodeWitness_binding [OF s t cf es et] es et by blast
qed

end
