(* ===== verification/FPVM.thy ===== *)
theory FPVM
  imports VM_Run Witness
begin

unbundle bit_operations_syntax

text \<open>
  \<open>InstrumentedState.Step\<close> of \<open>cannon/mipsevm/multithreaded/instrumented.go\<close>: one step with or without
  the proof data that lets the step be replayed on chain, and what any run of such steps guarantees.
\<close>

section \<open>The step\<close>

record StepWitness =
  WitState :: "byte list"
  WitStateHash :: hash
  ProofData :: "byte list"
  WitPreimageKey :: "byte list"
  WitPreimageValue :: "byte list"
  WitPreimageOffset :: Word

definition HasPreimage :: "StepWitness \<Rightarrow> bool" where
  "HasPreimage wit \<longleftrightarrow> WitPreimageKey wit \<noteq> replicate 32 0"

text \<open>The pre-step proof data, and the data appended after the step.\<close>

definition pre_witness :: "keccak_fn \<Rightarrow> InstrumentedState \<Rightarrow> (StepWitness \<times> InstrumentedState) res" where
  "pre_witness keccak m =
     bind_res (EncodeThreadProof keccak (state m)) (\<lambda>threadProof.
     bind_res (GetPC (state m)) (\<lambda>pc.
     bind_res (MerkleProof keccak (StMemory (state m)) pc) (\<lambda>(insnProof, mem').
       let m1 = set_state ((state m)\<lparr>StMemory := mem'\<rparr>) m in
     bind_res (EncodeWitness keccak (state m1)) (\<lambda>((encodedWitness, stateHash), s').
       Inr (\<lparr>WitState = encodedWitness, WitStateHash = stateHash, ProofData = threadProof @ insnProof,
             WitPreimageKey = replicate 32 0, WitPreimageValue = [], WitPreimageOffset = 0\<rparr>,
            set_state s' m1)))))"

definition post_witness :: "InstrumentedState \<Rightarrow> StepWitness \<Rightarrow> StepWitness" where
  "post_witness m wit =
     (let wit1 = wit\<lparr>ProofData := ProofData wit @ memProof (memoryTracker m) @ memProof2 (memoryTracker m)\<rparr>;
          (lastKey, lastImage, lastOffset) = LastPreimage (preimageOracle m)
      in if lastOffset \<noteq> NOT 0
         then wit1\<lparr>WitPreimageOffset := lastOffset, WitPreimageKey := lastKey, WitPreimageValue := lastImage\<rparr>
         else wit1)"

definition reset_trackers :: "bool \<Rightarrow> InstrumentedState \<Rightarrow> InstrumentedState" where
  "reset_trackers enable m =
     m\<lparr>preimageOracle := Oracle_Reset (preimageOracle m), memoryTracker := MemTracker_Reset enable (memoryTracker m)\<rparr>"

definition FPVM_Step ::
    "keccak_fn \<Rightarrow> oracle_fn \<Rightarrow> bool \<Rightarrow> InstrumentedState \<Rightarrow> (StepWitness option \<times> InstrumentedState) res" where
  "FPVM_Step keccak po enable m =
     (let m0 = reset_trackers enable m in
      if enable then
        bind_res (pre_witness keccak m0) (\<lambda>(wit, m1).
        bind_res (mipsStep keccak po m1) (\<lambda>m2. Inr (Some (post_witness m2 wit), m2)))
      else bind_res (mipsStep keccak po m0) (\<lambda>m1. Inr (None, m1)))"

section \<open>The invariant\<close>

lemma sched_inv_mem: "sched_inv (s\<lparr>StMemory := x\<rparr>) \<longleftrightarrow> sched_inv s"
  using threads_cong [of "s\<lparr>StMemory := x\<rparr>" s] by (simp add: sched_inv_def)

lemma reset_trackers_inv:
  assumes "vm_inv keccak po m"
  shows "vm_inv keccak po (reset_trackers b m)" and "tracker_fresh (memoryTracker (reset_trackers b m))"
  using assms tracker_Reset_fresh oracle_ok_Reset
  by (simp_all add: reset_trackers_def vm_inv_def data_inv_def)

lemma reset_trackers_fields [simp]:
  "state (reset_trackers b m) = state m" "statsLog (reset_trackers b m) = statsLog m"
  by (simp_all add: reset_trackers_def)

definition full_step_post :: "keccak_fn \<Rightarrow> oracle_fn \<Rightarrow> InstrumentedState \<Rightarrow> InstrumentedState \<Rightarrow> bool" where
  "full_step_post keccak po m m' \<longleftrightarrow>
     (if Exited (state m) then vm_inv keccak po m' \<and> ll_rel m m' \<and> Step (state m') = Step (state m) \<and>
        same_ids (state m) (state m') \<and> Exited (state m') \<and> ExitCode (state m') = ExitCode (state m)
      else step_post keccak po m m')"

lemma mipsStep_post:
  assumes "vm_inv keccak po m" and "tracker_fresh (memoryTracker m)"
  shows "post vm_panics (full_step_post keccak po m) (mipsStep keccak po m)"
proof -
  have "post vm_panics (full_step_post keccak po m) (doMipsStep keccak po m)"
  proof (cases "Exited (state m)")
    case True
    then have "doMipsStep keccak po m = Inr m" by (simp add: doMipsStep_def)
    then show ?thesis using True assms(1) by (simp add: full_step_post_def same_ids_def)
  next
    case False
    then show ?thesis
      using doMipsStep_post [OF assms False] by (auto simp: full_step_post_def elim: post_weaken)
  qed
  then show ?thesis
    unfolding mipsStep_def
  proof (rule post_bind)
    fix m' assume m': "full_step_post keccak po m m'"
    then have "sched_inv (state m')" by (auto simp: full_step_post_def step_post_def vm_inv_def split: if_splits)
    then show "post vm_panics (full_step_post keccak po m) (bind_res (assertPostStateChecks m') (\<lambda>_. Inr m'))"
      using m' by (simp add: assertPostStateChecks_def sched_inv_def)
  qed
qed

text \<open>Steps that only move Merkle caches and trackers before the VM runs.\<close>

definition same_vm :: "InstrumentedState \<Rightarrow> InstrumentedState \<Rightarrow> bool" where
  "same_vm m m1 \<longleftrightarrow> state m1 = (state m)\<lparr>StMemory := StMemory (state m1)\<rparr> \<and> statsLog m1 = statsLog m \<and>
     words m1 = words m"

lemma same_vm_step:
  assumes "same_vm m m1" and "full_step_post keccak po m1 m'"
  shows "full_step_post keccak po m m'"
proof -
  obtain x where x: "state m1 = (state m)\<lparr>StMemory := x\<rparr>" using assms(1) by (auto simp: same_vm_def)
  have ll: "ll_rel m m1"
    by (rule same_reservation) (use assms(1) x in \<open>simp_all add: same_vm_def words_def\<close>)
  have th: "current (state m1) = current (state m)" by (rule threads_cong) (simp_all add: x)
  have ids: "thread_ids (state m1) = thread_ids (state m)" by (simp add: x thread_ids_def thread_line_def)
  show ?thesis
    using assms(2) ll_rel_trans [OF ll] th ids x
    by (simp add: full_step_post_def step_post_def same_ids_def cloned_ids_def popped_ids_def split: if_splits)
qed

text \<open>What the proof data of a step says about the state before it.\<close>

definition proves :: "keccak_fn \<Rightarrow> State \<Rightarrow> StepWitness \<Rightarrow> bool" where
  "proves keccak s wit \<longleftrightarrow>
     WitState wit = witness_bytes keccak s \<and>
     WitStateHash wit = (keccak (witness_bytes keccak s))[0 := VMStatus s] \<and>
     (\<exists>leaf siblings more. ProofData wit = serializeThread (current s) @
          calculateThreadStackRoot keccak (butlast (getActiveThreadStack s)) @ concat (leaf # siblings) @ more \<and>
        length siblings = 59 \<and>
        leaf = page_bytes (mem_byte (StMemory s)) (unat (PC (Cpu (current s))) div 32 * 32)
          (unat (PC (Cpu (current s))) div 32 * 32 + 32) \<and>
        fold_branch keccak (unat (PC (Cpu (current s))) div 32) leaf siblings =
          subtree keccak (mem_byte (StMemory s)) 59 0)"

lemma EncodeThreadProof_eq:
  assumes "getActiveThreadStack s \<noteq> []"
  shows "EncodeThreadProof keccak s = Inr (serializeThread (current s) @
    calculateThreadStackRoot keccak (butlast (getActiveThreadStack s)))"
  using assms by (simp add: EncodeThreadProof_def Let_def current_def last_conv_nth butlast_conv_take)

lemma pre_witness_post:
  assumes "vm_inv keccak po m" and "hash_fn keccak"
  shows "post {} (\<lambda>(wit, m1). proves keccak (state m) wit \<and> same_vm m m1 \<and> vm_inv keccak po m1 \<and>
    memoryTracker m1 = memoryTracker m) (pre_witness keccak m)"
proof -
  let ?s = "state m" let ?pc = "PC (Cpu (current ?s))"
  have t: "tree_ok keccak (StMemory ?s)" and k: "length (PreimageKey ?s) = 32" and sc: "sched_inv ?s"
    using assms(1) by (simp_all add: vm_inv_def data_inv_def)
  have ne: "getActiveThreadStack ?s \<noteq> []" using sc by (simp add: sched_inv_def)
  note tp = EncodeThreadProof_eq [OF ne, of keccak]
  have pc: "GetPC ?s = Inr ?pc" by (simp add: GetPC_def GetCurrentThread_current [OF ne])
  from MerkleProof_spec [OF t, of ?pc] obtain br m1 where
    b: "MerkleProof keccak (StMemory ?s) ?pc = Inr (concat br, m1)" "tree_ok keccak m1" "cache_step (StMemory ?s) m1"
      "length br = 60" "hd br = subtree keccak (mem_byte (StMemory ?s)) 0 (unat ?pc div 32)"
      "fold_branch keccak (unat ?pc div 32) (hd br) (tl br) = subtree keccak (mem_byte (StMemory ?s)) 59 0" by blast
  obtain leaf siblings where br: "br = leaf # siblings" using b(4) by (cases br) simp_all
  let ?s1 = "?s\<lparr>StMemory := m1\<rparr>"
  from EncodeWitness_spec [of keccak ?s1] b(2) assms(2) k obtain m2 where
    w: "EncodeWitness keccak ?s1 = Inr ((witness_bytes keccak ?s1,
      (keccak (witness_bytes keccak ?s1))[0 := VMStatus ?s1]), ?s1\<lparr>StMemory := m2\<rparr>)"
      "tree_ok keccak m2" "cache_step m1 m2" by auto
  have byte: "mem_byte m1 = mem_byte (StMemory ?s)" "mem_byte m2 = mem_byte (StMemory ?s)"
    using cache_step_byte [OF b(3)] cache_step_byte [OF w(3)] by simp_all
  have same: "witness_bytes keccak ?s1 = witness_bytes keccak ?s" "VMStatus ?s1 = VMStatus ?s"
    by (simp_all add: witness_bytes_def byte VMStatus_def)
  let ?wit = "\<lparr>WitState = witness_bytes keccak ?s, WitStateHash = (keccak (witness_bytes keccak ?s))[0 := VMStatus ?s],
     ProofData = (serializeThread (current ?s) @ calculateThreadStackRoot keccak (butlast (getActiveThreadStack ?s))) @
       concat br, WitPreimageKey = replicate 32 0, WitPreimageValue = [], WitPreimageOffset = 0\<rparr>"
  let ?m1 = "set_state (?s1\<lparr>StMemory := m2\<rparr>) (set_state ?s1 m)"
  have eq: "pre_witness keccak m = Inr (?wit, ?m1)"
    unfolding pre_witness_def tp pc bind_res_Inr b(1) split_conv Let_def
    using w(1) same by (simp add: set_state_def)
  have "proves keccak ?s ?wit"
    unfolding proves_def
    by (intro conjI exI [of _ leaf] exI [of _ siblings] exI [of _ "[]"]) (use br b(4-6) in simp_all)
  moreover have "words ?m1 = words m"
    by (simp add: words_def set_state_def word_at_cong [OF byte(2)])
  then have "same_vm m ?m1" by (simp add: same_vm_def set_state_def)
  moreover have "vm_inv keccak po ?m1"
    using assms(1) w(2) by (simp add: vm_inv_def data_inv_def set_state_def sched_inv_mem)
  ultimately show ?thesis unfolding eq by (simp add: set_state_def)
qed

lemma proves_post_witness:
  assumes "proves keccak s wit"
  shows "proves keccak s (post_witness m wit)"
proof -
  have "WitState (post_witness m wit) = WitState wit" "WitStateHash (post_witness m wit) = WitStateHash wit"
    "ProofData (post_witness m wit) = ProofData wit @ memProof (memoryTracker m) @ memProof2 (memoryTracker m)"
    by (simp_all add: post_witness_def Let_def split: prod.split)
  then show ?thesis using assms unfolding proves_def by (metis append_assoc)
qed

lemma FPVM_Step_post:
  assumes "vm_inv keccak po m" and "hash_fn keccak"
  shows "post vm_panics (\<lambda>(w, m'). full_step_post keccak po m m' \<and>
    (if enable then \<exists>wit. w = Some wit \<and> proves keccak (state m) wit else w = None)) (FPVM_Step keccak po enable m)"
  unfolding FPVM_Step_def Let_def
proof (rule post_if)
  let ?m0 = "reset_trackers enable m"
  have r: "vm_inv keccak po ?m0" "tracker_fresh (memoryTracker ?m0)" by (rule reset_trackers_inv [OF assms(1)])+
  have same: "same_vm m ?m0" by (simp add: same_vm_def words_def)
  {
    assume e: enable
    show "post vm_panics (\<lambda>(w, m'). full_step_post keccak po m m' \<and>
        (if enable then \<exists>wit. w = Some wit \<and> proves keccak (state m) wit else w = None))
      (bind_res (pre_witness keccak ?m0) (\<lambda>(wit, m1).
        bind_res (mipsStep keccak po m1) (\<lambda>m2. Inr (Some (post_witness m2 wit), m2))))"
    proof (rule post_bind [OF post_weaken [OF pre_witness_post [OF r(1) assms(2)] empty_subsetI]], assumption, clarify)
      fix wit m1
      assume p: "proves keccak (state ?m0) wit" "same_vm ?m0 m1" "vm_inv keccak po m1"
        "memoryTracker m1 = memoryTracker ?m0"
      then have fresh: "tracker_fresh (memoryTracker m1)" using r(2) by simp
      show "post vm_panics (\<lambda>(w, m'). full_step_post keccak po m m' \<and>
          (if enable then \<exists>wit. w = Some wit \<and> proves keccak (state m) wit else w = None))
        (bind_res (mipsStep keccak po m1) (\<lambda>m2. Inr (Some (post_witness m2 wit), m2)))"
        by (rule post_bind [OF mipsStep_post [OF p(3) fresh]])
          (use e p(1) proves_post_witness same_vm_step [OF p(2)] same_vm_step [OF same] in auto)
    qed
  next
    assume e: "\<not> enable"
    show "post vm_panics (\<lambda>(w, m'). full_step_post keccak po m m' \<and>
        (if enable then \<exists>wit. w = Some wit \<and> proves keccak (state m) wit else w = None))
      (bind_res (mipsStep keccak po ?m0) (\<lambda>m1. Inr (None, m1)))"
      by (rule post_bind [OF mipsStep_post [OF r]]) (use e same_vm_step [OF same] in auto)
  }
qed

section \<open>Runs\<close>

inductive vm_steps :: "keccak_fn \<Rightarrow> oracle_fn \<Rightarrow> nat \<Rightarrow> InstrumentedState \<Rightarrow> InstrumentedState \<Rightarrow> bool"
  for keccak po where
  vm_start: "vm_steps keccak po 0 m m"
| vm_next: "vm_steps keccak po n m m1 \<Longrightarrow> FPVM_Step keccak po enable m1 = Inr (w, m2) \<Longrightarrow>
    vm_steps keccak po (Suc n) m m2"

inductive_cases vm_steps_SucE: "vm_steps keccak po (Suc n) m m'"
inductive_simps vm_steps_0 [simp]: "vm_steps keccak po 0 m m'"

lemma full_step_post_inv:
  assumes "full_step_post keccak po m m'"
  shows "vm_inv keccak po m'" and "ll_rel m m'"
  using assms by (auto simp: full_step_post_def step_post_def split: if_splits)

lemma vm_steps_inv:
  assumes "vm_steps keccak po n m m'" and "vm_inv keccak po m" and "hash_fn keccak"
  shows "vm_inv keccak po m' \<and> ll_rel m m'"
  using assms
proof (induction rule: vm_steps.induct)
  case (vm_next n m m1 enable w m2)
  then have "vm_inv keccak po m1" "ll_rel m m1" by blast+
  from post_result [OF FPVM_Step_post [OF this(1) vm_next.prems(2)] vm_next.hyps(2)]
  have "full_step_post keccak po m1 m2" by auto
  then show ?case using full_step_post_inv ll_rel_trans [OF \<open>ll_rel m m1\<close>] by blast
qed simp

text \<open>Thread ids: the next id is above every id in use, as long as it has not wrapped around.\<close>

definition ids_ok :: "nat \<Rightarrow> State \<Rightarrow> bool" where
  "ids_ok n s \<longleftrightarrow> unat (NextThreadId s) \<le> Suc n \<and> (\<forall>i \<in># thread_ids s. unat i < unat (NextThreadId s)) \<and>
     (\<forall>i. count (thread_ids s) i \<le> 1)"

lemma ids_ok_step:
  assumes "ids_ok n (state m)" and "full_step_post keccak po m m'" and "Suc n < 2 ^ 64 - 1"
  shows "ids_ok (Suc n) (state m')"
proof -
  let ?s = "state m" and ?s' = "state m'"
  consider "same_ids ?s ?s'" | "cloned_ids ?s ?s'" | "popped_ids ?s ?s'"
    using assms(2) by (auto simp: full_step_post_def step_post_def split: if_splits)
  then show ?thesis
  proof cases
    case 1
    then show ?thesis using assms(1) by (auto simp: ids_ok_def same_ids_def)
  next
    case 2
    have "unat (NextThreadId ?s + 1) = Suc (unat (NextThreadId ?s))"
      using assms(1,3) by (simp add: ids_ok_def unat_word_ariths)
    moreover have "count (thread_ids ?s) (NextThreadId ?s) = 0"
      using assms(1) by (auto simp: ids_ok_def count_eq_zero_iff)
    ultimately show ?thesis using assms(1) 2 by (auto simp: ids_ok_def cloned_ids_def less_Suc_eq)
  next
    case 3
    then have eq: "thread_ids ?s = add_mset (ThreadId (current ?s)) (thread_ids ?s')"
      and n: "NextThreadId ?s' = NextThreadId ?s" by (simp_all add: popped_ids_def)
    have "count (thread_ids ?s') i \<le> count (thread_ids ?s) i" for i by (simp add: eq)
    then have "count (thread_ids ?s') i \<le> 1" for i using assms(1) by (meson ids_ok_def order_trans)
    moreover have "i \<in># thread_ids ?s" if "i \<in># thread_ids ?s'" for i using that by (simp add: eq)
    ultimately show ?thesis using assms(1) n by (simp add: ids_ok_def)
  qed
qed

lemma vm_steps_ids:
  assumes "vm_steps keccak po n m m'" and "vm_inv keccak po m" and "hash_fn keccak"
    and "ids_ok 0 (state m)" and "n < 2 ^ 64 - 1"
  shows "ids_ok n (state m')"
  using assms
proof (induction rule: vm_steps.induct)
  case (vm_next n m m1 enable w m2)
  then have "vm_inv keccak po m1" using vm_steps_inv by blast
  from post_result [OF FPVM_Step_post [OF this vm_next.prems(2)] vm_next.hyps(2)]
  have "full_step_post keccak po m1 m2" by auto
  then show ?case using vm_next by (intro ids_ok_step) auto
qed simp

section \<open>A machine to evaluate the properties on\<close>

text \<open>The initial state, started with an empty memory, with a reservation held.\<close>

definition sample_state :: State where
  "sample_state = CreateEmptyState\<lparr>LLReservationStatus := 1, LLAddress := 0x2000\<rparr>"

lemma sample_fetch:
  assumes "tree_ok keccak x" and "word_at x 0 = 0"
  shows "\<exists>x'. GetInstructionDetails 0 x = Inr ((0, 0, 0), x')"
proof -
  have "aligned 0" by (simp add: aligned_def)
  from GetWord_post [OF assms(1) this] assms(2) obtain x' where "GetWord x 0 = Inr (0, x')"
    by (auto simp: post_no_panic)
  then show ?thesis
    by (simp add: GetInstructionDetails_def SelectSubWord_def calculateSubWordMaskAndOffset_def Let_def)
qed

lemma sample_nop:
  "ExecMipsCoreStepLogic keccak 0 0 0 \<lparr>cpu = \<lparr>PC = 0, NextPC = 4, LO = 0, HI = 0\<rparr>, regs = replicate 32 0,
      mem = x, tracker = trk, stackEvents = []\<rparr> =
    Inr (None, \<lparr>cpu = \<lparr>PC = 4, NextPC = 8, LO = 0, HI = 0\<rparr>, regs = replicate 32 0, mem = x, tracker = trk,
      stackEvents = []\<rparr>)"
  by (simp add: ExecMipsCoreStepLogic_def reg_get_def fetch_rt_def fetch_mem_def
      core_finish_def Let_def ExecuteMipsInstruction_def exec_special_def arith_fun_def HandleRd_def funSel_def)

lemma sample_inv: "vm_inv keccak po (NewInstrumentedState sample_state)"
  using tree_ok_NewMemory oracle_ok_new
  by (simp add: sample_state_def CreateEmptyState_def getActiveThreadStack_def CreateEmptyThread_def vm_inv_def
      data_inv_def NewInstrumentedState_def sched_inv_def rest_threads_def current_def inactive_def)

lemma sample_mipsStep:
  assumes "state m = sample_state\<lparr>StMemory := x\<rparr>" and "tree_ok keccak x" and "word_at x 0 = 0"
  shows "\<exists>m'. mipsStep keccak po m = Inr m' \<and> LLReservationStatus (state m') = 1 \<and> statsLog m' = statsLog m"
proof -
  from sample_fetch [OF assms(2,3)] obtain x' where f: "GetInstructionDetails 0 x = Inr ((0, 0, 0), x')" by blast
  then show ?thesis
    using assms(1) sample_nop
    by (simp add: sample_state_def CreateEmptyState_def mipsStep_def doMipsStep_def GetCurrentThread_def
        getActiveThreadStack_def set_state_def GetPC_def Let_def CreateEmptyThread_def core_of_def
        exec_instruction_def put_core_def putCurrentThread_def log_stack_def assertPostStateChecks_def)
qed

lemma sample_word: "word_at NewMemory 0 = 0"
  by (simp add: word_at_def mem_byte_def NewMemory_def be_dec_def upt_rec bo_Word_def get_u64_def)

lemma sample_step:
  "\<exists>m'. FPVM_Step keccak po False (NewInstrumentedState sample_state) = Inr (None, m') \<and>
    LLReservationStatus (state m') = 1 \<and> statsLog m' = []"
proof -
  let ?m = "reset_trackers False (NewInstrumentedState sample_state)"
  have "state ?m = sample_state\<lparr>StMemory := NewMemory\<rparr>"
    by (simp add: NewInstrumentedState_def sample_state_def CreateEmptyState_def)
  from sample_mipsStep [OF this tree_ok_NewMemory sample_word] obtain m' where
    "mipsStep keccak po ?m = Inr m'" "LLReservationStatus (state m') = 1" "statsLog m' = statsLog ?m" by blast
  then show ?thesis by (simp add: FPVM_Step_def NewInstrumentedState_def)
qed

lemma sample_step_proof:
  assumes "hash_fn keccak"
  shows "\<exists>w m'. FPVM_Step keccak po True (NewInstrumentedState sample_state) = Inr (w, m')"
proof -
  let ?m = "reset_trackers True (NewInstrumentedState sample_state)"
  have inv: "vm_inv keccak po ?m" by (rule reset_trackers_inv [OF sample_inv])
  from pre_witness_post [OF inv assms, unfolded post_no_panic] obtain wit m1 where
    m1: "pre_witness keccak ?m = Inr (wit, m1)" "same_vm ?m m1" "vm_inv keccak po m1" by blast
  have mem0: "StMemory (state ?m) = NewMemory"
    by (simp add: NewInstrumentedState_def sample_state_def CreateEmptyState_def)
  have "state m1 = sample_state\<lparr>StMemory := StMemory (state m1)\<rparr>"
    using m1(2) by (simp add: same_vm_def NewInstrumentedState_def)
  moreover have "tree_ok keccak (StMemory (state m1))" using m1(3) by (simp add: vm_inv_def data_inv_def)
  moreover have "word_at (StMemory (state m1)) 0 = 0"
    using m1(2) mem0 sample_word by (metis same_vm_def words_def)
  ultimately obtain m' where "mipsStep keccak po m1 = Inr m'" using sample_mipsStep by blast
  then show ?thesis using m1(1) by (simp add: FPVM_Step_def)
qed

section \<open>Properties\<close>

lemma initial_ids:
  assumes "CreateInitialState pc heap = Inr s"
  shows "ids_ok 0 s"
  using assms
  by (auto simp: CreateInitialState_def CreateEmptyState_def GetCurrentThread_def getActiveThreadStack_def
      putCurrentThread_def CreateEmptyThread_def ids_ok_def thread_ids_def thread_line_def)

lemma thread_ids_distinct:
  assumes "ids_ok n s"
  shows "distinct (map ThreadId (thread_line s))"
proof -
  have "count (mset (map ThreadId (thread_line s))) i \<le> 1" for i using assms by (simp add: ids_ok_def thread_ids_def)
  then show ?thesis
    by (metis count_greater_zero_iff distinct_count_atmost_1 le_antisym less_eq_Suc_le One_nat_def not_in_iff set_mset_mset)
qed

text \<open>What the invariant says of the threads, for every state a run can reach.\<close>

lemma vm_inv_threads:
  assumes "vm_inv keccak po m"
  shows "getActiveThreadStack (state m) \<noteq> [] \<and>
    (\<forall>t \<in> set (rest_threads (state m)). \<not> ThExited t) \<and>
    (\<forall>t \<in> set (thread_line (state m)). length (Registers t) = 32 \<and> Registers t ! 0 = 0) \<and>
    StepsSinceLastContextSwitch (state m) \<le> SchedQuantum \<and> tree_ok keccak (StMemory (state m))"
proof -
  from assms have sc: "sched_inv (state m)" and t: "tree_ok keccak (StMemory (state m))"
    by (simp_all add: vm_inv_def data_inv_def)
  have ne: "getActiveThreadStack (state m) \<noteq> []" using sc by (simp add: sched_inv_def)
  from active_split [OF ne] obtain a where "getActiveThreadStack (state m) = a @ [current (state m)]" by blast
  then have line: "set (thread_line (state m)) = insert (current (state m)) (set (rest_threads (state m)))"
    unfolding set_thread_line set_active rest_threads_def by (metis butlast_snoc set_append Un_assoc Un_insert_left Un_insert_right list.set(2) empty_set Un_empty_right)
  have regs: "\<forall>t \<in> set (thread_line (state m)). reg_inv (Registers t)"
    using sc unfolding line sched_inv_def live_def by blast
  moreover have "\<forall>t \<in> set (rest_threads (state m)). \<not> ThExited t" "StepsSinceLastContextSwitch (state m) \<le> SchedQuantum"
    using sc unfolding sched_inv_def live_def by blast+
  ultimately show ?thesis using ne t unfolding reg_inv_def by blast
qed

text \<open>C1: a step is safe.  From a state that satisfies the VM invariant, \<open>Step\<close>, with or without proof
  data, either panics with one of the panics a guest program can provoke (never with an internal error:
  an empty thread stack, a broken Merkle index, a conflicting tracked memory access) or keeps the
  invariant; a machine that has not exited counts the step, one that has exited no longer moves.\<close>
theorem FPVM_Step_safe:
  assumes "vm_inv keccak po m" and "hash_fn keccak"
  shows "case FPVM_Step keccak po enable m of
      Inl e \<Rightarrow> e \<in> {InvalidInstruction, InstructionDivideByZero, BranchInDelaySlot, JumpInDelaySlot,
        PreimageOffsetOutOfBounds, IndexOutOfRange, UnrecognizedSyscall, InvalidPC}
    | Inr (w, m') \<Rightarrow> vm_inv keccak po m' \<and>
        (if Exited (state m) then Step (state m') = Step (state m) \<and> Exited (state m') \<and> ExitCode (state m') = ExitCode (state m)
         else Step (state m') = Step (state m) + 1)"
  using FPVM_Step_post [OF assms, of enable]
  by (auto simp: post_def vm_panics_def core_panics_def full_step_post_def step_post_def split: sum.splits if_splits)

text \<open>C12: load-linked reservations are sound.  Over any run in which no load-linked executes, if a
  reservation is still held at the end then it is the same reservation as at the start, and no thread
  and no system call has changed the reserved word in between.\<close>
theorem reservation_sound:
  assumes "vm_steps keccak po n m m'" and "vm_inv keccak po m" and "hash_fn keccak"
    and "statsLog m' = statsLog m @ evs" and "\<forall>tid st. TrackLL tid st \<notin> set evs"
    and "LLReservationStatus (state m') \<noteq> LLStatusNone"
  shows "LLReservationStatus (state m') = LLReservationStatus (state m) \<and>
    LLAddress (state m') = LLAddress (state m) \<and> LLOwnerThread (state m') = LLOwnerThread (state m) \<and>
    word_at (StMemory (state m')) (AddressMask AND LLAddress (state m)) =
      word_at (StMemory (state m)) (AddressMask AND LLAddress (state m))"
proof -
  have "ll_rel m m'" using vm_steps_inv [OF assms(1-3)] by blast
  moreover have "\<not> list_ex is_LL evs" using assms(5) by (auto simp: list_ex_iff is_LL_def split: stats_event.splits)
  ultimately show ?thesis
    using assms(4,6) by (simp add: ll_rel_def ll_same_def words_def reserved_def del: AddressMask_def)
qed

text \<open>C18: the proof data of a step opens the state hash.  With proofs enabled, a returned witness holds
  the encoded pre-state, a hash whose first byte is the VM status, and proof data that starts with the
  serialized running thread, the root of the threads below it, and a Merkle branch whose leaf is the
  memory at the thread's PC and whose root is the committed memory root.\<close>
theorem FPVM_Step_witness:
  assumes "vm_inv keccak po m" and "hash_fn keccak" and "FPVM_Step keccak po True m = Inr (w, m')"
  shows "\<exists>wit. w = Some wit \<and> proves keccak (state m) wit"
  using post_result [OF FPVM_Step_post [OF assms(1,2)] assms(3)] by simp


theorem FPVM_Step_safe_witness:
  "case FPVM_Step sample_keccak id True (NewInstrumentedState sample_state) of
      Inl e \<Rightarrow> e \<in> {InvalidInstruction, InstructionDivideByZero, BranchInDelaySlot, JumpInDelaySlot,
        PreimageOffsetOutOfBounds, IndexOutOfRange, UnrecognizedSyscall, InvalidPC}
    | Inr (w, m') \<Rightarrow> vm_inv sample_keccak id m' \<and>
        (if Exited (state (NewInstrumentedState sample_state))
         then Step (state m') = Step (state (NewInstrumentedState sample_state)) \<and> Exited (state m') \<and>
           ExitCode (state m') = ExitCode (state (NewInstrumentedState sample_state))
         else Step (state m') = Step (state (NewInstrumentedState sample_state)) + 1)"
  by (rule FPVM_Step_safe [OF sample_inv hash_fn_sample])

theorem reservation_sound_witness:
  "\<exists>m'. vm_steps sample_keccak id 1 (NewInstrumentedState sample_state) m' \<and>
    LLReservationStatus (state m') = 1 \<and> LLAddress (state m') = LLAddress sample_state \<and>
    word_at (StMemory (state m')) 0x2000 = word_at (StMemory sample_state) 0x2000"
proof -
  let ?m = "NewInstrumentedState sample_state"
  from sample_step obtain m' where m': "FPVM_Step sample_keccak id False ?m = Inr (None, m')"
    "LLReservationStatus (state m') = 1" "statsLog m' = []" by blast
  have run: "vm_steps sample_keccak id (Suc 0) ?m m'" by (rule vm_next [OF vm_start m'(1)])
  have "statsLog m' = statsLog ?m @ []" using m'(3) by (simp add: NewInstrumentedState_def)
  from reservation_sound [OF run sample_inv hash_fn_sample this] m'(2)
  show ?thesis using run m'(2) by (auto simp: NewInstrumentedState_def sample_state_def intro!: exI [of _ m'])
qed

theorem FPVM_Step_witness_witness:
  "\<exists>wit m'. FPVM_Step sample_keccak id True (NewInstrumentedState sample_state) = Inr (Some wit, m') \<and>
    proves sample_keccak (state (NewInstrumentedState sample_state)) wit"
proof -
  obtain w m' where "FPVM_Step sample_keccak id True (NewInstrumentedState sample_state) = Inr (w, m')"
    using sample_step_proof [OF hash_fn_sample] by blast
  then show ?thesis using FPVM_Step_witness [OF sample_inv hash_fn_sample] by blast
qed

end
