(* ===== verification/Scheduler.thy ===== *)
theory Scheduler
  imports FPVM
begin

text \<open>
  What the two-stack scheduler of \<open>cannon/mipsevm/multithreaded/mips.go\<close> promises: preemption walks
  back and forth over the line of threads, so every thread gets to run; and what a store-conditional
  does to memory, register and reservation.
\<close>

section \<open>Preempting again and again\<close>

text \<open>\<open>k\<close> forced context switches, as \<open>doMipsStep\<close> makes them: each preempts the current thread.\<close>

fun preempt_times :: "nat \<Rightarrow> InstrumentedState \<Rightarrow> InstrumentedState res" where
  "preempt_times 0 m = Inr m"
| "preempt_times (Suc k) m =
     bind_res (GetCurrentThread (state m)) (\<lambda>t. bind_res (preemptThread t m) (\<lambda>(_, m'). preempt_times k m'))"

lemma preempt_times_add: "preempt_times (a + b) m = bind_res (preempt_times a m) (preempt_times b)"
  by (induction a arbitrary: m) (auto simp: bind_res_assoc split_def intro!: bind_res_cong)

lemma preempt_left_step:
  assumes "\<not> TraverseRight (state m)" and "LeftThreadStack (state m) = ls @ [t]"
  shows "\<exists>m'. preempt_times (Suc k) m = preempt_times k m' \<and> LeftThreadStack (state m') = ls \<and>
    RightThreadStack (state m') = RightThreadStack (state m) @ [t] \<and> TraverseRight (state m') = (ls = [])"
proof -
  have "GetCurrentThread (state m) = Inr t"
    using assms by (simp add: GetCurrentThread_def getActiveThreadStack_def Let_def nth_append)
  moreover have "\<exists>m'. preemptThread t m = Inr (ls = [], m') \<and> LeftThreadStack (state m') = ls \<and>
    RightThreadStack (state m') = RightThreadStack (state m) @ [t] \<and> TraverseRight (state m') = (ls = [])"
    unfolding preemptThread_left [OF assms] by (intro exI conjI, rule refl) (simp_all add: log_stats_def set_state_def)
  ultimately show ?thesis by fastforce
qed

lemma preempt_right_step:
  assumes "TraverseRight (state m)" and "RightThreadStack (state m) = rs @ [t]"
  shows "\<exists>m'. preempt_times (Suc k) m = preempt_times k m' \<and> RightThreadStack (state m') = rs \<and>
    LeftThreadStack (state m') = LeftThreadStack (state m) @ [t] \<and> TraverseRight (state m') = (rs \<noteq> [])"
proof -
  have "GetCurrentThread (state m) = Inr t"
    using assms by (simp add: GetCurrentThread_def getActiveThreadStack_def Let_def nth_append)
  moreover have "\<exists>m'. preemptThread t m = Inr (rs = [], m') \<and> RightThreadStack (state m') = rs \<and>
    LeftThreadStack (state m') = LeftThreadStack (state m) @ [t] \<and> TraverseRight (state m') = (rs \<noteq> [])"
    unfolding preemptThread_right [OF assms] by (intro exI conjI, rule refl) (simp_all add: log_stats_def set_state_def)
  ultimately show ?thesis by fastforce
qed

text \<open>Walking left moves the top \<open>length ts\<close> threads of the left stack, in order, to the right stack.\<close>

lemma preempt_left_walk:
  assumes "\<not> TraverseRight (state m)" and "LeftThreadStack (state m) = ls @ ts" and "ls \<noteq> []"
  shows "\<exists>m'. preempt_times (length ts + k) m = preempt_times k m' \<and> LeftThreadStack (state m') = ls \<and>
    RightThreadStack (state m') = RightThreadStack (state m) @ rev ts \<and> \<not> TraverseRight (state m')"
  using assms
proof (induction ts arbitrary: m rule: rev_induct)
  case Nil
  then show ?case by (intro exI [of _ m]) simp
next
  case (snoc t ts)
  from preempt_left_step [of m "ls @ ts" t "length ts + k"] snoc.prems obtain m1 where
    m1: "preempt_times (Suc (length ts + k)) m = preempt_times (length ts + k) m1"
      "LeftThreadStack (state m1) = ls @ ts" "RightThreadStack (state m1) = RightThreadStack (state m) @ [t]"
      "\<not> TraverseRight (state m1)" by auto
  from snoc.IH [OF m1(4,2) snoc.prems(3)] m1(1,3) show ?case by auto
qed

lemma preempt_right_walk:
  assumes "TraverseRight (state m)" and "RightThreadStack (state m) = rs @ ts" and "rs \<noteq> []"
  shows "\<exists>m'. preempt_times (length ts + k) m = preempt_times k m' \<and> RightThreadStack (state m') = rs \<and>
    LeftThreadStack (state m') = LeftThreadStack (state m) @ rev ts \<and> TraverseRight (state m')"
  using assms
proof (induction ts arbitrary: m rule: rev_induct)
  case Nil
  then show ?case by (intro exI [of _ m]) simp
next
  case (snoc t ts)
  from preempt_right_step [of m "rs @ ts" t "length ts + k"] snoc.prems obtain m1 where
    m1: "preempt_times (Suc (length ts + k)) m = preempt_times (length ts + k) m1"
      "RightThreadStack (state m1) = rs @ ts" "LeftThreadStack (state m1) = LeftThreadStack (state m) @ [t]"
      "TraverseRight (state m1)" by auto
  from snoc.IH [OF m1(4,2) snoc.prems(3)] m1(1,3) show ?case by auto
qed

text \<open>A thread of the stack being traversed is reached directly; turning round first reaches the rest.\<close>

lemma reach_left:
  assumes "\<not> TraverseRight (state m)" and "t \<in> set (LeftThreadStack (state m))"
  shows "\<exists>k m'. k < length (LeftThreadStack (state m)) \<and> preempt_times k m = Inr m' \<and> GetCurrentThread (state m') = Inr t"
proof -
  from assms(2) obtain ls ts where s: "LeftThreadStack (state m) = (ls @ [t]) @ ts" by (metis append.assoc append_Cons append_Nil split_list)
  from preempt_left_walk [OF assms(1) s, of 0] obtain m' where
    "preempt_times (length ts) m = Inr m'" "LeftThreadStack (state m') = ls @ [t]" "\<not> TraverseRight (state m')" by auto
  then show ?thesis
    by (intro exI [of _ "length ts"] exI [of _ m'])
      (simp add: s GetCurrentThread_def getActiveThreadStack_def Let_def nth_append)
qed

lemma reach_right:
  assumes "TraverseRight (state m)" and "t \<in> set (RightThreadStack (state m))"
  shows "\<exists>k m'. k < length (RightThreadStack (state m)) \<and> preempt_times k m = Inr m' \<and> GetCurrentThread (state m') = Inr t"
proof -
  from assms(2) obtain rs ts where s: "RightThreadStack (state m) = (rs @ [t]) @ ts" by (metis append.assoc append_Cons append_Nil split_list)
  from preempt_right_walk [OF assms(1) s, of 0] obtain m' where
    "preempt_times (length ts) m = Inr m'" "RightThreadStack (state m') = rs @ [t]" "TraverseRight (state m')" by auto
  then show ?thesis
    by (intro exI [of _ "length ts"] exI [of _ m'])
      (simp add: s GetCurrentThread_def getActiveThreadStack_def Let_def nth_append)
qed

lemma turn_left:
  assumes "\<not> TraverseRight (state m)" and "LeftThreadStack (state m) = a # ts"
  shows "\<exists>m'. preempt_times (length (LeftThreadStack (state m)) + k) m = preempt_times k m' \<and>
    LeftThreadStack (state m') = [] \<and> RightThreadStack (state m') = RightThreadStack (state m) @ rev (LeftThreadStack (state m)) \<and>
    TraverseRight (state m')"
proof -
  have s: "LeftThreadStack (state m) = [a] @ ts" using assms(2) by simp
  from preempt_left_walk [OF assms(1) s, of "Suc k"] obtain m1 where
    m1: "preempt_times (length ts + Suc k) m = preempt_times (Suc k) m1" "LeftThreadStack (state m1) = [] @ [a]"
      "RightThreadStack (state m1) = RightThreadStack (state m) @ rev ts" "\<not> TraverseRight (state m1)" by auto
  from preempt_left_step [OF m1(4,2), of k] m1(1,3) s show ?thesis by auto
qed


lemma turn_right:
  assumes "TraverseRight (state m)" and "RightThreadStack (state m) = a # ts"
  shows "\<exists>m'. preempt_times (length (RightThreadStack (state m)) + k) m = preempt_times k m' \<and>
    RightThreadStack (state m') = [] \<and> LeftThreadStack (state m') = LeftThreadStack (state m) @ rev (RightThreadStack (state m)) \<and>
    \<not> TraverseRight (state m')"
proof -
  have s: "RightThreadStack (state m) = [a] @ ts" using assms(2) by simp
  from preempt_right_walk [OF assms(1) s, of "Suc k"] obtain m1 where
    m1: "preempt_times (length ts + Suc k) m = preempt_times (Suc k) m1" "RightThreadStack (state m1) = [] @ [a]"
      "LeftThreadStack (state m1) = LeftThreadStack (state m) @ rev ts" "TraverseRight (state m1)" by auto
  from preempt_right_step [OF m1(4,2), of k] m1(1,3) s show ?thesis by auto
qed

lemma reach_mono:
  assumes "\<exists>k m'. k < n \<and> preempt_times k m = Inr m' \<and> GetCurrentThread (state m') = Inr t" and "n \<le> n'"
  shows "\<exists>k m'. k < n' \<and> preempt_times k m = Inr m' \<and> GetCurrentThread (state m') = Inr t"
  using assms by (meson less_le_trans)

lemma two_walks:
  assumes "preempt_times a m = Inr m1"
    and "\<exists>k m'. k < n \<and> preempt_times k m1 = Inr m' \<and> GetCurrentThread (state m') = Inr t"
  shows "\<exists>k m'. k < a + n \<and> preempt_times k m = Inr m' \<and> GetCurrentThread (state m') = Inr t"
proof -
  from assms(2) obtain k m' where "k < n" "preempt_times k m1 = Inr m'" "GetCurrentThread (state m') = Inr t" by blast
  then show ?thesis
    by (intro exI [of _ "a + k"] exI [of _ m']) (simp add: preempt_times_add assms(1))
qed

section \<open>Store-conditional\<close>

definition rmw_width :: "u32 \<Rightarrow> Word" where
  "rmw_width opcode = (if opcode = OpLoadLinked64 \<or> opcode = OpStoreConditional64 then 8 else 4)"

definition rmw_status :: "u32 \<Rightarrow> byte" where
  "rmw_status opcode = (if opcode = OpLoadLinked64 \<or> opcode = OpStoreConditional64 then LLStatusActive64bit else LLStatusActive32bit)"

definition rmw_addr :: "u32 \<Rightarrow> ThreadState \<Rightarrow> Word" where
  "rmw_addr insn t = Registers t ! unat (ucast (drop_bit 21 insn AND 0x1F) :: Word) + SignExtendImmediate insn"

definition rmw_reg :: "u32 \<Rightarrow> nat" where
  "rmw_reg insn = unat (ucast (drop_bit 16 insn AND 0x1F) :: Word)"

text \<open>The current thread holds a reservation of this width on this address.\<close>

definition holds_reservation :: "u32 \<Rightarrow> u32 \<Rightarrow> State \<Rightarrow> bool" where
  "holds_reservation insn opcode s \<longleftrightarrow> LLReservationStatus s = rmw_status opcode \<and>
     LLOwnerThread s = ThreadId (current s) \<and> LLAddress s = rmw_addr insn (current s)"

lemma rmw_reg_less: "rmw_reg insn < 32"
  unfolding rmw_reg_def by (rule reg_index_less)

lemma HandleRd_ok:
  assumes "length r = 32" and "unat i < 32"
  shows "\<exists>c'. HandleRd c r i v True = Inr (c', if i = 0 then r else r[unat i := v])"
proof -
  have lt: "(i \<ge> 32) = False" using assms(2) by (simp add: word_le_nat_alt)
  show ?thesis using assms by (simp add: HandleRd_def lt reg_set_def)
qed

lemma StoreSubWord_exact:
  assumes "tree_ok keccak (mem s)" and "tracker_fresh (tracker s)"
  shows "\<exists>s'. StoreSubWord keccak vaddr n v s = Inr s' \<and>
    word_at (mem s') (vaddr AND AddressMask) = UpdateSubWord vaddr (word_at (mem s) (vaddr AND AddressMask)) n v \<and>
    mem_frame (Some (vaddr AND AddressMask)) (mem s) (mem s') \<and> regs s' = regs s"
proof -
  let ?a = "vaddr AND AddressMask"
  from tracked_GetWord_post [OF assms(1) aligned_AddressMask tracker_fresh_at [OF assms(2)], of vaddr] obtain s0 where
    s0: "tracked_GetWord keccak ?a s = Inr (word_at (mem s) ?a, s0)" "tree_ok keccak (mem s0)"
      "word_at (mem s0) = word_at (mem s)" "core_same s s0" by (auto simp only: post_no_panic)
  let ?u = "UpdateSubWord vaddr (word_at (mem s) ?a) n v"
  from SetWord_post [OF s0(2) aligned_AddressMask, of vaddr ?u] obtain m where
    m: "SetWord (mem s0) ?a ?u = Inr m" "word_at m ?a = ?u" "mem_frame (Some ?a) (mem s0) m"
    by (auto simp only: post_no_panic)
  have "StoreSubWord keccak vaddr n v s = Inr (s0\<lparr>mem := m\<rparr>)"
    by (simp only: StoreSubWord_def s0(1) m(1) bind_res_Inr split_conv)
  then show ?thesis using m(2,3) s0(3,4) by (simp add: mem_frame_def core_same_def del: AddressMask_def)
qed

text \<open>The end of a store-conditional: \<open>v\<close> is what the destination register reads.\<close>

lemma sc_write_back:
  assumes "length (regs c) = 32" and "unat i < 32"
  shows "\<exists>m'. bind_res (HandleRd (cpu c) (regs c) i v True) (\<lambda>(c', r'). Inr (put_core m1 t (c\<lparr>cpu := c', regs := r'\<rparr>))) = Inr m' \<and>
    StMemory (state m') = mem c \<and> LLReservationStatus (state m') = LLReservationStatus (state m1) \<and>
    LLAddress (state m') = LLAddress (state m1) \<and> LLOwnerThread (state m') = LLOwnerThread (state m1) \<and>
    Registers (current (state m')) = (if i = 0 then regs c else (regs c)[unat i := v])"
proof -
  from HandleRd_ok [OF assms] obtain c' where
    c': "HandleRd (cpu c) (regs c) i v True = Inr (c', if i = 0 then regs c else (regs c)[unat i := v])" by blast
  have cur: "current ((putCurrentThread s u)\<lparr>StMemory := x\<rparr>) = u" for s u x
    using threads_cong(3) [of "(putCurrentThread s u)\<lparr>StMemory := x\<rparr>" "putCurrentThread s u"] by simp
  show ?thesis unfolding c' by (simp add: put_core_def log_stack_def cur)
qed

section \<open>Properties\<close>

text \<open>C14: the scheduler starves nobody.  In any machine with a thread to run, every thread on either
  stack becomes the current thread after fewer than twice as many context switches as there are
  threads, and none of those switches panics.\<close>
theorem every_thread_scheduled:
  assumes "getActiveThreadStack (state m) \<noteq> []" and "t \<in> set (thread_line (state m))"
  shows "\<exists>k m'. k < 2 * ThreadCount (state m) \<and> preempt_times k m = Inr m' \<and> GetCurrentThread (state m') = Inr t"
proof (cases "TraverseRight (state m)")
  case True
  from assms(1) True obtain a ts where r: "RightThreadStack (state m) = a # ts"
    by (auto simp: getActiveThreadStack_def neq_Nil_conv)
  show ?thesis
  proof (cases "t \<in> set (RightThreadStack (state m))")
    case here: True
    show ?thesis by (rule reach_mono [OF reach_right [OF True here]]) (simp add: ThreadCount_def)
  next
    case False
    then have l: "t \<in> set (LeftThreadStack (state m))" using assms(2) by (simp add: set_thread_line)
    from turn_right [OF True r, of 0] obtain m1 where
      m1: "preempt_times (length (RightThreadStack (state m))) m = Inr m1" "\<not> TraverseRight (state m1)"
        "LeftThreadStack (state m1) = LeftThreadStack (state m) @ rev (RightThreadStack (state m))" by (auto simp del: One_nat_def)
    have in1: "t \<in> set (LeftThreadStack (state m1))" using l m1(3) by simp
    show ?thesis
      by (rule reach_mono [OF two_walks [OF m1(1) reach_left [OF m1(2) in1]]]) (simp add: m1(3) ThreadCount_def)
  qed
next
  case False
  from assms(1) False obtain a ts where l: "LeftThreadStack (state m) = a # ts"
    by (auto simp: getActiveThreadStack_def neq_Nil_conv)
  show ?thesis
  proof (cases "t \<in> set (LeftThreadStack (state m))")
    case here: True
    show ?thesis by (rule reach_mono [OF reach_left [OF False here]]) (simp add: ThreadCount_def)
  next
    case other: False
    then have r: "t \<in> set (RightThreadStack (state m))" using assms(2) by (simp add: set_thread_line)
    from turn_left [OF False l, of 0] obtain m1 where
      m1: "preempt_times (length (LeftThreadStack (state m))) m = Inr m1" "TraverseRight (state m1)"
        "RightThreadStack (state m1) = RightThreadStack (state m) @ rev (LeftThreadStack (state m))" by auto
    have in1: "t \<in> set (RightThreadStack (state m1))" using r m1(3) by simp
    show ?thesis
      by (rule reach_mono [OF two_walks [OF m1(1) reach_right [OF m1(2) in1]]]) (simp add: m1(3) ThreadCount_def)
  qed
qed

theorem every_thread_scheduled_witness:
  "\<exists>k m'. k < 2 \<and> preempt_times k (NewInstrumentedState sample_state) = Inr m' \<and>
    GetCurrentThread (state m') = Inr CreateEmptyThread"
proof -
  let ?m = "NewInstrumentedState sample_state"
  have "getActiveThreadStack (state ?m) \<noteq> []" "CreateEmptyThread \<in> set (thread_line (state ?m))"
    "ThreadCount (state ?m) = 1"
    by (simp_all add: NewInstrumentedState_def sample_state_def CreateEmptyState_def getActiveThreadStack_def
        thread_line_def ThreadCount_def)
  then show ?thesis using every_thread_scheduled [of ?m CreateEmptyThread] by simp
qed

text \<open>C13: a store-conditional succeeds exactly when it should.  Executed by a live thread, it never
  panics.  If the thread holds the reservation of that width and address, the sub-word is stored, the
  reservation is released and the register reads 1; otherwise memory and reservation stay as they are
  and the register reads 0.\<close>
theorem store_conditional:
  assumes "vm_inv keccak po m" and "\<not> ThExited (current (state m))" and "tracker_fresh (memoryTracker m)"
    and "opcode \<in> {OpStoreConditional, OpStoreConditional64}"
    and "addr = rmw_addr insn (current (state m))" and "r = Registers (current (state m))"
  shows "\<exists>m'. handleRMWOps keccak insn opcode m = Inr m' \<and>
    (if holds_reservation insn opcode (state m)
     then LLReservationStatus (state m') = LLStatusNone \<and>
       word_at (StMemory (state m')) (addr AND AddressMask) =
         UpdateSubWord addr (word_at (StMemory (state m)) (addr AND AddressMask)) (rmw_width opcode) (r ! rmw_reg insn) \<and>
       mem_frame (Some (addr AND AddressMask)) (StMemory (state m)) (StMemory (state m')) \<and>
       (rmw_reg insn \<noteq> 0 \<longrightarrow> Registers (current (state m')) = r[rmw_reg insn := 1])
     else StMemory (state m') = StMemory (state m) \<and> ll_same m m' \<and>
       (rmw_reg insn \<noteq> 0 \<longrightarrow> Registers (current (state m')) = r[rmw_reg insn := 0]))"
proof -
  let ?t = "current (state m)"
  have w: "work keccak po m" by (rule stepping_work [OF assms(1,2)])
  note c = work_current [OF w]
  have len: "length r = 32" using c(2) assms(6) by (simp add: live_def reg_inv_def)
  let ?rt = "ucast (drop_bit 16 insn AND 0x1F) :: Word" and ?bs = "ucast (drop_bit 21 insn AND 0x1F) :: Word"
  have rt: "unat ?rt < 32" and bs: "unat ?bs < 32" by (rule reg_index_less)+
  have get: "reg_get r ?bs = Inr (r ! unat ?bs)" "reg_get r ?rt = Inr (r ! rmw_reg insn)"
    using rt bs len by (simp_all add: reg_get_def rmw_reg_def)
  have op: "opcode = OpStoreConditional \<or> opcode = OpStoreConditional64"
    "\<not> (opcode = OpLoadLinked \<or> opcode = OpLoadLinked64)" using assms(4) by auto
  have unfold: "handleRMWOps keccak insn opcode m =
     (if holds_reservation insn opcode (state m) then
        bind_res (StoreSubWord keccak addr (rmw_width opcode) (r ! rmw_reg insn) (core_of m ?t)) (\<lambda>c.
          bind_res (HandleRd (cpu c) (regs c) ?rt 1 True) (\<lambda>(c', r').
            Inr (put_core (log_stats [TrackSCSuccess (ThreadId ?t) (Step (state m))]
              (set_state (clearLLMemoryReservation (state m)) m)) ?t (c\<lparr>cpu := c', regs := r'\<rparr>))))
      else bind_res (HandleRd (cpu (core_of m ?t)) (regs (core_of m ?t)) ?rt 0 True) (\<lambda>(c', r').
            Inr (put_core (log_stats [TrackSCFailure (ThreadId ?t) (Step (state m))] m) ?t
              ((core_of m ?t)\<lparr>cpu := c', regs := r'\<rparr>))))"
    unfolding handleRMWOps_def c(3) bind_res_Inr Let_def assms(6) [symmetric] get if_P [OF op(1)] if_not_P [OF op(2)]
    by (simp only: holds_reservation_def rmw_status_def rmw_width_def assms(5) rmw_addr_def assms(6) [symmetric])
  have nz: "rmw_reg insn \<noteq> 0 \<longleftrightarrow> ?rt \<noteq> 0" by (simp add: rmw_reg_def unat_eq_zero)
  show ?thesis
  proof (cases "holds_reservation insn opcode (state m)")
    case True
    have "tracker_fresh (tracker (core_of m ?t))" "tree_ok keccak (mem (core_of m ?t))" using assms(3) c(4) by simp_all
    from StoreSubWord_exact [OF this(2,1)] obtain c1 where
      c1: "StoreSubWord keccak addr (rmw_width opcode) (r ! rmw_reg insn) (core_of m ?t) = Inr c1"
        "word_at (mem c1) (addr AND AddressMask) =
          UpdateSubWord addr (word_at (StMemory (state m)) (addr AND AddressMask)) (rmw_width opcode) (r ! rmw_reg insn)"
        "mem_frame (Some (addr AND AddressMask)) (StMemory (state m)) (mem c1)" "regs c1 = r"
      unfolding assms(6) core_of_sel by blast
    have l1: "length (regs c1) = 32" using c1(4) len by simp
    from sc_write_back [OF l1 rt] obtain m' where
      m': "bind_res (HandleRd (cpu c1) (regs c1) ?rt 1 True) (\<lambda>(c', r').
            Inr (put_core (log_stats [TrackSCSuccess (ThreadId ?t) (Step (state m))]
              (set_state (clearLLMemoryReservation (state m)) m)) ?t (c1\<lparr>cpu := c', regs := r'\<rparr>))) = Inr m'"
        "StMemory (state m') = mem c1"
        "LLReservationStatus (state m') = LLReservationStatus (state (log_stats [TrackSCSuccess (ThreadId ?t) (Step (state m))]
              (set_state (clearLLMemoryReservation (state m)) m)))"
        "Registers (current (state m')) = (if ?rt = 0 then regs c1 else (regs c1)[unat ?rt := 1])" by blast
    have "LLReservationStatus (state m') = LLStatusNone"
      using m'(3) by (simp add: log_stats_def set_state_def clearLLMemoryReservation_def)
    then show ?thesis
      unfolding unfold if_P [OF True] c1(1) bind_res_Inr m'(1)
      using m'(2,4) c1 nz by (simp add: rmw_reg_def del: AddressMask_def)
  next
    case False
    have l0: "length (regs (core_of m ?t)) = 32" using len assms(6) by simp
    from sc_write_back [OF l0 rt] obtain m' where
      m': "bind_res (HandleRd (cpu (core_of m ?t)) (regs (core_of m ?t)) ?rt 0 True) (\<lambda>(c', r').
            Inr (put_core (log_stats [TrackSCFailure (ThreadId ?t) (Step (state m))] m) ?t
              ((core_of m ?t)\<lparr>cpu := c', regs := r'\<rparr>))) = Inr m'"
        "StMemory (state m') = mem (core_of m ?t)"
        "ll_same (log_stats [TrackSCFailure (ThreadId ?t) (Step (state m))] m) m'"
        "Registers (current (state m')) = (if ?rt = 0 then regs (core_of m ?t) else (regs (core_of m ?t))[unat ?rt := 0])"
      unfolding ll_same_def by blast
    then show ?thesis
      unfolding unfold if_not_P [OF False] m'(1)
      using nz by (simp add: rmw_reg_def assms(6) ll_same_def log_stats_def)
  qed
qed

theorem store_conditional_witness:
  "\<exists>m'. handleRMWOps sample_keccak 0xE0012000 OpStoreConditional
      (reset_trackers True (NewInstrumentedState sample_state)) = Inr m' \<and>
    LLReservationStatus (state m') = LLStatusNone \<and> Registers (current (state m')) = (replicate 32 0)[1 := 1]"
proof -
  let ?m = "reset_trackers True (NewInstrumentedState sample_state)"
  have cur: "current (state ?m) = CreateEmptyThread"
    by (simp add: NewInstrumentedState_def sample_state_def CreateEmptyState_def current_def getActiveThreadStack_def)
  have inv: "vm_inv sample_keccak id ?m" and fresh: "tracker_fresh (memoryTracker ?m)"
    by (rule reset_trackers_inv [OF sample_inv])+
  have live: "\<not> ThExited (current (state ?m))" by (simp only: cur) (simp add: CreateEmptyThread_def)
  have reg: "rmw_reg 0xE0012000 = 1" by (simp add: rmw_reg_def)
  have "rmw_addr 0xE0012000 CreateEmptyThread = 0x2000"
    by (simp add: rmw_addr_def CreateEmptyThread_def SignExtendImmediate_def SignExtend_def)
  then have held: "holds_reservation 0xE0012000 OpStoreConditional (state ?m)"
    unfolding holds_reservation_def cur
    by (simp add: rmw_status_def NewInstrumentedState_def sample_state_def CreateEmptyState_def CreateEmptyThread_def)
  have op: "OpStoreConditional \<in> {OpStoreConditional, OpStoreConditional64}" by simp
  have cur0: "Registers (current (state (NewInstrumentedState sample_state))) = replicate 32 0"
    using cur by (simp add: CreateEmptyThread_def)
  from store_conditional [OF inv live fresh op refl refl, of "0xE0012000"] held reg cur0
  show ?thesis by auto
qed

end
