(* ===== verification/State_Codec.thy ===== *)
theory State_Codec
  imports Witness
begin

unbundle bit_operations_syntax

text \<open>
  \<open>op-service/serialize/reader.go\<close> and \<open>writer.go\<close> and, built on them, \<open>ThreadState\<close> and \<open>State\<close>
  \<open>.Serialize\<close> / \<open>.Deserialize\<close> of \<open>cannon/mipsevm/multithreaded\<close>: the snapshot format.  A writer is
  the list of bytes written, a reader the list of bytes still to be read.
\<close>

section \<open>Binary writer and reader\<close>

datatype codec_err = IoErr io_err | InvalidBoolean byte | MakeSliceOutOfRange

definition lift_io :: "io_err + 'a \<Rightarrow> codec_err + 'a" where
  "lift_io r = (case r of Inl e \<Rightarrow> Inl (IoErr e) | Inr x \<Rightarrow> Inr x)"

definition put_u32 :: "u32 \<Rightarrow> byte list" where
  "put_u32 v = be_enc 4 (unat v)"

definition WriteHash :: "byte list \<Rightarrow> byte list" where
  "WriteHash v = v"

definition WriteBool :: "bool \<Rightarrow> byte list" where
  "WriteBool v = (if v then [1] else [0])"

definition WriteBytes :: "byte list \<Rightarrow> byte list" where
  "WriteBytes v = put_u32 (of_nat (length v)) @ v"

definition ReadUInt8 :: "byte list \<Rightarrow> codec_err + byte \<times> byte list" where
  "ReadUInt8 inp = bind_res (lift_io (read_full 1 inp)) (\<lambda>(b, rest). Inr (hd b, rest))"

definition ReadUInt32 :: "byte list \<Rightarrow> codec_err + u32 \<times> byte list" where
  "ReadUInt32 inp = bind_res (lift_io (read_full 4 inp)) (\<lambda>(b, rest). Inr (get_u32 b, rest))"

definition ReadUInt64 :: "byte list \<Rightarrow> codec_err + Word \<times> byte list" where
  "ReadUInt64 inp = lift_io (read_word inp)"

definition ReadHash :: "byte list \<Rightarrow> codec_err + byte list \<times> byte list" where
  "ReadHash inp = lift_io (read_full 32 inp)"

definition ReadBool :: "byte list \<Rightarrow> codec_err + bool \<times> byte list" where
  "ReadBool inp = bind_res (ReadUInt8 inp) (\<lambda>(v, rest).
     if v = 0 then Inr (False, rest) else if v = 1 then Inr (True, rest) else Inl (InvalidBoolean v))"

definition ReadBytes :: "byte list \<Rightarrow> codec_err + byte list \<times> byte list" where
  "ReadBytes inp = bind_res (ReadUInt32 inp) (\<lambda>(size, rest).
     if size = 0 then Inr ([], rest) else lift_io (read_full (unat size) rest))"

section \<open>Threads\<close>

definition Thread_Serialize :: "ThreadState \<Rightarrow> byte list" where
  "Thread_Serialize t = serializeThread t"

fun read_registers :: "nat \<Rightarrow> byte list \<Rightarrow> codec_err + Word list \<times> byte list" where
  "read_registers 0 inp = Inr ([], inp)"
| "read_registers (Suc n) inp = bind_res (ReadUInt64 inp) (\<lambda>(w, inp).
     bind_res (read_registers n inp) (\<lambda>(ws, inp). Inr (w # ws, inp)))"

definition Thread_Deserialize :: "byte list \<Rightarrow> codec_err + ThreadState \<times> byte list" where
  "Thread_Deserialize inp =
     bind_res (ReadUInt64 inp) (\<lambda>(tid, inp).
     bind_res (ReadUInt8 inp) (\<lambda>(code, inp).
     bind_res (ReadUInt8 inp) (\<lambda>(exited, inp).
     bind_res (ReadUInt64 inp) (\<lambda>(pc, inp).
     bind_res (ReadUInt64 inp) (\<lambda>(nextPC, inp).
     bind_res (ReadUInt64 inp) (\<lambda>(lo, inp).
     bind_res (ReadUInt64 inp) (\<lambda>(hi, inp).
     bind_res (read_registers 32 inp) (\<lambda>(rs, inp).
       Inr (\<lparr>ThreadId = tid, ThExitCode = code, ThExited = (exited \<noteq> 0),
             Cpu = \<lparr>PC = pc, NextPC = nextPC, LO = lo, HI = hi\<rparr>, Registers = rs\<rparr>, inp)))))))))"

fun read_threads :: "nat \<Rightarrow> byte list \<Rightarrow> codec_err + ThreadState list \<times> byte list" where
  "read_threads 0 inp = Inr ([], inp)"
| "read_threads (Suc n) inp = bind_res (Thread_Deserialize inp) (\<lambda>(t, inp).
     bind_res (read_threads n inp) (\<lambda>(ts, inp). Inr (t # ts, inp)))"

text \<open>\<open>make([]*ThreadState, n)\<close> panics when the slice would exceed the address space of 2 to the 48
  bytes; running out of memory below that is not modelled.\<close>

definition read_stack :: "byte list \<Rightarrow> codec_err + ThreadState list \<times> byte list" where
  "read_stack inp = bind_res (ReadUInt64 inp) (\<lambda>(n, inp).
     if unat n * 8 > 2 ^ 48 then Inl MakeSliceOutOfRange else read_threads (unat n) inp)"

section \<open>The state\<close>

definition serialize_fields :: "State \<Rightarrow> byte list" where
  "serialize_fields s =
     WriteHash (PreimageKey s) @ put_u64 (PreimageOffset s) @ put_u64 (Heap s) @
     [LLReservationStatus s] @ put_u64 (LLAddress s) @ put_u64 (LLOwnerThread s) @ [ExitCode s] @
     WriteBool (Exited s) @ put_u64 (Step s) @ put_u64 (StepsSinceLastContextSwitch s) @
     WriteBool (TraverseRight s) @ put_u64 (NextThreadId s) @
     put_u64 (of_nat (length (LeftThreadStack s))) @ concat (map Thread_Serialize (LeftThreadStack s)) @
     put_u64 (of_nat (length (RightThreadStack s))) @ concat (map Thread_Serialize (RightThreadStack s)) @
     WriteBytes (LastHint s)"

definition State_Serialize :: "State \<Rightarrow> byte list" where
  "State_Serialize s = mem_Serialize (StMemory s) @ serialize_fields s"

definition State_Deserialize :: "byte list \<Rightarrow> codec_err + State \<times> byte list" where
  "State_Deserialize inp =
     bind_res (lift_io (mem_Deserialize NewMemory inp)) (\<lambda>(memory, inp).
     bind_res (ReadHash inp) (\<lambda>(preimageKey, inp).
     bind_res (ReadUInt64 inp) (\<lambda>(preimageOffset, inp).
     bind_res (ReadUInt64 inp) (\<lambda>(heap, inp).
     bind_res (ReadUInt8 inp) (\<lambda>(llStatus, inp).
     bind_res (ReadUInt64 inp) (\<lambda>(llAddress, inp).
     bind_res (ReadUInt64 inp) (\<lambda>(llOwner, inp).
     bind_res (ReadUInt8 inp) (\<lambda>(exitCode, inp).
     bind_res (ReadBool inp) (\<lambda>(exited, inp).
     bind_res (ReadUInt64 inp) (\<lambda>(step, inp).
     bind_res (ReadUInt64 inp) (\<lambda>(steps, inp).
     bind_res (ReadBool inp) (\<lambda>(traverseRight, inp).
     bind_res (ReadUInt64 inp) (\<lambda>(nextThreadId, inp).
     bind_res (read_stack inp) (\<lambda>(left, inp).
     bind_res (read_stack inp) (\<lambda>(right, inp).
     bind_res (ReadBytes inp) (\<lambda>(lastHint, inp).
       Inr (\<lparr>StMemory = memory, PreimageKey = preimageKey, PreimageOffset = preimageOffset, Heap = heap,
             LLReservationStatus = llStatus, LLAddress = llAddress, LLOwnerThread = llOwner,
             ExitCode = exitCode, Exited = exited, Step = step, StepsSinceLastContextSwitch = steps,
             TraverseRight = traverseRight, LeftThreadStack = left, RightThreadStack = right,
             NextThreadId = nextThreadId, LastHint = lastHint\<rparr>, inp)))))))))))))))))"

section \<open>Each field reads back\<close>

named_theorems codec_simps \<open>reading back what was written\<close>

lemma lift_io_simps [simp]: "lift_io (Inr x) = Inr x" "lift_io (Inl e) = Inl (IoErr e)"
  by (simp_all add: lift_io_def)

lemma read_full_append: "length a = n \<Longrightarrow> read_full n (a @ rest) = Inr (a, rest)"
  by (simp add: read_full_def)

lemma ReadUInt8_back [codec_simps]: "ReadUInt8 (b # rest) = Inr (b, rest)"
  using read_full_append [of "[b]" 1 rest] by (simp add: ReadUInt8_def)

lemma ReadUInt64_back [codec_simps]: "ReadUInt64 (put_u64 w @ rest) = Inr (w, rest)"
  by (simp add: ReadUInt64_def read_word_def read_full_append)

lemma ReadUInt32_back [codec_simps]: "ReadUInt32 (put_u32 w @ rest) = Inr (w, rest)"
proof -
  have "unat w < 4294967296" using unsigned_less [of w, where 'a = nat] by simp
  then show ?thesis
    by (simp add: ReadUInt32_def put_u32_def read_full_append get_u32_def be_dec_enc)
qed

lemma ReadHash_back [codec_simps]: "length h = 32 \<Longrightarrow> ReadHash (h @ rest) = Inr (h, rest)"
  by (simp add: ReadHash_def read_full_append)

lemma ReadBool_back [codec_simps]: "ReadBool (WriteBool b @ rest) = Inr (b, rest)"
  by (simp add: ReadBool_def WriteBool_def codec_simps)

lemma ReadBytes_back [codec_simps]:
  assumes "length v < 2 ^ 32"
  shows "ReadBytes (WriteBytes v @ rest) = Inr (v, rest)"
proof -
  have n: "unat (of_nat (length v) :: u32) = length v" using assms by (simp add: unat_of_nat)
  have "(of_nat (length v) :: u32) = 0 \<longleftrightarrow> v = []" using n by (metis length_0_conv unat_eq_zero)
  then show ?thesis
    using n by (simp add: ReadBytes_def WriteBytes_def codec_simps read_full_append)
qed

lemma read_registers_back [codec_simps]:
  "read_registers (length ws) (concat (map put_u64 ws) @ rest) = Inr (ws, rest)"
  by (induction ws) (simp_all add: codec_simps)

lemma Thread_Deserialize_back [codec_simps]:
  assumes "length (Registers t) = 32"
  shows "Thread_Deserialize (Thread_Serialize t @ rest) = Inr (t, rest)"
  using read_registers_back [of "Registers t" rest]
  by (simp add: assms Thread_Deserialize_def Thread_Serialize_def serializeThread_eq codec_simps)

lemma read_threads_back [codec_simps]:
  "threads_sized ts \<Longrightarrow> read_threads (length ts) (concat (map Thread_Serialize ts) @ rest) = Inr (ts, rest)"
  by (induction ts) (simp_all add: threads_sized_def codec_simps)

lemma read_stack_back [codec_simps]:
  assumes "threads_sized ts" and "length ts \<le> 2 ^ 45"
  shows "read_stack (put_u64 (of_nat (length ts)) @ concat (map Thread_Serialize ts) @ rest) = Inr (ts, rest)"
proof -
  have "length ts < 18446744073709551616" using assms(2) by simp
  then have "unat (of_nat (length ts) :: Word) = length ts" by (simp add: unat_of_nat)
  then show ?thesis
    using assms by (simp add: read_stack_def codec_simps)
qed

section \<open>Properties\<close>

text \<open>C19: a snapshot restores the machine.  Deserializing what \<open>State.Serialize\<close> wrote consumes exactly
  those bytes and returns every field of the state unchanged, both thread stacks included, with a
  memory that has the same pages and bytes and coherent Merkle caches.\<close>
theorem State_Deserialize_Serialize:
  assumes "mem_wf (StMemory s)" and "length (PreimageKey s) = 32"
    and "threads_sized (LeftThreadStack s)" and "threads_sized (RightThreadStack s)"
    and "length (LeftThreadStack s) \<le> 2 ^ 45" and "length (RightThreadStack s) \<le> 2 ^ 45"
    and "length (LastHint s) < 2 ^ 32"
  shows "\<exists>m. State_Deserialize (State_Serialize s @ rest) = Inr (s\<lparr>StMemory := m\<rparr>, rest) \<and>
    tree_ok keccak m \<and> page_view m = page_view (StMemory s) \<and> mem_byte m = mem_byte (StMemory s)"
proof -
  from mem_Deserialize_back [OF assms(1), of "serialize_fields s @ rest"] obtain m where
    m: "mem_Deserialize NewMemory (mem_Serialize (StMemory s) @ serialize_fields s @ rest) = Inr (m, serialize_fields s @ rest)"
      "tree_ok keccak m" "page_view m = page_view (StMemory s)" "mem_byte m = mem_byte (StMemory s)" by blast
  have "State_Deserialize (State_Serialize s @ rest) = Inr (s\<lparr>StMemory := m\<rparr>, rest)"
    unfolding State_Deserialize_def State_Serialize_def append_assoc
    unfolding m(1) lift_io_simps bind_res_Inr split_conv
    unfolding serialize_fields_def
    using assms by (simp add: codec_simps WriteHash_def)
  then show ?thesis using m(2-4) by blast
qed

theorem State_Deserialize_Serialize_witness:
  "\<exists>m. State_Deserialize (State_Serialize (CreateEmptyState\<lparr>LastHint := [1, 2]\<rparr>) @ [7]) =
      Inr (CreateEmptyState\<lparr>LastHint := [1, 2], StMemory := m\<rparr>, [7]) \<and>
    tree_ok (take 32) m \<and> page_view m = page_view NewMemory \<and> mem_byte m = mem_byte NewMemory"
proof -
  let ?s = "CreateEmptyState\<lparr>LastHint := [1, 2]\<rparr>"
  have "\<exists>m. State_Deserialize (State_Serialize ?s @ [7]) = Inr (?s\<lparr>StMemory := m\<rparr>, [7]) \<and>
    tree_ok (take 32) m \<and> page_view m = page_view (StMemory ?s) \<and> mem_byte m = mem_byte (StMemory ?s)"
    by (rule State_Deserialize_Serialize)
      (use mem_wf_NewMemory in \<open>simp_all add: CreateEmptyState_def threads_sized_def CreateEmptyThread_def\<close>)
  then show ?thesis by (simp add: CreateEmptyState_def)
qed

end
