(* ===== verification/Game_Position.thy ===== *)
theory Game_Position
  imports Prelude
begin

unbundle bit_operations_syntax

text \<open>
  \<open>op-challenger/game/fault/types/position.go\<close>: positions of the bisection tree of a dispute game, and
  the error values of the challenger.  A \<open>big.Int\<close> pointer is an \<^typ>\<open>int option\<close> (\<open>None\<close> is \<open>nil\<close>), a
  \<open>Depth\<close> is 64 bits wide and wraps.  The lemmas give the arithmetic of trace indices: every response
  halves the range of trace indices left in dispute, so that at the maximum depth the claims just left
  and just right of a leaf are both among its ancestors.
\<close>

section \<open>Error values\<close>

datatype game_error =
    ErrPositionDepthTooSmall
  | ErrClaimNotFound
  | ErrGameDepthReached
  | ErrL2BlockNumberValid
  | ErrNotInSync
  | ErrStepNonLeafNode
  | ErrRefClaimNotDeepEnough
  | ErrIndexTooLarge
  | ErrProvider string
  | Errorf string "game_error option"

text \<open>\<open>errors.Is\<close>: the error itself or one it wraps with \<open>%w\<close>.\<close>

fun errors_Is :: "game_error \<Rightarrow> game_error \<Rightarrow> bool" where
  "errors_Is (Errorf msg (Some e)) t = (Errorf msg (Some e) = t \<or> errors_Is e t)"
| "errors_Is e t = (e = t)"

text \<open>A Go call that returns a value or an error, and may panic.\<close>

type_synonym 'a go = "(game_error + 'a) res"

definition bind_go :: "'a go \<Rightarrow> ('a \<Rightarrow> 'b go) \<Rightarrow> 'b go" where
  "bind_go m f = bind_res m (\<lambda>r. case r of Inl e \<Rightarrow> Inr (Inl e) | Inr x \<Rightarrow> f x)"

definition wrap_go :: "string \<Rightarrow> 'a go \<Rightarrow> 'a go" where
  "wrap_go msg m = bind_res m (\<lambda>r. Inr (case r of Inl e \<Rightarrow> Inl (Errorf msg (Some e)) | Inr x \<Rightarrow> Inr x))"

lemma bind_go_simps [simp]:
  "bind_go (Inl p) f = Inl p" "bind_go (Inr (Inl e)) f = Inr (Inl e)" "bind_go (Inr (Inr x)) f = f x"
  by (simp_all add: bind_go_def)

lemma wrap_go_simps [simp]:
  "wrap_go msg (Inl p) = Inl p" "wrap_go msg (Inr (Inl e)) = Inr (Inl (Errorf msg (Some e)))"
  "wrap_go msg (Inr (Inr x)) = Inr (Inr x)"
  by (simp_all add: wrap_go_def)

lemma bind_go_eq_Inr [res_simps]:
  "bind_go m f = Inr (Inr y) \<longleftrightarrow> (\<exists>x. m = Inr (Inr x) \<and> f x = Inr (Inr y))"
  by (cases m; cases "projr m") auto

lemma wrap_go_eq_Inr [res_simps]: "wrap_go msg m = Inr (Inr y) \<longleftrightarrow> m = Inr (Inr y)"
  by (cases m; cases "projr m") auto

lemma bind_go_cong [fundef_cong]:
  assumes "m = m'" and "\<And>x. m' = Inr (Inr x) \<Longrightarrow> f x = f' x"
  shows "bind_go m f = bind_go m' f'"
  using assms by (cases m'; cases "projr m'") auto

section \<open>Positions\<close>

type_synonym Depth = "64 word"

record Position =
  depth :: Depth
  indexAtDepth :: "int option"

definition NewPosition :: "Depth \<Rightarrow> int option \<Rightarrow> Position" where
  "NewPosition d idx = \<lparr>depth = d, indexAtDepth = idx\<rparr>"

definition IndexAtDepth :: "Position \<Rightarrow> int" where
  "IndexAtDepth p = (case indexAtDepth p of None \<Rightarrow> 0 | Some i \<Rightarrow> i)"

text \<open>\<open>big.Int.BitLen\<close> of the absolute value.\<close>

fun bit_len :: "nat \<Rightarrow> nat" where
  "bit_len n = (if n = 0 then 0 else Suc (bit_len (n div 2)))"

declare bit_len.simps [simp del]

definition bigMSB :: "int \<Rightarrow> Depth" where
  "bigMSB x = (if x = 0 then 0 else of_int (int (bit_len (nat \<bar>x\<bar>)) - 1))"

definition NewPositionFromGIndex :: "int \<Rightarrow> Position" where
  "NewPositionFromGIndex x =
     (let dep = bigMSB x;
          withoutMSB = NOT (push_bit (unat dep) (1::int));
          idx = x AND withoutMSB
      in NewPosition dep (Some idx))"

definition RootPosition :: Position where
  "RootPosition = NewPositionFromGIndex 1"

definition MoveRight :: "Position \<Rightarrow> Position" where
  "MoveRight p = \<lparr>depth = depth p, indexAtDepth = Some (IndexAtDepth p + 1)\<rparr>"

text \<open>
  \<open>nodesAtDepth := 1 << newPosDepth\<close> is a 64-bit signed \<open>int\<close>, and \<open>big.Int.Mod\<close> is Euclidean: it takes
  the remainder modulo the absolute value and panics on zero.
\<close>

definition RelativeToAncestorAtDepth :: "Position \<Rightarrow> Depth \<Rightarrow> Position go" where
  "RelativeToAncestorAtDepth p ancestor =
     (if depth p < ancestor then Inr (Inl ErrPositionDepthTooSmall)
      else let newPosDepth = depth p - ancestor;
               nodesAtDepth = sint (push_bit (unat newPosDepth) (1 :: 64 word))
           in if nodesAtDepth = 0 then Inl DivisionByZero
              else Inr (Inr (NewPosition newPosDepth (Some (IndexAtDepth p mod \<bar>nodesAtDepth\<bar>)))))"

definition IsRootPosition :: "Position \<Rightarrow> bool" where
  "IsRootPosition p \<longleftrightarrow> depth p = 0 \<and> IndexAtDepth p = 0"

definition lshIndex :: "Position \<Rightarrow> Depth \<Rightarrow> int" where
  "lshIndex p amount = push_bit (unat amount) (IndexAtDepth p)"

definition TraceIndex :: "Position \<Rightarrow> Depth \<Rightarrow> int res" where
  "TraceIndex p maxDepth =
     (if maxDepth < depth p then Inl MaxDepthBelowPosition
      else let rd = maxDepth - depth p;
               rhs = push_bit (unat rd) 1 - 1
           in Inr (lshIndex p rd OR rhs))"

definition boolToInt :: "bool \<Rightarrow> int" where
  "boolToInt b = (if b then 1 else 0)"

definition move :: "Position \<Rightarrow> bool \<Rightarrow> Position" where
  "move p right = \<lparr>depth = depth p + 1, indexAtDepth = Some (lshIndex p 1 OR boolToInt right)\<rparr>"

definition parentIndexAtDepth :: "Position \<Rightarrow> int" where
  "parentIndexAtDepth p = IndexAtDepth p div 2"

definition RightOf :: "Position \<Rightarrow> Position \<Rightarrow> bool" where
  "RightOf p par \<longleftrightarrow> parentIndexAtDepth p \<noteq> IndexAtDepth par"

definition parent :: "Position \<Rightarrow> Position" where
  "parent p = \<lparr>depth = depth p - 1, indexAtDepth = Some (parentIndexAtDepth p)\<rparr>"

definition Attack :: "Position \<Rightarrow> Position" where
  "Attack p = move p False"

definition Defend :: "Position \<Rightarrow> Position" where
  "Defend p = move (move (parent p) True) False"

definition ToGIndex :: "Position \<Rightarrow> int" where
  "ToGIndex p = push_bit (unat (depth p)) 1 OR IndexAtDepth p"

lemmas position_defs = NewPosition_def IndexAtDepth_def MoveRight_def IsRootPosition_def lshIndex_def
  boolToInt_def move_def parentIndexAtDepth_def RightOf_def parent_def Attack_def Defend_def

section \<open>Positions of the tree\<close>

text \<open>
  A position is in the tree when its index is below the width of its level.  The positions claims can
  take are the root and those reached from it by \<open>Attack\<close> and, below the root, \<open>Defend\<close>.
\<close>

definition in_tree :: "Position \<Rightarrow> bool" where
  "in_tree p \<longleftrightarrow> 0 \<le> IndexAtDepth p \<and> IndexAtDepth p < 2 ^ unat (depth p)"

text \<open>The trace index as arithmetic: the last leaf below a node of depth \<open>d\<close> and index \<open>i\<close>.\<close>

definition last_leaf :: "nat \<Rightarrow> nat \<Rightarrow> int \<Rightarrow> int" where
  "last_leaf D d i = (i + 1) * 2 ^ (D - d) - 1"

definition pos_leaf :: "Depth \<Rightarrow> Position \<Rightarrow> int" where
  "pos_leaf D p = last_leaf (unat D) (unat (depth p)) (IndexAtDepth p)"

lemma or_low_bits:
  assumes "0 \<le> (y::int)" "y < 2 ^ n"
  shows "push_bit n x OR y = x * 2 ^ n + y"
proof -
  have y: "y = take_bit n y" using assms by (simp add: take_bit_int_eq_self)
  have "push_bit n x OR y = push_bit n x + y"
  proof (rule disjunctive_add [symmetric])
    fix i show "\<not> bit (push_bit n x) i \<or> \<not> bit y i"
      by (subst y) (auto simp only: bit_push_bit_iff bit_take_bit_iff)
  qed
  then show ?thesis by (simp add: push_bit_eq_mult)
qed

lemma TraceIndex_eq:
  "TraceIndex p D = (if D < depth p then Inl MaxDepthBelowPosition else Inr (pos_leaf D p))"
proof (cases "D < depth p")
  case False
  then have d: "unat (D - depth p) = unat D - unat (depth p)"
    by (simp add: unat_sub linorder_not_less)
  have "(0::int) \<le> 2 ^ (unat D - unat (depth p)) - 1" "(2::int) ^ (unat D - unat (depth p)) - 1 < 2 ^ (unat D - unat (depth p))"
    by simp_all
  from or_low_bits [OF this] False show ?thesis
    by (simp add: TraceIndex_def Let_def lshIndex_def pos_leaf_def last_leaf_def d push_bit_of_1 algebra_simps)
qed (simp add: TraceIndex_def)

lemma pos_leaf_nonneg: "in_tree p \<Longrightarrow> 0 \<le> pos_leaf D p"
  by (simp add: in_tree_def pos_leaf_def last_leaf_def)

lemma Attack_simps [simp]:
  "depth (Attack p) = depth p + 1" "IndexAtDepth (Attack p) = 2 * IndexAtDepth p"
  by (simp_all add: position_defs push_bit_eq_mult)

lemma Defend_simps [simp]:
  "depth (Defend p) = depth p + 1" "IndexAtDepth (Defend p) = 4 * (IndexAtDepth p div 2) + 2"
proof -
  have "push_bit (Suc 0) (IndexAtDepth p div 2) OR 1 = 2 * (IndexAtDepth p div 2) + 1"
    using or_low_bits [of 1 1 "IndexAtDepth p div 2"] by simp
  then show "IndexAtDepth (Defend p) = 4 * (IndexAtDepth p div 2) + 2"
    by (simp add: position_defs push_bit_eq_mult split: option.splits)
qed (simp_all add: position_defs)

lemma MoveRight_simps [simp]: "depth (MoveRight p) = depth p" "IndexAtDepth (MoveRight p) = IndexAtDepth p + 1"
  by (simp_all add: position_defs)

section \<open>Responses halve the range in dispute\<close>

definition span :: "Depth \<Rightarrow> Position \<Rightarrow> int" where
  "span D p = 2 ^ (unat D - unat (depth p))"

lemma span_pos [simp]: "0 < span D p"
  by (simp add: span_def)

lemma span_nonzero [simp]: "span D p \<noteq> 0"
  by (simp add: span_def)

lemma unat_Suc_depth: "d < (D :: Depth) \<Longrightarrow> unat (d + 1) = Suc (unat d)"
proof -
  assume "d < D"
  then have "unat d < unat D" by (simp add: word_less_nat_alt)
  moreover have "unat D < 2 ^ LENGTH(64)" by (rule unsigned_less)
  ultimately show ?thesis by (simp add: unat_word_ariths)
qed

lemma depth_step_le: "d < (D :: Depth) \<Longrightarrow> d + 1 \<le> D"
  by (simp add: inc_le)

lemma span_step:
  assumes "depth p < D" "depth q = depth p + 1"
  shows "span D p = 2 * span D q"
proof -
  have "unat (depth p) < unat D" using assms(1) by (simp add: word_less_nat_alt)
  then have "unat D - unat (depth p) = Suc (unat D - unat (depth q))"
    using assms by (simp add: unat_Suc_depth)
  then show ?thesis by (simp add: span_def)
qed

lemma pos_leaf_span: "pos_leaf D p = (IndexAtDepth p + 1) * span D p - 1"
  by (simp add: pos_leaf_def last_leaf_def span_def)

lemma pos_leaf_Attack: "depth p < D \<Longrightarrow> pos_leaf D (Attack p) = pos_leaf D p - span D (Attack p)"
  by (simp add: pos_leaf_span span_step [of p D "Attack p"] algebra_simps)

lemma pos_leaf_Defend:
  assumes "depth p < D" "even (IndexAtDepth p)"
  shows "pos_leaf D (Defend p) = pos_leaf D p + span D (Defend p)"
  using assms by (simp add: pos_leaf_span span_step [of p D "Defend p"] algebra_simps)

text \<open>
  \<open>responds p q\<close>: \<open>q\<close> is a position the game allows in answer to a claim at \<open>p\<close>; \<open>line ps\<close>: the positions
  of a claim, its parent, and so on up to the root.
\<close>

definition responds :: "Position \<Rightarrow> Position \<Rightarrow> bool" where
  "responds p q \<longleftrightarrow> q = Attack p \<or> q = Defend p \<and> \<not> IsRootPosition p"

inductive line :: "Depth \<Rightarrow> Position list \<Rightarrow> bool" for D where
  line_root: "IsRootPosition p \<Longrightarrow> line D [p]"
| line_step: "line D (p # ps) \<Longrightarrow> depth p < D \<Longrightarrow> responds p q \<Longrightarrow> line D (q # p # ps)"

inductive_cases line_ConsE: "line D (q # ps)"

lemma line_facts:
  assumes "line D (q # ps)"
  shows "in_tree q \<and> depth q \<le> D \<and> (ps = [] \<longleftrightarrow> IsRootPosition q) \<and> even (IndexAtDepth q) \<and>
    (ps \<noteq> [] \<longrightarrow> depth q \<noteq> 0)"
  using assms
proof (induction "q # ps" arbitrary: q ps)
  case (line_root p)
  then show ?case by (simp add: in_tree_def IsRootPosition_def)
next
  case (line_step p ps q)
  have d: "depth q = depth p + 1" using line_step.hyps(4) by (auto simp: responds_def)
  have u: "unat (depth q) = Suc (unat (depth p))" using d line_step.hyps(3) by (simp add: unat_Suc_depth)
  then have nz: "depth q \<noteq> 0" by auto
  have p: "0 \<le> IndexAtDepth p" "IndexAtDepth p < 2 ^ unat (depth p)" "even (IndexAtDepth p)"
    and r: "IsRootPosition p \<longleftrightarrow> ps = []" "ps \<noteq> [] \<longrightarrow> depth p \<noteq> 0"
    using line_step.hyps(2) by (auto simp: in_tree_def)
  have "in_tree q"
  proof (cases "q = Attack p")
    case True
    then show ?thesis using p u by (simp add: in_tree_def)
  next
    case False
    then have q: "q = Defend p" "\<not> IsRootPosition p" using line_step.hyps(4) by (auto simp: responds_def)
    then have "depth p \<noteq> 0" using r by simp
    then obtain k where k: "unat (depth p) = Suc k" by (metis not0_implies_Suc unat_eq_zero)
    have "IndexAtDepth p = 2 * (IndexAtDepth p div 2)" using p(3) by simp
    then have "2 * (IndexAtDepth p div 2) < 2 * 2 ^ k" using p(2) k by simp
    then have "IndexAtDepth p div 2 + 1 \<le> 2 ^ k" by simp
    then show ?thesis using p(1) q(1) u k by (simp add: in_tree_def)
  qed
  then show ?case using nz d line_step.hyps(3,4)
    by (auto simp: responds_def depth_step_le IsRootPosition_def)
qed

text \<open>
  The claims just left and just right of a position are among its ancestors, and no ancestor lies between.
\<close>

lemma line_neighbours:
  assumes "line D (q # ps)"
  shows "(pos_leaf D q - span D q = -1 \<or> (\<exists>a \<in> set ps. pos_leaf D a = pos_leaf D q - span D q)) \<and>
    (ps \<noteq> [] \<longrightarrow> (\<exists>a \<in> set ps. pos_leaf D a = pos_leaf D q + span D q)) \<and>
    (\<forall>a \<in> set ps. pos_leaf D a \<le> pos_leaf D q - span D q \<or> pos_leaf D q + span D q \<le> pos_leaf D a)"
  using assms
proof (induction "q # ps" arbitrary: q ps)
  case (line_root p)
  then show ?case by (simp add: pos_leaf_span IsRootPosition_def)
next
  case (line_step p ps q)
  note ev = line_facts [OF line_step.hyps(1)]
  have s: "span D p = 2 * span D q"
    using line_step.hyps(3,4) by (intro span_step) (auto simp: responds_def)
  show ?case
  proof (cases "q = Attack p")
    case True
    then have t: "pos_leaf D q = pos_leaf D p - span D q"
      using pos_leaf_Attack [OF line_step.hyps(3)] by simp
    have l: "pos_leaf D q - span D q = pos_leaf D p - span D p"
      and r: "pos_leaf D q + span D q = pos_leaf D p" using t s by simp_all
    have "\<forall>a \<in> set ps. pos_leaf D a \<le> pos_leaf D p - span D p \<or> pos_leaf D p \<le> pos_leaf D a"
      using line_step.hyps(2) span_pos [of D p] by force
    then show ?thesis unfolding l r using line_step.hyps(2) by auto
  next
    case False
    then have q: "q = Defend p" "ps \<noteq> []" using line_step.hyps(4) ev by (auto simp: responds_def)
    then have t: "pos_leaf D q = pos_leaf D p + span D q"
      using pos_leaf_Defend [OF line_step.hyps(3)] ev by simp
    have l: "pos_leaf D q - span D q = pos_leaf D p"
      and r: "pos_leaf D q + span D q = pos_leaf D p + span D p" using t s by simp_all
    have "\<forall>a \<in> set ps. pos_leaf D a \<le> pos_leaf D p \<or> pos_leaf D p + span D p \<le> pos_leaf D a"
      using line_step.hyps(2) span_pos [of D p] by force
    then show ?thesis unfolding l r using line_step.hyps(2) q(2) span_pos [of D p] by auto
  qed
qed

section \<open>Generalized indices and subtrees\<close>

lemma bit_len_0 [simp]: "bit_len 0 = 0"
  by (simp add: bit_len.simps)

lemma bit_len_pow: "i < 2 ^ d \<Longrightarrow> bit_len (2 ^ d + i) = Suc d"
proof (induction d arbitrary: i)
  case 0
  then show ?case by (simp add: bit_len.simps)
next
  case (Suc d)
  have "(2 ^ Suc d + i) div 2 = 2 ^ d + i div 2" by simp
  moreover have "i div 2 < 2 ^ d" using Suc.prems by auto
  ultimately show ?case using Suc.IH [of "i div 2"] bit_len.simps [of "2 ^ Suc d + i"] by simp
qed

lemma ToGIndex_eq: "in_tree p \<Longrightarrow> ToGIndex p = 2 ^ unat (depth p) + IndexAtDepth p"
  using or_low_bits [of "IndexAtDepth p" "unat (depth p)" 1] by (simp add: in_tree_def ToGIndex_def)

lemma bigMSB_pow:
  assumes "0 \<le> i" "i < 2 ^ unat (d :: Depth)"
  shows "bigMSB (2 ^ unat d + i) = d"
proof -
  have "nat i < nat (2 ^ unat d)" using assms by (subst nat_less_eq_zless) simp_all
  then have i: "nat i < 2 ^ unat d" by (simp add: nat_power_eq)
  have "nat (2 ^ unat d + i) = 2 ^ unat d + nat i" using assms by (simp add: nat_add_distrib nat_power_eq)
  then have "bit_len (nat \<bar>2 ^ unat d + i\<bar>) = Suc (unat d)" using bit_len_pow [OF i] assms by simp
  moreover have "2 ^ unat d + i \<noteq> 0" using assms zero_less_power [of "2 :: int" "unat d"] by linarith
  ultimately show ?thesis by (simp add: bigMSB_def)
qed

lemma strip_msb:
  assumes "0 \<le> i" "i < (2 :: int) ^ n"
  shows "(2 ^ n + i) AND NOT (push_bit n 1) = i"
proof -
  have i: "i = take_bit n i" using assms by (simp add: take_bit_int_eq_self)
  have "push_bit n 1 OR i = 2 ^ n + i" using or_low_bits [OF assms, of 1] by simp
  moreover have "(push_bit n 1 OR i) AND NOT (push_bit n (1 :: int)) = i"
  proof (rule bit_eqI)
    fix k show "bit ((push_bit n 1 OR i) AND NOT (push_bit n (1 :: int))) k \<longleftrightarrow> bit i k"
      by (subst (1 2) i) (auto simp: bit_simps)
  qed
  ultimately show ?thesis by simp
qed

text \<open>A position of the tree is recovered from its generalized index: NewPositionFromGIndex inverts
  ToGIndex, for every depth of 64 bits and every index of the level.\<close>

theorem NewPositionFromGIndex_ToGIndex:
  assumes "in_tree p"
  shows "NewPositionFromGIndex (ToGIndex p) = NewPosition (depth p) (Some (IndexAtDepth p))"
  using assms by (simp add: NewPositionFromGIndex_def Let_def ToGIndex_eq in_tree_def bigMSB_pow
    strip_msb [simplified push_bit_of_1])

theorem NewPositionFromGIndex_ToGIndex_witness:
  "NewPositionFromGIndex (ToGIndex (NewPosition 63 (Some 12345))) = NewPosition 63 (Some 12345)"
proof -
  have "in_tree (NewPosition 63 (Some 12345))" by (simp add: in_tree_def position_defs)
  from NewPositionFromGIndex_ToGIndex [OF this] show ?thesis by (simp add: position_defs)
qed

lemma ToGIndex_inject:
  assumes "in_tree p" "in_tree q" "ToGIndex p = ToGIndex q"
  shows "depth p = depth q \<and> IndexAtDepth p = IndexAtDepth q"
proof -
  have gi: "bigMSB (ToGIndex r) = depth r" if "in_tree r" for r
    using that by (simp add: ToGIndex_eq in_tree_def bigMSB_pow)
  then have "depth p = depth q" using assms by metis
  then show ?thesis using assms by (simp add: ToGIndex_eq)
qed

lemma sint_pow:
  assumes "n < 64"
  shows "\<bar>sint (push_bit n (1 :: 64 word))\<bar> = 2 ^ n"
proof -
  have "\<forall>n \<in> set [0..<64]. \<bar>sint (push_bit n (1 :: 64 word))\<bar> = 2 ^ n"
    by (simp add: upt_rec push_bit_of_1)
  moreover have "n \<in> set [0..<64]" using assms by (simp only: set_upt atLeastLessThan_iff) simp
  ultimately show ?thesis by blast
qed

lemma push_bit_overflow: "64 \<le> n \<Longrightarrow> (2 :: 64 word) ^ n = 0"
  by (rule exp_eq_zero_iff [THEN iffD2]) simp

text \<open>RelativeToAncestorAtDepth gives the position inside the subtree below an ancestor: the trace
  index of a position is the number of leaves left of the subtree plus the trace index of the relative
  position in it.  A position above the ancestor is an error, and a subtree of more than 63 levels makes
  the shift overflow to zero and the division panic.\<close>

theorem RelativeToAncestorAtDepth_subtree:
  assumes "in_tree p" "depth p \<le> D" "ancestor \<le> D"
  shows "case RelativeToAncestorAtDepth p ancestor of
      Inl e \<Rightarrow> e = DivisionByZero \<and> ancestor \<le> depth p \<and> 64 \<le> unat (depth p) - unat ancestor
    | Inr (Inl e) \<Rightarrow> e = ErrPositionDepthTooSmall \<and> depth p < ancestor
    | Inr (Inr r) \<Rightarrow> in_tree r \<and> depth r = depth p - ancestor \<and>
        TraceIndex p D = Inr (IndexAtDepth p div 2 ^ unat (depth r) * 2 ^ unat (D - ancestor) + pos_leaf (D - ancestor) r)"
proof (cases "depth p < ancestor")
  case True
  then show ?thesis by (simp add: RelativeToAncestorAtDepth_def)
next
  case False
  define k where "k = unat (depth p) - unat ancestor"
  have k: "unat (depth p - ancestor) = k" "unat (D - ancestor) = unat D - unat ancestor"
    using False assms(3) by (simp_all add: k_def unat_sub linorder_not_less)
  show ?thesis
  proof (cases "k < 64")
    case False
    then show ?thesis using \<open>\<not> depth p < ancestor\<close>
      by (simp add: RelativeToAncestorAtDepth_def Let_def k push_bit_overflow k_def)
  next
    case True
    define w :: int where "w = 2 ^ (unat D - unat (depth p))"
    have u: "unat ancestor \<le> unat (depth p)" "unat (depth p) \<le> unat D"
      using \<open>\<not> depth p < ancestor\<close> assms(2) by (simp_all add: word_less_nat_alt word_le_nat_alt)
    have pw: "(2::int) ^ (unat D - unat ancestor) = 2 ^ k * w"
      using u by (simp add: k_def w_def flip: power_add)
    have "unat D - unat ancestor - k = unat D - unat (depth p)" using u by (simp add: k_def)
    moreover have "(IndexAtDepth p + 1) * w - 1 =
        IndexAtDepth p div 2 ^ k * (2 ^ k * w) + ((IndexAtDepth p mod 2 ^ k + 1) * w - 1)"
      using div_mult_mod_eq [of "IndexAtDepth p" "2 ^ k"] by (metis (no_types) add.assoc add_diff_eq distrib_right mult.assoc)
    moreover have "sint (push_bit k (1 :: 64 word)) \<noteq> 0" using sint_pow [OF True] by auto
    moreover have "\<not> D < depth p" using assms(2) by simp
    ultimately show ?thesis using \<open>\<not> depth p < ancestor\<close> sint_pow [OF True] pw
      by (simp add: RelativeToAncestorAtDepth_def Let_def k TraceIndex_eq pos_leaf_def last_leaf_def
        in_tree_def position_defs w_def)
  qed
qed

theorem RelativeToAncestorAtDepth_subtree_witness:
  "RelativeToAncestorAtDepth (NewPosition 73 (Some 5000000000000)) 30 = Inr (Inr (NewPosition 43 (Some 5000000000000))) \<and>
   TraceIndex (NewPosition 73 (Some 5000000000000)) 73 = Inr 5000000000000"
proof -
  let ?p = "NewPosition 73 (Some 5000000000000)"
  have "in_tree ?p" "depth ?p \<le> 73" "(30::64 word) \<le> 73" by (simp_all add: in_tree_def position_defs)
  from RelativeToAncestorAtDepth_subtree [OF this]
  have r: "RelativeToAncestorAtDepth ?p 30 = Inr (Inr (NewPosition 43 (Some 5000000000000)))"
    "TraceIndex ?p 73 = Inr (IndexAtDepth ?p div 2 ^ unat (43 :: Depth) * 2 ^ unat (73 - 30 :: Depth) +
      pos_leaf (73 - 30) (NewPosition 43 (Some 5000000000000)))"
    by (simp_all add: RelativeToAncestorAtDepth_def Let_def position_defs push_bit_of_1)
  then show ?thesis by (simp add: position_defs pos_leaf_def last_leaf_def)
qed

end
