(* ===== verification/Game_State.thy ===== *)
theory Game_State
  imports Game_Position
begin

unbundle bit_operations_syntax

text \<open>
  \<open>op-challenger/game/fault/types/types.go\<close>, \<open>game.go\<close> and \<open>actions.go\<close>: claims, their identifiers, the
  state of a dispute game and the actions on it, game and trace types, pre-image oracle data.  \<open>keccak\<close>
  is the hash of the \<open>crypto\<close> package, a parameter.  A Go struct embedding another is a record
  extension; comparing a claim with \<open>Claim{}\<close> compares its \<open>big.Int\<close> pointers with \<open>nil\<close>.
\<close>

section \<open>Hashes, addresses and times\<close>

type_synonym Hash = "256 word"
type_synonym Address = "160 word"
type_synonym keccak256 = "byte list \<Rightarrow> Hash"

definition Hash_Bytes :: "Hash \<Rightarrow> byte list" where
  "Hash_Bytes h = be_enc 32 (unat h)"

definition BytesToHash :: "byte list \<Rightarrow> Hash" where
  "BytesToHash bs = of_nat (be_dec (drop (length bs - 32) bs))"

definition BytesToAddress :: "byte list \<Rightarrow> Address" where
  "BytesToAddress bs = of_nat (be_dec (drop (length bs - 20) bs))"

text \<open>\<open>big.Int.Bytes\<close>: the absolute value, big-endian, without leading zero bytes.\<close>

definition big_Bytes :: "int \<Rightarrow> byte list" where
  "big_Bytes x = be_enc ((bit_len (nat \<bar>x\<bar>) + 7) div 8) (nat \<bar>x\<bar>)"

text \<open>
  A \<open>time.Duration\<close> is a signed 64-bit number of nanoseconds; \<open>time.Time\<close> is the zero value or an
  instant, and \<open>Sub\<close> saturates.
\<close>

type_synonym Duration = "64 word"

datatype Time = ZeroTime | Instant int

fun instant :: "Time \<Rightarrow> int" where
  "instant ZeroTime = 0"
| "instant (Instant t) = t"

definition Time_Sub :: "Time \<Rightarrow> Time \<Rightarrow> Duration" where
  "Time_Sub t u =
     (let d = instant t - instant u
      in of_int (if d < - (2 ^ 63) then - (2 ^ 63) else if 2 ^ 63 - 1 < d then 2 ^ 63 - 1 else d))"

section \<open>Claims\<close>

record Clock =
  Duration :: Duration
  Timestamp :: Time

definition NewClock :: "Duration \<Rightarrow> Time \<Rightarrow> Clock" where
  "NewClock duration timestamp = \<lparr>Duration = duration, Timestamp = timestamp\<rparr>"

record ClaimData =
  Value :: Hash
  Bond :: "int option"
  Pos :: Position

definition ValueBytes :: "'a ClaimData_scheme \<Rightarrow> byte list" where
  "ValueBytes c = Hash_Bytes (Value c)"

record Claim = ClaimData +
  CounteredBy :: Address
  Claimant :: Address
  ClaimClock :: Clock
  ContractIndex :: int
  ParentContractIndex :: int

definition noClaim :: Claim where
  "noClaim = \<lparr>Value = 0, Bond = None, Pos = \<lparr>depth = 0, indexAtDepth = None\<rparr>, CounteredBy = 0, Claimant = 0,
     ClaimClock = \<lparr>Duration = 0, Timestamp = ZeroTime\<rparr>, ContractIndex = 0, ParentContractIndex = 0\<rparr>"

type_synonym ClaimID = Hash

definition ID_preimage :: "Claim \<Rightarrow> byte list" where
  "ID_preimage c = big_Bytes (ToGIndex (Pos c)) @ Hash_Bytes (Value c) @ big_Bytes (ParentContractIndex c)"

definition ID :: "keccak256 \<Rightarrow> Claim \<Rightarrow> ClaimID" where
  "ID keccak c = keccak (ID_preimage c)"

definition IsRoot :: "Claim \<Rightarrow> bool" where
  "IsRoot c = IsRootPosition (Pos c)"

section \<open>Game state\<close>

record gameState =
  claims :: "Claim list"
  claimIDs :: "ClaimID \<rightharpoonup> bool"
  MaxDepth :: Depth

definition NewGameState :: "keccak256 \<Rightarrow> Claim list \<Rightarrow> Depth \<Rightarrow> gameState" where
  "NewGameState keccak cs maxDepth =
     \<lparr>claims = cs, claimIDs = fold (\<lambda>c ids. ids(ID keccak c \<mapsto> True)) cs Map.empty, MaxDepth = maxDepth\<rparr>"

definition AgreeWithClaimLevel :: "Claim \<Rightarrow> bool \<Rightarrow> bool" where
  "AgreeWithClaimLevel c agreeWithRootClaim =
     (let isOddLevel = depth (Pos c) mod 2 = 1
      in if agreeWithRootClaim then \<not> isOddLevel else isOddLevel)"

definition IsDuplicate :: "keccak256 \<Rightarrow> gameState \<Rightarrow> Claim \<Rightarrow> bool" where
  "IsDuplicate keccak g c \<longleftrightarrow> claimIDs g (ID keccak c) = Some True"

definition getParent :: "gameState \<Rightarrow> Claim \<Rightarrow> Claim option" where
  "getParent g c =
     (if IsRoot c then None
      else if int (length (claims g)) \<le> ParentContractIndex c \<or> ParentContractIndex c < 0 then None
      else Some (claims g ! nat (ParentContractIndex c)))"

definition GetParent :: "gameState \<Rightarrow> Claim \<Rightarrow> game_error + Claim" where
  "GetParent g c = (case getParent g c of None \<Rightarrow> Inl ErrClaimNotFound | Some p \<Rightarrow> Inr p)"

definition DefendsParent :: "gameState \<Rightarrow> Claim \<Rightarrow> bool" where
  "DefendsParent g c = (case getParent g c of None \<Rightarrow> False | Some p \<Rightarrow> RightOf (Pos c) (Pos p))"

definition ChessClock :: "Time \<Rightarrow> Claim \<Rightarrow> Claim \<Rightarrow> Duration" where
  "ChessClock now c par =
     (let duration = Time_Sub now (Timestamp (ClaimClock c))
      in if par \<noteq> noClaim then Duration (ClaimClock par) + duration else duration)"

definition game_ChessClock :: "gameState \<Rightarrow> Time \<Rightarrow> Claim \<Rightarrow> Duration" where
  "game_ChessClock g now c =
     ChessClock now c (case getParent g c of None \<Rightarrow> noClaim | Some p \<Rightarrow> p)"

text \<open>The loop of \<open>AncestorWithTraceIndex\<close> need not end; \<open>None\<close> is a run that does not return.\<close>

partial_function (option) AncestorWithTraceIndex :: "gameState \<Rightarrow> Claim \<Rightarrow> int \<Rightarrow> (Claim \<times> bool) res option" where
  "AncestorWithTraceIndex g c idx =
     (case TraceIndex (Pos c) (MaxDepth g) of
        Inl e \<Rightarrow> Some (Inl e)
      | Inr t \<Rightarrow>
          if t = idx then Some (Inr (c, True))
          else if IsRoot c then Some (Inr (noClaim, False))
          else (case getParent g c of
                  None \<Rightarrow> Some (Inr (noClaim, False))
                | Some p \<Rightarrow> AncestorWithTraceIndex g p idx))"

section \<open>Pre-image oracle data and actions\<close>

record PreimageOracleData =
  IsLocal :: bool
  OracleKey :: "byte list"
  oracleData :: "byte list"
  OracleOffset :: "32 word"
  BlobFieldIndex :: "64 word"
  BlobCommitment :: "byte list"
  BlobProof :: "byte list"

text \<open>\<open>s[a:]\<close> and \<open>s[a:b]\<close> on slices without spare capacity.\<close>

definition slice_from :: "nat \<Rightarrow> 'a list \<Rightarrow> 'a list res" where
  "slice_from a s = (if length s < a then Inl IndexOutOfRange else Inr (drop a s))"

definition slice :: "nat \<Rightarrow> nat \<Rightarrow> 'a list \<Rightarrow> 'a list res" where
  "slice a b s = (if length s < b \<or> b < a then Inl IndexOutOfRange else Inr (take (b - a) (drop a s)))"

definition GetIdent :: "PreimageOracleData \<Rightarrow> nat res" where
  "GetIdent p = bind_res (slice_from 1 (OracleKey p)) (\<lambda>k. Inr (be_dec k))"

definition GetPreimageWithoutSize :: "PreimageOracleData \<Rightarrow> byte list res" where
  "GetPreimageWithoutSize p = slice_from 8 (oracleData p)"

definition GetPreimageWithSize :: "PreimageOracleData \<Rightarrow> byte list" where
  "GetPreimageWithSize p = oracleData p"

definition GetPrecompileAddress :: "PreimageOracleData \<Rightarrow> Address res" where
  "GetPrecompileAddress p = bind_res (slice 8 28 (oracleData p)) (\<lambda>b. Inr (BytesToAddress b))"

definition GetPrecompileRequiredGas :: "PreimageOracleData \<Rightarrow> 64 word res" where
  "GetPrecompileRequiredGas p = bind_res (slice 28 36 (oracleData p)) (\<lambda>b. Inr (get_u64 b))"

definition GetPrecompileInput :: "PreimageOracleData \<Rightarrow> byte list res" where
  "GetPrecompileInput p = slice_from 36 (oracleData p)"

text \<open>\<open>preimage.LocalKeyType\<close> of \<open>op-preimage/iface.go\<close>.\<close>

definition LocalKeyType :: byte where
  "LocalKeyType = 1"

definition NewPreimageOracleData :: "byte list \<Rightarrow> byte list \<Rightarrow> 32 word \<Rightarrow> PreimageOracleData" where
  "NewPreimageOracleData key data offset =
     \<lparr>IsLocal = (0 < length key \<and> key ! 0 = LocalKeyType), OracleKey = key, oracleData = data,
      OracleOffset = offset, BlobFieldIndex = 0, BlobCommitment = [], BlobProof = []\<rparr>"

definition NewPreimageOracleBlobData ::
  "byte list \<Rightarrow> byte list \<Rightarrow> 32 word \<Rightarrow> 64 word \<Rightarrow> byte list \<Rightarrow> byte list \<Rightarrow> PreimageOracleData" where
  "NewPreimageOracleBlobData key data offset fieldIndex commitment proof_bytes =
     \<lparr>IsLocal = False, OracleKey = key, oracleData = data, OracleOffset = offset,
      BlobFieldIndex = fieldIndex, BlobCommitment = commitment, BlobProof = proof_bytes\<rparr>"

datatype ActionType = ActionTypeMove | ActionTypeStep | ActionTypeChallengeL2BlockNumber

text \<open>
  \<open>'c\<close> is \<open>InvalidL2BlockNumberChallenge\<close>, a pair of an output response and a block header of other modules.
\<close>

record 'c Action =
  Type :: ActionType
  ParentClaim :: Claim
  IsAttack :: bool
  ActValue :: Hash
  PreState :: "byte list"
  ProofData :: "byte list"
  OracleData :: "PreimageOracleData option"
  InvalidL2BlockNumberChallenge :: "'c option"

section \<open>Game types and trace types\<close>

type_synonym GameType = "32 word"
type_synonym TraceType = string

definition CannonGameType :: GameType where "CannonGameType = 0"
definition PermissionedGameType :: GameType where "PermissionedGameType = 1"
definition AsteriscGameType :: GameType where "AsteriscGameType = 2"
definition AsteriscKonaGameType :: GameType where "AsteriscKonaGameType = 3"
definition SuperCannonGameType :: GameType where "SuperCannonGameType = 4"
definition SuperPermissionedGameType :: GameType where "SuperPermissionedGameType = 5"
definition OPSuccinctGameType :: GameType where "OPSuccinctGameType = 6"
definition FastGameType :: GameType where "FastGameType = 254"
definition AlphabetGameType :: GameType where "AlphabetGameType = 255"
definition KailuaGameType :: GameType where "KailuaGameType = 1337"
definition UnknownGameType :: GameType where "UnknownGameType = 4294967295"

lemmas game_type_defs = CannonGameType_def PermissionedGameType_def AsteriscGameType_def AsteriscKonaGameType_def
  SuperCannonGameType_def SuperPermissionedGameType_def OPSuccinctGameType_def FastGameType_def
  AlphabetGameType_def KailuaGameType_def UnknownGameType_def

text \<open>\<open>%d\<close> of a number.\<close>

fun decimal :: "nat \<Rightarrow> string" where
  "decimal n = (if n < 10 then [''0123456789'' ! n] else decimal (n div 10) @ [''0123456789'' ! (n mod 10)])"

declare decimal.simps [simp del]

definition GameType_String :: "GameType \<Rightarrow> string" where
  "GameType_String t =
     (if t = CannonGameType then ''cannon''
      else if t = PermissionedGameType then ''permissioned''
      else if t = AsteriscGameType then ''asterisc''
      else if t = AsteriscKonaGameType then ''asterisc-kona''
      else if t = SuperCannonGameType then ''super-cannon''
      else if t = SuperPermissionedGameType then ''super-permissioned''
      else if t = OPSuccinctGameType then ''op-succinct''
      else if t = FastGameType then ''fast''
      else if t = AlphabetGameType then ''alphabet''
      else if t = KailuaGameType then ''kailua''
      else ''<invalid: '' @ decimal (unat t) @ ''>'')"

definition TraceTypes :: "TraceType list" where
  "TraceTypes = [''alphabet'', ''cannon'', ''permissioned'', ''asterisc'', ''asterisc-kona'', ''fast'',
     ''super-cannon'', ''super-permissioned'']"

definition ValidTraceType :: "TraceType \<Rightarrow> bool" where
  "ValidTraceType v = list_ex (\<lambda>t. t = v) TraceTypes"

definition TraceType_Set :: "TraceType \<Rightarrow> string \<Rightarrow> game_error option \<times> TraceType" where
  "TraceType_Set t v =
     (if \<not> ValidTraceType v then (Some (Errorf ''unknown trace type'' None), t) else (None, v))"

definition TraceType_GameType :: "TraceType \<Rightarrow> GameType" where
  "TraceType_GameType t =
     (if t = ''cannon'' then CannonGameType
      else if t = ''permissioned'' then PermissionedGameType
      else if t = ''asterisc'' then AsteriscGameType
      else if t = ''asterisc-kona'' then AsteriscKonaGameType
      else if t = ''fast'' then FastGameType
      else if t = ''alphabet'' then AlphabetGameType
      else if t = ''super-cannon'' then SuperCannonGameType
      else if t = ''super-permissioned'' then SuperPermissionedGameType
      else UnknownGameType)"

end
