(* ===== verification/Game_Tree.thy ===== *)
theory Game_Tree
  imports Game_State
begin

unbundle bit_operations_syntax

text \<open>
  The tree of claims of a dispute game.  A locale states what the searches up the tree rely on (parents are
  claims of the game, of smaller rank) and is interpreted on \<^typ>\<open>gameState\<close>; on it rest the termination
  and the result of \<open>AncestorWithTraceIndex\<close>, and the theorem that a leaf claim finds the claims left and
  right of it among its ancestors.  The second part states what the identifier of a claim commits to.
\<close>

section \<open>Walking up a forest\<close>

inductive ancestry :: "('c \<Rightarrow> 'c option) \<Rightarrow> 'c list \<Rightarrow> bool" for up where
  ancestry_top: "up c = None \<Longrightarrow> ancestry up [c]"
| ancestry_child: "ancestry up (p # ps) \<Longrightarrow> up c = Some p \<Longrightarrow> ancestry up (c # p # ps)"

inductive_cases ancestry_ConsE: "ancestry up (c # ps)"

inductive_simps ancestry_sing: "ancestry up [c]"
  and ancestry_Cons2: "ancestry up (c # p # ps)"

lemma ancestry_unique:
  assumes "ancestry up (c # ps)" "ancestry up (c # qs)"
  shows "ps = qs"
  using assms
proof (induction "c # ps" arbitrary: c ps qs)
  case (ancestry_top c)
  from ancestry_top.prems ancestry_top.hyps show ?case by (auto elim: ancestry_ConsE)
next
  case (ancestry_child p ps c)
  from ancestry_child.prems ancestry_child.hyps(3) obtain rs where "qs = p # rs" "ancestry up (p # rs)"
    by (auto elim: ancestry_ConsE)
  with ancestry_child.hyps(2) show ?case by simp
qed

locale claim_forest =
  fixes wf_game :: "'g \<Rightarrow> bool"
    and member :: "'g \<Rightarrow> 'c \<Rightarrow> bool"
    and up :: "'g \<Rightarrow> 'c \<Rightarrow> 'c option"
    and rank :: "'c \<Rightarrow> nat"
  assumes up_member: "wf_game g \<Longrightarrow> member g c \<Longrightarrow> up g c = Some p \<Longrightarrow> member g p"
    and up_rank: "wf_game g \<Longrightarrow> member g c \<Longrightarrow> up g c = Some p \<Longrightarrow> rank p < rank c"
begin

lemma ancestry_exists:
  assumes "wf_game g" "member g c"
  shows "\<exists>ps. ancestry (up g) (c # ps)"
  using assms(2)
proof (induction c rule: measure_induct_rule [of rank])
  case (less c)
  show ?case
  proof (cases "up g c")
    case None
    then show ?thesis by (blast intro: ancestry_top)
  next
    case (Some p)
    with less assms(1) up_member up_rank obtain ps where "ancestry (up g) (p # ps)" by blast
    with Some show ?thesis by (blast intro: ancestry_child)
  qed
qed

lemma ancestry_members:
  assumes "wf_game g" "member g c" "ancestry (up g) (c # ps)" "a \<in> set (c # ps)"
  shows "member g a"
  using assms(3,2,4)
proof (induction "c # ps" arbitrary: c ps)
  case (ancestry_top c)
  then show ?case by simp
next
  case (ancestry_child p ps c)
  then show ?case using up_member [OF assms(1)] by auto
qed

lemma ancestry_forest_induct:
  assumes "wf_game g" "member g c"
    and top: "\<And>c. member g c \<Longrightarrow> up g c = None \<Longrightarrow> P c"
    and child: "\<And>c p. member g c \<Longrightarrow> member g p \<Longrightarrow> up g c = Some p \<Longrightarrow> P p \<Longrightarrow> P c"
  shows "P c"
  using assms(2)
proof (induction c rule: measure_induct_rule [of rank])
  case (less c)
  show ?case
  proof (cases "up g c")
    case None
    then show ?thesis using top less.prems by blast
  next
    case (Some p)
    then show ?thesis using child [of c p] less up_member [OF assms(1)] up_rank [OF assms(1)] by blast
  qed
qed

end

section \<open>Games of the dispute contract\<close>

text \<open>
  What the contract keeps of its list of claims: none is empty, the first is the root, claim \<open>i\<close> carries
  index \<open>i\<close>, its parent comes earlier and is above the maximum depth, and its position attacks or, below the root,
  defends the parent's.
\<close>

definition claims_ok :: "Depth \<Rightarrow> Claim list \<Rightarrow> bool" where
  "claims_ok D cs \<longleftrightarrow> cs \<noteq> [] \<and> IsRoot (cs ! 0) \<and> list_all (\<lambda>c. c \<noteq> noClaim) cs \<and>
     list_all (\<lambda>i. ContractIndex (cs ! i) = int i \<and>
       (i \<noteq> 0 \<longrightarrow> 0 \<le> ParentContractIndex (cs ! i) \<and> ParentContractIndex (cs ! i) < int i \<and>
          depth (Pos (cs ! nat (ParentContractIndex (cs ! i)))) < D \<and>
          responds (Pos (cs ! nat (ParentContractIndex (cs ! i)))) (Pos (cs ! i)))) [0..<length cs]"

definition game_wf :: "keccak256 \<Rightarrow> gameState \<Rightarrow> bool" where
  "game_wf keccak g \<longleftrightarrow> claims_ok (MaxDepth g) (claims g) \<and> g = NewGameState keccak (claims g) (MaxDepth g)"

lemma responds_not_root: "responds p q \<Longrightarrow> depth p < D \<Longrightarrow> \<not> IsRootPosition q"
  using unat_Suc_depth [of "depth p" D] by (auto simp: responds_def IsRootPosition_def)

lemma claims_okD:
  assumes "claims_ok D cs" "i < length cs"
  shows "ContractIndex (cs ! i) = int i"
    and "IsRoot (cs ! i) \<longleftrightarrow> i = 0"
    and "i \<noteq> 0 \<Longrightarrow> \<exists>j<i. ParentContractIndex (cs ! i) = int j \<and> depth (Pos (cs ! j)) < D \<and>
      responds (Pos (cs ! j)) (Pos (cs ! i))"
proof -
  from assms have *: "ContractIndex (cs ! i) = int i"
      "i \<noteq> 0 \<Longrightarrow> 0 \<le> ParentContractIndex (cs ! i) \<and> ParentContractIndex (cs ! i) < int i \<and>
          depth (Pos (cs ! nat (ParentContractIndex (cs ! i)))) < D \<and>
          responds (Pos (cs ! nat (ParentContractIndex (cs ! i)))) (Pos (cs ! i))"
    and root: "IsRoot (cs ! 0)"
    by (auto simp: claims_ok_def list_all_iff)
  show "ContractIndex (cs ! i) = int i" by (rule *(1))
  show par: "\<exists>j<i. ParentContractIndex (cs ! i) = int j \<and> depth (Pos (cs ! j)) < D \<and>
      responds (Pos (cs ! j)) (Pos (cs ! i))" if "i \<noteq> 0"
    using *(2) [OF that] by (intro exI [of _ "nat (ParentContractIndex (cs ! i))"]) auto
  show "IsRoot (cs ! i) \<longleftrightarrow> i = 0" using root par responds_not_root by (auto simp: IsRoot_def)
qed

lemma game_wf_claims: "game_wf keccak g \<Longrightarrow> claims_ok (MaxDepth g) (claims g)"
  by (simp add: game_wf_def)

lemma getParent_wf:
  assumes "game_wf keccak g" "c \<in> set (claims g)"
  shows "case getParent g c of None \<Rightarrow> IsRoot c \<and> c = claims g ! 0
    | Some p \<Rightarrow> \<not> IsRoot c \<and> p \<in> set (claims g) \<and> ContractIndex p < ContractIndex c \<and> 0 \<le> ContractIndex p \<and>
        ParentContractIndex c = ContractIndex p \<and> depth (Pos p) < MaxDepth g \<and> responds (Pos p) (Pos c)"
proof -
  from assms(2) obtain i where i: "i < length (claims g)" "c = claims g ! i" by (metis in_set_conv_nth)
  note ok = claims_okD [OF game_wf_claims [OF assms(1)]]
  show ?thesis
  proof (cases "i = 0")
    case True
    then show ?thesis using i ok(2) [OF i(1)] by (simp add: getParent_def)
  next
    case False
    then obtain j where j: "j < i" "ParentContractIndex c = int j" "depth (Pos (claims g ! j)) < MaxDepth g"
      "responds (Pos (claims g ! j)) (Pos c)" using ok(3) [OF i(1)] i(2) by blast
    then have "getParent g c = Some (claims g ! j)" "claims g ! j \<in> set (claims g)"
      using False i ok(2) [OF i(1)] by (simp_all add: getParent_def)
    then show ?thesis using j i ok(1,2) [OF i(1)] ok(1) [of j] False by simp
  qed
qed

lemma no_parent_root: "game_wf keccak g \<Longrightarrow> c \<in> set (claims g) \<Longrightarrow> getParent g c = None \<Longrightarrow> IsRoot c"
  using getParent_wf [of keccak g c] by auto

interpretation gs: claim_forest "game_wf keccak" "\<lambda>g c. c \<in> set (claims g)" getParent "\<lambda>c. nat (ContractIndex c)"
  for keccak
proof
  fix g c p
  assume "game_wf keccak g" "c \<in> set (claims g)" "getParent g c = Some p"
  then show "p \<in> set (claims g)" "nat (ContractIndex p) < nat (ContractIndex c)"
    using getParent_wf [of keccak g c] by auto
qed

lemma ancestry_line:
  assumes "game_wf keccak g" "c \<in> set (claims g)" "ancestry (getParent g) (c # ps)"
  shows "line (MaxDepth g) (map Pos (c # ps))"
  using assms(3,2)
proof (induction "c # ps" arbitrary: c ps)
  case (ancestry_top c)
  then have "IsRoot c" using no_parent_root [OF assms(1), of c] by blast
  then show ?case by (simp add: line_root IsRoot_def)
next
  case (ancestry_child p ps c)
  note c = getParent_wf [OF assms(1) ancestry_child.prems, unfolded ancestry_child.hyps(3), simplified]
  with ancestry_child.hyps(2) show ?case by (auto intro: line_step)
qed

lemma claim_in_tree:
  assumes "game_wf keccak g" "c \<in> set (claims g)"
  shows "in_tree (Pos c) \<and> depth (Pos c) \<le> MaxDepth g \<and> even (IndexAtDepth (Pos c))"
proof -
  obtain ps where "ancestry (getParent g) (c # ps)" using gs.ancestry_exists [OF assms] by blast
  from ancestry_line [OF assms this] show ?thesis using line_facts by fastforce
qed

lemma AncestorWithTraceIndex_walk:
  assumes "ancestry (getParent g) (c # ps)" "\<forall>a \<in> set (c # ps). depth (Pos a) \<le> MaxDepth g"
  shows "AncestorWithTraceIndex g c idx = Some (Inr
    (case find (\<lambda>a. pos_leaf (MaxDepth g) (Pos a) = idx) (c # ps) of Some a \<Rightarrow> (a, True) | None \<Rightarrow> (noClaim, False)))"
  using assms
proof (induction "c # ps" arbitrary: c ps)
  case (ancestry_top c)
  then show ?case
    by (subst AncestorWithTraceIndex.simps) (simp add: TraceIndex_eq linorder_not_less)
next
  case (ancestry_child p ps c)
  moreover have "\<not> IsRoot c" using ancestry_child.hyps(3) by (auto simp: getParent_def)
  ultimately show ?case
    by (subst AncestorWithTraceIndex.simps) (auto simp: TraceIndex_eq linorder_not_less)
qed

text \<open>C32: In a game of the contract the loop of AncestorWithTraceIndex returns, for every claim and every
  index, without a panic: either with an ancestor (or the claim itself) of that trace index, or with the
  zero claim and false when no ancestor has it.\<close>

theorem AncestorWithTraceIndex_returns:
  assumes "game_wf keccak g" "c \<in> set (claims g)"
  shows "\<exists>ps. ancestry (getParent g) (c # ps) \<and> set (c # ps) \<subseteq> set (claims g) \<and>
    (\<exists>a found. AncestorWithTraceIndex g c idx = Some (Inr (a, found)) \<and>
      (if found then a \<in> set (c # ps) \<and> TraceIndex (Pos a) (MaxDepth g) = Inr idx
       else a = noClaim \<and> (\<forall>b \<in> set (c # ps). TraceIndex (Pos b) (MaxDepth g) \<noteq> Inr idx)))"
proof -
  obtain ps where ps: "ancestry (getParent g) (c # ps)" using gs.ancestry_exists [OF assms] by blast
  have mem: "set (c # ps) \<subseteq> set (claims g)" using gs.ancestry_members [OF assms ps] by blast
  then have le: "\<forall>a \<in> set (c # ps). depth (Pos a) \<le> MaxDepth g" using claim_in_tree [OF assms(1)] by blast
  then have ti: "\<forall>a \<in> set (c # ps). TraceIndex (Pos a) (MaxDepth g) = Inr (pos_leaf (MaxDepth g) (Pos a))"
    by (auto simp: TraceIndex_eq linorder_not_less)
  note walk = AncestorWithTraceIndex_walk [OF ps le, of idx]
  show ?thesis
  proof (cases "find (\<lambda>a. pos_leaf (MaxDepth g) (Pos a) = idx) (c # ps)")
    case None
    then have "\<forall>b \<in> set (c # ps). TraceIndex (Pos b) (MaxDepth g) \<noteq> Inr idx"
      using ti unfolding find_None_iff by auto
    then show ?thesis using ps mem walk None
      by (intro exI [of _ ps] conjI exI [of _ noClaim] exI [of _ False]) simp_all
  next
    case (Some a)
    then have "a \<in> set (c # ps)" "pos_leaf (MaxDepth g) (Pos a) = idx"
      unfolding find_Some_iff by (metis nth_mem)+
    moreover have "TraceIndex (Pos a) (MaxDepth g) = Inr (pos_leaf (MaxDepth g) (Pos a))" using ti calculation(1) by blast
    ultimately show ?thesis using ps mem walk Some
      by (intro exI [of _ ps] conjI exI [of _ a] exI [of _ True]) simp_all
  qed
qed

definition sample_claim :: "Hash \<Rightarrow> Position \<Rightarrow> int \<Rightarrow> int \<Rightarrow> Claim" where
  "sample_claim v p i par = noClaim\<lparr>Value := v, Pos := p, Claimant := 7, ContractIndex := i, ParentContractIndex := par\<rparr>"

definition sample_claims :: "Claim list" where
  "sample_claims =
     [sample_claim 100 (NewPosition 0 (Some 0)) 0 4294967295,
      sample_claim 101 (Attack (NewPosition 0 (Some 0))) 1 0,
      sample_claim 102 (Defend (Attack (NewPosition 0 (Some 0)))) 2 1]"

definition sample_hash :: keccak256 where
  "sample_hash bs = of_nat (be_dec bs) + 1"

definition sample_game :: gameState where
  "sample_game = NewGameState sample_hash sample_claims 2"

lemma sample_game_wf: "game_wf sample_hash sample_game"
  by (simp add: game_wf_def sample_game_def NewGameState_def claims_ok_def sample_claims_def sample_claim_def
    upt_rec IsRoot_def responds_def position_defs noClaim_def push_bit_eq_mult)

lemma sample_simps [simp]:
  "claims sample_game = sample_claims" "MaxDepth sample_game = 2" "length sample_claims = 3"
  "Pos (sample_claims ! 0) = NewPosition 0 (Some 0)"
  "Pos (sample_claims ! Suc 0) = NewPosition 1 (Some 0)" "Pos (sample_claims ! 2) = NewPosition 2 (Some 2)"
  by (simp_all add: sample_game_def NewGameState_def sample_claims_def sample_claim_def position_defs push_bit_eq_mult)

lemma sample_ancestry:
  "ancestry (getParent sample_game) [sample_claims ! 2, sample_claims ! 1, sample_claims ! 0]"
proof -
  have par: "ParentContractIndex (sample_claims ! 2) = 1" "ParentContractIndex (sample_claims ! Suc 0) = 0"
    by (simp_all add: sample_claims_def sample_claim_def noClaim_def)
  show ?thesis
    by (simp add: ancestry_Cons2 ancestry_sing getParent_def IsRoot_def par IsRootPosition_def NewPosition_def IndexAtDepth_def)
qed

theorem AncestorWithTraceIndex_returns_witness:
  "\<exists>a found. AncestorWithTraceIndex sample_game (sample_claims ! 2) 1 = Some (Inr (a, found)) \<and>
    (if found then a \<in> set sample_claims \<and> TraceIndex (Pos a) 2 = Inr 1 else a = noClaim)"
proof -
  have c: "sample_claims ! 2 \<in> set (claims sample_game)" by simp
  from AncestorWithTraceIndex_returns [OF sample_game_wf c, of 1, unfolded sample_simps]
  obtain ps a found where ps: "set (sample_claims ! 2 # ps) \<subseteq> set sample_claims"
    and a: "AncestorWithTraceIndex sample_game (sample_claims ! 2) 1 = Some (Inr (a, found))"
    and r: "if found then a \<in> set (sample_claims ! 2 # ps) \<and> TraceIndex (Pos a) 2 = Inr 1
      else a = noClaim \<and> (\<forall>b \<in> set (sample_claims ! 2 # ps). TraceIndex (Pos b) 2 \<noteq> Inr 1)" by blast
  have "if found then a \<in> set sample_claims \<and> TraceIndex (Pos a) 2 = Inr 1 else a = noClaim"
  proof (cases found)
    case True
    with r have "a \<in> set (sample_claims ! 2 # ps)" "TraceIndex (Pos a) 2 = Inr 1" by (simp_all only: if_True)
    with ps True show ?thesis by (simp only: if_True) blast
  next
    case False
    with r show ?thesis by (simp only: if_False)
  qed
  with a show ?thesis by (intro exI [of _ a] exI [of _ found] conjI)
qed

text \<open>Trace indices are distinct along a line of claims, so the claim found is the only one.\<close>

lemma line_leaves_distinct: "line D ps \<Longrightarrow> distinct (map (pos_leaf D) ps)"
proof (induction rule: line.induct)
  case (line_root p)
  then show ?case by simp
next
  case (line_step p ps q)
  have "line D (q # p # ps)" using line_step by (blast intro: line.line_step)
  then have apart: "pos_leaf D a \<le> pos_leaf D q - span D q \<or> pos_leaf D q + span D q \<le> pos_leaf D a"
    if "a \<in> set (p # ps)" for a
    using line_neighbours that by blast
  have "pos_leaf D a \<noteq> pos_leaf D q" if "a \<in> set (p # ps)" for a
    using apart [OF that] span_pos [of D q] by linarith
  then have "pos_leaf D q \<notin> pos_leaf D ` set (p # ps)" by (metis imageE)
  with line_step.IH show ?case by simp
qed

lemma find_distinct:
  "distinct (map f xs) \<Longrightarrow> a \<in> set xs \<Longrightarrow> find (\<lambda>x. f x = f a) xs = Some a"
  by (induction xs) auto

lemma Ancestor_found:
  assumes "game_wf keccak g" "c \<in> set (claims g)" "ancestry (getParent g) (c # ps)"
    "a \<in> set (c # ps)" "pos_leaf (MaxDepth g) (Pos a) = idx"
  shows "AncestorWithTraceIndex g c idx = Some (Inr (a, True))"
proof -
  have mem: "set (c # ps) \<subseteq> set (claims g)" using gs.ancestry_members [OF assms(1-3)] by blast
  then have le: "\<forall>a \<in> set (c # ps). depth (Pos a) \<le> MaxDepth g" using claim_in_tree [OF assms(1)] by blast
  have "distinct (map (\<lambda>a. pos_leaf (MaxDepth g) (Pos a)) (c # ps))"
    using line_leaves_distinct [OF ancestry_line [OF assms(1-3)]] by (simp add: comp_def)
  from find_distinct [OF this assms(4)] assms(5)
  have "find (\<lambda>a. pos_leaf (MaxDepth g) (Pos a) = idx) (c # ps) = Some a" by simp
  with AncestorWithTraceIndex_walk [OF assms(3) le, of idx] show ?thesis by (simp only: option.case)
qed

text \<open>C17: At the maximum depth the search never fails: for every leaf claim below the root, the claim one
  trace index to the right is among its ancestors, and so is the claim one to the left unless the leaf is
  at trace index 0 (where the absolute pre-state takes its place).  So a step always finds its pre-state
  and post-state.\<close>

theorem leaf_has_prestate_and_poststate:
  assumes "game_wf keccak g" "c \<in> set (claims g)" "depth (Pos c) = MaxDepth g" "\<not> IsRoot c"
    "TraceIndex (Pos c) (MaxDepth g) = Inr t"
  shows "(\<exists>post. post \<in> set (claims g) \<and> AncestorWithTraceIndex g c (t + 1) = Some (Inr (post, True))) \<and>
    (t = 0 \<or> (\<exists>pre. pre \<in> set (claims g) \<and> AncestorWithTraceIndex g c (t - 1) = Some (Inr (pre, True))))"
proof -
  obtain ps where ps: "ancestry (getParent g) (c # ps)" using gs.ancestry_exists [OF assms(1,2)] by blast
  have mem: "set (c # ps) \<subseteq> set (claims g)" using gs.ancestry_members [OF assms(1,2) ps] by blast
  have "getParent g c \<noteq> None" using getParent_wf [OF assms(1,2)] assms(4) by (auto split: option.splits)
  then have ne: "map Pos ps \<noteq> []" using ps by (auto elim: ancestry_ConsE)
  have t: "pos_leaf (MaxDepth g) (Pos c) = t" using assms(3,5) by (simp add: TraceIndex_eq)
  have s: "span (MaxDepth g) (Pos c) = 1" using assms(3) by (simp add: span_def)
  note near = line_neighbours [OF ancestry_line [OF assms(1,2) ps, simplified], unfolded t s]
  from near ne obtain a where a: "a \<in> set ps" "pos_leaf (MaxDepth g) (Pos a) = t + 1" by auto
  with Ancestor_found [OF assms(1,2) ps, of a] mem
  have post: "\<exists>post. post \<in> set (claims g) \<and> AncestorWithTraceIndex g c (t + 1) = Some (Inr (post, True))" by auto
  from near have "t = 0 \<or> (\<exists>a \<in> set ps. pos_leaf (MaxDepth g) (Pos a) = t - 1)" by auto
  with Ancestor_found [OF assms(1,2) ps] mem
  have "t = 0 \<or> (\<exists>pre. pre \<in> set (claims g) \<and> AncestorWithTraceIndex g c (t - 1) = Some (Inr (pre, True)))"
    by fastforce
  with post show ?thesis by blast
qed

theorem leaf_has_prestate_and_poststate_witness:
  "\<exists>post. AncestorWithTraceIndex sample_game (sample_claims ! 2) 3 = Some (Inr (post, True))"
proof -
  have "sample_claims ! 2 \<in> set (claims sample_game)" "depth (Pos (sample_claims ! 2)) = MaxDepth sample_game"
    "\<not> IsRoot (sample_claims ! 2)" "TraceIndex (Pos (sample_claims ! 2)) (MaxDepth sample_game) = Inr 2"
    by (simp_all add: IsRoot_def TraceIndex_eq pos_leaf_def last_leaf_def IsRootPosition_def NewPosition_def IndexAtDepth_def)
  from leaf_has_prestate_and_poststate [OF sample_game_wf this] show ?thesis by auto
qed

lemma claim_not_empty: "game_wf keccak g \<Longrightarrow> c \<in> set (claims g) \<Longrightarrow> c \<noteq> noClaim"
  by (auto simp: game_wf_def claims_ok_def list_all_iff)

section \<open>What a claim identifier commits to\<close>

lemma bit_len_bounds: "0 < n \<Longrightarrow> 2 ^ (bit_len n - 1) \<le> n \<and> n < 2 ^ bit_len n"
proof (induction n rule: bit_len.induct)
  case (1 n)
  show ?case
  proof (cases "n div 2 = 0")
    case True
    then have "n = 1" using 1 by linarith
    then show ?thesis by (simp add: bit_len.simps)
  next
    case False
    then have "2 ^ (bit_len (n div 2) - 1) \<le> n div 2" "n div 2 < 2 ^ bit_len (n div 2)" using 1 by auto
    moreover have "bit_len (n div 2) \<noteq> 0" using False by (subst bit_len.simps) simp
    then obtain k where "bit_len (n div 2) = Suc k" by (metis not0_implies_Suc)
    ultimately show ?thesis using 1 by (subst (1 2) bit_len.simps) auto
  qed
qed

lemma be_dec_big_Bytes: "be_dec (big_Bytes x) = nat \<bar>x\<bar>"
proof -
  let ?n = "nat \<bar>x\<bar>"
  have "?n < 256 ^ ((bit_len ?n + 7) div 8)"
  proof (cases "?n = 0")
    case False
    have "bit_len ?n \<le> 8 * ((bit_len ?n + 7) div 8)" by linarith
    then have "(2::nat) ^ bit_len ?n \<le> 2 ^ (8 * ((bit_len ?n + 7) div 8))" by (intro power_increasing) simp_all
    also have "\<dots> = 256 ^ ((bit_len ?n + 7) div 8)" by (simp add: power_mult)
    finally show ?thesis using bit_len_bounds [of ?n] False by linarith
  qed simp
  then show ?thesis by (simp add: big_Bytes_def be_dec_enc)
qed

lemma big_Bytes_inject: "big_Bytes x = big_Bytes y \<Longrightarrow> 0 \<le> x \<Longrightarrow> 0 \<le> y \<Longrightarrow> x = y"
  using be_dec_big_Bytes [of x] be_dec_big_Bytes [of y] by simp

lemma length_Hash_Bytes [simp]: "length (Hash_Bytes h) = 32"
  by (simp add: Hash_Bytes_def)

lemma unat_hash_less: "unat (h :: Hash) < 256 ^ 32"
proof -
  have "unat h < 2 ^ LENGTH(256)" by (rule unsigned_less)
  moreover have "(2::nat) ^ LENGTH(256) = 256 ^ 32" by simp
  ultimately show ?thesis by (simp only:)
qed

lemma Hash_Bytes_inject: "Hash_Bytes h = Hash_Bytes k \<Longrightarrow> h = k"
proof -
  assume "Hash_Bytes h = Hash_Bytes k"
  then have "be_dec (Hash_Bytes h) = be_dec (Hash_Bytes k)" by simp
  then show "h = k" using unat_hash_less [of h] unat_hash_less [of k]
    by (simp add: Hash_Bytes_def be_dec_enc word_unat_eq_iff del: power_numeral)
qed

lemma be_dec_Hash_Bytes: "be_dec (Hash_Bytes h) = unat h"
  using unat_hash_less [of h] by (simp add: Hash_Bytes_def be_dec_enc del: power_numeral)

lemma length_gindex_bytes: "in_tree p \<Longrightarrow> length (big_Bytes (ToGIndex p)) = unat (depth p) div 8 + 1"
proof -
  assume p: "in_tree p"
  have "nat (IndexAtDepth p) < nat (2 ^ unat (depth p))" using p by (subst nat_less_eq_zless) (simp_all add: in_tree_def)
  then have "bit_len (2 ^ unat (depth p) + nat (IndexAtDepth p)) = Suc (unat (depth p))"
    by (intro bit_len_pow) (simp add: nat_power_eq)
  moreover have "nat \<bar>ToGIndex p\<bar> = 2 ^ unat (depth p) + nat (IndexAtDepth p)"
    using p by (simp add: ToGIndex_eq in_tree_def nat_add_distrib nat_power_eq)
  ultimately show ?thesis by (simp add: big_Bytes_def)
qed

text \<open>Two claims with the same ID, at depths of the same byte, have the same position, value and parent
  index, unless their two pre-images are a collision of the hash: among such claims the ID separates
  everything IsDuplicate and the honest-claim tracker look at.\<close>

theorem ID_binding:
  assumes "ID keccak c = ID keccak c'" "in_tree (Pos c)" "in_tree (Pos c')"
    "unat (depth (Pos c)) div 8 = unat (depth (Pos c')) div 8"
    "0 \<le> ParentContractIndex c" "0 \<le> ParentContractIndex c'"
  shows "(depth (Pos c) = depth (Pos c') \<and> IndexAtDepth (Pos c) = IndexAtDepth (Pos c') \<and> Value c = Value c' \<and>
      ParentContractIndex c = ParentContractIndex c') \<or>
    (ID_preimage c \<noteq> ID_preimage c' \<and> keccak (ID_preimage c) = keccak (ID_preimage c'))"
proof (cases "ID_preimage c = ID_preimage c'")
  case True
  then have eqs: "big_Bytes (ToGIndex (Pos c)) = big_Bytes (ToGIndex (Pos c'))"
    "Hash_Bytes (Value c) = Hash_Bytes (Value c')"
    "big_Bytes (ParentContractIndex c) = big_Bytes (ParentContractIndex c')"
    using assms(2-4) by (simp_all add: ID_preimage_def length_gindex_bytes)
  have "0 \<le> ToGIndex (Pos c)" "0 \<le> ToGIndex (Pos c')"
    using assms(2,3) by (simp_all add: ToGIndex_eq in_tree_def)
  with eqs(1) have "ToGIndex (Pos c) = ToGIndex (Pos c')" by (rule big_Bytes_inject)
  with ToGIndex_inject [OF assms(2,3)] eqs(2,3) show ?thesis
    using Hash_Bytes_inject big_Bytes_inject assms(5,6) by blast
qed (use assms(1) in \<open>simp add: ID_def\<close>)

theorem ID_binding_witness:
  "ID sample_hash (sample_claims ! 1) \<noteq> ID sample_hash (sample_claims ! 2)"
proof
  assume eq: "ID sample_hash (sample_claims ! 1) = ID sample_hash (sample_claims ! 2)"
  have par: "ParentContractIndex (sample_claims ! 2) = 1" "ParentContractIndex (sample_claims ! Suc 0) = 0"
    "Value (sample_claims ! 2) = 102" "Value (sample_claims ! Suc 0) = 101"
    by (simp_all add: sample_claims_def sample_claim_def noClaim_def)
  have "in_tree (Pos (sample_claims ! 1))" "in_tree (Pos (sample_claims ! 2))"
    by (simp_all add: in_tree_def NewPosition_def IndexAtDepth_def)
  from ID_binding [OF eq this] have "sample_hash (ID_preimage (sample_claims ! 1)) = sample_hash (ID_preimage (sample_claims ! 2))"
    by (simp add: par NewPosition_def)
  moreover have "big_Bytes 0 = []" "length (big_Bytes 1) = 1"
    by (simp_all add: big_Bytes_def bit_len.simps)
  ultimately show False
    by (simp add: ID_preimage_def par sample_hash_def NewPosition_def ToGIndex_def IndexAtDepth_def be_dec_append
      be_dec_Hash_Bytes be_dec_big_Bytes)
qed

end
