(* ===== verification/Game_Trace.thy ===== *)
theory Game_Trace
  imports Game_Tree Arch
begin

unbundle bit_operations_syntax

text \<open>
  \<open>op-challenger/game/fault/trace\<close>: trace providers and accessors (\<open>access.go\<close>), the provider of a subtree
  (\<open>translate.go\<close>), the split of a game into a top and a bottom game (\<open>split/split.go\<close>,
  \<open>split/local_context.go\<close>) and the alphabet provider (\<open>alphabet/provider.go\<close>, \<open>alphabet/prestate.go\<close>).
  A provider's methods are functions of their arguments (the providers cache, but answer the same).
  The locale \<open>correct_trace\<close> states what a challenger relies on in a provider, and is interpreted on the
  alphabet provider.
\<close>

abbreviation ok :: "'a \<Rightarrow> 'a go" where "ok x \<equiv> Inr (Inr x)"
abbreviation fail :: "game_error \<Rightarrow> 'a go" where "fail e \<equiv> Inr (Inl e)"

definition lift_go :: "game_error + 'a \<Rightarrow> 'a go" where
  "lift_go r = Inr r"

section \<open>Providers and accessors\<close>

type_synonym step_data = "byte list \<times> byte list \<times> PreimageOracleData option"

record 'c TraceProvider =
  prov_Get :: "Position \<Rightarrow> Hash go"
  prov_GetStepData :: "Position \<Rightarrow> step_data go"
  prov_GetL2BlockNumberChallenge :: "'c go"
  prov_AbsolutePreStateCommitment :: "Hash go"

record 'c TraceAccessor =
  acc_Get :: "gameState \<Rightarrow> Claim \<Rightarrow> Position \<Rightarrow> Hash go"
  acc_GetStepData :: "gameState \<Rightarrow> Claim \<Rightarrow> Position \<Rightarrow> step_data go"
  acc_GetL2BlockNumberChallenge :: "gameState \<Rightarrow> 'c go"

type_synonym 'c ProviderSelector = "gameState \<Rightarrow> Claim \<Rightarrow> Position \<Rightarrow> 'c TraceProvider go"

definition Accessor_Get :: "'c ProviderSelector \<Rightarrow> gameState \<Rightarrow> Claim \<Rightarrow> Position \<Rightarrow> Hash go" where
  "Accessor_Get selector g ref pos = bind_go (selector g ref pos) (\<lambda>p. prov_Get p pos)"

definition Accessor_GetStepData :: "'c ProviderSelector \<Rightarrow> gameState \<Rightarrow> Claim \<Rightarrow> Position \<Rightarrow> step_data go" where
  "Accessor_GetStepData selector g ref pos = bind_go (selector g ref pos) (\<lambda>p. prov_GetStepData p pos)"

definition Accessor_GetL2BlockNumberChallenge :: "'c ProviderSelector \<Rightarrow> gameState \<Rightarrow> 'c go" where
  "Accessor_GetL2BlockNumberChallenge selector g =
     (case claims g of
        [] \<Rightarrow> Inl IndexOutOfRange
      | c # _ \<Rightarrow> bind_go (selector g c RootPosition) (\<lambda>p. prov_GetL2BlockNumberChallenge p))"

definition NewAccessor :: "'c ProviderSelector \<Rightarrow> 'c TraceAccessor" where
  "NewAccessor selector =
     \<lparr>acc_Get = Accessor_Get selector, acc_GetStepData = Accessor_GetStepData selector,
      acc_GetL2BlockNumberChallenge = Accessor_GetL2BlockNumberChallenge selector\<rparr>"

definition NewSimpleTraceAccessor :: "'c TraceProvider \<Rightarrow> 'c TraceAccessor" where
  "NewSimpleTraceAccessor trace = NewAccessor (\<lambda>_ _ _. ok trace)"

lemma simple_accessor_simps [simp]:
  "acc_Get (NewSimpleTraceAccessor P) g ref pos = prov_Get P pos"
  "acc_GetStepData (NewSimpleTraceAccessor P) g ref pos = prov_GetStepData P pos"
  "claims g \<noteq> [] \<Longrightarrow> acc_GetL2BlockNumberChallenge (NewSimpleTraceAccessor P) g = prov_GetL2BlockNumberChallenge P"
  by (simp_all add: NewSimpleTraceAccessor_def NewAccessor_def Accessor_Get_def Accessor_GetStepData_def
    Accessor_GetL2BlockNumberChallenge_def split: list.splits)

section \<open>Subtrees\<close>

definition Translate_Get :: "'c TraceProvider \<Rightarrow> Depth \<Rightarrow> Position \<Rightarrow> Hash go" where
  "Translate_Get provider rootDepth pos =
     bind_go (RelativeToAncestorAtDepth pos rootDepth) (\<lambda>relativePos. prov_Get provider relativePos)"

definition Translate_GetStepData :: "'c TraceProvider \<Rightarrow> Depth \<Rightarrow> Position \<Rightarrow> step_data go" where
  "Translate_GetStepData provider rootDepth pos =
     bind_go (RelativeToAncestorAtDepth pos rootDepth) (\<lambda>relativePos. prov_GetStepData provider relativePos)"

definition Translate :: "'c TraceProvider \<Rightarrow> Depth \<Rightarrow> 'c TraceProvider" where
  "Translate provider rootDepth =
     \<lparr>prov_Get = Translate_Get provider rootDepth, prov_GetStepData = Translate_GetStepData provider rootDepth,
      prov_GetL2BlockNumberChallenge = prov_GetL2BlockNumberChallenge provider,
      prov_AbsolutePreStateCommitment = prov_AbsolutePreStateCommitment provider\<rparr>"

section \<open>Split games\<close>

text \<open>The two searches of \<open>split.go\<close> are loops that stop at the first claim without a parent.\<close>

partial_function (option) findAncestorAtDepth :: "gameState \<Rightarrow> Claim \<Rightarrow> Depth \<Rightarrow> Claim go option" where
  "findAncestorAtDepth g c d =
     (if d < depth (Pos c) then
        (case GetParent g c of
           Inl e \<Rightarrow> Some (fail (Errorf ''failed to find ancestor at depth'' (Some e)))
         | Inr p \<Rightarrow> findAncestorAtDepth g p d)
      else Some (ok c))"

partial_function (option) findAncestorWithTraceIndex :: "gameState \<Rightarrow> Claim \<Rightarrow> Depth \<Rightarrow> int \<Rightarrow> Claim go option" where
  "findAncestorWithTraceIndex g candidate d traceIdx =
     (case TraceIndex (Pos candidate) d of
        Inl e \<Rightarrow> Some (Inl e)
      | Inr t \<Rightarrow>
          if t = traceIdx then Some (ok candidate)
          else (case GetParent g candidate of
                  Inl e \<Rightarrow> Some (fail (Errorf ''failed to get parent of claim'' (Some e)))
                | Inr p \<Rightarrow> findAncestorWithTraceIndex g p d traceIdx))"

text \<open>Sequencing of runs that may not return.\<close>

definition bind_run :: "'a go option \<Rightarrow> ('a \<Rightarrow> 'b go option) \<Rightarrow> 'b go option" where
  "bind_run m f = (case m of None \<Rightarrow> None | Some (Inl p) \<Rightarrow> Some (Inl p) | Some (Inr (Inl e)) \<Rightarrow> Some (fail e)
     | Some (Inr (Inr x)) \<Rightarrow> f x)"

lemma bind_run_simps [simp]:
  "bind_run None f = None" "bind_run (Some (Inl p)) f = Some (Inl p)"
  "bind_run (Some (fail e)) f = Some (fail e)" "bind_run (Some (ok x)) f = f x"
  by (simp_all add: bind_run_def)

definition wrap_run :: "string \<Rightarrow> 'a go option \<Rightarrow> 'a go option" where
  "wrap_run msg m = map_option (wrap_go msg) m"

lemma wrap_run_simps [simp]: "wrap_run msg (Some m) = Some (wrap_go msg m)" "wrap_run msg None = None"
  by (simp_all add: wrap_run_def)

definition split_bounds :: "Depth \<Rightarrow> gameState \<Rightarrow> Claim \<Rightarrow> Position \<Rightarrow> (Claim \<times> Claim) go option" where
  "split_bounds topDepth g topLeaf pos =
     bind_run (Some (bind_res (TraceIndex pos (depth pos)) ok)) (\<lambda>posIdx.
     bind_run (Some (bind_res (TraceIndex (Pos topLeaf) (depth pos)) ok)) (\<lambda>leafIdx.
     bind_run (Some (bind_res (TraceIndex (Pos topLeaf) topDepth) ok)) (\<lambda>topIdx.
       if leafIdx < posIdx then
         bind_run (wrap_run ''failed to find post claim''
             (findAncestorWithTraceIndex g topLeaf topDepth (topIdx + 1))) (\<lambda>post.
           Some (ok (topLeaf, post)))
       else if topIdx = 0 then Some (ok (noClaim, topLeaf))
       else
         bind_run (wrap_run ''failed to find pre claim''
             (findAncestorWithTraceIndex g topLeaf topDepth (topIdx - 1))) (\<lambda>pre.
           Some (ok (pre, topLeaf))))))"

type_synonym 'c ProviderCreator = "Depth \<Rightarrow> Claim \<Rightarrow> Claim \<Rightarrow> 'c TraceProvider go"

definition NewSplitProviderSelector ::
  "'c TraceProvider \<Rightarrow> Depth \<Rightarrow> 'c ProviderCreator \<Rightarrow> gameState \<Rightarrow> Claim \<Rightarrow> Position \<Rightarrow> 'c TraceProvider go option" where
  "NewSplitProviderSelector topProvider topDepth bottomProviderCreator g ref pos =
     (if depth pos \<le> topDepth then Some (ok topProvider)
      else if depth (Pos ref) < topDepth then Some (fail (Errorf ''claim depth'' (Some ErrRefClaimNotDeepEnough)))
      else
        bind_run (findAncestorAtDepth g ref topDepth) (\<lambda>topLeaf.
        bind_run (split_bounds topDepth g topLeaf pos) (\<lambda>(pre, post).
          let bottomDepth = MaxDepth g - topDepth - 1
          in bind_run (Some (bottomProviderCreator bottomDepth pre post)) (\<lambda>provider.
               Some (ok (Translate provider (topDepth + 1)))))))"

text \<open>\<open>big.Int.FillBytes\<close> into a buffer of \<open>n\<close> bytes.\<close>

definition FillBytes :: "nat \<Rightarrow> int \<Rightarrow> byte list res" where
  "FillBytes n x = (if 256 ^ n \<le> nat \<bar>x\<bar> then Inl BufferTooSmall else Inr (be_enc n (nat \<bar>x\<bar>)))"

definition encodeClaim :: "Claim \<Rightarrow> byte list res" where
  "encodeClaim c = bind_res (FillBytes 32 (ToGIndex (Pos c))) (\<lambda>gi. Inr (Hash_Bytes (Value c) @ gi))"

definition LocalContextPreimage :: "Claim \<Rightarrow> Claim \<Rightarrow> byte list res" where
  "LocalContextPreimage pre_claim post_claim =
     bind_res (if pre_claim \<noteq> noClaim then encodeClaim pre_claim else Inr []) (\<lambda>data.
     bind_res (encodeClaim post_claim) (\<lambda>enc. Inr (data @ enc)))"

definition CreateLocalContext :: "keccak256 \<Rightarrow> Claim \<Rightarrow> Claim \<Rightarrow> Hash res" where
  "CreateLocalContext keccak pre_claim post_claim = bind_res (LocalContextPreimage pre_claim post_claim) (\<lambda>b. Inr (keccak b))"

section \<open>The alphabet provider\<close>

definition absolutePrestate :: "byte list" where
  "absolutePrestate = replicate 31 0 @ [0x60]"

definition absolutePrestateInt :: int where
  "absolutePrestateInt = int (be_dec absolutePrestate)"

definition L2ClaimBlockNumberLocalIndex :: "64 word" where
  "L2ClaimBlockNumberLocalIndex = 4"

text \<open>\<open>LocalIndexKey.PreimageKey\<close> of \<open>op-preimage/iface.go\<close>.\<close>

definition LocalIndexKey_PreimageKey :: "64 word \<Rightarrow> byte list" where
  "LocalIndexKey_PreimageKey k = LocalKeyType # replicate 23 0 @ put_u64 k"

definition set_status :: "byte \<Rightarrow> Hash \<Rightarrow> Hash" where
  "set_status b h = BytesToHash ((Hash_Bytes h)[0 := b])"

definition alphabetStateHash :: "keccak256 \<Rightarrow> byte list \<Rightarrow> Hash" where
  "alphabetStateHash keccak state = set_status VMStatusInvalid (keccak state)"

definition alphabet_AbsolutePreStateCommitment :: "keccak256 \<Rightarrow> Hash" where
  "alphabet_AbsolutePreStateCommitment keccak = set_status VMStatusUnfinished (keccak absolutePrestate)"

definition BuildAlphabetPreimage :: "int \<Rightarrow> int \<Rightarrow> byte list res" where
  "BuildAlphabetPreimage traceIndex claim =
     bind_res (FillBytes 32 traceIndex) (\<lambda>a. bind_res (FillBytes 32 claim) (\<lambda>b. Inr (a @ b)))"

record AlphabetTraceProvider =
  startingBlockNumber :: int
  alpha_depth :: Depth
  maxLen :: "64 word"

definition NewTraceProvider :: "int \<Rightarrow> Depth \<Rightarrow> AlphabetTraceProvider" where
  "NewTraceProvider start d = \<lparr>startingBlockNumber = start, alpha_depth = d, maxLen = push_bit (unat d) 1\<rparr>"

definition alphabet_GetStepData :: "AlphabetTraceProvider \<Rightarrow> Position \<Rightarrow> step_data go" where
  "alphabet_GetStepData ap pos =
     bind_res (TraceIndex pos (alpha_depth ap)) (\<lambda>traceIndex.
       let key = LocalIndexKey_PreimageKey L2ClaimBlockNumberLocalIndex;
           preimageData = NewPreimageOracleData key (big_Bytes (startingBlockNumber ap)) 0
       in if traceIndex = 0 then ok (absolutePrestate, [], Some preimageData)
          else if int (unat (maxLen ap)) < traceIndex then fail (Errorf ''depth index max'' (Some ErrIndexTooLarge))
          else
            let initialTraceIndex = push_bit 4 (startingBlockNumber ap);
                initialClaim = absolutePrestateInt + initialTraceIndex;
                newTraceIndex = initialTraceIndex + traceIndex;
                newClaim = initialClaim + traceIndex
            in bind_res (BuildAlphabetPreimage newTraceIndex newClaim) (\<lambda>b. ok (b, [], Some preimageData)))"

definition alphabet_Get :: "keccak256 \<Rightarrow> AlphabetTraceProvider \<Rightarrow> Position \<Rightarrow> Hash go" where
  "alphabet_Get keccak ap i =
     (if alpha_depth ap < depth i then fail (Errorf ''depth max'' (Some ErrIndexTooLarge))
      else bind_res (TraceIndex i (alpha_depth ap)) (\<lambda>ti.
             let postPosition = NewPosition (alpha_depth ap) (Some (ti + 1))
             in bind_go (alphabet_GetStepData ap postPosition) (\<lambda>(claimBytes, _, _).
                  ok (alphabetStateHash keccak claimBytes))))"

definition alphabet_GetL2BlockNumberChallenge :: "'c go" where
  "alphabet_GetL2BlockNumberChallenge = fail ErrL2BlockNumberValid"

definition AlphabetProvider :: "keccak256 \<Rightarrow> AlphabetTraceProvider \<Rightarrow> 'c TraceProvider" where
  "AlphabetProvider keccak ap =
     \<lparr>prov_Get = alphabet_Get keccak ap, prov_GetStepData = alphabet_GetStepData ap,
      prov_GetL2BlockNumberChallenge = alphabet_GetL2BlockNumberChallenge,
      prov_AbsolutePreStateCommitment = ok (alphabet_AbsolutePreStateCommitment keccak)\<rparr>"

section \<open>What a challenger relies on in a provider\<close>

text \<open>
  \<open>correct i\<close> is the claim value after instruction \<open>i\<close>: the provider answers every position of the tree with
  the value at its trace index, and the pre-state it gives for a step is the pre-image of the value just
  before, up to the status byte that is the first byte of a claim value.
\<close>

definition trace_ok :: "keccak256 \<Rightarrow> Depth \<Rightarrow> 'c TraceProvider \<Rightarrow> (int \<Rightarrow> Hash) \<Rightarrow> bool" where
  "trace_ok keccak D P correct \<longleftrightarrow>
     (\<forall>p. in_tree p \<and> depth p \<le> D \<longrightarrow> prov_Get P p = ok (correct (pos_leaf D p))) \<and>
     (\<forall>p. in_tree p \<and> depth p = D \<longrightarrow>
        (\<exists>prestate proofData orc. prov_GetStepData P p = ok (prestate, proofData, orc) \<and>
          (IndexAtDepth p \<noteq> 0 \<longrightarrow>
             drop 1 (Hash_Bytes (keccak prestate)) = drop 1 (Hash_Bytes (correct (IndexAtDepth p - 1))))))"

lemma trace_ok_Get: "trace_ok keccak D P correct \<Longrightarrow> in_tree p \<Longrightarrow> depth p \<le> D \<Longrightarrow>
    prov_Get P p = ok (correct (pos_leaf D p))"
  unfolding trace_ok_def by blast

lemma trace_ok_GetStepData:
  assumes "trace_ok keccak D P correct" "in_tree p" "depth p = D"
  obtains prestate proofData orc where "prov_GetStepData P p = ok (prestate, proofData, orc)"
    "IndexAtDepth p \<noteq> 0 \<Longrightarrow> drop 1 (Hash_Bytes (keccak prestate)) = drop 1 (Hash_Bytes (correct (IndexAtDepth p - 1)))"
  using assms unfolding trace_ok_def by blast

definition alphabet_ok :: "AlphabetTraceProvider \<Rightarrow> bool" where
  "alphabet_ok ap \<longleftrightarrow> ap = NewTraceProvider (startingBlockNumber ap) (alpha_depth ap) \<and>
     alpha_depth ap < 64 \<and> 0 \<le> startingBlockNumber ap \<and> startingBlockNumber ap < 2 ^ 64"

definition alphabet_state :: "AlphabetTraceProvider \<Rightarrow> int \<Rightarrow> byte list" where
  "alphabet_state ap i =
     (let b = 16 * startingBlockNumber ap + i in be_enc 32 (nat b) @ be_enc 32 (nat (b + 96)))"

definition alphabet_correct :: "keccak256 \<Rightarrow> AlphabetTraceProvider \<Rightarrow> int \<Rightarrow> Hash" where
  "alphabet_correct keccak ap i = alphabetStateHash keccak (alphabet_state ap (i + 1))"

lemma unat_maxLen: "n < 64 \<Longrightarrow> unat (push_bit n (1 :: 64 word)) = 2 ^ n"
  using unat_or_pow [of "0 :: 64 word" n] by simp

lemma pos_leaf_bound: "in_tree p \<Longrightarrow> depth p \<le> D \<Longrightarrow> pos_leaf D p < 2 ^ unat D"
proof -
  assume a: "in_tree p" "depth p \<le> D"
  then have "unat (depth p) + (unat D - unat (depth p)) = unat D" by (simp add: word_le_nat_alt)
  then have w: "(2::int) ^ unat D = 2 ^ unat (depth p) * 2 ^ (unat D - unat (depth p))" by (metis power_add)
  have "IndexAtDepth p + 1 \<le> 2 ^ unat (depth p)" using a by (simp add: in_tree_def)
  then have "(IndexAtDepth p + 1) * 2 ^ (unat D - unat (depth p)) \<le> 2 ^ unat (depth p) * 2 ^ (unat D - unat (depth p))"
    by (intro mult_right_mono) simp_all
  with w show ?thesis unfolding pos_leaf_def last_leaf_def by linarith
qed

lemma be_dec_zeros: "be_dec (replicate n 0) = 0"
  by (induction n) (simp_all add: be_dec_def)

lemma alphabet_step:
  assumes "alphabet_ok ap" "0 < i" "i \<le> 2 ^ unat (alpha_depth ap)"
  shows "alphabet_GetStepData ap (NewPosition (alpha_depth ap) (Some i)) =
    ok (alphabet_state ap i, [], Some (NewPreimageOracleData (LocalIndexKey_PreimageKey 4) (big_Bytes (startingBlockNumber ap)) 0))"
proof -
  have d: "unat (alpha_depth ap) < 64" "maxLen ap = push_bit (unat (alpha_depth ap)) 1"
    using assms(1) by (auto simp: alphabet_ok_def NewTraceProvider_def word_less_nat_alt dest: arg_cong [of _ _ maxLen])
  have "(2::int) ^ unat (alpha_depth ap) \<le> 2 ^ 64" using d(1) by (intro power_increasing) simp_all
  with assms have b: "0 \<le> 16 * startingBlockNumber ap + i" "16 * startingBlockNumber ap + i + 96 < 2 ^ 256"
    by (simp_all add: alphabet_ok_def)
  have t: "TraceIndex (NewPosition (alpha_depth ap) (Some i)) (alpha_depth ap) = Inr i"
    by (simp add: TraceIndex_eq pos_leaf_def last_leaf_def position_defs)
  have fill: "FillBytes 32 x = Inr (be_enc 32 (nat x))" if "0 \<le> x" "x < 2 ^ 256" for x
    using that by (simp add: FillBytes_def not_le nat_less_iff)
  have "absolutePrestateInt = 96" by (simp add: absolutePrestateInt_def absolutePrestate_def be_dec_snoc be_dec_zeros)
  then show ?thesis using b assms(2,3) unat_maxLen [OF d(1)]
    by (simp add: alphabet_GetStepData_def t Let_def BuildAlphabetPreimage_def fill alphabet_state_def d(2)
      push_bit_eq_mult L2ClaimBlockNumberLocalIndex_def algebra_simps)
qed

lemma be_dec_eq: "length a = length b \<Longrightarrow> be_dec a = be_dec b \<Longrightarrow> a = b"
  by (metis be_enc_dec)

lemma Hash_Bytes_BytesToHash: "length bs = 32 \<Longrightarrow> Hash_Bytes (BytesToHash bs) = bs"
proof -
  assume l: "length bs = 32"
  have "be_dec bs < 2 ^ LENGTH(256)" using be_dec_bound [of bs] l by simp
  then have "unat (BytesToHash bs) = be_dec bs" using l by (simp add: BytesToHash_def unat_of_nat)
  with l show ?thesis by (intro be_dec_eq) (simp_all add: be_dec_Hash_Bytes)
qed

lemma drop_status [simp]: "drop (Suc 0) (Hash_Bytes (set_status b h)) = drop (Suc 0) (Hash_Bytes h)"
  by (simp add: set_status_def Hash_Bytes_BytesToHash)

lemma alphabet_trace_ok:
  assumes "alphabet_ok ap"
  shows "trace_ok keccak (alpha_depth ap) (AlphabetProvider keccak ap) (alphabet_correct keccak ap)"
  unfolding trace_ok_def
proof (intro conjI allI impI; elim conjE)
  fix p assume p: "in_tree p" "depth p \<le> alpha_depth ap"
  have "0 < pos_leaf (alpha_depth ap) p + 1" using pos_leaf_nonneg [OF p(1), of "alpha_depth ap"] by linarith
  moreover have "pos_leaf (alpha_depth ap) p + 1 \<le> 2 ^ unat (alpha_depth ap)" using pos_leaf_bound [OF p] by linarith
  ultimately show "prov_Get (AlphabetProvider keccak ap) p = ok (alphabet_correct keccak ap (pos_leaf (alpha_depth ap) p))"
    using p(2) alphabet_step [OF assms]
    by (simp add: AlphabetProvider_def alphabet_Get_def TraceIndex_eq linorder_not_less alphabet_correct_def)
next
  fix p assume p: "in_tree p" "depth p = alpha_depth ap"
  show "\<exists>prestate proofData orc. prov_GetStepData (AlphabetProvider keccak ap) p = ok (prestate, proofData, orc) \<and>
      (IndexAtDepth p \<noteq> 0 \<longrightarrow>
        drop 1 (Hash_Bytes (keccak prestate)) = drop 1 (Hash_Bytes (alphabet_correct keccak ap (IndexAtDepth p - 1))))"
  proof (cases "IndexAtDepth p = 0")
    case True
    then show ?thesis using p
      by (simp add: AlphabetProvider_def alphabet_GetStepData_def TraceIndex_eq pos_leaf_def last_leaf_def Let_def)
  next
    case False
    then have i: "0 < IndexAtDepth p" "IndexAtDepth p \<le> 2 ^ unat (alpha_depth ap)" using p by (simp_all add: in_tree_def)
    have "alphabet_GetStepData ap p = alphabet_GetStepData ap (NewPosition (alpha_depth ap) (Some (IndexAtDepth p)))"
      using p(2) by (simp add: alphabet_GetStepData_def TraceIndex_eq pos_leaf_def NewPosition_def IndexAtDepth_def)
    with alphabet_step [OF assms i] show ?thesis
      by (simp add: AlphabetProvider_def alphabet_correct_def alphabetStateHash_def)
  qed
qed

end
