(* ===== verification/Game_Solver.thy ===== *)
theory Game_Solver
  imports Game_Trace
begin

unbundle bit_operations_syntax

text \<open>
  \<open>op-challenger/game/fault/solver\<close>: the honest-claim tracker (\<open>honest_claims.go\<close>), the claim solver
  (\<open>solver.go\<close>), the game solver (\<open>game_solver.go\<close>) and the rules its actions are checked against
  (\<open>rules.go\<close>).  The trace accessor, the provider of the correct trace and \<open>keccak\<close> are parameters.  The
  tracker, mutated in place by the code, is passed and returned.
\<close>

section \<open>The honest-claim tracker\<close>

record honestClaimTracker =
  agreed :: "ClaimID \<rightharpoonup> bool"
  counters :: "ClaimID \<rightharpoonup> Claim"

definition newHonestClaimTracker :: honestClaimTracker where
  "newHonestClaimTracker = \<lparr>agreed = Map.empty, counters = Map.empty\<rparr>"

definition AddHonestClaim :: "keccak256 \<Rightarrow> Claim \<Rightarrow> Claim \<Rightarrow> honestClaimTracker \<Rightarrow> honestClaimTracker" where
  "AddHonestClaim keccak par c a =
     (let a = a\<lparr>agreed := (agreed a)(ID keccak c \<mapsto> True)\<rparr>
      in if par \<noteq> noClaim then a\<lparr>counters := (counters a)(ID keccak par \<mapsto> c)\<rparr> else a)"

definition IsHonest :: "keccak256 \<Rightarrow> honestClaimTracker \<Rightarrow> Claim \<Rightarrow> bool" where
  "IsHonest keccak a c \<longleftrightarrow> agreed a (ID keccak c) = Some True"

definition HonestCounter :: "keccak256 \<Rightarrow> honestClaimTracker \<Rightarrow> Claim \<Rightarrow> Claim option" where
  "HonestCounter keccak a par = counters a (ID keccak par)"

section \<open>The claim solver\<close>

record 'c claimSolver =
  sol_trace :: "'c TraceAccessor"
  gameDepth :: Depth

definition newClaimSolver :: "Depth \<Rightarrow> 'c TraceAccessor \<Rightarrow> 'c claimSolver" where
  "newClaimSolver d tr = \<lparr>sol_trace = tr, gameDepth = d\<rparr>"

definition shouldCounter :: "keccak256 \<Rightarrow> gameState \<Rightarrow> Claim \<Rightarrow> honestClaimTracker \<Rightarrow> bool go" where
  "shouldCounter keccak g c honestClaims =
     (if IsHonest keccak honestClaims c then ok False
      else if IsRoot c then ok True
      else bind_go (wrap_go ''no parent for claim'' (lift_go (GetParent g c))) (\<lambda>par.
        if IsHonest keccak honestClaims par then ok True
        else case HonestCounter keccak honestClaims par of
            None \<Rightarrow> ok False
          | Some counter \<Rightarrow>
              bind_res (TraceIndex (Pos counter) (MaxDepth g)) (\<lambda>honestIdx.
              bind_res (TraceIndex (Pos c) (MaxDepth g)) (\<lambda>claimIdx. ok (claimIdx \<le> honestIdx)))))"

definition agreeWithClaim :: "'c claimSolver \<Rightarrow> gameState \<Rightarrow> Claim \<Rightarrow> bool go" where
  "agreeWithClaim s g c = bind_go (acc_Get (sol_trace s) g c (Pos c)) (\<lambda>ourValue. ok (ourValue = Value c))"

definition attack :: "'c claimSolver \<Rightarrow> gameState \<Rightarrow> Claim \<Rightarrow> Claim option go" where
  "attack s g c =
     (let position = Attack (Pos c)
      in bind_go (wrap_go ''attack claim'' (acc_Get (sol_trace s) g c position)) (\<lambda>v.
           ok (Some (noClaim\<lparr>Value := v, Pos := position, ParentContractIndex := ContractIndex c\<rparr>))))"

definition defend :: "'c claimSolver \<Rightarrow> gameState \<Rightarrow> Claim \<Rightarrow> Claim option go" where
  "defend s g c =
     (if IsRoot c then ok None
      else let position = Defend (Pos c)
           in bind_go (wrap_go ''defend claim'' (acc_Get (sol_trace s) g c position)) (\<lambda>v.
                ok (Some (noClaim\<lparr>Value := v, Pos := position, ParentContractIndex := ContractIndex c\<rparr>))))"

definition NextMove :: "keccak256 \<Rightarrow> 'c claimSolver \<Rightarrow> Claim \<Rightarrow> gameState \<Rightarrow> honestClaimTracker \<Rightarrow> Claim option go" where
  "NextMove keccak s c g honestClaims =
     (if depth (Pos c) = gameDepth s then fail ErrGameDepthReached
      else bind_go (wrap_go ''failed to determine if claim should be countered''
              (shouldCounter keccak g c honestClaims)) (\<lambda>counter.
        if \<not> counter then ok None
        else bind_go (agreeWithClaim s g c) (\<lambda>agree. if agree then defend s g c else attack s g c)))"

record StepData =
  LeafClaim :: Claim
  StIsAttack :: bool
  StPreState :: "byte list"
  StProofData :: "byte list"
  StOracleData :: "PreimageOracleData option"

definition AttemptStep :: "keccak256 \<Rightarrow> 'c claimSolver \<Rightarrow> gameState \<Rightarrow> Claim \<Rightarrow> honestClaimTracker \<Rightarrow> StepData option go" where
  "AttemptStep keccak s g c honestClaims =
     (if depth (Pos c) \<noteq> gameDepth s then fail ErrStepNonLeafNode
      else bind_go (wrap_go ''failed to determine if claim should be countered''
              (shouldCounter keccak g c honestClaims)) (\<lambda>counter.
        if \<not> counter then ok None
        else bind_go (agreeWithClaim s g c) (\<lambda>claimCorrect.
          let position = (if \<not> claimCorrect then Pos c else MoveRight (Pos c))
          in bind_go (acc_GetStepData (sol_trace s) g c position) (\<lambda>(preState, proofData, oracleData).
               ok (Some \<lparr>LeafClaim = c, StIsAttack = (\<not> claimCorrect), StPreState = preState,
                         StProofData = proofData, StOracleData = oracleData\<rparr>)))))"

section \<open>The game solver\<close>

definition calculateStep ::
  "keccak256 \<Rightarrow> 'c claimSolver \<Rightarrow> gameState \<Rightarrow> Claim \<Rightarrow> honestClaimTracker \<Rightarrow> 'c Action option go" where
  "calculateStep keccak s g c agreedClaims =
     (if CounteredBy c \<noteq> 0 then ok None
      else bind_go (AttemptStep keccak s g c agreedClaims) (\<lambda>st.
        case st of
          None \<Rightarrow> ok None
        | Some st \<Rightarrow> ok (Some \<lparr>Type = ActionTypeStep, ParentClaim = LeafClaim st, IsAttack = StIsAttack st, ActValue = 0,
            PreState = StPreState st, ProofData = StProofData st, OracleData = StOracleData st,
            InvalidL2BlockNumberChallenge = None\<rparr>)))"

definition calculateMove ::
  "keccak256 \<Rightarrow> 'c claimSolver \<Rightarrow> gameState \<Rightarrow> Claim \<Rightarrow> honestClaimTracker \<Rightarrow>
     ('c Action option \<times> honestClaimTracker) go" where
  "calculateMove keccak s g c honestClaims =
     bind_go (wrap_go ''failed to calculate next move for claim index'' (NextMove keccak s c g honestClaims)) (\<lambda>mv.
       case mv of
         None \<Rightarrow> ok (None, honestClaims)
       | Some mv \<Rightarrow>
           let honestClaims' = AddHonestClaim keccak c mv honestClaims
           in if IsDuplicate keccak g mv then ok (None, honestClaims')
              else if int (length (claims g)) \<le> ParentContractIndex mv \<or> ParentContractIndex mv < 0 then Inl IndexOutOfRange
              else ok (Some \<lparr>Type = ActionTypeMove, ParentClaim = claims g ! nat (ParentContractIndex mv),
                     IsAttack = (\<not> DefendsParent g mv), ActValue = Value mv, PreState = [], ProofData = [],
                     OracleData = None, InvalidL2BlockNumberChallenge = None\<rparr>, honestClaims'))"

definition claim_action ::
  "keccak256 \<Rightarrow> 'c claimSolver \<Rightarrow> gameState \<Rightarrow> Claim \<Rightarrow> honestClaimTracker \<Rightarrow>
     ('c Action option \<times> honestClaimTracker) go" where
  "claim_action keccak s g c agreedClaims =
     (if depth (Pos c) = MaxDepth g then
        bind_go (calculateStep keccak s g c agreedClaims) (\<lambda>act. ok (act, agreedClaims))
      else calculateMove keccak s g c agreedClaims)"

text \<open>The loop over the claims; an error ends it and the actions found so far are returned with it.\<close>

fun actions_loop ::
  "keccak256 \<Rightarrow> 'c claimSolver \<Rightarrow> gameState \<Rightarrow> Claim list \<Rightarrow> honestClaimTracker \<Rightarrow> 'c Action list \<Rightarrow>
     ('c Action list \<times> game_error option) res" where
  "actions_loop keccak s g [] agreedClaims actions = Inr (actions, None)"
| "actions_loop keccak s g (c # cs) agreedClaims actions =
     (case claim_action keccak s g c agreedClaims of
        Inl p \<Rightarrow> Inl p
      | Inr (Inl e) \<Rightarrow> Inr (actions, Some (Errorf ''failed to determine response to claim'' (Some e)))
      | Inr (Inr (act, agreedClaims')) \<Rightarrow>
          actions_loop keccak s g cs agreedClaims' (case act of None \<Rightarrow> actions | Some a \<Rightarrow> actions @ [a]))"

definition AgreeWithRootClaim :: "'c claimSolver \<Rightarrow> gameState \<Rightarrow> bool go" where
  "AgreeWithRootClaim s g = (case claims g of [] \<Rightarrow> Inl IndexOutOfRange | c # _ \<Rightarrow> agreeWithClaim s g c)"

definition process_claims ::
  "keccak256 \<Rightarrow> 'c claimSolver \<Rightarrow> gameState \<Rightarrow> bool \<Rightarrow> ('c Action list \<times> game_error option) res" where
  "process_claims keccak s g agreeWithRootClaim =
     (let agreedClaims = newHonestClaimTracker;
          agreedClaims = (if agreeWithRootClaim then AddHonestClaim keccak noClaim (claims g ! 0) agreedClaims
                          else agreedClaims)
      in actions_loop keccak s g (claims g) agreedClaims [])"

definition CalculateNextActions ::
  "keccak256 \<Rightarrow> 'c claimSolver \<Rightarrow> gameState \<Rightarrow> ('c Action list \<times> game_error option) res" where
  "CalculateNextActions keccak s g =
     (case AgreeWithRootClaim s g of
        Inl p \<Rightarrow> Inl p
      | Inr (Inl e) \<Rightarrow> Inr ([], Some (Errorf ''failed to determine if root claim is correct'' (Some e)))
      | Inr (Inr agreeWithRootClaim) \<Rightarrow>
          if agreeWithRootClaim then
            (case acc_GetL2BlockNumberChallenge (sol_trace s) g of
               Inl p \<Rightarrow> Inl p
             | Inr (Inl e) \<Rightarrow>
                 if errors_Is e ErrL2BlockNumberValid then process_claims keccak s g agreeWithRootClaim
                 else Inr ([], Some (Errorf ''failed to determine L2 block validity'' (Some e)))
             | Inr (Inr challenge) \<Rightarrow>
                 Inr ([\<lparr>Type = ActionTypeChallengeL2BlockNumber, ParentClaim = noClaim, IsAttack = False, ActValue = 0,
                        PreState = [], ProofData = [], OracleData = None,
                        InvalidL2BlockNumberChallenge = Some challenge\<rparr>], None))
          else process_claims keccak s g agreeWithRootClaim)"

end
