(* ===== verification/Game_Rules.thy ===== *)
theory Game_Rules
  imports Game_Solver
begin

unbundle bit_operations_syntax

text \<open>
  The action rules of \<open>op-challenger/game/fault/solver/rules.go\<close>.  A rule returns an error or \<open>nil\<close>
  (\<^typ>\<open>game_error option\<close>), may panic, and \<open>None\<close> is a walk up the claims that does not end.
\<close>

type_synonym rule_result = "game_error option res option"
type_synonym 'c actionRule = "gameState \<Rightarrow> 'c Action \<Rightarrow> 'c TraceProvider \<Rightarrow> rule_result"

abbreviation passes :: rule_result where "passes \<equiv> Some (Inr None)"
abbreviation violates :: "string \<Rightarrow> rule_result" where "violates msg \<equiv> Some (Inr (Some (Errorf msg None)))"

text \<open>\<open>game.Claims()[action.ParentClaim.ContractIndex]\<close>\<close>

definition parent_claim :: "gameState \<Rightarrow> 'c Action \<Rightarrow> Claim res" where
  "parent_claim g a =
     (let i = ContractIndex (ParentClaim a)
      in if i < 0 \<or> int (length (claims g)) \<le> i then Inl IndexOutOfRange else Inr (claims g ! nat i))"

definition run_res :: "'a res \<Rightarrow> ('a \<Rightarrow> rule_result) \<Rightarrow> rule_result" where
  "run_res m f = (case m of Inl p \<Rightarrow> Some (Inl p) | Inr x \<Rightarrow> f x)"

lemma run_res_simps [simp]: "run_res (Inl p) f = Some (Inl p)" "run_res (Inr x) f = f x"
  by (simp_all add: run_res_def)

definition run_go :: "'a go option \<Rightarrow> ('a \<Rightarrow> rule_result) \<Rightarrow> rule_result" where
  "run_go m f = (case m of None \<Rightarrow> None | Some (Inl p) \<Rightarrow> Some (Inl p) | Some (Inr (Inl e)) \<Rightarrow> Some (Inr (Some e))
     | Some (Inr (Inr x)) \<Rightarrow> f x)"

lemma run_go_simps [simp]:
  "run_go None f = None" "run_go (Some (Inl p)) f = Some (Inl p)"
  "run_go (Some (fail e)) f = Some (Inr (Some e))" "run_go (Some (ok x)) f = f x"
  by (simp_all add: run_go_def)

definition resultingPosition :: "gameState \<Rightarrow> 'c Action \<Rightarrow> Position res" where
  "resultingPosition g a =
     bind_res (parent_claim g a) (\<lambda>p.
       let parentPos = Pos p
       in Inr (if Type a = ActionTypeStep then parentPos
               else if IsAttack a then Attack parentPos else Defend parentPos))"

definition parentMustExist :: "'c actionRule" where
  "parentMustExist g a _ =
     (if int (length (claims g)) \<le> ContractIndex (ParentClaim a) \<or> ContractIndex (ParentClaim a) < 0
      then violates ''parent claim does not exist in game'' else passes)"

definition onlyStepAtMaxDepth :: "'c actionRule" where
  "onlyStepAtMaxDepth g a _ =
     (if Type a = ActionTypeStep then passes
      else run_res (parent_claim g a) (\<lambda>p.
        if MaxDepth g \<le> depth (Pos p) then violates ''parent at max depth but attempting to perform action instead of step''
        else passes))"

definition onlyMoveBeforeMaxDepth :: "'c actionRule" where
  "onlyMoveBeforeMaxDepth g a _ =
     (if Type a = ActionTypeMove then passes
      else run_res (parent_claim g a) (\<lambda>p.
        if depth (Pos p) < MaxDepth g then violates ''parent not at max depth but attempting to perform action instead of move''
        else passes))"

definition doNotDuplicateExistingMoves :: "keccak256 \<Rightarrow> 'c actionRule" where
  "doNotDuplicateExistingMoves keccak g a _ =
     run_res (resultingPosition g a) (\<lambda>pos.
       if IsDuplicate keccak g (noClaim\<lparr>Value := ActValue a, Pos := pos,
            ParentContractIndex := ContractIndex (ParentClaim a)\<rparr>)
       then violates ''creating duplicate claim'' else passes)"

definition doNotStepAlreadyCounteredClaims :: "'c actionRule" where
  "doNotStepAlreadyCounteredClaims g a _ =
     run_res (parent_claim g a) (\<lambda>c.
       if CounteredBy c \<noteq> 0 then violates ''attempting to step already countered claim'' else passes)"

definition doNotDefendRootClaim :: "'c actionRule" where
  "doNotDefendRootClaim g a _ =
     run_res (parent_claim g a) (\<lambda>c.
       if IsRootPosition (Pos c) \<and> \<not> IsAttack a then violates ''defending the root claim'' else passes)"

definition challengerAddr :: Address where
  "challengerAddr = BytesToAddress (replicate 20 0xaa)"

definition doNotCounterSelf :: "'c actionRule" where
  "doNotCounterSelf g a _ =
     run_res (parent_claim g a) (\<lambda>c.
       if Claimant c = challengerAddr then violates ''countering own claim'' else passes)"

text \<open>The walk of \<open>avoidPoisonedPrestate\<close>: the ancestor of largest trace index left of the honest claim.\<close>

partial_function (option) prestate_walk :: "gameState \<Rightarrow> int \<Rightarrow> Claim \<Rightarrow> Claim \<Rightarrow> Claim go option" where
  "prestate_walk g honestTraceIndex c preStateClaim =
     (case TraceIndex (Pos c) (MaxDepth g) of
        Inl p \<Rightarrow> Some (Inl p)
      | Inr claimTraceIdx \<Rightarrow>
          (case (if claimTraceIdx < honestTraceIndex then
                   if preStateClaim = noClaim then Inr c
                   else bind_res (TraceIndex (Pos preStateClaim) (MaxDepth g)) (\<lambda>t.
                          Inr (if t < claimTraceIdx then c else preStateClaim))
                 else Inr preStateClaim) of
             Inl p \<Rightarrow> Some (Inl p)
           | Inr preStateClaim' \<Rightarrow>
               if IsRoot c then Some (ok preStateClaim')
               else (case GetParent g c of
                       Inl e \<Rightarrow> Some (fail (Errorf ''no parent of claim'' (Some e)))
                     | Inr par \<Rightarrow> prestate_walk g honestTraceIndex par preStateClaim')))"

definition correct_at :: "'c TraceProvider \<Rightarrow> Claim \<Rightarrow> (bool \<Rightarrow> rule_result) \<Rightarrow> rule_result" where
  "correct_at correctTrace c f =
     run_go (Some (wrap_go ''failed to get correct trace at position'' (prov_Get correctTrace (Pos c)))) (\<lambda>v. f (v = Value c))"

definition avoidPoisonedPrestate :: "'c actionRule" where
  "avoidPoisonedPrestate g a correctTrace =
     (if Type a = ActionTypeStep then passes
      else
        run_res (resultingPosition g a) (\<lambda>movePosition.
        run_res (TraceIndex movePosition (MaxDepth g)) (\<lambda>honestTraceIndex.
        run_res (parent_claim g a) (\<lambda>c.
        run_go (prestate_walk g honestTraceIndex c noClaim) (\<lambda>preStateClaim.
          if preStateClaim = noClaim then passes
          else correct_at correctTrace preStateClaim (\<lambda>valid.
            if \<not> valid then violates ''prestate poisoned'' else passes))))))"

definition detectFailedStep :: "'c actionRule" where
  "detectFailedStep g a correctTrace =
     (if Type a \<noteq> ActionTypeStep then passes
      else
        run_res (resultingPosition g a) (\<lambda>position.
        if depth position \<noteq> MaxDepth g then passes
        else
          run_res (TraceIndex position (MaxDepth g)) (\<lambda>honestTraceIndex.
          let poststateIndex = (if \<not> IsAttack a then honestTraceIndex + 1 else honestTraceIndex)
          in run_res (parent_claim g a) (\<lambda>c.
             run_go (map_option (map_sum id Inr) (AncestorWithTraceIndex g c poststateIndex)) (\<lambda>(poststateClaim, found).
               if \<not> found then violates ''did not find required poststate to counter claim''
               else correct_at correctTrace poststateClaim (\<lambda>validStep.
                 let parentPostAgree = ((depth (Pos c) - depth (Pos poststateClaim)) mod 2 = 0)
                 in if parentPostAgree = validStep then violates ''failed step'' else passes))))))"

definition detectPoisonedStepPrestate :: "keccak256 \<Rightarrow> 'c actionRule" where
  "detectPoisonedStepPrestate keccak g a correctTrace =
     run_res (resultingPosition g a) (\<lambda>position.
     if depth position \<noteq> MaxDepth g then passes
     else
       run_res (TraceIndex position (MaxDepth g)) (\<lambda>honestTraceIndex.
       let prestateIndex = (if IsAttack a \<or> Type a = ActionTypeMove then honestTraceIndex - 1 else honestTraceIndex)
       in if prestateIndex < 0 then passes
          else
            run_res (parent_claim g a) (\<lambda>c.
            run_go (map_option (map_sum id Inr) (AncestorWithTraceIndex g c prestateIndex)) (\<lambda>(preStateClaim, found).
              if \<not> found then violates ''performing step with no prestate available''
              else correct_at correctTrace preStateClaim (\<lambda>valid.
                if \<not> valid then violates ''poisoned prestate''
                else if Type a = ActionTypeStep \<and>
                     drop 1 (Hash_Bytes (keccak (PreState a))) \<noteq> drop 1 (Hash_Bytes (Value preStateClaim))
                then violates ''prestate hash does not match expected prestate claim''
                else passes)))))"

definition rules :: "keccak256 \<Rightarrow> 'c actionRule list" where
  "rules keccak =
     [parentMustExist, onlyStepAtMaxDepth, onlyMoveBeforeMaxDepth, doNotDuplicateExistingMoves keccak,
      doNotStepAlreadyCounteredClaims, doNotDefendRootClaim, avoidPoisonedPrestate,
      detectPoisonedStepPrestate keccak, detectFailedStep, doNotCounterSelf]"

text \<open>\<open>checkRules\<close>: every rule is run and the errors are joined.\<close>

fun join_rules :: "'c actionRule list \<Rightarrow> gameState \<Rightarrow> 'c Action \<Rightarrow> 'c TraceProvider \<Rightarrow> game_error list res option" where
  "join_rules [] g a t = Some (Inr [])"
| "join_rules (r # rs) g a t =
     (case r g a t of
        None \<Rightarrow> None
      | Some (Inl p) \<Rightarrow> Some (Inl p)
      | Some (Inr err) \<Rightarrow>
          (case join_rules rs g a t of
             Some (Inr errs) \<Rightarrow> Some (Inr (case err of None \<Rightarrow> errs | Some e \<Rightarrow> e # errs))
           | r' \<Rightarrow> r'))"

definition checkRules :: "keccak256 \<Rightarrow> gameState \<Rightarrow> 'c Action \<Rightarrow> 'c TraceProvider \<Rightarrow> game_error list res option" where
  "checkRules keccak g a correctTrace = join_rules (rules keccak) g a correctTrace"

lemma join_rules_pass: "list_all (\<lambda>r. r g a t = passes) rs \<Longrightarrow> join_rules rs g a t = Some (Inr [])"
  by (induction rs) simp_all

end
