(* ===== verification/Game_Safety.thy ===== *)
theory Game_Safety
  imports Game_Rules
begin

unbundle bit_operations_syntax

text \<open>
  The challenger obeys the rules of \<open>rules.go\<close>.  The tracker's claims and the claims the solver answers
  satisfy an invariant over their ancestors: the neighbour on the left is truthful, and whether the
  neighbour on the right is truthful depends on the parity of the distance only.
\<close>

section \<open>Truthful claims and their neighbours\<close>

definition truthful :: "(int \<Rightarrow> Hash) \<Rightarrow> gameState \<Rightarrow> Claim \<Rightarrow> bool" where
  "truthful correct g c \<longleftrightarrow> Value c = correct (pos_leaf (MaxDepth g) (Pos c))"

definition left_ok :: "(int \<Rightarrow> Hash) \<Rightarrow> gameState \<Rightarrow> Claim \<Rightarrow> bool" where
  "left_ok correct g c \<longleftrightarrow> (\<forall>ps. ancestry (getParent g) (c # ps) \<longrightarrow>
     (\<forall>a \<in> set ps. pos_leaf (MaxDepth g) (Pos a) = pos_leaf (MaxDepth g) (Pos c) - span (MaxDepth g) (Pos c) \<longrightarrow>
        truthful correct g a))"

definition right_ok :: "bool \<Rightarrow> (int \<Rightarrow> Hash) \<Rightarrow> gameState \<Rightarrow> Claim \<Rightarrow> bool" where
  "right_ok b correct g c \<longleftrightarrow> (\<forall>ps. ancestry (getParent g) (c # ps) \<longrightarrow>
     (\<forall>a \<in> set ps. pos_leaf (MaxDepth g) (Pos a) = pos_leaf (MaxDepth g) (Pos c) + span (MaxDepth g) (Pos c) \<longrightarrow>
        (truthful correct g a \<longleftrightarrow> odd (unat (depth (Pos c)) + unat (depth (Pos a))) = b)))"

definition honest_ok :: "(int \<Rightarrow> Hash) \<Rightarrow> gameState \<Rightarrow> Claim \<Rightarrow> bool" where
  "honest_ok correct g c \<longleftrightarrow> truthful correct g c \<and> left_ok correct g c \<and> right_ok False correct g c"

definition worth_ok :: "(int \<Rightarrow> Hash) \<Rightarrow> gameState \<Rightarrow> Claim \<Rightarrow> bool" where
  "worth_ok correct g c \<longleftrightarrow> left_ok correct g c \<and>
     (truthful correct g c \<longrightarrow> right_ok True correct g c \<and> \<not> IsRoot c)"

text \<open>The response the honest challenger makes to a claim, and the claim a step is checked as.\<close>

definition honest_position :: "(int \<Rightarrow> Hash) \<Rightarrow> gameState \<Rightarrow> Claim \<Rightarrow> Position" where
  "honest_position correct g c = (if truthful correct g c then Defend (Pos c) else Attack (Pos c))"

definition honest_move :: "(int \<Rightarrow> Hash) \<Rightarrow> gameState \<Rightarrow> Claim \<Rightarrow> Claim" where
  "honest_move correct g c = noClaim\<lparr>Value := correct (pos_leaf (MaxDepth g) (honest_position correct g c)),
     Pos := honest_position correct g c, ParentContractIndex := ContractIndex c\<rparr>"

definition step_claim :: "Claim \<Rightarrow> Claim" where
  "step_claim c = noClaim\<lparr>Value := 0, Pos := Pos c, ParentContractIndex := ContractIndex c\<rparr>"

text \<open>
  The identifiers separate the claims of the game from each other, from the honest responses that differ
  from them, and from the claims steps are checked as.
\<close>

definition same_claim :: "Claim \<Rightarrow> Claim \<Rightarrow> bool" where
  "same_claim a b \<longleftrightarrow> ToGIndex (Pos a) = ToGIndex (Pos b) \<and> Value a = Value b \<and>
     ParentContractIndex a = ParentContractIndex b"

definition ids_separate :: "keccak256 \<Rightarrow> (int \<Rightarrow> Hash) \<Rightarrow> gameState \<Rightarrow> bool" where
  "ids_separate keccak correct g \<longleftrightarrow> distinct (map (ID keccak) (claims g)) \<and>
     (\<forall>c \<in> set (claims g). \<forall>c' \<in> set (claims g).
        (ID keccak (honest_move correct g c) = ID keccak c' \<longrightarrow> same_claim (honest_move correct g c) c') \<and>
        ID keccak (step_claim c) \<noteq> ID keccak c')"

definition setting :: "keccak256 \<Rightarrow> gameState \<Rightarrow> 'c TraceProvider \<Rightarrow> (int \<Rightarrow> Hash) \<Rightarrow> bool" where
  "setting keccak g P correct \<longleftrightarrow> game_wf keccak g \<and> trace_ok keccak (MaxDepth g) P correct \<and>
     ids_separate keccak correct g"

lemma settingD:
  assumes "setting keccak g P correct"
  shows "game_wf keccak g" "trace_ok keccak (MaxDepth g) P correct" "ids_separate keccak correct g"
  using assms by (simp_all add: setting_def)

lemma ID_same: "same_claim a b \<Longrightarrow> ID keccak a = ID keccak b"
  by (simp add: same_claim_def ID_def ID_preimage_def)

section \<open>Children and their parents\<close>

text \<open>What a claim with a parent in the game knows of both.\<close>

lemma child_facts:
  assumes "game_wf keccak g" "c \<in> set (claims g)" "getParent g c = Some p"
  shows "p \<in> set (claims g)" "depth (Pos p) < MaxDepth g" "responds (Pos p) (Pos c)" "\<not> IsRoot c"
    "ParentContractIndex c = ContractIndex p" "even (IndexAtDepth (Pos p))"
    "unat (depth (Pos c)) = Suc (unat (depth (Pos p)))"
    "span (MaxDepth g) (Pos p) = 2 * span (MaxDepth g) (Pos c)"
proof -
  from getParent_wf [OF assms(1,2)] assms(3)
  show p: "p \<in> set (claims g)" "depth (Pos p) < MaxDepth g" "responds (Pos p) (Pos c)" "\<not> IsRoot c"
    "ParentContractIndex c = ContractIndex p" by auto
  show "even (IndexAtDepth (Pos p))" using claim_in_tree [OF assms(1) p(1)] by simp
  have d: "depth (Pos c) = depth (Pos p) + 1" using p(3) by (auto simp: responds_def)
  then show "unat (depth (Pos c)) = Suc (unat (depth (Pos p)))" using p(2) by (simp add: unat_Suc_depth)
  show "span (MaxDepth g) (Pos p) = 2 * span (MaxDepth g) (Pos c)" using d p(2) by (rule span_step [rotated])
qed

lemma response_leaf:
  assumes "depth p < D" "even (IndexAtDepth p)"
  shows "q = Attack p \<Longrightarrow> pos_leaf D q = pos_leaf D p - span D q"
    and "q = Defend p \<Longrightarrow> pos_leaf D q = pos_leaf D p + span D q"
  using pos_leaf_Attack pos_leaf_Defend assms by auto

lemma ancestry_parent:
  assumes "getParent g c = Some p" "ancestry (getParent g) (c # ps)"
  obtains qs where "ps = p # qs" "ancestry (getParent g) (p # qs)"
  using assms by (auto elim: ancestry_ConsE)

lemma ancestor_leaf_unique:
  assumes "game_wf keccak g" "p \<in> set (claims g)" "ancestry (getParent g) (p # qs)" "a \<in> set qs"
  shows "pos_leaf (MaxDepth g) (Pos a) \<noteq> pos_leaf (MaxDepth g) (Pos p)"
  using line_leaves_distinct [OF ancestry_line [OF assms(1-3)]] assms(4) by (auto simp: image_iff)

lemma left_attack:
  assumes "game_wf keccak g" "c \<in> set (claims g)" "getParent g c = Some p" "Pos c = Attack (Pos p)"
    "left_ok correct g p"
  shows "left_ok correct g c"
  unfolding left_ok_def
proof (intro allI impI ballI)
  note ch = child_facts [OF assms(1-3)]
  note leaf = response_leaf(1) [OF ch(2,6) assms(4)]
  fix ps a assume "ancestry (getParent g) (c # ps)" and a: "a \<in> set ps"
    "pos_leaf (MaxDepth g) (Pos a) = pos_leaf (MaxDepth g) (Pos c) - span (MaxDepth g) (Pos c)"
  from assms(3) this(1) obtain qs where qs: "ps = p # qs" "ancestry (getParent g) (p # qs)" by (rule ancestry_parent)
  have e: "pos_leaf (MaxDepth g) (Pos a) = pos_leaf (MaxDepth g) (Pos p) - span (MaxDepth g) (Pos p)"
    using a(2) leaf ch(8) by simp
  then have "a \<noteq> p" by auto
  with a(1) qs e assms(5) show "truthful correct g a" by (auto simp: left_ok_def)
qed

lemma left_defend:
  assumes "game_wf keccak g" "c \<in> set (claims g)" "getParent g c = Some p" "Pos c = Defend (Pos p)"
    "truthful correct g p"
  shows "left_ok correct g c"
  unfolding left_ok_def
proof (intro allI impI ballI)
  note ch = child_facts [OF assms(1-3)]
  note leaf = response_leaf(2) [OF ch(2,6) assms(4)]
  fix ps a assume "ancestry (getParent g) (c # ps)" and a: "a \<in> set ps"
    "pos_leaf (MaxDepth g) (Pos a) = pos_leaf (MaxDepth g) (Pos c) - span (MaxDepth g) (Pos c)"
  from assms(3) this(1) obtain qs where qs: "ps = p # qs" "ancestry (getParent g) (p # qs)" by (rule ancestry_parent)
  have "pos_leaf (MaxDepth g) (Pos a) = pos_leaf (MaxDepth g) (Pos p)" using a(2) leaf by simp
  with ancestor_leaf_unique [OF assms(1) ch(1) qs(2), of a] a(1) qs(1) have "a = p" by auto
  with assms(5) show "truthful correct g a" by simp
qed

lemma right_attack:
  assumes "game_wf keccak g" "c \<in> set (claims g)" "getParent g c = Some p" "Pos c = Attack (Pos p)"
    "truthful correct g p = b"
  shows "right_ok b correct g c"
  unfolding right_ok_def
proof (intro allI impI ballI)
  note ch = child_facts [OF assms(1-3)]
  note leaf = response_leaf(1) [OF ch(2,6) assms(4)]
  fix ps a assume "ancestry (getParent g) (c # ps)" and a: "a \<in> set ps"
    "pos_leaf (MaxDepth g) (Pos a) = pos_leaf (MaxDepth g) (Pos c) + span (MaxDepth g) (Pos c)"
  from assms(3) this(1) obtain qs where qs: "ps = p # qs" "ancestry (getParent g) (p # qs)" by (rule ancestry_parent)
  have "pos_leaf (MaxDepth g) (Pos a) = pos_leaf (MaxDepth g) (Pos p)" using a(2) leaf by simp
  with ancestor_leaf_unique [OF assms(1) ch(1) qs(2), of a] a(1) qs(1) have "a = p" by auto
  with assms(5) ch(7) show "truthful correct g a \<longleftrightarrow> odd (unat (depth (Pos c)) + unat (depth (Pos a))) = b" by auto
qed

lemma right_defend:
  assumes "game_wf keccak g" "c \<in> set (claims g)" "getParent g c = Some p" "Pos c = Defend (Pos p)"
    "right_ok (\<not> b) correct g p"
  shows "right_ok b correct g c"
  unfolding right_ok_def
proof (intro allI impI ballI)
  note ch = child_facts [OF assms(1-3)]
  note leaf = response_leaf(2) [OF ch(2,6) assms(4)]
  fix ps a assume "ancestry (getParent g) (c # ps)" and a: "a \<in> set ps"
    "pos_leaf (MaxDepth g) (Pos a) = pos_leaf (MaxDepth g) (Pos c) + span (MaxDepth g) (Pos c)"
  from assms(3) this(1) obtain qs where qs: "ps = p # qs" "ancestry (getParent g) (p # qs)" by (rule ancestry_parent)
  have e: "pos_leaf (MaxDepth g) (Pos a) = pos_leaf (MaxDepth g) (Pos p) + span (MaxDepth g) (Pos p)"
    using a(2) leaf ch(8) by simp
  then have "a \<noteq> p" by auto
  with a(1) qs e assms(5) have "truthful correct g a \<longleftrightarrow> odd (unat (depth (Pos p)) + unat (depth (Pos a))) = (\<not> b)"
    by (auto simp: right_ok_def)
  with ch(7) show "truthful correct g a \<longleftrightarrow> odd (unat (depth (Pos c)) + unat (depth (Pos a))) = b" by auto
qed

section \<open>The tracker\<close>

text \<open>
  Everything the tracker holds is honest: a claim of the game it agrees with is truthful and well placed,
  the counter it holds for a claim is the honest response to it, and a truthful root is agreed with.
\<close>

definition tracker_ok :: "keccak256 \<Rightarrow> (int \<Rightarrow> Hash) \<Rightarrow> gameState \<Rightarrow> honestClaimTracker \<Rightarrow> bool" where
  "tracker_ok keccak correct g a \<longleftrightarrow>
     (\<forall>c \<in> set (claims g). IsHonest keccak a c \<longrightarrow> honest_ok correct g c) \<and>
     (\<forall>p \<in> set (claims g). \<forall>m. HonestCounter keccak a p = Some m \<longrightarrow>
        m = honest_move correct g p \<and> worth_ok correct g p \<and> IsHonest keccak a m) \<and>
     (\<forall>c \<in> set (claims g). IsRoot c \<and> truthful correct g c \<longrightarrow> IsHonest keccak a c)"

lemma tracker_okD:
  assumes "tracker_ok keccak correct g a" "c \<in> set (claims g)"
  shows "IsHonest keccak a c \<Longrightarrow> honest_ok correct g c"
    and "HonestCounter keccak a c = Some m \<Longrightarrow> m = honest_move correct g c \<and> worth_ok correct g c \<and> IsHonest keccak a m"
    and "IsRoot c \<Longrightarrow> truthful correct g c \<Longrightarrow> IsHonest keccak a c"
  using assms unfolding tracker_ok_def by blast+

lemma ToGIndex_in_tree_eq:
  "in_tree p \<Longrightarrow> in_tree q \<Longrightarrow> depth p = depth q \<Longrightarrow> IndexAtDepth p = IndexAtDepth q \<Longrightarrow> ToGIndex p = ToGIndex q"
  by (simp add: ToGIndex_eq)

lemma respond_inject:
  assumes "responds p q" "responds p q'" "depth p < D" "even (IndexAtDepth p)" "in_tree q" "in_tree q'"
    "ToGIndex q = ToGIndex q'"
  shows "q = q'"
proof -
  from ToGIndex_inject [OF assms(5,6,7)] have e: "IndexAtDepth q = IndexAtDepth q'" by simp
  have "IndexAtDepth (Attack p) \<noteq> IndexAtDepth (Defend p)" using assms(4) by (elim evenE) simp
  with e assms(1,2) show ?thesis by (auto simp: responds_def)
qed

text \<open>A claim with the identity of the honest response to \<open>p\<close> is honest.\<close>

lemma honest_position_responds:
  assumes "\<not> (truthful correct g p \<and> IsRoot p)"
  shows "responds (Pos p) (honest_position correct g p)"
  using assms by (auto simp: responds_def honest_position_def IsRoot_def)

lemma response_in_tree:
  assumes "game_wf keccak g" "p \<in> set (claims g)" "depth (Pos p) < MaxDepth g" "responds (Pos p) q"
  shows "in_tree q" "depth q \<le> MaxDepth g"
proof -
  obtain ps where ps: "ancestry (getParent g) (p # ps)" using gs.ancestry_exists [OF assms(1,2)] by blast
  from ancestry_line [OF assms(1,2) this] have "line (MaxDepth g) (q # Pos p # map Pos ps)"
    using assms(3,4) by (simp add: line_step)
  from line_facts [OF this] show "in_tree q" "depth q \<le> MaxDepth g" by simp_all
qed

lemma same_child:
  assumes "game_wf keccak g" "p \<in> set (claims g)" "c \<in> set (claims g)" "depth (Pos p) < MaxDepth g"
    "worth_ok correct g p" "same_claim (honest_move correct g p) c" "\<not> IsRoot c"
  shows "getParent g c = Some p \<and> Pos c = honest_position correct g p \<and> truthful correct g c"
proof -
  have par: "ParentContractIndex c = ContractIndex p" "Value c = Value (honest_move correct g p)"
    "ToGIndex (Pos (honest_move correct g p)) = ToGIndex (Pos c)"
    using assms(6) by (simp_all add: same_claim_def honest_move_def)
  from getParent_wf [OF assms(1,3)] assms(7) obtain p' where
    p': "getParent g c = Some p'" "p' \<in> set (claims g)" "ContractIndex p' = ContractIndex p"
    using par(1) by (auto split: option.splits)
  have "p' = p"
  proof -
    from p'(2) assms(2) obtain i j where "i < length (claims g)" "p' = claims g ! i" "j < length (claims g)" "p = claims g ! j"
      by (metis in_set_conv_nth)
    with p'(3) claims_okD(1) [OF game_wf_claims [OF assms(1)]] show ?thesis by auto
  qed
  with p' have gp: "getParent g c = Some p" by simp
  note ch = child_facts [OF assms(1,3) gp]
  have nr: "\<not> (truthful correct g p \<and> IsRoot p)" using assms(5) by (auto simp: worth_ok_def)
  note hr = honest_position_responds [OF nr]
  have "Pos c = honest_position correct g p"
    using respond_inject [OF ch(3) hr ch(2,6)] response_in_tree [OF assms(1,2,4)] ch(3) hr par(3)
    by (simp add: honest_move_def)
  with gp par(2) show ?thesis by (simp add: truthful_def honest_move_def)
qed

lemma same_child_honest:
  assumes "game_wf keccak g" "p \<in> set (claims g)" "c \<in> set (claims g)" "depth (Pos p) < MaxDepth g"
    "worth_ok correct g p" "same_claim (honest_move correct g p) c" "\<not> IsRoot c"
  shows "honest_ok correct g c"
proof -
  from same_child [OF assms] have c: "getParent g c = Some p" "Pos c = honest_position correct g p" "truthful correct g c"
    by simp_all
  show ?thesis
  proof (cases "truthful correct g p")
    case True
    then have "Pos c = Defend (Pos p)" using c(2) by (simp add: honest_position_def)
    with True show ?thesis
      using left_defend [OF assms(1,3) c(1)] right_defend [OF assms(1,3) c(1), of False] assms(5) c(3)
      by (simp add: honest_ok_def worth_ok_def)
  next
    case False
    then have "Pos c = Attack (Pos p)" using c(2) by (simp add: honest_position_def)
    with False show ?thesis
      using left_attack [OF assms(1,3) c(1)] right_attack [OF assms(1,3) c(1), of correct False] assms(5) c(3)
      by (simp add: honest_ok_def worth_ok_def)
  qed
qed

lemma same_claim_depth:
  assumes "same_claim a b" "in_tree (Pos a)" "in_tree (Pos b)"
  shows "depth (Pos a) = depth (Pos b)"
  using ToGIndex_inject [OF assms(2,3)] assms(1) by (simp add: same_claim_def)

lemma IsHonest_Add: "IsHonest keccak (AddHonestClaim keccak p m a) c \<longleftrightarrow> ID keccak c = ID keccak m \<or> IsHonest keccak a c"
  by (simp add: IsHonest_def AddHonestClaim_def Let_def)

lemma HonestCounter_Add:
  "HonestCounter keccak (AddHonestClaim keccak p m a) c =
    (if p \<noteq> noClaim \<and> ID keccak c = ID keccak p then Some m else HonestCounter keccak a c)"
  by (simp add: HonestCounter_def AddHonestClaim_def Let_def)

lemma ids_separateD:
  assumes "ids_separate keccak correct g" "c \<in> set (claims g)" "c' \<in> set (claims g)"
  shows "ID keccak c = ID keccak c' \<Longrightarrow> c = c'"
    and "ID keccak (honest_move correct g c) = ID keccak c' \<Longrightarrow> same_claim (honest_move correct g c) c'"
    and "ID keccak (step_claim c) \<noteq> ID keccak c'"
  using assms by (auto simp: ids_separate_def distinct_map inj_on_def)

lemma honest_move_not_root:
  assumes "game_wf keccak g" "p \<in> set (claims g)" "depth (Pos p) < MaxDepth g" "worth_ok correct g p"
    "c \<in> set (claims g)" "same_claim (honest_move correct g p) c"
  shows "\<not> IsRoot c"
proof -
  have nr: "\<not> (truthful correct g p \<and> IsRoot p)" using assms(4) by (auto simp: worth_ok_def)
  note hr = honest_position_responds [OF nr]
  have "in_tree (Pos (honest_move correct g p))" using response_in_tree(1) [OF assms(1-3) hr] by (simp add: honest_move_def)
  from same_claim_depth [OF assms(6) this] have "depth (Pos c) = depth (honest_position correct g p)"
    using claim_in_tree [OF assms(1,5)] by (simp add: honest_move_def)
  moreover have "depth (honest_position correct g p) = depth (Pos p) + 1" by (simp add: honest_position_def)
  ultimately have "unat (depth (Pos c)) \<noteq> 0" using unat_Suc_depth [OF assms(3)] by simp
  then show ?thesis by (auto simp: IsRoot_def IsRootPosition_def)
qed

lemma tracker_ok_add:
  assumes "setting keccak g P correct" "tracker_ok keccak correct g a" "p \<in> set (claims g)"
    "depth (Pos p) < MaxDepth g" "worth_ok correct g p"
  shows "tracker_ok keccak correct g (AddHonestClaim keccak p (honest_move correct g p) a)"
  unfolding tracker_ok_def
proof (intro conjI ballI impI allI; (elim conjE)?)
  note st = settingD [OF assms(1)]
  let ?m = "honest_move correct g p" let ?a = "AddHonestClaim keccak p ?m a"
  fix c assume c: "c \<in> set (claims g)"
  { assume "IsHonest keccak ?a c"
    then consider "ID keccak ?m = ID keccak c" | "IsHonest keccak a c" by (auto simp: IsHonest_Add)
    then show "honest_ok correct g c"
    proof cases
      case 1
      then have same: "same_claim ?m c" using ids_separateD(2) [OF st(3) assms(3) c] by simp
      show ?thesis using same_child_honest [OF st(1) assms(3) c assms(4,5) same]
          honest_move_not_root [OF st(1) assms(3-5) c same] by simp
    next
      case 2
      then show ?thesis using tracker_okD(1) [OF assms(2) c] by simp
    qed }
  { fix m assume "HonestCounter keccak ?a c = Some m"
    then consider "ID keccak c = ID keccak p" "m = ?m" | "HonestCounter keccak a c = Some m"
      unfolding HonestCounter_Add by (metis option.inject)
    then have "m = honest_move correct g c \<and> worth_ok correct g c \<and> IsHonest keccak ?a m"
    proof cases
      case 1
      from ids_separateD(1) [OF st(3) c assms(3) 1(1)] have "c = p" .
      with 1(2) assms(5) show ?thesis by (simp only: IsHonest_Add) blast
    next
      case 2
      from tracker_okD(2) [OF assms(2) c 2] show ?thesis by (simp only: IsHonest_Add) blast
    qed
    then show "m = honest_move correct g c" "worth_ok correct g c" "IsHonest keccak ?a m" by blast+ }
  { assume "IsRoot c" "truthful correct g c"
    then show "IsHonest keccak ?a c" using tracker_okD(3) [OF assms(2) c] by (simp add: IsHonest_Add) }
qed

section \<open>Claims worth countering\<close>

text \<open>A claim the solver decides to counter has truthful neighbours to work with.\<close>

lemma worth_child_of_honest:
  assumes "game_wf keccak g" "c \<in> set (claims g)" "getParent g c = Some p" "honest_ok correct g p"
  shows "worth_ok correct g c"
proof -
  note ch = child_facts [OF assms(1-3)]
  have p: "truthful correct g p" "left_ok correct g p" "right_ok False correct g p"
    using assms(4) by (simp_all add: honest_ok_def)
  from ch(3) consider "Pos c = Attack (Pos p)" | "Pos c = Defend (Pos p)" by (auto simp: responds_def)
  then show ?thesis
  proof cases
    case 1
    then show ?thesis using left_attack [OF assms(1-3)] right_attack [OF assms(1-3), of correct True] p ch(4)
      by (simp add: worth_ok_def)
  next
    case 2
    then show ?thesis using left_defend [OF assms(1-3)] right_defend [OF assms(1-3), of True] p ch(4)
      by (simp add: worth_ok_def)
  qed
qed

lemma worth_sibling_of_counter:
  assumes "game_wf keccak g" "c \<in> set (claims g)" "getParent g c = Some p" "worth_ok correct g p"
    "\<not> same_claim (honest_move correct g p) c"
    "pos_leaf (MaxDepth g) (Pos c) \<le> pos_leaf (MaxDepth g) (honest_position correct g p)"
  shows "worth_ok correct g c"
proof -
  note ch = child_facts [OF assms(1-3)]
  note leaf = response_leaf [OF ch(2,6)]
  have lie: "\<not> truthful correct g c" if "Pos c = honest_position correct g p"
    using assms(5) that ch(5) by (auto simp: same_claim_def honest_move_def truthful_def)
  from ch(3) consider "Pos c = Attack (Pos p)" | "Pos c = Defend (Pos p)" by (auto simp: responds_def)
  then show ?thesis
  proof cases
    case 1
    have "right_ok True correct g c" if "truthful correct g c"
    proof -
      have "truthful correct g p" using lie that 1 by (cases "truthful correct g p") (simp_all add: honest_position_def)
      then show ?thesis using right_attack [OF assms(1-3) 1, of correct True] by simp
    qed
    moreover have "left_ok correct g c" using left_attack [OF assms(1-3) 1] assms(4) by (simp add: worth_ok_def)
    ultimately show ?thesis using ch(4) by (simp add: worth_ok_def)
  next
    case 2
    have p: "truthful correct g p"
    proof (rule ccontr)
      assume "\<not> truthful correct g p"
      then have "honest_position correct g p = Attack (Pos p)" by (simp add: honest_position_def)
      then have "pos_leaf (MaxDepth g) (Defend (Pos p)) \<le> pos_leaf (MaxDepth g) (Attack (Pos p))" using assms(6) 2 by simp
      with leaf(1) [OF refl] leaf(2) [OF refl] span_pos [of "MaxDepth g" "Attack (Pos p)"]
        span_pos [of "MaxDepth g" "Defend (Pos p)"] show False by linarith
    qed
    then have "\<not> truthful correct g c" using lie 2 by (simp add: honest_position_def)
    moreover have "left_ok correct g c" using left_defend [OF assms(1-3) 2 p] .
    ultimately show ?thesis by (simp add: worth_ok_def)
  qed
qed

lemma TraceIndex_claim:
  "game_wf keccak g \<Longrightarrow> c \<in> set (claims g) \<Longrightarrow> TraceIndex (Pos c) (MaxDepth g) = Inr (pos_leaf (MaxDepth g) (Pos c))"
  using claim_in_tree by (auto simp: TraceIndex_eq linorder_not_less)

lemma shouldCounter_worth:
  assumes "setting keccak g P correct" "tracker_ok keccak correct g a" "c \<in> set (claims g)"
    "shouldCounter keccak g c a = ok True"
  shows "worth_ok correct g c"
proof -
  note st = settingD [OF assms(1)]
  have nh: "\<not> IsHonest keccak a c" using assms(4) by (auto simp: shouldCounter_def)
  show ?thesis
  proof (cases "getParent g c")
    case None
    with no_parent_root [OF st(1) assms(3)] have "IsRoot c" .
    then have "\<not> truthful correct g c" using tracker_okD(3) [OF assms(2,3)] nh by blast
    moreover have "left_ok correct g c" using None by (auto simp: left_ok_def elim: ancestry_ConsE)
    ultimately show ?thesis by (simp add: worth_ok_def)
  next
    case (Some p)
    note ch = child_facts [OF st(1) assms(3) Some]
    show ?thesis
    proof (cases "IsHonest keccak a p")
      case True
      with worth_child_of_honest [OF st(1) assms(3) Some] tracker_okD(1) [OF assms(2) ch(1)] show ?thesis by blast
    next
      case False
      have gp: "GetParent g c = Inr p" using Some by (simp add: GetParent_def)
      obtain m where m: "HonestCounter keccak a p = Some m" using assms(4) nh False ch(4) gp
        by (auto simp: shouldCounter_def lift_go_def split: option.splits)
      note tm = tracker_okD(2) [OF assms(2) ch(1) m]
      have "Pos m = honest_position correct g p" using tm by (simp add: honest_move_def)
      then have "pos_leaf (MaxDepth g) (Pos c) \<le> pos_leaf (MaxDepth g) (honest_position correct g p)"
        using assms(4) nh False ch(4) gp m
        by (auto simp: shouldCounter_def lift_go_def TraceIndex_eq split: if_splits)
      moreover have "\<not> same_claim (honest_move correct g p) c"
        using ID_same [of _ c keccak] nh tm by (auto simp: IsHonest_def)
      ultimately show ?thesis using worth_sibling_of_counter [OF st(1) assms(3) Some] tm by blast
    qed
  qed
qed

section \<open>The actions computed\<close>

abbreviation solver :: "gameState \<Rightarrow> 'c TraceProvider \<Rightarrow> 'c claimSolver" where
  "solver g P \<equiv> newClaimSolver (MaxDepth g) (NewSimpleTraceAccessor P)"

lemma solver_simps [simp]:
  "gameDepth (newClaimSolver d tr) = d" "sol_trace (newClaimSolver d tr) = tr"
  by (simp_all add: newClaimSolver_def)

lemma agreeWithClaim_truthful:
  assumes "setting keccak g P correct" "c \<in> set (claims g)"
  shows "agreeWithClaim (solver g P) g c = ok (truthful correct g c)"
  using trace_ok_Get [OF settingD(2) [OF assms(1)]] claim_in_tree [OF settingD(1) [OF assms(1)] assms(2)]
  by (auto simp: agreeWithClaim_def truthful_def)

lemma NextMove_honest:
  assumes "setting keccak g P correct" "c \<in> set (claims g)" "depth (Pos c) \<noteq> MaxDepth g" "worth_ok correct g c"
    "shouldCounter keccak g c a = ok True"
  shows "NextMove keccak (solver g P) c g a = ok (Some (honest_move correct g c))"
proof -
  note st = settingD [OF assms(1)]
  have lt: "depth (Pos c) < MaxDepth g" using claim_in_tree [OF st(1) assms(2)] assms(3) by (simp add: order.not_eq_order_implies_strict)
  have nr: "\<not> (truthful correct g c \<and> IsRoot c)" using assms(4) by (auto simp: worth_ok_def)
  note hr = honest_position_responds [OF nr]
  have get: "prov_Get P (honest_position correct g c) = ok (correct (pos_leaf (MaxDepth g) (honest_position correct g c)))"
    using trace_ok_Get [OF st(2)] response_in_tree [OF st(1) assms(2) lt hr] by blast
  show ?thesis
  proof (cases "truthful correct g c")
    case True
    then show ?thesis using get assms nr
      by (simp add: NextMove_def agreeWithClaim_truthful [OF assms(1,2)] defend_def Let_def honest_position_def honest_move_def)
  next
    case False
    then show ?thesis using get assms
      by (simp add: NextMove_def agreeWithClaim_truthful [OF assms(1,2)] attack_def Let_def honest_position_def honest_move_def)
  qed
qed

text \<open>The action against a claim, as the solver of a truthful provider computes it.\<close>

definition move_action :: "(int \<Rightarrow> Hash) \<Rightarrow> gameState \<Rightarrow> Claim \<Rightarrow> 'c Action" where
  "move_action correct g c = \<lparr>Type = ActionTypeMove, ParentClaim = c, IsAttack = (\<not> truthful correct g c),
     ActValue = Value (honest_move correct g c), PreState = [], ProofData = [], OracleData = None,
     InvalidL2BlockNumberChallenge = None\<rparr>"

lemma claim_index:
  assumes "game_wf keccak g" "c \<in> set (claims g)"
  shows "0 \<le> ContractIndex c" "ContractIndex c < int (length (claims g))" "claims g ! nat (ContractIndex c) = c"
proof -
  from assms(2) obtain i where "i < length (claims g)" "c = claims g ! i" by (metis in_set_conv_nth)
  with claims_okD(1) [OF game_wf_claims [OF assms(1)]]
  show "0 \<le> ContractIndex c" "ContractIndex c < int (length (claims g))" "claims g ! nat (ContractIndex c) = c" by simp_all
qed

lemma shouldCounter_total:
  assumes "setting keccak g P correct" "tracker_ok keccak correct g a" "c \<in> set (claims g)"
  shows "\<exists>b. shouldCounter keccak g c a = ok b"
proof -
  note st = settingD [OF assms(1)]
  show ?thesis
  proof (cases "getParent g c")
    case None
    with no_parent_root [OF st(1) assms(3)] have "IsRoot c" .
    then show ?thesis by (auto simp: shouldCounter_def)
  next
    case (Some p)
    note ch = child_facts [OF st(1) assms(3) Some]
    have gp: "GetParent g c = Inr p" using Some by (simp add: GetParent_def)
    show ?thesis
    proof (cases "HonestCounter keccak a p")
      case None
      then show ?thesis using gp by (auto simp: shouldCounter_def lift_go_def)
    next
      case m: (Some m)
      note tm = tracker_okD(2) [OF assms(2) ch(1) m]
      then have nr: "\<not> (truthful correct g p \<and> IsRoot p)" by (auto simp: worth_ok_def)
      have "Pos m = honest_position correct g p" using tm by (simp add: honest_move_def)
      then have "TraceIndex (Pos m) (MaxDepth g) = Inr (pos_leaf (MaxDepth g) (Pos m))"
        using response_in_tree(2) [OF st(1) ch(1,2) honest_position_responds [OF nr]]
        by (simp add: TraceIndex_eq linorder_not_less)
      then show ?thesis using gp m TraceIndex_claim [OF st(1) assms(3)] by (auto simp: shouldCounter_def lift_go_def)
    qed
  qed
qed

definition step_action :: "(int \<Rightarrow> Hash) \<Rightarrow> gameState \<Rightarrow> Claim \<Rightarrow> step_data \<Rightarrow> 'c Action" where
  "step_action correct g c data = (case data of (preState, proofData, orcData) \<Rightarrow>
     \<lparr>Type = ActionTypeStep, ParentClaim = c, IsAttack = (\<not> truthful correct g c), ActValue = 0,
      PreState = preState, ProofData = proofData, OracleData = orcData, InvalidL2BlockNumberChallenge = None\<rparr>)"

definition step_position :: "(int \<Rightarrow> Hash) \<Rightarrow> gameState \<Rightarrow> Claim \<Rightarrow> Position" where
  "step_position correct g c = (if truthful correct g c then MoveRight (Pos c) else Pos c)"

definition prestate_matches :: "keccak256 \<Rightarrow> (int \<Rightarrow> Hash) \<Rightarrow> gameState \<Rightarrow> Claim \<Rightarrow> byte list \<Rightarrow> bool" where
  "prestate_matches keccak correct g c prestate \<longleftrightarrow>
     (let i = IndexAtDepth (step_position correct g c)
      in i \<noteq> 0 \<longrightarrow> drop 1 (Hash_Bytes (keccak prestate)) = drop 1 (Hash_Bytes (correct (i - 1))))"

definition good_move :: "keccak256 \<Rightarrow> (int \<Rightarrow> Hash) \<Rightarrow> gameState \<Rightarrow> Claim \<Rightarrow> 'c Action \<Rightarrow> bool" where
  "good_move keccak correct g c x \<longleftrightarrow> c \<in> set (claims g) \<and> depth (Pos c) < MaxDepth g \<and> worth_ok correct g c \<and>
     \<not> IsDuplicate keccak g (honest_move correct g c) \<and> x = move_action correct g c"

definition good_step :: "keccak256 \<Rightarrow> (int \<Rightarrow> Hash) \<Rightarrow> gameState \<Rightarrow> Claim \<Rightarrow> 'c Action \<Rightarrow> bool" where
  "good_step keccak correct g c x \<longleftrightarrow> c \<in> set (claims g) \<and> depth (Pos c) = MaxDepth g \<and> worth_ok correct g c \<and>
     CounteredBy c = 0 \<and>
     (\<exists>data. x = step_action correct g c data \<and> prestate_matches keccak correct g c (fst data))"

definition good_action :: "keccak256 \<Rightarrow> (int \<Rightarrow> Hash) \<Rightarrow> gameState \<Rightarrow> 'c Action \<Rightarrow> bool" where
  "good_action keccak correct g x \<longleftrightarrow> (\<exists>c. good_move keccak correct g c x \<or> good_step keccak correct g c x)"

lemma root_odd_depth: "in_tree p \<Longrightarrow> depth p = 0 \<Longrightarrow> IsRootPosition p"
  by (simp add: in_tree_def IsRootPosition_def)

lemma step_position_in_tree:
  assumes "game_wf keccak g" "c \<in> set (claims g)" "worth_ok correct g c"
  shows "in_tree (step_position correct g c)" "depth (step_position correct g c) = depth (Pos c)"
proof -
  note tr = claim_in_tree [OF assms(1,2)]
  show "depth (step_position correct g c) = depth (Pos c)" by (simp add: step_position_def)
  show "in_tree (step_position correct g c)"
  proof (cases "truthful correct g c")
    case True
    then have "\<not> IsRoot c" using assms(3) by (simp add: worth_ok_def)
    then have "depth (Pos c) \<noteq> 0" using tr root_odd_depth by (auto simp: IsRoot_def)
    then obtain k where k: "unat (depth (Pos c)) = Suc k" by (metis not0_implies_Suc unat_eq_zero)
    obtain j where j: "IndexAtDepth (Pos c) = 2 * j" using tr by (elim conjE evenE)
    have "2 * j < 2 * 2 ^ k" "0 \<le> j" using tr j k by (simp_all add: in_tree_def)
    then have "2 * j + 1 < 2 * 2 ^ k" by presburger
    then show ?thesis using True j k \<open>0 \<le> j\<close> by (simp add: in_tree_def step_position_def)
  next
    case False
    then show ?thesis using tr by (simp add: step_position_def)
  qed
qed

text \<open>The tracker after a claim and after a list of claims.\<close>

definition track_claim ::
  "keccak256 \<Rightarrow> (int \<Rightarrow> Hash) \<Rightarrow> gameState \<Rightarrow> Claim \<Rightarrow> honestClaimTracker \<Rightarrow> honestClaimTracker" where
  "track_claim keccak correct g c a =
     (if depth (Pos c) \<noteq> MaxDepth g \<and> shouldCounter keccak g c a = ok True
      then AddHonestClaim keccak c (honest_move correct g c) a else a)"

fun track_claims ::
  "keccak256 \<Rightarrow> (int \<Rightarrow> Hash) \<Rightarrow> gameState \<Rightarrow> Claim list \<Rightarrow> honestClaimTracker \<Rightarrow> honestClaimTracker" where
  "track_claims keccak correct g [] a = a"
| "track_claims keccak correct g (c # cs) a = track_claims keccak correct g cs (track_claim keccak correct g c a)"

definition initial_tracker :: "keccak256 \<Rightarrow> (int \<Rightarrow> Hash) \<Rightarrow> gameState \<Rightarrow> honestClaimTracker" where
  "initial_tracker keccak correct g =
     (if truthful correct g (claims g ! 0) then AddHonestClaim keccak noClaim (claims g ! 0) newHonestClaimTracker
      else newHonestClaimTracker)"

lemma claim_action_leaf:
  fixes P :: "'c TraceProvider"
  assumes "setting keccak g P correct" "tracker_ok keccak correct g a" "c \<in> set (claims g)"
    "depth (Pos c) = MaxDepth g" "shouldCounter keccak g c a = ok b"
  obtains act where "claim_action keccak (solver g P) g c a = ok (act, a)"
    "\<And>x. act = Some x \<Longrightarrow> b \<and> good_step keccak correct g c x"
proof (cases "CounteredBy c = 0 \<and> b")
  case True
  note st = settingD [OF assms(1)]
  have w: "worth_ok correct g c" using shouldCounter_worth [OF assms(1-3)] assms(5) True by simp
  note sp = step_position_in_tree [OF st(1) assms(3) w]
  obtain prestate proofData orc where d: "prov_GetStepData P (step_position correct g c) = ok (prestate, proofData, orc)"
    "IndexAtDepth (step_position correct g c) \<noteq> 0 \<Longrightarrow>
      drop 1 (Hash_Bytes (keccak prestate)) = drop 1 (Hash_Bytes (correct (IndexAtDepth (step_position correct g c) - 1)))"
    using trace_ok_GetStepData [OF st(2) sp(1)] sp(2) assms(4) by metis
  let ?x = "step_action correct g c (prestate, proofData, orc) :: 'c Action"
  have pm: "prestate_matches keccak correct g c prestate" using d(2) by (simp add: prestate_matches_def Let_def)
  have "claim_action keccak (solver g P) g c a = ok (Some ?x, a)"
    using True assms(4,5) d(1) agreeWithClaim_truthful [OF assms(1,3)]
    by (cases "truthful correct g c")
      (simp_all add: claim_action_def calculateStep_def AttemptStep_def Let_def step_action_def step_position_def)
  moreover have "good_step keccak correct g c ?x"
    unfolding good_step_def using assms(3,4) w True pm
    by (intro conjI exI [of _ "(prestate, proofData, orc)"]) simp_all
  ultimately show thesis using that True by blast
next
  case False
  then have "claim_action keccak (solver g P) g c a = ok (None, a)"
    using assms(4,5) by (auto simp: claim_action_def calculateStep_def AttemptStep_def)
  then show thesis using that by blast
qed

lemma claim_action_inner:
  fixes P :: "'c TraceProvider"
  assumes "setting keccak g P correct" "tracker_ok keccak correct g a" "c \<in> set (claims g)"
    "depth (Pos c) \<noteq> MaxDepth g" "shouldCounter keccak g c a = ok b"
  obtains act where "claim_action keccak (solver g P) g c a = ok (act, track_claim keccak correct g c a)"
    "tracker_ok keccak correct g (track_claim keccak correct g c a)"
    "\<And>x. act = Some x \<Longrightarrow> b \<and> good_move keccak correct g c x"
proof (cases b)
  case True
  note st = settingD [OF assms(1)]
  note tr = claim_in_tree [OF st(1) assms(3)]
  have lt: "depth (Pos c) < MaxDepth g" using tr assms(4) by (simp add: order.not_eq_order_implies_strict)
  have w: "worth_ok correct g c" using shouldCounter_worth [OF assms(1-3)] assms(5) True by simp
  then have nr: "\<not> (truthful correct g c \<and> IsRoot c)" by (auto simp: worth_ok_def)
  let ?m = "honest_move correct g c" let ?x = "move_action correct g c :: 'c Action"
  have a': "track_claim keccak correct g c a = AddHonestClaim keccak c ?m a"
    using assms(4,5) True by (simp add: track_claim_def)
  have nm: "NextMove keccak (solver g P) c g a = ok (Some ?m)"
    using NextMove_honest [OF assms(1,3,4) w] assms(5) True by simp
  have ok': "tracker_ok keccak correct g (track_claim keccak correct g c a)"
    unfolding a' by (rule tracker_ok_add [OF assms(1-3) lt w])
  note idx = claim_index [OF st(1) assms(3)]
  have pm: "ParentContractIndex ?m = ContractIndex c" "Pos ?m = honest_position correct g c"
    by (simp_all add: honest_move_def)
  have "\<not> IsRoot ?m" using responds_not_root [OF honest_position_responds [OF nr] lt] by (simp add: IsRoot_def pm)
  then have gp: "getParent g ?m = Some c" using idx by (simp add: getParent_def pm)
  have dp: "DefendsParent g ?m \<longleftrightarrow> truthful correct g c" using tr
    by (auto simp: DefendsParent_def gp pm RightOf_def parentIndexAtDepth_def honest_position_def elim!: evenE)
  show thesis
  proof (cases "IsDuplicate keccak g ?m")
    case True
    then have "claim_action keccak (solver g P) g c a = ok (None, track_claim keccak correct g c a)"
      using assms(4) nm by (simp add: claim_action_def calculateMove_def Let_def a')
    then show thesis using that ok' by blast
  next
    case False
    then have "claim_action keccak (solver g P) g c a = ok (Some ?x, track_claim keccak correct g c a)"
      using assms(4) nm idx by (simp add: claim_action_def calculateMove_def Let_def pm dp move_action_def a')
    moreover have "good_move keccak correct g c ?x" using False assms(3) lt w by (simp add: good_move_def)
    ultimately show thesis using that ok' \<open>b\<close> by blast
  qed
next
  case False
  then have "claim_action keccak (solver g P) g c a = ok (None, track_claim keccak correct g c a)"
    using assms(4,5) by (simp add: claim_action_def calculateMove_def NextMove_def track_claim_def)
  moreover have "track_claim keccak correct g c a = a" using False assms(5) by (simp add: track_claim_def)
  ultimately show thesis using that assms(2) by simp
qed

lemma claim_action_good:
  fixes P :: "'c TraceProvider"
  assumes "setting keccak g P correct" "tracker_ok keccak correct g a" "c \<in> set (claims g)"
  obtains act where "claim_action keccak (solver g P) g c a = ok (act, track_claim keccak correct g c a)"
    "tracker_ok keccak correct g (track_claim keccak correct g c a)"
    "\<And>x. act = Some x \<Longrightarrow> shouldCounter keccak g c a = ok True \<and>
       (good_move keccak correct g c x \<or> good_step keccak correct g c x)"
proof -
  obtain b where b: "shouldCounter keccak g c a = ok b" using shouldCounter_total [OF assms] by blast
  show thesis
  proof (cases "depth (Pos c) = MaxDepth g")
    case True
    then have "track_claim keccak correct g c a = a" by (simp add: track_claim_def)
    with claim_action_leaf [OF assms True b] that b assms(2) show thesis by (metis (full_types))
  next
    case False
    with claim_action_inner [OF assms False b] that b show thesis by (metis (full_types))
  qed
qed

text \<open>\<open>answers\<close>: the action answers a claim worth countering, met with the tracker of the claims before it.\<close>

definition answers ::
  "keccak256 \<Rightarrow> (int \<Rightarrow> Hash) \<Rightarrow> gameState \<Rightarrow> Claim list \<Rightarrow> honestClaimTracker \<Rightarrow> 'c Action \<Rightarrow> bool" where
  "answers keccak correct g cs a x \<longleftrightarrow> (\<exists>us c vs. cs = us @ c # vs \<and>
     shouldCounter keccak g c (track_claims keccak correct g us a) = ok True \<and>
     (good_move keccak correct g c x \<or> good_step keccak correct g c x))"

lemma actions_loop_good:
  fixes P :: "'c TraceProvider"
  assumes "setting keccak g P correct" "tracker_ok keccak correct g a" "set cs \<subseteq> set (claims g)"
  shows "\<exists>acts'. actions_loop keccak (solver g P) g cs a acts = Inr (acts @ acts', None) \<and>
    list_all (answers keccak correct g cs a) acts'"
  using assms(2,3)
proof (induction cs arbitrary: a acts)
  case Nil
  then show ?case by simp
next
  case (Cons c cs)
  then have c: "c \<in> set (claims g)" by simp
  let ?a = "track_claim keccak correct g c a"
  obtain act where ca: "claim_action keccak (solver g P) g c a = ok (act, ?a)" "tracker_ok keccak correct g ?a"
    "\<And>x. act = Some x \<Longrightarrow> shouldCounter keccak g c a = ok True \<and>
       (good_move keccak correct g c x \<or> good_step keccak correct g c x)"
    using claim_action_good [OF assms(1) Cons.prems(1) c] by blast
  have later: "answers keccak correct g (c # cs) a x" if x: "answers keccak correct g cs ?a x" for x
  proof -
    from x obtain us d vs where "cs = us @ d # vs" "shouldCounter keccak g d (track_claims keccak correct g us ?a) = ok True"
      "good_move keccak correct g d x \<or> good_step keccak correct g d x" by (auto simp: answers_def)
    then show ?thesis unfolding answers_def by (intro exI [of _ "c # us"] exI [of _ d] exI [of _ vs]) simp
  qed
  have now: "answers keccak correct g (c # cs) a x" if "act = Some x" for x
    unfolding answers_def using ca(3) [OF that] by (intro exI [of _ "[]"] exI [of _ c] exI [of _ cs]) simp
  let ?acts = "case act of None \<Rightarrow> acts | Some x \<Rightarrow> acts @ [x]"
  have "set cs \<subseteq> set (claims g)" using Cons.prems(2) by simp
  from Cons.IH [OF ca(2) this, of ?acts] obtain acts' where
    l: "actions_loop keccak (solver g P) g cs ?a ?acts = Inr (?acts @ acts', None)"
       "list_all (answers keccak correct g cs ?a) acts'" by blast
  have all: "list_all (answers keccak correct g (c # cs) a) acts'" using l(2) later by (auto simp: list_all_iff)
  show ?case
  proof (cases act)
    case None
    then show ?thesis using ca(1) l(1) all by simp
  next
    case (Some x)
    then show ?thesis using ca(1) l(1) all now by (intro exI [of _ "x # acts'"]) simp
  qed
qed

lemma root_claim: "game_wf keccak g \<Longrightarrow> claims g ! 0 \<in> set (claims g) \<and> IsRoot (claims g ! 0) \<and> claims g \<noteq> []"
  by (auto simp: game_wf_def claims_ok_def)

lemma initial_tracker_ok:
  assumes "setting keccak g P correct"
  shows "tracker_ok keccak correct g (initial_tracker keccak correct g)"
proof -
  note st = settingD [OF assms(1)]
  note root = root_claim [OF st(1)]
  have only: "c = claims g ! 0" if "c \<in> set (claims g)" "IsRoot c" for c
    using getParent_wf [OF st(1) that(1)] that(2) by (auto split: option.splits)
  have "getParent g (claims g ! 0) = None" using root by (simp add: getParent_def)
  then have none: "ancestry (getParent g) (claims g ! 0 # ps) \<Longrightarrow> ps = []" for ps by (auto elim: ancestry_ConsE)
  have empty: "\<not> IsHonest keccak newHonestClaimTracker c" "HonestCounter keccak newHonestClaimTracker c = None" for c
    by (simp_all add: IsHonest_def HonestCounter_def newHonestClaimTracker_def)
  have "honest_ok correct g (claims g ! 0)" if "truthful correct g (claims g ! 0)"
    using that by (auto simp: honest_ok_def left_ok_def right_ok_def dest!: none)
  moreover have "c = claims g ! 0" if "c \<in> set (claims g)" "ID keccak c = ID keccak (claims g ! 0)" for c
    using ids_separateD(1) [OF st(3)] that root by blast
  ultimately show ?thesis using only unfolding tracker_ok_def initial_tracker_def
    by (auto simp: IsHonest_Add HonestCounter_Add empty)
qed

lemma CalculateNextActions_good:
  fixes P :: "'c TraceProvider"
  assumes "setting keccak g P correct" "prov_GetL2BlockNumberChallenge P = fail ErrL2BlockNumberValid"
  obtains acts where "CalculateNextActions keccak (solver g P) g = Inr (acts, None)"
    "list_all (answers keccak correct g (claims g) (initial_tracker keccak correct g)) acts"
proof -
  note st = settingD [OF assms(1)]
  note root = root_claim [OF st(1)]
  let ?b = "truthful correct g (claims g ! 0)"
  have ag: "AgreeWithRootClaim (solver g P) g = ok ?b"
    using agreeWithClaim_truthful [OF assms(1)] root by (cases "claims g") (simp_all add: AgreeWithRootClaim_def)
  have l2: "acc_GetL2BlockNumberChallenge (NewSimpleTraceAccessor P) g = fail ErrL2BlockNumberValid"
    using assms(2) root by simp
  have "CalculateNextActions keccak (solver g P) g = process_claims keccak (solver g P) g ?b"
    by (simp add: CalculateNextActions_def ag l2)
  moreover obtain acts where "process_claims keccak (solver g P) g ?b = Inr (acts, None)"
    "list_all (answers keccak correct g (claims g) (initial_tracker keccak correct g)) acts"
    using actions_loop_good [OF assms(1) initial_tracker_ok [OF assms(1)] subset_refl, of "[]"]
    by (auto simp: process_claims_def Let_def initial_tracker_def)
  ultimately show thesis using that by simp
qed

lemma answers_good: "answers keccak correct g cs a x \<Longrightarrow> good_action keccak correct g x"
  by (auto simp: answers_def good_action_def)

end
