(* ===== verification/Game_Obeys.thy ===== *)
theory Game_Obeys
  imports Game_Safety
begin

unbundle bit_operations_syntax

text \<open>
  Every action the solver computes passes the rules of \<open>rules.go\<close>, rule by rule, and the locale
  \<open>correct_provider\<close> that states it for any family of correct trace providers, interpreted on the alphabet
  provider.
\<close>

section \<open>The walk to the pre-state\<close>

lemma prestate_walk_None:
  assumes "ancestry (getParent g) (c # ps)" "\<forall>a \<in> set (c # ps). depth (Pos a) \<le> MaxDepth g"
    "\<forall>a \<in> set (c # ps). h \<le> pos_leaf (MaxDepth g) (Pos a)" "\<forall>a \<in> set ps. a \<noteq> noClaim"
    "\<forall>a \<in> set (c # ps). getParent g a = None \<longrightarrow> IsRoot a"
  shows "prestate_walk g h c r = Some (ok r)"
  using assms
proof (induction "c # ps" arbitrary: c ps)
  case (ancestry_top c)
  then show ?case
    by (subst prestate_walk.simps) (simp add: TraceIndex_eq linorder_not_less)
next
  case (ancestry_child p ps c)
  have "GetParent g c = Inr p" "\<not> IsRoot c" using ancestry_child.hyps(3)
    by (auto simp: GetParent_def getParent_def)
  with ancestry_child show ?case
    by (subst prestate_walk.simps) (simp add: TraceIndex_eq linorder_not_less)
qed

lemma prestate_walk_found:
  assumes "ancestry (getParent g) (c # ps)" "\<forall>a \<in> set (c # ps). depth (Pos a) \<le> MaxDepth g"
    "distinct (map (\<lambda>a. pos_leaf (MaxDepth g) (Pos a)) (c # ps))"
    "\<forall>a \<in> set (c # ps). pos_leaf (MaxDepth g) (Pos a) \<le> m \<or> h \<le> pos_leaf (MaxDepth g) (Pos a)"
    "b \<in> set (c # ps) \<or> b = r" "b \<noteq> noClaim" "pos_leaf (MaxDepth g) (Pos b) = m" "m < h"
    "depth (Pos b) \<le> MaxDepth g"
    "r \<noteq> noClaim \<Longrightarrow> depth (Pos r) \<le> MaxDepth g \<and> (r = b \<or> pos_leaf (MaxDepth g) (Pos r) < m)"
    "\<forall>a \<in> set (c # ps). getParent g a = None \<longrightarrow> IsRoot a"
  shows "prestate_walk g h c r = Some (ok b)"
  using assms
proof (induction "c # ps" arbitrary: c ps r)
  case (ancestry_top c)
  note le = ancestry_top.prems
  show ?case
  proof (cases "c = b")
    case True
    with ancestry_top show ?thesis
      by (subst prestate_walk.simps; cases "r = noClaim") (auto simp: TraceIndex_eq linorder_not_less)
  next
    case False
    then have "r = b" using le(4) by simp
    with ancestry_top show ?thesis
      by (subst prestate_walk.simps; cases "r = noClaim") (auto simp: TraceIndex_eq linorder_not_less)
  qed
next
  case (ancestry_child p ps c)
  have gp: "GetParent g c = Inr p" "\<not> IsRoot c" using ancestry_child.hyps(3)
    by (auto simp: GetParent_def getParent_def)
  note prems = ancestry_child.prems
  have t: "TraceIndex (Pos c) (MaxDepth g) = Inr (pos_leaf (MaxDepth g) (Pos c))"
    using prems(1) by (simp add: TraceIndex_eq linorder_not_less)
  have tr: "r \<noteq> noClaim \<Longrightarrow> TraceIndex (Pos r) (MaxDepth g) = Inr (pos_leaf (MaxDepth g) (Pos r))"
    using prems(9) by (simp add: TraceIndex_eq linorder_not_less)
  define r' where "r' = (if pos_leaf (MaxDepth g) (Pos c) < h \<and>
    (r = noClaim \<or> pos_leaf (MaxDepth g) (Pos r) < pos_leaf (MaxDepth g) (Pos c)) then c else r)"
  have step: "prestate_walk g h c r = prestate_walk g h p r'"
    by (subst prestate_walk.simps) (auto simp: t tr gp r'_def)
  show ?case unfolding step
  proof (rule ancestry_child.hyps(2))
    show "b \<in> set (p # ps) \<or> b = r'"
    proof (cases "b = c")
      case True
      then have "r \<noteq> b \<or> r = c" by simp
      then show ?thesis using True prems(6,7,9) by (auto simp: r'_def)
    next
      case False
      show ?thesis
      proof (cases "b = r")
        case True
        have "pos_leaf (MaxDepth g) (Pos c) \<le> m \<or> h \<le> pos_leaf (MaxDepth g) (Pos c)" using prems(3) by simp
        then show ?thesis using True prems(5,6,7) by (auto simp: r'_def)
      next
        case False
        then show ?thesis using prems(4) \<open>b \<noteq> c\<close> by auto
      qed
    qed
    show "depth (Pos r') \<le> MaxDepth g \<and> (r' = b \<or> pos_leaf (MaxDepth g) (Pos r') < m)" if "r' \<noteq> noClaim"
    proof (cases "r' = r")
      case True
      then show ?thesis using prems(9) that by simp
    next
      case False
      then have c: "r' = c" "pos_leaf (MaxDepth g) (Pos c) < h" by (auto simp: r'_def split: if_splits)
      show ?thesis
      proof (cases "c = b")
        case False
        have "pos_leaf (MaxDepth g) (Pos c) \<noteq> m"
        proof
          assume e: "pos_leaf (MaxDepth g) (Pos c) = m"
          from prems(4) False consider "b \<in> set (p # ps)" | "b = r" by auto
          then show False
          proof cases
            case 1
            then show False using prems(2,6) e by auto
          next
            case 2
            then show False using c \<open>r' \<noteq> r\<close> e prems(5,6) by (auto simp: r'_def split: if_splits)
          qed
        qed
        moreover have "pos_leaf (MaxDepth g) (Pos c) \<le> m" using prems(3) c(2) by auto
        ultimately show ?thesis using c prems(1) by simp
      qed (use c prems(1) in simp)
    qed
  qed (use prems ancestry_child.hyps(1) in auto)
qed

section \<open>The rules, one by one\<close>

lemma parent_claim_of:
  assumes "game_wf keccak g" "c \<in> set (claims g)" "ParentClaim x = c"
  shows "parent_claim g x = Inr c"
  using claim_index [OF assms(1,2)] assms(3) by (simp add: parent_claim_def)

lemma move_action_simps [simp]:
  "Type (move_action correct g c) = ActionTypeMove" "ParentClaim (move_action correct g c) = c"
  "IsAttack (move_action correct g c) = (\<not> truthful correct g c)"
  "ActValue (move_action correct g c) = correct (pos_leaf (MaxDepth g) (honest_position correct g c))"
  by (simp_all add: move_action_def honest_move_def)

lemma step_action_simps [simp]:
  "Type (step_action correct g c d) = ActionTypeStep" "ParentClaim (step_action correct g c d) = c"
  "IsAttack (step_action correct g c d) = (\<not> truthful correct g c)"
  "ActValue (step_action correct g c d) = 0" "PreState (step_action correct g c d) = fst d"
  by (simp_all add: step_action_def split: prod.splits)

lemma good_action_cases:
  assumes "setting keccak g P correct" "good_action keccak correct g x"
  obtains (mv) c where "c \<in> set (claims g)" "x = move_action correct g c" "depth (Pos c) < MaxDepth g"
      "worth_ok correct g c" "\<not> IsDuplicate keccak g (honest_move correct g c)"
      "parent_claim g x = Inr c" "resultingPosition g x = Inr (honest_position correct g c)"
      "responds (Pos c) (honest_position correct g c)"
  | (st) c d where "c \<in> set (claims g)" "x = step_action correct g c d" "depth (Pos c) = MaxDepth g"
      "worth_ok correct g c" "CounteredBy c = 0" "prestate_matches keccak correct g c (fst d)"
      "parent_claim g x = Inr c" "resultingPosition g x = Inr (Pos c)"
proof -
  note wf = settingD(1) [OF assms(1)]
  from assms(2) consider (1) c where "good_move keccak correct g c x" | (2) c where "good_step keccak correct g c x"
    by (auto simp: good_action_def)
  then show thesis
  proof cases
    case (1 c)
    then have c: "c \<in> set (claims g)" "x = move_action correct g c" "depth (Pos c) < MaxDepth g"
      "worth_ok correct g c" "\<not> IsDuplicate keccak g (honest_move correct g c)" by (simp_all add: good_move_def)
    have p: "parent_claim g x = Inr c" using parent_claim_of [OF wf c(1), of x] c(2) by simp
    have "\<not> (truthful correct g c \<and> IsRoot c)" using c(4) by (auto simp: worth_ok_def)
    note hr = honest_position_responds [OF this]
    have "resultingPosition g x = Inr (honest_position correct g c)"
      using c(2) p by (simp add: resultingPosition_def honest_position_def)
    with mv c p hr show thesis by blast
  next
    case (2 c)
    then obtain d where c: "c \<in> set (claims g)" "x = step_action correct g c d" "depth (Pos c) = MaxDepth g"
      "worth_ok correct g c" "CounteredBy c = 0" "prestate_matches keccak correct g c (fst d)" by (auto simp: good_step_def)
    have p: "parent_claim g x = Inr c" using parent_claim_of [OF wf c(1), of x] c(2) by simp
    then have "resultingPosition g x = Inr (Pos c)" using c(2) by (simp add: resultingPosition_def)
    with st c p show thesis by blast
  qed
qed

lemma obeys_simple_rules:
  assumes "setting keccak g P correct" "good_action keccak correct g x"
  shows "parentMustExist g x t = passes" "onlyStepAtMaxDepth g x t = passes" "onlyMoveBeforeMaxDepth g x t = passes"
    "doNotDefendRootClaim g x t = passes"
proof -
  note wf = settingD(1) [OF assms(1)]
  have idx: "\<not> ContractIndex c < 0" "\<not> int (length (claims g)) \<le> ContractIndex c" if "c \<in> set (claims g)" for c
    using claim_index [OF wf that] by simp_all
  show "parentMustExist g x t = passes"
    using assms by (cases rule: good_action_cases) (simp_all add: parentMustExist_def idx)
  show "onlyStepAtMaxDepth g x t = passes" "onlyMoveBeforeMaxDepth g x t = passes"
    using assms by (cases rule: good_action_cases; auto simp: onlyStepAtMaxDepth_def onlyMoveBeforeMaxDepth_def)+
  show "doNotDefendRootClaim g x t = passes"
    using assms by (cases rule: good_action_cases) (auto simp: doNotDefendRootClaim_def worth_ok_def IsRoot_def)
qed

lemma obeys_counteredBy:
  assumes "setting keccak g P correct" "good_action keccak correct g x"
    "\<forall>c \<in> set (claims g). depth (Pos c) < MaxDepth g \<longrightarrow> CounteredBy c = 0"
  shows "doNotStepAlreadyCounteredClaims g x t = passes"
  using assms(1,2) by (cases rule: good_action_cases) (use assms(3) in \<open>auto simp: doNotStepAlreadyCounteredClaims_def\<close>)

lemma claimIDs_fold:
  "fold (\<lambda>c ids. ids(ID keccak c \<mapsto> True)) cs m i = (if i \<in> ID keccak ` set cs then Some True else m i)"
  by (induction cs arbitrary: m) auto

lemma IsDuplicate_iff:
  "game_wf keccak g \<Longrightarrow> IsDuplicate keccak g c \<longleftrightarrow> (\<exists>c' \<in> set (claims g). ID keccak c = ID keccak c')"
proof -
  assume "game_wf keccak g"
  then have "claimIDs g = claimIDs (NewGameState keccak (claims g) (MaxDepth g))" by (simp add: game_wf_def)
  then show ?thesis by (auto simp: IsDuplicate_def NewGameState_def claimIDs_fold)
qed

lemma obeys_no_duplicate:
  assumes "setting keccak g P correct" "good_action keccak correct g x"
  shows "doNotDuplicateExistingMoves keccak g x t = passes"
  using assms
proof (cases rule: good_action_cases)
  case (mv c)
  then show ?thesis by (simp add: doNotDuplicateExistingMoves_def honest_move_def)
next
  case (st c d)
  note set = settingD [OF assms(1)]
  have "\<not> IsDuplicate keccak g (step_claim c)"
    using ids_separateD(3) [OF set(3) st(1)] by (auto simp: IsDuplicate_iff [OF set(1)])
  with st show ?thesis by (simp add: doNotDuplicateExistingMoves_def step_claim_def)
qed

lemma correct_at_claim:
  assumes "setting keccak g P correct" "c \<in> set (claims g)"
  shows "correct_at P c f = f (truthful correct g c)"
  using trace_ok_Get [OF settingD(2) [OF assms(1)]] claim_in_tree [OF settingD(1) [OF assms(1)] assms(2)]
  by (auto simp: correct_at_def truthful_def eq_commute)

text \<open>The left neighbour of the position the challenger moves to, among the claim and its ancestors.\<close>

lemma move_left_neighbour:
  assumes "setting keccak g P correct" "c \<in> set (claims g)" "depth (Pos c) < MaxDepth g" "worth_ok correct g c"
    "ancestry (getParent g) (c # ps)"
  defines "q \<equiv> honest_position correct g c"
  shows "(pos_leaf (MaxDepth g) q - span (MaxDepth g) q = - 1 \<or>
      (\<exists>b \<in> set (c # ps). pos_leaf (MaxDepth g) (Pos b) = pos_leaf (MaxDepth g) q - span (MaxDepth g) q \<and> truthful correct g b)) \<and>
    (\<forall>b \<in> set (c # ps). pos_leaf (MaxDepth g) (Pos b) \<le> pos_leaf (MaxDepth g) q - span (MaxDepth g) q \<or>
      pos_leaf (MaxDepth g) q \<le> pos_leaf (MaxDepth g) (Pos b))"
proof -
  note wf = settingD(1) [OF assms(1)]
  have nr: "\<not> (truthful correct g c \<and> IsRoot c)" using assms(4) by (auto simp: worth_ok_def)
  note hr = honest_position_responds [OF nr]
  have line: "line (MaxDepth g) (q # map Pos (c # ps))"
    using ancestry_line [OF wf assms(2,5)] assms(3) hr by (simp add: q_def line_step)
  note near = line_neighbours [OF line]
  have ev: "even (IndexAtDepth (Pos c))" using claim_in_tree [OF wf assms(2)] by simp
  have d: "span (MaxDepth g) (Pos c) = 2 * span (MaxDepth g) q"
    by (rule span_step [OF assms(3)]) (simp add: q_def honest_position_def)
  have true: "truthful correct g b" if "b \<in> set (c # ps)"
      "pos_leaf (MaxDepth g) (Pos b) = pos_leaf (MaxDepth g) q - span (MaxDepth g) q" for b
  proof (cases "truthful correct g c")
    case True
    then have "pos_leaf (MaxDepth g) q = pos_leaf (MaxDepth g) (Pos c) + span (MaxDepth g) q"
      using response_leaf(2) [OF assms(3) ev] by (simp add: q_def honest_position_def)
    with that ancestor_leaf_unique [OF wf assms(2,5)] have "b = c" by auto
    with True show ?thesis by simp
  next
    case False
    then have "pos_leaf (MaxDepth g) q = pos_leaf (MaxDepth g) (Pos c) - span (MaxDepth g) q"
      using response_leaf(1) [OF assms(3) ev] by (simp add: q_def honest_position_def)
    with that d have "b \<noteq> c" "pos_leaf (MaxDepth g) (Pos b) = pos_leaf (MaxDepth g) (Pos c) - span (MaxDepth g) (Pos c)" by auto
    with that(1) assms(4,5) show ?thesis by (auto simp: worth_ok_def left_ok_def)
  qed
  have "pos_leaf (MaxDepth g) q - span (MaxDepth g) q = - 1 \<or>
      (\<exists>b \<in> set (c # ps). pos_leaf (MaxDepth g) (Pos b) = pos_leaf (MaxDepth g) q - span (MaxDepth g) q)"
    using near unfolding set_map by blast
  moreover have "pos_leaf (MaxDepth g) (Pos b) \<le> pos_leaf (MaxDepth g) q - span (MaxDepth g) q \<or>
      pos_leaf (MaxDepth g) q \<le> pos_leaf (MaxDepth g) (Pos b)" if "b \<in> set (c # ps)" for b
  proof -
    have "Pos b \<in> set (map Pos (c # ps))" using that by (simp only: set_map imageI)
    with near have "pos_leaf (MaxDepth g) (Pos b) \<le> pos_leaf (MaxDepth g) q - span (MaxDepth g) q \<or>
      pos_leaf (MaxDepth g) q + span (MaxDepth g) q \<le> pos_leaf (MaxDepth g) (Pos b)" by blast
    then show ?thesis using span_pos [of "MaxDepth g" q] by linarith
  qed
  ultimately show ?thesis using true by blast
qed

lemma ancestors_depth:
  assumes "game_wf keccak g" "c \<in> set (claims g)" "ancestry (getParent g) (c # ps)" "a \<in> set (c # ps)"
  shows "a \<in> set (claims g)" "depth (Pos a) \<le> MaxDepth g" "a \<noteq> noClaim" "getParent g a = None \<Longrightarrow> IsRoot a"
    "0 \<le> pos_leaf (MaxDepth g) (Pos a)"
  using gs.ancestry_members [OF assms] claim_in_tree [OF assms(1)] claim_not_empty [OF assms(1)]
    no_parent_root [OF assms(1)] pos_leaf_nonneg by blast+

lemma obeys_avoidPoisonedPrestate:
  assumes "setting keccak g P correct" "good_action keccak correct g x"
  shows "avoidPoisonedPrestate g x P = passes"
  using assms
proof (cases rule: good_action_cases)
  case (st c d)
  then show ?thesis by (simp add: avoidPoisonedPrestate_def)
next
  case (mv c)
  note wf = settingD(1) [OF assms(1)]
  define q where "q = honest_position correct g c"
  obtain ps where ps: "ancestry (getParent g) (c # ps)" using gs.ancestry_exists [OF wf mv(1)] by blast
  note anc = ancestors_depth [OF wf mv(1) ps]
  note near = move_left_neighbour [OF assms(1) mv(1,3,4) ps, folded q_def]
  have ti: "TraceIndex q (MaxDepth g) = Inr (pos_leaf (MaxDepth g) q)"
    using response_in_tree(2) [OF wf mv(1,3,8)] by (simp add: TraceIndex_eq linorder_not_less q_def)
  have rest: "avoidPoisonedPrestate g x P = run_go (prestate_walk g (pos_leaf (MaxDepth g) q) c noClaim) (\<lambda>r.
      if r = noClaim then passes else correct_at P r (\<lambda>valid. if \<not> valid then violates ''prestate poisoned'' else passes))"
    using mv(2,6,7) ti by (simp add: avoidPoisonedPrestate_def q_def)
  show ?thesis
  proof (cases "pos_leaf (MaxDepth g) q - span (MaxDepth g) q = - 1")
    case True
    then have "\<forall>b \<in> set (c # ps). pos_leaf (MaxDepth g) q \<le> pos_leaf (MaxDepth g) (Pos b)" using near anc(5) by fastforce
    with anc(2-4) have "prestate_walk g (pos_leaf (MaxDepth g) q) c noClaim = Some (ok noClaim)"
      by (intro prestate_walk_None [OF ps]) (simp_all add: ball_Un)
    then show ?thesis by (simp add: rest)
  next
    case False
    then obtain b where b: "b \<in> set (c # ps)" "pos_leaf (MaxDepth g) (Pos b) = pos_leaf (MaxDepth g) q - span (MaxDepth g) q"
      "truthful correct g b" using near by blast
    have "distinct (map (\<lambda>a. pos_leaf (MaxDepth g) (Pos a)) (c # ps))"
      using line_leaves_distinct [OF ancestry_line [OF wf mv(1) ps]] by (simp add: comp_def)
    moreover have "\<forall>a \<in> set (c # ps). pos_leaf (MaxDepth g) (Pos a) \<le> pos_leaf (MaxDepth g) q - span (MaxDepth g) q \<or>
      pos_leaf (MaxDepth g) q \<le> pos_leaf (MaxDepth g) (Pos a)" using near by blast
    moreover have "pos_leaf (MaxDepth g) q - span (MaxDepth g) q < pos_leaf (MaxDepth g) q" by simp
    ultimately have "prestate_walk g (pos_leaf (MaxDepth g) q) c noClaim = Some (ok b)"
      using prestate_walk_found [OF ps, where b = b and r = noClaim] b(1,2) anc by blast
    then show ?thesis using b(3) anc(1,3) [OF b(1)] by (simp add: rest correct_at_claim [OF assms(1)])
  qed
qed

lemma obeys_poisoned_move:
  assumes "setting keccak g P correct" "good_action keccak correct g x" "Type x = ActionTypeMove"
  shows "detectPoisonedStepPrestate keccak g x P = passes"
  using assms(1,2)
proof (cases rule: good_action_cases)
  case (st c d)
  then show ?thesis using assms(3) by simp
next
  case (mv c)
  note wf = settingD(1) [OF assms(1)]
  define q where "q = honest_position correct g c"
  show ?thesis
  proof (cases "depth q = MaxDepth g")
    case False
    then show ?thesis using mv(7) by (simp add: detectPoisonedStepPrestate_def q_def)
  next
    case True
    obtain ps where ps: "ancestry (getParent g) (c # ps)" using gs.ancestry_exists [OF wf mv(1)] by blast
    note near = move_left_neighbour [OF assms(1) mv(1,3,4) ps, folded q_def]
    have sp: "span (MaxDepth g) q = 1" using True by (simp add: span_def)
    have ti: "TraceIndex q (MaxDepth g) = Inr (pos_leaf (MaxDepth g) q)" using True by (simp add: TraceIndex_eq)
    have "pos_leaf (MaxDepth g) q - 1 < 0 \<or>
      (\<exists>b. b \<in> set (claims g) \<and> truthful correct g b \<and> AncestorWithTraceIndex g c (pos_leaf (MaxDepth g) q - 1) = Some (Inr (b, True)))"
      using near ancestors_depth(1) [OF wf mv(1) ps] Ancestor_found [OF wf mv(1) ps] unfolding sp by fastforce
    then show ?thesis using mv(2,6,7) ti True
      by (auto simp: detectPoisonedStepPrestate_def q_def Let_def correct_at_claim [OF assms(1)])
  qed
qed

lemma leaf_index: "depth p = D \<Longrightarrow> pos_leaf D p = IndexAtDepth p"
  by (simp add: pos_leaf_def last_leaf_def)

lemma Ancestor_self:
  assumes "game_wf keccak g" "c \<in> set (claims g)"
  shows "AncestorWithTraceIndex g c (pos_leaf (MaxDepth g) (Pos c)) = Some (Inr (c, True))"
  using gs.ancestry_exists [OF assms] Ancestor_found [OF assms, of _ c] by auto

text \<open>The neighbours of a leaf claim worth countering.\<close>

lemma leaf_left:
  assumes "setting keccak g P correct" "c \<in> set (claims g)" "depth (Pos c) = MaxDepth g" "worth_ok correct g c"
    "IndexAtDepth (Pos c) \<noteq> 0"
  obtains b where "b \<in> set (claims g)" "truthful correct g b"
    "pos_leaf (MaxDepth g) (Pos b) = IndexAtDepth (Pos c) - 1"
    "AncestorWithTraceIndex g c (IndexAtDepth (Pos c) - 1) = Some (Inr (b, True))"
proof -
  note wf = settingD(1) [OF assms(1)]
  obtain ps where ps: "ancestry (getParent g) (c # ps)" using gs.ancestry_exists [OF wf assms(2)] by blast
  have sp: "span (MaxDepth g) (Pos c) = 1" using assms(3) by (simp add: span_def)
  note near = line_neighbours [OF ancestry_line [OF wf assms(2) ps, simplified], unfolded sp leaf_index [OF assms(3)]]
  with assms(5) obtain b where b: "b \<in> set ps" "pos_leaf (MaxDepth g) (Pos b) = IndexAtDepth (Pos c) - 1" by auto
  then have "truthful correct g b" using assms(4) ps by (auto simp: worth_ok_def left_ok_def sp leaf_index [OF assms(3)])
  with that b gs.ancestry_members [OF wf assms(2) ps] Ancestor_found [OF wf assms(2) ps] show thesis by auto
qed

lemma leaf_right:
  assumes "setting keccak g P correct" "c \<in> set (claims g)" "depth (Pos c) = MaxDepth g" "worth_ok correct g c"
    "truthful correct g c"
  obtains b where "b \<in> set (claims g)" "truthful correct g b \<longleftrightarrow> odd (unat (depth (Pos c)) + unat (depth (Pos b)))"
    "AncestorWithTraceIndex g c (IndexAtDepth (Pos c) + 1) = Some (Inr (b, True))"
proof -
  note wf = settingD(1) [OF assms(1)]
  obtain ps where ps: "ancestry (getParent g) (c # ps)" using gs.ancestry_exists [OF wf assms(2)] by blast
  have sp: "span (MaxDepth g) (Pos c) = 1" using assms(3) by (simp add: span_def)
  note near = line_neighbours [OF ancestry_line [OF wf assms(2) ps, simplified], unfolded sp leaf_index [OF assms(3)]]
  have "\<not> IsRoot c" "right_ok True correct g c" using assms(4,5) by (auto simp: worth_ok_def)
  then have "getParent g c \<noteq> None" using no_parent_root [OF wf assms(2)] by blast
  with ps have "ps \<noteq> []" by (auto elim: ancestry_ConsE)
  with near obtain b where b: "b \<in> set ps" "pos_leaf (MaxDepth g) (Pos b) = IndexAtDepth (Pos c) + 1" by auto
  then have "truthful correct g b \<longleftrightarrow> odd (unat (depth (Pos c)) + unat (depth (Pos b)))"
    using \<open>right_ok True correct g c\<close> ps by (auto simp: right_ok_def sp leaf_index [OF assms(3)])
  with that b gs.ancestry_members [OF wf assms(2) ps] Ancestor_found [OF wf assms(2) ps] show thesis by auto
qed

lemma obeys_poisoned_step:
  assumes "setting keccak g P correct" "good_action keccak correct g x" "Type x = ActionTypeStep"
  shows "detectPoisonedStepPrestate keccak g x P = passes"
  using assms(1,2)
proof (cases rule: good_action_cases)
  case (mv c)
  then show ?thesis using assms(3) by simp
next
  case (st c d)
  note wf = settingD(1) [OF assms(1)]
  note tr = claim_in_tree [OF wf st(1)]
  have i: "0 \<le> IndexAtDepth (Pos c)" using tr by (simp add: in_tree_def)
  have ti: "TraceIndex (Pos c) (MaxDepth g) = Inr (IndexAtDepth (Pos c))"
    using st(3) by (simp add: TraceIndex_eq leaf_index)
  note step = st(2,3,7,8) ti
  note match = st(6) [unfolded prestate_matches_def step_position_def Let_def]
  show ?thesis
  proof (cases "truthful correct g c")
    case True
    then have "drop 1 (Hash_Bytes (keccak (fst d))) = drop 1 (Hash_Bytes (Value c))"
      using match i by (simp add: truthful_def leaf_index [OF st(3)])
    moreover have "AncestorWithTraceIndex g c (IndexAtDepth (Pos c)) = Some (Inr (c, True))"
      using Ancestor_self [OF wf st(1)] by (simp add: leaf_index [OF st(3)])
    ultimately show ?thesis using step True i
      by (simp add: detectPoisonedStepPrestate_def Let_def correct_at_claim [OF assms(1) st(1)])
  next
    case False
    show ?thesis
    proof (cases "IndexAtDepth (Pos c) = 0")
      case True
      then show ?thesis using step False by (simp add: detectPoisonedStepPrestate_def Let_def)
    next
      case nz: False
      obtain b where b: "b \<in> set (claims g)" "truthful correct g b" "pos_leaf (MaxDepth g) (Pos b) = IndexAtDepth (Pos c) - 1"
        "AncestorWithTraceIndex g c (IndexAtDepth (Pos c) - 1) = Some (Inr (b, True))"
        using leaf_left [OF assms(1) st(1,3,4) nz] .
      have "drop 1 (Hash_Bytes (keccak (fst d))) = drop 1 (Hash_Bytes (Value b))"
        using match False nz b(2,3) by (simp add: truthful_def)
      then show ?thesis using step False i nz b
        by (simp add: detectPoisonedStepPrestate_def Let_def correct_at_claim [OF assms(1) b(1)])
    qed
  qed
qed

lemma depth_parity: "b \<le> a \<Longrightarrow> (a - b) mod 2 = (0 :: Depth) \<longleftrightarrow> even (unat a + unat b)"
proof -
  assume le: "b \<le> a"
  have "unat ((a - b) mod 2) = (unat a - unat b) mod 2" using le by (simp add: unat_mod unat_sub)
  moreover have "unat b \<le> unat a" using le by (simp add: word_le_nat_alt)
  ultimately have "(a - b) mod 2 = 0 \<longleftrightarrow> even (unat a - unat b)" by (metis even_iff_mod_2_eq_zero unat_0 word_unat_eq_iff)
  with \<open>unat b \<le> unat a\<close> show ?thesis by simp
qed

lemma obeys_detectFailedStep:
  assumes "setting keccak g P correct" "good_action keccak correct g x"
  shows "detectFailedStep g x P = passes"
  using assms
proof (cases rule: good_action_cases)
  case (mv c)
  then show ?thesis by (simp add: detectFailedStep_def)
next
  case (st c d)
  note wf = settingD(1) [OF assms(1)]
  have ti: "TraceIndex (Pos c) (MaxDepth g) = Inr (IndexAtDepth (Pos c))"
    using st(3) by (simp add: TraceIndex_eq leaf_index)
  note step = st(2,3,7,8) ti
  show ?thesis
  proof (cases "truthful correct g c")
    case True
    obtain b where b: "b \<in> set (claims g)" "truthful correct g b \<longleftrightarrow> odd (unat (depth (Pos c)) + unat (depth (Pos b)))"
      "AncestorWithTraceIndex g c (IndexAtDepth (Pos c) + 1) = Some (Inr (b, True))"
      using leaf_right [OF assms(1) st(1,3,4) True] .
    have "depth (Pos b) \<le> depth (Pos c)" using claim_in_tree [OF wf b(1)] st(3) by simp
    from depth_parity [OF this] b step True show ?thesis
      by (simp add: detectFailedStep_def Let_def correct_at_claim [OF assms(1) b(1)])
  next
    case False
    then show ?thesis using step Ancestor_self [OF wf st(1)]
      by (simp add: detectFailedStep_def Let_def correct_at_claim [OF assms(1) st(1)] leaf_index [OF st(3)])
  qed
qed

lemma obeys_rules:
  assumes "setting keccak g P correct" "good_action keccak correct g x"
    "\<forall>c \<in> set (claims g). depth (Pos c) < MaxDepth g \<longrightarrow> CounteredBy c = 0"
  shows "list_all (\<lambda>r. r g x P = passes) (butlast (rules keccak))"
proof -
  have "Type x = ActionTypeMove \<or> Type x = ActionTypeStep"
    using assms(1,2) by (cases rule: good_action_cases) simp_all
  then have "detectPoisonedStepPrestate keccak g x P = passes"
    using obeys_poisoned_move [OF assms(1,2)] obeys_poisoned_step [OF assms(1,2)] by blast
  with obeys_simple_rules [OF assms(1,2)] obeys_counteredBy [OF assms] obeys_no_duplicate [OF assms(1,2)]
    obeys_avoidPoisonedPrestate [OF assms(1,2)] obeys_detectFailedStep [OF assms(1,2)]
  show ?thesis by (simp add: rules_def)
qed

section \<open>Correct providers\<close>

text \<open>
  What the challenger asks of a family of trace providers; the alphabet provider is one.
\<close>

locale correct_provider =
  fixes keccak :: keccak256
    and valid :: "'p \<Rightarrow> bool"
    and prov :: "'p \<Rightarrow> 'c TraceProvider"
    and prov_depth :: "'p \<Rightarrow> Depth"
    and value_at :: "'p \<Rightarrow> int \<Rightarrow> Hash"
  assumes provides: "valid p \<Longrightarrow> trace_ok keccak (prov_depth p) (prov p) (value_at p)"
    and block_number_valid: "valid p \<Longrightarrow> prov_GetL2BlockNumberChallenge (prov p) = fail ErrL2BlockNumberValid"
begin

lemma setting_provider:
  assumes "valid p" "MaxDepth g = prov_depth p" "game_wf keccak g" "ids_separate keccak (value_at p) g"
  shows "setting keccak g (prov p) (value_at p)"
  using provides [OF assms(1)] assms(2-4) by (simp add: setting_def)

lemma actions_obey:
  assumes "valid p" "MaxDepth g = prov_depth p" "game_wf keccak g" "ids_separate keccak (value_at p) g"
    "\<forall>c \<in> set (claims g). depth (Pos c) < MaxDepth g \<longrightarrow> CounteredBy c = 0"
  shows "\<exists>acts. CalculateNextActions keccak (solver g (prov p)) g = Inr (acts, None) \<and>
    (\<forall>x \<in> set acts. list_all (\<lambda>r. r g x (prov p) = passes) (butlast (rules keccak)))"
proof -
  note st = setting_provider [OF assms(1-4)]
  obtain acts where "CalculateNextActions keccak (solver g (prov p)) g = Inr (acts, None)"
    "list_all (answers keccak (value_at p) g (claims g) (initial_tracker keccak (value_at p) g)) acts"
    using CalculateNextActions_good [OF st block_number_valid [OF assms(1)]] .
  then show ?thesis using obeys_rules [OF st answers_good assms(5)] by (auto simp: list_all_iff)
qed

end

text \<open>A single provider, and the alphabet providers of depth below 64.\<close>

interpretation single: correct_provider keccak
    "\<lambda>(P, D, correct). trace_ok keccak D P correct \<and> prov_GetL2BlockNumberChallenge P = fail ErrL2BlockNumberValid"
    "\<lambda>(P, D, correct). P" "\<lambda>(P, D, correct). D" "\<lambda>(P, D, correct). correct"
  for keccak
  by unfold_locales auto

interpretation alphabet: correct_provider keccak alphabet_ok "AlphabetProvider keccak" alpha_depth "alphabet_correct keccak"
  for keccak
  by unfold_locales
    (simp_all add: alphabet_trace_ok, simp add: AlphabetProvider_def alphabet_GetL2BlockNumberChallenge_def)

section \<open>The challenger obeys the rules\<close>

text \<open>In every game of the contract whose claims the identifiers separate, and with a provider of the
  correct trace, CalculateNextActions returns without error or panic, and every action it returns passes
  the nine rules of rules.go other than doNotCounterSelf: the parent exists, steps are at and moves above
  the maximum depth, nothing is duplicated, no countered claim is stepped on, the root is not defended,
  and no step or move rests on a poisoned pre-state or fails.\<close>

theorem CalculateNextActions_obeys_rules:
  fixes P :: "'c TraceProvider"
  assumes "game_wf keccak g" "trace_ok keccak (MaxDepth g) P correct" "ids_separate keccak correct g"
    "prov_GetL2BlockNumberChallenge P = fail ErrL2BlockNumberValid"
    "\<forall>c \<in> set (claims g). depth (Pos c) < MaxDepth g \<longrightarrow> CounteredBy c = 0"
  shows "\<exists>acts. CalculateNextActions keccak (newClaimSolver (MaxDepth g) (NewSimpleTraceAccessor P)) g = Inr (acts, None) \<and>
    (\<forall>x \<in> set acts. \<forall>r \<in> set (butlast (rules keccak)). r g x P = passes)"
  using single.actions_obey [of keccak "(P, MaxDepth g, correct)" g] assms by (simp add: list_all_iff)

text \<open>A provider for the sample game: the value at trace index \<open>i\<close> is \<open>i + 1000\<close>.\<close>

definition sample_correct :: "int \<Rightarrow> Hash" where
  "sample_correct i = of_int (i + 1000)"

definition sample_provider :: "unit TraceProvider" where
  "sample_provider = \<lparr>prov_Get = (\<lambda>p. ok (sample_correct (pos_leaf 2 p))),
     prov_GetStepData = (\<lambda>p. ok (be_enc 32 (nat (IndexAtDepth p + 998)), [], None)),
     prov_GetL2BlockNumberChallenge = fail ErrL2BlockNumberValid, prov_AbsolutePreStateCommitment = ok 999\<rparr>"

lemma sample_trace_ok: "trace_ok sample_hash 2 sample_provider sample_correct"
proof -
  have "sample_hash (be_enc 32 (nat (i + 998))) = sample_correct (i - 1)" if "0 \<le> i" "i < 4" for i
  proof -
    have "nat (i + 998) mod 256 ^ 32 = nat (i + 998)" using that by (intro mod_less) (simp add: nat_less_iff)
    then show ?thesis using that by (simp add: sample_hash_def be_dec_enc sample_correct_def)
  qed
  then show ?thesis by (auto simp: trace_ok_def sample_provider_def in_tree_def)
qed

lemma sample_ids:
  "Value (sample_claims ! 0) = 100" "Value (sample_claims ! Suc 0) = 101" "Value (sample_claims ! 2) = 102"
  "ContractIndex (sample_claims ! 0) = 0" "ContractIndex (sample_claims ! Suc 0) = 1" "ContractIndex (sample_claims ! 2) = 2"
  "ParentContractIndex (sample_claims ! 0) = 4294967295" "ParentContractIndex (sample_claims ! Suc 0) = 0"
  "ParentContractIndex (sample_claims ! 2) = 1"
  by (simp_all add: sample_claims_def sample_claim_def noClaim_def)

lemma sample_claims_list: "sample_claims = [sample_claims ! 0, sample_claims ! Suc 0, sample_claims ! 2]"
  by (simp add: sample_claims_def)

lemma sample_ids_separate: "ids_separate sample_hash sample_correct sample_game"
proof -
  have "(256 :: Hash) ^ 32 = 0" by simp
  then have zero: "(256 :: Hash) ^ (32 + n) = 0" for n by (simp only: power_add mult_zero_left)
  have ID: "ID sample_hash c = Value c * 256 ^ length (big_Bytes (ParentContractIndex c)) + of_int (ParentContractIndex c) + 1"
    if "0 \<le> ToGIndex (Pos c)" "0 \<le> ParentContractIndex c" for c
    using that by (simp add: ID_def sample_hash_def ID_preimage_def be_dec_append be_dec_big_Bytes be_dec_Hash_Bytes zero)
  have len: "length (big_Bytes 0) = 0" "length (big_Bytes 1) = 1" "length (big_Bytes 2) = 1" "length (big_Bytes 4294967295) = 4"
    by (simp_all add: big_Bytes_def bit_len.simps)
  have truth: "\<not> truthful sample_correct sample_game (sample_claims ! 0)"
    "\<not> truthful sample_correct sample_game (sample_claims ! Suc 0)" "\<not> truthful sample_correct sample_game (sample_claims ! 2)"
    by (simp_all add: truthful_def sample_ids sample_correct_def pos_leaf_def last_leaf_def NewPosition_def IndexAtDepth_def)
  have g: "ToGIndex (Pos (sample_claims ! 0)) = 1" "ToGIndex (Pos (sample_claims ! Suc 0)) = 2" "ToGIndex (Pos (sample_claims ! 2)) = 6"
    by (simp_all add: ToGIndex_def NewPosition_def IndexAtDepth_def)
  show ?thesis
    unfolding ids_separate_def sample_simps by (subst (1 2 3) sample_claims_list)
      (simp add: ID len truth sample_ids g honest_move_def honest_position_def step_claim_def noClaim_def
      sample_correct_def pos_leaf_def last_leaf_def position_defs ToGIndex_def push_bit_eq_mult same_claim_def)
qed

theorem CalculateNextActions_obeys_rules_witness:
  "\<exists>acts. CalculateNextActions sample_hash (newClaimSolver 2 (NewSimpleTraceAccessor sample_provider)) sample_game = Inr (acts, None) \<and>
    (\<forall>x \<in> set acts. \<forall>r \<in> set (butlast (rules sample_hash)). r sample_game x sample_provider = passes)"
proof -
  have "CounteredBy (sample_claims ! i) = 0" if "i < 3" for i
    using that by (auto simp: sample_claims_def sample_claim_def noClaim_def less_Suc_eq numeral_3_eq_3)
  then have "\<forall>c \<in> set sample_claims. CounteredBy c = 0" by (auto simp: in_set_conv_nth)
  then show ?thesis
    using CalculateNextActions_obeys_rules [OF sample_game_wf _ sample_ids_separate, of sample_provider] sample_trace_ok
    by (simp add: sample_provider_def)
qed

text \<open>C34: The alphabet provider implements the interface of a correct trace for every depth below 64 and
  every starting block of 64 bits: Get answers each position with the alphabet state after its trace index,
  GetStepData gives the pre-image of the value just before, neither panics.\<close>

theorem AlphabetProvider_correct:
  assumes "alphabet_ok ap"
  shows "trace_ok keccak (alpha_depth ap) (AlphabetProvider keccak ap) (alphabet_correct keccak ap)"
  using assms by (rule alphabet.provides)

theorem AlphabetProvider_correct_witness:
  "prov_Get (AlphabetProvider sample_hash (NewTraceProvider 5 4)) (NewPosition 4 (Some 2)) =
    ok (alphabetStateHash sample_hash (be_enc 32 83 @ be_enc 32 179))"
proof -
  let ?ap = "NewTraceProvider 5 4"
  have "alphabet_ok ?ap" by (simp add: alphabet_ok_def NewTraceProvider_def)
  from trace_ok_Get [OF AlphabetProvider_correct [OF this], of "NewPosition 4 (Some 2)" sample_hash]
  show ?thesis
    by (simp add: in_tree_def NewPosition_def IndexAtDepth_def NewTraceProvider_def alphabet_correct_def
      alphabet_state_def pos_leaf_def last_leaf_def)
qed

end
