(* ===== verification/Game_Play.thy ===== *)
theory Game_Play
  imports Game_Obeys
begin

unbundle bit_operations_syntax

text \<open>
  A dispute game as it is played: opponents append any claim the contract accepts, the challenger appends the
  claims of the moves \<open>CalculateNextActions\<close> returned on the game or on an earlier state of it.  In every
  reachable game all the rules of \<open>rules.go\<close> hold, \<open>doNotCounterSelf\<close> included.
\<close>

inductive play :: "keccak256 \<Rightarrow> 'c TraceProvider \<Rightarrow> Depth \<Rightarrow> gameState \<Rightarrow> bool" for keccak P D where
  play_root: "claims_ok D [c] \<Longrightarrow> Claimant c \<noteq> challengerAddr \<Longrightarrow> (depth (Pos c) < D \<longrightarrow> CounteredBy c = 0) \<Longrightarrow>
    play keccak P D (NewGameState keccak [c] D)"
| play_opponent: "play keccak P D g \<Longrightarrow> claims_ok D (claims g @ [c]) \<Longrightarrow> Claimant c \<noteq> challengerAddr \<Longrightarrow>
    (depth (Pos c) < D \<longrightarrow> CounteredBy c = 0) \<Longrightarrow> play keccak P D (NewGameState keccak (claims g @ [c]) D)"
| play_challenger: "play keccak P D g \<Longrightarrow> 0 < k \<Longrightarrow> k \<le> length (claims g) \<Longrightarrow>
    CalculateNextActions keccak (newClaimSolver D (NewSimpleTraceAccessor P)) (NewGameState keccak (take k (claims g)) D)
      = Inr (acts, err) \<Longrightarrow>
    x \<in> set acts \<Longrightarrow> Type x = ActionTypeMove \<Longrightarrow> resultingPosition g x = Inr (Pos c) \<Longrightarrow> Value c = ActValue x \<Longrightarrow>
    ParentContractIndex c = ContractIndex (ParentClaim x) \<Longrightarrow> ContractIndex c = int (length (claims g)) \<Longrightarrow>
    Claimant c = challengerAddr \<Longrightarrow> (depth (Pos c) < D \<longrightarrow> CounteredBy c = 0) \<Longrightarrow>
    play keccak P D (NewGameState keccak (claims g @ [c]) D)"

section \<open>Extending a game\<close>

lemma NewGameState_simps [simp]:
  "claims (NewGameState keccak cs D) = cs" "MaxDepth (NewGameState keccak cs D) = D"
  by (simp_all add: NewGameState_def)

lemma game_wf_New: "game_wf keccak (NewGameState keccak cs D) \<longleftrightarrow> claims_ok D cs"
  by (simp add: game_wf_def)

lemma claims_ok_snoc:
  assumes "claims_ok D cs" "c \<noteq> noClaim" "ContractIndex c = int (length cs)" "ParentContractIndex c = int j"
    "j < length cs" "depth (Pos (cs ! j)) < D" "responds (Pos (cs ! j)) (Pos c)"
  shows "claims_ok D (cs @ [c])"
proof -
  have "list_all (\<lambda>i. ContractIndex ((cs @ [c]) ! i) = int i \<and>
       (i \<noteq> 0 \<longrightarrow> 0 \<le> ParentContractIndex ((cs @ [c]) ! i) \<and> ParentContractIndex ((cs @ [c]) ! i) < int i \<and>
          depth (Pos ((cs @ [c]) ! nat (ParentContractIndex ((cs @ [c]) ! i)))) < D \<and>
          responds (Pos ((cs @ [c]) ! nat (ParentContractIndex ((cs @ [c]) ! i)))) (Pos ((cs @ [c]) ! i)))) [0..<length cs]"
    using assms(1) unfolding claims_ok_def list_all_iff by (auto simp: nth_append nat_less_iff)
  with assms show ?thesis by (simp add: claims_ok_def nth_append)
qed

lemma claims_ok_take: "claims_ok D cs \<Longrightarrow> 0 < k \<Longrightarrow> claims_ok D (take k cs)"
proof -
  assume cs: "claims_ok D cs" and k: "0 < k"
  have "take k cs ! nat (ParentContractIndex (cs ! i)) = cs ! nat (ParentContractIndex (cs ! i))"
    if "i < k" "i < length cs" "i \<noteq> 0" for i
    using claims_okD(3) [OF cs that(2,3)] that(1) by auto
  then show ?thesis using cs k unfolding claims_ok_def list_all_iff by (auto dest: in_set_takeD)
qed

lemma extend_getParent:
  assumes "game_wf keccak g" "claims g' = claims g @ ds" "c \<in> set (claims g)"
  shows "getParent g' c = getParent g c"
proof (cases "getParent g c")
  case None
  then have "IsRoot c" using no_parent_root [OF assms(1,3)] by blast
  then show ?thesis using None by (simp add: getParent_def)
next
  case (Some p)
  then show ?thesis using assms(2) by (auto simp: getParent_def nth_append split: if_splits)
qed

lemma extend_defs:
  assumes "MaxDepth g' = MaxDepth g"
  shows "truthful correct g' = truthful correct g" "honest_move correct g' = honest_move correct g"
    "honest_position correct g' = honest_position correct g"
proof -
  show t: "truthful correct g' = truthful correct g" using assms by (simp add: truthful_def fun_eq_iff)
  then show p: "honest_position correct g' = honest_position correct g" by (simp add: honest_position_def fun_eq_iff)
  show "honest_move correct g' = honest_move correct g" using p assms by (simp add: honest_move_def fun_eq_iff)
qed

lemma extend_shouldCounter:
  assumes "game_wf keccak g" "claims g' = claims g @ ds" "MaxDepth g' = MaxDepth g" "c \<in> set (claims g)"
  shows "shouldCounter keccak g' c a = shouldCounter keccak g c a"
  by (simp only: shouldCounter_def GetParent_def extend_getParent [OF assms(1,2,4)] assms(3))

lemma extend_track:
  assumes "game_wf keccak g" "claims g' = claims g @ ds" "MaxDepth g' = MaxDepth g" "set us \<subseteq> set (claims g)"
  shows "track_claims keccak correct g' us a = track_claims keccak correct g us a"
  using assms(4)
proof (induction us arbitrary: a)
  case Nil
  then show ?case by simp
next
  case (Cons c us)
  then have "track_claim keccak correct g' c a = track_claim keccak correct g c a"
    using extend_shouldCounter [OF assms(1-3), of c a] extend_defs [OF assms(3), of correct] assms(3)
    by (simp add: track_claim_def)
  with Cons show ?case by simp
qed

lemma extend_initial:
  assumes "game_wf keccak g" "claims g' = claims g @ ds" "MaxDepth g' = MaxDepth g"
  shows "initial_tracker keccak correct g' = initial_tracker keccak correct g"
  using root_claim [OF assms(1)] assms(2) extend_defs [OF assms(3), of correct] by (simp add: initial_tracker_def nth_append)

lemma extend_ids:
  assumes "ids_separate keccak correct g'" "claims g' = claims g @ ds" "MaxDepth g' = MaxDepth g"
  shows "ids_separate keccak correct g"
  using assms(1) extend_defs [OF assms(3), of correct] by (simp add: ids_separate_def assms(2))

lemma track_append:
  "track_claims keccak correct g (us @ vs) a = track_claims keccak correct g vs (track_claims keccak correct g us a)"
  by (induction us arbitrary: a) simp_all

lemma track_mono: "IsHonest keccak a c \<Longrightarrow> IsHonest keccak (track_claims keccak correct g us a) c"
  by (induction us arbitrary: a) (simp_all add: track_claim_def IsHonest_Add)

section \<open>The challenger's own claims stay honest\<close>

definition own_honest :: "keccak256 \<Rightarrow> (int \<Rightarrow> Hash) \<Rightarrow> gameState \<Rightarrow> bool" where
  "own_honest keccak correct g \<longleftrightarrow> (\<forall>us c vs. claims g = us @ c # vs \<longrightarrow> Claimant c = challengerAddr \<longrightarrow>
     IsHonest keccak (track_claims keccak correct g us (initial_tracker keccak correct g)) c)"

lemma own_honest_snoc:
  assumes "game_wf keccak g" "own_honest keccak correct g"
    "Claimant c = challengerAddr \<Longrightarrow>
      IsHonest keccak (track_claims keccak correct g (claims g) (initial_tracker keccak correct g)) c"
  shows "own_honest keccak correct (NewGameState keccak (claims g @ [c]) (MaxDepth g))"
  unfolding own_honest_def
proof (intro allI impI)
  let ?g = "NewGameState keccak (claims g @ [c]) (MaxDepth g)"
  note ext = extend_track [OF assms(1), of ?g "[c]"] extend_initial [OF assms(1), of ?g "[c]"]
  fix us d vs assume split: "claims ?g = us @ d # vs" and own: "Claimant d = challengerAddr"
  show "IsHonest keccak (track_claims keccak correct ?g us (initial_tracker keccak correct ?g)) d"
  proof (cases vs rule: rev_cases)
    case Nil
    with split have "us = claims g" "d = c" by simp_all
    with assms(3) own ext show ?thesis by simp
  next
    case (snoc ws w)
    with split have c: "claims g = us @ d # ws" by simp
    with assms(2) own have "IsHonest keccak (track_claims keccak correct g us (initial_tracker keccak correct g)) d"
      unfolding own_honest_def by blast
    moreover have "set us \<subseteq> set (claims g)" using c by auto
    ultimately show ?thesis by (simp add: ext)
  qed
qed

lemma prefix_split:
  assumes "take k cs = us @ p # vs"
  obtains ws where "cs = us @ p # ws"
proof -
  have "cs = take k cs @ drop k cs" by simp
  with assms have "cs = us @ p # (vs @ drop k cs)" by simp
  then show thesis using that by blast
qed

text \<open>The claim of a move computed on an earlier state of the game is honest in the tracker of the game.\<close>

lemma posted_claim_honest:
  fixes P :: "'c TraceProvider"
  assumes "game_wf keccak g" "trace_ok keccak (MaxDepth g) P correct" "ids_separate keccak correct g"
    "prov_GetL2BlockNumberChallenge P = fail ErrL2BlockNumberValid" "0 < k" "k \<le> length (claims g)"
    "CalculateNextActions keccak (solver g P) (NewGameState keccak (take k (claims g)) (MaxDepth g)) = Inr (acts, err)"
    "x \<in> set acts" "Type x = ActionTypeMove"
  obtains p where "p \<in> set (claims g)" "ParentClaim x = p" "depth (Pos p) < MaxDepth g"
    "resultingPosition g x = Inr (honest_position correct g p)" "ActValue x = Value (honest_move correct g p)"
    "responds (Pos p) (honest_position correct g p)"
    "IsHonest keccak (track_claims keccak correct g (claims g) (initial_tracker keccak correct g)) (honest_move correct g p)"
proof -
  let ?g = "NewGameState keccak (take k (claims g)) (MaxDepth g)"
  have claims: "claims g = claims ?g @ drop k (claims g)" by simp
  have wf: "game_wf keccak ?g" using claims_ok_take [OF game_wf_claims [OF assms(1)] assms(5)] by (simp add: game_wf_New)
  have set: "setting keccak ?g P correct"
    using wf assms(2) extend_ids [OF assms(3) claims] by (simp add: setting_def)
  note same = extend_defs [of g ?g correct, simplified]
  have sol: "solver g P = solver ?g P" by simp
  obtain acts' where calc: "CalculateNextActions keccak (solver ?g P) ?g = Inr (acts', None)"
    and ans: "list_all (answers keccak correct ?g (claims ?g) (initial_tracker keccak correct ?g)) acts'"
    using CalculateNextActions_good [OF set assms(4)] .
  have "answers keccak correct ?g (claims ?g) (initial_tracker keccak correct ?g) x"
    using calc ans assms(7,8) unfolding sol by (simp add: list_all_iff)
  then obtain us p vs where a: "take k (claims g) = us @ p # vs"
    "shouldCounter keccak ?g p (track_claims keccak correct ?g us (initial_tracker keccak correct ?g)) = ok True"
    "good_move keccak correct ?g p x \<or> good_step keccak correct ?g p x" by (auto simp: answers_def)
  then have gm: "good_move keccak correct ?g p x" using assms(9) by (auto simp: good_step_def)
  obtain ws where ws: "claims g = us @ p # ws" using prefix_split [OF a(1)] .
  have p: "p \<in> set (claims g)" "ParentClaim x = p" "depth (Pos p) < MaxDepth g" "x = move_action correct ?g p"
    using gm ws by (simp_all add: good_move_def)
  have "\<not> (truthful correct g p \<and> IsRoot p)" using gm by (auto simp: good_move_def worth_ok_def same)
  note hr = honest_position_responds [OF this]
  have "parent_claim g x = Inr p" using parent_claim_of [OF assms(1) p(1,2)] .
  then have rp: "resultingPosition g x = Inr (honest_position correct g p)"
    using p(4) by (simp add: resultingPosition_def honest_position_def same)
  have av: "ActValue x = Value (honest_move correct g p)" using p(4) by (simp add: honest_move_def same)
  have us: "set us \<subseteq> set (claims ?g)" "p \<in> set (claims ?g)" using a(1) by auto
  have sc: "shouldCounter keccak g p (track_claims keccak correct g us (initial_tracker keccak correct g)) = ok True"
    using a(2) extend_shouldCounter [OF wf claims _ us(2)] extend_track [OF wf claims _ us(1)]
      extend_initial [OF wf claims] by simp
  have "IsHonest keccak (track_claims keccak correct g (claims g) (initial_tracker keccak correct g)) (honest_move correct g p)"
    unfolding ws track_append using sc p(3) by (simp add: track_claim_def IsHonest_Add track_mono)
  with that p rp av hr show thesis by blast
qed

lemma play_depth: "play keccak P D g \<Longrightarrow> MaxDepth g = D"
  by (induction rule: play.induct) simp_all

lemma play_invariant:
  fixes P :: "'c TraceProvider"
  assumes "play keccak P D g" "trace_ok keccak D P correct" "prov_GetL2BlockNumberChallenge P = fail ErrL2BlockNumberValid"
    "ids_separate keccak correct g"
  shows "game_wf keccak g \<and> MaxDepth g = D \<and> own_honest keccak correct g \<and>
    (\<forall>c \<in> set (claims g). depth (Pos c) < D \<longrightarrow> CounteredBy c = 0)"
  using assms(1,4)
proof (induction rule: play.induct)
  case (play_root c)
  then show ?case by (auto simp: game_wf_New own_honest_def Cons_eq_append_conv)
next
  case (play_opponent g c)
  have ih: "game_wf keccak g" "MaxDepth g = D" "own_honest keccak correct g"
    "\<forall>c \<in> set (claims g). depth (Pos c) < D \<longrightarrow> CounteredBy c = 0"
    using play_opponent.IH extend_ids [OF play_opponent.prems, of g "[c]"] play_depth [OF play_opponent.hyps(1)] by simp_all
  from own_honest_snoc [OF ih(1,3), of c] play_opponent.hyps ih show ?case by (simp add: game_wf_New)
next
  case (play_challenger g k acts err x c)
  have ih: "game_wf keccak g" "MaxDepth g = D" "own_honest keccak correct g"
    "\<forall>c \<in> set (claims g). depth (Pos c) < D \<longrightarrow> CounteredBy c = 0"
    using play_challenger.IH extend_ids [OF play_challenger.prems, of g "[c]"] play_depth [OF play_challenger.hyps(1)] by simp_all
  have ids: "ids_separate keccak correct g" using extend_ids [OF play_challenger.prems, of g "[c]"] ih(2) by simp
  note hyps = play_challenger.hyps
  obtain p where p: "p \<in> set (claims g)" "ParentClaim x = p" "depth (Pos p) < MaxDepth g"
    "resultingPosition g x = Inr (honest_position correct g p)" "ActValue x = Value (honest_move correct g p)"
    "responds (Pos p) (honest_position correct g p)"
    "IsHonest keccak (track_claims keccak correct g (claims g) (initial_tracker keccak correct g)) (honest_move correct g p)"
    using posted_claim_honest [OF ih(1) _ ids assms(3) hyps(2,3) _ hyps(5,6)] assms(2) hyps(4) ih(2) by metis
  note idx = claim_index [OF ih(1) p(1)]
  have pos: "Pos c = honest_position correct g p" using hyps(7) p(4) by simp
  have "same_claim (honest_move correct g p) c"
    using pos hyps(8,9) p(2,5) by (simp add: same_claim_def honest_move_def)
  then have "IsHonest keccak (track_claims keccak correct g (claims g) (initial_tracker keccak correct g)) c"
    using p(7) ID_same [of "honest_move correct g p" c keccak] by (simp add: IsHonest_def)
  then have own: "own_honest keccak correct (NewGameState keccak (claims g @ [c]) (MaxDepth g))"
    by (intro own_honest_snoc [OF ih(1,3)])
  have "c \<noteq> noClaim"
  proof
    assume "c = noClaim"
    then have "Pos c = \<lparr>depth = 0, indexAtDepth = None\<rparr>" by (simp add: noClaim_def)
    then show False using pos by (auto simp: honest_position_def position_defs split: if_splits)
  qed
  then have "claims_ok D (claims g @ [c])"
    using claims_ok_snoc [OF game_wf_claims [OF ih(1)], of c "nat (ContractIndex p)"] idx hyps(9,10) p(2,3,6) pos ih(2)
    by (simp add: nat_less_iff)
  with own ih hyps(12) show ?case by (simp add: game_wf_New)
qed

text \<open>C3: Consider a game reached by legal claims of opponents and by claims the challenger posts for its own
  moves (computed on the game or on an earlier state of it).  Assume that the claim IDs separate its claims (two
  claims of the game, or a claim and an honest response to one of them, have the same ID only when they are the
  same claim - the encoding that is hashed does not guarantee this), and that the provider has no challenge of
  the L2 block number to make (\<open>GetL2BlockNumberChallenge\<close> returns \<open>ErrL2BlockNumberValid\<close>).  Then
  CalculateNextActions returns without error and every action passes checkRules with no error at all: in
  particular the challenger never counters a claim of its own and never repeats a move.  (With
  such a challenge the single action is the challenge of the L2 block number; this case is not covered.)\<close>

theorem challenger_obeys_in_play:
  fixes P :: "'c TraceProvider"
  assumes "play keccak P D g" "trace_ok keccak D P correct" "ids_separate keccak correct g"
    "prov_GetL2BlockNumberChallenge P = fail ErrL2BlockNumberValid"
  shows "\<exists>acts. CalculateNextActions keccak (newClaimSolver D (NewSimpleTraceAccessor P)) g = Inr (acts, None) \<and>
    (\<forall>x \<in> set acts. checkRules keccak g x P = Some (Inr []))"
proof -
  from play_invariant [OF assms(1,2,4,3)] have inv: "game_wf keccak g" "MaxDepth g = D" "own_honest keccak correct g"
    "\<forall>c \<in> set (claims g). depth (Pos c) < MaxDepth g \<longrightarrow> CounteredBy c = 0" by simp_all
  have set: "setting keccak g P correct" using inv assms(2,3) by (simp add: setting_def)
  obtain acts where acts: "CalculateNextActions keccak (solver g P) g = Inr (acts, None)"
    "list_all (answers keccak correct g (claims g) (initial_tracker keccak correct g)) acts"
    using CalculateNextActions_good [OF set assms(4)] .
  have "checkRules keccak g x P = Some (Inr [])" if "x \<in> set acts" for x
  proof -
    have ans: "answers keccak correct g (claims g) (initial_tracker keccak correct g) x"
      using acts(2) that by (simp add: list_all_iff)
    then obtain us c vs where c: "claims g = us @ c # vs"
      "shouldCounter keccak g c (track_claims keccak correct g us (initial_tracker keccak correct g)) = ok True"
      "good_move keccak correct g c x \<or> good_step keccak correct g c x" by (auto simp: answers_def)
    have "Claimant c \<noteq> challengerAddr" using inv(3) c(1,2) by (auto simp: own_honest_def shouldCounter_def)
    moreover have "parent_claim g x = Inr c"
      using c(3) by (intro parent_claim_of [OF inv(1)]) (auto simp: good_move_def good_step_def)
    ultimately have "doNotCounterSelf g x P = passes" by (simp add: doNotCounterSelf_def)
    moreover have "rules keccak = butlast (rules keccak) @ [doNotCounterSelf]" by (simp add: rules_def)
    moreover note obeys_rules [OF set answers_good [OF ans] inv(4)]
    ultimately have "list_all (\<lambda>r. r g x P = passes) (butlast (rules keccak) @ [doNotCounterSelf])"
      by (simp only: list_all_append list.pred_inject simp_thms)
    then have "list_all (\<lambda>r. r g x P = passes) (rules keccak)" by (simp add: rules_def)
    then show ?thesis unfolding checkRules_def by (rule join_rules_pass)
  qed
  with acts(1) inv(2) show ?thesis by blast
qed

lemma be_dec_replicate:
  "be_dec (replicate (numeral k) b) = be_dec (replicate (pred_numeral k) b) * 256 + unat b"
  using be_dec_snoc [of "replicate (pred_numeral k) b" b] by (simp only: numeral_eq_Suc replicate_append_same replicate_Suc)

lemma sample_play: "play sample_hash P 2 sample_game"
proof -
  have "challengerAddr \<noteq> 7" by (simp add: challengerAddr_def BytesToAddress_def be_dec_replicate be_dec_snoc [of "[]", simplified])
  then have other: "Claimant (sample_claim v p i j) \<noteq> challengerAddr" "CounteredBy (sample_claim v p i j) = 0" for v p i j
    by (simp_all add: sample_claim_def noClaim_def)
  let ?c = "\<lambda>i. sample_claims ! i"
  have c: "?c i = sample_claim (Value (?c i)) (Pos (?c i)) (ContractIndex (?c i)) (ParentContractIndex (?c i))" if "i < 3" for i
    using that by (auto simp: sample_claims_def sample_claim_def noClaim_def less_Suc_eq numeral_3_eq_3)
  have own: "Claimant (?c i) \<noteq> challengerAddr" "CounteredBy (?c i) = 0" if "i < 3" for i
    using other c [OF that] by metis+
  have ok: "claims_ok 2 [?c 0, ?c 1, ?c 2]" using game_wf_claims [OF sample_game_wf] sample_claims_list by simp
  have ok1: "claims_ok 2 [?c 0]" and ok2: "claims_ok 2 [?c 0, ?c 1]"
    using claims_ok_take [OF ok, of 1] claims_ok_take [OF ok, of 2] by (simp_all add: numeral_2_eq_2)
  have "play sample_hash P 2 (NewGameState sample_hash [?c 0] 2)" using ok1 own [of 0] by (intro play_root) simp_all
  from play_opponent [OF this, of "?c 1"] have "play sample_hash P 2 (NewGameState sample_hash [?c 0, ?c 1] 2)"
    using ok2 own [of 1] by simp
  from play_opponent [OF this, of "?c 2"] have "play sample_hash P 2 (NewGameState sample_hash [?c 0, ?c 1, ?c 2] 2)"
    using ok own [of 2] by simp
  then show ?thesis using sample_claims_list by (simp add: sample_game_def)
qed

theorem challenger_obeys_in_play_witness:
  "\<exists>acts. CalculateNextActions sample_hash (newClaimSolver 2 (NewSimpleTraceAccessor sample_provider)) sample_game = Inr (acts, None) \<and>
    (\<forall>x \<in> set acts. checkRules sample_hash sample_game x sample_provider = Some (Inr []))"
  using challenger_obeys_in_play [OF sample_play sample_trace_ok sample_ids_separate]
  by (simp add: sample_provider_def)

end
