(* ===== verification/Game_Split.thy ===== *)
theory Game_Split
  imports Game_Trace
begin

unbundle bit_operations_syntax

text \<open>
  Split games: the selector of \<open>trace/split/split.go\<close> hands the bottom game the two claims of the
  top game that bound the disagreement, and the local context commits to both.
\<close>

section \<open>The selector\<close>

lemma line_restrict:
  assumes "line D (q # ps)" "depth q \<le> D'"
  shows "line D' (q # ps)"
  using assms
proof (induction "q # ps" arbitrary: q ps)
  case (line_root p)
  then show ?case by (simp add: line.line_root)
next
  case (line_step p ps q)
  have "depth q = depth p + 1" using line_step.hyps(4) by (auto simp: responds_def)
  then have "unat (depth q) = Suc (unat (depth p))" using line_step.hyps(3) by (simp add: unat_Suc_depth)
  then have "depth p < D'" using line_step.prems by (simp add: word_less_nat_alt word_le_nat_alt)
  with line_step show ?case by (simp add: line.line_step)
qed

lemma findAncestorAtDepth_found:
  assumes "game_wf keccak g" "ancestry (getParent g) (c # ps)" "set (c # ps) \<subseteq> set (claims g)" "d \<le> depth (Pos c)"
  shows "\<exists>a qs. dropWhile (\<lambda>a. depth (Pos a) \<noteq> d) (c # ps) = a # qs \<and> ancestry (getParent g) (a # qs) \<and>
    depth (Pos a) = d \<and> findAncestorAtDepth g c d = Some (ok a)"
  using assms(2-4)
proof (induction "c # ps" arbitrary: c ps)
  case (ancestry_top c)
  then have "depth (Pos c) = 0" using no_parent_root [OF assms(1)] by (auto simp: IsRoot_def IsRootPosition_def)
  then show ?case using ancestry_top by (simp add: findAncestorAtDepth.simps [of g c] ancestry_sing)
next
  case (ancestry_child p ps c)
  have "unat (depth (Pos c)) = Suc (unat (depth (Pos p)))"
    using getParent_wf [OF assms(1), of c] ancestry_child.hyps(3) ancestry_child.prems(1) unat_Suc_depth by (auto simp: responds_def)
  moreover have "GetParent g c = Inr p" using ancestry_child.hyps(3) by (simp add: GetParent_def)
  moreover have "ancestry (getParent g) (c # p # ps)" using ancestry_child.hyps by (simp add: ancestry_Cons2)
  ultimately show ?case
    using ancestry_child.hyps(2) ancestry_child.prems
    by (cases "d < depth (Pos c)")
      (auto simp: findAncestorAtDepth.simps [of g c] word_less_nat_alt word_le_nat_alt word_unat_eq_iff)
qed

lemma findAncestorWithTraceIndex_walk:
  assumes "ancestry (getParent g) (c # ps)" "\<forall>a \<in> set (c # ps). depth (Pos a) \<le> d"
    "b \<in> set (c # ps)" "pos_leaf d (Pos b) = idx"
  shows "\<exists>a. List.find (\<lambda>a. pos_leaf d (Pos a) = idx) (c # ps) = Some a \<and> findAncestorWithTraceIndex g c d idx = Some (ok a)"
  using assms
proof (induction "c # ps" arbitrary: c ps)
  case (ancestry_top c)
  then show ?case by (simp add: findAncestorWithTraceIndex.simps [of g c] TraceIndex_eq linorder_not_less)
next
  case (ancestry_child p ps c)
  have gp: "GetParent g c = Inr p" using ancestry_child.hyps(3) by (simp add: GetParent_def)
  have t: "TraceIndex (Pos c) d = Inr (pos_leaf d (Pos c))"
    using ancestry_child.prems(1) by (simp add: TraceIndex_eq linorder_not_less)
  show ?case
  proof (cases "pos_leaf d (Pos c) = idx")
    case True
    then show ?thesis using t by (simp add: findAncestorWithTraceIndex.simps [of g c])
  next
    case False
    then have "b \<in> set (p # ps)" using ancestry_child.prems(2,3) by auto
    with ancestry_child.hyps(2) ancestry_child.prems(1,3) obtain a where
      "List.find (\<lambda>a. pos_leaf d (Pos a) = idx) (p # ps) = Some a" "findAncestorWithTraceIndex g p d idx = Some (ok a)" by auto
    then show ?thesis using False t gp by (auto simp: findAncestorWithTraceIndex.simps [of g c])
  qed
qed

lemma pos_leaf_depth: "depth p = d \<Longrightarrow> pos_leaf d p = IndexAtDepth p"
  by (simp add: pos_leaf_def last_leaf_def)

lemma ancestry_line_at:
  assumes "game_wf keccak g" "c \<in> set (claims g)" "depth (Pos c) = d" "ancestry (getParent g) (c # ps)"
  shows "line d (map Pos (c # ps))" "\<forall>a \<in> set (c # ps). depth (Pos a) \<le> d" "\<forall>a \<in> set (c # ps). a \<in> set (claims g)"
proof -
  show line: "line d (map Pos (c # ps))"
    using line_restrict [of "MaxDepth g" "Pos c" "map Pos ps" d] ancestry_line [OF assms(1,2,4)] assms(3) by simp
  have sub: "line D qs \<Longrightarrow> \<forall>q \<in> set qs. depth q \<le> D" for D qs
    by (induction rule: line.induct) (auto simp: IsRootPosition_def responds_def depth_step_le)
  from sub [OF line] show "\<forall>a \<in> set (c # ps). depth (Pos a) \<le> d" by simp
  show "\<forall>a \<in> set (c # ps). a \<in> set (claims g)" using gs.ancestry_members [OF assms(1,2,4)] by blast
qed

text \<open>The nearest claim above \<open>leaf\<close> (its ancestors are \<open>ps\<close>) whose trace index at the depth \<open>d\<close> is \<open>idx\<close>.\<close>

definition nearest_with_index :: "Depth \<Rightarrow> int \<Rightarrow> Claim list \<Rightarrow> Claim option" where
  "nearest_with_index d idx ps = List.find (\<lambda>a. TraceIndex (Pos a) d = Inr idx) ps"

lemma find_tail:
  assumes "List.find (\<lambda>a. pos_leaf d (Pos a) = idx) (c # ps) = Some a" "pos_leaf d (Pos c) \<noteq> idx"
    "\<forall>a \<in> set (c # ps). depth (Pos a) \<le> d"
  shows "nearest_with_index d idx ps = Some a"
proof -
  have "nearest_with_index d idx ps = List.find (\<lambda>a. pos_leaf d (Pos a) = idx) ps"
    unfolding nearest_with_index_def
    by (rule find_cong [OF refl]) (use assms(3) in \<open>auto simp: TraceIndex_eq linorder_not_less\<close>)
  then show ?thesis using assms(1,2) by simp
qed

lemma split_bounds_neighbours:
  assumes "game_wf keccak g" "leaf \<in> set (claims g)" "depth (Pos leaf) = d" "d < depth pos" "in_tree pos"
    "ancestry (getParent g) (leaf # ps)"
  shows "\<exists>i j k pre_claim post_claim.
    TraceIndex pos (depth pos) = Inr j \<and> TraceIndex (Pos leaf) (depth pos) = Inr i \<and> TraceIndex (Pos leaf) d = Inr k \<and>
    (if i < j then pre_claim = leaf \<and> nearest_with_index d (k + 1) ps = Some post_claim
     else post_claim = leaf \<and>
       (if k = 0 then pre_claim = noClaim else nearest_with_index d (k - 1) ps = Some pre_claim)) \<and>
    split_bounds d g leaf pos = Some (ok (pre_claim, post_claim))"
proof -
  note ps = assms(6)
  note at = ancestry_line_at [OF assms(1-3) ps]
  have sp: "span d (Pos leaf) = 1" using assms(3) by (simp add: span_def)
  note near = line_neighbours [OF at(1) [simplified], unfolded sp pos_leaf_depth [OF assms(3)]]
  let ?i = "IndexAtDepth (Pos leaf)"
  have nt: "\<not> depth pos < d" "\<not> depth pos < depth (Pos leaf)" using assms(3,4) by auto
  have ti: "TraceIndex pos (depth pos) = Inr (pos_leaf (depth pos) pos)"
    "TraceIndex (Pos leaf) (depth pos) = Inr (pos_leaf (depth pos) (Pos leaf))" "TraceIndex (Pos leaf) d = Inr ?i"
    using nt assms(3) by (simp_all add: TraceIndex_eq pos_leaf_depth)
  have found: "\<exists>a. nearest_with_index d idx ps = Some a \<and> findAncestorWithTraceIndex g leaf d idx = Some (ok a)"
    if "b \<in> set ps" "pos_leaf d (Pos b) = idx" "idx \<noteq> ?i" for b idx
    using findAncestorWithTraceIndex_walk [OF ps at(2) _ that(2)] find_tail [OF _ _ at(2)] that pos_leaf_depth [OF assms(3)] by auto
  show ?thesis
  proof (cases "pos_leaf (depth pos) (Pos leaf) < pos_leaf (depth pos) pos")
    case True
    have "ps \<noteq> []"
    proof
      assume "ps = []"
      then have "IsRootPosition (Pos leaf)" using line_facts [OF at(1) [simplified]] by simp
      then have "pos_leaf (depth pos) (Pos leaf) = 2 ^ unat (depth pos) - 1"
        by (simp add: IsRootPosition_def pos_leaf_def last_leaf_def)
      moreover have "pos_leaf (depth pos) pos < 2 ^ unat (depth pos)" using pos_leaf_bound [OF assms(5)] by simp
      ultimately show False using True by simp
    qed
    then obtain b where "b \<in> set ps" "pos_leaf d (Pos b) = ?i + 1" using near by auto
    then obtain a where a: "nearest_with_index d (?i + 1) ps = Some a" "findAncestorWithTraceIndex g leaf d (?i + 1) = Some (ok a)"
      using found by fastforce
    then have "split_bounds d g leaf pos = Some (ok (leaf, a))" using True by (simp add: split_bounds_def ti)
    then show ?thesis using True a(1) ti by simp
  next
    case False
    show ?thesis
    proof (cases "?i = 0")
      case True
      then have "split_bounds d g leaf pos = Some (ok (noClaim, leaf))" using False by (simp add: split_bounds_def ti)
      then show ?thesis using True False ti by simp
    next
      case nz: False
      then obtain b where "b \<in> set ps" "pos_leaf d (Pos b) = ?i - 1" using near by auto
      then obtain a where a: "nearest_with_index d (?i - 1) ps = Some a" "findAncestorWithTraceIndex g leaf d (?i - 1) = Some (ok a)"
        using found by fastforce
      then have "split_bounds d g leaf pos = Some (ok (a, leaf))" using False nz by (simp add: split_bounds_def ti)
      then show ?thesis using False nz a(1) ti by simp
    qed
  qed
qed

text \<open>C33: In a game of the contract the split selector picks the claims that bound the disagreement.  Let
  \<open>leaf\<close> be the ancestor of the reference claim at the split depth, and \<open>k\<close> its trace index there.  For a
  position of the bottom game beyond the trace index of \<open>leaf\<close> (a defence of it) the bottom provider is created
  from \<open>leaf\<close> and the nearest ancestor with index \<open>k + 1\<close>; for any other position (an attack) from the nearest
  ancestor with index \<open>k - 1\<close>, or no claim when \<open>k = 0\<close>, and \<open>leaf\<close>.  These ancestors always exist; the
  provider gets the depth left below the split and is translated to the level below it.\<close>

theorem NewSplitProviderSelector_bounds:
  assumes "game_wf keccak g" "ref \<in> set (claims g)" "topDepth \<le> depth (Pos ref)" "topDepth < depth pos" "in_tree pos"
  shows "\<exists>qs leaf ps i j k pre_claim post_claim.
    ancestry (getParent g) (ref # qs) \<and> dropWhile (\<lambda>a. depth (Pos a) \<noteq> topDepth) (ref # qs) = leaf # ps \<and>
    TraceIndex pos (depth pos) = Inr j \<and> TraceIndex (Pos leaf) (depth pos) = Inr i \<and> TraceIndex (Pos leaf) topDepth = Inr k \<and>
    (if i < j then pre_claim = leaf \<and> nearest_with_index topDepth (k + 1) ps = Some post_claim
     else post_claim = leaf \<and>
       (if k = 0 then pre_claim = noClaim else nearest_with_index topDepth (k - 1) ps = Some pre_claim)) \<and>
    NewSplitProviderSelector topProvider topDepth creator g ref pos =
      Some (bind_go (creator (MaxDepth g - topDepth - 1) pre_claim post_claim) (\<lambda>p. ok (Translate p (topDepth + 1))))"
proof -
  obtain qs where qs: "ancestry (getParent g) (ref # qs)" using gs.ancestry_exists [OF assms(1,2)] by blast
  have mem: "set (ref # qs) \<subseteq> set (claims g)" using gs.ancestry_members [OF assms(1,2) qs] by blast
  from findAncestorAtDepth_found [OF assms(1) qs mem assms(3)] obtain leaf ps where
    leaf: "dropWhile (\<lambda>a. depth (Pos a) \<noteq> topDepth) (ref # qs) = leaf # ps" "ancestry (getParent g) (leaf # ps)"
      "depth (Pos leaf) = topDepth" "findAncestorAtDepth g ref topDepth = Some (ok leaf)" by blast
  have "leaf \<in> set (ref # qs)" by (metis leaf(1) list.set_intros(1) set_dropWhileD)
  then have "leaf \<in> set (claims g)" using mem by blast
  from split_bounds_neighbours [OF assms(1) this leaf(3) assms(4,5) leaf(2)] obtain i j k pre_claim post_claim where
    b: "TraceIndex pos (depth pos) = Inr j" "TraceIndex (Pos leaf) (depth pos) = Inr i" "TraceIndex (Pos leaf) topDepth = Inr k"
      "if i < j then pre_claim = leaf \<and> nearest_with_index topDepth (k + 1) ps = Some post_claim
       else post_claim = leaf \<and> (if k = 0 then pre_claim = noClaim else nearest_with_index topDepth (k - 1) ps = Some pre_claim)"
      "split_bounds topDepth g leaf pos = Some (ok (pre_claim, post_claim))" by blast
  have "bind_run (Some m) (\<lambda>p. Some (ok (f p))) = Some (bind_go m (\<lambda>p. ok (f p)))" for m :: "'a TraceProvider go" and f :: "'a TraceProvider \<Rightarrow> 'a TraceProvider"
    by (cases m; cases "projr m") auto
  moreover have nt: "\<not> depth pos \<le> topDepth" "\<not> depth (Pos ref) < topDepth" using assms(3,4) by auto
  ultimately have "NewSplitProviderSelector topProvider topDepth creator g ref pos =
      Some (bind_go (creator (MaxDepth g - topDepth - 1) pre_claim post_claim) (\<lambda>p. ok (Translate p (topDepth + 1))))"
    using leaf(4) b(5) nt by (simp add: NewSplitProviderSelector_def Let_def)
  with qs leaf(1) b(1-4) show ?thesis by blast
qed

theorem NewSplitProviderSelector_bounds_witness:
  "NewSplitProviderSelector (AlphabetProvider sample_hash (NewTraceProvider 5 1)) 1
      (\<lambda>_ _ _. ok (AlphabetProvider sample_hash (NewTraceProvider 7 1))) sample_game (sample_claims ! 2) (NewPosition 2 (Some 2)) =
      Some (ok (Translate (AlphabetProvider sample_hash (NewTraceProvider 7 1)) 2))"
proof -
  have "sample_claims ! 2 \<in> set (claims sample_game)" "(1 :: Depth) \<le> depth (Pos (sample_claims ! 2))"
    "1 < depth (NewPosition 2 (Some 2))" "in_tree (NewPosition 2 (Some 2))"
    by (simp_all add: in_tree_def NewPosition_def IndexAtDepth_def)
  from NewSplitProviderSelector_bounds [OF sample_game_wf this, of "AlphabetProvider sample_hash (NewTraceProvider 5 1)"
      "\<lambda>_ _ _. ok (AlphabetProvider sample_hash (NewTraceProvider 7 1))"] show ?thesis by auto
qed

section \<open>The local context\<close>

lemma FillBytes_small: "0 \<le> x \<Longrightarrow> x < 256 ^ n \<Longrightarrow> FillBytes n x = Inr (be_enc n (nat x))"
  by (simp add: FillBytes_def not_le nat_less_iff del: power_numeral)

lemma be_enc_inject: "x < 256 ^ n \<Longrightarrow> y < 256 ^ n \<Longrightarrow> be_enc n x = be_enc n y \<Longrightarrow> x = y"
  by (metis be_dec_enc mod_less)

lemma gindex_bound:
  assumes "in_tree p" "depth p < 256"
  shows "0 \<le> ToGIndex p \<and> ToGIndex p < 256 ^ 32"
proof -
  have "unat (depth p) < 256" using assms(2) by (simp add: word_less_nat_alt)
  then have "(2::int) ^ Suc (unat (depth p)) \<le> 2 ^ 256" by (intro power_increasing) simp_all
  moreover have "(2::int) ^ 256 = 256 ^ 32" by simp
  moreover have "ToGIndex p < 2 ^ Suc (unat (depth p))" "0 \<le> ToGIndex p" using assms(1) by (simp_all add: ToGIndex_eq in_tree_def)
  ultimately show ?thesis by linarith
qed

definition context_bytes :: "Claim \<Rightarrow> byte list" where
  "context_bytes c = Hash_Bytes (Value c) @ be_enc 32 (nat (ToGIndex (Pos c)))"

lemma encodeClaim_ok: "in_tree (Pos c) \<Longrightarrow> depth (Pos c) < 256 \<Longrightarrow> encodeClaim c = Inr (context_bytes c)"
  using gindex_bound [of "Pos c"] FillBytes_small [of "ToGIndex (Pos c)" 32] by (simp add: encodeClaim_def context_bytes_def)

lemma context_bytes_inject:
  assumes "in_tree (Pos c)" "depth (Pos c) < 256" "in_tree (Pos c')" "depth (Pos c') < 256" "context_bytes c = context_bytes c'"
  shows "Value c = Value c' \<and> depth (Pos c) = depth (Pos c') \<and> IndexAtDepth (Pos c) = IndexAtDepth (Pos c')"
proof -
  have eqs: "Hash_Bytes (Value c) = Hash_Bytes (Value c')" "be_enc 32 (nat (ToGIndex (Pos c))) = be_enc 32 (nat (ToGIndex (Pos c')))"
    using assms(5) by (simp_all add: context_bytes_def)
  note b = gindex_bound [OF assms(1,2)] gindex_bound [OF assms(3,4)]
  have "nat (ToGIndex (Pos c)) < 256 ^ 32" "nat (ToGIndex (Pos c')) < 256 ^ 32"
    using b by (simp_all add: nat_less_iff)
  from be_enc_inject [OF this eqs(2)] b have "ToGIndex (Pos c) = ToGIndex (Pos c')" by (simp add: nat_eq_iff)
  with ToGIndex_inject [OF assms(1,3)] Hash_Bytes_inject [OF eqs(1)] show ?thesis by simp
qed

text \<open>The local context of a bottom game commits to its bounds: for positions of depth below 256 the
  pre-image never panics, and equal pre-images mean the same absence of a pre-claim and the same value
  and position of each claim.\<close>

theorem LocalContextPreimage_inject:
  assumes "in_tree (Pos a)" "depth (Pos a) < 256" "in_tree (Pos b)" "depth (Pos b) < 256"
    "in_tree (Pos a')" "depth (Pos a') < 256" "in_tree (Pos b')" "depth (Pos b') < 256"
    "LocalContextPreimage a b = LocalContextPreimage a' b'"
  shows "(\<exists>bytes. LocalContextPreimage a b = Inr bytes) \<and> (a = noClaim \<longleftrightarrow> a' = noClaim) \<and>
    Value b = Value b' \<and> depth (Pos b) = depth (Pos b') \<and> IndexAtDepth (Pos b) = IndexAtDepth (Pos b') \<and>
    Value a = Value a' \<and> depth (Pos a) = depth (Pos a') \<and> IndexAtDepth (Pos a) = IndexAtDepth (Pos a')"
proof -
  have len: "length (context_bytes c) = 64" for c by (simp add: context_bytes_def)
  then have ne: "context_bytes c \<noteq> []" for c by (metis list.size(3) zero_neq_numeral)
  have pre_image: "LocalContextPreimage x y = Inr ((if x \<noteq> noClaim then context_bytes x else []) @ context_bytes y)"
    if "in_tree (Pos x)" "depth (Pos x) < 256" "in_tree (Pos y)" "depth (Pos y) < 256" for x y
    using that by (simp add: LocalContextPreimage_def encodeClaim_ok)
  have eq: "(if a \<noteq> noClaim then context_bytes a else []) @ context_bytes b =
    (if a' \<noteq> noClaim then context_bytes a' else []) @ context_bytes b'"
    using assms(9) pre_image assms(1-8) by simp
  have "length ((if a \<noteq> noClaim then context_bytes a else []) @ context_bytes b) =
    length ((if a' \<noteq> noClaim then context_bytes a' else []) @ context_bytes b')" using eq by simp
  then have some: "a = noClaim \<longleftrightarrow> a' = noClaim" unfolding length_append by (simp add: len ne split: if_splits)
  have "context_bytes b = context_bytes b'" "a \<noteq> noClaim \<Longrightarrow> context_bytes a = context_bytes a'"
    using eq some by (simp_all add: len ne split: if_splits)
  then have "Value b = Value b' \<and> depth (Pos b) = depth (Pos b') \<and> IndexAtDepth (Pos b) = IndexAtDepth (Pos b')"
    "a \<noteq> noClaim \<Longrightarrow> Value a = Value a' \<and> depth (Pos a) = depth (Pos a') \<and> IndexAtDepth (Pos a) = IndexAtDepth (Pos a')"
    using context_bytes_inject assms(1-8) by blast+
  with some pre_image assms(1-4) show ?thesis by (cases "a = noClaim") simp_all
qed

theorem LocalContextPreimage_inject_witness:
  "LocalContextPreimage noClaim (sample_claims ! 1) \<noteq> LocalContextPreimage (sample_claims ! 0) (sample_claims ! 1)"
proof
  have tree: "in_tree (Pos noClaim)" "depth (Pos noClaim) < 256" "in_tree (Pos (sample_claims ! 1))" "depth (Pos (sample_claims ! 1)) < 256"
    "in_tree (Pos (sample_claims ! 0))" "depth (Pos (sample_claims ! 0)) < 256"
    by (simp_all add: in_tree_def NewPosition_def IndexAtDepth_def noClaim_def)
  assume "LocalContextPreimage noClaim (sample_claims ! 1) = LocalContextPreimage (sample_claims ! 0) (sample_claims ! 1)"
  from LocalContextPreimage_inject [OF tree(1,2,3,4,5,6,3,4) this] have "sample_claims ! 0 = noClaim" by simp
  then show False by (simp add: sample_claims_def sample_claim_def noClaim_def)
qed

end
