(* ===== verification/Trackers.thy ===== *)
theory Trackers
  imports VMState
begin

unbundle bit_operations_syntax

text \<open>
  The debug trackers of the VM: the call stack of \<open>cannon/mipsevm/exec/stack.go\<close>, one per thread
  (\<open>multithreaded/stack.go\<close>), the statistics of \<open>multithreaded/stats.go\<close>, and the symbol table of
  \<open>program/metadata.go\<close>.  The events the VM model logs are folded into the trackers' state.  The LRU
  cache of \<open>hashicorp/golang-lru\<close> is a parameter, a record of its three operations.
\<close>

section \<open>Symbol tables\<close>

record Symbol =
  SymName :: string
  SymStart :: Word
  SymSize :: Word

type_synonym Metadata = "Symbol list"

text \<open>
  \<open>debug/elf\<close>'s symbols (name, value, size) are an argument, and so is the unstable \<open>sort.Slice\<close>.
\<close>

definition MakeMetadata ::
  "((string \<times> Word \<times> Word) list \<Rightarrow> (string \<times> Word \<times> Word) list) \<Rightarrow> (string \<times> Word \<times> Word) list \<Rightarrow> Metadata" where
  "MakeMetadata sort_by_value syms =
     map (\<lambda>(n, v, sz). \<lparr>SymName = n, SymStart = v, SymSize = sz\<rparr>) (sort_by_value syms)"

text \<open>\<open>sort.Search\<close> of the standard library: binary search for the first index where \<open>f\<close> holds.\<close>

function search_loop :: "(nat \<Rightarrow> bool) \<Rightarrow> nat \<Rightarrow> nat \<Rightarrow> nat" where
  "search_loop f i j =
     (if i < j then let h = (i + j) div 2 in if \<not> f h then search_loop f (h + 1) j else search_loop f i h
      else i)"
  by pat_completeness auto
termination by (relation "measure (\<lambda>(f, i, j). j - i)") auto

declare search_loop.simps [simp del]

definition sort_Search :: "nat \<Rightarrow> (nat \<Rightarrow> bool) \<Rightarrow> nat" where
  "sort_Search n f = search_loop f 0 n"

definition LookupSymbol :: "Metadata \<Rightarrow> Word \<Rightarrow> string" where
  "LookupSymbol m addr =
     (if length m = 0 then ''!unknown''
      else let i = sort_Search (length m) (\<lambda>i. addr < SymStart (m ! i))
           in if i = 0 then ''!start''
              else let out = m ! (i - 1)
                   in if SymStart out + SymSize out < addr then ''!gap'' else SymName out)"

fun CreateSymbolMatcher :: "Metadata \<Rightarrow> string \<Rightarrow> Word \<Rightarrow> bool" where
  "CreateSymbolMatcher [] name addr = False"
| "CreateSymbolMatcher (s # ss) name addr =
     (if SymName s = name then SymStart s \<le> addr \<and> addr < SymStart s + SymSize s
      else CreateSymbolMatcher ss name addr)"

section \<open>Call stacks\<close>

record StackTracker =
  stack :: "Word list"
  callers :: "Word list"

definition NewStackTrackerUnsafe :: StackTracker where
  "NewStackTrackerUnsafe = \<lparr>stack = [], callers = []\<rparr>"

definition StackTracker_PushStack :: "Word \<Rightarrow> Word \<Rightarrow> StackTracker \<Rightarrow> StackTracker" where
  "StackTracker_PushStack caller target s = s\<lparr>callers := callers s @ [caller], stack := stack s @ [target]\<rparr>"

text \<open>\<open>snap i\<close>: the loop from frame \<open>i - 1\<close> down to the last frame of the function \<open>fn\<close>.\<close>

fun snap :: "(Word \<Rightarrow> string) \<Rightarrow> string \<Rightarrow> nat \<Rightarrow> StackTracker \<Rightarrow> StackTracker res" where
  "snap lookup fn 0 s = Inr s"
| "snap lookup fn (Suc i) s =
     (if lookup (stack s ! i) = fn then
        if length (callers s) < i then Inl IndexOutOfRange
        else Inr (s\<lparr>stack := take i (stack s), callers := take i (callers s)\<rparr>)
      else snap lookup fn i s)"

definition StackTracker_PopStack :: "(Word \<Rightarrow> string) \<Rightarrow> Word \<Rightarrow> StackTracker \<Rightarrow> StackTracker res" where
  "StackTracker_PopStack lookup pc s =
     (if length (stack s) \<noteq> 0 then
        let fn = lookup pc; topFn = lookup (stack s ! (length (stack s) - 1))
        in if fn \<noteq> topFn then snap lookup fn (length (stack s)) s
           else if length (callers s) = 0 then Inl IndexOutOfRange
           else Inr (s\<lparr>stack := take (length (stack s) - 1) (stack s), callers := take (length (callers s) - 1) (callers s)\<rparr>)
      else Inr s)"

type_synonym ThreadedStackTracker = "Word \<rightharpoonup> StackTracker"

definition NewThreadedStackTracker :: ThreadedStackTracker where
  "NewThreadedStackTracker = Map.empty"

definition getCurrentTracker :: "Word \<Rightarrow> ThreadedStackTracker \<Rightarrow> StackTracker \<times> ThreadedStackTracker" where
  "getCurrentTracker tid t =
     (case t tid of
        Some trk \<Rightarrow> (trk, t)
      | None \<Rightarrow> (NewStackTrackerUnsafe, t(tid \<mapsto> NewStackTrackerUnsafe)))"

definition Threaded_PushStack :: "Word \<Rightarrow> Word \<Rightarrow> Word \<Rightarrow> ThreadedStackTracker \<Rightarrow> ThreadedStackTracker" where
  "Threaded_PushStack tid caller target t =
     (let (trk, t1) = getCurrentTracker tid t in t1(tid \<mapsto> StackTracker_PushStack caller target trk))"

definition Threaded_PopStack :: "(Word \<Rightarrow> string) \<Rightarrow> Word \<Rightarrow> Word \<Rightarrow> ThreadedStackTracker \<Rightarrow> ThreadedStackTracker res" where
  "Threaded_PopStack lookup tid pc t =
     (let (trk, t1) = getCurrentTracker tid t
      in bind_res (StackTracker_PopStack lookup pc trk) (\<lambda>trk'. Inr (t1(tid \<mapsto> trk'))))"

definition DropThread :: "Word \<Rightarrow> ThreadedStackTracker \<Rightarrow> ThreadedStackTracker" where
  "DropThread tid t = t(tid := None)"

fun track_event :: "(Word \<Rightarrow> string) \<Rightarrow> thread_stack_event \<Rightarrow> ThreadedStackTracker \<Rightarrow> ThreadedStackTracker res" where
  "track_event lookup (TPush tid caller target) t = Inr (Threaded_PushStack tid caller target t)"
| "track_event lookup (TPop tid pc) t = Threaded_PopStack lookup tid pc t"
| "track_event lookup (TDrop tid) t = Inr (DropThread tid t)"

definition track_events :: "(Word \<Rightarrow> string) \<Rightarrow> thread_stack_event list \<Rightarrow> ThreadedStackTracker \<Rightarrow> ThreadedStackTracker res" where
  "track_events lookup es t = fold_res (track_event lookup) es t"

fun event_thread :: "thread_stack_event \<Rightarrow> Word" where
  "event_thread (TPush tid _ _) = tid"
| "event_thread (TPop tid _) = tid"
| "event_thread (TDrop tid) = tid"

section \<open>Statistics\<close>

record 'l lru_ops =
  lru_Add :: "Word \<Rightarrow> Word \<Rightarrow> 'l \<Rightarrow> 'l"
  lru_Get :: "Word \<Rightarrow> 'l \<Rightarrow> Word option \<times> 'l"
  lru_Remove :: "Word \<Rightarrow> 'l \<Rightarrow> 'l"

record 'l statsTracker =
  lastLLStepByThread :: 'l
  activeThreadId :: Word
  lastActiveStepThread0 :: Word
  rmwSuccessCount :: Word
  rmwFailCount :: Word
  maxStepsBetweenLLAndSC :: Word
  reservationInvalidationCount :: Word
  forcedPreemptionCount :: Word
  idleStepCountThread0 :: Word

definition newStatsTracker :: "'l \<Rightarrow> 'l statsTracker" where
  "newStatsTracker llStepCache =
     \<lparr>lastLLStepByThread = llStepCache, activeThreadId = 0, lastActiveStepThread0 = 0, rmwSuccessCount = 0,
      rmwFailCount = 0, maxStepsBetweenLLAndSC = 0, reservationInvalidationCount = 0, forcedPreemptionCount = 0,
      idleStepCountThread0 = 0\<rparr>"

definition recordStepsBetweenLLAndSC :: "'l lru_ops \<Rightarrow> Word \<Rightarrow> Word \<Rightarrow> 'l statsTracker \<Rightarrow> 'l statsTracker" where
  "recordStepsBetweenLLAndSC ops threadId scStep s =
     (let (r, cache) = lru_Get ops threadId (lastLLStepByThread s)
      in case r of
           None \<Rightarrow> s\<lparr>lastLLStepByThread := cache\<rparr>
         | Some llStep \<Rightarrow>
             let diff = scStep - llStep;
                 s1 = (if maxStepsBetweenLLAndSC s < diff then s\<lparr>maxStepsBetweenLLAndSC := diff\<rparr> else s)
             in s1\<lparr>lastLLStepByThread := lru_Remove ops threadId cache\<rparr>)"

definition trackLL :: "'l lru_ops \<Rightarrow> Word \<Rightarrow> Word \<Rightarrow> 'l statsTracker \<Rightarrow> 'l statsTracker" where
  "trackLL ops threadId step s = s\<lparr>lastLLStepByThread := lru_Add ops threadId step (lastLLStepByThread s)\<rparr>"

definition trackSCSuccess :: "'l lru_ops \<Rightarrow> Word \<Rightarrow> Word \<Rightarrow> 'l statsTracker \<Rightarrow> 'l statsTracker" where
  "trackSCSuccess ops threadId step s =
     recordStepsBetweenLLAndSC ops threadId step (s\<lparr>rmwSuccessCount := rmwSuccessCount s + 1\<rparr>)"

definition trackSCFailure :: "'l lru_ops \<Rightarrow> Word \<Rightarrow> Word \<Rightarrow> 'l statsTracker \<Rightarrow> 'l statsTracker" where
  "trackSCFailure ops threadId step s =
     recordStepsBetweenLLAndSC ops threadId step (s\<lparr>rmwFailCount := rmwFailCount s + 1\<rparr>)"

definition trackReservationInvalidation :: "'l statsTracker \<Rightarrow> 'l statsTracker" where
  "trackReservationInvalidation s = s\<lparr>reservationInvalidationCount := reservationInvalidationCount s + 1\<rparr>"

definition trackForcedPreemption :: "'l statsTracker \<Rightarrow> 'l statsTracker" where
  "trackForcedPreemption s = s\<lparr>forcedPreemptionCount := forcedPreemptionCount s + 1\<rparr>"

definition trackThreadActivated :: "Word \<Rightarrow> Word \<Rightarrow> 'l statsTracker \<Rightarrow> 'l statsTracker" where
  "trackThreadActivated tid step s =
     (if activeThreadId s = 0 \<and> tid \<noteq> 0 then s\<lparr>lastActiveStepThread0 := step\<rparr>
      else if activeThreadId s \<noteq> 0 \<and> tid = 0 then
        s\<lparr>idleStepCountThread0 := idleStepCountThread0 s + (step - lastActiveStepThread0 s)\<rparr>
      else s)\<lparr>activeThreadId := tid\<rparr>"

fun stats_event :: "'l lru_ops \<Rightarrow> stats_event \<Rightarrow> 'l statsTracker \<Rightarrow> 'l statsTracker" where
  "stats_event ops (TrackLL tid step) s = trackLL ops tid step s"
| "stats_event ops (TrackSCSuccess tid step) s = trackSCSuccess ops tid step s"
| "stats_event ops (TrackSCFailure tid step) s = trackSCFailure ops tid step s"
| "stats_event ops TrackReservationInvalidation s = trackReservationInvalidation s"
| "stats_event ops TrackForcedPreemption s = trackForcedPreemption s"
| "stats_event ops (TrackThreadActivated tid step) s = trackThreadActivated tid step s"

definition stats_events :: "'l lru_ops \<Rightarrow> stats_event list \<Rightarrow> 'l statsTracker \<Rightarrow> 'l statsTracker" where
  "stats_events ops es s = fold (stats_event ops) es s"

section \<open>Properties of the stacks\<close>

definition tracker_even :: "StackTracker \<Rightarrow> bool" where
  "tracker_even s \<longleftrightarrow> length (stack s) = length (callers s)"

lemma snap_even:
  assumes "tracker_even s" "i \<le> length (stack s)"
  shows "\<exists>s'. snap lookup fn i s = Inr s' \<and> tracker_even s'"
  using assms by (induction i) (auto simp: tracker_even_def)

lemma PopStack_even: "tracker_even s \<Longrightarrow> \<exists>s'. StackTracker_PopStack lookup pc s = Inr s' \<and> tracker_even s'"
  using snap_even [of s "length (stack s)" lookup "lookup pc"]
  by (auto simp: StackTracker_PopStack_def Let_def tracker_even_def)

lemma PushStack_even: "tracker_even s \<Longrightarrow> tracker_even (StackTracker_PushStack caller target s)"
  by (simp add: tracker_even_def StackTracker_PushStack_def)

lemma empty_even: "tracker_even NewStackTrackerUnsafe"
  by (simp add: tracker_even_def NewStackTrackerUnsafe_def)

text \<open>One event touches the tracker of its own thread only, whatever the others are.\<close>

definition own_tracker :: "(Word \<Rightarrow> string) \<Rightarrow> thread_stack_event \<Rightarrow> StackTracker option \<Rightarrow> StackTracker option res" where
  "own_tracker lookup e s =
     (let s0 = (case s of None \<Rightarrow> NewStackTrackerUnsafe | Some x \<Rightarrow> x)
      in case e of
           TPush _ caller target \<Rightarrow> Inr (Some (StackTracker_PushStack caller target s0))
         | TPop _ pc \<Rightarrow> bind_res (StackTracker_PopStack lookup pc s0) (\<lambda>s'. Inr (Some s'))
         | TDrop _ \<Rightarrow> Inr None)"

lemma track_event_own:
  "track_event lookup e t = bind_res (own_tracker lookup e (t (event_thread e))) (\<lambda>s. Inr (t(event_thread e := s)))"
  by (cases e)
    (auto simp: own_tracker_def Threaded_PushStack_def Threaded_PopStack_def DropThread_def getCurrentTracker_def
      bind_res_assoc Let_def split: option.splits)

definition trackers_even :: "ThreadedStackTracker \<Rightarrow> bool" where
  "trackers_even t \<longleftrightarrow> (\<forall>tid s. t tid = Some s \<longrightarrow> tracker_even s)"

lemma own_tracker_even:
  assumes "\<And>x. s = Some x \<Longrightarrow> tracker_even x"
  shows "\<exists>s'. own_tracker lookup e s = Inr s' \<and> (\<forall>x. s' = Some x \<longrightarrow> tracker_even x)"
proof -
  define s0 where "s0 = (case s of None \<Rightarrow> NewStackTrackerUnsafe | Some x \<Rightarrow> x)"
  have even: "tracker_even s0" using assms empty_even by (cases s) (simp_all add: s0_def)
  have own: "own_tracker lookup e s =
     (case e of
           TPush _ caller target \<Rightarrow> Inr (Some (StackTracker_PushStack caller target s0))
         | TPop _ pc \<Rightarrow> bind_res (StackTracker_PopStack lookup pc s0) (\<lambda>s'. Inr (Some s'))
         | TDrop _ \<Rightarrow> Inr None)"
    by (simp only: own_tracker_def s0_def Let_def)
  show ?thesis
  proof (cases e)
    case (TPush tid c t)
    then show ?thesis using own PushStack_even [OF even] by simp
  next
    case (TPop tid pc)
    obtain s' where "StackTracker_PopStack lookup pc s0 = Inr s'" "tracker_even s'" using PopStack_even [OF even] by blast
    then show ?thesis using own TPop by simp
  next
    case (TDrop tid)
    then show ?thesis using own by simp
  qed
qed

text \<open>Folding any log of events into the per-thread call stacks never panics, keeps stack and callers of
  every thread equally long, and the stack of a thread depends on that thread's events only.\<close>

theorem track_events_per_thread:
  "\<exists>t. track_events lookup es NewThreadedStackTracker = Inr t \<and> trackers_even t \<and>
     (\<forall>tid. \<exists>t'. track_events lookup (filter (\<lambda>e. event_thread e = tid) es) NewThreadedStackTracker = Inr t' \<and> t' tid = t tid)"
proof (induction es rule: rev_induct)
  case Nil
  then show ?case by (simp add: track_events_def trackers_even_def NewThreadedStackTracker_def)
next
  case (snoc e es)
  then obtain t where t: "track_events lookup es NewThreadedStackTracker = Inr t" "trackers_even t"
    and own: "\<And>tid. \<exists>t'. track_events lookup (filter (\<lambda>e. event_thread e = tid) es) NewThreadedStackTracker = Inr t' \<and> t' tid = t tid"
    by blast
  have "\<And>x. t (event_thread e) = Some x \<Longrightarrow> tracker_even x" using t(2) by (auto simp: trackers_even_def)
  then obtain s where s: "own_tracker lookup e (t (event_thread e)) = Inr s" "\<And>x. s = Some x \<Longrightarrow> tracker_even x"
    using own_tracker_even [of "t (event_thread e)" lookup e] by blast
  have step: "track_event lookup e t1 = Inr (t1(event_thread e := s))" if "t1 (event_thread e) = t (event_thread e)" for t1
    using s(1) that by (simp add: track_event_own)
  have run: "track_events lookup (us @ [e]) t0 = track_event lookup e t1" if "track_events lookup us t0 = Inr t1" for us t0 t1
    using that by (simp add: track_events_def fold_res_append) (cases "track_event lookup e t1"; simp)
  have all: "\<exists>t'. track_events lookup (filter (\<lambda>e. event_thread e = tid) (es @ [e])) NewThreadedStackTracker = Inr t' \<and>
      t' tid = (t(event_thread e := s)) tid" for tid
  proof -
    obtain t' where t': "track_events lookup (filter (\<lambda>e. event_thread e = tid) es) NewThreadedStackTracker = Inr t'" "t' tid = t tid"
      using own by blast
    show ?thesis
    proof (cases "event_thread e = tid")
      case True
      then show ?thesis using run [OF t'(1)] step [of t'] t'(2) by simp
    next
      case False
      then show ?thesis using t' by simp
    qed
  qed
  have "trackers_even (t(event_thread e := s))" using t(2) s(2) by (auto simp: trackers_even_def)
  moreover have "track_events lookup (es @ [e]) NewThreadedStackTracker = Inr (t(event_thread e := s))"
    using run [OF t(1)] step [of t] by simp
  ultimately show ?case using all by blast
qed

section \<open>Properties of the statistics\<close>

definition count_events :: "(stats_event \<Rightarrow> bool) \<Rightarrow> stats_event list \<Rightarrow> Word" where
  "count_events P es = of_nat (length (filter P es))"

fun is_sc_success :: "stats_event \<Rightarrow> bool" where
  "is_sc_success (TrackSCSuccess _ _) = True" | "is_sc_success _ = False"

fun is_sc_failure :: "stats_event \<Rightarrow> bool" where
  "is_sc_failure (TrackSCFailure _ _) = True" | "is_sc_failure _ = False"

text \<open>The steps of the log while a thread other than thread 0 was active, as a specification.\<close>

fun idle_steps :: "Word option \<Rightarrow> stats_event list \<Rightarrow> Word" where
  "idle_steps since [] = 0"
| "idle_steps None (TrackThreadActivated tid step # es) = idle_steps (if tid \<noteq> 0 then Some step else None) es"
| "idle_steps (Some since) (TrackThreadActivated tid step # es) =
     (if tid = 0 then step - since + idle_steps None es else idle_steps (Some since) es)"
| "idle_steps since (_ # es) = idle_steps since es"

lemma record_other [simp]:
  "rmwSuccessCount (recordStepsBetweenLLAndSC ops tid st s) = rmwSuccessCount s"
  "rmwFailCount (recordStepsBetweenLLAndSC ops tid st s) = rmwFailCount s"
  "reservationInvalidationCount (recordStepsBetweenLLAndSC ops tid st s) = reservationInvalidationCount s"
  "forcedPreemptionCount (recordStepsBetweenLLAndSC ops tid st s) = forcedPreemptionCount s"
  "activeThreadId (recordStepsBetweenLLAndSC ops tid st s) = activeThreadId s"
  "lastActiveStepThread0 (recordStepsBetweenLLAndSC ops tid st s) = lastActiveStepThread0 s"
  "idleStepCountThread0 (recordStepsBetweenLLAndSC ops tid st s) = idleStepCountThread0 s"
  by (simp_all add: recordStepsBetweenLLAndSC_def Let_def split: prod.splits option.splits)

lemmas stats_defs = trackLL_def trackSCSuccess_def trackSCFailure_def trackReservationInvalidation_def
  trackForcedPreemption_def trackThreadActivated_def

lemma stats_counts:
  "rmwSuccessCount (stats_events ops es s) = rmwSuccessCount s + count_events is_sc_success es"
  "rmwFailCount (stats_events ops es s) = rmwFailCount s + count_events is_sc_failure es"
  "reservationInvalidationCount (stats_events ops es s) =
     reservationInvalidationCount s + count_events ((=) TrackReservationInvalidation) es"
  "forcedPreemptionCount (stats_events ops es s) = forcedPreemptionCount s + count_events ((=) TrackForcedPreemption) es"
proof (induction es arbitrary: s)
  case Nil
  { case 1 show ?case by (simp add: stats_events_def count_events_def) }
  { case 2 show ?case by (simp add: stats_events_def count_events_def) }
  { case 3 show ?case by (simp add: stats_events_def count_events_def) }
  { case 4 show ?case by (simp add: stats_events_def count_events_def) }
next
  case (Cons e es)
  { case 1 show ?case using Cons(1) [of "stats_event ops e s"] by (cases e) (simp_all add: stats_events_def count_events_def stats_defs) }
  { case 2 show ?case using Cons(2) [of "stats_event ops e s"] by (cases e) (simp_all add: stats_events_def count_events_def stats_defs) }
  { case 3 show ?case using Cons(3) [of "stats_event ops e s"] by (cases e) (simp_all add: stats_events_def count_events_def stats_defs) }
  { case 4 show ?case using Cons(4) [of "stats_event ops e s"] by (cases e) (simp_all add: stats_events_def count_events_def stats_defs) }
qed

lemma stats_idle:
  "idleStepCountThread0 (stats_events ops es s) = idleStepCountThread0 s +
     idle_steps (if activeThreadId s = 0 then None else Some (lastActiveStepThread0 s)) es"
proof (induction es arbitrary: s)
  case Nil
  then show ?case by (simp add: stats_events_def)
next
  case (Cons e es)
  show ?case
    using Cons [of "stats_event ops e s"] by (cases e) (auto simp: stats_events_def stats_defs algebra_simps)
qed

text \<open>Whatever the LRU cache does, the statistics folded from a log count, modulo 2^64, the successful and
  failed store-conditionals, the invalidated reservations and the forced preemptions of the log, and the
  idle steps of thread 0 are the sum of the intervals in which another thread was active.\<close>

theorem stats_events_count:
  "rmwSuccessCount (stats_events ops es (newStatsTracker cache)) = count_events is_sc_success es \<and>
   rmwFailCount (stats_events ops es (newStatsTracker cache)) = count_events is_sc_failure es \<and>
   reservationInvalidationCount (stats_events ops es (newStatsTracker cache)) = count_events ((=) TrackReservationInvalidation) es \<and>
   forcedPreemptionCount (stats_events ops es (newStatsTracker cache)) = count_events ((=) TrackForcedPreemption) es \<and>
   idleStepCountThread0 (stats_events ops es (newStatsTracker cache)) = idle_steps None es"
  by (simp add: stats_counts stats_idle newStatsTracker_def)

section \<open>Properties of the symbol table\<close>

text \<open>What the binary search promises: a boundary of a monotone predicate.\<close>

lemma search_loop_step:
  "search_loop f i j =
     (if i < j then if f ((i + j) div 2) then search_loop f i ((i + j) div 2) else search_loop f ((i + j) div 2 + 1) j else i)"
  by (subst search_loop.simps) (simp add: Let_def)

lemma search_loop_spec:
  assumes mono: "\<And>a b. f a \<Longrightarrow> a \<le> b \<Longrightarrow> b < n \<Longrightarrow> f b"
  shows "i \<le> j \<Longrightarrow> j \<le> n \<Longrightarrow> \<forall>k<i. \<not> f k \<Longrightarrow> \<forall>k<n. j \<le> k \<longrightarrow> f k \<Longrightarrow>
    search_loop f i j \<le> n \<and> (\<forall>k<n. f k \<longleftrightarrow> search_loop f i j \<le> k)"
proof (induction "j - i" arbitrary: i j rule: less_induct)
  case less
  show ?case
  proof (cases "i < j")
    case False
    have eq: "search_loop f i j = i" using False by (subst search_loop_step) simp
    show ?thesis unfolding eq using less.prems False by (metis le_antisym not_less)
  next
    case True
    define h where "h = (i + j) div 2"
    have h: "i \<le> h" "h < j" using True by (auto simp: h_def)
    show ?thesis
    proof (cases "f h")
      case f: True
      have up: "\<forall>k<n. h \<le> k \<longrightarrow> f k" using mono f by blast
      have eq: "search_loop f i j = search_loop f i h"
        using True f unfolding h_def by (subst search_loop_step) simp
      show ?thesis unfolding eq by (rule less.hyps) (use less.prems h up in auto)
    next
      case f: False
      have down: "\<forall>k<h + 1. \<not> f k"
      proof (intro allI impI notI)
        fix k assume "k < h + 1" "f k"
        then show False using mono [of k h] f h less.prems by simp
      qed
      have eq: "search_loop f i j = search_loop f (h + 1) j"
        using True f unfolding h_def by (subst search_loop_step) simp
      show ?thesis unfolding eq by (rule less.hyps) (use less.prems h down in auto)
    qed
  qed
qed

lemma sort_Search_spec:
  assumes "\<And>a b. f a \<Longrightarrow> a \<le> b \<Longrightarrow> b < n \<Longrightarrow> f b"
  shows "sort_Search n f \<le> n" "k < n \<Longrightarrow> f k \<longleftrightarrow> sort_Search n f \<le> k"
  using search_loop_spec [of f n 0 n] assms by (auto simp: sort_Search_def)

text \<open>The linear reading: the last symbol of the table that starts at or before the address.\<close>

definition lookup_linear :: "Metadata \<Rightarrow> Word \<Rightarrow> string" where
  "lookup_linear m addr =
     (let cs = filter (\<lambda>s. SymStart s \<le> addr) m
      in if m = [] then ''!unknown'' else if cs = [] then ''!start''
         else if SymStart (last cs) + SymSize (last cs) < addr then ''!gap'' else SymName (last cs))"

lemma filter_prefix:
  assumes "n \<le> length m" "\<And>k. k < length m \<Longrightarrow> P (m ! k) \<longleftrightarrow> k < n"
  shows "filter P m = take n m"
proof -
  have "\<forall>x\<in>set (take n m). P x" using assms by (auto simp: in_set_conv_nth)
  moreover have "\<forall>x\<in>set (drop n m). \<not> P x" using assms by (auto simp: in_set_conv_nth)
  ultimately have "filter P (take n m @ drop n m) = take n m"
    unfolding filter_append by (simp only: filter_True filter_False append_Nil2)
  then show ?thesis by simp
qed

lemma LookupSymbol_sorted:
  assumes "sorted (map SymStart m)"
  shows "LookupSymbol m addr = lookup_linear m addr"
proof -
  define f where "f = (\<lambda>i. addr < SymStart (m ! i))"
  define n where "n = sort_Search (length m) f"
  have mono: "f b" if "f a" "a \<le> b" "b < length m" for a b
    using that sorted_nth_mono [OF assms, of a b] by (simp add: f_def)
  have n: "n \<le> length m" "k < length m \<Longrightarrow> f k \<longleftrightarrow> n \<le> k" for k
    unfolding n_def by (rule sort_Search_spec [OF mono]; assumption)+
  have cs: "filter (\<lambda>s. SymStart s \<le> addr) m = take n m"
  proof (rule filter_prefix [OF n(1)])
    show "SymStart (m ! k) \<le> addr \<longleftrightarrow> k < n" if "k < length m" for k
      using n(2) [OF that] unfolding f_def by (metis not_less)
  qed
  have last: "last (take n m) = m ! (n - 1)" if "n \<noteq> 0" "m \<noteq> []"
    using that n(1) by (subst last_conv_nth) auto
  have "LookupSymbol m addr =
     (if length m = 0 then ''!unknown''
      else if n = 0 then ''!start''
      else if SymStart (m ! (n - 1)) + SymSize (m ! (n - 1)) < addr then ''!gap'' else SymName (m ! (n - 1)))"
    by (simp only: LookupSymbol_def n_def f_def Let_def)
  moreover have "lookup_linear m addr =
     (if m = [] then ''!unknown'' else if take n m = [] then ''!start''
      else if SymStart (last (take n m)) + SymSize (last (take n m)) < addr then ''!gap'' else SymName (last (take n m)))"
    by (simp only: lookup_linear_def cs Let_def)
  ultimately show ?thesis using last by (cases "n = 0"; cases "m = []") simp_all
qed

text \<open>If \<open>sort.Slice\<close> sorts by value, then looking an address up in the metadata of a symbol table by
  binary search gives what the linear scan gives: the name of the last symbol that starts at or before the
  address, or \<open>!gap\<close> if that symbol ends before it, or \<open>!start\<close> or \<open>!unknown\<close> if there is none.\<close>

theorem LookupSymbol_linear:
  assumes "sorted (map (\<lambda>(n, v, sz). v) (sort_by_value syms))"
  shows "LookupSymbol (MakeMetadata sort_by_value syms) addr = lookup_linear (MakeMetadata sort_by_value syms) addr"
proof (rule LookupSymbol_sorted)
  have "map SymStart (MakeMetadata sort_by_value syms) = map (\<lambda>(n, v, sz). v) (sort_by_value syms)"
    by (auto simp: MakeMetadata_def)
  then show "sorted (map SymStart (MakeMetadata sort_by_value syms))" using assms by simp
qed

theorem LookupSymbol_linear_witness:
  "LookupSymbol (MakeMetadata (sort_key (\<lambda>(n, v, sz). v)) [(''g'', 40, 8), (''f'', 16, 20)]) 30 = ''f''"
  by (subst LookupSymbol_linear)
    (simp_all add: lookup_linear_def MakeMetadata_def Let_def insort_key.simps)

text \<open>Symbols that do not overlap: each ends at or before the start of every later one.\<close>

definition sym_end :: "Symbol \<Rightarrow> nat" where
  "sym_end s = unat (SymStart s) + unat (SymSize s)"

definition disjoint_symbols :: "Metadata \<Rightarrow> bool" where
  "disjoint_symbols m \<longleftrightarrow> sorted_wrt (\<lambda>a b. sym_end a \<le> unat (SymStart b)) m \<and> (\<forall>s\<in>set m. sym_end s < 2 ^ 64)"

lemma sym_end_word: "sym_end s < 2 ^ 64 \<Longrightarrow> unat (SymStart s + SymSize s) = sym_end s"
  by (simp add: sym_end_def unat_word_ariths(1))

lemma disjoint_symbols_sorted: "disjoint_symbols m \<Longrightarrow> sorted (map SymStart m)"
  unfolding disjoint_symbols_def sorted_wrt_map
  by (elim conjE sorted_wrt_mono_rel [rotated]) (simp add: sym_end_def word_le_nat_alt)

lemma CreateSymbolMatcher_at:
  "SymName s \<notin> SymName ` set xs \<Longrightarrow>
   CreateSymbolMatcher (xs @ s # ys) (SymName s) addr \<longleftrightarrow> SymStart s \<le> addr \<and> addr < SymStart s + SymSize s"
  by (induction xs) auto

text \<open>In a table of disjoint symbols the matcher of a name holds exactly from the start of its symbol to
  before its end, and the lookup names the symbol there too; but where a gap follows the symbol the lookup
  still names it at its end address, one past its last byte, where the matcher fails.\<close>

theorem LookupSymbol_one_past_the_end:
  assumes "disjoint_symbols (xs @ s # ys)" "SymName s \<notin> SymName ` set xs" "\<forall>y\<in>set ys. sym_end s < unat (SymStart y)"
  shows "(CreateSymbolMatcher (xs @ s # ys) (SymName s) addr \<longleftrightarrow> SymStart s \<le> addr \<and> addr < SymStart s + SymSize s) \<and>
    (SymStart s \<le> addr \<and> addr \<le> SymStart s + SymSize s \<longrightarrow> LookupSymbol (xs @ s # ys) addr = SymName s)"
proof (intro conjI impI)
  show "CreateSymbolMatcher (xs @ s # ys) (SymName s) addr \<longleftrightarrow> SymStart s \<le> addr \<and> addr < SymStart s + SymSize s"
    by (rule CreateSymbolMatcher_at [OF assms(2)])
  assume a: "SymStart s \<le> addr \<and> addr \<le> SymStart s + SymSize s"
  have "unat (SymStart s + SymSize s) = sym_end s"
    using assms(1) by (intro sym_end_word) (simp add: disjoint_symbols_def)
  then have "filter (\<lambda>y. SymStart y \<le> addr) ys = []"
    using a assms(3) by (fastforce simp: filter_empty_conv word_le_nat_alt)
  then show "LookupSymbol (xs @ s # ys) addr = SymName s"
    using a LookupSymbol_sorted [OF disjoint_symbols_sorted [OF assms(1)], of addr]
    by (simp add: lookup_linear_def leD)
qed

theorem LookupSymbol_one_past_the_end_witness:
  "LookupSymbol [\<lparr>SymName = ''f'', SymStart = 16, SymSize = 8\<rparr>, \<lparr>SymName = ''g'', SymStart = 40, SymSize = 8\<rparr>] 24 = ''f'' \<and>
   \<not> CreateSymbolMatcher [\<lparr>SymName = ''f'', SymStart = 16, SymSize = 8\<rparr>, \<lparr>SymName = ''g'', SymStart = 40, SymSize = 8\<rparr>] ''f'' 24"
  using LookupSymbol_one_past_the_end [of "[]" "\<lparr>SymName = ''f'', SymStart = 16, SymSize = 8\<rparr>"
      "[\<lparr>SymName = ''g'', SymStart = 40, SymSize = 8\<rparr>]" 24]
  by (simp add: disjoint_symbols_def sym_end_def)

end
