(* ===== verification/Memory_Load.thy ===== *)
theory Memory_Load
  imports Memory_IO
begin

unbundle bit_operations_syntax

text \<open>
  What \<open>SetMemoryRange\<close> does to a memory that is being loaded: no node of the Merkle tree is cached yet,
  so the stale root of a merkleized memory cannot occur.  Every reader is accepted, the tree invariant is
  kept, and a reader that delivers its bytes without a premature error leaves exactly those bytes.
\<close>

definition uncached :: "Memory \<Rightarrow> bool" where
  "uncached m \<longleftrightarrow> (\<forall>g h. nodes m g \<noteq> Some (Some h))"

definition loading :: "keccak_fn \<Rightarrow> Memory \<Rightarrow> bool" where
  "loading keccak m \<longleftrightarrow> tree_ok keccak m \<and> uncached m"

lemma loading_NewMemory [inv_intros]: "loading keccak NewMemory"
  using tree_ok_NewMemory by (simp add: loading_def uncached_def NewMemory_def)

lemma loading_tree: "loading keccak m \<Longrightarrow> tree_ok keccak m"
  by (simp add: loading_def)

section \<open>One chunk\<close>

lemma set_range_chunk_fresh:
  assumes "mem_wf m" and "pageTable m (drop_bit PageAddrSize addr) = None"
  obtains m' where "set_range_chunk m addr bs = Inr m'" and "mem_wf m'"
    and "nodes m' = nil_path (2 ^ 52 + unat (drop_bit PageAddrSize addr)) (nodes m)"
    and "pageTable m' = (pageTable m)(drop_bit PageAddrSize addr \<mapsto> nextPage m)"
    and "pageObjs m' = (pageObjs m)(nextPage m := InvalidateFull new_CachedPage
           \<lparr>Data := write_data (unat addr mod 4096) bs (Data new_CachedPage)\<rparr>)"
proof -
  let ?k = "drop_bit PageAddrSize addr"
  from PageLookup_spec [OF assms(1) page_index_less] obtain m1 where
    look: "PageLookup m ?k = ((pageTable m ?k, pageTable m ?k \<noteq> None), m1)" and
    m1: "mem_wf m1" "nodes m1 = nodes m" "pageTable m1 = pageTable m" "pageObjs m1 = pageObjs m"
      "nextPage m1 = nextPage m" by metis
  have look': "PageLookup m ?k = ((None, False), m1)" using look assms(2) by simp
  define m' where "m' = m1\<lparr>
     pageTable := (pageTable m)(?k \<mapsto> nextPage m),
     pageObjs := (pageObjs m)(nextPage m := InvalidateFull new_CachedPage
           \<lparr>Data := write_data (unat addr mod 4096) bs (Data new_CachedPage)\<rparr>), nextPage := Suc (nextPage m),
     nodes := nil_path (2 ^ 52 + unat ?k) (nodes m)\<rparr>"
  have "set_range_chunk m addr bs = Inr m'"
    unfolding set_range_chunk_def Let_def look' m'_def unat_page_offset
    by (simp add: m1 AllocPage_def AddPage_def set_page_def page_gindex_eq [OF page_index_less] InvalidateFull_def Let_def
        del: PageAddrMask_def PageAddrSize_def)
  moreover have "mem_wf m'"
    by (rule mem_wf_new_page [of m1 ?k]) (use m1 assms(2) page_index_less in \<open>simp_all add: m'_def\<close>)
  ultimately show thesis by (rule that) (simp_all add: m'_def m1)
qed

text \<open>The bytes of a memory in which only one page was written.\<close>

lemma mem_byte_page_written:
  assumes new: "pageTable m' (drop_bit PageAddrSize addr) = Some r"
    "Data (pageObjs m' r) = write_data (unat addr mod 4096) bs d"
    and old: "\<And>i. i < 4096 \<Longrightarrow> d i = mem_byte m (unat addr div 4096 * 4096 + i)"
    and other: "\<And>k. k \<noteq> drop_bit PageAddrSize addr \<Longrightarrow> pageTable m' k = pageTable m k"
      "\<And>k r. k \<noteq> drop_bit PageAddrSize addr \<Longrightarrow> pageTable m k = Some r \<Longrightarrow> pageObjs m' r = pageObjs m r"
    and fits: "unat addr mod 4096 + length bs \<le> 4096" and a: "a < 2 ^ 64"
  shows "mem_byte m' a = write_data (unat addr) bs (mem_byte m) a"
proof -
  define q where "q = unat addr div 4096"
  define off where "off = unat addr mod 4096"
  have addr: "unat addr = q * 4096 + off" by (simp add: q_def off_def)
  have qa: "a = (a div 4096) * 4096 + a mod 4096" by simp
  have key: "(of_nat (a div 4096) :: Word) = drop_bit PageAddrSize addr \<longleftrightarrow> a div 4096 = q"
  proof -
    have "a div 4096 < 2 ^ 64" using a by simp
    then have "unat (of_nat (a div 4096) :: Word) = a div 4096" by (simp add: unat_of_nat)
    then show ?thesis unfolding word_unat_eq_iff unat_page_index q_def by (simp only:)
  qed
  show ?thesis
  proof (cases "a div 4096 = q")
    case True
    have "mem_byte m' a = write_data off bs d (a mod 4096)"
    proof -
      have k: "(of_nat (a div 4096) :: Word) = drop_bit PageAddrSize addr" using True key by blast
      show ?thesis unfolding mem_byte_def k new(1) option.case new(2) off_def ..
    qed
    moreover have "a = q * 4096 + a mod 4096" using qa True by simp
    moreover have "d (a mod 4096) = mem_byte m (q * 4096 + a mod 4096)" using old by (simp add: q_def)
    ultimately show ?thesis unfolding write_data_def addr by (smt (verit) add_diff_cancel_left add_less_cancel_left add_le_cancel_left add.assoc)
  next
    case False
    then have "mem_byte m' a = mem_byte m a"
      using key other by (auto simp: mem_byte_def split: option.splits)
    moreover have "\<not> (unat addr \<le> a \<and> a < unat addr + length bs)"
    proof
      assume "unat addr \<le> a \<and> a < unat addr + length bs"
      then have "a = unat addr + (a - unat addr)" "unat addr mod 4096 + (a - unat addr) < 4096" using fits by auto
      then have "a div 4096 = q" using div_mod_add_small(1) [of "unat addr" 4096 "a - unat addr"] by (simp only: q_def)
      then show False using False by simp
    qed
    ultimately show ?thesis unfolding write_data_def by (simp only: if_False)
  qed
qed

lemma page_base_byte:
  assumes "i < 4096"
  shows "mem_byte m (unat addr div 4096 * 4096 + i) =
    (case pageTable m (drop_bit PageAddrSize addr) of None \<Rightarrow> 0 | Some r \<Rightarrow> Data (pageObjs m r) i)"
proof -
  have "(unat addr div 4096 * 4096 + i) div 4096 = unat (drop_bit PageAddrSize addr)"
    "(unat addr div 4096 * 4096 + i) mod 4096 = i"
    using assms by (simp_all only: unat_page_index) simp_all
  moreover have "(of_nat (unat k) :: Word) = k" for k :: Word by simp
  ultimately show ?thesis unfolding mem_byte_def by (simp only:)
qed

lemma set_range_chunk_loads:
  assumes "loading keccak m" and fits: "unat addr mod 4096 + length bs \<le> 4096"
  obtains m' where "set_range_chunk m addr bs = Inr m'" and "loading keccak m'"
    and "\<And>a. a < 2 ^ 64 \<Longrightarrow> mem_byte m' a = write_data (unat addr) bs (mem_byte m) a"
proof -
  let ?k = "drop_bit PageAddrSize addr"
  note tree = loading_tree [OF assms(1)] and wf = tree_okD(1) [OF loading_tree [OF assms(1)]]
  show thesis
  proof (cases "pageTable m ?k")
    case (Some r)
    from set_range_chunk_existing [OF wf Some fits] obtain m' where
      m': "set_range_chunk m addr bs = Inr m'" "mem_wf m'" "nodes m' = nodes m" "pageTable m' = pageTable m"
        "pageObjs m' = (pageObjs m)(r := InvalidateFull (pageObjs m r)
           \<lparr>Data := write_data (unat addr mod 4096) bs (Data (pageObjs m r))\<rparr>)" by blast
    have po: "pageObjs m' r' = pageObjs m r'" if "k' \<noteq> ?k" "pageTable m k' = Some r'" for k' r'
      using that mem_wf_inj [OF wf] Some m'(5) by auto
    have "tree_ok keccak m'"
    proof (rule tree_ok_write [OF tree m'(2), of ?k])
      fix r' assume "pageTable m' ?k = Some r'"
      then show "page_coherent keccak (pageObjs m' r')"
        using Some by (simp add: m'(4,5) page_coherent_def InvalidateFull_def)
    next
      fix d i assume d: "d < 52" "i < 2 ^ d" "under d i ?k"
      have "nodes m (2 ^ d + i) \<noteq> None"
      proof
        assume "nodes m (2 ^ d + i) = None"
        then have "\<forall>k. under d i k \<longrightarrow> pageTable m k = None"
          using tree_okD(3) [OF tree d(1,2)] by (simp only: node_ok_def option.case)
        then show False using d(3) Some by simp
      qed
      then show "nodes m' (2 ^ d + i) = Some None"
        using assms(1) m'(3) by (cases "nodes m (2 ^ d + i)"; cases "the (nodes m (2 ^ d + i))")
          (auto simp: loading_def uncached_def)
    qed (use m' po in auto)
    moreover have "uncached m'" using assms(1) m'(3) by (simp add: loading_def uncached_def)
    moreover have "mem_byte m' a = write_data (unat addr) bs (mem_byte m) a" if "a < 2 ^ 64" for a
      by (rule mem_byte_page_written [where r = r and d = "Data (pageObjs m r)"])
        (use Some m' po fits that page_base_byte [of _ m addr] in \<open>simp_all del: PageAddrSize_def\<close>)
    ultimately show thesis using that m'(1) by (simp add: loading_def)
  next
    case None
    from set_range_chunk_fresh [OF wf None] obtain m' where
      m': "set_range_chunk m addr bs = Inr m'" "mem_wf m'"
        "nodes m' = nil_path (2 ^ 52 + unat ?k) (nodes m)"
        "pageTable m' = (pageTable m)(?k \<mapsto> nextPage m)"
        "pageObjs m' = (pageObjs m)(nextPage m := InvalidateFull new_CachedPage
           \<lparr>Data := write_data (unat addr mod 4096) bs (Data new_CachedPage)\<rparr>)" by blast
    have po: "pageObjs m' r' = pageObjs m r'" if "pageTable m k' = Some r'" for k' r'
      using mem_wf_bounds [OF wf that] by (simp add: m'(5))
    have "tree_ok keccak m'"
    proof (rule tree_ok_write [OF tree m'(2), of ?k])
      fix r' assume "pageTable m' ?k = Some r'"
      then show "page_coherent keccak (pageObjs m' r')"
        by (simp add: m'(4,5) page_coherent_def InvalidateFull_def)
    next
      fix d i assume "d < 52" "i < 2 ^ d" "under d i ?k"
      then show "nodes m' (2 ^ d + i) = Some None"
        using nil_path_under by (simp add: m'(3) del: PageAddrSize_def)
    qed (use m' po nil_path_cases in auto)
    moreover have "uncached m'"
      using assms(1) nil_path_cases unfolding loading_def uncached_def m'(3) by (metis option.inject option.distinct(1))
    moreover have "mem_byte m' a = write_data (unat addr) bs (mem_byte m) a" if "a < 2 ^ 64" for a
      by (rule mem_byte_page_written [where r = "nextPage m" and d = "Data new_CachedPage"])
        (use None m' po fits that page_base_byte [of _ m addr] in \<open>simp_all add: new_CachedPage_def del: PageAddrSize_def\<close>)
    ultimately show thesis using that m'(1) by (simp add: loading_def)
  qed
qed

section \<open>Whole readers\<close>

lemma io_Read_room: "io_Read (PageSize - unat (addr AND PageAddrMask)) rs = ((bs, None), rs') \<Longrightarrow>
    unat addr mod 4096 + length bs \<le> 4096"
  using io_Read_length [of _ rs bs rs'] page_room_positive [of addr]
  by (fastforce simp: unat_page_offset simp del: PageAddrMask_def)

lemma SetMemoryRange_loading:
  assumes "loading keccak m"
  shows "\<exists>e m'. SetMemoryRange m addr rs = Inr (e, m') \<and> loading keccak m'"
  using assms
proof (induction m addr rs rule: SetMemoryRange.induct)
  case (1 m addr rs)
  obtain bs e rs' where rd: "io_Read (PageSize - unat (addr AND PageAddrMask)) rs = ((bs, e), rs')"
    by (metis surj_pair)
  show ?case
  proof (cases e)
    case (Some x)
    then show ?thesis using rd "1.prems" by (subst SetMemoryRange.simps) simp
  next
    case None
    from set_range_chunk_loads [OF "1.prems" io_Read_room [OF rd [unfolded None]]] obtain m1 where
      m1: "set_range_chunk m addr bs = Inr m1" "loading keccak m1" by blast
    have step: "SetMemoryRange m addr rs = SetMemoryRange m1 (addr + of_nat (length bs)) rs'"
      by (subst SetMemoryRange.simps) (simp only: rd None m1(1) split_conv option.case bind_res_Inr prod.case)
    have "\<exists>e' m'. SetMemoryRange m1 (addr + of_nat (length bs)) rs' = Inr (e', m') \<and> loading keccak m'"
      by (rule "1.IH" [OF rd [symmetric] refl None m1])
    then show ?thesis unfolding step .
  qed
qed

lemma write_data_append: "write_data (a + length xs) ys (write_data a xs f) = write_data a (xs @ ys) f"
  by (rule ext) (auto simp: write_data_def nth_append)

lemma write_data_prepend: "write_data a xs (write_data (a + length xs) ys f) = write_data a (xs @ ys) f"
  by (rule ext) (auto simp: write_data_def nth_append)

lemma write_data_Nil [simp]: "write_data a [] f = f"
  by (rule ext) (auto simp: write_data_def)

lemma write_data_cong: "f x = g x \<Longrightarrow> write_data a xs f x = write_data a xs g x"
  by (simp add: write_data_def)

text \<open>A reader that delivers \<open>bs\<close>, in whatever pieces, and then reports the end of the file.\<close>

fun delivers :: "segment list \<Rightarrow> byte list \<Rightarrow> bool" where
  "delivers [] bs \<longleftrightarrow> bs = []"
| "delivers (Bytes xs # rs) bs \<longleftrightarrow> take (length xs) bs = xs \<and> delivers rs (drop (length xs) bs)"
| "delivers (Final xs # rs) bs \<longleftrightarrow> xs = [] \<and> bs = []"
| "delivers (Fail # rs) bs \<longleftrightarrow> False"

lemma take_append_drop_eq: "take (length xs) bs = xs \<Longrightarrow> \<exists>ys. bs = xs @ ys"
  by (metis append_take_drop_id)

lemma delivers_Read:
  assumes "delivers rs bs" "io_Read n rs = ((xs, e), rs')"
  shows "(e = None \<longrightarrow> (\<exists>ys. bs = xs @ ys \<and> delivers rs' ys)) \<and> (e = Some EOF \<longrightarrow> bs = []) \<and> (\<forall>x. e = Some x \<longrightarrow> x = EOF)"
proof (cases "(n, rs)" rule: io_Read.cases)
  case (2 k cs rs2)
  then have rs: "rs = Bytes cs # rs2" by simp
  have t: "take (length cs) bs = cs" "delivers rs2 (drop (length cs) bs)" using assms(1) by (simp_all add: rs)
  obtain ys where ys: "bs = cs @ ys" "delivers rs2 ys"
    using take_append_drop_eq [OF t(1)] t(2) by auto
  show ?thesis
  proof (cases "length cs \<le> n")
    case True
    then show ?thesis using assms(2) ys by (auto simp: rs)
  next
    case False
    then have "xs = take n cs" "e = None" "rs' = Bytes (drop n cs) # rs2" using assms(2) by (auto simp: rs)
    then show ?thesis using ys by (auto intro!: exI [of _ "drop n cs @ ys"])
  qed
qed (use assms in \<open>auto split: if_splits\<close>)

lemma SetMemoryRange_loads:
  assumes "loading keccak m" "delivers rs bs" "unat addr + length bs < 2 ^ 64"
  shows "\<exists>m'. SetMemoryRange m addr rs = Inr (None, m') \<and> loading keccak m' \<and>
    (\<forall>a<2 ^ 64. mem_byte m' a = write_data (unat addr) bs (mem_byte m) a)"
  using assms
proof (induction m addr rs arbitrary: bs rule: SetMemoryRange.induct)
  case (1 m addr rs)
  obtain xs e rs' where rd: "io_Read (PageSize - unat (addr AND PageAddrMask)) rs = ((xs, e), rs')"
    by (metis surj_pair)
  note d = delivers_Read [OF "1.prems"(2) rd]
  show ?case
  proof (cases e)
    case (Some x)
    then have "x = EOF" "bs = []" using d by auto
    then show ?thesis using rd Some "1.prems"(1) by (subst SetMemoryRange.simps) simp
  next
    case None
    then obtain ys where ys: "bs = xs @ ys" "delivers rs' ys" using d by blast
    from set_range_chunk_loads [OF "1.prems"(1) io_Read_room [OF rd [unfolded None]]] obtain m1 where
      m1: "set_range_chunk m addr xs = Inr m1" "loading keccak m1"
        "\<And>a. a < 2 ^ 64 \<Longrightarrow> mem_byte m1 a = write_data (unat addr) xs (mem_byte m) a" by blast
    have step: "SetMemoryRange m addr rs = SetMemoryRange m1 (addr + of_nat (length xs)) rs'"
      by (subst SetMemoryRange.simps) (simp only: rd None m1(1) split_conv option.case bind_res_Inr prod.case)
    have len: "length xs < 2 ^ 64" "unat addr + length xs < 2 ^ 64" using "1.prems"(3) ys(1) by auto
    have next_addr: "unat (addr + of_nat (length xs)) = unat addr + length xs"
      using len by (simp add: unat_word_ariths(1) unat_of_nat)
    have "\<exists>m'. SetMemoryRange m1 (addr + of_nat (length xs)) rs' = Inr (None, m') \<and> loading keccak m' \<and>
       (\<forall>a<2 ^ 64. mem_byte m' a = write_data (unat (addr + of_nat (length xs))) ys (mem_byte m1) a)"
      by (rule "1.IH" [OF _ _ _ m1(1,2) ys(2)]) (use rd None next_addr "1.prems"(3) ys(1) in \<open>simp_all del: PageAddrMask_def\<close>)
    then obtain m' where m': "SetMemoryRange m1 (addr + of_nat (length xs)) rs' = Inr (None, m')" "loading keccak m'"
       "\<And>a. a < 2 ^ 64 \<Longrightarrow> mem_byte m' a = write_data (unat addr + length xs) ys (mem_byte m1) a"
      unfolding next_addr by blast
    have "mem_byte m' a = write_data (unat addr) bs (mem_byte m) a" if a: "a < 2 ^ 64" for a
      using m'(3) [OF a] write_data_cong [where f = "mem_byte m1" and x = a and g = "write_data (unat addr) xs (mem_byte m)", OF m1(3) [OF a]]
      by (simp only: write_data_append ys(1))
    then show ?thesis using step m'(1,2) by auto
  qed
qed

end
