(* ===== verification/Loader.thy ===== *)
theory Loader
  imports Memory_Load VM_Invariant
begin

unbundle bit_operations_syntax

text \<open>
  Loading a program: \<open>cannon/mipsevm/program/load.go\<close> and \<open>patch.go\<close>.  The packages \<open>debug/elf\<close> and
  \<open>os\<close> give the program headers; of a segment the loader uses five fields, its bytes being what the
  section reader over it delivers.  \<open>LoadELF\<close> and the patches work on any \<open>mipsevm.FPVMState\<close>: they use two
  methods of that interface, \<open>GetMemory\<close> and \<open>GetRegistersRef\<close>, so a state comes with a record of operations.
\<close>

section \<open>The interface\<close>

record 's fpvm_ops =
  GetMemory :: "'s \<Rightarrow> Memory"
  putMemory :: "Memory \<Rightarrow> 's \<Rightarrow> 's"
  putRegister :: "nat \<Rightarrow> Word \<Rightarrow> 's \<Rightarrow> 's res"

text \<open>\<open>s.GetMemory().SetMemoryRange(addr, r)\<close>\<close>

definition set_memory :: "'s fpvm_ops \<Rightarrow> Word \<Rightarrow> segment list \<Rightarrow> 's \<Rightarrow> (io_err option \<times> 's) res" where
  "set_memory V addr r s =
     bind_res (SetMemoryRange (GetMemory V s) addr r) (\<lambda>(e, m). Inr (e, putMemory V m s))"

section \<open>ELF files\<close>

record elf_prog =
  ProgType :: u32
  ProgVaddr :: Word
  ProgFilesz :: Word
  ProgMemsz :: Word
  ProgReader :: "segment list"

record elf_file =
  Entry :: Word
  Progs :: "elf_prog list"
  Symbols :: "(string \<times> Word \<times> Word) list option"

definition PT_LOAD :: u32 where [simp]: "PT_LOAD = 1"
definition PT_MIPS_ABIFLAGS :: u32 where [simp]: "PT_MIPS_ABIFLAGS = 0x70000003"

datatype load_error =
    FileSizeExceedsMemSize nat
  | FillingNotSupported nat
  | OutOfMemoryRange nat
  | OverlapsHeap nat
  | ReadSegmentFailed nat io_err

text \<open>\<open>make([]byte, n)\<close> on a 64-bit platform panics above \<open>maxAlloc = 2^48\<close>.\<close>

definition make_bytes :: "Word \<Rightarrow> byte list res" where
  "make_bytes n = (if 0x1000000000000 < n then Inl MakeSliceLen else Inr (replicate (unat n) 0))"

text \<open>\<open>io.MultiReader(r, r2)\<close>: the end of the first reader is followed by the second.\<close>

fun multi_reader :: "segment list \<Rightarrow> segment list \<Rightarrow> segment list" where
  "multi_reader [] r2 = r2"
| "multi_reader (Bytes bs # r) r2 = Bytes bs # multi_reader r r2"
| "multi_reader (Final bs # r) r2 = (if bs = [] then r2 else Bytes bs # r2)"
| "multi_reader (Fail # r) r2 = Fail # multi_reader r r2"

definition lastMemoryAddr :: Word where
  "lastMemoryAddr = (if IsMips32 then 0xFFFFFFFF else 0xFFFFFFFFFFFF)"

definition segment_reader :: "nat \<Rightarrow> elf_prog \<Rightarrow> (load_error + segment list) res" where
  "segment_reader i p =
     (if ProgFilesz p \<noteq> ProgMemsz p then
        if ProgType p = PT_LOAD then
          if ProgFilesz p < ProgMemsz p then
            bind_res (make_bytes (ProgMemsz p - ProgFilesz p)) (\<lambda>zs. Inr (Inr (multi_reader (ProgReader p) [Bytes zs])))
          else Inr (Inl (FileSizeExceedsMemSize i))
        else Inr (Inl (FillingNotSupported i))
      else Inr (Inr (ProgReader p)))"

fun load_progs :: "'s fpvm_ops \<Rightarrow> nat \<Rightarrow> elf_prog list \<Rightarrow> 's \<Rightarrow> (load_error + 's) res" where
  "load_progs V i [] s = Inr (Inr s)"
| "load_progs V i (p # ps) s =
     (if ProgType p = PT_MIPS_ABIFLAGS then load_progs V (Suc i) ps s
      else bind_res (segment_reader i p) (\<lambda>x. case x of
             Inl e \<Rightarrow> Inr (Inl e)
           | Inr r \<Rightarrow>
               if ProgMemsz p = 0 then load_progs V (Suc i) ps s
               else
                 let lastByteToWrite = ProgVaddr p + ProgMemsz p - 1
                 in if lastMemoryAddr < lastByteToWrite \<or> lastByteToWrite < ProgVaddr p then Inr (Inl (OutOfMemoryRange i))
                    else if HeapStart \<le> lastByteToWrite then Inr (Inl (OverlapsHeap i))
                    else bind_res (set_memory V (ProgVaddr p) r s) (\<lambda>(err, s1). case err of
                           Some e \<Rightarrow> Inr (Inl (ReadSegmentFailed i e))
                         | None \<Rightarrow> load_progs V (Suc i) ps s1)))"

definition LoadELF :: "'s fpvm_ops \<Rightarrow> (Word \<Rightarrow> Word \<Rightarrow> 's res) \<Rightarrow> elf_file \<Rightarrow> (load_error + 's) res" where
  "LoadELF V initState f = bind_res (initState (Entry f) HeapStart) (load_progs V 0 (Progs f))"

section \<open>Patches\<close>

datatype patch_error = NoSymbolsToPatch | PatchFailed io_err | StackAllocationFailed

definition patched_symbols :: "string list" where
  "patched_symbols =
     [''runtime.gcenable'', ''runtime.init.5'', ''runtime.main.func1'', ''runtime.deductSweepCredit'',
      ''runtime.(*gcControllerState).commit'',
      ''github.com/prometheus/client_golang/prometheus.init'',
      ''github.com/prometheus/client_golang/prometheus.init.0'',
      ''github.com/prometheus/procfs.init'',
      ''github.com/prometheus/common/model.init'',
      ''github.com/prometheus/client_model/go.init'',
      ''github.com/prometheus/client_model/go.init.0'',
      ''github.com/prometheus/client_model/go.init.1'',
      ''flag.init'',
      ''runtime.check'']"

definition ret_patch :: "byte list" where
  "ret_patch = [0x03, 0xe0, 0x00, 0x08, 0, 0, 0, 0]"

fun patch_symbols :: "'s fpvm_ops \<Rightarrow> (string \<times> Word \<times> Word) list \<Rightarrow> 's \<Rightarrow> (patch_error option \<times> 's) res" where
  "patch_symbols V [] s = Inr (None, s)"
| "patch_symbols V ((name, value, sz) # syms) s =
     (if name \<in> set patched_symbols then
        bind_res (set_memory V value [Bytes ret_patch] s) (\<lambda>(err, s1). case err of
            Some e \<Rightarrow> Inr (Some (PatchFailed e), s1)
          | None \<Rightarrow> patch_symbols V syms s1)
      else patch_symbols V syms s)"

definition PatchGoGC :: "'s fpvm_ops \<Rightarrow> elf_file \<Rightarrow> 's \<Rightarrow> (patch_error option \<times> 's) res" where
  "PatchGoGC V f s =
     (case Symbols f of
        None \<Rightarrow> Inr (Some NoSymbolsToPatch, s)
      | Some symbols \<Rightarrow> patch_symbols V symbols s)"

definition pad :: "byte list \<Rightarrow> byte list" where
  "pad buf =
     (if length buf mod unat WordSizeBytes = 0 then buf
      else let bytesToAlignment = unat WordSizeBytes - length buf mod unat WordSizeBytes
           in buf @ replicate bytesToAlignment 0)"

definition ascii :: "string \<Rightarrow> byte list" where
  "ascii s = map of_char s"

definition storeMem :: "'s fpvm_ops \<Rightarrow> Word \<Rightarrow> Word \<Rightarrow> 's \<Rightarrow> 's res" where
  "storeMem V addr v s = bind_res (set_memory V addr [Bytes (bo_PutWord v)] s) (\<lambda>(_, s1). Inr s1)"

definition PatchStack :: "'s fpvm_ops \<Rightarrow> 's \<Rightarrow> (patch_error option \<times> 's) res" where
  "PatchStack V s =
     (let sp = HighMemoryStart
      in bind_res (set_memory V (sp - 4 * of_nat PageSize) [Bytes (replicate (5 * PageSize) 0)] s) (\<lambda>(err, s1).
         if err \<noteq> None then Inr (Some StackAllocationFailed, s1)
         else bind_res (putRegister V RegSP sp s1) (\<lambda>s2.
         let auxv3Offset = sp + WordSizeBytes * 10;
             randomness = pad (ascii ''4;byfairdiceroll'')
         in bind_res (set_memory V auxv3Offset [Bytes randomness] s2) (\<lambda>(_, s3).
         let envp0Offset = auxv3Offset + of_nat (length randomness);
             envar = pad (ascii ''GODEBUG=memprofilerate=0'' @ [0])
         in bind_res (set_memory V envp0Offset [Bytes envar] s3) (\<lambda>(_, s4).
         let argv0Offset = envp0Offset + of_nat (length envar);
             programName = pad (ascii ''op-program'' @ [0])
         in bind_res (set_memory V argv0Offset [Bytes programName] s4) (\<lambda>(_, s5).
            bind_res (storeMem V (sp + WordSizeBytes * 0) 1 s5) (\<lambda>s6.
            bind_res (storeMem V (sp + WordSizeBytes * 1) argv0Offset s6) (\<lambda>s7.
            bind_res (storeMem V (sp + WordSizeBytes * 2) 0 s7) (\<lambda>s8.
            bind_res (storeMem V (sp + WordSizeBytes * 3) envp0Offset s8) (\<lambda>s9.
            bind_res (storeMem V (sp + WordSizeBytes * 4) 0 s9) (\<lambda>s10.
            bind_res (storeMem V (sp + WordSizeBytes * 5) 6 s10) (\<lambda>s11.
            bind_res (storeMem V (sp + WordSizeBytes * 6) 4096 s11) (\<lambda>s12.
            bind_res (storeMem V (sp + WordSizeBytes * 7) 25 s12) (\<lambda>s13.
            bind_res (storeMem V (sp + WordSizeBytes * 8) auxv3Offset s13) (\<lambda>s14.
            bind_res (storeMem V (sp + WordSizeBytes * 9) 0 s14) (\<lambda>s15. Inr (None, s15)))))))))))))))))"

text \<open>The multithreaded VM's implementation of the interface.\<close>

definition mt_putRegister :: "nat \<Rightarrow> Word \<Rightarrow> State \<Rightarrow> State res" where
  "mt_putRegister r v s =
     bind_res (GetCurrentThread s) (\<lambda>t. Inr (putCurrentThread s (t\<lparr>Registers := (Registers t)[r := v]\<rparr>)))"

definition mt_ops :: "State fpvm_ops" where
  "mt_ops = \<lparr>GetMemory = StMemory, putMemory = (\<lambda>m s. s\<lparr>StMemory := m\<rparr>), putRegister = mt_putRegister\<rparr>"

section \<open>What the loader leaves in memory\<close>

text \<open>
  \<open>content p\<close> stands for the bytes of the segment \<open>p\<close> in the file.  A segment the loader accepts has a
  memory image: those bytes and zeros up to its memory size.
\<close>

definition skipped :: "elf_prog \<Rightarrow> bool" where
  "skipped p \<longleftrightarrow> ProgType p = PT_MIPS_ABIFLAGS"

definition accepted :: "elf_prog \<Rightarrow> bool" where
  "accepted p \<longleftrightarrow> skipped p \<or>
     (ProgFilesz p = ProgMemsz p \<or> ProgType p = PT_LOAD \<and> ProgFilesz p < ProgMemsz p) \<and>
     (ProgMemsz p = 0 \<or> unat (ProgVaddr p) + unat (ProgMemsz p) \<le> unat HeapStart)"

definition segment_image :: "(elf_prog \<Rightarrow> byte list) \<Rightarrow> elf_prog \<Rightarrow> byte list" where
  "segment_image content p = content p @ replicate (unat (ProgMemsz p) - unat (ProgFilesz p)) 0"

definition load_image :: "(elf_prog \<Rightarrow> byte list) \<Rightarrow> elf_prog list \<Rightarrow> (nat \<Rightarrow> byte) \<Rightarrow> nat \<Rightarrow> byte" where
  "load_image content =
     fold (\<lambda>p f. if skipped p then f else write_data (unat (ProgVaddr p)) (segment_image content p) f)"

definition readable :: "(elf_prog \<Rightarrow> byte list) \<Rightarrow> elf_prog \<Rightarrow> bool" where
  "readable content p \<longleftrightarrow> delivers (ProgReader p) (content p) \<and> length (content p) = unat (ProgFilesz p)"

lemma delivers_multi: "delivers r bs \<Longrightarrow> delivers (multi_reader r [Bytes zs]) (bs @ zs)"
proof (induction r bs rule: delivers.induct)
  case (2 xs rs bs)
  then have "take (length xs) bs = xs" by simp
  then have "length xs \<le> length bs" by (metis length_take min.cobounded1)
  then show ?case using 2 by simp
qed auto

lemma segment_reader_delivers:
  assumes "accepted p" "\<not> skipped p" "readable content p" "ProgMemsz p \<noteq> 0"
  shows "\<exists>r. segment_reader i p = Inr (Inr r) \<and> delivers r (segment_image content p)"
proof (cases "ProgFilesz p = ProgMemsz p")
  case True
  then show ?thesis using assms(3) by (simp add: segment_reader_def segment_image_def readable_def)
next
  case False
  with assms have p: "ProgType p = PT_LOAD" "ProgFilesz p < ProgMemsz p" "unat (ProgVaddr p) + unat (ProgMemsz p) \<le> unat HeapStart"
    by (auto simp: accepted_def)
  have diff: "unat (ProgMemsz p - ProgFilesz p) = unat (ProgMemsz p) - unat (ProgFilesz p)"
    using p(2) by (intro unat_sub) simp
  moreover have "unat (ProgMemsz p) \<le> 0x100000000000" using p(3) by simp
  ultimately have "ProgMemsz p - ProgFilesz p \<le> 0x1000000000000" by (simp add: word_le_nat_alt)
  then show ?thesis
    using False p assms(3) diff delivers_multi
    by (simp add: segment_reader_def make_bytes_def segment_image_def readable_def)
qed

text \<open>The loader's test for the last byte to write, on 64-bit arithmetic that may wrap.\<close>

lemma last_byte:
  fixes v n :: Word
  assumes "n \<noteq> 0"
  shows "lastMemoryAddr < v + n - 1 \<or> v + n - 1 < v \<longleftrightarrow> 2 ^ 48 < unat v + unat n" (is ?range)
    and "\<not> (lastMemoryAddr < v + n - 1 \<or> v + n - 1 < v) \<Longrightarrow>
      HeapStart \<le> v + n - 1 \<longleftrightarrow> unat HeapStart < unat v + unat n" (is "_ \<Longrightarrow> ?heap")
proof -
  have n: "1 \<le> unat n" "unat v < 2 ^ 64" "unat n < 2 ^ 64" using assms unat_u64_less by (simp_all add: unat_gt_0 Suc_le_eq)
  have "1 \<le> n" using n(1) by (simp add: word_le_nat_alt)
  then have n1: "unat (n - 1) = unat n - 1" by (simp add: unat_sub)
  have eq: "v + n - 1 = v + (n - 1)" by simp
  have last: "unat (v + n - 1) = (if unat v + (unat n - 1) < 2 ^ 64 then unat v + (unat n - 1) else unat v + (unat n - 1) - 2 ^ 64)"
    unfolding eq using n by (simp add: unat_word_ariths(1) n1 le_mod_geq)
  show ?range using n last by (simp add: word_less_nat_alt lastMemoryAddr_def split: if_splits) linarith+
  show ?heap if "\<not> (lastMemoryAddr < v + n - 1 \<or> v + n - 1 < v)"
    using that n last by (simp add: word_less_nat_alt word_le_nat_alt lastMemoryAddr_def split: if_splits) linarith+
qed

lemma fold_pointwise:
  assumes "\<And>x f g. f a = g a \<Longrightarrow> h x f a = h x g a" and "f a = g a"
  shows "fold h xs f a = fold h xs g a"
  using assms(2)
proof (induction xs arbitrary: f g)
  case (Cons x xs)
  have "h x f a = h x g a" by (rule assms(1)) (rule Cons.prems)
  then show ?case using Cons.IH [of "h x f" "h x g"] by simp
qed simp

lemma load_image_cong: "f a = g a \<Longrightarrow> load_image content ps f a = load_image content ps g a"
  unfolding load_image_def by (rule fold_pointwise) (auto simp: write_data_def)

text \<open>The segment an error is about, and what must be wrong with it.\<close>

fun error_index :: "load_error \<Rightarrow> nat" where
  "error_index (FileSizeExceedsMemSize i) = i"
| "error_index (FillingNotSupported i) = i"
| "error_index (OutOfMemoryRange i) = i"
| "error_index (OverlapsHeap i) = i"
| "error_index (ReadSegmentFailed i _) = i"

fun blamed :: "elf_prog \<Rightarrow> load_error \<Rightarrow> bool" where
  "blamed p (FileSizeExceedsMemSize _) \<longleftrightarrow> ProgType p = PT_LOAD \<and> ProgMemsz p < ProgFilesz p"
| "blamed p (FillingNotSupported _) \<longleftrightarrow> ProgType p \<noteq> PT_LOAD \<and> ProgFilesz p \<noteq> ProgMemsz p"
| "blamed p (OutOfMemoryRange _) \<longleftrightarrow> 2 ^ 48 < unat (ProgVaddr p) + unat (ProgMemsz p)"
| "blamed p (OverlapsHeap _) \<longleftrightarrow> unat HeapStart < unat (ProgVaddr p) + unat (ProgMemsz p)"
| "blamed p (ReadSegmentFailed _ _) \<longleftrightarrow> accepted p \<and> ProgMemsz p \<noteq> 0"

definition stub_image :: "(string \<times> Word \<times> Word) list \<Rightarrow> (nat \<Rightarrow> byte) \<Rightarrow> nat \<Rightarrow> byte" where
  "stub_image = fold (\<lambda>(n, v, z) f. if n \<in> set patched_symbols then write_data (unat v) ret_patch f else f)"

lemma stub_image_cong: "f a = g a \<Longrightarrow> stub_image syms f a = stub_image syms g a"
  unfolding stub_image_def
  by (rule fold_pointwise) (auto simp: write_data_def split: prod.splits if_splits)

fun set_all :: "'s fpvm_ops \<Rightarrow> (Word \<times> byte list) list \<Rightarrow> 's \<Rightarrow> 's res" where
  "set_all V [] s = Inr s"
| "set_all V ((addr, bs) # ws) s = bind_res (set_memory V addr [Bytes bs] s) (\<lambda>(_, s1). set_all V ws s1)"

definition writes :: "(Word \<times> byte list) list \<Rightarrow> (nat \<Rightarrow> byte) \<Rightarrow> nat \<Rightarrow> byte" where
  "writes = fold (\<lambda>(addr, bs). write_data (unat addr) bs)"

lemma writes_cong: "f a = g a \<Longrightarrow> writes ws f a = writes ws g a"
  unfolding writes_def
  by (rule fold_pointwise) (auto simp: write_data_def split: prod.splits)

text \<open>The laws a state keeps for its memory and registers, and the loader proved from them.\<close>

locale fpvm_state =
  fixes V :: "'s fpvm_ops"
  assumes get_put: "GetMemory V (putMemory V m s) = m"
    and put_put: "putMemory V m (putMemory V m' s) = putMemory V m s"
    and put_get: "putMemory V (GetMemory V s) s = s"
begin

lemma set_memory_total:
  assumes "loading keccak (GetMemory V s)"
  shows "\<exists>e m. set_memory V addr r s = Inr (e, putMemory V m s) \<and> loading keccak m"
  using SetMemoryRange_loading [OF assms, of addr r] by (auto simp: set_memory_def)

lemma set_memory_bytes:
  assumes "loading keccak (GetMemory V s)" "delivers r bs" "unat addr + length bs < 2 ^ 64"
  shows "\<exists>m. set_memory V addr r s = Inr (None, putMemory V m s) \<and> loading keccak m \<and>
    (\<forall>a<2 ^ 64. mem_byte m a = write_data (unat addr) bs (mem_byte (GetMemory V s)) a)"
  using SetMemoryRange_loads [OF assms] by (auto simp: set_memory_def)

lemma load_progs_image:
  assumes "loading keccak (GetMemory V s)" "\<forall>p\<in>set ps. accepted p \<and> (\<not> skipped p \<longrightarrow> readable content p)"
  shows "\<exists>m. load_progs V i ps s = Inr (Inr (putMemory V m s)) \<and> loading keccak m \<and>
    (\<forall>a<2 ^ 64. mem_byte m a = load_image content ps (mem_byte (GetMemory V s)) a)"
  using assms
proof (induction ps arbitrary: i s)
  case Nil
  then show ?case by (intro exI [of _ "GetMemory V s"]) (simp add: put_get load_image_def)
next
  case (Cons p ps)
  have ps: "\<forall>p\<in>set ps. accepted p \<and> (\<not> skipped p \<longrightarrow> readable content p)" using Cons.prems(2) by simp
  consider "skipped p" | "\<not> skipped p" "ProgMemsz p = 0" | "\<not> skipped p" "ProgMemsz p \<noteq> 0" by blast
  then show ?case
  proof cases
    case 1
    then have "load_progs V i (p # ps) s = load_progs V (Suc i) ps s" "load_image content (p # ps) = load_image content ps"
      by (auto simp: skipped_def load_image_def)
    then show ?thesis using Cons.IH [OF Cons.prems(1) ps] by simp
  next
    case 2
    have "ProgFilesz p = 0" "length (content p) = 0" using 2 Cons.prems(2) by (auto simp: accepted_def readable_def)
    then have "load_progs V i (p # ps) s = load_progs V (Suc i) ps s" "load_image content (p # ps) = load_image content ps"
      using 2 by (auto simp: skipped_def load_image_def segment_reader_def segment_image_def)
    then show ?thesis using Cons.IH [OF Cons.prems(1) ps] by simp
  next
    case 3
    have p: "accepted p" "readable content p" using 3(1) Cons.prems(2) by simp_all
    from segment_reader_delivers [OF p(1) 3(1) p(2) 3(2), of i] obtain r where
      r: "segment_reader i p = Inr (Inr r)" "delivers r (segment_image content p)" by blast
    have b: "unat (ProgVaddr p) + unat (ProgMemsz p) \<le> unat HeapStart" using p(1) 3 by (simp add: accepted_def)
    have ord: "unat (ProgFilesz p) \<le> unat (ProgMemsz p)"
      using p(1) 3(1) by (auto simp: accepted_def word_less_nat_alt)
    then have "length (segment_image content p) = unat (ProgMemsz p)"
      using p(2) by (simp add: segment_image_def readable_def)
    then have "unat (ProgVaddr p) + length (segment_image content p) < 2 ^ 64" using b by simp
    from set_memory_bytes [OF Cons.prems(1) r(2) this] obtain m where
      m: "set_memory V (ProgVaddr p) r s = Inr (None, putMemory V m s)" "loading keccak m"
        "\<And>a. a < 2 ^ 64 \<Longrightarrow> mem_byte m a = write_data (unat (ProgVaddr p)) (segment_image content p) (mem_byte (GetMemory V s)) a"
      by blast
    have "\<not> (lastMemoryAddr < ProgVaddr p + ProgMemsz p - 1 \<or> ProgVaddr p + ProgMemsz p - 1 < ProgVaddr p)"
      "\<not> HeapStart \<le> ProgVaddr p + ProgMemsz p - 1" using last_byte [OF 3(2), of "ProgVaddr p"] b by simp_all
    then have step: "load_progs V i (p # ps) s = load_progs V (Suc i) ps (putMemory V m s)"
      using 3 r(1) m(1) unfolding skipped_def by (simp add: Let_def del: HeapStart_def PT_MIPS_ABIFLAGS_def)
    have "loading keccak (GetMemory V (putMemory V m s))" using m(2) by (simp only: get_put)
    from Cons.IH [OF this ps, of "Suc i"] obtain m' where
      m': "load_progs V (Suc i) ps (putMemory V m s) = Inr (Inr (putMemory V m' s))" "loading keccak m'"
        "\<And>a. a < 2 ^ 64 \<Longrightarrow> mem_byte m' a = load_image content ps (mem_byte m) a"
      by (auto simp: get_put put_put)
    have "load_image content ps (mem_byte m) a = load_image content (p # ps) (mem_byte (GetMemory V s)) a" if "a < 2 ^ 64" for a
    proof -
      have "mem_byte m a = write_data (unat (ProgVaddr p)) (segment_image content p) (mem_byte (GetMemory V s)) a"
        by (rule m(3) [OF that])
      then have "load_image content ps (mem_byte m) a =
          load_image content ps (write_data (unat (ProgVaddr p)) (segment_image content p) (mem_byte (GetMemory V s))) a"
        by (rule load_image_cong)
      then show ?thesis using 3(1) by (simp add: load_image_def)
    qed
    then show ?thesis using step m' by auto
  qed
qed

text \<open>Every outcome of the loop: the panic of \<open>make\<close>, an error that names the first bad segment, or success.\<close>

lemma load_progs_outcome:
  assumes "loading keccak (GetMemory V s)"
  shows "post {MakeSliceLen} (\<lambda>x. case x of
      Inl e \<Rightarrow> i \<le> error_index e \<and> error_index e < i + length ps \<and> blamed (ps ! (error_index e - i)) e \<and>
        (\<forall>p\<in>set (take (error_index e - i) ps). accepted p)
    | Inr s' \<Rightarrow> (\<forall>p\<in>set ps. accepted p) \<and> (\<exists>m. s' = putMemory V m s \<and> loading keccak m)) (load_progs V i ps s)"
    (is "post _ (?Q i ps s) _")
  using assms
proof (induction ps arbitrary: i s)
  case Nil
  then show ?case by (simp add: put_get exI [of _ "GetMemory V s"])
next
  case (Cons p ps)
  have later: "post {MakeSliceLen} (?Q i (p # ps) s) (load_progs V (Suc i) ps s')"
    if "accepted p" "s' = putMemory V m s" "loading keccak m" for s' m
  proof (rule post_weaken [OF Cons.IH [of s' "Suc i"] subset_refl])
    show "loading keccak (GetMemory V s')" using that by (simp add: get_put)
    fix x assume q: "?Q (Suc i) ps s' x"
    show "?Q i (p # ps) s x"
    proof (cases x)
      case (Inl e)
      with q have "Suc i \<le> error_index e" by simp
      then have "error_index e - i = Suc (error_index e - Suc i)" by simp
      then show ?thesis using q that(1) by (simp add: Inl)
    next
      case (Inr t)
      then show ?thesis using q that by (auto simp: put_put)
    qed
  qed
  have here: "?Q i (p # ps) s (Inl e)" if "error_index e = i" "blamed p e" for e using that by simp
  have same: "s = putMemory V (GetMemory V s) s" by (simp add: put_get)
  show ?case
  proof (cases "skipped p")
    case True
    then have eq: "load_progs V i (p # ps) s = load_progs V (Suc i) ps s" by (simp add: skipped_def)
    have acc: "accepted p" using True by (simp add: accepted_def)
    show ?thesis unfolding eq by (rule later [OF acc same Cons.prems])
  next
    case ns: False
    show ?thesis
      unfolding load_progs.simps if_not_P [OF ns [unfolded skipped_def]]
    proof (rule post_bind [where R = "\<lambda>x. case x of Inl e \<Rightarrow> error_index e = i \<and> blamed p e
        | Inr r \<Rightarrow> ProgFilesz p = ProgMemsz p \<or> ProgType p = PT_LOAD \<and> ProgFilesz p < ProgMemsz p"])
      show "post {MakeSliceLen} (\<lambda>x. case x of Inl e \<Rightarrow> error_index e = i \<and> blamed p e
        | Inr r \<Rightarrow> ProgFilesz p = ProgMemsz p \<or> ProgType p = PT_LOAD \<and> ProgFilesz p < ProgMemsz p) (segment_reader i p)"
        by (auto simp: segment_reader_def make_bytes_def)
      fix x :: "load_error + segment list"
      assume x: "case x of Inl e \<Rightarrow> error_index e = i \<and> blamed p e
        | Inr r \<Rightarrow> ProgFilesz p = ProgMemsz p \<or> ProgType p = PT_LOAD \<and> ProgFilesz p < ProgMemsz p"
      let ?last = "ProgVaddr p + ProgMemsz p - 1"
      have sizes: "accepted p" if "x = Inr r" "ProgMemsz p = 0 \<or> unat (ProgVaddr p) + unat (ProgMemsz p) \<le> unat HeapStart" for r
        using x that unfolding accepted_def by simp
      show "post {MakeSliceLen} (?Q i (p # ps) s) (case x of
             Inl e \<Rightarrow> Inr (Inl e)
           | Inr r \<Rightarrow>
               if ProgMemsz p = 0 then load_progs V (Suc i) ps s
               else
                 let lastByteToWrite = ?last
                 in if lastMemoryAddr < lastByteToWrite \<or> lastByteToWrite < ProgVaddr p then Inr (Inl (OutOfMemoryRange i))
                    else if HeapStart \<le> lastByteToWrite then Inr (Inl (OverlapsHeap i))
                    else bind_res (set_memory V (ProgVaddr p) r s) (\<lambda>(err, s1). case err of
                           Some e \<Rightarrow> Inr (Inl (ReadSegmentFailed i e))
                         | None \<Rightarrow> load_progs V (Suc i) ps s1))"
      proof (cases x)
        case (Inl e)
        then show ?thesis using x here by simp
      next
        case (Inr r)
        obtain err m where st: "set_memory V (ProgVaddr p) r s = Inr (err, putMemory V m s)" "loading keccak m"
          using set_memory_total [OF Cons.prems] by blast
        have done_here: "post {MakeSliceLen} (?Q i (p # ps) s) (Inr (Inl e))" if "error_index e = i" "blamed p e" for e
          using here [OF that] by (simp only: post_Inr)
        show ?thesis
          unfolding Inr sum.case Let_def st(1) bind_res_Inr prod.case
        proof (intro post_if)
          assume "ProgMemsz p = 0"
          then show "post {MakeSliceLen} (?Q i (p # ps) s) (load_progs V (Suc i) ps s)"
            using later [OF sizes [OF Inr] same Cons.prems] by blast
        next
          assume nz: "ProgMemsz p \<noteq> 0" "lastMemoryAddr < ?last \<or> ?last < ProgVaddr p"
          have "2 ^ 48 < unat (ProgVaddr p) + unat (ProgMemsz p)"
            by (rule iffD1 [OF last_byte(1) [OF nz(1)] nz(2)])
          then show "post {MakeSliceLen} (?Q i (p # ps) s) (Inr (Inl (OutOfMemoryRange i)))"
            by (intro done_here) simp_all
        next
          assume nz: "ProgMemsz p \<noteq> 0" "\<not> (lastMemoryAddr < ?last \<or> ?last < ProgVaddr p)" "HeapStart \<le> ?last"
          have "unat HeapStart < unat (ProgVaddr p) + unat (ProgMemsz p)"
            by (rule iffD1 [OF last_byte(2) [OF nz(1,2)] nz(3)])
          then show "post {MakeSliceLen} (?Q i (p # ps) s) (Inr (Inl (OverlapsHeap i)))"
            by (intro done_here) (simp_all del: HeapStart_def)
        next
          assume nz: "ProgMemsz p \<noteq> 0" "\<not> (lastMemoryAddr < ?last \<or> ?last < ProgVaddr p)" "\<not> HeapStart \<le> ?last"
          have "\<not> unat HeapStart < unat (ProgVaddr p) + unat (ProgMemsz p)"
            using nz(3) last_byte(2) [OF nz(1,2)] by blast
          then have "unat (ProgVaddr p) + unat (ProgMemsz p) \<le> unat HeapStart" by (rule leI)
          then have acc: "accepted p" by (intro sizes [OF Inr] disjI2)
          show "post {MakeSliceLen} (?Q i (p # ps) s) (case err of Some e \<Rightarrow> Inr (Inl (ReadSegmentFailed i e))
              | None \<Rightarrow> load_progs V (Suc i) ps (putMemory V m s))"
          proof (cases err)
            case None
            then show ?thesis using later [OF acc refl st(2)] by (simp only: option.case)
          next
            case (Some e)
            show ?thesis
              unfolding Some option.case by (rule done_here) (use acc nz(1) in simp_all)
          qed
        qed
      qed
    qed
  qed
qed

text \<open>The patch of the garbage collector is a write of the return stub at every listed symbol.\<close>

lemma patch_symbols_image:
  assumes "loading keccak (GetMemory V s)" "\<forall>(n, v, z)\<in>set syms. n \<in> set patched_symbols \<longrightarrow> unat v + 8 < 2 ^ 64"
  shows "\<exists>m. patch_symbols V syms s = Inr (None, putMemory V m s) \<and> loading keccak m \<and>
    (\<forall>a<2 ^ 64. mem_byte m a = stub_image syms (mem_byte (GetMemory V s)) a)"
  using assms
proof (induction syms arbitrary: s)
  case Nil
  then show ?case by (intro exI [of _ "GetMemory V s"]) (simp add: put_get stub_image_def)
next
  case (Cons x syms)
  obtain n v z where x: "x = (n, v, z)" by (cases x)
  have rest: "\<forall>(n, v, z)\<in>set syms. n \<in> set patched_symbols \<longrightarrow> unat v + 8 < 2 ^ 64" using Cons.prems(2) by simp
  show ?case
  proof (cases "n \<in> set patched_symbols")
    case False
    then have "patch_symbols V (x # syms) s = patch_symbols V syms s" "stub_image (x # syms) = stub_image syms"
      by (simp_all add: x stub_image_def fun_eq_iff)
    then show ?thesis using Cons.IH [OF Cons.prems(1) rest] by simp
  next
    case True
    have d: "delivers [Bytes ret_patch] ret_patch" "unat v + length ret_patch < 2 ^ 64"
      using True Cons.prems(2) by (simp_all add: x ret_patch_def)
    from set_memory_bytes [OF Cons.prems(1) d] obtain m where
      m: "set_memory V v [Bytes ret_patch] s = Inr (None, putMemory V m s)" "loading keccak m"
        "\<And>a. a < 2 ^ 64 \<Longrightarrow> mem_byte m a = write_data (unat v) ret_patch (mem_byte (GetMemory V s)) a" by blast
    have step: "patch_symbols V (x # syms) s = patch_symbols V syms (putMemory V m s)"
      using True m(1) by (simp add: x)
    have "loading keccak (GetMemory V (putMemory V m s))" using m(2) by (simp only: get_put)
    from Cons.IH [OF this rest] obtain m' where
      m': "patch_symbols V syms (putMemory V m s) = Inr (None, putMemory V m' s)" "loading keccak m'"
        "\<And>a. a < 2 ^ 64 \<Longrightarrow> mem_byte m' a = stub_image syms (mem_byte m) a" by (auto simp: get_put put_put)
    have "stub_image syms (mem_byte m) a = stub_image (x # syms) (mem_byte (GetMemory V s)) a" if "a < 2 ^ 64" for a
    proof -
      have "stub_image syms (mem_byte m) a = stub_image syms (write_data (unat v) ret_patch (mem_byte (GetMemory V s))) a"
        by (rule stub_image_cong) (rule m(3) [OF that])
      then show ?thesis using True by (simp add: x stub_image_def)
    qed
    then show ?thesis using step m' by auto
  qed
qed

text \<open>A sequence of writes, as both patches make it.\<close>

lemma set_all_image:
  assumes "loading keccak (GetMemory V s)" "\<forall>(addr, bs)\<in>set ws. unat addr + length bs < 2 ^ 64"
  shows "\<exists>m. set_all V ws s = Inr (putMemory V m s) \<and> loading keccak m \<and>
    (\<forall>a<2 ^ 64. mem_byte m a = writes ws (mem_byte (GetMemory V s)) a)"
  using assms
proof (induction ws arbitrary: s)
  case Nil
  then show ?case by (intro exI [of _ "GetMemory V s"]) (simp add: put_get writes_def)
next
  case (Cons x ws)
  obtain addr bs where x: "x = (addr, bs)" by (cases x)
  have rest: "\<forall>(addr, bs)\<in>set ws. unat addr + length bs < 2 ^ 64" using Cons.prems(2) by simp
  have d: "delivers [Bytes bs] bs" "unat addr + length bs < 2 ^ 64" using Cons.prems(2) by (simp_all add: x)
  from set_memory_bytes [OF Cons.prems(1) d] obtain m where
    m: "set_memory V addr [Bytes bs] s = Inr (None, putMemory V m s)" "loading keccak m"
      "\<And>a. a < 2 ^ 64 \<Longrightarrow> mem_byte m a = write_data (unat addr) bs (mem_byte (GetMemory V s)) a" by blast
  have step: "set_all V (x # ws) s = set_all V ws (putMemory V m s)" using m(1) by (simp add: x)
  have "loading keccak (GetMemory V (putMemory V m s))" using m(2) by (simp only: get_put)
  from Cons.IH [OF this rest] obtain m' where
    m': "set_all V ws (putMemory V m s) = Inr (putMemory V m' s)" "loading keccak m'"
      "\<And>a. a < 2 ^ 64 \<Longrightarrow> mem_byte m' a = writes ws (mem_byte m) a" by (auto simp: get_put put_put)
  have "writes ws (mem_byte m) a = writes (x # ws) (mem_byte (GetMemory V s)) a" if "a < 2 ^ 64" for a
  proof -
    have "writes ws (mem_byte m) a = writes ws (write_data (unat addr) bs (mem_byte (GetMemory V s))) a"
      by (rule writes_cong) (rule m(3) [OF that])
    then show ?thesis by (simp add: x writes_def)
  qed
  then show ?case using step m' by auto
qed

end

end
