(* ===== verification/Program_Image.thy ===== *)
theory Program_Image
  imports Loader
begin

unbundle bit_operations_syntax

text \<open>
  What a loaded program looks like: the memory image \<open>LoadELF\<close>, \<open>PatchGoGC\<close> and \<open>PatchStack\<close> leave, proved for
  any state that obeys the laws of the interface and read off for the multithreaded VM, whose invariant the
  loaded state satisfies.
\<close>

section \<open>The initial stack\<close>

definition auxv3_address :: Word where
  "auxv3_address = HighMemoryStart + WordSizeBytes * 10"

definition random_bytes :: "byte list" where
  "random_bytes = pad (ascii ''4;byfairdiceroll'')"

definition envp0_address :: Word where
  "envp0_address = auxv3_address + of_nat (length random_bytes)"

definition environment :: "byte list" where
  "environment = pad (ascii ''GODEBUG=memprofilerate=0'' @ [0])"

definition argv0_address :: Word where
  "argv0_address = envp0_address + of_nat (length environment)"

definition program_name :: "byte list" where
  "program_name = pad (ascii ''op-program'' @ [0])"

text \<open>\<open>argc\<close>, \<open>argv\<close>, \<open>envp\<close> and the auxiliary vector, as the kernel would lay them out.\<close>

definition stack_words :: "Word list" where
  "stack_words = [1, argv0_address, 0, envp0_address, 0, 6, 4096, 25, auxv3_address, 0]"

definition stack_data :: "byte list" where
  "stack_data = concat (map bo_PutWord stack_words) @ random_bytes @ environment @ program_name"

definition stack_segment :: "byte list" where
  "stack_segment = replicate (4 * PageSize) 0 @ stack_data @ replicate (PageSize - length stack_data) 0"

definition stack_writes :: "(Word \<times> byte list) list" where
  "stack_writes =
     [(auxv3_address, random_bytes), (envp0_address, environment), (argv0_address, program_name),
      (HighMemoryStart + WordSizeBytes * 0, bo_PutWord 1), (HighMemoryStart + WordSizeBytes * 1, bo_PutWord argv0_address),
      (HighMemoryStart + WordSizeBytes * 2, bo_PutWord 0), (HighMemoryStart + WordSizeBytes * 3, bo_PutWord envp0_address),
      (HighMemoryStart + WordSizeBytes * 4, bo_PutWord 0), (HighMemoryStart + WordSizeBytes * 5, bo_PutWord 6),
      (HighMemoryStart + WordSizeBytes * 6, bo_PutWord 4096), (HighMemoryStart + WordSizeBytes * 7, bo_PutWord 25),
      (HighMemoryStart + WordSizeBytes * 8, bo_PutWord auxv3_address), (HighMemoryStart + WordSizeBytes * 9, bo_PutWord 0)]"

lemmas stack_folds = auxv3_address_def [symmetric] random_bytes_def [symmetric] envp0_address_def [symmetric]
  environment_def [symmetric] argv0_address_def [symmetric] program_name_def [symmetric]

lemma PatchStack_writes:
  "PatchStack V s =
     bind_res (set_memory V (HighMemoryStart - 4 * of_nat PageSize) [Bytes (replicate (5 * PageSize) 0)] s) (\<lambda>(err, s1).
       if err \<noteq> None then Inr (Some StackAllocationFailed, s1)
       else bind_res (putRegister V RegSP HighMemoryStart s1) (\<lambda>s2.
            bind_res (set_all V stack_writes s2) (\<lambda>s3. Inr (None, s3))))"
  unfolding PatchStack_def Let_def stack_folds storeMem_def stack_writes_def set_all.simps bind_res_assoc split_def
    bind_res_Inr snd_conv fst_conv ..

lemma stack_lengths [simp]:
  "length random_bytes = 16" "length environment = 32" "length program_name = 16"
  by (simp_all add: random_bytes_def environment_def program_name_def pad_def ascii_def)

lemma stack_addresses:
  "unat HighMemoryStart = 0x7FFFFFFFF000" "unat auxv3_address = 0x7FFFFFFFF050"
  "unat envp0_address = 0x7FFFFFFFF060" "unat argv0_address = 0x7FFFFFFFF080"
  by (simp_all add: auxv3_address_def envp0_address_def argv0_address_def)

lemma write_adjacent:
  "b = a + length xs \<Longrightarrow> write_data b ys (write_data a xs f) = write_data a (xs @ ys) f"
  "b = a + length xs \<Longrightarrow> write_data a xs (write_data b ys f) = write_data a (xs @ ys) f"
  by (simp_all add: write_data_append write_data_prepend)

lemma writes_stack: "writes stack_writes f = write_data (unat HighMemoryStart) stack_data f"
  unfolding writes_def stack_writes_def stack_data_def stack_words_def
  by (simp add: write_adjacent stack_addresses)

lemma length_stack_data: "length stack_data = 144"
  by (simp add: stack_data_def stack_words_def)

lemma length_stack_segment: "length stack_segment = 5 * PageSize"
  by (simp add: stack_segment_def length_stack_data)

lemma write_inside:
  assumes "b = a + length us" "length ys = length vs"
  shows "write_data b ys (write_data a (us @ vs @ ws) f) = write_data a (us @ ys @ ws) f"
  by (rule ext) (use assms in \<open>auto simp: write_data_def nth_append\<close>)

lemma stack_over_zeros:
  "write_data (unat HighMemoryStart) stack_data (write_data (unat (HighMemoryStart - 4 * of_nat PageSize)) (replicate (5 * PageSize) 0) f) =
   write_data (unat (HighMemoryStart - 4 * of_nat PageSize)) stack_segment f"
proof -
  have split: "replicate (5 * PageSize) (0 :: byte) =
     replicate (4 * PageSize) 0 @ replicate (length stack_data) 0 @ replicate (PageSize - length stack_data) 0"
    by (simp only: replicate_add [symmetric] length_stack_data) simp
  have base: "unat HighMemoryStart = unat (HighMemoryStart - 4 * of_nat PageSize) + 4 * PageSize" by simp
  show ?thesis
    unfolding split stack_segment_def
    by (rule write_inside) (simp_all only: length_replicate base)
qed

section \<open>The interface with registers\<close>

locale fpvm_registers = fpvm_state +
  assumes put_commute:
      "putRegister V r v (putMemory V m s) = bind_res (putRegister V r v s) (\<lambda>s1. Inr (putMemory V m s1))"
    and put_memory: "putRegister V r v s = Inr s' \<Longrightarrow> GetMemory V s' = GetMemory V s"
begin

lemma PatchStack_image:
  assumes "loading keccak (GetMemory V s)" "putRegister V RegSP HighMemoryStart s = Inr s1"
  shows "\<exists>m. PatchStack V s = Inr (None, putMemory V m s1) \<and> loading keccak m \<and>
    (\<forall>a<2 ^ 64. mem_byte m a =
       write_data (unat (HighMemoryStart - 4 * of_nat PageSize)) stack_segment (mem_byte (GetMemory V s)) a)"
proof -
  let ?base = "HighMemoryStart - 4 * of_nat PageSize" and ?zeros = "replicate (5 * PageSize) 0 :: byte list"
  have d: "delivers [Bytes ?zeros] ?zeros" "unat ?base + length ?zeros < 2 ^ 64" by simp_all
  from set_memory_bytes [OF assms(1) d] obtain m0 where
    m0: "set_memory V ?base [Bytes ?zeros] s = Inr (None, putMemory V m0 s)" "loading keccak m0"
      "\<And>a. a < 2 ^ 64 \<Longrightarrow> mem_byte m0 a = write_data (unat ?base) ?zeros (mem_byte (GetMemory V s)) a" by blast
  have reg: "putRegister V RegSP HighMemoryStart (putMemory V m0 s) = Inr (putMemory V m0 s1)"
    by (simp only: put_commute assms(2) bind_res_Inr)
  have "loading keccak (GetMemory V (putMemory V m0 s1))" using m0(2) by (simp only: get_put)
  moreover have "\<forall>(addr, bs)\<in>set stack_writes. unat addr + length bs < 2 ^ 64"
    by (simp add: stack_writes_def stack_addresses)
  ultimately obtain m where
    m: "set_all V stack_writes (putMemory V m0 s1) = Inr (putMemory V m s1)" "loading keccak m"
      "\<And>a. a < 2 ^ 64 \<Longrightarrow> mem_byte m a = writes stack_writes (mem_byte m0) a"
    using set_all_image [of keccak "putMemory V m0 s1" stack_writes] unfolding get_put put_put by blast
  have "mem_byte m a = write_data (unat ?base) stack_segment (mem_byte (GetMemory V s)) a" if a: "a < 2 ^ 64" for a
  proof -
    have "mem_byte m a = writes stack_writes (write_data (unat ?base) ?zeros (mem_byte (GetMemory V s))) a"
      unfolding m(3) [OF a] by (rule writes_cong) (rule m0(3) [OF a])
    then show ?thesis by (simp only: writes_stack stack_over_zeros)
  qed
  moreover have "PatchStack V s = Inr (None, putMemory V m s1)"
    using m(1) by (simp only: PatchStack_writes m0(1) reg bind_res_Inr prod.case simp_thms if_False)
  ultimately show ?thesis using m(2) by blast
qed

end

section \<open>The multithreaded VM\<close>

interpretation mt: fpvm_registers mt_ops
proof
  show "GetMemory mt_ops (putMemory mt_ops m s) = m" for m s by (simp add: mt_ops_def)
  show "putMemory mt_ops m (putMemory mt_ops m' s) = putMemory mt_ops m s" for m m' s by (simp add: mt_ops_def)
  show "putMemory mt_ops (GetMemory mt_ops s) s = s" for s by (simp add: mt_ops_def)
  show "putRegister mt_ops r v (putMemory mt_ops m s) = bind_res (putRegister mt_ops r v s) (\<lambda>s1. Inr (putMemory mt_ops m s1))" for r v m s
    by (simp add: mt_ops_def mt_putRegister_def GetCurrentThread_def getActiveThreadStack_def putCurrentThread_def Let_def)
  show "GetMemory mt_ops s' = GetMemory mt_ops s" if "putRegister mt_ops r v s = Inr s'" for r v s s'
    using that by (auto simp: mt_ops_def mt_putRegister_def putCurrentThread_def res_simps)
qed

lemma mt_ops_sel [simp]:
  "GetMemory mt_ops s = StMemory s" "putMemory mt_ops m s = s\<lparr>StMemory := m\<rparr>" "putRegister mt_ops = mt_putRegister"
  by (simp_all add: mt_ops_def)

lemma initial_state:
  obtains s where "CreateInitialState pc heapStart = Inr s" "StMemory s = NewMemory" "GetPC s = Inr pc" "Heap s = heapStart"
    "getActiveThreadStack s \<noteq> []"
  by (simp add: CreateInitialState_def CreateEmptyState_def GetCurrentThread_def getActiveThreadStack_def
      putCurrentThread_def GetPC_def)

lemma vm_inv_memory:
  assumes "vm_inv keccak po (NewInstrumentedState s)" "tree_ok keccak m"
  shows "vm_inv keccak po (NewInstrumentedState (s\<lparr>StMemory := m\<rparr>))"
  using assms threads_cong [of "s\<lparr>StMemory := m\<rparr>" s]
  by (simp add: vm_inv_def data_inv_def NewInstrumentedState_def sched_inv_def)

lemma mem_byte_NewMemory: "mem_byte NewMemory = (\<lambda>_. 0)"
  by (rule ext) (simp add: mem_byte_def NewMemory_def)

lemma GetPC_memory [simp]: "GetPC (s\<lparr>StMemory := m\<rparr>) = GetPC s"
  by (simp add: GetPC_def GetCurrentThread_def getActiveThreadStack_def)

text \<open>C16: Loading an ELF file whose segments are within bounds and whose readers deliver the file's bytes
  succeeds with a state that satisfies the invariant of the VM, starts at the entry point with the heap at
  \<open>HeapStart\<close>, and holds, at every address, the byte of the last segment that covers it (file bytes, then
  zeros up to the memory size), and zero elsewhere.\<close>

theorem LoadELF_image:
  assumes "\<forall>p\<in>set (Progs f). accepted p \<and> (\<not> skipped p \<longrightarrow> readable content p)"
  shows "\<exists>s. LoadELF mt_ops CreateInitialState f = Inr (Inr s) \<and> vm_inv keccak po (NewInstrumentedState s) \<and>
    GetPC s = Inr (Entry f) \<and> Heap s = HeapStart \<and>
    (\<forall>a<2 ^ 64. mem_byte (StMemory s) a = load_image content (Progs f) (\<lambda>_. 0) a)"
proof -
  obtain s0 where s0: "CreateInitialState (Entry f) HeapStart = Inr s0" "StMemory s0 = NewMemory"
    "GetPC s0 = Inr (Entry f)" "Heap s0 = HeapStart" using initial_state by blast
  have "loading keccak (GetMemory mt_ops s0)" using loading_NewMemory s0(2) by simp
  from mt.load_progs_image [OF this assms, of 0] obtain m where
    m: "load_progs mt_ops 0 (Progs f) s0 = Inr (Inr (s0\<lparr>StMemory := m\<rparr>))" "loading keccak m"
      "\<forall>a<2 ^ 64. mem_byte m a = load_image content (Progs f) (\<lambda>_. 0) a"
    by (auto simp: s0(2) mem_byte_NewMemory)
  have "vm_inv keccak po (NewInstrumentedState (s0\<lparr>StMemory := m\<rparr>))"
    by (rule vm_inv_memory [OF vm_inv_initial [OF s0(1)] loading_tree [OF m(2)]])
  then show ?thesis using m s0 by (intro exI [of _ "s0\<lparr>StMemory := m\<rparr>"]) (simp add: LoadELF_def)
qed

definition sample_prog :: elf_prog where
  "sample_prog = \<lparr>ProgType = PT_LOAD, ProgVaddr = 0x1000, ProgFilesz = 3, ProgMemsz = 5,
     ProgReader = [Bytes [7, 8], Bytes [9]]\<rparr>"

theorem LoadELF_image_witness:
  "\<exists>s. LoadELF mt_ops CreateInitialState \<lparr>Entry = 0x1000, Progs = [sample_prog], Symbols = None\<rparr> = Inr (Inr s) \<and>
     mem_byte (StMemory s) 0x1002 = 9 \<and> mem_byte (StMemory s) 0x1004 = 0"
  using LoadELF_image [of "\<lparr>Entry = 0x1000, Progs = [sample_prog], Symbols = None\<rparr>" "\<lambda>_. [7, 8, 9]"]
  by (fastforce simp: sample_prog_def accepted_def readable_def skipped_def load_image_def segment_image_def write_data_def)

text \<open>C40: The outcomes of \<open>LoadELF\<close>: it panics only because a zero-filled tail is too long to allocate; an
  error names the first segment that is not acceptable (or whose reader failed), with the matching defect;
  and a file that loads has only segments that fit below the heap, in a state that satisfies the invariant.\<close>

theorem LoadELF_outcomes:
  "post {MakeSliceLen} (\<lambda>x. case x of
      Inl e \<Rightarrow> error_index e < length (Progs f) \<and> blamed (Progs f ! error_index e) e \<and>
        (\<forall>p\<in>set (take (error_index e) (Progs f)). accepted p)
    | Inr s \<Rightarrow> (\<forall>p\<in>set (Progs f). accepted p) \<and> vm_inv keccak po (NewInstrumentedState s))
    (LoadELF mt_ops CreateInitialState f)"
proof -
  obtain s0 where s0: "CreateInitialState (Entry f) HeapStart = Inr s0" "StMemory s0 = NewMemory" using initial_state by blast
  have "loading keccak (GetMemory mt_ops s0)" using loading_NewMemory s0(2) by simp
  note run = mt.load_progs_outcome [OF this, of 0 "Progs f"]
  have inv: "vm_inv keccak po (NewInstrumentedState (s0\<lparr>StMemory := m\<rparr>))" if "loading keccak m" for m
    by (rule vm_inv_memory [OF vm_inv_initial [OF s0(1)] loading_tree [OF that]])
  show ?thesis
    unfolding LoadELF_def s0(1) bind_res_Inr
    by (rule post_weaken [OF run subset_refl]) (auto simp: inv split: sum.splits)
qed

theorem LoadELF_outcomes_witness:
  "post {MakeSliceLen} (\<lambda>x. case x of
      Inl e \<Rightarrow> error_index e < 1 \<and> blamed ([sample_prog\<lparr>ProgFilesz := 6\<rparr>] ! error_index e) e
    | Inr s \<Rightarrow> accepted (sample_prog\<lparr>ProgFilesz := 6\<rparr>))
    (LoadELF mt_ops CreateInitialState \<lparr>Entry = 0, Progs = [sample_prog\<lparr>ProgFilesz := 6\<rparr>], Symbols = None\<rparr>)"
  by (rule post_weaken [OF LoadELF_outcomes subset_refl]) (auto split: sum.splits)

definition covers :: "nat \<Rightarrow> string \<times> Word \<times> Word \<Rightarrow> bool" where
  "covers a = (\<lambda>(n, v, z). n \<in> set patched_symbols \<and> unat v \<le> a \<and> a < unat v + 8)"

lemma stub_image_Cons:
  "stub_image (x # syms) f a = stub_image syms (\<lambda>b. if covers b x then ret_patch ! (b - unat (fst (snd x))) else f b) a"
  by (cases x) (auto simp: stub_image_def covers_def write_data_def ret_patch_def intro!: arg_cong [where f = "\<lambda>g. fold _ _ g a"])

lemma stub_image_uncovered: "\<not> (\<exists>x\<in>set syms. covers a x) \<Longrightarrow> stub_image syms f a = f a"
proof (induction syms arbitrary: f)
  case (Cons x syms)
  then show ?case using Cons.IH by (simp add: stub_image_Cons)
qed (simp add: stub_image_def)

lemma stub_image_covered:
  assumes "\<forall>x\<in>set syms. covers a x \<longrightarrow> fst (snd x) = v" "(\<exists>x\<in>set syms. covers a x) \<or> f a = ret_patch ! (a - unat v)"
  shows "stub_image syms f a = ret_patch ! (a - unat v)"
  using assms
proof (induction syms arbitrary: f)
  case (Cons x syms)
  show ?case unfolding stub_image_Cons by (rule Cons.IH) (use Cons.prems in auto)
qed (simp add: stub_image_def)

text \<open>Listed symbols may be given twice; two different ones must not overlap.\<close>

definition stubs_apart :: "(string \<times> Word \<times> Word) list \<Rightarrow> bool" where
  "stubs_apart syms \<longleftrightarrow>
     (\<forall>(n, v, z)\<in>set syms. n \<in> set patched_symbols \<longrightarrow> unat v + 8 < 2 ^ 64 \<and>
        (\<forall>(n', v', z')\<in>set syms. n' \<in> set patched_symbols \<longrightarrow> v = v' \<or> unat v + 8 \<le> unat v' \<or> unat v' + 8 \<le> unat v))"

text \<open>\<open>PatchGoGC\<close> succeeds on a program being loaded; after it every listed symbol begins with the stub
  \<open>jr $ra; nop\<close>, provided the stubs do not overlap, and every byte outside the stubs is kept.\<close>

theorem PatchGoGC_stubs:
  assumes "loading keccak (StMemory s)" "Symbols f = Some syms" "stubs_apart syms"
  shows "\<exists>s'. PatchGoGC mt_ops f s = Inr (None, s') \<and> loading keccak (StMemory s') \<and>
    (\<forall>(n, v, z)\<in>set syms. n \<in> set patched_symbols \<longrightarrow> (\<forall>j<8. mem_byte (StMemory s') (unat v + j) = ret_patch ! j)) \<and>
    (\<forall>a<2 ^ 64. \<not> (\<exists>x\<in>set syms. covers a x) \<longrightarrow> mem_byte (StMemory s') a = mem_byte (StMemory s) a)"
proof -
  have "\<forall>(n, v, z)\<in>set syms. n \<in> set patched_symbols \<longrightarrow> unat v + 8 < 2 ^ 64"
    using assms(3) by (auto simp: stubs_apart_def)
  with mt.patch_symbols_image [of keccak s syms] assms(1) obtain m where
    m: "patch_symbols mt_ops syms s = Inr (None, s\<lparr>StMemory := m\<rparr>)" "loading keccak m"
      "\<And>a. a < 2 ^ 64 \<Longrightarrow> mem_byte m a = stub_image syms (mem_byte (StMemory s)) a" by auto
  have stub: "mem_byte m (unat v + j) = ret_patch ! j"
    if x: "(n, v, z) \<in> set syms" "n \<in> set patched_symbols" and j: "j < 8" for n v z j
  proof -
    have v: "unat v + 8 < 2 ^ 64" using assms(3) x by (auto simp: stubs_apart_def)
    have "fst (snd y) = v" if "y \<in> set syms" "covers (unat v + j) y" for y
    proof -
      obtain n' v' z' where y: "y = (n', v', z')" by (cases y)
      have "n' \<in> set patched_symbols" "unat v' \<le> unat v + j" "unat v + j < unat v' + 8" using that(2) by (simp_all add: y covers_def)
      moreover from this have "v = v' \<or> unat v + 8 \<le> unat v' \<or> unat v' + 8 \<le> unat v"
        using assms(3) x that(1) unfolding y stubs_apart_def by blast
      ultimately show ?thesis using j by (auto simp: y)
    qed
    moreover have "covers (unat v + j) (n, v, z)" using x(2) j by (simp add: covers_def)
    ultimately have "stub_image syms (mem_byte (StMemory s)) (unat v + j) = ret_patch ! (unat v + j - unat v)"
      using x(1) by (intro stub_image_covered) blast+
    then show ?thesis using m(3) v j by simp
  qed
  moreover have "mem_byte m a = mem_byte (StMemory s) a" if "a < 2 ^ 64" "\<not> (\<exists>x\<in>set syms. covers a x)" for a
    unfolding m(3) [OF that(1)] by (rule stub_image_uncovered [OF that(2)])
  ultimately show ?thesis using m(1,2) assms(2)
    by (intro exI [of _ "s\<lparr>StMemory := m\<rparr>"]) (simp add: PatchGoGC_def split_paired_all)
qed

theorem PatchGoGC_stubs_witness:
  "\<exists>s'. PatchGoGC mt_ops \<lparr>Entry = 0, Progs = [], Symbols = Some [(''flag.init'', 0x2000, 64), (''main.main'', 0x3000, 8)]\<rparr> CreateEmptyState
      = Inr (None, s') \<and> mem_byte (StMemory s') 0x2001 = 0xe0 \<and> mem_byte (StMemory s') 0x3000 = 0"
proof -
  have "loading (take 32) (StMemory CreateEmptyState)" using loading_NewMemory by (simp add: CreateEmptyState_def)
  from PatchGoGC_stubs [OF this, of "\<lparr>Entry = 0, Progs = [], Symbols = Some [(''flag.init'', 0x2000, 64), (''main.main'', 0x3000, 8)]\<rparr>"]
  obtain s' where s': "PatchGoGC mt_ops \<lparr>Entry = 0, Progs = [], Symbols = Some [(''flag.init'', 0x2000, 64), (''main.main'', 0x3000, 8)]\<rparr> CreateEmptyState
      = Inr (None, s')" and stub: "\<forall>j<8. mem_byte (StMemory s') (0x2000 + j) = ret_patch ! j"
    and keep: "\<forall>a<2 ^ 64. \<not> (\<exists>x\<in>set [(''flag.init'', 0x2000, 64), (''main.main'', 0x3000, 8)]. covers a x) \<longrightarrow>
      mem_byte (StMemory s') a = mem_byte (StMemory CreateEmptyState) a"
    by (auto simp: stubs_apart_def patched_symbols_def)
  have "mem_byte (StMemory s') 0x2001 = 0xe0" using stub [rule_format, of 1] by (simp add: ret_patch_def)
  moreover have "mem_byte (StMemory s') 0x3000 = 0"
    using keep [rule_format, of "0x3000"] by (simp add: covers_def patched_symbols_def CreateEmptyState_def mem_byte_NewMemory)
  ultimately show ?thesis using s' by blast
qed

text \<open>\<open>PatchStack\<close> on a program being loaded succeeds, sets the stack pointer of the current thread to
  \<open>HighMemoryStart\<close>, and leaves in the five pages around it exactly \<open>stack_segment\<close>: four zero pages for the stack
  to grow, then \<open>argc\<close>, \<open>argv\<close>, \<open>envp\<close>, the auxiliary vector with the addresses of the three padded strings
  that follow it, and zeros; every other byte is kept.\<close>

theorem PatchStack_layout:
  assumes "loading keccak (StMemory s)" "GetCurrentThread s = Inr t"
  shows "\<exists>m. PatchStack mt_ops s = Inr (None, (putCurrentThread s (t\<lparr>Registers := (Registers t)[RegSP := HighMemoryStart]\<rparr>))\<lparr>StMemory := m\<rparr>) \<and>
    loading keccak m \<and>
    (\<forall>a<2 ^ 64. mem_byte m a =
       write_data (unat (HighMemoryStart - 4 * of_nat PageSize)) stack_segment (mem_byte (StMemory s)) a)"
proof -
  have "putRegister mt_ops RegSP HighMemoryStart s =
      Inr (putCurrentThread s (t\<lparr>Registers := (Registers t)[RegSP := HighMemoryStart]\<rparr>))"
    using assms(2) by (simp add: mt_putRegister_def)
  from mt.PatchStack_image [OF _ this, of keccak] assms(1) show ?thesis unfolding mt_ops_sel by blast
qed

theorem PatchStack_layout_witness:
  "\<exists>m. PatchStack mt_ops CreateEmptyState = Inr (None, (putCurrentThread CreateEmptyState
       (CreateEmptyThread\<lparr>Registers := (Registers CreateEmptyThread)[RegSP := HighMemoryStart]\<rparr>))\<lparr>StMemory := m\<rparr>) \<and>
     mem_byte m 0x7FFFFFFFF007 = 1"
proof -
  have "loading (take 32) (StMemory CreateEmptyState)" "GetCurrentThread CreateEmptyState = Inr CreateEmptyThread"
    using loading_NewMemory by (simp_all add: CreateEmptyState_def GetCurrentThread_def getActiveThreadStack_def)
  from PatchStack_layout [OF this] obtain m where
    m: "PatchStack mt_ops CreateEmptyState = Inr (None, (putCurrentThread CreateEmptyState
       (CreateEmptyThread\<lparr>Registers := (Registers CreateEmptyThread)[RegSP := HighMemoryStart]\<rparr>))\<lparr>StMemory := m\<rparr>)"
      "\<forall>a<2 ^ 64. mem_byte m a = write_data (unat (HighMemoryStart - 4 * of_nat PageSize)) stack_segment
        (mem_byte (StMemory CreateEmptyState)) a" by blast
  have be_enc_numeral: "be_enc (numeral n) v = be_enc (pred_numeral n) (v div 256) @ [of_nat v]" for n v
    unfolding numeral_eq_Suc [of n] be_enc.simps ..
  have "mem_byte m 0x7FFFFFFFF007 = stack_segment ! 0x4007"
    using m(2) [rule_format, of "0x7FFFFFFFF007"] by (simp add: write_data_def length_stack_segment)
  also have "\<dots> = 1"
    by (simp add: stack_segment_def nth_append length_stack_data)
      (simp add: stack_data_def stack_words_def nth_append bo_PutWord_def put_u64_def,
       simp add: be_enc_numeral nth_append)
  finally show ?thesis using m(1) by blast
qed

end
