(* ===== verification/Program_Run.thy ===== *)
theory Program_Run
  imports FPVM Program_Image
begin

unbundle bit_operations_syntax

text \<open>
  The state \<open>cannon load-elf\<close> makes of an ELF file for the multithreaded VM (\<open>cannon/cmd/load_elf.go\<close>): the
  segments are loaded, the stack is laid out, and the VM then runs from there.  Whatever the program is, the
  invariant of the VM holds in every state of its run.
\<close>

section \<open>The load command\<close>

text \<open>
  Opening the file, the check that it is a big-endian MIPS file, the metadata and the output are not modelled;
  \<open>LoadDataFailed\<close> and \<open>PatchStateFailed\<close> are the two errors in between.
\<close>

datatype cmd_error = LoadDataFailed load_error | PatchStateFailed patch_error

definition cmd_LoadELF :: "elf_file \<Rightarrow> (cmd_error + State) res" where
  "cmd_LoadELF f =
     bind_res (LoadELF mt_ops CreateInitialState f) (\<lambda>x. case x of
         Inl e \<Rightarrow> Inr (Inl (LoadDataFailed e))
       | Inr s \<Rightarrow> bind_res (PatchStack mt_ops s) (\<lambda>(err, s1). case err of
           Some e \<Rightarrow> Inr (Inl (PatchStateFailed e))
         | None \<Rightarrow> Inr (Inr s1)))"

section \<open>The loaded state\<close>

lemma cmd_LoadELF_state:
  assumes "cmd_LoadELF f = Inr (Inr s)"
  obtains s0 t m where "CreateInitialState (Entry f) HeapStart = Inr s0" "GetCurrentThread s0 = Inr t"
    "s = (putCurrentThread s0 (t\<lparr>Registers := (Registers t)[RegSP := HighMemoryStart]\<rparr>))\<lparr>StMemory := m\<rparr>"
    "loading keccak m"
proof -
  obtain s0 where s0: "CreateInitialState (Entry f) HeapStart = Inr s0" "StMemory s0 = NewMemory" "getActiveThreadStack s0 \<noteq> []"
    using initial_state by blast
  then obtain t where t: "GetCurrentThread s0 = Inr t" by (simp add: GetCurrentThread_def Let_def)
  have load: "loading keccak (GetMemory mt_ops s0)" using loading_NewMemory s0(2) by simp
  obtain s1 where s1: "LoadELF mt_ops CreateInitialState f = Inr (Inr s1)" and patch: "PatchStack mt_ops s1 = Inr (None, s)"
  proof -
    from assms obtain x where x: "LoadELF mt_ops CreateInitialState f = Inr x" by (auto simp: cmd_LoadELF_def res_simps)
    then show thesis using assms that by (cases x) (auto simp: cmd_LoadELF_def res_simps split: option.splits)
  qed
  from s1 have "load_progs mt_ops 0 (Progs f) s0 = Inr (Inr s1)" by (simp only: LoadELF_def s0(1) bind_res_Inr)
  with post_result [OF mt.load_progs_outcome [OF load] this] obtain m1 where
    m1: "s1 = s0\<lparr>StMemory := m1\<rparr>" "loading keccak m1" by auto
  have reg: "putRegister mt_ops RegSP HighMemoryStart s1 =
      Inr ((putCurrentThread s0 (t\<lparr>Registers := (Registers t)[RegSP := HighMemoryStart]\<rparr>))\<lparr>StMemory := m1\<rparr>)"
    using mt.put_commute [of RegSP HighMemoryStart m1 s0] t by (simp add: m1(1) mt_putRegister_def)
  have "loading keccak (GetMemory mt_ops s1)" using m1 by simp
  from mt.PatchStack_image [OF this reg] patch obtain m where
    "s = (putCurrentThread s0 (t\<lparr>Registers := (Registers t)[RegSP := HighMemoryStart]\<rparr>))\<lparr>StMemory := m\<rparr>" "loading keccak m"
    by auto
  then show thesis using that s0(1) t by blast
qed

lemma cmd_LoadELF_inv:
  assumes "cmd_LoadELF f = Inr (Inr s)"
  shows "vm_inv keccak po (NewInstrumentedState s)" and "ids_ok 0 s"
proof -
  obtain s0 t m where s: "CreateInitialState (Entry f) HeapStart = Inr s0" "GetCurrentThread s0 = Inr t"
    "s = (putCurrentThread s0 (t\<lparr>Registers := (Registers t)[RegSP := HighMemoryStart]\<rparr>))\<lparr>StMemory := m\<rparr>"
    "loading keccak m" using cmd_LoadELF_state [OF assms] by blast
  show "vm_inv keccak po (NewInstrumentedState s)"
    using s(1,2) loading_tree [OF s(4)] vm_inv_initial [OF s(1), of keccak po]
    unfolding s(3)
    by (auto simp: CreateInitialState_def CreateEmptyState_def GetCurrentThread_def getActiveThreadStack_def CreateEmptyThread_def
        putCurrentThread_def vm_inv_def data_inv_def NewInstrumentedState_def sched_inv_def rest_threads_def current_def inactive_def reg_inv_def)
  show "ids_ok 0 s"
    using s(1,2) unfolding s(3)
    by (auto simp: CreateInitialState_def CreateEmptyState_def GetCurrentThread_def getActiveThreadStack_def
      putCurrentThread_def CreateEmptyThread_def ids_ok_def thread_ids_def thread_line_def)
qed

section \<open>A program to evaluate the property on\<close>

text \<open>A program of four instructions that starts a thread:
  \<open>lui $a0, 5; ori $a0, $a0, 0xf00; addiu $v0, $zero, 5055; syscall\<close>.\<close>

definition clone_code :: "byte list" where
  "clone_code = [0x3c, 0x04, 0x00, 0x05, 0x34, 0x84, 0x0f, 0x00, 0x24, 0x02, 0x13, 0xbf, 0, 0, 0, 0x0c]"

definition clone_file :: elf_file where
  "clone_file = \<lparr>Entry = 0x1000, Progs = [\<lparr>ProgType = PT_LOAD, ProgVaddr = 0x1000, ProgFilesz = 16, ProgMemsz = 16,
     ProgReader = [Bytes clone_code]\<rparr>], Symbols = None\<rparr>"

definition clone_state :: "Word \<Rightarrow> regfile \<Rightarrow> Word \<Rightarrow> Memory \<Rightarrow> State" where
  "clone_state pc r k x =
     \<lparr>StMemory = x, PreimageKey = replicate 32 0, PreimageOffset = 0, Heap = HeapStart, LLReservationStatus = 0, LLAddress = 0,
      LLOwnerThread = 0, ExitCode = 0, Exited = False, Step = k, StepsSinceLastContextSwitch = k, TraverseRight = False,
      LeftThreadStack = [\<lparr>ThreadId = 0, ThExitCode = 0, ThExited = False,
        Cpu = \<lparr>PC = pc, NextPC = pc + 4, LO = 0, HI = 0\<rparr>, Registers = r\<rparr>],
      RightThreadStack = [], NextThreadId = 1, LastHint = []\<rparr>"

definition clone_mem :: "Memory \<Rightarrow> bool" where
  "clone_mem x \<longleftrightarrow> tree_ok sample_keccak x \<and> word_at x 0x1000 = 0x3c04000534840f00 \<and> word_at x 0x1008 = 0x240213bf0000000c"

lemma clone_load:
  obtains x where "cmd_LoadELF clone_file = Inr (Inr (clone_state 0x1000 ((replicate 32 0)[29 := HighMemoryStart]) 0 x))"
    "clone_mem x"
proof -
  have acc: "\<forall>p\<in>set (Progs clone_file). accepted p \<and> (\<not> skipped p \<longrightarrow> readable (\<lambda>_. clone_code) p)"
    by (simp add: clone_file_def clone_code_def accepted_def readable_def)
  let ?s0 = "clone_state 0x1000 (replicate 32 0) 0 NewMemory"
  have s0: "CreateInitialState (Entry clone_file) HeapStart = Inr ?s0"
    by (simp add: clone_file_def CreateInitialState_def CreateEmptyState_def CreateEmptyThread_def GetCurrentThread_def
        getActiveThreadStack_def putCurrentThread_def clone_state_def Let_def)
  have "loading sample_keccak (GetMemory mt_ops ?s0)" using loading_NewMemory by (simp add: clone_state_def)
  from mt.load_progs_image [OF this acc, of 0] obtain m1 where
    m1: "load_progs mt_ops 0 (Progs clone_file) ?s0 = Inr (Inr (?s0\<lparr>StMemory := m1\<rparr>))" "loading sample_keccak m1"
      "\<And>a. a < 2 ^ 64 \<Longrightarrow> mem_byte m1 a = load_image (\<lambda>_. clone_code) (Progs clone_file) (mem_byte NewMemory) a"
    by (auto simp: clone_state_def)
  let ?s1 = "?s0\<lparr>StMemory := m1\<rparr>" and ?r = "(replicate 32 0)[29 := HighMemoryStart] :: regfile"
  have reg: "putRegister mt_ops RegSP HighMemoryStart ?s1 = Inr (clone_state 0x1000 ?r 0 m1)"
    by (simp add: clone_state_def mt_putRegister_def GetCurrentThread_def getActiveThreadStack_def putCurrentThread_def Let_def)
  have "loading sample_keccak (GetMemory mt_ops ?s1)" using m1(2) by simp
  from mt.PatchStack_image [OF this reg] obtain x where
    x: "PatchStack mt_ops ?s1 = Inr (None, clone_state 0x1000 ?r 0 x)" "loading sample_keccak x"
      "\<And>a. a < 2 ^ 64 \<Longrightarrow> mem_byte x a = write_data (unat (HighMemoryStart - 4 * of_nat PageSize)) stack_segment (mem_byte m1) a"
    by (auto simp: clone_state_def)
  have "cmd_LoadELF clone_file = Inr (Inr (clone_state 0x1000 ?r 0 x))"
    by (simp only: cmd_LoadELF_def LoadELF_def s0 bind_res_Inr m1(1) sum.case x(1) prod.case option.case)
  moreover have byte: "mem_byte x (0x1000 + j) = clone_code ! j" if "j < 16" for j
    using that x(3) [of "0x1000 + j"] m1(3) [of "0x1000 + j"]
    by (simp add: write_data_def load_image_def segment_image_def clone_file_def clone_code_def skipped_def)
  have "clone_mem x"
  proof -
    have bytes: "mem_byte x 0x1000 = 0x3c" "mem_byte x 0x1001 = 4" "mem_byte x 0x1002 = 0" "mem_byte x 0x1003 = 5"
      "mem_byte x 0x1004 = 0x34" "mem_byte x 0x1005 = 0x84" "mem_byte x 0x1006 = 0xf" "mem_byte x 0x1007 = 0"
      "mem_byte x 0x1008 = 0x24" "mem_byte x 0x1009 = 2" "mem_byte x 0x100a = 0x13" "mem_byte x 0x100b = 0xbf"
      "mem_byte x 0x100c = 0" "mem_byte x 0x100d = 0" "mem_byte x 0x100e = 0" "mem_byte x 0x100f = 0xc"
      using byte [of 0] byte [of 1] byte [of 2] byte [of 3] byte [of 4] byte [of 5] byte [of 6] byte [of 7]
        byte [of 8] byte [of 9] byte [of 10] byte [of 11] byte [of 12] byte [of 13] byte [of 14] byte [of 15]
      by (simp_all add: clone_code_def)
    have "map (mem_byte x) [0x1000..<0x1008] = take 8 clone_code" "map (mem_byte x) [0x1008..<0x1010] = drop 8 clone_code"
      by (simp_all add: upt_rec clone_code_def bytes)
    then show ?thesis using loading_tree [OF x(2)]
      by (simp add: clone_mem_def word_at_def clone_code_def bo_Word_def get_u64_def be_dec_def)
  qed
  ultimately show thesis using that by blast
qed

lemma clone_fetch:
  assumes "clone_mem x" "pc AND 3 = 0" "aligned (pc AND AddressMask)"
    "ucast (SelectSubWord pc (word_at x (pc AND AddressMask)) 4 False) = insn"
  shows "\<exists>x'. GetInstructionDetails pc x = Inr ((insn, drop_bit 26 insn, insn AND 0x3f), x') \<and> clone_mem x'"
proof -
  from assms(1) have "tree_ok sample_keccak x" by (simp add: clone_mem_def)
  from GetWord_post [OF this assms(3)] obtain x' where
    x': "GetWord x (pc AND AddressMask) = Inr (word_at x (pc AND AddressMask), x')" "tree_ok sample_keccak x'" "word_at x' = word_at x"
    by (auto simp: post_no_panic)
  then have "clone_mem x'" using assms(1) by (simp add: clone_mem_def)
  then show ?thesis using x'(1) assms(2,4) by (simp add: GetInstructionDetails_def Let_def)
qed

lemma clone_alu:
  assumes "state m = clone_state pc r k x" "clone_mem x" "k < 100000" "pc' = pc + 4" "k' = k + 1"
    "pc AND 3 = 0" "aligned (pc AND AddressMask)"
    "ucast (SelectSubWord pc (word_at x (pc AND AddressMask)) 4 False) = insn"
    "drop_bit 26 insn = opc" "insn AND 0x3f = fn" "opc \<in> {9, 13, 15}"
    "\<And>x trk. ExecMipsCoreStepLogic sample_keccak insn opc fn
      \<lparr>cpu = \<lparr>PC = pc, NextPC = pc + 4, LO = 0, HI = 0\<rparr>, regs = r, mem = x, tracker = trk, stackEvents = []\<rparr> =
      Inr (None, \<lparr>cpu = \<lparr>PC = pc + 4, NextPC = pc + 8, LO = 0, HI = 0\<rparr>, regs = r', mem = x, tracker = trk, stackEvents = []\<rparr>)"
  shows "\<exists>m' x'. FPVM_Step sample_keccak po False m = Inr (None, m') \<and> state m' = clone_state pc' r' k' x' \<and> clone_mem x'"
proof -
  from clone_fetch [OF assms(2,6-8)] obtain x' where
    f: "GetInstructionDetails pc x = Inr ((insn, opc, fn), x')" "clone_mem x'" unfolding assms(9,10) by blast
  have k: "\<not> 100000 \<le> k" using assms(3) by simp
  show ?thesis
    using assms(1,11) f k assms(12)
    by (auto simp: assms(4,5) clone_state_def FPVM_Step_def mipsStep_def doMipsStep_def GetCurrentThread_def
        getActiveThreadStack_def set_state_def GetPC_def Let_def core_of_def
        exec_instruction_def put_core_def putCurrentThread_def log_stack_def assertPostStateChecks_def)
qed

lemmas clone_sims = ExecMipsCoreStepLogic_def reg_get_def fetch_rt_def fetch_mem_def
      core_finish_def Let_def ExecuteMipsInstruction_def exec_special_def arith_fun_def HandleRd_def funSel_def
      exec_opcode_def reg_set_def SignExtendImmediate_def SignExtend_def

lemma clone_words:
  assumes "clone_mem x"
  shows "ucast (SelectSubWord 0x1000 (word_at x (0x1000 AND AddressMask)) 4 False) = (0x3c040005 :: u32)"
    "ucast (SelectSubWord 0x1004 (word_at x (0x1004 AND AddressMask)) 4 False) = (0x34840f00 :: u32)"
    "ucast (SelectSubWord 0x1008 (word_at x (0x1008 AND AddressMask)) 4 False) = (0x240213bf :: u32)"
    "ucast (SelectSubWord 0x100c (word_at x (0x100c AND AddressMask)) 4 False) = (0xc :: u32)"
  using assms by (simp_all add: clone_mem_def SelectSubWord_def calculateSubWordMaskAndOffset_def Let_def mask_eq_exp_minus_1)

lemma clone_cores:
  fixes r0 :: regfile
  defines "r0 \<equiv> (replicate 32 0)[29 := HighMemoryStart]"
  shows "ExecMipsCoreStepLogic sample_keccak 0x3c040005 15 5
      \<lparr>cpu = \<lparr>PC = pc, NextPC = pc + 4, LO = 0, HI = 0\<rparr>, regs = r0, mem = x, tracker = trk, stackEvents = []\<rparr> =
      Inr (None, \<lparr>cpu = \<lparr>PC = pc + 4, NextPC = pc + 8, LO = 0, HI = 0\<rparr>, regs = r0[4 := 0x50000], mem = x, tracker = trk, stackEvents = []\<rparr>)"
  "ExecMipsCoreStepLogic sample_keccak 0x34840f00 13 0
      \<lparr>cpu = \<lparr>PC = pc, NextPC = pc + 4, LO = 0, HI = 0\<rparr>, regs = r0[4 := 0x50000], mem = x, tracker = trk, stackEvents = []\<rparr> =
      Inr (None, \<lparr>cpu = \<lparr>PC = pc + 4, NextPC = pc + 8, LO = 0, HI = 0\<rparr>, regs = r0[4 := 0x50f00], mem = x, tracker = trk, stackEvents = []\<rparr>)"
  "ExecMipsCoreStepLogic sample_keccak 0x240213bf 9 0x3f
      \<lparr>cpu = \<lparr>PC = pc, NextPC = pc + 4, LO = 0, HI = 0\<rparr>, regs = r0[4 := 0x50f00], mem = x, tracker = trk, stackEvents = []\<rparr> =
      Inr (None, \<lparr>cpu = \<lparr>PC = pc + 4, NextPC = pc + 8, LO = 0, HI = 0\<rparr>, regs = r0[4 := 0x50f00, 2 := 5055], mem = x, tracker = trk, stackEvents = []\<rparr>)"
  unfolding r0_def
  by (simp_all add: clone_sims)

lemma clone_syscall:
  assumes "state m = clone_state 0x100c ((replicate 32 0)[29 := HighMemoryStart, 4 := 0x50f00, 2 := 5055]) 3 x" "clone_mem x"
  shows "\<exists>m'. FPVM_Step sample_keccak po False m = Inr (None, m') \<and> map ThreadId (LeftThreadStack (state m')) = [0, 1]"
proof -
  from clone_fetch [OF assms(2) _ _ clone_words(4) [OF assms(2)]] obtain x' where
    f: "GetInstructionDetails 0x100c x = Inr ((0xc, 0, 0xc), x')" by (auto simp: aligned_def)
  then show ?thesis
    using assms(1)
    by (simp add: clone_state_def FPVM_Step_def mipsStep_def doMipsStep_def GetCurrentThread_def GetPC_def Let_def
        getActiveThreadStack_def set_state_def handleSyscall_def GetSyscallArgs_def sys_clone_def syscall_updates_def HandleSyscallUpdates_def
        pushThread_def putCurrentThread_def log_stack_def assertPostStateChecks_def)
qed

lemma clone_run:
  obtains s m where "cmd_LoadELF clone_file = Inr (Inr s)" "vm_steps sample_keccak po 4 (NewInstrumentedState s) m"
    "map ThreadId (LeftThreadStack (state m)) = [0, 1]"
proof -
  let ?r0 = "(replicate 32 0)[29 := HighMemoryStart] :: regfile"
  obtain x where s: "cmd_LoadELF clone_file = Inr (Inr (clone_state 0x1000 ?r0 0 x))" "clone_mem x" by (rule clone_load)
  let ?m = "NewInstrumentedState (clone_state 0x1000 ?r0 0 x)"
  let ?r1 = "?r0[4 := 0x50000]" let ?r2 = "?r0[4 := 0x50f00]" let ?r3 = "?r2[2 := 5055]"
  have st: "state ?m = clone_state 0x1000 ?r0 0 x" by (simp add: NewInstrumentedState_def)
  have "\<exists>m' x'. FPVM_Step sample_keccak po False ?m = Inr (None, m') \<and> state m' = clone_state 0x1004 ?r1 1 x' \<and> clone_mem x'"
    by (rule clone_alu [OF st s(2) _ _ _ _ _ clone_words(1) [OF s(2)] _ _ _ clone_cores(1)]) (simp_all add: aligned_def)
  then obtain m1 x1 where m1: "FPVM_Step sample_keccak po False ?m = Inr (None, m1)" "state m1 = clone_state 0x1004 ?r1 1 x1" "clone_mem x1" by blast
  have "\<exists>m' x'. FPVM_Step sample_keccak po False m1 = Inr (None, m') \<and> state m' = clone_state 0x1008 ?r2 2 x' \<and> clone_mem x'"
    by (rule clone_alu [OF m1(2,3) _ _ _ _ _ clone_words(2) [OF m1(3)] _ _ _ clone_cores(2)]) (simp_all add: aligned_def)
  then obtain m2 x2 where m2: "FPVM_Step sample_keccak po False m1 = Inr (None, m2)" "state m2 = clone_state 0x1008 ?r2 2 x2" "clone_mem x2" by blast
  have "\<exists>m' x'. FPVM_Step sample_keccak po False m2 = Inr (None, m') \<and> state m' = clone_state 0x100c ?r3 3 x' \<and> clone_mem x'"
    by (rule clone_alu [OF m2(2,3) _ _ _ _ _ clone_words(3) [OF m2(3)] _ _ _ clone_cores(3)]) (simp_all add: aligned_def)
  then obtain m3 x3 where m3: "FPVM_Step sample_keccak po False m2 = Inr (None, m3)" "state m3 = clone_state 0x100c ?r3 3 x3" "clone_mem x3" by blast
  obtain m4 where m4: "FPVM_Step sample_keccak po False m3 = Inr (None, m4)" "map ThreadId (LeftThreadStack (state m4)) = [0, 1]"
    using clone_syscall [OF m3(2,3), where po = po] by (elim exE conjE) (rule that)
  have four: "Suc (Suc (Suc (Suc 0))) = 4" by simp
  have "vm_steps sample_keccak po (Suc (Suc (Suc (Suc 0)))) ?m m4"
    by (rule vm_next [OF vm_next [OF vm_next [OF vm_next [OF vm_start m1(1)] m2(1)] m3(1)] m4(1)])
  then have "vm_steps sample_keccak po 4 ?m m4" by (simp only: four)
  then show thesis by (rule that [OF s(1) _ m4(2)])
qed

section \<open>Properties\<close>

text \<open>C2: A loaded program cannot corrupt or block the machine, for a hash function with 32-byte values.  For every ELF file that \<open>load-elf\<close> turns into a
  state, in every state the multithreaded VM reaches from it by any number of steps - whatever the program executes
  and however its threads are created, preempted and exited - there is a thread to run, only the running thread can
  have exited, every register file has 32 registers with register 0 at zero, the scheduling quantum is not exceeded,
  the cached Merkle nodes agree with the bytes of the memory, and (within 2 to the 64 steps) thread ids are distinct.\<close>

theorem loaded_program_safe:
  assumes "cmd_LoadELF f = Inr (Inr s)" and "hash_fn keccak"
    and "vm_steps keccak po n (NewInstrumentedState s) m"
  shows "getActiveThreadStack (state m) \<noteq> [] \<and>
    (\<forall>t \<in> set (rest_threads (state m)). \<not> ThExited t) \<and>
    (\<forall>t \<in> set (thread_line (state m)). length (Registers t) = 32 \<and> Registers t ! 0 = 0) \<and>
    StepsSinceLastContextSwitch (state m) \<le> SchedQuantum \<and> tree_ok keccak (StMemory (state m)) \<and>
    (n < 2 ^ 64 - 1 \<longrightarrow> distinct (map ThreadId (thread_line (state m))))"
proof -
  have i0: "vm_inv keccak po (NewInstrumentedState s)" by (rule cmd_LoadELF_inv(1) [OF assms(1)])
  have "vm_inv keccak po m" using vm_steps_inv [OF assms(3) i0 assms(2)] by blast
  note ok = vm_inv_threads [OF this]
  have "distinct (map ThreadId (thread_line (state m)))" if "n < 2 ^ 64 - 1"
  proof -
    have "ids_ok 0 (state (NewInstrumentedState s))"
      using cmd_LoadELF_inv(2) [OF assms(1)] by (simp add: NewInstrumentedState_def)
    from vm_steps_ids [OF assms(3) i0 assms(2) this that] show ?thesis by (rule thread_ids_distinct)
  qed
  with ok show ?thesis by blast
qed

theorem loaded_program_safe_witness:
  "\<exists>s m. cmd_LoadELF clone_file = Inr (Inr s) \<and> vm_steps sample_keccak id 4 (NewInstrumentedState s) m \<and>
     map ThreadId (LeftThreadStack (state m)) = [0, 1] \<and> distinct (map ThreadId (thread_line (state m))) \<and>
     tree_ok sample_keccak (StMemory (state m))"
proof -
  obtain s m where run: "cmd_LoadELF clone_file = Inr (Inr s)" "vm_steps sample_keccak id 4 (NewInstrumentedState s) m"
    "map ThreadId (LeftThreadStack (state m)) = [0, 1]" by (rule clone_run)
  from loaded_program_safe [OF run(1) hash_fn_sample run(2)] show ?thesis using run by (intro exI [of _ s] exI [of _ m]) simp
qed

end
