(* ===== verification/Derive_Frame.thy ===== *)
theory Derive_Frame
  imports Memory_IO "HOL-Library.Sublist"
begin

unbundle bit_operations_syntax

text \<open>
  Frames of the derivation pipeline: the encoding of \<open>op-node/rollup/derive/frame.go\<close> and the frame queue
  of \<open>frame_queue.go\<close>, which since Holocene prunes what it parsed to contiguous frames.  A \<open>bytes.Buffer\<close> is the
  list of its unread bytes.
\<close>

section \<open>Frames\<close>

definition MaxFrameLen :: nat where [simp]: "MaxFrameLen = 1000000"
definition ChannelIDLength :: nat where [simp]: "ChannelIDLength = 16"
definition DerivationVersion0 :: byte where [simp]: "DerivationVersion0 = 0"
definition frameOverhead :: "64 word" where [simp]: "frameOverhead = 200"

type_synonym ChannelID = "byte list"

record Frame =
  FrID :: ChannelID
  FrameNumber :: "16 word"
  FrData :: "byte list"
  IsLast :: bool

definition frameSize :: "Frame \<Rightarrow> 64 word" where
  "frameSize f = of_nat (length (FrData f)) + frameOverhead"

definition put_be16 :: "16 word \<Rightarrow> byte list" where
  "put_be16 v = be_enc 2 (unat v)"

definition get_be16 :: "byte list \<Rightarrow> 16 word" where
  "get_be16 bs = of_nat (be_dec (take 2 bs))"

definition put_be32 :: "32 word \<Rightarrow> byte list" where
  "put_be32 v = be_enc 4 (unat v)"

definition MarshalBinary :: "Frame \<Rightarrow> byte list" where
  "MarshalBinary f =
     FrID f @ put_be16 (FrameNumber f) @ put_be32 (of_nat (length (FrData f))) @ FrData f @ (if IsLast f then [1] else [0])"

datatype frame_error =
    ReadingChannelID io_err
  | ReadingFrameNumber io_err
  | ReadingDataLength io_err
  | FrameTooLarge "32 word"
  | ReadingData io_err
  | ReadingIsLast io_err
  | InvalidIsLast
  | EmptyData
  | InvalidVersion byte
  | ParsingFrame nat frame_error
  | NoFrames

fun eofAsUnexpectedMissing :: "io_err \<Rightarrow> io_err" where
  "eofAsUnexpectedMissing EOF = UnexpectedEOF"
| "eofAsUnexpectedMissing e = e"

definition wrap_err :: "('e \<Rightarrow> 'f) \<Rightarrow> 'e + 'a \<Rightarrow> 'f + 'a" where
  "wrap_err h r = (case r of Inl e \<Rightarrow> Inl (h e) | Inr x \<Rightarrow> Inr x)"

definition UnmarshalBinary :: "byte list \<Rightarrow> frame_error + Frame \<times> byte list" where
  "UnmarshalBinary r =
     bind_res (wrap_err ReadingChannelID (read_full ChannelIDLength r)) (\<lambda>(cid, r1).
     bind_res (wrap_err (ReadingFrameNumber \<circ> eofAsUnexpectedMissing) (read_full 2 r1)) (\<lambda>(num, r2).
     bind_res (wrap_err (ReadingDataLength \<circ> eofAsUnexpectedMissing) (read_full 4 r2)) (\<lambda>(len, r3).
       let frameLength = get_u32 len
       in if of_nat MaxFrameLen < frameLength then Inl (FrameTooLarge frameLength)
          else bind_res (wrap_err (ReadingData \<circ> eofAsUnexpectedMissing) (read_full (unat frameLength) r3)) (\<lambda>(dat, r4).
               bind_res (wrap_err (ReadingIsLast \<circ> eofAsUnexpectedMissing) (read_full 1 r4)) (\<lambda>(b, r5).
                 if hd b = 0 then Inr (\<lparr>FrID = cid, FrameNumber = get_be16 num, FrData = dat, IsLast = False\<rparr>, r5)
                 else if hd b = 1 then Inr (\<lparr>FrID = cid, FrameNumber = get_be16 num, FrData = dat, IsLast = True\<rparr>, r5)
                 else Inl InvalidIsLast)))))"

text \<open>The frames the encoding is meant for.\<close>

definition frame_ok :: "Frame \<Rightarrow> bool" where
  "frame_ok f \<longleftrightarrow> length (FrID f) = ChannelIDLength \<and> length (FrData f) \<le> MaxFrameLen"

section \<open>Decoding is the inverse of encoding\<close>

lemma read_full_chunk [simp]: "length xs = n \<Longrightarrow> read_full n (xs @ ys) = Inr (xs, ys)"
  by (simp add: read_full_def)

lemma read_full_Inr: "read_full n inp = Inr (xs, ys) \<longleftrightarrow> inp = xs @ ys \<and> length xs = n"
  by (auto simp: read_full_def)

lemma wrap_err_Inr [simp]: "wrap_err h (Inr x) = Inr x" "wrap_err h r = Inr x \<longleftrightarrow> r = Inr x"
  by (cases r; simp add: wrap_err_def)+

lemma read_full_byte [simp]: "read_full (Suc 0) (x # rest) = Inr ([x], rest)"
  by (simp add: read_full_def)

lemma length_put [simp]: "length (put_be16 a) = 2" "length (put_be32 b) = 4"
  by (simp_all add: put_be16_def put_be32_def)

lemma get_put_be16 [simp]: "get_be16 (put_be16 v) = v"
proof -
  have "unat v < 2 ^ LENGTH(16)" by (rule unsigned_less)
  then show ?thesis by (simp add: get_be16_def put_be16_def be_dec_enc)
qed

lemma put_get_be16: "length bs = 2 \<Longrightarrow> put_be16 (get_be16 bs) = bs"
  using be_dec_bound [of bs] be_enc_dec [of bs] by (simp add: put_be16_def get_be16_def unat_of_nat)

lemma get_put_be32 [simp]: "get_u32 (put_be32 v) = v"
proof -
  have "unat v < 2 ^ LENGTH(32)" by (rule unsigned_less)
  then show ?thesis by (simp add: get_u32_def put_be32_def be_dec_enc)
qed

lemma put_get_u32: "length bs = 4 \<Longrightarrow> put_be32 (get_u32 bs) = bs"
  using be_dec_bound [of bs] be_enc_dec [of bs] by (simp add: put_be32_def get_u32_def unat_of_nat)

lemma Unmarshal_Marshal:
  assumes "frame_ok f"
  shows "UnmarshalBinary (MarshalBinary f @ rest) = Inr (f, rest)"
proof -
  have len: "length (FrData f) \<le> 1000000" "length (FrID f) = 16" using assms by (simp_all add: frame_ok_def)
  then have u: "unat (of_nat (length (FrData f)) :: 32 word) = length (FrData f)" by (simp add: unat_of_nat)
  have "(of_nat (length (FrData f)) :: 32 word) \<le> 1000000" using len(1) by (simp add: word_le_nat_alt u)
  then show ?thesis
    using len by (simp add: UnmarshalBinary_def MarshalBinary_def u Let_def leD)
qed

lemma Unmarshal_inv:
  assumes "UnmarshalBinary inp = Inr (f, rest)"
  shows "frame_ok f \<and> inp = MarshalBinary f @ rest"
proof -
  from assms obtain cid r1 num r2 len r3 dat r4 b where
    r: "inp = cid @ r1" "length cid = 16" "r1 = num @ r2" "length num = 2" "r2 = len @ r3" "length len = 4"
      "\<not> 1000000 < get_u32 len" "r3 = dat @ r4" "length dat = unat (get_u32 len)" "r4 = b @ rest" "length b = 1"
      and f: "f = \<lparr>FrID = cid, FrameNumber = get_be16 num, FrData = dat, IsLast = (hd b = 1)\<rparr>" "hd b = 0 \<or> hd b = 1"
    by (auto simp: UnmarshalBinary_def res_simps read_full_Inr Let_def split: if_splits)
  obtain x where b: "b = [x]" using r(11) by (cases b) auto
  have "get_u32 len \<le> 1000000" using r(7) by (simp add: not_less)
  then have "length dat \<le> 1000000" unfolding r(9) by (simp add: word_le_nat_alt)
  moreover have "put_be32 (of_nat (length dat)) = len" using put_get_u32 [OF r(6)] by (simp add: r(9))
  ultimately show ?thesis
    using f(2) by (auto simp: frame_ok_def MarshalBinary_def f(1) r b put_get_be16)
qed

lemma Unmarshal_shorter: "UnmarshalBinary inp = Inr (f, rest) \<Longrightarrow> length rest < length inp"
  using Unmarshal_inv [of inp f rest] by (auto simp: MarshalBinary_def)

section \<open>ParseFrames\<close>

function parse_loop :: "Frame list \<Rightarrow> byte list \<Rightarrow> frame_error + Frame list" where
  "parse_loop frames buf =
     (if 0 < length buf then
        (case UnmarshalBinary buf of
           Inl e \<Rightarrow> Inl (ParsingFrame (length frames) e)
         | Inr (f, rest) \<Rightarrow> parse_loop (frames @ [f]) rest)
      else Inr frames)"
  by pat_completeness auto
termination
  by (relation "measure (\<lambda>(frames, buf). length buf)") (auto dest: Unmarshal_shorter)

declare parse_loop.simps [simp del]

text \<open>After the loop the buffer is empty, so the test for left-over bytes never fails and has no branch here.\<close>

definition ParseFrames :: "byte list \<Rightarrow> frame_error + Frame list" where
  "ParseFrames dat =
     (case dat of
        [] \<Rightarrow> Inl EmptyData
      | v # buf \<Rightarrow>
          if v \<noteq> DerivationVersion0 then Inl (InvalidVersion v)
          else bind_res (parse_loop [] buf) (\<lambda>frames. if length frames = 0 then Inl NoFrames else Inr frames))"

lemma parse_loop_iff:
  "parse_loop acc buf = Inr fs \<longleftrightarrow> (\<exists>gs. fs = acc @ gs \<and> buf = concat (map MarshalBinary gs) \<and> (\<forall>f\<in>set gs. frame_ok f))"
proof (induction acc buf rule: parse_loop.induct)
  case (1 acc buf)
  show ?case
  proof (cases "buf = []")
    case True
    have "MarshalBinary f \<noteq> []" for f by (simp add: MarshalBinary_def)
    then have "concat (map MarshalBinary gs) = [] \<longleftrightarrow> gs = []" for gs by (cases gs) simp_all
    then show ?thesis using True by (subst parse_loop.simps) auto
  next
    case False
    show ?thesis
    proof (cases "UnmarshalBinary buf")
      case (Inl e)
      have "\<not> (\<exists>gs. buf = concat (map MarshalBinary gs) \<and> (\<forall>f\<in>set gs. frame_ok f))"
      proof clarify
        fix gs assume gs: "buf = concat (map MarshalBinary gs)" "\<forall>f\<in>set gs. frame_ok f"
        then obtain g hs where "gs = g # hs" using False by (cases gs) auto
        then show False using gs Inl Unmarshal_Marshal [of g "concat (map MarshalBinary hs)"] by simp
      qed
      then show ?thesis using False Inl by (subst parse_loop.simps) auto
    next
      case (Inr x)
      obtain f rest where x: "UnmarshalBinary buf = Inr (f, rest)" using Inr by (cases x) simp
      note inv = Unmarshal_inv [OF x]
      have step: "parse_loop acc buf = parse_loop (acc @ [f]) rest"
        using False x by (subst parse_loop.simps) simp
      have eq: "(\<exists>gs. fs = acc @ gs \<and> buf = concat (map MarshalBinary gs) \<and> (\<forall>f\<in>set gs. frame_ok f)) \<longleftrightarrow>
          (\<exists>hs. fs = (acc @ [f]) @ hs \<and> rest = concat (map MarshalBinary hs) \<and> (\<forall>f\<in>set hs. frame_ok f))" (is "?L \<longleftrightarrow> ?R")
      proof
        assume ?L
        then obtain gs where gs: "fs = acc @ gs" "buf = concat (map MarshalBinary gs)" "\<forall>f\<in>set gs. frame_ok f" by blast
        then obtain g hs where g: "gs = g # hs" using False by (cases gs) auto
        have "UnmarshalBinary buf = Inr (g, concat (map MarshalBinary hs))" using gs g Unmarshal_Marshal by simp
        then show ?R using gs g x by auto
      next
        assume ?R
        then obtain hs where "fs = (acc @ [f]) @ hs" "rest = concat (map MarshalBinary hs)" "\<forall>f\<in>set hs. frame_ok f" by blast
        then show ?L using inv by (intro exI [of _ "f # hs"]) simp
      qed
      show ?thesis unfolding step eq using "1.IH" [OF _ x refl] False by simp
    qed
  qed
qed

text \<open>C10: ParseFrames accepts exactly the data of the format: the version byte 0 followed by the encodings of
  one or more frames, with channel ids of 16 bytes and at most \<open>MaxFrameLen\<close> bytes of data, and returns those
  frames.  So encoding then parsing is the identity, and no two encodings of the same frames exist.\<close>

theorem ParseFrames_exact:
  "ParseFrames dat = Inr fs \<longleftrightarrow>
     fs \<noteq> [] \<and> (\<forall>f\<in>set fs. frame_ok f) \<and> dat = DerivationVersion0 # concat (map MarshalBinary fs)"
proof -
  have loop: "parse_loop [] buf = Inr fs \<longleftrightarrow> buf = concat (map MarshalBinary fs) \<and> (\<forall>f\<in>set fs. frame_ok f)" for buf
    by (auto simp: parse_loop_iff)
  show ?thesis
    by (cases dat) (auto simp: ParseFrames_def res_simps loop split: if_splits)
qed

theorem ParseFrames_exact_witness:
  "ParseFrames (0 # concat (map MarshalBinary [\<lparr>FrID = replicate 16 7, FrameNumber = 0, FrData = [1, 2, 3], IsLast = True\<rparr>]))
     = Inr [\<lparr>FrID = replicate 16 7, FrameNumber = 0, FrData = [1, 2, 3], IsLast = True\<rparr>]"
  by (simp add: ParseFrames_exact frame_ok_def)

section \<open>Pruning\<close>

text \<open>
  The loop of \<open>pruneFrameQueue\<close> with its cursor \<open>i\<close>; \<open>discard d\<close> removes the frame at \<open>i + d\<close>.
\<close>

definition discard_at :: "nat \<Rightarrow> 'a list \<Rightarrow> 'a list" where
  "discard_at k frames = take k frames @ drop (k + 1) frames"

lemma length_discard_at [simp]: "k < length frames \<Longrightarrow> length (discard_at k frames) = length frames - 1"
  by (simp add: discard_at_def)

function prune_loop :: "nat \<Rightarrow> Frame list \<Rightarrow> Frame list" where
  "prune_loop i frames =
     (if i + 1 < length frames then
        let current = frames ! i; nxt = frames ! (i + 1)
        in if FrID current = FrID nxt then
             if IsLast current then prune_loop i (discard_at (i + 1) frames)
             else if FrameNumber nxt \<noteq> FrameNumber current + 1 then prune_loop i (discard_at (i + 1) frames)
             else prune_loop (i + 1) frames
           else if FrameNumber nxt = 0 \<and> \<not> IsLast current then
             prune_loop (if 0 < i then i - 1 else i) (discard_at i frames)
           else if FrameNumber nxt \<noteq> 0 then prune_loop i (discard_at (i + 1) frames)
           else prune_loop (i + 1) frames
      else frames)"
  by pat_completeness auto
termination
  by (relation "measures [\<lambda>(i, frames). length frames, \<lambda>(i, frames). length frames - i]") auto

declare prune_loop.simps [simp del]

definition pruneFrameQueue :: "Frame list \<Rightarrow> Frame list" where
  "pruneFrameQueue frames = prune_loop 0 frames"

text \<open>What the queue must look like after pruning: each frame continues or properly follows the one before.\<close>

definition follows :: "Frame \<Rightarrow> Frame \<Rightarrow> bool" where
  "follows a b \<longleftrightarrow>
     (if FrID a = FrID b then \<not> IsLast a \<and> FrameNumber b = FrameNumber a + 1
      else FrameNumber b = 0 \<and> IsLast a)"

definition contiguous :: "Frame list \<Rightarrow> bool" where
  "contiguous fs \<longleftrightarrow> (\<forall>i. Suc i < length fs \<longrightarrow> follows (fs ! i) (fs ! Suc i))"

lemma subseq_discard: "subseq (discard_at k frames) frames"
proof -
  have "drop (k + 1) frames = drop 1 (drop k frames)" by simp
  then have "subseq (drop (k + 1) frames) (drop k frames)" by (metis suffix_drop suffix_imp_subseq)
  then have "subseq (take k frames @ drop (k + 1) frames) (take k frames @ drop k frames)"
    by (intro list_emb_append_mono subseq_order.refl)
  then show ?thesis by (simp add: discard_at_def)
qed

lemma nth_discard: "k < length frames \<Longrightarrow> j < length frames - 1 \<Longrightarrow>
    discard_at k frames ! j = (if j < k then frames ! j else frames ! Suc j)"
  by (auto simp: discard_at_def nth_append min_def)

text \<open>The frames up to the cursor are contiguous: the loop keeps this and ends with the cursor at the end.\<close>

definition contiguous_to :: "nat \<Rightarrow> Frame list \<Rightarrow> bool" where
  "contiguous_to i fs \<longleftrightarrow> i \<le> length fs \<and> (\<forall>j<i. Suc j < length fs \<longrightarrow> follows (fs ! j) (fs ! Suc j))"

lemma contiguous_to_discard:
  assumes "contiguous_to i frames" "i + 1 < length frames"
  shows "contiguous_to i (discard_at (i + 1) frames)" "contiguous_to (if 0 < i then i - 1 else i) (discard_at i frames)"
  using assms by (auto simp: contiguous_to_def nth_discard)

lemma contiguous_to_Suc: "contiguous_to i frames \<Longrightarrow> i + 1 < length frames \<Longrightarrow> follows (frames ! i) (frames ! (i + 1)) \<Longrightarrow>
    contiguous_to (i + 1) frames"
  by (auto simp: contiguous_to_def less_Suc_eq)

lemma prune_loop_next:
  assumes "i + 1 < length frames"
  shows "prune_loop i frames = prune_loop i (discard_at (i + 1) frames) \<or>
    prune_loop i frames = prune_loop (if 0 < i then i - 1 else i) (discard_at i frames) \<or>
    follows (frames ! i) (frames ! (i + 1)) \<and> prune_loop i frames = prune_loop (i + 1) frames"
  by (subst (1 3 5) prune_loop.simps) (use assms in \<open>simp add: Let_def follows_def\<close>)

lemma prune_loop_result:
  "contiguous_to i frames \<Longrightarrow> contiguous (prune_loop i frames) \<and> subseq (prune_loop i frames) frames"
proof (induction "(i, frames)" arbitrary: i frames
    rule: wf_induct_rule [OF wf_measures [of "[\<lambda>(i, frames). length frames, \<lambda>(i, frames). length frames - i]"]])
  case (1 i frames)
  show ?case
  proof (cases "i + 1 < length frames")
    case False
    then have "prune_loop i frames = frames" by (subst prune_loop.simps) simp
    then show ?thesis using "1.prems" False by (auto simp: contiguous_to_def contiguous_def)
  next
    case True
    have shorter: "length (discard_at k frames) < length frames" if "k < length frames" for k
      using that by (cases frames) auto
    have dropped: "contiguous (prune_loop i' (discard_at k frames)) \<and> subseq (prune_loop i' (discard_at k frames)) frames"
      if "contiguous_to i' (discard_at k frames)" "k < length frames" for i' k
    proof -
      have "contiguous (prune_loop i' (discard_at k frames)) \<and> subseq (prune_loop i' (discard_at k frames)) (discard_at k frames)"
        by (rule "1.hyps" [OF _ that(1)]) (use shorter [OF that(2)] in simp)
      then show ?thesis using subseq_order.order_trans [OF _ subseq_discard] by blast
    qed
    have ahead: "contiguous (prune_loop (i + 1) frames) \<and> subseq (prune_loop (i + 1) frames) frames"
      if "follows (frames ! i) (frames ! (i + 1))"
      by (rule "1.hyps" [OF _ contiguous_to_Suc [OF "1.prems" True that]]) (use True in simp)
    from prune_loop_next [OF True] show ?thesis
    proof (elim disjE conjE)
      assume e: "prune_loop i frames = prune_loop i (discard_at (i + 1) frames)"
      show ?thesis unfolding e by (rule dropped [OF contiguous_to_discard(1) [OF "1.prems" True] True])
    next
      assume e: "prune_loop i frames = prune_loop (if 0 < i then i - 1 else i) (discard_at i frames)"
      show ?thesis unfolding e by (rule dropped [OF contiguous_to_discard(2) [OF "1.prems" True]]) (use True in simp)
    next
      assume f: "follows (frames ! i) (frames ! (i + 1))" and e: "prune_loop i frames = prune_loop (i + 1) frames"
      show ?thesis unfolding e by (rule ahead [OF f])
    qed
  qed
qed

lemma prune_loop_fixed: "contiguous frames \<Longrightarrow> prune_loop i frames = frames"
proof (induction "length frames - i" arbitrary: i rule: less_induct)
  case less
  show ?case
  proof (cases "i + 1 < length frames")
    case True
    then have "follows (frames ! i) (frames ! (i + 1))" using less.prems by (simp add: contiguous_def)
    then have "prune_loop i frames = prune_loop (i + 1) frames"
      using True by (subst prune_loop.simps) (auto simp: Let_def follows_def split: if_splits)
    then show ?thesis using less.hyps [of "i + 1"] less.prems True by simp
  qed (subst prune_loop.simps, simp)
qed

text \<open>C26: Pruning a frame queue ends and leaves a subsequence of it in which every frame continues its
  predecessor's channel by one, or begins a new channel after the last frame of the previous one; a queue
  that is already contiguous is not touched, so pruning twice is pruning once.\<close>

theorem pruneFrameQueue_contiguous:
  "contiguous (pruneFrameQueue frames) \<and> subseq (pruneFrameQueue frames) frames \<and>
   pruneFrameQueue (pruneFrameQueue frames) = pruneFrameQueue frames"
  unfolding pruneFrameQueue_def
  using prune_loop_result [of 0 frames] prune_loop_fixed by (simp add: contiguous_to_def)

lemma prune_subseq: "subseq (pruneFrameQueue frames) frames"
  using prune_loop_result [of 0 frames] by (simp add: contiguous_to_def pruneFrameQueue_def)

lemma subseq_set: "subseq xs ys \<Longrightarrow> x \<in> set xs \<Longrightarrow> x \<in> set ys"
  by (induction rule: list_emb.induct) auto

lemma ParseFrames_Marshal:
  "fs \<noteq> [] \<Longrightarrow> \<forall>f\<in>set fs. frame_ok f \<Longrightarrow> ParseFrames (DerivationVersion0 # concat (map MarshalBinary fs)) = Inr fs"
  using parse_loop_iff [of "[]" "concat (map MarshalBinary fs)" fs] by (simp add: ParseFrames_def res_simps)

lemma ParseFrames_ok: "ParseFrames dat = Inr fs \<Longrightarrow> \<forall>f\<in>set fs. frame_ok f"
  by (cases dat) (auto simp: ParseFrames_def res_simps parse_loop_iff split: if_splits)

end
