(* ===== verification/Rollup_Config.thy ===== *)
theory Rollup_Config
  imports Arch
begin

text \<open>
  The rollup configuration \<open>op-node/rollup/types.go\<close>: fork activation times and their checks, the map between
  block numbers and timestamps, and the chain specification of \<open>chain_spec.go\<close> with its fork tracker.
  Chain ids are \<open>*big.Int\<close>: optional integers.
\<close>

section \<open>Block references and configuration\<close>

type_synonym H256 = "256 word"
type_synonym Addr = "160 word"

record BlockID =
  BidHash :: H256
  BidNumber :: Word

record L1BlockRef =
  L1Hash :: H256
  L1Number :: Word
  L1ParentHash :: H256
  L1Time :: Word

record L2BlockRef =
  L2Hash :: H256
  L2Number :: Word
  L2ParentHash :: H256
  L2Time :: Word
  L1Origin :: BlockID
  SequenceNumber :: Word

record SystemConfig =
  BatcherAddr :: Addr
  Overhead :: H256
  Scalar :: H256
  GasLimit :: Word
  EIP1559Params :: Word
  OperatorFeeParams :: H256

record Genesis =
  GenL1 :: BlockID
  GenL2 :: BlockID
  GenL2Time :: Word
  GenSystemConfig :: SystemConfig

record AltDAConfig =
  DAChallengeAddress :: Addr
  CommitmentType :: string
  DAChallengeWindow :: Word
  DAResolveWindow :: Word

record Config =
  CfgGenesis :: Genesis
  BlockTime :: Word
  CfgMaxSequencerDrift :: Word
  SeqWindowSize :: Word
  ChannelTimeoutBedrock :: Word
  L1ChainID :: "int option"
  L2ChainID :: "int option"
  RegolithTime :: "Word option"
  CanyonTime :: "Word option"
  DeltaTime :: "Word option"
  EcotoneTime :: "Word option"
  FjordTime :: "Word option"
  GraniteTime :: "Word option"
  HoloceneTime :: "Word option"
  IsthmusTime :: "Word option"
  InteropTime :: "Word option"
  BatchInboxAddress :: Addr
  DepositContractAddress :: Addr
  L1SystemConfigAddress :: Addr
  ProtocolVersionsAddress :: Addr
  CfgAltDA :: "AltDAConfig option"

datatype ForkName =
  Bedrock | Regolith | Canyon | Delta | Ecotone | Fjord | Granite | Holocene | Isthmus | Interop | NoFork

definition AllForks :: "ForkName list" where
  "AllForks = [Bedrock, Regolith, Canyon, Delta, Ecotone, Fjord, Granite, Holocene, Isthmus, Interop]"

text \<open>Forks in the order of \<open>AllForks\<close>.\<close>

fun fork_rank :: "ForkName \<Rightarrow> nat" where
  "fork_rank Bedrock = 0" | "fork_rank Regolith = 1" | "fork_rank Canyon = 2" | "fork_rank Delta = 3"
| "fork_rank Ecotone = 4" | "fork_rank Fjord = 5" | "fork_rank Granite = 6" | "fork_rank Holocene = 7"
| "fork_rank Isthmus = 8" | "fork_rank Interop = 9" | "fork_rank NoFork = 10"

lemma fork_rank_inject [simp]: "fork_rank f = fork_rank g \<longleftrightarrow> f = g"
  by (cases f; cases g) simp_all

instantiation ForkName :: linorder
begin

definition less_eq_ForkName :: "ForkName \<Rightarrow> ForkName \<Rightarrow> bool" where
  "less_eq_ForkName f g \<longleftrightarrow> fork_rank f \<le> fork_rank g"

definition less_ForkName :: "ForkName \<Rightarrow> ForkName \<Rightarrow> bool" where
  "less_ForkName f g \<longleftrightarrow> fork_rank f < fork_rank g"

instance
  by standard (auto simp: less_eq_ForkName_def less_ForkName_def antisym_conv2)

end

section \<open>Fork activation\<close>

definition fork_active :: "Word option \<Rightarrow> Word \<Rightarrow> bool" where
  "fork_active time timestamp = (case time of None \<Rightarrow> False | Some t \<Rightarrow> t \<le> timestamp)"

definition IsRegolith :: "Config \<Rightarrow> Word \<Rightarrow> bool" where "IsRegolith c t = fork_active (RegolithTime c) t"
definition IsCanyon :: "Config \<Rightarrow> Word \<Rightarrow> bool" where "IsCanyon c t = fork_active (CanyonTime c) t"
definition IsDelta :: "Config \<Rightarrow> Word \<Rightarrow> bool" where "IsDelta c t = fork_active (DeltaTime c) t"
definition IsEcotone :: "Config \<Rightarrow> Word \<Rightarrow> bool" where "IsEcotone c t = fork_active (EcotoneTime c) t"
definition IsFjord :: "Config \<Rightarrow> Word \<Rightarrow> bool" where "IsFjord c t = fork_active (FjordTime c) t"
definition IsGranite :: "Config \<Rightarrow> Word \<Rightarrow> bool" where "IsGranite c t = fork_active (GraniteTime c) t"
definition IsHolocene :: "Config \<Rightarrow> Word \<Rightarrow> bool" where "IsHolocene c t = fork_active (HoloceneTime c) t"
definition IsIsthmus :: "Config \<Rightarrow> Word \<Rightarrow> bool" where "IsIsthmus c t = fork_active (IsthmusTime c) t"
definition IsInterop :: "Config \<Rightarrow> Word \<Rightarrow> bool" where "IsInterop c t = fork_active (InteropTime c) t"

definition activation_block :: "(Word \<Rightarrow> bool) \<Rightarrow> Config \<Rightarrow> Word \<Rightarrow> bool" where
  "activation_block active c l2BlockTime \<longleftrightarrow>
     active l2BlockTime \<and> BlockTime c \<le> l2BlockTime \<and> \<not> active (l2BlockTime - BlockTime c)"

definition IsRegolithActivationBlock :: "Config \<Rightarrow> Word \<Rightarrow> bool" where
  "IsRegolithActivationBlock c t = activation_block (IsRegolith c) c t"
definition IsCanyonActivationBlock :: "Config \<Rightarrow> Word \<Rightarrow> bool" where
  "IsCanyonActivationBlock c t = activation_block (IsCanyon c) c t"
definition IsDeltaActivationBlock :: "Config \<Rightarrow> Word \<Rightarrow> bool" where
  "IsDeltaActivationBlock c t = activation_block (IsDelta c) c t"
definition IsEcotoneActivationBlock :: "Config \<Rightarrow> Word \<Rightarrow> bool" where
  "IsEcotoneActivationBlock c t = activation_block (IsEcotone c) c t"
definition IsFjordActivationBlock :: "Config \<Rightarrow> Word \<Rightarrow> bool" where
  "IsFjordActivationBlock c t = activation_block (IsFjord c) c t"
definition IsGraniteActivationBlock :: "Config \<Rightarrow> Word \<Rightarrow> bool" where
  "IsGraniteActivationBlock c t = activation_block (IsGranite c) c t"
definition IsHoloceneActivationBlock :: "Config \<Rightarrow> Word \<Rightarrow> bool" where
  "IsHoloceneActivationBlock c t = activation_block (IsHolocene c) c t"
definition IsIsthmusActivationBlock :: "Config \<Rightarrow> Word \<Rightarrow> bool" where
  "IsIsthmusActivationBlock c t = activation_block (IsIsthmus c) c t"
definition IsInteropActivationBlock :: "Config \<Rightarrow> Word \<Rightarrow> bool" where
  "IsInteropActivationBlock c t = activation_block (IsInterop c) c t"

definition IsActivationBlock :: "Config \<Rightarrow> Word \<Rightarrow> Word \<Rightarrow> ForkName option" where
  "IsActivationBlock c oldTime newTime =
     (if IsHolocene c newTime \<and> \<not> IsHolocene c oldTime then Some Holocene else None)"

text \<open>The \<open>fallthrough\<close> chain: activating a fork sets its time and that of every earlier fork to zero.\<close>

function ActivateAtGenesis :: "ForkName \<Rightarrow> Config \<Rightarrow> Config" where
  "ActivateAtGenesis Interop c = ActivateAtGenesis Isthmus (c\<lparr>InteropTime := Some 0\<rparr>)"
| "ActivateAtGenesis Isthmus c = ActivateAtGenesis Holocene (c\<lparr>IsthmusTime := Some 0\<rparr>)"
| "ActivateAtGenesis Holocene c = ActivateAtGenesis Granite (c\<lparr>HoloceneTime := Some 0\<rparr>)"
| "ActivateAtGenesis Granite c = ActivateAtGenesis Fjord (c\<lparr>GraniteTime := Some 0\<rparr>)"
| "ActivateAtGenesis Fjord c = ActivateAtGenesis Ecotone (c\<lparr>FjordTime := Some 0\<rparr>)"
| "ActivateAtGenesis Ecotone c = ActivateAtGenesis Delta (c\<lparr>EcotoneTime := Some 0\<rparr>)"
| "ActivateAtGenesis Delta c = ActivateAtGenesis Canyon (c\<lparr>DeltaTime := Some 0\<rparr>)"
| "ActivateAtGenesis Canyon c = ActivateAtGenesis Regolith (c\<lparr>CanyonTime := Some 0\<rparr>)"
| "ActivateAtGenesis Regolith c = c\<lparr>RegolithTime := Some 0\<rparr>"
| "ActivateAtGenesis Bedrock c = c"
| "ActivateAtGenesis NoFork c = c"
  by pat_completeness auto
termination
  by (relation "measure (fork_rank \<circ> fst)") simp_all

datatype EngineAPIMethod = FCUV1 | FCUV2 | FCUV3 | NewPayloadV2 | NewPayloadV3 | NewPayloadV4 | GetPayloadV2 | GetPayloadV3 | GetPayloadV4

text \<open>The argument is the timestamp of the payload attributes, when there are any.\<close>

definition ForkchoiceUpdatedVersion :: "Config \<Rightarrow> Word option \<Rightarrow> EngineAPIMethod" where
  "ForkchoiceUpdatedVersion c attr =
     (case attr of None \<Rightarrow> FCUV3 | Some ts \<Rightarrow> if IsEcotone c ts then FCUV3 else if IsCanyon c ts then FCUV2 else FCUV1)"

definition NewPayloadVersion :: "Config \<Rightarrow> Word \<Rightarrow> EngineAPIMethod" where
  "NewPayloadVersion c t = (if IsIsthmus c t then NewPayloadV4 else if IsEcotone c t then NewPayloadV3 else NewPayloadV2)"

definition GetPayloadVersion :: "Config \<Rightarrow> Word \<Rightarrow> EngineAPIMethod" where
  "GetPayloadVersion c t = (if IsIsthmus c t then GetPayloadV4 else if IsEcotone c t then GetPayloadV3 else GetPayloadV2)"

section \<open>Checks\<close>

datatype config_error =
    ErrBlockTimeZero | ErrMissingChannelTimeout | ErrInvalidSeqWindowSize | ErrInvalidMaxSeqDrift
  | ErrMissingGenesisL1Hash | ErrMissingGenesisL2Hash | ErrGenesisHashesSame | ErrMissingGenesisL2Time
  | ErrMissingBatcherAddr | ErrMissingScalar | ErrMissingGasLimit | ErrMissingBatchInboxAddress
  | ErrMissingDepositContractAddress | ErrMissingL1ChainID | ErrMissingL2ChainID | ErrChainIDsSame
  | ErrL1ChainIDNotPositive | ErrL2ChainIDNotPositive
  | InvalidCommitmentType | MustSetDAChallengeAddress | MustNotSetDAChallengeAddress
  | PriorForkMissing ForkName ForkName | PriorForkHigherOffset ForkName ForkName

definition validateAltDAConfig :: "Config \<Rightarrow> config_error + unit" where
  "validateAltDAConfig cfg =
     (case CfgAltDA cfg of
        None \<Rightarrow> Inr ()
      | Some a \<Rightarrow>
          if \<not> (CommitmentType a = ''KeccakCommitment'' \<or> CommitmentType a = ''GenericCommitment'') then Inl InvalidCommitmentType
          else if CommitmentType a = ''KeccakCommitment'' \<and> DAChallengeAddress a = 0 then Inl MustSetDAChallengeAddress
          else if CommitmentType a = ''GenericCommitment'' \<and> DAChallengeAddress a \<noteq> 0 then Inl MustNotSetDAChallengeAddress
          else Inr ())"

definition checkFork :: "Word option \<Rightarrow> Word option \<Rightarrow> ForkName \<Rightarrow> ForkName \<Rightarrow> config_error + unit" where
  "checkFork a b aName bName =
     (case (a, b) of
        (None, None) \<Rightarrow> Inr ()
      | (None, Some _) \<Rightarrow> Inl (PriorForkMissing aName bName)
      | (Some _, None) \<Rightarrow> Inr ()
      | (Some ta, Some tb) \<Rightarrow> if tb < ta then Inl (PriorForkHigherOffset aName bName) else Inr ())"

definition Config_Check :: "Config \<Rightarrow> config_error + unit" where
  "Config_Check cfg =
     (if BlockTime cfg = 0 then Inl ErrBlockTimeZero
      else if ChannelTimeoutBedrock cfg = 0 then Inl ErrMissingChannelTimeout
      else if SeqWindowSize cfg < 2 then Inl ErrInvalidSeqWindowSize
      else if CfgMaxSequencerDrift cfg = 0 then Inl ErrInvalidMaxSeqDrift
      else if BidHash (GenL1 (CfgGenesis cfg)) = 0 then Inl ErrMissingGenesisL1Hash
      else if BidHash (GenL2 (CfgGenesis cfg)) = 0 then Inl ErrMissingGenesisL2Hash
      else if BidHash (GenL2 (CfgGenesis cfg)) = BidHash (GenL1 (CfgGenesis cfg)) then Inl ErrGenesisHashesSame
      else if GenL2Time (CfgGenesis cfg) = 0 then Inl ErrMissingGenesisL2Time
      else if BatcherAddr (GenSystemConfig (CfgGenesis cfg)) = 0 then Inl ErrMissingBatcherAddr
      else if Scalar (GenSystemConfig (CfgGenesis cfg)) = 0 then Inl ErrMissingScalar
      else if GasLimit (GenSystemConfig (CfgGenesis cfg)) = 0 then Inl ErrMissingGasLimit
      else if BatchInboxAddress cfg = 0 then Inl ErrMissingBatchInboxAddress
      else if DepositContractAddress cfg = 0 then Inl ErrMissingDepositContractAddress
      else (case (L1ChainID cfg, L2ChainID cfg) of
          (None, _) \<Rightarrow> Inl ErrMissingL1ChainID
        | (Some _, None) \<Rightarrow> Inl ErrMissingL2ChainID
        | (Some l1, Some l2) \<Rightarrow>
            if l1 = l2 then Inl ErrChainIDsSame
            else if l1 < 1 then Inl ErrL1ChainIDNotPositive
            else if l2 < 1 then Inl ErrL2ChainIDNotPositive
            else bind_res (validateAltDAConfig cfg) (\<lambda>_.
                 bind_res (checkFork (RegolithTime cfg) (CanyonTime cfg) Regolith Canyon) (\<lambda>_.
                 bind_res (checkFork (CanyonTime cfg) (DeltaTime cfg) Canyon Delta) (\<lambda>_.
                 bind_res (checkFork (DeltaTime cfg) (EcotoneTime cfg) Delta Ecotone) (\<lambda>_.
                 bind_res (checkFork (EcotoneTime cfg) (FjordTime cfg) Ecotone Fjord) (\<lambda>_.
                 bind_res (checkFork (FjordTime cfg) (GraniteTime cfg) Fjord Granite) (\<lambda>_.
                 bind_res (checkFork (GraniteTime cfg) (HoloceneTime cfg) Granite Holocene) (\<lambda>_.
                 checkFork (HoloceneTime cfg) (IsthmusTime cfg) Holocene Isthmus)))))))))"

section \<open>Block numbers and timestamps\<close>

definition TimestampForBlock :: "Config \<Rightarrow> Word \<Rightarrow> Word" where
  "TimestampForBlock cfg blockNumber =
     GenL2Time (CfgGenesis cfg) + (blockNumber - BidNumber (GenL2 (CfgGenesis cfg))) * BlockTime cfg"

text \<open>\<open>None\<close> is the error of a timestamp before genesis; a zero block time panics.\<close>

definition TargetBlockNumber :: "Config \<Rightarrow> Word \<Rightarrow> Word option res" where
  "TargetBlockNumber cfg timestamp =
     (let genesisTimestamp = GenL2Time (CfgGenesis cfg)
      in if timestamp < genesisTimestamp then Inr None
         else let wallClockGenesisDiff = timestamp - genesisTimestamp
              in if BlockTime cfg = 0 then Inl DivisionByZero
                 else Inr (Some (BidNumber (GenL2 (CfgGenesis cfg)) + wallClockGenesisDiff div BlockTime cfg)))"

definition SyncLookback :: "Config \<Rightarrow> Word" where
  "SyncLookback c =
     (case CfgAltDA c of
        None \<Rightarrow> SeqWindowSize c
      | Some a \<Rightarrow> let win = DAChallengeWindow a + DAResolveWindow a
                  in if SeqWindowSize c < win then win else SeqWindowSize c)"

section \<open>The chain specification\<close>

definition MaxChannelBankSize :: "Config \<Rightarrow> Word \<Rightarrow> Word" where
  "MaxChannelBankSize c t = (if IsFjord c t then 1000000000 else 100000000)"

definition ChannelTimeoutGranite :: Word where "ChannelTimeoutGranite = 50"

definition ChannelTimeout :: "Config \<Rightarrow> Word \<Rightarrow> Word" where
  "ChannelTimeout c t = (if IsGranite c t then ChannelTimeoutGranite else ChannelTimeoutBedrock c)"

definition MaxRLPBytesPerChannel :: "Config \<Rightarrow> Word \<Rightarrow> Word" where
  "MaxRLPBytesPerChannel c t = (if IsFjord c t then 100000000 else 10000000)"

definition IsFeatMaxSequencerDriftConstant :: "Config \<Rightarrow> Word \<Rightarrow> bool" where
  "IsFeatMaxSequencerDriftConstant c t = IsFjord c t"

definition MaxSequencerDrift :: "Config \<Rightarrow> Word \<Rightarrow> Word" where
  "MaxSequencerDrift c t = (if IsFeatMaxSequencerDriftConstant c t then 1800 else CfgMaxSequencerDrift c)"

text \<open>\<open>nextFork\<close>, a map with a missing entry for \<open>NoFork\<close>, whose lookup gives the empty name.\<close>

fun nextFork :: "ForkName \<Rightarrow> ForkName option" where
  "nextFork Bedrock = Some Regolith"
| "nextFork Regolith = Some Canyon"
| "nextFork Canyon = Some Delta"
| "nextFork Delta = Some Ecotone"
| "nextFork Ecotone = Some Fjord"
| "nextFork Fjord = Some Granite"
| "nextFork Granite = Some Holocene"
| "nextFork Holocene = Some Isthmus"
| "nextFork Isthmus = Some Interop"
| "nextFork Interop = Some NoFork"
| "nextFork NoFork = None"

text \<open>\<open>currentFork\<close> is \<open>None\<close> for the empty name.\<close>

definition CheckForkActivation :: "Config \<Rightarrow> Word \<Rightarrow> ForkName option \<Rightarrow> ForkName option" where
  "CheckForkActivation c blockTime currentFork =
     (case currentFork of
        None \<Rightarrow>
          let f = Bedrock;
              f = (if IsRegolith c blockTime then Regolith else f);
              f = (if IsCanyon c blockTime then Canyon else f);
              f = (if IsDelta c blockTime then Delta else f);
              f = (if IsEcotone c blockTime then Ecotone else f);
              f = (if IsFjord c blockTime then Fjord else f);
              f = (if IsGranite c blockTime then Granite else f);
              f = (if IsHolocene c blockTime then Holocene else f);
              f = (if IsIsthmus c blockTime then Isthmus else f);
              f = (if IsInterop c blockTime then Interop else f)
          in Some f
      | Some f \<Rightarrow>
          if f = Interop then Some f
          else
            let foundActivationBlock =
              (case nextFork f of
                 Some Regolith \<Rightarrow> IsRegolithActivationBlock c blockTime
               | Some Canyon \<Rightarrow> IsCanyonActivationBlock c blockTime
               | Some Delta \<Rightarrow> IsDeltaActivationBlock c blockTime
               | Some Ecotone \<Rightarrow> IsEcotoneActivationBlock c blockTime
               | Some Fjord \<Rightarrow> IsFjordActivationBlock c blockTime
               | Some Granite \<Rightarrow> IsGraniteActivationBlock c blockTime
               | Some Holocene \<Rightarrow> IsHoloceneActivationBlock c blockTime
               | Some Isthmus \<Rightarrow> IsIsthmusActivationBlock c blockTime
               | Some Interop \<Rightarrow> IsInteropActivationBlock c blockTime
               | _ \<Rightarrow> False)
            in if foundActivationBlock then nextFork f else Some f)"

section \<open>Properties\<close>

definition IsFork :: "Config \<Rightarrow> ForkName \<Rightarrow> Word \<Rightarrow> bool" where
  "IsFork c f t =
     (case f of
        Bedrock \<Rightarrow> True | Regolith \<Rightarrow> IsRegolith c t | Canyon \<Rightarrow> IsCanyon c t | Delta \<Rightarrow> IsDelta c t
      | Ecotone \<Rightarrow> IsEcotone c t | Fjord \<Rightarrow> IsFjord c t | Granite \<Rightarrow> IsGranite c t | Holocene \<Rightarrow> IsHolocene c t
      | Isthmus \<Rightarrow> IsIsthmus c t | Interop \<Rightarrow> IsInterop c t | NoFork \<Rightarrow> False)"

lemmas fork_defs = IsRegolith_def IsCanyon_def IsDelta_def IsEcotone_def IsFjord_def IsGranite_def
  IsHolocene_def IsIsthmus_def IsInterop_def

lemma checkFork_active: "checkFork a b an bn = Inr () \<Longrightarrow> fork_active b t \<Longrightarrow> fork_active a t"
  by (auto simp: checkFork_def fork_active_def split: option.splits if_splits)

lemma Config_Check_forks:
  assumes "Config_Check cfg = Inr ()"
  shows "IsIsthmus cfg t \<Longrightarrow> IsHolocene cfg t" "IsHolocene cfg t \<Longrightarrow> IsGranite cfg t" "IsGranite cfg t \<Longrightarrow> IsFjord cfg t"
    "IsFjord cfg t \<Longrightarrow> IsEcotone cfg t" "IsEcotone cfg t \<Longrightarrow> IsDelta cfg t" "IsDelta cfg t \<Longrightarrow> IsCanyon cfg t"
    "IsCanyon cfg t \<Longrightarrow> IsRegolith cfg t"
  using assms unfolding fork_defs
  by (auto simp: Config_Check_def res_simps split: if_splits option.splits dest: checkFork_active)

text \<open>C30: A configuration that passes Check has its forks up to Isthmus in order: when a fork is active at a
  time, so is every earlier one.  Interop is not checked: any activation time of it passes.\<close>

theorem Config_Check_orders_forks:
  assumes "Config_Check cfg = Inr ()"
  shows "(\<forall>f g. f < g \<and> g \<le> Isthmus \<and> IsFork cfg g t \<longrightarrow> IsFork cfg f t) \<and> Config_Check (cfg\<lparr>InteropTime := x\<rparr>) = Inr ()"
proof
  have "IsFork cfg f t" if "f < g" "g \<le> Isthmus" "IsFork cfg g t" for f g
    using that Config_Check_forks [OF assms, of t]
    by (cases g; cases f) (auto simp: IsFork_def less_ForkName_def less_eq_ForkName_def)
  then show "\<forall>f g. f < g \<and> g \<le> Isthmus \<and> IsFork cfg g t \<longrightarrow> IsFork cfg f t" by blast
  show "Config_Check (cfg\<lparr>InteropTime := x\<rparr>) = Inr ()"
    using assms by (simp add: Config_Check_def validateAltDAConfig_def cong: option.case_cong if_cong)
qed

definition sample_config :: Config where
  "sample_config = \<lparr>
     CfgGenesis = \<lparr>GenL1 = \<lparr>BidHash = 1, BidNumber = 100\<rparr>, GenL2 = \<lparr>BidHash = 2, BidNumber = 0\<rparr>, GenL2Time = 1000,
       GenSystemConfig = \<lparr>BatcherAddr = 3, Overhead = 0, Scalar = 4, GasLimit = 30000000, EIP1559Params = 0,
         OperatorFeeParams = 0\<rparr>\<rparr>,
     BlockTime = 2, CfgMaxSequencerDrift = 600, SeqWindowSize = 3600, ChannelTimeoutBedrock = 300,
     L1ChainID = Some 1, L2ChainID = Some 10, RegolithTime = Some 0, CanyonTime = Some 2000, DeltaTime = Some 2000,
     EcotoneTime = Some 3000, FjordTime = None, GraniteTime = None, HoloceneTime = None, IsthmusTime = None,
     InteropTime = None, BatchInboxAddress = 5, DepositContractAddress = 6, L1SystemConfigAddress = 7,
     ProtocolVersionsAddress = 0, CfgAltDA = None\<rparr>"

lemma sample_config_ok: "Config_Check sample_config = Inr ()"
  by (simp add: Config_Check_def sample_config_def checkFork_def validateAltDAConfig_def)

theorem Config_Check_orders_forks_witness:
  "IsFork sample_config Canyon 3000 \<and> Config_Check (sample_config\<lparr>InteropTime := Some 0\<rparr>) = Inr () \<and>
   IsInterop (sample_config\<lparr>InteropTime := Some 0\<rparr>) 0 \<and> \<not> IsHolocene (sample_config\<lparr>InteropTime := Some 0\<rparr>) 0"
proof -
  have "Canyon < Ecotone" "Ecotone \<le> Isthmus" "IsFork sample_config Ecotone 3000"
    by (simp_all add: less_ForkName_def less_eq_ForkName_def IsFork_def IsEcotone_def fork_active_def sample_config_def)
  then have "IsFork sample_config Canyon 3000"
    using Config_Check_orders_forks [OF sample_config_ok, of 3000 None] by blast
  moreover have "Config_Check (sample_config\<lparr>InteropTime := Some 0\<rparr>) = Inr ()"
    using Config_Check_orders_forks [OF sample_config_ok, of 0 "Some 0"] by blast
  ultimately show ?thesis by (simp add: IsInterop_def IsHolocene_def fork_active_def sample_config_def)
qed

lemma len64: "LENGTH(64) = 64" by simp

text \<open>Block numbers and timestamps agree: the timestamp of a block from genesis on is mapped back to its
  number, and any timestamp from genesis on is mapped to the block whose slot contains it (as long as the
  numbers stay below 2^64).\<close>

theorem TargetBlockNumber_slot:
  assumes "BlockTime cfg \<noteq> 0" "GenL2Time (CfgGenesis cfg) \<le> t"
    and "unat (BidNumber (GenL2 (CfgGenesis cfg))) + (unat t - unat (GenL2Time (CfgGenesis cfg))) div unat (BlockTime cfg) < 2 ^ 64"
  shows "\<exists>n. TargetBlockNumber cfg t = Inr (Some n) \<and> unat (TimestampForBlock cfg n) \<le> unat t \<and>
    unat t < unat (TimestampForBlock cfg n) + unat (BlockTime cfg) \<and>
    TargetBlockNumber cfg (TimestampForBlock cfg n) = Inr (Some n)"
proof -
  define g where "g = GenL2Time (CfgGenesis cfg)"
  define b where "b = BlockTime cfg"
  define n0 where "n0 = BidNumber (GenL2 (CfgGenesis cfg))"
  define n where "n = n0 + (t - g) div b"
  have gt: "unat g \<le> unat t" using assms(2) by (simp add: g_def word_le_nat_alt)
  have b0: "0 < unat b" using assms(1) by (simp add: b_def unat_gt_0)
  have ut: "unat t < 2 ^ 64" using unat_u64_less [of t] by simp
  have d: "unat ((t - g) div b) = (unat t - unat g) div unat b"
    using gt by (simp add: unat_div_distrib unat_sub word_le_nat_alt)
  have diff: "n - n0 = (t - g) div b" by (simp add: n_def)
  have q: "(unat t - unat g) div unat b * unat b \<le> unat t - unat g" by (rule div_times_less_eq_dividend)
  have small: "(unat t - unat g) div unat b * unat b < 2 ^ 64" using q ut by linarith
  have mult: "unat ((t - g) div b * b) = (unat t - unat g) div unat b * unat b"
    unfolding unat_word_ariths(2) d using small by (simp only: mod_less len64)
  have ts: "unat (TimestampForBlock cfg n) = unat g + (unat t - unat g) div unat b * unat b"
  proof -
    have "unat g + (unat t - unat g) div unat b * unat b < 2 ^ 64" using q ut gt by linarith
    then have "unat (g + (t - g) div b * b) = unat g + (unat t - unat g) div unat b * unat b"
      unfolding unat_word_ariths(1) mult by (simp only: mod_less len64)
    then show ?thesis unfolding TimestampForBlock_def g_def [symmetric] b_def [symmetric] n0_def [symmetric] diff .
  qed
  have target: "TargetBlockNumber cfg x = Inr (Some (n0 + (x - g) div b))" if "g \<le> x" for x
    using that assms(1) by (simp add: TargetBlockNumber_def Let_def leD flip: g_def b_def n0_def)
  have slot: "(unat t - unat g) div unat b * unat b + (unat t - unat g) mod unat b = unat t - unat g" by simp
  have "(unat t - unat g) mod unat b < unat b" using b0 by simp
  then have upper: "unat t < unat (TimestampForBlock cfg n) + unat b" and lower: "unat (TimestampForBlock cfg n) \<le> unat t"
    using ts slot gt by linarith+
  have "g \<le> TimestampForBlock cfg n" using ts by (simp add: word_le_nat_alt)
  moreover have "TimestampForBlock cfg n - g = (t - g) div b * b"
    by (simp add: TimestampForBlock_def diff flip: g_def b_def n0_def)
  moreover have "(t - g) div b * b div b = (t - g) div b"
  proof -
    have "unat ((t - g) div b * b) = unat ((t - g) div b) * unat b" by (simp only: mult d)
    then have "unat ((t - g) div b * b div b) = unat ((t - g) div b)" using b0 by (simp add: unat_div_distrib)
    then show ?thesis by (simp add: word_unat_eq_iff)
  qed
  ultimately have "TargetBlockNumber cfg (TimestampForBlock cfg n) = Inr (Some n)" using target by (simp add: n_def)
  moreover have "TargetBlockNumber cfg t = Inr (Some n)" using target [of t] gt by (simp add: n_def word_le_nat_alt)
  ultimately show ?thesis using upper lower by (auto simp: b_def)
qed

theorem TargetBlockNumber_slot_witness:
  "\<exists>n. TargetBlockNumber sample_config 1013 = Inr (Some n) \<and> unat (TimestampForBlock sample_config n) \<le> 1013"
  using TargetBlockNumber_slot [of sample_config 1013] by (fastforce simp: sample_config_def)

section \<open>The fork tracker\<close>

definition latest_fork :: "Config \<Rightarrow> Word \<Rightarrow> ForkName" where
  "latest_fork c t = last (filter (\<lambda>f. IsFork c f t) AllForks)"

text \<open>The tracker after the block at \<open>t0\<close> and the next \<open>n\<close> blocks.\<close>

definition tracked_fork :: "Config \<Rightarrow> Word \<Rightarrow> nat \<Rightarrow> ForkName option" where
  "tracked_fork c t0 n = fold (CheckForkActivation c) (map (\<lambda>i. t0 + of_nat i * BlockTime c) [0..<Suc n]) None"

definition forks_ordered :: "Config \<Rightarrow> bool" where
  "forks_ordered c \<longleftrightarrow> (\<forall>f g t. f < g \<longrightarrow> IsFork c g t \<longrightarrow> IsFork c f t)"

definition one_at_a_time :: "Config \<Rightarrow> Word \<Rightarrow> bool" where
  "one_at_a_time c t \<longleftrightarrow> (\<forall>f g. nextFork f = Some g \<longrightarrow> \<not> IsFork c f t \<longrightarrow> \<not> IsFork c g (t + BlockTime c))"

lemma sorted_AllForks: "sorted_wrt (<) AllForks"
  by (simp add: AllForks_def less_ForkName_def)

lemma set_AllForks: "f \<in> set AllForks \<longleftrightarrow> f \<noteq> NoFork"
  by (cases f) (simp_all add: AllForks_def)

lemma sorted_last: "sorted_wrt (<) xs \<Longrightarrow> x \<in> set xs \<Longrightarrow> x \<le> last (xs :: 'a :: linorder list)"
  by (induction xs) (auto simp: less_imp_le)

lemma IsFork_ends [simp]: "IsFork c Bedrock t" "\<not> IsFork c NoFork t"
  by (simp_all add: IsFork_def)

lemma latest_fork_iff: "latest_fork c t = f \<longleftrightarrow> IsFork c f t \<and> (\<forall>g. f < g \<longrightarrow> \<not> IsFork c g t)"
proof -
  let ?fs = "filter (\<lambda>f. IsFork c f t) AllForks"
  have "Bedrock \<in> set ?fs" by (simp add: set_AllForks)
  then have "?fs \<noteq> []" by (metis empty_iff list.set(1))
  then have "latest_fork c t \<in> set ?fs" unfolding latest_fork_def by (rule last_in_set)
  then have act: "IsFork c (latest_fork c t) t" by simp
  have top: "g \<le> latest_fork c t" if "IsFork c g t" for g
  proof -
    have "g \<in> set ?fs" using that by (cases "g = NoFork") (auto simp: set_AllForks)
    then show ?thesis unfolding latest_fork_def by (rule sorted_last [OF sorted_wrt_filter [OF sorted_AllForks]])
  qed
  show ?thesis using act top by (metis antisym leD linorder_less_linear)
qed

lemma CheckForkActivation_first: "CheckForkActivation c t None = Some (latest_fork c t)"
  by (simp add: CheckForkActivation_def latest_fork_def AllForks_def IsFork_def)

lemma CheckForkActivation_later:
  assumes "nextFork f = Some g"
  shows "CheckForkActivation c t (Some f) = Some (if activation_block (IsFork c g) c t then g else f)"
proof -
  have "IsFork c Regolith = IsRegolith c" "IsFork c Canyon = IsCanyon c" "IsFork c Delta = IsDelta c" "IsFork c Ecotone = IsEcotone c"
    "IsFork c Fjord = IsFjord c" "IsFork c Granite = IsGranite c" "IsFork c Holocene = IsHolocene c" "IsFork c Isthmus = IsIsthmus c"
    "IsFork c Interop = IsInterop c" by (simp_all add: IsFork_def fun_eq_iff)
  moreover have "\<not> activation_block (IsFork c NoFork) c t" by (simp add: activation_block_def)
  ultimately show ?thesis
    using assms by (cases f) (auto simp: CheckForkActivation_def IsRegolithActivationBlock_def IsCanyonActivationBlock_def
      IsDeltaActivationBlock_def IsEcotoneActivationBlock_def IsFjordActivationBlock_def IsGraniteActivationBlock_def
      IsHoloceneActivationBlock_def IsIsthmusActivationBlock_def IsInteropActivationBlock_def)
qed

lemma nextFork_covers: "nextFork f = Some g \<Longrightarrow> f < h \<Longrightarrow> h = g \<or> g < h \<and> (\<exists>p. nextFork p = Some h \<and> f < p)"
  by (cases f; cases h) (auto simp: less_ForkName_def intro: exI [of _ Regolith] exI [of _ Canyon] exI [of _ Delta]
    exI [of _ Ecotone] exI [of _ Fjord] exI [of _ Granite] exI [of _ Holocene] exI [of _ Isthmus] exI [of _ Interop])

lemma IsFork_mono: "IsFork c f t \<Longrightarrow> t \<le> t' \<Longrightarrow> IsFork c f t'"
  by (cases f) (auto simp: IsFork_def fork_defs fork_active_def split: option.splits)

lemma CheckForkActivation_step:
  assumes "forks_ordered c" "one_at_a_time c t" "t \<le> t + BlockTime c"
  shows "CheckForkActivation c (t + BlockTime c) (Some (latest_fork c t)) = Some (latest_fork c (t + BlockTime c))"
proof -
  define f where "f = latest_fork c t"
  have f: "IsFork c f t" "\<And>g. f < g \<Longrightarrow> \<not> IsFork c g t" using latest_fork_iff [of c t f] by (simp_all add: f_def)
  have keep: "IsFork c f (t + BlockTime c)" by (rule IsFork_mono [OF f(1) assms(3)])
  obtain g where g: "nextFork f = Some g" using f(1) by (cases f) auto
  have fg: "f < g" using g by (cases f) (auto simp: less_ForkName_def)
  have bt: "BlockTime c \<le> t + BlockTime c" using assms(3) by (metis add.commute word_plus_mono_right2 olen_add_eqv)
  have act: "activation_block (IsFork c g) c (t + BlockTime c) \<longleftrightarrow> IsFork c g (t + BlockTime c)"
    using f(2) [OF fg] bt by (simp add: activation_block_def)
  have later: "\<not> IsFork c h (t + BlockTime c)" if "g < h" for h
    using nextFork_covers [OF g, of h] fg that assms(2) f(2) unfolding one_at_a_time_def by (metis less_irrefl less_trans)
  have "latest_fork c (t + BlockTime c) = (if IsFork c g (t + BlockTime c) then g else f)"
    using keep later nextFork_covers [OF g] by (auto simp: latest_fork_iff)
  then show ?thesis using CheckForkActivation_later [OF g] act by (simp flip: f_def)
qed

text \<open>C31: The fork tracker: when forks are ordered and no two of them activate between two consecutive blocks,
  \<open>currentFork\<close> is the latest active fork after every block.  When two do activate in one block, the tracker
  advances by one fork only and never catches up: with the next fork active before a block, that block leaves
  \<open>currentFork\<close> unchanged.\<close>

theorem CheckForkActivation_tracks:
  assumes "forks_ordered c" "unat t0 + n * unat (BlockTime c) < 2 ^ 64"
    "\<forall>i<n. one_at_a_time c (t0 + of_nat i * BlockTime c)"
  shows "tracked_fork c t0 n = Some (latest_fork c (t0 + of_nat n * BlockTime c)) \<and>
    (\<forall>f g t. nextFork f = Some g \<and> IsFork c g t \<longrightarrow> CheckForkActivation c (t + BlockTime c) (Some f) = Some f)"
proof
  show "tracked_fork c t0 n = Some (latest_fork c (t0 + of_nat n * BlockTime c))"
    using assms(2,3)
  proof (induction n)
    case 0
    then show ?case by (simp add: tracked_fork_def CheckForkActivation_first)
  next
    case (Suc n)
    have IH: "tracked_fork c t0 n = Some (latest_fork c (t0 + of_nat n * BlockTime c))"
      by (rule Suc.IH) (use Suc.prems in auto)
    have next_time: "t0 + of_nat (Suc n) * BlockTime c = t0 + of_nat n * BlockTime c + BlockTime c" by (simp add: algebra_simps)
    have lt: "unat t0 + n * unat (BlockTime c) + unat (BlockTime c) < 2 ^ 64" using Suc.prems(1) by (simp add: algebra_simps)
    have "unat (t0 + of_nat n * BlockTime c) = unat t0 + n * unat (BlockTime c)"
    proof -
      have eq: "t0 + of_nat n * BlockTime c = of_nat (unat t0 + n * unat (BlockTime c))" by simp
      show ?thesis unfolding eq unat_of_nat len64 by (rule mod_less) (use lt in linarith)
    qed
    then have no_wrap: "t0 + of_nat n * BlockTime c \<le> t0 + of_nat n * BlockTime c + BlockTime c"
      using lt by (simp add: word_le_nat_alt unat_word_ariths(1))
    have "tracked_fork c t0 (Suc n) = CheckForkActivation c (t0 + of_nat (Suc n) * BlockTime c) (tracked_fork c t0 n)"
      by (simp add: tracked_fork_def)
    then show ?case
      unfolding IH next_time using CheckForkActivation_step [OF assms(1) _ no_wrap] Suc.prems(2) by simp
  qed
  show "\<forall>f g t. nextFork f = Some g \<and> IsFork c g t \<longrightarrow> CheckForkActivation c (t + BlockTime c) (Some f) = Some f"
    by (auto simp: CheckForkActivation_later activation_block_def)
qed

theorem CheckForkActivation_tracks_witness:
  "tracked_fork sample_config 2998 1 = Some Ecotone \<and> CheckForkActivation sample_config 2002 (Some Canyon) = Some Canyon \<and>
   IsDelta sample_config 2002"
proof -
  have act: "IsFork sample_config f t \<longleftrightarrow> f = Bedrock \<or> f = Regolith \<or> (f = Canyon \<or> f = Delta) \<and> 2000 \<le> t \<or> f = Ecotone \<and> 3000 \<le> t" for f t
    by (cases f) (simp_all add: IsFork_def fork_defs fork_active_def sample_config_def)
  have trans: "3000 \<le> t \<Longrightarrow> 2000 \<le> t" for t :: Word by (erule order_trans [rotated]) simp
  have ord: "forks_ordered sample_config"
    unfolding forks_ordered_def
  proof (intro allI impI)
    fix f g t assume "f < g" "IsFork sample_config g t"
    then show "IsFork sample_config f t"
      using trans unfolding act by (cases g; cases f) (simp_all add: less_ForkName_def)
  qed
  have bt: "BlockTime sample_config = 2" by (simp add: sample_config_def)
  have one: "one_at_a_time sample_config 2998"
    unfolding one_at_a_time_def
  proof (intro allI impI)
    fix f g assume "nextFork f = Some g" "\<not> IsFork sample_config f 2998"
    then show "\<not> IsFork sample_config g (2998 + BlockTime sample_config)"
      unfolding act by (cases f) (simp_all add: sample_config_def)
  qed
  have main: "tracked_fork sample_config 2998 1 = Some (latest_fork sample_config (2998 + of_nat 1 * BlockTime sample_config)) \<and>
      (\<forall>f g t. nextFork f = Some g \<and> IsFork sample_config g t \<longrightarrow>
        CheckForkActivation sample_config (t + BlockTime sample_config) (Some f) = Some f)"
    by (rule CheckForkActivation_tracks [OF ord]) (use one in \<open>simp_all add: bt\<close>)
  then have "tracked_fork sample_config 2998 1 = Some (latest_fork sample_config (2998 + of_nat 1 * BlockTime sample_config))"
    by (rule conjunct1)
  moreover have "CheckForkActivation sample_config (2000 + BlockTime sample_config) (Some Canyon) = Some Canyon"
    using conjunct2 [OF main, rule_format, of Canyon Delta 2000] act [of Delta 2000] by simp
  moreover have "latest_fork sample_config (2998 + of_nat 1 * BlockTime sample_config) = Ecotone"
    unfolding latest_fork_iff act by (auto simp: sample_config_def less_ForkName_def)
  moreover have "IsDelta sample_config 2002" by (simp add: sample_config_def IsDelta_def fork_active_def)
  ultimately show ?thesis by (simp add: bt)
qed

end
