(* ===== verification/Derive_Channel.thy ===== *)
theory Derive_Channel
  imports Derive_Frame Rollup_Config "HOL-Library.Multiset"
begin

text \<open>
  Channels (\<open>op-node/rollup/derive/channel.go\<close>): frames of one channel are collected, out of order before
  Holocene and in order after it, until the channel is closed and complete.  The map \<open>inputs\<close> from frame numbers
  to frames is an association list with distinct keys; \<open>range\<close> over it visits each entry once in some order, and
  the loop's effect does not depend on the order.  Keys are \<open>uint64\<close> values of 16-bit numbers: natural numbers.
\<close>

record Channel =
  ChId :: ChannelID
  openBlock :: L1BlockRef
  requireInOrder :: bool
  ChSize :: Word
  closed :: bool
  highestFrameNumber :: "16 word"
  endFrameNumber :: "16 word"
  inputs :: "(nat \<times> Frame) list"
  highestL1InclusionBlock :: L1BlockRef

definition no_block :: L1BlockRef where
  "no_block = \<lparr>L1Hash = 0, L1Number = 0, L1ParentHash = 0, L1Time = 0\<rparr>"

definition NewChannel :: "ChannelID \<Rightarrow> L1BlockRef \<Rightarrow> bool \<Rightarrow> Channel" where
  "NewChannel cid opened inOrder =
     \<lparr>ChId = cid, openBlock = opened, requireInOrder = inOrder, ChSize = 0, closed = False, highestFrameNumber = 0,
      endFrameNumber = 0, inputs = [], highestL1InclusionBlock = no_block\<rparr>"

datatype add_error = FrameIDMismatch | EndingFrameOnClosed | DuplicateErr | NumberBeyondEnd | FrameOutOfOrder

definition sum_sizes :: "(nat \<times> Frame) list \<Rightarrow> Word" where
  "sum_sizes fs = sum_list (map (frameSize \<circ> snd) fs)"

text \<open>The checks of \<open>AddFrame\<close>, in its order.\<close>

definition add_check :: "Frame \<Rightarrow> Channel \<Rightarrow> add_error option" where
  "add_check f ch =
     (if FrID f \<noteq> ChId ch then Some FrameIDMismatch
      else if IsLast f \<and> closed ch then Some EndingFrameOnClosed
      else if map_of (inputs ch) (unat (FrameNumber f)) \<noteq> None then Some DuplicateErr
      else if closed ch \<and> endFrameNumber ch \<le> FrameNumber f then Some NumberBeyondEnd
      else if requireInOrder ch \<and> unat (FrameNumber f) \<noteq> length (inputs ch) then Some FrameOutOfOrder
      else None)"

definition AddFrame :: "Frame \<Rightarrow> L1BlockRef \<Rightarrow> Channel \<Rightarrow> add_error option \<times> Channel" where
  "AddFrame f l1InclusionBlock ch =
     (case add_check f ch of
        Some e \<Rightarrow> (Some e, ch)
      | None \<Rightarrow>
          let ch1 = (if IsLast f then ch\<lparr>endFrameNumber := FrameNumber f, closed := True\<rparr> else ch);
              ch2 = (if IsLast f \<and> endFrameNumber ch1 < highestFrameNumber ch1 then
                       ch1\<lparr>inputs := filter (\<lambda>(idx, _). idx < unat (endFrameNumber ch1)) (inputs ch1),
                           ChSize := ChSize ch1 - sum_sizes (inputs ch1),
                           highestFrameNumber := endFrameNumber ch1\<rparr>
                     else ch1);
              ch3 = (if highestFrameNumber ch2 < FrameNumber f then ch2\<lparr>highestFrameNumber := FrameNumber f\<rparr> else ch2);
              ch4 = (if L1Number (highestL1InclusionBlock ch3) < L1Number l1InclusionBlock
                     then ch3\<lparr>highestL1InclusionBlock := l1InclusionBlock\<rparr> else ch3)
          in (None, ch4\<lparr>inputs := inputs ch4 @ [(unat (FrameNumber f), f)], ChSize := ChSize ch4 + frameSize f\<rparr>))"

definition OpenBlockNumber :: "Channel \<Rightarrow> Word" where
  "OpenBlockNumber ch = L1Number (openBlock ch)"

definition IsReady :: "Channel \<Rightarrow> bool" where
  "IsReady ch \<longleftrightarrow> closed ch \<and> length (inputs ch) = unat (endFrameNumber ch) + 1 \<and>
     list_all (\<lambda>i. map_of (inputs ch) i \<noteq> None) [0..<Suc (unat (endFrameNumber ch))]"

text \<open>What \<open>io.ReadAll\<close> of the channel's reader gives; a missing frame panics.\<close>

fun read_frames :: "(nat \<rightharpoonup> Frame) \<Rightarrow> nat list \<Rightarrow> byte list res" where
  "read_frames fs [] = Inr []"
| "read_frames fs (i # is) =
     (case fs i of
        None \<Rightarrow> Inl ChannelNotReady
      | Some f \<Rightarrow> bind_res (read_frames fs is) (\<lambda>rest. Inr (FrData f @ rest)))"

definition Reader :: "Channel \<Rightarrow> byte list res" where
  "Reader ch = read_frames (map_of (inputs ch)) [0..<Suc (unat (endFrameNumber ch))]"

section \<open>The invariant\<close>

definition channel_ok :: "Channel \<Rightarrow> bool" where
  "channel_ok ch \<longleftrightarrow>
     distinct (map fst (inputs ch)) \<and>
     (\<forall>(k, f)\<in>set (inputs ch). k = unat (FrameNumber f) \<and> FrID f = ChId ch \<and> frame_ok f \<and>
        FrameNumber f \<le> highestFrameNumber ch \<and>
        (if closed ch then FrameNumber f \<le> endFrameNumber ch \<and> (IsLast f \<longleftrightarrow> FrameNumber f = endFrameNumber ch)
         else \<not> IsLast f)) \<and>
     (closed ch \<longrightarrow> highestFrameNumber ch = endFrameNumber ch \<and> unat (endFrameNumber ch) \<in> fst ` set (inputs ch)) \<and>
     (\<not> closed ch \<longrightarrow> ChSize ch = sum_sizes (inputs ch)) \<and>
     (requireInOrder ch \<longrightarrow> map fst (inputs ch) = [0..<length (inputs ch)])"

lemma channel_ok_New: "channel_ok (NewChannel cid opened inOrder)"
  by (simp add: channel_ok_def NewChannel_def sum_sizes_def)

lemma map_of_None: "map_of xs k = None \<longleftrightarrow> k \<notin> fst ` set xs"
  by (rule map_of_eq_None_iff)

definition entry_ok :: "Channel \<Rightarrow> nat \<times> Frame \<Rightarrow> bool" where
  "entry_ok ch = (\<lambda>(k, f). k = unat (FrameNumber f) \<and> FrID f = ChId ch \<and> frame_ok f \<and>
        FrameNumber f \<le> highestFrameNumber ch \<and>
        (if closed ch then FrameNumber f \<le> endFrameNumber ch \<and> (IsLast f \<longleftrightarrow> FrameNumber f = endFrameNumber ch)
         else \<not> IsLast f))"

lemma channel_ok_alt:
  "channel_ok ch \<longleftrightarrow> distinct (map fst (inputs ch)) \<and> (\<forall>x\<in>set (inputs ch). entry_ok ch x) \<and>
     (closed ch \<longrightarrow> highestFrameNumber ch = endFrameNumber ch \<and> unat (endFrameNumber ch) \<in> fst ` set (inputs ch)) \<and>
     (\<not> closed ch \<longrightarrow> ChSize ch = sum_sizes (inputs ch)) \<and>
     (requireInOrder ch \<longrightarrow> map fst (inputs ch) = [0..<length (inputs ch)])"
  by (simp add: channel_ok_def entry_ok_def)

lemma add_check_None:
  "add_check f ch = None \<longleftrightarrow> FrID f = ChId ch \<and> \<not> (IsLast f \<and> closed ch) \<and> unat (FrameNumber f) \<notin> fst ` set (inputs ch) \<and>
     (closed ch \<longrightarrow> FrameNumber f < endFrameNumber ch) \<and> (requireInOrder ch \<longrightarrow> unat (FrameNumber f) = length (inputs ch))"
  by (auto simp: add_check_def map_of_None not_le)

text \<open>The three ways a frame is taken in.\<close>

definition taken :: "Frame \<Rightarrow> L1BlockRef \<Rightarrow> Channel \<Rightarrow> Channel" where
  "taken f b ch =
     (if highestFrameNumber ch < FrameNumber f then ch\<lparr>highestFrameNumber := FrameNumber f\<rparr> else ch)
       \<lparr>highestL1InclusionBlock := (if L1Number (highestL1InclusionBlock ch) < L1Number b then b else highestL1InclusionBlock ch),
        inputs := inputs ch @ [(unat (FrameNumber f), f)], ChSize := ChSize ch + frameSize f\<rparr>"

definition prune_to :: "16 word \<Rightarrow> Channel \<Rightarrow> Channel" where
  "prune_to e ch =
     (if e < highestFrameNumber ch then
        ch\<lparr>inputs := filter (\<lambda>(idx, _). idx < unat e) (inputs ch), ChSize := ChSize ch - sum_sizes (inputs ch), highestFrameNumber := e\<rparr>
      else ch)"

lemma AddFrame_taken:
  "AddFrame f b ch =
     (case add_check f ch of
        Some e \<Rightarrow> (Some e, ch)
      | None \<Rightarrow> (None, if IsLast f then taken f b ((prune_to (FrameNumber f) ch)\<lparr>endFrameNumber := FrameNumber f, closed := True\<rparr>)
                 else taken f b ch))"
  by (simp add: AddFrame_def taken_def prune_to_def Let_def split: option.split)

lemma prune_to_ok:
  assumes "channel_ok ch" "\<not> closed ch" "(k, g) \<in> set (inputs (prune_to e ch))" "unat e \<notin> fst ` set (inputs ch)"
  shows "(k, g) \<in> set (inputs ch) \<and> FrameNumber g < e"
proof -
  have g: "(k, g) \<in> set (inputs ch)" "e < highestFrameNumber ch \<longrightarrow> k < unat e"
    using assms(3) by (auto simp: prune_to_def split: if_splits)
  then have ok: "k = unat (FrameNumber g)" "FrameNumber g \<le> highestFrameNumber ch"
    using assms(1) by (auto simp: channel_ok_alt entry_ok_def)
  have "FrameNumber g \<noteq> e" using g(1) ok(1) assms(4) by force
  moreover have "FrameNumber g \<le> e"
  proof (cases "e < highestFrameNumber ch")
    case True
    then show ?thesis using g(2) ok(1) by (simp add: word_le_nat_alt)
  next
    case False
    then show ?thesis using ok(2) by (meson not_less order_trans)
  qed
  ultimately show ?thesis using g(1) by (simp add: order.strict_iff_order)
qed

lemma AddFrame_ok:
  assumes "channel_ok ch" "frame_ok f"
  shows "channel_ok (snd (AddFrame f b ch))"
proof (cases "add_check f ch")
  case (Some e)
  then show ?thesis using assms(1) by (simp add: AddFrame_taken)
next
  case None
  note chk = None [unfolded add_check_None]
  note inv = assms(1) [unfolded channel_ok_alt]
  show ?thesis
  proof (cases "IsLast f")
    case False
    then have eq: "snd (AddFrame f b ch) = taken f b ch" using None by (simp add: AddFrame_taken)
    show ?thesis
      unfolding eq channel_ok_alt
    proof (intro conjI)
      show "distinct (map fst (inputs (taken f b ch)))" using inv chk by (simp add: taken_def)
      have high: "highestFrameNumber ch \<le> highestFrameNumber (taken f b ch)" "FrameNumber f \<le> highestFrameNumber (taken f b ch)"
        by (auto simp: taken_def)
      show "\<forall>x\<in>set (inputs (taken f b ch)). entry_ok (taken f b ch) x"
      proof
        fix x assume x: "x \<in> set (inputs (taken f b ch))"
        have t: "closed (taken f b ch) = closed ch" "endFrameNumber (taken f b ch) = endFrameNumber ch" "ChId (taken f b ch) = ChId ch"
          by (simp_all add: taken_def)
        from x consider "x = (unat (FrameNumber f), f)" | "x \<in> set (inputs ch)" by (auto simp: taken_def)
        then show "entry_ok (taken f b ch) x"
        proof cases
          case 1
          then show ?thesis using chk assms(2) False high(2) by (auto simp: entry_ok_def t)
        next
          case 2
          then have "entry_ok ch x" using inv by blast
          then show ?thesis using order_trans [OF _ high(1)] by (cases x) (simp add: entry_ok_def t)
        qed
      qed
      show "closed (taken f b ch) \<longrightarrow> highestFrameNumber (taken f b ch) = endFrameNumber (taken f b ch) \<and>
          unat (endFrameNumber (taken f b ch)) \<in> fst ` set (inputs (taken f b ch))"
        using inv chk by (auto simp: taken_def)
      show "\<not> closed (taken f b ch) \<longrightarrow> ChSize (taken f b ch) = sum_sizes (inputs (taken f b ch))"
        using inv by (simp add: taken_def sum_sizes_def)
      show "requireInOrder (taken f b ch) \<longrightarrow> map fst (inputs (taken f b ch)) = [0..<length (inputs (taken f b ch))]"
        using inv chk by (simp add: taken_def)
    qed
  next
    case True
    define ch1 where "ch1 = (prune_to (FrameNumber f) ch)\<lparr>endFrameNumber := FrameNumber f, closed := True\<rparr>"
    have eq: "snd (AddFrame f b ch) = taken f b ch1" using None True by (simp add: AddFrame_taken ch1_def)
    have nc: "\<not> closed ch" using chk True by blast
    have sel: "closed ch1" "endFrameNumber ch1 = FrameNumber f" "ChId ch1 = ChId ch" "requireInOrder ch1 = requireInOrder ch"
      "highestFrameNumber ch1 \<le> FrameNumber f" "inputs ch1 = inputs (prune_to (FrameNumber f) ch)"
      by (auto simp: ch1_def prune_to_def)
    have old: "(k, g) \<in> set (inputs ch) \<and> FrameNumber g < FrameNumber f" if "(k, g) \<in> set (inputs ch1)" for k g
      using prune_to_ok [OF assms(1) nc] that chk unfolding sel(6) by blast
    have high: "highestFrameNumber (taken f b ch1) = FrameNumber f" using sel(5) by (auto simp: taken_def)
    show ?thesis
      unfolding eq channel_ok_alt
    proof (intro conjI)
      have "distinct (map fst (inputs ch1))" using inv by (auto simp: sel(6) prune_to_def distinct_map_filter)
      moreover have "unat (FrameNumber f) \<notin> fst ` set (inputs ch1)" using old chk by fastforce
      ultimately show "distinct (map fst (inputs (taken f b ch1)))" by (simp add: taken_def)
      show "\<forall>x\<in>set (inputs (taken f b ch1)). entry_ok (taken f b ch1) x"
      proof
        fix x assume x: "x \<in> set (inputs (taken f b ch1))"
        obtain k g where kg: "x = (k, g)" by (cases x)
        have t: "closed (taken f b ch1)" "endFrameNumber (taken f b ch1) = FrameNumber f" "ChId (taken f b ch1) = ChId ch"
          using sel by (simp_all add: taken_def)
        from x consider "(k, g) = (unat (FrameNumber f), f)" | "(k, g) \<in> set (inputs ch1)" by (auto simp: taken_def kg)
        then show "entry_ok (taken f b ch1) x"
        proof cases
          case 1
          then show ?thesis using chk assms(2) True by (simp add: kg entry_ok_def t high)
        next
          case 2
          from old [OF this] have "entry_ok ch (k, g)" "FrameNumber g < FrameNumber f" using inv by blast+
          then show ?thesis using nc by (auto simp: kg entry_ok_def t high)
        qed
      qed
      show "closed (taken f b ch1) \<longrightarrow> highestFrameNumber (taken f b ch1) = endFrameNumber (taken f b ch1) \<and>
          unat (endFrameNumber (taken f b ch1)) \<in> fst ` set (inputs (taken f b ch1))"
        using sel high by (simp add: taken_def)
      show "\<not> closed (taken f b ch1) \<longrightarrow> ChSize (taken f b ch1) = sum_sizes (inputs (taken f b ch1))"
        using sel by (simp add: taken_def)
      show "requireInOrder (taken f b ch1) \<longrightarrow> map fst (inputs (taken f b ch1)) = [0..<length (inputs (taken f b ch1))]"
      proof
        assume "requireInOrder (taken f b ch1)"
        then have r: "requireInOrder ch" using sel by (simp add: taken_def split: if_splits)
        then have keys: "map fst (inputs ch) = [0..<length (inputs ch)]" "unat (FrameNumber f) = length (inputs ch)"
          using inv chk by blast+
        then have "\<forall>x\<in>set (inputs ch). fst x < unat (FrameNumber f)"
          by (metis atLeastLessThan_iff list.set_map image_eqI set_upt)
        then have "inputs ch1 = inputs ch" by (auto simp: sel(6) prune_to_def intro!: filter_True)
        then show "map fst (inputs (taken f b ch1)) = [0..<length (inputs (taken f b ch1))]" using keys by (simp add: taken_def)
      qed
    qed
  qed
qed

section \<open>Reading a complete channel\<close>

lemma read_frames_all:
  "(\<forall>i\<in>set is. fs i \<noteq> None) \<Longrightarrow> read_frames fs is = Inr (concat (map (\<lambda>i. FrData (the (fs i))) is))"
  by (induction "is") (auto)

lemma Reader_ready: "IsReady ch \<Longrightarrow> Reader ch =
    Inr (concat (map (\<lambda>i. FrData (the (map_of (inputs ch) i))) [0..<Suc (unat (endFrameNumber ch))]))"
  unfolding Reader_def by (rule read_frames_all) (simp add: IsReady_def list_all_iff)

text \<open>All the frames of one channel, numbered from 0, the last one flagged.\<close>

definition complete :: "ChannelID \<Rightarrow> Frame list \<Rightarrow> bool" where
  "complete cid fs \<longleftrightarrow> fs \<noteq> [] \<and> length fs \<le> 65536 \<and>
     (\<forall>i<length fs. FrID (fs ! i) = cid \<and> unat (FrameNumber (fs ! i)) = i \<and> (IsLast (fs ! i) \<longleftrightarrow> Suc i = length fs))"

definition add_all :: "(Frame \<times> L1BlockRef) list \<Rightarrow> Channel \<Rightarrow> Channel" where
  "add_all xs ch = fold (\<lambda>(f, b) ch. snd (AddFrame f b ch)) xs ch"

lemma completeD:
  assumes "complete cid fs" "f \<in> set fs"
  shows "FrID f = cid" "unat (FrameNumber f) < length fs" "fs ! unat (FrameNumber f) = f"
    "IsLast f \<longleftrightarrow> Suc (unat (FrameNumber f)) = length fs"
  using assms by (auto simp: complete_def in_set_conv_nth)

lemma taken_sel [simp]:
  "inputs (taken f b ch) = inputs ch @ [(unat (FrameNumber f), f)]" "ChId (taken f b ch) = ChId ch"
  "requireInOrder (taken f b ch) = requireInOrder ch" "closed (taken f b ch) = closed ch"
  "endFrameNumber (taken f b ch) = endFrameNumber ch" "openBlock (taken f b ch) = openBlock ch"
  by (simp_all add: taken_def)

text \<open>What a channel has taken in, as a set of frames.\<close>

definition holds :: "Frame list \<Rightarrow> Frame set \<Rightarrow> Channel \<Rightarrow> bool" where
  "holds fs S ch \<longleftrightarrow> ChId ch = FrID (fs ! 0) \<and> \<not> requireInOrder ch \<and> S \<subseteq> set fs \<and> distinct (map fst (inputs ch)) \<and>
     set (inputs ch) = (\<lambda>f. (unat (FrameNumber f), f)) ` S \<and>
     (closed ch \<longleftrightarrow> last fs \<in> S) \<and> (closed ch \<longrightarrow> endFrameNumber ch = FrameNumber (last fs))"

lemma holds_add:
  assumes c: "complete cid fs" and h: "holds fs S ch" and f: "f \<in> set fs" "f \<notin> S"
  shows "fst (AddFrame f b ch) = None \<and> holds fs (insert f S) (snd (AddFrame f b ch))"
proof -
  note fD = completeD [OF c f(1)]
  have ne: "fs \<noteq> []" using c by (simp add: complete_def)
  have lastD: "unat (FrameNumber (last fs)) = length fs - 1" "IsLast (last fs)"
    using c ne by (auto simp: complete_def last_conv_nth)
  have last_iff: "IsLast f \<longleftrightarrow> f = last fs"
    using fD c ne by (metis One_nat_def diff_Suc_1 lastD(2) last_conv_nth)
  have S: "S \<subseteq> set fs" "set (inputs ch) = (\<lambda>f. (unat (FrameNumber f), f)) ` S" using h by (simp_all add: holds_def)
  have key: "unat (FrameNumber f) \<notin> fst ` set (inputs ch)"
  proof
    assume "unat (FrameNumber f) \<in> fst ` set (inputs ch)"
    then obtain g where "g \<in> S" "unat (FrameNumber f) = unat (FrameNumber g)" using S(2) by auto
    then show False using completeD(3) [OF c, of g] fD(3) f(2) S(1) by auto
  qed
  have below: "FrameNumber f < FrameNumber (last fs)" if "f \<noteq> last fs"
  proof -
    have "Suc (unat (FrameNumber f)) \<noteq> length fs" using fD(4) last_iff that by blast
    then show ?thesis using fD(2) lastD(1) by (simp add: word_less_nat_alt)
  qed
  have cid: "cid = FrID (fs ! 0)" using c by (auto simp: complete_def)
  have chk: "add_check f ch = None"
    using h key below last_iff f(2) fD(1) cid by (auto simp: add_check_None holds_def)
  show ?thesis
  proof (cases "IsLast f")
    case False
    then have "snd (AddFrame f b ch) = taken f b ch" "f \<noteq> last fs" using chk last_iff by (simp_all add: AddFrame_taken)
    then show ?thesis using chk h key f by (simp add: AddFrame_taken holds_def)
  next
    case True
    then have fl: "f = last fs" using last_iff by simp
    have "unat (FrameNumber g) < unat (FrameNumber f)" if "g \<in> S" for g
    proof -
      have g: "g \<in> set fs" using that S(1) by blast
      have "unat (FrameNumber g) \<noteq> unat (FrameNumber f)" using completeD(3) [OF c g] fD(3) f(2) that by metis
      then show ?thesis using completeD(2) [OF c g] lastD(1) fl by simp
    qed
    then have all: "filter (\<lambda>(idx, _). idx < unat (FrameNumber f)) (inputs ch) = inputs ch"
      using S(2) by (intro filter_True) auto
    define ch1 where "ch1 = (prune_to (FrameNumber f) ch)\<lparr>endFrameNumber := FrameNumber f, closed := True\<rparr>"
    have ch1: "inputs ch1 = inputs ch" "ChId ch1 = ChId ch" "requireInOrder ch1 = requireInOrder ch"
      "closed ch1" "endFrameNumber ch1 = FrameNumber f" by (simp_all add: ch1_def prune_to_def all)
    have eq: "AddFrame f b ch = (None, taken f b ch1)" using chk True by (simp add: AddFrame_taken ch1_def)
    have "distinct (map fst (inputs (taken f b ch1)))" using h key by (simp add: holds_def ch1(1))
    moreover have "set (inputs (taken f b ch1)) = (\<lambda>f. (unat (FrameNumber f), f)) ` insert f S"
      unfolding taken_sel ch1(1) by (simp add: S(2))
    ultimately have "holds fs (insert f S) (taken f b ch1)"
      using h f(1) fl by (simp add: holds_def ch1(2-5))
    then show ?thesis unfolding eq by simp
  qed
qed

lemma holds_all:
  assumes "complete cid fs"
  shows "distinct (map fst xs) \<Longrightarrow> set (map fst xs) \<inter> S = {} \<Longrightarrow> set (map fst xs) \<subseteq> set fs \<Longrightarrow> holds fs S ch \<Longrightarrow>
    holds fs (S \<union> set (map fst xs)) (add_all xs ch)"
proof (induction xs arbitrary: S ch)
  case Nil
  then show ?case by (simp add: add_all_def)
next
  case (Cons x xs)
  obtain f b where x: "x = (f, b)" by (cases x)
  have "holds fs (insert f S) (snd (AddFrame f b ch))"
    using holds_add [OF assms Cons.prems(4), of f b] Cons.prems(2,3) by (simp add: x)
  from Cons.IH [OF _ _ _ this] Cons.prems show ?case by (simp add: x add_all_def)
qed

lemma complete_distinct: "complete cid fs \<Longrightarrow> distinct fs"
  unfolding distinct_conv_nth complete_def by metis

text \<open>C27: Before Holocene the order in which frames arrive does not matter: whatever the order in which the
  frames of a channel are added to a new channel, none is refused, the channel is then ready and its reader
  gives the data of the frames in the order of their numbers.\<close>

theorem AddFrame_any_order:
  assumes "complete cid fs" "mset (map fst xs) = mset fs"
  shows "IsReady (add_all xs (NewChannel cid opened False)) \<and>
    Reader (add_all xs (NewChannel cid opened False)) = Inr (concat (map FrData fs))"
proof -
  let ?ch = "add_all xs (NewChannel cid opened False)"
  have ne: "fs \<noteq> []" using assms(1) by (simp add: complete_def)
  have cid: "cid = FrID (fs ! 0)" using assms(1) by (auto simp: complete_def)
  have "holds fs {} (NewChannel cid opened False)" by (simp add: holds_def NewChannel_def cid)
  moreover have dx: "distinct (map fst xs)" using complete_distinct [OF assms(1)] assms(2) by (metis mset_eq_imp_distinct_iff)
  moreover have sx: "set (map fst xs) = set fs" using assms(2) by (metis set_mset_mset)
  ultimately have h: "holds fs (set fs) ?ch" using holds_all [OF assms(1), of xs "{}"] by simp
  have last: "unat (FrameNumber (last fs)) = length fs - 1" using assms(1) ne by (auto simp: complete_def last_conv_nth)
  have cl: "closed ?ch" "endFrameNumber ?ch = FrameNumber (last fs)" using h ne by (simp_all add: holds_def)
  have keys: "map_of (inputs ?ch) i = Some (fs ! i)" if "i < length fs" for i
  proof (rule map_of_is_SomeI)
    show "distinct (map fst (inputs ?ch))" using h by (simp add: holds_def)
    have "unat (FrameNumber (fs ! i)) = i" "fs ! i \<in> set fs" using assms(1) that by (auto simp: complete_def)
    then show "(i, fs ! i) \<in> set (inputs ?ch)" using h by (auto simp: holds_def image_iff intro!: bexI [of _ "fs ! i"])
  qed
  have "fst ` set (inputs ?ch) = (\<lambda>f. unat (FrameNumber f)) ` set fs" using h by (auto simp: holds_def image_iff)
  also have "\<dots> = {0..<length fs}"
  proof
    show "(\<lambda>f. unat (FrameNumber f)) ` set fs \<subseteq> {0..<length fs}" using completeD(2) [OF assms(1)] by auto
    show "{0..<length fs} \<subseteq> (\<lambda>f. unat (FrameNumber f)) ` set fs"
    proof
      fix i assume "i \<in> {0..<length fs}"
      then have "unat (FrameNumber (fs ! i)) = i" "fs ! i \<in> set fs" using assms(1) by (simp_all add: complete_def)
      then show "i \<in> (\<lambda>f. unat (FrameNumber f)) ` set fs" by (metis image_eqI)
    qed
  qed
  finally have "card (fst ` set (inputs ?ch)) = length fs" by simp
  moreover have "length (inputs ?ch) = card (fst ` set (inputs ?ch))"
    using h distinct_card [of "map fst (inputs ?ch)"] by (simp add: holds_def)
  ultimately have len: "length (inputs ?ch) = length fs" by simp
  have upto: "Suc (unat (endFrameNumber ?ch)) = length fs" using ne by (simp add: cl last)
  have ready: "IsReady ?ch"
    unfolding IsReady_def upto using keys len cl(1) upto by (simp add: list_all_iff)
  have "map (\<lambda>i. FrData (the (map_of (inputs ?ch) i))) [0..<length fs] = map FrData fs"
    using keys by (intro nth_equalityI) simp_all
  then show ?thesis using ready Reader_ready [OF ready] unfolding upto by simp
qed

definition sample_frame :: "nat \<Rightarrow> byte list \<Rightarrow> bool \<Rightarrow> Frame" where
  "sample_frame n bs l = \<lparr>FrID = replicate 16 7, FrameNumber = of_nat n, FrData = bs, IsLast = l\<rparr>"

theorem AddFrame_any_order_witness:
  "Reader (add_all [(sample_frame 2 [5] True, no_block), (sample_frame 0 [1, 2] False, no_block), (sample_frame 1 [3, 4] False, no_block)]
     (NewChannel (replicate 16 7) no_block False)) = Inr [1, 2, 3, 4, 5]"
proof -
  have "complete (replicate 16 7) [sample_frame 0 [1, 2] False, sample_frame 1 [3, 4] False, sample_frame 2 [5] True]"
    by (auto simp: complete_def sample_frame_def less_Suc_eq numeral_3_eq_3)
  from AddFrame_any_order [OF this, of "[(sample_frame 2 [5] True, no_block), (sample_frame 0 [1, 2] False, no_block),
      (sample_frame 1 [3, 4] False, no_block)]" no_block]
  show ?thesis by (simp add: sample_frame_def add_mset_commute)
qed

end
