(* ===== verification/Derive_Stage.thy ===== *)
theory Derive_Stage
  imports Derive_Channel
begin

text \<open>
  What the stages of the derivation pipeline (\<open>op-node/rollup/derive\<close>) have in common.  A stage is pulled by the
  next one: each pull returns a value or an error (\<open>error.go\<close>) and a new state, or panics.  The contract every stage
  keeps is the locale \<open>stage\<close>: a pull on a well-formed state does not panic, keeps the state well-formed and the
  origin as it is, returns good values only, and a pull that returns a value or asks for a retry makes progress in a
  well-founded order; so a consumer that pulls again and again reaches \<open>io.EOF\<close> or an error.
\<close>

section \<open>Errors\<close>

datatype Level = LevelTemporary | LevelReset | LevelCritical

text \<open>Errors without a level are told apart only as far as the callers compare them.\<close>

datatype derive_error = IoEOF | NotEnoughData | EngineELSyncing | Leveled Level | OtherError

definition Is :: "derive_error \<Rightarrow> Level \<Rightarrow> bool" where
  "Is e lvl \<longleftrightarrow> e = Leveled lvl"

type_synonym 'a outcome = "derive_error + 'a"
type_synonym ('s, 'a) puller = "'s \<Rightarrow> ('a outcome \<times> 's) res"

section \<open>The contract of a stage\<close>

definition retry :: "'a outcome \<Rightarrow> bool" where
  "retry r = (case r of Inl e \<Rightarrow> e = NotEnoughData | Inr _ \<Rightarrow> True)"

lemma retry_simps [simp]: "retry (Inr a)" "retry (Inl e) \<longleftrightarrow> e = NotEnoughData"
  by (simp_all add: retry_def)

definition good_outcome :: "('a \<Rightarrow> bool) \<Rightarrow> 'a outcome \<Rightarrow> bool" where
  "good_outcome good r = (case r of Inl e \<Rightarrow> e \<noteq> Leveled LevelCritical | Inr a \<Rightarrow> good a)"

lemma good_outcome_simps [simp]:
  "good_outcome good (Inr a) = good a" "good_outcome good (Inl e) \<longleftrightarrow> e \<noteq> Leveled LevelCritical"
  by (simp_all add: good_outcome_def)

locale stage =
  fixes pull :: "('s, 'a) puller"
    and origin :: "'s \<Rightarrow> L1BlockRef"
    and ok :: "'s \<Rightarrow> bool"
    and R :: "('s \<times> 's) set"
    and good :: "'a \<Rightarrow> bool"
  assumes wf_R: "wf R"
    and pull_ok: "ok s \<Longrightarrow> \<exists>r s'. pull s = Inr (r, s') \<and> ok s' \<and> origin s' = origin s \<and> good_outcome good r"
    and progress: "ok s \<Longrightarrow> pull s = Inr (r, s') \<Longrightarrow> retry r \<Longrightarrow> (s', s) \<in> R"
begin

lemma pullE:
  assumes "ok s"
  obtains r s' where "pull s = Inr (r, s')" "ok s'" "origin s' = origin s" "good_outcome good r" "retry r \<longrightarrow> (s', s) \<in> R"
proof -
  obtain r s' where "pull s = Inr (r, s')" "ok s'" "origin s' = origin s" "good_outcome good r"
    using pull_ok [OF assms] by blast
  then show thesis using that [of r s'] progress [OF assms, of r s'] by blast
qed

lemma pull_Inr:
  assumes "ok s" "pull s = Inr (r, s')"
  shows "ok s' \<and> origin s' = origin s \<and> good_outcome good r \<and> (retry r \<longrightarrow> (s', s) \<in> R)"
  using pull_ok [OF assms(1)] progress [OF assms(1)] assms(2) by auto

text \<open>Pulling until something else than a value or \<open>NotEnoughData\<close> comes out ends.\<close>

inductive drains :: "'s \<Rightarrow> 'a list \<Rightarrow> derive_error \<Rightarrow> 's \<Rightarrow> bool" where
  stop: "pull s = Inr (Inl e, s') \<Longrightarrow> e \<noteq> NotEnoughData \<Longrightarrow> drains s [] e s'"
| again: "pull s = Inr (Inl NotEnoughData, s1) \<Longrightarrow> drains s1 xs e s' \<Longrightarrow> drains s xs e s'"
| next_value: "pull s = Inr (Inr a, s1) \<Longrightarrow> drains s1 xs e s' \<Longrightarrow> drains s (a # xs) e s'"

lemma drains_total: "ok s \<Longrightarrow> \<exists>xs e s'. drains s xs e s' \<and> ok s' \<and> origin s' = origin s \<and>
    list_all good xs \<and> e \<noteq> NotEnoughData \<and> e \<noteq> Leveled LevelCritical"
proof (induction s rule: wf_induct_rule [OF wf_R])
  case (1 s)
  from "1.prems" obtain r s1 where p: "pull s = Inr (r, s1)" "ok s1" "origin s1 = origin s" "good_outcome good r"
    "retry r \<longrightarrow> (s1, s) \<in> R" by (rule pullE)
  show ?case
  proof (cases "retry r")
    case False
    then obtain e where "r = Inl e" "e \<noteq> NotEnoughData" by (cases r) auto
    then show ?thesis using p stop by (intro exI [of _ "[]"] exI [of _ e] exI [of _ s1]) simp
  next
    case True
    with p(5) have less: "(s1, s) \<in> R" by blast
    from "1.IH" [OF less p(2)] obtain xs e s' where rest: "drains s1 xs e s'" "ok s'" "origin s' = origin s1"
      "list_all good xs" "e \<noteq> NotEnoughData" "e \<noteq> Leveled LevelCritical" by blast
    show ?thesis
    proof (cases r)
      case (Inl err)
      with True p(1) have "pull s = Inr (Inl NotEnoughData, s1)" by simp
      then have "drains s xs e s'" by (rule again [OF _ rest(1)])
      then show ?thesis using rest p(3) by (intro exI [of _ xs] exI [of _ e] exI [of _ s']) simp
    next
      case (Inr a)
      have "drains s (a # xs) e s'" by (rule next_value [OF _ rest(1)]) (use Inr p(1) in simp)
      moreover have "good a" using p(4) unfolding Inr by simp
      moreover have "origin s' = origin s" using rest(3) p(3) by (rule trans)
      ultimately show ?thesis using rest(2,4,5,6) by (metis list.pred_inject(2))
    qed
  qed
qed

end

section \<open>Stages by what they return\<close>

text \<open>A stage that returns batcher data, for the frame queue, and one that returns well-formed frames, for the channel stages.\<close>

locale data_stage = stage pull origin ok R good
  for pull :: "('s, byte list) puller" and origin :: "'s \<Rightarrow> L1BlockRef" and ok :: "'s \<Rightarrow> bool" and R :: "('s \<times> 's) set"
    and good :: "byte list \<Rightarrow> bool"

locale frame_stage = stage pull origin ok R frame_ok
  for pull :: "('s, Frame) puller" and origin :: "'s \<Rightarrow> L1BlockRef" and ok :: "'s \<Rightarrow> bool" and R :: "('s \<times> 's) set"

text \<open>The order of a stage with a buffer in front of a stage with order \<open>R\<close>.\<close>

definition buffered :: "('p \<times> 'p) set \<Rightarrow> ('s \<Rightarrow> 'p) \<Rightarrow> ('s \<Rightarrow> nat) \<Rightarrow> ('s \<times> 's) set" where
  "buffered R prev left = inv_image (R <*lex*> less_than) (\<lambda>s. (prev s, left s))"

lemma wf_buffered: "wf R \<Longrightarrow> wf (buffered R prev left)"
  by (simp add: buffered_def wf_inv_image wf_lex_prod)

lemma in_buffered:
  "(s', s) \<in> buffered R prev left \<longleftrightarrow> (prev s', prev s) \<in> R \<or> prev s' = prev s \<and> left s' < left s"
  by (auto simp: buffered_def)

end
