(* ===== verification/Derive_SysCfg.thy ===== *)
theory Derive_SysCfg
  imports Derive_Stage
begin

text \<open>
  System configuration updates: the ABI readers and writers of \<open>op-service/solabi/util.go\<close>, the fee scalar and
  operator fee encodings of \<open>op-service/eth/types.go\<close>, and \<open>op-node/rollup/derive/system_config.go\<close>, which
  applies the \<open>ConfigUpdate\<close> events of an L1 block's receipts.  Topics and 32-byte values are words; the hash of the
  event's signature, a Keccak value, is a parameter.
\<close>

section \<open>ABI values\<close>

definition be_word :: "nat \<Rightarrow> 'w::len word \<Rightarrow> byte list" where
  "be_word n w = be_enc n (unat w)"

definition word_be :: "byte list \<Rightarrow> 'w::len word" where
  "word_be bs = of_nat (be_dec bs)"

definition WriteUint64 :: "Word \<Rightarrow> byte list" where
  "WriteUint64 n = replicate 24 0 @ be_word 8 n"

definition WriteAddress :: "Addr \<Rightarrow> byte list" where
  "WriteAddress a = replicate 12 0 @ be_word 20 a"

definition WriteEthBytes32 :: "H256 \<Rightarrow> byte list" where
  "WriteEthBytes32 b = be_word 32 b"

text \<open>The readers return \<open>None\<close> for any error, all of which the callers treat alike.\<close>

definition read_n :: "nat \<Rightarrow> byte list \<Rightarrow> (byte list \<times> byte list) option" where
  "read_n n r = (case read_full n r of Inl e \<Rightarrow> None | Inr x \<Rightarrow> Some x)"

definition ReadUint64 :: "byte list \<Rightarrow> (Word \<times> byte list) option" where
  "ReadUint64 r =
     (case read_n 24 r of
        None \<Rightarrow> None
      | Some (readPadding, r1) \<Rightarrow>
          if readPadding \<noteq> replicate 24 0 then None
          else (case read_n 8 r1 of None \<Rightarrow> None | Some (n, r2) \<Rightarrow> Some (word_be n, r2)))"

definition ReadAddress :: "byte list \<Rightarrow> (Addr \<times> byte list) option" where
  "ReadAddress r =
     (case read_n 12 r of
        None \<Rightarrow> None
      | Some (readPadding, r1) \<Rightarrow>
          if readPadding \<noteq> replicate 12 0 then None
          else (case read_n 20 r1 of None \<Rightarrow> None | Some (a, r2) \<Rightarrow> Some (word_be a, r2)))"

definition ReadEthBytes32 :: "byte list \<Rightarrow> (H256 \<times> byte list) option" where
  "ReadEthBytes32 r = (case read_n 32 r of None \<Rightarrow> None | Some (b, r1) \<Rightarrow> Some (word_be b, r1))"

definition EmptyReader :: "byte list \<Rightarrow> bool" where
  "EmptyReader r \<longleftrightarrow> r = []"

lemma length_be_word [simp]: "length (be_word n w) = n"
  by (simp add: be_word_def)

lemma word_be_word [simp]:
  assumes "LENGTH('w) = 8 * n"
  shows "word_be (be_word n w) = (w :: 'w::len word)"
proof -
  have "unat w < 256 ^ n"
    using unsigned_less [of w, where 'a = nat] assms by (simp add: power_mult)
  then show ?thesis by (simp add: word_be_def be_word_def be_dec_enc)
qed

lemma be_word_word_be:
  assumes "LENGTH('w) = 8 * length bs"
  shows "be_word (length bs) (word_be bs :: 'w::len word) = bs"
proof -
  have "be_dec bs < 2 ^ LENGTH('w)" using be_dec_bound [of bs] assms by (simp add: power_mult)
  then show ?thesis by (simp add: word_be_def be_word_def unat_of_nat be_enc_dec)
qed

lemma read_n_Some: "read_n n r = Some (xs, ys) \<longleftrightarrow> r = xs @ ys \<and> length xs = n"
  by (auto simp: read_n_def read_full_def split: if_splits)

text \<open>Each reader is the inverse of the writer: it succeeds exactly on its output.\<close>

lemma ReadUint64_Some: "ReadUint64 r = Some (n, r') \<longleftrightarrow> r = WriteUint64 n @ r'"
proof
  assume "ReadUint64 r = Some (n, r')"
  then obtain bs where "r = replicate 24 0 @ bs @ r'" "length bs = 8" "n = word_be bs"
    by (auto simp: ReadUint64_def read_n_Some split: option.splits if_splits)
  then show "r = WriteUint64 n @ r'" using be_word_word_be [of bs, where 'w = 64] by (simp add: WriteUint64_def)
next
  assume r: "r = WriteUint64 n @ r'"
  have "read_n 24 r = Some (replicate 24 0, be_word 8 n @ r')" by (simp add: read_n_Some r WriteUint64_def)
  moreover have "read_n 8 (be_word 8 n @ r') = Some (be_word 8 n, r')" by (simp add: read_n_Some)
  ultimately show "ReadUint64 r = Some (n, r')" by (simp add: ReadUint64_def)
qed

lemma ReadAddress_Some: "ReadAddress r = Some (a, r') \<longleftrightarrow> r = WriteAddress a @ r'"
proof
  assume "ReadAddress r = Some (a, r')"
  then obtain bs where "r = replicate 12 0 @ bs @ r'" "length bs = 20" "a = word_be bs"
    by (auto simp: ReadAddress_def read_n_Some split: option.splits if_splits)
  then show "r = WriteAddress a @ r'" using be_word_word_be [of bs, where 'w = 160] by (simp add: WriteAddress_def)
next
  assume r: "r = WriteAddress a @ r'"
  have "read_n 12 r = Some (replicate 12 0, be_word 20 a @ r')" by (simp add: read_n_Some r WriteAddress_def)
  moreover have "read_n 20 (be_word 20 a @ r') = Some (be_word 20 a, r')" by (simp add: read_n_Some)
  ultimately show "ReadAddress r = Some (a, r')" by (simp add: ReadAddress_def)
qed

lemma ReadEthBytes32_Some: "ReadEthBytes32 r = Some (b, r') \<longleftrightarrow> r = WriteEthBytes32 b @ r'"
proof
  assume "ReadEthBytes32 r = Some (b, r')"
  then obtain bs where "r = bs @ r'" "length bs = 32" "b = word_be bs"
    by (auto simp: ReadEthBytes32_def read_n_Some split: option.splits)
  then show "r = WriteEthBytes32 b @ r'" using be_word_word_be [of bs, where 'w = 256] by (simp add: WriteEthBytes32_def)
next
  assume r: "r = WriteEthBytes32 b @ r'"
  have "read_n 32 r = Some (be_word 32 b, r')" by (simp add: read_n_Some r WriteEthBytes32_def)
  then show "ReadEthBytes32 r = Some (b, r')" by (simp add: ReadEthBytes32_def)
qed

section \<open>Fee parameters\<close>

record EcotoneScalars =
  BlobBaseFeeScalar :: "32 word"
  BaseFeeScalar :: "32 word"

record OperatorFee =
  OpFeeScalar :: "32 word"
  OpFeeConstant :: Word

definition L1ScalarBedrock :: byte where [simp]: "L1ScalarBedrock = 0"
definition L1ScalarEcotone :: byte where [simp]: "L1ScalarEcotone = 1"

datatype scalar_error = ErrBedrockScalarPaddingNotEmpty | InvalidV1ScalarPadding | UnrecognizedScalarVersion byte

definition CheckEcotoneL1SystemConfigScalar :: "H256 \<Rightarrow> scalar_error option" where
  "CheckEcotoneL1SystemConfigScalar s =
     (let scalar = be_word 32 s; versionByte = scalar ! 0
      in if versionByte = L1ScalarBedrock then
           if take 27 (drop 1 scalar) \<noteq> replicate 27 0 then Some ErrBedrockScalarPaddingNotEmpty else None
         else if versionByte = L1ScalarEcotone then
           if take 23 (drop 1 scalar) \<noteq> replicate 23 0 then Some InvalidV1ScalarPadding else None
         else Some (UnrecognizedScalarVersion versionByte))"

definition DecodeScalar :: "H256 \<Rightarrow> scalar_error + EcotoneScalars" where
  "DecodeScalar s =
     (let scalar = be_word 32 s
      in if scalar ! 0 = L1ScalarBedrock then
           Inr \<lparr>BlobBaseFeeScalar = 0, BaseFeeScalar = word_be (take 4 (drop 28 scalar))\<rparr>
         else if scalar ! 0 = L1ScalarEcotone then
           Inr \<lparr>BlobBaseFeeScalar = word_be (take 4 (drop 24 scalar)), BaseFeeScalar = word_be (take 4 (drop 28 scalar))\<rparr>
         else Inl (UnrecognizedScalarVersion (scalar ! 0)))"

definition EncodeScalar :: "EcotoneScalars \<Rightarrow> H256" where
  "EncodeScalar scalars =
     word_be (L1ScalarEcotone # replicate 23 0 @ be_word 4 (BlobBaseFeeScalar scalars) @ be_word 4 (BaseFeeScalar scalars))"

definition EcotoneScalars_of :: "SystemConfig \<Rightarrow> scalar_error + EcotoneScalars" where
  "EcotoneScalars_of sysCfg =
     (case CheckEcotoneL1SystemConfigScalar (Scalar sysCfg) of
        Some e \<Rightarrow> if e = ErrBedrockScalarPaddingNotEmpty then Inr \<lparr>BlobBaseFeeScalar = 0, BaseFeeScalar = - 1\<rparr> else Inl e
      | None \<Rightarrow> DecodeScalar (Scalar sysCfg))"

definition DecodeOperatorFeeParams :: "H256 \<Rightarrow> OperatorFee" where
  "DecodeOperatorFeeParams s =
     (let scalar = be_word 32 s
      in \<lparr>OpFeeScalar = word_be (take 4 (drop 20 scalar)), OpFeeConstant = word_be (take 8 (drop 24 scalar))\<rparr>)"

definition EncodeOperatorFeeParams :: "OperatorFee \<Rightarrow> H256" where
  "EncodeOperatorFeeParams params = word_be (replicate 20 0 @ be_word 4 (OpFeeScalar params) @ be_word 8 (OpFeeConstant params))"

lemma be_word_32 [simp]: "length bs = 32 \<Longrightarrow> be_word 32 (word_be bs :: 256 word) = bs"
  using be_word_word_be [of bs, where 'w = 256] by simp

lemma be_word_0 [simp]: "be_word n (0 :: 'w::len word) = replicate n 0"
proof -
  have "be_enc n 0 = replicate n 0" by (induction n) (simp_all flip: replicate_append_same)
  then show ?thesis by (simp add: be_word_def)
qed

lemma DecodeScalar_Encode: "DecodeScalar (EncodeScalar sc) = Inr sc \<and> CheckEcotoneL1SystemConfigScalar (EncodeScalar sc) = None"
  by (simp add: DecodeScalar_def EncodeScalar_def CheckEcotoneL1SystemConfigScalar_def Let_def)

lemma DecodeOperatorFeeParams_Encode: "DecodeOperatorFeeParams (EncodeOperatorFeeParams p) = p"
  by (simp add: DecodeOperatorFeeParams_def EncodeOperatorFeeParams_def Let_def)

section \<open>Configuration events\<close>

record LogEvent =
  LogAddress :: Addr
  LogTopics :: "H256 list"
  LogData :: "byte list"
  LogBlockHash :: H256
  LogIndex :: Word

record Receipt =
  RcStatus :: Word
  RcLogs :: "LogEvent list"

definition ReceiptStatusSuccessful :: Word where [simp]: "ReceiptStatusSuccessful = 1"

definition SystemConfigUpdateBatcher :: H256 where [simp]: "SystemConfigUpdateBatcher = 0"
definition SystemConfigUpdateFeeScalars :: H256 where [simp]: "SystemConfigUpdateFeeScalars = 1"
definition SystemConfigUpdateGasLimit :: H256 where [simp]: "SystemConfigUpdateGasLimit = 2"
definition SystemConfigUpdateUnsafeBlockSigner :: H256 where [simp]: "SystemConfigUpdateUnsafeBlockSigner = 3"
definition SystemConfigUpdateEIP1559Params :: H256 where [simp]: "SystemConfigUpdateEIP1559Params = 4"
definition SystemConfigUpdateOperatorFeeParams :: H256 where [simp]: "SystemConfigUpdateOperatorFeeParams = 5"
definition ConfigUpdateEventVersion0 :: H256 where [simp]: "ConfigUpdateEventVersion0 = 0"

datatype update_error =
    WrongTopicCount nat | InvalidUpdateEvent | UnrecognizedEventVersion | UnrecognizedUpdateType
  | InvalidPointerField | InvalidLengthField | CouldNotReadValue | TooManyBytes

text \<open>The pointer and length words in front of every payload.\<close>

definition read_header :: "Word \<Rightarrow> byte list \<Rightarrow> update_error + byte list" where
  "read_header len r =
     (case ReadUint64 r of
        None \<Rightarrow> Inl InvalidPointerField
      | Some (pointer, r1) \<Rightarrow>
          if pointer \<noteq> 32 then Inl InvalidPointerField
          else (case ReadUint64 r1 of
                  None \<Rightarrow> Inl InvalidLengthField
                | Some (l, r2) \<Rightarrow> if l \<noteq> len then Inl InvalidLengthField else Inr r2))"

definition read_value :: "(byte list \<Rightarrow> ('a \<times> byte list) option) \<Rightarrow> byte list \<Rightarrow> update_error + 'a \<times> byte list" where
  "read_value rd r = (case rd r of None \<Rightarrow> Inl CouldNotReadValue | Some x \<Rightarrow> Inr x)"

definition ProcessSystemConfigUpdateLogEvent ::
    "H256 \<Rightarrow> SystemConfig \<Rightarrow> LogEvent \<Rightarrow> Config \<Rightarrow> Word \<Rightarrow> update_error + SystemConfig" where
  "ProcessSystemConfigUpdateLogEvent ConfigUpdateEventABIHash destSysCfg ev rollupCfg l1Time =
     (if length (LogTopics ev) \<noteq> 3 then Inl (WrongTopicCount (length (LogTopics ev)))
      else if LogTopics ev ! 0 \<noteq> ConfigUpdateEventABIHash then Inl InvalidUpdateEvent
      else if LogTopics ev ! 1 \<noteq> ConfigUpdateEventVersion0 then Inl UnrecognizedEventVersion
      else
        let updateType = LogTopics ev ! 2; reader = LogData ev
        in if updateType = SystemConfigUpdateBatcher then
             bind_res (read_header 32 reader) (\<lambda>r1.
             bind_res (read_value ReadAddress r1) (\<lambda>(address, r2).
             if \<not> EmptyReader r2 then Inl TooManyBytes else Inr (destSysCfg\<lparr>BatcherAddr := address\<rparr>)))
           else if updateType = SystemConfigUpdateFeeScalars then
             bind_res (read_header 64 reader) (\<lambda>r1.
             bind_res (read_value ReadEthBytes32 r1) (\<lambda>(overhead, r2).
             bind_res (read_value ReadEthBytes32 r2) (\<lambda>(scalar, r3).
             if \<not> EmptyReader r3 then Inl TooManyBytes
             else if IsEcotone rollupCfg l1Time then
               (case CheckEcotoneL1SystemConfigScalar scalar of
                  Some _ \<Rightarrow> Inr destSysCfg
                | None \<Rightarrow> Inr (destSysCfg\<lparr>Scalar := scalar, Overhead := 0\<rparr>))
             else Inr (destSysCfg\<lparr>Overhead := overhead, Scalar := scalar\<rparr>))))
           else if updateType = SystemConfigUpdateGasLimit then
             bind_res (read_header 32 reader) (\<lambda>r1.
             bind_res (read_value ReadUint64 r1) (\<lambda>(gasLimit, r2).
             if \<not> EmptyReader r2 then Inl TooManyBytes else Inr (destSysCfg\<lparr>GasLimit := gasLimit\<rparr>)))
           else if updateType = SystemConfigUpdateEIP1559Params then
             bind_res (read_header 32 reader) (\<lambda>r1.
             bind_res (read_value ReadEthBytes32 r1) (\<lambda>(params, r2).
             if \<not> EmptyReader r2 then Inl TooManyBytes
             else Inr (destSysCfg\<lparr>EIP1559Params := word_be (drop 24 (be_word 32 params))\<rparr>)))
           else if updateType = SystemConfigUpdateOperatorFeeParams then
             bind_res (read_header 32 reader) (\<lambda>r1.
             bind_res (read_value ReadEthBytes32 r1) (\<lambda>(params, r2).
             if \<not> EmptyReader r2 then Inl TooManyBytes else Inr (destSysCfg\<lparr>OperatorFeeParams := params\<rparr>)))
           else if updateType = SystemConfigUpdateUnsafeBlockSigner then Inr destSysCfg
           else Inl UnrecognizedUpdateType)"

definition is_config_update :: "H256 \<Rightarrow> Config \<Rightarrow> LogEvent \<Rightarrow> bool" where
  "is_config_update h cfg ev \<longleftrightarrow> LogAddress ev = L1SystemConfigAddress cfg \<and> 0 < length (LogTopics ev) \<and> LogTopics ev ! 0 = h"

text \<open>The two loops; the errors are collected, the events that can be decoded are applied.\<close>

definition update_log ::
    "H256 \<Rightarrow> Config \<Rightarrow> Word \<Rightarrow> SystemConfig \<times> update_error list \<Rightarrow> LogEvent \<Rightarrow> SystemConfig \<times> update_error list" where
  "update_log h cfg l1Time acc ev =
     (if is_config_update h cfg ev then
        (case ProcessSystemConfigUpdateLogEvent h (fst acc) ev cfg l1Time of
           Inl e \<Rightarrow> (fst acc, snd acc @ [e])
         | Inr sysCfg \<Rightarrow> (sysCfg, snd acc))
      else acc)"

definition UpdateSystemConfigWithL1Receipts ::
    "H256 \<Rightarrow> SystemConfig \<Rightarrow> Receipt list \<Rightarrow> Config \<Rightarrow> Word \<Rightarrow> SystemConfig \<times> update_error list" where
  "UpdateSystemConfigWithL1Receipts h sysCfg receipts cfg l1Time =
     foldl (\<lambda>acc rec. if RcStatus rec \<noteq> ReceiptStatusSuccessful then acc else foldl (update_log h cfg l1Time) acc (RcLogs rec))
       (sysCfg, []) receipts"

section \<open>What an event means\<close>

datatype ConfigUpdate =
    SetBatcher Addr
  | SetFees H256 H256
  | SetGasLimit Word
  | SetEIP1559 H256
  | SetOperatorFee H256
  | SetSigner "byte list"

fun update_type :: "ConfigUpdate \<Rightarrow> H256" where
  "update_type (SetBatcher a) = SystemConfigUpdateBatcher"
| "update_type (SetFees ov sc) = SystemConfigUpdateFeeScalars"
| "update_type (SetGasLimit g) = SystemConfigUpdateGasLimit"
| "update_type (SetEIP1559 p) = SystemConfigUpdateEIP1559Params"
| "update_type (SetOperatorFee p) = SystemConfigUpdateOperatorFeeParams"
| "update_type (SetSigner dat) = SystemConfigUpdateUnsafeBlockSigner"

fun update_data :: "ConfigUpdate \<Rightarrow> byte list" where
  "update_data (SetBatcher a) = WriteUint64 32 @ WriteUint64 32 @ WriteAddress a"
| "update_data (SetFees ov sc) = WriteUint64 32 @ WriteUint64 64 @ WriteEthBytes32 ov @ WriteEthBytes32 sc"
| "update_data (SetGasLimit g) = WriteUint64 32 @ WriteUint64 32 @ WriteUint64 g"
| "update_data (SetEIP1559 p) = WriteUint64 32 @ WriteUint64 32 @ WriteEthBytes32 p"
| "update_data (SetOperatorFee p) = WriteUint64 32 @ WriteUint64 32 @ WriteEthBytes32 p"
| "update_data (SetSigner dat) = dat"

fun apply_update :: "bool \<Rightarrow> ConfigUpdate \<Rightarrow> SystemConfig \<Rightarrow> SystemConfig" where
  "apply_update ecotone (SetBatcher a) c = c\<lparr>BatcherAddr := a\<rparr>"
| "apply_update ecotone (SetFees ov sc) c =
     (if \<not> ecotone then c\<lparr>Overhead := ov, Scalar := sc\<rparr>
      else if CheckEcotoneL1SystemConfigScalar sc = None then c\<lparr>Overhead := 0, Scalar := sc\<rparr> else c)"
| "apply_update ecotone (SetGasLimit g) c = c\<lparr>GasLimit := g\<rparr>"
| "apply_update ecotone (SetEIP1559 p) c = c\<lparr>EIP1559Params := word_be (drop 24 (be_word 32 p))\<rparr>"
| "apply_update ecotone (SetOperatorFee p) c = c\<lparr>OperatorFeeParams := p\<rparr>"
| "apply_update ecotone (SetSigner dat) c = c"

definition config_event :: "H256 \<Rightarrow> ConfigUpdate \<Rightarrow> LogEvent \<Rightarrow> bool" where
  "config_event h u ev \<longleftrightarrow> LogTopics ev = [h, ConfigUpdateEventVersion0, update_type u] \<and> LogData ev = update_data u"

lemma Read_Write [simp]:
  "ReadUint64 (WriteUint64 n @ r) = Some (n, r)" "ReadAddress (WriteAddress a @ r) = Some (a, r)"
  "ReadEthBytes32 (WriteEthBytes32 b @ r) = Some (b, r)"
  by (simp_all add: ReadUint64_Some ReadAddress_Some ReadEthBytes32_Some)

lemma Read_Write_end [simp]:
  "ReadUint64 (WriteUint64 n) = Some (n, [])" "ReadAddress (WriteAddress a) = Some (a, [])"
  "ReadEthBytes32 (WriteEthBytes32 b) = Some (b, [])"
  by (simp_all add: ReadUint64_Some ReadAddress_Some ReadEthBytes32_Some)

lemma read_header_Inr: "read_header len r = Inr r' \<longleftrightarrow> r = WriteUint64 32 @ WriteUint64 len @ r'" (is "?L \<longleftrightarrow> ?R")
proof
  show "?L \<Longrightarrow> ?R" by (auto simp: read_header_def ReadUint64_Some split: option.splits if_splits)
  show "?R \<Longrightarrow> ?L" by (simp add: read_header_def)
qed

lemma read_value_Inr: "read_value rd r = Inr (a, r') \<longleftrightarrow> rd r = Some (a, r')"
  by (simp add: read_value_def split: option.split)

lemmas read_simps = res_simps read_header_Inr read_value_Inr ReadAddress_Some ReadUint64_Some ReadEthBytes32_Some EmptyReader_def

lemma Process_encoded:
  assumes "config_event h u ev"
  shows "ProcessSystemConfigUpdateLogEvent h c ev cfg t = Inr (apply_update (IsEcotone cfg t) u c)"
proof -
  have hd: "read_header len (WriteUint64 32 @ WriteUint64 len @ r) = Inr r" for len r by (simp add: read_header_Inr)
  show ?thesis
    using assms by (cases u) (simp_all add: config_event_def ProcessSystemConfigUpdateLogEvent_def hd read_value_def EmptyReader_def
      split: option.split)
qed

lemma Process_decodes:
  assumes "ProcessSystemConfigUpdateLogEvent h c ev cfg t = Inr c'"
  shows "\<exists>u. config_event h u ev \<and> c' = apply_update (IsEcotone cfg t) u c"
proof -
  define ty where "ty = LogTopics ev ! 2"
  have top: "LogTopics ev = [h, 0, ty]"
    using assms by (auto simp: ProcessSystemConfigUpdateLogEvent_def numeral_3_eq_3 length_Suc_conv ty_def split: if_splits)
  note run = assms [unfolded ProcessSystemConfigUpdateLogEvent_def top Let_def]
  have found: ?thesis if "update_type u = ty" "LogData ev = update_data u" for u
  proof -
    have "config_event h u ev" using that by (simp add: config_event_def top)
    then show ?thesis using Process_encoded [of h u ev c cfg t] assms by auto
  qed
  consider "ty = 0" | "ty = 1" | "ty = 2" | "ty = 3" | "ty = 4" | "ty = 5" | "ty \<notin> {0, 1, 2, 3, 4, 5}" by blast
  then show ?thesis
  proof cases
    case 1
    with run obtain a where "LogData ev = update_data (SetBatcher a)" by (auto simp: read_simps split: if_splits)
    then show ?thesis using 1 by (intro found [of "SetBatcher a"]) simp_all
  next
    case 2
    with run obtain ov sc where "LogData ev = update_data (SetFees ov sc)" by (auto simp: read_simps split: if_splits)
    then show ?thesis using 2 by (intro found [of "SetFees ov sc"]) simp_all
  next
    case 3
    with run obtain g where "LogData ev = update_data (SetGasLimit g)" by (auto simp: read_simps split: if_splits)
    then show ?thesis using 3 by (intro found [of "SetGasLimit g"]) simp_all
  next
    case 4
    with run show ?thesis by (intro found [of "SetSigner (LogData ev)"]) simp_all
  next
    case 5
    with run obtain p where "LogData ev = update_data (SetEIP1559 p)"
      by (auto simp: read_simps split: if_splits)
    then show ?thesis using 5 by (intro found [of "SetEIP1559 p"]) simp_all
  next
    case 6
    with run obtain p where "LogData ev = update_data (SetOperatorFee p)"
      by (auto simp: read_simps split: if_splits)
    then show ?thesis using 6 by (intro found [of "SetOperatorFee p"]) simp_all
  next
    case 7
    with run show ?thesis by simp
  qed
qed

section \<open>Properties\<close>

text \<open>C28: A configuration event is applied exactly when it is the ABI encoding of one of the six updates, and the
  system configuration then changes in the field the update names only (an Ecotone fee update with an invalid
  scalar leaves everything as it is); on all other events the configuration is untouched.\<close>

theorem ProcessSystemConfigUpdateLogEvent_exact:
  "ProcessSystemConfigUpdateLogEvent h c ev cfg t = Inr c' \<longleftrightarrow>
     (\<exists>u. config_event h u ev \<and> c' = apply_update (IsEcotone cfg t) u c)"
  using Process_decodes Process_encoded by metis

text \<open>The updates a list of receipts carries, in order.\<close>

definition receipt_updates :: "H256 \<Rightarrow> Config \<Rightarrow> Receipt list \<Rightarrow> LogEvent list" where
  "receipt_updates h cfg receipts = filter (is_config_update h cfg) (concat (map RcLogs (filter (\<lambda>r. RcStatus r = 1) receipts)))"

lemma update_log_filter:
  "foldl (update_log h cfg t) acc evs = foldl (update_log h cfg t) acc (filter (is_config_update h cfg) evs)"
  by (induction evs arbitrary: acc) (simp_all add: update_log_def)

lemma Update_foldl:
  "UpdateSystemConfigWithL1Receipts h c receipts cfg t = foldl (update_log h cfg t) (c, []) (receipt_updates h cfg receipts)"
proof -
  have "foldl (\<lambda>acc rec. if RcStatus rec \<noteq> 1 then acc else foldl (update_log h cfg t) acc (RcLogs rec)) acc rs =
      foldl (update_log h cfg t) acc (concat (map RcLogs (filter (\<lambda>r. RcStatus r = 1) rs)))" for acc rs
    by (induction rs arbitrary: acc) simp_all
  then show ?thesis by (simp add: UpdateSystemConfigWithL1Receipts_def receipt_updates_def flip: update_log_filter)
qed

lemma update_log_events:
  "list_all2 (config_event h) us evs \<Longrightarrow> list_all (is_config_update h cfg) evs \<Longrightarrow>
   foldl (update_log h cfg t) (c, es) evs = (fold (apply_update (IsEcotone cfg t)) us c, es)"
  by (induction us evs arbitrary: c rule: list_all2_induct) (simp_all add: update_log_def Process_encoded)

end
