(* ===== verification/Blob_Codec.thy ===== *)
theory Blob_Codec
  imports Prelude
begin

unbundle bit_operations_syntax

text \<open>
  The encoding of batcher data in EIP-4844 blobs (\<open>op-service/eth/blob.go\<close>).  A blob is a list of \<open>BlobSize\<close> bytes,
  4096 field elements of 32 bytes whose two high-order bits stay zero: each round stores 127 bytes in four elements,
  31 bytes in the low part of each and the other three bytes, in pieces of six bits, in the high-order bytes.
\<close>

section \<open>Encoding\<close>

definition BlobSize :: nat where "BlobSize = 4096 * 32"
definition MaxBlobDataSize :: nat where "MaxBlobDataSize = (4 * 31 + 3) * 1024 - 4"
definition EncodingVersion :: byte where [simp]: "EncodingVersion = 0"
definition Rounds :: nat where "Rounds = 1024"

datatype blob_error =
    ErrBlobInvalidFieldElement nat
  | ErrBlobInvalidEncodingVersion byte
  | ErrBlobInvalidLength "32 word"
  | ErrBlobInputTooLarge
  | ErrBlobExtraneousData nat
  | ErrBlobExtraneousDataFieldElement nat

record EncState =
  readOffset :: nat
  writeOffset :: nat
  blob :: "byte list"

definition read1 :: "byte list \<Rightarrow> EncState \<Rightarrow> byte \<times> EncState" where
  "read1 dat st =
     (if length dat \<le> readOffset st then (0, st)
      else (dat ! readOffset st, st\<lparr>readOffset := readOffset st + 1\<rparr>))"

text \<open>\<open>buf31\<close> is the value returned.\<close>

definition read31 :: "byte list \<Rightarrow> EncState \<Rightarrow> byte list \<times> EncState" where
  "read31 dat st =
     (if length dat \<le> readOffset st then (replicate 31 0, st)
      else let n = min 31 (length dat - readOffset st)
           in (take n (drop (readOffset st) dat) @ replicate (31 - n) 0, st\<lparr>readOffset := readOffset st + n\<rparr>))"

definition write1 :: "byte \<Rightarrow> EncState \<Rightarrow> EncState res" where
  "write1 v st =
     (if writeOffset st mod 32 \<noteq> 0 then Inl InvalidByteOffset
      else if v AND 0xC0 \<noteq> 0 then Inl InvalidSixBits
      else if length (blob st) \<le> writeOffset st then Inl IndexOutOfRange
      else Inr (st\<lparr>blob := (blob st)[writeOffset st := v], writeOffset := writeOffset st + 1\<rparr>))"

definition write31 :: "byte list \<Rightarrow> EncState \<Rightarrow> EncState res" where
  "write31 buf31 st =
     (if writeOffset st mod 32 \<noteq> 1 then Inl InvalidChunkOffset
      else if length (blob st) < writeOffset st then Inl IndexOutOfRange
      else Inr (st\<lparr>blob := copy_at (writeOffset st) buf31 (blob st), writeOffset := writeOffset st + 31\<rparr>))"

definition write_element :: "byte \<Rightarrow> byte list \<Rightarrow> EncState \<Rightarrow> EncState res" where
  "write_element v buf31 st = bind_res (write1 v st) (write31 buf31)"

text \<open>The version and the length of the data, which start the first field element.\<close>

definition length_header :: "byte list \<Rightarrow> byte list" where
  "length_header dat =
     (let ilen = of_nat (length dat) :: 32 word
      in [EncodingVersion, ucast (drop_bit 16 ilen), ucast (drop_bit 8 ilen), ucast ilen])"

definition first31 :: "byte list \<Rightarrow> EncState \<Rightarrow> byte list \<times> EncState" where
  "first31 dat st =
     (let n = min 27 (length dat)
      in (length_header dat @ take n dat @ replicate (27 - n) 0, st\<lparr>readOffset := readOffset st + n\<rparr>))"

definition enc_round :: "byte list \<Rightarrow> nat \<Rightarrow> EncState \<Rightarrow> EncState res" where
  "enc_round dat round st =
     (let (buf31, st) = (if round = 0 then first31 dat st else read31 dat st);
          (x, st) = read1 dat st
      in bind_res (write_element (x AND 0x3F) buf31 st) (\<lambda>st.
      let (buf31, st) = read31 dat st;
          (y, st) = read1 dat st
      in bind_res (write_element ((y AND 0x0F) OR drop_bit 2 (x AND 0xC0)) buf31 st) (\<lambda>st.
      let (buf31, st) = read31 dat st;
          (z, st) = read1 dat st
      in bind_res (write_element (z AND 0x3F) buf31 st) (\<lambda>st.
      let (buf31, st) = read31 dat st
      in write_element (drop_bit 2 (z AND 0xC0) OR drop_bit 4 (y AND 0xF0)) buf31 st))))"

text \<open>The loop with \<open>n\<close> rounds to go.\<close>

fun enc_loop :: "byte list \<Rightarrow> nat \<Rightarrow> EncState \<Rightarrow> EncState res" where
  "enc_loop dat 0 st = Inr st"
| "enc_loop dat (Suc n) st =
     (if readOffset st < length dat then bind_res (enc_round dat (Rounds - Suc n) st) (enc_loop dat n) else Inr st)"

definition FromData :: "byte list \<Rightarrow> (blob_error + byte list) res" where
  "FromData dat =
     (if MaxBlobDataSize < length dat then Inr (Inl ErrBlobInputTooLarge)
      else bind_res (enc_loop dat Rounds \<lparr>readOffset = 0, writeOffset = 0, blob = replicate BlobSize 0\<rparr>) (\<lambda>st.
           if readOffset st < length dat then Inl DataDidNotFit else Inr (Inr (blob st))))"

section \<open>Decoding\<close>

definition decodeFieldElement :: "byte list \<Rightarrow> nat \<Rightarrow> nat \<Rightarrow> byte list \<Rightarrow> blob_error + byte \<times> nat \<times> nat \<times> byte list" where
  "decodeFieldElement b opos ipos output =
     (if (b ! ipos) AND 0xC0 \<noteq> 0 then Inl (ErrBlobInvalidFieldElement ipos)
      else Inr (b ! ipos, opos + 32, ipos + 32, copy_at opos (take 31 (drop (ipos + 1) b)) output))"

definition reassembleBytes :: "nat \<Rightarrow> byte \<times> byte \<times> byte \<times> byte \<Rightarrow> byte list \<Rightarrow> nat \<times> byte list" where
  "reassembleBytes opos encodedByte output =
     (let (e0, e1, e2, e3) = encodedByte;
          opos = opos - 1;
          x = (e0 AND 0x3F) OR push_bit 2 (e1 AND 0x30);
          y = (e1 AND 0x0F) OR push_bit 4 (e3 AND 0x0F);
          z = (e2 AND 0x3F) OR push_bit 2 (e3 AND 0x30)
      in (opos, output[opos - 32 := z, opos - 32 * 2 := y, opos - 32 * 3 := x]))"

text \<open>The three field elements after the first of a round, and the reassembly.\<close>

definition dec_rest :: "byte list \<Rightarrow> byte \<Rightarrow> nat \<Rightarrow> nat \<Rightarrow> byte list \<Rightarrow> blob_error + nat \<times> nat \<times> byte list" where
  "dec_rest b e0 opos ipos output =
     bind_res (decodeFieldElement b opos ipos output) (\<lambda>(e1, opos, ipos, output).
     bind_res (decodeFieldElement b opos ipos output) (\<lambda>(e2, opos, ipos, output).
     bind_res (decodeFieldElement b opos ipos output) (\<lambda>(e3, opos, ipos, output).
     let (opos, output) = reassembleBytes opos (e0, e1, e2, e3) output in Inr (opos, ipos, output))))"

definition dec_round :: "byte list \<Rightarrow> nat \<Rightarrow> nat \<Rightarrow> byte list \<Rightarrow> blob_error + nat \<times> nat \<times> byte list" where
  "dec_round b opos ipos output =
     bind_res (decodeFieldElement b opos ipos output) (\<lambda>(e0, opos, ipos, output). dec_rest b e0 opos ipos output)"

text \<open>The loop over the rounds after the first, \<open>n\<close> of them to go.\<close>

fun dec_loop :: "byte list \<Rightarrow> nat \<Rightarrow> nat \<Rightarrow> nat \<Rightarrow> nat \<Rightarrow> byte list \<Rightarrow> blob_error + nat \<times> nat \<times> byte list" where
  "dec_loop b outputLen 0 opos ipos output = Inr (opos, ipos, output)"
| "dec_loop b outputLen (Suc n) opos ipos output =
     (if opos < outputLen then
        bind_res (dec_round b opos ipos output) (\<lambda>(opos, ipos, output). dec_loop b outputLen n opos ipos output)
      else Inr (opos, ipos, output))"

definition output_length :: "byte list \<Rightarrow> 32 word" where
  "output_length b = push_bit 16 (ucast (b ! 2)) OR push_bit 8 (ucast (b ! 3)) OR ucast (b ! 4)"

definition ToData :: "byte list \<Rightarrow> blob_error + byte list" where
  "ToData b =
     (if b ! 1 \<noteq> EncodingVersion then Inl (ErrBlobInvalidEncodingVersion (b ! 1))
      else if of_nat MaxBlobDataSize < output_length b then Inl (ErrBlobInvalidLength (output_length b))
      else
        let outputLen = unat (output_length b);
            output = copy_at 0 (take 27 (drop 5 b)) (replicate MaxBlobDataSize 0)
        in bind_res (dec_rest b (b ! 0) 28 32 output) (\<lambda>(opos, ipos, output).
           bind_res (dec_loop b outputLen (Rounds - 1) opos ipos output) (\<lambda>(opos, ipos, output).
           if \<not> list_all (\<lambda>v. v = 0) (drop outputLen output) then Inl (ErrBlobExtraneousDataFieldElement (opos div 32))
           else (case find (\<lambda>i. b ! i \<noteq> 0) [ipos..<BlobSize] of
                   Some i \<Rightarrow> Inl (ErrBlobExtraneousData i)
                 | None \<Rightarrow> Inr (take outputLen output)))))"

section \<open>Rounds as functions of 127 and 128 bytes\<close>

definition enc_chunk :: "byte list \<Rightarrow> byte list" where
  "enc_chunk c =
     (let x = c ! 31; y = c ! 63; z = c ! 95
      in (x AND 0x3F) # take 31 c @ ((y AND 0x0F) OR drop_bit 2 (x AND 0xC0)) # take 31 (drop 32 c) @
         (z AND 0x3F) # take 31 (drop 64 c) @ (drop_bit 2 (z AND 0xC0) OR drop_bit 4 (y AND 0xF0)) # take 31 (drop 96 c))"

definition dec_chunk :: "byte list \<Rightarrow> byte list" where
  "dec_chunk e =
     (let e0 = e ! 0; e1 = e ! 32; e2 = e ! 64; e3 = e ! 96
      in take 31 (drop 1 e) @ ((e0 AND 0x3F) OR push_bit 2 (e1 AND 0x30)) # take 31 (drop 33 e) @
         ((e1 AND 0x0F) OR push_bit 4 (e3 AND 0x0F)) # take 31 (drop 65 e) @
         ((e2 AND 0x3F) OR push_bit 2 (e3 AND 0x30)) # take 31 (drop 97 e))"

lemma length_enc_chunk [simp]: "length c = 127 \<Longrightarrow> length (enc_chunk c) = 128"
  by (simp add: enc_chunk_def Let_def)

lemma length_dec_chunk [simp]: "length e = 128 \<Longrightarrow> length (dec_chunk e) = 127"
  by (simp add: dec_chunk_def Let_def)

text \<open>The parts of a chunk.\<close>

lemma enc_chunk_parts:
  assumes "length a = 31" "length b = 31" "length c = 31" "length d = 31"
  shows "enc_chunk (a @ x # b @ y # c @ z # d) =
    (x AND 0x3F) # a @ ((y AND 0x0F) OR drop_bit 2 (x AND 0xC0)) # b @ (z AND 0x3F) # c @
    (drop_bit 2 (z AND 0xC0) OR drop_bit 4 (y AND 0xF0)) # d"
  using assms by (simp add: enc_chunk_def nth_append Let_def)

lemma dec_chunk_parts:
  assumes "length a = 31" "length b = 31" "length c = 31" "length d = 31"
  shows "dec_chunk (e0 # a @ e1 # b @ e2 # c @ e3 # d) =
    a @ ((e0 AND 0x3F) OR push_bit 2 (e1 AND 0x30)) # b @ ((e1 AND 0x0F) OR push_bit 4 (e3 AND 0x0F)) # c @
    ((e2 AND 0x3F) OR push_bit 2 (e3 AND 0x30)) # d"
  using assms by (simp add: dec_chunk_def nth_append nth_Cons' Let_def)

lemma split_at: "n < length xs \<Longrightarrow> xs = take n xs @ xs ! n # drop (Suc n) xs"
  by (simp add: id_take_nth_drop)

lemma parts127:
  assumes "length c = (127::nat)"
  obtains a x b y d z e where "c = a @ x # b @ y # d @ z # e" "length a = 31" "length b = 31" "length d = 31" "length e = 31"
proof -
  have "c = take 31 c @ c ! 31 # take 31 (drop 32 c) @ c ! 63 # take 31 (drop 64 c) @ c ! 95 # drop 96 c"
    using assms split_at [of 31 c] split_at [of 31 "drop 32 c"] split_at [of 31 "drop 64 c"] by simp
  then show thesis by (rule that) (use assms in simp_all)
qed

lemma parts128:
  assumes "length c = (128::nat)"
  obtains e0 a e1 b e2 d e3 e where "c = e0 # a @ e1 # b @ e2 # d @ e3 # e" "length a = 31" "length b = 31" "length d = 31" "length e = 31"
proof -
  from assms obtain e0 c' where c: "c = e0 # c'" "length c' = 127" by (cases c) auto
  from c(2) show thesis by (rule parts127) (use that c(1) in blast)
qed

lemma byte_bits: "P 0 \<and> P 1 \<and> P 2 \<and> P 3 \<and> P 4 \<and> P 5 \<and> P 6 \<and> P 7 \<Longrightarrow> n < 8 \<Longrightarrow> P n" for P :: "nat \<Rightarrow> bool"
  by (auto simp: less_Suc_eq numeral_eq_Suc)

lemma six_bits: "(v AND 0x3F) AND 0xC0 = (0 :: byte)" "((y AND 0x0F) OR drop_bit 2 (x AND 0xC0)) AND 0xC0 = (0 :: byte)"
  "(drop_bit 2 (z AND 0xC0) OR drop_bit 4 (y AND 0xF0)) AND 0xC0 = (0 :: byte)"
  by (rule bit_word_eqI, simp, drule byte_bits [rotated], auto simp: bit_simps)+

lemma join_bits:
  "((x AND 0x3F) AND 0x3F) OR push_bit 2 (((y AND 0x0F) OR drop_bit 2 (x AND 0xC0)) AND 0x30) = (x :: byte)"
  "(((y AND 0x0F) OR drop_bit 2 (x AND 0xC0)) AND 0x0F) OR push_bit 4 ((drop_bit 2 (z AND 0xC0) OR drop_bit 4 (y AND 0xF0)) AND 0x0F) = (y :: byte)"
  "((z AND 0x3F) AND 0x3F) OR push_bit 2 ((drop_bit 2 (z AND 0xC0) OR drop_bit 4 (y AND 0xF0)) AND 0x30) = (z :: byte)"
  by (rule bit_word_eqI, simp, drule byte_bits [rotated], auto simp: bit_simps)+

lemma split_bits:
  "((e0 AND 0x3F) OR push_bit 2 (e1 AND 0x30)) AND 0x3F = (e0 :: byte) AND 0x3F"
  "(((e1 AND 0x0F) OR push_bit 4 (e3 AND 0x0F)) AND 0x0F) OR drop_bit 2 (((e0 AND 0x3F) OR push_bit 2 (e1 AND 0x30)) AND 0xC0) = (e1 :: byte) AND 0x3F"
  "((e2 AND 0x3F) OR push_bit 2 (e3 AND 0x30)) AND 0x3F = (e2 :: byte) AND 0x3F"
  "drop_bit 2 (((e2 AND 0x3F) OR push_bit 2 (e3 AND 0x30)) AND 0xC0) OR drop_bit 4 (((e1 AND 0x0F) OR push_bit 4 (e3 AND 0x0F)) AND 0xF0) = (e3 :: byte) AND 0x3F"
  by (rule bit_word_eqI, simp, drule byte_bits [rotated], auto simp: bit_simps)+

lemma high_bits: "(v AND 0xC0 = 0) = (v AND 0x3F = (v :: byte))"
proof -
  have "v = (v AND 0xC0) OR (v AND 0x3F)"
    by (rule bit_word_eqI, simp, drule byte_bits [rotated], auto simp: bit_simps)
  then show ?thesis using six_bits(1) [of v] by (metis or.left_neutral)
qed

lemma dec_enc_chunk [simp]: "length c = 127 \<Longrightarrow> dec_chunk (enc_chunk c) = c"
  by (erule parts127) (simp only: enc_chunk_parts dec_chunk_parts join_bits)

definition clear_high :: "byte list \<Rightarrow> byte list" where
  "clear_high e = e[0 := e ! 0 AND 0x3F, 32 := e ! 32 AND 0x3F, 64 := e ! 64 AND 0x3F, 96 := e ! 96 AND 0x3F]"

lemma list_update_numeral: "(x # xs)[numeral v := y] = x # xs[pred_numeral v := y]"
  by (simp add: numeral_eq_Suc)

lemma clear_high_parts:
  assumes "length a = 31" "length b = 31" "length c = 31" "length d = 31"
  shows "clear_high (e0 # a @ e1 # b @ e2 # c @ e3 # d) =
    (e0 AND 0x3F) # a @ (e1 AND 0x3F) # b @ (e2 AND 0x3F) # c @ (e3 AND 0x3F) # d"
  using assms by (simp add: clear_high_def nth_append list_update_append list_update_numeral)

lemma enc_dec_chunk: "length e = 128 \<Longrightarrow> enc_chunk (dec_chunk e) = clear_high e"
  by (erule parts128) (simp only: enc_chunk_parts dec_chunk_parts split_bits clear_high_parts)

section \<open>The padded data\<close>

definition padded :: "byte list \<Rightarrow> byte list" where
  "padded dat = dat @ replicate (MaxBlobDataSize - length dat) 0"

text \<open>What a blob stores: the header, the data and zeros.\<close>

definition payload :: "byte list \<Rightarrow> byte list" where
  "payload dat = length_header dat @ padded dat"

definition nth_chunk :: "nat \<Rightarrow> nat \<Rightarrow> 'a list \<Rightarrow> 'a list" where
  "nth_chunk n r xs = take n (drop (n * r) xs)"

lemma length_padded: "length dat \<le> MaxBlobDataSize \<Longrightarrow> length (padded dat) = MaxBlobDataSize"
  by (simp add: padded_def)

lemma length_header_length [simp]: "length (length_header dat) = 4"
  by (simp add: length_header_def Let_def)

lemma length_payload: "length dat \<le> MaxBlobDataSize \<Longrightarrow> length (payload dat) = 127 * 1024"
  by (simp add: payload_def length_padded MaxBlobDataSize_def)

lemma read1_padded:
  assumes "length dat \<le> MaxBlobDataSize" "q < MaxBlobDataSize" "readOffset st = min (length dat) q"
  shows "read1 dat st = (padded dat ! q, st\<lparr>readOffset := min (length dat) (q + 1)\<rparr>)"
  using assms by (auto simp: read1_def padded_def nth_append min_def)

lemma read31_padded:
  assumes "length dat \<le> MaxBlobDataSize" "q + 31 \<le> MaxBlobDataSize" "readOffset st = min (length dat) q"
  shows "read31 dat st = (take 31 (drop q (padded dat)), st\<lparr>readOffset := min (length dat) (q + 31)\<rparr>)"
proof (cases "length dat \<le> q")
  case True
  then show ?thesis using assms by (simp add: read31_def padded_def min_def)
next
  case False
  then show ?thesis
    using assms by (auto simp: read31_def padded_def min_def Let_def)
qed

lemma first31_padded:
  assumes "length dat \<le> MaxBlobDataSize" "readOffset st = 0"
  shows "first31 dat st = (take 31 (payload dat), st\<lparr>readOffset := min (length dat) 27\<rparr>)"
proof -
  have "MaxBlobDataSize = 130044" by (simp add: MaxBlobDataSize_def)
  then show ?thesis using assms by (auto simp: first31_def payload_def padded_def Let_def min_def)
qed

lemma write_element_at:
  assumes "writeOffset st mod 32 = 0" "v AND 0xC0 = 0" "length buf = 31" "writeOffset st + 32 \<le> length (blob st)"
  shows "write_element v buf st =
    Inr (st\<lparr>blob := take (writeOffset st) (blob st) @ v # buf @ drop (writeOffset st + 32) (blob st),
            writeOffset := writeOffset st + 32\<rparr>)"
proof -
  have "(writeOffset st + 1) mod 32 = 1" using assms(1) by presburger
  moreover have "copy_at (writeOffset st + 1) buf ((blob st)[writeOffset st := v]) =
      take (writeOffset st) (blob st) @ v # buf @ drop (writeOffset st + 32) (blob st)"
    using assms(3,4) by (simp add: copy_at_def upd_conv_take_nth_drop take_Suc_conv_app_nth min_def)
      (simp add: add.commute)
  ultimately show ?thesis using assms by (simp add: write_element_def write1_def write31_def)
qed

lemma write_element_zero:
  assumes "length pre mod 32 = 0" "v AND 0xC0 = 0" "length buf = 31" "32 \<le> n"
  shows "write_element v buf \<lparr>readOffset = q, writeOffset = length pre, blob = pre @ replicate n 0\<rparr> =
    Inr \<lparr>readOffset = q, writeOffset = length (pre @ v # buf), blob = (pre @ v # buf) @ replicate (n - 32) 0\<rparr>"
  using assms by (subst write_element_at) simp_all

lemma padded_payload: "padded dat ! q = payload dat ! (q + 4)" "drop q (padded dat) = drop (q + 4) (payload dat)"
  by (simp_all add: payload_def nth_append)

lemma read1_at:
  assumes "length dat \<le> MaxBlobDataSize" "q < MaxBlobDataSize"
  shows "read1 dat \<lparr>readOffset = min (length dat) q, writeOffset = w, blob = b\<rparr> =
    (payload dat ! (q + 4), \<lparr>readOffset = min (length dat) (q + 1), writeOffset = w, blob = b\<rparr>)"
  using assms by (simp add: read1_padded padded_payload)

lemma read31_at:
  assumes "length dat \<le> MaxBlobDataSize" "q + 31 \<le> MaxBlobDataSize"
  shows "read31 dat \<lparr>readOffset = min (length dat) q, writeOffset = w, blob = b\<rparr> =
    (take 31 (drop (q + 4) (payload dat)), \<lparr>readOffset = min (length dat) (q + 31), writeOffset = w, blob = b\<rparr>)"
  using assms by (simp add: read31_padded padded_payload)

lemma first_at:
  assumes "length dat \<le> MaxBlobDataSize" "r < 1024"
  shows "(if r = 0 then first31 dat else read31 dat) \<lparr>readOffset = min (length dat) (127 * r - 4), writeOffset = w, blob = b\<rparr> =
    (take 31 (drop (127 * r) (payload dat)), \<lparr>readOffset = min (length dat) (127 * r + 27), writeOffset = w, blob = b\<rparr>)"
proof (cases r)
  case 0
  then show ?thesis using assms by (simp add: first31_padded)
next
  case (Suc k)
  then have "127 * r - 4 + 31 \<le> MaxBlobDataSize" "127 * r - 4 + 31 = 127 * r + 27" "127 * r - 4 + 4 = 127 * r"
    using assms(2) by (simp_all add: MaxBlobDataSize_def)
  then show ?thesis using Suc read31_at [OF assms(1), of "127 * r - 4"] by simp
qed

lemma nth_chunk_parts:
  assumes "length xs = 127 * 1024" "r < 1024"
  shows "enc_chunk (nth_chunk 127 r xs) =
    (let k = 127 * r; x = xs ! (k + 31); y = xs ! (k + 63); z = xs ! (k + 95)
     in (x AND 0x3F) # take 31 (drop k xs) @ ((y AND 0x0F) OR drop_bit 2 (x AND 0xC0)) # take 31 (drop (k + 32) xs) @
        (z AND 0x3F) # take 31 (drop (k + 64) xs) @ (drop_bit 2 (z AND 0xC0) OR drop_bit 4 (y AND 0xF0)) # take 31 (drop (k + 96) xs))"
proof -
  have "127 * r + 127 \<le> length xs" using assms by simp
  then show ?thesis
    by (simp add: enc_chunk_def nth_chunk_def Let_def drop_take min_def add.commute)
qed

lemma enc_round_at:
  assumes dat: "length dat \<le> MaxBlobDataSize" and r: "r < 1024" and pre: "length pre = 128 * r" and n: "128 \<le> n"
  shows "enc_round dat r \<lparr>readOffset = min (length dat) (127 * r - 4), writeOffset = length pre, blob = pre @ replicate n 0\<rparr> =
    Inr \<lparr>readOffset = min (length dat) (127 * r + 123), writeOffset = length (pre @ enc_chunk (nth_chunk 127 r (payload dat))),
         blob = (pre @ enc_chunk (nth_chunk 127 r (payload dat))) @ replicate (n - 128) 0\<rparr>"
proof -
  define k where "k = 127 * r"
  define P where "P = payload dat"
  define x y z where xyz: "x = P ! (k + 31)" "y = P ! (k + 63)" "z = P ! (k + 95)"
  define b0 b1 b2 b3 where b: "b0 = take 31 (drop k P)" "b1 = take 31 (drop (k + 32) P)" "b2 = take 31 (drop (k + 64) P)"
    "b3 = take 31 (drop (k + 96) P)"
  define p1 where "p1 = pre @ (x AND 0x3F) # b0"
  define p2 where "p2 = p1 @ ((y AND 0x0F) OR drop_bit 2 (x AND 0xC0)) # b1"
  define p3 where "p3 = p2 @ (z AND 0x3F) # b2"
  define p4 where "p4 = p3 @ (drop_bit 2 (z AND 0xC0) OR drop_bit 4 (y AND 0xF0)) # b3"
  note ps = p1_def p2_def p3_def p4_def
  have k: "k + 123 \<le> MaxBlobDataSize" using r by (simp add: k_def MaxBlobDataSize_def)
  have len: "length P = 127 * 1024" unfolding P_def by (rule length_payload [OF dat])
  have long: "k + 127 \<le> length P" using r by (simp add: k_def len)
  have lb: "length b0 = 31" "length b1 = 31" "length b2 = 31" "length b3 = 31" using long by (simp_all add: b)
  have pm: "length pre mod 32 = 0" "length p1 mod 32 = 0" "length p2 mod 32 = 0" "length p3 mod 32 = 0"
    using lb by (simp_all add: pre ps mod_eq_0_iff_dvd)
  let ?st = "\<lambda>q w b. \<lparr>readOffset = min (length dat) q, writeOffset = w, blob = b\<rparr>"
  have first: "(if r = 0 then first31 dat (?st (k - 4) w b) else read31 dat (?st (k - 4) w b)) = (b0, ?st (k + 27) w b)" for w b
    using first_at [OF dat r, of w b] by (cases "r = 0") (simp_all add: k_def P_def b)
  have rd: "read1 dat (?st (k + 27) w b) = (x, ?st (k + 28) w b)" "read31 dat (?st (k + 28) w b) = (b1, ?st (k + 59) w b)"
    "read1 dat (?st (k + 59) w b) = (y, ?st (k + 60) w b)" "read31 dat (?st (k + 60) w b) = (b2, ?st (k + 91) w b)"
    "read1 dat (?st (k + 91) w b) = (z, ?st (k + 92) w b)" "read31 dat (?st (k + 92) w b) = (b3, ?st (k + 123) w b)" for w b
    using k read1_at [OF dat, of "k + 27"] read31_at [OF dat, of "k + 28"] read1_at [OF dat, of "k + 59"]
      read31_at [OF dat, of "k + 60"] read1_at [OF dat, of "k + 91"] read31_at [OF dat, of "k + 92"]
    by (simp_all add: xyz b ac_simps flip: P_def)
  have wr: "write_element (x AND 0x3F) b0 (?st q (length pre) (pre @ replicate n 0)) = Inr (?st q (length p1) (p1 @ replicate (n - 32) 0))"
    "write_element ((y AND 0x0F) OR drop_bit 2 (x AND 0xC0)) b1 (?st q (length p1) (p1 @ replicate (n - 32) 0)) =
      Inr (?st q (length p2) (p2 @ replicate (n - 32 - 32) 0))"
    "write_element (z AND 0x3F) b2 (?st q (length p2) (p2 @ replicate (n - 32 - 32) 0)) =
      Inr (?st q (length p3) (p3 @ replicate (n - 32 - 32 - 32) 0))"
    "write_element (drop_bit 2 (z AND 0xC0) OR drop_bit 4 (y AND 0xF0)) b3 (?st q (length p3) (p3 @ replicate (n - 32 - 32 - 32) 0)) =
      Inr (?st q (length p4) (p4 @ replicate (n - 32 - 32 - 32 - 32) 0))" for q
    unfolding p1_def p2_def p3_def p4_def
    by (rule write_element_zero; (rule six_bits | rule lb | rule pm [unfolded ps] | use n in simp))+
  have p4: "pre @ enc_chunk (nth_chunk 127 r P) = p4"
    unfolding nth_chunk_parts [OF len r] by (simp add: Let_def ps xyz b k_def)
  have zeros: "n - 32 - 32 - 32 - 32 = n - 128" by simp
  show ?thesis
    unfolding enc_round_def P_def [symmetric] k_def [symmetric] first p4
    by (simp only: Let_def prod.case rd wr bind_res_Inr zeros)
qed

section \<open>The encoding of any data that fits\<close>

definition encoded_to :: "nat \<Rightarrow> byte list \<Rightarrow> byte list" where
  "encoded_to r dat = concat (map (\<lambda>i. enc_chunk (nth_chunk 127 i (payload dat))) [0..<r])"

lemma length_nth_chunk: "n * (r + 1) \<le> length xs \<Longrightarrow> length (nth_chunk n r xs) = n"
  by (simp add: nth_chunk_def)

lemma length_chunks: "(\<And>x. x \<in> set xs \<Longrightarrow> length (f x) = n) \<Longrightarrow> length (concat (map f xs)) = n * length xs"
  by (induction xs) simp_all

lemma length_encoded_to:
  assumes "length dat \<le> MaxBlobDataSize" "r \<le> 1024"
  shows "length (encoded_to r dat) = 128 * r"
proof -
  have "length (enc_chunk (nth_chunk 127 i (payload dat))) = 128" if "i < r" for i
    using that assms by (intro length_enc_chunk length_nth_chunk) (simp add: length_payload)
  then show ?thesis unfolding encoded_to_def by (subst length_chunks [where n = 128]) auto
qed

lemma enc_chunk_zero [simp]: "enc_chunk (replicate 127 0) = replicate 128 0"
proof -
  have r: "replicate 127 (0 :: byte) = replicate 31 0 @ 0 # replicate 31 0 @ 0 # replicate 31 0 @ 0 # replicate 31 0"
    by (simp flip: replicate_Suc replicate_add)
  show ?thesis unfolding r by (subst enc_chunk_parts) (simp_all flip: replicate_Suc replicate_add)
qed

lemma payload_zero:
  assumes "length dat \<le> MaxBlobDataSize" "length dat \<le> q - 4" "q \<noteq> 0 \<Longrightarrow> 4 \<le> q" "q \<le> 127 * 1024"
  shows "drop q (payload dat) = replicate (127 * 1024 - q) 0"
proof (cases "q = 0")
  case True
  then have "dat = []" using assms(2) by simp
  moreover have "length_header [] = replicate 4 0" by (simp add: length_header_def Let_def eval_nat_numeral)
  ultimately show ?thesis using True by (simp add: payload_def padded_def MaxBlobDataSize_def flip: replicate_add)
next
  case False
  then show ?thesis using assms by (simp add: payload_def padded_def MaxBlobDataSize_def)
qed

lemma encoded_rest:
  assumes dat: "length dat \<le> MaxBlobDataSize" and r: "length dat \<le> 127 * r - 4" "r \<le> 1024"
  shows "encoded_to 1024 dat = encoded_to r dat @ replicate (BlobSize - 128 * r) 0"
proof -
  have zero: "enc_chunk (nth_chunk 127 i (payload dat)) = replicate 128 0" if "r \<le> i" "i < 1024" for i
  proof -
    have "127 * i + 127 \<le> 127 * 1024" using that(2) by simp
    moreover have "drop (127 * i) (payload dat) = replicate (127 * 1024 - 127 * i) 0"
      using that r(1) dat by (intro payload_zero) auto
    ultimately have "nth_chunk 127 i (payload dat) = replicate 127 0" by (simp add: nth_chunk_def min_def)
    then show ?thesis by simp
  qed
  have rest: "concat (map (\<lambda>i. enc_chunk (nth_chunk 127 i (payload dat))) [r..<m]) = replicate (128 * (m - r)) 0"
    if "r \<le> m" "m \<le> 1024" for m
    using that
  proof (induction m)
    case (Suc m)
    then show ?case
    proof (cases "r \<le> m")
      case True
      then have "Suc m - r = Suc (m - r)" by simp
      then show ?thesis using True Suc zero [of m] by (simp flip: replicate_add)
    qed (auto simp: le_Suc_eq)
  qed simp
  have "[0..<m] = [0..<r] @ [r..<m]" if "r \<le> m" for m
    using upt_add_eq_append [of 0 r "m - r"] that by simp
  from this [OF r(2)] have "encoded_to 1024 dat = encoded_to r dat @ replicate (128 * (1024 - r)) 0"
    unfolding encoded_to_def using rest [of 1024] r(2) by (simp del: upt_rec_numeral)
  then show ?thesis by (simp add: BlobSize_def diff_mult_distrib2)
qed

lemma enc_loop_at:
  assumes dat: "length dat \<le> MaxBlobDataSize"
  shows "n + r = 1024 \<Longrightarrow>
    \<exists>w. enc_loop dat n \<lparr>readOffset = min (length dat) (127 * r - 4), writeOffset = 128 * r,
        blob = encoded_to r dat @ replicate (BlobSize - 128 * r) 0\<rparr> =
      Inr \<lparr>readOffset = length dat, writeOffset = w, blob = encoded_to 1024 dat\<rparr>"
proof (induction n arbitrary: r)
  case 0
  then show ?case using dat by (simp add: MaxBlobDataSize_def BlobSize_def)
next
  case (Suc n)
  have r: "r < 1024" "Rounds - Suc n = r" using Suc.prems by (simp_all add: Rounds_def)
  have len: "length (encoded_to r dat) = 128 * r" using length_encoded_to [OF dat] r(1) by simp
  show ?case
  proof (cases "length dat \<le> 127 * r - 4")
    case True
    then show ?thesis using encoded_rest [OF dat True] r(1) by simp
  next
    case False
    have big: "128 \<le> BlobSize - 128 * r" using r(1) by (simp add: BlobSize_def)
    have next_len: "length (encoded_to (Suc r) dat) = 128 * Suc r" using length_encoded_to [OF dat] r(1) by simp
    have next_rd: "127 * r + 123 = 127 * Suc r - 4" "BlobSize - 128 * r - 128 = BlobSize - 128 * Suc r" by simp_all
    have step: "encoded_to r dat @ enc_chunk (nth_chunk 127 r (payload dat)) = encoded_to (Suc r) dat" by (simp add: encoded_to_def)
    note round = enc_round_at [OF dat r(1) len big, unfolded step next_len len next_rd]
    have cond: "min (length dat) (127 * r - 4) < length dat" using False by simp
    have "Suc r + n = 1024" using Suc.prems by simp
    then show ?thesis
      using Suc.IH [of "Suc r"] by (simp only: enc_loop.simps EncState.simps cond if_True r(2) round bind_res_Inr add.commute [of n])
  qed
qed

lemma FromData_eq:
  "FromData dat = (if MaxBlobDataSize < length dat then Inr (Inl ErrBlobInputTooLarge) else Inr (Inr (encoded_to 1024 dat)))"
proof (cases "length dat \<le> MaxBlobDataSize")
  case True
  from enc_loop_at [OF True, of 1024 0] show ?thesis
    using True by (auto simp: FromData_def Rounds_def encoded_to_def not_less)
next
  case False
  then show ?thesis by (simp add: FromData_def)
qed

section \<open>Chunks of a list\<close>

lemma concat_chunks: "concat (map (\<lambda>i. nth_chunk n i xs) [0..<m]) = take (n * m) xs"
  by (induction m) (simp_all add: nth_chunk_def take_add add.commute [of n])

lemma nth_chunk_concat:
  assumes "\<And>i. i < m \<Longrightarrow> length (f i) = n" "i < m"
  shows "nth_chunk n i (concat (map f [0..<m]) @ rest) = f i"
proof -
  have len: "length (concat (map f [0..<k])) = n * k" if "k \<le> m" for k
    using length_chunks [of "[0..<k]" f n] that assms(1) by simp
  have "[0..<m] = [0..<i] @ i # [Suc i..<m]" using assms(2) by (metis le0 less_imp_le upt_add_eq_append upt_conv_Cons le_add_diff_inverse)
  then have "concat (map f [0..<m]) @ rest = concat (map f [0..<i]) @ f i @ concat (map f [Suc i..<m]) @ rest" by simp
  then show ?thesis using len [of i] assms by (simp add: nth_chunk_def)
qed

lemma nth_nth_chunk: "j < n \<Longrightarrow> n * (i + 1) \<le> length xs \<Longrightarrow> nth_chunk n i xs ! j = xs ! (n * i + j)"
  by (simp add: nth_chunk_def)

section \<open>Decoding rounds\<close>

definition fields_ok :: "byte list \<Rightarrow> nat \<Rightarrow> bool" where
  "fields_ok b i \<longleftrightarrow> b ! i AND 0xC0 = 0 \<and> b ! (i + 32) AND 0xC0 = 0 \<and> b ! (i + 64) AND 0xC0 = 0"

definition chunk_ok :: "byte list \<Rightarrow> nat \<Rightarrow> bool" where
  "chunk_ok b i \<longleftrightarrow> b ! (128 * i) AND 0xC0 = 0 \<and> fields_ok b (128 * i + 32)"

lemma copy_at_zeros:
  "length src \<le> n \<Longrightarrow> copy_at (length pre) src (pre @ replicate n 0) = (pre @ src) @ replicate (n - length src) 0"
  by (simp add: copy_at_def)

lemma decodeFieldElement_zeros:
  assumes "ipos + 32 \<le> length b" "opos = length pre" "31 \<le> n"
  shows "decodeFieldElement b opos ipos (pre @ replicate n 0) =
    (if b ! ipos AND 0xC0 \<noteq> 0 then Inl (ErrBlobInvalidFieldElement ipos)
     else Inr (b ! ipos, opos + 32, ipos + 32, (pre @ take 31 (drop (ipos + 1) b)) @ replicate (n - 31) 0))"
proof -
  have "length (take 31 (drop (ipos + 1) b)) = 31" using assms(1) by simp
  then show ?thesis using copy_at_zeros [of "take 31 (drop (ipos + 1) b)" n pre] assms by (simp add: decodeFieldElement_def)
qed

lemma dec_rest_zeros:
  assumes ipos: "ipos + 96 \<le> length b" and n: "96 \<le> n"
  shows "dec_rest b e0 (length pre + 1) ipos (pre @ replicate n 0) = Inr res \<longleftrightarrow> fields_ok b ipos \<and>
    res = (length pre + 96, ipos + 96,
       (pre @ ((e0 AND 0x3F) OR push_bit 2 (b ! ipos AND 0x30)) # take 31 (drop (ipos + 1) b) @
        ((b ! ipos AND 0x0F) OR push_bit 4 (b ! (ipos + 64) AND 0x0F)) # take 31 (drop (ipos + 33) b) @
        ((b ! (ipos + 32) AND 0x3F) OR push_bit 2 (b ! (ipos + 64) AND 0x30)) # take 31 (drop (ipos + 65) b)) @ replicate (n - 96) 0)"
proof -
  define a1 a2 a3 where a: "a1 = take 31 (drop (ipos + 1) b)" "a2 = take 31 (drop (ipos + 33) b)" "a3 = take 31 (drop (ipos + 65) b)"
  have la: "length a1 = 31" "length a2 = 31" "length a3 = 31" using ipos by (simp_all add: a)
  have gap: "(p @ replicate k 0) = (p @ [0]) @ replicate (k - 1) (0 :: byte)" if "1 \<le> k" for p k
    using that by (cases k) simp_all
  have s1: "decodeFieldElement b (length pre + 1) ipos (pre @ replicate n 0) =
      (if b ! ipos AND 0xC0 \<noteq> 0 then Inl (ErrBlobInvalidFieldElement ipos)
       else Inr (b ! ipos, length pre + 33, ipos + 32, (pre @ 0 # a1) @ replicate (n - 32) 0))"
    using decodeFieldElement_zeros [of ipos b "length pre + 1" "pre @ [0]" "n - 1"] ipos n gap [of n pre] by (simp add: a)
  have s2: "decodeFieldElement b (length pre + 33) (ipos + 32) ((pre @ 0 # a1) @ replicate (n - 32) 0) =
      (if b ! (ipos + 32) AND 0xC0 \<noteq> 0 then Inl (ErrBlobInvalidFieldElement (ipos + 32))
       else Inr (b ! (ipos + 32), length pre + 65, ipos + 64, (pre @ 0 # a1 @ 0 # a2) @ replicate (n - 64) 0))"
    using decodeFieldElement_zeros [of "ipos + 32" b "length pre + 33" "(pre @ 0 # a1) @ [0]" "n - 33"] ipos n la
      gap [of "n - 32" "pre @ 0 # a1"] by (simp add: a ac_simps)
  have s3: "decodeFieldElement b (length pre + 65) (ipos + 64) ((pre @ 0 # a1 @ 0 # a2) @ replicate (n - 64) 0) =
      (if b ! (ipos + 64) AND 0xC0 \<noteq> 0 then Inl (ErrBlobInvalidFieldElement (ipos + 64))
       else Inr (b ! (ipos + 64), length pre + 97, ipos + 96, (pre @ 0 # a1 @ 0 # a2 @ 0 # a3) @ replicate (n - 96) 0))"
    using decodeFieldElement_zeros [of "ipos + 64" b "length pre + 65" "(pre @ 0 # a1 @ 0 # a2) @ [0]" "n - 65"] ipos n la
      gap [of "n - 64" "pre @ 0 # a1 @ 0 # a2"] by (simp add: a ac_simps)
  have re: "reassembleBytes (length pre + 97) (e0, e1, e2, e3) ((pre @ 0 # a1 @ 0 # a2 @ 0 # a3) @ replicate (n - 96) 0) =
      (length pre + 96, (pre @ ((e0 AND 0x3F) OR push_bit 2 (e1 AND 0x30)) # a1 @ ((e1 AND 0x0F) OR push_bit 4 (e3 AND 0x0F)) # a2 @
        ((e2 AND 0x3F) OR push_bit 2 (e3 AND 0x30)) # a3) @ replicate (n - 96) 0)" for e1 e2 e3
    by (simp add: reassembleBytes_def Let_def list_update_append la list_update_numeral)
  note steps = dec_rest_def s1 s2 s3 bind_res_Inl bind_res_Inr prod.case
  consider "b ! ipos AND 0xC0 \<noteq> 0" | "b ! ipos AND 0xC0 = 0" "b ! (ipos + 32) AND 0xC0 \<noteq> 0"
    | "b ! ipos AND 0xC0 = 0" "b ! (ipos + 32) AND 0xC0 = 0" "b ! (ipos + 64) AND 0xC0 \<noteq> 0" | "fields_ok b ipos"
    unfolding fields_ok_def by blast
  then show ?thesis
  proof cases
    case 1
    then show ?thesis by (simp only: steps fields_ok_def simp_thms if_True sum.distinct)
  next
    case 2
    then show ?thesis by (simp only: steps fields_ok_def simp_thms if_True if_False sum.distinct)
  next
    case 3
    then show ?thesis by (simp only: steps fields_ok_def simp_thms if_True if_False sum.distinct)
  next
    case 4
    then have "dec_rest b e0 (length pre + 1) ipos (pre @ replicate n 0) =
      Inr (length pre + 96, ipos + 96, (pre @ ((e0 AND 0x3F) OR push_bit 2 (b ! ipos AND 0x30)) # a1 @
        ((b ! ipos AND 0x0F) OR push_bit 4 (b ! (ipos + 64) AND 0x0F)) # a2 @
        ((b ! (ipos + 32) AND 0x3F) OR push_bit 2 (b ! (ipos + 64) AND 0x30)) # a3) @ replicate (n - 96) 0)"
      by (simp only: steps re Let_def fields_ok_def simp_thms if_False)
    then show ?thesis using 4 unfolding a by auto
  qed
qed

lemma dec_round_zeros:
  assumes ipos: "ipos + 128 \<le> length b" and n: "127 \<le> n"
  shows "dec_round b (length pre) ipos (pre @ replicate n 0) = Inr res \<longleftrightarrow>
    b ! ipos AND 0xC0 = 0 \<and> fields_ok b (ipos + 32) \<and>
    res = (length pre + 127, ipos + 128, (pre @ dec_chunk (take 128 (drop ipos b))) @ replicate (n - 127) 0)"
proof -
  define a0 where "a0 = take 31 (drop (ipos + 1) b)"
  have la: "length a0 = 31" using ipos by (simp add: a0_def)
  have s1: "decodeFieldElement b (length pre) ipos (pre @ replicate n 0) =
      (if b ! ipos AND 0xC0 \<noteq> 0 then Inl (ErrBlobInvalidFieldElement ipos)
       else Inr (b ! ipos, length (pre @ a0) + 1, ipos + 32, (pre @ a0) @ replicate (n - 31) 0))"
    using decodeFieldElement_zeros [of ipos b "length pre" pre n] ipos n la by (simp add: a0_def)
  have s2: "dec_rest b (b ! ipos) (length (pre @ a0) + 1) (ipos + 32) ((pre @ a0) @ replicate (n - 31) 0) = Inr res \<longleftrightarrow>
      fields_ok b (ipos + 32) \<and> res = (length pre + 127, ipos + 128, (pre @ dec_chunk (take 128 (drop ipos b))) @ replicate (n - 127) 0)"
    using dec_rest_zeros [of "ipos + 32" b "n - 31" "b ! ipos" "pre @ a0"] ipos n la
    by (simp add: dec_chunk_def a0_def Let_def drop_take min_def ac_simps)
  show ?thesis
  proof (cases "b ! ipos AND 0xC0 = 0")
    case True
    then have "dec_round b (length pre) ipos (pre @ replicate n 0) =
        dec_rest b (b ! ipos) (length (pre @ a0) + 1) (ipos + 32) ((pre @ a0) @ replicate (n - 31) 0)"
      by (simp only: dec_round_def s1 simp_thms if_False bind_res_Inr prod.case)
    then show ?thesis using s2 True by simp
  next
    case False
    then show ?thesis by (simp only: dec_round_def s1 simp_thms if_True bind_res_Inl sum.distinct)
  qed
qed

definition decoded_to :: "nat \<Rightarrow> byte list \<Rightarrow> byte list" where
  "decoded_to r b = concat (map (\<lambda>i. dec_chunk (nth_chunk 128 i b)) [0..<r])"

text \<open>The output buffer after \<open>r\<close> rounds.\<close>

definition out_after :: "nat \<Rightarrow> byte list \<Rightarrow> byte list" where
  "out_after r b = drop 4 (decoded_to r b) @ replicate (127 * (1024 - r)) 0"

lemma length_decoded_to:
  assumes "length b = BlobSize" "r \<le> 1024"
  shows "length (decoded_to r b) = 127 * r"
proof -
  have "length (dec_chunk (nth_chunk 128 i b)) = 127" if "i < r" for i
    using that assms by (intro length_dec_chunk length_nth_chunk) (simp add: BlobSize_def)
  then show ?thesis unfolding decoded_to_def by (subst length_chunks [where n = 127]) auto
qed

lemma dec_round_at:
  assumes b: "length b = BlobSize" and r: "1 \<le> r" "r < 1024"
  shows "dec_round b (127 * r - 4) (128 * r) (out_after r b) = Inr res \<longleftrightarrow>
    chunk_ok b r \<and> res = (127 * Suc r - 4, 128 * Suc r, out_after (Suc r) b)"
proof -
  have len: "length (drop 4 (decoded_to r b)) = 127 * r - 4" using length_decoded_to [OF b, of r] r by simp
  have ge: "4 \<le> length (decoded_to r b)" using length_decoded_to [OF b, of r] r by simp
  have "128 * r + 128 \<le> length b" using b r(2) by (simp add: BlobSize_def)
  moreover have "127 \<le> 127 * (1024 - r)" using r by simp
  moreover have arith: "127 * r - 4 + 127 = 127 * Suc r - 4" "128 * r + 128 = 128 * Suc r"
    "127 * (1024 - r) - 127 = 127 * (1024 - Suc r)" using r by simp_all
  moreover have "drop 4 (decoded_to r b) @ dec_chunk (take 128 (drop (128 * r) b)) = drop 4 (decoded_to (Suc r) b)"
    using ge by (simp add: decoded_to_def nth_chunk_def)
  ultimately show ?thesis
    using dec_round_zeros [of "128 * r" b "127 * (1024 - r)" "drop 4 (decoded_to r b)" res]
    unfolding len arith by (simp add: out_after_def chunk_ok_def)
qed

text \<open>The loop stops after the first round at which the output is long enough.\<close>

definition stops_at :: "nat \<Rightarrow> nat \<Rightarrow> nat \<Rightarrow> bool" where
  "stops_at len r R \<longleftrightarrow> r \<le> R \<and> R \<le> 1024 \<and> (\<forall>i. r \<le> i \<longrightarrow> i < R \<longrightarrow> 127 * i - 4 < len) \<and> (R = 1024 \<or> len \<le> 127 * R - 4)"

lemma all_from: "Suc r \<le> R \<Longrightarrow> (\<forall>i. r \<le> i \<longrightarrow> i < R \<longrightarrow> P i) \<longleftrightarrow> P r \<and> (\<forall>i. Suc r \<le> i \<longrightarrow> i < R \<longrightarrow> P i)"
  by (metis Suc_le_eq le_eq_less_or_eq le_refl)

lemma dec_loop_at:
  assumes b: "length b = BlobSize"
  shows "n + r = 1024 \<Longrightarrow> 1 \<le> r \<Longrightarrow>
    dec_loop b len n (127 * r - 4) (128 * r) (out_after r b) = Inr res \<longleftrightarrow>
      (\<exists>R. stops_at len r R \<and> (\<forall>i. r \<le> i \<longrightarrow> i < R \<longrightarrow> chunk_ok b i) \<and> res = (127 * R - 4, 128 * R, out_after R b))"
proof (induction n arbitrary: r)
  case 0
  then have "stops_at len r R \<longleftrightarrow> R = 1024" for R by (auto simp: stops_at_def)
  then show ?case using 0 by auto
next
  case (Suc n)
  have r: "r < 1024" using Suc.prems by simp
  show ?case
  proof (cases "127 * r - 4 < len")
    case False
    then have "stops_at len r R \<longleftrightarrow> R = r" for R
      using r by (auto simp: stops_at_def)
    then show ?thesis using False by auto
  next
    case True
    have stops: "stops_at len r R \<longleftrightarrow> stops_at len (Suc r) R" for R
    proof (cases "Suc r \<le> R")
      case True
      then show ?thesis using all_from [OF True, of "\<lambda>i. 127 * i - 4 < len"] \<open>127 * r - 4 < len\<close> unfolding stops_at_def by auto
    next
      case False
      then show ?thesis using True r unfolding stops_at_def by auto
    qed
    note chunks = all_from [where P = "chunk_ok b"]
    have "dec_loop b len (Suc n) (127 * r - 4) (128 * r) (out_after r b) = Inr res \<longleftrightarrow>
        chunk_ok b r \<and> dec_loop b len n (127 * Suc r - 4) (128 * Suc r) (out_after (Suc r) b) = Inr res"
      using True by (auto simp: bind_res_eq_Inr dec_round_at [OF b Suc.prems(2) r])
    also have "\<dots> \<longleftrightarrow> (\<exists>R. stops_at len r R \<and> (\<forall>i. r \<le> i \<longrightarrow> i < R \<longrightarrow> chunk_ok b i) \<and> res = (127 * R - 4, 128 * R, out_after R b))"
      using Suc.IH [of "Suc r"] Suc.prems(1) chunks unfolding stops by (auto simp: stops_at_def)
    finally show ?thesis .
  qed
qed

lemma first_round:
  assumes b: "length b = BlobSize"
  shows "dec_rest b (b ! 0) 28 32 (copy_at 0 (take 27 (drop 5 b)) (replicate MaxBlobDataSize 0)) = Inr res \<longleftrightarrow>
    fields_ok b 32 \<and> res = (123, 128, out_after 1 b)"
proof -
  define pre where "pre = take 27 (drop 5 b)"
  have len: "length pre = 27" "length pre + 1 = 28" using b by (simp_all add: pre_def BlobSize_def)
  have c: "copy_at 0 pre (replicate MaxBlobDataSize 0) = pre @ replicate 130017 0"
    using copy_at_zeros [of pre MaxBlobDataSize "[]"] len by (simp add: MaxBlobDataSize_def)
  have "take 31 (drop 1 b) = take 4 (drop 1 b) @ pre" using b by (simp add: pre_def BlobSize_def take_add [of 4 27, simplified])
  then have "drop 4 (dec_chunk (take 128 b)) = pre @ ((b ! 0 AND 0x3F) OR push_bit 2 (b ! 32 AND 0x30)) # take 31 (drop 33 b) @
        ((b ! 32 AND 0x0F) OR push_bit 4 (b ! 96 AND 0x0F)) # take 31 (drop 65 b) @
        ((b ! 64 AND 0x3F) OR push_bit 2 (b ! 96 AND 0x30)) # take 31 (drop 97 b)"
    using b by (simp add: dec_chunk_def Let_def drop_take min_def BlobSize_def)
  then have out: "out_after 1 b = (pre @ ((b ! 0 AND 0x3F) OR push_bit 2 (b ! 32 AND 0x30)) # take 31 (drop 33 b) @
        ((b ! 32 AND 0x0F) OR push_bit 4 (b ! 96 AND 0x0F)) # take 31 (drop 65 b) @
        ((b ! 64 AND 0x3F) OR push_bit 2 (b ! 96 AND 0x30)) # take 31 (drop 97 b)) @ replicate 129921 0"
    by (simp add: out_after_def decoded_to_def nth_chunk_def)
  show ?thesis
    unfolding pre_def [symmetric] c len(2) [symmetric] out using dec_rest_zeros [of 32 b 130017 "b ! 0" pre res] b len(1)
    by (simp add: BlobSize_def)
qed

lemma find_None_upt: "find P [i..<n] = None \<longleftrightarrow> (\<forall>j. i \<le> j \<longrightarrow> j < n \<longrightarrow> \<not> P j)"
  by (auto simp: find_None_iff)

lemma ToData_iff:
  assumes b: "length b = BlobSize" and L: "L = unat (output_length b)"
  shows "ToData b = Inr d \<longleftrightarrow> b ! 1 = 0 \<and> L \<le> MaxBlobDataSize \<and> fields_ok b 32 \<and>
    (\<exists>R. stops_at L 1 R \<and> (\<forall>i. 1 \<le> i \<longrightarrow> i < R \<longrightarrow> chunk_ok b i) \<and> list_all (\<lambda>v. v = 0) (drop L (out_after R b)) \<and>
       (\<forall>j. 128 * R \<le> j \<longrightarrow> j < BlobSize \<longrightarrow> b ! j = 0) \<and> d = take L (out_after R b))"
proof -
  have lim: "of_nat MaxBlobDataSize < output_length b \<longleftrightarrow> \<not> L \<le> MaxBlobDataSize"
    by (simp add: L word_less_nat_alt MaxBlobDataSize_def not_le)
  have loop: "dec_loop b L (Rounds - 1) 123 128 (out_after 1 b) = Inr res \<longleftrightarrow>
      (\<exists>R. stops_at L 1 R \<and> (\<forall>i. 1 \<le> i \<longrightarrow> i < R \<longrightarrow> chunk_ok b i) \<and> res = (127 * R - 4, 128 * R, out_after R b))" for res
    using dec_loop_at [OF b, of 1023 1 L res] by (simp add: Rounds_def)
  show ?thesis
  proof (cases "b ! 1 = 0 \<and> L \<le> MaxBlobDataSize")
    case False
    then show ?thesis using lim by (auto simp: ToData_def)
  next
    case True
    then have "ToData b = bind_res (dec_rest b (b ! 0) 28 32 (copy_at 0 (take 27 (drop 5 b)) (replicate MaxBlobDataSize 0)))
       (\<lambda>(opos, ipos, output). bind_res (dec_loop b L (Rounds - 1) opos ipos output) (\<lambda>(opos, ipos, output).
           if \<not> list_all (\<lambda>v. v = 0) (drop L output) then Inl (ErrBlobExtraneousDataFieldElement (opos div 32))
           else (case find (\<lambda>i. b ! i \<noteq> 0) [ipos..<BlobSize] of Some i \<Rightarrow> Inl (ErrBlobExtraneousData i) | None \<Rightarrow> Inr (take L output))))"
      using lim by (simp add: ToData_def Let_def flip: L)
    then have "ToData b = Inr d \<longleftrightarrow> fields_ok b 32 \<and> (\<exists>opos ipos output.
        dec_loop b L (Rounds - 1) 123 128 (out_after 1 b) = Inr (opos, ipos, output) \<and> list_all (\<lambda>v. v = 0) (drop L output) \<and>
        find (\<lambda>i. b ! i \<noteq> 0) [ipos..<BlobSize] = None \<and> d = take L output)"
      by (auto simp: bind_res_eq_Inr first_round [OF b] split: if_splits option.splits)
    then show ?thesis using True unfolding loop find_None_upt by auto
  qed
qed

section \<open>Decoding is the inverse of encoding\<close>

lemma out_after_length: "length b = BlobSize \<Longrightarrow> 1 \<le> R \<Longrightarrow> R \<le> 1024 \<Longrightarrow> length (out_after R b) = MaxBlobDataSize"
  by (simp add: out_after_def length_decoded_to MaxBlobDataSize_def)

lemma clear_high_id:
  assumes "length e = 128" "e ! 0 AND 0xC0 = 0" "e ! 32 AND 0xC0 = 0" "e ! 64 AND 0xC0 = 0" "e ! 96 AND 0xC0 = 0"
  shows "clear_high e = e"
  using assms by (simp add: clear_high_def high_bits)

lemma clear_high_first:
  assumes "length e = 128" "e ! 32 AND 0xC0 = 0" "e ! 64 AND 0xC0 = 0" "e ! 96 AND 0xC0 = 0"
  shows "clear_high e = e[0 := e ! 0 AND 0x3F]"
proof -
  from assms(1) obtain e0 a e1 b e2 d e3 c where e: "e = e0 # a @ e1 # b @ e2 # d @ e3 # c"
    "length a = 31" "length b = 31" "length d = 31" "length c = 31" by (rule parts128)
  have "e ! 32 = e1" "e ! 64 = e2" "e ! 96 = e3" using e(2-5) by (simp_all add: e(1) nth_append)
  then show ?thesis using assms(2-4) clear_high_parts [OF e(2-5)] by (simp add: e(1) high_bits)
qed

lemma dec_chunk_clear: "length e = 128 \<Longrightarrow> dec_chunk (clear_high e) = dec_chunk e"
  using dec_enc_chunk [of "dec_chunk e"] by (simp add: enc_dec_chunk)

text \<open>The three length bytes.\<close>

definition len_bytes :: "32 word \<Rightarrow> byte list" where
  "len_bytes w = [ucast (drop_bit 16 w), ucast (drop_bit 8 w), ucast w]"

lemma length_header_bytes: "length_header dat = 0 # len_bytes (of_nat (length dat))"
  by (simp add: length_header_def len_bytes_def Let_def)

definition join_len :: "byte \<Rightarrow> byte \<Rightarrow> byte \<Rightarrow> 32 word" where
  "join_len x y z = push_bit 16 (ucast x) OR push_bit 8 (ucast y) OR ucast z"

lemma bits_less: "w < 2 ^ n \<Longrightarrow> n \<le> k \<Longrightarrow> \<not> bit w k" for w :: "'a::len word"
  by (metis bit_take_bit_iff less_mask_eq linorder_not_less take_bit_eq_mask)

lemma join_len_bytes:
  assumes "w < 2 ^ 24"
  shows "join_len (ucast (drop_bit 16 w)) (ucast (drop_bit 8 w)) (ucast w) = w"
proof (rule bit_word_eqI)
  fix n assume "n < LENGTH(32)"
  consider "n < 8" | "8 \<le> n" "n < 16" | "16 \<le> n" "n < 24" | "24 \<le> n" by linarith
  then show "bit (join_len (ucast (drop_bit 16 w)) (ucast (drop_bit 8 w)) (ucast w)) n \<longleftrightarrow> bit w n"
    using assms bits_less [of w 24 n] \<open>n < LENGTH(32)\<close> by cases (auto simp: join_len_def bit_simps)
qed

lemma len_bytes_join: "len_bytes (join_len x y z) = [x, y, z]"
proof -
  have "ucast (drop_bit 16 (join_len x y z)) = x" "ucast (drop_bit 8 (join_len x y z)) = y" "ucast (join_len x y z) = z"
    by (rule bit_word_eqI, auto simp: join_len_def bit_simps dest: bit_imp_le_length)+
  then show ?thesis by (simp add: len_bytes_def)
qed

lemma output_length_join: "output_length b = join_len (b ! 2) (b ! 3) (b ! 4)"
  by (simp add: output_length_def join_len_def)

definition clear_first :: "byte list \<Rightarrow> byte list" where
  "clear_first b = b[0 := b ! 0 AND 0x3F]"

lemma nth_chunk_clear_first:
  assumes b: "length b = BlobSize" and i: "i < 1024" and ok: "if i = 0 then fields_ok b 32 else chunk_ok b i"
  shows "clear_high (nth_chunk 128 i b) = nth_chunk 128 i (clear_first b)"
proof -
  have le: "128 * (i + 1) \<le> length b" using b i by (simp add: BlobSize_def)
  have len: "length (nth_chunk 128 i b) = 128" by (rule length_nth_chunk [OF le])
  have nth: "nth_chunk 128 i b ! j = b ! (128 * i + j)" if "j < 128" for j by (rule nth_nth_chunk [OF that le])
  show ?thesis
  proof (cases "i = 0")
    case True
    then have "clear_high (nth_chunk 128 i b) = (nth_chunk 128 i b)[0 := nth_chunk 128 i b ! 0 AND 0x3F]"
      using ok True nth [of 32] nth [of 64] nth [of 96] by (intro clear_high_first [OF len]) (simp_all add: fields_ok_def)
    then show ?thesis using True le nth [of 0] by (simp add: clear_first_def nth_chunk_def take_update_swap)
  next
    case False
    then have "clear_high (nth_chunk 128 i b) = nth_chunk 128 i b"
      using ok by (intro clear_high_id [OF len]) (simp_all add: nth fields_ok_def chunk_ok_def add.commute)
    then show ?thesis using False by (simp add: clear_first_def nth_chunk_def)
  qed
qed

lemma decoded_header:
  assumes b: "length b = BlobSize" and R: "1 \<le> R"
  shows "take 4 (decoded_to R b) = [b ! 1, b ! 2, b ! 3, b ! 4]"
proof -
  have "[0..<R] = 0 # [1..<R]" using R by (simp add: upt_conv_Cons)
  then have "take 4 (decoded_to R b) = take 4 (dec_chunk (take 128 b))"
    using b by (simp add: decoded_to_def nth_chunk_def BlobSize_def)
  also have "\<dots> = take 4 (drop 1 b)" using b by (simp add: dec_chunk_def Let_def BlobSize_def drop_take)
  also have "drop 1 b = b ! 1 # b ! 2 # b ! 3 # b ! 4 # drop 5 b"
    using b Cons_nth_drop_Suc [of 1 b] Cons_nth_drop_Suc [of 2 b] Cons_nth_drop_Suc [of 3 b] Cons_nth_drop_Suc [of 4 b]
    by (simp add: BlobSize_def numeral_2_eq_2 [symmetric])
  also have "take 4 \<dots> = [b ! 1, b ! 2, b ! 3, b ! 4]" by simp
  finally show ?thesis .
qed

lemma encode_of_ToData:
  assumes b: "length b = BlobSize" and run: "ToData b = Inr d"
  shows "length d \<le> MaxBlobDataSize \<and> encoded_to 1024 d = clear_first b"
proof -
  define L where "L = unat (output_length b)"
  from run ToData_iff [OF b L_def, of d] obtain R where v: "b ! 1 = 0" "L \<le> MaxBlobDataSize" "fields_ok b 32"
    and R: "stops_at L 1 R" and ok: "\<forall>i. 1 \<le> i \<longrightarrow> i < R \<longrightarrow> chunk_ok b i"
    and z: "list_all (\<lambda>v. v = 0) (drop L (out_after R b))" and tail: "\<forall>j. 128 * R \<le> j \<longrightarrow> j < BlobSize \<longrightarrow> b ! j = 0"
    and d: "d = take L (out_after R b)" by blast
  have R1: "1 \<le> R" "R \<le> 1024" using R by (simp_all add: stops_at_def)
  have lo: "length (out_after R b) = MaxBlobDataSize" by (rule out_after_length [OF b R1])
  have ld: "length d = L" using v(2) lo by (simp add: d)
  have "drop L (out_after R b) = replicate (MaxBlobDataSize - L) 0"
    using z lo by (intro nth_equalityI) (auto simp: list_all_length)
  then have pad: "padded d = out_after R b" unfolding padded_def ld by (metis append_take_drop_id d)
  have "length_header d = take 4 (decoded_to R b)"
    using v(1) by (simp add: decoded_header [OF b R1(1)] length_header_bytes ld L_def output_length_join len_bytes_join)
  then have pay: "payload d = decoded_to R b @ replicate (127 * (1024 - R)) 0"
    by (simp add: payload_def pad out_after_def flip: append_assoc)
  have len: "length (dec_chunk (nth_chunk 128 i b)) = 127" if "i < R" for i
    using that R1 b by (intro length_dec_chunk length_nth_chunk) (simp add: BlobSize_def)
  have chunk: "enc_chunk (nth_chunk 127 i (payload d)) = nth_chunk 128 i (clear_first b)" if "i < R" for i
  proof -
    have "nth_chunk 127 i (payload d) = dec_chunk (nth_chunk 128 i b)"
      unfolding pay decoded_to_def by (rule nth_chunk_concat [OF len that])
    moreover have "length (nth_chunk 128 i b) = 128" using that R1 b by (intro length_nth_chunk) (simp add: BlobSize_def)
    ultimately show ?thesis
      using nth_chunk_clear_first [OF b, of i] that R1 v(3) ok by (simp add: enc_dec_chunk)
  qed
  have "encoded_to R d = concat (map (\<lambda>i. nth_chunk 128 i (clear_first b)) [0..<R])"
    unfolding encoded_to_def using chunk by (intro arg_cong [where f = concat] map_cong) simp_all
  then have enc: "encoded_to R d = take (128 * R) (clear_first b)" by (simp add: concat_chunks)
  have "length d \<le> 127 * R - 4" using R v(2) by (auto simp: ld stops_at_def MaxBlobDataSize_def)
  then have "encoded_to 1024 d = encoded_to R d @ replicate (BlobSize - 128 * R) 0"
    using v(2) R1 by (intro encoded_rest) (simp_all add: ld)
  moreover have "drop (128 * R) (clear_first b) = replicate (BlobSize - 128 * R) 0"
    using tail R1 b by (intro nth_equalityI) (auto simp: clear_first_def)
  ultimately show ?thesis unfolding enc using v(2) ld by (metis append_take_drop_id)
qed

lemma enc_chunk_high:
  assumes "length c = 127"
  shows "enc_chunk c ! 0 AND 0xC0 = 0" "enc_chunk c ! 32 AND 0xC0 = 0" "enc_chunk c ! 64 AND 0xC0 = 0" "enc_chunk c ! 96 AND 0xC0 = 0"
proof -
  from assms obtain a x b y d z e where c: "c = a @ x # b @ y # d @ z # e" "length a = 31" "length b = 31" "length d = 31" "length e = 31"
    by (rule parts127)
  have "enc_chunk c ! 0 = x AND 0x3F" "enc_chunk c ! 32 = (y AND 0x0F) OR drop_bit 2 (x AND 0xC0)" "enc_chunk c ! 64 = z AND 0x3F"
    "enc_chunk c ! 96 = drop_bit 2 (z AND 0xC0) OR drop_bit 4 (y AND 0xF0)"
    unfolding c(1) enc_chunk_parts [OF c(2-5)] by (simp_all add: nth_append c(2-5) del: drop_bit_and)
  then show "enc_chunk c ! 0 AND 0xC0 = 0" "enc_chunk c ! 32 AND 0xC0 = 0" "enc_chunk c ! 64 AND 0xC0 = 0" "enc_chunk c ! 96 AND 0xC0 = 0"
    by (simp_all only: six_bits)
qed

lemma stops_exists: "\<exists>R. stops_at L 1 R"
proof -
  define R where "R = (LEAST R. 1 \<le> R \<and> (R = 1024 \<or> L \<le> 127 * R - 4))"
  have "1 \<le> R \<and> (R = 1024 \<or> L \<le> 127 * R - 4)" unfolding R_def by (rule LeastI [of _ 1024]) simp
  moreover have "R \<le> 1024" unfolding R_def by (rule Least_le) simp
  moreover have "127 * i - 4 < L" if "1 \<le> i" "i < R" for i
    using not_less_Least [of i "\<lambda>R. 1 \<le> R \<and> (R = 1024 \<or> L \<le> 127 * R - 4)"] that unfolding R_def by (simp add: not_le)
  ultimately show ?thesis unfolding stops_at_def by blast
qed

lemma ToData_of_encode:
  assumes b: "length b = BlobSize" and dat: "length d \<le> MaxBlobDataSize" and enc: "encoded_to 1024 d = clear_first b"
  shows "ToData b = Inr d"
proof -
  have lp: "length (payload d) = 127 * 1024" by (rule length_payload [OF dat])
  have le: "length (nth_chunk 127 i (payload d)) = 127" if "i < 1024" for i using that by (intro length_nth_chunk) (simp add: lp)
  have lb: "length (nth_chunk 128 i b) = 128" if "i < 1024" for i using that b by (intro length_nth_chunk) (simp add: BlobSize_def)
  have chunk: "nth_chunk 128 i (clear_first b) = enc_chunk (nth_chunk 127 i (payload d))" if "i < 1024" for i
    using nth_chunk_concat [of 1024 "\<lambda>i. enc_chunk (nth_chunk 127 i (payload d))" 128 i "[]"] that le
    by (simp add: encoded_to_def flip: enc)
  have nth: "enc_chunk (nth_chunk 127 i (payload d)) ! j = clear_first b ! (128 * i + j)" if "i < 1024" "j < 128" for i j
    using nth_nth_chunk [of j 128 i "clear_first b"] that b by (simp add: clear_first_def BlobSize_def flip: chunk)
  have high: "clear_first b ! (128 * i + j) AND 0xC0 = 0" if "i < 1024" "j \<in> {0, 32, 64, 96}" for i j
    using enc_chunk_high [OF le [OF that(1)]] that nth [OF that(1), of j] by auto
  have cf: "clear_first b ! k = b ! k" if "k \<noteq> 0" for k using that by (simp add: clear_first_def)
  have f0: "fields_ok b 32" using high [of 0 32] high [of 0 64] high [of 0 96] by (simp add: fields_ok_def cf)
  have ok: "chunk_ok b i" if "1 \<le> i" "i < 1024" for i
    using high [of i 0] high [of i 32] high [of i 64] high [of i 96] that by (simp add: chunk_ok_def fields_ok_def cf add.commute)
  have dec: "dec_chunk (nth_chunk 128 i b) = nth_chunk 127 i (payload d)" if "i < 1024" for i
    using dec_chunk_clear [OF lb [OF that]] nth_chunk_clear_first [OF b that] f0 ok that chunk [OF that] le [OF that] by auto
  have dto: "decoded_to R b = take (127 * R) (payload d)" if "R \<le> 1024" for R
  proof -
    have "decoded_to R b = concat (map (\<lambda>i. nth_chunk 127 i (payload d)) [0..<R])"
      unfolding decoded_to_def using dec that by (intro arg_cong [where f = concat] map_cong) simp_all
    then show ?thesis by (simp add: concat_chunks)
  qed
  define L where "L = unat (output_length b)"
  have "[b ! 1, b ! 2, b ! 3, b ! 4] = take 4 (payload d)"
    using decoded_header [OF b, of 1] dto [of 1] by (simp add: min_def)
  also have "\<dots> = 0 # len_bytes (of_nat (length d))" by (simp add: payload_def length_header_bytes len_bytes_def)
  finally have hd: "b ! 1 = 0" "b ! 2 = ucast (drop_bit 16 (of_nat (length d) :: 32 word))"
    "b ! 3 = ucast (drop_bit 8 (of_nat (length d) :: 32 word))" "b ! 4 = ucast (of_nat (length d) :: 32 word)"
    by (simp_all add: len_bytes_def)
  have ld: "length d < 2 ^ 24" using dat by (simp add: MaxBlobDataSize_def)
  then have u: "unat (of_nat (length d) :: 32 word) = length d" by (simp add: unat_of_nat)
  then have "(of_nat (length d) :: 32 word) < 2 ^ 24" using ld by (simp add: word_less_nat_alt)
  then have L: "L = length d" unfolding L_def output_length_join hd by (simp add: join_len_bytes u)
  obtain R where R: "stops_at L 1 R" using stops_exists by blast
  then have R1: "1 \<le> R" "R \<le> 1024" and LR: "L \<le> 127 * R - 4" using dat by (auto simp: stops_at_def L MaxBlobDataSize_def)
  have "drop (127 * R) (payload d) = replicate (127 * 1024 - 127 * R) 0"
    using LR R1 dat by (intro payload_zero) (auto simp: L)
  then have "take (127 * R) (payload d) @ replicate (127 * (1024 - R)) 0 = payload d"
    by (metis append_take_drop_id diff_mult_distrib2)
  moreover have drop4: "drop 4 (take (127 * R) (payload d)) @ z = drop 4 (take (127 * R) (payload d) @ z)" for z
    using R1 lp by simp
  ultimately have "out_after R b = drop 4 (payload d)"
    unfolding out_after_def dto [OF R1(2)] using R1 lp by (metis (no_types) drop4)
  then have out: "out_after R b = padded d" by (simp add: payload_def)
  have tail: "b ! j = 0" if "128 * R \<le> j" "j < BlobSize" for j
  proof -
    have "clear_first b = encoded_to R d @ replicate (BlobSize - 128 * R) 0"
      using encoded_rest [OF dat _ R1(2)] LR L enc by simp
    then have "clear_first b ! j = 0" using that length_encoded_to [OF dat R1(2)] by (simp add: nth_append)
    then show ?thesis using cf [of j] that R1 by auto
  qed
  have "list_all (\<lambda>v. v = 0) (drop L (out_after R b)) \<and> d = take L (out_after R b)"
    unfolding out by (simp add: padded_def L list_all_iff)
  then show ?thesis
    using ToData_iff [OF b L_def, of d] hd(1) f0 R ok R1 tail dat L by auto
qed

text \<open>C11: The blob encoding is a bijection up to two bits that decoding forgets to check.  Encoding fails exactly on
  data of more than \<open>MaxBlobDataSize\<close> bytes and never panics.  Decoding a blob gives \<open>d\<close> exactly when encoding \<open>d\<close>
  gives the blob with the two high-order bits of its first byte cleared; so decoding inverts encoding, and a blob with
  garbage in these two bits, which every other field element is rejected for, is accepted.\<close>

theorem ToData_exact:
  assumes "length b = BlobSize"
  shows "(ToData b = Inr d \<longleftrightarrow> FromData d = Inr (Inr (b[0 := b ! 0 AND 0x3F]))) \<and>
    (FromData d = Inr (Inl ErrBlobInputTooLarge) \<longleftrightarrow> MaxBlobDataSize < length d) \<and> (\<forall>p. FromData d \<noteq> Inl p)"
proof -
  have "ToData b = Inr d \<longleftrightarrow> length d \<le> MaxBlobDataSize \<and> encoded_to 1024 d = clear_first b"
    using encode_of_ToData [OF assms, of d] ToData_of_encode [OF assms, of d] by blast
  then show ?thesis by (cases "length d \<le> MaxBlobDataSize") (simp_all add: FromData_eq clear_first_def)
qed

theorem ToData_exact_witness:
  "\<exists>b. length b = BlobSize \<and> b ! 0 = 0 \<and> FromData [1, 2, 3] = Inr (Inr b) \<and> ToData b = Inr [1, 2, 3] \<and>
     ToData (b[0 := 0x80]) = Inr [1, 2, 3]"
proof -
  define b where "b = encoded_to 1024 [1, 2, 3]"
  have len: "length b = BlobSize" unfolding b_def by (subst length_encoded_to) (simp_all add: MaxBlobDataSize_def BlobSize_def)
  have enc: "FromData [1, 2, 3] = Inr (Inr b)" by (simp add: FromData_eq b_def MaxBlobDataSize_def)
  have lp: "length (payload [1, 2, 3]) = 127 * 1024" by (rule length_payload) (simp add: MaxBlobDataSize_def)
  have "b = encoded_to 1 [1, 2, 3] @ replicate (BlobSize - 128) 0"
    unfolding b_def by (subst encoded_rest [where r = 1]) (simp_all add: MaxBlobDataSize_def)
  moreover have "payload [1, 2, 3] ! 31 = 0" by (simp add: payload_def padded_def nth_append MaxBlobDataSize_def)
  then have "encoded_to 1 [1, 2, 3] ! 0 = 0 \<and> encoded_to 1 [1, 2, 3] \<noteq> []"
    using nth_chunk_parts [OF lp, of 0] by (simp add: encoded_to_def Let_def)
  ultimately have b0: "b ! 0 = 0" by (metis length_greater_0_conv nth_append)
  have "b[0 := b ! 0 AND 0x3F] = b" unfolding b0 using list_update_id [of b 0] by (simp add: b0)
  then have "ToData b = Inr [1, 2, 3]" using ToData_exact [OF len, of "[1, 2, 3]"] enc by simp
  moreover have "b[0 := 0x80, 0 := b[0 := 0x80] ! 0 AND 0x3F] = b"
    using len b0 by (simp add: BlobSize_def) (metis list_update_id)
  then have "ToData (b[0 := 0x80]) = Inr [1, 2, 3]"
    using ToData_exact [of "b[0 := 0x80]" "[1, 2, 3]"] enc len by simp
  ultimately show ?thesis using len enc b0 by blast
qed

end
