(* ===== verification/Derive_Queue.thy ===== *)
theory Derive_Queue
  imports Derive_Stage
begin

text \<open>
  The frame queue (\<open>op-node/rollup/derive/frame_queue.go\<close>) over any data stage: frames are parsed from the data pulled
  and, from Holocene on, pruned to contiguous frames.
\<close>

record 's FrameQueue =
  FqFrames :: "Frame list"
  FqPrev :: 's

definition FrameQueue_Origin :: "('s \<Rightarrow> L1BlockRef) \<Rightarrow> 's FrameQueue \<Rightarrow> L1BlockRef" where
  "FrameQueue_Origin origin fq = origin (FqPrev fq)"

definition loadNextFrames ::
    "Config \<Rightarrow> ('s, byte list) puller \<Rightarrow> ('s \<Rightarrow> L1BlockRef) \<Rightarrow> 's FrameQueue \<Rightarrow> (derive_error option \<times> 's FrameQueue) res" where
  "loadNextFrames cfg pull_data origin fq =
     bind_res (pull_data (FqPrev fq)) (\<lambda>(r, prev).
       let fq = fq\<lparr>FqPrev := prev\<rparr>
       in case r of
            Inl err \<Rightarrow> Inr (Some err, fq)
          | Inr dat \<Rightarrow>
              (case ParseFrames dat of
                 Inl _ \<Rightarrow> Inr (None, fq)
               | Inr frames \<Rightarrow>
                   let fq = fq\<lparr>FqFrames := FqFrames fq @ frames\<rparr>
                   in Inr (None, if IsHolocene cfg (L1Time (FrameQueue_Origin origin fq))
                                 then fq\<lparr>FqFrames := pruneFrameQueue (FqFrames fq)\<rparr> else fq)))"

definition NextFrame :: "Config \<Rightarrow> ('s, byte list) puller \<Rightarrow> ('s \<Rightarrow> L1BlockRef) \<Rightarrow> ('s FrameQueue, Frame) puller" where
  "NextFrame cfg pull_data origin fq =
     bind_res (if length (FqFrames fq) = 0 then loadNextFrames cfg pull_data origin fq else Inr (None, fq)) (\<lambda>(err, fq).
       case err of
         Some e \<Rightarrow> Inr (Inl e, fq)
       | None \<Rightarrow>
           (case FqFrames fq of
              [] \<Rightarrow> Inr (Inl NotEnoughData, fq)
            | ret # rest \<Rightarrow> Inr (Inr ret, fq\<lparr>FqFrames := rest\<rparr>)))"

definition FrameQueue_Reset :: "'s FrameQueue \<Rightarrow> derive_error \<times> 's FrameQueue" where
  "FrameQueue_Reset fq = (IoEOF, fq\<lparr>FqFrames := []\<rparr>)"

definition FrameQueue_Transform :: "ForkName \<Rightarrow> 's FrameQueue \<Rightarrow> 's FrameQueue" where
  "FrameQueue_Transform f fq = (if f = Holocene then fq\<lparr>FqFrames := []\<rparr> else fq)"

section \<open>The frame queue keeps the contract\<close>

definition queue_ok :: "('s \<Rightarrow> bool) \<Rightarrow> 's FrameQueue \<Rightarrow> bool" where
  "queue_ok ok fq \<longleftrightarrow> ok (FqPrev fq) \<and> list_all frame_ok (FqFrames fq)"

abbreviation queue_left :: "('s \<times> 's) set \<Rightarrow> ('s FrameQueue \<times> 's FrameQueue) set" where
  "queue_left R \<equiv> buffered R FqPrev (\<lambda>fq. length (FqFrames fq))"

lemma ParseFrames_frames: "ParseFrames dat = Inr frames \<Longrightarrow> list_all frame_ok frames"
  by (simp add: ParseFrames_ok list_all_iff)

lemma prune_frames: "list_all frame_ok frames \<Longrightarrow> list_all frame_ok (pruneFrameQueue frames)"
  using prune_subseq [of frames] by (auto simp: list_all_iff dest: subseq_set)

context data_stage
begin

lemma load_ok:
  assumes "queue_ok ok fq" "FqFrames fq = []"
  shows "\<exists>err fq'. loadNextFrames cfg pull origin fq = Inr (err, fq') \<and> queue_ok ok fq' \<and>
    FrameQueue_Origin origin fq' = FrameQueue_Origin origin fq \<and>
    (case err of Some e \<Rightarrow> e \<noteq> Leveled LevelCritical \<and> FqFrames fq' = [] \<and> (e = NotEnoughData \<longrightarrow> (FqPrev fq', FqPrev fq) \<in> R)
     | None \<Rightarrow> (FqPrev fq', FqPrev fq) \<in> R)"
proof -
  from assms(1) have "ok (FqPrev fq)" by (simp add: queue_ok_def)
  then obtain r prev where p: "pull (FqPrev fq) = Inr (r, prev)" "ok prev" "origin prev = origin (FqPrev fq)" "good_outcome good r"
    "retry r \<longrightarrow> (prev, FqPrev fq) \<in> R" by (rule pullE)
  show ?thesis
  proof (cases r)
    case (Inl e)
    then show ?thesis using p assms by (simp add: loadNextFrames_def queue_ok_def FrameQueue_Origin_def)
  next
    case (Inr dat)
    then show ?thesis
      using p assms ParseFrames_frames [of dat]
      by (cases "ParseFrames dat") (auto simp: loadNextFrames_def queue_ok_def FrameQueue_Origin_def Let_def intro: prune_frames)
  qed
qed

lemma NextFrame_ok:
  assumes "queue_ok ok fq"
  shows "\<exists>r fq'. NextFrame cfg pull origin fq = Inr (r, fq') \<and> queue_ok ok fq' \<and>
    FrameQueue_Origin origin fq' = FrameQueue_Origin origin fq \<and> good_outcome frame_ok r \<and>
    (retry r \<longrightarrow> (fq', fq) \<in> queue_left R)"
proof (cases "FqFrames fq")
  case (Cons f fs)
  then show ?thesis using assms by (simp add: NextFrame_def queue_ok_def in_buffered FrameQueue_Origin_def)
next
  case Nil
  from load_ok [OF assms Nil, of cfg] obtain err fq1 where l: "loadNextFrames cfg pull origin fq = Inr (err, fq1)" "queue_ok ok fq1"
    "FrameQueue_Origin origin fq1 = FrameQueue_Origin origin fq"
    "case err of Some e \<Rightarrow> e \<noteq> Leveled LevelCritical \<and> FqFrames fq1 = [] \<and> (e = NotEnoughData \<longrightarrow> (FqPrev fq1, FqPrev fq) \<in> R)
     | None \<Rightarrow> (FqPrev fq1, FqPrev fq) \<in> R" by blast
  show ?thesis
  proof (cases err)
    case (Some e)
    then show ?thesis using Nil l by (simp add: NextFrame_def in_buffered)
  next
    case None
    then show ?thesis using Nil l
      by (cases "FqFrames fq1") (auto simp: NextFrame_def in_buffered queue_ok_def FrameQueue_Origin_def)
  qed
qed

end

sublocale data_stage \<subseteq> fq: frame_stage "NextFrame cfg pull origin" "FrameQueue_Origin origin" "queue_ok ok" "queue_left R" for cfg
proof
  show "wf (queue_left R)" by (rule wf_buffered [OF wf_R])
  show "\<exists>r s'. NextFrame cfg pull origin s = Inr (r, s') \<and> queue_ok ok s' \<and>
      FrameQueue_Origin origin s' = FrameQueue_Origin origin s \<and> good_outcome frame_ok r" if "queue_ok ok s" for s
    using NextFrame_ok [OF that, of cfg] by blast
  show "(s', s) \<in> queue_left R" if "queue_ok ok s" "NextFrame cfg pull origin s = Inr (r, s')" "retry r" for s r s'
    using NextFrame_ok [OF that(1), of cfg] that(2,3) by auto
qed

end
