(* ===== verification/Derive_Bank.thy ===== *)
theory Derive_Bank
  imports Derive_Queue
begin

text \<open>
  The channel bank (\<open>op-node/rollup/derive/channel_bank.go\<close>), the channel stage before Holocene: it buffers the frames
  of many channels, reads the first channel that is complete and prunes the oldest channels when they take too much
  memory.  The map of channels is an association list; its keys are those of the queue.
\<close>

record 's ChannelBank =
  BkChannels :: "(ChannelID \<times> Channel) list"
  BkQueue :: "ChannelID list"
  BkPrev :: 's

definition NewChannelBank :: "'s \<Rightarrow> 's ChannelBank" where
  "NewChannelBank prev = \<lparr>BkChannels = [], BkQueue = [], BkPrev = prev\<rparr>"

definition Bank_Origin :: "('s \<Rightarrow> L1BlockRef) \<Rightarrow> 's ChannelBank \<Rightarrow> L1BlockRef" where
  "Bank_Origin origin cb = origin (BkPrev cb)"

definition delete_channel :: "ChannelID \<Rightarrow> (ChannelID \<times> Channel) list \<Rightarrow> (ChannelID \<times> Channel) list" where
  "delete_channel cid chs = filter (\<lambda>(k, _). k \<noteq> cid) chs"

definition put_channel :: "ChannelID \<Rightarrow> Channel \<Rightarrow> (ChannelID \<times> Channel) list \<Rightarrow> (ChannelID \<times> Channel) list" where
  "put_channel cid ch chs = map (\<lambda>(k, c). if k = cid then (k, ch) else (k, c)) chs"

definition channel_timed_out :: "Config \<Rightarrow> L1BlockRef \<Rightarrow> Channel \<Rightarrow> bool" where
  "channel_timed_out cfg origin ch \<longleftrightarrow> OpenBlockNumber ch + ChannelTimeout cfg (L1Time origin) < L1Number origin"

text \<open>The loop of \<open>prune\<close>, from the total size.\<close>

fun prune_bank ::
    "Word \<Rightarrow> Word \<Rightarrow> ChannelID list \<Rightarrow> (ChannelID \<times> Channel) list \<Rightarrow> (ChannelID list \<times> (ChannelID \<times> Channel) list) res" where
  "prune_bank limit totalSize [] chs = (if limit < totalSize then Inl IndexOutOfRange else Inr ([], chs))"
| "prune_bank limit totalSize (cid # q) chs =
     (if limit < totalSize then
        (case map_of chs cid of
           None \<Rightarrow> Inl NilDereference
         | Some ch \<Rightarrow> prune_bank limit (totalSize - ChSize ch) q (delete_channel cid chs))
      else Inr (cid # q, chs))"

definition Bank_prune :: "Config \<Rightarrow> ('s \<Rightarrow> L1BlockRef) \<Rightarrow> 's ChannelBank \<Rightarrow> 's ChannelBank res" where
  "Bank_prune cfg origin cb =
     (let totalSize = sum_list (map (ChSize \<circ> snd) (BkChannels cb))
      in bind_res (prune_bank (MaxChannelBankSize cfg (L1Time (Bank_Origin origin cb))) totalSize (BkQueue cb) (BkChannels cb))
           (\<lambda>(q, chs). Inr (cb\<lparr>BkQueue := q, BkChannels := chs\<rparr>)))"

definition IngestFrame :: "Config \<Rightarrow> ('s \<Rightarrow> L1BlockRef) \<Rightarrow> Frame \<Rightarrow> 's ChannelBank \<Rightarrow> 's ChannelBank res" where
  "IngestFrame cfg origin f cb =
     (let b = Bank_Origin origin cb;
          (currentCh, cb) = (case map_of (BkChannels cb) (FrID f) of
              Some ch \<Rightarrow> (ch, cb)
            | None \<Rightarrow>
                let ch = NewChannel (FrID f) b False
                in (ch, cb\<lparr>BkChannels := BkChannels cb @ [(FrID f, ch)], BkQueue := BkQueue cb @ [FrID f]\<rparr>))
      in if channel_timed_out cfg b currentCh then Inr cb
         else (case AddFrame f b currentCh of
                 (Some err, _) \<Rightarrow> Inr cb
               | (None, ch) \<Rightarrow> Bank_prune cfg origin (cb\<lparr>BkChannels := put_channel (FrID f) ch (BkChannels cb)\<rparr>)))"

definition tryReadChannelAtIndex ::
    "Config \<Rightarrow> ('s \<Rightarrow> L1BlockRef) \<Rightarrow> nat \<Rightarrow> 's ChannelBank \<Rightarrow> (byte list outcome \<times> 's ChannelBank) res" where
  "tryReadChannelAtIndex cfg origin i cb =
     (if length (BkQueue cb) \<le> i then Inl IndexOutOfRange
      else let chanID = BkQueue cb ! i
           in case map_of (BkChannels cb) chanID of
                None \<Rightarrow> Inl NilDereference
              | Some ch \<Rightarrow>
                  if channel_timed_out cfg (Bank_Origin origin cb) ch \<or> \<not> IsReady ch then Inr (Inl IoEOF, cb)
                  else bind_res (Reader ch) (\<lambda>dat.
                    Inr (Inr dat, cb\<lparr>BkChannels := delete_channel chanID (BkChannels cb), BkQueue := discard_at i (BkQueue cb)\<rparr>)))"

text \<open>The loop over the queue; an attempt that fails leaves the bank as it is.\<close>

fun try_indices ::
    "Config \<Rightarrow> ('s \<Rightarrow> L1BlockRef) \<Rightarrow> nat list \<Rightarrow> 's ChannelBank \<Rightarrow> (byte list outcome \<times> 's ChannelBank) res" where
  "try_indices cfg origin [] cb = Inr (Inl IoEOF, cb)"
| "try_indices cfg origin (i # is) cb =
     bind_res (tryReadChannelAtIndex cfg origin i cb) (\<lambda>(r, cb).
       case r of Inr dat \<Rightarrow> Inr (Inr dat, cb) | Inl _ \<Rightarrow> try_indices cfg origin is cb)"

text \<open>The nil data returned for a channel that timed out is the empty list.\<close>

definition Bank_Read :: "Config \<Rightarrow> ('s \<Rightarrow> L1BlockRef) \<Rightarrow> 's ChannelBank \<Rightarrow> (byte list outcome \<times> 's ChannelBank) res" where
  "Bank_Read cfg origin cb =
     (case BkQueue cb of
        [] \<Rightarrow> Inr (Inl IoEOF, cb)
      | first # rest \<Rightarrow>
          (case map_of (BkChannels cb) first of
             None \<Rightarrow> Inl NilDereference
           | Some ch \<Rightarrow>
               if channel_timed_out cfg (Bank_Origin origin cb) ch then
                 Inr (Inr [], cb\<lparr>BkChannels := delete_channel first (BkChannels cb), BkQueue := rest\<rparr>)
               else if \<not> IsCanyon cfg (L1Time (Bank_Origin origin cb)) then tryReadChannelAtIndex cfg origin 0 cb
               else try_indices cfg origin [0..<length (BkQueue cb)] cb))"

definition Bank_NextRawChannel ::
    "Config \<Rightarrow> ('s, Frame) puller \<Rightarrow> ('s \<Rightarrow> L1BlockRef) \<Rightarrow> ('s ChannelBank, byte list) puller" where
  "Bank_NextRawChannel cfg pull_frame origin cb =
     bind_res (Bank_Read cfg origin cb) (\<lambda>(r, cb).
       case r of
         Inr dat \<Rightarrow> Inr (Inr dat, cb)
       | Inl err \<Rightarrow>
           if err \<noteq> IoEOF then Inr (Inl err, cb)
           else bind_res (pull_frame (BkPrev cb)) (\<lambda>(fr, prev).
             let cb = cb\<lparr>BkPrev := prev\<rparr>
             in case fr of
                  Inl e \<Rightarrow> Inr (Inl e, cb)
                | Inr f \<Rightarrow> bind_res (IngestFrame cfg origin f cb) (\<lambda>cb. Inr (Inl NotEnoughData, cb))))"

definition Bank_Reset :: "'s ChannelBank \<Rightarrow> derive_error \<times> 's ChannelBank" where
  "Bank_Reset cb = (IoEOF, cb\<lparr>BkChannels := [], BkQueue := []\<rparr>)"

definition Bank_FlushChannel :: "'s ChannelBank \<Rightarrow> 's ChannelBank res" where
  "Bank_FlushChannel cb = Inl InvalidFlushChannel"

section \<open>The invariant\<close>

definition bank_total :: "(ChannelID \<times> Channel) list \<Rightarrow> nat" where
  "bank_total chs = sum_list (map (unat \<circ> ChSize \<circ> snd) chs)"

definition entry_fine :: "ChannelID \<times> Channel \<Rightarrow> bool" where
  "entry_fine = (\<lambda>(k, ch). ChId ch = k \<and> channel_ok ch \<and> \<not> requireInOrder ch)"

definition bank_shape :: "ChannelID list \<Rightarrow> (ChannelID \<times> Channel) list \<Rightarrow> bool" where
  "bank_shape q chs \<longleftrightarrow> distinct q \<and> distinct (map fst chs) \<and> set q = fst ` set chs \<and> (\<forall>x\<in>set chs. entry_fine x)"

definition max_bank :: nat where
  "max_bank = 1000000000"

definition bank_ok :: "('s \<Rightarrow> bool) \<Rightarrow> 's ChannelBank \<Rightarrow> bool" where
  "bank_ok ok cb \<longleftrightarrow> ok (BkPrev cb) \<and> bank_shape (BkQueue cb) (BkChannels cb) \<and> bank_total (BkChannels cb) \<le> max_bank"

lemma bank_shape_lookup:
  assumes "bank_shape q chs" "cid \<in> set q"
  obtains ch where "map_of chs cid = Some ch" "(cid, ch) \<in> set chs" "entry_fine (cid, ch)"
proof -
  from assms have "cid \<in> fst ` set chs" by (simp add: bank_shape_def)
  then obtain ch where "(cid, ch) \<in> set chs" by auto
  then show thesis using that [of ch] assms(1) by (simp add: bank_shape_def)
qed

lemma bank_total_delete:
  assumes "distinct (map fst chs)" "map_of chs cid = Some ch"
  shows "bank_total chs = unat (ChSize ch) + bank_total (delete_channel cid chs)"
  using assms
proof (induction chs)
  case (Cons x chs)
  obtain k c where x: "x = (k, c)" by (cases x)
  show ?case
  proof (cases "k = cid")
    case True
    then have "\<forall>(k', c')\<in>set chs. k' \<noteq> cid" using Cons.prems(1) by (force simp: x)
    then have "delete_channel cid chs = chs" unfolding delete_channel_def by (intro filter_True) auto
    then show ?thesis using True Cons.prems(2) by (simp add: x bank_total_def delete_channel_def)
  next
    case False
    then show ?thesis using Cons by (simp add: x bank_total_def delete_channel_def)
  qed
qed simp

lemma bank_shape_delete: "bank_shape q chs \<Longrightarrow> bank_shape (filter (\<lambda>k. k \<noteq> cid) q) (delete_channel cid chs)"
  by (auto simp: bank_shape_def delete_channel_def distinct_map_filter image_iff)

lemma bank_total_le_delete: "bank_total (delete_channel cid chs) \<le> bank_total chs"
  by (induction chs) (auto simp: bank_total_def delete_channel_def)

lemma sum_sizes_nat:
  assumes "bank_total chs < 2 ^ 64"
  shows "unat (sum_list (map (ChSize \<circ> snd) chs)) = bank_total chs"
proof -
  have "sum_list (map (ChSize \<circ> snd) chs) = of_nat (bank_total chs)" by (induction chs) (simp_all add: bank_total_def)
  then show ?thesis using assms by (simp add: unat_of_nat)
qed

section \<open>Pruning\<close>

text \<open>The channels that remain when the queue is cut down to \<open>q\<close>.\<close>

definition kept :: "ChannelID list \<Rightarrow> (ChannelID \<times> Channel) list \<Rightarrow> (ChannelID \<times> Channel) list" where
  "kept q chs = filter (\<lambda>(k, _). k \<in> set q) chs"

lemma bank_key: "bank_shape q chs \<Longrightarrow> (k, c) \<in> set chs \<Longrightarrow> k \<in> set q"
  unfolding bank_shape_def by force

lemma kept_all: "bank_shape q chs \<Longrightarrow> kept q chs = chs"
  unfolding kept_def by (intro filter_True) (auto dest: bank_key)

lemma kept_tail: "bank_shape (cid # q) chs \<Longrightarrow> delete_channel cid chs = kept q chs"
proof -
  assume a: "bank_shape (cid # q) chs"
  then have "cid \<notin> set q" by (simp add: bank_shape_def)
  moreover have "k = cid \<or> k \<in> set q" if "(k, c) \<in> set chs" for k c using bank_key [OF a that] by simp
  ultimately show ?thesis unfolding kept_def delete_channel_def by (intro filter_cong refl) auto
qed

lemma bank_shape_tail: "bank_shape (cid # q) chs \<Longrightarrow> bank_shape q (kept q chs)"
proof -
  assume a: "bank_shape (cid # q) chs"
  then have "filter (\<lambda>k. k \<noteq> cid) (cid # q) = q" by (auto simp: bank_shape_def intro: filter_True)
  then show ?thesis using bank_shape_delete [OF a, of cid] by (simp only: kept_tail [OF a])
qed

lemma kept_kept: "set q' \<subseteq> set q \<Longrightarrow> kept q' (kept q chs) = kept q' chs"
  by (auto simp: kept_def intro: filter_cong)

text \<open>Pruning does not panic, removes the oldest channels, and no more of them than the limit asks for.\<close>

lemma prune_bank_spec:
  "bank_shape q chs \<Longrightarrow> unat tot = bank_total chs \<Longrightarrow>
    \<exists>n. prune_bank limit tot q chs = Inr (drop n q, kept (drop n q) chs) \<and> n \<le> length q \<and>
      bank_total (kept (drop n q) chs) \<le> unat limit \<and> (\<forall>m<n. unat limit < bank_total (kept (drop m q) chs))"
proof (induction q arbitrary: tot chs)
  case Nil
  then have "chs = []" by (simp add: bank_shape_def)
  then have "unat tot = 0" using Nil.prems(2) by (simp add: bank_total_def)
  then have "\<not> limit < tot" by (simp add: word_less_nat_alt)
  then show ?case using \<open>chs = []\<close> by (simp add: kept_def bank_total_def)
next
  case (Cons cid q)
  obtain ch where ch: "map_of chs cid = Some ch" using bank_shape_lookup [OF Cons.prems(1), of cid] by auto
  have shape: "bank_shape q (kept q chs)" by (rule bank_shape_tail [OF Cons.prems(1)])
  have split: "bank_total chs = unat (ChSize ch) + bank_total (kept q chs)"
    using bank_total_delete [OF _ ch] Cons.prems(1) kept_tail [OF Cons.prems(1)] by (simp add: bank_shape_def)
  show ?case
  proof (cases "limit < tot")
    case False
    then show ?thesis using Cons.prems kept_all [OF Cons.prems(1)]
      by (intro exI [of _ 0]) (simp add: word_less_nat_alt not_less)
  next
    case True
    have "unat (tot - ChSize ch) = bank_total (kept q chs)"
      using Cons.prems(2) split by (simp add: unat_sub_if_size)
    from Cons.IH [OF shape this] obtain n where n: "prune_bank limit (tot - ChSize ch) q (kept q chs) =
        Inr (drop n q, kept (drop n q) (kept q chs))" "n \<le> length q" "bank_total (kept (drop n q) (kept q chs)) \<le> unat limit"
        "\<forall>m<n. unat limit < bank_total (kept (drop m q) (kept q chs))" by blast
    have sub: "kept (drop m q) (kept q chs) = kept (drop m q) chs" for m by (rule kept_kept) (rule set_drop_subset)
    have first: "unat limit < bank_total (kept (cid # q) chs)"
      using True Cons.prems(2) kept_all [OF Cons.prems(1)] by (simp add: word_less_nat_alt)
    have "\<forall>m<Suc n. unat limit < bank_total (kept (drop m (cid # q)) chs)"
      using n(4) first unfolding sub by (auto simp: less_Suc_eq_0_disj)
    then show ?thesis
      using True ch n(1-3) kept_tail [OF Cons.prems(1)] unfolding sub by (intro exI [of _ "Suc n"]) simp
  qed
qed

section \<open>Ingesting frames\<close>

lemma frameSize_bound: "frame_ok f \<Longrightarrow> unat (frameSize f) \<le> 1000200"
proof -
  assume "frame_ok f"
  then have len: "length (FrData f) \<le> 1000000" by (simp add: frame_ok_def)
  then have u: "unat (of_nat (length (FrData f)) :: Word) = length (FrData f)" by (simp add: unat_of_nat)
  show ?thesis using len by (simp add: frameSize_def unat_word_ariths(1) u)
qed

lemma AddFrame_size:
  assumes ch: "channel_ok ch" and f: "frame_ok f" and a: "AddFrame f b ch = (None, ch')"
  shows "unat (ChSize ch') \<le> unat (ChSize ch) + 1000200"
proof -
  have chk: "add_check f ch = None" using a by (auto simp: AddFrame_taken split: option.splits)
  have plus: "unat (x + frameSize f) \<le> unat x + 1000200" for x
    using frameSize_bound [OF f] unat_plus_if' [of x "frameSize f"] by (simp split: if_splits)
  show ?thesis
  proof (cases "IsLast f \<and> FrameNumber f < highestFrameNumber ch")
    case True
    then have "\<not> closed ch" using chk by (auto simp: add_check_None)
    then have "ChSize ch = sum_sizes (inputs ch)" using ch by (simp add: channel_ok_def)
    then have "ChSize ch' = 0 + frameSize f" using a chk True by (auto simp: AddFrame_taken taken_def prune_to_def)
    then show ?thesis using plus [of 0] by simp
  next
    case False
    then have "ChSize ch' = ChSize ch + frameSize f" using a chk by (auto simp: AddFrame_taken taken_def prune_to_def split: if_splits)
    then show ?thesis using plus by simp
  qed
qed

lemma AddFrame_keeps:
  assumes "AddFrame f b ch = (None, ch')"
  shows "ChId ch' = ChId ch \<and> requireInOrder ch' = requireInOrder ch"
  using assms by (auto simp: AddFrame_taken prune_to_def split: option.splits if_splits)

lemma bank_shape_put:
  assumes "bank_shape q chs" "map_of chs cid = Some ch" "entry_fine (cid, ch')"
  shows "bank_shape q (put_channel cid ch' chs)"
proof -
  have keys: "map fst (put_channel cid ch' chs) = map fst chs" by (simp add: put_channel_def comp_def case_prod_beta)
  then have "fst ` set (put_channel cid ch' chs) = fst ` set chs" by (metis set_map)
  moreover have "\<forall>x\<in>set (put_channel cid ch' chs). entry_fine x"
    using assms(1,3) by (auto simp: put_channel_def bank_shape_def)
  ultimately show ?thesis using assms(1) by (simp add: bank_shape_def keys)
qed

lemma put_absent: "cid \<notin> fst ` set chs \<Longrightarrow> put_channel cid ch' chs = chs"
  unfolding put_channel_def by (rule map_idI) (auto simp: image_iff)

lemma bank_total_put:
  assumes "distinct (map fst chs)" "map_of chs cid = Some ch" "unat (ChSize ch') \<le> unat (ChSize ch) + d"
  shows "bank_total (put_channel cid ch' chs) \<le> bank_total chs + d"
  using assms(1,2)
proof (induction chs)
  case (Cons x chs)
  obtain k c where x: "x = (k, c)" by (cases x)
  show ?case
  proof (cases "k = cid")
    case True
    then have "cid \<notin> fst ` set chs" using Cons.prems(1) by (auto simp: x)
    then have "bank_total (put_channel cid ch' chs) = bank_total chs" by (simp add: put_absent)
    then show ?thesis using True Cons.prems(2) assms(3) by (simp add: x bank_total_def put_channel_def)
  next
    case False
    then show ?thesis using Cons by (simp add: x bank_total_def put_channel_def)
  qed
qed simp

lemma IngestFrame_ok:
  assumes inv: "bank_ok ok cb" and f: "frame_ok f"
  shows "\<exists>cb'. IngestFrame cfg origin f cb = Inr cb' \<and> bank_ok ok cb' \<and> BkPrev cb' = BkPrev cb \<and>
    (\<exists>n. BkQueue cb' = drop n (if FrID f \<in> set (BkQueue cb) then BkQueue cb else BkQueue cb @ [FrID f])) \<and>
    bank_total (BkChannels cb') \<le> max (bank_total (BkChannels cb)) (unat (MaxChannelBankSize cfg (L1Time (Bank_Origin origin cb))))"
proof -
  define b where "b = Bank_Origin origin cb"
  define limit where "limit = MaxChannelBankSize cfg (L1Time b)"
  have lim: "unat limit \<le> max_bank" by (simp add: limit_def MaxChannelBankSize_def max_bank_def)
  have shape: "bank_shape (BkQueue cb) (BkChannels cb)" and tot: "bank_total (BkChannels cb) \<le> max_bank" and prev: "ok (BkPrev cb)"
    using inv by (simp_all add: bank_ok_def)
  define old where "old = map_of (BkChannels cb) (FrID f)"
  define ch where "ch = (case old of Some ch \<Rightarrow> ch | None \<Rightarrow> NewChannel (FrID f) b False)"
  define cb1 where "cb1 = (case old of Some ch \<Rightarrow> cb
      | None \<Rightarrow> cb\<lparr>BkChannels := BkChannels cb @ [(FrID f, ch)], BkQueue := BkQueue cb @ [FrID f]\<rparr>)"
  have known: "FrID f \<in> set (BkQueue cb) \<longleftrightarrow> old \<noteq> None"
    using shape by (simp add: old_def bank_shape_def map_of_eq_None_iff)
  have cb1: "bank_shape (BkQueue cb1) (BkChannels cb1) \<and> bank_total (BkChannels cb1) = bank_total (BkChannels cb) \<and>
      map_of (BkChannels cb1) (FrID f) = Some ch \<and> entry_fine (FrID f, ch) \<and> BkPrev cb1 = BkPrev cb \<and>
      BkQueue cb1 = (if FrID f \<in> set (BkQueue cb) then BkQueue cb else BkQueue cb @ [FrID f])"
  proof (cases old)
    case (Some c)
    then have "entry_fine (FrID f, c)" using shape map_of_SomeD [of "BkChannels cb" "FrID f" c] by (simp add: old_def bank_shape_def)
    then show ?thesis using Some shape known by (simp add: cb1_def ch_def old_def)
  next
    case None
    then have new: "FrID f \<notin> set (BkQueue cb)" "FrID f \<notin> fst ` set (BkChannels cb)"
      using known shape by (simp_all add: bank_shape_def)
    have fine: "entry_fine (FrID f, NewChannel (FrID f) b False)"
      using channel_ok_New by (simp add: entry_fine_def) (simp add: NewChannel_def)
    have "ChSize (NewChannel (FrID f) b False) = 0" by (simp add: NewChannel_def)
    then show ?thesis using None new shape fine
      by (simp add: cb1_def ch_def bank_shape_def bank_total_def map_of_append map_add_def map_of_eq_None_iff [THEN iffD2])
  qed
  have c1: "bank_shape (BkQueue cb1) (BkChannels cb1)" "bank_total (BkChannels cb1) = bank_total (BkChannels cb)"
      "map_of (BkChannels cb1) (FrID f) = Some ch" "entry_fine (FrID f, ch)" "BkPrev cb1 = BkPrev cb"
    and c1q: "BkQueue cb1 = (if FrID f \<in> set (BkQueue cb) then BkQueue cb else BkQueue cb @ [FrID f])" using cb1 by blast+
  have run: "IngestFrame cfg origin f cb = (if channel_timed_out cfg b ch then Inr cb1
      else (case AddFrame f b ch of (Some err, _) \<Rightarrow> Inr cb1
            | (None, ch) \<Rightarrow> Bank_prune cfg origin (cb1\<lparr>BkChannels := put_channel (FrID f) ch (BkChannels cb1)\<rparr>)))"
    unfolding IngestFrame_def Let_def b_def [symmetric] old_def [symmetric] cb1_def ch_def
    by (cases old) (simp_all split: option.split prod.split)
  have keep: "bank_ok ok cb1" using c1 prev tot unfolding bank_ok_def by metis
  show ?thesis
  proof (cases "channel_timed_out cfg b ch \<or> fst (AddFrame f b ch) \<noteq> None")
    case True
    then have "IngestFrame cfg origin f cb = Inr cb1" using run by (cases "AddFrame f b ch") auto
    then show ?thesis using keep c1 c1q by (intro exI [of _ cb1] conjI exI [of _ 0]) simp_all
  next
    case False
    then obtain ch' where a: "AddFrame f b ch = (None, ch')" by (cases "AddFrame f b ch") auto
    define cb2 where "cb2 = cb1\<lparr>BkChannels := put_channel (FrID f) ch' (BkChannels cb1)\<rparr>"
    have ch_ok: "channel_ok ch" using c1 by (simp add: entry_fine_def)
    have "entry_fine (FrID f, ch')"
      using c1 AddFrame_keeps [OF a] AddFrame_ok [OF ch_ok f, of b] a by (simp add: entry_fine_def)
    then have shape2: "bank_shape (BkQueue cb2) (BkChannels cb2)"
      using bank_shape_put [of "BkQueue cb1" "BkChannels cb1" "FrID f" ch ch'] c1 by (simp add: cb2_def)
    have "bank_total (BkChannels cb2) \<le> bank_total (BkChannels cb1) + 1000200"
      using bank_total_put [OF _ _ AddFrame_size [OF ch_ok f a], of "BkChannels cb1" "FrID f"] c1 by (simp add: cb2_def bank_shape_def)
    then have "bank_total (BkChannels cb2) < 2 ^ 64" using c1 tot by (simp add: max_bank_def)
    note sum = sum_sizes_nat [OF this]
    have orig: "Bank_Origin origin cb2 = b" using c1 by (simp add: b_def Bank_Origin_def cb2_def)
    have "IngestFrame cfg origin f cb = Bank_prune cfg origin cb2" unfolding cb2_def using run False a by simp
    then have prune: "IngestFrame cfg origin f cb = bind_res (prune_bank limit (sum_list (map (ChSize \<circ> snd) (BkChannels cb2))) (BkQueue cb2)
        (BkChannels cb2)) (\<lambda>(q, chs). Inr (cb2\<lparr>BkQueue := q, BkChannels := chs\<rparr>))"
      by (simp only: Bank_prune_def Let_def limit_def orig)
    from prune_bank_spec [OF shape2 sum, of limit] obtain n where n:
      "prune_bank limit (sum_list (map (ChSize \<circ> snd) (BkChannels cb2))) (BkQueue cb2) (BkChannels cb2) =
        Inr (drop n (BkQueue cb2), kept (drop n (BkQueue cb2)) (BkChannels cb2))"
      "bank_total (kept (drop n (BkQueue cb2)) (BkChannels cb2)) \<le> unat limit" by blast
    have shape3: "bank_shape (drop k q) (kept (drop k q) chs)" if "bank_shape q chs" for k q chs
      using that
    proof (induction k arbitrary: q chs)
      case (Suc k)
      show ?case
      proof (cases q)
        case (Cons c q')
        have "bank_shape (drop k q') (kept (drop k q') (kept q' chs))"
          by (rule Suc.IH) (rule bank_shape_tail, use Suc.prems Cons in simp)
        then show ?thesis using kept_kept [OF set_drop_subset [of k q'], of chs] by (simp add: Cons)
      qed (use Suc.prems kept_all [of "[]" chs] in simp)
    qed (simp add: kept_all)
    define cb3 where "cb3 = cb2\<lparr>BkQueue := drop n (BkQueue cb2), BkChannels := kept (drop n (BkQueue cb2)) (BkChannels cb2)\<rparr>"
    show ?thesis
    proof (intro exI [of _ cb3] conjI exI [of _ n])
      show "IngestFrame cfg origin f cb = Inr cb3" using prune n(1) by (simp add: cb3_def)
      show "bank_ok ok cb3" using shape3 [OF shape2, of n] n(2) lim prev c1 by (simp add: cb3_def cb2_def bank_ok_def)
      show "BkPrev cb3 = BkPrev cb" using c1 by (simp add: cb3_def cb2_def)
      show "BkQueue cb3 = drop n (if FrID f \<in> set (BkQueue cb) then BkQueue cb else BkQueue cb @ [FrID f])"
        unfolding c1q [symmetric] by (simp add: cb3_def cb2_def)
      show "bank_total (BkChannels cb3) \<le> max (bank_total (BkChannels cb)) (unat (MaxChannelBankSize cfg (L1Time (Bank_Origin origin cb))))"
        unfolding b_def [symmetric] limit_def [symmetric] by (rule max.coboundedI2) (use n(2) in \<open>simp add: cb3_def\<close>)
    qed
  qed
qed

section \<open>Reading channels\<close>

text \<open>What reading does, by the identifiers in the queue.\<close>

definition the_channel :: "'s ChannelBank \<Rightarrow> ChannelID \<Rightarrow> Channel" where
  "the_channel cb cid = the (map_of (BkChannels cb) cid)"

definition take_out :: "ChannelID \<Rightarrow> 's ChannelBank \<Rightarrow> 's ChannelBank" where
  "take_out cid cb = cb\<lparr>BkChannels := delete_channel cid (BkChannels cb), BkQueue := filter (\<lambda>k. k \<noteq> cid) (BkQueue cb)\<rparr>"

definition readable_channel :: "Config \<Rightarrow> ('s \<Rightarrow> L1BlockRef) \<Rightarrow> 's ChannelBank \<Rightarrow> ChannelID \<Rightarrow> bool" where
  "readable_channel cfg origin cb cid \<longleftrightarrow>
     \<not> channel_timed_out cfg (Bank_Origin origin cb) (the_channel cb cid) \<and> IsReady (the_channel cb cid)"

definition channel_data :: "Channel \<Rightarrow> byte list" where
  "channel_data ch = concat (map (\<lambda>i. FrData (the (map_of (inputs ch) i))) [0..<Suc (unat (endFrameNumber ch))])"

definition read_one :: "'s ChannelBank \<Rightarrow> ChannelID option \<Rightarrow> byte list outcome \<times> 's ChannelBank" where
  "read_one cb c = (case c of None \<Rightarrow> (Inl IoEOF, cb) | Some cid \<Rightarrow> (Inr (channel_data (the_channel cb cid)), take_out cid cb))"

lemma discard_distinct: "distinct q \<Longrightarrow> i < length q \<Longrightarrow> discard_at i q = filter (\<lambda>k. k \<noteq> q ! i) q"
proof -
  assume d: "distinct q" and i: "i < length q"
  have q: "q = take i q @ q ! i # drop (Suc i) q" using i by (rule id_take_nth_drop)
  have "q ! i \<notin> set (take i q)" "q ! i \<notin> set (drop (Suc i) q)" using d q by (metis distinct.simps(2) distinct_append not_distinct_conv_prefix)+
  then have "filter (\<lambda>k. k \<noteq> q ! i) (take i q @ q ! i # drop (Suc i) q) = take i q @ drop (Suc i) q"
    by (auto intro!: filter_True arg_cong2 [where f = "(@)"])
  then show ?thesis using q by (simp add: discard_at_def)
qed

lemma tryRead_eq:
  assumes "bank_ok ok cb" "i < length (BkQueue cb)"
  shows "tryReadChannelAtIndex cfg origin i cb =
    Inr (read_one cb (if readable_channel cfg origin cb (BkQueue cb ! i) then Some (BkQueue cb ! i) else None))"
proof -
  have shape: "bank_shape (BkQueue cb) (BkChannels cb)" using assms(1) by (simp add: bank_ok_def)
  obtain ch where ch: "map_of (BkChannels cb) (BkQueue cb ! i) = Some ch"
    using bank_shape_lookup [OF shape nth_mem [OF assms(2)]] by blast
  have "discard_at i (BkQueue cb) = filter (\<lambda>k. k \<noteq> BkQueue cb ! i) (BkQueue cb)"
    using shape assms(2) by (intro discard_distinct) (simp_all add: bank_shape_def)
  then show ?thesis
    using assms(2) ch Reader_ready [of ch]
    by (simp add: tryReadChannelAtIndex_def read_one_def readable_channel_def the_channel_def channel_data_def take_out_def Let_def not_le)
qed

lemma try_indices_eq:
  assumes "bank_ok ok cb"
  shows "\<forall>i\<in>set is. i < length (BkQueue cb) \<Longrightarrow>
    try_indices cfg origin is cb = Inr (read_one cb (find (readable_channel cfg origin cb) (map ((!) (BkQueue cb)) is)))"
  by (induction "is") (simp_all add: tryRead_eq [OF assms] read_one_def)

lemma Bank_Read_eq:
  assumes "bank_ok ok cb"
  shows "Bank_Read cfg origin cb = Inr (case BkQueue cb of
      [] \<Rightarrow> (Inl IoEOF, cb)
    | first # rest \<Rightarrow>
        if channel_timed_out cfg (Bank_Origin origin cb) (the_channel cb first) then (Inr [], take_out first cb)
        else read_one cb (find (readable_channel cfg origin cb)
               (if IsCanyon cfg (L1Time (Bank_Origin origin cb)) then BkQueue cb else [first])))"
proof (cases "BkQueue cb")
  case Nil
  then show ?thesis by (simp add: Bank_Read_def)
next
  case (Cons first rest)
  have shape: "bank_shape (BkQueue cb) (BkChannels cb)" using assms by (simp add: bank_ok_def)
  obtain ch where ch: "map_of (BkChannels cb) first = Some ch" using bank_shape_lookup [OF shape, of first] Cons by auto
  have "filter (\<lambda>k. k \<noteq> first) rest = rest" using shape Cons by (auto simp: bank_shape_def intro: filter_True)
  then have rest: "cb\<lparr>BkChannels := delete_channel first (BkChannels cb), BkQueue := rest\<rparr> = take_out first cb"
    by (simp add: take_out_def Cons)
  have all: "map ((!) (BkQueue cb)) [0..<length (BkQueue cb)] = BkQueue cb" by (rule map_nth)
  have "the_channel cb first = ch" using ch by (simp add: the_channel_def)
  then show ?thesis
    using ch rest tryRead_eq [OF assms, of 0 cfg origin] try_indices_eq [OF assms, of "[0..<length (BkQueue cb)]" cfg origin] Cons
    unfolding all by (simp add: Bank_Read_def)
qed

lemma take_out_ok: "bank_ok ok cb \<Longrightarrow> bank_ok ok (take_out cid cb)"
  using bank_shape_delete [of "BkQueue cb" "BkChannels cb" cid] bank_total_le_delete [of cid "BkChannels cb"]
  by (simp add: bank_ok_def take_out_def)

lemma take_out_shorter: "cid \<in> set (BkQueue cb) \<Longrightarrow> length (BkQueue (take_out cid cb)) < length (BkQueue cb)"
  by (auto simp: take_out_def intro: length_filter_less)

lemma Bank_Read_ok:
  assumes "bank_ok ok cb"
  shows "\<exists>r cb'. Bank_Read cfg origin cb = Inr (r, cb') \<and> bank_ok ok cb' \<and> BkPrev cb' = BkPrev cb \<and>
    (r = Inl IoEOF \<and> cb' = cb \<or> (\<exists>dat. r = Inr dat) \<and> length (BkQueue cb') < length (BkQueue cb))"
proof -
  have one: "\<exists>r cb'. read_one cb (find P q) = (r, cb') \<and> bank_ok ok cb' \<and> BkPrev cb' = BkPrev cb \<and>
    (r = Inl IoEOF \<and> cb' = cb \<or> (\<exists>dat. r = Inr dat) \<and> length (BkQueue cb') < length (BkQueue cb))"
    if "set q \<subseteq> set (BkQueue cb)" for P q
  proof (cases "find P q")
    case (Some cid)
    then have "cid \<in> set (BkQueue cb)" using that by (auto simp: find_Some_iff)
    then show ?thesis using Some take_out_ok [OF assms] take_out_shorter by (simp add: read_one_def take_out_def)
  qed (use assms in \<open>simp add: read_one_def\<close>)
  show ?thesis
  proof (cases "BkQueue cb")
    case Nil
    then show ?thesis using assms by (simp add: Bank_Read_def)
  next
    case (Cons first rest)
    have "length (BkQueue (take_out first cb)) < length (BkQueue cb)" by (rule take_out_shorter) (simp add: Cons)
    moreover have "BkPrev (take_out first cb) = BkPrev cb" by (simp add: take_out_def)
    ultimately show ?thesis
      using one [of "if IsCanyon cfg (L1Time (Bank_Origin origin cb)) then BkQueue cb else [first]" "readable_channel cfg origin cb"]
        take_out_ok [OF assms, of first]
      unfolding Bank_Read_eq [OF assms] by (auto simp: Cons)
  qed
qed

section \<open>The channel bank keeps the contract\<close>

abbreviation bank_left :: "('s \<times> 's) set \<Rightarrow> ('s ChannelBank \<times> 's ChannelBank) set" where
  "bank_left R \<equiv> buffered R BkPrev (\<lambda>cb. length (BkQueue cb))"

context frame_stage
begin

lemma Bank_Next_ok:
  assumes "bank_ok ok cb"
  shows "\<exists>r cb'. Bank_NextRawChannel cfg pull origin cb = Inr (r, cb') \<and> bank_ok ok cb' \<and>
    Bank_Origin origin cb' = Bank_Origin origin cb \<and> good_outcome (\<lambda>dat. True) r \<and> (retry r \<longrightarrow> (cb', cb) \<in> bank_left R)"
proof -
  from Bank_Read_ok [OF assms, of cfg origin] obtain r cb1 where rd: "Bank_Read cfg origin cb = Inr (r, cb1)" "bank_ok ok cb1"
    "BkPrev cb1 = BkPrev cb" "r = Inl IoEOF \<and> cb1 = cb \<or> (\<exists>dat. r = Inr dat) \<and> length (BkQueue cb1) < length (BkQueue cb)" by blast
  show ?thesis
  proof (cases r)
    case (Inr dat)
    then show ?thesis using rd by (simp add: Bank_NextRawChannel_def in_buffered Bank_Origin_def)
  next
    case (Inl err)
    then have eof: "r = Inl IoEOF" "cb1 = cb" using rd(4) by auto
    have "ok (BkPrev cb)" using assms by (simp add: bank_ok_def)
    then obtain fr prev where p: "pull (BkPrev cb) = Inr (fr, prev)" "ok prev" "origin prev = origin (BkPrev cb)"
      "good_outcome frame_ok fr" "retry fr \<longrightarrow> (prev, BkPrev cb) \<in> R" by (rule pullE)
    define cb2 where "cb2 = cb\<lparr>BkPrev := prev\<rparr>"
    have ok2: "bank_ok ok cb2" using assms p(2) by (simp add: bank_ok_def cb2_def)
    show ?thesis
    proof (cases fr)
      case (Inl e)
      then have "Bank_NextRawChannel cfg pull origin cb = Inr (Inl e, cb2)"
        using rd(1) eof p(1) by (simp add: Bank_NextRawChannel_def cb2_def)
      then show ?thesis using ok2 p Inl by (simp add: cb2_def in_buffered Bank_Origin_def)
    next
      case (Inr f)
      have f: "frame_ok f" using p(4) Inr by simp
      from IngestFrame_ok [OF ok2 f, of cfg origin] obtain cb3 where i: "IngestFrame cfg origin f cb2 = Inr cb3" "bank_ok ok cb3"
        "BkPrev cb3 = BkPrev cb2" by blast
      have "Bank_NextRawChannel cfg pull origin cb = Inr (Inl NotEnoughData, cb3)"
        using rd(1) eof p(1) i(1) Inr by (simp add: Bank_NextRawChannel_def flip: cb2_def)
      then show ?thesis using i p Inr by (simp add: cb2_def in_buffered Bank_Origin_def)
    qed
  qed
qed

end

sublocale frame_stage \<subseteq> bank: stage "Bank_NextRawChannel cfg pull origin" "Bank_Origin origin" "bank_ok ok" "bank_left R" "\<lambda>dat. True" for cfg
proof
  show "wf (bank_left R)" by (rule wf_buffered [OF wf_R])
  show "\<exists>r s'. Bank_NextRawChannel cfg pull origin s = Inr (r, s') \<and> bank_ok ok s' \<and>
      Bank_Origin origin s' = Bank_Origin origin s \<and> good_outcome (\<lambda>dat. True) r" if "bank_ok ok s" for s
    using Bank_Next_ok [OF that, of cfg] by blast
  show "(s', s) \<in> bank_left R" if "bank_ok ok s" "Bank_NextRawChannel cfg pull origin s = Inr (r, s')" "retry r" for s r s'
    using Bank_Next_ok [OF that(1), of cfg] that(2,3) by auto
qed

end
