(* ===== verification/Derive_Assembler.thy ===== *)
theory Derive_Assembler
  imports Derive_Bank
begin

text \<open>
  The channel assembler (\<open>op-node/rollup/derive/channel_assembler.go\<close>), which replaces the channel bank since
  Holocene: one channel at a time, frames in order.  Its loop ends when the previous stage reports an error or a
  channel is complete; that it ends is proved for every frame stage.
\<close>

record 's ChannelAssembler =
  AsChannel :: "Channel option"
  AsPrev :: 's

definition NewChannelAssembler :: "'s \<Rightarrow> 's ChannelAssembler" where
  "NewChannelAssembler prev = \<lparr>AsChannel = None, AsPrev = prev\<rparr>"

definition Assembler_Origin :: "('s \<Rightarrow> L1BlockRef) \<Rightarrow> 's ChannelAssembler \<Rightarrow> L1BlockRef" where
  "Assembler_Origin origin ca = origin (AsPrev ca)"

definition resetChannel :: "'s ChannelAssembler \<Rightarrow> 's ChannelAssembler" where
  "resetChannel ca = ca\<lparr>AsChannel := None\<rparr>"

definition Assembler_Reset :: "'s ChannelAssembler \<Rightarrow> derive_error \<times> 's ChannelAssembler" where
  "Assembler_Reset ca = (IoEOF, resetChannel ca)"

text \<open>One pass of the loop on the frame \<open>f\<close>: the state after it, and whether the loop is left.\<close>

definition assemble_step ::
    "Config \<Rightarrow> ('s \<Rightarrow> L1BlockRef) \<Rightarrow> L1BlockRef \<Rightarrow> Frame \<Rightarrow> 's ChannelAssembler \<Rightarrow> bool \<times> 's ChannelAssembler" where
  "assemble_step cfg origin b f ca =
     (let ca = (if FrameNumber f = 0 then ca\<lparr>AsChannel := Some (NewChannel (FrID f) b True)\<rparr> else ca)
      in case AsChannel ca of
           None \<Rightarrow> (False, ca)
         | Some ch \<Rightarrow>
             (case AddFrame f b ch of
                (Some err, _) \<Rightarrow> (False, ca)
              | (None, ch) \<Rightarrow>
                  if MaxRLPBytesPerChannel cfg (L1Time (Assembler_Origin origin ca)) < ChSize ch then (False, resetChannel ca)
                  else (IsLast f, ca\<lparr>AsChannel := Some ch\<rparr>)))"

partial_function (option) assemble_loop ::
    "Config \<Rightarrow> ('s, Frame) puller \<Rightarrow> ('s \<Rightarrow> L1BlockRef) \<Rightarrow> L1BlockRef \<Rightarrow> 's ChannelAssembler \<Rightarrow>
     (derive_error option \<times> 's ChannelAssembler) res option" where
  "assemble_loop cfg pull_frame origin b ca =
     (case pull_frame (AsPrev ca) of
        Inl p \<Rightarrow> Some (Inl p)
      | Inr x \<Rightarrow>
          (let ca = ca\<lparr>AsPrev := snd x\<rparr>
           in case fst x of
                Inl err \<Rightarrow> Some (Inr (Some err, ca))
              | Inr f \<Rightarrow>
                  (let y = assemble_step cfg origin b f ca
                   in if fst y then Some (Inr (None, snd y)) else assemble_loop cfg pull_frame origin b (snd y))))"

text \<open>\<open>None\<close> stands for a loop that does not end.\<close>

definition Assembler_NextRawChannel ::
    "Config \<Rightarrow> ('s, Frame) puller \<Rightarrow> ('s \<Rightarrow> L1BlockRef) \<Rightarrow> 's ChannelAssembler \<Rightarrow>
     (byte list outcome \<times> 's ChannelAssembler) res option" where
  "Assembler_NextRawChannel cfg pull_frame origin ca =
     (let b = Assembler_Origin origin ca;
          ca = (case AsChannel ca of
                  None \<Rightarrow> ca
                | Some ch \<Rightarrow> if channel_timed_out cfg b ch then resetChannel ca else ca)
      in if (case AsChannel ca of None \<Rightarrow> False | Some ch \<Rightarrow> IsReady ch) then Some (Inr (Inl (Leveled LevelCritical), ca))
         else (case assemble_loop cfg pull_frame origin b ca of
                 None \<Rightarrow> None
               | Some (Inl p) \<Rightarrow> Some (Inl p)
               | Some (Inr (Some err, ca)) \<Rightarrow> Some (Inr (Inl err, ca))
               | Some (Inr (None, ca)) \<Rightarrow>
                   (case AsChannel ca of
                      None \<Rightarrow> Some (Inr (Inl (Leveled LevelCritical), ca))
                    | Some ch \<Rightarrow>
                        if \<not> IsReady ch then Some (Inr (Inl (Leveled LevelCritical), ca))
                        else Some (bind_res (Reader ch) (\<lambda>dat. Inr (Inr dat, resetChannel ca))))))"

section \<open>The invariant\<close>

definition channel_open :: "Channel \<Rightarrow> bool" where
  "channel_open ch \<longleftrightarrow> channel_ok ch \<and> requireInOrder ch \<and> \<not> closed ch"

definition assembler_ok :: "('s \<Rightarrow> bool) \<Rightarrow> 's ChannelAssembler \<Rightarrow> bool" where
  "assembler_ok ok ca \<longleftrightarrow> ok (AsPrev ca) \<and> (case AsChannel ca of None \<Rightarrow> True | Some ch \<Rightarrow> channel_open ch)"

lemma in_order_ready:
  assumes "channel_ok ch" "requireInOrder ch" "closed ch"
  shows "IsReady ch"
proof -
  let ?n = "length (inputs ch)" and ?e = "unat (endFrameNumber ch)"
  have keys: "map fst (inputs ch) = [0..<?n]" using assms(1,2) by (simp add: channel_ok_def)
  then have dom: "fst ` set (inputs ch) = {0..<?n}" by (metis set_map set_upt)
  have e: "?e \<in> fst ` set (inputs ch)" using assms(1,3) by (simp add: channel_ok_def)
  then have lt: "?e < ?n" unfolding dom by simp
  have "k \<le> ?e" if "k < ?n" for k
  proof -
    from that have "k \<in> fst ` set (inputs ch)" unfolding dom by simp
    then obtain f where "(k, f) \<in> set (inputs ch)" by auto
    then have "k = unat (FrameNumber f)" "FrameNumber f \<le> endFrameNumber ch"
      using assms(1,3) by (auto simp: channel_ok_def)
    then show ?thesis by (simp add: word_le_nat_alt)
  qed
  from this [of "?n - 1"] lt have n: "?n = ?e + 1" by linarith
  moreover have "map_of (inputs ch) i \<noteq> None" if "i \<le> ?e" for i
    using that n dom by (auto simp: map_of_eq_None_iff)
  ultimately show ?thesis unfolding IsReady_def using assms(3) by (auto simp: list_all_iff)
qed

lemma open_not_ready: "channel_open ch \<Longrightarrow> \<not> IsReady ch"
  by (simp add: channel_open_def IsReady_def)

lemma AddFrame_closed:
  assumes "AddFrame f b ch = (None, ch')" "\<not> closed ch"
  shows "closed ch' \<longleftrightarrow> IsLast f"
  using assms by (auto simp: AddFrame_taken prune_to_def split: option.splits if_splits)

lemma assemble_step_ok:
  assumes inv: "assembler_ok ok ca" and f: "frame_ok f" and s: "assemble_step cfg origin b f ca = (done, ca')"
  shows "AsPrev ca' = AsPrev ca \<and> (\<not> done \<longrightarrow> assembler_ok ok ca') \<and>
    (done \<longrightarrow> ok (AsPrev ca') \<and> (\<exists>ch. AsChannel ca' = Some ch \<and> channel_ok ch \<and> requireInOrder ch \<and> closed ch))"
proof -
  define ca1 where "ca1 = (if FrameNumber f = 0 then ca\<lparr>AsChannel := Some (NewChannel (FrID f) b True)\<rparr> else ca)"
  have "channel_open (NewChannel (FrID f) b True)"
    using channel_ok_New by (simp add: channel_open_def) (simp add: NewChannel_def)
  then have inv1: "assembler_ok ok ca1" "AsPrev ca1 = AsPrev ca" using inv by (simp_all add: assembler_ok_def ca1_def)
  show ?thesis
  proof (cases "AsChannel ca1")
    case None
    then show ?thesis using s inv1 by (auto simp: assemble_step_def Let_def simp flip: ca1_def)
  next
    case (Some ch)
    then have o: "channel_ok ch" "requireInOrder ch" "\<not> closed ch" using inv1 by (simp_all add: assembler_ok_def channel_open_def)
    show ?thesis
    proof (cases "AddFrame f b ch")
      case (Pair err ch')
      show ?thesis
      proof (cases err)
        case Some2: (Some e)
        then show ?thesis using s inv1 Some Pair by (auto simp: assemble_step_def Let_def simp flip: ca1_def)
      next
        case None
        note a = Pair [unfolded None]
        have ch': "channel_ok ch'" "requireInOrder ch'" "closed ch' \<longleftrightarrow> IsLast f"
          using AddFrame_ok [OF o(1) f, of b] AddFrame_keeps [OF a] AddFrame_closed [OF a o(3)] a o(2) by simp_all
        show ?thesis
        proof (cases "MaxRLPBytesPerChannel cfg (L1Time (Assembler_Origin origin ca1)) < ChSize ch'")
          case True
          then show ?thesis using s inv1 Some a
            by (auto simp: assemble_step_def Let_def resetChannel_def assembler_ok_def simp flip: ca1_def)
        next
          case False
          then have "done = IsLast f" "ca' = ca1\<lparr>AsChannel := Some ch'\<rparr>"
            using s Some a by (auto simp: assemble_step_def Let_def simp flip: ca1_def)
          then show ?thesis using ch' inv1 by (auto simp: assembler_ok_def channel_open_def)
        qed
      qed
    qed
  qed
qed

section \<open>The assembler keeps the contract\<close>

definition assembler_left :: "('s \<times> 's) set \<Rightarrow> ('s ChannelAssembler \<times> 's ChannelAssembler) set" where
  "assembler_left R = inv_image (R\<^sup>+) AsPrev"

context frame_stage
begin

lemma assemble_loop_total:
  "assembler_ok ok ca \<Longrightarrow> \<exists>err ca'. assemble_loop cfg pull origin b ca = Some (Inr (err, ca')) \<and>
     ok (AsPrev ca') \<and> origin (AsPrev ca') = origin (AsPrev ca) \<and>
     (case err of
        Some e \<Rightarrow> e \<noteq> Leveled LevelCritical \<and> assembler_ok ok ca' \<and> (e = NotEnoughData \<longrightarrow> (AsPrev ca', AsPrev ca) \<in> R\<^sup>+)
      | None \<Rightarrow> (AsPrev ca', AsPrev ca) \<in> R\<^sup>+ \<and> (\<exists>ch. AsChannel ca' = Some ch \<and> channel_ok ch \<and> requireInOrder ch \<and> closed ch))"
proof (induction "AsPrev ca" arbitrary: ca rule: wf_induct_rule [OF wf_R])
  case 1
  have "ok (AsPrev ca)" using "1.prems" by (simp add: assembler_ok_def)
  then obtain r prev where p: "pull (AsPrev ca) = Inr (r, prev)" "ok prev" "origin prev = origin (AsPrev ca)"
    "good_outcome frame_ok r" "retry r \<longrightarrow> (prev, AsPrev ca) \<in> R" by (rule pullE)
  define ca1 where "ca1 = ca\<lparr>AsPrev := prev\<rparr>"
  have inv1: "assembler_ok ok ca1" using "1.prems" p(2) by (simp add: assembler_ok_def ca1_def)
  show ?case
  proof (cases r)
    case (Inl e)
    then have "assemble_loop cfg pull origin b ca = Some (Inr (Some e, ca1))"
      using p(1) by (subst assemble_loop.simps) (simp add: ca1_def)
    then show ?thesis using inv1 p Inl by (auto simp: ca1_def)
  next
    case (Inr f)
    have f: "frame_ok f" and less: "(prev, AsPrev ca) \<in> R" using p(4,5) Inr by simp_all
    obtain fin ca2 where s: "assemble_step cfg origin b f ca1 = (fin, ca2)" by (cases "assemble_step cfg origin b f ca1")
    note st = assemble_step_ok [OF inv1 f s]
    have prev2: "AsPrev ca2 = prev" using st by (simp add: ca1_def)
    have loop: "assemble_loop cfg pull origin b ca = (if fin then Some (Inr (None, ca2)) else assemble_loop cfg pull origin b ca2)"
      using p(1) Inr s by (subst assemble_loop.simps) (simp add: ca1_def)
    show ?thesis
    proof (cases fin)
      case True
      then show ?thesis using loop st p(2,3) less prev2 by auto
    next
      case False
      have "(AsPrev ca2, AsPrev ca) \<in> R" using less prev2 by simp
      from "1.hyps" [OF this] st False obtain err ca' where IH: "assemble_loop cfg pull origin b ca2 = Some (Inr (err, ca'))"
        "ok (AsPrev ca')" "origin (AsPrev ca') = origin (AsPrev ca2)"
        "case err of
          Some e \<Rightarrow> e \<noteq> Leveled LevelCritical \<and> assembler_ok ok ca' \<and> (e = NotEnoughData \<longrightarrow> (AsPrev ca', AsPrev ca2) \<in> R\<^sup>+)
        | None \<Rightarrow> (AsPrev ca', AsPrev ca2) \<in> R\<^sup>+ \<and> (\<exists>ch. AsChannel ca' = Some ch \<and> channel_ok ch \<and> requireInOrder ch \<and> closed ch)" by auto
      have "(AsPrev ca', AsPrev ca2) \<in> R\<^sup>+ \<Longrightarrow> (AsPrev ca', AsPrev ca) \<in> R\<^sup>+"
        using less prev2 by (metis trancl.trancl_into_trancl)
      then show ?thesis using IH loop False p(3) prev2
        by (intro exI [of _ err] exI [of _ ca']) (auto split: option.splits)
    qed
  qed
qed

lemma Assembler_Next_ok:
  assumes "assembler_ok ok ca"
  shows "\<exists>r ca'. Assembler_NextRawChannel cfg pull origin ca = Some (Inr (r, ca')) \<and> assembler_ok ok ca' \<and>
    Assembler_Origin origin ca' = Assembler_Origin origin ca \<and> good_outcome (\<lambda>dat. True) r \<and>
    (retry r \<longrightarrow> (ca', ca) \<in> assembler_left R)"
proof -
  define b where "b = Assembler_Origin origin ca"
  define ca1 where "ca1 = (case AsChannel ca of None \<Rightarrow> ca | Some ch \<Rightarrow> if channel_timed_out cfg b ch then resetChannel ca else ca)"
  have inv1: "assembler_ok ok ca1" "AsPrev ca1 = AsPrev ca"
    using assms by (auto simp: ca1_def assembler_ok_def resetChannel_def split: option.split)
  have nr: "\<not> (case AsChannel ca1 of None \<Rightarrow> False | Some ch \<Rightarrow> IsReady ch)"
    using inv1(1) open_not_ready by (auto simp: assembler_ok_def split: option.splits)
  from assemble_loop_total [OF inv1(1), of cfg b] obtain err ca2 where l: "assemble_loop cfg pull origin b ca1 = Some (Inr (err, ca2))"
    "ok (AsPrev ca2)" "origin (AsPrev ca2) = origin (AsPrev ca1)"
    "case err of
        Some e \<Rightarrow> e \<noteq> Leveled LevelCritical \<and> assembler_ok ok ca2 \<and> (e = NotEnoughData \<longrightarrow> (AsPrev ca2, AsPrev ca1) \<in> R\<^sup>+)
      | None \<Rightarrow> (AsPrev ca2, AsPrev ca1) \<in> R\<^sup>+ \<and> (\<exists>ch. AsChannel ca2 = Some ch \<and> channel_ok ch \<and> requireInOrder ch \<and> closed ch)" by blast
  have run: "Assembler_NextRawChannel cfg pull origin ca = (case Some (Inr (err, ca2) :: (derive_error option \<times> 's ChannelAssembler) res) of
                 None \<Rightarrow> None
               | Some (Inl p) \<Rightarrow> Some (Inl p)
               | Some (Inr (Some err, ca)) \<Rightarrow> Some (Inr (Inl err, ca))
               | Some (Inr (None, ca)) \<Rightarrow>
                   (case AsChannel ca of
                      None \<Rightarrow> Some (Inr (Inl (Leveled LevelCritical), ca))
                    | Some ch \<Rightarrow>
                        if \<not> IsReady ch then Some (Inr (Inl (Leveled LevelCritical), ca))
                        else Some (bind_res (Reader ch) (\<lambda>dat. Inr (Inr dat, resetChannel ca)))))"
    unfolding Assembler_NextRawChannel_def Let_def b_def [symmetric] ca1_def [symmetric] l(1) using nr by simp
  show ?thesis
  proof (cases err)
    case (Some e)
    then have "Assembler_NextRawChannel cfg pull origin ca = Some (Inr (Inl e, ca2))" using run by simp
    then show ?thesis using l inv1 Some by (simp add: Assembler_Origin_def assembler_left_def)
  next
    case None
    then obtain ch where ch: "AsChannel ca2 = Some ch" "channel_ok ch" "requireInOrder ch" "closed ch" "(AsPrev ca2, AsPrev ca1) \<in> R\<^sup>+"
      using l(4) by auto
    have ready: "IsReady ch" by (rule in_order_ready [OF ch(2-4)])
    then have "Assembler_NextRawChannel cfg pull origin ca = Some (Inr (Inr (channel_data ch), resetChannel ca2))"
      using run None ch(1) Reader_ready [OF ready] by (simp add: channel_data_def)
    then show ?thesis using l(2,3) inv1 ch(5)
      by (simp add: Assembler_Origin_def assembler_left_def resetChannel_def assembler_ok_def)
  qed
qed

end

text \<open>The loop ends on every state the contract allows, so the assembler is a stage like the others.\<close>

definition Assembler_pull :: "Config \<Rightarrow> ('s, Frame) puller \<Rightarrow> ('s \<Rightarrow> L1BlockRef) \<Rightarrow> ('s ChannelAssembler, byte list) puller" where
  "Assembler_pull cfg pull_frame origin ca = the (Assembler_NextRawChannel cfg pull_frame origin ca)"

sublocale frame_stage \<subseteq> asm: stage "Assembler_pull cfg pull origin" "Assembler_Origin origin" "assembler_ok ok" "assembler_left R" "\<lambda>dat. True"
  for cfg
proof
  show "wf (assembler_left R)" unfolding assembler_left_def by (rule wf_inv_image [OF wf_trancl [OF wf_R]])
  show "\<exists>r s'. Assembler_pull cfg pull origin s = Inr (r, s') \<and> assembler_ok ok s' \<and>
      Assembler_Origin origin s' = Assembler_Origin origin s \<and> good_outcome (\<lambda>dat. True) r" if "assembler_ok ok s" for s
    using Assembler_Next_ok [OF that, of cfg] by (auto simp: Assembler_pull_def)
  show "(s', s) \<in> assembler_left R" if "assembler_ok ok s" "Assembler_pull cfg pull origin s = Inr (r, s')" "retry r" for s r s'
    using Assembler_Next_ok [OF that(1), of cfg] that(2,3) by (auto simp: Assembler_pull_def)
qed

end
