(* ===== verification/Derive_Source.thy ===== *)
theory Derive_Source
  imports Derive_SysCfg Blob_Codec Derive_Assembler
begin

text \<open>
  The L1 end of the pipeline: \<open>l1_traversal.go\<close>, \<open>data_source.go\<close>, \<open>calldata_source.go\<close>,
  \<open>blob_data_source.go\<close> and \<open>l1_retrieval.go\<close>.  The L1 client, the beacon client and signature recovery are not under
  src: they are a record of functions over an environment \<open>'e\<close>, which they may change, so that a repeated request can
  have another answer.  A transaction is what its accessors return.  Alt-DA chains are left out: \<open>OpenData\<close> is the
  function for a configuration without Alt-DA.
\<close>

section \<open>Transactions and fetchers\<close>

record Tx =
  TxType :: byte
  TxTo :: "Addr option"
  TxData :: "byte list"
  TxBlobHashes :: "H256 list"

definition BlobTxType :: byte where [simp]: "BlobTxType = 3"
definition DepositTxType :: byte where [simp]: "DepositTxType = 0x7E"

datatype fetch_error = NotFound | FetchFailed

record IndexedBlobHash =
  IdxIndex :: Word
  IdxHash :: H256

record 'e Fetcher =
  InfoAndTxsByHash :: "'e \<Rightarrow> H256 \<Rightarrow> (fetch_error + Tx list) \<times> 'e"
  GetBlobs :: "'e \<Rightarrow> L1BlockRef \<Rightarrow> IndexedBlobHash list \<Rightarrow> (fetch_error + byte list option list) \<times> 'e"
  L1BlockRefByNumber :: "'e \<Rightarrow> Word \<Rightarrow> (fetch_error + L1BlockRef) \<times> 'e"
  FetchReceipts :: "'e \<Rightarrow> H256 \<Rightarrow> (fetch_error + Receipt list) \<times> 'e"

record DataSourceConfig =
  l1Signer :: "Tx \<Rightarrow> Addr option"
  batchInboxAddress :: Addr

definition isValidBatchTx :: "Tx \<Rightarrow> (Tx \<Rightarrow> Addr option) \<Rightarrow> Addr \<Rightarrow> Addr \<Rightarrow> bool" where
  "isValidBatchTx tx signer batchInboxAddr batcherAddr =
     (if BlobTxType < TxType tx \<and> TxType tx \<noteq> DepositTxType then False
      else (case TxTo tx of
              None \<Rightarrow> False
            | Some a \<Rightarrow>
                if a \<noteq> batchInboxAddr then False
                else (case signer tx of None \<Rightarrow> False | Some seqDataSubmitter \<Rightarrow> seqDataSubmitter = batcherAddr)))"

section \<open>Calldata\<close>

definition DataFromEVMTransactions :: "DataSourceConfig \<Rightarrow> Addr \<Rightarrow> Tx list \<Rightarrow> byte list list" where
  "DataFromEVMTransactions dsCfg batcherAddr txs =
     foldl (\<lambda>out tx. if isValidBatchTx tx (l1Signer dsCfg) (batchInboxAddress dsCfg) batcherAddr then out @ [TxData tx] else out) [] txs"

record CalldataSource =
  CdOpen :: bool
  CdData :: "byte list list"
  CdRef :: L1BlockRef
  CdBatcher :: Addr

definition NewCalldataSource :: "'e Fetcher \<Rightarrow> DataSourceConfig \<Rightarrow> L1BlockRef \<Rightarrow> Addr \<Rightarrow> 'e \<Rightarrow> CalldataSource \<times> 'e" where
  "NewCalldataSource f dsCfg ref batcherAddr e =
     (case InfoAndTxsByHash f e (L1Hash ref) of
        (Inl err, e') \<Rightarrow> (\<lparr>CdOpen = False, CdData = [], CdRef = ref, CdBatcher = batcherAddr\<rparr>, e')
      | (Inr txs, e') \<Rightarrow>
          (\<lparr>CdOpen = True, CdData = DataFromEVMTransactions dsCfg batcherAddr txs, CdRef = no_block, CdBatcher = 0\<rparr>, e'))"

definition Calldata_Next ::
    "'e Fetcher \<Rightarrow> DataSourceConfig \<Rightarrow> CalldataSource \<Rightarrow> 'e \<Rightarrow> byte list outcome \<times> CalldataSource \<times> 'e" where
  "Calldata_Next f dsCfg ds e =
     (let opened = (if CdOpen ds then Inr (ds, e)
          else (case InfoAndTxsByHash f e (L1Hash (CdRef ds)) of
                  (Inr txs, e') \<Rightarrow> Inr (ds\<lparr>CdOpen := True, CdData := DataFromEVMTransactions dsCfg (CdBatcher ds) txs\<rparr>, e')
                | (Inl err, e') \<Rightarrow> Inl (if err = NotFound then Leveled LevelReset else Leveled LevelTemporary, e')))
      in case opened of
           Inl (err, e') \<Rightarrow> (Inl err, ds, e')
         | Inr (ds, e') \<Rightarrow>
             (case CdData ds of
                [] \<Rightarrow> (Inl IoEOF, ds, e')
              | dat # rest \<Rightarrow> (Inr dat, ds\<lparr>CdData := rest\<rparr>, e')))"

section \<open>Blobs\<close>

text \<open>\<open>blob\<close> is the body once it is fetched; an element with neither part is a placeholder.\<close>

record blobOrCalldata =
  bcBlob :: "byte list option"
  bcCalldata :: "byte list option"

record BlobDataSource =
  BdData :: "blobOrCalldata list option"
  BdRef :: L1BlockRef
  BdBatcher :: Addr

definition NewBlobDataSource :: "L1BlockRef \<Rightarrow> Addr \<Rightarrow> BlobDataSource" where
  "NewBlobDataSource ref batcherAddr = \<lparr>BdData = None, BdRef = ref, BdBatcher = batcherAddr\<rparr>"

definition collect_tx ::
    "DataSourceConfig \<Rightarrow> Addr \<Rightarrow> blobOrCalldata list \<times> IndexedBlobHash list \<times> nat \<Rightarrow> Tx \<Rightarrow> blobOrCalldata list \<times> IndexedBlobHash list \<times> nat"
  where
  "collect_tx config batcherAddr acc tx =
     (let (dat, hashes, blobIndex) = acc
      in if \<not> isValidBatchTx tx (l1Signer config) (batchInboxAddress config) batcherAddr then
           (dat, hashes, blobIndex + length (TxBlobHashes tx))
         else if TxType tx \<noteq> BlobTxType then
           (dat @ [\<lparr>bcBlob = None, bcCalldata = Some (TxData tx)\<rparr>], hashes, blobIndex)
         else
           foldl (\<lambda>(dat, hashes, blobIndex) h.
               (dat @ [\<lparr>bcBlob = None, bcCalldata = None\<rparr>], hashes @ [\<lparr>IdxIndex = of_nat blobIndex, IdxHash = h\<rparr>], blobIndex + 1))
             (dat, hashes, blobIndex) (TxBlobHashes tx))"

definition dataAndHashesFromTxs :: "Tx list \<Rightarrow> DataSourceConfig \<Rightarrow> Addr \<Rightarrow> blobOrCalldata list \<times> IndexedBlobHash list" where
  "dataAndHashesFromTxs txs config batcherAddr =
     (case foldl (collect_tx config batcherAddr) ([], [], 0) txs of (dat, hashes, _) \<Rightarrow> (dat, hashes))"

datatype fill_error = NotEnoughBlobs | NilBlob | TooManyBlobs

text \<open>The loop over \<open>data\<close> with the blobs not yet used; pointers filled in before an error stay, but are not used.\<close>

fun fillBlobPointers :: "blobOrCalldata list \<Rightarrow> byte list option list \<Rightarrow> fill_error + blobOrCalldata list" where
  "fillBlobPointers [] blobs = (if blobs \<noteq> [] then Inl TooManyBlobs else Inr [])"
| "fillBlobPointers (d # ds) blobs =
     (if bcCalldata d \<noteq> None then bind_res (fillBlobPointers ds blobs) (\<lambda>ds'. Inr (d # ds'))
      else (case blobs of
              [] \<Rightarrow> Inl NotEnoughBlobs
            | None # _ \<Rightarrow> Inl NilBlob
            | Some b # blobs' \<Rightarrow> bind_res (fillBlobPointers ds blobs') (\<lambda>ds'. Inr (d\<lparr>bcBlob := Some b\<rparr> # ds'))))"

definition blob_open ::
    "'e Fetcher \<Rightarrow> DataSourceConfig \<Rightarrow> BlobDataSource \<Rightarrow> 'e \<Rightarrow> blobOrCalldata list outcome \<times> 'e" where
  "blob_open f dsCfg ds e =
     (case InfoAndTxsByHash f e (L1Hash (BdRef ds)) of
        (Inl err, e1) \<Rightarrow> (Inl (if err = NotFound then Leveled LevelReset else Leveled LevelTemporary), e1)
      | (Inr txs, e1) \<Rightarrow>
          let (dat, hashes) = dataAndHashesFromTxs txs dsCfg (BdBatcher ds)
          in if length hashes = 0 then (Inr dat, e1)
             else (case GetBlobs f e1 (BdRef ds) hashes of
                     (Inl err, e2) \<Rightarrow> (Inl (if err = NotFound then Leveled LevelReset else Leveled LevelTemporary), e2)
                   | (Inr blobs, e2) \<Rightarrow>
                       (case fillBlobPointers dat blobs of
                          Inl _ \<Rightarrow> (Inl (Leveled LevelReset), e2)
                        | Inr dat \<Rightarrow> (Inr dat, e2))))"

text \<open>Taking the next piece of data from the open source, passing over blobs that cannot be decoded.\<close>

fun blob_take :: "blobOrCalldata list \<Rightarrow> (byte list outcome \<times> blobOrCalldata list) res" where
  "blob_take [] = Inr (Inl IoEOF, [])"
| "blob_take (nxt # rest) =
     (case bcCalldata nxt of
        Some dat \<Rightarrow> Inr (Inr dat, rest)
      | None \<Rightarrow>
          (case bcBlob nxt of
             None \<Rightarrow> Inl NilDereference
           | Some b \<Rightarrow> (case ToData b of Inl _ \<Rightarrow> blob_take rest | Inr dat \<Rightarrow> Inr (Inr dat, rest))))"

definition Blob_Next ::
    "'e Fetcher \<Rightarrow> DataSourceConfig \<Rightarrow> BlobDataSource \<Rightarrow> 'e \<Rightarrow> (byte list outcome \<times> BlobDataSource \<times> 'e) res" where
  "Blob_Next f dsCfg ds e =
     (let opened = (case BdData ds of Some dat \<Rightarrow> (Inr dat, e) | None \<Rightarrow> blob_open f dsCfg ds e)
      in case opened of
           (Inl err, e') \<Rightarrow> Inr (Inl err, ds, e')
         | (Inr dat, e') \<Rightarrow> bind_res (blob_take dat) (\<lambda>(r, dat'). Inr (r, ds\<lparr>BdData := Some dat'\<rparr>, e')))"

section \<open>Retrieval\<close>

datatype DataIter = CalldataIter CalldataSource | BlobIter BlobDataSource

definition Iter_Next :: "'e Fetcher \<Rightarrow> DataSourceConfig \<Rightarrow> DataIter \<Rightarrow> 'e \<Rightarrow> (byte list outcome \<times> DataIter \<times> 'e) res" where
  "Iter_Next f dsCfg it e =
     (case it of
        CalldataIter ds \<Rightarrow> (case Calldata_Next f dsCfg ds e of (r, ds', e') \<Rightarrow> Inr (r, CalldataIter ds', e'))
      | BlobIter ds \<Rightarrow> bind_res (Blob_Next f dsCfg ds e) (\<lambda>(r, ds', e'). Inr (r, BlobIter ds', e')))"

record DataSourceFactory =
  FacCfg :: DataSourceConfig
  FacEcotoneTime :: "Word option"
  FacHasBlobsFetcher :: bool

definition OpenData :: "'e Fetcher \<Rightarrow> DataSourceFactory \<Rightarrow> L1BlockRef \<Rightarrow> Addr \<Rightarrow> 'e \<Rightarrow> DataIter outcome \<times> 'e" where
  "OpenData f ds ref batcherAddr e =
     (if (case FacEcotoneTime ds of None \<Rightarrow> False | Some t \<Rightarrow> t \<le> L1Time ref) then
        if \<not> FacHasBlobsFetcher ds then (Inl OtherError, e)
        else (Inr (BlobIter (NewBlobDataSource ref batcherAddr)), e)
      else (case NewCalldataSource f (FacCfg ds) ref batcherAddr e of (src, e') \<Rightarrow> (Inr (CalldataIter src), e')))"

record L1Traversal =
  TrBlock :: L1BlockRef
  TrDone :: bool
  TrSysCfg :: SystemConfig

definition NextL1Block :: "L1Traversal \<Rightarrow> L1BlockRef outcome \<times> L1Traversal" where
  "NextL1Block l1t = (if \<not> TrDone l1t then (Inr (TrBlock l1t), l1t\<lparr>TrDone := True\<rparr>) else (Inl IoEOF, l1t))"

text \<open>\<open>Inl\<close> is the error, with the state as it is then; the system configuration keeps the updates applied before
  a malformed one was met.\<close>

definition AdvanceL1Block ::
    "'e Fetcher \<Rightarrow> H256 \<Rightarrow> Config \<Rightarrow> L1Traversal \<Rightarrow> 'e \<Rightarrow> derive_error option \<times> L1Traversal \<times> 'e" where
  "AdvanceL1Block f h cfg l1t e =
     (let origin = TrBlock l1t
      in case L1BlockRefByNumber f e (L1Number origin + 1) of
           (Inl err, e1) \<Rightarrow> (Some (if err = NotFound then IoEOF else Leveled LevelTemporary), l1t, e1)
         | (Inr nextL1Origin, e1) \<Rightarrow>
             if L1Hash (TrBlock l1t) \<noteq> L1ParentHash nextL1Origin then (Some (Leveled LevelReset), l1t, e1)
             else (case FetchReceipts f e1 (L1Hash nextL1Origin) of
                     (Inl err, e2) \<Rightarrow> (Some (Leveled LevelTemporary), l1t, e2)
                   | (Inr receipts, e2) \<Rightarrow>
                       let (sysCfg, errs) = UpdateSystemConfigWithL1Receipts h (TrSysCfg l1t) receipts cfg (L1Time nextL1Origin);
                           l1t = l1t\<lparr>TrSysCfg := sysCfg\<rparr>
                       in if errs \<noteq> [] then (Some (Leveled LevelCritical), l1t, e2)
                          else (None, l1t\<lparr>TrBlock := nextL1Origin, TrDone := False\<rparr>, e2)))"

record 'e L1Retrieval =
  RtPrev :: L1Traversal
  RtDatas :: "DataIter option"
  RtEnv :: 'e

definition Retrieval_Origin :: "'e L1Retrieval \<Rightarrow> L1BlockRef" where
  "Retrieval_Origin l1r = TrBlock (RtPrev l1r)"

definition NextData :: "'e Fetcher \<Rightarrow> DataSourceFactory \<Rightarrow> ('e L1Retrieval, byte list) puller" where
  "NextData f src l1r =
     (let opened = (case RtDatas l1r of
          Some it \<Rightarrow> Inr (it, l1r)
        | None \<Rightarrow>
            (case NextL1Block (RtPrev l1r) of
               (Inl err, p) \<Rightarrow> Inl (err, l1r\<lparr>RtPrev := p\<rparr>)
             | (Inr nxt, p) \<Rightarrow>
                 (case OpenData f src nxt (BatcherAddr (TrSysCfg p)) (RtEnv l1r) of
                    (Inl err, e) \<Rightarrow> Inl (err, l1r\<lparr>RtPrev := p, RtEnv := e\<rparr>)
                  | (Inr it, e) \<Rightarrow> Inr (it, l1r\<lparr>RtPrev := p, RtEnv := e\<rparr>))))
      in case opened of
           Inl (err, l1r) \<Rightarrow> Inr (Inl err, l1r)
         | Inr (it, l1r) \<Rightarrow>
             bind_res (Iter_Next f (FacCfg src) it (RtEnv l1r)) (\<lambda>(r, it', e).
               if r = Inl IoEOF then Inr (Inl IoEOF, l1r\<lparr>RtDatas := None, RtEnv := e\<rparr>)
               else Inr (r, l1r\<lparr>RtDatas := Some it', RtEnv := e\<rparr>)))"

definition Retrieval_Reset ::
    "'e Fetcher \<Rightarrow> DataSourceFactory \<Rightarrow> L1BlockRef \<Rightarrow> SystemConfig \<Rightarrow> 'e L1Retrieval \<Rightarrow> derive_error \<times> 'e L1Retrieval" where
  "Retrieval_Reset f src base sysCfg l1r =
     (case OpenData f src base (BatcherAddr sysCfg) (RtEnv l1r) of
        (Inl err, e) \<Rightarrow> (err, l1r\<lparr>RtDatas := None, RtEnv := e\<rparr>)
      | (Inr it, e) \<Rightarrow> (IoEOF, l1r\<lparr>RtDatas := Some it, RtEnv := e\<rparr>))"

definition Traversal_Reset :: "L1BlockRef \<Rightarrow> SystemConfig \<Rightarrow> L1Traversal \<Rightarrow> derive_error \<times> L1Traversal" where
  "Traversal_Reset base cfg l1t = (IoEOF, l1t\<lparr>TrBlock := base, TrDone := False, TrSysCfg := cfg\<rparr>)"

section \<open>What the sources return\<close>

abbreviation valid_tx :: "DataSourceConfig \<Rightarrow> Addr \<Rightarrow> Tx \<Rightarrow> bool" where
  "valid_tx c batcher tx \<equiv> isValidBatchTx tx (l1Signer c) (batchInboxAddress c) batcher"

lemma DataFromEVMTransactions_filter: "DataFromEVMTransactions c b txs = map TxData (filter (valid_tx c b) txs)"
proof -
  have "foldl (\<lambda>out tx. if valid_tx c b tx then out @ [TxData tx] else out) out txs = out @ map TxData (filter (valid_tx c b) txs)" for out
    by (induction txs arbitrary: out) simp_all
  then show ?thesis by (simp add: DataFromEVMTransactions_def)
qed

definition placeholder :: "blobOrCalldata \<Rightarrow> bool" where
  "placeholder d \<longleftrightarrow> bcCalldata d = None \<and> bcBlob d = None"

definition push_hash ::
    "blobOrCalldata list \<times> IndexedBlobHash list \<times> nat \<Rightarrow> H256 \<Rightarrow> blobOrCalldata list \<times> IndexedBlobHash list \<times> nat" where
  "push_hash = (\<lambda>(dat, hashes, blobIndex) h.
     (dat @ [\<lparr>bcBlob = None, bcCalldata = None\<rparr>], hashes @ [\<lparr>IdxIndex = of_nat blobIndex, IdxHash = h\<rparr>], blobIndex + 1))"

lemma collect_tx_eq: "collect_tx c b acc tx =
   (if \<not> valid_tx c b tx then (fst acc, fst (snd acc), snd (snd acc) + length (TxBlobHashes tx))
    else if TxType tx \<noteq> BlobTxType then (fst acc @ [\<lparr>bcBlob = None, bcCalldata = Some (TxData tx)\<rparr>], snd acc)
    else foldl push_hash acc (TxBlobHashes tx))"
  by (simp add: collect_tx_def push_hash_def case_prod_beta)

text \<open>The blob hashes of a block with the transactions they belong to; the index of a blob is its place in this list.\<close>

definition tx_hashes :: "Tx list \<Rightarrow> (Tx \<times> H256) list" where
  "tx_hashes txs = concat (map (\<lambda>tx. map (Pair tx) (TxBlobHashes tx)) txs)"

text \<open>Index and hash of the blobs of the batcher's transactions, numbered from \<open>k\<close>.\<close>

definition batcher_blobs :: "DataSourceConfig \<Rightarrow> Addr \<Rightarrow> nat \<Rightarrow> Tx list \<Rightarrow> (nat \<times> H256) list" where
  "batcher_blobs c b k txs =
     map (\<lambda>(i, tx, h). (i, h)) (filter (\<lambda>(i, tx, h). valid_tx c b tx) (enumerate k (tx_hashes txs)))"

text \<open>The data of the batcher's transactions in order: \<open>f h\<close> stands for the blob with hash \<open>h\<close>.\<close>

definition batcher_data :: "DataSourceConfig \<Rightarrow> Addr \<Rightarrow> (H256 \<Rightarrow> byte list option) \<Rightarrow> Tx list \<Rightarrow> blobOrCalldata list" where
  "batcher_data c b f txs = concat (map (\<lambda>tx.
     if TxType tx = BlobTxType then map (\<lambda>h. \<lparr>bcBlob = f h, bcCalldata = None\<rparr>) (TxBlobHashes tx)
     else [\<lparr>bcBlob = None, bcCalldata = Some (TxData tx)\<rparr>]) (filter (valid_tx c b) txs))"

definition only_blob_txs_have_hashes :: "Tx list \<Rightarrow> bool" where
  "only_blob_txs_have_hashes txs \<longleftrightarrow> (\<forall>tx\<in>set txs. TxType tx \<noteq> BlobTxType \<longrightarrow> TxBlobHashes tx = [])"

lemma enumerate_Pair: "enumerate k (map (Pair tx) hs) = map (\<lambda>(i, h). (i, tx, h)) (enumerate k hs)"
  by (induction hs arbitrary: k) simp_all

lemma batcher_blobs_Cons:
  "batcher_blobs c b k (tx # txs) =
     (if valid_tx c b tx then enumerate k (TxBlobHashes tx) else []) @ batcher_blobs c b (k + length (TxBlobHashes tx)) txs"
  by (simp add: batcher_blobs_def tx_hashes_def enumerate_append_eq enumerate_Pair filter_map comp_def case_prod_beta)

lemma push_hashes: "foldl push_hash (dat, hashes, k) hs =
    (dat @ map (\<lambda>h. \<lparr>bcBlob = None, bcCalldata = None\<rparr>) hs,
     hashes @ map (\<lambda>(i, h). \<lparr>IdxIndex = of_nat i, IdxHash = h\<rparr>) (enumerate k hs), k + length hs)"
  by (induction hs arbitrary: dat hashes k) (simp_all add: push_hash_def)

lemma collect_txs:
  assumes "only_blob_txs_have_hashes txs"
  shows "foldl (collect_tx c b) (dat, hashes, k) txs =
    (dat @ batcher_data c b (\<lambda>_. None) txs,
     hashes @ map (\<lambda>(i, h). \<lparr>IdxIndex = of_nat i, IdxHash = h\<rparr>) (batcher_blobs c b k txs), k + length (tx_hashes txs))"
  using assms
proof (induction txs arbitrary: dat hashes k)
  case (Cons tx txs)
  have rest: "only_blob_txs_have_hashes txs" and tx: "TxType tx \<noteq> BlobTxType \<longrightarrow> TxBlobHashes tx = []"
    using Cons.prems by (simp_all add: only_blob_txs_have_hashes_def)
  show ?case
    using tx by (auto simp: collect_tx_eq [of c b "(dat, hashes, k)" tx] push_hashes Cons.IH [OF rest] batcher_data_def batcher_blobs_Cons tx_hashes_def)
qed (simp add: batcher_data_def batcher_blobs_def tx_hashes_def)

lemma batcher_blobs_index: "x \<in> set (batcher_blobs c b k txs) \<Longrightarrow> fst x < k + length (tx_hashes txs)"
  by (auto simp: batcher_blobs_def in_set_enumerate_eq)

lemma fill_blobs:
  "fillBlobPointers (map (\<lambda>h. \<lparr>bcBlob = None, bcCalldata = None\<rparr>) hs @ ds) (map (\<lambda>h. Some (body h)) hs @ blobs) =
     bind_res (fillBlobPointers ds blobs) (\<lambda>ds'. Inr (map (\<lambda>h. \<lparr>bcBlob = Some (body h), bcCalldata = None\<rparr>) hs @ ds'))"
  by (induction hs) (cases "fillBlobPointers ds blobs"; simp)+

lemma fill_batcher_data:
  assumes "only_blob_txs_have_hashes txs"
  shows "fillBlobPointers (batcher_data c b (\<lambda>_. None) txs) (map (\<lambda>x. Some (body (snd x))) (batcher_blobs c b k txs)) =
    Inr (batcher_data c b (\<lambda>h. Some (body h)) txs)"
  using assms
proof (induction txs arbitrary: k)
  case (Cons tx txs)
  have rest: "only_blob_txs_have_hashes txs" and tx: "TxType tx \<noteq> BlobTxType \<longrightarrow> TxBlobHashes tx = []"
    using Cons.prems by (simp_all add: only_blob_txs_have_hashes_def)
  have bodies: "map (\<lambda>x. Some (body (snd x))) (enumerate k hs) = map (\<lambda>h. Some (body h)) hs" for hs k
    by (induction hs arbitrary: k) simp_all
  note IH = Cons.IH [OF rest, of "k + length (TxBlobHashes tx)"]
  have step: "batcher_data c b f (tx # txs) = batcher_data c b f [tx] @ batcher_data c b f txs" for f
    by (simp add: batcher_data_def)
  consider "\<not> valid_tx c b tx" | "valid_tx c b tx" "TxType tx = BlobTxType" | "valid_tx c b tx" "TxType tx \<noteq> BlobTxType" by blast
  then show ?case
  proof cases
    case 1
    then show ?thesis using IH by (simp add: batcher_blobs_Cons batcher_data_def)
  next
    case 2
    then have one: "batcher_data c b f [tx] = map (\<lambda>h. \<lparr>bcBlob = f h, bcCalldata = None\<rparr>) (TxBlobHashes tx)" for f
      by (simp add: batcher_data_def)
    have blobs: "map (\<lambda>x. Some (body (snd x))) (batcher_blobs c b k (tx # txs)) =
        map (\<lambda>h. Some (body h)) (TxBlobHashes tx) @
        map (\<lambda>x. Some (body (snd x))) (batcher_blobs c b (k + length (TxBlobHashes tx)) txs)"
      using 2 by (simp add: batcher_blobs_Cons bodies)
    show ?thesis unfolding step blobs one fill_blobs IH bind_res_Inr ..
  next
    case 3
    then show ?thesis using IH tx by (simp add: batcher_blobs_Cons step [of _] batcher_data_def)
  qed
qed (simp add: batcher_data_def batcher_blobs_def tx_hashes_def)

lemma batcher_data_waiting:
  assumes "only_blob_txs_have_hashes txs"
  shows "length (filter placeholder (batcher_data c b (\<lambda>_. None) txs)) = length (batcher_blobs c b k txs)"
  using assms
proof (induction txs arbitrary: k)
  case (Cons tx txs)
  then show ?case
    by (auto simp: only_blob_txs_have_hashes_def batcher_data_def batcher_blobs_Cons placeholder_def filter_map comp_def)
qed (simp add: batcher_data_def batcher_blobs_def tx_hashes_def)

lemma fill_accepts:
  assumes "\<forall>d\<in>set dat. bcBlob d = None"
  shows "(\<exists>filled. fillBlobPointers dat blobs = Inr filled) \<longleftrightarrow> length blobs = length (filter placeholder dat) \<and> None \<notin> set blobs"
  using assms
  by (induction dat blobs rule: fillBlobPointers.induct) (auto simp: placeholder_def bind_res_eq_Inr split: list.splits option.splits)

text \<open>The transactions that count: of a type up to blobs or a deposit, sent to the inbox and signed by the batcher.\<close>

definition from_batcher :: "DataSourceConfig \<Rightarrow> Addr \<Rightarrow> Tx \<Rightarrow> bool" where
  "from_batcher c batcher tx \<longleftrightarrow> (TxType tx \<le> BlobTxType \<or> TxType tx = DepositTxType) \<and>
     TxTo tx = Some (batchInboxAddress c) \<and> l1Signer c tx = Some batcher"

lemma isValidBatchTx_exact: "valid_tx c b tx \<longleftrightarrow> from_batcher c b tx"
  by (auto simp: isValidBatchTx_def from_batcher_def not_less split: option.splits)

lemma dataAndHashesFromTxs_valid:
  assumes "length (tx_hashes txs) < 2 ^ 64" "only_blob_txs_have_hashes txs"
    and "dataAndHashesFromTxs txs c b = (dat, hashes)"
  shows "map (\<lambda>h. (unat (IdxIndex h), IdxHash h)) hashes =
      map (\<lambda>(i, tx, h). (i, h)) (filter (\<lambda>(i, tx, h). valid_tx c b tx) (enumerate 0 (tx_hashes txs))) \<and>
    fillBlobPointers dat (map (\<lambda>h. Some (body (IdxHash h))) hashes) =
      Inr (concat (map (\<lambda>tx.
        if TxType tx = BlobTxType then map (\<lambda>h. \<lparr>bcBlob = Some (body h), bcCalldata = None\<rparr>) (TxBlobHashes tx)
        else [\<lparr>bcBlob = None, bcCalldata = Some (TxData tx)\<rparr>]) (filter (valid_tx c b) txs))) \<and>
    ((\<exists>filled. fillBlobPointers dat blobs = Inr filled) \<longleftrightarrow> length blobs = length hashes \<and> None \<notin> set blobs)"
proof -
  have dat: "dat = batcher_data c b (\<lambda>_. None) txs"
    and hashes: "hashes = map (\<lambda>(i, h). \<lparr>IdxIndex = of_nat i, IdxHash = h\<rparr>) (batcher_blobs c b 0 txs)"
    using assms(3) by (simp_all add: dataAndHashesFromTxs_def collect_txs [OF assms(2)])
  have u: "unat (of_nat (fst x) :: Word) = fst x" if "x \<in> set (batcher_blobs c b 0 txs)" for x
    using batcher_blobs_index [OF that] assms(1) by (simp add: unat_of_nat)
  have "map (\<lambda>h. (unat (IdxIndex h), IdxHash h)) hashes = batcher_blobs c b 0 txs"
    unfolding hashes map_map comp_def by (rule map_idI) (use u in \<open>auto simp: case_prod_beta\<close>)
  moreover have "fillBlobPointers dat (map (\<lambda>h. Some (body (IdxHash h))) hashes) = Inr (batcher_data c b (\<lambda>h. Some (body h)) txs)"
    using fill_batcher_data [OF assms(2), of c b body 0] by (simp add: dat hashes comp_def case_prod_beta)
  moreover have "\<forall>d\<in>set dat. bcBlob d = None" unfolding dat by (auto simp: batcher_data_def split: if_splits)
  moreover have "length (filter placeholder dat) = length hashes"
    using batcher_data_waiting [OF assms(2), of c b 0] by (simp add: dat hashes)
  ultimately show ?thesis
    using fill_accepts [of dat blobs] by (simp add: batcher_blobs_def batcher_data_def)
qed

text \<open>C29: Blobs reach the transactions that carry them, in a block with fewer than 2 to the 64 blobs whose blob hashes are
  carried by blob transactions only.  The requests are, in order, exactly the hashes of the transactions
  the batcher sent to the inbox, each with its index among all blob hashes of the block; if every request is
  answered with the blob of its hash, the data opened is that of the batcher's transactions in their order, the
  calldata of a transaction without blobs and the blobs of a transaction with blobs in the order of its
  hashes; and the answers accepted are the lists of as many blobs as requests, none of them nil.\<close>

theorem dataAndHashesFromTxs_exact:
  assumes "length (tx_hashes txs) < 2 ^ 64" "only_blob_txs_have_hashes txs"
    and "dataAndHashesFromTxs txs c b = (dat, hashes)"
  shows "map (\<lambda>h. (unat (IdxIndex h), IdxHash h)) hashes =
      map (\<lambda>(i, tx, h). (i, h)) (filter (\<lambda>(i, tx, h). from_batcher c b tx) (enumerate 0 (tx_hashes txs))) \<and>
    fillBlobPointers dat (map (\<lambda>h. Some (body (IdxHash h))) hashes) =
      Inr (concat (map (\<lambda>tx.
        if TxType tx = BlobTxType then map (\<lambda>h. \<lparr>bcBlob = Some (body h), bcCalldata = None\<rparr>) (TxBlobHashes tx)
        else [\<lparr>bcBlob = None, bcCalldata = Some (TxData tx)\<rparr>]) (filter (from_batcher c b) txs))) \<and>
    ((\<exists>filled. fillBlobPointers dat blobs = Inr filled) \<longleftrightarrow> length blobs = length hashes \<and> None \<notin> set blobs)"
  using dataAndHashesFromTxs_valid [OF assms] unfolding isValidBatchTx_exact .

theorem dataAndHashesFromTxs_exact_witness:
  "let tx = \<lparr>TxType = 3, TxTo = Some 5, TxData = [], TxBlobHashes = [11, 12]\<rparr>;
       other = \<lparr>TxType = 3, TxTo = None, TxData = [], TxBlobHashes = [10]\<rparr>;
       call = \<lparr>TxType = 2, TxTo = Some 5, TxData = [7], TxBlobHashes = []\<rparr>;
       c = \<lparr>l1Signer = (\<lambda>tx. Some 9), batchInboxAddress = 5\<rparr>;
       (dat, hashes) = dataAndHashesFromTxs [other, tx, call] c 9
   in map (\<lambda>h. (unat (IdxIndex h), IdxHash h)) hashes = [(1, 11), (2, 12)] \<and>
     fillBlobPointers dat (map (\<lambda>h. Some [of_nat (unat (IdxHash h))]) hashes) =
       Inr [\<lparr>bcBlob = Some [11], bcCalldata = None\<rparr>, \<lparr>bcBlob = Some [12], bcCalldata = None\<rparr>, \<lparr>bcBlob = None, bcCalldata = Some [7]\<rparr>]"
proof -
  let ?tx = "\<lparr>TxType = 3, TxTo = Some 5, TxData = [], TxBlobHashes = [11, 12]\<rparr>"
  let ?other = "\<lparr>TxType = 3, TxTo = None, TxData = [], TxBlobHashes = [10]\<rparr>"
  let ?call = "\<lparr>TxType = 2, TxTo = Some 5, TxData = [7], TxBlobHashes = []\<rparr>"
  let ?c = "\<lparr>l1Signer = (\<lambda>tx. Some 9), batchInboxAddress = 5\<rparr>"
  obtain dat hashes where eq: "dataAndHashesFromTxs [?other, ?tx, ?call] ?c 9 = (dat, hashes)"
    by (cases "dataAndHashesFromTxs [?other, ?tx, ?call] ?c 9")
  have "only_blob_txs_have_hashes [?other, ?tx, ?call]" "length (tx_hashes [?other, ?tx, ?call]) < 2 ^ 64"
    by (simp_all add: only_blob_txs_have_hashes_def tx_hashes_def)
  from dataAndHashesFromTxs_exact [OF this(2,1) eq, of "\<lambda>h. [of_nat (unat h)]"] show ?thesis
    by (simp add: eq tx_hashes_def from_batcher_def numeral_3_eq_3)
qed

section \<open>The retrieval stage keeps the contract\<close>

definition filled :: "blobOrCalldata list \<Rightarrow> bool" where
  "filled dat \<longleftrightarrow> (\<forall>d\<in>set dat. \<not> placeholder d)"

definition iter_ok :: "DataIter \<Rightarrow> bool" where
  "iter_ok it = (case it of CalldataIter _ \<Rightarrow> True | BlobIter ds \<Rightarrow> (case BdData ds of None \<Rightarrow> True | Some dat \<Rightarrow> filled dat))"

definition iter_closed :: "DataIter \<Rightarrow> nat" where
  "iter_closed it = (case it of CalldataIter ds \<Rightarrow> if CdOpen ds then 0 else 1 | BlobIter ds \<Rightarrow> if BdData ds = None then 1 else 0)"

definition iter_left :: "DataIter \<Rightarrow> nat" where
  "iter_left it = (case it of CalldataIter ds \<Rightarrow> length (CdData ds) | BlobIter ds \<Rightarrow> (case BdData ds of None \<Rightarrow> 0 | Some dat \<Rightarrow> length dat))"

lemma filled_simps [simp]: "filled []" "filled (d # ds) \<longleftrightarrow> \<not> placeholder d \<and> filled ds" "filled (xs @ ys) \<longleftrightarrow> filled xs \<and> filled ys"
  by (auto simp: filled_def)

lemma blob_take_filled:
  "filled dat \<Longrightarrow> \<exists>r dat'. blob_take dat = Inr (r, dat') \<and> filled dat' \<and> (r = Inl IoEOF \<or> (\<exists>a. r = Inr a) \<and> length dat' < length dat)"
proof (induction dat)
  case (Cons d dat)
  then obtain r dat' where IH: "blob_take dat = Inr (r, dat')" "filled dat'" "r = Inl IoEOF \<or> (\<exists>a. r = Inr a) \<and> length dat' < length dat"
    by auto
  show ?case
  proof (cases "bcCalldata d")
    case None
    then obtain b where b: "bcBlob d = Some b" using Cons.prems by (auto simp: placeholder_def)
    show ?thesis using None b IH Cons.prems by (cases "ToData b") auto
  qed (use Cons.prems in simp)
qed simp

lemma fillBlobPointers_filled:
  "fillBlobPointers dat blobs = Inr dat' \<Longrightarrow> filled dat'"
  by (induction dat blobs arbitrary: dat' rule: fillBlobPointers.induct)
    (auto simp: placeholder_def bind_res_eq_Inr split: if_splits list.splits option.splits)

lemma push_hash_grows: "fst (snd (push_hash acc h)) = fst (snd acc) @ [\<lparr>IdxIndex = of_nat (snd (snd acc)), IdxHash = h\<rparr>]"
  by (simp add: push_hash_def case_prod_beta)

lemma push_hashes_grow: "\<exists>hs'. fst (snd (foldl push_hash acc hs)) = fst (snd acc) @ hs' \<and> (hs \<noteq> [] \<longrightarrow> hs' \<noteq> [])"
proof (induction hs arbitrary: acc)
  case (Cons h hs)
  from Cons [of "push_hash acc h"] show ?case by (auto simp: push_hash_grows)
qed simp

lemma no_hashes_filled:
  assumes "dataAndHashesFromTxs txs c b = (dat, [])"
  shows "filled dat"
proof -
  have earlier: "fst (snd (foldl (collect_tx c b) acc txs)) = [] \<Longrightarrow> fst (snd acc) = []" for acc txs
  proof (induction txs arbitrary: acc)
    case (Cons tx txs)
    have e: "fst (snd (collect_tx c b acc tx)) = []" by (rule Cons.IH) (use Cons.prems in simp)
    obtain hs' where "fst (snd (foldl push_hash acc (TxBlobHashes tx))) = fst (snd acc) @ hs'" using push_hashes_grow by blast
    then show ?case using e unfolding collect_tx_eq by (simp split: if_splits)
  qed simp
  have "fst (snd (foldl (collect_tx c b) acc txs)) = [] \<Longrightarrow> filled (fst acc) \<Longrightarrow> filled (fst (foldl (collect_tx c b) acc txs))" for acc
  proof (induction txs arbitrary: acc)
    case (Cons tx txs)
    have e: "fst (snd (collect_tx c b acc tx)) = []" by (rule earlier [of _ txs]) (use Cons.prems(1) in simp)
    then have "filled (fst (collect_tx c b acc tx))"
      
    proof -
      obtain hs' where g: "fst (snd (foldl push_hash acc (TxBlobHashes tx))) = fst (snd acc) @ hs'" "TxBlobHashes tx \<noteq> [] \<longrightarrow> hs' \<noteq> []"
        using push_hashes_grow by blast
      show ?thesis
      proof (cases "valid_tx c b tx \<and> TxType tx = BlobTxType")
        case True
        then have "TxBlobHashes tx = []" using e g unfolding collect_tx_eq by (cases "hs' = []") simp_all
        then show ?thesis using True Cons.prems(2) by (simp add: collect_tx_eq)
      qed (use Cons.prems(2) in \<open>auto simp: collect_tx_eq placeholder_def\<close>)
    qed
    then show ?case using Cons by simp
  qed simp
  from this [of "([], [], 0)"] show ?thesis using assms by (auto simp: dataAndHashesFromTxs_def split: prod.splits)
qed

lemma blob_open_filled: "blob_open f c ds e = (Inr dat, e') \<Longrightarrow> filled dat"
  by (auto simp: blob_open_def Let_def split: prod.splits sum.splits if_splits intro: no_hashes_filled fillBlobPointers_filled)

lemma blob_open_error: "blob_open f c ds e = (Inl err, e') \<Longrightarrow> err = Leveled LevelReset \<or> err = Leveled LevelTemporary"
  by (auto simp: blob_open_def Let_def split: prod.splits sum.splits if_splits)

definition source_error :: "derive_error \<Rightarrow> bool" where
  "source_error err \<longleftrightarrow> err = IoEOF \<or> err = Leveled LevelReset \<or> err = Leveled LevelTemporary"

lemma source_error_not: "source_error err \<Longrightarrow> err \<noteq> NotEnoughData \<and> err \<noteq> Leveled LevelCritical"
  by (auto simp: source_error_def)

definition shrinks :: "DataIter \<Rightarrow> DataIter \<Rightarrow> bool" where
  "shrinks it' it \<longleftrightarrow> iter_closed it' < iter_closed it \<or> iter_closed it' = iter_closed it \<and> iter_left it' < iter_left it"

lemma Calldata_Next_ok:
  "Calldata_Next f c ds e = (r, ds', e') \<Longrightarrow>
    (case r of Inl err \<Rightarrow> source_error err | Inr a \<Rightarrow> shrinks (CalldataIter ds') (CalldataIter ds))"
  by (auto simp: Calldata_Next_def source_error_def shrinks_def iter_closed_def iter_left_def Let_def
      split: if_splits prod.splits sum.splits list.splits)

lemma Blob_Next_ok:
  assumes "iter_ok (BlobIter ds)"
  shows "\<exists>r ds' e'. Blob_Next f c ds e = Inr (r, ds', e') \<and> iter_ok (BlobIter ds') \<and>
    (case r of Inl err \<Rightarrow> source_error err | Inr a \<Rightarrow> shrinks (BlobIter ds') (BlobIter ds))"
proof -
  define opened where "opened = (case BdData ds of Some dat \<Rightarrow> (Inr dat, e) | None \<Rightarrow> blob_open f c ds e)"
  obtain o1 e1 where op: "opened = (o1, e1)" by (cases opened)
  have run: "Blob_Next f c ds e = (case o1 of Inl err \<Rightarrow> Inr (Inl err, ds, e1)
      | Inr dat \<Rightarrow> bind_res (blob_take dat) (\<lambda>(r, dat'). Inr (r, ds\<lparr>BdData := Some dat'\<rparr>, e1)))"
    using op by (simp add: Blob_Next_def Let_def flip: opened_def split: sum.split)
  show ?thesis
  proof (cases o1)
    case (Inl err)
    then have "source_error err" using op blob_open_error [of f c ds e err e1] by (auto simp: opened_def source_error_def split: option.splits)
    then show ?thesis using Inl run assms by simp
  next
    case (Inr dat)
    have "filled dat"
      using op assms blob_open_filled [of f c ds e dat e1] by (auto simp: Inr opened_def iter_ok_def split: option.splits)
    from blob_take_filled [OF this] obtain r dat' where t: "blob_take dat = Inr (r, dat')" "filled dat'"
      "r = Inl IoEOF \<or> (\<exists>a. r = Inr a) \<and> length dat' < length dat" by blast
    have "shrinks (BlobIter (ds\<lparr>BdData := Some dat'\<rparr>)) (BlobIter ds)" if "length dat' < length dat"
      using that op by (auto simp: shrinks_def iter_closed_def iter_left_def Inr opened_def split: option.splits)
    then have "case r of Inl err \<Rightarrow> source_error err | Inr a \<Rightarrow> shrinks (BlobIter (ds\<lparr>BdData := Some dat'\<rparr>)) (BlobIter ds)"
      using t(3) by (auto simp: source_error_def)
    moreover have "Blob_Next f c ds e = Inr (r, ds\<lparr>BdData := Some dat'\<rparr>, e1)" using run t(1) by (simp add: Inr)
    moreover have "iter_ok (BlobIter (ds\<lparr>BdData := Some dat'\<rparr>))" using t(2) by (simp add: iter_ok_def)
    ultimately show ?thesis by blast
  qed
qed

lemma Iter_Next_ok:
  assumes "iter_ok it"
  shows "\<exists>r it' e'. Iter_Next f c it e = Inr (r, it', e') \<and> iter_ok it' \<and>
    (case r of Inl err \<Rightarrow> source_error err | Inr a \<Rightarrow> shrinks it' it)"
proof (cases it)
  case (CalldataIter ds)
  obtain r ds' e' where n: "Calldata_Next f c ds e = (r, ds', e')" by (metis prod_cases3)
  from Calldata_Next_ok [OF n] show ?thesis unfolding CalldataIter using n by (simp add: Iter_Next_def iter_ok_def)
next
  case (BlobIter ds)
  from Blob_Next_ok [OF assms [unfolded BlobIter], of f c e] show ?thesis unfolding BlobIter by (force simp: Iter_Next_def)
qed

lemma OpenData_ok: "OpenData f src ref b e = (Inr it, e') \<Longrightarrow> iter_ok it"
  by (auto simp: OpenData_def iter_ok_def NewBlobDataSource_def split: if_splits prod.splits)

lemma OpenData_error: "OpenData f src ref b e = (Inl err, e') \<Longrightarrow> err = OtherError"
  by (auto simp: OpenData_def split: if_splits prod.splits)

definition retrieval_ok :: "'e L1Retrieval \<Rightarrow> bool" where
  "retrieval_ok s \<longleftrightarrow> (case RtDatas s of None \<Rightarrow> True | Some it \<Rightarrow> iter_ok it)"

definition retrieval_left :: "('e L1Retrieval \<times> 'e L1Retrieval) set" where
  "retrieval_left = measures
     [\<lambda>s. if TrDone (RtPrev s) then 0 else 1,
      \<lambda>s. case RtDatas s of None \<Rightarrow> 0 | Some it \<Rightarrow> iter_closed it, \<lambda>s. case RtDatas s of None \<Rightarrow> 0 | Some it \<Rightarrow> iter_left it]"

lemma NextData_iter:
  assumes it: "iter_ok it" and s: "RtDatas s = None \<Longrightarrow> \<not> TrDone (RtPrev s0) \<and> TrDone (RtPrev s)"
    "RtDatas s \<noteq> None \<Longrightarrow> RtDatas s = Some it \<and> s0 = s" and orig: "TrBlock (RtPrev s) = TrBlock (RtPrev s0)"
    and run: "pulled = bind_res (Iter_Next f (FacCfg src) it (RtEnv s)) (\<lambda>(r, it', e).
               if r = Inl IoEOF then Inr (Inl IoEOF, s\<lparr>RtDatas := None, RtEnv := e\<rparr>)
               else Inr (r, s\<lparr>RtDatas := Some it', RtEnv := e\<rparr>))"
  shows "\<exists>r s'. pulled = Inr (r, s') \<and> retrieval_ok s' \<and> Retrieval_Origin s' = Retrieval_Origin s0 \<and>
    (case r of Inl err \<Rightarrow> source_error err \<or> err = OtherError | Inr a \<Rightarrow> (s', s0) \<in> retrieval_left)"
proof -
  obtain r it' e where n: "Iter_Next f (FacCfg src) it (RtEnv s) = Inr (r, it', e)"
    and ok: "iter_ok it'" "case r of Inl err \<Rightarrow> source_error err | Inr a \<Rightarrow> shrinks it' it"
    using Iter_Next_ok [OF it, of f "FacCfg src" "RtEnv s"] by (elim exE conjE)
  have p: "pulled = (if r = Inl IoEOF then Inr (Inl IoEOF, s\<lparr>RtDatas := None, RtEnv := e\<rparr>)
      else Inr (r, s\<lparr>RtDatas := Some it', RtEnv := e\<rparr>))" unfolding run n by simp
  show ?thesis
  proof (cases r)
    case (Inl err)
    then show ?thesis using ok orig unfolding p by (cases "err = IoEOF") (simp_all add: retrieval_ok_def Retrieval_Origin_def)
  next
    case (Inr a)
    have "(s\<lparr>RtDatas := Some it', RtEnv := e\<rparr>, s0) \<in> retrieval_left"
      using s ok(2) by (cases "RtDatas s = None") (auto simp: Inr retrieval_left_def shrinks_def)
    then show ?thesis using ok(1) Inr orig unfolding p by (simp add: retrieval_ok_def Retrieval_Origin_def)
  qed
qed

lemma NextData_ok:
  assumes "retrieval_ok s"
  shows "\<exists>r s'. NextData f src s = Inr (r, s') \<and> retrieval_ok s' \<and> Retrieval_Origin s' = Retrieval_Origin s \<and>
    (case r of Inl err \<Rightarrow> source_error err \<or> err = OtherError | Inr a \<Rightarrow> (s', s) \<in> retrieval_left)"
proof (cases "RtDatas s")
  case (Some it)
  have it: "iter_ok it" using assms Some by (simp add: retrieval_ok_def)
  have run: "NextData f src s = bind_res (Iter_Next f (FacCfg src) it (RtEnv s)) (\<lambda>(r, it', e).
               if r = Inl IoEOF then Inr (Inl IoEOF, s\<lparr>RtDatas := None, RtEnv := e\<rparr>)
               else Inr (r, s\<lparr>RtDatas := Some it', RtEnv := e\<rparr>))"
    using Some by (simp add: NextData_def Let_def)
  show ?thesis by (rule NextData_iter [OF it _ _ _ run]) (use Some in simp_all)
next
  case None
  show ?thesis
  proof (cases "TrDone (RtPrev s)")
    case True
    then show ?thesis using None assms by (simp add: NextData_def NextL1Block_def Let_def source_error_def Retrieval_Origin_def)
  next
    case False
    define p where "p = (RtPrev s)\<lparr>TrDone := True\<rparr>"
    have nxt: "NextL1Block (RtPrev s) = (Inr (TrBlock (RtPrev s)), p)" using False by (simp add: NextL1Block_def p_def)
    obtain o1 e where op: "OpenData f src (TrBlock (RtPrev s)) (BatcherAddr (TrSysCfg p)) (RtEnv s) = (o1, e)"
      by (cases "OpenData f src (TrBlock (RtPrev s)) (BatcherAddr (TrSysCfg p)) (RtEnv s)")
    show ?thesis
    proof (cases o1)
      case (Inl err)
      have "err = OtherError" by (rule OpenData_error [OF op [unfolded Inl]])
      then show ?thesis using None nxt op Inl by (simp add: NextData_def Let_def retrieval_ok_def Retrieval_Origin_def p_def)
    next
      case (Inr it)
      have it: "iter_ok it" by (rule OpenData_ok [OF op [unfolded Inr]])
      have run: "NextData f src s = bind_res (Iter_Next f (FacCfg src) it (RtEnv (s\<lparr>RtPrev := p, RtEnv := e\<rparr>))) (\<lambda>(r, it', e').
               if r = Inl IoEOF then Inr (Inl IoEOF, s\<lparr>RtPrev := p, RtEnv := e\<rparr>\<lparr>RtDatas := None, RtEnv := e'\<rparr>)
               else Inr (r, s\<lparr>RtPrev := p, RtEnv := e\<rparr>\<lparr>RtDatas := Some it', RtEnv := e'\<rparr>))"
        using None nxt op Inr by (simp add: NextData_def Let_def)
      show ?thesis by (rule NextData_iter [OF it _ _ _ run]) (use None False in \<open>simp_all add: p_def\<close>)
    qed
  qed
qed

interpretation retrieval: data_stage "NextData f src" Retrieval_Origin retrieval_ok retrieval_left "\<lambda>dat. True" for f src
proof
  show "wf retrieval_left" unfolding retrieval_left_def by (rule wf_measures)
  show "\<exists>r s'. NextData f src s = Inr (r, s') \<and> retrieval_ok s' \<and> Retrieval_Origin s' = Retrieval_Origin s \<and> good_outcome (\<lambda>dat. True) r"
    if s_ok: "retrieval_ok s" for s
  proof -
    obtain r s' where r: "NextData f src s = Inr (r, s')" "retrieval_ok s'" "Retrieval_Origin s' = Retrieval_Origin s"
      "case r of Inl err \<Rightarrow> source_error err \<or> err = OtherError | Inr a \<Rightarrow> (s', s) \<in> retrieval_left"
      using NextData_ok [OF s_ok, of f src] by (elim exE conjE)
    have "good_outcome (\<lambda>dat. True) r" using r(4) by (cases r) (auto simp: source_error_def)
    then show ?thesis using r(1-3) by blast
  qed
  show "(s', s) \<in> retrieval_left" if "retrieval_ok s" "NextData f src s = Inr (r, s')" "retry r" for s r s'
  proof -
    have "case r of Inl err \<Rightarrow> source_error err \<or> err = OtherError | Inr a \<Rightarrow> (s', s) \<in> retrieval_left"
      using NextData_ok [OF that(1), of f src] that(2) by auto
    then show ?thesis using that(3) by (cases r) (auto simp: source_error_def)
  qed
qed

text \<open>A block whose data source cannot be opened is skipped: on an Ecotone block without a configured blob fetcher the first
  pull fails with an error of no level, which the driver retries as a temporary one, but the block counts as consumed:
  the next pull returns \<open>io.EOF\<close>, as if the block held no batcher data.\<close>

theorem NextData_open_failure:
  assumes "RtDatas s = None" "\<not> TrDone (RtPrev s)" "FacEcotoneTime src = Some t" "t \<le> L1Time (TrBlock (RtPrev s))"
    "\<not> FacHasBlobsFetcher src"
  shows "\<exists>s'. NextData f src s = Inr (Inl OtherError, s') \<and> NextData f src s' = Inr (Inl IoEOF, s') \<and>
    Retrieval_Origin s' = Retrieval_Origin s"
  using assms by (simp add: NextData_def NextL1Block_def OpenData_def Let_def Retrieval_Origin_def)

definition no_fetcher :: "unit Fetcher" where
  "no_fetcher = \<lparr>InfoAndTxsByHash = (\<lambda>e h. (Inl NotFound, e)), GetBlobs = (\<lambda>e b hs. (Inl NotFound, e)),
     L1BlockRefByNumber = (\<lambda>e n. (Inl NotFound, e)), FetchReceipts = (\<lambda>e h. (Inl NotFound, e))\<rparr>"

definition start_sys_cfg :: SystemConfig where
  "start_sys_cfg = \<lparr>BatcherAddr = 9, Overhead = 0, Scalar = 0, GasLimit = 0, EIP1559Params = 0, OperatorFeeParams = 0\<rparr>"

theorem NextData_open_failure_witness:
  "\<exists>s'. NextData no_fetcher \<lparr>FacCfg = \<lparr>l1Signer = (\<lambda>tx. None), batchInboxAddress = 5\<rparr>, FacEcotoneTime = Some 0, FacHasBlobsFetcher = False\<rparr>
     \<lparr>RtPrev = \<lparr>TrBlock = no_block, TrDone = False, TrSysCfg = start_sys_cfg\<rparr>, RtDatas = None, RtEnv = ()\<rparr> = Inr (Inl OtherError, s')"
  using NextData_open_failure [of "\<lparr>RtPrev = \<lparr>TrBlock = no_block, TrDone = False, TrSysCfg = start_sys_cfg\<rparr>, RtDatas = None, RtEnv = ()\<rparr>"
      "\<lparr>FacCfg = \<lparr>l1Signer = (\<lambda>tx. None), batchInboxAddress = 5\<rparr>, FacEcotoneTime = Some 0, FacHasBlobsFetcher = False\<rparr>" 0 no_fetcher]
  by auto

end
