(* ===== verification/Derive_Pipeline.thy ===== *)
theory Derive_Pipeline
  imports Derive_Source
begin

text \<open>
  The first half of the pipeline put together: retrieval, frame queue and channel stage.  The contracts compose, so
  a channel stage over the frame queue over the retrieval stage never panics and stops after finitely many pulls; and
  the frames of a channel, encoded as batcher data, come out of the Holocene stages as the channel's data.
\<close>

section \<open>The channel stages over the retrieval stage\<close>

abbreviation frames_of :: "Config \<Rightarrow> 'e Fetcher \<Rightarrow> DataSourceFactory \<Rightarrow> ('e L1Retrieval FrameQueue, Frame) puller" where
  "frames_of cfg f src \<equiv> NextFrame cfg (NextData f src) Retrieval_Origin"

text \<open>Assembling ends and cannot fail critically: over the frame queue and the retrieval stage, whatever the L1 client
  answers, one call of \<open>NextRawChannel\<close> returns, does not panic, and is never the critical error of an unexpected
  ready or non-ready channel; the state stays well-formed.\<close>

theorem Assembler_returns:
  assumes "assembler_ok (queue_ok retrieval_ok) ca"
  shows "\<exists>r ca'. Assembler_NextRawChannel cfg (frames_of cfg f src) (FrameQueue_Origin Retrieval_Origin) ca = Some (Inr (r, ca')) \<and>
    assembler_ok (queue_ok retrieval_ok) ca' \<and> r \<noteq> Inl (Leveled LevelCritical)"
proof -
  obtain r ca' where
    "Assembler_NextRawChannel cfg (frames_of cfg f src) (FrameQueue_Origin Retrieval_Origin) ca = Some (Inr (r, ca'))"
    "assembler_ok (queue_ok retrieval_ok) ca'" "good_outcome (\<lambda>dat. True) r"
    using retrieval.fq.Assembler_Next_ok [OF assms] by blast
  then show ?thesis by (cases r) auto
qed

text \<open>C8: Both channel stages run dry: pulling the channel bank, or the channel assembler, again and again while it returns
  data or asks for a retry, stops after finitely many pulls, with \<open>io.EOF\<close> or another error that is not
  critical, in a well-formed state and at the same L1 origin.\<close>

theorem channel_stages_run_dry:
  assumes "bank_ok (queue_ok retrieval_ok) cb" "assembler_ok (queue_ok retrieval_ok) ca"
  shows "(\<exists>xs e cb'. stage.drains (Bank_NextRawChannel cfg (frames_of cfg f src) (FrameQueue_Origin Retrieval_Origin)) cb xs e cb' \<and>
      bank_ok (queue_ok retrieval_ok) cb' \<and> e \<noteq> NotEnoughData \<and> e \<noteq> Leveled LevelCritical) \<and>
    (\<exists>xs e ca'. stage.drains (Assembler_pull cfg (frames_of cfg f src) (FrameQueue_Origin Retrieval_Origin)) ca xs e ca' \<and>
      assembler_ok (queue_ok retrieval_ok) ca' \<and> e \<noteq> NotEnoughData \<and> e \<noteq> Leveled LevelCritical)"
  using retrieval.fq.bank.drains_total [OF assms(1)] retrieval.fq.asm.drains_total [OF assms(2)] by blast

section \<open>A channel through the frame queue and the assembler\<close>

lemma complete_contiguous: "complete cid fs \<Longrightarrow> contiguous fs"
proof -
  assume c: "complete cid fs"
  show ?thesis unfolding contiguous_def
  proof (intro allI impI)
    fix i assume i: "Suc i < length fs"
    have "unat (FrameNumber (fs ! Suc i)) = Suc (unat (FrameNumber (fs ! i)))" using c i by (simp add: complete_def)
    then have "(of_nat (unat (FrameNumber (fs ! Suc i))) :: 16 word) = of_nat (Suc (unat (FrameNumber (fs ! i))))" by (rule arg_cong)
    then have "FrameNumber (fs ! Suc i) = FrameNumber (fs ! i) + 1" by simp
    then show "follows (fs ! i) (fs ! Suc i)" using c i by (auto simp: follows_def complete_def)
  qed
qed

definition frame_sizes :: "Frame list \<Rightarrow> nat" where
  "frame_sizes fs = sum_list (map (\<lambda>f. length (FrData f) + 200) fs)"

lemma unat_add_le: "unat (a + b) \<le> unat a + unat (b :: 'a :: len word)"
  by (simp add: unat_word_ariths)

lemma frameSize_le: "unat (frameSize f) \<le> length (FrData f) + 200"
  unfolding frameSize_def
  by (rule order_trans [OF unat_add_le]) (simp add: unat_of_nat)

text \<open>The first \<open>k\<close> frames of \<open>fs\<close> taken in.\<close>

definition holding :: "Frame list \<Rightarrow> nat \<Rightarrow> Channel \<Rightarrow> bool" where
  "holding fs k ch \<longleftrightarrow> ChId ch = FrID (fs ! 0) \<and> requireInOrder ch \<and> \<not> closed ch \<and> unat (highestFrameNumber ch) \<le> k \<and>
     inputs ch = map (\<lambda>i. (i, fs ! i)) [0..<k] \<and> unat (ChSize ch) \<le> frame_sizes (take k fs)"

definition held_all :: "Frame list \<Rightarrow> Channel \<Rightarrow> bool" where
  "held_all fs ch \<longleftrightarrow> closed ch \<and> inputs ch = map (\<lambda>i. (i, fs ! i)) [0..<length fs] \<and>
     Suc (unat (endFrameNumber ch)) = length fs"

lemma frame_sizes_take_Suc: "k < length fs \<Longrightarrow> frame_sizes (take (Suc k) fs) = frame_sizes (take k fs) + (length (FrData (fs ! k)) + 200)"
  by (simp add: frame_sizes_def take_Suc_conv_app_nth)

lemma frame_sizes_take_le: "frame_sizes (take k fs) \<le> frame_sizes fs"
proof -
  have "frame_sizes fs = frame_sizes (take k fs) + frame_sizes (drop k fs)"
    unfolding frame_sizes_def map_append [symmetric] sum_list_append [symmetric] append_take_drop_id by (rule refl)
  then show ?thesis by simp
qed

lemma AddFrame_next:
  assumes c: "complete cid fs" and h: "holding fs k ch" and k: "k < length fs"
  shows "\<exists>ch'. AddFrame (fs ! k) b ch = (None, ch') \<and> unat (ChSize ch') \<le> frame_sizes (take (Suc k) fs) \<and>
    (if Suc k = length fs then held_all fs ch' else holding fs (Suc k) ch')"
proof -
  let ?f = "fs ! k"
  have f: "FrID ?f = cid" "unat (FrameNumber ?f) = k" "IsLast ?f \<longleftrightarrow> Suc k = length fs" "FrID (fs ! 0) = cid"
    using c k by (auto simp: complete_def)
  have chk: "add_check ?f ch = None" using h f by (auto simp: add_check_None holding_def)
  have size: "unat (ChSize ch + frameSize ?f) \<le> frame_sizes (take (Suc k) fs)"
    using unat_add_le [of "ChSize ch" "frameSize ?f"] frameSize_le [of ?f] h k
    by (simp add: frame_sizes_take_Suc holding_def)
  have not_pruned: "\<not> FrameNumber ?f < highestFrameNumber ch" using h f(2) by (simp add: holding_def word_less_nat_alt)
  have all: "map (\<lambda>i. (i, fs ! i)) [0..<k] @ [(k, ?f)] = map (\<lambda>i. (i, fs ! i)) [0..<Suc k]" by simp
  define ch' where "ch' = snd (AddFrame ?f b ch)"
  have eq: "AddFrame ?f b ch = (None, ch')" using chk unfolding ch'_def by (simp add: AddFrame_taken)
  have sz: "ChSize ch' = ChSize ch + frameSize ?f"
    unfolding ch'_def using chk not_pruned by (simp add: AddFrame_taken prune_to_def) (simp add: taken_def)
  have inp: "inputs ch' = map (\<lambda>i. (i, fs ! i)) [0..<Suc k]"
    unfolding ch'_def using chk not_pruned h f(2) by (simp add: AddFrame_taken prune_to_def holding_def)
  show ?thesis
  proof (cases "Suc k = length fs")
    case True
    then have "held_all fs ch'"
      using inp f chk unfolding held_all_def ch'_def by (simp add: AddFrame_taken)
    then show ?thesis using eq size sz True by (intro exI [of _ ch']) simp
  next
    case False
    have t: "ch' = taken ?f b ch" unfolding ch'_def using chk f(3) False by (simp add: AddFrame_taken)
    have "highestFrameNumber ch' = max (highestFrameNumber ch) (FrameNumber ?f)" unfolding t by (auto simp: taken_def max_def)
    then have "unat (highestFrameNumber ch') \<le> Suc k" using h f(2) by (simp add: holding_def max_def)
    then have "holding fs (Suc k) ch'"
      using h inp size sz unfolding holding_def t taken_sel by (auto simp: taken_def)
    then show ?thesis using eq size sz False by (intro exI [of _ ch']) simp
  qed
qed

lemma assemble_rest:
  assumes c: "complete cid fs" and small: "frame_sizes fs \<le> unat (MaxRLPBytesPerChannel cfg (L1Time (origin (FqPrev (AsPrev ca)))))"
  shows "k < length fs \<Longrightarrow> FqFrames (AsPrev ca) = drop k fs \<Longrightarrow>
    k \<noteq> 0 \<longrightarrow> (\<exists>ch. AsChannel ca = Some ch \<and> holding fs k ch) \<Longrightarrow>
    \<exists>ch. assemble_loop cfg (NextFrame cfg pull origin) (FrameQueue_Origin origin) b ca =
      Some (Inr (None, \<lparr>AsChannel = Some ch, AsPrev = (AsPrev ca)\<lparr>FqFrames := []\<rparr>\<rparr>)) \<and> held_all fs ch"
  using small
proof (induction "length fs - k" arbitrary: k ca)
  case 0
  then show ?case by simp
next
  case (Suc n)
  let ?f = "fs ! k"
  let ?fq = "(AsPrev ca)\<lparr>FqFrames := drop (Suc k) fs\<rparr>"
  let ?ca = "ca\<lparr>AsPrev := ?fq\<rparr>"
  have pull: "NextFrame cfg pull origin (AsPrev ca) = Inr (Inr ?f, ?fq)"
    using Suc.prems(1,2) by (simp add: NextFrame_def flip: Cons_nth_drop_Suc)
  define ch where "ch = (if k = 0 then NewChannel cid b True else the (AsChannel ca))"
  have h: "holding fs k ch"
    using Suc.prems(1,3) c by (auto simp: ch_def holding_def NewChannel_def complete_def)
  have f: "FrID ?f = cid" "unat (FrameNumber ?f) = k" "IsLast ?f \<longleftrightarrow> Suc k = length fs"
    using c Suc.prems(1) by (auto simp: complete_def)
  have start: "FrameNumber ?f = 0 \<longleftrightarrow> k = 0" using f(2) by (metis unat_eq_zero)
  from AddFrame_next [OF c h Suc.prems(1)] obtain ch' where a: "AddFrame ?f b ch = (None, ch')"
    "unat (ChSize ch') \<le> frame_sizes (take (Suc k) fs)" "if Suc k = length fs then held_all fs ch' else holding fs (Suc k) ch'" by blast
  have fits: "\<not> MaxRLPBytesPerChannel cfg (L1Time (origin (FqPrev (AsPrev ca)))) < ChSize ch'"
    using a(2) frame_sizes_take_le [of "Suc k" fs] Suc.prems(4) by (simp add: word_less_nat_alt)
  have step: "assemble_step cfg (FrameQueue_Origin origin) b ?f ?ca = (Suc k = length fs, ?ca\<lparr>AsChannel := Some ch'\<rparr>)"
  proof (cases "k = 0")
    case True
    then show ?thesis using a(1) fits f start
      by (simp add: assemble_step_def Assembler_Origin_def FrameQueue_Origin_def ch_def)
  next
    case False
    then have "AsChannel ca = Some ch" using Suc.prems(3) by (auto simp: ch_def)
    then show ?thesis using a(1) fits f start False
      by (simp add: assemble_step_def Assembler_Origin_def FrameQueue_Origin_def)
  qed
  let ?ca' = "?ca\<lparr>AsChannel := Some ch'\<rparr>"
  have loop: "assemble_loop cfg (NextFrame cfg pull origin) (FrameQueue_Origin origin) b ca =
      (if Suc k = length fs then Some (Inr (None, ?ca'))
       else assemble_loop cfg (NextFrame cfg pull origin) (FrameQueue_Origin origin) b ?ca')"
    using pull step by (subst assemble_loop.simps) simp
  show ?case
  proof (cases "Suc k = length fs")
    case True
    then show ?thesis using loop a(3) by (intro exI [of _ ch']) (cases ca, simp)
  next
    case False
    have "\<exists>ch. assemble_loop cfg (NextFrame cfg pull origin) (FrameQueue_Origin origin) b ?ca' =
        Some (Inr (None, \<lparr>AsChannel = Some ch, AsPrev = (AsPrev ?ca')\<lparr>FqFrames := []\<rparr>\<rparr>)) \<and> held_all fs ch"
      by (rule Suc.hyps(1)) (use Suc.hyps(2) Suc.prems False a(3) in auto)
    then show ?thesis using loop False by simp
  qed
qed

lemma held_all_read:
  assumes "held_all fs ch"
  shows "IsReady ch \<and> Reader ch = Inr (concat (map FrData fs))"
proof -
  have keys: "map_of (inputs ch) i = Some (fs ! i)" if "i < length fs" for i
    using assms that by (simp add: held_all_def map_of_eq_Some_iff comp_def)
  have ready: "IsReady ch"
    unfolding IsReady_def using assms keys by (auto simp: held_all_def list_all_iff)
  have "map (\<lambda>i. FrData (the (map_of (inputs ch) i))) [0..<length fs] = map FrData fs"
    using keys by (intro nth_equalityI) simp_all
  then show ?thesis using ready assms unfolding Reader_ready [OF ready] held_all_def by simp
qed

text \<open>C5: A channel survives the pipeline from Holocene on: if the data source returns one piece of batcher data that encodes
  all the frames of a channel, within the size limit, the empty frame queue and the assembler return, in one call,
  the concatenated data of the frames; afterwards the queue is empty and the assembler holds no channel.\<close>

theorem channel_roundtrip:
  assumes "complete cid fs" "\<forall>f\<in>set fs. frame_ok f"
    "frame_sizes fs \<le> unat (MaxRLPBytesPerChannel cfg (L1Time (origin (FqPrev (AsPrev ca)))))"
    "pull (FqPrev (AsPrev ca)) = Inr (Inr (DerivationVersion0 # concat (map MarshalBinary fs)), prev)"
    "origin prev = origin (FqPrev (AsPrev ca))"
    "FqFrames (AsPrev ca) = []" "case AsChannel ca of None \<Rightarrow> True | Some ch \<Rightarrow> \<not> closed ch"
  shows "Assembler_NextRawChannel cfg (NextFrame cfg pull origin) (FrameQueue_Origin origin) ca =
    Some (Inr (Inr (concat (map FrData fs)), \<lparr>AsChannel = None, AsPrev = \<lparr>FqFrames = [], FqPrev = prev\<rparr>\<rparr>))"
proof -
  let ?pull = "NextFrame cfg pull origin" and ?o = "FrameQueue_Origin origin" and ?b = "Assembler_Origin (FrameQueue_Origin origin) ca"
  let ?fq = "\<lparr>FqFrames = fs, FqPrev = prev\<rparr>"
  have ne: "fs \<noteq> []" using assms(1) by (simp add: complete_def)
  have parse: "ParseFrames (DerivationVersion0 # concat (map MarshalBinary fs)) = Inr fs"
    by (rule ParseFrames_Marshal [OF ne assms(2)])
  have pruned: "pruneFrameQueue fs = fs"
    unfolding pruneFrameQueue_def by (rule prune_loop_fixed [OF complete_contiguous [OF assms(1)]])
  have "loadNextFrames cfg pull origin (AsPrev ca) = Inr (None, ?fq)"
    using assms(4,6) parse pruned by (simp add: loadNextFrames_def Let_def del: DerivationVersion0_def)
  then have first: "?pull (AsPrev ca) = ?pull ?fq"
    using assms(6) ne by (simp add: NextFrame_def)
  define ca1 where "ca1 = (case AsChannel ca of None \<Rightarrow> ca | Some ch \<Rightarrow> if channel_timed_out cfg ?b ch then resetChannel ca else ca)"
  have ca1: "AsPrev ca1 = AsPrev ca" "case AsChannel ca1 of None \<Rightarrow> True | Some ch \<Rightarrow> \<not> closed ch"
    using assms(7) by (auto simp: ca1_def resetChannel_def split: option.splits)
  have loop: "assemble_loop cfg ?pull ?o ?b ca1 = assemble_loop cfg ?pull ?o ?b (ca1\<lparr>AsPrev := ?fq\<rparr>)"
    using first by (subst (1 2) assemble_loop.simps) (simp add: ca1(1) split: sum.split)
  have "\<exists>ch. assemble_loop cfg ?pull ?o ?b (ca1\<lparr>AsPrev := ?fq\<rparr>) =
      Some (Inr (None, \<lparr>AsChannel = Some ch, AsPrev = (AsPrev (ca1\<lparr>AsPrev := ?fq\<rparr>))\<lparr>FqFrames := []\<rparr>\<rparr>)) \<and> held_all fs ch"
    by (rule assemble_rest [OF assms(1), where k = 0]) (use ne assms(3,5) in simp_all)
  then obtain ch where run: "assemble_loop cfg ?pull ?o ?b ca1 =
      Some (Inr (None, \<lparr>AsChannel = Some ch, AsPrev = \<lparr>FqFrames = [], FqPrev = prev\<rparr>\<rparr>))" and ch: "held_all fs ch"
    unfolding loop by auto
  have nr: "\<not> (case AsChannel ca1 of None \<Rightarrow> False | Some ch \<Rightarrow> IsReady ch)"
    using ca1(2) by (cases "AsChannel ca1") (simp_all add: IsReady_def)
  have "Assembler_NextRawChannel cfg ?pull ?o ca = (case assemble_loop cfg ?pull ?o ?b ca1 of
                 None \<Rightarrow> None
               | Some (Inl p) \<Rightarrow> Some (Inl p)
               | Some (Inr (Some err, ca)) \<Rightarrow> Some (Inr (Inl err, ca))
               | Some (Inr (None, ca)) \<Rightarrow>
                   (case AsChannel ca of
                      None \<Rightarrow> Some (Inr (Inl (Leveled LevelCritical), ca))
                    | Some ch \<Rightarrow>
                        if \<not> IsReady ch then Some (Inr (Inl (Leveled LevelCritical), ca))
                        else Some (bind_res (Reader ch) (\<lambda>dat. Inr (Inr dat, resetChannel ca)))))"
    unfolding Assembler_NextRawChannel_def Let_def ca1_def [symmetric] if_not_P [OF nr] ..
  then show ?thesis using run held_all_read [OF ch] by (simp add: resetChannel_def)
qed

section \<open>Witnesses\<close>

definition sample_source :: DataSourceFactory where
  "sample_source = \<lparr>FacCfg = \<lparr>l1Signer = (\<lambda>tx. None), batchInboxAddress = 5\<rparr>, FacEcotoneTime = Some 0, FacHasBlobsFetcher = True\<rparr>"

definition retrieval_with :: "byte list list \<Rightarrow> unit L1Retrieval" where
  "retrieval_with dat = \<lparr>RtPrev = \<lparr>TrBlock = no_block, TrDone = True, TrSysCfg = start_sys_cfg\<rparr>,
     RtDatas = Some (CalldataIter \<lparr>CdOpen = True, CdData = dat, CdRef = no_block, CdBatcher = 9\<rparr>), RtEnv = ()\<rparr>"

definition fresh_assembler :: "byte list list \<Rightarrow> unit L1Retrieval FrameQueue ChannelAssembler" where
  "fresh_assembler dat = NewChannelAssembler \<lparr>FqFrames = [], FqPrev = retrieval_with dat\<rparr>"

lemma fresh_assembler_ok: "assembler_ok (queue_ok retrieval_ok) (fresh_assembler dat)"
  by (simp add: fresh_assembler_def NewChannelAssembler_def assembler_ok_def queue_ok_def retrieval_ok_def retrieval_with_def iter_ok_def)

theorem Assembler_returns_witness:
  "\<exists>r ca'. Assembler_NextRawChannel sample_config (frames_of sample_config no_fetcher sample_source) (FrameQueue_Origin Retrieval_Origin)
     (fresh_assembler [[0, 1]]) = Some (Inr (r, ca'))"
  using Assembler_returns [OF fresh_assembler_ok, of sample_config no_fetcher sample_source "[[0, 1]]"] by blast

theorem channel_stages_run_dry_witness:
  "\<exists>xs e ca'. stage.drains (Assembler_pull sample_config (frames_of sample_config no_fetcher sample_source)
     (FrameQueue_Origin Retrieval_Origin)) (fresh_assembler [[0, 1]]) xs e ca' \<and> e \<noteq> NotEnoughData"
proof -
  have "bank_ok (queue_ok retrieval_ok) (NewChannelBank \<lparr>FqFrames = [], FqPrev = retrieval_with []\<rparr>)"
    by (simp add: NewChannelBank_def bank_ok_def bank_shape_def bank_total_def queue_ok_def retrieval_ok_def retrieval_with_def
        iter_ok_def max_bank_def)
  from channel_stages_run_dry [OF this fresh_assembler_ok] show ?thesis by blast
qed

theorem channel_roundtrip_witness:
  "Assembler_NextRawChannel sample_config (frames_of sample_config no_fetcher sample_source) (FrameQueue_Origin Retrieval_Origin)
     (fresh_assembler [0 # MarshalBinary (sample_frame 0 [1, 2] False) @ MarshalBinary (sample_frame 1 [3] True)]) =
   Some (Inr (Inr [1, 2, 3], fresh_assembler []))"
proof -
  let ?fs = "[sample_frame 0 [1, 2] False, sample_frame 1 [3] True]"
  have c: "complete (replicate 16 7) ?fs" by (auto simp: complete_def sample_frame_def less_Suc_eq)
  have ok: "\<forall>f\<in>set ?fs. frame_ok f" by (simp add: sample_frame_def frame_ok_def)
  have size: "frame_sizes ?fs \<le> unat (MaxRLPBytesPerChannel sample_config t)" for t
    by (simp add: frame_sizes_def sample_frame_def MaxRLPBytesPerChannel_def)
  let ?ca = "fresh_assembler [DerivationVersion0 # concat (map MarshalBinary ?fs)]"
  have pull: "NextData no_fetcher sample_source (FqPrev (AsPrev ?ca)) =
      Inr (Inr (DerivationVersion0 # concat (map MarshalBinary ?fs)), retrieval_with [])"
    by (simp add: fresh_assembler_def NewChannelAssembler_def retrieval_with_def NextData_def Iter_Next_def Calldata_Next_def)
  have "Retrieval_Origin (retrieval_with []) = Retrieval_Origin (FqPrev (AsPrev ?ca))"
    by (simp add: fresh_assembler_def NewChannelAssembler_def retrieval_with_def Retrieval_Origin_def)
  from channel_roundtrip [where pull = "NextData no_fetcher sample_source" and origin = Retrieval_Origin and cfg = sample_config,
      OF c ok size pull this] show ?thesis
    by (simp add: fresh_assembler_def NewChannelAssembler_def sample_frame_def)
qed
end
