(* ===== verification/Derive_Mux.thy ===== *)
theory Derive_Mux
  imports Derive_Pipeline
begin

text \<open>
  What the channel bank promises, and the stage switch \<open>op-node/rollup/derive/channel_mux.go\<close>: the bank before
  Holocene, the assembler from Holocene on.  The mux and the stage it holds share the previous stage, so the state of
  the previous stage is kept once, in the active stage.
\<close>

section \<open>The channel bank\<close>

text \<open>Taking in a frame cannot panic: the lookups of channels in the queue always succeed, only channels at the front
  of the queue are pruned, a new channel is queued at its end, and the bank never grows beyond its size limit unless it
  was beyond it already, which a fork that lowers the limit can cause.\<close>

theorem IngestFrame_safe:
  assumes "bank_ok ok cb" "frame_ok f"
  shows "\<exists>cb'. IngestFrame cfg origin f cb = Inr cb' \<and> bank_ok ok cb' \<and> BkPrev cb' = BkPrev cb \<and>
    (\<exists>n. BkQueue cb' = drop n (if FrID f \<in> set (BkQueue cb) then BkQueue cb else BkQueue cb @ [FrID f])) \<and>
    bank_total (BkChannels cb') \<le> max (bank_total (BkChannels cb)) (unat (MaxChannelBankSize cfg (L1Time (Bank_Origin origin cb))))"
  by (rule IngestFrame_ok [OF assms])

lemma new_bank_ok: "ok prev \<Longrightarrow> bank_ok ok (NewChannelBank prev)"
  by (simp add: NewChannelBank_def bank_ok_def bank_shape_def bank_total_def)

theorem IngestFrame_safe_witness:
  "\<exists>cb'. IngestFrame sample_config id (sample_frame 0 [1, 2] False) (NewChannelBank no_block) = Inr cb' \<and> bank_ok (\<lambda>b. True) cb'"
  using IngestFrame_safe [OF new_bank_ok [of "\<lambda>b. True" no_block], of "sample_frame 0 [1, 2] False" sample_config id]
  by (fastforce simp: frame_ok_def sample_frame_def)

text \<open>Reading prefers the oldest channel: if the first channel in the queue has timed out it is discarded; otherwise
  the first channel in queue order that is complete and has not timed out is removed and its data returned, where before
  Canyon only the first channel is considered; if there is none the bank is unchanged and the result is \<open>io.EOF\<close>.\<close>

theorem Bank_Read_oldest:
  assumes "bank_ok ok cb"
  shows "Bank_Read cfg origin cb = Inr (case BkQueue cb of
      [] \<Rightarrow> (Inl IoEOF, cb)
    | first # rest \<Rightarrow>
        if channel_timed_out cfg (Bank_Origin origin cb) (the_channel cb first) then (Inr [], take_out first cb)
        else (case find (readable_channel cfg origin cb)
                (if IsCanyon cfg (L1Time (Bank_Origin origin cb)) then BkQueue cb else [first]) of
                None \<Rightarrow> (Inl IoEOF, cb)
              | Some cid \<Rightarrow> (Inr (channel_data (the_channel cb cid)), take_out cid cb)))"
  unfolding Bank_Read_eq [OF assms] read_one_def by (rule refl)

theorem Bank_Read_oldest_witness:
  "Bank_Read sample_config id (NewChannelBank no_block) = Inr (Inl IoEOF, NewChannelBank no_block)"
  using Bank_Read_oldest [OF new_bank_ok [of "\<lambda>b. True" no_block], of sample_config id] by (simp add: NewChannelBank_def)

text \<open>A closing frame hides the size of the frames it leaves: when the last frame of a channel arrives after frames with
  higher numbers, these are pruned, but the sizes of all buffered frames are subtracted; the size of the channel, which
  the limit of the channel bank is checked against, is then that of the closing frame alone, and the frames with lower
  numbers are still buffered.\<close>

theorem closing_frame_size:
  assumes "channel_ok ch" "AddFrame f b ch = (None, ch')" "IsLast f" "FrameNumber f < highestFrameNumber ch"
  shows "ChSize ch' = frameSize f \<and>
    inputs ch' = filter (\<lambda>(idx, _). idx < unat (FrameNumber f)) (inputs ch) @ [(unat (FrameNumber f), f)]"
proof -
  have chk: "add_check f ch = None" using assms(2) by (auto simp: AddFrame_taken split: option.splits)
  then have "\<not> closed ch" using assms(3) by (simp add: add_check_None)
  then have "ChSize ch = sum_sizes (inputs ch)" using assms(1) by (simp add: channel_ok_def)
  then show ?thesis using assms(2-4) chk by (auto simp: AddFrame_taken prune_to_def taken_def)
qed

theorem closing_frame_size_witness:
  "ChSize (add_all [(sample_frame 0 [1, 2, 3] False, no_block), (sample_frame 2 [5] False, no_block), (sample_frame 1 [4] True, no_block)]
     (NewChannel (replicate 16 7) no_block False)) = 201"
proof -
  let ?ch = "add_all [(sample_frame 0 [1, 2, 3] False, no_block), (sample_frame 2 [5] False, no_block)] (NewChannel (replicate 16 7) no_block False)"
  let ?f = "sample_frame 1 [4] True"
  have ok: "frame_ok (sample_frame n bs l)" if "length bs \<le> 3" for n bs l using that by (simp add: frame_ok_def sample_frame_def)
  have inv: "channel_ok ?ch"
    by (simp add: add_all_def AddFrame_ok channel_ok_New ok)
  have add: "AddFrame ?f no_block ?ch = (None, snd (AddFrame ?f no_block ?ch))" "FrameNumber ?f < highestFrameNumber ?ch"
    by (simp_all add: add_all_def NewChannel_def sample_frame_def AddFrame_def add_check_def Let_def)
  have "IsLast ?f" by (simp add: sample_frame_def)
  from closing_frame_size [OF inv add(1) this add(2)]
  have "ChSize (snd (AddFrame ?f no_block ?ch)) = frameSize ?f" by blast
  then show ?thesis by (simp add: add_all_def frameSize_def) (simp add: sample_frame_def)
qed

section \<open>The switch between the stages\<close>

datatype 's ChannelMux = MuxIdle 's | MuxBank "'s ChannelBank" | MuxAssembler "'s ChannelAssembler"

definition NewChannelMux :: "'s \<Rightarrow> 's ChannelMux" where
  "NewChannelMux prev = MuxIdle prev"

fun mux_prev :: "'s ChannelMux \<Rightarrow> 's" where
  "mux_prev (MuxIdle prev) = prev"
| "mux_prev (MuxBank cb) = BkPrev cb"
| "mux_prev (MuxAssembler ca) = AsPrev ca"

definition Mux_Reset :: "Config \<Rightarrow> L1BlockRef \<Rightarrow> 's ChannelMux \<Rightarrow> derive_error \<times> 's ChannelMux" where
  "Mux_Reset cfg base c =
     (if IsHolocene cfg (L1Time base) then
        let ca = (case c of MuxAssembler ca \<Rightarrow> ca | _ \<Rightarrow> NewChannelAssembler (mux_prev c))
        in case Assembler_Reset ca of (err, ca) \<Rightarrow> (err, MuxAssembler ca)
      else
        let cb = (case c of MuxBank cb \<Rightarrow> cb | _ \<Rightarrow> NewChannelBank (mux_prev c))
        in case Bank_Reset cb of (err, cb) \<Rightarrow> (err, MuxBank cb))"

fun TransformHolocene :: "'s ChannelMux \<Rightarrow> 's ChannelMux res" where
  "TransformHolocene (MuxBank cb) = Inr (MuxAssembler (NewChannelAssembler (BkPrev cb)))"
| "TransformHolocene (MuxAssembler ca) = Inl StageAlreadyActive"
| "TransformHolocene (MuxIdle prev) = Inl UnknownStage"

definition Mux_Transform :: "ForkName \<Rightarrow> 's ChannelMux \<Rightarrow> 's ChannelMux res" where
  "Mux_Transform f c = (if f = Holocene then TransformHolocene c else Inr c)"

text \<open>\<open>NextRawChannel\<close>, \<open>FlushChannel\<close> and \<open>Origin\<close> are those of the embedded stage; before the first reset it is a nil interface.\<close>

fun Mux_NextRawChannel ::
    "Config \<Rightarrow> ('s, Frame) puller \<Rightarrow> ('s \<Rightarrow> L1BlockRef) \<Rightarrow> 's ChannelMux \<Rightarrow> (byte list outcome \<times> 's ChannelMux) res option" where
  "Mux_NextRawChannel cfg pull_frame origin (MuxIdle prev) = Some (Inl NilDereference)"
| "Mux_NextRawChannel cfg pull_frame origin (MuxBank cb) =
     Some (bind_res (Bank_NextRawChannel cfg pull_frame origin cb) (\<lambda>(r, cb). Inr (r, MuxBank cb)))"
| "Mux_NextRawChannel cfg pull_frame origin (MuxAssembler ca) =
     (case Assembler_NextRawChannel cfg pull_frame origin ca of
        None \<Rightarrow> None
      | Some res \<Rightarrow> Some (bind_res res (\<lambda>(r, ca). Inr (r, MuxAssembler ca))))"

fun Mux_FlushChannel :: "'s ChannelMux \<Rightarrow> 's ChannelMux res" where
  "Mux_FlushChannel (MuxIdle prev) = Inl NilDereference"
| "Mux_FlushChannel (MuxBank cb) = bind_res (Bank_FlushChannel cb) (\<lambda>cb. Inr (MuxBank cb))"
| "Mux_FlushChannel (MuxAssembler ca) = Inr (MuxAssembler (resetChannel ca))"

text \<open>The well-formed states with the stage that belongs to the current L1 origin.\<close>

fun mux_ok :: "Config \<Rightarrow> ('s \<Rightarrow> L1BlockRef) \<Rightarrow> ('s \<Rightarrow> bool) \<Rightarrow> 's ChannelMux \<Rightarrow> bool" where
  "mux_ok cfg origin ok (MuxIdle prev) = False"
| "mux_ok cfg origin ok (MuxBank cb) \<longleftrightarrow> bank_ok ok cb \<and> \<not> IsHolocene cfg (L1Time (origin (BkPrev cb)))"
| "mux_ok cfg origin ok (MuxAssembler ca) \<longleftrightarrow> assembler_ok ok ca \<and> IsHolocene cfg (L1Time (origin (AsPrev ca)))"

lemma Mux_Reset_ok:
  assumes "ok (mux_prev c)" "L1Time base = L1Time (origin (mux_prev c))"
  shows "mux_ok cfg origin ok (snd (Mux_Reset cfg base c)) \<and> mux_prev (snd (Mux_Reset cfg base c)) = mux_prev c \<and>
    fst (Mux_Reset cfg base c) = IoEOF"
proof (cases "IsHolocene cfg (L1Time base)")
  case True
  then show ?thesis using assms
    by (cases c) (simp_all add: Mux_Reset_def Assembler_Reset_def resetChannel_def NewChannelAssembler_def assembler_ok_def)
next
  case False
  then show ?thesis using assms
    by (cases c) (simp_all add: Mux_Reset_def Bank_Reset_def NewChannelBank_def bank_ok_def bank_shape_def bank_total_def)
qed

context frame_stage
begin

lemma Mux_Next_ok:
  assumes "mux_ok cfg origin ok c"
  shows "\<exists>r c'. Mux_NextRawChannel cfg pull origin c = Some (Inr (r, c')) \<and> mux_ok cfg origin ok c' \<and>
    origin (mux_prev c') = origin (mux_prev c) \<and> good_outcome (\<lambda>dat. True) r"
proof (cases c)
  case (MuxIdle prev)
  then show ?thesis using assms by simp
next
  case (MuxBank cb)
  then have "bank_ok ok cb" using assms by simp
  then obtain r cb' where "Bank_NextRawChannel cfg pull origin cb = Inr (r, cb')" "bank_ok ok cb'"
    "Bank_Origin origin cb' = Bank_Origin origin cb" "good_outcome (\<lambda>dat. True) r"
    using bank.pull_ok by blast
  then show ?thesis using assms MuxBank by (simp add: Bank_Origin_def)
next
  case (MuxAssembler ca)
  then have "assembler_ok ok ca" using assms by simp
  then obtain r ca' where "Assembler_NextRawChannel cfg pull origin ca = Some (Inr (r, ca'))" "assembler_ok ok ca'"
    "Assembler_Origin origin ca' = Assembler_Origin origin ca" "good_outcome (\<lambda>dat. True) r"
    using Assembler_Next_ok by blast
  then show ?thesis using assms MuxAssembler by (simp add: Assembler_Origin_def)
qed

end

abbreviation mux_state_ok :: "Config \<Rightarrow> 'e L1Retrieval FrameQueue ChannelMux \<Rightarrow> bool" where
  "mux_state_ok cfg \<equiv> mux_ok cfg (FrameQueue_Origin Retrieval_Origin) (queue_ok retrieval_ok)"

text \<open>C9: The channel stage is always the one of the active fork: a reset to a block of the time of the L1 origin activates
  the bank before Holocene and the assembler from Holocene on, empty and over the same frame queue; every pull from then
  on, whatever the L1 client answers, returns without a panic and without a critical error and keeps it so.\<close>

theorem ChannelMux_follows_fork:
  fixes c :: "'e L1Retrieval FrameQueue ChannelMux"
  assumes "queue_ok retrieval_ok (mux_prev c)" "L1Time base = L1Time (FrameQueue_Origin Retrieval_Origin (mux_prev c))"
  shows "mux_state_ok cfg (snd (Mux_Reset cfg base c)) \<and> mux_prev (snd (Mux_Reset cfg base c)) = mux_prev c \<and>
    (\<forall>(m :: 'e L1Retrieval FrameQueue ChannelMux) f src. mux_state_ok cfg m \<longrightarrow>
       (\<exists>r m'. Mux_NextRawChannel cfg (frames_of cfg f src) (FrameQueue_Origin Retrieval_Origin) m = Some (Inr (r, m')) \<and>
          mux_state_ok cfg m' \<and> r \<noteq> Inl (Leveled LevelCritical)))"
proof (intro conjI allI impI)
  show "mux_state_ok cfg (snd (Mux_Reset cfg base c))" "mux_prev (snd (Mux_Reset cfg base c)) = mux_prev c"
    using Mux_Reset_ok [of "queue_ok retrieval_ok" c base "FrameQueue_Origin Retrieval_Origin" cfg] assms by simp_all
next
  fix m :: "'e L1Retrieval FrameQueue ChannelMux" and f src
  assume "mux_state_ok cfg m"
  then obtain r m' where
    "Mux_NextRawChannel cfg (frames_of cfg f src) (FrameQueue_Origin Retrieval_Origin) m = Some (Inr (r, m'))"
    "mux_state_ok cfg m'" "good_outcome (\<lambda>dat. True) r" using retrieval.fq.Mux_Next_ok by blast
  then show "\<exists>r m'. Mux_NextRawChannel cfg (frames_of cfg f src) (FrameQueue_Origin Retrieval_Origin) m = Some (Inr (r, m')) \<and>
      mux_state_ok cfg m' \<and> r \<noteq> Inl (Leveled LevelCritical)" by (cases r) auto
qed

theorem ChannelMux_follows_fork_witness:
  "mux_state_ok sample_config (snd (Mux_Reset sample_config no_block (NewChannelMux \<lparr>FqFrames = [], FqPrev = retrieval_with [[0, 1]]\<rparr>)))"
proof -
  have "queue_ok retrieval_ok (mux_prev (NewChannelMux \<lparr>FqFrames = [], FqPrev = retrieval_with [[0, 1]]\<rparr>))"
    "L1Time no_block = L1Time (FrameQueue_Origin Retrieval_Origin (mux_prev (NewChannelMux \<lparr>FqFrames = [], FqPrev = retrieval_with [[0, 1]]\<rparr>)))"
    by (simp_all add: NewChannelMux_def queue_ok_def retrieval_ok_def retrieval_with_def iter_ok_def FrameQueue_Origin_def Retrieval_Origin_def)
  from ChannelMux_follows_fork [OF this] show ?thesis by blast
qed
end
