(* ===== verification/Derive_L1Info.thy ===== *)
theory Derive_L1Info
  imports Derive_SysCfg
begin

text \<open>
  The L1 attributes of an L2 block: \<open>op-node/rollup/derive/l1_block_info.go\<close>, the source hashes of
  \<open>deposit_source.go\<close>, and \<open>payload_util.go\<close>, which reads the attributes back from a block.  The four-byte selectors
  are prefixes of Keccak values: parameters, as are the Keccak function, the decoding of transactions and the EIP-1559
  extra data, which are not under src.  Big integers are \<open>int\<close>, a nil pointer to one is \<open>None\<close>.
\<close>

section \<open>Further ABI values\<close>

datatype info_error =
    UnexpectedLength nat | BadSignature | BadField | ErrInvalidFormat | ErrInvalidIsthmusFormat | ExtraBytes | Exceeds256Bits
  | BadScalar scalar_error

definition need :: "'e \<Rightarrow> 'a option \<Rightarrow> 'e + 'a" where
  "need e x = (case x of None \<Rightarrow> Inl e | Some y \<Rightarrow> Inr y)"

lemma need_simps [simp]: "need e (Some y) = Inr y" "need e None = Inl e"
  by (simp_all add: need_def)

definition read_be :: "nat \<Rightarrow> byte list \<Rightarrow> ('w::len word \<times> byte list) option" where
  "read_be n r = (case read_n n r of None \<Rightarrow> None | Some (b, r1) \<Rightarrow> Some (word_be b, r1))"

definition ReadAndValidateSignature :: "byte list \<Rightarrow> byte list \<Rightarrow> byte list option" where
  "ReadAndValidateSignature sig r =
     (case read_n 4 r of None \<Rightarrow> None | Some (s, r1) \<Rightarrow> if s \<noteq> sig then None else Some r1)"

definition abi_ReadHash :: "byte list \<Rightarrow> (H256 \<times> byte list) option" where
  "abi_ReadHash r = (case read_n 32 r of None \<Rightarrow> None | Some (b, r1) \<Rightarrow> Some (word_be b, r1))"

definition ReadUint256 :: "byte list \<Rightarrow> (int \<times> byte list) option" where
  "ReadUint256 r = (case read_n 32 r of None \<Rightarrow> None | Some (b, r1) \<Rightarrow> Some (int (be_dec b), r1))"

definition abi_WriteHash :: "H256 \<Rightarrow> byte list" where
  "abi_WriteHash h = be_word 32 h"

text \<open>\<open>BitLen\<close> and \<open>FillBytes\<close> use the absolute value; a nil pointer panics.\<close>

definition WriteUint256 :: "int option \<Rightarrow> (info_error + byte list) res" where
  "WriteUint256 n =
     (case n of
        None \<Rightarrow> Inl NilDereference
      | Some i \<Rightarrow> if 2 ^ 256 \<le> \<bar>i\<bar> then Inr (Inl Exceeds256Bits) else Inr (Inr (be_enc 32 (nat \<bar>i\<bar>))))"

lemma read_be_word [simp]: "LENGTH('w) = 8 * n \<Longrightarrow> read_be n (be_word n w @ r) = Some (w :: 'w::len word, r)"
proof -
  assume "LENGTH('w) = 8 * n"
  moreover have "read_n n (be_word n w @ r) = Some (be_word n w, r)" by (simp add: read_n_Some)
  ultimately show ?thesis by (simp add: read_be_def)
qed

lemma ReadAndValidateSignature_append [simp]: "length sig = 4 \<Longrightarrow> ReadAndValidateSignature sig (sig @ r) = Some r"
proof -
  assume "length sig = 4"
  then have "read_n 4 (sig @ r) = Some (sig, r)" by (simp add: read_n_Some)
  then show ?thesis by (simp add: ReadAndValidateSignature_def)
qed

lemma abi_ReadHash_abi_WriteHash [simp]: "abi_ReadHash (abi_WriteHash h @ r) = Some (h, r)"
proof -
  have "read_n 32 (be_word 32 h @ r) = Some (be_word 32 h, r)" by (simp add: read_n_Some)
  then show ?thesis by (simp add: abi_ReadHash_def abi_WriteHash_def)
qed

lemma ReadUint256_enc [simp]: "n < 2 ^ 256 \<Longrightarrow> ReadUint256 (be_enc 32 n @ r) = Some (int n, r)"
proof -
  assume "n < 2 ^ 256"
  then have "be_dec (be_enc 32 n) = n" by (simp add: be_dec_enc)
  moreover have "read_n 32 (be_enc 32 n @ r) = Some (be_enc 32 n, r)" by (simp add: read_n_Some)
  ultimately show ?thesis by (simp add: ReadUint256_def)
qed

lemma WriteUint256_Inr: "WriteUint256 n = Inr (Inr bs) \<longleftrightarrow> (\<exists>i. n = Some i \<and> \<bar>i\<bar> < 2 ^ 256 \<and> bs = be_enc 32 (nat \<bar>i\<bar>))"
  by (cases n) (auto simp: WriteUint256_def)

lemma read_u32 [simp]: "read_be 4 (be_word 4 v @ r) = Some (v :: 32 word, r)"
  by (rule read_be_word) simp

lemma read_u64 [simp]: "read_be 8 (be_word 8 v @ r) = Some (v :: 64 word, r)"
  by (rule read_be_word) simp

lemma read_u64_end [simp]: "read_be 8 (be_word 8 v) = Some (v :: 64 word, [])"
  using read_u64 [of v "[]"] by simp

section \<open>L1 block info\<close>

record selectors =
  L1InfoFuncBedrockBytes4 :: "byte list"
  L1InfoFuncEcotoneBytes4 :: "byte list"
  L1InfoFuncIsthmusBytes4 :: "byte list"
  L1InfoFuncInteropBytes4 :: "byte list"
  DepositsCompleteBytes4 :: "byte list"

record L1BlockInfo =
  InfoNumber :: Word
  InfoTime :: Word
  InfoBaseFee :: "int option"
  InfoBlockHash :: H256
  InfoSequenceNumber :: Word
  InfoBatcherAddr :: Addr
  L1FeeOverhead :: H256
  L1FeeScalar :: H256
  InfoBlobBaseFee :: "int option"
  InfoBaseFeeScalar :: "32 word"
  InfoBlobBaseFeeScalar :: "32 word"
  OperatorFeeScalar :: "32 word"
  OperatorFeeConstant :: Word

definition empty_info :: L1BlockInfo where
  "empty_info = \<lparr>InfoNumber = 0, InfoTime = 0, InfoBaseFee = None, InfoBlockHash = 0, InfoSequenceNumber = 0, InfoBatcherAddr = 0,
     L1FeeOverhead = 0, L1FeeScalar = 0, InfoBlobBaseFee = None, InfoBaseFeeScalar = 0, InfoBlobBaseFeeScalar = 0,
     OperatorFeeScalar = 0, OperatorFeeConstant = 0\<rparr>"

definition L1InfoBedrockLen :: nat where [simp]: "L1InfoBedrockLen = 4 + 32 * 8"
definition L1InfoEcotoneLen :: nat where [simp]: "L1InfoEcotoneLen = 4 + 32 * 5"
definition L1InfoIsthmusLen :: nat where [simp]: "L1InfoIsthmusLen = 4 + 32 * 5 + 4 + 8"

text \<open>A panic is outermost, an error inside; \<open>bind_err\<close> goes on without either.\<close>

definition bind_err :: "('e + 'a) res \<Rightarrow> ('a \<Rightarrow> ('e + 'b) res) \<Rightarrow> ('e + 'b) res" where
  "bind_err m k = bind_res m (\<lambda>r. case r of Inl e \<Rightarrow> Inr (Inl e) | Inr a \<Rightarrow> k a)"

lemma bind_err_simps [simp]:
  "bind_err (Inl p) k = Inl p" "bind_err (Inr (Inl e)) k = Inr (Inl e)" "bind_err (Inr (Inr a)) k = k a"
  by (simp_all add: bind_err_def)

lemma bind_err_Inr: "bind_err m k = Inr (Inr b) \<longleftrightarrow> (\<exists>a. m = Inr (Inr a) \<and> k a = Inr (Inr b))"
proof (cases m)
  case (Inr r)
  then show ?thesis by (cases r) simp_all
qed simp

definition marshalBinaryBedrock :: "selectors \<Rightarrow> L1BlockInfo \<Rightarrow> (info_error + byte list) res" where
  "marshalBinaryBedrock sel info =
     bind_err (WriteUint256 (InfoBaseFee info)) (\<lambda>baseFee.
       Inr (Inr (L1InfoFuncBedrockBytes4 sel @ WriteUint64 (InfoNumber info) @ WriteUint64 (InfoTime info) @ baseFee @
         abi_WriteHash (InfoBlockHash info) @ WriteUint64 (InfoSequenceNumber info) @ WriteAddress (InfoBatcherAddr info) @
         WriteEthBytes32 (L1FeeOverhead info) @ WriteEthBytes32 (L1FeeScalar info))))"

definition unmarshalBinaryBedrock :: "selectors \<Rightarrow> L1BlockInfo \<Rightarrow> byte list \<Rightarrow> info_error + L1BlockInfo" where
  "unmarshalBinaryBedrock sel info dat =
     (if length dat \<noteq> L1InfoBedrockLen then Inl (UnexpectedLength (length dat))
      else
        bind_res (need BadSignature (ReadAndValidateSignature (L1InfoFuncBedrockBytes4 sel) dat)) (\<lambda>r.
        bind_res (need BadField (ReadUint64 r)) (\<lambda>(number, r).
        bind_res (need BadField (ReadUint64 r)) (\<lambda>(time, r).
        bind_res (need BadField (ReadUint256 r)) (\<lambda>(baseFee, r).
        bind_res (need BadField (abi_ReadHash r)) (\<lambda>(blockHash, r).
        bind_res (need BadField (ReadUint64 r)) (\<lambda>(sequenceNumber, r).
        bind_res (need BadField (ReadAddress r)) (\<lambda>(batcherAddr, r).
        bind_res (need BadField (ReadEthBytes32 r)) (\<lambda>(overhead, r).
        bind_res (need BadField (ReadEthBytes32 r)) (\<lambda>(scalar, r).
        if \<not> EmptyReader r then Inl ExtraBytes
        else Inr (info\<lparr>InfoNumber := number, InfoTime := time, InfoBaseFee := Some baseFee, InfoBlockHash := blockHash,
               InfoSequenceNumber := sequenceNumber, InfoBatcherAddr := batcherAddr, L1FeeOverhead := overhead,
               L1FeeScalar := scalar\<rparr>)))))))))))"

text \<open>What the two packed formats have in common: the fields from the scalars to the batcher address.\<close>

definition marshal_packed :: "byte list \<Rightarrow> L1BlockInfo \<Rightarrow> (info_error + byte list) res" where
  "marshal_packed sig info =
     bind_err (WriteUint256 (InfoBaseFee info)) (\<lambda>baseFee.
     bind_err (WriteUint256 (case InfoBlobBaseFee info of None \<Rightarrow> Some 1 | Some b \<Rightarrow> Some b)) (\<lambda>blobBaseFee.
       Inr (Inr (sig @ be_word 4 (InfoBaseFeeScalar info) @ be_word 4 (InfoBlobBaseFeeScalar info) @ be_word 8 (InfoSequenceNumber info) @
         be_word 8 (InfoTime info) @ be_word 8 (InfoNumber info) @ baseFee @ blobBaseFee @ abi_WriteHash (InfoBlockHash info) @
         WriteAddress (InfoBatcherAddr info)))))"

definition unmarshal_packed :: "info_error \<Rightarrow> byte list \<Rightarrow> L1BlockInfo \<Rightarrow> byte list \<Rightarrow> info_error + L1BlockInfo \<times> byte list" where
  "unmarshal_packed bad sig info dat =
     bind_res (need BadSignature (ReadAndValidateSignature sig dat)) (\<lambda>r.
     bind_res (need bad (read_be 4 r)) (\<lambda>(baseFeeScalar, r).
     bind_res (need bad (read_be 4 r)) (\<lambda>(blobBaseFeeScalar, r).
     bind_res (need bad (read_be 8 r)) (\<lambda>(sequenceNumber, r).
     bind_res (need bad (read_be 8 r)) (\<lambda>(time, r).
     bind_res (need bad (read_be 8 r)) (\<lambda>(number, r).
     bind_res (need BadField (ReadUint256 r)) (\<lambda>(baseFee, r).
     bind_res (need BadField (ReadUint256 r)) (\<lambda>(blobBaseFee, r).
     bind_res (need BadField (abi_ReadHash r)) (\<lambda>(blockHash, r).
     bind_res (need BadField (ReadAddress r)) (\<lambda>(batcherAddr, r).
       Inr (info\<lparr>InfoBaseFeeScalar := baseFeeScalar, InfoBlobBaseFeeScalar := blobBaseFeeScalar,
              InfoSequenceNumber := sequenceNumber, InfoTime := time, InfoNumber := number, InfoBaseFee := Some baseFee,
              InfoBlobBaseFee := Some blobBaseFee, InfoBlockHash := blockHash, InfoBatcherAddr := batcherAddr\<rparr>, r)))))))))))"

definition marshalBinaryEcotone :: "selectors \<Rightarrow> L1BlockInfo \<Rightarrow> (info_error + byte list) res" where
  "marshalBinaryEcotone sel info = marshal_packed (L1InfoFuncEcotoneBytes4 sel) info"

definition unmarshalBinaryEcotone :: "selectors \<Rightarrow> L1BlockInfo \<Rightarrow> byte list \<Rightarrow> info_error + L1BlockInfo" where
  "unmarshalBinaryEcotone sel info dat =
     (if length dat \<noteq> L1InfoEcotoneLen then Inl (UnexpectedLength (length dat))
      else bind_res (unmarshal_packed ErrInvalidFormat (L1InfoFuncEcotoneBytes4 sel) info dat) (\<lambda>(info, r).
             if \<not> EmptyReader r then Inl ExtraBytes else Inr info))"

definition marshalBinaryWithSignature :: "L1BlockInfo \<Rightarrow> byte list \<Rightarrow> (info_error + byte list) res" where
  "marshalBinaryWithSignature info signature =
     bind_err (marshal_packed signature info) (\<lambda>bs.
       Inr (Inr (bs @ be_word 4 (OperatorFeeScalar info) @ be_word 8 (OperatorFeeConstant info))))"

definition unmarshalBinaryWithSignatureAndData :: "L1BlockInfo \<Rightarrow> byte list \<Rightarrow> byte list \<Rightarrow> info_error + L1BlockInfo" where
  "unmarshalBinaryWithSignatureAndData info signature dat =
     (if length dat \<noteq> L1InfoIsthmusLen then Inl (UnexpectedLength (length dat))
      else
        bind_res (unmarshal_packed ErrInvalidIsthmusFormat signature info dat) (\<lambda>(info, r).
        bind_res (need ErrInvalidIsthmusFormat (read_be 4 r)) (\<lambda>(scalar, r).
        bind_res (need ErrInvalidIsthmusFormat (read_be 8 r)) (\<lambda>(constant, r).
        if \<not> EmptyReader r then Inl ExtraBytes
        else Inr (info\<lparr>OperatorFeeScalar := scalar, OperatorFeeConstant := constant\<rparr>)))))"

definition marshalBinaryIsthmus :: "selectors \<Rightarrow> L1BlockInfo \<Rightarrow> (info_error + byte list) res" where
  "marshalBinaryIsthmus sel info = marshalBinaryWithSignature info (L1InfoFuncIsthmusBytes4 sel)"

definition marshalBinaryInterop :: "selectors \<Rightarrow> L1BlockInfo \<Rightarrow> (info_error + byte list) res" where
  "marshalBinaryInterop sel info = marshalBinaryWithSignature info (L1InfoFuncInteropBytes4 sel)"

definition unmarshalBinaryIsthmus :: "selectors \<Rightarrow> L1BlockInfo \<Rightarrow> byte list \<Rightarrow> info_error + L1BlockInfo" where
  "unmarshalBinaryIsthmus sel info dat = unmarshalBinaryWithSignatureAndData info (L1InfoFuncIsthmusBytes4 sel) dat"

definition unmarshalBinaryInterop :: "selectors \<Rightarrow> L1BlockInfo \<Rightarrow> byte list \<Rightarrow> info_error + L1BlockInfo" where
  "unmarshalBinaryInterop sel info dat = unmarshalBinaryWithSignatureAndData info (L1InfoFuncInteropBytes4 sel) dat"

definition isEcotoneButNotFirstBlock :: "Config \<Rightarrow> Word \<Rightarrow> bool" where
  "isEcotoneButNotFirstBlock cfg t \<longleftrightarrow> IsEcotone cfg t \<and> \<not> IsEcotoneActivationBlock cfg t"

definition isIsthmusButNotFirstBlock :: "Config \<Rightarrow> Word \<Rightarrow> bool" where
  "isIsthmusButNotFirstBlock cfg t \<longleftrightarrow> IsIsthmus cfg t \<and> \<not> IsIsthmusActivationBlock cfg t"

definition isInteropButNotFirstBlock :: "Config \<Rightarrow> Word \<Rightarrow> bool" where
  "isInteropButNotFirstBlock cfg t \<longleftrightarrow> IsInterop cfg t \<and> \<not> IsInteropActivationBlock cfg t"

definition L1BlockInfoFromBytes :: "selectors \<Rightarrow> Config \<Rightarrow> Word \<Rightarrow> byte list \<Rightarrow> info_error + L1BlockInfo" where
  "L1BlockInfoFromBytes sel cfg l2BlockTime dat =
     (if isInteropButNotFirstBlock cfg l2BlockTime then unmarshalBinaryInterop sel empty_info dat
      else if isIsthmusButNotFirstBlock cfg l2BlockTime then unmarshalBinaryIsthmus sel empty_info dat
      else if isEcotoneButNotFirstBlock cfg l2BlockTime then unmarshalBinaryEcotone sel empty_info dat
      else unmarshalBinaryBedrock sel empty_info dat)"

section \<open>Deposit sources\<close>

type_synonym keccak = "byte list \<Rightarrow> H256"

datatype deposit_source =
    UserDepositSource H256 Word
  | L1InfoDepositSource H256 Word
  | UpgradeDepositSource "byte list"
  | AfterForceIncludeSource H256 Word
  | InvalidatedBlockSource H256

definition indexed_id :: "keccak \<Rightarrow> H256 \<Rightarrow> Word \<Rightarrow> H256" where
  "indexed_id keccak l1BlockHash idx = keccak (be_word 32 l1BlockHash @ replicate 24 0 @ be_word 8 idx)"

definition domain_hash :: "keccak \<Rightarrow> Word \<Rightarrow> H256 \<Rightarrow> H256" where
  "domain_hash keccak domain h = keccak (replicate 24 0 @ be_word 8 domain @ be_word 32 h)"

fun SourceHash :: "keccak \<Rightarrow> deposit_source \<Rightarrow> H256" where
  "SourceHash k (UserDepositSource h idx) = domain_hash k 0 (indexed_id k h idx)"
| "SourceHash k (L1InfoDepositSource h idx) = domain_hash k 1 (indexed_id k h idx)"
| "SourceHash k (UpgradeDepositSource intent) = domain_hash k 2 (k intent)"
| "SourceHash k (AfterForceIncludeSource h idx) = domain_hash k 3 (indexed_id k h idx)"
| "SourceHash k (InvalidatedBlockSource outputRoot) = domain_hash k 4 outputRoot"

section \<open>The deposit transactions of a block\<close>

record DepositTx =
  TxSourceHash :: H256
  TxFrom :: Addr
  TxTo :: "Addr option"
  TxMint :: "int option"
  TxValue :: int
  TxGas :: Word
  IsSystemTransaction :: bool
  TxData :: "byte list"

record BlockInfo =
  BiHash :: H256
  BiParentHash :: H256
  BiNumber :: Word
  BiTime :: Word
  BiMixDigest :: H256
  BiBaseFee :: "int option"
  BiBlobBaseFee :: "int option"
  BiParentBeaconRoot :: "H256 option"

definition L1InfoDepositerAddress :: Addr where "L1InfoDepositerAddress = 0xdeaddeaddeaddeaddeaddeaddeaddeaddead0001"
definition L1BlockAddr :: Addr where "L1BlockAddr = 0x4200000000000000000000000000000000000015"
definition RegolithSystemTxGas :: Word where "RegolithSystemTxGas = 1000000"
definition DepositsCompleteGas :: Word where "DepositsCompleteGas = 21000 + 15000"

text \<open>The values of the block and of the system configuration, and their encoding in the format of the block's fork.\<close>

definition deposit_data ::
    "selectors \<Rightarrow> Config \<Rightarrow> SystemConfig \<Rightarrow> Word \<Rightarrow> BlockInfo \<Rightarrow> Word \<Rightarrow> (info_error + byte list) res" where
  "deposit_data sel cfg sysCfg seqNumber block l2Timestamp =
     (let info = empty_info\<lparr>InfoNumber := BiNumber block, InfoTime := BiTime block, InfoBaseFee := BiBaseFee block,
                   InfoBlockHash := BiHash block, InfoSequenceNumber := seqNumber, InfoBatcherAddr := BatcherAddr sysCfg\<rparr>
      in if isEcotoneButNotFirstBlock cfg l2Timestamp then
           let isIsthmusActivated = isIsthmusButNotFirstBlock cfg l2Timestamp;
               blobBaseFee = (case BiBlobBaseFee block of None \<Rightarrow> 1 | Some b \<Rightarrow> b)
           in case EcotoneScalars_of sysCfg of
                Inl e \<Rightarrow> Inr (Inl (BadScalar e))
              | Inr scalars \<Rightarrow>
                  let info = info\<lparr>InfoBlobBaseFee := Some blobBaseFee, InfoBlobBaseFeeScalar := BlobBaseFeeScalar scalars,
                               InfoBaseFeeScalar := BaseFeeScalar scalars\<rparr>;
                      fee = DecodeOperatorFeeParams (OperatorFeeParams sysCfg);
                      info = (if isIsthmusActivated
                              then info\<lparr>OperatorFeeScalar := OpFeeScalar fee, OperatorFeeConstant := OpFeeConstant fee\<rparr>
                              else info)
                  in if isInteropButNotFirstBlock cfg l2Timestamp then marshalBinaryInterop sel info
                     else if isIsthmusActivated then marshalBinaryIsthmus sel info
                     else marshalBinaryEcotone sel info
         else marshalBinaryBedrock sel (info\<lparr>L1FeeOverhead := Overhead sysCfg, L1FeeScalar := Scalar sysCfg\<rparr>))"

definition L1InfoDeposit ::
    "keccak \<Rightarrow> selectors \<Rightarrow> Config \<Rightarrow> SystemConfig \<Rightarrow> Word \<Rightarrow> BlockInfo \<Rightarrow> Word \<Rightarrow> (info_error + DepositTx) res" where
  "L1InfoDeposit keccak sel cfg sysCfg seqNumber block l2Timestamp =
     bind_err (deposit_data sel cfg sysCfg seqNumber block l2Timestamp) (\<lambda>dat.
       let out = \<lparr>TxSourceHash = SourceHash keccak (L1InfoDepositSource (BiHash block) seqNumber), TxFrom = L1InfoDepositerAddress,
                   TxTo = Some L1BlockAddr, TxMint = None, TxValue = 0, TxGas = 150000000, IsSystemTransaction = True, TxData = dat\<rparr>
       in Inr (Inr (if IsRegolith cfg l2Timestamp then out\<lparr>IsSystemTransaction := False, TxGas := RegolithSystemTxGas\<rparr> else out)))"

definition DepositsCompleteDeposit :: "keccak \<Rightarrow> selectors \<Rightarrow> Word \<Rightarrow> BlockInfo \<Rightarrow> DepositTx" where
  "DepositsCompleteDeposit keccak sel seqNumber block =
     \<lparr>TxSourceHash = SourceHash keccak (AfterForceIncludeSource (BiHash block) seqNumber), TxFrom = L1InfoDepositerAddress,
      TxTo = Some L1BlockAddr, TxMint = None, TxValue = 0, TxGas = DepositsCompleteGas, IsSystemTransaction = False,
      TxData = DepositsCompleteBytes4 sel\<rparr>"

section \<open>Reading a payload\<close>

text \<open>What go-ethereum's decoding of a transaction gives: its type and its data.\<close>

record Transaction =
  TransactionType :: byte
  TransactionData :: "byte list"

definition DepositType :: byte where "DepositType = 0x7e"

record ExecutionPayload =
  PlParentHash :: H256
  PlBlockHash :: H256
  PlBlockNumber :: Word
  PlTimestamp :: Word
  PlGasLimit :: Word
  PlExtraData :: "byte list"
  PlTransactions :: "byte list list"

record eip1559 =
  ValidateHoloceneExtraData :: "byte list \<Rightarrow> bool"
  DecodeHoloceneExtraData :: "byte list \<Rightarrow> Word \<times> Word"
  EncodeHolocene1559Params :: "Word \<Rightarrow> Word \<Rightarrow> byte list"

datatype payload_error =
    GenesisHashMismatch | MissingL1Info | UndecodableTx | UnexpectedTxType byte | BadL1Info info_error | BadExtraData

definition read_l1_info ::
    "selectors \<Rightarrow> Config \<Rightarrow> (byte list \<Rightarrow> Transaction option) \<Rightarrow> Word \<Rightarrow> byte list list \<Rightarrow> payload_error + L1BlockInfo" where
  "read_l1_info sel cfg decode_tx timestamp txs =
     (case txs of
        [] \<Rightarrow> Inl MissingL1Info
      | opaque # _ \<Rightarrow>
          (case decode_tx opaque of
             None \<Rightarrow> Inl UndecodableTx
           | Some tx \<Rightarrow>
               if TransactionType tx \<noteq> DepositType then Inl (UnexpectedTxType (TransactionType tx))
               else wrap_err BadL1Info (L1BlockInfoFromBytes sel cfg timestamp (TransactionData tx))))"

definition PayloadToBlockRef ::
    "selectors \<Rightarrow> Config \<Rightarrow> (byte list \<Rightarrow> Transaction option) \<Rightarrow> ExecutionPayload \<Rightarrow> payload_error + L2BlockRef" where
  "PayloadToBlockRef sel cfg decode_tx payload =
     bind_res
       (if PlBlockNumber payload = BidNumber (GenL2 (CfgGenesis cfg)) then
          if PlBlockHash payload \<noteq> BidHash (GenL2 (CfgGenesis cfg)) then Inl GenesisHashMismatch
          else Inr (GenL1 (CfgGenesis cfg), 0)
        else bind_res (read_l1_info sel cfg decode_tx (PlTimestamp payload) (PlTransactions payload)) (\<lambda>info.
               Inr (\<lparr>BidHash = InfoBlockHash info, BidNumber = InfoNumber info\<rparr>, InfoSequenceNumber info)))
       (\<lambda>(l1Origin, sequenceNumber).
          Inr \<lparr>L2Hash = PlBlockHash payload, L2Number = PlBlockNumber payload, L2ParentHash = PlParentHash payload,
               L2Time = PlTimestamp payload, L1Origin = l1Origin, SequenceNumber = sequenceNumber\<rparr>)"

text \<open>The same for a block, whose transactions are decoded already.\<close>

record L2Block =
  BlHash :: H256
  BlParentHash :: H256
  BlNumber :: Word
  BlTime :: Word
  BlTransactions :: "Transaction list"

definition L2BlockToBlockRef :: "selectors \<Rightarrow> Config \<Rightarrow> L2Block \<Rightarrow> payload_error + L2BlockRef" where
  "L2BlockToBlockRef sel cfg block =
     bind_res
       (if BlNumber block = BidNumber (GenL2 (CfgGenesis cfg)) then
          if BlHash block \<noteq> BidHash (GenL2 (CfgGenesis cfg)) then Inl GenesisHashMismatch
          else Inr (GenL1 (CfgGenesis cfg), 0)
        else
          (case BlTransactions block of
             [] \<Rightarrow> Inl MissingL1Info
           | tx # _ \<Rightarrow>
               if TransactionType tx \<noteq> DepositType then Inl (UnexpectedTxType (TransactionType tx))
               else bind_res (wrap_err BadL1Info (L1BlockInfoFromBytes sel cfg (BlTime block) (TransactionData tx))) (\<lambda>info.
                      Inr (\<lparr>BidHash = InfoBlockHash info, BidNumber = InfoNumber info\<rparr>, InfoSequenceNumber info))))
       (\<lambda>(l1Origin, sequenceNumber).
          Inr \<lparr>L2Hash = BlHash block, L2Number = BlNumber block, L2ParentHash = BlParentHash block,
               L2Time = BlTime block, L1Origin = l1Origin, SequenceNumber = sequenceNumber\<rparr>)"

definition PayloadToSystemConfig ::
    "eip1559 \<Rightarrow> selectors \<Rightarrow> Config \<Rightarrow> (byte list \<Rightarrow> Transaction option) \<Rightarrow> ExecutionPayload \<Rightarrow> payload_error + SystemConfig" where
  "PayloadToSystemConfig e sel cfg decode_tx payload =
     (if PlBlockNumber payload = BidNumber (GenL2 (CfgGenesis cfg)) then
        if PlBlockHash payload \<noteq> BidHash (GenL2 (CfgGenesis cfg)) then Inl GenesisHashMismatch
        else Inr (GenSystemConfig (CfgGenesis cfg))
      else
        bind_res (read_l1_info sel cfg decode_tx (PlTimestamp payload) (PlTransactions payload)) (\<lambda>info.
        let scalar = be_word 32 (L1FeeScalar info);
            scalar = (if isEcotoneButNotFirstBlock cfg (PlTimestamp payload)
                      then copy_at 28 (be_word 4 (InfoBaseFeeScalar info))
                             (copy_at 24 (be_word 4 (InfoBlobBaseFeeScalar info)) (scalar[0 := 1]))
                      else scalar);
            r = \<lparr>BatcherAddr = InfoBatcherAddr info, Overhead = L1FeeOverhead info, Scalar = word_be scalar,
                 GasLimit = PlGasLimit payload, EIP1559Params = 0, OperatorFeeParams = 0\<rparr>
        in bind_res
             (if IsHolocene cfg (PlTimestamp payload) then
                if \<not> ValidateHoloceneExtraData e (PlExtraData payload) then Inl BadExtraData
                else case DecodeHoloceneExtraData e (PlExtraData payload) of
                       (d, el) \<Rightarrow> Inr (r\<lparr>EIP1559Params := word_be (copy_at 0 (EncodeHolocene1559Params e d el) (replicate 8 0))\<rparr>)
              else Inr r) (\<lambda>r.
        Inr (if IsIsthmus cfg (PlTimestamp payload)
             then r\<lparr>OperatorFeeParams := EncodeOperatorFeeParams \<lparr>OpFeeScalar = OperatorFeeScalar info, OpFeeConstant = OperatorFeeConstant info\<rparr>\<rparr>
             else r))))"


section \<open>Decoding is the inverse of encoding\<close>

definition selectors_ok :: "selectors \<Rightarrow> bool" where
  "selectors_ok sel \<longleftrightarrow> length (L1InfoFuncBedrockBytes4 sel) = 4 \<and> length (L1InfoFuncEcotoneBytes4 sel) = 4 \<and>
     length (L1InfoFuncIsthmusBytes4 sel) = 4 \<and> length (L1InfoFuncInteropBytes4 sel) = 4"

definition fee_ok :: "int \<Rightarrow> bool" where
  "fee_ok n \<longleftrightarrow> 0 \<le> n \<and> n < 2 ^ 256"

lemma WriteUint256_ok: "fee_ok n \<Longrightarrow> WriteUint256 (Some n) = Inr (Inr (be_enc 32 (nat n)))"
  by (simp add: WriteUint256_def fee_ok_def)

lemma ReadUint256_ok: "fee_ok n \<Longrightarrow> ReadUint256 (be_enc 32 (nat n) @ r) = Some (n, r)"
proof -
  assume ok: "fee_ok n"
  then have "nat n < 2 ^ 256" by (simp add: fee_ok_def nat_less_iff)
  then show ?thesis using ok by (simp add: fee_ok_def)
qed

lemma ReadAddress_end [simp]: "ReadAddress (WriteAddress a) = Some (a, [])"
  by (simp add: ReadAddress_Some)

lemma lengths [simp, len_simps]:
  "length (WriteUint64 n) = 32" "length (WriteAddress a) = 32" "length (abi_WriteHash h) = 32" "length (WriteEthBytes32 b) = 32"
  by (simp_all add: WriteUint64_def WriteAddress_def abi_WriteHash_def WriteEthBytes32_def)

lemma Bedrock_roundtrip:
  assumes "length (L1InfoFuncBedrockBytes4 sel) = 4" "InfoBaseFee info = Some fee" "fee_ok fee"
  shows "\<exists>bs. marshalBinaryBedrock sel info = Inr (Inr bs) \<and>
    unmarshalBinaryBedrock sel empty_info bs =
      Inr (empty_info\<lparr>InfoNumber := InfoNumber info, InfoTime := InfoTime info, InfoBaseFee := Some fee,
        InfoBlockHash := InfoBlockHash info, InfoSequenceNumber := InfoSequenceNumber info, InfoBatcherAddr := InfoBatcherAddr info,
        L1FeeOverhead := L1FeeOverhead info, L1FeeScalar := L1FeeScalar info\<rparr>)"
  using assms by (simp add: marshalBinaryBedrock_def unmarshalBinaryBedrock_def WriteUint256_ok ReadUint256_ok EmptyReader_def)

lemma packed_roundtrip:
  assumes "length sig = 4" "InfoBaseFee info = Some fee" "fee_ok fee" "InfoBlobBaseFee info = Some blobFee" "fee_ok blobFee"
  shows "\<exists>bs. marshal_packed sig info = Inr (Inr bs) \<and> length bs = 164 \<and>
    (\<forall>r info0 bad. unmarshal_packed bad sig info0 (bs @ r) =
       Inr (info0\<lparr>InfoBaseFeeScalar := InfoBaseFeeScalar info, InfoBlobBaseFeeScalar := InfoBlobBaseFeeScalar info,
              InfoSequenceNumber := InfoSequenceNumber info, InfoTime := InfoTime info, InfoNumber := InfoNumber info,
              InfoBaseFee := Some fee, InfoBlobBaseFee := Some blobFee, InfoBlockHash := InfoBlockHash info,
              InfoBatcherAddr := InfoBatcherAddr info\<rparr>, r))"
  using assms by (simp add: marshal_packed_def unmarshal_packed_def WriteUint256_ok ReadUint256_ok)

lemma Ecotone_roundtrip:
  assumes "length (L1InfoFuncEcotoneBytes4 sel) = 4" "InfoBaseFee info = Some fee" "fee_ok fee"
    "InfoBlobBaseFee info = Some blobFee" "fee_ok blobFee"
    "L1FeeOverhead info = 0" "L1FeeScalar info = 0" "OperatorFeeScalar info = 0" "OperatorFeeConstant info = 0"
  shows "\<exists>bs. marshalBinaryEcotone sel info = Inr (Inr bs) \<and> unmarshalBinaryEcotone sel empty_info bs = Inr info"
proof -
  obtain bs where bs: "marshal_packed (L1InfoFuncEcotoneBytes4 sel) info = Inr (Inr bs)" "length bs = 164"
    "\<And>r info0 bad. unmarshal_packed bad (L1InfoFuncEcotoneBytes4 sel) info0 (bs @ r) =
       Inr (info0\<lparr>InfoBaseFeeScalar := InfoBaseFeeScalar info, InfoBlobBaseFeeScalar := InfoBlobBaseFeeScalar info,
              InfoSequenceNumber := InfoSequenceNumber info, InfoTime := InfoTime info, InfoNumber := InfoNumber info,
              InfoBaseFee := Some fee, InfoBlobBaseFee := Some blobFee, InfoBlockHash := InfoBlockHash info,
              InfoBatcherAddr := InfoBatcherAddr info\<rparr>, r)"
    using packed_roundtrip [OF assms(1-5)] by blast
  show ?thesis
    using bs(1,2) bs(3) [of ErrInvalidFormat empty_info "[]"] assms
    by (intro exI [of _ bs]) (cases info, simp add: marshalBinaryEcotone_def unmarshalBinaryEcotone_def EmptyReader_def empty_info_def)
qed

lemma Signature_roundtrip:
  assumes "length sig = 4" "InfoBaseFee info = Some fee" "fee_ok fee" "InfoBlobBaseFee info = Some blobFee" "fee_ok blobFee"
    "L1FeeOverhead info = 0" "L1FeeScalar info = 0"
  shows "\<exists>bs. marshalBinaryWithSignature info sig = Inr (Inr bs) \<and>
    unmarshalBinaryWithSignatureAndData empty_info sig bs = Inr info"
proof -
  obtain bs where bs: "marshal_packed sig info = Inr (Inr bs)" "length bs = 164"
    "\<And>r info0 bad. unmarshal_packed bad sig info0 (bs @ r) =
       Inr (info0\<lparr>InfoBaseFeeScalar := InfoBaseFeeScalar info, InfoBlobBaseFeeScalar := InfoBlobBaseFeeScalar info,
              InfoSequenceNumber := InfoSequenceNumber info, InfoTime := InfoTime info, InfoNumber := InfoNumber info,
              InfoBaseFee := Some fee, InfoBlobBaseFee := Some blobFee, InfoBlockHash := InfoBlockHash info,
              InfoBatcherAddr := InfoBatcherAddr info\<rparr>, r)"
    using packed_roundtrip [OF assms(1-5)] by blast
  let ?r = "be_word 4 (OperatorFeeScalar info) @ be_word 8 (OperatorFeeConstant info)"
  show ?thesis
    using bs(1,2) bs(3) [of ErrInvalidIsthmusFormat empty_info ?r] assms
    by (intro exI [of _ "bs @ ?r"])
      (cases info, simp add: marshalBinaryWithSignature_def unmarshalBinaryWithSignatureAndData_def EmptyReader_def empty_info_def)
qed

text \<open>The forks past their first block are in order, once Interop is checked like the others.\<close>

lemma not_first_order:
  assumes "Config_Check cfg = Inr ()" "checkFork (IsthmusTime cfg) (InteropTime cfg) Isthmus Interop = Inr ()"
  shows "isInteropButNotFirstBlock cfg t \<Longrightarrow> isIsthmusButNotFirstBlock cfg t"
    "isIsthmusButNotFirstBlock cfg t \<Longrightarrow> isEcotoneButNotFirstBlock cfg t"
proof -
  note forks = Config_Check_forks [OF assms(1)]
  have interop: "IsInterop cfg t \<Longrightarrow> IsIsthmus cfg t" for t
    using assms(2) unfolding IsInterop_def IsIsthmus_def by (rule checkFork_active)
  note defs = isInteropButNotFirstBlock_def isIsthmusButNotFirstBlock_def isEcotoneButNotFirstBlock_def
    IsInteropActivationBlock_def IsIsthmusActivationBlock_def IsEcotoneActivationBlock_def activation_block_def not_le
  show "isInteropButNotFirstBlock cfg t \<Longrightarrow> isIsthmusButNotFirstBlock cfg t" using interop by (auto simp: defs)
  show "isIsthmusButNotFirstBlock cfg t \<Longrightarrow> isEcotoneButNotFirstBlock cfg t" using forks by (auto simp: defs)
qed

text \<open>What an L2 block is to know of its L1 origin and of the system configuration.\<close>

definition expected_info :: "Config \<Rightarrow> SystemConfig \<Rightarrow> EcotoneScalars \<Rightarrow> Word \<Rightarrow> BlockInfo \<Rightarrow> Word \<Rightarrow> L1BlockInfo" where
  "expected_info cfg sysCfg scalars seqNumber block t =
     (let fee = DecodeOperatorFeeParams (OperatorFeeParams sysCfg);
          ecotone = isEcotoneButNotFirstBlock cfg t; isthmus = isIsthmusButNotFirstBlock cfg t
      in \<lparr>InfoNumber = BiNumber block, InfoTime = BiTime block, InfoBaseFee = BiBaseFee block, InfoBlockHash = BiHash block,
          InfoSequenceNumber = seqNumber, InfoBatcherAddr = BatcherAddr sysCfg,
          L1FeeOverhead = (if ecotone then 0 else Overhead sysCfg), L1FeeScalar = (if ecotone then 0 else Scalar sysCfg),
          InfoBlobBaseFee = (if ecotone then Some (case BiBlobBaseFee block of None \<Rightarrow> 1 | Some b \<Rightarrow> b) else None),
          InfoBaseFeeScalar = (if ecotone then BaseFeeScalar scalars else 0),
          InfoBlobBaseFeeScalar = (if ecotone then BlobBaseFeeScalar scalars else 0),
          OperatorFeeScalar = (if isthmus then OpFeeScalar fee else 0),
          OperatorFeeConstant = (if isthmus then OpFeeConstant fee else 0)\<rparr>)"

definition block_fees_ok :: "BlockInfo \<Rightarrow> bool" where
  "block_fees_ok block \<longleftrightarrow> (\<exists>fee. BiBaseFee block = Some fee \<and> fee_ok fee) \<and>
     (case BiBlobBaseFee block of None \<Rightarrow> True | Some b \<Rightarrow> fee_ok b)"

definition forks_checked :: "Config \<Rightarrow> bool" where
  "forks_checked cfg \<longleftrightarrow> Config_Check cfg = Inr () \<and> checkFork (IsthmusTime cfg) (InteropTime cfg) Isthmus Interop = Inr ()"

lemma deposit_data_roundtrip:
  assumes "forks_checked cfg" "selectors_ok sel" "block_fees_ok block" "EcotoneScalars_of sysCfg = Inr scalars"
  shows "\<exists>bs. deposit_data sel cfg sysCfg seqNumber block t = Inr (Inr bs) \<and>
    L1BlockInfoFromBytes sel cfg t bs = Inr (expected_info cfg sysCfg scalars seqNumber block t)"
proof -
  let ?eco = "isEcotoneButNotFirstBlock cfg t" and ?ist = "isIsthmusButNotFirstBlock cfg t" and ?int = "isInteropButNotFirstBlock cfg t"
  let ?info = "expected_info cfg sysCfg scalars seqNumber block t"
  from assms(1) have imp: "?int \<Longrightarrow> ?ist" "?ist \<Longrightarrow> ?eco" using not_first_order by (auto simp: forks_checked_def)
  obtain fee where fee: "BiBaseFee block = Some fee" "fee_ok fee" using assms(3) by (auto simp: block_fees_ok_def)
  define blob where "blob = (case BiBlobBaseFee block of None \<Rightarrow> 1 | Some b \<Rightarrow> b)"
  have blob: "fee_ok blob" using assms(3) by (auto simp: blob_def block_fees_ok_def fee_ok_def split: option.splits)
  consider "\<not> ?eco" "\<not> ?ist" "\<not> ?int" | "?eco" "\<not> ?ist" "\<not> ?int" | "?eco" "?ist" "\<not> ?int" | "?eco" "?ist" "?int" using imp by blast
  then show ?thesis
  proof cases
    case 1
    let ?i = "empty_info\<lparr>InfoNumber := BiNumber block, InfoTime := BiTime block, InfoBaseFee := BiBaseFee block,
       InfoBlockHash := BiHash block, InfoSequenceNumber := seqNumber, InfoBatcherAddr := BatcherAddr sysCfg,
       L1FeeOverhead := Overhead sysCfg, L1FeeScalar := Scalar sysCfg\<rparr>"
    have "\<exists>bs. marshalBinaryBedrock sel ?i = Inr (Inr bs) \<and> unmarshalBinaryBedrock sel empty_info bs = Inr ?info"
      using Bedrock_roundtrip [of sel ?i fee] assms(2) fee 1
      by (simp add: selectors_ok_def expected_info_def empty_info_def)
    then show ?thesis using 1 by (simp add: deposit_data_def L1BlockInfoFromBytes_def)
  next
    case 2
    have "\<exists>bs. marshalBinaryEcotone sel ?info = Inr (Inr bs) \<and> unmarshalBinaryEcotone sel empty_info bs = Inr ?info"
      by (rule Ecotone_roundtrip [of sel ?info fee blob])
        (use assms(2) fee blob 2 in \<open>simp_all add: selectors_ok_def expected_info_def Let_def blob_def\<close>)
    then show ?thesis using 2 assms(4)
      by (simp add: deposit_data_def L1BlockInfoFromBytes_def Let_def expected_info_def empty_info_def)
  next
    case 3
    have "\<exists>bs. marshalBinaryIsthmus sel ?info = Inr (Inr bs) \<and> unmarshalBinaryIsthmus sel empty_info bs = Inr ?info"
      unfolding marshalBinaryIsthmus_def unmarshalBinaryIsthmus_def
      by (rule Signature_roundtrip [of _ ?info fee blob])
        (use assms(2) fee blob 3 in \<open>simp_all add: selectors_ok_def expected_info_def Let_def blob_def\<close>)
    then show ?thesis using 3 assms(4)
      by (simp add: deposit_data_def L1BlockInfoFromBytes_def Let_def expected_info_def empty_info_def)
  next
    case 4
    have "\<exists>bs. marshalBinaryInterop sel ?info = Inr (Inr bs) \<and> unmarshalBinaryInterop sel empty_info bs = Inr ?info"
      unfolding marshalBinaryInterop_def unmarshalBinaryInterop_def
      by (rule Signature_roundtrip [of _ ?info fee blob])
        (use assms(2) fee blob 4 in \<open>simp_all add: selectors_ok_def expected_info_def Let_def blob_def\<close>)
    then show ?thesis using 4 assms(4)
      by (simp add: deposit_data_def L1BlockInfoFromBytes_def Let_def expected_info_def empty_info_def)
  qed
qed


section \<open>Properties\<close>

text \<open>C21: The L1 attributes deposit can always be built and read back: for a configuration whose forks are in order (Check,
  and Interop not before Isthmus, which Check does not ask), a block with its fees in range and fee scalars that can be
  decoded, L1InfoDeposit succeeds in the format of the L2 block's fork, and L1BlockInfoFromBytes returns the block's
  number, time, hash and fees, the sequence number, the batcher address and the fee parameters of that fork.\<close>

theorem L1InfoDeposit_roundtrip:
  assumes "forks_checked cfg" "selectors_ok sel" "block_fees_ok block" "EcotoneScalars_of sysCfg = Inr scalars"
  shows "\<exists>tx. L1InfoDeposit keccak sel cfg sysCfg seqNumber block t = Inr (Inr tx) \<and>
    L1BlockInfoFromBytes sel cfg t (TxData tx) = Inr (expected_info cfg sysCfg scalars seqNumber block t)"
  using deposit_data_roundtrip [OF assms, of seqNumber t] by (auto simp: L1InfoDeposit_def Let_def)

definition sample_selectors :: selectors where
  "sample_selectors = \<lparr>L1InfoFuncBedrockBytes4 = [1, 2, 3, 4], L1InfoFuncEcotoneBytes4 = [5, 6, 7, 8],
     L1InfoFuncIsthmusBytes4 = [9, 10, 11, 12], L1InfoFuncInteropBytes4 = [13, 14, 15, 16], DepositsCompleteBytes4 = [17, 18, 19, 20]\<rparr>"

definition sample_block :: BlockInfo where
  "sample_block = \<lparr>BiHash = 77, BiParentHash = 76, BiNumber = 150, BiTime = 2900, BiMixDigest = 9, BiBaseFee = Some 7,
     BiBlobBaseFee = None, BiParentBeaconRoot = None\<rparr>"

lemma sample_forks: "forks_checked sample_config" "selectors_ok sample_selectors" "block_fees_ok sample_block"
  using sample_config_ok
  by (simp_all add: forks_checked_def selectors_ok_def block_fees_ok_def fee_ok_def sample_block_def sample_selectors_def
      checkFork_def sample_config_def)

definition sample_syscfg :: SystemConfig where
  "sample_syscfg = \<lparr>BatcherAddr = 3, Overhead = 0, Scalar = EncodeScalar \<lparr>BlobBaseFeeScalar = 0, BaseFeeScalar = 4\<rparr>,
     GasLimit = 30000000, EIP1559Params = 0, OperatorFeeParams = 0\<rparr>"

lemma sample_scalars: "EcotoneScalars_of sample_syscfg = Inr \<lparr>BlobBaseFeeScalar = 0, BaseFeeScalar = 4\<rparr>"
  using DecodeScalar_Encode [of "\<lparr>BlobBaseFeeScalar = 0, BaseFeeScalar = 4\<rparr>"] by (simp add: EcotoneScalars_of_def sample_syscfg_def)

theorem L1InfoDeposit_roundtrip_witness:
  "\<exists>tx info. L1InfoDeposit (\<lambda>bs. 5) sample_selectors sample_config sample_syscfg 3 sample_block 3002 = Inr (Inr tx) \<and>
    L1BlockInfoFromBytes sample_selectors sample_config 3002 (TxData tx) = Inr info \<and>
    InfoNumber info = 150 \<and> InfoSequenceNumber info = 3 \<and> InfoBaseFeeScalar info = 4 \<and> InfoBlobBaseFee info = Some 1"
proof -
  have "isEcotoneButNotFirstBlock sample_config 3002"
    by (simp add: isEcotoneButNotFirstBlock_def IsEcotoneActivationBlock_def activation_block_def IsEcotone_def fork_active_def
        sample_config_def)
  then show ?thesis
    using L1InfoDeposit_roundtrip [OF sample_forks sample_scalars, of "\<lambda>bs. 5" 3 3002]
    by (auto simp: expected_info_def Let_def sample_block_def)
qed

text \<open>Without the order of Interop the deposit of a valid configuration cannot be read back.\<close>

lemma interop_before_ecotone_unreadable:
  fixes cfg :: Config
  defines "cfg \<equiv> sample_config\<lparr>InteropTime := Some 0\<rparr>"
  shows "Config_Check cfg = Inr () \<and>
    (\<exists>tx. L1InfoDeposit keccak sample_selectors cfg sysCfg seqNumber sample_block 2000 = Inr (Inr tx) \<and>
      L1BlockInfoFromBytes sample_selectors cfg 2000 (TxData tx) = Inl (UnexpectedLength 260))"
proof -
  have "Config_Check cfg = Inr ()"
    by (simp add: cfg_def Config_Check_def sample_config_def checkFork_def validateAltDAConfig_def)
  moreover have f: "\<not> isEcotoneButNotFirstBlock cfg 2000" "isInteropButNotFirstBlock cfg 2000"
    by (simp_all add: cfg_def isEcotoneButNotFirstBlock_def isInteropButNotFirstBlock_def IsInteropActivationBlock_def
        activation_block_def IsEcotone_def IsInterop_def fork_active_def sample_config_def)
  moreover have "\<exists>tx. L1InfoDeposit keccak sample_selectors cfg sysCfg seqNumber sample_block 2000 = Inr (Inr tx) \<and> length (TxData tx) = 260"
    using f(1) by (simp add: L1InfoDeposit_def deposit_data_def Let_def marshalBinaryBedrock_def WriteUint256_def
        sample_block_def sample_selectors_def empty_info_def)
  ultimately show ?thesis
    by (auto simp: L1BlockInfoFromBytes_def unmarshalBinaryInterop_def unmarshalBinaryWithSignatureAndData_def)
qed

lemma scalar_bytes:
  "copy_at 28 (be_word 4 b) (copy_at 24 (be_word 4 a) ((be_word 32 (0 :: H256))[0 := 1])) = 1 # replicate 23 0 @ be_word 4 (a :: 32 word) @ be_word 4 (b :: 32 word)"
  by (simp add: copy_at_def numeral_eq_Suc)

lemma scalar_recovered:
  assumes "Scalar c = word_be (1 # replicate 23 0 @ be_word 4 (BlobBaseFeeScalar scalars) @ be_word 4 (BaseFeeScalar scalars))"
  shows "EcotoneScalars_of c = Inr scalars"
proof -
  have "Scalar c = EncodeScalar scalars" using assms by (simp add: EncodeScalar_def)
  then show ?thesis using DecodeScalar_Encode [of scalars] by (simp add: EcotoneScalars_of_def)
qed

lemma word_be_256: "word_be (be_word 32 h) = (h :: H256)"
  by simp

text \<open>What a block preserves of the system configuration it was built with.\<close>

definition same_sysCfg :: "Config \<Rightarrow> EcotoneScalars \<Rightarrow> SystemConfig \<Rightarrow> ExecutionPayload \<Rightarrow> SystemConfig \<Rightarrow> bool" where
  "same_sysCfg cfg scalars sysCfg payload c \<longleftrightarrow>
     BatcherAddr c = BatcherAddr sysCfg \<and> GasLimit c = PlGasLimit payload \<and>
     (if isEcotoneButNotFirstBlock cfg (PlTimestamp payload) then EcotoneScalars_of c = Inr scalars
      else Overhead c = Overhead sysCfg \<and> Scalar c = Scalar sysCfg) \<and>
     (isIsthmusButNotFirstBlock cfg (PlTimestamp payload) \<longrightarrow>
        DecodeOperatorFeeParams (OperatorFeeParams c) = DecodeOperatorFeeParams (OperatorFeeParams sysCfg))"

lemma PayloadToSystemConfig_run:
  assumes "read_l1_info sel cfg decode_tx (PlTimestamp payload) (PlTransactions payload) = Inr i"
    and "PlBlockNumber payload \<noteq> BidNumber (GenL2 (CfgGenesis cfg))"
    and "IsHolocene cfg (PlTimestamp payload) \<longrightarrow> ValidateHoloceneExtraData e (PlExtraData payload)"
  shows "\<exists>x. PayloadToSystemConfig e sel cfg decode_tx payload =
    Inr \<lparr>BatcherAddr = InfoBatcherAddr i, Overhead = L1FeeOverhead i,
      Scalar = word_be (if isEcotoneButNotFirstBlock cfg (PlTimestamp payload)
        then copy_at 28 (be_word 4 (InfoBaseFeeScalar i))
               (copy_at 24 (be_word 4 (InfoBlobBaseFeeScalar i)) ((be_word 32 (L1FeeScalar i))[0 := 1]))
        else be_word 32 (L1FeeScalar i)),
      GasLimit = PlGasLimit payload, EIP1559Params = x,
      OperatorFeeParams = (if IsIsthmus cfg (PlTimestamp payload)
        then EncodeOperatorFeeParams \<lparr>OpFeeScalar = OperatorFeeScalar i, OpFeeConstant = OperatorFeeConstant i\<rparr> else 0)\<rparr>"
proof -
  obtain d el where "DecodeHoloceneExtraData e (PlExtraData payload) = (d, el)" by (rule prod.exhaust)
  then show ?thesis using assms by (simp add: PayloadToSystemConfig_def Let_def)
qed

lemma PayloadToSystemConfig_recovers:
  assumes info: "read_l1_info sel cfg decode_tx (PlTimestamp payload) (PlTransactions payload) =
      Inr (expected_info cfg sysCfg scalars seqNumber block (PlTimestamp payload))"
    and later: "PlBlockNumber payload \<noteq> BidNumber (GenL2 (CfgGenesis cfg))"
    and extra: "IsHolocene cfg (PlTimestamp payload) \<longrightarrow> ValidateHoloceneExtraData e (PlExtraData payload)"
  shows "\<exists>c. PayloadToSystemConfig e sel cfg decode_tx payload = Inr c \<and> same_sysCfg cfg scalars sysCfg payload c"
proof -
  let ?t = "PlTimestamp payload"
  define i where "i = expected_info cfg sysCfg scalars seqNumber block ?t"
  have isthmus: "isIsthmusButNotFirstBlock cfg ?t \<Longrightarrow> IsIsthmus cfg ?t" by (simp add: isIsthmusButNotFirstBlock_def)
  have eco: "isEcotoneButNotFirstBlock cfg ?t \<Longrightarrow>
      InfoBaseFeeScalar i = BaseFeeScalar scalars \<and> InfoBlobBaseFeeScalar i = BlobBaseFeeScalar scalars \<and> L1FeeScalar i = 0"
    and not_eco: "\<not> isEcotoneButNotFirstBlock cfg ?t \<Longrightarrow> L1FeeScalar i = Scalar sysCfg \<and> L1FeeOverhead i = Overhead sysCfg"
    and op: "isIsthmusButNotFirstBlock cfg ?t \<Longrightarrow>
      \<lparr>OpFeeScalar = OperatorFeeScalar i, OpFeeConstant = OperatorFeeConstant i\<rparr> = DecodeOperatorFeeParams (OperatorFeeParams sysCfg)"
    and batcher: "InfoBatcherAddr i = BatcherAddr sysCfg"
    by (simp_all add: i_def expected_info_def Let_def)
  from PayloadToSystemConfig_run [OF info later extra, folded i_def] obtain c where
    c: "PayloadToSystemConfig e sel cfg decode_tx payload = Inr c" "BatcherAddr c = InfoBatcherAddr i" "Overhead c = L1FeeOverhead i"
    "Scalar c = word_be (if isEcotoneButNotFirstBlock cfg ?t
        then copy_at 28 (be_word 4 (InfoBaseFeeScalar i))
               (copy_at 24 (be_word 4 (InfoBlobBaseFeeScalar i)) ((be_word 32 (L1FeeScalar i))[0 := 1]))
        else be_word 32 (L1FeeScalar i))"
    "GasLimit c = PlGasLimit payload"
    "IsIsthmus cfg ?t \<Longrightarrow> OperatorFeeParams c = EncodeOperatorFeeParams \<lparr>OpFeeScalar = OperatorFeeScalar i, OpFeeConstant = OperatorFeeConstant i\<rparr>"
    by fastforce
  have "EcotoneScalars_of c = Inr scalars" if e: "isEcotoneButNotFirstBlock cfg ?t"
  proof (rule scalar_recovered)
    have "Scalar c = word_be (copy_at 28 (be_word 4 (BaseFeeScalar scalars))
        (copy_at 24 (be_word 4 (BlobBaseFeeScalar scalars)) ((be_word 32 (0 :: H256))[0 := 1])))"
      using eco [OF e] c(4) e by simp
    then show "Scalar c = word_be (1 # replicate 23 0 @ be_word 4 (BlobBaseFeeScalar scalars) @ be_word 4 (BaseFeeScalar scalars))"
      unfolding scalar_bytes .
  qed
  moreover have "Scalar c = Scalar sysCfg \<and> Overhead c = Overhead sysCfg" if "\<not> isEcotoneButNotFirstBlock cfg ?t"
    using not_eco [OF that] c(3,4) that by (simp add: word_be_256)
  moreover have "DecodeOperatorFeeParams (OperatorFeeParams c) = DecodeOperatorFeeParams (OperatorFeeParams sysCfg)"
    if "isIsthmusButNotFirstBlock cfg ?t"
    using c(6) [OF isthmus [OF that]] op [OF that] by (simp add: DecodeOperatorFeeParams_Encode)
  ultimately show ?thesis using c(1,2,5) batcher by (simp add: same_sysCfg_def)
qed

text \<open>C22: The chain state is recovered from the block itself: when the first transaction of a later block is the L1
  attributes deposit, PayloadToBlockRef returns the L1 origin and sequence number it was built for, and
  PayloadToSystemConfig a system configuration with the same batcher, the block's gas limit, and the same fees: the
  same overhead and scalar before Ecotone, a scalar with the same decoding after its first block, and the same
  operator fee after the first Isthmus block.\<close>

theorem Payload_recovers:
  assumes "forks_checked cfg" "selectors_ok sel" "block_fees_ok block" "EcotoneScalars_of sysCfg = Inr scalars"
    and "L1InfoDeposit keccak sel cfg sysCfg seqNumber block (PlTimestamp payload) = Inr (Inr tx)"
    and "PlTransactions payload = opaque # txs" "decode_tx opaque = Some \<lparr>TransactionType = DepositType, TransactionData = TxData tx\<rparr>"
    and "PlBlockNumber payload \<noteq> BidNumber (GenL2 (CfgGenesis cfg))"
    and "IsHolocene cfg (PlTimestamp payload) \<longrightarrow> ValidateHoloceneExtraData e (PlExtraData payload)"
  shows "PayloadToBlockRef sel cfg decode_tx payload =
      Inr \<lparr>L2Hash = PlBlockHash payload, L2Number = PlBlockNumber payload, L2ParentHash = PlParentHash payload,
        L2Time = PlTimestamp payload, L1Origin = \<lparr>BidHash = BiHash block, BidNumber = BiNumber block\<rparr>, SequenceNumber = seqNumber\<rparr> \<and>
    (\<exists>c. PayloadToSystemConfig e sel cfg decode_tx payload = Inr c \<and> same_sysCfg cfg scalars sysCfg payload c)"
proof -
  let ?info = "expected_info cfg sysCfg scalars seqNumber block (PlTimestamp payload)"
  have "L1BlockInfoFromBytes sel cfg (PlTimestamp payload) (TxData tx) = Inr ?info"
    using deposit_data_roundtrip [OF assms(1-4), of seqNumber "PlTimestamp payload"] assms(5)
    by (auto simp: L1InfoDeposit_def Let_def bind_err_Inr)
  then have info: "read_l1_info sel cfg decode_tx (PlTimestamp payload) (PlTransactions payload) = Inr ?info"
    using assms(6,7) by (simp add: read_l1_info_def)
  have "PayloadToBlockRef sel cfg decode_tx payload =
      Inr \<lparr>L2Hash = PlBlockHash payload, L2Number = PlBlockNumber payload, L2ParentHash = PlParentHash payload,
        L2Time = PlTimestamp payload, L1Origin = \<lparr>BidHash = BiHash block, BidNumber = BiNumber block\<rparr>, SequenceNumber = seqNumber\<rparr>"
    using assms(8) by (simp add: PayloadToBlockRef_def info) (simp add: expected_info_def Let_def)
  then show ?thesis using PayloadToSystemConfig_recovers [OF info assms(8,9)] by blast
qed

definition sample_payload :: ExecutionPayload where
  "sample_payload = \<lparr>PlParentHash = 21, PlBlockHash = 22, PlBlockNumber = 1001, PlTimestamp = 3002, PlGasLimit = 30000000,
     PlExtraData = [], PlTransactions = [[126]]\<rparr>"

theorem Payload_recovers_witness:
  "\<exists>tx c. L1InfoDeposit (\<lambda>bs. 5) sample_selectors sample_config sample_syscfg 3 sample_block 3002 = Inr (Inr tx) \<and>
    PayloadToSystemConfig \<lparr>ValidateHoloceneExtraData = (\<lambda>x. False), DecodeHoloceneExtraData = (\<lambda>x. (0, 0)), EncodeHolocene1559Params = (\<lambda>x y. [])\<rparr>
      sample_selectors sample_config (\<lambda>x. Some \<lparr>TransactionType = DepositType, TransactionData = TxData tx\<rparr>) sample_payload = Inr c \<and>
    EcotoneScalars_of c = Inr \<lparr>BlobBaseFeeScalar = 0, BaseFeeScalar = 4\<rparr>"
proof -
  let ?e = "\<lparr>ValidateHoloceneExtraData = (\<lambda>x :: byte list. False), DecodeHoloceneExtraData = (\<lambda>x :: byte list. (0 :: Word, 0 :: Word)), EncodeHolocene1559Params = (\<lambda>x y :: Word. [] :: byte list)\<rparr>"
  obtain tx where tx: "L1InfoDeposit (\<lambda>bs. 5) sample_selectors sample_config sample_syscfg 3 sample_block 3002 = Inr (Inr tx)"
    using deposit_data_roundtrip [OF sample_forks sample_scalars, of 3 3002] by (auto simp: L1InfoDeposit_def Let_def)
  have eco: "isEcotoneButNotFirstBlock sample_config 3002"
    by (simp add: isEcotoneButNotFirstBlock_def IsEcotoneActivationBlock_def activation_block_def IsEcotone_def fork_active_def
        sample_config_def)
  let ?d = "\<lambda>x :: byte list. Some \<lparr>TransactionType = DepositType, TransactionData = TxData tx\<rparr>"
  have "\<exists>c. PayloadToSystemConfig ?e sample_selectors sample_config ?d sample_payload = Inr c \<and>
      same_sysCfg sample_config \<lparr>BlobBaseFeeScalar = 0, BaseFeeScalar = 4\<rparr> sample_syscfg sample_payload c"
    by (rule conjunct2 [OF Payload_recovers [OF sample_forks sample_scalars, where payload = sample_payload and decode_tx = ?d and e = ?e
        and keccak = "\<lambda>bs. 5" and seqNumber = 3 and tx = tx]])
      (use tx in \<open>simp_all add: sample_payload_def sample_config_def IsHolocene_def fork_active_def\<close>)
  then show ?thesis using tx eco by (auto simp: same_sysCfg_def sample_payload_def)
qed


section \<open>Source hashes\<close>

text \<open>The byte strings hashed for a source.\<close>

fun source_domain :: "deposit_source \<Rightarrow> Word" where
  "source_domain (UserDepositSource h idx) = 0"
| "source_domain (L1InfoDepositSource h idx) = 1"
| "source_domain (UpgradeDepositSource intent) = 2"
| "source_domain (AfterForceIncludeSource h idx) = 3"
| "source_domain (InvalidatedBlockSource r) = 4"

fun id_input :: "deposit_source \<Rightarrow> byte list option" where
  "id_input (UserDepositSource h idx) = Some (be_word 32 h @ replicate 24 0 @ be_word 8 idx)"
| "id_input (L1InfoDepositSource h idx) = Some (be_word 32 h @ replicate 24 0 @ be_word 8 idx)"
| "id_input (UpgradeDepositSource intent) = Some intent"
| "id_input (AfterForceIncludeSource h idx) = Some (be_word 32 h @ replicate 24 0 @ be_word 8 idx)"
| "id_input (InvalidatedBlockSource r) = None"

fun source_id :: "keccak \<Rightarrow> deposit_source \<Rightarrow> H256" where
  "source_id k (InvalidatedBlockSource r) = r"
| "source_id k d = k (the (id_input d))"

definition source_inputs :: "keccak \<Rightarrow> deposit_source \<Rightarrow> byte list set" where
  "source_inputs k d =
     {replicate 24 0 @ be_word 8 (source_domain d) @ be_word 32 (source_id k d)} \<union> set_option (id_input d)"

lemma SourceHash_eq: "SourceHash k d = k (replicate 24 0 @ be_word 8 (source_domain d) @ be_word 32 (source_id k d))"
  by (cases d) (simp_all add: domain_hash_def indexed_id_def)

lemma be_word_inject: "LENGTH('w) = 8 * n \<Longrightarrow> be_word n (a :: 'w::len word) = be_word n b \<longleftrightarrow> a = b"
  using word_be_word by metis

text \<open>Deposits have their own source hashes: unless Keccak collides on the byte strings hashed for the two, deposits
  with the same source hash are of the same kind and have the same L1 block and log index, sequence number, intent
  or output root; the five domains do not overlap.\<close>

theorem SourceHash_inject:
  assumes "inj_on k (source_inputs k d1 \<union> source_inputs k d2)" "SourceHash k d1 = SourceHash k d2"
  shows "d1 = d2"
proof -
  have "replicate 24 0 @ be_word 8 (source_domain d1) @ be_word 32 (source_id k d1) =
      (replicate 24 0 @ be_word 8 (source_domain d2) @ be_word 32 (source_id k d2) :: byte list)"
    by (rule inj_onD [OF assms(1) assms(2) [unfolded SourceHash_eq]]) (simp_all add: source_inputs_def)
  then have eq: "source_domain d1 = source_domain d2" "source_id k d1 = source_id k d2"
    by (simp_all add: be_word_inject)
  have ids: "x = y" if "k x = k y" "id_input d1 = Some x" "id_input d2 = Some y" for x y
    by (rule inj_onD [OF assms(1) that(1)]) (simp_all add: source_inputs_def that)
  show ?thesis using eq ids [of "the (id_input d1)" "the (id_input d2)"] by (cases d1; cases d2) (auto simp: be_word_inject)
qed

text \<open>A hash that does not collide on the two samples: the value of the last bytes.\<close>

theorem SourceHash_inject_witness:
  "SourceHash (\<lambda>bs. of_nat (be_dec bs)) (InvalidatedBlockSource 5) \<noteq> SourceHash (\<lambda>bs. of_nat (be_dec bs)) (InvalidatedBlockSource 6)"
proof
  let ?k = "\<lambda>bs. of_nat (be_dec bs) :: H256"
  assume eq: "SourceHash ?k (InvalidatedBlockSource 5) = SourceHash ?k (InvalidatedBlockSource 6)"
  have split: "be_dec (xs @ ys) = be_dec xs * 256 ^ length ys + be_dec ys" for xs ys :: "byte list" by (rule be_dec_append)
  have "?k (x @ be_word 32 h) = h" for x and h :: H256
  proof -
    have zero: "(2 :: H256) ^ 256 = 0" using word_exp_length_eq_0 [where 'a = 256] by simp
    have "(256 :: H256) ^ 32 = (2 ^ 8) ^ 32" by simp
    also have "\<dots> = 2 ^ 256" unfolding power_mult [symmetric] by simp
    finally have "(256 :: H256) ^ 32 = 0" using zero by simp
    then have "of_nat (be_dec x * 256 ^ 32) = (0 :: H256)" by (simp only: of_nat_mult of_nat_power of_nat_numeral mult_zero_right)
    moreover have "be_dec (be_word 32 h) = unat h"
      using unsigned_less [of h, where 'a = nat] by (simp add: be_word_def be_dec_enc)
    ultimately show ?thesis by (simp only: split of_nat_add length_be_word add_0) simp
  qed
  then have "?k (x @ y @ be_word 32 h) = h" for x y and h :: H256 by (metis append_assoc)
  then have "inj_on ?k (source_inputs ?k (InvalidatedBlockSource 5) \<union> source_inputs ?k (InvalidatedBlockSource 6))"
    by (auto simp: inj_on_def source_inputs_def)
  from SourceHash_inject [OF this eq] show False by simp
qed

end
