(* ===== verification/Derive_Deposit.thy ===== *)
theory Derive_Deposit
  imports Derive_L1Info
begin

text \<open>
  User deposits: \<open>op-node/rollup/derive/deposit_log.go\<close>, which decodes and encodes the \<open>TransactionDeposited\<close> events of
  the deposit contract, and \<open>deposits.go\<close>, which collects them from the receipts of an L1 block.  The hash of the event's
  signature, a Keccak value, and the encoding of a deposit transaction are parameters.
\<close>

section \<open>Decoding an event\<close>

definition DepositEventVersion0 :: H256 where [simp]: "DepositEventVersion0 = 0"

datatype deposit_error =
    ExpectedFourTopics nat | InvalidDepositSelector | IncompleteHeader nat | NotMultipleOf32 nat | InvalidHeaderOffset
  | InvalidHeaderLength | InvalidDepositVersion H256 | UnexpectedOpaqueLength nat | BadGasValue | ValueExceeds256Bits

definition AddressAsLeftPaddedHash :: "Addr \<Rightarrow> H256" where
  "AddressAsLeftPaddedHash a = word_be (copy_at 12 (be_word 20 a) (replicate 32 0))"

text \<open>\<open>common.BytesToAddress(topic[12:])\<close>\<close>

definition topic_address :: "H256 \<Rightarrow> Addr" where
  "topic_address h = word_be (drop 12 (be_word 32 h))"

definition unmarshalDepositVersion0 :: "DepositTx \<Rightarrow> Addr \<Rightarrow> byte list \<Rightarrow> deposit_error + DepositTx" where
  "unmarshalDepositVersion0 dep to opaqueData =
     (if length opaqueData < 32 + 32 + 8 + 1 then Inl (UnexpectedOpaqueLength (length opaqueData))
      else
        let mint = be_dec (take 32 opaqueData);
            value = be_dec (take 32 (drop 32 opaqueData));
            gas = be_dec (take 8 (drop 64 opaqueData));
            isCreation = opaqueData ! 72
        in if \<not> gas < 2 ^ 64 then Inl BadGasValue
           else Inr (dep\<lparr>TxMint := if mint = 0 then None else Some (int mint), TxValue := int value, TxGas := of_nat gas,
                  TxTo := if isCreation = 0 then Some to else TxTo dep, TxData := drop 73 opaqueData\<rparr>))"

definition UnmarshalDepositLogEvent :: "keccak \<Rightarrow> H256 \<Rightarrow> LogEvent \<Rightarrow> deposit_error + DepositTx" where
  "UnmarshalDepositLogEvent keccak DepositEventABIHash ev =
     (if length (LogTopics ev) \<noteq> 4 then Inl (ExpectedFourTopics (length (LogTopics ev)))
      else if LogTopics ev ! 0 \<noteq> DepositEventABIHash then Inl InvalidDepositSelector
      else if length (LogData ev) < 64 then Inl (IncompleteHeader (length (LogData ev)))
      else if length (LogData ev) mod 32 \<noteq> 0 then Inl (NotMultipleOf32 (length (LogData ev)))
      else
        let from = topic_address (LogTopics ev ! 1);
            to = topic_address (LogTopics ev ! 2);
            version = LogTopics ev ! 3;
            opaqueContentOffset = be_dec (take 32 (LogData ev));
            opaqueContentLength = be_dec (take 32 (drop 32 (LogData ev)));
            rest = length (LogData ev) - 64
        in if \<not> opaqueContentOffset < 2 ^ 64 \<or> opaqueContentOffset \<noteq> 32 then Inl InvalidHeaderOffset
           else if \<not> opaqueContentLength < 2 ^ 64 \<or> rest < opaqueContentLength \<or> opaqueContentLength + 32 \<le> rest then Inl InvalidHeaderLength
           else
             let opaqueData = take opaqueContentLength (drop 64 (LogData ev));
                 dep = \<lparr>TxSourceHash = SourceHash keccak (UserDepositSource (LogBlockHash ev) (LogIndex ev)), TxFrom = from,
                        TxTo = None, TxMint = None, TxValue = 0, TxGas = 0, IsSystemTransaction = False, TxData = []\<rparr>
             in if version = DepositEventVersion0 then unmarshalDepositVersion0 dep to opaqueData
                else Inl (InvalidDepositVersion version))"

section \<open>Encoding an event\<close>

text \<open>\<open>FillBytes\<close> of a value of at most 256 bits; the sign is lost.\<close>

definition fill_256 :: "int \<Rightarrow> deposit_error + byte list" where
  "fill_256 n = (if 2 ^ 256 \<le> \<bar>n\<bar> then Inl ValueExceeds256Bits else Inr (be_enc 32 (nat \<bar>n\<bar>)))"

definition marshalDepositVersion0 :: "DepositTx \<Rightarrow> deposit_error + byte list" where
  "marshalDepositVersion0 deposit =
     bind_res (case TxMint deposit of None \<Rightarrow> Inr (replicate 32 0) | Some m \<Rightarrow> fill_256 m) (\<lambda>mint.
     bind_res (fill_256 (TxValue deposit)) (\<lambda>value.
       Inr (mint @ value @ be_word 8 (TxGas deposit) @ (if TxTo deposit = None then [1] else [0]) @ TxData deposit)))"

definition pad_32 :: "byte list \<Rightarrow> byte list" where
  "pad_32 bs = (if length bs mod 32 \<noteq> 0 then bs @ replicate (32 - length bs mod 32) 0 else bs)"

definition MarshalDepositLogEvent :: "H256 \<Rightarrow> Addr \<Rightarrow> DepositTx \<Rightarrow> deposit_error + LogEvent" where
  "MarshalDepositLogEvent DepositEventABIHash depositContractAddr deposit =
     bind_res (marshalDepositVersion0 deposit) (\<lambda>opaqueData.
       Inr \<lparr>LogAddress = depositContractAddr,
         LogTopics = [DepositEventABIHash, AddressAsLeftPaddedHash (TxFrom deposit),
           case TxTo deposit of None \<Rightarrow> 0 | Some a \<Rightarrow> AddressAsLeftPaddedHash a, DepositEventVersion0],
         LogData = pad_32 ((replicate 24 0 @ be_enc 8 32) @ (replicate 24 0 @ be_word 8 (of_nat (length opaqueData) :: Word)) @ opaqueData),
         LogBlockHash = 0, LogIndex = 0\<rparr>)"

section \<open>The deposits of a block\<close>

text \<open>The two loops of \<open>UserDeposits\<close>: the errors, with the indices of receipt and log, and the deposits, in order.\<close>

definition is_deposit_event :: "H256 \<Rightarrow> Addr \<Rightarrow> LogEvent \<Rightarrow> bool" where
  "is_deposit_event h addr log \<longleftrightarrow> LogAddress log = addr \<and> 0 < length (LogTopics log) \<and> LogTopics log ! 0 = h"

definition user_log ::
    "keccak \<Rightarrow> H256 \<Rightarrow> Addr \<Rightarrow> nat \<Rightarrow> DepositTx list \<times> (nat \<times> nat \<times> deposit_error) list \<Rightarrow> nat \<times> LogEvent \<Rightarrow>
     DepositTx list \<times> (nat \<times> nat \<times> deposit_error) list" where
  "user_log keccak h addr i acc jlog =
     (if is_deposit_event h addr (snd jlog) then
        (case UnmarshalDepositLogEvent keccak h (snd jlog) of
           Inl e \<Rightarrow> (fst acc, snd acc @ [(i, fst jlog, e)])
         | Inr dep \<Rightarrow> (fst acc @ [dep], snd acc))
      else acc)"

definition UserDeposits ::
    "keccak \<Rightarrow> H256 \<Rightarrow> Receipt list \<Rightarrow> Addr \<Rightarrow> DepositTx list \<times> (nat \<times> nat \<times> deposit_error) list" where
  "UserDeposits keccak h receipts depositContractAddr =
     foldl (\<lambda>acc (i, rec).
         if RcStatus rec \<noteq> ReceiptStatusSuccessful then acc
         else foldl (user_log keccak h depositContractAddr i) acc (enumerate 0 (RcLogs rec)))
       ([], []) (enumerate 0 receipts)"

datatype derive_deposit_error = MalformattedLogs "(nat \<times> nat \<times> deposit_error) list" | FailedToEncode nat

text \<open>\<open>encode\<close> is the \<open>MarshalBinary\<close> of the deposit as a transaction; \<open>None\<close> is its error.\<close>

definition DeriveDeposits ::
    "(DepositTx \<Rightarrow> byte list option) \<Rightarrow> keccak \<Rightarrow> H256 \<Rightarrow> Receipt list \<Rightarrow> Addr \<Rightarrow> byte list list \<times> derive_deposit_error list" where
  "DeriveDeposits encode keccak h receipts depositContractAddr =
     (case UserDeposits keccak h receipts depositContractAddr of
        (userDeposits, errs) \<Rightarrow>
          foldl (\<lambda>(encodedTxs, result) (i, tx).
              case encode tx of
                None \<Rightarrow> (encodedTxs, result @ [FailedToEncode i])
              | Some opaqueTx \<Rightarrow> (encodedTxs @ [opaqueTx], result))
            ([], if errs = [] then [] else [MalformattedLogs errs]) (enumerate 0 userDeposits))"


section \<open>What an event encodes\<close>

text \<open>The deposits an event can encode, and the events of a deposit: the flag byte and the padding are free.\<close>

definition mint_value :: "DepositTx \<Rightarrow> int" where
  "mint_value dep = (case TxMint dep of None \<Rightarrow> 0 | Some m \<Rightarrow> m)"

definition deposit_ok :: "DepositTx \<Rightarrow> bool" where
  "deposit_ok dep \<longleftrightarrow> TxMint dep \<noteq> Some 0 \<and> fee_ok (mint_value dep) \<and> fee_ok (TxValue dep) \<and> \<not> IsSystemTransaction dep \<and>
     73 + length (TxData dep) < 2 ^ 64"

definition encodes_deposit :: "H256 \<Rightarrow> LogEvent \<Rightarrow> DepositTx \<Rightarrow> bool" where
  "encodes_deposit h ev dep \<longleftrightarrow>
     (\<exists>a b flag pad. LogTopics ev = [h, a, b, 0] \<and> TxFrom dep = topic_address a \<and>
        TxTo dep = (if flag = 0 then Some (topic_address b) else None) \<and>
        LogData ev = be_enc 32 32 @ be_enc 32 (73 + length (TxData dep)) @ be_enc 32 (nat (mint_value dep)) @
          be_enc 32 (nat (TxValue dep)) @ be_word 8 (TxGas dep) @ [flag] @ TxData dep @ pad \<and>
        length pad < 32 \<and> 32 dvd length (LogData ev))"

lemma split_opaque:
  assumes "73 \<le> length op"
  shows "op = take 32 op @ take 32 (drop 32 op) @ take 8 (drop 64 op) @ [op ! 72] @ drop 73 op"
proof -
  have "drop 72 op = [op ! 72] @ drop 73 op" using assms Cons_nth_drop_Suc [of 72 op] by simp
  moreover have "drop 64 op = take 8 (drop 64 op) @ drop 72 op"
    using append_take_drop_id [of 8 "drop 64 op"] by simp
  moreover have "drop 32 op = take 32 (drop 32 op) @ drop 64 op"
    using append_take_drop_id [of 32 "drop 32 op"] by simp
  moreover have "op = take 32 op @ drop 32 op" by simp
  ultimately show ?thesis by metis
qed

lemma be_enc_take: "length bs = n \<Longrightarrow> be_enc n (be_dec bs) = bs"
  using be_enc_dec [of bs] by simp

lemma be_dec_256: "length bs = 32 \<Longrightarrow> be_dec bs < 2 ^ 256"
  using be_dec_bound [of bs] by simp

lemma be_word_of_nat: "length bs = 8 \<Longrightarrow> be_word 8 (of_nat (be_dec bs) :: Word) = bs"
  using be_word_word_be [of bs, where 'w = 64] by (simp add: word_be_def)

lemma unmarshal0_sound:
  assumes "unmarshalDepositVersion0 dep0 to op = Inr dep" "TxTo dep0 = None" "\<not> IsSystemTransaction dep0" "length op < 2 ^ 64"
  shows "\<exists>flag. op = be_enc 32 (nat (mint_value dep)) @ be_enc 32 (nat (TxValue dep)) @ be_word 8 (TxGas dep) @ [flag] @ TxData dep \<and>
    TxTo dep = (if flag = 0 then Some to else None) \<and> deposit_ok dep \<and> TxFrom dep = TxFrom dep0 \<and> TxSourceHash dep = TxSourceHash dep0"
proof -
  have len: "73 \<le> length op" using assms(1) by (simp add: unmarshalDepositVersion0_def split: if_splits)
  define mint where "mint = be_dec (take 32 op)"
  define gas where "gas = be_dec (take 8 (drop 64 op))"
  have dep: "dep = dep0\<lparr>TxMint := if mint = 0 then None else Some (int mint), TxValue := int (be_dec (take 32 (drop 32 op))),
      TxGas := of_nat gas, TxTo := if op ! 72 = 0 then Some to else TxTo dep0, TxData := drop 73 op\<rparr>"
    using assms(1) len by (simp add: unmarshalDepositVersion0_def Let_def mint_def gas_def split: if_splits)
  have mv: "mint_value dep = int mint" by (simp add: dep mint_value_def)
  have "be_enc 32 mint = take 32 op" "be_enc 32 (be_dec (take 32 (drop 32 op))) = take 32 (drop 32 op)"
      "be_word 8 (of_nat gas :: Word) = take 8 (drop 64 op)"
    using len unfolding mint_def gas_def by (simp_all add: be_enc_take be_word_of_nat)
  then have "op = be_enc 32 (nat (mint_value dep)) @ be_enc 32 (nat (TxValue dep)) @ be_word 8 (TxGas dep) @ [op ! 72] @ TxData dep"
    using split_opaque [OF len] unfolding mv by (simp add: dep)
  moreover have "mint < 2 ^ 256" "be_dec (take 32 (drop 32 op)) < 2 ^ 256"
    using len unfolding mint_def by (simp_all add: be_dec_256 del: power_numeral)
  then have "deposit_ok dep"
    using len assms(3,4) unfolding deposit_ok_def mv by (simp add: dep fee_ok_def)
  moreover have "TxTo dep = (if op ! 72 = 0 then Some to else None)" "TxFrom dep = TxFrom dep0" "TxSourceHash dep = TxSourceHash dep0"
    using assms(2) by (simp_all add: dep)
  ultimately show ?thesis by blast
qed

lemma unmarshal0_complete:
  assumes "deposit_ok dep" "TxTo dep = (if flag = 0 then Some to else None)" "TxTo dep0 = None" "\<not> IsSystemTransaction dep0"
    "TxFrom dep = TxFrom dep0" "TxSourceHash dep = TxSourceHash dep0"
  shows "unmarshalDepositVersion0 dep0 to (be_enc 32 (nat (mint_value dep)) @ be_enc 32 (nat (TxValue dep)) @ be_word 8 (TxGas dep) @
    [flag] @ TxData dep) = Inr dep"
proof -
  have mv: "0 \<le> mint_value dep" "mint_value dep < 2 ^ 256" "0 \<le> TxValue dep" "TxValue dep < 2 ^ 256"
    using assms(1) by (simp_all add: deposit_ok_def fee_ok_def)
  then have d: "be_dec (be_enc 32 (nat (mint_value dep))) = nat (mint_value dep)" "be_dec (be_enc 32 (nat (TxValue dep))) = nat (TxValue dep)"
    by (simp_all add: be_dec_enc nat_less_iff)
  have g: "be_dec (be_word 8 (TxGas dep)) = unat (TxGas dep)"
    using unsigned_less [of "TxGas dep", where 'a = nat] by (simp add: be_word_def be_dec_enc)
  have m: "(if nat (mint_value dep) = 0 then None else Some (int (nat (mint_value dep)))) = TxMint dep"
    using assms(1) by (auto simp: deposit_ok_def mint_value_def fee_ok_def split: option.splits)
  have same: "dep0\<lparr>TxMint := TxMint dep, TxValue := TxValue dep, TxGas := TxGas dep, TxTo := TxTo dep, TxData := TxData dep\<rparr> = dep"
    using assms by (cases dep; cases dep0) (simp add: deposit_ok_def)
  have to: "(if flag = 0 then Some to else TxTo dep0) = TxTo dep" using assms(2,3) by simp
  let ?op = "be_enc 32 (nat (mint_value dep)) @ be_enc 32 (nat (TxValue dep)) @ be_word 8 (TxGas dep) @ [flag] @ TxData dep"
  have parts: "take 32 ?op = be_enc 32 (nat (mint_value dep))" "take 32 (drop 32 ?op) = be_enc 32 (nat (TxValue dep))"
      "take 8 (drop 64 ?op) = be_word 8 (TxGas dep)" "?op ! 72 = flag" "drop 73 ?op = TxData dep" "73 \<le> length ?op"
    by (simp_all add: nth_append)
  show ?thesis
    unfolding unmarshalDepositVersion0_def Let_def parts d g m to
    using parts(6) mv(3) same unat_u64_less [of "TxGas dep"] by simp
qed


abbreviation user_source :: "keccak \<Rightarrow> LogEvent \<Rightarrow> H256" where
  "user_source keccak ev \<equiv> SourceHash keccak (UserDepositSource (LogBlockHash ev) (LogIndex ev))"

lemma topics_4: "length ts = 4 \<longleftrightarrow> (\<exists>a b c d. ts = [a, b, c, d])"
  by (auto simp: numeral_eq_Suc length_Suc_conv)

lemma Unmarshal_sound:
  assumes "UnmarshalDepositLogEvent keccak h ev = Inr dep"
  shows "encodes_deposit h ev dep \<and> deposit_ok dep \<and> TxSourceHash dep = user_source keccak ev"
proof -
  let ?D = "LogData ev"
  define len where "len = be_dec (take 32 (drop 32 ?D))"
  let ?op = "take len (drop 64 ?D)" and ?pad = "drop len (drop 64 ?D)"
  obtain a b where top: "LogTopics ev = [h, a, b, 0]" and D: "64 \<le> length ?D" "length ?D mod 32 = 0"
    and off: "be_dec (take 32 ?D) = 32" and l: "len < 2 ^ 64" "len \<le> length ?D - 64" "length ?D - 64 < len + 32"
    and run: "unmarshalDepositVersion0 \<lparr>TxSourceHash = user_source keccak ev, TxFrom = topic_address a, TxTo = None, TxMint = None,
        TxValue = 0, TxGas = 0, IsSystemTransaction = False, TxData = []\<rparr> (topic_address b) ?op = Inr dep"
    using assms by (auto simp: UnmarshalDepositLogEvent_def Let_def topics_4 not_less not_le len_def split: if_splits)
  obtain flag where op: "?op = be_enc 32 (nat (mint_value dep)) @ be_enc 32 (nat (TxValue dep)) @ be_word 8 (TxGas dep) @ [flag] @ TxData dep"
      and dep: "TxTo dep = (if flag = 0 then Some (topic_address b) else None)" "deposit_ok dep" "TxFrom dep = topic_address a"
        "TxSourceHash dep = user_source keccak ev"
    using unmarshal0_sound [OF run] l(1,2) by auto
  have "length ?op = len" using l(2) D(1) by simp
  then have len: "len = 73 + length (TxData dep)" unfolding op by simp
  have e: "be_enc 32 32 = take 32 ?D" "be_enc 32 len = take 32 (drop 32 ?D)"
    using be_enc_take [of "take 32 ?D" 32] be_enc_take [of "take 32 (drop 32 ?D)" 32] D(1) off unfolding len_def by simp_all
  have "?D = take 32 ?D @ take 32 (drop 32 ?D) @ drop 64 ?D"
    using append_take_drop_id [of 32 ?D] append_take_drop_id [of 32 "drop 32 ?D"] by simp
  also have "drop 64 ?D = ?op @ ?pad" by (rule append_take_drop_id [symmetric])
  finally have split: "?D = be_enc 32 32 @ be_enc 32 len @ ?op @ ?pad" unfolding e .
  obtain pad where pad: "?D = be_enc 32 32 @ be_enc 32 len @ ?op @ pad" "length pad < 32"
    using that [OF split] l(3) D(1) by simp
  have "?D = be_enc 32 32 @ be_enc 32 (73 + length (TxData dep)) @ be_enc 32 (nat (mint_value dep)) @
          be_enc 32 (nat (TxValue dep)) @ be_word 8 (TxGas dep) @ [flag] @ TxData dep @ pad"
    using pad(1) unfolding op len [symmetric] by (simp only: append_assoc)
  then show ?thesis using top dep D(2) pad(2) unfolding encodes_deposit_def by blast
qed

lemma Unmarshal_complete:
  assumes "encodes_deposit h ev dep" "deposit_ok dep" "TxSourceHash dep = user_source keccak ev"
  shows "UnmarshalDepositLogEvent keccak h ev = Inr dep"
proof -
  from assms(1) obtain a b flag pad where top: "LogTopics ev = [h, a, b, 0]"
    and dep: "TxFrom dep = topic_address a" "TxTo dep = (if flag = 0 then Some (topic_address b) else None)"
    and D: "LogData ev = be_enc 32 32 @ be_enc 32 (73 + length (TxData dep)) @ be_enc 32 (nat (mint_value dep)) @
          be_enc 32 (nat (TxValue dep)) @ be_word 8 (TxGas dep) @ [flag] @ TxData dep @ pad"
    and pad: "length pad < 32" "32 dvd length (LogData ev)" unfolding encodes_deposit_def by blast
  let ?op = "be_enc 32 (nat (mint_value dep)) @ be_enc 32 (nat (TxValue dep)) @ be_word 8 (TxGas dep) @ [flag] @ TxData dep"
  have small: "73 + length (TxData dep) < 2 ^ 64" using assms(2) by (simp add: deposit_ok_def)
  have len: "length (LogData ev) = 64 + 73 + length (TxData dep) + length pad" unfolding D by simp
  have off: "be_dec (take 32 (LogData ev)) = 32" unfolding D by (simp add: be_dec_enc)
  have l: "be_dec (take 32 (drop 32 (LogData ev))) = 73 + length (TxData dep)" using small unfolding D by (simp add: be_dec_enc)
  have op: "take (73 + length (TxData dep)) (drop 64 (LogData ev)) = ?op" unfolding D by simp
  let ?dep0 = "\<lparr>TxSourceHash = user_source keccak ev, TxFrom = topic_address a, TxTo = None, TxMint = None, TxValue = 0, TxGas = 0,
      IsSystemTransaction = False, TxData = []\<rparr>"
  have "unmarshalDepositVersion0 ?dep0 (topic_address b) ?op = Inr dep"
    by (rule unmarshal0_complete [OF assms(2) dep(2)]) (simp_all add: dep(1) assms(3))
  then show ?thesis
    unfolding UnmarshalDepositLogEvent_def Let_def off l op
    using top pad small len by (simp add: dvd_eq_mod_eq_0)
qed

text \<open>A deposit event is decoded exactly when it has the form the deposit contract emits: the four topics with
  version 0, the ABI header with the true length, and the packed mint, value, gas, creation flag and data with less
  than 32 bytes of padding.  The deposit then has the values packed there, no mint when it is zero, no recipient when
  the flag is set, and the source hash of the log's block and index.\<close>

theorem UnmarshalDepositLogEvent_exact:
  "UnmarshalDepositLogEvent keccak h ev = Inr dep \<longleftrightarrow>
     encodes_deposit h ev dep \<and> deposit_ok dep \<and> TxSourceHash dep = user_source keccak ev"
  using Unmarshal_sound Unmarshal_complete by metis

lemma topic_address_padded: "topic_address (AddressAsLeftPaddedHash a) = a"
  by (simp add: topic_address_def AddressAsLeftPaddedHash_def copy_at_def)

lemma be_enc_small: "n < 2 ^ 64 \<Longrightarrow> be_enc 32 n = replicate 24 0 @ be_enc 8 n"
proof -
  assume n: "n < 2 ^ 64"
  have "be_enc 24 0 = replicate 24 0" using be_word_0 [of 24, where 'w = 64] by (simp add: be_word_def)
  then have "be_dec (replicate 24 0 :: byte list) = 0" using be_dec_enc [of 24 0] by (simp only: mod_0)
  then have "be_dec (replicate 24 0 @ be_enc 8 n :: byte list) = n" using n by (simp add: be_dec_append be_dec_enc)
  then show ?thesis using be_enc_dec [of "replicate 24 0 @ be_enc 8 n"] by simp
qed

lemma pad_32_ok: "\<exists>pad. pad_32 bs = bs @ pad \<and> length pad < 32 \<and> 32 dvd length (bs @ pad)"
proof (cases "length bs mod 32 = 0")
  case True
  then show ?thesis by (intro exI [of _ "[]"]) (simp add: pad_32_def dvd_eq_mod_eq_0)
next
  case False
  have "32 dvd n + (32 - n mod 32)" for n :: nat by presburger
  then show ?thesis using False by (intro exI [of _ "replicate (32 - length bs mod 32) 0"]) (simp add: pad_32_def)
qed

text \<open>Encoding a deposit and decoding the event returns it: MarshalDepositLogEvent succeeds for a deposit with a positive
  or no mint and 256-bit values, and UnmarshalDepositLogEvent of the log, wherever it is included, returns the
  deposit with the source hash of that place.\<close>

theorem deposit_log_roundtrip:
  assumes "deposit_ok dep"
  shows "\<exists>ev. MarshalDepositLogEvent h addr dep = Inr ev \<and> LogAddress ev = addr \<and>
    (\<forall>blockHash idx. UnmarshalDepositLogEvent keccak h (ev\<lparr>LogBlockHash := blockHash, LogIndex := idx\<rparr>) =
       Inr (dep\<lparr>TxSourceHash := SourceHash keccak (UserDepositSource blockHash idx)\<rparr>))"
proof -
  have ok: "0 \<le> mint_value dep" "mint_value dep < 2 ^ 256" "0 \<le> TxValue dep" "TxValue dep < 2 ^ 256"
    and small: "73 + length (TxData dep) < 2 ^ 64"
    using assms by (simp_all add: deposit_ok_def fee_ok_def)
  define flag :: byte where "flag = (if TxTo dep = None then 1 else 0)"
  let ?op = "be_enc 32 (nat (mint_value dep)) @ be_enc 32 (nat (TxValue dep)) @ be_word 8 (TxGas dep) @ [flag] @ TxData dep"
  let ?D = "be_enc 32 32 @ be_enc 32 (73 + length (TxData dep)) @ ?op"
  have zero: "be_enc 32 0 = replicate 32 0" using be_word_0 [of 32, where 'w = 64] by (simp add: be_word_def)
  have mint: "(case TxMint dep of None \<Rightarrow> Inr (replicate 32 0) | Some m \<Rightarrow> fill_256 m) = Inr (be_enc 32 (nat (mint_value dep)))"
    using ok(1,2) zero by (cases "TxMint dep") (simp_all add: mint_value_def fill_256_def)
  have op: "marshalDepositVersion0 dep = Inr ?op"
    unfolding marshalDepositVersion0_def mint using ok(3,4) by (simp add: fill_256_def flag_def)
  have len: "be_word 8 (of_nat (73 + length (TxData dep)) :: Word) = be_enc 8 (73 + length (TxData dep))"
    using small unfolding be_word_def by (simp add: unat_of_nat del: of_nat_add)
  define ev where "ev = \<lparr>LogAddress = addr, LogTopics = [h, AddressAsLeftPaddedHash (TxFrom dep),
     case TxTo dep of None \<Rightarrow> 0 | Some a \<Rightarrow> AddressAsLeftPaddedHash a, DepositEventVersion0],
     LogData = pad_32 ?D, LogBlockHash = 0, LogIndex = 0\<rparr>"
  have oplen: "length ?op = 73 + length (TxData dep)" by simp
  have "MarshalDepositLogEvent h addr dep = Inr ev"
    unfolding MarshalDepositLogEvent_def op bind_res_Inr oplen len ev_def be_enc_small [OF small] be_enc_small [of 32, simplified]
    by simp
  moreover have "UnmarshalDepositLogEvent keccak h (ev\<lparr>LogBlockHash := blockHash, LogIndex := idx\<rparr>) =
       Inr (dep\<lparr>TxSourceHash := SourceHash keccak (UserDepositSource blockHash idx)\<rparr>)" for blockHash idx
  proof (rule Unmarshal_complete)
    let ?dep = "dep\<lparr>TxSourceHash := SourceHash keccak (UserDepositSource blockHash idx)\<rparr>"
    have mv: "mint_value ?dep = mint_value dep" by (simp add: mint_value_def)
    show "deposit_ok ?dep" using assms by (simp add: deposit_ok_def mint_value_def)
    obtain pad where pad: "pad_32 ?D = ?D @ pad" "length pad < 32" "32 dvd length (?D @ pad)"
      using pad_32_ok [of ?D] by blast
    show "encodes_deposit h (ev\<lparr>LogBlockHash := blockHash, LogIndex := idx\<rparr>) ?dep"
      unfolding encodes_deposit_def mv
      using pad by (intro exI [of _ "AddressAsLeftPaddedHash (TxFrom dep)"]
        exI [of _ "case TxTo dep of None \<Rightarrow> 0 | Some a \<Rightarrow> AddressAsLeftPaddedHash a"] exI [of _ flag] exI [of _ pad])
        (auto simp: ev_def topic_address_padded flag_def split: option.splits)
    show "TxSourceHash ?dep = user_source keccak (ev\<lparr>LogBlockHash := blockHash, LogIndex := idx\<rparr>)" by simp
  qed
  moreover have "LogAddress ev = addr" by (simp add: ev_def)
  ultimately show ?thesis by blast
qed


definition sample_deposit :: DepositTx where
  "sample_deposit = \<lparr>TxSourceHash = 0, TxFrom = 17, TxTo = Some 18, TxMint = Some 5, TxValue = 3, TxGas = 21000,
     IsSystemTransaction = False, TxData = [1, 2, 3]\<rparr>"

theorem deposit_log_roundtrip_witness:
  "\<exists>ev. MarshalDepositLogEvent 4 6 sample_deposit = Inr ev \<and>
    UnmarshalDepositLogEvent (\<lambda>bs. 8) 4 (ev\<lparr>LogBlockHash := 1, LogIndex := 2\<rparr>) = Inr (sample_deposit\<lparr>TxSourceHash := 8\<rparr>)"
proof -
  have "deposit_ok sample_deposit" by (simp add: deposit_ok_def sample_deposit_def fee_ok_def mint_value_def)
  from deposit_log_roundtrip [OF this, of 4 6 "\<lambda>bs. 8"] show ?thesis by (auto simp: domain_hash_def)
qed

section \<open>The deposits of the receipts\<close>

definition deposit_logs :: "H256 \<Rightarrow> Addr \<Rightarrow> Receipt list \<Rightarrow> LogEvent list" where
  "deposit_logs h addr receipts = filter (is_deposit_event h addr) (concat (map RcLogs (filter (\<lambda>r. RcStatus r = 1) receipts)))"

definition decoded :: "keccak \<Rightarrow> H256 \<Rightarrow> LogEvent list \<Rightarrow> DepositTx list" where
  "decoded keccak h evs = concat (map (\<lambda>ev. case UnmarshalDepositLogEvent keccak h ev of Inl _ \<Rightarrow> [] | Inr d \<Rightarrow> [d]) evs)"

definition all_decode :: "keccak \<Rightarrow> H256 \<Rightarrow> LogEvent list \<Rightarrow> bool" where
  "all_decode keccak h evs \<longleftrightarrow> list_all (\<lambda>ev. case UnmarshalDepositLogEvent keccak h ev of Inl _ \<Rightarrow> False | Inr d \<Rightarrow> True) evs"

lemma enumerate_Cons: "enumerate n (x # xs) = (n, x) # enumerate (Suc n) xs"
  by simp

lemma user_log_fold:
  "\<exists>errs. foldl (user_log keccak h addr i) acc (enumerate n logs) =
      (fst acc @ decoded keccak h (filter (is_deposit_event h addr) logs), snd acc @ errs) \<and>
    (errs = [] \<longleftrightarrow> all_decode keccak h (filter (is_deposit_event h addr) logs))"
proof (induction logs arbitrary: acc n)
  case Nil
  then show ?case by (simp add: decoded_def all_decode_def)
next
  case (Cons log logs)
  let ?acc = "user_log keccak h addr i acc (n, log)"
  from Cons [of ?acc "Suc n"] obtain errs where
    e: "foldl (user_log keccak h addr i) ?acc (enumerate (Suc n) logs) =
      (fst ?acc @ decoded keccak h (filter (is_deposit_event h addr) logs), snd ?acc @ errs)"
    "errs = [] \<longleftrightarrow> all_decode keccak h (filter (is_deposit_event h addr) logs)" by blast
  have "\<exists>es. ?acc = (fst acc @ decoded keccak h (filter (is_deposit_event h addr) [log]), snd acc @ es) \<and>
      (es = [] \<longleftrightarrow> all_decode keccak h (filter (is_deposit_event h addr) [log]))"
    by (cases "is_deposit_event h addr log"; cases "UnmarshalDepositLogEvent keccak h log")
      (simp_all add: user_log_def decoded_def all_decode_def)
  then obtain es where es: "?acc = (fst acc @ decoded keccak h (filter (is_deposit_event h addr) [log]), snd acc @ es)"
      "es = [] \<longleftrightarrow> all_decode keccak h (filter (is_deposit_event h addr) [log])" by blast
  have "filter (is_deposit_event h addr) (log # logs) = filter (is_deposit_event h addr) [log] @ filter (is_deposit_event h addr) logs"
    by simp
  then show ?case
    using e es(2) unfolding enumerate_Cons foldl_Cons es(1)
    by (intro exI [of _ "es @ errs"]) (simp add: decoded_def all_decode_def del: filter.simps)
qed

lemma UserDeposits_fold:
  "\<exists>errs. foldl (\<lambda>acc (i, rec).
         if RcStatus rec \<noteq> ReceiptStatusSuccessful then acc
         else foldl (user_log keccak h addr i) acc (enumerate 0 (RcLogs rec))) acc (enumerate n receipts) =
      (fst acc @ decoded keccak h (deposit_logs h addr receipts), snd acc @ errs) \<and>
    (errs = [] \<longleftrightarrow> all_decode keccak h (deposit_logs h addr receipts))"
proof (induction receipts arbitrary: acc n)
  case Nil
  then show ?case by (simp add: decoded_def all_decode_def deposit_logs_def)
next
  case (Cons r rs)
  let ?f = "\<lambda>acc (i, rec). if RcStatus rec \<noteq> ReceiptStatusSuccessful then acc
         else foldl (user_log keccak h addr i) acc (enumerate 0 (RcLogs rec))"
  show ?case
  proof (cases "RcStatus r = 1")
    case False
    then show ?thesis using Cons [of acc "Suc n"] by (simp add: deposit_logs_def)
  next
    case True
    obtain es where es: "?f acc (n, r) =
        (fst acc @ decoded keccak h (filter (is_deposit_event h addr) (RcLogs r)), snd acc @ es)"
      "es = [] \<longleftrightarrow> all_decode keccak h (filter (is_deposit_event h addr) (RcLogs r))"
      using True user_log_fold [of keccak h addr n acc 0 "RcLogs r"] by auto
    have logs: "deposit_logs h addr (r # rs) = filter (is_deposit_event h addr) (RcLogs r) @ deposit_logs h addr rs"
      using True by (simp add: deposit_logs_def)
    obtain errs where "foldl ?f (?f acc (n, r)) (enumerate (Suc n) rs) =
        (fst (?f acc (n, r)) @ decoded keccak h (deposit_logs h addr rs), snd (?f acc (n, r)) @ errs)"
      "errs = [] \<longleftrightarrow> all_decode keccak h (deposit_logs h addr rs)"
      using Cons by blast
    then show ?thesis unfolding es logs enumerate_Cons foldl_Cons
      using es(2) by (intro exI [of _ "es @ errs"]) (simp add: decoded_def all_decode_def)
  qed
qed

lemma encode_fold:
  "\<exists>errs. foldl (\<lambda>(encodedTxs, result) (i, tx).
              case encode tx of
                None \<Rightarrow> (encodedTxs, result @ [FailedToEncode i])
              | Some opaqueTx \<Rightarrow> (encodedTxs @ [opaqueTx], result)) (out, res) (enumerate n deps) =
      (out @ List.map_filter encode deps, res @ errs) \<and> (errs = [] \<longleftrightarrow> list_all (\<lambda>d. encode d \<noteq> None) deps)"
proof (induction deps arbitrary: out res n)
  case Nil
  then show ?case by (simp add: map_filter_simps)
next
  case (Cons d ds)
  then show ?case
  proof (cases "encode d")
    case None
    then show ?thesis using Cons [of out "res @ [FailedToEncode n]" "Suc n"] by (auto simp: map_filter_simps)
  next
    case (Some t)
    then show ?thesis using Cons [of "out @ [t]" res "Suc n"] by (auto simp: map_filter_simps)
  qed
qed

lemma DeriveDeposits_decoded:
  "fst (DeriveDeposits encode keccak h receipts addr) = List.map_filter encode (decoded keccak h (deposit_logs h addr receipts)) \<and>
    (snd (DeriveDeposits encode keccak h receipts addr) = [] \<longleftrightarrow>
      all_decode keccak h (deposit_logs h addr receipts) \<and>
      list_all (\<lambda>d. encode d \<noteq> None) (decoded keccak h (deposit_logs h addr receipts)))"
proof -
  let ?deps = "decoded keccak h (deposit_logs h addr receipts)"
  obtain es where u: "UserDeposits keccak h receipts addr = (?deps, es)" "es = [] \<longleftrightarrow> all_decode keccak h (deposit_logs h addr receipts)"
    using UserDeposits_fold [of keccak h addr "([], [])" 0 receipts] unfolding UserDeposits_def by auto
  let ?res = "if es = [] then [] else [MalformattedLogs es]"
  obtain errs where "DeriveDeposits encode keccak h receipts addr = (List.map_filter encode ?deps, ?res @ errs)"
      "errs = [] \<longleftrightarrow> list_all (\<lambda>d. encode d \<noteq> None) ?deps"
    using encode_fold [of encode "[]" ?res 0 ?deps] unfolding DeriveDeposits_def u(1) by auto
  then show ?thesis using u(2) by simp
qed

text \<open>What an event says: the deposit it encodes, with the source hash of the log's place.\<close>

definition deposit_of :: "keccak \<Rightarrow> H256 \<Rightarrow> LogEvent \<Rightarrow> DepositTx \<Rightarrow> bool" where
  "deposit_of keccak h ev dep \<longleftrightarrow> encodes_deposit h ev dep \<and> deposit_ok dep \<and> TxSourceHash dep = user_source keccak ev"

definition meaning :: "keccak \<Rightarrow> H256 \<Rightarrow> LogEvent \<Rightarrow> DepositTx option \<Rightarrow> bool" where
  "meaning keccak h ev m = (case m of None \<Rightarrow> \<nexists>dep. deposit_of keccak h ev dep | Some dep \<Rightarrow> deposit_of keccak h ev dep)"

lemma decoded_meaning:
  "\<exists>ms. list_all2 (meaning keccak h) evs ms \<and> decoded keccak h evs = List.map_filter id ms \<and>
    (all_decode keccak h evs \<longleftrightarrow> None \<notin> set ms)"
proof (induction evs)
  case Nil
  then show ?case by (simp add: decoded_def all_decode_def map_filter_simps)
next
  case (Cons ev evs)
  then obtain ms where ms: "list_all2 (meaning keccak h) evs ms" "decoded keccak h evs = List.map_filter id ms"
    "all_decode keccak h evs \<longleftrightarrow> None \<notin> set ms" by blast
  have exact: "UnmarshalDepositLogEvent keccak h ev = Inr dep \<longleftrightarrow> deposit_of keccak h ev dep" for dep
    unfolding deposit_of_def by (rule UnmarshalDepositLogEvent_exact)
  show ?case
  proof (cases "UnmarshalDepositLogEvent keccak h ev")
    case (Inl e)
    then have "meaning keccak h ev None" using exact by (auto simp: meaning_def)
    then show ?thesis using ms Inl
      by (intro exI [of _ "None # ms"]) (simp add: decoded_def all_decode_def map_filter_simps id_def)
  next
    case (Inr dep)
    then have "meaning keccak h ev (Some dep)" using exact by (auto simp: meaning_def)
    then show ?thesis using ms Inr
      by (intro exI [of _ "Some dep # ms"]) (simp add: decoded_def all_decode_def map_filter_simps id_def)
  qed
qed

text \<open>C23: The deposits of an L1 block: of the logs of the successful receipts with the address of the deposit contract and the
  deposit topic, in the order of receipts and logs, DeriveDeposits returns the encodings of the deposits they encode -
  the addresses of the topics and the values packed in the data, under the source hash of the log's place - and skips
  those that encode none; it returns no error exactly when all of them encode a deposit that can be marshalled.\<close>

theorem DeriveDeposits_exact:
  "\<exists>ms. list_all2 (meaning keccak h)
        (filter (\<lambda>log. LogAddress log = addr \<and> LogTopics log \<noteq> [] \<and> hd (LogTopics log) = h)
          (concat (map RcLogs (filter (\<lambda>r. RcStatus r = 1) receipts)))) ms \<and>
    fst (DeriveDeposits encode keccak h receipts addr) = List.map_filter encode (List.map_filter id ms) \<and>
    (snd (DeriveDeposits encode keccak h receipts addr) = [] \<longleftrightarrow>
       None \<notin> set ms \<and> list_all (\<lambda>d. encode d \<noteq> None) (List.map_filter id ms))"
proof -
  let ?logs = "filter (\<lambda>log. LogAddress log = addr \<and> LogTopics log \<noteq> [] \<and> hd (LogTopics log) = h)
    (concat (map RcLogs (filter (\<lambda>r. RcStatus r = 1) receipts)))"
  have "is_deposit_event h addr = (\<lambda>log. LogAddress log = addr \<and> LogTopics log \<noteq> [] \<and> hd (LogTopics log) = h)"
    by (intro ext) (auto simp: is_deposit_event_def hd_conv_nth)
  then have logs: "deposit_logs h addr receipts = ?logs" by (simp add: deposit_logs_def)
  obtain ms where "list_all2 (meaning keccak h) ?logs ms" "decoded keccak h ?logs = List.map_filter id ms"
    "all_decode keccak h ?logs \<longleftrightarrow> None \<notin> set ms" using decoded_meaning by blast
  then show ?thesis
    using DeriveDeposits_decoded [of encode keccak h receipts addr] unfolding logs by (intro exI [of _ ms]) (simp only:)
qed

end
