(* ===== verification/Batch_Check.thy ===== *)
theory Batch_Check
  imports Derive_Deposit
begin

text \<open>
  Batches and their validity: the data of \<open>op-node/rollup/derive/singular_batch.go\<close> and \<open>span_batch.go\<close> and the rules
  of \<open>batches.go\<close>.  A batch is a value of \<open>Batch\<close>, so the type assertions cannot fail.  The L2 client is a record of
  its two answers, \<open>None\<close> for an error.  The caches and the chain id of a span batch, which the rules do not read,
  and the logging are left out.
\<close>

section \<open>Batches\<close>

record SingularBatch =
  SbParentHash :: H256
  SbEpochNum :: Word
  SbEpochHash :: H256
  SbTimestamp :: Word
  SbTransactions :: "byte list list"

record SpanBatchElement =
  ElEpochNum :: Word
  ElTimestamp :: Word
  ElTransactions :: "byte list list"

record SpanBatch =
  ParentCheck :: "byte list"
  L1OriginCheck :: "byte list"
  GenesisTimestamp :: Word
  Batches :: "SpanBatchElement list"

datatype Batch = Singular SingularBatch | Span SpanBatch

record BatchWithL1InclusionBlock =
  BwBatch :: Batch
  L1InclusionBlock :: L1BlockRef

datatype BatchValidity = BatchDrop | BatchAccept | BatchUndecided | BatchFuture | BatchPast

record SafeBlockFetcher =
  L2BlockRefByNumber :: "Word \<Rightarrow> L2BlockRef option"
  PayloadByNumber :: "Word \<Rightarrow> ExecutionPayload option"

definition Sb_Epoch :: "SingularBatch \<Rightarrow> BlockID" where
  "Sb_Epoch b = \<lparr>BidHash = SbEpochHash b, BidNumber = SbEpochNum b\<rparr>"

definition singularBatchToElement :: "SingularBatch \<Rightarrow> SpanBatchElement" where
  "singularBatchToElement b = \<lparr>ElEpochNum = SbEpochNum b, ElTimestamp = SbTimestamp b, ElTransactions = SbTransactions b\<rparr>"

text \<open>An index into the blocks of a span; out of range it panics.\<close>

definition block_at :: "SpanBatch \<Rightarrow> nat \<Rightarrow> SpanBatchElement res" where
  "block_at b i = (if i < length (Batches b) then Inr (Batches b ! i) else Inl IndexOutOfRange)"

definition GetBlockCount :: "SpanBatch \<Rightarrow> nat" where
  "GetBlockCount b = length (Batches b)"

definition CheckOriginHash :: "SpanBatch \<Rightarrow> H256 \<Rightarrow> bool" where
  "CheckOriginHash b hash \<longleftrightarrow> L1OriginCheck b = take 20 (be_word 32 hash)"

definition CheckParentHash :: "SpanBatch \<Rightarrow> H256 \<Rightarrow> bool" where
  "CheckParentHash b hash \<longleftrightarrow> ParentCheck b = take 20 (be_word 32 hash)"

text \<open>\<open>GetSingularBatches\<close>: \<open>None\<close> is the error of an epoch that is not among the L1 blocks.  The loop keeps the index of
  the last origin found.\<close>

definition find_origin :: "L1BlockRef list \<Rightarrow> nat \<Rightarrow> Word \<Rightarrow> nat option" where
  "find_origin l1Blocks originIdx epochNum = find (\<lambda>j. L1Number (l1Blocks ! j) = epochNum) [originIdx..<length l1Blocks]"

fun singular_batches :: "L1BlockRef list \<Rightarrow> L2BlockRef \<Rightarrow> nat \<Rightarrow> SpanBatchElement list \<Rightarrow> SingularBatch list option" where
  "singular_batches l1Origins l2SafeHead originIdx [] = Some []"
| "singular_batches l1Origins l2SafeHead originIdx (batch # rest) =
     (if ElTimestamp batch \<le> L2Time l2SafeHead then singular_batches l1Origins l2SafeHead originIdx rest
      else
        (case find_origin l1Origins originIdx (ElEpochNum batch) of
           None \<Rightarrow> None
         | Some i \<Rightarrow>
             (case singular_batches l1Origins l2SafeHead i rest of
                None \<Rightarrow> None
              | Some bs \<Rightarrow> Some (\<lparr>SbParentHash = 0, SbEpochNum = ElEpochNum batch, SbEpochHash = L1Hash (l1Origins ! i),
                              SbTimestamp = ElTimestamp batch, SbTransactions = ElTransactions batch\<rparr> # bs))))"

definition GetSingularBatches :: "SpanBatch \<Rightarrow> L1BlockRef list \<Rightarrow> L2BlockRef \<Rightarrow> SingularBatch list option" where
  "GetSingularBatches b l1Origins l2SafeHead = singular_batches l1Origins l2SafeHead 0 (Batches b)"

section \<open>Singular batches\<close>

text \<open>The loop over the transactions: none is empty or a deposit.\<close>

definition sequencer_tx :: "byte list \<Rightarrow> bool" where
  "sequencer_tx tx \<longleftrightarrow> tx \<noteq> [] \<and> hd tx \<noteq> DepositType"

definition checkSingularBatch :: "Config \<Rightarrow> L1BlockRef list \<Rightarrow> L2BlockRef \<Rightarrow> SingularBatch \<Rightarrow> L1BlockRef \<Rightarrow> BatchValidity" where
  "checkSingularBatch cfg l1Blocks l2SafeHead batch l1InclusionBlock =
     (if length l1Blocks = 0 then BatchUndecided
      else
        let epoch = l1Blocks ! 0;
            nextTimestamp = L2Time l2SafeHead + BlockTime cfg
        in if nextTimestamp < SbTimestamp batch then
             if IsHolocene cfg (L1Time l1InclusionBlock) then BatchDrop else BatchFuture
           else if SbTimestamp batch < nextTimestamp then
             if IsHolocene cfg (L1Time l1InclusionBlock) then BatchPast else BatchDrop
           else if SbParentHash batch \<noteq> L2Hash l2SafeHead then BatchDrop
           else if SbEpochNum batch + SeqWindowSize cfg < L1Number l1InclusionBlock then BatchDrop
           else if SbEpochNum batch < L1Number epoch then BatchDrop
           else if SbEpochNum batch \<noteq> L1Number epoch \<and> SbEpochNum batch \<noteq> L1Number epoch + 1 then BatchDrop
           else if SbEpochNum batch \<noteq> L1Number epoch \<and> length l1Blocks < 2 then BatchUndecided
           else
             let batchOrigin = (if SbEpochNum batch = L1Number epoch then epoch else l1Blocks ! 1)
             in if SbEpochHash batch \<noteq> L1Hash batchOrigin then BatchDrop
                else if SbTimestamp batch < L1Time batchOrigin then BatchDrop
                else
                  let max = L1Time batchOrigin + MaxSequencerDrift cfg (L1Time batchOrigin);
                      txs_verdict = (if list_all sequencer_tx (SbTransactions batch) then BatchAccept else BatchDrop)
                  in if max < SbTimestamp batch then
                       if length (SbTransactions batch) = 0 then
                         if L1Number epoch = L1Number batchOrigin then
                           if length l1Blocks < 2 then BatchUndecided
                           else if L1Time (l1Blocks ! 1) \<le> SbTimestamp batch then BatchDrop
                           else txs_verdict
                         else txs_verdict
                       else BatchDrop
                     else txs_verdict)"

section \<open>Span batches\<close>

definition zero_L1BlockRef :: L1BlockRef where
  "zero_L1BlockRef = \<lparr>L1Hash = 0, L1Number = 0, L1ParentHash = 0, L1Time = 0\<rparr>"

definition zero_L2BlockRef :: L2BlockRef where
  "zero_L2BlockRef = \<lparr>L2Hash = 0, L2Number = 0, L2ParentHash = 0, L2Time = 0, L1Origin = \<lparr>BidHash = 0, BidNumber = 0\<rparr>, SequenceNumber = 0\<rparr>"

text \<open>From the parent hash on, once the parent block is known.\<close>

definition prefix_rest ::
    "Config \<Rightarrow> L1BlockRef list \<Rightarrow> SpanBatch \<Rightarrow> L1BlockRef \<Rightarrow> Word \<Rightarrow> Word \<Rightarrow> L2BlockRef \<Rightarrow> BatchValidity" where
  "prefix_rest cfg l1Blocks batch l1InclusionBlock startEpochNum endEpochNum parentBlock =
     (if \<not> CheckParentHash batch (L2Hash parentBlock) then BatchDrop
      else if startEpochNum + SeqWindowSize cfg < L1Number l1InclusionBlock then BatchDrop
      else if BidNumber (L1Origin parentBlock) + 1 < startEpochNum then BatchDrop
      else
        (case find (\<lambda>l1Block. L1Number l1Block = endEpochNum) l1Blocks of
           None \<Rightarrow> BatchUndecided
         | Some l1Block \<Rightarrow>
             if \<not> CheckOriginHash batch (L1Hash l1Block) then BatchDrop
             else if startEpochNum < BidNumber (L1Origin parentBlock) then BatchDrop
             else BatchAccept))"

definition checkSpanBatchPrefix ::
    "Config \<Rightarrow> L1BlockRef list \<Rightarrow> L2BlockRef \<Rightarrow> SpanBatch \<Rightarrow> L1BlockRef \<Rightarrow> SafeBlockFetcher \<Rightarrow> (BatchValidity \<times> L2BlockRef) res" where
  "checkSpanBatchPrefix cfg l1Blocks l2SafeHead batch l1InclusionBlock l2Fetcher =
     (if length l1Blocks = 0 then Inr (BatchUndecided, zero_L2BlockRef)
      else
        bind_res (block_at batch 0) (\<lambda>first.
        let startEpochNum = ElEpochNum first; epoch = l1Blocks ! 0
        in if startEpochNum = L1Number epoch + 1 \<and> length l1Blocks < 2 then Inr (BatchUndecided, zero_L2BlockRef)
           else
             let batchOrigin = (if startEpochNum = L1Number epoch + 1 then l1Blocks ! 1 else epoch);
                 nextTimestamp = L2Time l2SafeHead + BlockTime cfg;
                 holocene = IsHolocene cfg (L1Time l1InclusionBlock)
             in if \<not> IsDelta cfg (L1Time batchOrigin) then Inr (BatchDrop, zero_L2BlockRef)
                else if nextTimestamp < ElTimestamp first then Inr (if holocene then BatchDrop else BatchFuture, zero_L2BlockRef)
                else
                  bind_res (block_at batch (GetBlockCount batch - 1)) (\<lambda>last.
                  let rest = (\<lambda>parentBlock. (prefix_rest cfg l1Blocks batch l1InclusionBlock startEpochNum (ElEpochNum last) parentBlock, parentBlock))
                  in if ElTimestamp last < nextTimestamp then Inr (if holocene then BatchPast else BatchDrop, zero_L2BlockRef)
                     else if ElTimestamp first < nextTimestamp then
                       if L2Time l2SafeHead < ElTimestamp first then Inr (BatchDrop, zero_L2BlockRef)
                       else if BlockTime cfg = 0 then Inl DivisionByZero
                       else if (L2Time l2SafeHead - ElTimestamp first) mod BlockTime cfg \<noteq> 0 then Inr (BatchDrop, zero_L2BlockRef)
                       else
                         (case L2BlockRefByNumber l2Fetcher
                                 (L2Number l2SafeHead - (L2Time l2SafeHead - ElTimestamp first) div BlockTime cfg - 1) of
                            None \<Rightarrow> Inr (BatchUndecided, zero_L2BlockRef)
                          | Some parentBlock \<Rightarrow> Inr (rest parentBlock))
                     else Inr (rest l2SafeHead))))"

text \<open>One block of the first loop of \<open>checkSpanBatch\<close>; a verdict of \<open>None\<close> goes on.\<close>

definition span_block ::
    "Config \<Rightarrow> L1BlockRef list \<Rightarrow> L2BlockRef \<Rightarrow> SpanBatch \<Rightarrow> nat \<Rightarrow> nat \<Rightarrow> bool \<Rightarrow> BatchValidity option \<times> nat \<times> bool" where
  "span_block cfg l1Blocks l2SafeHead batch i originIdx originAdvanced =
     (let el = Batches batch ! i
      in if ElTimestamp el \<le> L2Time l2SafeHead then (None, originIdx, originAdvanced)
         else
           let found = find_origin l1Blocks originIdx (ElEpochNum el);
               l1Origin = (case found of None \<Rightarrow> zero_L1BlockRef | Some j \<Rightarrow> l1Blocks ! j);
               originIdx = (case found of None \<Rightarrow> originIdx | Some j \<Rightarrow> j);
               originAdvanced = (if 0 < i then ElEpochNum (Batches batch ! (i - 1)) < ElEpochNum el else originAdvanced);
               max = L1Time l1Origin + MaxSequencerDrift cfg (L1Time l1Origin);
               txs_verdict = (if list_all sequencer_tx (ElTransactions el) then None else Some BatchDrop)
           in (if ElTimestamp el < L1Time l1Origin then Some BatchDrop
               else if max < ElTimestamp el then
                 if length (ElTransactions el) = 0 then
                   if \<not> originAdvanced then
                     if length l1Blocks \<le> originIdx + 1 then Some BatchUndecided
                     else if L1Time (l1Blocks ! (originIdx + 1)) \<le> ElTimestamp el then Some BatchDrop
                     else txs_verdict
                   else txs_verdict
                 else Some BatchDrop
               else txs_verdict, originIdx, originAdvanced))"

fun span_loop ::
    "Config \<Rightarrow> L1BlockRef list \<Rightarrow> L2BlockRef \<Rightarrow> SpanBatch \<Rightarrow> nat list \<Rightarrow> nat \<Rightarrow> bool \<Rightarrow> BatchValidity option" where
  "span_loop cfg l1Blocks l2SafeHead batch [] originIdx originAdvanced = None"
| "span_loop cfg l1Blocks l2SafeHead batch (i # is) originIdx originAdvanced =
     (case span_block cfg l1Blocks l2SafeHead batch i originIdx originAdvanced of
        (Some v, _) \<Rightarrow> Some v
      | (None, originIdx, originAdvanced) \<Rightarrow> span_loop cfg l1Blocks l2SafeHead batch is originIdx originAdvanced)"

text \<open>The number of deposits among the transactions of a safe block; an empty transaction panics.\<close>

fun count_deposits :: "byte list list \<Rightarrow> nat res" where
  "count_deposits [] = Inr 0"
| "count_deposits (tx # txs) =
     (case tx of
        [] \<Rightarrow> Inl IndexOutOfRange
      | t # _ \<Rightarrow> bind_res (count_deposits txs) (\<lambda>n. Inr (if t = DepositType then n + 1 else n)))"

text \<open>One block of the second loop, over the blocks of the span that are safe already.\<close>

definition overlap_block ::
    "selectors \<Rightarrow> Config \<Rightarrow> (byte list \<Rightarrow> Transaction option) \<Rightarrow> SpanBatch \<Rightarrow> SafeBlockFetcher \<Rightarrow> Word \<Rightarrow> nat \<Rightarrow> BatchValidity option res" where
  "overlap_block sel cfg decode_tx batch l2Fetcher parentNum i =
     (case PayloadByNumber l2Fetcher (parentNum + of_nat i + 1) of
        None \<Rightarrow> Inr (Some BatchUndecided)
      | Some payload \<Rightarrow>
          let safeBlockTxs = PlTransactions payload
          in bind_res (block_at batch i) (\<lambda>el.
             bind_res (count_deposits safeBlockTxs) (\<lambda>depositCount.
             if length safeBlockTxs - depositCount \<noteq> length (ElTransactions el) then Inr (Some BatchDrop)
             else if drop depositCount safeBlockTxs \<noteq> ElTransactions el then Inr (Some BatchDrop)
             else
               (case PayloadToBlockRef sel cfg decode_tx payload of
                  Inl err \<Rightarrow> Inr (Some BatchDrop)
                | Inr safeBlockRef \<Rightarrow>
                    if BidNumber (L1Origin safeBlockRef) \<noteq> ElEpochNum el then Inr (Some BatchDrop) else Inr None))))"

fun overlap_loop ::
    "selectors \<Rightarrow> Config \<Rightarrow> (byte list \<Rightarrow> Transaction option) \<Rightarrow> SpanBatch \<Rightarrow> SafeBlockFetcher \<Rightarrow> Word \<Rightarrow> nat list \<Rightarrow> BatchValidity option res" where
  "overlap_loop sel cfg decode_tx batch l2Fetcher parentNum [] = Inr None"
| "overlap_loop sel cfg decode_tx batch l2Fetcher parentNum (i # is) =
     bind_res (overlap_block sel cfg decode_tx batch l2Fetcher parentNum i) (\<lambda>v.
       case v of Some v \<Rightarrow> Inr (Some v) | None \<Rightarrow> overlap_loop sel cfg decode_tx batch l2Fetcher parentNum is)"

definition checkSpanBatch ::
    "selectors \<Rightarrow> Config \<Rightarrow> (byte list \<Rightarrow> Transaction option) \<Rightarrow> L1BlockRef list \<Rightarrow> L2BlockRef \<Rightarrow> SpanBatch \<Rightarrow> L1BlockRef \<Rightarrow>
     SafeBlockFetcher \<Rightarrow> BatchValidity res" where
  "checkSpanBatch sel cfg decode_tx l1Blocks l2SafeHead batch l1InclusionBlock l2Fetcher =
     bind_res (checkSpanBatchPrefix cfg l1Blocks l2SafeHead batch l1InclusionBlock l2Fetcher) (\<lambda>(prefixValidity, parentBlock).
       if prefixValidity \<noteq> BatchAccept then Inr prefixValidity
       else
         bind_res (block_at batch 0) (\<lambda>first.
         (case span_loop cfg l1Blocks l2SafeHead batch [0..<GetBlockCount batch] 0
                 (ElEpochNum first = BidNumber (L1Origin parentBlock) + 1) of
            Some v \<Rightarrow> Inr v
          | None \<Rightarrow>
              if ElTimestamp first < L2Time l2SafeHead + BlockTime cfg then
                bind_res (overlap_loop sel cfg decode_tx batch l2Fetcher (L2Number parentBlock)
                  [0..<unat (L2Number l2SafeHead - L2Number parentBlock)]) (\<lambda>v.
                Inr (case v of Some v \<Rightarrow> v | None \<Rightarrow> BatchAccept))
              else Inr BatchAccept)))"

definition CheckBatch ::
    "selectors \<Rightarrow> Config \<Rightarrow> (byte list \<Rightarrow> Transaction option) \<Rightarrow> L1BlockRef list \<Rightarrow> L2BlockRef \<Rightarrow> BatchWithL1InclusionBlock \<Rightarrow>
     SafeBlockFetcher \<Rightarrow> BatchValidity res" where
  "CheckBatch sel cfg decode_tx l1Blocks l2SafeHead batch l2Fetcher =
     (case BwBatch batch of
        Singular b \<Rightarrow> Inr (checkSingularBatch cfg l1Blocks l2SafeHead b (L1InclusionBlock batch))
      | Span b \<Rightarrow> checkSpanBatch sel cfg decode_tx l1Blocks l2SafeHead b (L1InclusionBlock batch) l2Fetcher)"


section \<open>The verdict on a singular batch\<close>

text \<open>The verdict on a singular batch is final: once the check does not say undecided, appending more L1 blocks does not
  change it, so checking eagerly and checking with all L1 blocks agree.  With two L1 blocks the check is never
  undecided, and from Holocene on no batch is put off as a future one.\<close>

theorem checkSingularBatch_final:
  "(checkSingularBatch cfg l1Blocks head b incl \<noteq> BatchUndecided \<longrightarrow>
      checkSingularBatch cfg (l1Blocks @ later) head b incl = checkSingularBatch cfg l1Blocks head b incl) \<and>
   (2 \<le> length l1Blocks \<longrightarrow> checkSingularBatch cfg l1Blocks head b incl \<noteq> BatchUndecided) \<and>
   (IsHolocene cfg (L1Time incl) \<longrightarrow> checkSingularBatch cfg l1Blocks head b incl \<noteq> BatchFuture)"
proof -
  consider "l1Blocks = []" | x where "l1Blocks = [x]" | x y zs where "l1Blocks = x # y # zs"
    by (cases l1Blocks; cases "tl l1Blocks") auto
  then show ?thesis by cases (simp_all add: checkSingularBatch_def Let_def)
qed

text \<open>What an accepted batch is, on natural numbers: the next block on the safe head, inside the sequencing window, of the
  current epoch or the next one, not before its L1 origin, within the drift unless it is empty and could not have
  adopted the next origin.\<close>

definition batch_origin :: "L1BlockRef list \<Rightarrow> SingularBatch \<Rightarrow> L1BlockRef \<Rightarrow> bool" where
  "batch_origin l1Blocks b origin \<longleftrightarrow> SbEpochHash b = L1Hash origin \<and>
     (SbEpochNum b = L1Number (l1Blocks ! 0) \<and> origin = l1Blocks ! 0 \<or>
      SbEpochNum b = L1Number (l1Blocks ! 0) + 1 \<and> 2 \<le> length l1Blocks \<and> origin = l1Blocks ! 1)"

definition within_drift :: "Config \<Rightarrow> L1BlockRef list \<Rightarrow> SingularBatch \<Rightarrow> L1BlockRef \<Rightarrow> bool" where
  "within_drift cfg l1Blocks b origin \<longleftrightarrow>
     SbTimestamp b \<le> L1Time origin + MaxSequencerDrift cfg (L1Time origin) \<or>
     SbTransactions b = [] \<and>
       (L1Number origin = L1Number (l1Blocks ! 0) \<longrightarrow> 2 \<le> length l1Blocks \<and> SbTimestamp b < L1Time (l1Blocks ! 1))"

definition valid_singular :: "Config \<Rightarrow> L1BlockRef list \<Rightarrow> L2BlockRef \<Rightarrow> SingularBatch \<Rightarrow> L1BlockRef \<Rightarrow> bool" where
  "valid_singular cfg l1Blocks head b incl \<longleftrightarrow>
     l1Blocks \<noteq> [] \<and> SbTimestamp b = L2Time head + BlockTime cfg \<and> SbParentHash b = L2Hash head \<and>
     L1Number incl \<le> SbEpochNum b + SeqWindowSize cfg \<and> L1Number (l1Blocks ! 0) \<le> SbEpochNum b \<and>
     (\<exists>origin. batch_origin l1Blocks b origin \<and> L1Time origin \<le> SbTimestamp b \<and> within_drift cfg l1Blocks b origin) \<and>
     list_all sequencer_tx (SbTransactions b)"

lemma plus_one_neq [simp]: "(w :: 'a::len word) + 1 \<noteq> w" "w \<noteq> w + 1"
  by simp_all

lemma checkSingularBatch_Accept:
  "checkSingularBatch cfg l1Blocks head b incl = BatchAccept \<longleftrightarrow> valid_singular cfg l1Blocks head b incl"
proof (cases "l1Blocks = []")
  case True
  then show ?thesis by (simp add: checkSingularBatch_def valid_singular_def)
next
  case False
  show ?thesis
  proof (cases "SbEpochNum b = L1Number (l1Blocks ! 0)")
    case True
    then show ?thesis using False
      by (auto simp: checkSingularBatch_def valid_singular_def Let_def batch_origin_def within_drift_def not_less not_le)
  next
    case neq: False
    show ?thesis
    proof (cases "SbEpochNum b = L1Number (l1Blocks ! 0) + 1 \<and> 2 \<le> length l1Blocks")
      case True
      then show ?thesis using False neq
        by (auto simp: checkSingularBatch_def valid_singular_def Let_def batch_origin_def within_drift_def not_less not_le)
    next
      case no: False
      then have "\<not> batch_origin l1Blocks b origin" for origin using neq by (auto simp: batch_origin_def)
      then show ?thesis using False neq no by (auto simp: checkSingularBatch_def valid_singular_def Let_def)
    qed
  qed
qed

end
