(* ===== verification/Span_Bits.thy ===== *)
theory Span_Bits
  imports Batch_Check
begin

text \<open>
  The readers and writers the span batch codec is built from: \<open>binary.ReadUvarint\<close> and \<open>PutUvarint\<close> of Go's
  \<open>encoding/binary\<close>, \<open>io.ReadFull\<close>, the bit lists of \<open>op-node/rollup/derive/span_batch_util.go\<close>, and loops that read
  a fixed number of items.  A reader is a function on the bytes left; an unsigned \<open>big.Int\<close> is a natural number.
\<close>

section \<open>Readers\<close>

datatype span_error =
    ShortRead | UvarintOverflow | TooManyBits | TooBigSpanBatchSize | EmptySpanBatch | TxCountsNotSet
  | BadRLP | TypedTxTooShort | TxTypeNotSupported | InvalidTxType | NotEnoughTo | SigCountMismatch
  | UndecodableTx | WrongChainID | MarshalFailed | BatchTooShort | UnrecognizedBatchType

type_synonym 'a reader = "byte list \<Rightarrow> span_error + ('a \<times> byte list)"

definition take_full :: "nat \<Rightarrow> byte list reader" where
  "take_full n r = (if length r < n then Inl ShortRead else Inr (take n r, drop n r))"

fun read_times :: "nat \<Rightarrow> 'a reader \<Rightarrow> 'a list reader" where
  "read_times 0 rd r = Inr ([], r)"
| "read_times (Suc n) rd r =
     bind_res (rd r) (\<lambda>(x, r). bind_res (read_times n rd r) (\<lambda>(xs, r). Inr (x # xs, r)))"

text \<open>The rest of the input is passed on: a reader reads back what a writer wrote, and nothing else.\<close>

definition reads :: "'a reader \<Rightarrow> byte list \<Rightarrow> 'a \<Rightarrow> bool" where
  "reads rd bs x \<longleftrightarrow> (\<forall>r. rd (bs @ r) = Inr (x, r))"

lemma reads_D: "reads rd bs x \<Longrightarrow> rd (bs @ r) = Inr (x, r)"
  by (simp add: reads_def)

lemma reads_take_full: "length bs = n \<Longrightarrow> reads (take_full n) bs bs"
  by (simp add: reads_def take_full_def)

lemma reads_times:
  assumes "\<And>x. x \<in> set xs \<Longrightarrow> reads rd (wr x) (g x)"
  shows "reads (read_times (length xs) rd) (concat (map wr xs)) (map g xs)"
  using assms by (induction xs) (simp_all add: reads_def)

lemma take_full_Inr: "take_full n r = Inr (bs, r') \<longleftrightarrow> length bs = n \<and> r = bs @ r'"
  by (auto simp: take_full_def)

lemma read_times_length: "read_times n rd r = Inr (xs, r') \<Longrightarrow> length xs = n"
  by (induction n arbitrary: r xs r') (auto simp: res_simps split: prod.splits)

lemma read_times_all:
  assumes "\<And>r x r'. rd r = Inr (x, r') \<Longrightarrow> P x"
  shows "read_times n rd r = Inr (xs, r') \<Longrightarrow> list_all P xs"
  by (induction n arbitrary: r xs r') (use assms in \<open>auto simp: res_simps split: prod.splits\<close>)

section \<open>Uvarints\<close>

definition uvarint_or :: "nat \<Rightarrow> Word \<Rightarrow> Word \<Rightarrow> Word" where
  "uvarint_or i x b = x OR push_bit (7 * i) b"

fun uvarint_from :: "nat \<Rightarrow> Word \<Rightarrow> Word reader" where
  "uvarint_from i x [] = Inl (if i < 10 then ShortRead else UvarintOverflow)"
| "uvarint_from i x (b # r) =
     (if 10 \<le> i then Inl UvarintOverflow
      else if b < 128 then
        if i = 9 \<and> 1 < b then Inl UvarintOverflow else Inr (uvarint_or i x (ucast b), r)
      else uvarint_from (Suc i) (uvarint_or i x (ucast (b AND 127))) r)"

definition ReadUvarint :: "Word reader" where
  "ReadUvarint = uvarint_from 0 0"

function PutUvarint :: "Word \<Rightarrow> byte list" where
  "PutUvarint x = (if x < 128 then [ucast x] else (ucast x OR 128) # PutUvarint (drop_bit 7 x))"
  by auto
termination
proof (relation "measure unat")
  fix x :: Word
  assume "\<not> x < 128"
  then have "128 \<le> unat x" by (simp add: word_less_nat_alt)
  then show "(drop_bit 7 x, x) \<in> measure unat" by (simp add: unat_drop_bit_div)
qed simp

declare PutUvarint.simps [simp del]

lemma bit_ucast_and_127: "bit (ucast (b AND (127 :: byte)) :: Word) k \<longleftrightarrow> bit b k \<and> k < 7"
proof -
  have "(127 :: byte) = mask 7" by (simp add: mask_eq_exp_minus_1)
  then have "bit (127 :: byte) k \<longleftrightarrow> k < 7" by (simp only: bit_mask_iff) auto
  then show ?thesis by (auto simp: bit_ucast_iff bit_and_iff dest: bit_imp_le_length)
qed

lemma bit_128: "bit (128 :: byte) k \<longleftrightarrow> k = 7"
proof -
  have "(128 :: byte) = push_bit 7 1" by simp
  then show ?thesis by (simp only: bit_push_bit_iff) (auto simp: bit_1_iff)
qed

lemma high_bit: "bit (b :: byte) 7 \<Longrightarrow> \<not> b < 128"
proof
  assume b: "bit b 7" "b < 128"
  then have "unat b div 2 ^ 7 = 0" by (simp add: word_less_nat_alt)
  moreover have "bit (unat b) 7" using b(1) by (simp add: bit_unsigned_iff)
  ultimately show False by (simp add: bit_iff_odd)
qed

text \<open>The bits the writer leaves are the bits the reader has not seen.\<close>

lemma uvarint_from_Put:
  assumes "i \<le> 9" "unat y * 2 ^ (7 * i) < 2 ^ 64"
  shows "uvarint_from i x (PutUvarint y @ r) = Inr (x OR push_bit (7 * i) y, r)"
  using assms
proof (induction y arbitrary: i x rule: PutUvarint.induct)
  case (1 y)
  show ?case
  proof (cases "y < 128")
    case True
    then have y: "unat y < 128" by (simp add: word_less_nat_alt)
    then have uy: "unat (ucast y :: byte) = unat y" by (simp add: unsigned_ucast_eq unsigned_take_bit_eq take_bit_nat_eq_self)
    have "unat y \<le> 1" if "i = 9"
    proof -
      have "unat y * 2 ^ 63 < 2 * 2 ^ 63" using "1.prems"(2) that by simp
      then show ?thesis by (simp only: mult_less_cancel2) simp
    qed
    then have "\<not> (i = 9 \<and> 1 < (ucast y :: byte))" using uy by (auto simp: word_less_nat_alt)
    moreover have "(ucast y :: byte) < 128" using y uy by (simp add: word_less_nat_alt)
    moreover have "ucast (ucast y :: byte) = y"
      using y by (simp add: word_unat_eq_iff unsigned_ucast_eq unsigned_take_bit_eq take_bit_nat_eq_self)
    ultimately show ?thesis using "1.prems"(1) True
      by (subst PutUvarint.simps) (simp add: uvarint_or_def)
  next
    case False
    then have y: "128 \<le> unat y" by (simp add: word_less_nat_alt)
    have i: "Suc i \<le> 9"
    proof (rule ccontr)
      assume "\<not> Suc i \<le> 9"
      then have "i = 9" using "1.prems"(1) by simp
      then have "unat y * 2 ^ 63 < 2 * 2 ^ 63" using "1.prems"(2) by simp
      then show False using y by (simp only: mult_less_cancel2) simp
    qed
    have "unat (drop_bit 7 y) * 2 ^ (7 * Suc i) = (unat y div 128 * 128) * 2 ^ (7 * i)"
      by (simp add: unat_drop_bit_div power_add)
    also have "\<dots> \<le> unat y * 2 ^ (7 * i)" by (intro mult_right_mono) simp_all
    finally have small: "unat (drop_bit 7 y) * 2 ^ (7 * Suc i) < 2 ^ 64" using "1.prems"(2) by linarith
    have b: "\<not> (ucast y OR 128 :: byte) < 128" by (rule high_bit) (simp add: bit_or_iff bit_128)
    define low :: Word where "low = ucast ((ucast y OR 128 :: byte) AND 127)"
    have low: "bit low k \<longleftrightarrow> bit y k \<and> k < 7" for k
      using bit_128 [of k] unfolding low_def bit_ucast_and_127 by (auto simp: bit_or_iff bit_ucast_iff)
    have bits: "uvarint_or i x low OR push_bit (7 * Suc i) (drop_bit 7 y) = x OR push_bit (7 * i) y"
    proof (rule bit_eqI)
      fix n
      have "7 + (n - (7 + 7 * i)) = n - 7 * i" if "7 + 7 * i \<le> n" using that by simp
      then show "bit (uvarint_or i x low OR push_bit (7 * Suc i) (drop_bit 7 y)) n \<longleftrightarrow> bit (x OR push_bit (7 * i) y) n"
        by (cases "7 + 7 * i \<le> n") (auto simp: uvarint_or_def bit_or_iff bit_push_bit_iff bit_drop_bit_eq low)
    qed
    have "uvarint_from i x (PutUvarint y @ r) =
        uvarint_from (Suc i) (uvarint_or i x low) (PutUvarint (drop_bit 7 y) @ r)"
      using False b "1.prems"(1) unfolding low_def by (subst PutUvarint.simps) simp
    also have "\<dots> = Inr (x OR push_bit (7 * i) y, r)"
      using "1.IH" [OF False i small] bits by simp
    finally show ?thesis .
  qed
qed

lemma reads_uvarint: "reads ReadUvarint (PutUvarint x) x"
  unfolding reads_def ReadUvarint_def using uvarint_from_Put [of 0 x 0] unat_u64_less [of x] by simp

section \<open>Bit lists\<close>

fun BitLen :: "nat \<Rightarrow> nat" where
  "BitLen n = (if n = 0 then 0 else Suc (BitLen (n div 2)))"

declare BitLen.simps [simp del]

lemma BitLen_le: "BitLen n \<le> k \<longleftrightarrow> n < 2 ^ k"
proof (induction n arbitrary: k rule: BitLen.induct)
  case (1 n)
  show ?case
  proof (cases k)
    case 0
    then show ?thesis by (subst BitLen.simps) simp
  next
    case (Suc j)
    then show ?thesis
      using "1.IH" [of j] by (subst BitLen.simps) (simp add: div_less_iff_less_mult mult.commute)
  qed
qed

text \<open>The number of bytes for a number of bits, rounded up without overflow.\<close>

definition bits_bytes :: "Word \<Rightarrow> Word" where
  "bits_bytes bitLength = (let bufLen = bitLength div 8 in if bitLength mod 8 \<noteq> 0 then bufLen + 1 else bufLen)"

definition decodeSpanBatchBits :: "Word \<Rightarrow> nat reader" where
  "decodeSpanBatchBits bitLength r =
     bind_res (take_full (unat (bits_bytes bitLength)) r) (\<lambda>(buf, r).
       let out = be_dec buf
       in if unat bitLength < BitLen out then Inl TooManyBits else Inr (out, r))"

definition encodeSpanBatchBits :: "Word \<Rightarrow> nat \<Rightarrow> span_error + byte list" where
  "encodeSpanBatchBits bitLength bits =
     (if unat bitLength < BitLen bits then Inl TooManyBits
      else Inr (be_enc (unat (bits_bytes bitLength)) bits))"

lemma unat_bits_bytes: "unat (bits_bytes n) = (unat n + 7) div 8"
proof -
  have d: "unat (n div 8) = unat n div 8" "unat (n mod 8) = unat n mod 8" by (simp_all add: unat_div_distrib unat_mod_distrib)
  have "unat n div 8 + 1 < 2 ^ 64" using unat_u64_less [of n] by simp
  then have s: "unat (n div 8 + 1) = unat n div 8 + 1" using d(1) by (simp add: unat_word_ariths)
  have "n mod 8 \<noteq> 0 \<longleftrightarrow> unat n mod 8 \<noteq> 0" using d(2) by (metis unat_eq_zero)
  moreover have "unat (bits_bytes n) = (if n mod 8 \<noteq> 0 then unat n div 8 + 1 else unat n div 8)"
    using d(1) s by (simp add: bits_bytes_def Let_def)
  moreover have "(if m mod 8 \<noteq> 0 then m div 8 + 1 else m div 8) = (m + 7) div 8" for m :: nat by presburger
  ultimately show ?thesis by simp
qed

lemma bits_fit: "(bits :: nat) < 2 ^ unat n \<Longrightarrow> bits < 256 ^ unat (bits_bytes n)"
proof -
  assume b: "(bits :: nat) < 2 ^ unat n"
  have "unat n \<le> 8 * unat (bits_bytes n)" unfolding unat_bits_bytes by linarith
  then have "(2 :: nat) ^ unat n \<le> 2 ^ (8 * unat (bits_bytes n))" by (simp add: power_increasing)
  also have "\<dots> = 256 ^ unat (bits_bytes n)" by (simp add: power_mult)
  finally show ?thesis using b by simp
qed

text \<open>A bit list is read back, and every bit list that is read is the one that is written.\<close>

lemma reads_bits: "encodeSpanBatchBits n bits = Inr bs \<Longrightarrow> reads (decodeSpanBatchBits n) bs bits"
  by (auto simp: encodeSpanBatchBits_def decodeSpanBatchBits_def reads_def take_full_def Let_def be_dec_enc not_less BitLen_le
      bits_fit split: if_splits)

lemma decode_bits_Inr:
  "decodeSpanBatchBits n r = Inr (bits, r') \<longleftrightarrow> bits < 2 ^ unat n \<and> r = be_enc (unat (bits_bytes n)) bits @ r'"
proof
  assume "decodeSpanBatchBits n r = Inr (bits, r')"
  then obtain buf where "length buf = unat (bits_bytes n)" "r = buf @ r'" "be_dec buf = bits" "\<not> unat n < BitLen bits"
    by (auto simp: decodeSpanBatchBits_def res_simps take_full_Inr Let_def split: if_splits)
  then show "bits < 2 ^ unat n \<and> r = be_enc (unat (bits_bytes n)) bits @ r'"
    using be_enc_dec [of buf] by (auto simp: not_less BitLen_le)
next
  assume "bits < 2 ^ unat n \<and> r = be_enc (unat (bits_bytes n)) bits @ r'"
  then show "decodeSpanBatchBits n r = Inr (bits, r')"
    using bits_fit [of bits n] by (simp add: decodeSpanBatchBits_def take_full_def Let_def be_dec_enc not_less BitLen_le)
qed

text \<open>\<open>SetBit\<close> and \<open>Bit\<close> of \<open>big.Int\<close>; a bit that is not 0 or 1 panics.\<close>

definition SetBit :: "nat \<Rightarrow> nat \<Rightarrow> Word \<Rightarrow> nat res" where
  "SetBit bits i b = (if b = 0 then Inr (unset_bit i bits) else if b = 1 then Inr (set_bit i bits) else Inl BadBit)"

definition Bit_of :: "nat \<Rightarrow> nat \<Rightarrow> Word" where
  "Bit_of bits i = (if bit bits i then 1 else 0)"

lemma SetBit_bit: "SetBit bits i (of_bool b) = Inr (if b then set_bit i bits else unset_bit i bits)"
  by (simp add: SetBit_def)

end
