(* ===== verification/Span_Txs.thy ===== *)
theory Span_Txs
  imports Span_Bits
begin

text \<open>
  The transactions of a span batch, column by column: \<open>op-node/rollup/derive/span_batch_tx.go\<close> and
  \<open>span_batch_txs.go\<close>.  A transaction of go-ethereum is a value of \<open>EthTx\<close>, with the fields the code sets and reads;
  its binary encoding, \<open>Protected\<close> and \<open>ChainId\<close>, and the RLP encoding of the reduced transactions and of singular batches are
  parameters, in the record \<open>tx_lib\<close>.  Amounts are naturals: RLP has no negative numbers.  The bit lists of a value are always set, as they
  are by the constructor and by \<open>decode\<close>; so are the \<open>nil\<close> checks on them true.
\<close>

section \<open>Transactions\<close>

type_synonym AccessList = "(Addr \<times> H256 list) list"

record LegacyTx =
  LgNonce :: Word
  LgGasPrice :: nat
  LgGas :: Word
  LgTo :: "Addr option"
  LgValue :: nat
  LgData :: "byte list"
  LgV :: nat
  LgR :: nat
  LgS :: nat

record AccessListTx =
  AlChainID :: nat
  AlNonce :: Word
  AlGasPrice :: nat
  AlGas :: Word
  AlTo :: "Addr option"
  AlValue :: nat
  AlData :: "byte list"
  AlAccessList :: AccessList
  AlV :: nat
  AlR :: nat
  AlS :: nat

record DynamicFeeTx =
  DfChainID :: nat
  DfNonce :: Word
  DfGasTipCap :: nat
  DfGasFeeCap :: nat
  DfGas :: Word
  DfTo :: "Addr option"
  DfValue :: nat
  DfData :: "byte list"
  DfAccessList :: AccessList
  DfV :: nat
  DfR :: nat
  DfS :: nat

text \<open>Any other type, with what the code reads before it gives up.\<close>

record OtherTx =
  OtType :: byte
  OtTo :: "Addr option"
  OtV :: nat
  OtR :: nat
  OtS :: nat

datatype EthTx = Legacy LegacyTx | AccessListTyped AccessListTx | DynamicFee DynamicFeeTx | OtherTyped OtherTx

definition LegacyTxType :: byte where [simp]: "LegacyTxType = 0"
definition AccessListTxType :: byte where [simp]: "AccessListTxType = 1"
definition DynamicFeeTxType :: byte where [simp]: "DynamicFeeTxType = 2"

fun eth_type :: "EthTx \<Rightarrow> byte" where
  "eth_type (Legacy t) = LegacyTxType"
| "eth_type (AccessListTyped t) = AccessListTxType"
| "eth_type (DynamicFee t) = DynamicFeeTxType"
| "eth_type (OtherTyped t) = OtType t"

fun eth_to :: "EthTx \<Rightarrow> Addr option" where
  "eth_to (Legacy t) = LgTo t"
| "eth_to (AccessListTyped t) = AlTo t"
| "eth_to (DynamicFee t) = DfTo t"
| "eth_to (OtherTyped t) = OtTo t"

text \<open>\<open>RawSignatureValues\<close>.\<close>

fun eth_sig :: "EthTx \<Rightarrow> nat \<times> nat \<times> nat" where
  "eth_sig (Legacy t) = (LgV t, LgR t, LgS t)"
| "eth_sig (AccessListTyped t) = (AlV t, AlR t, AlS t)"
| "eth_sig (DynamicFee t) = (DfV t, DfR t, DfS t)"
| "eth_sig (OtherTyped t) = (OtV t, OtR t, OtS t)"

text \<open>Read only for the three types.\<close>

fun eth_nonce_gas :: "EthTx \<Rightarrow> Word \<times> Word" where
  "eth_nonce_gas (Legacy t) = (LgNonce t, LgGas t)"
| "eth_nonce_gas (AccessListTyped t) = (AlNonce t, AlGas t)"
| "eth_nonce_gas (DynamicFee t) = (DfNonce t, DfGas t)"
| "eth_nonce_gas (OtherTyped t) = (0, 0)"

section \<open>Reduced transactions\<close>

record spanBatchLegacyTxData =
  SlValue :: nat
  SlGasPrice :: nat
  SlData :: "byte list"

record spanBatchAccessListTxData =
  SaValue :: nat
  SaGasPrice :: nat
  SaData :: "byte list"
  SaAccessList :: AccessList

record spanBatchDynamicFeeTxData =
  SdValue :: nat
  SdGasTipCap :: nat
  SdGasFeeCap :: nat
  SdData :: "byte list"
  SdAccessList :: AccessList

datatype spanBatchTx =
    LegacyData spanBatchLegacyTxData
  | AccessListData spanBatchAccessListTxData
  | DynamicFeeData spanBatchDynamicFeeTxData

text \<open>\<open>Kind\<close> and \<open>Raw\<close> of an RLP stream over the bytes left: for a list, its encoding and the rest, or an error.\<close>

datatype rlp_kind = KindTooLarge | KindError | KindList "(byte list \<times> byte list) option" | KindOther

record tx_lib =
  TxUnmarshal :: "byte list \<Rightarrow> EthTx option"
  TxMarshal :: "EthTx \<Rightarrow> byte list option"
  TxProtected :: "EthTx \<Rightarrow> bool"
  TxChainId :: "EthTx \<Rightarrow> nat"
  RlpEncode :: "spanBatchTx \<Rightarrow> byte list option"
  RlpDecodeLegacy :: "byte list \<Rightarrow> spanBatchLegacyTxData option"
  RlpDecodeAccessList :: "byte list \<Rightarrow> spanBatchAccessListTxData option"
  RlpDecodeDynamicFee :: "byte list \<Rightarrow> spanBatchDynamicFeeTxData option"
  RlpKind :: "byte list \<Rightarrow> rlp_kind"
  RlpEncodeSingular :: "SingularBatch \<Rightarrow> byte list option"
  RlpDecodeSingular :: "byte list \<Rightarrow> SingularBatch option"

fun txType :: "spanBatchTx \<Rightarrow> byte" where
  "txType (LegacyData t) = LegacyTxType"
| "txType (AccessListData t) = AccessListTxType"
| "txType (DynamicFeeData t) = DynamicFeeTxType"

definition spanTx_MarshalBinary :: "tx_lib \<Rightarrow> spanBatchTx \<Rightarrow> byte list option" where
  "spanTx_MarshalBinary lib tx =
     (if txType tx = LegacyTxType then RlpEncode lib tx else map_option (\<lambda>bs. txType tx # bs) (RlpEncode lib tx))"

definition decodeTyped :: "tx_lib \<Rightarrow> byte list \<Rightarrow> span_error + spanBatchTx" where
  "decodeTyped lib b =
     (if length b \<le> 1 then Inl TypedTxTooShort
      else if b ! 0 = AccessListTxType then need BadRLP (map_option AccessListData (RlpDecodeAccessList lib (drop 1 b)))
      else if b ! 0 = DynamicFeeTxType then need BadRLP (map_option DynamicFeeData (RlpDecodeDynamicFee lib (drop 1 b)))
      else Inl TxTypeNotSupported)"

definition spanTx_UnmarshalBinary :: "tx_lib \<Rightarrow> byte list \<Rightarrow> span_error + spanBatchTx" where
  "spanTx_UnmarshalBinary lib b =
     (if 0 < length b \<and> 0x7f < b ! 0 then need BadRLP (map_option LegacyData (RlpDecodeLegacy lib b)) else decodeTyped lib b)"

fun convertToFullTx :: "Word \<Rightarrow> Word \<Rightarrow> Addr option \<Rightarrow> nat \<Rightarrow> nat \<Rightarrow> nat \<Rightarrow> nat \<Rightarrow> spanBatchTx \<Rightarrow> EthTx" where
  "convertToFullTx nonce gas to chainID V R S (LegacyData t) = Legacy
     \<lparr>LgNonce = nonce, LgGasPrice = SlGasPrice t, LgGas = gas, LgTo = to, LgValue = SlValue t, LgData = SlData t, LgV = V, LgR = R, LgS = S\<rparr>"
| "convertToFullTx nonce gas to chainID V R S (AccessListData t) = AccessListTyped
     \<lparr>AlChainID = chainID, AlNonce = nonce, AlGasPrice = SaGasPrice t, AlGas = gas, AlTo = to, AlValue = SaValue t, AlData = SaData t,
      AlAccessList = SaAccessList t, AlV = V, AlR = R, AlS = S\<rparr>"
| "convertToFullTx nonce gas to chainID V R S (DynamicFeeData t) = DynamicFee
     \<lparr>DfChainID = chainID, DfNonce = nonce, DfGasTipCap = SdGasTipCap t, DfGasFeeCap = SdGasFeeCap t, DfGas = gas, DfTo = to,
      DfValue = SdValue t, DfData = SdData t, DfAccessList = SdAccessList t, DfV = V, DfR = R, DfS = S\<rparr>"

fun newSpanBatchTx :: "EthTx \<Rightarrow> span_error + spanBatchTx" where
  "newSpanBatchTx (Legacy t) = Inr (LegacyData \<lparr>SlValue = LgValue t, SlGasPrice = LgGasPrice t, SlData = LgData t\<rparr>)"
| "newSpanBatchTx (AccessListTyped t) =
     Inr (AccessListData \<lparr>SaValue = AlValue t, SaGasPrice = AlGasPrice t, SaData = AlData t, SaAccessList = AlAccessList t\<rparr>)"
| "newSpanBatchTx (DynamicFee t) =
     Inr (DynamicFeeData \<lparr>SdValue = DfValue t, SdGasTipCap = DfGasTipCap t, SdGasFeeCap = DfGasFeeCap t, SdData = DfData t,
       SdAccessList = DfAccessList t\<rparr>)"
| "newSpanBatchTx (OtherTyped t) = Inl InvalidTxType"

section \<open>The columns\<close>

definition MaxSpanBatchElementCount :: nat where "MaxSpanBatchElementCount = 10000000"

record spanBatchSignature =
  SigV :: Word
  SigR :: H256
  SigS :: H256

record spanBatchTxs =
  totalBlockTxCount :: Word
  contractCreationBits :: nat
  yParityBits :: nat
  txSigs :: "spanBatchSignature list"
  txNonces :: "Word list"
  txGases :: "Word list"
  txTos :: "Addr list"
  txDatas :: "byte list list"
  protectedBits :: nat
  txTypes :: "byte list"
  totalLegacyTxCount :: Word

subsection \<open>Encoding\<close>

definition encodeTxSigsRS :: "spanBatchTxs \<Rightarrow> byte list" where
  "encodeTxSigsRS btx = concat (map (\<lambda>sig. be_word 32 (SigR sig) @ be_word 32 (SigS sig)) (txSigs btx))"

definition encodeTxNonces :: "spanBatchTxs \<Rightarrow> byte list" where
  "encodeTxNonces btx = concat (map PutUvarint (txNonces btx))"

definition encodeTxGases :: "spanBatchTxs \<Rightarrow> byte list" where
  "encodeTxGases btx = concat (map PutUvarint (txGases btx))"

definition encodeTxTos :: "spanBatchTxs \<Rightarrow> byte list" where
  "encodeTxTos btx = concat (map (be_word 20) (txTos btx))"

definition encodeTxDatas :: "spanBatchTxs \<Rightarrow> byte list" where
  "encodeTxDatas btx = concat (txDatas btx)"

definition encode_txs :: "spanBatchTxs \<Rightarrow> span_error + byte list" where
  "encode_txs btx =
     bind_res (encodeSpanBatchBits (totalBlockTxCount btx) (contractCreationBits btx)) (\<lambda>creation.
     bind_res (encodeSpanBatchBits (totalBlockTxCount btx) (yParityBits btx)) (\<lambda>parity.
     bind_res (encodeSpanBatchBits (totalLegacyTxCount btx) (protectedBits btx)) (\<lambda>protected.
       Inr (creation @ parity @ encodeTxSigsRS btx @ encodeTxTos btx @ encodeTxDatas btx @ encodeTxNonces btx @ encodeTxGases btx @ protected))))"

subsection \<open>Decoding\<close>

definition ReadTxData :: "tx_lib \<Rightarrow> (byte list \<times> byte) reader" where
  "ReadTxData lib r =
     (case r of
        [] \<Rightarrow> Inl ShortRead
      | b # rest \<Rightarrow>
          let typed = b \<le> 0x7f;
              typ = (if typed then b else 0);
              start = (if typed then [b] else [])
          in case RlpKind lib (if typed then rest else r) of
               KindTooLarge \<Rightarrow> Inl TooBigSpanBatchSize
             | KindError \<Rightarrow> Inl BadRLP
             | KindOther \<Rightarrow> Inl BadRLP
             | KindList None \<Rightarrow> Inl BadRLP
             | KindList (Some (txPayload, r)) \<Rightarrow> Inr ((start @ txPayload, typ), r))"

definition read_sig :: "spanBatchSignature reader" where
  "read_sig r =
     bind_res (take_full 32 r) (\<lambda>(rBuf, r). bind_res (take_full 32 r) (\<lambda>(sBuf, r).
       Inr (\<lparr>SigV = 0, SigR = word_be rBuf, SigS = word_be sBuf\<rparr>, r)))"

definition read_address :: "Addr reader" where
  "read_address r = bind_res (take_full 20 r) (\<lambda>(buf, r). Inr (word_be buf, r))"

definition contractCreationCount :: "Word \<Rightarrow> nat \<Rightarrow> nat" where
  "contractCreationCount n bits = length (filter (bit bits) [0..<unat n])"

definition decode_txs :: "tx_lib \<Rightarrow> Word \<Rightarrow> spanBatchTxs reader" where
  "decode_txs lib n r =
     (if MaxSpanBatchElementCount < unat n then Inl TooBigSpanBatchSize
      else
        bind_res (decodeSpanBatchBits n r) (\<lambda>(creation, r).
        bind_res (decodeSpanBatchBits n r) (\<lambda>(parity, r).
        bind_res (read_times (unat n) read_sig r) (\<lambda>(sigs, r).
        bind_res (read_times (unat n - contractCreationCount n creation) read_address r) (\<lambda>(tos, r).
        bind_res (read_times (unat n) (ReadTxData lib) r) (\<lambda>(datas, r).
        bind_res (read_times (unat n) ReadUvarint r) (\<lambda>(nonces, r).
        bind_res (read_times (unat n) ReadUvarint r) (\<lambda>(gases, r).
          let legacy = of_nat (length (filter (\<lambda>d. snd d = LegacyTxType) datas))
          in if MaxSpanBatchElementCount < unat legacy then Inl TooBigSpanBatchSize
             else
               bind_res (decodeSpanBatchBits legacy r) (\<lambda>(protected, r).
                 Inr (\<lparr>totalBlockTxCount = n, contractCreationBits = creation, yParityBits = parity, txSigs = sigs, txNonces = nonces,
                   txGases = gases, txTos = tos, txDatas = map fst datas, protectedBits = protected, txTypes = map snd datas,
                   totalLegacyTxCount = legacy\<rparr>, r))))))))))"

subsection \<open>The signature's first value\<close>

text \<open>The loop of \<open>recoverV\<close>, from transaction \<open>idx\<close> and legacy transaction \<open>pidx\<close> on.\<close>

fun recover_from :: "nat \<Rightarrow> nat \<Rightarrow> nat \<Rightarrow> nat \<Rightarrow> nat \<Rightarrow> byte list \<Rightarrow> span_error + Word list" where
  "recover_from chainID parity protected idx pidx [] = Inr []"
| "recover_from chainID parity protected idx pidx (t # ts) =
     (let yBit = Bit_of parity idx
      in if t = LegacyTxType then
           bind_res (recover_from chainID parity protected (Suc idx) (Suc pidx) ts) (\<lambda>vs.
             Inr ((if Bit_of protected pidx = 0 then 27 + yBit else of_nat chainID * 2 + 35 + yBit) # vs))
         else if t = AccessListTxType \<or> t = DynamicFeeTxType then
           bind_res (recover_from chainID parity protected (Suc idx) pidx ts) (\<lambda>vs. Inr (yBit # vs))
         else Inl InvalidTxType)"

definition recoverV :: "nat \<Rightarrow> spanBatchTxs \<Rightarrow> span_error + spanBatchTxs" where
  "recoverV chainID btx =
     (if length (txTypes btx) \<noteq> length (txSigs btx) then Inl SigCountMismatch
      else
        bind_res (recover_from chainID (yParityBits btx) (protectedBits btx) 0 0 (txTypes btx)) (\<lambda>vs.
          Inr (btx\<lparr>txSigs := map2 (\<lambda>sig v. sig\<lparr>SigV := v\<rparr>) (txSigs btx) vs\<rparr>)))"

definition isProtectedV :: "Word \<Rightarrow> byte \<Rightarrow> bool" where
  "isProtectedV v typ \<longleftrightarrow> (if typ = LegacyTxType then v \<noteq> 27 \<and> v \<noteq> 28 else True)"

definition convertVToYParity :: "Word \<Rightarrow> byte \<Rightarrow> span_error + Word" where
  "convertVToYParity v typ =
     (if typ = LegacyTxType then Inr (if isProtectedV v typ then (v - 35) AND 1 else v - 27)
      else if typ = AccessListTxType \<or> typ = DynamicFeeTxType then Inr v
      else Inl InvalidTxType)"

subsection \<open>The full transactions\<close>

definition at_index :: "'a list \<Rightarrow> nat \<Rightarrow> 'a res" where
  "at_index xs i = (if i < length xs then Inr (xs ! i) else Inl IndexOutOfRange)"

fun full_txs_from :: "tx_lib \<Rightarrow> nat \<Rightarrow> spanBatchTxs \<Rightarrow> nat \<Rightarrow> nat list \<Rightarrow> (span_error + byte list list) res" where
  "full_txs_from lib chainID btx toIdx [] = Inr (Inr [])"
| "full_txs_from lib chainID btx toIdx (idx # rest) =
     bind_res (at_index (txDatas btx) idx) (\<lambda>dat.
     bind_err (Inr (spanTx_UnmarshalBinary lib dat)) (\<lambda>stx.
     bind_res (at_index (txNonces btx) idx) (\<lambda>nonce.
     bind_res (at_index (txGases btx) idx) (\<lambda>gas.
     bind_err
       (Inr (if Bit_of (contractCreationBits btx) idx = 0 then
               if length (txTos btx) \<le> toIdx then Inl NotEnoughTo else Inr (Some (txTos btx ! toIdx), Suc toIdx)
             else Inr (None, toIdx))) (\<lambda>(to, toIdx).
     bind_res (at_index (txSigs btx) idx) (\<lambda>sig.
     bind_err
       (Inr (need MarshalFailed
          (TxMarshal lib (convertToFullTx nonce gas to chainID (unat (SigV sig)) (unat (SigR sig)) (unat (SigS sig)) stx)))) (\<lambda>encodedTx.
     bind_err (full_txs_from lib chainID btx toIdx rest) (\<lambda>txs. Inr (Inr (encodedTx # txs))))))))))"

definition fullTxs :: "tx_lib \<Rightarrow> nat \<Rightarrow> spanBatchTxs \<Rightarrow> (span_error + byte list list) res" where
  "fullTxs lib chainID btx = full_txs_from lib chainID btx 0 [0..<unat (totalBlockTxCount btx)]"

subsection \<open>Adding transactions\<close>

definition empty_txs :: spanBatchTxs where
  "empty_txs = \<lparr>totalBlockTxCount = 0, contractCreationBits = 0, yParityBits = 0, txSigs = [], txNonces = [], txGases = [], txTos = [],
     txDatas = [], protectedBits = 0, txTypes = [], totalLegacyTxCount = 0\<rparr>"

text \<open>One pass of the loop of \<open>AddTxs\<close>: the error, if any, and the columns as they are then.\<close>

definition add_protected :: "tx_lib \<Rightarrow> EthTx \<Rightarrow> spanBatchTxs \<Rightarrow> spanBatchTxs res" where
  "add_protected lib tx sbtx =
     (if eth_type tx = LegacyTxType then
        bind_res (SetBit (protectedBits sbtx) (unat (totalLegacyTxCount sbtx)) (if TxProtected lib tx then 1 else 0)) (\<lambda>bits.
          Inr (sbtx\<lparr>protectedBits := bits, totalLegacyTxCount := totalLegacyTxCount sbtx + 1\<rparr>))
      else Inr sbtx)"

definition add_signature :: "EthTx \<Rightarrow> nat \<Rightarrow> spanBatchTxs \<Rightarrow> spanBatchTxs res" where
  "add_signature tx i sbtx =
     (case eth_sig tx of (v, r, s) \<Rightarrow>
        let sbtx = sbtx\<lparr>txSigs := txSigs sbtx @ [\<lparr>SigV = of_nat v, SigR = of_nat r, SigS = of_nat s\<rparr>]\<rparr>;
            (contractCreationBit, sbtx) =
              (case eth_to tx of None \<Rightarrow> (1, sbtx) | Some to \<Rightarrow> (0, sbtx\<lparr>txTos := txTos sbtx @ [to]\<rparr>))
        in bind_res (SetBit (contractCreationBits sbtx) i contractCreationBit) (\<lambda>bits. Inr (sbtx\<lparr>contractCreationBits := bits\<rparr>)))"

definition add_data :: "tx_lib \<Rightarrow> EthTx \<Rightarrow> spanBatchTxs \<Rightarrow> (span_error option \<times> spanBatchTxs)" where
  "add_data lib tx sbtx =
     (case eth_nonce_gas tx of (nonce, gas) \<Rightarrow>
        let sbtx = sbtx\<lparr>txNonces := txNonces sbtx @ [nonce], txGases := txGases sbtx @ [gas]\<rparr>
        in case newSpanBatchTx tx of
             Inl err \<Rightarrow> (Some err, sbtx)
           | Inr stx \<Rightarrow>
               (case spanTx_MarshalBinary lib stx of
                  None \<Rightarrow> (Some MarshalFailed, sbtx)
                | Some txData \<Rightarrow> (None, sbtx\<lparr>txDatas := txDatas sbtx @ [txData], txTypes := txTypes sbtx @ [eth_type tx]\<rparr>)))"

definition add_tx :: "tx_lib \<Rightarrow> nat \<Rightarrow> byte list \<Rightarrow> nat \<Rightarrow> spanBatchTxs \<Rightarrow> (span_error option \<times> spanBatchTxs) res" where
  "add_tx lib chainID bs i sbtx =
     (case TxUnmarshal lib bs of
        None \<Rightarrow> Inr (Some UndecodableTx, sbtx)
      | Some tx \<Rightarrow>
          bind_res (add_protected lib tx sbtx) (\<lambda>sbtx.
          if TxProtected lib tx \<and> TxChainId lib tx \<noteq> chainID then Inr (Some WrongChainID, sbtx)
          else
            bind_res (add_signature tx i sbtx) (\<lambda>sbtx.
              case convertVToYParity (of_nat (fst (eth_sig tx))) (eth_type tx) of
                Inl err \<Rightarrow> Inr (Some err, sbtx)
              | Inr yParityBit \<Rightarrow>
                  bind_res (SetBit (yParityBits sbtx) i yParityBit) (\<lambda>bits.
                    Inr (add_data lib tx (sbtx\<lparr>yParityBits := bits\<rparr>))))))"

fun add_txs_from :: "tx_lib \<Rightarrow> nat \<Rightarrow> nat \<Rightarrow> byte list list \<Rightarrow> spanBatchTxs \<Rightarrow> (span_error option \<times> spanBatchTxs) res" where
  "add_txs_from lib chainID i [] sbtx = Inr (None, sbtx)"
| "add_txs_from lib chainID i (bs # rest) sbtx =
     bind_res (add_tx lib chainID bs i sbtx) (\<lambda>(err, sbtx).
       case err of Some e \<Rightarrow> Inr (Some e, sbtx) | None \<Rightarrow> add_txs_from lib chainID (Suc i) rest sbtx)"

definition AddTxs :: "tx_lib \<Rightarrow> nat \<Rightarrow> byte list list \<Rightarrow> spanBatchTxs \<Rightarrow> (span_error option \<times> spanBatchTxs) res" where
  "AddTxs lib chainID txs sbtx =
     bind_res (add_txs_from lib chainID (unat (totalBlockTxCount sbtx)) txs sbtx) (\<lambda>(err, sbtx).
       Inr (case err of
              Some e \<Rightarrow> (Some e, sbtx)
            | None \<Rightarrow> (None, sbtx\<lparr>totalBlockTxCount := totalBlockTxCount sbtx + of_nat (length txs)\<rparr>)))"

end
