(* ===== verification/Span_Columns.thy ===== *)
theory Span_Columns
  imports Span_Txs
begin

text \<open>
  The columns of a span batch lose nothing: adding transactions gives the columns of the list of transactions, their
  encoding is read back, and from the columns read the same binary transactions come out.  What is asked of
  go-ethereum is \<open>batchable\<close>, transaction by transaction.
\<close>

section \<open>Bit lists of booleans\<close>

fun bits_of :: "bool list \<Rightarrow> nat" where
  "bits_of [] = 0"
| "bits_of (b # bs) = of_bool b + 2 * bits_of bs"

lemma bit_double: "bit (of_bool b + 2 * n :: nat) i \<longleftrightarrow> (if i = 0 then b else bit n (i - 1))"
  by (cases i) (auto simp: bit_0 bit_Suc)

lemma bit_bits_of: "bit (bits_of bs) i \<longleftrightarrow> i < length bs \<and> bs ! i"
proof (induction bs arbitrary: i)
  case (Cons b bs)
  then show ?case by (cases i) (simp_all add: bit_double)
qed simp

lemma bits_of_bound: "bits_of bs < 2 ^ length bs"
  by (induction bs) auto

lemma Bit_of_bits [simp]: "i < length bs \<Longrightarrow> Bit_of (bits_of bs) i = of_bool (bs ! i)"
  by (simp add: Bit_of_def bit_bits_of)

lemma Bit_of_map: "Bit_of (bits_of (map f (pre @ x # rest))) (length pre) = of_bool (f x)"
  by (simp add: Bit_of_def bit_bits_of nth_append)

lemma SetBit_snoc: "SetBit (bits_of bs) (length bs) (of_bool b) = Inr (bits_of (bs @ [b]))"
proof -
  have "bit (if b then set_bit (length bs) (bits_of bs) else unset_bit (length bs) (bits_of bs)) i \<longleftrightarrow> bit (bits_of (bs @ [b])) i" for i
    by (cases b) (auto simp: bit_bits_of bit_set_bit_iff bit_unset_bit_iff nth_append less_Suc_eq)
  then have "(if b then set_bit (length bs) (bits_of bs) else unset_bit (length bs) (bits_of bs)) = bits_of (bs @ [b])"
    by (rule bit_eqI)
  then show ?thesis by (simp add: SetBit_bit)
qed

lemma encode_bits_of: "length bs \<le> unat n \<Longrightarrow> \<exists>enc. encodeSpanBatchBits n (bits_of bs) = Inr enc"
proof -
  assume n: "length bs \<le> unat n"
  have "(2 :: nat) ^ length bs \<le> 2 ^ unat n" using n by (simp add: power_increasing)
  then have "bits_of bs < 2 ^ unat n" using bits_of_bound [of bs] by linarith
  then show ?thesis by (simp add: encodeSpanBatchBits_def not_less BitLen_le)
qed

section \<open>The columns of a list of transactions\<close>

definition eth_parity :: "EthTx \<Rightarrow> bool" where
  "eth_parity tx = (case convertVToYParity (of_nat (fst (eth_sig tx))) (eth_type tx) of Inr b \<Rightarrow> b = 1 | Inl e \<Rightarrow> False)"

definition eth_data :: "tx_lib \<Rightarrow> EthTx \<Rightarrow> byte list" where
  "eth_data lib tx = (case newSpanBatchTx tx of Inr stx \<Rightarrow> (case spanTx_MarshalBinary lib stx of Some bs \<Rightarrow> bs | None \<Rightarrow> []) | Inl e \<Rightarrow> [])"

definition eth_signature :: "EthTx \<Rightarrow> spanBatchSignature" where
  "eth_signature tx = (case eth_sig tx of (v, r, s) \<Rightarrow> \<lparr>SigV = of_nat v, SigR = of_nat r, SigS = of_nat s\<rparr>)"

abbreviation legacies :: "EthTx list \<Rightarrow> EthTx list" where
  "legacies txs \<equiv> filter (\<lambda>tx. eth_type tx = LegacyTxType) txs"

definition tos_of :: "EthTx list \<Rightarrow> Addr list" where
  "tos_of txs = concat (map (\<lambda>tx. case eth_to tx of None \<Rightarrow> [] | Some to \<Rightarrow> [to]) txs)"

definition columns :: "tx_lib \<Rightarrow> EthTx list \<Rightarrow> spanBatchTxs" where
  "columns lib txs = \<lparr>totalBlockTxCount = of_nat (length txs), contractCreationBits = bits_of (map (\<lambda>tx. eth_to tx = None) txs),
     yParityBits = bits_of (map eth_parity txs), txSigs = map eth_signature txs, txNonces = map (fst \<circ> eth_nonce_gas) txs,
     txGases = map (snd \<circ> eth_nonce_gas) txs, txTos = tos_of txs, txDatas = map (eth_data lib) txs,
     protectedBits = bits_of (map (TxProtected lib) (legacies txs)), txTypes = map eth_type txs,
     totalLegacyTxCount = of_nat (length (legacies txs))\<rparr>"

section \<open>What is asked of go-ethereum\<close>

text \<open>The signature values of a valid transaction, and its chain id.\<close>

definition signature_ok :: "tx_lib \<Rightarrow> nat \<Rightarrow> EthTx \<Rightarrow> bool" where
  "signature_ok lib chainID tx \<longleftrightarrow>
     fst (snd (eth_sig tx)) < 2 ^ 256 \<and> snd (snd (eth_sig tx)) < 2 ^ 256 \<and>
     (TxProtected lib tx \<longrightarrow> TxChainId lib tx = chainID) \<and>
     (case tx of
        Legacy t \<Rightarrow> if TxProtected lib tx then LgV t \<in> {2 * chainID + 35, 2 * chainID + 36} \<and> 2 * chainID + 36 < 2 ^ 64
                    else LgV t \<in> {27, 28}
      | AccessListTyped t \<Rightarrow> AlV t \<in> {0, 1} \<and> AlChainID t = chainID
      | DynamicFee t \<Rightarrow> DfV t \<in> {0, 1} \<and> DfChainID t = chainID
      | OtherTyped t \<Rightarrow> False)"

text \<open>The RLP encoding of a reduced transaction is a list, which a stream finds at the front of its input and which decodes
  to the same value.\<close>

definition rlp_ok :: "tx_lib \<Rightarrow> spanBatchTx \<Rightarrow> bool" where
  "rlp_ok lib stx \<longleftrightarrow>
     (\<exists>b bs. RlpEncode lib stx = Some (b # bs) \<and> 0x7f < b \<and>
        (\<forall>r. RlpKind lib ((b # bs) @ r) = KindList (Some (b # bs, r))) \<and>
        (case stx of
           LegacyData t \<Rightarrow> RlpDecodeLegacy lib (b # bs) = Some t
         | AccessListData t \<Rightarrow> RlpDecodeAccessList lib (b # bs) = Some t
         | DynamicFeeData t \<Rightarrow> RlpDecodeDynamicFee lib (b # bs) = Some t))"

text \<open>Binary transactions decode and encode back, as consensus encodings do.\<close>

definition batchable :: "tx_lib \<Rightarrow> nat \<Rightarrow> byte list \<Rightarrow> EthTx \<Rightarrow> bool" where
  "batchable lib chainID bs tx \<longleftrightarrow> TxUnmarshal lib bs = Some tx \<and> TxMarshal lib tx = Some bs \<and> signature_ok lib chainID tx \<and>
     (case newSpanBatchTx tx of Inr stx \<Rightarrow> rlp_ok lib stx | Inl e \<Rightarrow> False)"

section \<open>Adding transactions\<close>

lemma protected_v:
  assumes "signature_ok lib chainID (Legacy t)" "TxProtected lib (Legacy t)"
  obtains k :: nat where "LgV t = 2 * chainID + 35 + k" "k \<le> 1" "(of_nat (LgV t) :: Word) \<noteq> 27" "(of_nat (LgV t) :: Word) \<noteq> 28"
    "((of_nat (LgV t) :: Word) - 35) AND 1 = of_nat k"
proof -
  obtain k :: nat where k: "LgV t = 2 * chainID + 35 + k" "k \<le> 1" "2 * chainID + 36 < 2 ^ 64"
    using assms by (auto simp: signature_ok_def)
  have u: "unat (of_nat (LgV t) :: Word) = LgV t" using k by (simp only: unat_of_nat) simp
  have ne: "(of_nat (LgV t) :: Word) \<noteq> 27" "(of_nat (LgV t) :: Word) \<noteq> 28"
    using u k by (auto simp: word_unat_eq_iff)
  have "(of_nat (LgV t) :: Word) - 35 = 2 * of_nat chainID + of_nat k" using k(1) by simp
  moreover have "(2 * of_nat chainID + of_nat k :: Word) AND 1 = of_nat k"
    using k(2) by (cases k) (simp_all add: and_one_eq mod2_eq_if)
  ultimately show thesis using that k(1,2) ne by simp
qed

lemma eth_parity_conv:
  assumes "signature_ok lib chainID tx"
  shows "convertVToYParity (of_nat (fst (eth_sig tx))) (eth_type tx) = Inr (of_bool (eth_parity tx))"
proof (cases tx)
  case (Legacy t)
  show ?thesis
  proof (cases "TxProtected lib tx")
    case True
    obtain k :: nat where "k \<le> 1" "(of_nat (LgV t) :: Word) \<noteq> 27" "(of_nat (LgV t) :: Word) \<noteq> 28"
      "((of_nat (LgV t) :: Word) - 35) AND 1 = of_nat k"
      using protected_v [of lib chainID t] assms True Legacy by blast
    then show ?thesis using Legacy by (cases k) (auto simp: eth_parity_def convertVToYParity_def isProtectedV_def)
  next
    case False
    then have "LgV t = 27 \<or> LgV t = 28" using assms Legacy by (auto simp: signature_ok_def)
    then show ?thesis using Legacy by (auto simp: eth_parity_def convertVToYParity_def isProtectedV_def)
  qed
qed (use assms in \<open>auto simp: signature_ok_def eth_parity_def convertVToYParity_def\<close>)

lemma batchable_data:
  assumes "batchable lib chainID bs tx"
  obtains stx where "newSpanBatchTx tx = Inr stx" "rlp_ok lib stx" "spanTx_MarshalBinary lib stx = Some (eth_data lib tx)" "txType stx = eth_type tx"
proof -
  obtain stx where stx: "newSpanBatchTx tx = Inr stx" "rlp_ok lib stx"
    using assms by (auto simp: batchable_def split: sum.splits)
  then obtain bs where "RlpEncode lib stx = Some bs" by (auto simp: rlp_ok_def)
  then have "\<exists>enc. spanTx_MarshalBinary lib stx = Some enc" by (simp add: spanTx_MarshalBinary_def)
  then obtain enc where "spanTx_MarshalBinary lib stx = Some enc" by blast
  moreover have "txType stx = eth_type tx" using stx(1) by (cases tx) auto
  ultimately show thesis using that stx by (simp add: eth_data_def)
qed

lemma AddTx_columns:
  assumes b: "batchable lib chainID bs tx" and small: "length txs < 2 ^ 64"
  shows "add_tx lib chainID bs (length txs) ((columns lib txs)\<lparr>totalBlockTxCount := n\<rparr>) =
    Inr (None, (columns lib (txs @ [tx]))\<lparr>totalBlockTxCount := n\<rparr>)"
proof -
  obtain stx where stx: "newSpanBatchTx tx = Inr stx" "spanTx_MarshalBinary lib stx = Some (eth_data lib tx)"
    using b by (rule batchable_data)
  have sig: "signature_ok lib chainID tx" "TxUnmarshal lib bs = Some tx" "TxProtected lib tx \<longrightarrow> TxChainId lib tx = chainID"
    using b by (simp_all add: batchable_def signature_ok_def)
  have leg: "length (legacies txs) < 2 ^ 64" using small length_filter_le [of "\<lambda>tx. eth_type tx = LegacyTxType" txs] by linarith
  then have uleg: "unat (of_nat (length (legacies txs)) :: Word) = length (legacies txs)" by (simp add: unat_of_nat)
  let ?c = "(columns lib txs)\<lparr>totalBlockTxCount := n\<rparr>"
  let ?c1 = "?c\<lparr>protectedBits := bits_of (map (TxProtected lib) (legacies (txs @ [tx]))),
      totalLegacyTxCount := of_nat (length (legacies (txs @ [tx])))\<rparr>"
  have p: "add_protected lib tx ?c = Inr ?c1"
    using SetBit_snoc [of "map (TxProtected lib) (legacies txs)" "TxProtected lib tx"] uleg
    by (simp add: add_protected_def columns_def of_bool_def add.commute)
  let ?c2 = "?c1\<lparr>txSigs := map eth_signature (txs @ [tx]), txTos := tos_of (txs @ [tx]),
      contractCreationBits := bits_of (map (\<lambda>tx. eth_to tx = None) (txs @ [tx]))\<rparr>"
  have s: "add_signature tx (length txs) ?c1 = Inr ?c2"
    using SetBit_snoc [of "map (\<lambda>tx. eth_to tx = None) txs" "eth_to tx = None"]
    by (cases "eth_sig tx"; cases "eth_to tx") (simp_all add: add_signature_def columns_def eth_signature_def tos_of_def Let_def)
  have y: "SetBit (yParityBits ?c2) (length txs) (of_bool (eth_parity tx)) = Inr (bits_of (map eth_parity (txs @ [tx])))"
    using SetBit_snoc [of "map eth_parity txs" "eth_parity tx"] by (simp add: columns_def)
  have d: "add_data lib tx (?c2\<lparr>yParityBits := bits_of (map eth_parity (txs @ [tx]))\<rparr>) = (None, (columns lib (txs @ [tx]))\<lparr>totalBlockTxCount := n\<rparr>)"
    using stx by (cases "eth_nonce_gas tx") (simp add: add_data_def columns_def)
  show ?thesis
    unfolding add_tx_def using sig p s y d eth_parity_conv [OF sig(1)] by (cases "TxProtected lib tx") simp_all
qed

lemma add_txs_columns:
  "list_all2 (batchable lib chainID) bss txs \<Longrightarrow> length pre + length txs < 2 ^ 64 \<Longrightarrow>
   add_txs_from lib chainID (length pre) bss ((columns lib pre)\<lparr>totalBlockTxCount := n\<rparr>) =
     Inr (None, (columns lib (pre @ txs))\<lparr>totalBlockTxCount := n\<rparr>)"
proof (induction bss txs arbitrary: pre rule: list_all2_induct)
  case Nil
  then show ?case by simp
next
  case (Cons bs bss tx txs)
  have "length pre < 2 ^ 64" using Cons.prems by simp
  then show ?case using AddTx_columns [OF Cons.hyps(1), of pre n] Cons.IH [of "pre @ [tx]"] Cons.prems by simp
qed

lemma AddTxs_columns:
  assumes "list_all2 (batchable lib chainID) bss txs" "length pre + length txs < 2 ^ 64"
  shows "AddTxs lib chainID bss (columns lib pre) = Inr (None, columns lib (pre @ txs))"
proof -
  have "unat (totalBlockTxCount (columns lib pre)) = length pre" using assms(2) by (simp add: columns_def unat_of_nat)
  moreover have "(columns lib pre)\<lparr>totalBlockTxCount := of_nat (length pre)\<rparr> = columns lib pre" by (simp add: columns_def)
  ultimately show ?thesis
    using add_txs_columns [OF assms, of "of_nat (length pre)"] list_all2_lengthD [OF assms(1)]
    by (simp add: AddTxs_def) (simp add: columns_def)
qed

lemma columns_Nil: "columns lib [] = empty_txs"
  by (simp add: columns_def empty_txs_def tos_of_def)

section \<open>Reading the columns back\<close>

lemma small_word: "k \<le> MaxSpanBatchElementCount \<Longrightarrow> unat (of_nat k :: Word) = k"
  by (simp add: unat_of_nat MaxSpanBatchElementCount_def)

lemma reads_address: "reads read_address (be_word 20 a) a"
  by (simp add: reads_def read_address_def take_full_def)

lemma reads_sig: "reads read_sig (be_word 32 (SigR s) @ be_word 32 (SigS s)) (s\<lparr>SigV := 0\<rparr>)"
  by (simp add: reads_def read_sig_def take_full_def)

lemma reads_data: "batchable lib chainID bs tx \<Longrightarrow> reads (ReadTxData lib) (eth_data lib tx) (eth_data lib tx, eth_type tx)"
proof -
  assume b: "batchable lib chainID bs tx"
  obtain stx where stx: "rlp_ok lib stx" "spanTx_MarshalBinary lib stx = Some (eth_data lib tx)" "txType stx = eth_type tx"
    using b by (rule batchable_data)
  then obtain x xs where enc: "RlpEncode lib stx = Some (x # xs)" "0x7f < x" "\<And>r. RlpKind lib ((x # xs) @ r) = KindList (Some (x # xs, r))"
    by (auto simp: rlp_ok_def)
  have k: "RlpKind lib (x # xs @ r) = KindList (Some (x # xs, r))" for r using enc(3) [of r] by simp
  show ?thesis
  proof (cases "txType stx = LegacyTxType")
    case True
    then have "eth_data lib tx = x # xs" using stx(2) enc(1) by (simp add: spanTx_MarshalBinary_def)
    moreover have "\<not> x \<le> 0x7f" using enc(2) by simp
    ultimately show ?thesis using k True stx(3) by (simp add: reads_def ReadTxData_def Let_def)
  next
    case False
    then have d: "eth_data lib tx = txType stx # x # xs" using stx(2) enc(1) by (simp add: spanTx_MarshalBinary_def)
    have "txType stx \<le> 0x7f" by (cases stx) simp_all
    then show ?thesis using k d stx(3) by (simp add: reads_def ReadTxData_def Let_def)
  qed
qed

lemma creation_count: "unat n = length txs \<Longrightarrow>
    unat n - contractCreationCount n (bits_of (map (\<lambda>tx. eth_to tx = None) txs)) = length (tos_of txs)"
proof -
  assume n: "unat n = length txs"
  have "contractCreationCount n (bits_of (map (\<lambda>tx. eth_to tx = None) txs)) = length (filter (\<lambda>tx. eth_to tx = None) txs)"
    by (auto simp: contractCreationCount_def n length_filter_conv_card bit_bits_of intro!: arg_cong [where f = card])
  moreover have "length (tos_of txs) + length (filter (\<lambda>tx. eth_to tx = None) txs) = length txs"
    by (induction txs) (auto simp: tos_of_def)
  ultimately show ?thesis using n by linarith
qed

definition without_v :: "spanBatchTxs \<Rightarrow> spanBatchTxs" where
  "without_v btx = btx\<lparr>txSigs := map (\<lambda>s. s\<lparr>SigV := 0\<rparr>) (txSigs btx)\<rparr>"

lemma decode_columns:
  assumes b: "list_all2 (batchable lib chainID) bss txs" and small: "length txs \<le> MaxSpanBatchElementCount"
  shows "\<exists>enc. encode_txs (columns lib txs) = Inr enc \<and> reads (decode_txs lib (of_nat (length txs))) enc (without_v (columns lib txs))"
proof -
  let ?n = "of_nat (length txs) :: Word" and ?l = "of_nat (length (legacies txs)) :: Word"
  have leg: "length (legacies txs) \<le> MaxSpanBatchElementCount" using small by (rule order_trans [OF length_filter_le])
  have n: "unat ?n = length txs" "unat ?l = length (legacies txs)" by (rule small_word [OF small], rule small_word [OF leg])
  obtain e1 where e1: "encodeSpanBatchBits ?n (bits_of (map (\<lambda>tx. eth_to tx = None) txs)) = Inr e1"
    using encode_bits_of [of "map (\<lambda>tx. eth_to tx = None) txs" ?n] n by auto
  obtain e2 where e2: "encodeSpanBatchBits ?n (bits_of (map eth_parity txs)) = Inr e2"
    using encode_bits_of [of "map eth_parity txs" ?n] n by auto
  obtain e3 where e3: "encodeSpanBatchBits ?l (bits_of (map (TxProtected lib) (legacies txs))) = Inr e3"
    using encode_bits_of [of "map (TxProtected lib) (legacies txs)" ?l] n by auto
  have ok: "\<exists>bs. batchable lib chainID bs tx" if "tx \<in> set txs" for tx
    using b that by (auto simp: list_all2_conv_all_nth in_set_conv_nth)
  have datas: "reads (read_times (length txs) (ReadTxData lib)) (concat (map (eth_data lib) txs)) (map (\<lambda>tx. (eth_data lib tx, eth_type tx)) txs)"
    by (rule reads_times) (use ok reads_data in blast)
  have sigs: "reads (read_times (length txs) read_sig) (encodeTxSigsRS (columns lib txs)) (map (\<lambda>tx. (eth_signature tx)\<lparr>SigV := 0\<rparr>) txs)"
    using reads_times [of txs read_sig "\<lambda>tx. be_word 32 (SigR (eth_signature tx)) @ be_word 32 (SigS (eth_signature tx))"] reads_sig
    by (simp add: encodeTxSigsRS_def columns_def comp_def)
  have uvars: "reads (read_times (length txs) ReadUvarint) (concat (map (\<lambda>tx. PutUvarint (f tx)) txs)) (map f txs)" for f
    by (rule reads_times) (rule reads_uvarint)
  have tos: "reads (read_times (length (tos_of txs)) read_address) (concat (map (be_word 20) (tos_of txs))) (tos_of txs)"
    using reads_times [of "tos_of txs" read_address "be_word 20" id] reads_address by simp
  have filt: "length (filter (\<lambda>d. snd d = LegacyTxType) (map (\<lambda>tx. (eth_data lib tx, eth_type tx)) txs)) = length (legacies txs)"
    by (simp add: filter_map comp_def)
  have count: "length txs - contractCreationCount ?n (bits_of (map (\<lambda>tx. eth_to tx = None) txs)) = length (tos_of txs)"
    using creation_count [OF n(1)] n(1) by simp
  let ?enc = "e1 @ e2 @ encodeTxSigsRS (columns lib txs) @ concat (map (be_word 20) (tos_of txs)) @ concat (map (eth_data lib) txs) @
      concat (map (\<lambda>tx. PutUvarint (fst (eth_nonce_gas tx))) txs) @ concat (map (\<lambda>tx. PutUvarint (snd (eth_nonce_gas tx))) txs) @ e3"
  have "encode_txs (columns lib txs) = Inr ?enc"
    using e1 e2 e3 by (simp add: encode_txs_def columns_def encodeTxTos_def encodeTxDatas_def encodeTxNonces_def encodeTxGases_def comp_def)
  moreover have "reads (decode_txs lib ?n) ?enc (without_v (columns lib txs))"
    unfolding reads_def
  proof
    fix r
    show "decode_txs lib ?n (?enc @ r) = Inr (without_v (columns lib txs), r)"
      using small leg
      by (simp add: decode_txs_def comp_def filter_map n n [unfolded LegacyTxType_def] count reads_D [OF reads_bits [OF e1]] reads_D [OF reads_bits [OF e2]]
          reads_D [OF reads_bits [OF e3], unfolded LegacyTxType_def] reads_D [OF sigs] reads_D [OF tos] reads_D [OF datas] reads_D [OF uvars] filt Let_def)
        (simp add: without_v_def columns_def comp_def)
  qed
  ultimately show ?thesis by blast
qed

section \<open>The transactions come back\<close>

lemma recovered_v:
  assumes "signature_ok lib chainID tx"
  shows "(if eth_type tx = LegacyTxType then
      if TxProtected lib tx then of_nat chainID * 2 + 35 + of_bool (eth_parity tx) else 27 + of_bool (eth_parity tx)
      else of_bool (eth_parity tx)) = (of_nat (fst (eth_sig tx)) :: Word)"
proof (cases tx)
  case (Legacy t)
  show ?thesis
  proof (cases "TxProtected lib tx")
    case True
    obtain k :: nat where k: "LgV t = 2 * chainID + 35 + k" "k \<le> 1" "(of_nat (LgV t) :: Word) \<noteq> 27" "(of_nat (LgV t) :: Word) \<noteq> 28"
      "((of_nat (LgV t) :: Word) - 35) AND 1 = of_nat k"
      using protected_v [of lib chainID t] assms True Legacy by blast
    then have "of_bool (eth_parity tx) = (of_nat k :: Word)"
      using Legacy by (cases k) (auto simp: eth_parity_def convertVToYParity_def isProtectedV_def)
    then show ?thesis using Legacy True k(1) by simp
  next
    case False
    then show ?thesis using assms Legacy by (auto simp: signature_ok_def eth_parity_def convertVToYParity_def isProtectedV_def)
  qed
qed (use assms in \<open>auto simp: signature_ok_def eth_parity_def convertVToYParity_def\<close>)

lemma signature_type: "signature_ok lib chainID tx \<Longrightarrow> eth_type tx \<in> {LegacyTxType, AccessListTxType, DynamicFeeTxType}"
  by (cases tx) (auto simp: signature_ok_def)

lemma recover_from_columns:
  "list_all (signature_ok lib chainID) txs \<Longrightarrow>
   recover_from chainID (bits_of (map eth_parity (pre @ txs))) (bits_of (map (TxProtected lib) (legacies (pre @ txs))))
     (length pre) (length (legacies pre)) (map eth_type txs) = Inr (map (\<lambda>tx. of_nat (fst (eth_sig tx))) txs)"
proof (induction txs arbitrary: pre)
  case (Cons tx txs)
  have s: "signature_ok lib chainID tx" using Cons.prems by simp
  have y: "Bit_of (bits_of (map eth_parity (pre @ tx # txs))) (length pre) = of_bool (eth_parity tx)"
    by (rule Bit_of_map)
  have p: "Bit_of (bits_of (map (TxProtected lib) (legacies (pre @ tx # txs)))) (length (legacies pre)) = of_bool (TxProtected lib tx)"
    if "eth_type tx = LegacyTxType"
    using that Bit_of_map [of "TxProtected lib" "legacies pre" tx "legacies txs"] by simp
  have ih: "recover_from chainID (bits_of (map eth_parity (pre @ tx # txs))) (bits_of (map (TxProtected lib) (legacies (pre @ tx # txs))))
      (Suc (length pre)) (length (legacies (pre @ [tx]))) (map eth_type txs) = Inr (map (\<lambda>tx. of_nat (fst (eth_sig tx))) txs)"
    using Cons.IH [of "pre @ [tx]"] Cons.prems by simp
  show ?case
  proof (cases "eth_type tx = LegacyTxType")
    case True
    then show ?thesis using ih y p recovered_v [OF s] by (cases "TxProtected lib tx") (simp_all add: Let_def)
  next
    case False
    then have "eth_type tx = AccessListTxType \<or> eth_type tx = DynamicFeeTxType" using signature_type [OF s] by auto
    moreover have "of_bool (eth_parity tx) = (of_nat (fst (eth_sig tx)) :: Word)" using recovered_v [OF s] False by simp
    ultimately show ?thesis using False ih y by (auto simp: Let_def)
  qed
qed simp

lemma batchable_signature: "list_all2 (batchable lib chainID) bss txs \<Longrightarrow> list_all (signature_ok lib chainID) txs"
  by (auto simp: list_all2_conv_all_nth list_all_length batchable_def)

lemma recoverV_columns:
  assumes "list_all2 (batchable lib chainID) bss txs"
  shows "recoverV chainID (without_v (columns lib txs)) = Inr (columns lib txs)"
proof -
  have "map2 (\<lambda>sig v. sig\<lparr>SigV := v\<rparr>) (map (\<lambda>tx. (eth_signature tx)\<lparr>SigV := 0\<rparr>) txs) (map (\<lambda>tx. of_nat (fst (eth_sig tx))) txs) =
      map eth_signature txs"
    by (induction txs) (auto simp: eth_signature_def split: prod.split)
  then show ?thesis
    using recover_from_columns [OF batchable_signature [OF assms], of "[]"]
    by (simp add: recoverV_def without_v_def columns_def comp_def)
qed

lemma Unmarshal_data:
  assumes "batchable lib chainID bs tx"
  obtains stx where "newSpanBatchTx tx = Inr stx" "spanTx_UnmarshalBinary lib (eth_data lib tx) = Inr stx"
proof -
  obtain stx where stx: "newSpanBatchTx tx = Inr stx" "rlp_ok lib stx" "spanTx_MarshalBinary lib stx = Some (eth_data lib tx)"
    using assms by (rule batchable_data)
  then obtain x xs where enc: "RlpEncode lib stx = Some (x # xs)" "0x7f < x"
    "case stx of LegacyData t \<Rightarrow> RlpDecodeLegacy lib (x # xs) = Some t
       | AccessListData t \<Rightarrow> RlpDecodeAccessList lib (x # xs) = Some t
       | DynamicFeeData t \<Rightarrow> RlpDecodeDynamicFee lib (x # xs) = Some t"
    by (auto simp: rlp_ok_def)
  have d: "eth_data lib tx = (if txType stx = LegacyTxType then x # xs else txType stx # x # xs)"
    using stx(3) enc(1) by (simp add: spanTx_MarshalBinary_def split: if_splits)
  have "spanTx_UnmarshalBinary lib (eth_data lib tx) = Inr stx"
    unfolding d using enc(2,3) by (cases stx) (simp_all add: spanTx_UnmarshalBinary_def decodeTyped_def)
  then show thesis using that stx(1) by blast
qed

lemma convert_back:
  assumes "signature_ok lib chainID tx" "newSpanBatchTx tx = Inr stx"
  shows "convertToFullTx (fst (eth_nonce_gas tx)) (snd (eth_nonce_gas tx)) (eth_to tx) chainID
    (unat (SigV (eth_signature tx))) (unat (SigR (eth_signature tx))) (unat (SigS (eth_signature tx))) stx = tx"
proof -
  have rs: "fst (snd (eth_sig tx)) < 2 ^ 256" "snd (snd (eth_sig tx)) < 2 ^ 256" using assms(1) by (simp_all add: signature_ok_def)
  have v: "fst (eth_sig tx) < 2 ^ 64" using assms(1) by (cases tx) (auto simp: signature_ok_def split: if_splits)
  have sig: "unat (SigV (eth_signature tx)) = fst (eth_sig tx)" "unat (SigR (eth_signature tx)) = fst (snd (eth_sig tx))"
    "unat (SigS (eth_signature tx)) = snd (snd (eth_sig tx))"
    using rs v by (cases "eth_sig tx"; simp add: eth_signature_def unat_of_nat)+
  have id: "AlChainID t = chainID" if "tx = AccessListTyped t" for t using assms(1) that by (simp add: signature_ok_def)
  have id2: "DfChainID t = chainID" if "tx = DynamicFee t" for t using assms(1) that by (simp add: signature_ok_def)
  show ?thesis unfolding sig using assms(2) id id2 by (cases tx) auto
qed

lemma full_txs_columns:
  "list_all2 (batchable lib chainID) bss txs \<Longrightarrow>
   full_txs_from lib chainID (columns lib (pre @ txs)) (length (tos_of pre)) [length pre..<length pre + length txs] = Inr (Inr bss)"
proof (induction bss txs arbitrary: pre rule: list_all2_induct)
  case Nil
  then show ?case by simp
next
  case (Cons bs bss tx txs)
  let ?i = "length pre" and ?c = "columns lib (pre @ tx # txs)"
  obtain stx where stx: "newSpanBatchTx tx = Inr stx" "spanTx_UnmarshalBinary lib (eth_data lib tx) = Inr stx"
    using Cons.hyps(1) by (rule Unmarshal_data)
  have sig: "signature_ok lib chainID tx" "TxMarshal lib tx = Some bs" using Cons.hyps(1) by (simp_all add: batchable_def)
  have at: "at_index (txDatas ?c) ?i = Inr (eth_data lib tx)" "at_index (txNonces ?c) ?i = Inr (fst (eth_nonce_gas tx))"
    "at_index (txGases ?c) ?i = Inr (snd (eth_nonce_gas tx))" "at_index (txSigs ?c) ?i = Inr (eth_signature tx)"
    by (simp_all add: at_index_def columns_def nth_append)
  have bit: "Bit_of (contractCreationBits ?c) ?i = of_bool (eth_to tx = None)"
    using Bit_of_map [of "\<lambda>tx. eth_to tx = None" pre tx txs] by (simp add: columns_def)
  have tos: "txTos ?c = tos_of pre @ tos_of (tx # txs)" by (simp add: columns_def tos_of_def)
  have to: "(if Bit_of (contractCreationBits ?c) ?i = 0 then
      if length (txTos ?c) \<le> length (tos_of pre) then Inl NotEnoughTo else Inr (Some (txTos ?c ! length (tos_of pre)), Suc (length (tos_of pre)))
      else Inr (None, length (tos_of pre))) = Inr (eth_to tx, length (tos_of (pre @ [tx])))"
    unfolding bit tos by (cases "eth_to tx") (simp_all add: tos_of_def nth_append)
  have upt: "[?i..<?i + length (tx # txs)] = ?i # [length (pre @ [tx])..<length (pre @ [tx]) + length txs]"
    by (simp add: upt_conv_Cons del: upt_Suc)
  show ?case
    unfolding upt full_txs_from.simps using at stx to sig convert_back [OF sig(1) stx(1)] Cons.IH [of "pre @ [tx]"]
    by (simp add: need_def)
qed

lemma fullTxs_columns:
  assumes "list_all2 (batchable lib chainID) bss txs" "length txs < 2 ^ 64"
  shows "fullTxs lib chainID (columns lib txs) = Inr (Inr bss)"
proof -
  have "unat (totalBlockTxCount (columns lib txs)) = length txs" using assms(2) by (simp add: columns_def unat_of_nat)
  then show ?thesis using full_txs_columns [OF assms(1), of "[]"] by (simp add: fullTxs_def tos_of_def)
qed

end
