(* ===== verification/Span_Codec.thy ===== *)
theory Span_Codec
  imports Span_Columns
begin

text \<open>
  Span batches from singular batches to bytes and back: \<open>op-node/rollup/derive/span_batch.go\<close> and the typed encoding
  of \<open>batch.go\<close>.  A span batch under construction is a \<open>SpanBatch\<close> with the cached columns; decoding creates every value
  afresh.  The elements of a span come back as they were: the codec is a refinement of the list of singular batches.
\<close>

section \<open>The raw span batch\<close>

record spanBatchPrefix =
  relTimestamp :: Word
  l1OriginNum :: Word
  parentCheck :: "byte list"
  l1OriginCheck :: "byte list"

record spanBatchPayload =
  blockCount :: Word
  originBits :: nat
  blockTxCounts :: "Word list"
  payloadTxs :: spanBatchTxs

record RawSpanBatch =
  RawPrefix :: spanBatchPrefix
  RawPayload :: spanBatchPayload

subsection \<open>Decoding\<close>

definition decodePrefix :: "spanBatchPrefix reader" where
  "decodePrefix r =
     bind_res (ReadUvarint r) (\<lambda>(rel, r).
     bind_res (ReadUvarint r) (\<lambda>(num, r).
     bind_res (take_full 20 r) (\<lambda>(parent, r).
     bind_res (take_full 20 r) (\<lambda>(orig, r).
       Inr (\<lparr>relTimestamp = rel, l1OriginNum = num, parentCheck = parent, l1OriginCheck = orig\<rparr>, r)))))"

definition decodeBlockCount :: "Word reader" where
  "decodeBlockCount r =
     bind_res (ReadUvarint r) (\<lambda>(n, r).
       if MaxSpanBatchElementCount < unat n then Inl TooBigSpanBatchSize else if n = 0 then Inl EmptySpanBatch else Inr (n, r))"

definition decodeOriginBits :: "Word \<Rightarrow> nat reader" where
  "decodeOriginBits n r = (if MaxSpanBatchElementCount < unat n then Inl TooBigSpanBatchSize else decodeSpanBatchBits n r)"

definition read_tx_count :: "Word reader" where
  "read_tx_count r =
     bind_res (ReadUvarint r) (\<lambda>(c, r). if MaxSpanBatchElementCount < unat c then Inl TooBigSpanBatchSize else Inr (c, r))"

definition decodeBlockTxCounts :: "Word \<Rightarrow> Word list reader" where
  "decodeBlockTxCounts n = read_times (unat n) read_tx_count"

text \<open>The sum of the counts, with the overflow check.\<close>

fun total_txs :: "Word \<Rightarrow> Word list \<Rightarrow> span_error + Word" where
  "total_txs acc [] = Inr acc"
| "total_txs acc (c # cs) = (if 2 ^ 64 \<le> unat acc + unat c then Inl TooBigSpanBatchSize else total_txs (acc + c) cs)"

definition decodeTxs :: "tx_lib \<Rightarrow> Word list \<Rightarrow> spanBatchTxs reader" where
  "decodeTxs lib counts r =
     (if counts = [] then Inl TxCountsNotSet
      else
        bind_res (total_txs 0 counts) (\<lambda>n.
          if MaxSpanBatchElementCount < unat n then Inl TooBigSpanBatchSize else decode_txs lib n r))"

definition decodePayload :: "tx_lib \<Rightarrow> spanBatchPayload reader" where
  "decodePayload lib r =
     bind_res (decodeBlockCount r) (\<lambda>(n, r).
     bind_res (decodeOriginBits n r) (\<lambda>(bits, r).
     bind_res (decodeBlockTxCounts n r) (\<lambda>(counts, r).
     bind_res (decodeTxs lib counts r) (\<lambda>(txs, r).
       Inr (\<lparr>blockCount = n, originBits = bits, blockTxCounts = counts, payloadTxs = txs\<rparr>, r)))))"

definition decode_raw :: "tx_lib \<Rightarrow> RawSpanBatch reader" where
  "decode_raw lib r =
     bind_res (decodePrefix r) (\<lambda>(pre, r). bind_res (decodePayload lib r) (\<lambda>(pl, r). Inr (\<lparr>RawPrefix = pre, RawPayload = pl\<rparr>, r)))"

subsection \<open>Encoding\<close>

definition encodePrefix :: "spanBatchPrefix \<Rightarrow> byte list" where
  "encodePrefix p = PutUvarint (relTimestamp p) @ PutUvarint (l1OriginNum p) @ parentCheck p @ l1OriginCheck p"

definition encodeOriginBits :: "spanBatchPayload \<Rightarrow> span_error + byte list" where
  "encodeOriginBits bp = encodeSpanBatchBits (blockCount bp) (originBits bp)"

definition encodeBlockTxCounts :: "spanBatchPayload \<Rightarrow> byte list" where
  "encodeBlockTxCounts bp = concat (map PutUvarint (blockTxCounts bp))"

definition encodePayload :: "spanBatchPayload \<Rightarrow> span_error + byte list" where
  "encodePayload bp =
     bind_res (encodeOriginBits bp) (\<lambda>bits.
     bind_res (encode_txs (payloadTxs bp)) (\<lambda>txs.
       Inr (PutUvarint (blockCount bp) @ bits @ encodeBlockTxCounts bp @ txs)))"

definition encode_raw :: "RawSpanBatch \<Rightarrow> span_error + byte list" where
  "encode_raw b = bind_res (encodePayload (RawPayload b)) (\<lambda>pl. Inr (encodePrefix (RawPrefix b) @ pl))"

subsection \<open>Deriving the elements\<close>

text \<open>The epochs, from the last block down to the first.\<close>

fun origin_nums :: "nat \<Rightarrow> nat \<Rightarrow> Word \<Rightarrow> Word list \<Rightarrow> Word list" where
  "origin_nums bits 0 num nums = nums"
| "origin_nums bits (Suc i) num nums = origin_nums bits i (if Bit_of bits i = 1 \<and> 0 < i then num - 1 else num) (num # nums)"

definition next_txs :: "byte list list \<Rightarrow> nat \<Rightarrow> nat \<Rightarrow> byte list list res" where
  "next_txs txs idx n = (if idx + n \<le> length txs then Inr (take n (drop idx txs)) else Inl IndexOutOfRange)"

fun derive_blocks :: "Word \<Rightarrow> Word \<Rightarrow> Word list \<Rightarrow> Word list \<Rightarrow> byte list list \<Rightarrow> nat \<Rightarrow> nat list \<Rightarrow> SpanBatchElement list res" where
  "derive_blocks start blockTime nums counts txs txIdx [] = Inr []"
| "derive_blocks start blockTime nums counts txs txIdx (i # rest) =
     bind_res (at_index nums i) (\<lambda>num.
     bind_res (at_index counts i) (\<lambda>c.
       let n = nat (sint c)
       in bind_res (next_txs txs txIdx n) (\<lambda>blockTxs.
          bind_res (derive_blocks start blockTime nums counts txs (txIdx + n) rest) (\<lambda>els.
            Inr (\<lparr>ElEpochNum = num, ElTimestamp = start + blockTime * of_nat i, ElTransactions = blockTxs\<rparr> # els)))))"

definition derive :: "tx_lib \<Rightarrow> Word \<Rightarrow> Word \<Rightarrow> nat \<Rightarrow> RawSpanBatch \<Rightarrow> (span_error + SpanBatch) res" where
  "derive lib blockTime genesisTimestamp chainID b =
     (let pre = RawPrefix b; pl = RawPayload b
      in if blockCount pl = 0 then Inr (Inl EmptySpanBatch)
         else
           let blockOriginNums = origin_nums (originBits pl) (unat (blockCount pl)) (l1OriginNum pre) []
           in bind_err (Inr (recoverV chainID (payloadTxs pl))) (\<lambda>btx.
              bind_err (fullTxs lib chainID btx) (\<lambda>fullTxs.
              bind_res (derive_blocks (genesisTimestamp + relTimestamp pre) blockTime blockOriginNums (blockTxCounts pl) fullTxs 0
                  [0..<unat (blockCount pl)]) (\<lambda>els.
                Inr (Inr \<lparr>ParentCheck = parentCheck pre, L1OriginCheck = l1OriginCheck pre, GenesisTimestamp = 0, Batches = els\<rparr>)))))"

section \<open>Building a span batch\<close>

record SpanBatchBuilder = SpanBatch +
  ChainID :: nat
  cachedOriginBits :: nat
  cachedTxCounts :: "Word list"
  sbtxs :: spanBatchTxs

definition newSpanBatchTxs :: "tx_lib \<Rightarrow> byte list list \<Rightarrow> nat \<Rightarrow> (span_error + spanBatchTxs) res" where
  "newSpanBatchTxs lib txs chainID =
     bind_res (AddTxs lib chainID txs empty_txs) (\<lambda>(err, sbtx). Inr (case err of Some e \<Rightarrow> Inl e | None \<Rightarrow> Inr sbtx))"

text \<open>With no transactions \<open>newSpanBatchTxs\<close> cannot fail, and \<open>NewSpanBatch\<close> does not look at its error.\<close>

lemma newSpanBatchTxs_Nil: "newSpanBatchTxs lib [] chainID = Inr (Inr empty_txs)"
  by (simp add: newSpanBatchTxs_def AddTxs_def empty_txs_def)

definition NewSpanBatch :: "Word \<Rightarrow> nat \<Rightarrow> SpanBatchBuilder" where
  "NewSpanBatch genesisTimestamp chainID =
     \<lparr>ParentCheck = replicate 20 0, L1OriginCheck = replicate 20 0, GenesisTimestamp = genesisTimestamp, Batches = [],
      ChainID = chainID, cachedOriginBits = 0, cachedTxCounts = [], sbtxs = empty_txs\<rparr>"

definition check_of :: "H256 \<Rightarrow> byte list" where
  "check_of hash = take 20 (be_word 32 hash)"

definition AppendSingularBatch ::
    "tx_lib \<Rightarrow> SingularBatch \<Rightarrow> Word \<Rightarrow> SpanBatchBuilder \<Rightarrow> (span_error option \<times> SpanBatchBuilder) res" where
  "AppendSingularBatch lib singularBatch seqNum b =
     (if Batches b \<noteq> [] \<and> SbTimestamp singularBatch < ElTimestamp (last (Batches b)) then Inl SpanNotOrdered
      else
        let first = (Batches b = []);
            epochBit = (if first then if seqNum = 0 then 1 else 0
                        else if ElEpochNum (last (Batches b)) < SbEpochNum singularBatch then 1 else 0);
            b1 = b\<lparr>Batches := Batches b @ [singularBatchToElement singularBatch], L1OriginCheck := check_of (SbEpochHash singularBatch)\<rparr>;
            b2 = (if first then b1\<lparr>ParentCheck := check_of (SbParentHash singularBatch)\<rparr> else b1)
        in bind_res (SetBit (cachedOriginBits b) (length (Batches b)) epochBit) (\<lambda>bits.
           bind_res (AddTxs lib (ChainID b) (SbTransactions singularBatch) (sbtxs b)) (\<lambda>(err, txs).
             Inr (err, b2\<lparr>cachedOriginBits := bits,
               cachedTxCounts := cachedTxCounts b @ [of_nat (length (SbTransactions singularBatch))], sbtxs := txs\<rparr>))))"

text \<open>\<open>None\<close> is the error of a span without blocks.\<close>

definition ToRawSpanBatch :: "SpanBatchBuilder \<Rightarrow> RawSpanBatch option" where
  "ToRawSpanBatch b =
     (if Batches b = [] then None
      else
        Some \<lparr>RawPrefix = \<lparr>relTimestamp = ElTimestamp (hd (Batches b)) - GenesisTimestamp b, l1OriginNum = ElEpochNum (last (Batches b)),
                parentCheck = ParentCheck b, l1OriginCheck = L1OriginCheck b\<rparr>,
              RawPayload = \<lparr>blockCount = of_nat (length (Batches b)), originBits = cachedOriginBits b, blockTxCounts = cachedTxCounts b,
                payloadTxs = sbtxs b\<rparr>\<rparr>)"

section \<open>Typed batches\<close>

datatype InnerBatchData = InnerSingular SingularBatch | InnerSpan RawSpanBatch

definition SingularBatchType :: byte where [simp]: "SingularBatchType = 0"
definition SpanBatchType :: byte where [simp]: "SpanBatchType = 1"

fun GetBatchType :: "InnerBatchData \<Rightarrow> byte" where
  "GetBatchType (InnerSingular b) = SingularBatchType"
| "GetBatchType (InnerSpan b) = SpanBatchType"

fun encode_inner :: "tx_lib \<Rightarrow> InnerBatchData \<Rightarrow> span_error + byte list" where
  "encode_inner lib (InnerSingular b) = need BadRLP (RlpEncodeSingular lib b)"
| "encode_inner lib (InnerSpan b) = encode_raw b"

definition encodeTyped :: "tx_lib \<Rightarrow> InnerBatchData \<Rightarrow> span_error + byte list" where
  "encodeTyped lib b = bind_res (encode_inner lib b) (\<lambda>bs. Inr (GetBatchType b # bs))"

text \<open>What is left of the data after the batch is not looked at.\<close>

definition decodeTypedBatch :: "tx_lib \<Rightarrow> byte list \<Rightarrow> span_error + InnerBatchData" where
  "decodeTypedBatch lib dat =
     (case dat of
        [] \<Rightarrow> Inl BatchTooShort
      | t # r \<Rightarrow>
          if t = SingularBatchType then need BadRLP (map_option InnerSingular (RlpDecodeSingular lib r))
          else if t = SpanBatchType then bind_res (decode_raw lib r) (\<lambda>(b, _). Inr (InnerSpan b))
          else Inl UnrecognizedBatchType)"

end
