(* ===== verification/Batch_Span.thy ===== *)
theory Batch_Span
  imports Batch_Check
begin

text \<open>
  A span batch is a sequence of singular batches: when \<open>checkSpanBatch\<close> accepts a span that was derived from its
  encoding, \<open>GetSingularBatches\<close> succeeds, and \<open>checkSingularBatch\<close> accepts each of the batches it returns on the block
  of the one before.  This is the relation between the full check of the batch queue and the check of the Holocene
  batch stage, block by block.
\<close>

section \<open>Derived spans and consecutive L1 blocks\<close>

abbreviation element :: "SpanBatch \<Rightarrow> nat \<Rightarrow> SpanBatchElement" where
  "element b i \<equiv> Batches b ! i"

text \<open>What decoding gives: timestamps one block time apart and epochs that stay or advance by one, without wrap-around.\<close>

definition derived_span :: "Config \<Rightarrow> SpanBatch \<Rightarrow> bool" where
  "derived_span cfg b \<longleftrightarrow> Batches b \<noteq> [] \<and> BlockTime cfg \<noteq> 0 \<and>
     list_all (\<lambda>i. unat (ElTimestamp (element b i)) = unat (ElTimestamp (element b 0)) + i * unat (BlockTime cfg)) [0..<GetBlockCount b] \<and>
     list_all (\<lambda>i. unat (ElEpochNum (element b (Suc i))) - unat (ElEpochNum (element b i)) \<le> 1 \<and>
       ElEpochNum (element b i) \<le> ElEpochNum (element b (Suc i))) [0..<GetBlockCount b - 1]"

definition consecutive :: "L1BlockRef list \<Rightarrow> bool" where
  "consecutive l1Blocks \<longleftrightarrow> list_all (\<lambda>i. unat (L1Number (l1Blocks ! i)) = unat (L1Number (l1Blocks ! 0)) + i) [0..<length l1Blocks]"

definition from_origin :: "L1BlockRef list \<Rightarrow> Word \<Rightarrow> L1BlockRef list" where
  "from_origin l1Blocks n = dropWhile (\<lambda>x. L1Number x \<noteq> n) l1Blocks"

lemma derived_time:
  assumes "derived_span cfg b" "i < GetBlockCount b"
  shows "unat (ElTimestamp (element b i)) = unat (ElTimestamp (element b 0)) + i * unat (BlockTime cfg)"
proof -
  have "\<forall>i\<in>set [0..<GetBlockCount b]. unat (ElTimestamp (element b i)) = unat (ElTimestamp (element b 0)) + i * unat (BlockTime cfg)"
    using assms(1) unfolding derived_span_def list_all_iff by blast
  then show ?thesis by (rule bspec) (simp add: assms(2))
qed

lemma derived_epoch:
  assumes "derived_span cfg b" "Suc i < GetBlockCount b"
  shows "unat (ElEpochNum (element b i)) \<le> unat (ElEpochNum (element b (Suc i)))"
    "unat (ElEpochNum (element b (Suc i))) \<le> unat (ElEpochNum (element b i)) + 1"
proof -
  have "\<forall>i\<in>set [0..<GetBlockCount b - 1]. unat (ElEpochNum (element b (Suc i))) - unat (ElEpochNum (element b i)) \<le> 1 \<and>
       ElEpochNum (element b i) \<le> ElEpochNum (element b (Suc i))"
    using assms(1) unfolding derived_span_def list_all_iff by blast
  then have "unat (ElEpochNum (element b (Suc i))) - unat (ElEpochNum (element b i)) \<le> 1 \<and>
       ElEpochNum (element b i) \<le> ElEpochNum (element b (Suc i))"
    by (rule bspec) (use assms(2) in auto)
  then show "unat (ElEpochNum (element b i)) \<le> unat (ElEpochNum (element b (Suc i)))"
    "unat (ElEpochNum (element b (Suc i))) \<le> unat (ElEpochNum (element b i)) + 1"
    unfolding word_le_nat_alt by linarith+
qed

lemma derived_epoch_mono: "derived_span cfg b \<Longrightarrow> i \<le> j \<Longrightarrow> j < GetBlockCount b \<Longrightarrow>
    unat (ElEpochNum (element b i)) \<le> unat (ElEpochNum (element b j))"
proof (induction j)
  case (Suc j)
  then show ?case using derived_epoch [of cfg b j] by (cases "i = Suc j") auto
qed simp

lemma consecutive_nth:
  assumes "consecutive bs" "i < length bs"
  shows "unat (L1Number (bs ! i)) = unat (L1Number (bs ! 0)) + i"
proof -
  have "\<forall>i\<in>set [0..<length bs]. unat (L1Number (bs ! i)) = unat (L1Number (bs ! 0)) + i"
    using assms(1) by (simp only: consecutive_def list_all_iff)
  then show ?thesis by (rule bspec) (simp add: assms(2))
qed

lemma find_append: "find P (xs @ ys) = (case find P xs of None \<Rightarrow> find P ys | Some x \<Rightarrow> Some x)"
  by (induction xs) simp_all

lemma find_upt:
  assumes "P k" "i \<le> k" "k < n" "\<And>j. i \<le> j \<Longrightarrow> j < k \<Longrightarrow> \<not> P j"
  shows "find P [i..<n] = Some k"
proof -
  have "[i..<n] = [i..<k] @ [k..<n]" using upt_add_eq_append [of i k "n - k"] assms(2,3) by simp
  moreover have "[k..<n] = k # [Suc k..<n]" using assms(3) by (rule upt_conv_Cons)
  moreover have "find P [i..<k] = None" using assms(4) by (auto simp: find_None_iff)
  ultimately show ?thesis using assms(1) by (simp add: find_append)
qed

lemma find_origin_Some:
  assumes "consecutive bs" "idx \<le> k" "k < length bs" "unat e = unat (L1Number (bs ! 0)) + k"
  shows "find_origin bs idx e = Some k"
proof -
  have eq: "L1Number (bs ! j) = e \<longleftrightarrow> j = k" if "j < length bs" for j
    using consecutive_nth [OF assms(1) that] assms(4) by (auto simp: word_unat_eq_iff)
  show ?thesis unfolding find_origin_def by (rule find_upt) (use assms(2,3) eq in auto)
qed

lemma from_origin_nth:
  assumes "consecutive bs" "k < length bs" "unat e = unat (L1Number (bs ! 0)) + k"
  shows "from_origin bs e = drop k bs"
proof -
  have eq: "L1Number (bs ! j) = e \<longleftrightarrow> j = k" if "j < length bs" for j
    using consecutive_nth [OF assms(1) that] assms(3) by (auto simp: word_unat_eq_iff)
  have "bs = take k bs @ drop k bs" by simp
  moreover have "dropWhile (\<lambda>x. L1Number x \<noteq> e) (take k bs @ drop k bs) = dropWhile (\<lambda>x. L1Number x \<noteq> e) (drop k bs)"
  proof (rule dropWhile_append2)
    fix x assume "x \<in> set (take k bs)"
    then obtain j where "x = bs ! j" "j < k" using assms(2) by (auto simp: in_set_conv_nth)
    then show "L1Number x \<noteq> e" using eq [of j] assms(2) by simp
  qed
  moreover have "drop k bs = bs ! k # drop (Suc k) bs" using assms(2) by (simp add: Cons_nth_drop_Suc)
  ultimately show ?thesis using eq [OF assms(2)] by (simp add: from_origin_def)
qed

section \<open>The loop over the new blocks\<close>

text \<open>The blocks from index \<open>m\<close> on are after the safe head, and their epochs are among the L1 blocks.\<close>

definition fresh_from :: "Config \<Rightarrow> L1BlockRef list \<Rightarrow> L2BlockRef \<Rightarrow> SpanBatch \<Rightarrow> nat \<Rightarrow> bool" where
  "fresh_from cfg l1Blocks head b m \<longleftrightarrow> m < GetBlockCount b \<and>
     (\<forall>i<GetBlockCount b. ElTimestamp (element b i) \<le> L2Time head \<longleftrightarrow> i < m) \<and>
     L1Number (l1Blocks ! 0) = BidNumber (L1Origin head) \<and>
     unat (BidNumber (L1Origin head)) \<le> unat (ElEpochNum (element b m)) \<and>
     unat (ElEpochNum (element b m)) \<le> unat (BidNumber (L1Origin head)) + 1 \<and>
     unat (ElEpochNum (element b (GetBlockCount b - 1))) < unat (L1Number (l1Blocks ! 0)) + length l1Blocks \<and>
     (0 < m \<longrightarrow> ElEpochNum (element b (m - 1)) = BidNumber (L1Origin head))"

definition prev_epoch :: "L2BlockRef \<Rightarrow> SpanBatch \<Rightarrow> nat \<Rightarrow> nat \<Rightarrow> Word" where
  "prev_epoch head b m i = (if i = m then BidNumber (L1Origin head) else ElEpochNum (element b (i - 1)))"

definition origin_index :: "L1BlockRef list \<Rightarrow> Word \<Rightarrow> nat" where
  "origin_index l1Blocks e = unat e - unat (L1Number (l1Blocks ! 0))"

definition block_good :: "Config \<Rightarrow> L1BlockRef list \<Rightarrow> L2BlockRef \<Rightarrow> SpanBatch \<Rightarrow> nat \<Rightarrow> nat \<Rightarrow> bool" where
  "block_good cfg l1Blocks head b m i \<longleftrightarrow>
     (let el = element b i; j = origin_index l1Blocks (ElEpochNum el); orig = l1Blocks ! j
      in L1Time orig \<le> ElTimestamp el \<and>
         (ElTimestamp el \<le> L1Time orig + MaxSequencerDrift cfg (L1Time orig) \<or>
          ElTransactions el = [] \<and> (ElEpochNum el = prev_epoch head b m i \<longrightarrow>
            j + 1 < length l1Blocks \<and> ElTimestamp el < L1Time (l1Blocks ! (j + 1)))) \<and>
         list_all sequencer_tx (ElTransactions el))"

text \<open>The bounds of the epochs of the new blocks.\<close>

lemma fresh_epochs:
  assumes "derived_span cfg b" "fresh_from cfg l1 head b m" "m \<le> i" "i < GetBlockCount b"
  shows "unat (L1Number (l1 ! 0)) \<le> unat (prev_epoch head b m i)" "unat (prev_epoch head b m i) \<le> unat (ElEpochNum (element b i))"
    "unat (ElEpochNum (element b i)) \<le> unat (prev_epoch head b m i) + 1"
    "unat (ElEpochNum (element b i)) < unat (L1Number (l1 ! 0)) + length l1"
proof -
  note f = assms(2) [unfolded fresh_from_def]
  have "unat (ElEpochNum (element b m)) \<le> unat (ElEpochNum (element b (i - 1)))" if "i \<noteq> m"
    using derived_epoch_mono [OF assms(1), of m "i - 1"] that assms(3,4) by simp
  then show "unat (L1Number (l1 ! 0)) \<le> unat (prev_epoch head b m i)" using f by (auto simp: prev_epoch_def)
  show "unat (prev_epoch head b m i) \<le> unat (ElEpochNum (element b i))"
    using f derived_epoch [OF assms(1), of "i - 1"] assms(3,4) by (auto simp: prev_epoch_def)
  show "unat (ElEpochNum (element b i)) \<le> unat (prev_epoch head b m i) + 1"
    using f derived_epoch [OF assms(1), of "i - 1"] assms(3,4) by (auto simp: prev_epoch_def)
  show "unat (ElEpochNum (element b i)) < unat (L1Number (l1 ! 0)) + length l1"
    using f derived_epoch_mono [OF assms(1), of i "GetBlockCount b - 1"] assms(4) by linarith
qed

lemma fresh_found:
  assumes "derived_span cfg b" "fresh_from cfg l1 head b m" "consecutive l1" "m \<le> i" "i < GetBlockCount b"
  shows "find_origin l1 (origin_index l1 (prev_epoch head b m i)) (ElEpochNum (element b i)) = Some (origin_index l1 (ElEpochNum (element b i)))"
    "origin_index l1 (ElEpochNum (element b i)) < length l1"
  using fresh_epochs [OF assms(1,2,4,5)] assms(3) by (auto simp: origin_index_def intro!: find_origin_Some)

lemma span_block_fresh:
  assumes "derived_span cfg b" "fresh_from cfg l1 head b m" "consecutive l1" "m \<le> i" "i < GetBlockCount b"
    and "i = 0 \<Longrightarrow> adv \<longleftrightarrow> ElEpochNum (element b i) \<noteq> BidNumber (L1Origin head)"
  shows "\<exists>v adv'. span_block cfg l1 head b i (origin_index l1 (prev_epoch head b m i)) adv =
      (v, origin_index l1 (ElEpochNum (element b i)), adv') \<and> (v = None \<longleftrightarrow> block_good cfg l1 head b m i)"
proof -
  note e = fresh_epochs [OF assms(1,2,4,5)]
  note f = assms(2) [unfolded fresh_from_def]
  have after: "\<not> ElTimestamp (element b i) \<le> L2Time head" using f assms(4,5) by auto
  have adv: "(if 0 < i then ElEpochNum (element b (i - 1)) < ElEpochNum (element b i) else adv) \<longleftrightarrow>
      ElEpochNum (element b i) \<noteq> prev_epoch head b m i"
  proof (cases "i = 0")
    case True
    then show ?thesis using assms(4,6) by (simp add: prev_epoch_def)
  next
    case False
    then have p: "prev_epoch head b m i = ElEpochNum (element b (i - 1))" using f by (auto simp: prev_epoch_def)
    have "ElEpochNum (element b (i - 1)) < ElEpochNum (element b i) \<longleftrightarrow> ElEpochNum (element b i) \<noteq> ElEpochNum (element b (i - 1))"
      using e(2) unfolding p by (metis word_le_nat_alt order_le_less less_irrefl)
    then show ?thesis using False p by simp
  qed
  show ?thesis
    using after unfolding span_block_def Let_def fresh_found(1) [OF assms(1-5)] adv block_good_def
    by (auto simp: not_le not_less list_all_iff)
qed


lemma span_loop_fresh:
  assumes "derived_span cfg b" "fresh_from cfg l1 head b m" "consecutive l1"
  shows "m \<le> i \<Longrightarrow> i \<le> GetBlockCount b \<Longrightarrow>
    (i < GetBlockCount b \<Longrightarrow> idx = origin_index l1 (prev_epoch head b m i)) \<Longrightarrow>
    (i = 0 \<Longrightarrow> adv \<longleftrightarrow> ElEpochNum (element b i) \<noteq> BidNumber (L1Origin head)) \<Longrightarrow>
    span_loop cfg l1 head b [i..<GetBlockCount b] idx adv = None \<longleftrightarrow> (\<forall>k\<in>{i..<GetBlockCount b}. block_good cfg l1 head b m k)"
proof (induction "GetBlockCount b - i" arbitrary: i idx adv)
  case 0
  then show ?case by simp
next
  case (Suc n)
  then have i: "i < GetBlockCount b" by simp
  obtain v adv' where step: "span_block cfg l1 head b i idx adv = (v, origin_index l1 (ElEpochNum (element b i)), adv')"
      "v = None \<longleftrightarrow> block_good cfg l1 head b m i"
    using span_block_fresh [OF assms Suc.prems(1) i Suc.prems(4)] Suc.prems(3) [OF i] by auto
  have rest: "span_loop cfg l1 head b [Suc i..<GetBlockCount b] (origin_index l1 (ElEpochNum (element b i))) adv' = None \<longleftrightarrow>
      (\<forall>k\<in>{Suc i..<GetBlockCount b}. block_good cfg l1 head b m k)"
    by (rule Suc.hyps(1)) (use Suc.hyps(2) Suc.prems(1) i in \<open>auto simp: prev_epoch_def\<close>)
  have upt: "[i..<GetBlockCount b] = i # [Suc i..<GetBlockCount b]" using i by (rule upt_conv_Cons)
  have range: "{i..<GetBlockCount b} = insert i {Suc i..<GetBlockCount b}" using i by auto
  show ?case unfolding upt range using step rest by (cases v) simp_all
qed

lemma span_loop_skip:
  assumes "fresh_from cfg l1 head b m"
  shows "j \<le> m \<Longrightarrow> span_loop cfg l1 head b ([j..<m] @ is) idx adv = span_loop cfg l1 head b is idx adv"
proof (induction "m - j" arbitrary: j)
  case 0
  then show ?case by simp
next
  case (Suc n)
  then have j: "j < m" by simp
  have "ElTimestamp (element b j) \<le> L2Time head" using assms j by (auto simp: fresh_from_def)
  then have "span_block cfg l1 head b j idx adv = (None, idx, adv)" by (simp add: span_block_def Let_def)
  moreover have "[j..<m] = j # [Suc j..<m]" using j by (rule upt_conv_Cons)
  ultimately show ?case using Suc by simp
qed

lemma origin_index_head: "fresh_from cfg l1 head b m \<Longrightarrow> origin_index l1 (prev_epoch head b m m) = 0"
  by (simp add: origin_index_def prev_epoch_def fresh_from_def)

lemma span_loop_good:
  assumes "derived_span cfg b" "fresh_from cfg l1 head b m" "consecutive l1"
    and "m = 0 \<Longrightarrow> adv \<longleftrightarrow> ElEpochNum (element b 0) \<noteq> BidNumber (L1Origin head)"
  shows "span_loop cfg l1 head b [0..<GetBlockCount b] 0 adv = None \<longleftrightarrow> (\<forall>k\<in>{m..<GetBlockCount b}. block_good cfg l1 head b m k)"
proof -
  have m: "m < GetBlockCount b" using assms(2) by (simp add: fresh_from_def)
  have "[0..<GetBlockCount b] = [0..<m] @ [m..<GetBlockCount b]"
    using upt_add_eq_append [of 0 m "GetBlockCount b - m"] m by simp
  then have "span_loop cfg l1 head b [0..<GetBlockCount b] 0 adv = span_loop cfg l1 head b [m..<GetBlockCount b] 0 adv"
    using span_loop_skip [OF assms(2), of 0 "[m..<GetBlockCount b]"] by simp
  also have "\<dots> = None \<longleftrightarrow> (\<forall>k\<in>{m..<GetBlockCount b}. block_good cfg l1 head b m k)"
    by (rule span_loop_fresh [OF assms(1-3)]) (use m assms(4) origin_index_head [OF assms(2)] in auto)
  finally show ?thesis .
qed

section \<open>The singular batches of a span\<close>

definition single :: "L1BlockRef list \<Rightarrow> SpanBatch \<Rightarrow> nat \<Rightarrow> SingularBatch" where
  "single l1Blocks b i =
     (let el = element b i
      in \<lparr>SbParentHash = 0, SbEpochNum = ElEpochNum el, SbEpochHash = L1Hash (l1Blocks ! origin_index l1Blocks (ElEpochNum el)),
          SbTimestamp = ElTimestamp el, SbTransactions = ElTransactions el\<rparr>)"

lemma singular_batches_fresh:
  assumes "derived_span cfg b" "fresh_from cfg l1 head b m" "consecutive l1"
  shows "m \<le> i \<Longrightarrow> i \<le> GetBlockCount b \<Longrightarrow>
    (i < GetBlockCount b \<Longrightarrow> idx = origin_index l1 (prev_epoch head b m i)) \<Longrightarrow>
    singular_batches l1 head idx (drop i (Batches b)) = Some (map (single l1 b) [i..<GetBlockCount b])"
proof (induction "GetBlockCount b - i" arbitrary: i idx)
  case 0
  then show ?case by (simp add: GetBlockCount_def)
next
  case (Suc n)
  then have i: "i < GetBlockCount b" by simp
  have after: "\<not> ElTimestamp (element b i) \<le> L2Time head" using assms(2) Suc.prems(1) i by (auto simp: fresh_from_def)
  have rest: "singular_batches l1 head (origin_index l1 (ElEpochNum (element b i))) (drop (Suc i) (Batches b)) =
      Some (map (single l1 b) [Suc i..<GetBlockCount b])"
    by (rule Suc.hyps(1)) (use Suc.hyps(2) Suc.prems(1) i in \<open>auto simp: prev_epoch_def\<close>)
  have "drop i (Batches b) = element b i # drop (Suc i) (Batches b)" using i by (simp add: Cons_nth_drop_Suc GetBlockCount_def)
  moreover have "find_origin l1 idx (ElEpochNum (element b i)) = Some (origin_index l1 (ElEpochNum (element b i)))"
    using fresh_found(1) [OF assms Suc.prems(1) i] Suc.prems(3) [OF i] by simp
  ultimately show ?case using after rest i by (simp add: upt_conv_Cons single_def Let_def)
qed

lemma singular_batches_skip:
  assumes "fresh_from cfg l1 head b m"
  shows "j \<le> m \<Longrightarrow> singular_batches l1 head idx (drop j (Batches b)) = singular_batches l1 head idx (drop m (Batches b))"
proof (induction "m - j" arbitrary: j)
  case 0
  then show ?case by simp
next
  case (Suc n)
  then have j: "j < m" "j < GetBlockCount b" using assms by (auto simp: fresh_from_def)
  then have "ElTimestamp (element b j) \<le> L2Time head" using assms by (auto simp: fresh_from_def)
  moreover have "drop j (Batches b) = element b j # drop (Suc j) (Batches b)" using j(2) by (simp add: Cons_nth_drop_Suc GetBlockCount_def)
  ultimately show ?case using Suc j by simp
qed

lemma GetSingularBatches_fresh:
  assumes "derived_span cfg b" "fresh_from cfg l1 head b m" "consecutive l1"
  shows "GetSingularBatches b l1 head = Some (map (single l1 b) [m..<GetBlockCount b])"
proof -
  have m: "m < GetBlockCount b" using assms(2) by (simp add: fresh_from_def)
  have "GetSingularBatches b l1 head = singular_batches l1 head 0 (drop m (Batches b))"
    using singular_batches_skip [OF assms(2), of 0] by (simp add: GetSingularBatches_def)
  also have "\<dots> = Some (map (single l1 b) [m..<GetBlockCount b])"
    by (rule singular_batches_fresh [OF assms]) (use m origin_index_head [OF assms(2)] in auto)
  finally show ?thesis .
qed

text \<open>A good block is an accepted singular batch on its parent.\<close>

lemma single_valid:
  assumes "derived_span cfg b" "fresh_from cfg l1 head b m" "consecutive l1" "m \<le> i" "i < GetBlockCount b"
    and good: "block_good cfg l1 head b m i" and window: "L1Number incl \<le> ElEpochNum (element b i) + SeqWindowSize cfg"
    and parent: "L2Time parent + BlockTime cfg = ElTimestamp (element b i)"
  shows "checkSingularBatch cfg (from_origin l1 (prev_epoch head b m i)) parent ((single l1 b i)\<lparr>SbParentHash := L2Hash parent\<rparr>) incl = BatchAccept"
proof -
  note e = fresh_epochs [OF assms(1,2,4,5)]
  let ?p = "prev_epoch head b m i" and ?e = "ElEpochNum (element b i)"
  define j where "j = origin_index l1 ?p"
  have p: "unat ?p = unat (L1Number (l1 ! 0)) + j" "j < length l1" using e by (auto simp: j_def origin_index_def)
  have L: "from_origin l1 ?p = drop j l1" by (rule from_origin_nth [OF assms(3) p(2,1)])
  have num: "unat (L1Number (l1 ! j)) = unat ?p" using consecutive_nth [OF assms(3) p(2)] p(1) by simp
  then have num': "L1Number (l1 ! j) = ?p" by (simp add: word_unat_eq_iff)
  have k: "origin_index l1 ?e < length l1" by (rule fresh_found(2) [OF assms(1-5)])
  have p0: "?p \<le> ?e" using e(2) by (simp add: word_le_nat_alt)
  show ?thesis
  proof (cases "?e = ?p")
    case True
    then have idx: "origin_index l1 ?e = j" by (simp add: j_def)
    show ?thesis
      unfolding checkSingularBatch_Accept valid_singular_def L
      using good window parent p(2) p0 True num' k idx
      by (auto simp: block_good_def Let_def single_def batch_origin_def within_drift_def)
  next
    case False
    then have "unat ?e \<noteq> unat ?p" by (simp add: word_unat_eq_iff)
    then have e1: "unat ?e = unat ?p + 1" using e(2,3) by simp
    then have idx: "origin_index l1 ?e = j + 1" using e(1) by (simp add: j_def origin_index_def)
    have "unat ?p + 1 < 2 ^ 64" using e1 unat_u64_less [of ?e] by simp
    then have "unat (?p + 1) = unat ?p + 1" by (simp add: unat_word_ariths)
    then have ep: "?e = ?p + 1" using e1 by (simp add: word_unat_eq_iff)
    have "unat (L1Number (l1 ! (j + 1))) = unat ?e" using consecutive_nth [OF assms(3), of "j + 1"] k idx e1 p(1) by simp
    then have num1: "L1Number (l1 ! (j + 1)) = ?e" by (simp add: word_unat_eq_iff)
    show ?thesis
      unfolding checkSingularBatch_Accept valid_singular_def L
      using good window parent p(2) p0 False num' num1 k idx ep
      by (auto simp: block_good_def Let_def single_def batch_origin_def within_drift_def)
  qed
qed


section \<open>What an accepted span starts from\<close>

text \<open>The L2 client answers with the block asked for, and for the safe head with a payload of the safe head's epoch.\<close>

definition consistent_fetcher ::
    "selectors \<Rightarrow> Config \<Rightarrow> (byte list \<Rightarrow> Transaction option) \<Rightarrow> SafeBlockFetcher \<Rightarrow> L2BlockRef \<Rightarrow> bool" where
  "consistent_fetcher sel cfg decode_tx f head \<longleftrightarrow>
     (\<forall>n r. L2BlockRefByNumber f n = Some r \<longrightarrow> L2Number r = n) \<and>
     (\<forall>p r. PayloadByNumber f (L2Number head) = Some p \<and> PayloadToBlockRef sel cfg decode_tx p = Inr r \<longrightarrow>
       BidNumber (L1Origin r) = BidNumber (L1Origin head))"

text \<open>The conditions of an accepted prefix, with the number of overlapped blocks.\<close>

definition overlapped :: "Config \<Rightarrow> L2BlockRef \<Rightarrow> SpanBatch \<Rightarrow> Word" where
  "overlapped cfg head b = (L2Time head - ElTimestamp (element b 0)) div BlockTime cfg"

lemma prefix_rest_Accept:
  "prefix_rest cfg l1 b incl s e parent = BatchAccept \<longleftrightarrow>
     CheckParentHash b (L2Hash parent) \<and> L1Number incl \<le> s + SeqWindowSize cfg \<and> s \<le> BidNumber (L1Origin parent) + 1 \<and>
     (\<exists>x. find (\<lambda>x. L1Number x = e) l1 = Some x \<and> CheckOriginHash b (L1Hash x)) \<and> BidNumber (L1Origin parent) \<le> s"
  by (auto simp: prefix_rest_def not_less split: option.splits)

lemma prefix_Accept:
  assumes "checkSpanBatchPrefix cfg l1 head b incl f = Inr (BatchAccept, parent)"
  shows "l1 \<noteq> []" "Batches b \<noteq> []"
    "prefix_rest cfg l1 b incl (ElEpochNum (element b 0)) (ElEpochNum (element b (GetBlockCount b - 1))) parent = BatchAccept"
    "ElTimestamp (element b 0) \<le> L2Time head + BlockTime cfg"
    "L2Time head + BlockTime cfg \<le> ElTimestamp (element b (GetBlockCount b - 1))"
    "if ElTimestamp (element b 0) < L2Time head + BlockTime cfg
     then ElTimestamp (element b 0) \<le> L2Time head \<and> (L2Time head - ElTimestamp (element b 0)) mod BlockTime cfg = 0 \<and>
       L2BlockRefByNumber f (L2Number head - overlapped cfg head b - 1) = Some parent
     else parent = head"
  using assms
  by (auto simp: checkSpanBatchPrefix_def block_at_def Let_def not_less overlapped_def GetBlockCount_def split: if_splits option.splits)

lemma overlap_loop_None:
  "overlap_loop sel cfg decode_tx b f n is = Inr None \<Longrightarrow> i \<in> set is \<Longrightarrow> overlap_block sel cfg decode_tx b f n i = Inr None"
  by (induction "is") (auto simp: res_simps split: option.splits)

lemma overlap_block_None:
  assumes "overlap_block sel cfg decode_tx b f n i = Inr None"
  shows "\<exists>p r. PayloadByNumber f (n + of_nat i + 1) = Some p \<and> PayloadToBlockRef sel cfg decode_tx p = Inr r \<and>
    i < GetBlockCount b \<and> BidNumber (L1Origin r) = ElEpochNum (element b i)"
proof -
  obtain p where p: "PayloadByNumber f (n + of_nat i + 1) = Some p"
    using assms by (auto simp: overlap_block_def split: option.splits)
  then show ?thesis using assms
    by (cases "PayloadToBlockRef sel cfg decode_tx p")
      (auto simp: overlap_block_def Let_def block_at_def GetBlockCount_def res_simps split: if_splits)
qed

lemma last_epoch_bound:
  assumes "find (\<lambda>x. L1Number x = e) l1 = Some x" "consecutive l1"
  shows "unat e < unat (L1Number (l1 ! 0)) + length l1"
proof -
  obtain i where "i < length l1" "L1Number (l1 ! i) = e" using assms(1) by (auto simp: find_Some_iff)
  then show ?thesis using consecutive_nth [OF assms(2), of i] by auto
qed

lemma next_epoch: "(x :: Word) \<le> e \<Longrightarrow> e \<le> x + 1 \<Longrightarrow> unat x \<le> unat e \<and> unat e \<le> unat x + 1 \<and> (e = x + 1 \<longleftrightarrow> e \<noteq> x)"
proof -
  assume *: "x \<le> e" "e \<le> x + 1"
  have "unat (x + 1) \<le> unat x + 1" by (simp add: unat_word_ariths)
  then have le: "unat x \<le> unat e" "unat e \<le> unat x + 1" using * by (simp_all add: word_le_nat_alt)
  have "e = x + 1" if "e \<noteq> x"
  proof -
    have "unat e = unat x + 1" using that le by (simp add: word_unat_eq_iff)
    then have "unat (x + 1) = unat e" using unat_u64_less [of e] by (simp add: unat_word_ariths)
    then show ?thesis by (simp add: word_unat_eq_iff)
  qed
  then show ?thesis using le by auto
qed

lemma overlap_time:
  assumes bt: "BlockTime cfg \<noteq> 0" and wrap: "unat (L2Time head) + unat (BlockTime cfg) < 2 ^ 64"
    and t0: "ElTimestamp (element b 0) \<le> L2Time head" "(L2Time head - ElTimestamp (element b 0)) mod BlockTime cfg = 0"
    and q: "q = unat (overlapped cfg head b)"
  shows "unat (L2Time head) = unat (ElTimestamp (element b 0)) + q * unat (BlockTime cfg)" "q + 1 < 2 ^ 64"
proof -
  let ?bt = "unat (BlockTime cfg)"
  have pos: "0 < ?bt" using bt by (simp add: unat_gt_0)
  have diff: "unat (L2Time head - ElTimestamp (element b 0)) = unat (L2Time head) - unat (ElTimestamp (element b 0))"
    using t0(1) by (simp add: unat_sub)
  have "unat (L2Time head - ElTimestamp (element b 0)) mod ?bt = 0"
    using arg_cong [OF t0(2), of unat] by (simp add: unat_mod_distrib)
  moreover have "q = unat (L2Time head - ElTimestamp (element b 0)) div ?bt" by (simp add: q overlapped_def unat_div_distrib)
  ultimately have "unat (L2Time head - ElTimestamp (element b 0)) = q * ?bt"
    using div_mult_mod_eq [of "unat (L2Time head - ElTimestamp (element b 0))" ?bt] by simp
  then show head: "unat (L2Time head) = unat (ElTimestamp (element b 0)) + q * ?bt"
    using diff t0(1) by (simp add: word_le_nat_alt)
  have "q \<le> q * ?bt" using pos by simp
  then show "q + 1 < 2 ^ 64" using head wrap pos by linarith
qed

lemma next_time: "unat (L2Time head) + unat (BlockTime cfg) < 2 ^ 64 \<Longrightarrow>
    unat (L2Time head + BlockTime cfg) = unat (L2Time head) + unat (BlockTime cfg)"
  by (simp add: unat_word_ariths)

text \<open>The blocks of an accepted prefix up to the safe head, and the next one.\<close>

lemma prefix_index:
  assumes pre: "checkSpanBatchPrefix cfg l1 head b incl f = Inr (BatchAccept, parent)"
    and d: "derived_span cfg b" and wrap: "unat (L2Time head) + unat (BlockTime cfg) < 2 ^ 64"
  defines "m \<equiv> if ElTimestamp (element b 0) < L2Time head + BlockTime cfg then Suc (unat (overlapped cfg head b)) else 0"
  shows "m < GetBlockCount b" "\<And>i. i < GetBlockCount b \<Longrightarrow> ElTimestamp (element b i) \<le> L2Time head \<longleftrightarrow> i < m"
    "ElTimestamp (element b m) = L2Time head + BlockTime cfg" "m < 2 ^ 64"
proof -
  let ?bt = "unat (BlockTime cfg)" and ?n = "GetBlockCount b"
  note p = prefix_Accept [OF pre]
  have n: "0 < ?n" using p(2) by (simp add: GetBlockCount_def)
  have bt: "BlockTime cfg \<noteq> 0" "0 < ?bt" using d by (simp_all add: derived_span_def unat_gt_0)
  have time: "unat (ElTimestamp (element b i)) = unat (ElTimestamp (element b 0)) + i * ?bt" if "i < ?n" for i
    by (rule derived_time [OF d that])
  have start: "unat (L2Time head) + ?bt = unat (ElTimestamp (element b 0)) + m * ?bt" "m < 2 ^ 64"
  proof -
    show "unat (L2Time head) + ?bt = unat (ElTimestamp (element b 0)) + m * ?bt"
      using p(4,6) overlap_time(1) [OF bt(1) wrap _ _ refl] next_time [OF wrap] by (auto simp: m_def algebra_simps)
    show "m < 2 ^ 64"
      using p(6) overlap_time(2) [OF bt(1) wrap _ _ refl] by (auto simp: m_def)
  qed
  have "unat (L2Time head) + ?bt \<le> unat (ElTimestamp (element b (?n - 1)))"
    using p(5) next_time [OF wrap] by (simp add: word_le_nat_alt)
  then have "m * ?bt \<le> (?n - 1) * ?bt" using time [of "?n - 1"] n start(1) by simp
  then have "m \<le> ?n - 1" using bt(2) by (simp only: mult_le_cancel2)
  then show m: "m < ?n" using n by simp
  show "ElTimestamp (element b m) = L2Time head + BlockTime cfg"
    using time [OF m] start(1) next_time [OF wrap] by (simp add: word_unat_eq_iff)
  show "ElTimestamp (element b i) \<le> L2Time head \<longleftrightarrow> i < m" if "i < ?n" for i
  proof -
    have "ElTimestamp (element b i) \<le> L2Time head \<longleftrightarrow> unat (ElTimestamp (element b 0)) + i * ?bt + ?bt \<le> unat (ElTimestamp (element b 0)) + m * ?bt"
      unfolding word_le_nat_alt time [OF that] start(1) [symmetric] by linarith
    also have "\<dots> \<longleftrightarrow> Suc i * ?bt \<le> m * ?bt" by (simp add: add.commute)
    also have "\<dots> \<longleftrightarrow> i < m" using bt(2) by (simp only: mult_le_cancel2 Suc_le_eq) simp
    finally show ?thesis .
  qed
  show "m < 2 ^ 64" by (rule start(2))
qed

lemma span_block_no_accept: "fst (span_block cfg l1 head b i idx adv) \<noteq> Some BatchAccept"
  by (simp add: span_block_def Let_def)

lemma span_loop_no_accept: "span_loop cfg l1 head b is idx adv \<noteq> Some BatchAccept"
proof (induction "is" arbitrary: idx adv)
  case (Cons i "is")
  then show ?case using span_block_no_accept [of cfg l1 head b i idx adv] by (auto split: prod.split option.split)
qed simp

lemma overlap_block_no_accept: "overlap_block sel cfg decode_tx b f n i \<noteq> Inr (Some BatchAccept)"
  by (auto simp: overlap_block_def Let_def res_simps split: option.splits sum.splits)

lemma overlap_loop_no_accept: "overlap_loop sel cfg decode_tx b f n is \<noteq> Inr (Some BatchAccept)"
  by (induction "is") (auto simp: res_simps overlap_block_no_accept split: option.splits)

lemma accepted_fresh:
  assumes acc: "checkSpanBatch sel cfg decode_tx l1 head b incl f = Inr BatchAccept"
    and d: "derived_span cfg b" and c: "consecutive l1" and n0: "L1Number (l1 ! 0) = BidNumber (L1Origin head)"
    and f: "consistent_fetcher sel cfg decode_tx f head" and wrap: "unat (L2Time head) + unat (BlockTime cfg) < 2 ^ 64"
  shows "\<exists>m. fresh_from cfg l1 head b m \<and> L1Number incl \<le> ElEpochNum (element b 0) + SeqWindowSize cfg \<and>
    (\<forall>k\<in>{m..<GetBlockCount b}. block_good cfg l1 head b m k)"
proof -
  obtain parent where pre: "checkSpanBatchPrefix cfg l1 head b incl f = Inr (BatchAccept, parent)"
    using acc by (auto simp: checkSpanBatch_def res_simps split: if_splits)
  let ?adv = "ElEpochNum (element b 0) = BidNumber (L1Origin parent) + 1"
  note p = prefix_Accept [OF pre]
  note rest = p(3) [unfolded prefix_rest_Accept]
  have loop: "span_loop cfg l1 head b [0..<GetBlockCount b] 0 ?adv = None"
    and ov: "ElTimestamp (element b 0) < L2Time head + BlockTime cfg \<Longrightarrow>
      \<exists>v. overlap_loop sel cfg decode_tx b f (L2Number parent) [0..<unat (L2Number head - L2Number parent)] = Inr v \<and>
        (case v of Some v \<Rightarrow> v | None \<Rightarrow> BatchAccept) = BatchAccept"
    using acc pre p(2) by (auto simp: checkSpanBatch_def block_at_def res_simps span_loop_no_accept split: if_splits option.splits)
  have over: "overlap_loop sel cfg decode_tx b f (L2Number parent) [0..<unat (L2Number head - L2Number parent)] = Inr None"
    if lt: "ElTimestamp (element b 0) < L2Time head + BlockTime cfg"
  proof -
    obtain v where v: "overlap_loop sel cfg decode_tx b f (L2Number parent) [0..<unat (L2Number head - L2Number parent)] = Inr v"
      "(case v of Some v \<Rightarrow> v | None \<Rightarrow> BatchAccept) = BatchAccept" using ov [OF lt] by blast
    then show ?thesis using overlap_loop_no_accept by (cases v) auto
  qed
  have last: "unat (ElEpochNum (element b (GetBlockCount b - 1))) < unat (L1Number (l1 ! 0)) + length l1"
    using rest last_epoch_bound [OF _ c] by blast
  define m where "m = (if ElTimestamp (element b 0) < L2Time head + BlockTime cfg then Suc (unat (overlapped cfg head b)) else 0)"
  note idx = prefix_index [OF pre d wrap, folded m_def]
  have fresh: "fresh_from cfg l1 head b m"
    if "unat (BidNumber (L1Origin head)) \<le> unat (ElEpochNum (element b m)) \<and>
        unat (ElEpochNum (element b m)) \<le> unat (BidNumber (L1Origin head)) + 1"
      "0 < m \<Longrightarrow> ElEpochNum (element b (m - 1)) = BidNumber (L1Origin head)"
    using that idx(1,2) n0 last by (auto simp: fresh_from_def)
  show ?thesis
  proof (cases "ElTimestamp (element b 0) < L2Time head + BlockTime cfg")
    case False
    then have m: "m = 0" and ph: "parent = head" using p(6) by (auto simp: m_def)
    have e0: "BidNumber (L1Origin head) \<le> ElEpochNum (element b 0)" "ElEpochNum (element b 0) \<le> BidNumber (L1Origin head) + 1"
      using rest ph by auto
    have fr: "fresh_from cfg l1 head b m" by (rule fresh) (use next_epoch [OF e0] m in auto)
    have "?adv \<longleftrightarrow> ElEpochNum (element b 0) \<noteq> BidNumber (L1Origin head)" using next_epoch [OF e0] ph by simp
    then show ?thesis using span_loop_good [OF d fr c, of ?adv] loop fr rest by auto
  next
    case True
    define q where "q = unat (overlapped cfg head b)"
    have m: "m = Suc q" using True by (simp add: m_def q_def)
    have num: "L2Number parent = L2Number head - overlapped cfg head b - 1"
      using p(6) True f by (auto simp: consistent_fetcher_def)
    have "L2Number head - L2Number parent = overlapped cfg head b + 1" by (simp add: num)
    then have "unat (L2Number head - L2Number parent) = q + 1" using idx(4) m by (simp add: q_def unat_word_ariths)
    then have "overlap_block sel cfg decode_tx b f (L2Number parent) q = Inr None"
      by (intro overlap_loop_None [OF over [OF True]]) simp
    from overlap_block_None [OF this] obtain pl r where r: "PayloadByNumber f (L2Number parent + of_nat q + 1) = Some pl"
      "PayloadToBlockRef sel cfg decode_tx pl = Inr r" "BidNumber (L1Origin r) = ElEpochNum (element b q)" by blast
    have "L2Number parent + of_nat q + 1 = L2Number head" by (simp add: num q_def)
    then have eq: "ElEpochNum (element b q) = BidNumber (L1Origin head)" using r f by (auto simp: consistent_fetcher_def)
    have fr: "fresh_from cfg l1 head b m"
      by (rule fresh) (use derived_epoch [OF d, of q] idx(1) m eq in auto)
    show ?thesis using span_loop_good [OF d fr c, of ?adv] loop fr rest m by auto
  qed
qed

text \<open>The first new block has the next timestamp.\<close>

lemma first_time:
  assumes acc: "checkSpanBatch sel cfg decode_tx l1 head b incl f = Inr BatchAccept" and d: "derived_span cfg b"
    and fr: "fresh_from cfg l1 head b m" and wrap: "unat (L2Time head) + unat (BlockTime cfg) < 2 ^ 64"
  shows "ElTimestamp (element b m) = L2Time head + BlockTime cfg"
proof -
  obtain parent where "checkSpanBatchPrefix cfg l1 head b incl f = Inr (BatchAccept, parent)"
    using acc by (auto simp: checkSpanBatch_def res_simps split: if_splits)
  note idx = prefix_index [OF this d wrap]
  let ?m = "if ElTimestamp (element b 0) < L2Time head + BlockTime cfg then Suc (unat (overlapped cfg head b)) else 0"
  have m: "m < GetBlockCount b" "\<And>i. i < GetBlockCount b \<Longrightarrow> ElTimestamp (element b i) \<le> L2Time head \<longleftrightarrow> i < m"
    using fr by (auto simp: fresh_from_def)
  have "m = ?m"
  proof (rule linorder_cases [of m ?m])
    assume "m < ?m"
    then show ?thesis using m(2) [OF m(1)] idx(2) [OF m(1)] by simp
  next
    assume "?m < m"
    then show ?thesis using m(2) [OF idx(1)] idx(2) [OF idx(1)] by simp
  qed
  then show ?thesis using idx(3) by simp
qed



definition sample_head :: L2BlockRef where
  "sample_head = \<lparr>L2Hash = 41, L2Number = 1000, L2ParentHash = 40, L2Time = 3000, L1Origin = \<lparr>BidHash = 77, BidNumber = 150\<rparr>,
     SequenceNumber = 2\<rparr>"

definition sample_l1 :: "L1BlockRef list" where
  "sample_l1 = [\<lparr>L1Hash = 77, L1Number = 150, L1ParentHash = 76, L1Time = 2990\<rparr>,
     \<lparr>L1Hash = 78, L1Number = 151, L1ParentHash = 77, L1Time = 3003\<rparr>]"

definition sample_span :: SpanBatch where
  "sample_span = \<lparr>ParentCheck = take 20 (be_word 32 (41 :: H256)), L1OriginCheck = take 20 (be_word 32 (78 :: H256)), GenesisTimestamp = 1000,
     Batches = [\<lparr>ElEpochNum = 150, ElTimestamp = 3002, ElTransactions = [[1, 2]]\<rparr>,
       \<lparr>ElEpochNum = 151, ElTimestamp = 3004, ElTransactions = []\<rparr>]\<rparr>"

abbreviation no_l2 :: SafeBlockFetcher where
  "no_l2 \<equiv> \<lparr>L2BlockRefByNumber = (\<lambda>n. None), PayloadByNumber = (\<lambda>n. None)\<rparr>"

lemma sample_span_accepted:
  "checkSpanBatch sel sample_config decode_tx sample_l1 sample_head sample_span (sample_l1 ! 1) no_l2 = Inr BatchAccept"
  by (simp add: checkSpanBatch_def checkSpanBatchPrefix_def prefix_rest_def block_at_def GetBlockCount_def CheckParentHash_def
      CheckOriginHash_def Let_def sample_span_def sample_l1_def sample_head_def sample_config_def IsDelta_def IsHolocene_def fork_active_def
      span_block_def find_origin_def MaxSequencerDrift_def IsFeatMaxSequencerDriftConstant_def IsFjord_def sequencer_tx_def DepositType_def
      upt_rec)


end
