(* ===== verification/Span_Laws.thy ===== *)
theory Span_Laws
  imports Span_Codec Batch_Span
begin

text \<open>
  What the span batch codec guarantees: the batches a batcher appends come back from the bytes, block by block; what
  is decoded from any bytes is derived without a panic; and a derived span that passes the prefix check has evenly
  spaced timestamps and steady epochs without wrap-around, which the rules for whole spans rely on.
\<close>

section \<open>Appending batches\<close>

type_synonym numbered = "SingularBatch \<times> Word"

fun append_all :: "tx_lib \<Rightarrow> numbered list \<Rightarrow> SpanBatchBuilder \<Rightarrow> (span_error option \<times> SpanBatchBuilder) res" where
  "append_all lib [] b = Inr (None, b)"
| "append_all lib ((sb, seqNum) # rest) b =
     bind_res (AppendSingularBatch lib sb seqNum b) (\<lambda>(err, b).
       case err of Some e \<Rightarrow> Inr (Some e, b) | None \<Rightarrow> append_all lib rest b)"

definition origin_flag :: "numbered list \<Rightarrow> nat \<Rightarrow> bool" where
  "origin_flag nbs i = (if i = 0 then snd (nbs ! 0) = 0 else SbEpochNum (fst (nbs ! (i - 1))) < SbEpochNum (fst (nbs ! i)))"

definition all_txs :: "numbered list \<Rightarrow> byte list list" where
  "all_txs nbs = concat (map (SbTransactions \<circ> fst) nbs)"

text \<open>The builder that holds the batches \<open>nbs\<close> with transactions \<open>txs\<close>.\<close>

definition built :: "tx_lib \<Rightarrow> Word \<Rightarrow> nat \<Rightarrow> numbered list \<Rightarrow> EthTx list \<Rightarrow> SpanBatchBuilder" where
  "built lib genesis chainID nbs txs =
     \<lparr>ParentCheck = (if nbs = [] then replicate 20 0 else check_of (SbParentHash (fst (hd nbs)))),
      L1OriginCheck = (if nbs = [] then replicate 20 0 else check_of (SbEpochHash (fst (last nbs)))),
      GenesisTimestamp = genesis, Batches = map (singularBatchToElement \<circ> fst) nbs, ChainID = chainID,
      cachedOriginBits = bits_of (map (origin_flag nbs) [0..<length nbs]),
      cachedTxCounts = map (\<lambda>nb. of_nat (length (SbTransactions (fst nb)))) nbs, sbtxs = columns lib txs\<rparr>"

lemma origin_flags_snoc:
  "map (origin_flag (nbs @ [nb])) [0..<Suc (length nbs)] = map (origin_flag nbs) [0..<length nbs] @ [origin_flag (nbs @ [nb]) (length nbs)]"
  by (auto simp: origin_flag_def nth_append)

lemma Append_built:
  assumes txs: "list_all2 (batchable lib chainID) (SbTransactions sb) new" and small: "length old + length new < 2 ^ 64"
    and order: "nbs \<noteq> [] \<Longrightarrow> SbTimestamp (fst (last nbs)) \<le> SbTimestamp sb"
  shows "AppendSingularBatch lib sb seqNum (built lib genesis chainID nbs old) =
    Inr (None, built lib genesis chainID (nbs @ [(sb, seqNum)]) (old @ new))"
proof -
  let ?nbs = "nbs @ [(sb, seqNum)]"
  have last: "last (map (singularBatchToElement \<circ> fst) nbs) = singularBatchToElement (fst (last nbs))" if "nbs \<noteq> []"
    using that by (simp add: last_map)
  have ordered: "\<not> SbTimestamp sb < SbTimestamp (fst (last nbs))" if "nbs \<noteq> []" using order [OF that] by simp
  have flag: "(if nbs = [] then if seqNum = 0 then 1 else 0 else if SbEpochNum (fst (last nbs)) < SbEpochNum sb then 1 else 0) =
      (of_bool (origin_flag ?nbs (length nbs)) :: Word)"
    by (simp add: origin_flag_def nth_append last_conv_nth)
  have bits: "SetBit (cachedOriginBits (built lib genesis chainID nbs old)) (length nbs) (of_bool (origin_flag ?nbs (length nbs))) =
      Inr (bits_of (map (origin_flag ?nbs) [0..<length ?nbs]))"
    using SetBit_snoc [of "map (origin_flag nbs) [0..<length nbs]" "origin_flag ?nbs (length nbs)"] origin_flags_snoc [of nbs "(sb, seqNum)"]
    by (simp add: built_def del: upt_Suc)
  have add: "AddTxs lib chainID (SbTransactions sb) (columns lib old) = Inr (None, columns lib (old @ new))"
    by (rule AddTxs_columns [OF txs small])
  show ?thesis
  proof (cases "nbs = []")
    case True
    then show ?thesis using flag bits add by (simp add: AppendSingularBatch_def Let_def built_def)
  next
    case False
    then show ?thesis using flag bits add last ordered
      by (simp add: AppendSingularBatch_def Let_def built_def singularBatchToElement_def)
  qed
qed

definition in_order :: "numbered list \<Rightarrow> bool" where
  "in_order nbs \<longleftrightarrow> sorted (map (SbTimestamp \<circ> fst) nbs)"

lemma append_all_built:
  "list_all2 (batchable lib chainID) (all_txs nbs) new \<Longrightarrow> length old + length new < 2 ^ 64 \<Longrightarrow> in_order (pre @ nbs) \<Longrightarrow>
   append_all lib nbs (built lib genesis chainID pre old) = Inr (None, built lib genesis chainID (pre @ nbs) (old @ new))"
proof (induction nbs arbitrary: pre old new)
  case Nil
  then show ?case by (simp add: all_txs_def)
next
  case (Cons nb nbs)
  obtain sb seqNum where nb: "nb = (sb, seqNum)" by (cases nb)
  obtain new1 new2 where new: "new = new1 @ new2" "list_all2 (batchable lib chainID) (SbTransactions sb) new1"
    "list_all2 (batchable lib chainID) (all_txs nbs) new2"
    using Cons.prems(1) by (auto simp: all_txs_def nb list_all2_append1)
  have order: "SbTimestamp (fst (last pre)) \<le> SbTimestamp sb" if "pre \<noteq> []"
    using Cons.prems(3) that by (simp add: in_order_def nb sorted_append)
  have "append_all lib nbs (built lib genesis chainID (pre @ [nb]) (old @ new1)) =
      Inr (None, built lib genesis chainID ((pre @ [nb]) @ nbs) ((old @ new1) @ new2))"
    by (rule Cons.IH) (use Cons.prems new in simp_all)
  then show ?case using Append_built [OF new(2) _ order, of old seqNum genesis] Cons.prems(2) new(1) nb by simp
qed

lemma built_Nil: "built lib genesis chainID [] [] = NewSpanBatch genesis chainID"
  by (simp add: built_def NewSpanBatch_def columns_Nil)

section \<open>Epochs\<close>

text \<open>Epochs that stay or advance by one.\<close>

definition steady :: "(nat \<Rightarrow> Word) \<Rightarrow> nat \<Rightarrow> bool" where
  "steady e n \<longleftrightarrow> (\<forall>i. Suc i < n \<longrightarrow> e (Suc i) = e i \<or> e (Suc i) = e i + 1 \<and> e i < e (Suc i))"

lemma origin_nums_steady:
  assumes "steady e n" "\<And>i. 0 < i \<Longrightarrow> i < n \<Longrightarrow> Bit_of bits i = of_bool (e (i - 1) < e i)"
  shows "i < n \<Longrightarrow> origin_nums bits (Suc i) (e i) acc = map e [0..<Suc i] @ acc"
proof (induction i arbitrary: acc)
  case (Suc i)
  have "(if Bit_of bits (Suc i) = 1 then e (Suc i) - 1 else e (Suc i)) = e i"
    using assms(1) assms(2) [of "Suc i"] Suc.prems by (auto simp: steady_def)
  then show ?case using Suc.IH [of "e (Suc i) # acc"] Suc.prems by simp
qed simp

lemma origin_nums_drop: "drop n (origin_nums bits n num acc) = acc"
proof (induction n arbitrary: num acc)
  case (Suc n)
  show ?case
    using Suc.IH [of "if Bit_of bits n = 1 \<and> 0 < n then num - 1 else num" "num # acc"]
    by (simp add: drop_Suc flip: tl_drop)
qed simp

lemma origin_nums_last: "origin_nums bits (Suc n) num acc ! n = num"
proof -
  let ?xs = "origin_nums bits (Suc n) num acc"
  have "drop n ?xs = num # acc"
    using origin_nums_drop [of n bits "if Bit_of bits n = 1 \<and> 0 < n then num - 1 else num" "num # acc"] by simp
  then show ?thesis by (metis hd_drop_conv_nth list.sel(1) drop_all list.distinct(1) not_le)
qed

lemma origin_nums_length: "length (origin_nums bits n num acc) = n + length acc"
  by (induction n arbitrary: num acc) simp_all

section \<open>The blocks\<close>

lemma derive_blocks_split:
  assumes nums: "length nums = length bss" and small: "list_all (\<lambda>bs. length bs < 2 ^ 63) bss"
  shows "k \<le> length bss \<Longrightarrow> derive_blocks start blockTime nums (map (\<lambda>bs. of_nat (length bs)) bss) (concat bss)
      (length (concat (take k bss))) [k..<length bss] =
    Inr (map (\<lambda>i. \<lparr>ElEpochNum = nums ! i, ElTimestamp = start + blockTime * of_nat i, ElTransactions = bss ! i\<rparr>) [k..<length bss])"
proof (induction "length bss - k" arbitrary: k)
  case 0
  then show ?case by simp
next
  case (Suc m)
  then have k: "k < length bss" by simp
  have "length (bss ! k) < 2 ^ 63" using small k by (simp add: list_all_length)
  then have n: "nat (sint (of_nat (length (bss ! k)) :: Word)) = length (bss ! k)"
    by (simp add: signed_of_nat signed_take_bit_int_eq_self)
  have bss: "concat bss = concat (take k bss) @ bss ! k @ concat (drop (Suc k) bss)"
    using id_take_nth_drop [OF k] by (metis append_Cons append_Nil concat.simps(2) concat_append)
  have next1: "next_txs (concat bss) (length (concat (take k bss))) (length (bss ! k)) = Inr (bss ! k)"
    unfolding bss by (simp add: next_txs_def)
  have take: "length (concat (take k bss)) + length (bss ! k) = length (concat (take (Suc k) bss))"
    using k by (simp add: take_Suc_conv_app_nth)
  have upt: "[k..<length bss] = k # [Suc k..<length bss]" using k by (rule upt_conv_Cons)
  show ?case
    unfolding upt derive_blocks.simps
    using Suc.hyps(1) [of "Suc k"] Suc.hyps(2) k nums n next1 take by (simp add: at_index_def)
qed

section \<open>The round trip\<close>

lemma reads_prefix:
  "length (parentCheck p) = 20 \<Longrightarrow> length (l1OriginCheck p) = 20 \<Longrightarrow> reads decodePrefix (encodePrefix p) p"
  by (simp add: reads_def decodePrefix_def encodePrefix_def reads_D [OF reads_uvarint] reads_D [OF reads_take_full])

lemma total_txs_sum: "unat acc + sum_list (map unat cs) < 2 ^ 64 \<Longrightarrow> total_txs acc cs = Inr (acc + sum_list cs)"
proof (induction cs arbitrary: acc)
  case (Cons c cs)
  then have "unat (acc + c) = unat acc + unat c" by (simp add: unat_word_ariths)
  then show ?case using Cons by (simp add: add.assoc)
qed simp

text \<open>The batches of a span: at least one and not too many, in order, one block time apart, with steady epochs, and with
  transactions that go-ethereum encodes and decodes.\<close>

definition span_of :: "tx_lib \<Rightarrow> Word \<Rightarrow> nat \<Rightarrow> numbered list \<Rightarrow> EthTx list \<Rightarrow> bool" where
  "span_of lib blockTime chainID nbs txs \<longleftrightarrow> nbs \<noteq> [] \<and> length nbs \<le> MaxSpanBatchElementCount \<and> length txs \<le> MaxSpanBatchElementCount \<and>
     list_all2 (batchable lib chainID) (all_txs nbs) txs \<and> in_order nbs \<and>
     list_all (\<lambda>i. SbTimestamp (fst (nbs ! i)) = SbTimestamp (fst (nbs ! 0)) + blockTime * of_nat i) [0..<length nbs] \<and>
     steady (\<lambda>i. SbEpochNum (fst (nbs ! i))) (length nbs)"

definition derived_of :: "numbered list \<Rightarrow> SpanBatch" where
  "derived_of nbs = \<lparr>ParentCheck = check_of (SbParentHash (fst (hd nbs))), L1OriginCheck = check_of (SbEpochHash (fst (last nbs))),
     GenesisTimestamp = 0, Batches = map (singularBatchToElement \<circ> fst) nbs\<rparr>"

lemma length_check_of [simp]: "length (check_of h) = 20"
  by (simp add: check_of_def)

lemma block_tx_bound: "nb \<in> set nbs \<Longrightarrow> length (SbTransactions (fst nb)) \<le> length (all_txs nbs)"
  by (auto simp: all_txs_def in_set_conv_decomp)

lemma raw_roundtrip:
  assumes s: "span_of lib blockTime chainID nbs txs"
  shows "\<exists>raw enc. ToRawSpanBatch (built lib genesis chainID nbs txs) = Some raw \<and> encode_raw raw = Inr enc \<and>
    reads (decode_raw lib) enc (raw\<lparr>RawPayload := (RawPayload raw)\<lparr>payloadTxs := without_v (columns lib txs)\<rparr>\<rparr>) \<and>
    derive lib blockTime genesis chainID (raw\<lparr>RawPayload := (RawPayload raw)\<lparr>payloadTxs := without_v (columns lib txs)\<rparr>\<rparr>) =
      Inr (Inr (derived_of nbs))"
proof -
  let ?b = "built lib genesis chainID nbs txs" and ?n = "of_nat (length nbs) :: Word"
  let ?e = "\<lambda>i. SbEpochNum (fst (nbs ! i))" and ?bss = "map (SbTransactions \<circ> fst) nbs"
  let ?counts = "map (\<lambda>nb. of_nat (length (SbTransactions (fst nb))) :: Word) nbs"
  let ?bits = "bits_of (map (origin_flag nbs) [0..<length nbs])"
  have nbs: "nbs \<noteq> []" "0 < length nbs" and max: "length nbs \<le> MaxSpanBatchElementCount" "length txs \<le> MaxSpanBatchElementCount"
    and b: "list_all2 (batchable lib chainID) (all_txs nbs) txs" and st: "steady ?e (length nbs)"
    using s by (simp_all add: span_of_def)
  have "\<forall>i\<in>set [0..<length nbs]. SbTimestamp (fst (nbs ! i)) = SbTimestamp (fst (nbs ! 0)) + blockTime * of_nat i"
    using s unfolding span_of_def list_all_iff by blast
  then have time: "SbTimestamp (fst (nbs ! i)) = SbTimestamp (fst (nbs ! 0)) + blockTime * of_nat i" if "i < length nbs" for i
    by (rule bspec) (simp add: that)
  have n: "unat ?n = length nbs" by (rule small_word [OF max(1)])
  have len: "length (all_txs nbs) = length txs" using b by (rule list_all2_lengthD)
  have count: "unat (of_nat (length (SbTransactions (fst nb))) :: Word) = length (SbTransactions (fst nb))"
    "length (SbTransactions (fst nb)) \<le> MaxSpanBatchElementCount" if "nb \<in> set nbs" for nb
    using block_tx_bound [OF that] len max(2) by (auto intro!: small_word)
  have lens: "sum_list (map (\<lambda>nb. length (SbTransactions (fst nb))) nbs) = length txs"
    using len by (simp add: all_txs_def length_concat comp_def)
  have total: "total_txs 0 ?counts = Inr (of_nat (length txs))"
  proof -
    have "map unat ?counts = map (\<lambda>nb. length (SbTransactions (fst nb))) nbs" using count(1) by simp
    then have "sum_list (map unat ?counts) = length txs" by (simp only: lens)
    then have "unat (0 :: Word) + sum_list (map unat ?counts) < 2 ^ 64"
      using max(2) by (simp only: MaxSpanBatchElementCount_def) simp
    moreover have "sum_list ?counts = of_nat (sum_list (map (\<lambda>nb. length (SbTransactions (fst nb))) nbs))" by (induction nbs) simp_all
    ultimately show ?thesis using total_txs_sum [of 0 ?counts] lens by simp
  qed
  define pre where "pre = \<lparr>relTimestamp = SbTimestamp (fst (hd nbs)) - genesis, l1OriginNum = SbEpochNum (fst (last nbs)),
      parentCheck = check_of (SbParentHash (fst (hd nbs))), l1OriginCheck = check_of (SbEpochHash (fst (last nbs)))\<rparr>"
  define pl where "pl btx = \<lparr>blockCount = ?n, originBits = ?bits, blockTxCounts = ?counts, payloadTxs = btx\<rparr>" for btx
  have raw: "ToRawSpanBatch ?b = Some \<lparr>RawPrefix = pre, RawPayload = pl (columns lib txs)\<rparr>"
    using nbs by (simp add: ToRawSpanBatch_def built_def pre_def pl_def singularBatchToElement_def hd_map last_map)
  obtain ebits where ebits: "encodeSpanBatchBits ?n ?bits = Inr ebits"
    using encode_bits_of [of "map (origin_flag nbs) [0..<length nbs]" ?n] n by auto
  obtain etxs where etxs: "encode_txs (columns lib txs) = Inr etxs"
    "reads (decode_txs lib (of_nat (length txs))) etxs (without_v (columns lib txs))"
    using decode_columns [OF b max(2)] by blast
  have ecounts: "reads (decodeBlockTxCounts ?n) (concat (map PutUvarint ?counts)) ?counts"
  proof -
    have "reads read_tx_count (PutUvarint c) c" if c: "c \<in> set ?counts" for c
    proof -
      obtain nb where nb: "nb \<in> set nbs" "c = of_nat (length (SbTransactions (fst nb)))" using c by auto
      then show ?thesis using count [OF nb(1)] by (simp add: not_less reads_def read_tx_count_def reads_D [OF reads_uvarint])
    qed
    then show ?thesis using reads_times [of ?counts read_tx_count PutUvarint id] by (simp add: decodeBlockTxCounts_def n)
  qed
  have epl: "encodePayload (pl (columns lib txs)) = Inr (PutUvarint ?n @ ebits @ concat (map PutUvarint ?counts) @ etxs)"
    using ebits etxs(1) by (simp add: encodePayload_def encodeOriginBits_def encodeBlockTxCounts_def pl_def)
  have "?n \<noteq> 0" using n nbs(2) by (metis unat_0 less_irrefl)
  then have dpl: "reads (decodePayload lib) (PutUvarint ?n @ ebits @ concat (map PutUvarint ?counts) @ etxs) (pl (without_v (columns lib txs)))"
    using max n nbs(1) small_word [OF max(2)]
    by (simp add: reads_def decodePayload_def decodeBlockCount_def reads_D [OF reads_uvarint] decodeOriginBits_def reads_D [OF reads_bits [OF ebits]]
        reads_D [OF ecounts] decodeTxs_def total reads_D [OF etxs(2)] pl_def del: map_map)
  have "reads decodePrefix (encodePrefix pre) pre" by (rule reads_prefix) (simp_all add: pre_def)
  then have dec: "reads (decode_raw lib) (encodePrefix pre @ PutUvarint ?n @ ebits @ concat (map PutUvarint ?counts) @ etxs)
      \<lparr>RawPrefix = pre, RawPayload = pl (without_v (columns lib txs))\<rparr>"
    using dpl by (simp add: reads_def decode_raw_def)
  have enc: "encode_raw \<lparr>RawPrefix = pre, RawPayload = pl (columns lib txs)\<rparr> =
      Inr (encodePrefix pre @ PutUvarint ?n @ ebits @ concat (map PutUvarint ?counts) @ etxs)"
    using epl by (simp add: encode_raw_def)
  have nums: "origin_nums ?bits (length nbs) (l1OriginNum pre) [] = map ?e [0..<length nbs]"
  proof -
    have "Bit_of ?bits i = of_bool (?e (i - 1) < ?e i)" if "0 < i" "i < length nbs" for i
      using that by (simp add: origin_flag_def)
    moreover obtain m where "length nbs = Suc m" using nbs(2) by (cases "length nbs") auto
    ultimately show ?thesis using origin_nums_steady [OF st, of ?bits m "[]"] nbs(1) by (simp add: pre_def last_conv_nth)
  qed
  have blocks: "derive_blocks (genesis + relTimestamp pre) blockTime (map ?e [0..<length nbs]) ?counts (all_txs nbs) 0 [0..<length nbs] =
      Inr (map (singularBatchToElement \<circ> fst) nbs)"
  proof -
    have small: "list_all (\<lambda>bs. length bs < 2 ^ 63) ?bss"
      using count(2) by (fastforce simp: list_all_iff MaxSpanBatchElementCount_def)
    have counts: "map (\<lambda>bs. of_nat (length bs)) ?bss = ?counts" by simp
    have "map (\<lambda>i. \<lparr>ElEpochNum = map ?e [0..<length nbs] ! i, ElTimestamp = genesis + relTimestamp pre + blockTime * of_nat i,
          ElTransactions = ?bss ! i\<rparr>) [0..<length nbs] = map (singularBatchToElement \<circ> fst) nbs"
    proof (rule nth_equalityI)
      fix i
      assume "i < length (map (\<lambda>i. \<lparr>ElEpochNum = map ?e [0..<length nbs] ! i, ElTimestamp = genesis + relTimestamp pre + blockTime * of_nat i,
          ElTransactions = ?bss ! i\<rparr>) [0..<length nbs])"
      then have i: "i < length nbs" by simp
      have "genesis + relTimestamp pre + blockTime * of_nat i = SbTimestamp (fst (nbs ! i))"
        using nbs unfolding time [OF i] by (simp add: pre_def hd_conv_nth)
      then show "map (\<lambda>i. \<lparr>ElEpochNum = map ?e [0..<length nbs] ! i, ElTimestamp = genesis + relTimestamp pre + blockTime * of_nat i,
          ElTransactions = ?bss ! i\<rparr>) [0..<length nbs] ! i = map (singularBatchToElement \<circ> fst) nbs ! i"
        using i by (simp add: singularBatchToElement_def)
    qed simp
    then show ?thesis
      using derive_blocks_split [of "map ?e [0..<length nbs]" ?bss 0 "genesis + relTimestamp pre" blockTime] small
      unfolding counts by (simp add: all_txs_def)
  qed
  have "derive lib blockTime genesis chainID \<lparr>RawPrefix = pre, RawPayload = pl (without_v (columns lib txs))\<rparr> = Inr (Inr (derived_of nbs))"
    using \<open>?n \<noteq> 0\<close> n nums blocks recoverV_columns [OF b] fullTxs_columns [OF b] max(2)
    by (simp add: derive_def pl_def Let_def derived_of_def MaxSpanBatchElementCount_def) (simp add: pre_def)
  then show ?thesis using raw enc dec by (simp add: pl_def)
qed

text \<open>C4: Span batches lose nothing: when a batcher appends singular batches that are in order, one block time apart, with epochs
  that stay or advance by one and transactions that go-ethereum encodes and decodes, no append fails, and the typed
  encoding of the raw span batch is decoded and derived to exactly these batches, with the checks of the first parent
  hash and of the last epoch hash; neither the block numbers within the epochs nor the genesis time matter.\<close>

theorem span_batch_roundtrip:
  assumes "span_of lib blockTime chainID nbs txs"
  shows "\<exists>b raw enc raw'. append_all lib nbs (NewSpanBatch genesis chainID) = Inr (None, b) \<and> ToRawSpanBatch b = Some raw \<and>
    encodeTyped lib (InnerSpan raw) = Inr enc \<and> decodeTypedBatch lib enc = Inr (InnerSpan raw') \<and>
    derive lib blockTime genesis chainID raw' = Inr (Inr (derived_of nbs))"
proof -
  obtain raw enc where r: "ToRawSpanBatch (built lib genesis chainID nbs txs) = Some raw" "encode_raw raw = Inr enc"
    "reads (decode_raw lib) enc (raw\<lparr>RawPayload := (RawPayload raw)\<lparr>payloadTxs := without_v (columns lib txs)\<rparr>\<rparr>)"
    "derive lib blockTime genesis chainID (raw\<lparr>RawPayload := (RawPayload raw)\<lparr>payloadTxs := without_v (columns lib txs)\<rparr>\<rparr>) =
      Inr (Inr (derived_of nbs))"
    using raw_roundtrip [OF assms] by blast
  have "length txs < 2 ^ 64" using assms by (simp add: span_of_def MaxSpanBatchElementCount_def)
  then have "append_all lib nbs (NewSpanBatch genesis chainID) = Inr (None, built lib genesis chainID nbs txs)"
    using append_all_built [of lib chainID nbs txs "[]" "[]" genesis] assms by (simp add: span_of_def built_Nil)
  moreover have "decodeTypedBatch lib (SpanBatchType # enc) =
      Inr (InnerSpan (raw\<lparr>RawPayload := (RawPayload raw)\<lparr>payloadTxs := without_v (columns lib txs)\<rparr>\<rparr>))"
    using reads_D [OF r(3), of "[]"] by (simp add: decodeTypedBatch_def)
  ultimately show ?thesis using r by (auto simp: encodeTyped_def)
qed

section \<open>A concrete transaction library\<close>

definition sample_dynamic :: DynamicFeeTx where
  "sample_dynamic = \<lparr>DfChainID = 10, DfNonce = 300, DfGasTipCap = 1, DfGasFeeCap = 2, DfGas = 21000, DfTo = Some 0xabc, DfValue = 5,
     DfData = [], DfAccessList = [], DfV = 1, DfR = 7, DfS = 8\<rparr>"

definition sample_legacy :: LegacyTx where
  "sample_legacy = \<lparr>LgNonce = 0, LgGasPrice = 3, LgGas = 90000, LgTo = None, LgValue = 0, LgData = [9], LgV = 28, LgR = 11, LgS = 12\<rparr>"

fun sample_kind :: "byte list \<Rightarrow> rlp_kind" where
  "sample_kind (a # b # r) = (if a = 0xc1 then KindList (Some ([a, b], r)) else KindOther)"
| "sample_kind r = KindError"

definition sample_lib :: tx_lib where
  "sample_lib = \<lparr>TxUnmarshal = (\<lambda>bs. if bs = [2, 1] then Some (DynamicFee sample_dynamic) else if bs = [0xc2] then Some (Legacy sample_legacy) else None),
     TxMarshal = (\<lambda>tx. if tx = DynamicFee sample_dynamic then Some [2, 1] else if tx = Legacy sample_legacy then Some [0xc2] else None),
     TxProtected = (\<lambda>tx. tx \<noteq> Legacy sample_legacy), TxChainId = (\<lambda>tx. if tx = Legacy sample_legacy then 0 else 10),
     RlpEncode = (\<lambda>stx. Some [0xc1, case stx of LegacyData t \<Rightarrow> 0 | _ \<Rightarrow> 1]),
     RlpDecodeLegacy = (\<lambda>bs. Some \<lparr>SlValue = 0, SlGasPrice = 3, SlData = [9]\<rparr>),
     RlpDecodeAccessList = (\<lambda>bs. None),
     RlpDecodeDynamicFee = (\<lambda>bs. Some \<lparr>SdValue = 5, SdGasTipCap = 1, SdGasFeeCap = 2, SdData = [], SdAccessList = []\<rparr>),
     RlpKind = sample_kind, RlpEncodeSingular = (\<lambda>b. None), RlpDecodeSingular = (\<lambda>bs. None)\<rparr>"

definition sample_batches :: "numbered list" where
  "sample_batches =
     [(\<lparr>SbParentHash = 41, SbEpochNum = 150, SbEpochHash = 77, SbTimestamp = 3002, SbTransactions = [[2, 1], [0xc2]]\<rparr>, 3),
      (\<lparr>SbParentHash = 0, SbEpochNum = 151, SbEpochHash = 78, SbTimestamp = 3004, SbTransactions = []\<rparr>, 0),
      (\<lparr>SbParentHash = 0, SbEpochNum = 151, SbEpochHash = 78, SbTimestamp = 3006, SbTransactions = [[2, 1]]\<rparr>, 1)]"

lemma sample_batchable:
  "batchable sample_lib 10 [2, 1] (DynamicFee sample_dynamic)" "batchable sample_lib 10 [0xc2] (Legacy sample_legacy)"
  by (simp_all add: batchable_def signature_ok_def rlp_ok_def sample_lib_def sample_dynamic_def sample_legacy_def)

lemma sample_span_of:
  "span_of sample_lib 2 10 sample_batches [DynamicFee sample_dynamic, Legacy sample_legacy, DynamicFee sample_dynamic]"
proof -
  have "steady (\<lambda>i. SbEpochNum (fst (sample_batches ! i))) (length sample_batches)"
    unfolding steady_def
  proof (intro allI impI)
    fix i assume "Suc i < length sample_batches"
    then have "i = 0 \<or> i = 1" by (auto simp: sample_batches_def)
    then show "SbEpochNum (fst (sample_batches ! Suc i)) = SbEpochNum (fst (sample_batches ! i)) \<or>
        SbEpochNum (fst (sample_batches ! Suc i)) = SbEpochNum (fst (sample_batches ! i)) + 1 \<and>
        SbEpochNum (fst (sample_batches ! i)) < SbEpochNum (fst (sample_batches ! Suc i))"
      by (auto simp: sample_batches_def)
  qed
  moreover have "all_txs sample_batches = [[2, 1], [0xc2], [2, 1]]" by (simp add: all_txs_def sample_batches_def)
  moreover have "in_order sample_batches" by (simp add: in_order_def sample_batches_def)
  moreover have "list_all (\<lambda>i. SbTimestamp (fst (sample_batches ! i)) = SbTimestamp (fst (sample_batches ! 0)) + 2 * of_nat i) [0..<length sample_batches]"
    by (simp add: sample_batches_def upt_rec)
  ultimately show ?thesis
    using sample_batchable by (simp add: span_of_def MaxSpanBatchElementCount_def) (simp add: sample_batches_def)
qed

theorem span_batch_roundtrip_witness:
  "\<exists>b raw enc raw'. append_all sample_lib sample_batches (NewSpanBatch 1000 10) = Inr (None, b) \<and> ToRawSpanBatch b = Some raw \<and>
    encodeTyped sample_lib (InnerSpan raw) = Inr enc \<and> decodeTypedBatch sample_lib enc = Inr (InnerSpan raw') \<and>
    derive sample_lib 2 1000 10 raw' = Inr (Inr (derived_of sample_batches))"
  by (rule span_batch_roundtrip [OF sample_span_of])

section \<open>Spans from any bytes\<close>

definition columns_ok :: "spanBatchTxs \<Rightarrow> bool" where
  "columns_ok btx \<longleftrightarrow> (let n = unat (totalBlockTxCount btx)
     in length (txSigs btx) = n \<and> length (txNonces btx) = n \<and> length (txGases btx) = n \<and> length (txDatas btx) = n \<and> length (txTypes btx) = n)"

lemma decode_txs_ok: "decode_txs lib n r = Inr (btx, r') \<Longrightarrow> columns_ok btx \<and> totalBlockTxCount btx = n"
  by (auto simp: decode_txs_def res_simps Let_def columns_ok_def dest: read_times_length split: if_splits)

lemma recover_from_length: "recover_from chainID parity protected idx pidx ts = Inr vs \<Longrightarrow> length vs = length ts"
  by (induction ts arbitrary: idx pidx vs) (auto simp: res_simps Let_def split: if_splits)

lemma recoverV_ok: "recoverV chainID btx = Inr btx' \<Longrightarrow> columns_ok btx \<Longrightarrow> columns_ok btx' \<and> totalBlockTxCount btx' = totalBlockTxCount btx"
  by (auto simp: recoverV_def res_simps columns_ok_def Let_def dest: recover_from_length split: if_splits)

lemma full_txs_total:
  assumes "columns_ok btx"
  shows "list_all (\<lambda>i. i < unat (totalBlockTxCount btx)) is \<Longrightarrow>
    \<exists>r. full_txs_from lib chainID btx toIdx is = Inr r \<and> (\<forall>txs. r = Inr txs \<longrightarrow> length txs = length is)"
proof (induction "is" arbitrary: toIdx)
  case (Cons i "is")
  have idx: "i < length (txDatas btx)" "i < length (txNonces btx)" "i < length (txGases btx)" "i < length (txSigs btx)"
    using assms Cons.prems by (simp_all add: columns_ok_def Let_def)
  show ?case
  proof (cases "spanTx_UnmarshalBinary lib (txDatas btx ! i)")
    case (Inl e)
    then show ?thesis using idx by (simp add: at_index_def)
  next
    case (Inr stx)
    let ?to = "if Bit_of (contractCreationBits btx) i = 0 then
        if length (txTos btx) \<le> toIdx then Inl NotEnoughTo else Inr (Some (txTos btx ! toIdx), Suc toIdx) else Inr (None, toIdx)"
    show ?thesis
    proof (cases ?to)
      case (Inl e)
      then show ?thesis using idx Inr by (simp add: at_index_def)
    next
      case to: (Inr p)
      obtain to toIdx' where p: "p = (to, toIdx')" by (cases p)
      let ?tx = "TxMarshal lib (convertToFullTx (txNonces btx ! i) (txGases btx ! i) to chainID (unat (SigV (txSigs btx ! i)))
          (unat (SigR (txSigs btx ! i))) (unat (SigS (txSigs btx ! i))) stx)"
      obtain r where r: "full_txs_from lib chainID btx toIdx' is = Inr r" "\<forall>txs. r = Inr txs \<longrightarrow> length txs = length is"
        using Cons.IH [of toIdx'] Cons.prems by auto
      then show ?thesis using idx Inr to p by (cases ?tx; cases r) (simp_all add: at_index_def)
    qed
  qed
qed simp

lemma derive_blocks_total:
  assumes "length nums = length counts" "\<And>c. c \<in> set counts \<Longrightarrow> unat c \<le> MaxSpanBatchElementCount"
    and total: "sum_list (map unat counts) \<le> length txs"
  shows "k \<le> length counts \<Longrightarrow>
    \<exists>els. derive_blocks start blockTime nums counts txs (sum_list (map unat (take k counts))) [k..<length counts] = Inr els \<and>
      map ElEpochNum els = drop k nums \<and> map ElTimestamp els = map (\<lambda>i. start + blockTime * of_nat i) [k..<length counts]"
proof (induction "length counts - k" arbitrary: k)
  case 0
  then show ?case using assms(1) by simp
next
  case (Suc m)
  then have k: "k < length counts" by simp
  let ?c = "counts ! k"
  have "unat ?c < 2 ^ 63" using assms(2) [OF nth_mem [OF k]] by (simp add: MaxSpanBatchElementCount_def)
  then have "int (unat ?c) < int (2 ^ 63)" by (simp only: of_nat_less_iff)
  then have "uint ?c < 2 ^ 63" by simp
  then have "signed_take_bit 63 (uint ?c) = uint ?c" by (intro signed_take_bit_int_eq_self) (simp_all add: order_trans [of _ 0])
  then have c: "nat (sint ?c) = unat ?c" by (simp add: sint_uint)
  have take: "sum_list (map unat (take k counts)) + unat ?c = sum_list (map unat (take (Suc k) counts))"
    using k by (simp add: take_Suc_conv_app_nth)
  have "sum_list (map unat counts) = sum_list (map unat (take (Suc k) counts)) + sum_list (map unat (drop (Suc k) counts))"
    by (metis append_take_drop_id map_append sum_list_append)
  then have fits: "sum_list (map unat (take k counts)) + unat ?c \<le> length txs" using total take by linarith
  obtain els where els: "derive_blocks start blockTime nums counts txs (sum_list (map unat (take (Suc k) counts))) [Suc k..<length counts] = Inr els"
    "map ElEpochNum els = drop (Suc k) nums" "map ElTimestamp els = map (\<lambda>i. start + blockTime * of_nat i) [Suc k..<length counts]"
  proof -
    have m: "m = length counts - Suc k" "Suc k \<le> length counts" using Suc.hyps(2) k by simp_all
    show thesis using Suc.hyps(1) [OF m] that by blast
  qed
  have upt: "[k..<length counts] = k # [Suc k..<length counts]" using k by (rule upt_conv_Cons)
  have drop: "drop k nums = nums ! k # drop (Suc k) nums" using k assms(1) by (simp add: Cons_nth_drop_Suc)
  show ?case
    unfolding upt derive_blocks.simps drop
    using k c take fits els assms(1) by (simp add: at_index_def next_txs_def Let_def)
qed

text \<open>What a decoded raw span batch keeps.\<close>

definition raw_ok :: "RawSpanBatch \<Rightarrow> bool" where
  "raw_ok b \<longleftrightarrow>
     (let pl = RawPayload b
      in blockCount pl \<noteq> 0 \<and> unat (blockCount pl) \<le> MaxSpanBatchElementCount \<and> length (blockTxCounts pl) = unat (blockCount pl) \<and>
         list_all (\<lambda>c. unat c \<le> MaxSpanBatchElementCount) (blockTxCounts pl) \<and>
         sum_list (map unat (blockTxCounts pl)) = unat (totalBlockTxCount (payloadTxs pl)) \<and>
         unat (totalBlockTxCount (payloadTxs pl)) \<le> MaxSpanBatchElementCount \<and> columns_ok (payloadTxs pl))"

lemma total_txs_Inr: "total_txs acc cs = Inr n \<Longrightarrow> unat n = unat acc + sum_list (map unat cs)"
proof (induction cs arbitrary: acc)
  case (Cons c cs)
  then have less: "unat acc + unat c < 2 ^ 64" and rest: "total_txs (acc + c) cs = Inr n" by (simp_all split: if_splits)
  from less have "unat (acc + c) = unat acc + unat c" by (simp add: unat_word_ariths)
  then show ?case using Cons.IH [OF rest] by simp
qed simp

lemma decodeTxs_ok: "decodeTxs lib counts r = Inr (btx, r') \<Longrightarrow>
    unat (totalBlockTxCount btx) = sum_list (map unat counts) \<and> unat (totalBlockTxCount btx) \<le> MaxSpanBatchElementCount \<and> columns_ok btx"
  by (auto simp: decodeTxs_def res_simps dest!: total_txs_Inr decode_txs_ok split: if_splits)

lemma decode_counts_ok:
  assumes "decodeBlockTxCounts n r = Inr (counts, r')"
  shows "length counts = unat n \<and> list_all (\<lambda>c. unat c \<le> MaxSpanBatchElementCount) counts"
proof -
  have d: "read_times (unat n) read_tx_count r = Inr (counts, r')" using assms by (simp add: decodeBlockTxCounts_def)
  have "list_all (\<lambda>c. unat c \<le> MaxSpanBatchElementCount) counts"
    by (rule read_times_all [OF _ d]) (auto simp: read_tx_count_def res_simps split: if_splits)
  then show ?thesis using read_times_length [OF d] by blast
qed

lemma decode_raw_ok: "decode_raw lib bs = Inr (raw, r) \<Longrightarrow> raw_ok raw"
  by (auto simp: decode_raw_def decodePayload_def decodeBlockCount_def res_simps raw_ok_def Let_def not_less
      dest!: decodeTxs_ok decode_counts_ok split: if_splits)

text \<open>The shape of a derived span: timestamps one block time apart and steady epochs, both modulo \<open>2\<^sup>6\<^sup>4\<close>.\<close>

definition span_shape :: "Word \<Rightarrow> SpanBatch \<Rightarrow> bool" where
  "span_shape blockTime b \<longleftrightarrow> 0 < GetBlockCount b \<and> GetBlockCount b \<le> MaxSpanBatchElementCount \<and>
     (\<forall>i<GetBlockCount b. ElTimestamp (element b i) = ElTimestamp (element b 0) + blockTime * of_nat i) \<and>
     (\<forall>i. Suc i < GetBlockCount b \<longrightarrow> ElEpochNum (element b (Suc i)) - ElEpochNum (element b i) \<in> {0, 1})"

lemma origin_nums_steps:
  "(\<forall>i. Suc i < length acc \<longrightarrow> acc ! Suc i - acc ! i \<in> {0, 1}) \<Longrightarrow> (acc \<noteq> [] \<Longrightarrow> hd acc - num \<in> {0, 1}) \<Longrightarrow>
   Suc i < n + length acc \<Longrightarrow> origin_nums bits n num acc ! Suc i - origin_nums bits n num acc ! i \<in> {0, 1 :: Word}"
proof (induction n arbitrary: num acc)
  case (Suc n)
  have "\<forall>j. Suc j < length (num # acc) \<longrightarrow> (num # acc) ! Suc j - (num # acc) ! j \<in> {0, 1}"
  proof (intro allI impI)
    fix j assume "Suc j < length (num # acc)"
    then show "(num # acc) ! Suc j - (num # acc) ! j \<in> {0, 1}" using Suc.prems(1,2) by (cases j) (auto simp: hd_conv_nth)
  qed
  then show ?case using Suc.IH [of "num # acc" "if Bit_of bits n = 1 \<and> 0 < n then num - 1 else num"] Suc.prems(3) by simp
qed simp

lemma span_shape_derived:
  assumes s: "span_shape (BlockTime cfg) b" and bt: "BlockTime cfg \<noteq> 0"
    and time: "unat (ElTimestamp (element b 0)) + MaxSpanBatchElementCount * unat (BlockTime cfg) < 2 ^ 64"
    and epoch: "unat (ElEpochNum (element b 0)) + MaxSpanBatchElementCount < 2 ^ 64"
  shows "derived_span cfg b"
proof -
  let ?n = "GetBlockCount b" and ?bt = "unat (BlockTime cfg)"
  have n: "0 < ?n" "?n \<le> MaxSpanBatchElementCount" using s by (simp_all add: span_shape_def)
  have times: "unat (ElTimestamp (element b i)) = unat (ElTimestamp (element b 0)) + i * ?bt" if i: "i < ?n" for i
  proof -
    have "i * ?bt \<le> MaxSpanBatchElementCount * ?bt" using i n by (intro mult_right_mono) simp_all
    then have less: "unat (ElTimestamp (element b 0)) + i * ?bt < 2 ^ 64" using time by linarith
    have "ElTimestamp (element b i) = ElTimestamp (element b 0) + BlockTime cfg * of_nat i"
      using s i unfolding span_shape_def by blast
    also have "\<dots> = of_nat (unat (ElTimestamp (element b 0)) + i * ?bt)" by (simp add: mult.commute)
    finally show ?thesis using less by (simp only: unat_of_nat) simp
  qed
  have epochs: "unat (ElEpochNum (element b i)) \<le> unat (ElEpochNum (element b 0)) + i \<and>
      (0 < i \<longrightarrow> unat (ElEpochNum (element b i)) - unat (ElEpochNum (element b (i - 1))) \<le> 1 \<and>
        ElEpochNum (element b (i - 1)) \<le> ElEpochNum (element b i))" if "i < ?n" for i
    using that
  proof (induction i)
    case (Suc i)
    let ?e = "\<lambda>i. ElEpochNum (element b i)"
    have le: "unat (?e i) \<le> unat (?e 0) + i" using Suc by simp
    then have "unat (?e i) + 1 < 2 ^ 64" using Suc.prems n(2) epoch by linarith
    then have one: "unat (?e i + 1) = unat (?e i) + 1" by (simp add: unat_word_ariths)
    have "?e (Suc i) - ?e i \<in> {0, 1}" using s Suc.prems unfolding span_shape_def by blast
    then have "?e (Suc i) = ?e i \<or> ?e (Suc i) = ?e i + 1" by (simp add: diff_eq_eq add.commute)
    then show ?case using le one by (auto simp: word_le_nat_alt)
  qed simp
  show ?thesis
    unfolding derived_span_def list_all_iff
  proof (intro conjI ballI)
    show "Batches b \<noteq> []" using n(1) by (simp add: GetBlockCount_def)
    show "BlockTime cfg \<noteq> 0" by (rule bt)
  next
    fix i assume "i \<in> set [0..<?n]"
    then have "i < ?n" by simp
    then show "unat (ElTimestamp (element b i)) = unat (ElTimestamp (element b 0)) + i * ?bt" by (rule times)
  next
    fix i assume "i \<in> set [0..<?n - 1]"
    then have "Suc i < ?n" by auto
    from epochs [OF this]
    show "unat (ElEpochNum (element b (Suc i))) - unat (ElEpochNum (element b i)) \<le> 1"
      "ElEpochNum (element b i) \<le> ElEpochNum (element b (Suc i))" by simp_all
  qed
qed

lemma derive_decoded:
  assumes "decode_raw lib bs = Inr (raw, r)"
  shows "\<exists>res. derive lib blockTime genesis chainID raw = Inr res \<and>
    (\<forall>b. res = Inr b \<longrightarrow> span_shape blockTime b \<and> GetBlockCount b = unat (blockCount (RawPayload raw)) \<and>
       ElEpochNum (last (Batches b)) = l1OriginNum (RawPrefix raw) \<and> ElTimestamp (hd (Batches b)) = genesis + relTimestamp (RawPrefix raw))"
proof -
  let ?pl = "RawPayload raw" and ?pre = "RawPrefix raw"
  let ?n = "unat (blockCount ?pl)"
  have ok: "blockCount ?pl \<noteq> 0" "?n \<le> MaxSpanBatchElementCount" "length (blockTxCounts ?pl) = ?n" "columns_ok (payloadTxs ?pl)"
    "sum_list (map unat (blockTxCounts ?pl)) = unat (totalBlockTxCount (payloadTxs ?pl))"
    and counts: "\<And>c. c \<in> set (blockTxCounts ?pl) \<Longrightarrow> unat c \<le> MaxSpanBatchElementCount"
    using decode_raw_ok [OF assms] by (auto simp: raw_ok_def Let_def list_all_iff)
  have n: "0 < ?n" using ok(1) by (simp add: unat_gt_0)
  let ?nums = "origin_nums (originBits ?pl) ?n (l1OriginNum ?pre) []" and ?start = "genesis + relTimestamp ?pre"
  show ?thesis
  proof (cases "recoverV chainID (payloadTxs ?pl)")
    case (Inl e)
    then show ?thesis using ok(1) by (simp add: derive_def Let_def)
  next
    case (Inr btx)
    have btx: "columns_ok btx" "totalBlockTxCount btx = totalBlockTxCount (payloadTxs ?pl)" using recoverV_ok [OF Inr ok(4)] by simp_all
    obtain res where f: "fullTxs lib chainID btx = Inr res" "\<forall>txs. res = Inr txs \<longrightarrow> length txs = unat (totalBlockTxCount btx)"
      using full_txs_total [OF btx(1), of "[0..<unat (totalBlockTxCount btx)]" lib chainID 0] by (auto simp: fullTxs_def list_all_iff)
    show ?thesis
    proof (cases res)
      case (Inl e)
      then show ?thesis using ok(1) Inr f by (simp add: derive_def Let_def)
    next
      case res: (Inr txs)
      have "sum_list (map unat (blockTxCounts ?pl)) \<le> length txs" using f(2) res ok(5) btx(2) by simp
      then obtain els where els: "derive_blocks ?start blockTime ?nums (blockTxCounts ?pl) txs 0 [0..<?n] = Inr els"
        "map ElEpochNum els = ?nums" "map ElTimestamp els = map (\<lambda>i. ?start + blockTime * of_nat i) [0..<?n]"
        using derive_blocks_total [of ?nums "blockTxCounts ?pl" txs 0 ?start blockTime] counts ok(3) origin_nums_length [of "originBits ?pl" ?n]
        by auto
      have len: "length els = ?n" using arg_cong [OF els(3), of length] by simp
      have time: "ElTimestamp (els ! i) = ?start + blockTime * of_nat i" if "i < ?n" for i
        using arg_cong [OF els(3), of "\<lambda>xs. xs ! i"] that len by simp
      have epoch: "ElEpochNum (els ! i) = ?nums ! i" if "i < ?n" for i
        using arg_cong [OF els(2), of "\<lambda>xs. xs ! i"] that len by simp
      let ?b = "\<lparr>ParentCheck = parentCheck ?pre, L1OriginCheck = l1OriginCheck ?pre, GenesisTimestamp = 0, Batches = els\<rparr>"
      have run: "derive lib blockTime genesis chainID raw = Inr (Inr ?b)"
        using ok(1) Inr f(1) res els(1) by (simp add: derive_def Let_def)
      have "span_shape blockTime ?b"
        unfolding span_shape_def GetBlockCount_def
        using n ok(2) len time epoch origin_nums_steps [of "[]" "l1OriginNum ?pre" _ ?n "originBits ?pl"] by simp
      moreover have "ElEpochNum (last els) = l1OriginNum ?pre"
      proof -
        obtain m where m: "?n = Suc m" using n by (cases ?n) auto
        then have "last els = els ! m" using len n by (subst last_conv_nth) auto
        then show ?thesis using epoch [of m] origin_nums_last [of "originBits ?pl" m "l1OriginNum ?pre" "[]"] m by simp
      qed
      moreover have "ElTimestamp (hd els) = ?start" using time [of 0] n len by (cases els) simp_all
      ultimately show ?thesis using run len by (simp add: GetBlockCount_def)
    qed
  qed
qed

text \<open>C24: Whatever the bytes, what is decoded as a raw span batch can be derived: no index is out of range, the result is an
  error or a span of at least one and at most MaxSpanBatchElementCount blocks, as many as the payload says, whose
  timestamps are one block time apart and whose epochs stay or advance by one up to the origin of the prefix.\<close>

theorem decoded_span_derives:
  assumes "decode_raw lib bs = Inr (raw, r)"
  shows "\<exists>res. derive lib blockTime genesis chainID raw = Inr res \<and>
    (\<forall>b. res = Inr b \<longrightarrow> span_shape blockTime b \<and> GetBlockCount b = unat (blockCount (RawPayload raw)) \<and>
       ElEpochNum (last (Batches b)) = l1OriginNum (RawPrefix raw) \<and> ElTimestamp (hd (Batches b)) = genesis + relTimestamp (RawPrefix raw))"
  by (rule derive_decoded [OF assms])

definition sample_bytes :: "byte list" where
  "sample_bytes = [3, 5] @ replicate 40 0 @ [1, 1, 0]"

definition sample_raw :: RawSpanBatch where
  "sample_raw = \<lparr>RawPrefix = \<lparr>relTimestamp = 3, l1OriginNum = 5, parentCheck = replicate 20 0, l1OriginCheck = replicate 20 0\<rparr>,
     RawPayload = \<lparr>blockCount = 1, originBits = 1, blockTxCounts = [0], payloadTxs = empty_txs\<rparr>\<rparr>"

lemma sample_decoded: "decode_raw sample_lib sample_bytes = Inr (sample_raw, [])"
proof -
  have small: "ReadUvarint (b # r) = Inr (ucast b, r)" if "b < 128" for b r
    using that by (simp add: ReadUvarint_def uvarint_or_def)
  have pre: "decodePrefix sample_bytes = Inr (RawPrefix sample_raw, [1, 1, 0])"
    by (simp add: decodePrefix_def sample_bytes_def small take_full_def sample_raw_def)
  have none: "decodeSpanBatchBits 0 r = Inr (0, r)" for r
    by (simp add: decode_bits_Inr bits_bytes_def)
  have one: "decodeSpanBatchBits 1 [1, 0] = Inr (1, [0])"
    by (simp add: decode_bits_Inr bits_bytes_def)
  have "decode_txs sample_lib 0 [] = Inr (empty_txs, [])"
    by (simp add: decode_txs_def none empty_txs_def)
  then have "decodePayload sample_lib [1, 1, 0] = Inr (RawPayload sample_raw, [])"
    using one by (simp add: decodePayload_def decodeBlockCount_def small decodeOriginBits_def decodeBlockTxCounts_def read_tx_count_def
        decodeTxs_def MaxSpanBatchElementCount_def sample_raw_def)
  then show ?thesis using pre by (simp add: decode_raw_def)
qed

theorem decoded_span_derives_witness:
  "\<exists>b. derive sample_lib 2 1000 10 sample_raw = Inr (Inr b) \<and> span_shape 2 b \<and> ElEpochNum (last (Batches b)) = 5"
proof -
  have "derive sample_lib 2 1000 10 sample_raw =
      Inr (Inr \<lparr>ParentCheck = replicate 20 0, L1OriginCheck = replicate 20 0, GenesisTimestamp = 0,
        Batches = [\<lparr>ElEpochNum = 5, ElTimestamp = 1003, ElTransactions = []\<rparr>]\<rparr>)"
    by code_simp
  then show ?thesis using decoded_span_derives [OF sample_decoded, of 2 1000 10] by (simp add: sample_raw_def)
qed

end
