(* ===== verification/Batch_Stage.thy ===== *)
theory Batch_Stage
  imports Batch_Span
begin

text \<open>
  The batch stages: \<open>op-node/rollup/derive/base_batch_stage.go\<close>, the Holocene stage of \<open>batch_stage.go\<close>, the queue of
  \<open>batch_queue.go\<close> and the multiplexer of \<open>batch_mux.go\<close>.  The previous stage is a puller of batches with its origin and
  its \<open>FlushChannel\<close>; the state of a stage holds the state of the previous one.
\<close>

section \<open>What the stages share\<close>

record 's BatchBase =
  BsPrev :: 's
  BsOrigin :: L1BlockRef
  BsL1Blocks :: "L1BlockRef list"
  BsNextSpan :: "SingularBatch list"

definition newBaseBatchStage :: "'s \<Rightarrow> 's BatchBase" where
  "newBaseBatchStage prev = \<lparr>BsPrev = prev, BsOrigin = zero_L1BlockRef, BsL1Blocks = [], BsNextSpan = []\<rparr>"

definition popNextBatch :: "L2BlockRef \<Rightarrow> 's BatchBase \<Rightarrow> (SingularBatch \<times> 's BatchBase) res" where
  "popNextBatch parent bs =
     (case BsNextSpan bs of
        [] \<Rightarrow> Inl PopEmptySpan
      | nextBatch # rest \<Rightarrow> Inr (nextBatch\<lparr>SbParentHash := L2Hash parent\<rparr>, bs\<lparr>BsNextSpan := rest\<rparr>))"

definition nextFromSpanBatch :: "Config \<Rightarrow> L2BlockRef \<Rightarrow> 's BatchBase \<Rightarrow> ((SingularBatch \<times> bool) option \<times> 's BatchBase) res" where
  "nextFromSpanBatch cfg parent bs =
     (if 0 < length (BsNextSpan bs) then
        if SbTimestamp (BsNextSpan bs ! 0) = L2Time parent + BlockTime cfg then
          bind_res (popNextBatch parent bs) (\<lambda>(nextBatch, bs). Inr (Some (nextBatch, length (BsNextSpan bs) = 0), bs))
        else Inr (None, bs\<lparr>BsNextSpan := []\<rparr>)
      else Inr (None, bs))"

definition originBehind :: "('s \<Rightarrow> L1BlockRef) \<Rightarrow> L2BlockRef \<Rightarrow> 's BatchBase \<Rightarrow> bool" where
  "originBehind origin parent bs \<longleftrightarrow> L1Number (origin (BsPrev bs)) < BidNumber (L1Origin parent)"

text \<open>The loop that looks for the parent's origin among the L1 blocks; when it is not there they stay.\<close>

definition advance_to :: "Word \<Rightarrow> L1BlockRef list \<Rightarrow> L1BlockRef list" where
  "advance_to n l1Blocks = (case dropWhile (\<lambda>b. L1Number b \<noteq> n) l1Blocks of [] \<Rightarrow> l1Blocks | rest \<Rightarrow> rest)"

definition updateOrigins :: "('s \<Rightarrow> L1BlockRef) \<Rightarrow> L2BlockRef \<Rightarrow> 's BatchBase \<Rightarrow> 's BatchBase" where
  "updateOrigins origin parent bs =
     (let behind = originBehind origin parent bs;
          new = origin (BsPrev bs);
          bs = (if BsOrigin bs \<noteq> new
                then bs\<lparr>BsOrigin := new, BsL1Blocks := (if \<not> behind then BsL1Blocks bs @ [new] else [])\<rparr> else bs)
      in if 0 < length (BsL1Blocks bs) \<and> L1Number (BsL1Blocks bs ! 0) < BidNumber (L1Origin parent)
         then bs\<lparr>BsL1Blocks := advance_to (BidNumber (L1Origin parent)) (BsL1Blocks bs)\<rparr> else bs)"

definition base_reset :: "L1BlockRef \<Rightarrow> 's BatchBase \<Rightarrow> 's BatchBase" where
  "base_reset base bs = bs\<lparr>BsOrigin := base, BsL1Blocks := [base], BsNextSpan := []\<rparr>"

definition deriveNextEmptyBatch ::
    "Config \<Rightarrow> bool \<Rightarrow> L2BlockRef \<Rightarrow> 's BatchBase \<Rightarrow> (SingularBatch outcome \<times> 's BatchBase) res" where
  "deriveNextEmptyBatch cfg outOfData parent bs =
     (case BsL1Blocks bs of
        [] \<Rightarrow> Inl IndexOutOfRange
      | epoch # later \<Rightarrow>
          let expiryEpoch = L1Number epoch + SeqWindowSize cfg;
              forceEmptyBatches = (expiryEpoch = L1Number (BsOrigin bs) \<and> outOfData) \<or> expiryEpoch < L1Number (BsOrigin bs);
              firstOfEpoch = L1Number epoch = BidNumber (L1Origin parent) + 1;
              nextTimestamp = L2Time parent + BlockTime cfg
          in Inr (if \<not> forceEmptyBatches then (Inl IoEOF, bs)
                  else
                    (case later of
                       [] \<Rightarrow> (Inl IoEOF, bs)
                     | nextEpoch # _ \<Rightarrow>
                         if nextTimestamp < L1Time nextEpoch \<or> firstOfEpoch then
                           (Inr \<lparr>SbParentHash = L2Hash parent, SbEpochNum = L1Number epoch, SbEpochHash = L1Hash epoch,
                                 SbTimestamp = nextTimestamp, SbTransactions = []\<rparr>, bs)
                         else (Inl IoEOF, bs\<lparr>BsL1Blocks := later\<rparr>))))"

section \<open>The Holocene batch stage\<close>

text \<open>A pipeline position: the previous stage's pull, origin and flush, and the L2 client.\<close>

record 's BatchEnv =
  PullBatch :: "('s, Batch) puller"
  PrevOrigin :: "'s \<Rightarrow> L1BlockRef"
  PrevFlush :: "'s \<Rightarrow> 's res"
  L2Fetcher :: SafeBlockFetcher

definition BatchStage_Reset :: "L1BlockRef \<Rightarrow> 's BatchBase \<Rightarrow> derive_error \<times> 's BatchBase" where
  "BatchStage_Reset base bs = (IoEOF, base_reset base bs)"

definition BatchStage_FlushChannel :: "'s BatchEnv \<Rightarrow> 's BatchBase \<Rightarrow> 's BatchBase res" where
  "BatchStage_FlushChannel env bs =
     bind_res (PrevFlush env (BsPrev bs)) (\<lambda>prev. Inr (bs\<lparr>BsNextSpan := [], BsPrev := prev\<rparr>))"

definition nextSingularBatchCandidate ::
    "Config \<Rightarrow> 's BatchEnv \<Rightarrow> L2BlockRef \<Rightarrow> 's BatchBase \<Rightarrow> (SingularBatch outcome \<times> 's BatchBase) res" where
  "nextSingularBatchCandidate cfg env parent bs =
     bind_res (nextFromSpanBatch cfg parent bs) (\<lambda>(nextBatch, bs).
       case nextBatch of
         Some (batch, _) \<Rightarrow> Inr (Inr batch, bs)
       | None \<Rightarrow>
           bind_res (PullBatch env (BsPrev bs)) (\<lambda>(r, prev).
             let bs = bs\<lparr>BsPrev := prev\<rparr>
             in case r of
                  Inl err \<Rightarrow> Inr (Inl err, bs)
                | Inr (Singular singularBatch) \<Rightarrow> Inr (Inr singularBatch, bs)
                | Inr (Span spanBatch) \<Rightarrow>
                    bind_res (checkSpanBatchPrefix cfg (BsL1Blocks bs) parent spanBatch (BsOrigin bs) (L2Fetcher env)) (\<lambda>(validity, _).
                      case validity of
                        BatchPast \<Rightarrow> Inr (Inl NotEnoughData, bs)
                      | BatchDrop \<Rightarrow> bind_res (BatchStage_FlushChannel env bs) (\<lambda>bs. Inr (Inl NotEnoughData, bs))
                      | BatchUndecided \<Rightarrow> Inr (Inl NotEnoughData, bs)
                      | BatchFuture \<Rightarrow> Inr (Inl (Leveled LevelCritical), bs)
                      | BatchAccept \<Rightarrow>
                          (case GetSingularBatches spanBatch (BsL1Blocks bs) parent of
                             None \<Rightarrow> Inr (Inl (Leveled LevelCritical), bs)
                           | Some singularBatches \<Rightarrow>
                               bind_res (popNextBatch parent (bs\<lparr>BsNextSpan := singularBatches\<rparr>)) (\<lambda>(b, bs). Inr (Inr b, bs))))))"

definition BatchStage_NextBatch ::
    "Config \<Rightarrow> 's BatchEnv \<Rightarrow> L2BlockRef \<Rightarrow> 's BatchBase \<Rightarrow> ((SingularBatch \<times> bool) outcome \<times> 's BatchBase) res" where
  "BatchStage_NextBatch cfg env parent bs =
     (let bs = updateOrigins (PrevOrigin env) parent bs
      in if originBehind (PrevOrigin env) parent bs \<or> BidNumber (L1Origin parent) = L1Number (BsOrigin bs) then
           bind_res (PullBatch env (BsPrev bs)) (\<lambda>(r, prev).
             Inr (case r of Inl err \<Rightarrow> Inl err | Inr _ \<Rightarrow> Inl NotEnoughData, bs\<lparr>BsPrev := prev\<rparr>))
         else if length (BsL1Blocks bs) < 2 then Inr (Inl (Leveled LevelCritical), bs)
         else
           let epoch = BsL1Blocks bs ! 0
           in if L1Origin parent \<noteq> \<lparr>BidHash = L1Hash epoch, BidNumber = L1Number epoch\<rparr> \<and>
                 BidNumber (L1Origin parent) \<noteq> L1Number epoch - 1 then Inr (Inl (Leveled LevelReset), bs)
              else
                bind_res (nextSingularBatchCandidate cfg env parent bs) (\<lambda>(r, bs).
                  case r of
                    Inl err \<Rightarrow>
                      if err = IoEOF then
                        bind_res (deriveNextEmptyBatch cfg True parent bs) (\<lambda>(r, bs).
                          Inr (case r of Inl err \<Rightarrow> Inl err | Inr b \<Rightarrow> Inr (b, True), bs))
                      else Inr (Inl err, bs)
                  | Inr batch \<Rightarrow>
                      (case checkSingularBatch cfg (BsL1Blocks bs) parent batch (BsOrigin bs) of
                         BatchAccept \<Rightarrow> Inr (Inr (batch, True), bs)
                       | BatchPast \<Rightarrow> Inr (Inl NotEnoughData, bs)
                       | BatchDrop \<Rightarrow> bind_res (BatchStage_FlushChannel env bs) (\<lambda>bs. Inr (Inl NotEnoughData, bs))
                       | BatchUndecided \<Rightarrow> Inr (Inl NotEnoughData, bs)
                       | BatchFuture \<Rightarrow> Inr (Inl (Leveled LevelCritical), bs))))"

section \<open>The batch queue\<close>

record 's BatchQueue =
  BqBase :: "'s BatchBase"
  BqBatches :: "BatchWithL1InclusionBlock list"

text \<open>What checking a span needs of transactions.\<close>

record tx_env =
  TxSelectors :: selectors
  DecodeTx :: "byte list \<Rightarrow> Transaction option"

definition NewBatchQueue :: "'s \<Rightarrow> 's BatchQueue" where
  "NewBatchQueue prev = \<lparr>BqBase = newBaseBatchStage prev, BqBatches = []\<rparr>"

definition BatchQueue_Reset :: "L1BlockRef \<Rightarrow> 's BatchQueue \<Rightarrow> derive_error \<times> 's BatchQueue" where
  "BatchQueue_Reset base bq = (IoEOF, \<lparr>BqBase = base_reset base (BqBase bq), BqBatches = []\<rparr>)"

definition BatchQueue_FlushChannel :: "'s BatchQueue \<Rightarrow> 's BatchQueue res" where
  "BatchQueue_FlushChannel bq = Inl InvalidFlushChannel"

definition AddBatch ::
    "Config \<Rightarrow> tx_env \<Rightarrow> SafeBlockFetcher \<Rightarrow> Batch \<Rightarrow> L2BlockRef \<Rightarrow> 's BatchQueue \<Rightarrow> 's BatchQueue res" where
  "AddBatch cfg te l2 batch parent bq =
     (if length (BsL1Blocks (BqBase bq)) = 0 then Inl NoOriginPrepared
      else
        let dat = \<lparr>BwBatch = batch, L1InclusionBlock = BsOrigin (BqBase bq)\<rparr>
        in bind_res (CheckBatch (TxSelectors te) cfg (DecodeTx te) (BsL1Blocks (BqBase bq)) parent dat l2) (\<lambda>validity.
           Inr (if validity = BatchDrop then bq else bq\<lparr>BqBatches := BqBatches bq @ [dat]\<rparr>)))"

text \<open>How the loop of \<open>deriveNextBatch\<close> ends, with the batches it keeps.\<close>

datatype loop_end =
    FoundBatch BatchWithL1InclusionBlock "BatchWithL1InclusionBlock list"
  | NoBatch "BatchWithL1InclusionBlock list"
  | UndecidedBatch "BatchWithL1InclusionBlock list"
  | UnknownValidity

fun batch_loop ::
    "(BatchWithL1InclusionBlock \<Rightarrow> BatchValidity res) \<Rightarrow> BatchWithL1InclusionBlock list \<Rightarrow> BatchWithL1InclusionBlock list \<Rightarrow> loop_end res" where
  "batch_loop check remaining [] = Inr (NoBatch remaining)"
| "batch_loop check remaining (batch # rest) =
     bind_res (check batch) (\<lambda>validity.
       case validity of
         BatchFuture \<Rightarrow> batch_loop check (remaining @ [batch]) rest
       | BatchDrop \<Rightarrow> batch_loop check remaining rest
       | BatchAccept \<Rightarrow> Inr (FoundBatch batch (remaining @ rest))
       | BatchUndecided \<Rightarrow> Inr (UndecidedBatch (remaining @ batch # rest))
       | BatchPast \<Rightarrow> Inr UnknownValidity)"

definition deriveNextBatch ::
    "Config \<Rightarrow> tx_env \<Rightarrow> SafeBlockFetcher \<Rightarrow> bool \<Rightarrow> L2BlockRef \<Rightarrow> 's BatchQueue \<Rightarrow> (Batch outcome \<times> 's BatchQueue) res" where
  "deriveNextBatch cfg te l2 outOfData parent bq =
     (if length (BsL1Blocks (BqBase bq)) = 0 then Inr (Inl (Leveled LevelCritical), bq)
      else
        let epoch = BsL1Blocks (BqBase bq) ! 0
        in if L1Origin parent \<noteq> \<lparr>BidHash = L1Hash epoch, BidNumber = L1Number epoch\<rparr> \<and>
              BidNumber (L1Origin parent) \<noteq> L1Number epoch - 1 then Inr (Inl (Leveled LevelReset), bq)
           else
             bind_res
               (batch_loop (\<lambda>b. CheckBatch (TxSelectors te) cfg (DecodeTx te) (BsL1Blocks (BqBase bq)) parent b l2) [] (BqBatches bq)) (\<lambda>e.
               case e of
                 UnknownValidity \<Rightarrow> Inr (Inl (Leveled LevelCritical), bq)
               | UndecidedBatch remaining \<Rightarrow> Inr (Inl IoEOF, bq\<lparr>BqBatches := remaining\<rparr>)
               | FoundBatch nextBatch remaining \<Rightarrow> Inr (Inr (BwBatch nextBatch), bq\<lparr>BqBatches := remaining\<rparr>)
               | NoBatch remaining \<Rightarrow>
                   bind_res (deriveNextEmptyBatch cfg outOfData parent (BqBase bq)) (\<lambda>(r, base).
                     Inr (case r of Inl err \<Rightarrow> Inl err | Inr b \<Rightarrow> Inr (Singular b), \<lparr>BqBase = base, BqBatches = remaining\<rparr>))))"

text \<open>The last part of \<open>NextBatch\<close>: a span is cached as singular batches.\<close>

definition take_next :: "L2BlockRef \<Rightarrow> Batch \<Rightarrow> 's BatchQueue \<Rightarrow> ((SingularBatch \<times> bool) outcome \<times> 's BatchQueue) res" where
  "take_next parent batch bq =
     (case batch of
        Singular b \<Rightarrow> Inr (Inr (b, length (BsNextSpan (BqBase bq)) = 0), bq)
      | Span spanBatch \<Rightarrow>
          (case GetSingularBatches spanBatch (BsL1Blocks (BqBase bq)) parent of
             None \<Rightarrow> Inr (Inl (Leveled LevelCritical), bq)
           | Some singularBatches \<Rightarrow>
               bind_res (popNextBatch parent ((BqBase bq)\<lparr>BsNextSpan := singularBatches\<rparr>)) (\<lambda>(b, base).
                 Inr (Inr (b, length (BsNextSpan base) = 0), bq\<lparr>BqBase := base\<rparr>))))"

definition BatchQueue_NextBatch ::
    "Config \<Rightarrow> tx_env \<Rightarrow> 's BatchEnv \<Rightarrow> L2BlockRef \<Rightarrow> 's BatchQueue \<Rightarrow> ((SingularBatch \<times> bool) outcome \<times> 's BatchQueue) res" where
  "BatchQueue_NextBatch cfg te env parent bq =
     bind_res (nextFromSpanBatch cfg parent (BqBase bq)) (\<lambda>(cached, base).
       case cached of
         Some r \<Rightarrow> Inr (Inr r, bq\<lparr>BqBase := base\<rparr>)
       | None \<Rightarrow>
           let base = updateOrigins (PrevOrigin env) parent base;
               behind = originBehind (PrevOrigin env) parent base
           in bind_res (PullBatch env (BsPrev base)) (\<lambda>(r, prev).
              let bq = bq\<lparr>BqBase := base\<lparr>BsPrev := prev\<rparr>\<rparr>;
                  outOfData = (r = Inl IoEOF)
              in if (case r of Inl err \<Rightarrow> err \<noteq> IoEOF | Inr _ \<Rightarrow> False) then
                   Inr (Inl (case r of Inl err \<Rightarrow> err | Inr _ \<Rightarrow> OtherError), bq)
                 else
                   bind_res (case r of Inr batch \<Rightarrow> if \<not> behind then AddBatch cfg te (L2Fetcher env) batch parent bq else Inr bq
                                     | Inl _ \<Rightarrow> Inr bq) (\<lambda>bq.
                   if behind then Inr (Inl (if outOfData then IoEOF else NotEnoughData), bq)
                   else
                     bind_res (deriveNextBatch cfg te (L2Fetcher env) outOfData parent bq) (\<lambda>(r, bq).
                       case r of
                         Inl err \<Rightarrow> Inr (Inl (if err = IoEOF then if outOfData then IoEOF else NotEnoughData else err), bq)
                       | Inr batch \<Rightarrow> take_next parent batch bq))))"

section \<open>The multiplexer\<close>

datatype 's BatchMux = BmIdle 's | BmQueue "'s BatchQueue" | BmStage "'s BatchBase"

definition NewBatchMux :: "'s \<Rightarrow> 's BatchMux" where
  "NewBatchMux prev = BmIdle prev"

fun batch_prev :: "'s BatchMux \<Rightarrow> 's" where
  "batch_prev (BmIdle prev) = prev"
| "batch_prev (BmQueue bq) = BsPrev (BqBase bq)"
| "batch_prev (BmStage bs) = BsPrev bs"

definition BatchMux_Reset :: "Config \<Rightarrow> L1BlockRef \<Rightarrow> 's BatchMux \<Rightarrow> derive_error \<times> 's BatchMux" where
  "BatchMux_Reset cfg base b =
     (if IsHolocene cfg (L1Time base) then
        let bs = (case b of BmStage bs \<Rightarrow> bs | _ \<Rightarrow> newBaseBatchStage (batch_prev b))
        in case BatchStage_Reset base bs of (err, bs) \<Rightarrow> (err, BmStage bs)
      else
        let bq = (case b of BmQueue bq \<Rightarrow> bq | _ \<Rightarrow> NewBatchQueue (batch_prev b))
        in case BatchQueue_Reset base bq of (err, bq) \<Rightarrow> (err, BmQueue bq))"

fun BatchMux_TransformHolocene :: "'s BatchMux \<Rightarrow> 's BatchMux res" where
  "BatchMux_TransformHolocene (BmQueue bq) =
     Inr (BmStage ((newBaseBatchStage (BsPrev (BqBase bq)))\<lparr>BsL1Blocks := BsL1Blocks (BqBase bq), BsOrigin := BsOrigin (BqBase bq)\<rparr>))"
| "BatchMux_TransformHolocene (BmStage bs) = Inl StageAlreadyActive"
| "BatchMux_TransformHolocene (BmIdle prev) = Inl UnknownStage"

definition BatchMux_Transform :: "ForkName \<Rightarrow> 's BatchMux \<Rightarrow> 's BatchMux res" where
  "BatchMux_Transform f b = (if f = Holocene then BatchMux_TransformHolocene b else Inr b)"

text \<open>The methods of the embedded stage; before the first reset it is nil.\<close>

fun BatchMux_NextBatch ::
    "Config \<Rightarrow> tx_env \<Rightarrow> 's BatchEnv \<Rightarrow> L2BlockRef \<Rightarrow> 's BatchMux \<Rightarrow> ((SingularBatch \<times> bool) outcome \<times> 's BatchMux) res" where
  "BatchMux_NextBatch cfg te env parent (BmIdle prev) = Inl NilDereference"
| "BatchMux_NextBatch cfg te env parent (BmQueue bq) =
     bind_res (BatchQueue_NextBatch cfg te env parent bq) (\<lambda>(r, bq). Inr (r, BmQueue bq))"
| "BatchMux_NextBatch cfg te env parent (BmStage bs) =
     bind_res (BatchStage_NextBatch cfg env parent bs) (\<lambda>(r, bs). Inr (r, BmStage bs))"

fun BatchMux_FlushChannel :: "'s BatchEnv \<Rightarrow> 's BatchMux \<Rightarrow> 's BatchMux res" where
  "BatchMux_FlushChannel env (BmIdle prev) = Inl NilDereference"
| "BatchMux_FlushChannel env (BmQueue bq) = bind_res (BatchQueue_FlushChannel bq) (\<lambda>bq. Inr (BmQueue bq))"
| "BatchMux_FlushChannel env (BmStage bs) = bind_res (BatchStage_FlushChannel env bs) (\<lambda>bs. Inr (BmStage bs))"

end
