(* ===== verification/Batch_Laws.thy ===== *)
theory Batch_Laws
  imports Batch_Stage
begin

text \<open>
  The Holocene batch stage over any previous stage that keeps the contract: it never panics, what it returns is an
  accepted singular batch or a forced empty batch on the parent, a critical error has one cause, and asking again
  while it says \<open>NotEnoughData\<close> ends.
\<close>

section \<open>The contract of the previous stage\<close>

definition batch_wf :: "Batch \<Rightarrow> bool" where
  "batch_wf b = (case b of Singular _ \<Rightarrow> True | Span s \<Rightarrow> Batches s \<noteq> [])"

text \<open>The order of the stage is that of a rank, which flushing does not increase.\<close>

locale batch_source = stage pull origin ok "inv_image W rank" batch_wf
  for pull :: "('s, Batch) puller" and origin :: "'s \<Rightarrow> L1BlockRef" and ok :: "'s \<Rightarrow> bool" and W :: "('r \<times> 'r) set"
    and rank :: "'s \<Rightarrow> 'r" +
  fixes flush :: "'s \<Rightarrow> 's res"
  assumes wf_W: "wf W" and trans_W: "trans W"
    and flush_ok: "ok s \<Longrightarrow> \<exists>s'. flush s = Inr s' \<and> ok s' \<and> origin s' = origin s \<and> (rank s' = rank s \<or> (rank s', rank s) \<in> W)"

definition batch_left :: "('r \<times> 'r) set \<Rightarrow> ('s \<Rightarrow> 'r) \<Rightarrow> ('s BatchBase \<times> 's BatchBase) set" where
  "batch_left W rank = inv_image (W <*lex*> less_than) (\<lambda>bs. (rank (BsPrev bs), length (BsNextSpan bs)))"

lemma wf_batch_left: "wf W \<Longrightarrow> wf (batch_left W rank)"
  by (simp add: batch_left_def wf_inv_image wf_lex_prod)

lemma in_batch_left:
  "(t, s) \<in> batch_left W rank \<longleftrightarrow> (rank (BsPrev t), rank (BsPrev s)) \<in> W \<or>
     rank (BsPrev t) = rank (BsPrev s) \<and> length (BsNextSpan t) < length (BsNextSpan s)"
  by (simp add: batch_left_def)

text \<open>Calling a stage again while it returns \<open>NotEnoughData\<close>.\<close>

inductive settles :: "('s, 'a) puller \<Rightarrow> 's \<Rightarrow> 'a outcome \<Rightarrow> 's \<Rightarrow> bool" for pull where
  finish: "pull s = Inr (r, s') \<Longrightarrow> r \<noteq> Inl NotEnoughData \<Longrightarrow> settles pull s r s'"
| again: "pull s = Inr (Inl NotEnoughData, s1) \<Longrightarrow> settles pull s1 r s' \<Longrightarrow> settles pull s r s'"

lemma settles_end: "settles pull s r s' \<Longrightarrow> r \<noteq> Inl NotEnoughData"
  by (induction rule: settles.induct) simp_all

section \<open>What the stage returns\<close>

text \<open>The L1 blocks and the inclusion block are those after \<open>updateOrigins\<close>.\<close>

definition forced_empty :: "Config \<Rightarrow> L2BlockRef \<Rightarrow> 's BatchBase \<Rightarrow> SingularBatch \<Rightarrow> bool" where
  "forced_empty cfg parent bs b \<longleftrightarrow>
     (\<exists>epoch nextEpoch rest. BsL1Blocks bs = epoch # nextEpoch # rest \<and>
        b = \<lparr>SbParentHash = L2Hash parent, SbEpochNum = L1Number epoch, SbEpochHash = L1Hash epoch,
             SbTimestamp = L2Time parent + BlockTime cfg, SbTransactions = []\<rparr> \<and>
        L1Number epoch + SeqWindowSize cfg \<le> L1Number (BsOrigin bs) \<and>
        (L2Time parent + BlockTime cfg < L1Time nextEpoch \<or> L1Number epoch = BidNumber (L1Origin parent) + 1))"

definition accepted_batch :: "Config \<Rightarrow> L2BlockRef \<Rightarrow> 's BatchBase \<Rightarrow> SingularBatch \<Rightarrow> bool" where
  "accepted_batch cfg parent bs b \<longleftrightarrow> valid_singular cfg (BsL1Blocks bs) parent b (BsOrigin bs)"

text \<open>The only cause of a critical error: too few L1 blocks, or a span whose prefix is accepted while the epoch of a new
  block is not among the L1 blocks.\<close>

definition lagging_span :: "Config \<Rightarrow> 's BatchEnv \<Rightarrow> L2BlockRef \<Rightarrow> 's BatchBase \<Rightarrow> bool" where
  "lagging_span cfg env parent bs \<longleftrightarrow>
     (\<exists>b prev p. PullBatch env (BsPrev bs) = Inr (Inr (Span b), prev) \<and>
        checkSpanBatchPrefix cfg (BsL1Blocks bs) parent b (BsOrigin bs) (L2Fetcher env) = Inr (BatchAccept, p) \<and>
        GetSingularBatches b (BsL1Blocks bs) parent = None)"

lemma nextFromSpanBatch_cases:
  obtains (none) "nextFromSpanBatch cfg parent bs = Inr (None, bs\<lparr>BsNextSpan := []\<rparr>)"
  | (some) x rest where "BsNextSpan bs = x # rest" "SbTimestamp x = L2Time parent + BlockTime cfg"
      "nextFromSpanBatch cfg parent bs = Inr (Some (x\<lparr>SbParentHash := L2Hash parent\<rparr>, rest = []), bs\<lparr>BsNextSpan := rest\<rparr>)"
proof (cases "BsNextSpan bs")
  case Nil
  then have "bs = bs\<lparr>BsNextSpan := []\<rparr>" by simp
  then show ?thesis using Nil none by (simp add: nextFromSpanBatch_def)
next
  case (Cons x rest)
  then show ?thesis using none some
    by (cases "SbTimestamp x = L2Time parent + BlockTime cfg") (simp_all add: nextFromSpanBatch_def popNextBatch_def)
qed

lemma singular_batches_nonempty:
  "singular_batches l1 head idx els = Some sbs \<Longrightarrow> el \<in> set els \<Longrightarrow> \<not> ElTimestamp el \<le> L2Time head \<Longrightarrow> sbs \<noteq> []"
  by (induction els arbitrary: idx sbs) (auto split: if_splits option.splits)

text \<open>A span whose prefix is accepted has a new block, so the pop after it cannot panic.\<close>

lemma accepted_nonempty:
  assumes "checkSpanBatchPrefix cfg l1 parent b incl f = Inr (BatchAccept, p)" "GetSingularBatches b l1 parent = Some sbs"
    and "BlockTime cfg \<noteq> 0" "unat (L2Time parent) + unat (BlockTime cfg) < 2 ^ 64"
  shows "sbs \<noteq> []"
proof -
  note a = prefix_Accept(2,5) [OF assms(1)]
  have "L2Time parent < L2Time parent + BlockTime cfg"
    using assms(3,4) by (simp add: word_less_nat_alt unat_word_ariths unat_gt_0)
  then have "\<not> ElTimestamp (element b (GetBlockCount b - 1)) \<le> L2Time parent" using a(2) by simp
  moreover have "element b (GetBlockCount b - 1) \<in> set (Batches b)" using a(1) by (simp add: GetBlockCount_def)
  ultimately show ?thesis using assms(2) singular_batches_nonempty by (auto simp: GetSingularBatches_def)
qed

lemma prefix_no_panic:
  assumes "Batches b \<noteq> []" "BlockTime cfg \<noteq> 0"
  shows "\<exists>v p. checkSpanBatchPrefix cfg l1 head b incl f = Inr (v, p)"
  using assms by (auto simp: checkSpanBatchPrefix_def block_at_def Let_def GetBlockCount_def split: option.split)

lemma prefix_no_future:
  assumes "checkSpanBatchPrefix cfg l1 head b incl f = Inr (v, p)" "IsHolocene cfg (L1Time incl)"
  shows "v \<noteq> BatchFuture"
  using assms by (auto simp: checkSpanBatchPrefix_def block_at_def Let_def prefix_rest_def split: if_splits option.splits)

lemma deriveNextEmptyBatch_ok:
  assumes "deriveNextEmptyBatch cfg outOfData parent bs = Inr (r, bs')"
  shows "BsPrev bs' = BsPrev bs \<and> BsOrigin bs' = BsOrigin bs \<and> BsNextSpan bs' = BsNextSpan bs \<and> BsL1Blocks bs' \<noteq> [] \<and>
    (case r of Inl e \<Rightarrow> e = IoEOF | Inr b \<Rightarrow> bs' = bs \<and> forced_empty cfg parent bs b)"
  using assms
  by (auto simp: deriveNextEmptyBatch_def Let_def forced_empty_def split: list.splits if_splits)

lemma deriveNextEmptyBatch_total: "BsL1Blocks bs \<noteq> [] \<Longrightarrow> \<exists>r bs'. deriveNextEmptyBatch cfg outOfData parent bs = Inr (r, bs')"
  by (cases "BsL1Blocks bs") (simp_all add: deriveNextEmptyBatch_def Let_def)

lemma updateOrigins_prev [simp]:
  "BsPrev (updateOrigins origin parent bs) = BsPrev bs" "BsNextSpan (updateOrigins origin parent bs) = BsNextSpan bs"
  "BsOrigin (updateOrigins origin parent bs) = origin (BsPrev bs)"
  by (simp_all add: updateOrigins_def Let_def)

text \<open>What a returned batch is, with the L1 blocks as they are afterwards.\<close>

definition good_batch :: "Config \<Rightarrow> L2BlockRef \<Rightarrow> 's BatchBase \<Rightarrow> (SingularBatch \<times> bool) outcome \<Rightarrow> bool" where
  "good_batch cfg parent bs r = (case r of Inl e \<Rightarrow> True
     | Inr (b, concluding) \<Rightarrow> concluding \<and> (accepted_batch cfg parent bs b \<or> forced_empty cfg parent bs b))"

section \<open>The stage over a source\<close>

context batch_source
begin

abbreviation stage_env :: "SafeBlockFetcher \<Rightarrow> 's BatchEnv" where
  "stage_env f \<equiv> \<lparr>PullBatch = pull, PrevOrigin = origin, PrevFlush = flush, L2Fetcher = f\<rparr>"

lemma Flush_ok:
  assumes "ok (BsPrev bs)"
  shows "\<exists>bs'. BatchStage_FlushChannel (stage_env f) bs = Inr bs' \<and> ok (BsPrev bs') \<and> origin (BsPrev bs') = origin (BsPrev bs) \<and>
    BsOrigin bs' = BsOrigin bs \<and> BsL1Blocks bs' = BsL1Blocks bs \<and> BsNextSpan bs' = [] \<and>
    (rank (BsPrev bs') = rank (BsPrev bs) \<or> (rank (BsPrev bs'), rank (BsPrev bs)) \<in> W)"
  using flush_ok [OF assms] by (auto simp: BatchStage_FlushChannel_def)

lemma rank_step: "rank t = rank s \<or> (rank t, rank s) \<in> W \<Longrightarrow> (rank s, x) \<in> W \<Longrightarrow> (rank t, x) \<in> W"
  using trans_W by (auto dest: transD)

text \<open>The frame of every step: the previous stage stays well-formed, origins and L1 blocks stay.\<close>

definition same_view :: "'s BatchBase \<Rightarrow> 's BatchBase \<Rightarrow> bool" where
  "same_view bs' bs \<longleftrightarrow> ok (BsPrev bs') \<and> origin (BsPrev bs') = origin (BsPrev bs) \<and> BsOrigin bs' = BsOrigin bs \<and> BsL1Blocks bs' = BsL1Blocks bs"

lemma candidate_ok:
  assumes prev: "ok (BsPrev bs)" and wrap: "unat (L2Time parent) + unat (BlockTime cfg) < 2 ^ 64" and hol: "IsHolocene cfg (L1Time (BsOrigin bs))"
    and bt: "BlockTime cfg \<noteq> 0"
  shows "\<exists>r bs'. nextSingularBatchCandidate cfg (stage_env f) parent bs = Inr (r, bs') \<and> same_view bs' bs \<and>
    (retry r \<longrightarrow> (bs', bs) \<in> batch_left W rank) \<and> (r = Inl (Leveled LevelCritical) \<longrightarrow> lagging_span cfg (stage_env f) parent bs)"
proof (rule nextFromSpanBatch_cases [of cfg parent bs])
  fix x rest assume n: "BsNextSpan bs = x # rest"
    "nextFromSpanBatch cfg parent bs = Inr (Some (x\<lparr>SbParentHash := L2Hash parent\<rparr>, rest = []), bs\<lparr>BsNextSpan := rest\<rparr>)"
  then show ?thesis using prev by (simp add: nextSingularBatchCandidate_def same_view_def in_batch_left)
next
  assume n: "nextFromSpanBatch cfg parent bs = Inr (None, bs\<lparr>BsNextSpan := []\<rparr>)"
  from prev obtain r prev' where p: "pull (BsPrev bs) = Inr (r, prev')" "ok prev'" "origin prev' = origin (BsPrev bs)"
    "good_outcome batch_wf r" "retry r \<longrightarrow> (prev', BsPrev bs) \<in> inv_image W rank" by (rule pullE)
  let ?bs = "bs\<lparr>BsNextSpan := [], BsPrev := prev'\<rparr>"
  have view: "same_view ?bs bs" using p by (simp add: same_view_def)
  show ?thesis
  proof (cases r)
    case (Inl err)
    then show ?thesis using n p view by (simp add: nextSingularBatchCandidate_def in_batch_left)
  next
    case (Inr batch)
    then have less: "(rank prev', rank (BsPrev bs)) \<in> W" using p(5) by simp
    show ?thesis
    proof (cases batch)
      case (Singular b)
      then show ?thesis using n p(1) Inr view less by (simp add: nextSingularBatchCandidate_def in_batch_left)
    next
      case (Span b)
      have "Batches b \<noteq> []" using p(4) Inr Span by (simp add: batch_wf_def)
      then obtain v pb where v: "checkSpanBatchPrefix cfg (BsL1Blocks bs) parent b (BsOrigin bs) f = Inr (v, pb)"
        using prefix_no_panic [OF _ bt] by blast
      have run: "nextSingularBatchCandidate cfg (stage_env f) parent bs =
          (case v of
             BatchPast \<Rightarrow> Inr (Inl NotEnoughData, ?bs)
           | BatchDrop \<Rightarrow> bind_res (BatchStage_FlushChannel (stage_env f) ?bs) (\<lambda>bs. Inr (Inl NotEnoughData, bs))
           | BatchUndecided \<Rightarrow> Inr (Inl NotEnoughData, ?bs)
           | BatchFuture \<Rightarrow> Inr (Inl (Leveled LevelCritical), ?bs)
           | BatchAccept \<Rightarrow>
               (case GetSingularBatches b (BsL1Blocks bs) parent of
                  None \<Rightarrow> Inr (Inl (Leveled LevelCritical), ?bs)
                | Some sbs \<Rightarrow> bind_res (popNextBatch parent (?bs\<lparr>BsNextSpan := sbs\<rparr>)) (\<lambda>(b, bs). Inr (Inr b, bs))))"
        using n p(1) Inr Span v by (cases v) (simp_all add: nextSingularBatchCandidate_def Let_def)
      show ?thesis
      proof (cases v)
        case BatchAccept
        show ?thesis
        proof (cases "GetSingularBatches b (BsL1Blocks bs) parent")
          case None
          have "lagging_span cfg (stage_env f) parent bs"
            unfolding lagging_span_def using p(1) Inr Span v BatchAccept None by auto
          then show ?thesis using run BatchAccept None view by simp
        next
          case (Some sbs)
          have "sbs \<noteq> []" using accepted_nonempty [OF v [unfolded BatchAccept] Some bt wrap] .
          then obtain x rest where "sbs = x # rest" by (cases sbs) auto
          then show ?thesis using run BatchAccept Some view less by (simp add: popNextBatch_def same_view_def in_batch_left)
        qed
      next
        case BatchDrop
        obtain bs' where "BatchStage_FlushChannel (stage_env f) ?bs = Inr bs'" "ok (BsPrev bs')" "origin (BsPrev bs') = origin (BsPrev ?bs)"
          "BsOrigin bs' = BsOrigin bs" "BsL1Blocks bs' = BsL1Blocks bs" "rank (BsPrev bs') = rank prev' \<or> (rank (BsPrev bs'), rank prev') \<in> W"
          using Flush_ok [of ?bs f] p(2) by auto
        then show ?thesis using run BatchDrop view rank_step [OF _ less] by (auto simp: same_view_def in_batch_left)
      next
        case BatchUndecided
        then show ?thesis using run view less by (simp add: in_batch_left)
      next
        case BatchPast
        then show ?thesis using run view less by (simp add: in_batch_left)
      next
        case BatchFuture
        then show ?thesis using prefix_no_future [OF v hol] by simp
      qed
    qed
  qed
qed

lemma NextBatch_ok:
  fixes bs :: "'s BatchBase" and parent :: L2BlockRef
  defines "bs1 \<equiv> updateOrigins origin parent bs"
  assumes prev: "ok (BsPrev bs)" and wrap: "unat (L2Time parent) + unat (BlockTime cfg) < 2 ^ 64"
    and hol: "IsHolocene cfg (L1Time (origin (BsPrev bs)))" and bt: "BlockTime cfg \<noteq> 0"
  shows "\<exists>r bs'. BatchStage_NextBatch cfg (stage_env f) parent bs = Inr (r, bs') \<and> ok (BsPrev bs') \<and>
    origin (BsPrev bs') = origin (BsPrev bs) \<and> good_batch cfg parent bs' r \<and>
    (r = Inl NotEnoughData \<longrightarrow> (bs', bs) \<in> batch_left W rank) \<and>
    (r = Inl (Leveled LevelCritical) \<longrightarrow> length (BsL1Blocks bs1) < 2 \<or> lagging_span cfg (stage_env f) parent bs1)"
proof -
  have b1: "ok (BsPrev bs1)" "BsPrev bs1 = BsPrev bs" "BsNextSpan bs1 = BsNextSpan bs" "BsOrigin bs1 = origin (BsPrev bs)"
    using prev by (simp_all add: bs1_def)
  have left1: "(bs', bs1) \<in> batch_left W rank \<longleftrightarrow> (bs', bs) \<in> batch_left W rank" for bs' using b1 by (simp add: in_batch_left)
  note unfold = BatchStage_NextBatch_def bs1_def [symmetric]
  consider (drain) "originBehind origin parent bs1 \<or> BidNumber (L1Origin parent) = L1Number (BsOrigin bs1)"
    | (low) "\<not> (originBehind origin parent bs1 \<or> BidNumber (L1Origin parent) = L1Number (BsOrigin bs1))" "length (BsL1Blocks bs1) < 2"
    | (main) "\<not> (originBehind origin parent bs1 \<or> BidNumber (L1Origin parent) = L1Number (BsOrigin bs1))" "\<not> length (BsL1Blocks bs1) < 2"
    by blast
  then show ?thesis
  proof cases
    case drain
    obtain r prev' where p: "pull (BsPrev bs) = Inr (r, prev')" "ok prev'" "origin prev' = origin (BsPrev bs)"
      "good_outcome batch_wf r" "retry r \<longrightarrow> (prev', BsPrev bs) \<in> inv_image W rank" by (rule pullE [OF prev])
    then show ?thesis using drain b1 by (cases r) (auto simp: unfold Let_def good_batch_def in_batch_left)
  next
    case low
    then show ?thesis using b1 prev by (simp add: unfold Let_def good_batch_def)
  next
    case main
    let ?epoch = "BsL1Blocks bs1 ! 0"
    show ?thesis
    proof (cases "L1Origin parent \<noteq> \<lparr>BidHash = L1Hash ?epoch, BidNumber = L1Number ?epoch\<rparr> \<and> BidNumber (L1Origin parent) \<noteq> L1Number ?epoch - 1")
      case True
      then show ?thesis using main b1 prev by (simp add: unfold Let_def good_batch_def)
    next
      case False
      have hol1: "IsHolocene cfg (L1Time (BsOrigin bs1))" using hol b1 by simp
      obtain r bs2 where c: "nextSingularBatchCandidate cfg (stage_env f) parent bs1 = Inr (r, bs2)" "same_view bs2 bs1"
        "retry r \<longrightarrow> (bs2, bs1) \<in> batch_left W rank" "r = Inl (Leveled LevelCritical) \<longrightarrow> lagging_span cfg (stage_env f) parent bs1"
        using candidate_ok [OF b1(1) wrap hol1 bt, of f] by blast
      have v2: "ok (BsPrev bs2)" "origin (BsPrev bs2) = origin (BsPrev bs)" "BsOrigin bs2 = BsOrigin bs1" "BsL1Blocks bs2 = BsL1Blocks bs1"
        using c(2) b1 by (simp_all add: same_view_def)
      have run: "BatchStage_NextBatch cfg (stage_env f) parent bs =
        (case r of
           Inl err \<Rightarrow>
             if err = IoEOF then
               bind_res (deriveNextEmptyBatch cfg True parent bs2) (\<lambda>(r, bs).
                 Inr (case r of Inl err \<Rightarrow> Inl err | Inr b \<Rightarrow> Inr (b, True), bs))
             else Inr (Inl err, bs2)
         | Inr batch \<Rightarrow>
             (case checkSingularBatch cfg (BsL1Blocks bs2) parent batch (BsOrigin bs2) of
                BatchAccept \<Rightarrow> Inr (Inr (batch, True), bs2)
              | BatchPast \<Rightarrow> Inr (Inl NotEnoughData, bs2)
              | BatchDrop \<Rightarrow> bind_res (BatchStage_FlushChannel (stage_env f) bs2) (\<lambda>bs. Inr (Inl NotEnoughData, bs))
              | BatchUndecided \<Rightarrow> Inr (Inl NotEnoughData, bs2)
              | BatchFuture \<Rightarrow> Inr (Inl (Leveled LevelCritical), bs2)))"
        using main c(1) by (simp add: unfold Let_def if_not_P [OF False])
      show ?thesis
      proof (cases r)
        case (Inl err)
        show ?thesis
        proof (cases "err = IoEOF")
          case True
          have "BsL1Blocks bs2 \<noteq> []" using main(2) v2(4) by auto
          then obtain r3 bs3 where e: "deriveNextEmptyBatch cfg True parent bs2 = Inr (r3, bs3)"
            using deriveNextEmptyBatch_total by blast
          note e' = deriveNextEmptyBatch_ok [OF e]
          then show ?thesis using run Inl True e v2 by (cases r3) (auto simp: good_batch_def)
        next
          case False
          then show ?thesis using run Inl v2 c(3,4) left1 by (auto simp: good_batch_def)
        qed
      next
        case (Inr b)
        have less: "(bs2, bs) \<in> batch_left W rank" using c(3) Inr left1 by simp
        have two: "2 \<le> length (BsL1Blocks bs2)" using main(2) v2(4) by simp
        have undecided: "checkSingularBatch cfg (BsL1Blocks bs2) parent b (BsOrigin bs2) \<noteq> BatchFuture"
          using checkSingularBatch_final [of cfg "BsL1Blocks bs2" parent b "BsOrigin bs2"] hol1 v2(3) by simp
        show ?thesis
        proof (cases "checkSingularBatch cfg (BsL1Blocks bs2) parent b (BsOrigin bs2)")
          case BatchAccept
          then show ?thesis using run Inr v2 by (simp add: good_batch_def accepted_batch_def checkSingularBatch_Accept [symmetric])
        next
          case BatchDrop
          obtain bs3 where fl: "BatchStage_FlushChannel (stage_env f) bs2 = Inr bs3" "ok (BsPrev bs3)" "origin (BsPrev bs3) = origin (BsPrev bs2)"
            "BsNextSpan bs3 = []" "rank (BsPrev bs3) = rank (BsPrev bs2) \<or> (rank (BsPrev bs3), rank (BsPrev bs2)) \<in> W"
            using Flush_ok [of bs2 f] v2(1) by auto
          have "(bs3, bs) \<in> batch_left W rank"
            using less fl(4,5) trans_W by (auto simp: in_batch_left dest: transD)
          then show ?thesis using run Inr BatchDrop fl v2 by (auto simp: good_batch_def)
        next
          case BatchPast
          then show ?thesis using run Inr v2 less by (simp add: good_batch_def)
        next
          case BatchUndecided
          then show ?thesis using run Inr v2 less by (simp add: good_batch_def)
        next
          case BatchFuture
          then show ?thesis using undecided by simp
        qed
      qed
    qed
  qed
qed

lemma NextBatch_settles:
  assumes "unat (L2Time parent) + unat (BlockTime cfg) < 2 ^ 64" "BlockTime cfg \<noteq> 0"
  shows "ok (BsPrev bs) \<Longrightarrow> IsHolocene cfg (L1Time (origin (BsPrev bs))) \<Longrightarrow>
    \<exists>r bs'. settles (BatchStage_NextBatch cfg (stage_env f) parent) bs r bs' \<and> ok (BsPrev bs') \<and>
      origin (BsPrev bs') = origin (BsPrev bs) \<and> good_batch cfg parent bs' r"
proof (induction bs rule: wf_induct_rule [OF wf_batch_left [OF wf_W, of rank]])
  case (1 bs)
  obtain r bs1 where n: "BatchStage_NextBatch cfg (stage_env f) parent bs = Inr (r, bs1)" "ok (BsPrev bs1)"
    "origin (BsPrev bs1) = origin (BsPrev bs)" "good_batch cfg parent bs1 r" "r = Inl NotEnoughData \<longrightarrow> (bs1, bs) \<in> batch_left W rank"
    using NextBatch_ok [OF "1.prems"(1) assms(1) "1.prems"(2) assms(2), of f] by blast
  show ?case
  proof (cases "r = Inl NotEnoughData")
    case True
    have "\<exists>r bs'. settles (BatchStage_NextBatch cfg (stage_env f) parent) bs1 r bs' \<and> ok (BsPrev bs') \<and>
        origin (BsPrev bs') = origin (BsPrev bs1) \<and> good_batch cfg parent bs' r"
      by (rule "1.IH") (use n True "1.prems" in auto)
    then show ?thesis using n(1,3) True settles.again by metis
  next
    case False
    then show ?thesis using n settles.finish by metis
  qed
qed

end

section \<open>Temporary errors and lagging spans\<close>

text \<open>The position in which the stage looks for a candidate.\<close>

definition looks_for_batch :: "'s BatchEnv \<Rightarrow> L2BlockRef \<Rightarrow> 's BatchBase \<Rightarrow> bool" where
  "looks_for_batch env parent bs \<longleftrightarrow>
     (let bs1 = updateOrigins (PrevOrigin env) parent bs; epoch = BsL1Blocks bs1 ! 0
      in \<not> originBehind (PrevOrigin env) parent bs1 \<and> BidNumber (L1Origin parent) \<noteq> L1Number (BsOrigin bs1) \<and>
         2 \<le> length (BsL1Blocks bs1) \<and> BsNextSpan bs = [] \<and>
         (L1Origin parent = \<lparr>BidHash = L1Hash epoch, BidNumber = L1Number epoch\<rparr> \<or> BidNumber (L1Origin parent) = L1Number epoch - 1))"

text \<open>A temporary error of the L2 client loses the span batch: when the prefix check of the span the stage just pulled is
  undecided, NextBatch returns NotEnoughData and its new state is the one after the pull, without the span; the next
  call pulls the batch after it.\<close>

theorem undecided_span_lost:
  fixes bs :: "'s BatchBase" and parent :: L2BlockRef and env :: "'s BatchEnv"
  defines "bs1 \<equiv> updateOrigins (PrevOrigin env) parent bs"
  assumes look: "looks_for_batch env parent bs" and pulled: "PullBatch env (BsPrev bs) = Inr (Inr (Span b), prev)"
    and undecided: "checkSpanBatchPrefix cfg (BsL1Blocks bs1) parent b (BsOrigin bs1) (L2Fetcher env) = Inr (BatchUndecided, p)"
  shows "BatchStage_NextBatch cfg env parent bs = Inr (Inl NotEnoughData, bs1\<lparr>BsPrev := prev\<rparr>)"
proof -
  have span: "BsNextSpan bs1 = []" "BsPrev bs1 = BsPrev bs" using look by (simp_all add: bs1_def looks_for_batch_def Let_def)
  then have "nextFromSpanBatch cfg parent bs1 = Inr (None, bs1)" by (simp add: nextFromSpanBatch_def)
  then have "nextSingularBatchCandidate cfg env parent bs1 = Inr (Inl NotEnoughData, bs1\<lparr>BsPrev := prev\<rparr>)"
    using pulled undecided span(2) by (simp add: nextSingularBatchCandidate_def Let_def)
  then show ?thesis
    using look by (auto simp: BatchStage_NextBatch_def Let_def looks_for_batch_def simp flip: bs1_def)
qed

definition holo_config :: Config where
  "holo_config = sample_config\<lparr>FjordTime := Some 3000, GraniteTime := Some 3000, HoloceneTime := Some 3000\<rparr>"

definition lag_l1 :: "L1BlockRef list" where
  "lag_l1 = [\<lparr>L1Hash = 52, L1Number = 152, L1ParentHash = 51, L1Time = 3003\<rparr>,
     \<lparr>L1Hash = 53, L1Number = 153, L1ParentHash = 52, L1Time = 3009\<rparr>]"

definition lag_head :: L2BlockRef where
  "lag_head = \<lparr>L2Hash = 1003, L2Number = 1003, L2ParentHash = 1002, L2Time = 3006, L1Origin = \<lparr>BidHash = 52, BidNumber = 152\<rparr>, SequenceNumber = 0\<rparr>"

definition lag_fetcher :: SafeBlockFetcher where
  "lag_fetcher = \<lparr>L2BlockRefByNumber = (\<lambda>n. if n = 1001 then Some \<lparr>L2Hash = 1001, L2Number = 1001, L2ParentHash = 1000, L2Time = 3002,
      L1Origin = \<lparr>BidHash = 50, BidNumber = 150\<rparr>, SequenceNumber = 0\<rparr> else None), PayloadByNumber = (\<lambda>n. None)\<rparr>"

text \<open>A span that lags behind the safe chain: its blocks 1002 and 1003 have epoch 150, the new blocks 151 and 152.\<close>

definition lag_span :: SpanBatch where
  "lag_span = \<lparr>ParentCheck = take 20 (be_word 32 (1001 :: H256)), L1OriginCheck = take 20 (be_word 32 (52 :: H256)), GenesisTimestamp = 1000,
     Batches = [\<lparr>ElEpochNum = 150, ElTimestamp = 3004, ElTransactions = []\<rparr>, \<lparr>ElEpochNum = 150, ElTimestamp = 3006, ElTransactions = []\<rparr>,
       \<lparr>ElEpochNum = 151, ElTimestamp = 3008, ElTransactions = []\<rparr>, \<lparr>ElEpochNum = 152, ElTimestamp = 3010, ElTransactions = []\<rparr>]\<rparr>"

text \<open>A previous stage that holds a list of batches at one L1 origin.\<close>

definition list_pull :: "(Batch list, Batch) puller" where
  "list_pull bs = (case bs of [] \<Rightarrow> Inr (Inl IoEOF, []) | b # rest \<Rightarrow> Inr (Inr b, rest))"

definition list_env :: "SafeBlockFetcher \<Rightarrow> Batch list BatchEnv" where
  "list_env f = \<lparr>PullBatch = list_pull, PrevOrigin = (\<lambda>_. lag_l1 ! 1), PrevFlush = (\<lambda>_. Inr []), L2Fetcher = f\<rparr>"

definition lag_stage :: "Batch list BatchBase" where
  "lag_stage = \<lparr>BsPrev = [Span lag_span], BsOrigin = lag_l1 ! 1, BsL1Blocks = lag_l1, BsNextSpan = []\<rparr>"

lemma lag_looks: "looks_for_batch (list_env f) lag_head lag_stage"
  "updateOrigins (PrevOrigin (list_env f)) lag_head lag_stage = lag_stage"
  by (simp_all add: looks_for_batch_def updateOrigins_def originBehind_def list_env_def lag_stage_def lag_l1_def lag_head_def Let_def)

lemma lag_prefix:
  "checkSpanBatchPrefix holo_config lag_l1 lag_head lag_span (lag_l1 ! 1) f =
     (case L2BlockRefByNumber f 1001 of None \<Rightarrow> Inr (BatchUndecided, zero_L2BlockRef)
      | Some p \<Rightarrow> Inr (prefix_rest holo_config lag_l1 lag_span (lag_l1 ! 1) 150 152 p, p))"
  by (simp add: checkSpanBatchPrefix_def block_at_def GetBlockCount_def Let_def lag_span_def lag_l1_def lag_head_def holo_config_def
      sample_config_def IsDelta_def IsHolocene_def fork_active_def split: option.split)

theorem undecided_span_lost_witness:
  "BatchStage_NextBatch holo_config (list_env no_l2) lag_head lag_stage = Inr (Inl NotEnoughData, lag_stage\<lparr>BsPrev := []\<rparr>)"
proof -
  have "PullBatch (list_env no_l2) (BsPrev lag_stage) = Inr (Inr (Span lag_span), [])"
    by (simp add: list_env_def lag_stage_def list_pull_def)
  moreover have "checkSpanBatchPrefix holo_config (BsL1Blocks (updateOrigins (PrevOrigin (list_env no_l2)) lag_head lag_stage)) lag_head
      lag_span (BsOrigin (updateOrigins (PrevOrigin (list_env no_l2)) lag_head lag_stage)) (L2Fetcher (list_env no_l2)) =
      Inr (BatchUndecided, zero_L2BlockRef)"
    unfolding lag_looks(2) by (simp add: lag_stage_def list_env_def lag_prefix del: One_nat_def)
  ultimately show ?thesis using undecided_span_lost [OF lag_looks(1)] unfolding lag_looks(2) by metis
qed


end
