(* ===== verification/Derive_Reader.thy ===== *)
theory Derive_Reader
  imports Derive_Mux Span_Laws Batch_Laws
begin

text \<open>
  The reader between channels and batches: \<open>BatchReader\<close> of \<open>op-node/rollup/derive/channel.go\<close> and
  \<open>channel_in_reader.go\<close>.  Decompression and the RLP stream over it are parameters: the byte strings such a stream
  yields, in order, until it ends or fails, which the reader treats alike.  The reader keeps the contract of a batch
  source over every channel source, and the channel assembler is one; so what is shown of the Holocene batch stage
  holds for the pipeline.
\<close>

section \<open>Batches in a channel\<close>

datatype CompressionAlgo = Zlib | Brotli

text \<open>\<open>None\<close> is the error of a bad zlib header; a brotli reader is always created.\<close>

record decompressors =
  ZlibItems :: "byte list \<Rightarrow> Word \<Rightarrow> byte list list option"
  BrotliItems :: "byte list \<Rightarrow> Word \<Rightarrow> byte list list"

record batch_reader =
  RdAlgo :: CompressionAlgo
  RdItems :: "byte list list"

definition BatchReader :: "decompressors \<Rightarrow> byte list \<Rightarrow> Word \<Rightarrow> bool \<Rightarrow> batch_reader option" where
  "BatchReader dec r maxRLPBytesPerChannel isFjord =
     (case r of
        [] \<Rightarrow> None
      | compressionType # rest \<Rightarrow>
          if compressionType AND 0x0F = 8 \<or> compressionType AND 0x0F = 15 then
            map_option (\<lambda>items. \<lparr>RdAlgo = Zlib, RdItems = items\<rparr>) (ZlibItems dec r maxRLPBytesPerChannel)
          else if compressionType = 1 then
            if \<not> isFjord then None else Some \<lparr>RdAlgo = Brotli, RdItems = BrotliItems dec rest maxRLPBytesPerChannel\<rparr>
          else None)"

text \<open>One call of the function that \<open>BatchReader\<close> returns; after an error it is not called again.\<close>

definition read_batch :: "tx_lib \<Rightarrow> batch_reader \<Rightarrow> (InnerBatchData \<times> batch_reader) option" where
  "read_batch lib rd =
     (case RdItems rd of
        [] \<Rightarrow> None
      | item # rest \<Rightarrow>
          (case decodeTypedBatch lib item of Inl err \<Rightarrow> None | Inr batchData \<Rightarrow> Some (batchData, rd\<lparr>RdItems := rest\<rparr>)))"

section \<open>The channel reader\<close>

record 's ChannelInReader =
  CrPrev :: 's
  CrNext :: "batch_reader option"

record 's ReaderEnv =
  PullChannel :: "('s, byte list) puller"
  ChannelOrigin :: "'s \<Rightarrow> L1BlockRef"
  FlushPrev :: "'s \<Rightarrow> 's res"
  Decompress :: decompressors
  TxLib :: tx_lib

definition NewChannelInReader :: "'s \<Rightarrow> 's ChannelInReader" where
  "NewChannelInReader prev = \<lparr>CrPrev = prev, CrNext = None\<rparr>"

definition Reader_Origin :: "('s \<Rightarrow> L1BlockRef) \<Rightarrow> 's ChannelInReader \<Rightarrow> L1BlockRef" where
  "Reader_Origin origin cr = origin (CrPrev cr)"

text \<open>\<open>None\<close> is the error of \<open>BatchReader\<close>.\<close>

definition WriteChannel :: "Config \<Rightarrow> 's ReaderEnv \<Rightarrow> byte list \<Rightarrow> 's ChannelInReader \<Rightarrow> 's ChannelInReader option" where
  "WriteChannel cfg env dat cr =
     (let t = L1Time (Reader_Origin (ChannelOrigin env) cr)
      in map_option (\<lambda>f. cr\<lparr>CrNext := Some f\<rparr>) (BatchReader (Decompress env) dat (MaxRLPBytesPerChannel cfg t) (IsFjord cfg t)))"

definition NextChannel :: "'s ChannelInReader \<Rightarrow> 's ChannelInReader" where
  "NextChannel cr = cr\<lparr>CrNext := None\<rparr>"

text \<open>\<open>Config.Check\<close> asks for a positive chain id.\<close>

definition chain_id :: "Config \<Rightarrow> nat" where
  "chain_id cfg = (case L2ChainID cfg of None \<Rightarrow> 0 | Some c \<Rightarrow> nat c)"

text \<open>\<open>NextBatch\<close> once there is a reader.\<close>

definition next_from_channel :: "Config \<Rightarrow> 's ReaderEnv \<Rightarrow> batch_reader \<Rightarrow> ('s ChannelInReader, Batch) puller" where
  "next_from_channel cfg env rd cr =
     (case read_batch (TxLib env) rd of
        None \<Rightarrow> Inr (Inl NotEnoughData, NextChannel cr)
      | Some (batchData, rd) \<Rightarrow>
          let cr = cr\<lparr>CrNext := Some rd\<rparr>
          in case batchData of
               InnerSingular b \<Rightarrow> Inr (Inr (Singular b), cr)
             | InnerSpan raw \<Rightarrow>
                 if \<not> IsDelta cfg (L1Time (Reader_Origin (ChannelOrigin env) cr)) then Inr (Inl (Leveled LevelTemporary), cr)
                 else
                   bind_res (derive (TxLib env) (BlockTime cfg) (GenL2Time (CfgGenesis cfg)) (chain_id cfg) raw) (\<lambda>r.
                     case r of Inl err \<Rightarrow> Inr (Inl OtherError, cr) | Inr b \<Rightarrow> Inr (Inr (Span b), cr)))"

definition Reader_NextBatch :: "Config \<Rightarrow> 's ReaderEnv \<Rightarrow> ('s ChannelInReader, Batch) puller" where
  "Reader_NextBatch cfg env cr =
     (case CrNext cr of
        Some rd \<Rightarrow> next_from_channel cfg env rd cr
      | None \<Rightarrow>
          bind_res (PullChannel env (CrPrev cr)) (\<lambda>(r, prev).
            let cr = cr\<lparr>CrPrev := prev\<rparr>
            in case r of
                 Inl err \<Rightarrow> Inr (Inl err, cr)
               | Inr dat \<Rightarrow>
                   (case WriteChannel cfg env dat cr of
                      None \<Rightarrow> Inr (Inl (Leveled LevelTemporary), cr)
                    | Some cr \<Rightarrow> next_from_channel cfg env (the (CrNext cr)) cr)))"

definition Reader_Reset :: "'s ChannelInReader \<Rightarrow> derive_error \<times> 's ChannelInReader" where
  "Reader_Reset cr = (IoEOF, cr\<lparr>CrNext := None\<rparr>)"

definition Reader_FlushChannel :: "'s ReaderEnv \<Rightarrow> 's ChannelInReader \<Rightarrow> 's ChannelInReader res" where
  "Reader_FlushChannel env cr = bind_res (FlushPrev env (CrPrev cr)) (\<lambda>prev. Inr (cr\<lparr>CrNext := None, CrPrev := prev\<rparr>))"

section \<open>The reader keeps the contract\<close>

text \<open>Channel sources that can be flushed, with the order of a rank.\<close>

locale channel_source = stage pull origin ok "inv_image V rank" "\<lambda>dat. True"
  for pull :: "('s, byte list) puller" and origin :: "'s \<Rightarrow> L1BlockRef" and ok :: "'s \<Rightarrow> bool" and V :: "('r \<times> 'r) set"
    and rank :: "'s \<Rightarrow> 'r" +
  fixes flush :: "'s \<Rightarrow> 's res"
  assumes wf_V: "wf V" and trans_V: "trans V"
    and flush_ok: "ok s \<Longrightarrow> \<exists>s'. flush s = Inr s' \<and> ok s' \<and> origin s' = origin s \<and> (rank s' = rank s \<or> (rank s', rank s) \<in> V)"

definition reader_left :: "'s ChannelInReader \<Rightarrow> nat" where
  "reader_left cr = (case CrNext cr of None \<Rightarrow> 0 | Some rd \<Rightarrow> Suc (length (RdItems rd)))"

definition reader_rank :: "('s \<Rightarrow> 'r) \<Rightarrow> 's ChannelInReader \<Rightarrow> 'r \<times> nat" where
  "reader_rank rank cr = (rank (CrPrev cr), reader_left cr)"

definition reader_ok :: "('s \<Rightarrow> bool) \<Rightarrow> 's ChannelInReader \<Rightarrow> bool" where
  "reader_ok ok cr \<longleftrightarrow> ok (CrPrev cr)"

text \<open>A span that is read can be derived, and is not empty.\<close>

lemma read_batch_span:
  assumes "read_batch lib rd = Some (InnerSpan raw, rd')"
  shows "\<exists>r. derive lib blockTime genesis chainID raw = Inr r \<and> (\<forall>b. r = Inr b \<longrightarrow> Batches b \<noteq> [])"
proof -
  obtain bs rest where "decode_raw lib bs = Inr (raw, rest)"
    using assms by (auto simp: read_batch_def decodeTypedBatch_def need_def res_simps split: list.splits sum.splits if_splits option.splits)
  from derive_decoded [OF this, of blockTime genesis chainID] show ?thesis by (auto simp: span_shape_def GetBlockCount_def)
qed

lemma next_from_channel_ok:
  assumes rd: "RdItems rd = RdItems rd0" "reader_left cr \<le> Suc (length (RdItems rd0))"
  shows "\<exists>r cr'. next_from_channel cfg env rd cr = Inr (r, cr') \<and> CrPrev cr' = CrPrev cr \<and> good_outcome batch_wf r \<and>
    (retry r \<longrightarrow> reader_left cr' < Suc (length (RdItems rd)))"
proof (cases "read_batch (TxLib env) rd")
  case None
  then show ?thesis by (simp add: next_from_channel_def NextChannel_def reader_left_def)
next
  case (Some p)
  obtain dat rd' where p: "p = (dat, rd')" by (cases p)
  then have less: "length (RdItems rd') < length (RdItems rd)"
    using Some by (auto simp: read_batch_def split: list.splits sum.splits)
  show ?thesis
  proof (cases dat)
    case (InnerSingular b)
    then show ?thesis using Some p less by (simp add: next_from_channel_def Let_def reader_left_def batch_wf_def)
  next
    case (InnerSpan raw)
    obtain r where r: "derive (TxLib env) (BlockTime cfg) (GenL2Time (CfgGenesis cfg)) (chain_id cfg) raw = Inr r" "\<forall>b. r = Inr b \<longrightarrow> Batches b \<noteq> []"
      using read_batch_span [of "TxLib env" rd raw rd'] Some p InnerSpan by blast
    show ?thesis
    proof (cases "IsDelta cfg (L1Time (Reader_Origin (ChannelOrigin env) (cr\<lparr>CrNext := Some rd'\<rparr>)))")
      case True
      then show ?thesis using Some p less InnerSpan r
        by (cases r) (simp_all add: next_from_channel_def Let_def reader_left_def batch_wf_def)
    next
      case False
      then show ?thesis using Some p InnerSpan by (simp add: next_from_channel_def Let_def)
    qed
  qed
qed

context channel_source
begin

abbreviation reader_env :: "decompressors \<Rightarrow> tx_lib \<Rightarrow> 's ReaderEnv" where
  "reader_env dec lib \<equiv> \<lparr>PullChannel = pull, ChannelOrigin = origin, FlushPrev = flush, Decompress = dec, TxLib = lib\<rparr>"

abbreviation reader_order :: "(('r \<times> nat) \<times> ('r \<times> nat)) set" where
  "reader_order \<equiv> V <*lex*> less_than"

lemma Reader_ok:
  assumes "reader_ok ok cr"
  shows "\<exists>r cr'. Reader_NextBatch cfg (reader_env dec lib) cr = Inr (r, cr') \<and> reader_ok ok cr' \<and>
    Reader_Origin origin cr' = Reader_Origin origin cr \<and> good_outcome batch_wf r \<and>
    (retry r \<longrightarrow> (reader_rank rank cr', reader_rank rank cr) \<in> reader_order)"
proof (cases "CrNext cr")
  case (Some rd)
  obtain r cr' where "next_from_channel cfg (reader_env dec lib) rd cr = Inr (r, cr')" "CrPrev cr' = CrPrev cr" "good_outcome batch_wf r"
    "retry r \<longrightarrow> reader_left cr' < Suc (length (RdItems rd))"
    using next_from_channel_ok [of rd rd cr cfg "reader_env dec lib"] Some by (auto simp: reader_left_def)
  then show ?thesis using assms Some
    by (auto simp: Reader_NextBatch_def reader_ok_def Reader_Origin_def reader_rank_def reader_left_def)
next
  case None
  obtain r prev where p: "pull (CrPrev cr) = Inr (r, prev)" "ok prev" "origin prev = origin (CrPrev cr)" "good_outcome (\<lambda>dat. True) r"
    "retry r \<longrightarrow> (prev, CrPrev cr) \<in> inv_image V rank" using assms by (auto simp: reader_ok_def elim: pullE)
  show ?thesis
  proof (cases r)
    case (Inl err)
    then show ?thesis using None p
      by (auto simp: Reader_NextBatch_def reader_ok_def Reader_Origin_def reader_rank_def)
  next
    case (Inr dat)
    let ?cr = "cr\<lparr>CrPrev := prev\<rparr>"
    show ?thesis
    proof (cases "WriteChannel cfg (reader_env dec lib) dat ?cr")
      case w: None
      then show ?thesis using None p Inr by (simp add: Reader_NextBatch_def reader_ok_def Reader_Origin_def)
    next
      case (Some cr2)
      then obtain rd where cr2: "cr2 = ?cr\<lparr>CrNext := Some rd\<rparr>" by (auto simp: WriteChannel_def Let_def)
      obtain r' cr' where "next_from_channel cfg (reader_env dec lib) rd cr2 = Inr (r', cr')" "CrPrev cr' = CrPrev cr2" "good_outcome batch_wf r'"
        using next_from_channel_ok [of rd rd cr2 cfg "reader_env dec lib"] cr2 by (auto simp: reader_left_def)
      then show ?thesis using None p Inr Some cr2
        by (auto simp: Reader_NextBatch_def reader_ok_def Reader_Origin_def reader_rank_def)
    qed
  qed
qed

end

sublocale channel_source \<subseteq> reader: batch_source "Reader_NextBatch cfg (reader_env dec lib)" "Reader_Origin origin" "reader_ok ok" reader_order
    "reader_rank rank" "Reader_FlushChannel (reader_env dec lib)" for cfg dec lib
proof
  show "wf reader_order" by (rule wf_lex_prod [OF wf_V wf_less_than])
  then show "wf (inv_image reader_order (reader_rank rank))" by (rule wf_inv_image)
  show "trans reader_order" by (rule trans_lex_prod [OF trans_V trans_less_than])
  show "\<exists>r cr'. Reader_NextBatch cfg (reader_env dec lib) cr = Inr (r, cr') \<and> reader_ok ok cr' \<and>
      Reader_Origin origin cr' = Reader_Origin origin cr \<and> good_outcome batch_wf r" if "reader_ok ok cr" for cr
    using Reader_ok [OF that, of cfg dec lib] by blast
  show "(cr', cr) \<in> inv_image reader_order (reader_rank rank)"
    if "reader_ok ok cr" "Reader_NextBatch cfg (reader_env dec lib) cr = Inr (r, cr')" "retry r" for cr r cr'
    using Reader_ok [OF that(1), of cfg dec lib] that(2,3) by auto
  show "\<exists>cr'. Reader_FlushChannel (reader_env dec lib) cr = Inr cr' \<and> reader_ok ok cr' \<and> Reader_Origin origin cr' = Reader_Origin origin cr \<and>
      (reader_rank rank cr' = reader_rank rank cr \<or> (reader_rank rank cr', reader_rank rank cr) \<in> reader_order)" if ok: "reader_ok ok cr" for cr
  proof -
    obtain prev where "flush (CrPrev cr) = Inr prev" "ok prev" "origin prev = origin (CrPrev cr)"
      "rank prev = rank (CrPrev cr) \<or> (rank prev, rank (CrPrev cr)) \<in> V" using flush_ok ok by (auto simp: reader_ok_def)
    then show ?thesis
      by (cases "CrNext cr") (auto simp: Reader_FlushChannel_def reader_ok_def Reader_Origin_def reader_rank_def reader_left_def)
  qed
qed

section \<open>The assembler as a channel source\<close>

sublocale frame_stage \<subseteq> chan: channel_source "Assembler_pull cfg pull origin" "Assembler_Origin origin" "assembler_ok ok" "R\<^sup>+" AsPrev
    "\<lambda>ca. Inr (resetChannel ca)" for cfg
proof
  show "wf (inv_image (R\<^sup>+) (AsPrev :: 's ChannelAssembler \<Rightarrow> 's))" using asm.wf_R by (simp only: assembler_left_def)
  show "\<exists>r s'. Assembler_pull cfg pull origin s = Inr (r, s') \<and> assembler_ok ok s' \<and>
      Assembler_Origin origin s' = Assembler_Origin origin s \<and> good_outcome (\<lambda>dat. True) r" if "assembler_ok ok s" for s
    by (rule asm.pull_ok [OF that])
  show "(s', s) \<in> inv_image (R\<^sup>+) AsPrev" if "assembler_ok ok s" "Assembler_pull cfg pull origin s = Inr (r, s')" "retry r" for s r s'
    using asm.progress [OF that] by (simp only: assembler_left_def)
  show "wf (R\<^sup>+)" by (rule wf_trancl [OF wf_R])
  show "trans (R\<^sup>+)" by (rule trans_trancl)
  show "\<exists>s'. Inr (resetChannel s) = Inr s' \<and> assembler_ok ok s' \<and> Assembler_Origin origin s' = Assembler_Origin origin s \<and>
      (AsPrev s' = AsPrev s \<or> (AsPrev s', AsPrev s) \<in> R\<^sup>+)" if "assembler_ok ok s" for s
    using that by (auto simp: resetChannel_def assembler_ok_def Assembler_Origin_def)
qed

section \<open>The Holocene batch stage over the pipeline\<close>

type_synonym 'e holocene_channels = "'e L1Retrieval FrameQueue ChannelAssembler"

definition channels_env :: "Config \<Rightarrow> 'e Fetcher \<Rightarrow> DataSourceFactory \<Rightarrow> decompressors \<Rightarrow> tx_lib \<Rightarrow> 'e holocene_channels ReaderEnv" where
  "channels_env cfg f src dec lib =
     \<lparr>PullChannel = Assembler_pull cfg (frames_of cfg f src) (FrameQueue_Origin Retrieval_Origin),
      ChannelOrigin = Assembler_Origin (FrameQueue_Origin Retrieval_Origin), FlushPrev = (\<lambda>ca. Inr (resetChannel ca)),
      Decompress = dec, TxLib = lib\<rparr>"

definition batches_env ::
    "Config \<Rightarrow> 'e Fetcher \<Rightarrow> DataSourceFactory \<Rightarrow> decompressors \<Rightarrow> tx_lib \<Rightarrow> SafeBlockFetcher \<Rightarrow> 'e holocene_channels ChannelInReader BatchEnv" where
  "batches_env cfg f src dec lib l2 =
     \<lparr>PullBatch = Reader_NextBatch cfg (channels_env cfg f src dec lib),
      PrevOrigin = Reader_Origin (Assembler_Origin (FrameQueue_Origin Retrieval_Origin)),
      PrevFlush = Reader_FlushChannel (channels_env cfg f src dec lib), L2Fetcher = l2\<rparr>"

abbreviation holocene_ok :: "'e holocene_channels ChannelInReader BatchBase \<Rightarrow> bool" where
  "holocene_ok bs \<equiv> reader_ok (assembler_ok (queue_ok retrieval_ok)) (BsPrev bs)"

definition holocene_origin :: "'e holocene_channels ChannelInReader BatchBase \<Rightarrow> L1BlockRef" where
  "holocene_origin bs = Reader_Origin (Assembler_Origin (FrameQueue_Origin Retrieval_Origin)) (BsPrev bs)"

text \<open>What is asked of the parent: the next timestamp does not wrap around, and the L1 origin is in Holocene.\<close>

definition holocene_parent :: "Config \<Rightarrow> 'e holocene_channels ChannelInReader BatchBase \<Rightarrow> L2BlockRef \<Rightarrow> bool" where
  "holocene_parent cfg bs parent \<longleftrightarrow>
     unat (L2Time parent) + unat (BlockTime cfg) < 2 ^ 64 \<and> BlockTime cfg \<noteq> 0 \<and> IsHolocene cfg (L1Time (holocene_origin bs))"

lemma holocene_parentD:
  assumes "holocene_parent cfg bs parent"
  shows "unat (L2Time parent) + unat (BlockTime cfg) < 2 ^ 64" "BlockTime cfg \<noteq> 0"
    "IsHolocene cfg (L1Time (Reader_Origin (Assembler_Origin (FrameQueue_Origin Retrieval_Origin)) (BsPrev bs)))"
  using assms by (simp_all add: holocene_parent_def holocene_origin_def)

text \<open>C6: One call of the Holocene batch stage over the whole pipeline, from L1 transactions to batches, whatever the L1 client, the
  decompressors and the L2 client answer: it returns without a panic, what it returns is a singular batch the rules
  accept or a forced empty batch, and a critical error comes only when fewer than two L1 blocks are known or a span
  passes the prefix check although the epoch of a new block is not among the L1 blocks.\<close>

theorem holocene_batch_call:
  fixes bs :: "'e holocene_channels ChannelInReader BatchBase" and parent :: L2BlockRef
  assumes "holocene_ok bs" "holocene_parent cfg bs parent"
  shows "\<exists>r bs'. BatchStage_NextBatch cfg (batches_env cfg f src dec lib l2) parent bs = Inr (r, bs') \<and> holocene_ok bs' \<and>
    holocene_origin bs' = holocene_origin bs \<and> good_batch cfg parent bs' r \<and>
    (r = Inl (Leveled LevelCritical) \<longrightarrow>
       length (BsL1Blocks (updateOrigins (PrevOrigin (batches_env cfg f src dec lib l2)) parent bs)) < 2 \<or>
       lagging_span cfg (batches_env cfg f src dec lib l2) parent (updateOrigins (PrevOrigin (batches_env cfg f src dec lib l2)) parent bs))"
proof -
  note a = holocene_parentD [OF assms(2)]
  show ?thesis
    using retrieval.fq.chan.reader.NextBatch_ok [of bs parent cfg cfg cfg cfg f src dec lib l2, OF assms(1) a(1,3,2)]
    unfolding holocene_origin_def batches_env_def channels_env_def by auto
qed

text \<open>C20: Asking the Holocene batch stage again while it says NotEnoughData ends: after finitely many calls it returns an
  accepted or forced empty batch, io.EOF, or another error, in a well-formed state at the same L1 origin.\<close>

theorem holocene_batch_settles:
  fixes bs :: "'e holocene_channels ChannelInReader BatchBase" and parent :: L2BlockRef
  assumes "holocene_ok bs" "holocene_parent cfg bs parent"
  shows "\<exists>r bs'. settles (BatchStage_NextBatch cfg (batches_env cfg f src dec lib l2) parent) bs r bs' \<and> holocene_ok bs' \<and>
    holocene_origin bs' = holocene_origin bs \<and> r \<noteq> Inl NotEnoughData \<and> good_batch cfg parent bs' r"
proof -
  note a = holocene_parentD [OF assms(2)]
  have "\<exists>r bs'. settles (BatchStage_NextBatch cfg (batches_env cfg f src dec lib l2) parent) bs r bs' \<and> holocene_ok bs' \<and>
      holocene_origin bs' = holocene_origin bs \<and> good_batch cfg parent bs' r"
    unfolding holocene_origin_def batches_env_def channels_env_def
    by (rule retrieval.fq.chan.reader.NextBatch_settles [OF a(1,2) assms(1) a(3)])
  then show ?thesis using settles_end by metis
qed

definition sample_stage :: "unit holocene_channels ChannelInReader BatchBase" where
  "sample_stage = newBaseBatchStage (NewChannelInReader (fresh_assembler [[0, 1]]))"

lemma sample_stage_ok:
  "holocene_ok sample_stage" "holocene_parent (sample_config\<lparr>FjordTime := Some 0, GraniteTime := Some 0, HoloceneTime := Some 0\<rparr>) sample_stage sample_head"
  using fresh_assembler_ok [of "[[0, 1]]"]
  by (simp_all add: sample_stage_def newBaseBatchStage_def NewChannelInReader_def reader_ok_def holocene_parent_def IsHolocene_def
      fork_active_def sample_head_def sample_config_def)

theorem holocene_batch_call_witness:
  "\<forall>src dec lib. \<exists>r bs'. BatchStage_NextBatch (sample_config\<lparr>FjordTime := Some 0, GraniteTime := Some 0, HoloceneTime := Some 0\<rparr>)
     (batches_env (sample_config\<lparr>FjordTime := Some 0, GraniteTime := Some 0, HoloceneTime := Some 0\<rparr>) no_fetcher src dec lib no_l2)
     sample_head sample_stage = Inr (r, bs')"
  using holocene_batch_call [OF sample_stage_ok] by blast

theorem holocene_batch_settles_witness:
  "\<forall>src dec lib. \<exists>r bs'. settles (BatchStage_NextBatch (sample_config\<lparr>FjordTime := Some 0, GraniteTime := Some 0, HoloceneTime := Some 0\<rparr>)
     (batches_env (sample_config\<lparr>FjordTime := Some 0, GraniteTime := Some 0, HoloceneTime := Some 0\<rparr>) no_fetcher src dec lib no_l2)
     sample_head) sample_stage r bs' \<and> r \<noteq> Inl NotEnoughData"
  using holocene_batch_settles [OF sample_stage_ok] by blast

end
