(* ===== verification/Spec2Isabelle.thy ===== *)
theory Spec2Isabelle
  imports Scheduler State_Codec Game_Play Game_Split Trackers Program_Image Program_Run Derive_Reader
begin

text \<open>
  A verification development for Go code of the OP ZisK repository.  The repository pins the Optimism monorepo
  under \<open>src/archive/contracts/lib/optimism\<close>; its fault-proof stack is the program logic modelled here.  Paths
  below are relative to that directory.

  \<^bold>\<open>The parts and how they interact.\<close>  A dispute game (\<open>op-challenger/game/fault\<close>) bisects an execution trace
  claim by claim.  The challenger's solver decides from the claims of a game and a provider of the correct
  trace which moves and steps to make; at the leaves of the bottom game a step is one instruction of Cannon
  (\<open>cannon/mipsevm\<close>), a MIPS64 virtual machine whose memory is merkleized, so that the contracts can replay one
  step from a witness.  The ELF loader prepares Cannon's initial state.  What the disputed outputs commit to is the L2
  chain that the derivation pipeline (\<open>op-node/rollup/derive\<close>) computes from L1: the program proved by OP ZisK.

  \<^bold>\<open>Cannon.\<close>  \<open>Prelude\<close>: the panic monad, big-endian encodings.  \<open>Arch\<close>: the constants of \<open>arch/arch64.go\<close>,
  registers and CPU scalars.  \<open>Page\<close>, \<open>Memory\<close>, \<open>Memory_IO\<close>: \<open>memory/page.go\<close>, \<open>memory.go\<close>, \<open>binary_tree.go\<close>, with
  pages as objects of an explicit store, since page table and lookup cache alias them; \<open>Memory_Words\<close> and
  \<open>Memory_Merkle\<close> prove that word access refines a map and that cached Merkle nodes equal the recomputed
  tree.  \<open>Instructions\<close>, \<open>CoreStep\<close>: \<open>exec/mips_instructions.go\<close> and the memory tracker; \<open>Instruction_Laws\<close> their
  safety and the arithmetic facts.  \<open>Syscalls\<close>: \<open>exec/mips_syscalls.go\<close> and \<open>exec/preimage.go\<close>, the oracle a
  parameter.  \<open>VMState\<close>, \<open>MTStep\<close>: \<open>multithreaded/state.go\<close>, \<open>mips.go\<close>: threads on two stacks, load-linked and
  store-conditional, one \<open>definition\<close> per handler.  \<open>VM_Invariant\<close>, \<open>VM_Step\<close>, \<open>VM_Run\<close>: the machine invariant and
  its preservation by every handler.  \<open>FPVM\<close>: \<open>instrumented.go\<close>, the reachable states as an inductive relation.
  \<open>Scheduler\<close>: fairness of preemption and the store-conditional.  \<open>Witness\<close>, \<open>State_Codec\<close>: witness encodings
  and binary snapshots.  \<open>Trackers\<close>: call stacks, statistics and symbol tables, folded over the events the
  step model logs.  \<open>Memory_Load\<close>, \<open>Loader\<close>, \<open>Program_Image\<close>: \<open>program/load.go\<close> and \<open>patch.go\<close>, for any state
  that obeys the interface locales \<open>fpvm_state\<close> and \<open>fpvm_registers\<close>, interpreted on the multithreaded VM.
  \<open>Program_Run\<close>: \<open>cannon/cmd/load_elf.go\<close> and the runs of a loaded program: the machine invariant holds in every
  state they reach.

  \<^bold>\<open>The dispute game.\<close>  \<open>Game_Position\<close>: \<open>types/position.go\<close> and the error monad of the package.
  \<open>Game_State\<close>: \<open>types/types.go\<close>, \<open>game.go\<close>, \<open>actions.go\<close>.  \<open>Game_Tree\<close>: ancestor walks, over the locale
  \<open>claim_forest\<close>.  \<open>Game_Trace\<close>: \<open>trace/access.go\<close>, \<open>translate.go\<close>, the split of top and bottom game and the alphabet
  provider.  \<open>Game_Solver\<close>, \<open>Game_Rules\<close>: \<open>solver/*.go\<close>.  \<open>Game_Safety\<close>, \<open>Game_Obeys\<close>: the invariant of the
  honest-claim tracker and the proof that the solver's actions obey the rules, for every provider of the
  locale \<open>correct_provider\<close>.  \<open>Game_Play\<close>: games reachable by moves of both sides.  \<open>Game_Split\<close>: what the
  split selector passes to the bottom game.

  \<^bold>\<open>The derivation pipeline.\<close>  \<open>Rollup_Config\<close>: \<open>op-node/rollup/types.go\<close>, \<open>chain_spec.go\<close>.  \<open>Derive_Frame\<close>,
  \<open>Derive_Channel\<close>: frames and channels.  \<open>Derive_Stage\<close>: errors and the locale \<open>stage\<close>, the contract of every stage: a
  pull does not panic, keeps the invariant and the L1 origin, and makes progress in a well-founded order.
  \<open>Derive_Queue\<close>, \<open>Derive_Bank\<close>, \<open>Derive_Assembler\<close>: \<open>frame_queue.go\<close>, \<open>channel_bank.go\<close>, \<open>channel_assembler.go\<close>, each a
  \<open>sublocale\<close> that turns the contract of the stage below into its own.  \<open>Derive_SysCfg\<close>: system configuration events;
  \<open>Blob_Codec\<close>: \<open>op-service/eth/blob.go\<close>; \<open>Derive_Source\<close>: traversal, retrieval and data sources over a record of L1
  client functions, the interpretation the contracts rest on.  \<open>Derive_Pipeline\<close>: the composition; \<open>Derive_Mux\<close>: the
  switch of channel stages at Holocene.  \<open>Derive_L1Info\<close>: \<open>l1_block_info.go\<close>, \<open>deposit_source.go\<close>, \<open>payload_util.go\<close>, the L1
  attributes deposit in its four formats and what is read back from it; \<open>Derive_Deposit\<close>: \<open>deposit_log.go\<close> and
  \<open>deposits.go\<close>, user deposits from the receipts of a block.

  \<^bold>\<open>Batches.\<close>  \<open>Batch_Check\<close>: the data of singular and span batches and the rules of \<open>batches.go\<close>; \<open>Batch_Span\<close>: an accepted
  span is a sequence of accepted singular batches.  \<open>Span_Bits\<close>, \<open>Span_Txs\<close>, \<open>Span_Codec\<close>: the span batch codec of
  \<open>span_batch_util.go\<close>, \<open>span_batch_tx.go\<close>, \<open>span_batch_txs.go\<close>, \<open>span_batch.go\<close> and \<open>batch.go\<close>, as readers over the bytes left;
  \<open>Span_Columns\<close> and \<open>Span_Laws\<close> prove the round trip from singular batches to bytes and back and the shape of
  whatever is decoded.  \<open>Batch_Stage\<close>: \<open>base_batch_stage.go\<close>, \<open>batch_stage.go\<close>, \<open>batch_queue.go\<close>, \<open>batch_mux.go\<close>;
  \<open>Batch_Laws\<close> proves the Holocene stage over the locale \<open>batch_source\<close>: no panic, which batches are returned, the causes of a
  critical error, and that retrying ends.  \<open>Derive_Reader\<close>: \<open>BatchReader\<close> and \<open>channel_in_reader.go\<close>; the locale
  \<open>channel_source\<close>, interpreted on the channel assembler over the pipeline, gives a batch source, so the laws hold from
  L1 transactions to batches.

  \<^bold>\<open>Bounds and fuel.\<close>  Machine integers have their width.  Loops that follow the data are structural or have a
  measure; the ancestor walk, which may run forever on a cyclic claim list, and the frame loop of the channel
  assembler, which ends only because its source does, are \<open>partial_function\<close>s, and their return is proved.  No definition has fuel.  The hash function, the pre-image oracle, the readers of an ELF
  file, the sort of its symbols, the LRU cache, the L1 and L2 clients, decompression, function selectors, and go-ethereum's
  transaction and RLP encodings (the record \<open>tx_lib\<close>) are parameters; \<open>make\<close> panics above the 64-bit allocator's
  limit and is otherwise assumed to succeed.

  \<^bold>\<open>Not modelled.\<close>  The 32-bit build of Cannon, JSON and zlib encodings, printing and logging; the
  challenger's schedulers, RPC clients and transactions; Alt-DA, payload attributes and their upgrade transactions,
  the attributes queue, the step function and the engine controller of the derivation pipeline; generated bindings; the
  test presets, which only wire services together; and the code of other languages.
\<close>

end
